(* ===== verification/NE_Prelude.thy ===== *)
theory NE_Prelude
  imports Main "HOL-Library.Word" "HOL-Library.Monad_Syntax" "HOL-Library.Multiset"
begin

text \<open>
  Shared ground of the development: the C integer types, byte buffers with bounds-checked
  accesses, big-endian fields, bounded linear searches, and two interface locales
  (\<open>event_system\<close> for components driven by a stream of events, \<open>bounded_fifo\<close> for the
  rings and pools).

  A byte buffer is a list whose length is the capacity of the C object. A read or write
  outside it is undefined behaviour in C; here it is the value \<^const>\<open>None\<close> of the type
  \<open>'a mem\<close>, so that a theorem of the form \<open>f b = Some r\<close> also says that every access
  made by \<open>f\<close> stays inside the object.
\<close>

unbundle bit_operations_syntax

section \<open>Types and fact collections\<close>

type_synonym u8 = "8 word"
type_synonym u16 = "16 word"
type_synonym u32 = "32 word"
type_synonym u64 = "64 word"
type_synonym buf = "u8 list"
type_synonym 'a mem = "'a option"

named_theorems mem_simps \<open>bounds-checked buffer accesses\<close>
named_theorems inv_intros \<open>operations that keep an invariant\<close>

section \<open>Byte buffers\<close>

definition slice :: "'a list \<Rightarrow> nat \<Rightarrow> nat \<Rightarrow> 'a list" where
  "slice b off n = take n (drop off b)"

definition patch :: "'a list \<Rightarrow> nat \<Rightarrow> 'a list \<Rightarrow> 'a list" where
  "patch b off xs = take off b @ xs @ drop (off + length xs) b"

definition rd8 :: "buf \<Rightarrow> nat \<Rightarrow> u8 mem" where
  "rd8 b i = (if i < length b then Some (b ! i) else None)"

definition rdn :: "buf \<Rightarrow> nat \<Rightarrow> nat \<Rightarrow> buf mem" where
  "rdn b off n = (if off + n \<le> length b then Some (slice b off n) else None)"

definition wrn :: "buf \<Rightarrow> nat \<Rightarrow> buf \<Rightarrow> buf mem" where
  "wrn b off xs = (if off + length xs \<le> length b then Some (patch b off xs) else None)"

definition wr8 :: "buf \<Rightarrow> nat \<Rightarrow> u8 \<Rightarrow> buf mem" where
  "wr8 b i v = wrn b i [v]"

text \<open>\<open>memmove\<close> inside one buffer: the source bytes are read before the target is written.\<close>

definition mmove :: "buf \<Rightarrow> nat \<Rightarrow> nat \<Rightarrow> nat \<Rightarrow> buf mem" where
  "mmove b dst src n = do { xs \<leftarrow> rdn b src n; wrn b dst xs }"

lemma length_slice [simp]: "length (slice b off n) = min n (length b - off)"
  by (simp add: slice_def)

lemma length_patch [simp]: "off + length xs \<le> length b \<Longrightarrow> length (patch b off xs) = length b"
  by (simp add: patch_def)

lemma nth_slice [simp]: "off + n \<le> length b \<Longrightarrow> i < n \<Longrightarrow> slice b off n ! i = b ! (off + i)"
  by (simp add: slice_def)

lemma nth_patch:
  assumes "off + length xs \<le> length b"
  shows "patch b off xs ! i = (if off \<le> i \<and> i < off + length xs then xs ! (i - off) else b ! i)"
proof (cases "i < off")
  case True
  with assms show ?thesis by (simp add: patch_def nth_append)
next
  case False
  with assms show ?thesis
    by (cases "i < off + length xs") (auto simp: patch_def nth_append)
qed

lemma slice_nth_eqI:
  "\<lbrakk>off + n \<le> length a; off' + n \<le> length b; \<And>i. i < n \<Longrightarrow> a ! (off + i) = b ! (off' + i)\<rbrakk>
   \<Longrightarrow> slice a off n = slice b off' n"
  by (rule nth_equalityI) auto

lemma slice_patch_same:
  "off + length xs \<le> length b \<Longrightarrow> n = length xs \<Longrightarrow> slice (patch b off xs) off n = xs"
  by (simp add: slice_def patch_def)

lemma slice_patch_disjoint:
  assumes "off + length xs \<le> length b" and "o2 + n \<le> length b"
    and "o2 + n \<le> off \<or> off + length xs \<le> o2"
  shows "slice (patch b off xs) o2 n = slice b o2 n"
  using assms by (intro slice_nth_eqI) (auto simp: nth_patch)

lemma slice_patch_inside:
  assumes "off + length xs \<le> length b" and "off \<le> o2" and "o2 + n \<le> off + length xs"
  shows "slice (patch b off xs) o2 n = slice xs (o2 - off) n"
  using assms by (intro slice_nth_eqI) (auto simp: nth_patch)

lemma slice_patch_within:
  assumes "off + m \<le> length b" and "k + length xs \<le> m"
  shows "slice (patch b (off + k) xs) off m = patch (slice b off m) k xs"
  using assms by (intro nth_equalityI) (auto simp: nth_patch)

lemma slice_append: "n = length xs + m \<Longrightarrow> slice (xs @ ys) 0 n = xs @ slice ys 0 m"
  by (simp add: slice_def)

lemma slice_slice: "i + m \<le> n \<Longrightarrow> slice (slice b off n) i m = slice b (off + i) m"
  by (simp add: slice_def drop_take add.commute min_def)

lemma slice_full [simp]: "n = length b \<Longrightarrow> slice b 0 n = b"
  by (simp add: slice_def)

lemma slice_0 [simp]: "slice b off 0 = []"
  by (simp add: slice_def)

lemma slice_split: "n = m + k \<Longrightarrow> slice b off n = slice b off m @ slice b (off + m) k"
  by (simp only: slice_def take_add drop_drop) (simp add: add.commute)

lemma rd8_ok [simp, mem_simps]: "i < length b \<Longrightarrow> rd8 b i = Some (b ! i)"
  by (simp add: rd8_def)

lemma rdn_ok [simp, mem_simps]: "off + n \<le> length b \<Longrightarrow> rdn b off n = Some (slice b off n)"
  by (simp add: rdn_def)

lemma wrn_ok [simp, mem_simps]: "off + length xs \<le> length b \<Longrightarrow> wrn b off xs = Some (patch b off xs)"
  by (simp add: wrn_def)

lemma wr8_ok [simp, mem_simps]: "i < length b \<Longrightarrow> wr8 b i v = Some (patch b i [v])"
  by (simp add: wr8_def)

lemma mmove_ok [simp, mem_simps]:
  "src + n \<le> length b \<Longrightarrow> dst + n \<le> length b \<Longrightarrow> mmove b dst src n = Some (patch b dst (slice b src n))"
  by (simp add: mmove_def min_def)

lemma patch_pair: "i + 1 < length b \<Longrightarrow> patch (patch b i [x]) (Suc i) [y] = patch b i [x, y]"
  by (rule nth_equalityI) (auto simp: nth_patch)

lemma patch_append:
  "off + length xs + length ys \<le> length b \<Longrightarrow> patch (patch b off xs) (off + length xs) ys = patch b off (xs @ ys)"
  by (rule nth_equalityI) (auto simp: nth_patch nth_append)

lemma patch_over:
  "\<lbrakk>length xs \<le> length ys; off + length ys \<le> length b\<rbrakk> \<Longrightarrow> patch (patch b off xs) off ys = patch b off ys"
  by (rule nth_equalityI) (auto simp: nth_patch)

lemma patch_slice_same: "off + n \<le> length b \<Longrightarrow> patch b off (slice b off n) = b"
  by (rule nth_equalityI) (auto simp: nth_patch)

lemma patch_Nil [simp]: "off \<le> length b \<Longrightarrow> patch b off [] = b"
  by (simp add: patch_def)

lemma patch_in_patch:
  "\<lbrakk>off + length xs \<le> length b; k + length ys \<le> length xs\<rbrakk>
   \<Longrightarrow> patch (patch b off xs) (off + k) ys = patch b off (patch xs k ys)"
  by (rule nth_equalityI) (auto simp: nth_patch)

lemma take_patch_0: "length xs \<le> length b \<Longrightarrow> n = length xs \<Longrightarrow> take n (patch b 0 xs) = xs"
  by (simp add: patch_def)

lemma patch_middle:
  "\<lbrakk>off = length xs; length ys' = length ys\<rbrakk> \<Longrightarrow> patch (xs @ ys @ zs) off ys' = xs @ ys' @ zs"
  by (simp add: patch_def)

lemma wrn_SomeD: "wrn b off xs = Some b' \<Longrightarrow> off + length xs \<le> length b \<and> b' = patch b off xs"
  by (simp add: wrn_def split: if_splits)

lemma mmove_SomeD:
  "mmove b dst src n = Some b' \<Longrightarrow>
   src + n \<le> length b \<and> dst + n \<le> length b \<and> b' = patch b dst (slice b src n)"
  by (auto simp: mmove_def rdn_def wrn_def min_def split: if_splits bind_splits)

lemma rd8_SomeD: "rd8 b i = Some v \<Longrightarrow> i < length b \<and> v = b ! i"
  by (simp add: rd8_def split: if_splits)

lemma rdn_SomeD: "rdn b off n = Some v \<Longrightarrow> off + n \<le> length b \<and> v = slice b off n"
  by (simp add: rdn_def split: if_splits)

lemmas mem_SomeD = wrn_SomeD mmove_SomeD rd8_SomeD rdn_SomeD

section \<open>Big-endian fields\<close>

definition be16 :: "u8 \<Rightarrow> u8 \<Rightarrow> u16" where
  "be16 hi lo = push_bit 8 (ucast hi) OR ucast lo"

definition be16_bytes :: "u16 \<Rightarrow> buf" where
  "be16_bytes x = [ucast (drop_bit 8 x), ucast x]"

definition be32 :: "u8 \<Rightarrow> u8 \<Rightarrow> u8 \<Rightarrow> u8 \<Rightarrow> u32" where
  "be32 a b c d = push_bit 24 (ucast a) OR push_bit 16 (ucast b) OR push_bit 8 (ucast c) OR ucast d"

definition be32_bytes :: "u32 \<Rightarrow> buf" where
  "be32_bytes x = [ucast (drop_bit 24 x), ucast (drop_bit 16 x), ucast (drop_bit 8 x), ucast x]"

lemma length_be [simp]: "length (be16_bytes x) = 2" "length (be32_bytes y) = 4"
  by (simp_all add: be16_bytes_def be32_bytes_def)

lemma be16_roundtrip [simp]: "be16 (ucast (drop_bit 8 x)) (ucast x) = x"
proof (rule bit_word_eqI)
  fix n :: nat
  assume "n < LENGTH(16)"
  then show "bit (be16 (ucast (drop_bit 8 x)) (ucast x)) n = bit x n"
    by (cases "n < 8") (auto simp: be16_def bit_simps)
qed

lemma be32_roundtrip [simp]:
  "be32 (ucast (drop_bit 24 x)) (ucast (drop_bit 16 x)) (ucast (drop_bit 8 x)) (ucast x) = x"
proof (rule bit_word_eqI)
  fix n :: nat
  assume n: "n < LENGTH(32)"
  consider "n < 8" | "8 \<le> n" "n < 16" | "16 \<le> n" "n < 24" | "24 \<le> n" by linarith
  then show "bit (be32 (ucast (drop_bit 24 x)) (ucast (drop_bit 16 x))
      (ucast (drop_bit 8 x)) (ucast x)) n = bit x n"
    by cases (use n in \<open>auto simp: be32_def bit_simps\<close>)
qed

text \<open>\<open>ntohl\<close> and \<open>htonl\<close> on the little-endian target: reverse the four bytes.\<close>

definition bswap32 :: "u32 \<Rightarrow> u32" where
  "bswap32 x = be32 (ucast x) (ucast (drop_bit 8 x)) (ucast (drop_bit 16 x)) (ucast (drop_bit 24 x))"

lemma bit_u8_high: "8 \<le> n \<Longrightarrow> \<not> bit (x :: u8) n"
  using bit_imp_le_length [of x n] by auto

lemma be16_byte: "ucast (be16 a b) = b" "ucast (drop_bit 8 (be16 a b)) = a"
  by (rule bit_word_eqI; auto simp: be16_def bit_simps bit_u8_high)+

lemma be32_byte:
  "ucast (be32 a b c d) = d" "ucast (drop_bit 8 (be32 a b c d)) = c"
  "ucast (drop_bit 16 (be32 a b c d)) = b" "ucast (drop_bit 24 (be32 a b c d)) = a"
  by (rule bit_word_eqI; auto simp: be32_def bit_simps bit_u8_high)+

lemma bswap32_bswap32 [simp]: "bswap32 (bswap32 x) = x"
  unfolding bswap32_def by (simp only: be32_byte be32_roundtrip)

lemma bswap32_inj: "bswap32 x = bswap32 y \<longleftrightarrow> x = y"
  by (metis bswap32_bswap32)

text \<open>One round of the end-around carry of the Internet checksum.\<close>

lemma unat_drop16: "unat (drop_bit 16 (s :: u32)) = unat s div 65536"
  by (subst unat_drop_bit_eq) (simp add: drop_bit_eq_div)

lemma unat_fold_step:
  "unat ((s AND 0xFFFF) + drop_bit 16 s :: u32) = unat s mod 65536 + unat s div 65536"
proof -
  have "s AND 0xFFFF = take_bit 16 s" by (simp add: take_bit_eq_mask mask_eq_exp_minus_1)
  then have "unat (s AND 0xFFFF) = take_bit 16 (unat s)" by (simp only: unsigned_take_bit_eq)
  then have m: "unat (s AND 0xFFFF) = unat s mod 65536" by (simp add: take_bit_eq_mod)
  have "unat s div 65536 < 65536" "unat s mod 65536 < 65536"
    using unsigned_less [of s] by (auto intro: less_mult_imp_div_less)
  then have "unat s mod 65536 + unat s div 65536 < 2 ^ LENGTH(32)" by simp
  then show ?thesis by (simp only: unat_word_ariths m unat_drop16 mod_less)
qed

lemma drop_bit16_zero: "drop_bit 16 (s :: u32) = 0 \<longleftrightarrow> unat s < 65536"
  using unat_drop16 [of s] unat_eq_zero [of "drop_bit 16 s"] by (simp add: div_eq_0_iff)

lemma fold_decreases: "65536 \<le> (n::nat) \<Longrightarrow> n mod 65536 + n div 65536 < n"
  using mult_div_mod_eq [of 65536 n] div_greater_zero_iff [of n 65536] by linarith

lemma fold_mod_65535: "(n mod 65536 + n div 65536) mod 65535 = (n::nat) mod 65535"
proof -
  have "n = 65535 * (n div 65536) + (n mod 65536 + n div 65536)" using mult_div_mod_eq [of 65536 n] by linarith
  then show ?thesis by (metis mod_mult_self4)
qed

lemma nat_mod_add_cancel: "(a + c) mod n = (b + c) mod n \<longleftrightarrow> a mod n = b mod (n::nat)"
proof -
  have "(x mod n = y mod n) \<longleftrightarrow> int n dvd int x - int y" for x y
    by (metis mod_eq_dvd_iff of_nat_eq_iff zmod_int)
  then show ?thesis by simp
qed

lemma unat_not: "unat (NOT (x :: 'a::len word)) = 2 ^ LENGTH('a) - 1 - unat x"
proof -
  have "NOT x = (- 1) - x" by (simp add: not_eq_complement)
  then show ?thesis by (simp add: unat_sub unsigned_minus_1_eq_mask mask_eq_exp_minus_1)
qed

lemma uint_less_int_iff: "uint w < int n \<longleftrightarrow> unat w < n"
  by (simp add: uint_nat del: of_nat_unat)

lemma unat_and_le: "unat (x AND y) \<le> unat (y :: 'a::len word)"
proof -
  have "uint (x AND y) \<le> uint y" by (simp add: unsigned_and_eq AND_upper2)
  then show ?thesis by (simp add: uint_nat del: of_nat_unat)
qed

section \<open>Bounded searches\<close>

text \<open>
  \<open>for (i = 0; i < n; i++) if (P i) return i; return -1;\<close> is \<^term>\<open>find P [0..<n]\<close>, with
  \<^const>\<open>None\<close> for the value \<open>-1\<close>.
\<close>

lemma find_upt_SomeD: "find P [0..<n] = Some i \<Longrightarrow> i < n \<and> P i \<and> (\<forall>j<i. \<not> P j)"
  by (auto simp: find_Some_iff)

lemma find_upt_None: "find P [0..<n] = None \<longleftrightarrow> (\<forall>i<n. \<not> P i)"
  by (auto simp: find_None_iff)

lemma find_upt_SomeI: "i < n \<Longrightarrow> P i \<Longrightarrow> (\<And>j. j < i \<Longrightarrow> \<not> P j) \<Longrightarrow> find P [0..<n] = Some i"
  by (auto simp: find_Some_iff intro!: exI [of _ i])

text \<open>A scan that starts anywhere and goes round modulo \<open>n\<close> visits every index.\<close>

lemma rotation_surj:
  assumes "i < (n::nat)"
  shows "\<exists>off<n. (tie + off) mod n = i"
proof (intro exI conjI)
  have "tie \<le> n * tie" using assms by (cases n) auto
  then have "tie + (i + n * tie - tie) = i + n * tie" by linarith
  then show "(tie + (i + n * tie - tie) mod n) mod n = i"
    using assms by (simp only: mod_add_right_eq) simp
  show "(i + n * tie - tie) mod n < n" using assms by simp
qed

section \<open>Set-associative caches\<close>

text \<open>
  The scan over the ways of one cache set that the flow table, the UDP sequence fallback and
  similar tables share: stop at a valid way that holds the key (\<^const>\<open>Inl\<close>), otherwise end with
  the way to reuse (\<^const>\<open>Inr\<close>): the last unused one, or the valid one with the oldest stamp.
\<close>

fun way_scan :: "(nat \<Rightarrow> bool) \<Rightarrow> (nat \<Rightarrow> bool) \<Rightarrow> (nat \<Rightarrow> 'a::linorder) \<Rightarrow> nat list \<Rightarrow> nat \<Rightarrow> nat + nat" where
  "way_scan valid hit stamp [] victim = Inr victim"
| "way_scan valid hit stamp (way # ways) victim =
     (if valid way \<and> hit way then Inl way
      else if \<not> valid way then way_scan valid hit stamp ways way
      else if stamp way < stamp victim then way_scan valid hit stamp ways way
      else way_scan valid hit stamp ways victim)"

lemma way_scan_Inl: "way_scan valid hit stamp ways v = Inl w \<Longrightarrow> w \<in> set ways \<and> valid w \<and> hit w"
  by (induction valid hit stamp ways v rule: way_scan.induct) (auto split: if_splits)

lemma way_scan_find:
  "find (\<lambda>x. valid x \<and> hit x) ways = (case way_scan valid hit stamp ways v of Inl w \<Rightarrow> Some w | Inr _ \<Rightarrow> None)"
  by (induction valid hit stamp ways v rule: way_scan.induct) auto

lemma way_scan_Inr_miss:
  "way_scan valid hit stamp ways v = Inr w \<Longrightarrow> x \<in> set ways \<Longrightarrow> \<not> (valid x \<and> hit x)"
  by (induction valid hit stamp ways v rule: way_scan.induct) (auto split: if_splits)

lemma way_scan_Inr_range: "way_scan valid hit stamp ways v = Inr w \<Longrightarrow> w \<in> insert v (set ways)"
  by (induction valid hit stamp ways v rule: way_scan.induct) (auto split: if_splits)

lemma way_scan_Inr_keeps_free:
  "\<lbrakk>way_scan valid hit stamp ways v = Inr w; \<not> valid v;
    \<forall>x y. \<not> valid x \<longrightarrow> stamp x \<le> stamp y\<rbrakk> \<Longrightarrow> \<not> valid w"
  by (induction valid hit stamp ways v rule: way_scan.induct) (fastforce dest: leD split: if_splits)+

lemma way_scan_Inr_free:
  "\<lbrakk>way_scan valid hit stamp ways v = Inr w; x \<in> set ways; \<not> valid x;
    \<forall>x y. \<not> valid x \<longrightarrow> stamp x \<le> stamp y\<rbrakk> \<Longrightarrow> \<not> valid w"
proof (induction valid hit stamp ways v rule: way_scan.induct)
  case (2 valid hit stamp way ways victim)
  show ?case
  proof (cases "valid way")
    case True
    with 2 show ?thesis by (auto split: if_splits)
  next
    case False
    with 2 show ?thesis by (auto dest: way_scan_Inr_keeps_free)
  qed
qed simp

section \<open>Components driven by events\<close>

locale event_system =
  fixes init :: 's
    and step :: "'e \<Rightarrow> 's \<Rightarrow> 's"
    and inv :: "'s \<Rightarrow> bool"
  assumes inv_init: "inv init"
    and inv_step: "inv s \<Longrightarrow> inv (step e s)"
begin

lemma run_inv: "inv s \<Longrightarrow> inv (fold step es s)"
  by (induction es arbitrary: s) (auto intro: inv_step)

lemma reachable_inv: "inv (fold step es init)"
  by (rule run_inv) (rule inv_init)

end

section \<open>Bounded queues\<close>

locale bounded_fifo =
  fixes invar :: "'q \<Rightarrow> bool"
    and contents :: "'q \<Rightarrow> 'a list"
    and capacity :: "'q \<Rightarrow> nat"
    and push :: "'q \<Rightarrow> 'a \<Rightarrow> 'q option"
    and pop :: "'q \<Rightarrow> ('a \<times> 'q) option"
  assumes bounded: "invar q \<Longrightarrow> length (contents q) \<le> capacity q"
    and push_full: "invar q \<Longrightarrow> length (contents q) = capacity q \<Longrightarrow> push q x = None"
    and push_room: "invar q \<Longrightarrow> length (contents q) < capacity q \<Longrightarrow>
      \<exists>q'. push q x = Some q' \<and> invar q' \<and> contents q' = contents q @ [x] \<and> capacity q' = capacity q"
    and pop_empty: "invar q \<Longrightarrow> contents q = [] \<Longrightarrow> pop q = None"
    and pop_front: "invar q \<Longrightarrow> contents q = x # xs \<Longrightarrow>
      \<exists>q'. pop q = Some (x, q') \<and> invar q' \<and> contents q' = xs \<and> capacity q' = capacity q"
begin

primrec push_all :: "'q \<Rightarrow> 'a list \<Rightarrow> 'q option" where
  "push_all q [] = Some q"
| "push_all q (x # xs) = (case push q x of None \<Rightarrow> None | Some q' \<Rightarrow> push_all q' xs)"

primrec pop_n :: "nat \<Rightarrow> 'q \<Rightarrow> 'a list \<times> 'q" where
  "pop_n 0 q = ([], q)"
| "pop_n (Suc n) q =
     (case pop q of None \<Rightarrow> ([], q) | Some (x, q') \<Rightarrow> (case pop_n n q' of (xs, q'') \<Rightarrow> (x # xs, q'')))"

lemma push_all_room:
  "invar q \<Longrightarrow> length (contents q) + length xs \<le> capacity q \<Longrightarrow>
   \<exists>q'. push_all q xs = Some q' \<and> invar q' \<and> contents q' = contents q @ xs \<and> capacity q' = capacity q"
proof (induction xs arbitrary: q)
  case Nil
  then show ?case by simp
next
  case (Cons x xs)
  then obtain q' where "push q x = Some q'" "invar q'" "contents q' = contents q @ [x]"
    "capacity q' = capacity q"
    using push_room [of q x] by auto
  with Cons.IH [of q'] Cons.prems show ?case by auto
qed

lemma pop_n_take:
  "invar q \<Longrightarrow> \<exists>q'. pop_n n q = (take n (contents q), q') \<and> invar q' \<and> contents q' = drop n (contents q)
     \<and> capacity q' = capacity q"
proof (induction n arbitrary: q)
  case 0
  then show ?case by simp
next
  case (Suc n)
  show ?case
  proof (cases "contents q")
    case Nil
    with Suc.prems pop_empty [of q] show ?thesis by simp
  next
    case (Cons x xs)
    then obtain q' where q': "pop q = Some (x, q')" "invar q'" "contents q' = xs" "capacity q' = capacity q"
      using pop_front [OF Suc.prems] by blast
    with Suc.IH [of q'] Cons show ?thesis by auto
  qed
qed

text \<open>What is pushed into an empty queue comes out in the order it went in.\<close>

lemma push_all_pop_n:
  assumes "invar q" "contents q = []" "length xs \<le> capacity q"
  shows "\<exists>q1 q2. push_all q xs = Some q1 \<and> pop_n (length xs) q1 = (xs, q2) \<and> invar q2 \<and> contents q2 = []"
proof -
  obtain q1 where q1: "push_all q xs = Some q1" "invar q1" "contents q1 = xs"
    using push_all_room [of q xs] assms by auto
  with pop_n_take [of q1 "length xs"] show ?thesis by auto
qed

end

end
