(* ===== verification/NE_Ring.thy ===== *)
theory NE_Ring
  imports NE_Prelude
begin

text \<open>
  The packet rings and the UMEM frame pool of \<open>src/core/iface/xdp_interface.c\<close>: circular
  buffers indexed by free-running 32-bit counters and a power-of-two mask. Both are shown to
  be bounded FIFO queues (locale \<open>bounded_fifo\<close>), for every position of the counters, the
  wrap-around at \<open>2^32\<close> included. Every operation runs under its spin lock in the code, so
  one operation is one step here.
\<close>

section \<open>Definitions\<close>

record ne_packet =
  pk_addr :: u64
  pk_len :: nat
  pk_dir :: u8
  pk_wan_idx :: u8
  pk_local_idx :: u8
  pk_tx_slot :: u8

definition ne_packet_zero :: ne_packet where
  "ne_packet_zero = \<lparr>pk_addr = 0, pk_len = 0, pk_dir = 0, pk_wan_idx = 0, pk_local_idx = 0, pk_tx_slot = 0\<rparr>"

record ne_ring =
  r_buf :: "ne_packet list"
  r_cap :: u32
  r_mask :: u32
  r_head :: u32
  r_tail :: u32
  r_mpsc_pop :: bool

record ne_pool =
  q_buf :: "u64 list"
  q_cap :: u32
  q_mask :: u32
  q_head :: u32
  q_tail :: u32

definition ne_ring_init :: "bool \<Rightarrow> bool \<Rightarrow> u32 \<Rightarrow> bool \<Rightarrow> ne_ring option" where
  "ne_ring_init calloc_ok spin_ok cap mpsc_pop =
     (if cap = 0 \<or> cap AND (cap - 1) \<noteq> 0 then None
      else if \<not> calloc_ok then None
      else if \<not> spin_ok then None
      else Some \<lparr>r_buf = replicate (unat cap) ne_packet_zero, r_cap = cap, r_mask = cap - 1,
                 r_head = 0, r_tail = 0, r_mpsc_pop = mpsc_pop\<rparr>)"

definition ne_ring_try_push :: "ne_ring \<Rightarrow> ne_packet \<Rightarrow> ne_ring option" where
  "ne_ring_try_push r pkt =
     (if r_head r - r_tail r \<ge> r_cap r then None
      else Some (r\<lparr>r_buf := (r_buf r)[unat (r_head r AND r_mask r) := pkt],
                   r_head := r_head r + 1\<rparr>))"

definition ne_ring_try_push_pair :: "ne_ring \<Rightarrow> ne_packet \<Rightarrow> ne_packet \<Rightarrow> ne_ring option" where
  "ne_ring_try_push_pair r first second =
     (if r_head r - r_tail r > r_cap r - 2 then None
      else Some (r\<lparr>r_buf := ((r_buf r)[unat (r_head r AND r_mask r) := first])
                              [unat ((r_head r + 1) AND r_mask r) := second],
                   r_head := r_head r + 2\<rparr>))"

definition ne_ring_try_pop :: "ne_ring \<Rightarrow> (ne_packet \<times> ne_ring) option" where
  "ne_ring_try_pop r =
     (if r_tail r = r_head r then None
      else Some (r_buf r ! unat (r_tail r AND r_mask r), r\<lparr>r_tail := r_tail r + 1\<rparr>))"

definition ne_ring_count :: "ne_ring \<Rightarrow> u32" where
  "ne_ring_count r = r_head r - r_tail r"

definition pool_init :: "bool \<Rightarrow> bool \<Rightarrow> u32 \<Rightarrow> ne_pool option" where
  "pool_init calloc_ok spin_ok cap =
     (if cap = 0 \<or> cap AND (cap - 1) \<noteq> 0 then None
      else if \<not> calloc_ok then None
      else if \<not> spin_ok then None
      else Some \<lparr>q_buf = replicate (unat cap) 0, q_cap = cap, q_mask = cap - 1,
                 q_head = 0, q_tail = 0\<rparr>)"

text \<open>The copy loop of \<open>pool_push\<close>, from position \<open>pos\<close> on.\<close>

primrec pool_store :: "'a list \<Rightarrow> u32 \<Rightarrow> u32 \<Rightarrow> 'a list \<Rightarrow> 'a list" where
  "pool_store b msk pos [] = b"
| "pool_store b msk pos (x # xs) = pool_store (b[unat (pos AND msk) := x]) msk (pos + 1) xs"

definition pool_push :: "ne_pool \<Rightarrow> u64 list \<Rightarrow> u32 \<times> ne_pool" where
  "pool_push p addrs =
     (let free_slots = q_cap p - (q_head p - q_tail p);
          n = of_nat (length addrs);
          put = (if n < free_slots then n else free_slots)
      in (put, p\<lparr>q_buf := pool_store (q_buf p) (q_mask p) (q_head p) (take (unat put) addrs),
                 q_head := q_head p + put\<rparr>))"

definition pool_pop :: "ne_pool \<Rightarrow> u32 \<Rightarrow> u64 list \<times> ne_pool" where
  "pool_pop p n =
     (let avail = q_head p - q_tail p;
          got = (if n < avail then n else avail)
      in (map (\<lambda>i. q_buf p ! unat ((q_tail p + of_nat i) AND q_mask p)) [0..<unat got],
          p\<lparr>q_tail := q_tail p + got\<rparr>))"

definition ne_frame_alloc :: "ne_pool \<Rightarrow> (u64 \<times> ne_pool) option" where
  "ne_frame_alloc p =
     (case pool_pop p 1 of (addrs, p') \<Rightarrow> (case addrs of [a] \<Rightarrow> Some (a, p') | _ \<Rightarrow> None))"

definition ne_frame_alloc_batch :: "ne_pool \<Rightarrow> u32 \<Rightarrow> u64 list \<times> ne_pool" where
  "ne_frame_alloc_batch p max_n = (if max_n = 0 then ([], p) else pool_pop p max_n)"

definition ne_frame_free :: "ne_pool \<Rightarrow> u64 \<Rightarrow> ne_pool" where
  "ne_frame_free p a = snd (pool_push p [a])"

definition ne_pool_free_count :: "ne_pool \<Rightarrow> u32" where
  "ne_pool_free_count p = q_head p - q_tail p"

section \<open>Circular buffers\<close>

definition circ :: "'a list \<Rightarrow> nat \<Rightarrow> nat \<Rightarrow> 'a list" where
  "circ b t n = map (\<lambda>i. b ! ((t + i) mod length b)) [0..<n]"

lemma length_circ [simp]: "length (circ b t n) = n"
  by (simp add: circ_def)

lemma circ_push:
  assumes "n < length b"
  shows "circ (b[(t + n) mod length b := x]) t (Suc n) = circ b t n @ [x]"
proof -
  have ne: "(t + i) mod length b \<noteq> (t + n) mod length b" if "i < n" for i
  proof
    assume "(t + i) mod length b = (t + n) mod length b"
    then have "length b dvd (t + n) - (t + i)"
      using that by (subst mod_eq_dvd_iff_nat [symmetric]) auto
    with that assms show False by (auto dest: dvd_imp_le)
  qed
  have "(t + n) mod length b < length b" using assms by (intro mod_less_divisor) auto
  moreover have "b[(t + n) mod length b := x] ! ((t + i) mod length b) = b ! ((t + i) mod length b)"
    if "i < n" for i
    using ne [OF that] by (simp add: nth_list_update_neq)
  ultimately show ?thesis by (simp add: circ_def)
qed

lemma circ_mod: "circ b (t mod length b) n = circ b t n"
  by (simp add: circ_def mod_add_left_eq)

lemma circ_congD: "t mod length b = t' mod length b \<Longrightarrow> circ b t n = circ b t' n"
  by (metis circ_mod)

lemma circ_Cons: "circ b t (Suc n) = b ! (t mod length b) # circ b (Suc t) n"
  by (rule nth_equalityI) (auto simp: circ_def nth_Cons split: nat.split simp del: upt_Suc)

lemma circ_take_drop: "k \<le> n \<Longrightarrow> circ b t k = take k (circ b t n) \<and> circ b (t + k) (n - k) = drop k (circ b t n)"
  by (auto simp: circ_def take_map drop_map add.assoc intro!: nth_equalityI)

text \<open>Word-level facts: a power-of-two capacity divides \<open>2^32\<close>, so indices survive wrap-around.\<close>

lemma unat_of_nat_mod_32: "unat (of_nat n :: u32) = n mod 2 ^ 32"
  by (simp add: unsigned_of_nat take_bit_eq_mod)

lemma exp_less_exp_32: "k < 32 \<Longrightarrow> (2::nat) ^ k < 2 ^ 32"
  by (rule power_strict_increasing) auto

lemma unat_pow2: "k < 32 \<Longrightarrow> unat (2 ^ k :: u32) = 2 ^ k"
  by (metis exp_less_exp_32 mod_less of_nat_numeral of_nat_power unat_of_nat_mod_32)

lemma pow2_check:
  fixes x :: u32
  assumes "x \<noteq> 0" and "x AND (x - 1) = 0"
  shows "\<exists>k<32. x = 2 ^ k"
proof -
  define n where "n = unat x"
  have n0: "0 < n" using assms(1) by (simp add: n_def unat_gt_0)
  obtain k where k: "2 ^ k \<le> n" "n < 2 ^ Suc k"
    using ex_power_ivl1 [of 2 n] n0 by auto
  have n32: "n < 2 ^ 32" using unsigned_less [of x, where ?'a = nat] by (simp add: n_def)
  then have k32: "k < 32" using k(1) by (meson le_less_trans power_less_imp_less_exp one_less_numeral_iff semiring_norm(76))
  have "n = 2 ^ k"
  proof (rule ccontr)
    assume ne: "n \<noteq> 2 ^ k"
    have m: "unat (x - 1) = n - 1" using assms(1) by (simp add: n_def unat_minus_one)
    have "n div 2 ^ k = 1" "(n - 1) div 2 ^ k = 1"
      using k ne by (auto intro!: div_nat_eqI)
    then have "bit n k" "bit (n - 1) k" by (simp_all add: bit_iff_odd)
    then have "bit (unat x) k" "bit (unat (x - 1)) k" by (simp_all only: n_def m)
    then have "bit x k" "bit (x - 1) k" by (simp_all only: bit_unsigned_iff)
    then have "bit (x AND (x - 1)) k" by (simp add: bit_and_iff)
    with assms(2) show False by simp
  qed
  then have "x = 2 ^ k" using unat_pow2 [OF k32] by (simp add: n_def word_unat_eq_iff)
  with k32 show ?thesis by blast
qed

lemma unat_and_mask: "unat (x AND (2 ^ k - 1) :: u32) = unat x mod 2 ^ k"
proof -
  have "x AND (2 ^ k - 1) = take_bit k x" by (simp add: take_bit_eq_mask mask_eq_exp_minus_1)
  then have "unat (x AND (2 ^ k - 1)) = take_bit k (unat x)" by (simp only: unsigned_take_bit_eq)
  then show ?thesis by (simp only: take_bit_eq_mod)
qed

lemma unat_add_mod: "k < 32 \<Longrightarrow> unat (x + y :: u32) mod 2 ^ k = (unat x + unat y) mod 2 ^ k"
proof -
  assume "k < 32"
  then have "(2::nat) ^ k dvd 2 ^ LENGTH(32)" by (intro le_imp_power_dvd) simp
  then show ?thesis by (simp only: unat_word_ariths mod_mod_cancel)
qed

lemma unat_head:
  fixes h t :: u32
  assumes "k < 32"
  shows "unat h mod 2 ^ k = (unat t + unat (h - t)) mod 2 ^ k"
  using unat_add_mod [OF assms, of t "h - t"] by simp

section \<open>The ring is a bounded FIFO\<close>

definition ring_ok :: "ne_ring \<Rightarrow> bool" where
  "ring_ok r \<longleftrightarrow> (\<exists>k<32. r_cap r = 2 ^ k) \<and> r_mask r = r_cap r - 1
     \<and> length (r_buf r) = unat (r_cap r) \<and> r_head r - r_tail r \<le> r_cap r"

definition ring_contents :: "ne_ring \<Rightarrow> ne_packet list" where
  "ring_contents r = circ (r_buf r) (unat (r_tail r)) (unat (r_head r - r_tail r))"

lemma length_ring_contents: "length (ring_contents r) = unat (ne_ring_count r)"
  by (simp add: ring_contents_def ne_ring_count_def)

lemma ring_bounded: "ring_ok r \<Longrightarrow> length (ring_contents r) \<le> unat (r_cap r)"
  by (simp add: ring_ok_def ring_contents_def word_le_nat_alt)

lemma unat_Suc_count:
  fixes h t :: u32
  assumes "h - t < c"
  shows "unat (h + 1 - t) = Suc (unat (h - t))"
proof -
  have "h + 1 - t = (h - t) + 1" by simp
  moreover have "(h - t) + 1 \<noteq> 0"
  proof
    assume "(h - t) + 1 = 0"
    then have "h - t = - 1" by (simp add: eq_neg_iff_add_eq_0)
    with assms show False by simp
  qed
  ultimately show ?thesis by (metis add.commute unatSuc)
qed

lemma ring_push_room:
  assumes ok: "ring_ok r" and room: "r_head r - r_tail r < r_cap r"
  shows "\<exists>r'. ne_ring_try_push r p = Some r' \<and> ring_ok r'
     \<and> ring_contents r' = ring_contents r @ [p] \<and> r_cap r' = r_cap r"
proof -
  from ok obtain k where k: "k < 32" "r_cap r = 2 ^ k" and m: "r_mask r = r_cap r - 1"
    and l: "length (r_buf r) = 2 ^ k"
    by (auto simp: ring_ok_def unat_pow2)
  let ?n = "unat (r_head r - r_tail r)"
  have n: "?n < 2 ^ k" using room k by (simp add: word_less_nat_alt unat_pow2)
  have idx: "unat (r_head r AND r_mask r) = (unat (r_tail r) + ?n) mod length (r_buf r)"
    using unat_head [OF k(1), of "r_head r" "r_tail r"] by (simp add: m k(2) l unat_and_mask)
  have cnt: "unat (r_head r + 1 - r_tail r) = Suc ?n" using room by (rule unat_Suc_count)
  show ?thesis
    using room ok n cnt circ_push [of ?n "r_buf r" "unat (r_tail r)" p, folded idx]
    by (simp add: ne_ring_try_push_def ring_ok_def ring_contents_def l k unat_pow2 word_le_nat_alt
        linorder_not_le)
qed

lemma ring_pop_front:
  assumes ok: "ring_ok r" and c: "ring_contents r = x # xs"
  shows "\<exists>r'. ne_ring_try_pop r = Some (x, r') \<and> ring_ok r' \<and> ring_contents r' = xs \<and> r_cap r' = r_cap r"
proof -
  from ok obtain k where k: "k < 32" "r_cap r = 2 ^ k" and m: "r_mask r = r_cap r - 1"
    and l: "length (r_buf r) = 2 ^ k"
    by (auto simp: ring_ok_def unat_pow2)
  let ?h = "r_head r" and ?t = "r_tail r"
  have ne: "?h - ?t \<noteq> 0" using c by (auto simp: ring_contents_def circ_def)
  have sub: "?h - (?t + 1) = (?h - ?t) - 1" by (simp add: algebra_simps)
  have cnt: "unat (?h - ?t) = Suc (unat (?h - (?t + 1)))"
    unfolding sub using ne by (simp add: unat_minus_one unat_gt_0)
  have t1: "circ (r_buf r) (Suc (unat ?t)) n = circ (r_buf r) (unat (?t + 1)) n" for n
    using unat_add_mod [OF k(1), of ?t 1] by (intro circ_congD) (simp add: l)
  have x: "x = r_buf r ! unat (?t AND r_mask r)"
    and xs: "xs = circ (r_buf r) (unat (?t + 1)) (unat (?h - (?t + 1)))"
    using c by (simp_all add: ring_contents_def cnt circ_Cons t1 m k(2) l unat_and_mask)
  have "unat (?h - (?t + 1)) \<le> unat (?h - ?t)" using cnt by simp
  with ok ne x xs show ?thesis
    by (auto simp: ne_ring_try_pop_def ring_ok_def ring_contents_def word_le_nat_alt)
qed

interpretation ring: bounded_fifo ring_ok ring_contents "\<lambda>r. unat (r_cap r)" ne_ring_try_push ne_ring_try_pop
proof
  fix r x xs
  assume ok: "ring_ok r"
  show "length (ring_contents r) \<le> unat (r_cap r)" using ok by (rule ring_bounded)
  show "ne_ring_try_push r x = None" if "length (ring_contents r) = unat (r_cap r)"
    using that by (simp add: ne_ring_try_push_def ring_contents_def word_le_nat_alt)
  show "\<exists>r'. ne_ring_try_push r x = Some r' \<and> ring_ok r' \<and> ring_contents r' = ring_contents r @ [x]
      \<and> unat (r_cap r') = unat (r_cap r)" if "length (ring_contents r) < unat (r_cap r)"
    using ring_push_room [OF ok, of x] that by (auto simp: ring_contents_def word_less_nat_alt)
  show "ne_ring_try_pop r = None" if "ring_contents r = []"
    using that by (simp add: ne_ring_try_pop_def ring_contents_def circ_def unat_eq_zero)
  show "\<exists>r'. ne_ring_try_pop r = Some (x, r') \<and> ring_ok r' \<and> ring_contents r' = xs
      \<and> unat (r_cap r') = unat (r_cap r)" if "ring_contents r = x # xs"
    using ring_pop_front [OF ok that] by auto
qed

text \<open>A freshly initialised ring is well formed and empty.\<close>

lemma ne_ring_init_ok:
  "ne_ring_init ca sp cap m = Some r \<Longrightarrow> ring_ok r \<and> ring_contents r = [] \<and> r_cap r = cap"
  using pow2_check [of cap]
  by (auto simp: ne_ring_init_def ring_ok_def ring_contents_def circ_def split: if_splits)

lemma push_pair_as_pushes:
  assumes ok: "ring_ok r" and two: "2 \<le> unat (r_cap r)"
    and room: "length (ring_contents r) + 2 \<le> unat (r_cap r)"
  shows "\<exists>r1. ne_ring_try_push r a = Some r1 \<and> ne_ring_try_push r1 b = ne_ring_try_push_pair r a b"
proof -
  have cnt: "unat (r_head r - r_tail r) + 2 \<le> unat (r_cap r)"
    using room by (simp add: ring_contents_def)
  have lt: "r_head r - r_tail r < r_cap r" using cnt by (simp add: word_less_nat_alt)
  have "unat (r_cap r - 2) = unat (r_cap r) - 2"
    using two by (simp add: unat_sub word_le_nat_alt)
  then have fits: "\<not> r_head r - r_tail r > r_cap r - 2"
    using cnt by (simp add: word_less_nat_alt)
  have "unat (r_head r + 1 - r_tail r) = Suc (unat (r_head r - r_tail r))"
    using lt by (rule unat_Suc_count)
  then have lt2: "\<not> r_cap r \<le> r_head r + 1 - r_tail r"
    using cnt by (simp add: word_le_nat_alt)
  have "r_head r + 1 + 1 = r_head r + 2" by simp
  with lt lt2 fits show ?thesis
    by (simp add: ne_ring_try_push_def ne_ring_try_push_pair_def linorder_not_le add.assoc)
qed

lemma push_pair_reject:
  assumes "ring_ok r" and "2 \<le> unat (r_cap r)"
    and "unat (r_cap r) < length (ring_contents r) + 2"
  shows "ne_ring_try_push_pair r a b = None"
proof -
  have "unat (r_cap r - 2) = unat (r_cap r) - 2"
    using assms(2) by (simp add: unat_sub word_le_nat_alt)
  then show ?thesis
    using assms by (simp add: ne_ring_try_push_pair_def ring_contents_def word_less_nat_alt)
qed

section \<open>The frame pool is a bounded FIFO\<close>

definition pool_ok :: "ne_pool \<Rightarrow> bool" where
  "pool_ok p \<longleftrightarrow> (\<exists>k<32. q_cap p = 2 ^ k) \<and> q_mask p = q_cap p - 1
     \<and> length (q_buf p) = unat (q_cap p) \<and> q_head p - q_tail p \<le> q_cap p"

definition pool_contents :: "ne_pool \<Rightarrow> u64 list" where
  "pool_contents p = circ (q_buf p) (unat (q_tail p)) (unat (q_head p - q_tail p))"

lemma length_pool_store [simp]: "length (pool_store b m pos xs) = length b"
  by (induction xs arbitrary: b pos) auto

lemma circ_pool_store:
  assumes "k < 32" and "length b = 2 ^ k" and "n + length xs \<le> 2 ^ k"
    and "unat pos mod 2 ^ k = (t + n) mod 2 ^ k"
  shows "circ (pool_store b (2 ^ k - 1) pos xs) t (n + length xs) = circ b t n @ xs"
  using assms(2-4)
proof (induction xs arbitrary: b pos n)
  case Nil
  then show ?case by simp
next
  case (Cons x xs)
  let ?b = "b[unat (pos AND (2 ^ k - 1)) := x]"
  have "unat (pos + 1) mod 2 ^ k = (t + Suc n) mod 2 ^ k"
    using unat_add_mod [OF assms(1), of pos 1] Cons.prems(3)
    by (metis Suc_eq_plus1 add_Suc_right mod_Suc_eq unsigned_1)
  then have "circ (pool_store ?b (2 ^ k - 1) (pos + 1) xs) t (Suc n + length xs) = circ ?b t (Suc n) @ xs"
    using Cons.prems by (intro Cons.IH) auto
  moreover have "circ ?b t (Suc n) = circ b t n @ [x]"
    using circ_push [of n b t x] Cons.prems by (simp add: unat_and_mask)
  ultimately show ?case by simp
qed

lemma pool_push_spec:
  assumes ok: "pool_ok p" and len: "length addrs < 2 ^ 32"
    and res: "pool_push p addrs = (put, p')"
  shows "unat put = min (length addrs) (unat (q_cap p) - length (pool_contents p))
     \<and> pool_ok p' \<and> pool_contents p' = pool_contents p @ take (unat put) addrs \<and> q_cap p' = q_cap p"
proof -
  from ok obtain k where k: "k < 32" "q_cap p = 2 ^ k" and m: "q_mask p = 2 ^ k - 1"
    and l: "length (q_buf p) = 2 ^ k" and cap: "q_head p - q_tail p \<le> q_cap p"
    by (auto simp: pool_ok_def unat_pow2)
  let ?c = "q_head p - q_tail p"
  have free: "unat (q_cap p - ?c) = unat (q_cap p) - unat ?c" using cap by (rule unat_sub)
  have ul: "unat (of_nat (length addrs) :: u32) = length addrs"
    using len by (simp add: unat_of_nat_mod_32)
  have put: "unat put = min (length addrs) (unat (q_cap p) - unat ?c)"
    using res free ul by (auto simp: pool_push_def Let_def word_less_nat_alt)
  have p': "p' = p\<lparr>q_buf := pool_store (q_buf p) (q_mask p) (q_head p) (take (unat put) addrs),
      q_head := q_head p + put\<rparr>"
    using res by (auto simp: pool_push_def Let_def)
  have le: "unat ?c + unat put \<le> 2 ^ k"
    using put cap by (auto simp: k(2) word_le_nat_alt unat_pow2 [OF k(1)])
  have "q_head p + put - q_tail p = ?c + put" by simp
  moreover have "unat (?c + put) = unat ?c + unat put"
    using le exp_less_exp_32 [OF k(1)] by (simp add: unat_word_ariths)
  ultimately have cnt: "unat (q_head p + put - q_tail p) = unat ?c + unat put" by (simp only:)
  have "unat (q_head p) mod 2 ^ k = (unat (q_tail p) + unat ?c) mod 2 ^ k" by (rule unat_head [OF k(1)])
  then have "circ (pool_store (q_buf p) (2 ^ k - 1) (q_head p) (take (unat put) addrs)) (unat (q_tail p))
      (unat ?c + length (take (unat put) addrs)) = pool_contents p @ take (unat put) addrs"
    unfolding pool_contents_def using put le by (intro circ_pool_store [OF k(1) l]) auto
  moreover have "length (take (unat put) addrs) = unat put" using put by simp
  ultimately show ?thesis
    using ok put le cnt
    by (simp add: p' pool_ok_def pool_contents_def m k word_le_nat_alt unat_pow2)
qed

lemma pool_pop_spec:
  assumes ok: "pool_ok p" and res: "pool_pop p n = (addrs, p')"
  shows "addrs = take (unat n) (pool_contents p) \<and> pool_ok p'
     \<and> pool_contents p' = drop (unat n) (pool_contents p) \<and> q_cap p' = q_cap p"
proof -
  from ok obtain k where k: "k < 32" "q_cap p = 2 ^ k" and m: "q_mask p = 2 ^ k - 1"
    and l: "length (q_buf p) = 2 ^ k" and cap: "q_head p - q_tail p \<le> q_cap p"
    by (auto simp: pool_ok_def unat_pow2)
  let ?c = "q_head p - q_tail p" and ?t = "q_tail p"
  define got where "got = (if n < ?c then n else ?c)"
  have got: "unat got = min (unat n) (unat ?c)" by (auto simp: got_def word_less_nat_alt)
  have idx: "unat ((?t + of_nat i) AND q_mask p) = (unat ?t + i) mod 2 ^ k" for i
  proof -
    have "(unat ?t + i mod 2 ^ 32) mod 2 ^ k = (unat ?t + i) mod 2 ^ k"
      using k(1) by (metis less_imp_le_nat mod_add_right_eq mod_mod_cancel le_imp_power_dvd)
    then show ?thesis by (simp add: m unat_and_mask unat_add_mod [OF k(1)] unat_of_nat_mod_32)
  qed
  have "addrs = circ (q_buf p) (unat ?t) (unat got)"
    using res by (auto simp: pool_pop_def Let_def got_def [symmetric] idx circ_def l)
  moreover have "unat got \<le> unat ?c" by (simp add: got)
  moreover have tl: "circ (q_buf p) (unat (?t + got)) j = circ (q_buf p) (unat ?t + unat got) j" for j
    by (rule circ_congD) (simp add: l unat_add_mod [OF k(1)])
  moreover have cnt: "unat (q_head p - (?t + got)) = unat ?c - unat got"
  proof -
    have e: "q_head p - (?t + got) = ?c - got" by simp
    show ?thesis unfolding e by (rule unat_sub) (simp add: got word_le_nat_alt)
  qed
  moreover have "p' = p\<lparr>q_tail := ?t + got\<rparr>"
    using res by (auto simp: pool_pop_def Let_def got_def)
  ultimately show ?thesis
    using ok circ_take_drop [of "unat got" "unat ?c" "q_buf p" "unat ?t"] got
    by (auto simp: pool_ok_def pool_contents_def word_le_nat_alt min_def split: if_splits)
qed

lemma pool_init_ok:
  "pool_init ca sp cap = Some p \<Longrightarrow> pool_ok p \<and> pool_contents p = [] \<and> q_cap p = cap"
  using pow2_check [of cap]
  by (auto simp: pool_init_def pool_ok_def pool_contents_def circ_def split: if_splits)

interpretation pool: bounded_fifo pool_ok pool_contents "\<lambda>p. unat (q_cap p)"
  "\<lambda>p a. (case pool_push p [a] of (put, p') \<Rightarrow> if put = 1 then Some p' else None)" ne_frame_alloc
proof
  fix p :: ne_pool and x :: u64 and xs :: "u64 list"
  assume ok: "pool_ok p"
  obtain put p' where pp: "pool_push p [x] = (put, p')" by (cases "pool_push p [x]")
  note push = pool_push_spec [OF ok _ pp]
  obtain as q where pq: "pool_pop p 1 = (as, q)" by (cases "pool_pop p 1")
  note pop = pool_pop_spec [OF ok pq]
  show "length (pool_contents p) \<le> unat (q_cap p)"
    using ok by (simp add: pool_ok_def pool_contents_def word_le_nat_alt)
  show "(case pool_push p [x] of (put, p') \<Rightarrow> if put = 1 then Some p' else None) = None"
    if "length (pool_contents p) = unat (q_cap p)"
    using push that by (auto simp: pp)
  show "\<exists>p'. (case pool_push p [x] of (put, p') \<Rightarrow> if put = 1 then Some p' else None) = Some p'
      \<and> pool_ok p' \<and> pool_contents p' = pool_contents p @ [x] \<and> unat (q_cap p') = unat (q_cap p)"
    if "length (pool_contents p) < unat (q_cap p)"
  proof -
    have "unat put = 1" using push that by simp
    then have "put = 1" by (simp add: word_unat_eq_iff)
    with push that show ?thesis by (simp add: pp)
  qed
  show "ne_frame_alloc p = None" if "pool_contents p = []"
    using pop that by (simp add: ne_frame_alloc_def pq)
  show "\<exists>p'. ne_frame_alloc p = Some (x, p') \<and> pool_ok p' \<and> pool_contents p' = xs
      \<and> unat (q_cap p') = unat (q_cap p)" if "pool_contents p = x # xs"
    using pop that by (simp add: ne_frame_alloc_def pq)
qed

section \<open>Properties\<close>

definition example_packet :: "nat \<Rightarrow> ne_packet" where
  "example_packet n = ne_packet_zero\<lparr>pk_len := n\<rparr>"

definition example_ring :: ne_ring where
  "example_ring = \<lparr>r_buf = replicate 4 ne_packet_zero, r_cap = 4, r_mask = 3,
     r_head = 0xFFFFFFFE, r_tail = 0xFFFFFFFE, r_mpsc_pop = False\<rparr>"

lemma example_ring_ok: "ring_ok example_ring" "ring_contents example_ring = []"
  by (auto simp: example_ring_def ring_ok_def ring_contents_def circ_def intro!: exI [of _ 2])

text \<open>C23: every packet pushed into a packet ring that has room is popped exactly once and in the
  order of the pushes, also when the 32-bit counters wrap: pushing \<open>xs\<close> into an empty ring succeeds
  as long as \<open>xs\<close> fits, and as many pops give back \<open>xs\<close>.\<close>

theorem ne_ring_fifo:
  assumes "ring_ok r" and "ring_contents r = []" and "length xs \<le> unat (r_cap r)"
  shows "\<exists>r1 r2. ring.push_all r xs = Some r1 \<and> ring.pop_n (length xs) r1 = (xs, r2)
     \<and> ring_ok r2 \<and> ring_contents r2 = []"
  using assms by (rule ring.push_all_pop_n)

theorem ne_ring_fifo_witness:
  "\<exists>r1 r2. ring.push_all example_ring [example_packet 1, example_packet 2, example_packet 3] = Some r1
     \<and> ring.pop_n 3 r1 = ([example_packet 1, example_packet 2, example_packet 3], r2)
     \<and> ring_ok r2 \<and> ring_contents r2 = []"
  using ne_ring_fifo [of example_ring "[example_packet 1, example_packet 2, example_packet 3]"]
  by (simp add: example_ring_ok example_ring_ok(2) example_ring_def [THEN arg_cong, of r_cap] numeral_3_eq_3)

text \<open>\<open>ne_ring_try_push_pair\<close> is all or nothing: with a capacity of at least two it either
  rejects the pair and leaves the ring alone, and then there was no room for two packets, or appends
  the two packets next to each other, so no other producer's packet comes between the two fragments
  of a datagram.\<close>

lemma ne_ring_push_pair_atomic:
  assumes "ring_ok r" and "2 \<le> unat (r_cap r)"
  shows "case ne_ring_try_push_pair r a b of
       None \<Rightarrow> unat (r_cap r) < length (ring_contents r) + 2
     | Some r' \<Rightarrow> ring_ok r' \<and> ring_contents r' = ring_contents r @ [a, b] \<and> r_cap r' = r_cap r"
proof (cases "length (ring_contents r) + 2 \<le> unat (r_cap r)")
  case True
  obtain r1 where r1: "ne_ring_try_push r a = Some r1"
    and pair: "ne_ring_try_push r1 b = ne_ring_try_push_pair r a b"
    using push_pair_as_pushes [OF assms True] by blast
  have c1: "ring_ok r1" "ring_contents r1 = ring_contents r @ [a]" "unat (r_cap r1) = unat (r_cap r)"
    using ring.push_room [OF assms(1), of a] True r1 by auto
  then show ?thesis
    using ring.push_room [of r1 b] True pair [symmetric] by (auto simp: word_unat_eq_iff)
next
  case False
  then show ?thesis using push_pair_reject [OF assms, of a b] by simp
qed

text \<open>The frame pool neither loses nor duplicates a frame address: freeing \<open>n\<close> frames that fit
  appends exactly these addresses, and a batch allocation returns the oldest ones and keeps the rest.\<close>

lemma frame_pool_conservation:
  assumes "pool_ok p" and "length addrs < 2 ^ 32"
    and "length (pool_contents p) + length addrs \<le> unat (q_cap p)"
  shows "case pool_push p addrs of (put, p1) \<Rightarrow> unat put = length addrs \<and> pool_ok p1 \<and>
     (case ne_frame_alloc_batch p1 n of (got, p2) \<Rightarrow> pool_ok p2 \<and>
        length got = min (unat n) (length (pool_contents p) + length addrs) \<and>
        got @ pool_contents p2 = pool_contents p @ addrs)"
proof -
  obtain put p1 where p1: "pool_push p addrs = (put, p1)" by (cases "pool_push p addrs")
  obtain got p2 where p2: "ne_frame_alloc_batch p1 n = (got, p2)" by (cases "ne_frame_alloc_batch p1 n")
  note push = pool_push_spec [OF assms(1,2) p1]
  then have c: "pool_contents p1 = pool_contents p @ addrs" "pool_ok p1" "unat put = length addrs"
    using assms(3) by auto
  have "got = take (unat n) (pool_contents p1) \<and> pool_ok p2 \<and> pool_contents p2 = drop (unat n) (pool_contents p1)"
  proof (cases "n = 0")
    case True
    with p2 c show ?thesis by (simp add: ne_frame_alloc_batch_def)
  next
    case False
    with p2 pool_pop_spec [OF c(2), of n got p2] show ?thesis by (simp add: ne_frame_alloc_batch_def)
  qed
  then have "got @ pool_contents p2 = pool_contents p1" "length got = min (unat n) (length (pool_contents p1))"
    "pool_ok p2"
    by auto
  with c p1 p2 show ?thesis by simp
qed

definition example_pool :: ne_pool where
  "example_pool = \<lparr>q_buf = [0, 0], q_cap = 2, q_mask = 1, q_head = 0, q_tail = 0\<rparr>"

end
