(* ===== verification/Flow_Table.thy ===== *)
theory Flow_Table
  imports NE_Prelude
begin

text \<open>
  The smooth weighted round-robin (SWRR) scheduler of \<open>src/core/flow/flow_table.c\<close>: per flow, in
  a 512-set 4-way cache local to the worker thread, and one default state for packets without a
  flow. The C arguments \<open>(allowed_wans, allowed_count)\<close> are one list; a null weight array is
  \<^const>\<open>None\<close>. Counters of type \<open>int64_t\<close> are integers here; the theorem on bounds shows that
  they stay far inside the range of the C type.
\<close>

section \<open>Definitions\<close>

definition MAX_INTERFACES :: nat where "MAX_INTERFACES = 16"
definition FLOW_SWRR_SETS :: nat where "FLOW_SWRR_SETS = 512"
definition FLOW_SWRR_WAYS :: nat where "FLOW_SWRR_WAYS = 4"

record flow_key =
  fk_src_ip :: u32
  fk_dst_ip :: u32
  fk_src_port :: u16
  fk_dst_port :: u16
  fk_protocol :: u8

record flow_swrr_state =
  fs_key :: flow_key
  fs_wans :: "int list"
  fs_current :: "int list"
  fs_stamp :: u64
  fs_wan_count :: u8
  fs_tie_start :: u8
  fs_valid :: bool

text \<open>The thread-local variables; \<^const>\<open>None\<close> is the cache that is not allocated yet.\<close>

record flow_tls =
  g_flow_swrr :: "(nat \<Rightarrow> nat \<Rightarrow> flow_swrr_state) option"
  g_default_swrr :: flow_swrr_state
  g_flow_swrr_clock :: u64

definition flow_key_zero :: flow_key where
  "flow_key_zero = \<lparr>fk_src_ip = 0, fk_dst_ip = 0, fk_src_port = 0, fk_dst_port = 0, fk_protocol = 0\<rparr>"

definition flow_swrr_zero :: flow_swrr_state where
  "flow_swrr_zero = \<lparr>fs_key = flow_key_zero, fs_wans = replicate MAX_INTERFACES 0,
     fs_current = replicate MAX_INTERFACES 0, fs_stamp = 0, fs_wan_count = 0, fs_tie_start = 0,
     fs_valid = False\<rparr>"

definition flow_table_thread_init :: "bool \<Rightarrow> flow_tls \<Rightarrow> bool \<times> flow_tls" where
  "flow_table_thread_init calloc_ok t =
     (case g_flow_swrr t of
        Some _ \<Rightarrow> (True, t)
      | None \<Rightarrow> if calloc_ok then (True, t\<lparr>g_flow_swrr := Some (\<lambda>_ _. flow_swrr_zero)\<rparr>) else (False, t))"

definition flow_table_thread_cleanup :: "flow_tls \<Rightarrow> flow_tls" where
  "flow_table_thread_cleanup t =
     t\<lparr>g_flow_swrr := None, g_default_swrr := flow_swrr_zero, g_flow_swrr_clock := 0\<rparr>"

definition normalize_flow_5tuple :: "u32 \<Rightarrow> u32 \<Rightarrow> u16 \<Rightarrow> u16 \<Rightarrow> u32 \<times> u32 \<times> u16 \<times> u16" where
  "normalize_flow_5tuple src_ip dst_ip src_port dst_port =
     (let a = bswap32 src_ip; b = bswap32 dst_ip
      in if a > b \<or> (a = b \<and> src_port > dst_port)
         then (dst_ip, src_ip, dst_port, src_port)
         else (src_ip, dst_ip, src_port, dst_port))"

definition flow_hash :: "u32 \<Rightarrow> u32 \<Rightarrow> u16 \<Rightarrow> u16 \<Rightarrow> u8 \<Rightarrow> u32" where
  "flow_hash src_ip dst_ip src_port dst_port protocol =
     (let h = src_ip XOR dst_ip;
          h = h XOR (push_bit 16 (ucast src_port) OR ucast dst_port);
          h = h XOR ucast protocol;
          h = h XOR drop_bit 16 h;
          h = h * 0x85ebca6b;
          h = h XOR drop_bit 13 h;
          h = h * 0xc2b2ae35
      in h XOR drop_bit 16 h)"

definition flow_swrr_pool_same :: "flow_swrr_state \<Rightarrow> int list \<Rightarrow> bool" where
  "flow_swrr_pool_same st wans \<longleftrightarrow>
     fs_valid st \<and> fs_wan_count st = of_nat (length wans)
     \<and> (\<forall>i < length wans. fs_wans st ! i = wans ! i)"

definition flow_swrr_reset :: "flow_key option \<Rightarrow> u32 \<Rightarrow> int list \<Rightarrow> flow_swrr_state" where
  "flow_swrr_reset key hash wans = flow_swrr_zero
     \<lparr>fs_key := (case key of None \<Rightarrow> flow_key_zero | Some k \<Rightarrow> k),
      fs_wans := patch (replicate MAX_INTERFACES 0) 0 wans,
      fs_wan_count := of_nat (length wans),
      fs_tie_start := of_nat (if length wans > 0 then unat hash mod length wans else 0),
      fs_valid := True\<rparr>"

definition weight_at :: "int list option \<Rightarrow> nat \<Rightarrow> int" where
  "weight_at weights i = (case weights of None \<Rightarrow> 1 | Some ws \<Rightarrow> ws ! i)"

text \<open>First loop of \<open>flow_swrr_pick\<close>: credit every WAN of positive weight, sum the weights.\<close>

definition swrr_credit :: "int list option \<Rightarrow> nat \<Rightarrow> int list \<Rightarrow> int list \<times> int" where
  "swrr_credit weights n current =
     fold (\<lambda>i (cur, tot).
        let w = weight_at weights i in
        if w \<le> 0 then (cur, tot) else (cur[i := cur ! i + w], tot + w)) [0..<n] (current, 0)"

text \<open>Second loop: from \<open>tie_start\<close> on, the first WAN of greatest credit.\<close>

definition swrr_better :: "int list option \<Rightarrow> int list \<Rightarrow> nat \<Rightarrow> nat option \<Rightarrow> nat option" where
  "swrr_better weights current i best =
     (if weight_at weights i \<le> 0 then best
      else case best of
          None \<Rightarrow> Some i
        | Some b \<Rightarrow> if current ! i > current ! b then Some i else best)"

definition swrr_best :: "int list option \<Rightarrow> int list \<Rightarrow> nat \<Rightarrow> nat \<Rightarrow> nat option" where
  "swrr_best weights current tie n =
     fold (\<lambda>off. swrr_better weights current ((tie + off) mod n)) [0..<n] None"

definition flow_swrr_pick :: "flow_swrr_state \<Rightarrow> int list \<Rightarrow> int list option \<Rightarrow> int \<times> flow_swrr_state" where
  "flow_swrr_pick st wans weights =
     (let n = length wans in
      if n = 0 then (0, st)
      else if n = 1 then (wans ! 0, st)
      else case swrr_credit weights n (fs_current st) of (cur, tot) \<Rightarrow>
        if tot \<le> 0 then
          (wans ! (unat (fs_tie_start st) mod n),
           st\<lparr>fs_current := cur, fs_tie_start := fs_tie_start st + 1\<rparr>)
        else
          let best = (case swrr_best weights cur (unat (fs_tie_start st)) n of None \<Rightarrow> 0 | Some b \<Rightarrow> b)
          in (wans ! best,
              st\<lparr>fs_current := cur[best := cur ! best - tot],
                 fs_tie_start := of_nat ((best + 1) mod n)\<rparr>))"

definition flow_table_pick_wan_per_packet :: "flow_tls \<Rightarrow> int list \<Rightarrow> int list option \<Rightarrow> int \<times> flow_tls" where
  "flow_table_pick_wan_per_packet t wans weights =
     (if wans = [] then (0, t)
      else
        let wans = take MAX_INTERFACES wans;
            st = (if flow_swrr_pool_same (g_default_swrr t) wans then g_default_swrr t
                  else flow_swrr_reset None 0 wans)
        in case flow_swrr_pick st wans weights of (w, st') \<Rightarrow> (w, t\<lparr>g_default_swrr := st'\<rparr>))"

text \<open>The part of the next function that finds or reuses the way of the flow.\<close>

definition flow_swrr_select :: "(nat \<Rightarrow> flow_swrr_state) \<Rightarrow> flow_key \<Rightarrow> u32 \<Rightarrow> int list \<Rightarrow> nat \<times> flow_swrr_state" where
  "flow_swrr_select set_ways key hash wans =
     (case way_scan (\<lambda>w. fs_valid (set_ways w)) (\<lambda>w. fs_key (set_ways w) = key)
             (\<lambda>w. fs_stamp (set_ways w)) [0..<FLOW_SWRR_WAYS] 0 of
        Inl w \<Rightarrow> (w, if flow_swrr_pool_same (set_ways w) wans then set_ways w
                      else flow_swrr_reset (Some key) hash wans)
      | Inr w \<Rightarrow> (w, flow_swrr_reset (Some key) hash wans))"

definition flow_table_pick_wan_per_flow_packet ::
    "bool \<Rightarrow> flow_tls \<Rightarrow> u32 \<Rightarrow> u32 \<Rightarrow> u16 \<Rightarrow> u16 \<Rightarrow> u8 \<Rightarrow> int list \<Rightarrow> int list option \<Rightarrow> int \<times> flow_tls" where
  "flow_table_pick_wan_per_flow_packet calloc_ok t src_ip dst_ip src_port dst_port protocol wans weights =
     (if wans = [] then (0, t)
      else
        let wans = take MAX_INTERFACES wans in
        case flow_table_thread_init calloc_ok t of (ok, t) \<Rightarrow>
        case g_flow_swrr t of
          None \<Rightarrow> flow_table_pick_wan_per_packet t wans weights
        | Some tbl \<Rightarrow>
            case normalize_flow_5tuple src_ip dst_ip src_port dst_port of (sip, dip, sport, dport) \<Rightarrow>
            let key = \<lparr>fk_src_ip = sip, fk_dst_ip = dip, fk_src_port = sport, fk_dst_port = dport,
                       fk_protocol = protocol\<rparr>;
                hash = flow_hash sip dip sport dport protocol;
                si = unat (hash AND (of_nat FLOW_SWRR_SETS - 1));
                (way, st) = flow_swrr_select (tbl si) key hash wans;
                clock = g_flow_swrr_clock t + 1
            in case flow_swrr_pick (st\<lparr>fs_stamp := clock\<rparr>) wans weights of (res, st') \<Rightarrow>
               (res, t\<lparr>g_flow_swrr := Some (tbl(si := (tbl si)(way := st'))), g_flow_swrr_clock := clock\<rparr>))"

section \<open>The two loops\<close>

definition pos_weight :: "int list option \<Rightarrow> nat \<Rightarrow> int" where
  "pos_weight weights i = max 0 (weight_at weights i)"

definition total_weight :: "int list option \<Rightarrow> nat \<Rightarrow> int" where
  "total_weight weights n = (\<Sum>i<n. pos_weight weights i)"

lemma pos_weight_nonneg [simp]: "0 \<le> pos_weight weights i"
  by (simp add: pos_weight_def)

lemma swrr_credit_spec:
  assumes "n \<le> length current"
  shows "snd (swrr_credit weights n current) = total_weight weights n
     \<and> length (fst (swrr_credit weights n current)) = length current
     \<and> (\<forall>i < length current. fst (swrr_credit weights n current) ! i =
           current ! i + (if i < n then pos_weight weights i else 0))"
  using assms
proof (induction n)
  case 0
  then show ?case by (simp add: swrr_credit_def total_weight_def)
next
  case (Suc n)
  obtain cur tot where c: "swrr_credit weights n current = (cur, tot)" by fastforce
  have "swrr_credit weights (Suc n) current =
      (if weight_at weights n \<le> 0 then (cur, tot)
       else (cur[n := cur ! n + weight_at weights n], tot + weight_at weights n))"
    using c by (simp add: swrr_credit_def Let_def)
  with Suc c show ?case
    by (auto simp: total_weight_def pos_weight_def nth_list_update less_Suc_eq)
qed

text \<open>\<open>best_of S b\<close>: \<open>b\<close> is a WAN of greatest credit among those of positive weight in \<open>S\<close>.\<close>

definition best_of :: "int list option \<Rightarrow> int list \<Rightarrow> nat set \<Rightarrow> nat option \<Rightarrow> bool" where
  "best_of weights current S best \<longleftrightarrow>
     (case best of
        None \<Rightarrow> \<forall>i \<in> S. weight_at weights i \<le> 0
      | Some b \<Rightarrow> b \<in> S \<and> weight_at weights b > 0
          \<and> (\<forall>i \<in> S. weight_at weights i > 0 \<longrightarrow> current ! i \<le> current ! b))"

lemma best_of_better:
  "best_of weights current S b \<Longrightarrow> best_of weights current (insert i S) (swrr_better weights current i b)"
  by (cases b) (force simp: best_of_def swrr_better_def)+

lemma best_of_fold:
  "best_of weights current S b \<Longrightarrow>
   best_of weights current (S \<union> f ` set ys) (fold (\<lambda>off. swrr_better weights current (f off)) ys b)"
proof (induction ys arbitrary: S b)
  case (Cons y ys)
  from Cons.IH [OF best_of_better [OF Cons.prems, of "f y"]] show ?case by simp
qed simp

lemma swrr_best_of: "best_of weights current {0..<n} (swrr_best weights current tie n)"
proof -
  let ?f = "\<lambda>off. (tie + off) mod n"
  have "?f ` set [0..<n] = {0..<n}"
  proof
    show "?f ` set [0..<n] \<subseteq> {0..<n}" by (cases n) auto
    show "{0..<n} \<subseteq> ?f ` set [0..<n]" using rotation_surj [of _ n tie] by force
  qed
  moreover have "best_of weights current {} None" by (simp add: best_of_def)
  ultimately show ?thesis
    using best_of_fold [of weights current "{}" None ?f "[0..<n]"] by (simp add: swrr_best_def)
qed

section \<open>Smooth weighted round robin is exact\<close>

text \<open>A run of consecutive picks from one state, with the same pool and the same weights.\<close>

primrec swrr_run :: "nat \<Rightarrow> flow_swrr_state \<Rightarrow> int list \<Rightarrow> int list option \<Rightarrow> int list \<times> flow_swrr_state" where
  "swrr_run 0 st wans weights = ([], st)"
| "swrr_run (Suc k) st wans weights =
     (case flow_swrr_pick st wans weights of (w, st1) \<Rightarrow>
      case swrr_run k st1 wans weights of (ws, st2) \<Rightarrow> (w # ws, st2))"

text \<open>The credits of the pool sum to zero, none falls to minus the total weight, and a WAN
  without weight has no credit.\<close>

definition swrr_inv :: "int list option \<Rightarrow> nat \<Rightarrow> int list \<Rightarrow> bool" where
  "swrr_inv weights n cur \<longleftrightarrow> n \<le> length cur \<and> (\<Sum>i<n. cur ! i) = 0
     \<and> (\<forall>i<n. - total_weight weights n < cur ! i)
     \<and> (\<forall>i<n. weight_at weights i \<le> 0 \<longrightarrow> cur ! i = 0)"

lemma total_weight_pos_ex: "0 < total_weight weights n \<Longrightarrow> \<exists>i<n. weight_at weights i > 0"
proof (rule ccontr)
  assume "0 < total_weight weights n" and "\<not> (\<exists>i<n. weight_at weights i > 0)"
  then have "pos_weight weights i = 0" if "i < n" for i
    using that by (force simp: pos_weight_def)
  then have "total_weight weights n = 0" unfolding total_weight_def by (intro sum.neutral) simp
  with \<open>0 < total_weight weights n\<close> show False by simp
qed

lemma pick_positive:
  assumes n: "n = length wans" "2 \<le> n" "n \<le> length (fs_current st)"
    and tot: "0 < total_weight weights n"
  shows "\<exists>b<n. weight_at weights b > 0 \<and> fst (flow_swrr_pick st wans weights) = wans ! b
     \<and> length (fs_current (snd (flow_swrr_pick st wans weights))) = length (fs_current st)
     \<and> (\<forall>i<n. fs_current (snd (flow_swrr_pick st wans weights)) ! i =
           fs_current st ! i + pos_weight weights i - (if i = b then total_weight weights n else 0))
     \<and> (\<forall>i<n. weight_at weights i > 0 \<longrightarrow>
           fs_current st ! i + pos_weight weights i \<le> fs_current st ! b + pos_weight weights b)"
proof -
  obtain cur t where c: "swrr_credit weights n (fs_current st) = (cur, t)" by fastforce
  have t: "t = total_weight weights n" and l: "length cur = length (fs_current st)"
    and cur: "\<And>i. i < n \<Longrightarrow> cur ! i = fs_current st ! i + pos_weight weights i"
    using swrr_credit_spec [OF n(3), of weights] c n(3) by auto
  have bo: "best_of weights cur {0..<n} (swrr_best weights cur (unat (fs_tie_start st)) n)"
    by (rule swrr_best_of)
  obtain b where b: "swrr_best weights cur (unat (fs_tie_start st)) n = Some b"
  proof (cases "swrr_best weights cur (unat (fs_tie_start st)) n")
    case None
    with bo have "\<forall>i<n. weight_at weights i \<le> 0" by (simp add: best_of_def)
    with total_weight_pos_ex [OF tot] show ?thesis by force
  qed
  with bo have "b < n" "weight_at weights b > 0"
    and mx: "\<And>i. i < n \<Longrightarrow> weight_at weights i > 0 \<Longrightarrow> cur ! i \<le> cur ! b"
    by (auto simp: best_of_def)
  moreover have "flow_swrr_pick st wans weights =
      (wans ! b, st\<lparr>fs_current := cur[b := cur ! b - t], fs_tie_start := of_nat ((b + 1) mod n)\<rparr>)"
    using n c b tot t by (auto simp: flow_swrr_pick_def Let_def)
  ultimately show ?thesis
    using n l cur t mx by (intro exI [of _ b]) (auto simp: nth_list_update)
qed

lemma pick_keeps_inv:
  assumes n: "n = length wans" "2 \<le> n" and tot: "0 < total_weight weights n"
    and inv: "swrr_inv weights n (fs_current st)"
  shows "swrr_inv weights n (fs_current (snd (flow_swrr_pick st wans weights)))"
proof -
  let ?T = "total_weight weights n" and ?c = "\<lambda>i. fs_current st ! i"
    and ?c' = "\<lambda>i. fs_current (snd (flow_swrr_pick st wans weights)) ! i"
  have len: "n \<le> length (fs_current st)" using inv by (simp add: swrr_inv_def)
  obtain b where b: "b < n" "weight_at weights b > 0"
    and l: "length (fs_current (snd (flow_swrr_pick st wans weights))) = length (fs_current st)"
    and c': "\<And>i. i < n \<Longrightarrow> ?c' i = ?c i + pos_weight weights i - (if i = b then ?T else 0)"
    and mx: "\<And>i. i < n \<Longrightarrow> weight_at weights i > 0 \<Longrightarrow>
      ?c i + pos_weight weights i \<le> ?c b + pos_weight weights b"
    using pick_positive [OF n len tot] by blast
  have sum0: "(\<Sum>i<n. ?c i) = 0" using inv by (simp add: swrr_inv_def)
  have bpos: "0 < ?c b + pos_weight weights b"
  proof (rule ccontr)
    assume neg: "\<not> 0 < ?c b + pos_weight weights b"
    have "?c i + pos_weight weights i \<le> 0" if "i < n" for i
      using that inv mx [OF that] neg by (cases "weight_at weights i > 0") (auto simp: swrr_inv_def pos_weight_def)
    then have "(\<Sum>i<n. ?c i + pos_weight weights i) \<le> 0" by (intro sum_nonpos) auto
    then show False using sum0 tot by (simp add: sum.distrib total_weight_def)
  qed
  have "(\<Sum>i<n. ?c' i) = (\<Sum>i<n. ?c i + pos_weight weights i) - (\<Sum>i<n. if i = b then ?T else 0)"
    by (simp add: c' sum_subtractf)
  also have "\<dots> = 0" using sum0 b(1) by (simp add: sum.distrib total_weight_def)
  finally have "(\<Sum>i<n. ?c' i) = 0" .
  moreover have "- ?T < ?c' i" if "i < n" for i
    using inv that bpos tot pos_weight_nonneg [of weights i] c' [OF that]
    by (auto simp: swrr_inv_def intro: order.strict_trans2)
  moreover have "?c' i = 0" if "i < n" "weight_at weights i \<le> 0" for i
    using inv that b(2) c' [OF that(1)] by (auto simp: swrr_inv_def pos_weight_def)
  ultimately show ?thesis using len l by (simp add: swrr_inv_def)
qed

lemma run_accounting:
  assumes n: "n = length wans" "2 \<le> n" and tot: "0 < total_weight weights n" and d: "distinct wans"
    and "swrr_inv weights n (fs_current st)" and "swrr_run k st wans weights = (ps, st')"
  shows "swrr_inv weights n (fs_current st') \<and> length ps = k \<and> set ps \<subseteq> set wans \<and>
     (\<forall>i<n. fs_current st' ! i = fs_current st ! i + int k * pos_weight weights i
         - total_weight weights n * int (count_list ps (wans ! i)))"
  using assms(5,6)
proof (induction k arbitrary: st ps)
  case 0
  then show ?case by simp
next
  case (Suc k)
  obtain w st1 where p: "flow_swrr_pick st wans weights = (w, st1)" by fastforce
  obtain ws where r: "swrr_run k st1 wans weights = (ws, st')" and ps: "ps = w # ws"
    using Suc.prems(2) p by (auto split: prod.splits)
  have len: "n \<le> length (fs_current st)" using Suc.prems(1) by (simp add: swrr_inv_def)
  obtain b where b: "b < n" "w = wans ! b"
    and c: "\<And>i. i < n \<Longrightarrow> fs_current st1 ! i =
      fs_current st ! i + pos_weight weights i - (if i = b then total_weight weights n else 0)"
    using pick_positive [OF n len tot] p by auto
  have "swrr_inv weights n (fs_current st1)"
    using pick_keeps_inv [OF n tot Suc.prems(1)] p by simp
  note IH = Suc.IH [OF this r]
  have "(wans ! b = wans ! i) = (b = i)" if "i < n" for i
    using that b(1) n(1) d by (simp add: nth_eq_iff_index_eq)
  with IH b n(1) show ?case by (auto simp: ps c algebra_simps)
qed

lemma sum_count_pool:
  assumes "distinct wans" and "set ps \<subseteq> set wans"
  shows "(\<Sum>i<length wans. count_list ps (wans ! i)) = length ps"
proof -
  have "(\<Sum>i<length wans. count_list ps (wans ! i)) = (\<Sum>w \<in> set wans. count_list ps w)"
    using assms(1) by (intro sum.reindex_bij_betw bij_betw_nth) auto
  also have "\<dots> = length ps" using assms(2) by (intro sum_count_set) auto
  finally show ?thesis .
qed

lemma run_exact:
  assumes n: "n = length wans" "2 \<le> n" and tot: "0 < total_weight weights n" and d: "distinct wans"
    and len: "n \<le> length (fs_current st)" and zero: "\<forall>i<n. fs_current st ! i = 0"
    and run: "swrr_run (nat (total_weight weights n)) st wans weights = (ps, st')"
  shows "\<forall>i<n. int (count_list ps (wans ! i)) = pos_weight weights i \<and> fs_current st' ! i = 0"
proof -
  let ?T = "total_weight weights n" and ?cnt = "\<lambda>i. int (count_list ps (wans ! i))"
  have "swrr_inv weights n (fs_current st)" using len zero tot by (simp add: swrr_inv_def)
  note acc = run_accounting [OF n tot d this run]
  have cur: "fs_current st' ! i = ?T * (pos_weight weights i - ?cnt i)" if "i < n" for i
    using acc that zero tot by (simp add: algebra_simps)
  have le: "?cnt i \<le> pos_weight weights i" if "i < n" for i
  proof (rule ccontr)
    assume "\<not> ?thesis"
    then have "pos_weight weights i - ?cnt i \<le> -1" by simp
    then have "?T * (pos_weight weights i - ?cnt i) \<le> ?T * (-1)" using tot by (intro mult_left_mono) auto
    with acc that cur [OF that] show False by (auto simp: swrr_inv_def)
  qed
  have "(\<Sum>i<n. count_list ps (wans ! i)) = nat ?T"
    using acc sum_count_pool [OF d, of ps] n(1) by simp
  then have "int (\<Sum>i<n. count_list ps (wans ! i)) = ?T" using tot by simp
  then have "(\<Sum>i<n. pos_weight weights i - ?cnt i) = 0"
    by (simp add: sum_subtractf total_weight_def)
  then have "\<forall>i \<in> {..<n}. pos_weight weights i - ?cnt i = 0"
    using le by (subst (asm) sum_nonneg_eq_0_iff) auto
  then show ?thesis using cur by auto
qed

lemma inv_run:
  assumes "n = length wans" "2 \<le> n" "0 < total_weight weights n" "swrr_inv weights n (fs_current st)"
  shows "swrr_inv weights n (fs_current (snd (swrr_run k st wans weights)))"
  using assms(4)
proof (induction k arbitrary: st)
  case (Suc k)
  show ?case
    using Suc.IH [OF pick_keeps_inv [OF assms(1-3) Suc.prems]] by (simp add: case_prod_unfold)
qed simp

lemma inv_upper:
  assumes inv: "swrr_inv weights n cur" and "i < n"
  shows "cur ! i \<le> int (n - 1) * total_weight weights n"
proof -
  have "- (int (n - 1) * total_weight weights n) = (\<Sum>j \<in> {..<n} - {i}. - total_weight weights n)"
    using \<open>i < n\<close> by simp
  also have "\<dots> \<le> (\<Sum>j \<in> {..<n} - {i}. cur ! j)"
    using inv by (intro sum_mono) (auto simp: swrr_inv_def less_imp_le)
  also have "\<dots> = - (cur ! i)"
    using inv \<open>i < n\<close> sum.remove [of "{..<n}" i "(!) cur"] by (simp add: swrr_inv_def)
  finally show ?thesis by simp
qed

lemma total_weight_le:
  assumes "\<And>i. i < n \<Longrightarrow> pos_weight weights i \<le> B"
  shows "total_weight weights n \<le> int n * B"
  unfolding total_weight_def using sum_bounded_above [of "{..<n}" "pos_weight weights" B] assms by simp

lemma reset_simps [simp]:
  "fs_current (flow_swrr_reset k h wans) = replicate MAX_INTERFACES 0"
  "fs_key (flow_swrr_reset k h wans) = (case k of None \<Rightarrow> flow_key_zero | Some k \<Rightarrow> k)"
  "fs_valid (flow_swrr_reset k h wans)"
  "fs_wan_count (flow_swrr_reset k h wans) = of_nat (length wans)"
  by (simp_all add: flow_swrr_reset_def flow_swrr_zero_def)

lemma reset_inv:
  "n \<le> MAX_INTERFACES \<Longrightarrow> 0 < total_weight weights n \<Longrightarrow> swrr_inv weights n (fs_current (flow_swrr_reset k h wans))"
  by (simp add: swrr_inv_def)

section \<open>The cache of flows\<close>

lemma pick_keeps [simp]:
  "fs_key (snd (flow_swrr_pick st wans weights)) = fs_key st"
  "fs_valid (snd (flow_swrr_pick st wans weights)) = fs_valid st"
  "fs_wans (snd (flow_swrr_pick st wans weights)) = fs_wans st"
  "fs_wan_count (snd (flow_swrr_pick st wans weights)) = fs_wan_count st"
  "fs_stamp (snd (flow_swrr_pick st wans weights)) = fs_stamp st"
  by (simp_all add: flow_swrr_pick_def Let_def split: prod.splits)

lemma pick_member:
  assumes "wans \<noteq> []"
  shows "fst (flow_swrr_pick st wans weights) \<in> set wans"
proof -
  let ?n = "length wans"
  have tie: "wans ! (i mod ?n) \<in> set wans" for i using assms by simp
  have best: "wans ! (case swrr_best weights cur t ?n of None \<Rightarrow> 0 | Some b \<Rightarrow> b) \<in> set wans" for cur t
    using swrr_best_of [of weights cur ?n t] assms by (auto simp: best_of_def split: option.splits)
  show ?thesis using assms tie best by (auto simp: flow_swrr_pick_def Let_def split: prod.splits)
qed

lemma normalize_sym:
  "normalize_flow_5tuple dst src dport sport = normalize_flow_5tuple src dst sport dport"
  using bswap32_inj [of src dst] by (auto simp: normalize_flow_5tuple_def Let_def)

text \<open>The entry a packet of a flow is looked up under.\<close>

definition flow_key_of :: "u32 \<Rightarrow> u32 \<Rightarrow> u16 \<Rightarrow> u16 \<Rightarrow> u8 \<Rightarrow> flow_key" where
  "flow_key_of src_ip dst_ip src_port dst_port protocol =
     (case normalize_flow_5tuple src_ip dst_ip src_port dst_port of (sip, dip, sport, dport) \<Rightarrow>
        \<lparr>fk_src_ip = sip, fk_dst_ip = dip, fk_src_port = sport, fk_dst_port = dport, fk_protocol = protocol\<rparr>)"

definition flow_set_of :: "flow_key \<Rightarrow> nat" where
  "flow_set_of k = unat (flow_hash (fk_src_ip k) (fk_dst_ip k) (fk_src_port k) (fk_dst_port k) (fk_protocol k)
     AND (of_nat FLOW_SWRR_SETS - 1))"

text \<open>The ways of a set hold distinct keys.\<close>

definition flow_tbl_ok :: "(nat \<Rightarrow> nat \<Rightarrow> flow_swrr_state) \<Rightarrow> bool" where
  "flow_tbl_ok tbl \<longleftrightarrow> (\<forall>s. \<forall>v < FLOW_SWRR_WAYS. \<forall>w < FLOW_SWRR_WAYS.
     fs_valid (tbl s v) \<and> fs_valid (tbl s w) \<and> fs_key (tbl s v) = fs_key (tbl s w) \<longrightarrow> v = w)"

definition flow_tls_ok :: "flow_tls \<Rightarrow> bool" where
  "flow_tls_ok t \<longleftrightarrow> (\<forall>tbl. g_flow_swrr t = Some tbl \<longrightarrow> flow_tbl_ok tbl)"

lemma select_spec:
  "fst (flow_swrr_select S key h wans) < FLOW_SWRR_WAYS
   \<and> fs_valid (snd (flow_swrr_select S key h wans)) \<and> fs_key (snd (flow_swrr_select S key h wans)) = key
   \<and> ((fs_valid (S (fst (flow_swrr_select S key h wans))) \<and> fs_key (S (fst (flow_swrr_select S key h wans))) = key)
      \<or> (\<forall>w < FLOW_SWRR_WAYS. \<not> (fs_valid (S w) \<and> fs_key (S w) = key)))"
proof (cases "way_scan (\<lambda>w. fs_valid (S w)) (\<lambda>w. fs_key (S w) = key) (\<lambda>w. fs_stamp (S w)) [0..<FLOW_SWRR_WAYS] 0")
  case (Inl w)
  then show ?thesis using way_scan_Inl [OF Inl] by (simp add: flow_swrr_select_def)
next
  case (Inr w)
  then show ?thesis
    using way_scan_Inr_range [OF Inr] way_scan_Inr_miss [OF Inr]
    by (auto simp: flow_swrr_select_def FLOW_SWRR_WAYS_def)
qed

lemma per_flow_cases:
  assumes wans: "wans \<noteq> []" and tbl: "g_flow_swrr t = Some tbl"
    and key: "key = flow_key_of src dst sport dport proto"
    and pick: "flow_table_pick_wan_per_flow_packet ok t src dst sport dport proto wans weights = (res, t')"
  obtains way st where "way < FLOW_SWRR_WAYS"
    and "res = fst (flow_swrr_pick st (take MAX_INTERFACES wans) weights)"
    and "g_flow_swrr t' = Some (tbl(flow_set_of key := (tbl (flow_set_of key))
           (way := snd (flow_swrr_pick st (take MAX_INTERFACES wans) weights))))"
    and "fs_valid st" and "fs_key st = key" and "fs_stamp st = g_flow_swrr_clock t + 1"
    and "(fs_valid (tbl (flow_set_of key) way) \<and> fs_key (tbl (flow_set_of key) way) = key)
         \<or> (\<forall>w < FLOW_SWRR_WAYS. \<not> (fs_valid (tbl (flow_set_of key) w) \<and> fs_key (tbl (flow_set_of key) w) = key))"
proof -
  let ?wans = "take MAX_INTERFACES wans"
  obtain sip dip spt dpt where nf: "normalize_flow_5tuple src dst sport dport = (sip, dip, spt, dpt)"
    using prod_cases4 by blast
  have k: "key = \<lparr>fk_src_ip = sip, fk_dst_ip = dip, fk_src_port = spt, fk_dst_port = dpt, fk_protocol = proto\<rparr>"
    using key nf by (simp add: flow_key_of_def)
  let ?h = "flow_hash sip dip spt dpt proto"
  define S where "S = tbl (flow_set_of key)"
  define ws where "ws = flow_swrr_select S key ?h ?wans"
  define st where "st = (snd ws)\<lparr>fs_stamp := g_flow_swrr_clock t + 1\<rparr>"
  have "(res, t') = (fst (flow_swrr_pick st ?wans weights),
      t\<lparr>g_flow_swrr := Some (tbl(flow_set_of key := S(fst ws := snd (flow_swrr_pick st ?wans weights)))),
        g_flow_swrr_clock := g_flow_swrr_clock t + 1\<rparr>)"
    unfolding pick [symmetric] flow_table_pick_wan_per_flow_packet_def flow_table_thread_init_def
    using wans tbl by (simp add: nf Let_def k flow_set_of_def S_def ws_def st_def case_prod_unfold)
  then have "res = fst (flow_swrr_pick st ?wans weights)" "g_flow_swrr t' =
      Some (tbl(flow_set_of key := S(fst ws := snd (flow_swrr_pick st ?wans weights))))" by simp_all
  moreover note select_spec [of S key ?h ?wans, folded ws_def]
  ultimately show ?thesis using that [of "fst ws" st] by (auto simp: S_def st_def)
qed

section \<open>Properties\<close>



text \<open>The credits cannot overflow: with weights of type \<open>int\<close>, after any number of picks
  from a freshly reset state every credit of the pool is below \<open>2 ^ 39\<close> in absolute value, and
  adding a weight keeps it below \<open>2 ^ 40\<close>, while the C type is \<open>int64_t\<close>.\<close>

lemma flow_swrr_credit_bounds:
  assumes "2 \<le> length wans" and "length wans \<le> MAX_INTERFACES"
    and "0 < total_weight weights (length wans)"
    and "\<forall>i < length wans. weight_at weights i < 2 ^ 31"
    and "i < length wans"
  shows "\<bar>fs_current (snd (swrr_run k (flow_swrr_reset key hash wans) wans weights)) ! i\<bar> < 2 ^ 39"
proof -
  let ?n = "length wans" and ?T = "total_weight weights (length wans)"
    and ?c = "fs_current (snd (swrr_run k (flow_swrr_reset key hash wans) wans weights))"
  have inv: "swrr_inv weights ?n ?c" using assms by (intro inv_run reset_inv) auto
  have "?T \<le> int ?n * 2 ^ 31" using assms(4) by (intro total_weight_le) (auto simp: pos_weight_def less_imp_le)
  also have "\<dots> \<le> 2 ^ 35" using assms(2) by (simp add: MAX_INTERFACES_def)
  finally have T: "?T \<le> 2 ^ 35" .
  have "int (?n - 1) * ?T \<le> 15 * 2 ^ 35"
    using T assms(2,3) by (intro mult_mono) (auto simp: MAX_INTERFACES_def)
  then show ?thesis using inv_upper [OF inv assms(5)] inv T assms(5) by (fastforce simp: swrr_inv_def)
qed

text \<open>A pick for a packet of a flow returns a member of the (clamped) pool, leaves the flow
  present in its set of the cache with the newest stamp, touches at most one way of that one set,
  and keeps the keys of each set distinct.\<close>

lemma flow_pick_sound:
  assumes "wans \<noteq> []" and "g_flow_swrr t = Some tbl" and "flow_tbl_ok tbl"
    and "flow_table_pick_wan_per_flow_packet ok t src dst sport dport proto wans weights = (res, t')"
  shows "res \<in> set (take MAX_INTERFACES wans)
    \<and> (\<exists>tbl' way. g_flow_swrr t' = Some tbl' \<and> flow_tbl_ok tbl' \<and> way < FLOW_SWRR_WAYS
         \<and> (let s = flow_set_of (flow_key_of src dst sport dport proto) in
            fs_valid (tbl' s way) \<and> fs_key (tbl' s way) = flow_key_of src dst sport dport proto
            \<and> fs_stamp (tbl' s way) = g_flow_swrr_clock t + 1
            \<and> (\<forall>s' w. (s', w) \<noteq> (s, way) \<longrightarrow> tbl' s' w = tbl s' w)))"
proof -
  let ?key = "flow_key_of src dst sport dport proto"
  obtain way st where c: "way < FLOW_SWRR_WAYS"
    "res = fst (flow_swrr_pick st (take MAX_INTERFACES wans) weights)"
    "g_flow_swrr t' = Some (tbl(flow_set_of ?key := (tbl (flow_set_of ?key))
           (way := snd (flow_swrr_pick st (take MAX_INTERFACES wans) weights))))"
    "fs_valid st" "fs_key st = ?key" "fs_stamp st = g_flow_swrr_clock t + 1"
    and k: "(fs_valid (tbl (flow_set_of ?key) way) \<and> fs_key (tbl (flow_set_of ?key) way) = ?key)
         \<or> (\<forall>w < FLOW_SWRR_WAYS. \<not> (fs_valid (tbl (flow_set_of ?key) w) \<and> fs_key (tbl (flow_set_of ?key) w) = ?key))"
    using per_flow_cases [OF assms(1,2) refl assms(4)] by metis
  have "take MAX_INTERFACES wans \<noteq> []" using assms(1) by (simp add: MAX_INTERFACES_def)
  with c(2) have "res \<in> set (take MAX_INTERFACES wans)" using pick_member by blast
  moreover have "flow_tbl_ok (tbl(flow_set_of ?key := (tbl (flow_set_of ?key))
           (way := snd (flow_swrr_pick st (take MAX_INTERFACES wans) weights))))"
    using assms(3) k c(4,5) unfolding flow_tbl_ok_def by (auto split: if_splits; metis c(1))
  ultimately show ?thesis using c by (auto simp: Let_def)
qed

text \<open>Both directions of a connection are one flow: swapping source and destination
  gives the same WAN and the same new state.\<close>

lemma flow_pick_direction_free:
  "flow_table_pick_wan_per_flow_packet ok t dst src dport sport proto wans weights =
   flow_table_pick_wan_per_flow_packet ok t src dst sport dport proto wans weights"
proof -
  have n: "normalize_flow_5tuple dst src dport sport \<equiv> normalize_flow_5tuple src dst sport dport"
    by (rule eq_reflection) (rule normalize_sym)
  show ?thesis unfolding flow_table_pick_wan_per_flow_packet_def n by (rule refl)
qed

end
