(* ===== verification/Eth_Parse.thy ===== *)
theory Eth_Parse
  imports NE_Prelude
begin

text \<open>
  Ethernet and layer-2 marker parsing and the TCP MSS clamp of
  \<open>src/crypto/common/eth_parse.c\<close>. A packet is the pair of its frame buffer and \<open>pkt_len\<close>. An
  offset that is \<open>-1\<close> in C is \<^const>\<open>None\<close> inside the memory monad, so that
  \<open>Some None\<close> is the C result \<open>-1\<close> and \<^const>\<open>None\<close> an access outside the frame. Null pointers
  are not represented.
\<close>

section \<open>Definitions\<close>

definition ETH_P_8021Q :: u16 where "ETH_P_8021Q = 0x8100"
definition ETH_P_IP :: u16 where "ETH_P_IP = 0x0800"
definition ETH_P_ARP :: u16 where "ETH_P_ARP = 0x0806"
definition NE_L2_FAKE_ETHERTYPE :: u16 where "NE_L2_FAKE_ETHERTYPE = 0x104A"
definition NE_L2_FAKE_ETHERTYPE_UDP :: u16 where "NE_L2_FAKE_ETHERTYPE_UDP = 0x104B"
definition NE_L2_FAKE_ETHERTYPE_ARP :: u16 where "NE_L2_FAKE_ETHERTYPE_ARP = 0x1048"

lemmas ethertype_defs = ETH_P_8021Q_def ETH_P_IP_def ETH_P_ARP_def NE_L2_FAKE_ETHERTYPE_def
  NE_L2_FAKE_ETHERTYPE_UDP_def NE_L2_FAKE_ETHERTYPE_ARP_def

definition eth_read_et :: "buf \<Rightarrow> nat \<Rightarrow> u16 mem" where
  "eth_read_et pkt off = do { hi \<leftarrow> rd8 pkt off; lo \<leftarrow> rd8 pkt (off + 1); Some (be16 hi lo) }"

definition eth_match_et :: "u16 \<Rightarrow> u16 \<Rightarrow> u16 \<Rightarrow> bool" where
  "eth_match_et et target fake \<longleftrightarrow> et = target \<or> (fake \<noteq> 0 \<and> et = fake)"

definition eth_inner_hit :: "u16 \<Rightarrow> bool" where
  "eth_inner_hit et \<longleftrightarrow> eth_match_et et ETH_P_IP NE_L2_FAKE_ETHERTYPE
     \<or> et = NE_L2_FAKE_ETHERTYPE_UDP \<or> et = NE_L2_FAKE_ETHERTYPE_ARP"

definition crypto_eth_inner_et_off :: "buf \<Rightarrow> nat \<Rightarrow> nat option mem" where
  "crypto_eth_inner_et_off pkt pkt_len =
     (if pkt_len < 14 then Some None
      else do {
        et \<leftarrow> eth_read_et pkt 12;
        if eth_inner_hit et then Some (Some 12)
        else if et \<noteq> ETH_P_8021Q then Some None
        else if pkt_len < 18 then Some None
        else do {
          et \<leftarrow> eth_read_et pkt 16;
          if eth_inner_hit et then Some (Some 16) else Some None } })"

definition crypto_eth_ipv4_offset :: "buf \<Rightarrow> nat \<Rightarrow> nat option mem" where
  "crypto_eth_ipv4_offset pkt pkt_len = do {
     et_off \<leftarrow> crypto_eth_inner_et_off pkt pkt_len;
     case et_off of
       None \<Rightarrow> Some None
     | Some et_off \<Rightarrow> do {
         et \<leftarrow> eth_read_et pkt et_off;
         if et \<noteq> ETH_P_IP then Some None
         else if pkt_len < et_off + 2 + 20 then Some None
         else Some (Some (et_off + 2)) } }"

definition crypto_eth_arp_offset :: "buf \<Rightarrow> nat \<Rightarrow> nat option mem" where
  "crypto_eth_arp_offset pkt pkt_len =
     (if pkt_len < 14 then Some None
      else do {
        et \<leftarrow> eth_read_et pkt 12;
        if et = ETH_P_8021Q \<and> pkt_len < 18 then Some None
        else do {
          let et_off = (if et = ETH_P_8021Q then 16 else 12);
          et \<leftarrow> (if et = ETH_P_8021Q then eth_read_et pkt et_off else Some et);
          if et \<noteq> ETH_P_ARP then Some None
          else if pkt_len < et_off + 2 + 28 then Some None
          else Some (Some (et_off + 2)) } })"

definition crypto_eth_l2_prefix_len :: "buf \<Rightarrow> nat \<Rightarrow> nat option mem" where
  "crypto_eth_l2_prefix_len pkt pkt_len = crypto_eth_inner_et_off pkt pkt_len"

definition crypto_pkt_is_ipv4 :: "buf \<Rightarrow> nat \<Rightarrow> bool mem" where
  "crypto_pkt_is_ipv4 pkt pkt_len = do { r \<leftarrow> crypto_eth_ipv4_offset pkt pkt_len; Some (r \<noteq> None) }"

definition crypto_pkt_is_arp :: "buf \<Rightarrow> nat \<Rightarrow> bool mem" where
  "crypto_pkt_is_arp pkt pkt_len = do { r \<leftarrow> crypto_eth_arp_offset pkt pkt_len; Some (r \<noteq> None) }"

definition crypto_eth_set_ipv4_et :: "buf \<Rightarrow> nat \<Rightarrow> buf mem" where
  "crypto_eth_set_ipv4_et pkt off = do { p \<leftarrow> wr8 pkt off 0x08; wr8 p (off + 1) 0x00 }"

definition crypto_eth_set_arp_et :: "buf \<Rightarrow> nat \<Rightarrow> buf mem" where
  "crypto_eth_set_arp_et pkt off = do { p \<leftarrow> wr8 pkt off 0x08; wr8 p (off + 1) 0x06 }"

definition crypto_eth_l2_has_marker :: "buf \<Rightarrow> nat \<Rightarrow> bool mem" where
  "crypto_eth_l2_has_marker pkt pkt_len = do {
     et_off \<leftarrow> crypto_eth_inner_et_off pkt pkt_len;
     case et_off of
       None \<Rightarrow> Some False
     | Some et_off \<Rightarrow> do {
         et \<leftarrow> eth_read_et pkt et_off;
         Some (et = NE_L2_FAKE_ETHERTYPE \<or> et = NE_L2_FAKE_ETHERTYPE_UDP) } }"

definition crypto_eth_l2_has_arp_marker :: "buf \<Rightarrow> nat \<Rightarrow> bool mem" where
  "crypto_eth_l2_has_arp_marker pkt pkt_len = do {
     et_off \<leftarrow> crypto_eth_inner_et_off pkt pkt_len;
     case et_off of
       None \<Rightarrow> Some False
     | Some et_off \<Rightarrow> do {
         et \<leftarrow> eth_read_et pkt et_off;
         Some (et = NE_L2_FAKE_ETHERTYPE_ARP) } }"

definition crypto_eth_l2_policy_off :: "buf \<Rightarrow> nat \<Rightarrow> nat option mem" where
  "crypto_eth_l2_policy_off pkt pkt_len = do {
     et_off \<leftarrow> crypto_eth_inner_et_off pkt pkt_len;
     case et_off of
       None \<Rightarrow> Some None
     | Some et_off \<Rightarrow>
         if pkt_len < et_off + 2 + 1 then Some None else Some (Some (et_off + 2)) }"

definition crypto_eth_l2_read_policy_id :: "buf \<Rightarrow> nat \<Rightarrow> u8 option mem" where
  "crypto_eth_l2_read_policy_id pkt pkt_len = do {
     off \<leftarrow> crypto_eth_l2_policy_off pkt pkt_len;
     case off of None \<Rightarrow> Some None | Some off \<Rightarrow> do { v \<leftarrow> rd8 pkt off; Some (Some v) } }"

definition crypto_eth_l2_core_id_off :: "buf \<Rightarrow> nat \<Rightarrow> nat option mem" where
  "crypto_eth_l2_core_id_off pkt pkt_len = do {
     off \<leftarrow> crypto_eth_l2_policy_off pkt pkt_len;
     case off of None \<Rightarrow> Some None | Some off \<Rightarrow> Some (Some (off + 1)) }"

definition crypto_eth_l2_frag_magic_off :: "buf \<Rightarrow> nat \<Rightarrow> int \<Rightarrow> nat option mem" where
  "crypto_eth_l2_frag_magic_off pkt pkt_len nonce_size = do {
     off \<leftarrow> crypto_eth_l2_core_id_off pkt pkt_len;
     case off of
       None \<Rightarrow> Some None
     | Some off \<Rightarrow>
         if nonce_size < 0 then Some None
         else if pkt_len < off + 1 + nat nonce_size then Some None
         else Some (Some (off + 1 + nat nonce_size)) }"

definition crypto_eth_l2_read_worker_idx :: "buf \<Rightarrow> nat \<Rightarrow> u8 option mem" where
  "crypto_eth_l2_read_worker_idx pkt pkt_len = do {
     marked \<leftarrow> crypto_eth_l2_has_marker pkt pkt_len;
     if \<not> marked then Some None
     else do {
       core_off \<leftarrow> crypto_eth_l2_core_id_off pkt pkt_len;
       case core_off of None \<Rightarrow> Some None | Some off \<Rightarrow> do { v \<leftarrow> rd8 pkt off; Some (Some v) } } }"

text \<open>\<open>while (sum >> 16) sum = (sum & 0xFFFF) + (sum >> 16);\<close>\<close>

function csum_fold :: "u32 \<Rightarrow> u32" where
  "csum_fold s = (if drop_bit 16 s = 0 then s else csum_fold ((s AND 0xFFFF) + drop_bit 16 s))"
  by pat_completeness auto
termination
proof (relation "measure unat")
  fix s :: u32
  assume "drop_bit 16 s \<noteq> 0"
  then have "65536 \<le> unat s" by (simp add: drop_bit16_zero)
  then show "((s AND 0xFFFF) + drop_bit 16 s, s) \<in> measure unat"
    by (simp only: in_measure unat_fold_step fold_decreases)
qed simp

declare csum_fold.simps [simp del]

definition tcp_checksum_replace_word :: "buf \<Rightarrow> nat \<Rightarrow> u16 \<Rightarrow> u16 \<Rightarrow> buf mem" where
  "tcp_checksum_replace_word pkt tcp old_word new_word =
     (if old_word = new_word then Some pkt
      else do {
        hi \<leftarrow> rd8 pkt (tcp + 16);
        lo \<leftarrow> rd8 pkt (tcp + 17);
        let hc = be16 hi lo;
        let fsum = csum_fold (ucast (NOT hc) + ucast (NOT old_word) + ucast new_word);
        let hc' = (ucast (NOT fsum) :: u16);
        p \<leftarrow> wr8 pkt (tcp + 16) (ucast (drop_bit 8 hc'));
        wr8 p (tcp + 17) (ucast hc') })"

text \<open>The option loop: the offset of the MSS option the loop stops at with a match, if any.\<close>

function tcp_find_mss :: "buf \<Rightarrow> nat \<Rightarrow> nat \<Rightarrow> nat \<Rightarrow> nat option mem" where
  "tcp_find_mss pkt tcp opt_off opt_end =
     (if opt_off + 1 < opt_end then
        (case rd8 pkt (tcp + opt_off) of
           None \<Rightarrow> None
         | Some kind \<Rightarrow>
             if kind = 0 then Some None
             else if kind = 1 then tcp_find_mss pkt tcp (opt_off + 1) opt_end
             else if opt_off + 1 \<ge> opt_end then Some None
             else (case rd8 pkt (tcp + opt_off + 1) of
                 None \<Rightarrow> None
               | Some olen \<Rightarrow>
                   if unat olen < 2 \<or> opt_off + unat olen > opt_end then Some None
                   else if kind = 2 \<and> olen = 4 \<and> opt_off + 4 \<le> opt_end then Some (Some opt_off)
                   else tcp_find_mss pkt tcp (opt_off + unat olen) opt_end))
      else Some None)"
  by pat_completeness auto
termination
  by (relation "measure (\<lambda>(pkt, tcp, opt_off, opt_end). opt_end - opt_off)") auto

declare tcp_find_mss.simps [simp del]

definition tcp_mss_cap :: "u32 \<Rightarrow> u32 \<Rightarrow> u32 \<Rightarrow> u32" where
  "tcp_mss_cap path_mtu ihl wire_overhead =
     (let mss_cap = path_mtu - ihl - 20 - wire_overhead;
          mss_cap = (if mss_cap < 536 then 536 else mss_cap)
      in if mss_cap > 0xFFFF then 0xFFFF else mss_cap)"

text \<open>The body of the matching branch: lower the MSS, patch the checksum, report the change.\<close>

definition tcp_clamp_option :: "buf \<Rightarrow> nat \<Rightarrow> nat \<Rightarrow> u32 \<Rightarrow> (int \<times> buf) mem" where
  "tcp_clamp_option pkt tcp opt_off mss_cap = do {
     hi \<leftarrow> rd8 pkt (tcp + opt_off + 2);
     lo \<leftarrow> rd8 pkt (tcp + opt_off + 3);
     let old_mss = be16 hi lo;
     let new_mss = (if old_mss > ucast mss_cap then ucast mss_cap else old_mss);
     if new_mss \<noteq> old_mss then do {
       p \<leftarrow> wr8 pkt (tcp + opt_off + 2) (ucast (drop_bit 8 new_mss));
       p \<leftarrow> wr8 p (tcp + opt_off + 3) (ucast new_mss);
       p \<leftarrow> tcp_checksum_replace_word p tcp old_mss new_mss;
       Some (1, p) }
     else Some (0, pkt) }"

definition crypto_tcp_clamp_mss :: "buf \<Rightarrow> nat \<Rightarrow> u32 \<Rightarrow> u32 \<Rightarrow> (int \<times> buf) mem" where
  "crypto_tcp_clamp_mss pkt pkt_len path_mtu wire_overhead =
     (if path_mtu < 576 then Some (-1, pkt)
      else do {
        l3 \<leftarrow> crypto_eth_ipv4_offset pkt pkt_len;
        case l3 of
          None \<Rightarrow> Some (-1, pkt)
        | Some l3_off \<Rightarrow>
          if pkt_len < l3_off + 20 then Some (-1, pkt)
          else do {
            ip0 \<leftarrow> rd8 pkt l3_off;
            proto \<leftarrow> rd8 pkt (l3_off + 9);
            let ihl = unat (ip0 AND 0x0F) * 4;
            if ip0 AND 0xF0 \<noteq> 0x40 then Some (-1, pkt)
            else if proto \<noteq> 6 then Some (-1, pkt)
            else if ihl < 20 \<or> pkt_len < l3_off + ihl + 20 then Some (-1, pkt)
            else do {
              let tcp = l3_off + ihl;
              flags \<leftarrow> rd8 pkt (tcp + 13);
              doff \<leftarrow> rd8 pkt (tcp + 12);
              let data_off = unat (drop_bit 4 doff AND 0x0F) * 4;
              if flags AND 0x02 = 0 then Some (0, pkt)
              else if data_off < 20 \<or> pkt_len < l3_off + ihl + data_off then Some (-1, pkt)
              else if path_mtu \<le> of_nat ihl + 20 + wire_overhead then Some (-1, pkt)
              else do {
                found \<leftarrow> tcp_find_mss pkt tcp 20 data_off;
                case found of
                  None \<Rightarrow> Some (0, pkt)
                | Some opt_off \<Rightarrow>
                    tcp_clamp_option pkt tcp opt_off (tcp_mss_cap path_mtu (of_nat ihl) wire_overhead) } } } })"

section \<open>Offsets\<close>

definition et_at :: "buf \<Rightarrow> nat \<Rightarrow> u16" where
  "et_at pkt off = be16 (pkt ! off) (pkt ! (off + 1))"

lemma eth_read_et_ok [simp, mem_simps]: "off + 1 < length pkt \<Longrightarrow> eth_read_et pkt off = Some (et_at pkt off)"
  by (simp add: eth_read_et_def et_at_def)

lemma inner_et_off_spec:
  assumes "n \<le> length pkt"
  obtains r where "crypto_eth_inner_et_off pkt n = Some r"
    and "\<And>o1. r = Some o1 \<Longrightarrow> (o1 = 12 \<or> o1 = 16) \<and> o1 + 2 \<le> n \<and> eth_inner_hit (et_at pkt o1)"
proof (cases "crypto_eth_inner_et_off pkt n")
  case None
  with assms show ?thesis by (auto simp: crypto_eth_inner_et_off_def split: if_splits)
next
  case (Some r)
  with assms show ?thesis by (intro that) (auto simp: crypto_eth_inner_et_off_def split: if_splits)
qed

lemma ipv4_offset_spec:
  assumes "n \<le> length pkt"
  obtains r where "crypto_eth_ipv4_offset pkt n = Some r"
    and "\<And>o1. r = Some o1 \<Longrightarrow> (o1 = 14 \<or> o1 = 18) \<and> o1 + 20 \<le> n \<and> et_at pkt (o1 - 2) = ETH_P_IP"
proof -
  obtain r where "crypto_eth_inner_et_off pkt n = Some r"
    and "\<And>o1. r = Some o1 \<Longrightarrow> (o1 = 12 \<or> o1 = 16) \<and> o1 + 2 \<le> n"
    using inner_et_off_spec [OF assms] by metis
  with assms show ?thesis
    by (intro that [of "case r of None \<Rightarrow> None | Some off \<Rightarrow>
         if et_at pkt off \<noteq> ETH_P_IP \<or> n < off + 22 then None else Some (off + 2)"])
      (auto simp: crypto_eth_ipv4_offset_def split: option.splits if_splits)
qed

lemma arp_offset_spec:
  assumes "n \<le> length pkt"
  shows "\<exists>r. crypto_eth_arp_offset pkt n = Some r \<and>
    (\<forall>o1. r = Some o1 \<longrightarrow> (o1 = 14 \<or> o1 = 18) \<and> o1 + 28 \<le> n \<and> et_at pkt (o1 - 2) = ETH_P_ARP)"
  using assms by (auto simp: crypto_eth_arp_offset_def ethertype_defs)

lemma policy_off_spec:
  assumes "n \<le> length pkt"
  obtains r where "crypto_eth_l2_policy_off pkt n = Some r"
    and "\<And>o1. r = Some o1 \<Longrightarrow> (o1 = 14 \<or> o1 = 18) \<and> o1 < n"
proof -
  obtain r where "crypto_eth_inner_et_off pkt n = Some r"
    and "\<And>o1. r = Some o1 \<Longrightarrow> (o1 = 12 \<or> o1 = 16) \<and> o1 + 2 \<le> n"
    using inner_et_off_spec [OF assms] by metis
  with assms show ?thesis
    by (intro that [of "case r of None \<Rightarrow> None | Some off \<Rightarrow> if n < off + 3 then None else Some (off + 2)"])
      (auto simp: crypto_eth_l2_policy_off_def split: option.splits if_splits)
qed

lemma has_marker_total:
  assumes "n \<le> length pkt"
  shows "\<exists>r. crypto_eth_l2_has_marker pkt n = Some r" "\<exists>r. crypto_eth_l2_has_arp_marker pkt n = Some r"
proof -
  obtain r where "crypto_eth_inner_et_off pkt n = Some r"
    and "\<And>o1. r = Some o1 \<Longrightarrow> (o1 = 12 \<or> o1 = 16) \<and> o1 + 2 \<le> n"
    using inner_et_off_spec [OF assms] by metis
  with assms show "\<exists>r. crypto_eth_l2_has_marker pkt n = Some r" "\<exists>r. crypto_eth_l2_has_arp_marker pkt n = Some r"
    by (auto simp: crypto_eth_l2_has_marker_def crypto_eth_l2_has_arp_marker_def split: option.splits)
qed

section \<open>The Internet checksum\<close>

text \<open>Sum of the 16-bit words of a segment, an odd last byte padded with zero. Modulo 65535 this
  is the one's complement sum that the TCP checksum makes zero.\<close>

fun ones_sum :: "buf \<Rightarrow> nat" where
  "ones_sum (a # b # xs) = unat (be16 a b) + ones_sum xs"
| "ones_sum [a] = 256 * unat a"
| "ones_sum [] = 0"

lemma patch_zero: "length xs \<le> length b \<Longrightarrow> patch b 0 xs = xs @ drop (length xs) b"
  by (simp add: patch_def)

lemma ones_sum_patch:
  "2 * k + 2 \<le> length xs \<Longrightarrow>
   ones_sum (patch xs (2 * k) (be16_bytes w)) + unat (et_at xs (2 * k)) = ones_sum xs + unat w"
proof (induction xs arbitrary: k rule: ones_sum.induct)
  case (1 a b xs)
  show ?case
  proof (cases k)
    case 0
    then show ?thesis by (simp add: patch_def be16_bytes_def et_at_def)
  next
    case (Suc j)
    with 1 show ?thesis using "1.IH" [of j] by (simp add: patch_def et_at_def)
  qed
qed simp_all

lemma csum_fold_spec: "unat (csum_fold s) < 65536 \<and> unat (csum_fold s) mod 65535 = unat s mod 65535"
proof (induction s rule: csum_fold.induct)
  case (1 s)
  show ?case
  proof (cases "drop_bit 16 s = 0")
    case True
    then show ?thesis by (simp add: csum_fold.simps [of s] drop_bit16_zero)
  next
    case False
    with 1 [OF False] show ?thesis
      by (simp only: csum_fold.simps [of s] if_False unat_fold_step fold_mod_65535)
  qed
qed

lemma unat_not16: "unat (NOT (x :: u16)) = 65535 - unat x"
  by (simp add: unat_not)

lemma checksum_arith:
  fixes f s a b c :: nat
  assumes "f < 65536" and f: "f mod 65535 = s mod 65535" and s: "s = (65535 - a) + (65535 - b) + c"
    and "a < 65536" "b < 65536"
  shows "(65535 - f + c) mod 65535 = (a + b) mod 65535"
proof -
  have "(a + b + f) mod 65535 = (a + b + s) mod 65535" by (rule mod_add_cong [OF refl f])
  also have "a + b + s = 65535 - f + c + f + 65535" using assms by simp
  finally have "(65535 - f + c + f) mod 65535 = (a + b + f) mod 65535" by (simp only: mod_add_self2)
  then show ?thesis by (simp only: nat_mod_add_cancel)
qed

text \<open>RFC 1624: the new checksum plus the new word is congruent to the old checksum plus the old word.\<close>

lemma checksum_update:
  fixes hc m m' :: u16
  shows "(unat (ucast (NOT (csum_fold (ucast (NOT hc) + ucast (NOT m) + ucast m'))) :: u16) + unat m') mod 65535
     = (unat hc + unat m) mod 65535"
proof -
  let ?s = "ucast (NOT hc) + ucast (NOT m) + ucast m' :: u32"
  let ?f = "unat (csum_fold ?s)"
  have lt: "unat x < 65536" for x :: u16 using unsigned_less [of x] by simp
  have u: "unat (ucast (x :: u16) :: u32) = unat x" for x 
    by (simp add: unsigned_ucast_eq take_bit_nat_eq_self lt [THEN less_le_trans])
  have s: "unat ?s = (65535 - unat hc) + (65535 - unat m) + unat m'"
    using lt [of hc] lt [of m] lt [of m'] by (simp add: unat_word_ariths u unat_not16)
  have f: "?f < 65536" "?f mod 65535 = unat ?s mod 65535" using csum_fold_spec by auto
  have n: "unat (ucast (NOT (csum_fold ?s)) :: u16) = 65535 - ?f"
  proof -
    have "unat (NOT (csum_fold ?s)) = 4294967295 - ?f" by (simp add: unat_not)
    then have "unat (ucast (NOT (csum_fold ?s)) :: u16) = (4294967295 - ?f) mod 65536"
      by (simp add: unsigned_ucast_eq take_bit_eq_mod)
    also have "4294967295 - ?f = 65535 - ?f + 65535 * 65536" using f(1) by simp
    also have "(65535 - ?f + 65535 * 65536) mod 65536 = 65535 - ?f" by (subst mod_mult_self1) simp
    finally show ?thesis .
  qed
  show ?thesis unfolding n using checksum_arith [OF f s] lt [of hc] lt [of m] by simp
qed

section \<open>The MSS clamp\<close>

lemma tcp_find_mss_spec:
  "tcp + opt_end \<le> length pkt \<Longrightarrow> \<exists>r. tcp_find_mss pkt tcp opt_off opt_end = Some r \<and>
     (\<forall>o1. r = Some o1 \<longrightarrow> opt_off \<le> o1 \<and> o1 + 4 \<le> opt_end \<and> pkt ! (tcp + o1) = 2 \<and> pkt ! (tcp + o1 + 1) = 4)"
proof (induction pkt tcp opt_off opt_end rule: tcp_find_mss.induct)
  case (1 pkt tcp opt_off opt_end)
  show ?case
  proof (cases "opt_off + 1 < opt_end")
    case False
    then show ?thesis by (simp add: tcp_find_mss.simps [of pkt])
  next
    case True
    with 1 have rd: "rd8 pkt (tcp + opt_off) = Some (pkt ! (tcp + opt_off))"
      "rd8 pkt (tcp + opt_off + 1) = Some (pkt ! (tcp + opt_off + 1))" by simp_all
    note IH = "1.IH" [OF True rd(1)]
    consider "pkt ! (tcp + opt_off) = 0" | "pkt ! (tcp + opt_off) = 1"
      | "pkt ! (tcp + opt_off) \<noteq> 0" "pkt ! (tcp + opt_off) \<noteq> 1" by blast
    then show ?thesis
    proof cases
      case 1
      then show ?thesis using True rd by (simp add: tcp_find_mss.simps [of pkt])
    next
      case 2
      then show ?thesis using True rd IH(1) "1.prems" by (fastforce simp: tcp_find_mss.simps [of pkt _ opt_off])
    next
      case 3
      then show ?thesis
        using True rd IH(2) [OF _ _ _ rd(2)] "1.prems" by (fastforce simp: tcp_find_mss.simps [of pkt _ opt_off])
    qed
  qed
qed

definition csum_new :: "buf \<Rightarrow> nat \<Rightarrow> u16 \<Rightarrow> u16 \<Rightarrow> u16" where
  "csum_new pkt tcp m m' =
     ucast (NOT (csum_fold (ucast (NOT (et_at pkt (tcp + 16))) + ucast (NOT m) + ucast m')))"

lemma clamp_option_eq:
  assumes "20 \<le> opt_off" "tcp + opt_off + 4 \<le> length pkt"
  shows "tcp_clamp_option pkt tcp opt_off cap = Some
    (let m = et_at pkt (tcp + opt_off + 2) in
     if m > ucast cap then
       (1, patch (patch pkt (tcp + opt_off + 2) (be16_bytes (ucast cap))) (tcp + 16)
             (be16_bytes (csum_new pkt tcp m (ucast cap))))
     else (0, pkt))"
proof -
  define q h where q: "q = tcp + opt_off + 2" and h: "h = tcp + 16"
  have idx: "tcp + opt_off + 3 = Suc q" "tcp + 17 = Suc h" by (simp_all add: q h)
  have "Suc h < q" "Suc q < length pkt" using assms by (simp_all add: q h)
  then show ?thesis
    unfolding tcp_clamp_option_def tcp_checksum_replace_word_def csum_new_def idx q [symmetric] h [symmetric]
    by (auto simp: et_at_def Let_def be16_bytes_def nth_patch patch_pair)
qed

text \<open>The two outcomes of the clamp: nothing happens, or the MSS option at \<open>opt_off\<close> of the TCP
  header at \<open>tcp\<close> is lowered to the cap and the checksum field rewritten.\<close>

definition clamped :: "buf \<Rightarrow> nat \<Rightarrow> nat \<Rightarrow> u32 \<Rightarrow> buf" where
  "clamped pkt tcp opt_off cap =
     patch (patch pkt (tcp + opt_off + 2) (be16_bytes (ucast cap))) (tcp + 16)
       (be16_bytes (csum_new pkt tcp (et_at pkt (tcp + opt_off + 2)) (ucast cap)))"

lemma clamp_cases:
  assumes "n \<le> length pkt"
  shows "\<exists>ret pkt'. crypto_tcp_clamp_mss pkt n path_mtu wire_overhead = Some (ret, pkt') \<and>
    ((ret = -1 \<or> ret = 0) \<and> pkt' = pkt \<or>
     ret = 1 \<and> (\<exists>l3 ihl opt_off. let cap = tcp_mss_cap path_mtu (of_nat ihl) wire_overhead; tcp = l3 + ihl in
        20 \<le> opt_off \<and> tcp + opt_off + 4 \<le> n \<and> pkt ! (tcp + opt_off) = 2
        \<and> crypto_eth_ipv4_offset pkt n = Some (Some l3)
        \<and> ihl = unat (pkt ! l3 AND 0x0F) * 4 \<and> ucast cap < et_at pkt (tcp + opt_off + 2)
        \<and> pkt' = clamped pkt tcp opt_off cap))" (is "\<exists>ret pkt'. ?C ret pkt'")
proof -
  obtain r where r: "crypto_eth_ipv4_offset pkt n = Some r"
    and rs: "\<And>o1. r = Some o1 \<Longrightarrow> o1 + 20 \<le> n" using ipv4_offset_spec [OF assms] by metis
  show ?thesis
  proof (cases r)
    case None
    then show ?thesis using r by (auto simp: crypto_tcp_clamp_mss_def)
  next
    case (Some l3)
    define ihl where "ihl = unat (pkt ! l3 AND 0x0F) * 4"
    define doff where "doff = unat (drop_bit 4 (pkt ! (l3 + ihl + 12)) AND 0x0F) * 4"
    note l3 = rs [OF Some]
    show ?thesis
    proof (cases "20 \<le> ihl \<and> l3 + ihl + 20 \<le> n \<and> 20 \<le> doff \<and> l3 + ihl + doff \<le> n")
      case False
      then have "\<exists>ret. (ret = -1 \<or> ret = 0) \<and> crypto_tcp_clamp_mss pkt n path_mtu wire_overhead = Some (ret, pkt)"
        using r Some l3 assms
        by (auto simp: crypto_tcp_clamp_mss_def Let_def ihl_def [symmetric] doff_def [symmetric])
      then show ?thesis by blast
    next
      case ok: True
      obtain f where f: "tcp_find_mss pkt (l3 + ihl) 20 doff = Some f"
        and fs: "\<And>q. f = Some q \<Longrightarrow> 20 \<le> q \<and> q + 4 \<le> doff \<and> pkt ! (l3 + ihl + q) = 2"
        using tcp_find_mss_spec [of "l3 + ihl" doff pkt 20] ok assms by auto
      have cl: "tcp_clamp_option pkt (l3 + ihl) q cap = Some
          (if et_at pkt (l3 + ihl + q + 2) > ucast cap then (1, clamped pkt (l3 + ihl) q cap) else (0, pkt))"
        if "f = Some q" for q cap
        using clamp_option_eq [of q "l3 + ihl" pkt cap] fs [OF that] ok assms by (simp add: Let_def clamped_def)
      have "(\<exists>ret. (ret = -1 \<or> ret = 0) \<and> crypto_tcp_clamp_mss pkt n path_mtu wire_overhead = Some (ret, pkt))
        \<or> (\<exists>q. f = Some q \<and> crypto_tcp_clamp_mss pkt n path_mtu wire_overhead =
              tcp_clamp_option pkt (l3 + ihl) q (tcp_mss_cap path_mtu (of_nat ihl) wire_overhead))"
        using r Some l3 assms ok f
        by (cases f) (simp_all add: crypto_tcp_clamp_mss_def Let_def ihl_def [symmetric] doff_def [symmetric])
      then show ?thesis
      proof (elim disjE exE conjE)
        fix q
        assume q: "f = Some q" and eq: "crypto_tcp_clamp_mss pkt n path_mtu wire_overhead =
              tcp_clamp_option pkt (l3 + ihl) q (tcp_mss_cap path_mtu (of_nat ihl) wire_overhead)"
        show ?thesis
        proof (cases "et_at pkt (l3 + ihl + q + 2) > ucast (tcp_mss_cap path_mtu (of_nat ihl) wire_overhead)")
          case False
          then show ?thesis using eq cl [OF q] by auto
        next
          case True
          then show ?thesis
            using eq cl [OF q] fs [OF q] ok
            by (simp, intro disjI2 exI [of _ l3] exI [of _ ihl] exI [of _ q]) (simp add: Let_def ihl_def r Some)
        qed
      qed blast+
    qed
  qed
qed

lemma et_at_slice: "off + m \<le> length b \<Longrightarrow> k + 2 \<le> m \<Longrightarrow> et_at (slice b off m) k = et_at b (off + k)"
  by (simp add: et_at_def)

lemma et_at_patch_other:
  "off + length xs \<le> length b \<Longrightarrow> k + 2 \<le> off \<or> off + length xs \<le> k \<Longrightarrow> et_at (patch b off xs) k = et_at b k"
  by (auto simp: et_at_def nth_patch)

lemma et_at_patch_same: "off + 2 \<le> length b \<Longrightarrow> et_at (patch b off (be16_bytes w)) off = w"
  by (simp add: et_at_def nth_patch be16_bytes_def)

lemma clamped_ones_sum:
  assumes "20 \<le> opt_off" "tcp + opt_off + 4 \<le> n" "n \<le> length pkt" "even opt_off"
  shows "ones_sum (slice (clamped pkt tcp opt_off cap) tcp (n - tcp)) mod 65535
    = ones_sum (slice pkt tcp (n - tcp)) mod 65535"
proof -
  define seg m where "seg = slice pkt tcp (n - tcp)" and "m = n - tcp"
  let ?w = "ucast cap :: u16" and ?old = "et_at pkt (tcp + opt_off + 2)"
  let ?hc = "csum_new pkt tcp ?old ?w"
  have "even (opt_off + 2)" using assms(4) by simp
  then obtain k where k: "opt_off + 2 = 2 * k" by (rule evenE)
  have len: "length seg = m" "opt_off + 4 \<le> m" "tcp + m \<le> length pkt" using assms by (auto simp: seg_def m_def)
  have old: "et_at seg (2 * k) = ?old" "et_at seg (2 * 8) = et_at pkt (tcp + 16)"
    using len k assms by (simp_all add: seg_def m_def [symmetric] et_at_slice add.assoc flip: k)
  have "slice (clamped pkt tcp opt_off cap) tcp m =
      patch (patch seg (2 * k) (be16_bytes ?w)) (2 * 8) (be16_bytes ?hc)"
    unfolding clamped_def add.assoc seg_def m_def [symmetric] k using len assms(1) k
    by (simp add: slice_patch_within seg_def m_def [symmetric])
  moreover have "ones_sum (patch (patch seg (2 * k) (be16_bytes ?w)) (2 * 8) (be16_bytes ?hc))
      + unat (et_at pkt (tcp + 16)) = ones_sum (patch seg (2 * k) (be16_bytes ?w)) + unat ?hc"
    using ones_sum_patch [of 8 "patch seg (2 * k) (be16_bytes ?w)" ?hc] len k assms(1) old(2)
    by (simp add: et_at_patch_other)
  moreover have "ones_sum (patch seg (2 * k) (be16_bytes ?w)) + unat ?old = ones_sum seg + unat ?w"
    using ones_sum_patch [of k seg ?w] len k old(1) by simp
  ultimately have "ones_sum (slice (clamped pkt tcp opt_off cap) tcp m) + (unat (et_at pkt (tcp + 16)) + unat ?old)
      = ones_sum seg + (unat ?hc + unat ?w)" by simp
  moreover have "(ones_sum seg + (unat ?hc + unat ?w)) mod 65535
      = (ones_sum seg + (unat (et_at pkt (tcp + 16)) + unat ?old)) mod 65535"
    by (rule mod_add_cong [OF refl]) (simp only: csum_new_def checksum_update)
  ultimately have "(ones_sum (slice (clamped pkt tcp opt_off cap) tcp m) + (unat (et_at pkt (tcp + 16)) + unat ?old)) mod 65535
      = (ones_sum seg + (unat (et_at pkt (tcp + 16)) + unat ?old)) mod 65535" by (simp only:)
  then have "ones_sum (slice (clamped pkt tcp opt_off cap) tcp m) mod 65535 = ones_sum seg mod 65535"
    by (simp only: nat_mod_add_cancel)
  then show ?thesis by (simp only: seg_def m_def)
qed

lemma clamped_frame:
  assumes "20 \<le> opt_off" "tcp + opt_off + 4 \<le> length pkt"
  shows "length (clamped pkt tcp opt_off cap) = length pkt"
    and "et_at (clamped pkt tcp opt_off cap) (tcp + opt_off + 2) = ucast cap"
    and "i \<notin> {tcp + 16, tcp + 17, tcp + opt_off + 2, tcp + opt_off + 3} \<Longrightarrow> clamped pkt tcp opt_off cap ! i = pkt ! i"
  using assms by (auto simp: clamped_def et_at_patch_other et_at_patch_same nth_patch)

section \<open>Properties\<close>

text \<open>The header offsets are memory safe and stay inside the packet: whenever \<open>pkt_len\<close> does
  not exceed the frame, every offset function returns without an access outside the frame, an
  IPv4 offset leaves room for 20 header bytes, an ARP offset for 28, and a policy offset names a
  byte of the packet.\<close>

lemma eth_offsets_in_packet:
  assumes "pkt_len \<le> length pkt"
  shows "(\<exists>r. crypto_eth_ipv4_offset pkt pkt_len = Some r \<and>
            (\<forall>off. r = Some off \<longrightarrow> (off = 14 \<or> off = 18) \<and> off + 20 \<le> pkt_len \<and> et_at pkt (off - 2) = ETH_P_IP))
       \<and> (\<exists>r. crypto_eth_arp_offset pkt pkt_len = Some r \<and>
            (\<forall>off. r = Some off \<longrightarrow> (off = 14 \<or> off = 18) \<and> off + 28 \<le> pkt_len \<and> et_at pkt (off - 2) = ETH_P_ARP))
       \<and> (\<exists>r. crypto_eth_l2_read_policy_id pkt pkt_len = Some r)
       \<and> (\<exists>r. crypto_eth_l2_has_marker pkt pkt_len = Some r)
       \<and> (\<exists>r. crypto_eth_l2_has_arp_marker pkt pkt_len = Some r)"
proof -
  obtain r where "crypto_eth_l2_policy_off pkt pkt_len = Some r" "\<And>off. r = Some off \<Longrightarrow> off < pkt_len"
    using policy_off_spec [OF assms] by metis
  then have "\<exists>r. crypto_eth_l2_read_policy_id pkt pkt_len = Some r"
    using assms by (cases r) (auto simp: crypto_eth_l2_read_policy_id_def)
  moreover have "\<exists>r. crypto_eth_ipv4_offset pkt pkt_len = Some r \<and>
      (\<forall>off. r = Some off \<longrightarrow> (off = 14 \<or> off = 18) \<and> off + 20 \<le> pkt_len \<and> et_at pkt (off - 2) = ETH_P_IP)"
    using ipv4_offset_spec [OF assms] by metis
  ultimately show ?thesis using arp_offset_spec [OF assms] has_marker_total [OF assms] by blast
qed

text \<open>What a clamp that reports a change has done.\<close>

definition mss_clamped_at :: "buf \<Rightarrow> nat \<Rightarrow> u16 \<Rightarrow> buf \<Rightarrow> nat \<Rightarrow> nat \<Rightarrow> bool" where
  "mss_clamped_at pkt pkt_len cap pkt' tcp opt_off \<longleftrightarrow>
     20 \<le> opt_off \<and> tcp + opt_off + 4 \<le> pkt_len \<and> pkt ! (tcp + opt_off) = 2 \<and> length pkt' = length pkt
     \<and> cap < et_at pkt (tcp + opt_off + 2) \<and> et_at pkt' (tcp + opt_off + 2) = cap
     \<and> (\<forall>i. i \<notin> {tcp + 16, tcp + 17, tcp + opt_off + 2, tcp + opt_off + 3} \<longrightarrow> pkt' ! i = pkt ! i)
     \<and> (even opt_off \<longrightarrow> ones_sum (slice pkt' tcp (pkt_len - tcp)) mod 65535
          = ones_sum (slice pkt tcp (pkt_len - tcp)) mod 65535)"

lemma mss_clamped_atI:
  assumes "20 \<le> opt_off" "tcp + opt_off + 4 \<le> n" "n \<le> length pkt" "pkt ! (tcp + opt_off) = 2"
    and "ucast cap < et_at pkt (tcp + opt_off + 2)"
  shows "mss_clamped_at pkt n (ucast cap) (clamped pkt tcp opt_off cap) tcp opt_off"
proof -
  have "tcp + opt_off + 4 \<le> length pkt" using assms by simp
  note f = clamped_frame [OF assms(1) this]
  show ?thesis
    unfolding mss_clamped_at_def using assms f clamped_ones_sum [OF assms(1-3)] by blast
qed

text \<open>C24: the MSS clamp never accesses memory outside the packet, and it either leaves the packet
  as it is (results -1 and 0) or (result 1) lowers the MSS of one TCP option to the cap and changes
  only the option's two bytes and the two checksum bytes. When the option stands at an even offset
  of the TCP header, the one's complement sum of the TCP segment is unchanged, so a correct TCP
  checksum stays correct.\<close>

theorem crypto_tcp_clamp_mss_sound:
  assumes "pkt_len \<le> length pkt"
  shows "\<exists>ret pkt'. crypto_tcp_clamp_mss pkt pkt_len path_mtu wire_overhead = Some (ret, pkt') \<and>
    ((ret = -1 \<or> ret = 0) \<and> pkt' = pkt \<or>
     ret = 1 \<and> (\<exists>l3 ihl opt_off. crypto_eth_ipv4_offset pkt pkt_len = Some (Some l3)
        \<and> ihl = unat (pkt ! l3 AND 0x0F) * 4
        \<and> mss_clamped_at pkt pkt_len (ucast (tcp_mss_cap path_mtu (of_nat ihl) wire_overhead)) pkt' (l3 + ihl) opt_off))"
  using clamp_cases [OF assms, of path_mtu wire_overhead] mss_clamped_atI [OF _ _ assms]
  unfolding Let_def by metis

definition syn_example :: "u8 \<Rightarrow> u8 \<Rightarrow> buf" where
  "syn_example pad1 pad2 = replicate 12 0 @ [0x08, 0x00] @ [0x45, 0, 0, 48, 0, 0, 0, 0, 64, 6] @ replicate 10 0
     @ [0, 1, 0, 2, 0, 0, 0, 0, 0, 0, 0, 0, 0x70, 0x02, 0, 0, 0, 0, 0, 0]
     @ (if pad1 = 1 then [1, 2, 4, 0x05, 0xB4, 1, 1, pad2] else [2, 4, 0x05, 0xB4, 1, 1, 1, pad2])"

theorem crypto_tcp_clamp_mss_sound_witness:
  "\<exists>ret pkt'. crypto_tcp_clamp_mss (syn_example 0 0) 62 1400 30 = Some (ret, pkt') \<and>
    ((ret = -1 \<or> ret = 0) \<and> pkt' = syn_example 0 0 \<or> ret = 1 \<and> pkt' \<noteq> syn_example 0 0)"
proof -
  have "62 \<le> length (syn_example 0 0)" by (simp add: syn_example_def)
  from crypto_tcp_clamp_mss_sound [OF this, of 1400 30] show ?thesis
    by (fastforce simp: mss_clamped_at_def)
qed

lemma unat_be16: "unat (be16 a b) = 256 * unat a + unat b"
proof -
  let ?x = "be16 a b"
  have lt: "unat ?x < 256 * 256" using unsigned_less [of ?x] by simp
  have "unat (ucast ?x :: u8) = unat ?x mod 256" by (simp add: unsigned_ucast_eq take_bit_eq_mod)
  then have b: "unat b = unat ?x mod 256" by (simp add: be16_byte(1))
  have "unat (ucast (drop_bit 8 ?x) :: u8) = unat ?x div 256 mod 256"
    by (simp add: unsigned_ucast_eq take_bit_eq_mod unsigned_drop_bit_eq drop_bit_eq_div unat_div)
  then have a: "unat a = unat ?x div 256" using lt by (simp add: be16_byte(2) less_mult_imp_div_less)
  show ?thesis unfolding a b by simp
qed

lemma ones_sum_byte:
  "i < length xs \<Longrightarrow> ones_sum (xs[i := x]) + (if even i then 256 else 1) * unat (xs ! i) = ones_sum xs + (if even i then 256 else 1) * unat x"
proof (induction xs arbitrary: i rule: ones_sum.induct)
  case (1 a b xs)
  have w: "unat (be16 c d) = 256 * unat c + unat d" for c d by (simp add: unat_be16)
  consider "i = 0" | "i = 1" | j where "i = Suc (Suc j)" by (metis One_nat_def not0_implies_Suc)
  then show ?case
  proof cases
    case (3 j)
    then have "j < length xs" using 1 by simp
    from "1.IH" [OF this] show ?thesis using 3 by simp
  qed (simp_all add: w)
next
  case (2 a)
  then show ?case by simp
qed simp

text \<open>Two bytes at an odd place of the segment count with the weights of a swapped word.\<close>

lemma ones_sum_patch_odd:
  assumes "odd i" "i + 2 \<le> length xs"
  shows "(ones_sum (patch xs i (be16_bytes w)) + 256 * unat (et_at xs i)) mod 65535 = (ones_sum xs + 256 * unat w) mod 65535"
proof -
  let ?hi = "ucast (drop_bit 8 w) :: u8" and ?lo = "ucast w :: u8"
  have w: "unat (be16 c d) = 256 * unat c + unat d" for c d by (simp add: unat_be16)
  have p: "patch xs i (be16_bytes w) = xs[i := ?hi, Suc i := ?lo]"
    by (rule nth_equalityI) (use assms(2) in \<open>auto simp: be16_bytes_def nth_patch nth_list_update less_Suc_eq nth_Cons'\<close>)
  have a: "ones_sum (xs[i := ?hi]) + unat (xs ! i) = ones_sum xs + unat ?hi"
    using ones_sum_byte [of i xs ?hi] assms by simp
  have b: "ones_sum (xs[i := ?hi, Suc i := ?lo]) + 256 * unat (xs ! Suc i) = ones_sum (xs[i := ?hi]) + 256 * unat ?lo"
    using ones_sum_byte [of "Suc i" "xs[i := ?hi]" ?lo] assms by simp
  have ww: "unat w = 256 * unat ?hi + unat ?lo" using w [of ?hi ?lo] by simp
  have "ones_sum (patch xs i (be16_bytes w)) + 256 * unat (et_at xs i) + 65535 * unat ?hi = ones_sum xs + 256 * unat w + 65535 * unat (xs ! i)"
    using a b unfolding p et_at_def w ww by simp
  then have "(ones_sum (patch xs i (be16_bytes w)) + 256 * unat (et_at xs i) + 65535 * unat ?hi) mod 65535
      = (ones_sum xs + 256 * unat w + 65535 * unat (xs ! i)) mod 65535" by (rule arg_cong)
  then show ?thesis by simp
qed

lemma clamped_odd_sum:
  assumes "20 \<le> opt_off" "tcp + opt_off + 4 \<le> n" "n \<le> length pkt" "odd opt_off"
  shows "(ones_sum (slice (clamped pkt tcp opt_off cap) tcp (n - tcp)) + 255 * unat (et_at pkt (tcp + opt_off + 2))) mod 65535
    = (ones_sum (slice pkt tcp (n - tcp)) + 255 * unat (ucast cap :: u16)) mod 65535"
proof -
  define seg m i where "seg = slice pkt tcp (n - tcp)" and "m = n - tcp" and "i = opt_off + 2"
  let ?w = "ucast cap :: u16" and ?old = "et_at pkt (tcp + opt_off + 2)"
  let ?hc = "csum_new pkt tcp ?old ?w" and ?c = "et_at pkt (tcp + 16)"
  have len: "length seg = m" "i + 2 \<le> m" "tcp + m \<le> length pkt" "22 \<le> i" "odd i" using assms by (auto simp: seg_def m_def i_def)
  have old: "et_at seg i = ?old" "et_at seg (2 * 8) = ?c"
    using len by (simp_all add: seg_def m_def [symmetric] et_at_slice i_def add.assoc)
  let ?p = "patch seg i (be16_bytes ?w)"
  have "slice (clamped pkt tcp opt_off cap) tcp m = patch ?p (2 * 8) (be16_bytes ?hc)"
    unfolding clamped_def add.assoc seg_def m_def [symmetric] i_def [symmetric] using len
    by (simp add: slice_patch_within seg_def m_def [symmetric])
  moreover have "ones_sum (patch ?p (2 * 8) (be16_bytes ?hc)) + unat ?c = ones_sum ?p + unat ?hc"
    using ones_sum_patch [of 8 ?p ?hc] len old(2) by (simp add: et_at_patch_other)
  ultimately have 1: "ones_sum (slice (clamped pkt tcp opt_off cap) tcp m) + unat ?c = ones_sum ?p + unat ?hc" by simp
  have 2: "(ones_sum ?p + 256 * unat ?old) mod 65535 = (ones_sum seg + 256 * unat ?w) mod 65535"
    using ones_sum_patch_odd [of i seg ?w] len old(1) by simp
  have 3: "(unat ?hc + unat ?w) mod 65535 = (unat ?c + unat ?old) mod 65535" by (simp only: csum_new_def checksum_update)
  let ?s = "ones_sum (slice (clamped pkt tcp opt_off cap) tcp m)"
  have "(?s + 255 * unat ?old + (unat ?c + unat ?old + unat ?w)) mod 65535 = ((ones_sum ?p + 256 * unat ?old) + (unat ?hc + unat ?w)) mod 65535"
    using 1 by (intro arg_cong [of _ _ "\<lambda>x. x mod 65535"]) simp
  also have "\<dots> = ((ones_sum seg + 256 * unat ?w) + (unat ?c + unat ?old)) mod 65535" by (rule mod_add_cong [OF 2 3])
  also have "\<dots> = (ones_sum seg + 255 * unat ?w + (unat ?c + unat ?old + unat ?w)) mod 65535"
    by (intro arg_cong [of _ _ "\<lambda>x. x mod 65535"]) simp
  finally show ?thesis unfolding nat_mod_add_cancel seg_def m_def .
qed

text \<open>The option that a clamp which reports a change has lowered.\<close>

definition tcp_data_off :: "buf \<Rightarrow> nat \<Rightarrow> nat" where
  "tcp_data_off pkt tcp = unat (drop_bit 4 (pkt ! (tcp + 12)) AND 0x0F) * 4"

lemma clamp_found:
  assumes n: "n \<le> length pkt" and c: "crypto_tcp_clamp_mss pkt n path_mtu wire_overhead = Some (1, pkt')"
    and l3: "crypto_eth_ipv4_offset pkt n = Some (Some l3)" and ihl: "ihl = unat (pkt ! l3 AND 0x0F) * 4"
    and f: "tcp_find_mss pkt (l3 + ihl) 20 (tcp_data_off pkt (l3 + ihl)) = Some (Some q)"
  defines "cap \<equiv> tcp_mss_cap path_mtu (of_nat ihl) wire_overhead"
  shows "20 \<le> q" "l3 + ihl + q + 4 \<le> n" "ucast cap < et_at pkt (l3 + ihl + q + 2)" "pkt' = clamped pkt (l3 + ihl) q cap"
proof -
  define doff where "doff = tcp_data_off pkt (l3 + ihl)"
  obtain r where "crypto_eth_ipv4_offset pkt n = Some r" "\<And>o1. r = Some o1 \<Longrightarrow> o1 + 20 \<le> n" using ipv4_offset_spec [OF n] by metis
  then have b: "l3 + 20 \<le> n" using l3 by simp
  have g: "20 \<le> ihl" "l3 + ihl + 20 \<le> n" "20 \<le> doff" "l3 + ihl + doff \<le> n"
    using c l3 b n by (auto simp: crypto_tcp_clamp_mss_def Let_def ihl [symmetric] doff_def tcp_data_off_def split: if_splits)
  obtain v where "tcp_find_mss pkt (l3 + ihl) 20 doff = Some v" "\<And>q. v = Some q \<Longrightarrow> 20 \<le> q \<and> q + 4 \<le> doff \<and> pkt ! (l3 + ihl + q) = 2"
    using tcp_find_mss_spec [of "l3 + ihl" doff pkt 20] g n by auto
  then have q: "20 \<le> q" "q + 4 \<le> doff" using f by (auto simp: doff_def)
  then show "20 \<le> q" "l3 + ihl + q + 4 \<le> n" using g by simp_all
  have "tcp_clamp_option pkt (l3 + ihl) q cap = Some (1, pkt')"
    using c l3 b n g f
    by (auto simp: crypto_tcp_clamp_mss_def Let_def ihl [symmetric] doff_def tcp_data_off_def cap_def split: if_splits)
  then show "ucast cap < et_at pkt (l3 + ihl + q + 2)" "pkt' = clamped pkt (l3 + ihl) q cap"
    using clamp_option_eq [of q "l3 + ihl" pkt cap] q g n by (auto simp: Let_def clamped_def split: if_splits)
qed

text \<open>C40: for an MSS option at an odd offset of the TCP header (after one \<open>NOP\<close>, say) the update of the checksum is wrong.
  Whenever the clamp lowers the value of such an option, the one's complement sum of the TCP segment stays what it was, and with it a
  correct checksum stays correct, only if the value was lowered by a multiple of 257. For every other amount the peer
  drops the segment.\<close>

theorem clamp_mss_odd_offset_breaks_checksum:
  assumes "pkt_len \<le> length pkt" and "crypto_tcp_clamp_mss pkt pkt_len path_mtu wire_overhead = Some (1, pkt')"
    and "crypto_eth_ipv4_offset pkt pkt_len = Some (Some l3)" and "tcp = l3 + unat (pkt ! l3 AND 0x0F) * 4"
    and "tcp_find_mss pkt tcp 20 (tcp_data_off pkt tcp) = Some (Some opt_off)" and "odd opt_off"
  shows "et_at pkt' (tcp + opt_off + 2) < et_at pkt (tcp + opt_off + 2)
    \<and> (ones_sum (slice pkt' tcp (pkt_len - tcp)) mod 65535 = ones_sum (slice pkt tcp (pkt_len - tcp)) mod 65535
       \<longleftrightarrow> 257 dvd unat (et_at pkt (tcp + opt_off + 2)) - unat (et_at pkt' (tcp + opt_off + 2)))"
proof -
  define cap where "cap = tcp_mss_cap path_mtu (of_nat (unat (pkt ! l3 AND 0x0F) * 4)) wire_overhead"
  note f = clamp_found [OF assms(1-3) refl assms(5) [unfolded assms(4)], folded assms(4) cap_def]
  let ?m = "et_at pkt (tcp + opt_off + 2)" and ?w = "ucast cap :: u16"
  have w: "et_at pkt' (tcp + opt_off + 2) = ?w" unfolding f(4) by (rule clamped_frame(2) [OF f(1)]) (use f(2) assms(1) in simp)
  have lt: "unat ?w < unat ?m" using f(3) by (simp add: word_less_nat_alt)
  note s = clamped_odd_sum [OF f(1,2) assms(1,6), of cap, folded f(4)]
  let ?A = "ones_sum (slice pkt' tcp (pkt_len - tcp))" and ?B = "ones_sum (slice pkt tcp (pkt_len - tcp))"
  have "?A mod 65535 = ?B mod 65535 \<longleftrightarrow> (?A + 255 * unat ?m) mod 65535 = (?B + 255 * unat ?m) mod 65535" by (simp only: nat_mod_add_cancel)
  also have "\<dots> \<longleftrightarrow> (255 * unat ?w + ?B) mod 65535 = (255 * unat ?m + ?B) mod 65535" unfolding s by (simp only: add.commute)
  also have "\<dots> \<longleftrightarrow> 255 * unat ?w mod 65535 = 255 * unat ?m mod 65535" by (simp only: nat_mod_add_cancel)
  also have "\<dots> \<longleftrightarrow> 65535 dvd 255 * unat ?m - 255 * unat ?w" using lt mod_eq_dvd_iff_nat [of "255 * unat ?w" "255 * unat ?m" 65535] by auto
  also have "\<dots> \<longleftrightarrow> 255 * 257 dvd 255 * (unat ?m - unat ?w)" by (simp add: diff_mult_distrib2)
  also have "\<dots> \<longleftrightarrow> 257 dvd unat ?m - unat ?w" by simp
  finally show ?thesis unfolding w using f(3) by blast
qed

theorem clamp_mss_odd_offset_breaks_checksum_witness:
  "\<exists>pkt'. crypto_tcp_clamp_mss (syn_example 1 0) 62 1400 30 = Some (1, pkt')
     \<and> ones_sum (slice pkt' 34 28) mod 65535 \<noteq> ones_sum (slice (syn_example 1 0) 34 28) mod 65535"
proof -
  let ?pkt = "syn_example 1 0" and ?pkt' = "(syn_example 1 0)[50 := 0x00, 51 := 0x82, 57 := 0x05, 58 := 0x32]"
  have 1: "62 \<le> length ?pkt" by (simp add: syn_example_def)
  have 2: "crypto_tcp_clamp_mss ?pkt 62 1400 30 = Some (1, ?pkt')" by code_simp
  have 3: "crypto_eth_ipv4_offset ?pkt 62 = Some (Some 14)" by code_simp
  have 4: "(34 :: nat) = 14 + unat (?pkt ! 14 AND 0x0F) * 4" by code_simp
  have 5: "tcp_find_mss ?pkt 34 20 (tcp_data_off ?pkt 34) = Some (Some 21)" by code_simp
  have 6: "unat (et_at ?pkt (34 + 21 + 2)) = 1460" "unat (et_at ?pkt' (34 + 21 + 2)) = 1330" by code_simp+
  have 7: "odd (21 :: nat)" by simp
  have "\<not> (257 :: nat) dvd 1460 - 1330" by simp
  with clamp_mss_odd_offset_breaks_checksum [OF 1 2 3 4 5 7] 2 show ?thesis unfolding 6 by auto
qed

text \<open>\<open>crypto_eth_l2_read_worker_idx\<close> checks the length for the policy byte only, and reads
  the worker byte after it: for a marked packet that ends with the policy byte the byte it reads
  is not part of the packet, whatever stands there in the frame.\<close>

lemma read_worker_idx_past_end:
  "crypto_eth_l2_read_worker_idx (replicate 12 0 @ [0x10, 0x4A, 7] @ x # rest) 15 = Some (Some x)"
  by (simp add: crypto_eth_l2_read_worker_idx_def crypto_eth_l2_has_marker_def crypto_eth_l2_core_id_off_def
      crypto_eth_l2_policy_off_def crypto_eth_inner_et_off_def et_at_def eth_inner_hit_def eth_match_et_def
      ethertype_defs nth_append be16_def)

end
