(* ===== verification/Policy_Config.thy ===== *)
theory Policy_Config
  imports NE_Prelude
begin

text \<open>
  The application configuration and its queries, \<open>inc/core/util/config.h\<close> and
  \<open>src/db/config.c\<close>: netmasks and CIDR parsing, the two numberings of the WAN interfaces, the
  selection of the crypto policy of an outgoing packet, and the compact table against which
  incoming packets are checked. A C array with its count is one list; C \<open>int\<close> fields are
  \<^typ>\<open>int\<close>, flags among them; IPv4 addresses and masks are in network byte order as in C. The
  build option \<open>CRYPTO_POLICY_MATCH_IP_ONLY\<close> has its default value 0.
\<close>

section \<open>Definitions\<close>

subsection \<open>Netmasks and CIDR notation\<close>

definition ipv4_prefix_to_mask_be :: "int \<Rightarrow> u32" where
  "ipv4_prefix_to_mask_be prefix_len =
     (if prefix_len \<le> 0 then 0
      else if prefix_len \<ge> 32 then bswap32 0xFFFFFFFF
      else bswap32 (push_bit (nat (32 - prefix_len)) 0xFFFFFFFF))"

definition ipv4_mask_be_is_contiguous :: "u32 \<Rightarrow> bool" where
  "ipv4_mask_be_is_contiguous mask_be =
     (let m = bswap32 mask_be in
      if m = 0 then True else let inv = NOT m in inv AND (inv + 1) = 0)"

text \<open>\<open>inet_pton(AF_INET, ...)\<close>: four decimal octets without leading zeros. The result is
  \<open>s_addr\<close>, the four bytes in memory order read on a little-endian machine.\<close>

definition digit_val :: "char \<Rightarrow> nat" where
  "digit_val c = of_char c - 48"

definition is_digit :: "char \<Rightarrow> bool" where
  "is_digit c \<longleftrightarrow> (48 :: nat) \<le> of_char c \<and> of_char c \<le> (57 :: nat)"

fun pton4 :: "string \<Rightarrow> bool \<Rightarrow> nat list \<Rightarrow> nat \<Rightarrow> nat list option" where
  "pton4 [] saw octets cur = (if saw \<and> length octets = 3 then Some (octets @ [cur]) else None)"
| "pton4 (ch # s) saw octets cur =
     (if is_digit ch then
        let new = cur * 10 + digit_val ch in
        if saw \<and> cur = 0 then None
        else if new > 255 then None
        else if length octets \<ge> 4 then None
        else pton4 s True octets new
      else if ch = CHR ''.'' \<and> saw then
        if length octets = 3 then None else pton4 s False (octets @ [cur]) 0
      else None)"

definition inet_pton4 :: "string \<Rightarrow> u32 option" where
  "inet_pton4 s = (case pton4 s False [] 0 of
      Some [a, b, c, d] \<Rightarrow> Some (be32 (of_nat d) (of_nat c) (of_nat b) (of_nat a))
    | _ \<Rightarrow> None)"

definition parse_ipv4_netmask_be :: "string \<Rightarrow> u32 option" where
  "parse_ipv4_netmask_be s =
     (if s = [] then None
      else case inet_pton4 s of
          None \<Rightarrow> None
        | Some a \<Rightarrow> if ipv4_mask_be_is_contiguous a then Some a else None)"

text \<open>\<open>strtol\<close> in base 10: white space, a sign, digits; the value and the rest of the string.
  Without a digit nothing is consumed.\<close>

definition is_c_space :: "char \<Rightarrow> bool" where
  "is_c_space c \<longleftrightarrow> of_char c = (32 :: nat) \<or> (9 :: nat) \<le> of_char c \<and> of_char c \<le> (13 :: nat)"

definition strtol10 :: "string \<Rightarrow> int \<times> string" where
  "strtol10 s =
     (let t = dropWhile is_c_space s;
          neg = (t \<noteq> [] \<and> hd t = CHR ''-'');
          t' = (if t \<noteq> [] \<and> (hd t = CHR ''-'' \<or> hd t = CHR ''+'') then tl t else t);
          ds = takeWhile is_digit t';
          v = foldl (\<lambda>acc c. acc * 10 + int (digit_val c)) 0 ds
      in if ds = [] then (0, s) else (if neg then - v else v, dropWhile is_digit t'))"

definition is_blank :: "char \<Rightarrow> bool" where
  "is_blank c \<longleftrightarrow> c = CHR '' '' \<or> of_char c = (9 :: nat)"

text \<open>Result: address, netmask, network. The 128-byte local buffer keeps 127 characters.\<close>

definition parse_ip_cidr :: "string \<Rightarrow> (u32 \<times> u32 \<times> u32) option" where
  "parse_ip_cidr str =
     (let buf = take 127 str;
          ip_text = takeWhile (\<lambda>c. c \<noteq> CHR ''/'') buf;
          slash = CHR ''/'' \<in> set buf;
          suffix = dropWhile is_blank (tl (dropWhile (\<lambda>c. c \<noteq> CHR ''/'') buf))
      in if slash \<and> suffix = [] then None
         else case inet_pton4 (dropWhile is_blank ip_text) of
             None \<Rightarrow> None
           | Some ip \<Rightarrow>
               (case
                  (if slash then
                     if CHR ''.'' \<in> set suffix then parse_ipv4_netmask_be suffix
                     else case strtol10 suffix of (plen, end) \<Rightarrow>
                       if end \<noteq> [] \<or> plen < 0 \<or> plen > 32 then None
                       else Some (ipv4_prefix_to_mask_be plen)
                   else Some (ipv4_prefix_to_mask_be 32)) of
                  None \<Rightarrow> None
                | Some netmask \<Rightarrow> Some (ip, netmask, ip AND netmask)))"

subsection \<open>Configuration\<close>

definition MAX_PROFILES :: nat where "MAX_PROFILES = 32"
definition MAX_CRYPTO_POLICIES :: nat where "MAX_CRYPTO_POLICIES = 128"
definition POLICY_PROTO_ANY :: u8 where "POLICY_PROTO_ANY = 0"
definition POLICY_PROTO_TCP_UDP :: u8 where "POLICY_PROTO_TCP_UDP = 254"
definition POLICY_ACTION_BYPASS :: int where "POLICY_ACTION_BYPASS = 0"
definition POLICY_ACTION_ENCRYPT_L2 :: int where "POLICY_ACTION_ENCRYPT_L2 = 2"

record crypto_policy =
  cp_id :: int
  cp_db_id :: int
  cp_priority :: int
  cp_action :: int
  cp_protocol :: u8
  cp_src_port_from :: int
  cp_src_port_to :: int
  cp_dst_port_from :: int
  cp_dst_port_to :: int
  cp_src_any :: bool
  cp_dst_any :: bool
  cp_src_negate :: bool
  cp_dst_negate :: bool
  cp_src_net :: u32
  cp_src_mask :: u32
  cp_dst_net :: u32
  cp_dst_mask :: u32

record bridge_pair =
  bp_local_idx :: int
  bp_wan_dp :: int
  bp_ifname :: string

record profile_config =
  pf_id :: int
  pf_name :: string
  pf_enabled :: bool
  pf_bridge_enable :: bool
  pf_bridges :: "bridge_pair list"
  pf_local_indices :: "int list"
  pf_wan_indices :: "int list"
  pf_wan_bandwidth_weight :: "int list"
  pf_policy_indices :: "int list"
  pf_policy_in_any :: bool
  pf_local_identity_fingerprint :: string
  pf_peer_fingerprint :: string
  pf_pqc_is_initiator :: bool
  pf_has_pqc_identity :: bool
  pf_pqc_peer_pub :: string

record wan_config =
  wc_ifname :: string
  wc_dst_ip :: u32
  wc_src_mac :: "u8 list"
  wc_dst_mac :: "u8 list"
  wc_dataplane :: bool

record app_config =
  ac_locals :: "string list"
  ac_wans :: "wan_config list"
  ac_bpf_file :: string
  ac_bpf_wan_file :: string
  ac_crypto_enabled :: bool
  ac_fake_ethertype_ipv4 :: u16
  ac_profiles :: "profile_config list"
  ac_policies :: "crypto_policy list"

definition config_policy_db_id_taken :: "app_config \<Rightarrow> int \<Rightarrow> bool" where
  "config_policy_db_id_taken cfg db_id \<longleftrightarrow>
     \<not> db_id \<le> 0 \<and> (\<exists>cp \<in> set (ac_policies cfg). cp_db_id cp = db_id)"

definition config_local_ifname_in_cfg :: "app_config \<Rightarrow> string \<Rightarrow> bool" where
  "config_local_ifname_in_cfg cfg ifname \<longleftrightarrow> (\<exists>l \<in> set (ac_locals cfg). l = ifname)"

definition wan_count :: "app_config \<Rightarrow> int" where
  "wan_count cfg = int (length (ac_wans cfg))"

definition config_wan_profile_weight :: "app_config \<Rightarrow> int \<Rightarrow> int" where
  "config_wan_profile_weight cfg wan_idx =
     (if wan_idx < 0 \<or> wan_idx \<ge> wan_count cfg \<or> ac_profiles cfg = [] then 0
      else
        let p = hd (ac_profiles cfg) in
        fold (\<lambda>wi best.
           if pf_wan_indices p ! wi \<noteq> wan_idx then best
           else if pf_wan_bandwidth_weight p ! wi > best then pf_wan_bandwidth_weight p ! wi
           else best) [0..<length (pf_wan_indices p)] 0)"

definition config_wan_live :: "app_config \<Rightarrow> int \<Rightarrow> bool" where
  "config_wan_live cfg wan_idx \<longleftrightarrow>
     \<not> (wan_idx < 0 \<or> wan_idx \<ge> wan_count cfg) \<and> wc_dataplane (ac_wans cfg ! nat wan_idx)"

definition config_wan_live_in_cfg :: "app_config \<Rightarrow> string \<Rightarrow> bool" where
  "config_wan_live_in_cfg cfg ifname =
     (case find (\<lambda>i. wc_ifname (ac_wans cfg ! i) = ifname) [0..<length (ac_wans cfg)] of
        None \<Rightarrow> False
      | Some i \<Rightarrow> config_wan_live cfg (int i))"

definition config_count_dataplane_wans :: "app_config \<Rightarrow> int" where
  "config_count_dataplane_wans cfg =
     fold (\<lambda>i n. if config_wan_live cfg (int i) then n + 1 else n) [0..<length (ac_wans cfg)] 0"

definition config_wan_cfg_to_dp :: "app_config \<Rightarrow> int \<Rightarrow> int" where
  "config_wan_cfg_to_dp cfg cfg_idx =
     (if \<not> config_wan_live cfg cfg_idx then -1
      else fold (\<lambda>i dp. if config_wan_live cfg (int i) then dp + 1 else dp) [0..<nat cfg_idx] 0)"

fun dp_to_cfg_loop :: "app_config \<Rightarrow> int \<Rightarrow> nat list \<Rightarrow> int \<Rightarrow> int" where
  "dp_to_cfg_loop cfg dp_idx [] seen = -1"
| "dp_to_cfg_loop cfg dp_idx (i # is) seen =
     (if \<not> config_wan_live cfg (int i) then dp_to_cfg_loop cfg dp_idx is seen
      else if seen = dp_idx then int i
      else dp_to_cfg_loop cfg dp_idx is (seen + 1))"

definition config_wan_dp_to_cfg :: "app_config \<Rightarrow> int \<Rightarrow> int" where
  "config_wan_dp_to_cfg cfg dp_idx =
     (if dp_idx < 0 then -1 else dp_to_cfg_loop cfg dp_idx [0..<length (ac_wans cfg)] 0)"

definition config_validate :: "app_config \<Rightarrow> bool" where
  "config_validate cfg \<longleftrightarrow>
     (\<forall>l \<in> set (ac_locals cfg). l \<noteq> []) \<and> (\<forall>w \<in> set (ac_wans cfg). wc_ifname w \<noteq> [])"

subsection \<open>Policies\<close>

definition cidr_match_with_negate :: "bool \<Rightarrow> bool \<Rightarrow> u32 \<Rightarrow> u32 \<Rightarrow> u32 \<Rightarrow> bool" where
  "cidr_match_with_negate any_flag negate ip net msk =
     (if any_flag then True
      else let in_cidr = ((ip AND msk) = (net AND msk)) in if negate then \<not> in_cidr else in_cidr)"

definition policy_port_is_any :: "int \<Rightarrow> int \<Rightarrow> bool" where
  "policy_port_is_any from_port to_port =
     (if from_port < 0 \<or> to_port < 0 then True else from_port \<le> 0 \<and> to_port \<ge> 65535)"

definition crypto_policy_is_catchall :: "crypto_policy \<Rightarrow> bool" where
  "crypto_policy_is_catchall cp \<longleftrightarrow>
     cp_src_any cp \<and> cp_dst_any cp \<and> cp_protocol cp = POLICY_PROTO_ANY
     \<and> policy_port_is_any (cp_src_port_from cp) (cp_src_port_to cp)
     \<and> policy_port_is_any (cp_dst_port_from cp) (cp_dst_port_to cp)"

definition POL_IN_SRC_NEG :: u8 where "POL_IN_SRC_NEG = 1"
definition POL_IN_DST_NEG :: u8 where "POL_IN_DST_NEG = 2"

record pol_in_match =
  pm_src_net :: u32
  pm_src_mask :: u32
  pm_dst_net :: u32
  pm_dst_mask :: u32
  pm_sport_lo :: u16
  pm_sport_hi :: u16
  pm_dport_lo :: u16
  pm_dport_hi :: u16
  pm_proto :: u8
  pm_flags :: u8

definition pol_in_port_range :: "int \<Rightarrow> int \<Rightarrow> u16 \<times> u16" where
  "pol_in_port_range from_port to_port =
     (if from_port < 0 \<or> to_port < 0 then (0, 65535)
      else
        let f = (if from_port > 65535 then 65535 else from_port);
            t = (if to_port > 65535 then 65535 else to_port)
        in if f > t then (of_int t, of_int f) else (of_int f, of_int t))"

definition pol_in_fill :: "crypto_policy \<Rightarrow> pol_in_match" where
  "pol_in_fill cp =
     (case pol_in_port_range (cp_dst_port_from cp) (cp_dst_port_to cp) of (slo, shi) \<Rightarrow>
      case pol_in_port_range (cp_src_port_from cp) (cp_src_port_to cp) of (dlo, dhi) \<Rightarrow>
      let f1 = (if \<not> cp_dst_any cp \<and> cp_dst_negate cp then POL_IN_SRC_NEG else 0);
          f2 = (if \<not> cp_src_any cp \<and> cp_src_negate cp then f1 OR POL_IN_DST_NEG else f1)
      in \<lparr>pm_src_net = (if cp_dst_any cp then 0 else cp_dst_net cp AND cp_dst_mask cp),
          pm_src_mask = (if cp_dst_any cp then 0 else cp_dst_mask cp),
          pm_dst_net = (if cp_src_any cp then 0 else cp_src_net cp AND cp_src_mask cp),
          pm_dst_mask = (if cp_src_any cp then 0 else cp_src_mask cp),
          pm_sport_lo = slo, pm_sport_hi = shi, pm_dport_lo = dlo, pm_dport_hi = dhi,
          pm_proto = cp_protocol cp, pm_flags = f2\<rparr>)"

text \<open>The valid policies of a profile, in the order of its index list.\<close>

definition profile_policies :: "app_config \<Rightarrow> profile_config \<Rightarrow> crypto_policy list" where
  "profile_policies cfg p =
     map (\<lambda>i. ac_policies cfg ! nat i)
       (filter (\<lambda>i. \<not> (i < 0 \<or> i \<ge> int (length (ac_policies cfg)))) (pf_policy_indices p))"

text \<open>The static tables \<open>s_pol_in\<close> and \<open>s_pol_in_n\<close>: one list of entries per profile.\<close>

type_synonym pol_in_tables = "nat \<Rightarrow> pol_in_match list"

definition config_refresh_policy_in_any :: "app_config \<Rightarrow> app_config \<times> pol_in_tables" where
  "config_refresh_policy_in_any cfg =
     (case ac_profiles cfg of
        [] \<Rightarrow> (cfg, \<lambda>_. [])
      | p # ps \<Rightarrow>
          let skip = (\<exists>cp \<in> set (profile_policies cfg p). crypto_policy_is_catchall cp);
              tbl = (if skip then []
                     else map pol_in_fill (take MAX_CRYPTO_POLICIES (profile_policies cfg p)))
          in (cfg\<lparr>ac_profiles := p\<lparr>pf_policy_in_any := skip\<rparr> # ps\<rparr>, (\<lambda>_. [])(0 := tbl)))"

definition pol_in_hit :: "pol_in_match \<Rightarrow> u32 \<Rightarrow> u32 \<Rightarrow> u16 \<Rightarrow> u16 \<Rightarrow> u8 \<Rightarrow> bool" where
  "pol_in_hit e src_ip dst_ip src_port dst_port protocol =
     (if pm_proto e = POLICY_PROTO_TCP_UDP \<and> protocol \<noteq> 6 \<and> protocol \<noteq> 17 then False
      else if pm_proto e \<noteq> POLICY_PROTO_TCP_UDP \<and> pm_proto e \<noteq> POLICY_PROTO_ANY \<and> pm_proto e \<noteq> protocol then False
      else
        let src_ok = ((src_ip AND pm_src_mask e) = pm_src_net e);
            dst_ok = ((dst_ip AND pm_dst_mask e) = pm_dst_net e);
            src_ok = (if pm_flags e AND POL_IN_SRC_NEG \<noteq> 0 then \<not> src_ok else src_ok);
            dst_ok = (if pm_flags e AND POL_IN_DST_NEG \<noteq> 0 then \<not> dst_ok else dst_ok)
        in if \<not> src_ok \<or> \<not> dst_ok then False
           else if src_port < pm_sport_lo e \<or> src_port > pm_sport_hi e then False
           else if dst_port < pm_dport_lo e \<or> dst_port > pm_dport_hi e then False
           else True)"

definition config_policy_in_ok ::
    "app_config \<Rightarrow> pol_in_tables \<Rightarrow> int \<Rightarrow> u32 \<Rightarrow> u32 \<Rightarrow> u16 \<Rightarrow> u16 \<Rightarrow> u8 \<Rightarrow> bool" where
  "config_policy_in_ok cfg tables profile_idx src_ip dst_ip src_port dst_port protocol =
     (if profile_idx < 0 \<or> profile_idx \<ge> int (length (ac_profiles cfg)) \<or> profile_idx \<ge> int MAX_PROFILES
      then False
      else \<exists>e \<in> set (tables (nat profile_idx)). pol_in_hit e src_ip dst_ip src_port dst_port protocol)"

definition crypto_policy_match_packet ::
    "crypto_policy \<Rightarrow> u32 \<Rightarrow> u32 \<Rightarrow> u16 \<Rightarrow> u16 \<Rightarrow> u8 \<Rightarrow> bool" where
  "crypto_policy_match_packet cp src_ip dst_ip src_port dst_port protocol =
     (if cp_protocol cp = POLICY_PROTO_TCP_UDP \<and> protocol \<noteq> 6 \<and> protocol \<noteq> 17 then False
      else if cp_protocol cp \<noteq> POLICY_PROTO_TCP_UDP \<and> cp_protocol cp \<noteq> POLICY_PROTO_ANY
          \<and> cp_protocol cp \<noteq> protocol then False
      else if \<not> cidr_match_with_negate (cp_src_any cp) (cp_src_negate cp) src_ip (cp_src_net cp) (cp_src_mask cp) then False
      else if \<not> cidr_match_with_negate (cp_dst_any cp) (cp_dst_negate cp) dst_ip (cp_dst_net cp) (cp_dst_mask cp) then False
      else if cp_src_port_from cp \<ge> 0 \<and> cp_src_port_to cp \<ge> 0
          \<and> (uint src_port < cp_src_port_from cp \<or> uint src_port > cp_src_port_to cp) then False
      else if cp_dst_port_from cp \<ge> 0 \<and> cp_dst_port_to cp \<ge> 0
          \<and> (uint dst_port < cp_dst_port_from cp \<or> uint dst_port > cp_dst_port_to cp) then False
      else True)"

definition policy_better :: "crypto_policy \<Rightarrow> crypto_policy option \<Rightarrow> crypto_policy option" where
  "policy_better cp best =
     (case best of
        None \<Rightarrow> Some cp
      | Some b \<Rightarrow>
          if cp_priority cp < cp_priority b \<or> (cp_priority cp = cp_priority b \<and> cp_id cp < cp_id b)
          then Some cp else best)"

definition config_select_crypto_policy ::
    "app_config \<Rightarrow> int \<Rightarrow> u32 \<Rightarrow> u32 \<Rightarrow> u16 \<Rightarrow> u16 \<Rightarrow> u8 \<Rightarrow> crypto_policy option" where
  "config_select_crypto_policy cfg profile_idx src_ip dst_ip src_port dst_port protocol =
     (if profile_idx < 0 \<or> profile_idx \<ge> int (length (ac_profiles cfg)) then None
      else fold (\<lambda>cp best.
          if \<not> crypto_policy_match_packet cp src_ip dst_ip src_port dst_port protocol then best
          else policy_better cp best)
        (profile_policies cfg (ac_profiles cfg ! nat profile_idx)) None)"

section \<open>Netmasks\<close>

lemma and_Suc_zero: "x AND Suc x = 0 \<Longrightarrow> \<exists>k. Suc x = 2 ^ k"
proof (induction x rule: less_induct)
  case (less x)
  show ?case
  proof (cases "even x")
    case True
    then obtain y where y: "x = 2 * y" by (elim evenE)
    with less.prems have "y = 0"
      by (simp add: and_nat_rec [of "2 * y"])
    then show ?thesis using y by (intro exI [of _ 0]) simp
  next
    case False
    then obtain y where y: "x = Suc (2 * y)" by (metis oddE Suc_eq_plus1)
    with less.prems have "y AND Suc y = 0" by (simp add: and_nat_rec [of "Suc (2 * y)"])
    with less.IH [of y] y obtain k where "Suc y = 2 ^ k" by auto
    then show ?thesis using y by (intro exI [of _ "Suc k"]) simp
  qed
qed

lemma ffff_minus_1: "(0xFFFFFFFF :: u32) = - 1"
  by simp

lemma prefix_mask_alt:
  assumes "1 \<le> p" "p \<le> 32"
  shows "bswap32 (ipv4_prefix_to_mask_be p) = NOT (mask (nat (32 - p)))"
  using assms unfolding ipv4_prefix_to_mask_be_def ffff_minus_1
  by (cases "p = 32") (auto simp: push_bit_minus_one_eq_not_mask)

lemma not_mask_contiguous: "k < 32 \<Longrightarrow> (mask k :: u32) AND (mask k + 1) = 0"
proof -
  assume "k < 32"
  have "(mask k :: u32) + 1 = 2 ^ k" by (simp add: mask_eq_exp_minus_1)
  then show ?thesis by (simp only:) (rule bit_word_eqI, simp add: bit_simps)
qed

lemma contiguous_iff_prefix:
  "ipv4_mask_be_is_contiguous m \<longleftrightarrow> (\<exists>p. 0 \<le> p \<and> p \<le> 32 \<and> m = ipv4_prefix_to_mask_be p)"
proof
  assume c: "ipv4_mask_be_is_contiguous m"
  show "\<exists>p. 0 \<le> p \<and> p \<le> 32 \<and> m = ipv4_prefix_to_mask_be p"
  proof (cases "bswap32 m = 0")
    case True
    then have "m = 0" using bswap32_inj [of m 0] by (simp add: bswap32_def be32_def)
    then show ?thesis by (intro exI [of _ 0]) (simp add: ipv4_prefix_to_mask_be_def)
  next
    case False
    let ?inv = "NOT (bswap32 m)"
    have "?inv AND (?inv + 1) = 0" using c False by (simp add: ipv4_mask_be_is_contiguous_def Let_def)
    moreover have ne: "?inv \<noteq> - 1" using False by (metis bit.compl_zero bit.double_compl)
    have suc: "unat (?inv + 1) = Suc (unat ?inv)" using ne unatSuc [of ?inv] by (metis add.commute add_eq_0_iff)
    ultimately have "unat ?inv AND Suc (unat ?inv) = 0" by (metis suc unsigned_and_eq unsigned_0)
    then obtain k where k: "Suc (unat ?inv) = 2 ^ k" using and_Suc_zero by blast
    have "unat (?inv + 1) < 2 ^ LENGTH(32)" by (rule unsigned_less)
    then have "Suc (unat ?inv) < 2 ^ 32" using suc by simp
    then have "k < 32" using k by (metis power_less_imp_less_exp one_less_numeral_iff semiring_norm(76))
    have "?inv + 1 = 2 ^ k" using arg_cong [OF k, of "of_nat :: nat \<Rightarrow> u32"] by (simp add: add.commute)
    then have "?inv = mask k" by (simp add: mask_eq_exp_minus_1 eq_diff_eq)
    then have "bswap32 m = NOT (mask k)" by (metis bit.double_compl)
    also have "\<dots> = bswap32 (ipv4_prefix_to_mask_be (32 - int k))"
      using \<open>k < 32\<close> prefix_mask_alt [of "32 - int k"] by simp
    finally show ?thesis using \<open>k < 32\<close> by (intro exI [of _ "32 - int k"]) (simp add: bswap32_inj)
  qed
next
  assume "\<exists>p. 0 \<le> p \<and> p \<le> 32 \<and> m = ipv4_prefix_to_mask_be p"
  then obtain p where p: "0 \<le> p" "p \<le> 32" "m = ipv4_prefix_to_mask_be p" by blast
  show "ipv4_mask_be_is_contiguous m"
  proof (cases "p = 0")
    case True
    then show ?thesis using p by (simp add: ipv4_prefix_to_mask_be_def ipv4_mask_be_is_contiguous_def bswap32_def be32_def)
  next
    case False
    then have "NOT (bswap32 m) = mask (nat (32 - p))" using p prefix_mask_alt [of p] by simp
    then show ?thesis
      using not_mask_contiguous [of "nat (32 - p)"] p False by (simp add: ipv4_mask_be_is_contiguous_def Let_def)
  qed
qed

section \<open>WAN numbering\<close>

abbreviation live :: "app_config \<Rightarrow> nat \<Rightarrow> bool" where
  "live cfg i \<equiv> config_wan_live cfg (int i)"

lemma fold_count: "fold (\<lambda>i n. if P i then n + 1 else n) xs (a::int) = a + int (length (filter P xs))"
  by (induction xs arbitrary: a) auto

lemma cfg_to_dp_count:
  "live cfg c \<Longrightarrow> config_wan_cfg_to_dp cfg (int c) = int (length (filter (live cfg) [0..<c]))"
  by (simp add: config_wan_cfg_to_dp_def fold_count)

lemma count_dataplane: "config_count_dataplane_wans cfg = int (length (filter (live cfg) [0..<length (ac_wans cfg)]))"
  by (simp add: config_count_dataplane_wans_def fold_count)

lemma dp_to_cfg_loop_hit:
  "live cfg i \<Longrightarrow> s + int (length (filter (live cfg) ys)) = d \<Longrightarrow> dp_to_cfg_loop cfg d (ys @ i # zs) s = int i"
  by (induction ys arbitrary: s) auto

lemma dp_to_cfg_loop_miss:
  "s + int (length (filter (live cfg) xs)) \<le> d \<Longrightarrow> dp_to_cfg_loop cfg d xs s = -1"
  by (induction xs arbitrary: s) auto

lemma filter_nth_split:
  "d < length (filter P xs) \<Longrightarrow> \<exists>ys i zs. xs = ys @ i # zs \<and> P i \<and> length (filter P ys) = d"
proof (induction xs arbitrary: d)
  case (Cons x xs)
  show ?case
  proof (cases "P x \<and> d = 0")
    case True
    then show ?thesis by (intro exI [of _ "[]"] exI [of _ x] exI [of _ xs]) simp
  next
    case False
    with Cons.prems have "(if P x then d - 1 else d) < length (filter P xs)" by (auto split: if_splits)
    from Cons.IH [OF this] obtain ys i zs where
      "xs = ys @ i # zs" "P i" "length (filter P ys) = (if P x then d - 1 else d)" by blast
    with False show ?thesis by (intro exI [of _ "x # ys"] exI [of _ i] exI [of _ zs]) auto
  qed
qed simp

lemma upt_split_prefix: "[0..<n] = ys @ i # zs \<Longrightarrow> ys = [0..<i] \<and> i < n"
proof -
  assume e: "[0..<n] = ys @ i # zs"
  then have l: "length ys < n" by (metis length_append length_upt add_less_cancel_left diff_zero
        length_Cons less_add_same_cancel1 zero_less_Suc)
  have "i = [0..<n] ! length ys" by (simp add: e)
  then have i: "i = length ys" using l by simp
  have "ys = take (length ys) [0..<n]" by (simp add: e)
  then show ?thesis using l i by (simp add: take_upt)
qed

lemma upt_Cons_split: "k < n \<Longrightarrow> [0..<n] = [0..<k] @ k # [Suc k..<n]"
  using upt_add_eq_append [of 0 k "n - k"] by (simp add: upt_conv_Cons)

lemma live_range: "live cfg c \<Longrightarrow> c < length (ac_wans cfg)"
  by (simp add: config_wan_live_def wan_count_def)

section \<open>Policy selection\<close>

definition policy_le :: "crypto_policy \<Rightarrow> crypto_policy \<Rightarrow> bool" where
  "policy_le a b \<longleftrightarrow> cp_priority a < cp_priority b \<or> (cp_priority a = cp_priority b \<and> cp_id a \<le> cp_id b)"

lemma fold_policy_better:
  "(fold (\<lambda>cp best. if \<not> M cp then best else policy_better cp best) cps b = None
      \<longleftrightarrow> b = None \<and> (\<forall>cp \<in> set cps. \<not> M cp))
   \<and> (\<forall>r. fold (\<lambda>cp best. if \<not> M cp then best else policy_better cp best) cps b = Some r \<longrightarrow>
       (b = Some r \<or> (r \<in> set cps \<and> M r)) \<and> (\<forall>c. b = Some c \<longrightarrow> policy_le r c)
       \<and> (\<forall>cp \<in> set cps. M cp \<longrightarrow> policy_le r cp))"
proof (induction cps arbitrary: b)
  case Nil
  then show ?case by (auto simp: policy_le_def)
next
  case (Cons cp cps)
  show ?case
    using Cons.IH [of "if \<not> M cp then b else policy_better cp b"]
    by (cases b) (auto simp: policy_better_def policy_le_def split: if_splits)
qed

section \<open>The table for incoming packets\<close>

text \<open>Port ranges as the configuration loader should produce them: open, or ordered.\<close>

definition ports_wf :: "int \<Rightarrow> int \<Rightarrow> bool" where
  "ports_wf from_port to_port \<longleftrightarrow> from_port < 0 \<or> to_port < 0 \<or> (from_port \<le> to_port \<and> from_port \<le> 65535)"

definition policy_ports_wf :: "crypto_policy \<Rightarrow> bool" where
  "policy_ports_wf cp \<longleftrightarrow> ports_wf (cp_src_port_from cp) (cp_src_port_to cp)
     \<and> ports_wf (cp_dst_port_from cp) (cp_dst_port_to cp)"

lemma u16_bounds: "0 \<le> uint (x :: u16)" "uint (x :: u16) \<le> 65535"
  using uint_lt2p [of x] by auto

lemma uint_u16_of_int: "0 \<le> i \<Longrightarrow> i \<le> 65535 \<Longrightarrow> uint (of_int i :: u16) = i"
  by (simp add: unsigned_of_int take_bit_int_eq_self)

lemma port_range_match:
  assumes "ports_wf f t"
  shows "(fst (pol_in_port_range f t) \<le> x \<and> x \<le> snd (pol_in_port_range f t))
     \<longleftrightarrow> \<not> (f \<ge> 0 \<and> t \<ge> 0 \<and> (uint x < f \<or> uint x > t))"
  using assms u16_bounds [of x]
  by (auto simp: pol_in_port_range_def ports_wf_def Let_def word_le_def uint_u16_of_int)

definition proto_ok :: "u8 \<Rightarrow> u8 \<Rightarrow> bool" where
  "proto_ok rule protocol \<longleftrightarrow>
     (if rule = POLICY_PROTO_TCP_UDP then protocol = 6 \<or> protocol = 17
      else rule = POLICY_PROTO_ANY \<or> rule = protocol)"

lemma pol_in_hit_iff:
  "pol_in_hit e src_ip dst_ip src_port dst_port protocol \<longleftrightarrow>
     proto_ok (pm_proto e) protocol
     \<and> ((pm_flags e AND POL_IN_SRC_NEG \<noteq> 0) \<noteq> ((src_ip AND pm_src_mask e) = pm_src_net e))
     \<and> ((pm_flags e AND POL_IN_DST_NEG \<noteq> 0) \<noteq> ((dst_ip AND pm_dst_mask e) = pm_dst_net e))
     \<and> \<not> (src_port < pm_sport_lo e \<or> pm_sport_hi e < src_port)
     \<and> \<not> (dst_port < pm_dport_lo e \<or> pm_dport_hi e < dst_port)"
  unfolding pol_in_hit_def Let_def proto_ok_def by auto

lemma policy_match_iff:
  "crypto_policy_match_packet cp src_ip dst_ip src_port dst_port protocol \<longleftrightarrow>
     proto_ok (cp_protocol cp) protocol
     \<and> cidr_match_with_negate (cp_src_any cp) (cp_src_negate cp) src_ip (cp_src_net cp) (cp_src_mask cp)
     \<and> cidr_match_with_negate (cp_dst_any cp) (cp_dst_negate cp) dst_ip (cp_dst_net cp) (cp_dst_mask cp)
     \<and> \<not> (cp_src_port_from cp \<ge> 0 \<and> cp_src_port_to cp \<ge> 0
          \<and> (uint src_port < cp_src_port_from cp \<or> uint src_port > cp_src_port_to cp))
     \<and> \<not> (cp_dst_port_from cp \<ge> 0 \<and> cp_dst_port_to cp \<ge> 0
          \<and> (uint dst_port < cp_dst_port_from cp \<or> uint dst_port > cp_dst_port_to cp))"
  unfolding crypto_policy_match_packet_def proto_ok_def by auto

lemma pol_in_fill_match:
  assumes "policy_ports_wf cp"
  shows "pol_in_hit (pol_in_fill cp) src_ip dst_ip src_port dst_port protocol
     \<longleftrightarrow> crypto_policy_match_packet cp dst_ip src_ip dst_port src_port protocol"
proof -
  obtain slo shi where s: "pol_in_port_range (cp_dst_port_from cp) (cp_dst_port_to cp) = (slo, shi)" by fastforce
  obtain dlo dhi where d: "pol_in_port_range (cp_src_port_from cp) (cp_src_port_to cp) = (dlo, dhi)" by fastforce
  have sp: "(src_port < slo \<or> shi < src_port) \<longleftrightarrow> cp_dst_port_from cp \<ge> 0 \<and> cp_dst_port_to cp \<ge> 0
      \<and> (uint src_port < cp_dst_port_from cp \<or> uint src_port > cp_dst_port_to cp)"
    using port_range_match [of "cp_dst_port_from cp" "cp_dst_port_to cp" src_port] assms s
    by (auto simp: policy_ports_wf_def not_le)
  have dp: "(dst_port < dlo \<or> dhi < dst_port) \<longleftrightarrow> cp_src_port_from cp \<ge> 0 \<and> cp_src_port_to cp \<ge> 0
      \<and> (uint dst_port < cp_src_port_from cp \<or> uint dst_port > cp_src_port_to cp)"
    using port_range_match [of "cp_src_port_from cp" "cp_src_port_to cp" dst_port] assms d
    by (auto simp: policy_ports_wf_def not_le)
  have "pol_in_hit (pol_in_fill cp) src_ip dst_ip src_port dst_port protocol \<longleftrightarrow>
      proto_ok (cp_protocol cp) protocol
      \<and> cidr_match_with_negate (cp_dst_any cp) (cp_dst_negate cp) src_ip (cp_dst_net cp) (cp_dst_mask cp)
      \<and> cidr_match_with_negate (cp_src_any cp) (cp_src_negate cp) dst_ip (cp_src_net cp) (cp_src_mask cp)
      \<and> \<not> (src_port < slo \<or> shi < src_port) \<and> \<not> (dst_port < dlo \<or> dhi < dst_port)"
    unfolding pol_in_hit_iff pol_in_fill_def s d
    by (simp add: Let_def POL_IN_SRC_NEG_def POL_IN_DST_NEG_def cidr_match_with_negate_def)
  then show ?thesis unfolding policy_match_iff sp dp by blast
qed

lemma catchall_matches:
  "crypto_policy_is_catchall cp \<Longrightarrow> crypto_policy_match_packet cp src_ip dst_ip src_port dst_port protocol"
  using u16_bounds [of src_port] u16_bounds [of dst_port]
  by (auto simp: crypto_policy_is_catchall_def crypto_policy_match_packet_def policy_port_is_any_def
      cidr_match_with_negate_def POLICY_PROTO_ANY_def POLICY_PROTO_TCP_UDP_def split: if_splits)

section \<open>Properties\<close>

text \<open>Every accepted CIDR text yields a contiguous netmask, that is the mask of some prefix
  length from 0 to 32, and a network that is the address restricted to the mask.\<close>

lemma parse_ip_cidr_sound:
  assumes "parse_ip_cidr str = Some (ip, netmask, network)"
  shows "network = ip AND netmask \<and> (\<exists>p. 0 \<le> p \<and> p \<le> 32 \<and> netmask = ipv4_prefix_to_mask_be p)"
proof -
  have "parse_ipv4_netmask_be s = Some m \<Longrightarrow> \<exists>p. 0 \<le> p \<and> p \<le> 32 \<and> m = ipv4_prefix_to_mask_be p" for s m
    using contiguous_iff_prefix [of m] by (auto simp: parse_ipv4_netmask_be_def split: if_splits option.splits)
  moreover have "\<exists>p. 0 \<le> p \<and> p \<le> 32 \<and> ipv4_prefix_to_mask_be q = ipv4_prefix_to_mask_be p" if "0 \<le> q" "q \<le> 32" for q
    using that by blast
  ultimately show ?thesis
    using assms by (auto simp: parse_ip_cidr_def Let_def split: if_splits option.splits prod.splits)
qed


text \<open>The numbering of the configured WANs and the numbering of the WANs of the data plane are
  inverse to each other: on live WANs \<open>config_wan_cfg_to_dp\<close> gives a number below the count of
  live WANs that \<open>config_wan_dp_to_cfg\<close> maps back, every number below the count comes from a live
  WAN, and every other number is refused.\<close>

lemma wan_numbering_inverse:
  "(config_wan_live cfg c \<longrightarrow>
      0 \<le> config_wan_cfg_to_dp cfg c \<and> config_wan_cfg_to_dp cfg c < config_count_dataplane_wans cfg
      \<and> config_wan_dp_to_cfg cfg (config_wan_cfg_to_dp cfg c) = c)
   \<and> (0 \<le> d \<and> d < config_count_dataplane_wans cfg \<longrightarrow>
      config_wan_live cfg (config_wan_dp_to_cfg cfg d)
      \<and> config_wan_cfg_to_dp cfg (config_wan_dp_to_cfg cfg d) = d)
   \<and> (d < 0 \<or> config_count_dataplane_wans cfg \<le> d \<longrightarrow> config_wan_dp_to_cfg cfg d = -1)"
proof (intro conjI impI)
  let ?n = "length (ac_wans cfg)"
  assume l: "config_wan_live cfg c"
  then obtain k where k: "c = int k" by (metis config_wan_live_def nonneg_int_cases not_less)
  with l have kn: "k < ?n" by (simp add: live_range)
  have split: "[0..<?n] = [0..<k] @ k # [Suc k..<?n]" using upt_Cons_split [OF kn] .
  have dp: "config_wan_cfg_to_dp cfg c = int (length (filter (live cfg) [0..<k]))"
    using l k by (simp add: cfg_to_dp_count)
  then show "0 \<le> config_wan_cfg_to_dp cfg c" by simp
  show "config_wan_cfg_to_dp cfg c < config_count_dataplane_wans cfg"
    using l k dp by (simp add: count_dataplane split)
  show "config_wan_dp_to_cfg cfg (config_wan_cfg_to_dp cfg c) = c"
    using l k dp dp_to_cfg_loop_hit [of cfg k 0 "[0..<k]" _ "[Suc k..<?n]"]
    by (simp add: config_wan_dp_to_cfg_def split)
next
  let ?n = "length (ac_wans cfg)"
  assume d: "0 \<le> d \<and> d < config_count_dataplane_wans cfg"
  then have "nat d < length (filter (live cfg) [0..<?n])"
    by (auto simp: count_dataplane nat_less_iff)
  from filter_nth_split [OF this] obtain ys i zs where
    s: "[0..<?n] = ys @ i # zs" "live cfg i" "length (filter (live cfg) ys) = nat d" by blast
  have i: "config_wan_dp_to_cfg cfg d = int i"
    using d s dp_to_cfg_loop_hit [of cfg i 0 ys d zs] by (simp add: config_wan_dp_to_cfg_def)
  then show "config_wan_live cfg (config_wan_dp_to_cfg cfg d)" using s by simp
  show "config_wan_cfg_to_dp cfg (config_wan_dp_to_cfg cfg d) = d"
    using i s d upt_split_prefix [OF s(1)] by (simp add: cfg_to_dp_count)
next
  assume "d < 0 \<or> config_count_dataplane_wans cfg \<le> d"
  then show "config_wan_dp_to_cfg cfg d = -1"
    by (auto simp: config_wan_dp_to_cfg_def count_dataplane dp_to_cfg_loop_miss)
qed

definition wan_example :: "bool \<Rightarrow> wan_config" where
  "wan_example up = \<lparr>wc_ifname = ''wan'', wc_dst_ip = 0, wc_src_mac = [], wc_dst_mac = [], wc_dataplane = up\<rparr>"

definition cfg_example :: "profile_config list \<Rightarrow> crypto_policy list \<Rightarrow> app_config" where
  "cfg_example profiles policies =
     \<lparr>ac_locals = [''lan0''], ac_wans = [wan_example False, wan_example True, wan_example True],
      ac_bpf_file = [], ac_bpf_wan_file = [], ac_crypto_enabled = True, ac_fake_ethertype_ipv4 = 0, ac_profiles = profiles, ac_policies = policies\<rparr>"

text \<open>The policy selected for a packet is one of the profile that matches it, of least
  priority value and, among those, least id; no policy is selected exactly when none matches.\<close>

lemma config_select_crypto_policy_correct:
  assumes "0 \<le> pi" and "pi < int (length (ac_profiles cfg))"
  shows "let cps = set (profile_policies cfg (ac_profiles cfg ! nat pi));
             M = (\<lambda>cp. crypto_policy_match_packet cp src_ip dst_ip src_port dst_port protocol);
             r = config_select_crypto_policy cfg pi src_ip dst_ip src_port dst_port protocol
         in (r = None \<longleftrightarrow> (\<forall>cp \<in> cps. \<not> M cp))
          \<and> (\<forall>cp. r = Some cp \<longrightarrow> cp \<in> cps \<and> M cp \<and> (\<forall>cp' \<in> cps. M cp' \<longrightarrow> policy_le cp cp'))"
  using assms fold_policy_better [of "\<lambda>cp. crypto_policy_match_packet cp src_ip dst_ip src_port dst_port protocol"
      "profile_policies cfg (ac_profiles cfg ! nat pi)" None]
  by (simp add: config_select_crypto_policy_def Let_def)

definition policy_example :: "int \<Rightarrow> int \<Rightarrow> int \<Rightarrow> int \<Rightarrow> crypto_policy" where
  "policy_example pid prio from_port to_port = \<lparr>cp_id = pid, cp_db_id = pid, cp_priority = prio, cp_action = 2, cp_protocol = 17,
     cp_src_port_from = from_port, cp_src_port_to = to_port, cp_dst_port_from = -1, cp_dst_port_to = -1,
     cp_src_any = True, cp_dst_any = True, cp_src_negate = False, cp_dst_negate = False,
     cp_src_net = 0, cp_src_mask = 0, cp_dst_net = 0, cp_dst_mask = 0\<rparr>"

definition profile_example :: "int list \<Rightarrow> profile_config" where
  "profile_example pols = \<lparr>pf_id = 1, pf_name = [], pf_enabled = True, pf_bridge_enable = False, pf_bridges = [],
     pf_local_indices = [0], pf_wan_indices = [1, 2], pf_wan_bandwidth_weight = [3, 1],
     pf_policy_indices = pols, pf_policy_in_any = False,
     pf_local_identity_fingerprint = [], pf_peer_fingerprint = [], pf_pqc_is_initiator = False,
     pf_has_pqc_identity = False, pf_pqc_peer_pub = []\<rparr>"

text \<open>C22: the gate for packets that come back from the WAN agrees with the policies: a packet
  passes the gate of profile 0 (the any-flag, or a hit in the compact table) exactly when one of
  the profile's policies matches it with source and destination exchanged. This needs port ranges
  that are open or ordered, and no more policies than the table holds.\<close>

theorem config_policy_in_gate_equiv:
  assumes "ac_profiles cfg \<noteq> []"
    and "length (profile_policies cfg (hd (ac_profiles cfg))) \<le> MAX_CRYPTO_POLICIES"
    and "\<forall>cp \<in> set (profile_policies cfg (hd (ac_profiles cfg))). policy_ports_wf cp"
    and "config_refresh_policy_in_any cfg = (cfg', tables)"
  shows "(pf_policy_in_any (hd (ac_profiles cfg'))
          \<or> config_policy_in_ok cfg' tables 0 src_ip dst_ip src_port dst_port protocol)
     \<longleftrightarrow> (\<exists>cp \<in> set (profile_policies cfg (hd (ac_profiles cfg))).
            crypto_policy_match_packet cp dst_ip src_ip dst_port src_port protocol)"
proof -
  obtain p ps where p: "ac_profiles cfg = p # ps" using assms(1) by (cases "ac_profiles cfg") auto
  let ?pols = "profile_policies cfg p"
  show ?thesis
  proof (cases "\<exists>cp \<in> set ?pols. crypto_policy_is_catchall cp")
    case True
    then have "\<exists>cp \<in> set ?pols. crypto_policy_match_packet cp dst_ip src_ip dst_port src_port protocol"
      using catchall_matches by blast
    then show ?thesis
      using True assms(4) p by (auto simp: config_refresh_policy_in_any_def Let_def)
  next
    case False
    then have r: "cfg' = cfg\<lparr>ac_profiles := p\<lparr>pf_policy_in_any := False\<rparr> # ps\<rparr>" "tables 0 = map pol_in_fill ?pols"
      using assms(2,4) p by (auto simp: config_refresh_policy_in_any_def Let_def)
    have "(\<exists>e \<in> set (map pol_in_fill ?pols). pol_in_hit e src_ip dst_ip src_port dst_port protocol) \<longleftrightarrow>
        (\<exists>cp \<in> set ?pols. crypto_policy_match_packet cp dst_ip src_ip dst_port src_port protocol)"
      using assms(3) p pol_in_fill_match by auto
    then show ?thesis using r p by (simp add: config_policy_in_ok_def MAX_PROFILES_def)
  qed
qed

theorem config_policy_in_gate_equiv_witness:
  "let cfg = cfg_example [profile_example [0]] [policy_example 5 20 50 100];
       (cfg', tables) = config_refresh_policy_in_any cfg
   in config_policy_in_ok cfg' tables 0 1 2 9 60 17
      \<and> (\<exists>cp \<in> set (profile_policies cfg (hd (ac_profiles cfg))). crypto_policy_match_packet cp 2 1 60 9 17)"
proof -
  let ?cfg = "cfg_example [profile_example [0]] [policy_example 5 20 50 100]"
  obtain cfg' tables where r: "config_refresh_policy_in_any ?cfg = (cfg', tables)" by fastforce
  have pp: "profile_policies ?cfg (hd (ac_profiles ?cfg)) = [policy_example 5 20 50 100]"
    by (simp add: profile_policies_def cfg_example_def profile_example_def)
  have wf: "policy_ports_wf (policy_example 5 20 50 100)"
    by (simp add: policy_ports_wf_def ports_wf_def policy_example_def)
  have "case config_refresh_policy_in_any ?cfg of (cfg', tables) \<Rightarrow>
      config_policy_in_ok cfg' tables 0 1 2 9 60 17" by code_simp
  then have ok: "config_policy_in_ok cfg' tables 0 1 2 9 60 17" by (simp add: r)
  have "ac_profiles ?cfg \<noteq> []" by (simp add: cfg_example_def)
  from config_policy_in_gate_equiv [OF this _ _ r, of 1 2 9 60 17] show ?thesis
    using pp wf ok by (simp add: r MAX_CRYPTO_POLICIES_def)
qed

text \<open>For a port range whose bounds are reversed the two directions disagree: no outgoing
  packet matches the policy, while the table for incoming packets exchanges the bounds and lets
  the reply through.\<close>

lemma reversed_port_range_diverges:
  "let cp = policy_example 5 20 100 50
   in (\<forall>src_ip dst_ip sport dport proto. \<not> crypto_policy_match_packet cp src_ip dst_ip sport dport proto)
      \<and> pol_in_hit (pol_in_fill cp) 1 2 9 60 17"
proof -
  have "pol_in_hit (pol_in_fill (policy_example 5 20 100 50)) 1 2 9 60 17" by code_simp
  then show ?thesis by (auto simp: policy_match_iff policy_example_def)
qed

end
