(* ===== verification/Packet_Util.thy ===== *)
theory Packet_Util
  imports Eth_Parse NE_Ring
begin

text \<open>
  The packet helpers of \<open>src/core/dataplane/packet_util.c\<close>: the five-tuple of an IPv4 packet, the
  fields of an ARP packet, and the hand-over of a packet to an output ring. As in C the addresses
  of a parsed flow are in network byte order, read by a little-endian machine.
\<close>

section \<open>Definitions\<close>

definition le32_at :: "buf \<Rightarrow> nat \<Rightarrow> u32 mem" where
  "le32_at b off = do {
     x0 \<leftarrow> rd8 b off; x1 \<leftarrow> rd8 b (off + 1); x2 \<leftarrow> rd8 b (off + 2); x3 \<leftarrow> rd8 b (off + 3);
     Some (be32 x3 x2 x1 x0) }"

record flow5 =
  f5_src_ip :: u32
  f5_dst_ip :: u32
  f5_src_port :: u16
  f5_dst_port :: u16
  f5_proto :: u8

definition IPPROTO_ICMP :: u8 where "IPPROTO_ICMP = 1"
definition IPPROTO_TCP :: u8 where "IPPROTO_TCP = 6"
definition IPPROTO_UDP :: u8 where "IPPROTO_UDP = 17"

definition dp_parse_flow :: "buf \<Rightarrow> nat \<Rightarrow> flow5 option mem" where
  "dp_parse_flow pkt pkt_len = do {
     l3 \<leftarrow> crypto_eth_ipv4_offset pkt pkt_len;
     case l3 of
       None \<Rightarrow> Some None
     | Some l3_off \<Rightarrow> do {
         vihl \<leftarrow> rd8 pkt l3_off;
         let ihl = unat (vihl AND 0x0F) * 4;
         if ihl < 20 \<or> pkt_len < l3_off + ihl then Some None
         else do {
           saddr \<leftarrow> le32_at pkt (l3_off + 12);
           daddr \<leftarrow> le32_at pkt (l3_off + 16);
           proto \<leftarrow> rd8 pkt (l3_off + 9);
           if proto = IPPROTO_TCP \<or> proto = IPPROTO_UDP then
             if pkt_len < l3_off + ihl + 4 then Some None
             else do {
               sport \<leftarrow> eth_read_et pkt (l3_off + ihl);
               dport \<leftarrow> eth_read_et pkt (l3_off + ihl + 2);
               Some (Some \<lparr>f5_src_ip = saddr, f5_dst_ip = daddr, f5_src_port = sport, f5_dst_port = dport, f5_proto = proto\<rparr>) }
           else Some (Some \<lparr>f5_src_ip = saddr, f5_dst_ip = daddr, f5_src_port = 0, f5_dst_port = 0, f5_proto = proto\<rparr>) } } }"

definition dp_pkt_is_arp :: "buf \<Rightarrow> nat \<Rightarrow> bool mem" where
  "dp_pkt_is_arp pkt len =
     (if len < 14 then Some False
      else do {
        et \<leftarrow> eth_read_et pkt 12;
        if et = 0x8100 then
          if len < 18 then Some False
          else do { et \<leftarrow> eth_read_et pkt 16; Some (et = 0x0806) }
        else Some (et = 0x0806) })"

definition arp_payload_offset :: "buf \<Rightarrow> nat \<Rightarrow> nat option mem" where
  "arp_payload_offset pkt len =
     (if len < 14 + 28 then Some None
      else do {
        et \<leftarrow> eth_read_et pkt 12;
        if et = 0x8100 then if len < 18 + 28 then Some None else Some (Some 18)
        else Some (Some 14) })"

definition dp_parse_arp_ips :: "buf \<Rightarrow> nat \<Rightarrow> (u32 \<times> u32) option mem" where
  "dp_parse_arp_ips pkt len = do {
     r \<leftarrow> arp_payload_offset pkt len;
     case r of
       None \<Rightarrow> Some None
     | Some off \<Rightarrow> do {
         hw \<leftarrow> rdn pkt off 6;
         if hw \<noteq> [0x00, 0x01, 0x08, 0x00, 6, 4] then Some None
         else do {
           spa \<leftarrow> le32_at pkt (off + 14);
           tpa \<leftarrow> le32_at pkt (off + 24);
           Some (Some (spa, tpa)) } } }"

definition dp_parse_arp_op :: "buf \<Rightarrow> nat \<Rightarrow> u16 option mem" where
  "dp_parse_arp_op pkt len = do {
     r \<leftarrow> arp_payload_offset pkt len;
     case r of
       None \<Rightarrow> Some None
     | Some off \<Rightarrow> do { opc \<leftarrow> eth_read_et pkt (off + 6); Some (Some opc) } }"

text \<open>Result: accepted or not, the ring, the frame pool, and the number of drops to count. Waking
  the transmit thread is not represented.\<close>

definition dp_ring_push :: "nat \<Rightarrow> ne_ring \<Rightarrow> ne_pool \<Rightarrow> ne_packet \<Rightarrow> bool \<times> ne_ring \<times> ne_pool \<times> nat" where
  "dp_ring_push frame_size ring pool pkt =
     (if pk_len pkt > frame_size then (False, ring, ne_frame_free pool (pk_addr pkt), 1)
      else case ne_ring_try_push ring pkt of
          None \<Rightarrow> (False, ring, ne_frame_free pool (pk_addr pkt), 1)
        | Some ring' \<Rightarrow> (True, ring', pool, 0))"

section \<open>Lemmas\<close>

definition le32_of :: "buf \<Rightarrow> nat \<Rightarrow> u32" where
  "le32_of b off = be32 (b ! (off + 3)) (b ! (off + 2)) (b ! (off + 1)) (b ! off)"

lemma le32_at_ok [simp, mem_simps]: "off + 3 < length b \<Longrightarrow> le32_at b off = Some (le32_of b off)"
  by (simp add: le32_at_def le32_of_def)

lemma parse_flow_cases:
  assumes "n \<le> length pkt"
  shows "dp_parse_flow pkt n = Some None \<or>
    (\<exists>l3 ihl f. dp_parse_flow pkt n = Some (Some f) \<and> (l3 = 14 \<or> l3 = 18) \<and> ihl = unat (pkt ! l3 AND 0x0F) * 4
       \<and> 20 \<le> ihl \<and> l3 + ihl \<le> n \<and> crypto_eth_ipv4_offset pkt n = Some (Some l3)
       \<and> f5_src_ip f = le32_of pkt (l3 + 12) \<and> f5_dst_ip f = le32_of pkt (l3 + 16) \<and> f5_proto f = pkt ! (l3 + 9)
       \<and> (if f5_proto f = IPPROTO_TCP \<or> f5_proto f = IPPROTO_UDP
          then l3 + ihl + 4 \<le> n \<and> f5_src_port f = et_at pkt (l3 + ihl) \<and> f5_dst_port f = et_at pkt (l3 + ihl + 2)
          else f5_src_port f = 0 \<and> f5_dst_port f = 0))"
proof -
  obtain r where r: "crypto_eth_ipv4_offset pkt n = Some r"
    and rs: "\<And>o1. r = Some o1 \<Longrightarrow> (o1 = 14 \<or> o1 = 18) \<and> o1 + 20 \<le> n" using ipv4_offset_spec [OF assms] by metis
  show ?thesis
  proof (cases r)
    case None
    then show ?thesis using r by (simp add: dp_parse_flow_def)
  next
    case (Some l3)
    define ihl where "ihl = unat (pkt ! l3 AND 0x0F) * 4"
    note l3 = rs [OF Some]
    have l3b: "l3 + 20 \<le> n" using l3 by simp
    show ?thesis
    proof (cases "ihl < 20 \<or> n < l3 + ihl \<or>
        ((pkt ! (l3 + 9) = IPPROTO_TCP \<or> pkt ! (l3 + 9) = IPPROTO_UDP) \<and> n < l3 + ihl + 4)")
      case True
      then have "dp_parse_flow pkt n = Some None"
        using r Some l3b assms by (auto simp: dp_parse_flow_def Let_def ihl_def)
      then show ?thesis ..
    next
      case False
      then have "\<not> unat (pkt ! l3 AND 0x0F) < 5" by (simp add: ihl_def)
      with False show ?thesis
        using r Some l3 assms
        by - (rule disjI2, rule exI [of _ l3], rule exI [of _ ihl], auto simp: dp_parse_flow_def Let_def ihl_def [symmetric])
    qed
  qed
qed

section \<open>Properties\<close>

text \<open>The packet parsers never read outside the packet, whatever it holds.\<close>

lemma packet_parsers_total:
  assumes "pkt_len \<le> length pkt"
  shows "(\<exists>r. dp_parse_flow pkt pkt_len = Some r) \<and> (\<exists>r. dp_pkt_is_arp pkt pkt_len = Some r)
    \<and> (\<exists>r. dp_parse_arp_ips pkt pkt_len = Some r) \<and> (\<exists>r. dp_parse_arp_op pkt pkt_len = Some r)"
  using assms parse_flow_cases [OF assms]
  by (auto simp: dp_pkt_is_arp_def dp_parse_arp_ips_def dp_parse_arp_op_def arp_payload_offset_def)


text \<open>Handing a packet to an output ring keeps the ownership of its frame unique: either the
  packet is appended to the ring and the pool of free frames is untouched, or the ring is
  untouched and the frame goes back to the pool.\<close>

lemma dp_ring_push_owner:
  assumes "ring_ok ring" and "pool_ok pool" and "length (pool_contents pool) < unat (q_cap pool)"
    and "dp_ring_push frame_size ring pool pkt = (ok, ring', pool', drops)"
  shows "ring_ok ring' \<and> pool_ok pool' \<and>
    (if ok then ring_contents ring' = ring_contents ring @ [pkt] \<and> pool' = pool \<and> drops = 0
     else ring' = ring \<and> pool_contents pool' = pool_contents pool @ [pk_addr pkt] \<and> drops = 1)
    \<and> (ok \<longleftrightarrow> pk_len pkt \<le> frame_size \<and> length (ring_contents ring) < unat (r_cap ring))"
proof -
  have free: "pool_ok (ne_frame_free pool (pk_addr pkt))
      \<and> pool_contents (ne_frame_free pool (pk_addr pkt)) = pool_contents pool @ [pk_addr pkt]"
    using pool.push_room [OF assms(2,3), of "pk_addr pkt"]
    by (auto simp: ne_frame_free_def split: prod.splits if_splits)
  show ?thesis
  proof (cases "length (ring_contents ring) < unat (r_cap ring)")
    case True
    then show ?thesis
      using ring.push_room [OF assms(1) True, of pkt] assms free by (auto simp: dp_ring_push_def split: if_splits)
  next
    case False
    then have "length (ring_contents ring) = unat (r_cap ring)" using ring.bounded [OF assms(1)] by simp
    from ring.push_full [OF assms(1) this, of pkt] show ?thesis
      using assms free False by (auto simp: dp_ring_push_def split: if_splits)
  qed
qed

end
