(* ===== verification/Crypto_Route.thy ===== *)
theory Crypto_Route
  imports Packet_Util
begin

text \<open>
  Assignment of packets to crypto workers and transmit slots, \<open>src/core/dataplane/crypto_route.c\<close>:
  a shared table of immutable flow entries (8192 sets of 8 ways, never evicted), balanced
  assignment of new flows, a UDP sequence number per flow and direction, and a small
  thread-local table of sequence numbers for flows whose set is full.

  The scan before the insert lock only reads; everything between \<open>dp_route_insert_lock\<close> and
  \<open>dp_route_insert_unlock\<close> is one atomic step, \<open>dp_route_insert\<close> below. Statements about runs
  therefore quantify over arbitrary sequences of such steps by other threads.
\<close>

section \<open>Definitions\<close>

definition NE_CPU_CRYPTO :: "u8 list" where "NE_CPU_CRYPTO = [3, 4, 5, 6, 7, 8]"
definition NE_CRYPTO_WORKERS :: nat where "NE_CRYPTO_WORKERS = 6"
definition NE_TX_SLOTS :: nat where "NE_TX_SLOTS = 4"
definition DP_ROUTE_SET_COUNT :: nat where "DP_ROUTE_SET_COUNT = 8192"
definition DP_ROUTE_WAYS :: nat where "DP_ROUTE_WAYS = 8"
definition DP_UDP_SEQ_FALLBACK_SETS :: nat where "DP_UDP_SEQ_FALLBACK_SETS = 256"
definition DP_UDP_SEQ_FALLBACK_WAYS :: nat where "DP_UDP_SEQ_FALLBACK_WAYS = 4"

record dp_route_key =
  rk_ip_a :: u32
  rk_ip_b :: u32
  rk_port_a :: u16
  rk_port_b :: u16
  rk_protocol :: u8

record dp_route_entry =
  re_key :: dp_route_key
  re_udp_tx_seq :: "u64 \<times> u64"
  re_worker_idx :: u8
  re_tx_slot :: u8
  re_valid :: bool

record dp_flow_route =
  fr_worker_idx :: int
  fr_tx_slot :: int

record dp_udp_seq_fallback =
  fb_key :: dp_route_key
  fb_next_seq :: "u32 \<times> u32"
  fb_stamp :: u32
  fb_valid :: bool

text \<open>The file's variables: the shared tables and counters, then the thread-local ones.\<close>

record route_state =
  g_route_table :: "nat \<Rightarrow> nat \<Rightarrow> dp_route_entry"
  g_worker_connection_count :: "nat \<Rightarrow> u64"
  g_tx_connection_count :: "nat \<Rightarrow> u64"
  g_worker_rr :: u32
  g_tx_rr :: u32
  g_active_tx_slots :: u32
  tls_crypto_worker_idx :: int
  tls_out_ring_idx :: int
  tls_udp_seq_fallback :: "nat \<Rightarrow> nat \<Rightarrow> dp_udp_seq_fallback"
  tls_udp_seq_stamp :: u32

definition dp_flow_hash_mix :: "u32 \<Rightarrow> u32 \<Rightarrow> u16 \<Rightarrow> u16 \<Rightarrow> u8 \<Rightarrow> u32" where
  "dp_flow_hash_mix src_ip dst_ip src_port dst_port protocol =
     (let h = src_ip XOR dst_ip;
          h = h XOR (push_bit 16 (ucast src_port) OR ucast dst_port);
          h = h XOR ucast protocol;
          h = h XOR drop_bit 16 h;
          h = h * 0x85ebca6b;
          h = h XOR drop_bit 13 h;
          h = h * 0xc2b2ae35
      in h XOR drop_bit 16 h)"

definition dp_hash_to_n :: "u32 \<Rightarrow> u32 \<Rightarrow> int" where
  "dp_hash_to_n hash n =
     (if n = 0 then 0
      else if n AND (n - 1) = 0 then uint (hash AND (n - 1))
      else uint (hash mod n))"

definition dp_pkt_flow_hash :: "buf \<Rightarrow> nat \<Rightarrow> u32 mem" where
  "dp_pkt_flow_hash pkt len =
     (if len < 14 then Some 0
      else do {
        r \<leftarrow> dp_parse_flow pkt len;
        case r of
          None \<Rightarrow> do {
            hdr \<leftarrow> rdn pkt 0 14;
            let hash = foldl (\<lambda>h b. h * 31 + ucast b) (of_nat len) hdr;
            Some (dp_flow_hash_mix hash (drop_bit 16 hash) (of_nat len) 0 0) }
        | Some f \<Rightarrow> Some (dp_flow_hash_mix (bswap32 (f5_src_ip f)) (bswap32 (f5_dst_ip f))
                          (f5_src_port f) (f5_dst_port f) (f5_proto f)) })"

definition dp_active_tx_slots :: "route_state \<Rightarrow> u32" where
  "dp_active_tx_slots st =
     (let slots = g_active_tx_slots st
      in if slots > 0 \<and> slots \<le> of_nat NE_TX_SLOTS then slots else 1)"

definition dp_route_set_active_tx_slots :: "u32 \<Rightarrow> route_state \<Rightarrow> route_state" where
  "dp_route_set_active_tx_slots slots st =
     (let slots = (if slots = 0 then 1 else slots);
          slots = (if slots > of_nat NE_TX_SLOTS then of_nat NE_TX_SLOTS else slots)
      in st\<lparr>g_active_tx_slots := slots\<rparr>)"

definition dp_out_ring_bind :: "int \<Rightarrow> route_state \<Rightarrow> route_state" where
  "dp_out_ring_bind ring_idx st =
     st\<lparr>tls_out_ring_idx := (if ring_idx < 0 \<or> ring_idx \<ge> uint (dp_active_tx_slots st) then 0 else ring_idx)\<rparr>"

definition dp_crypto_worker_bind :: "int \<Rightarrow> route_state \<Rightarrow> route_state" where
  "dp_crypto_worker_bind worker_idx st =
     (let w = (if worker_idx < 0 \<or> worker_idx \<ge> int NE_CRYPTO_WORKERS then 0 else worker_idx)
      in st\<lparr>tls_crypto_worker_idx := w, tls_out_ring_idx := w mod uint (dp_active_tx_slots st)\<rparr>)"

definition dp_crypto_worker_idx_for_cpu :: "u8 \<Rightarrow> int" where
  "dp_crypto_worker_idx_for_cpu cpu_id =
     (case find (\<lambda>i. NE_CPU_CRYPTO ! i = cpu_id) [0..<NE_CRYPTO_WORKERS] of None \<Rightarrow> -1 | Some i \<Rightarrow> int i)"

text \<open>The key and the direction (the swap flag) of a TCP or UDP packet.\<close>

definition dp_route_key_parse_direction :: "buf \<Rightarrow> nat \<Rightarrow> (dp_route_key \<times> bool) option mem" where
  "dp_route_key_parse_direction pkt len = do {
     r \<leftarrow> dp_parse_flow pkt len;
     case r of
       None \<Rightarrow> Some None
     | Some f \<Rightarrow>
         if f5_proto f \<noteq> IPPROTO_TCP \<and> f5_proto f \<noteq> IPPROTO_UDP then Some None
         else
           let ip_a = bswap32 (f5_src_ip f); ip_b = bswap32 (f5_dst_ip f);
               port_a = f5_src_port f; port_b = f5_dst_port f
           in if ip_a > ip_b \<or> (ip_a = ip_b \<and> port_a > port_b)
              then Some (Some (\<lparr>rk_ip_a = ip_b, rk_ip_b = ip_a, rk_port_a = port_b, rk_port_b = port_a,
                                rk_protocol = f5_proto f\<rparr>, True))
              else Some (Some (\<lparr>rk_ip_a = ip_a, rk_ip_b = ip_b, rk_port_a = port_a, rk_port_b = port_b,
                                rk_protocol = f5_proto f\<rparr>, False)) }"

definition dp_route_key_parse :: "buf \<Rightarrow> nat \<Rightarrow> dp_route_key option mem" where
  "dp_route_key_parse pkt len = do {
     r \<leftarrow> dp_route_key_parse_direction pkt len;
     Some (map_option fst r) }"

definition dp_route_key_hash :: "dp_route_key \<Rightarrow> u32" where
  "dp_route_key_hash key =
     dp_flow_hash_mix (rk_ip_a key) (rk_ip_b key) (rk_port_a key) (rk_port_b key) (rk_protocol key)"

definition dp_route_key_equal :: "dp_route_key \<Rightarrow> dp_route_key \<Rightarrow> bool" where
  "dp_route_key_equal a b \<longleftrightarrow> rk_ip_a a = rk_ip_a b \<and> rk_ip_b a = rk_ip_b b \<and>
     rk_port_a a = rk_port_a b \<and> rk_port_b a = rk_port_b b \<and> rk_protocol a = rk_protocol b"

text \<open>Returns the index of a least loaded slot; the cursor (start of the scan) is incremented.\<close>

definition dp_route_least_loaded :: "(nat \<Rightarrow> u64) \<Rightarrow> nat \<Rightarrow> u32 \<Rightarrow> nat" where
  "dp_route_least_loaded counts n start =
     fst (fold (\<lambda>off (best, best_count).
           let idx = unat ((start + of_nat off) mod of_nat n);
               load = counts idx
           in if load < best_count then (idx, load) else (best, best_count)) [0..<n] (0, - 1))"

definition route_set :: "dp_route_key \<Rightarrow> nat" where
  "route_set key = unat (dp_route_key_hash key AND (of_nat DP_ROUTE_SET_COUNT - 1))"

text \<open>The lock-free scan of a set for a key.\<close>

definition route_find :: "(nat \<Rightarrow> dp_route_entry) \<Rightarrow> dp_route_key \<Rightarrow> nat option" where
  "route_find ways key =
     find (\<lambda>way. re_valid (ways way) \<and> dp_route_key_equal (re_key (ways way)) key) [0..<DP_ROUTE_WAYS]"

definition entry_route :: "dp_route_entry \<Rightarrow> dp_flow_route" where
  "entry_route e = \<lparr>fr_worker_idx = uint (re_worker_idx e), fr_tx_slot = uint (re_tx_slot e)\<rparr>"

definition hash_route :: "route_state \<Rightarrow> u32 \<Rightarrow> dp_flow_route" where
  "hash_route st hash = \<lparr>fr_worker_idx = dp_hash_to_n hash (of_nat NE_CRYPTO_WORKERS),
                         fr_tx_slot = dp_hash_to_n hash (dp_active_tx_slots st)\<rparr>"

text \<open>The critical section: search again, then fill the first empty way, or give up.\<close>

definition dp_route_insert :: "dp_route_key \<Rightarrow> int \<Rightarrow> route_state \<Rightarrow> dp_flow_route \<times> route_state" where
  "dp_route_insert key worker_hint st =
     (let si = route_set key; ways = g_route_table st si in
      case route_find ways key of
        Some way \<Rightarrow> (entry_route (ways way), st)
      | None \<Rightarrow>
          (case find (\<lambda>way. \<not> re_valid (ways way)) [0..<DP_ROUTE_WAYS] of
             None \<Rightarrow> (hash_route st (dp_route_key_hash key), st)
           | Some slot \<Rightarrow>
               let hinted = (worker_hint \<ge> 0 \<and> worker_hint < int NE_CRYPTO_WORKERS);
                   w = (if hinted then nat worker_hint
                        else dp_route_least_loaded (g_worker_connection_count st) NE_CRYPTO_WORKERS (g_worker_rr st));
                   t = dp_route_least_loaded (g_tx_connection_count st) (unat (dp_active_tx_slots st)) (g_tx_rr st);
                   e = \<lparr>re_key = key, re_udp_tx_seq = (0, 0), re_worker_idx = of_nat w, re_tx_slot = of_nat t,
                        re_valid = True\<rparr>
               in (\<lparr>fr_worker_idx = int w, fr_tx_slot = int t\<rparr>,
                   st\<lparr>g_route_table := (g_route_table st)(si := ways(slot := e)),
                      g_worker_connection_count :=
                        (g_worker_connection_count st)(w := g_worker_connection_count st w + 1),
                      g_tx_connection_count := (g_tx_connection_count st)(t := g_tx_connection_count st t + 1),
                      g_worker_rr := (if hinted then g_worker_rr st else g_worker_rr st + 1),
                      g_tx_rr := g_tx_rr st + 1\<rparr>)))"

definition dp_flow_route_get :: "buf \<Rightarrow> nat \<Rightarrow> int \<Rightarrow> route_state \<Rightarrow> (dp_flow_route \<times> route_state) mem" where
  "dp_flow_route_get pkt len worker_hint st = do {
     hash \<leftarrow> dp_pkt_flow_hash pkt len;
     k \<leftarrow> dp_route_key_parse pkt len;
     case k of
       None \<Rightarrow> Some (hash_route st hash, st)
     | Some key \<Rightarrow>
         (case route_find (g_route_table st (route_set key)) key of
            Some way \<Rightarrow> Some (entry_route (g_route_table st (route_set key) way), st)
          | None \<Rightarrow> Some (dp_route_insert key worker_hint st)) }"

definition dp_pick_tx_slot :: "buf \<Rightarrow> nat \<Rightarrow> route_state \<Rightarrow> int mem" where
  "dp_pick_tx_slot pkt len st = do {
     k \<leftarrow> dp_route_key_parse pkt len;
     case k of
       Some key \<Rightarrow> Some (dp_hash_to_n (dp_route_key_hash key) (dp_active_tx_slots st))
     | None \<Rightarrow> do { h \<leftarrow> dp_pkt_flow_hash pkt len; Some (dp_hash_to_n h (dp_active_tx_slots st)) } }"

definition dp_crypto_pick_local_worker :: "buf \<Rightarrow> nat \<Rightarrow> route_state \<Rightarrow> ((int \<times> int) \<times> route_state) mem" where
  "dp_crypto_pick_local_worker pkt len st = do {
     (route, st') \<leftarrow> dp_flow_route_get pkt len (-1) st;
     Some ((fr_worker_idx route, fr_tx_slot route), st') }"

definition dp_flow_pick_tx_slot :: "buf \<Rightarrow> nat \<Rightarrow> int \<Rightarrow> route_state \<Rightarrow> (int \<times> route_state) mem" where
  "dp_flow_pick_tx_slot pkt len worker_hint st = do {
     (route, st') \<leftarrow> dp_flow_route_get pkt len worker_hint st;
     Some (fr_tx_slot route, st') }"

definition dir_get :: "bool \<Rightarrow> 'a \<times> 'a \<Rightarrow> 'a" where
  "dir_get d p = (if d then snd p else fst p)"

definition dir_set :: "bool \<Rightarrow> 'a \<Rightarrow> 'a \<times> 'a \<Rightarrow> 'a \<times> 'a" where
  "dir_set d v p = (if d then (fst p, v) else (v, snd p))"

text \<open>\<open>atomic_fetch_add\<close> on the counter of one entry and direction.\<close>

definition entry_next_seq :: "nat \<Rightarrow> nat \<Rightarrow> bool \<Rightarrow> route_state \<Rightarrow> u32 \<times> route_state" where
  "entry_next_seq si way d st =
     (let e = g_route_table st si way; v = dir_get d (re_udp_tx_seq e);
          e' = e\<lparr>re_udp_tx_seq := dir_set d (v + 1) (re_udp_tx_seq e)\<rparr>
      in (ucast v, st\<lparr>g_route_table := (g_route_table st)(si := (g_route_table st si)(way := e'))\<rparr>))"

definition fallback_next_seq :: "dp_route_key \<Rightarrow> bool \<Rightarrow> route_state \<Rightarrow> u32 \<times> route_state" where
  "fallback_next_seq key d st =
     (let fi = unat (dp_route_key_hash key AND (of_nat DP_UDP_SEQ_FALLBACK_SETS - 1));
          ways = tls_udp_seq_fallback st fi;
          stamp = tls_udp_seq_stamp st + 1;
          put = (\<lambda>way e. st\<lparr>tls_udp_seq_fallback := (tls_udp_seq_fallback st)(fi := ways(way := e)),
                            tls_udp_seq_stamp := stamp\<rparr>)
      in case way_scan (\<lambda>w. fb_valid (ways w)) (\<lambda>w. dp_route_key_equal (fb_key (ways w)) key)
                (\<lambda>w. fb_stamp (ways w)) [0..<DP_UDP_SEQ_FALLBACK_WAYS] 0 of
           Inl w \<Rightarrow>
             let v = dir_get d (fb_next_seq (ways w))
             in (v, put w ((ways w)\<lparr>fb_stamp := stamp, fb_next_seq := dir_set d (v + 1) (fb_next_seq (ways w))\<rparr>))
         | Inr w \<Rightarrow>
             (0, put w \<lparr>fb_key = key, fb_next_seq = dir_set d 1 (0, 0), fb_stamp = stamp, fb_valid = True\<rparr>))"

definition dp_udp_next_tx_seq :: "buf \<Rightarrow> nat \<Rightarrow> route_state \<Rightarrow> (u32 option \<times> route_state) mem" where
  "dp_udp_next_tx_seq pkt len st = do {
     k \<leftarrow> dp_route_key_parse_direction pkt len;
     case k of
       None \<Rightarrow> Some (None, st)
     | Some (key, d) \<Rightarrow>
         if rk_protocol key \<noteq> IPPROTO_UDP then Some (None, st)
         else (case route_find (g_route_table st (route_set key)) key of
             Some way \<Rightarrow> (case entry_next_seq (route_set key) way d st of (s, st') \<Rightarrow> Some (Some s, st'))
           | None \<Rightarrow> do {
               (route, st1) \<leftarrow> dp_flow_route_get pkt len (tls_crypto_worker_idx st) st;
               case route_find (g_route_table st1 (route_set key)) key of
                 Some way \<Rightarrow> (case entry_next_seq (route_set key) way d st1 of (s, st') \<Rightarrow> Some (Some s, st'))
               | None \<Rightarrow> (case fallback_next_seq key d st1 of (s, st') \<Rightarrow> Some (Some s, st')) }) }"

text \<open>\<open>fwd_crypto_has_l2_marker\<close> of \<open>crypto_runtime.c\<close>; the array \<open>policy_index_by_wire_id\<close> is an argument.\<close>

definition fwd_crypto_has_l2_marker :: "(u8 \<Rightarrow> int) \<Rightarrow> buf \<Rightarrow> nat \<Rightarrow> bool mem" where
  "fwd_crypto_has_l2_marker policy_index_by_wire_id pkt pkt_len = do {
     m \<leftarrow> crypto_eth_l2_has_marker pkt pkt_len;
     if \<not> m then Some False
     else do {
       w \<leftarrow> crypto_eth_l2_read_policy_id pkt pkt_len;
       case w of None \<Rightarrow> Some False | Some wire_pol \<Rightarrow> Some (policy_index_by_wire_id wire_pol \<ge> 0) } }"

definition dp_crypto_pick_wan_worker ::
    "bool \<Rightarrow> (u8 \<Rightarrow> int) \<Rightarrow> buf \<Rightarrow> nat \<Rightarrow> route_state \<Rightarrow> (int \<times> route_state) mem" where
  "dp_crypto_pick_wan_worker crypto_enabled policy_index_by_wire_id pkt len st = do {
     am \<leftarrow> crypto_eth_l2_has_arp_marker pkt len;
     arp \<leftarrow> dp_pkt_is_arp pkt len;
     if am \<or> arp then do {
       ((w, _), st') \<leftarrow> dp_crypto_pick_local_worker pkt len st;
       Some (w, st') }
     else do {
       marked \<leftarrow> fwd_crypto_has_l2_marker policy_index_by_wire_id pkt len;
       if \<not> crypto_enabled \<or> \<not> marked then Some (-1, st)
       else do {
         r \<leftarrow> crypto_eth_l2_read_worker_idx pkt len;
         case r of
           None \<Rightarrow> Some (-1, st)
         | Some wire_id \<Rightarrow>
             if unat wire_id < NE_CRYPTO_WORKERS then Some (uint wire_id, st)
             else Some (dp_crypto_worker_idx_for_cpu wire_id, st) } } }"

definition dp_route_connection_counts :: "route_state \<Rightarrow> u64 list \<times> u64 list" where
  "dp_route_connection_counts st =
     (map (g_worker_connection_count st) [0..<NE_CRYPTO_WORKERS], map (g_tx_connection_count st) [0..<NE_TX_SLOTS])"

section \<open>The table of flows\<close>

lemma key_equal [simp]: "dp_route_key_equal a b \<longleftrightarrow> a = b"
  by (auto simp: dp_route_key_equal_def)

definition entry_at :: "route_state \<Rightarrow> dp_route_key \<Rightarrow> dp_route_entry option" where
  "entry_at st key = map_option (g_route_table st (route_set key)) (route_find (g_route_table st (route_set key)) key)"

text \<open>Distinct ways of a set hold distinct keys, and every entry names an existing worker and slot.\<close>

definition route_ok :: "route_state \<Rightarrow> bool" where
  "route_ok st \<longleftrightarrow> (\<forall>s. \<forall>v < DP_ROUTE_WAYS. \<forall>w < DP_ROUTE_WAYS.
      re_valid (g_route_table st s v) \<and> re_valid (g_route_table st s w)
      \<and> re_key (g_route_table st s v) = re_key (g_route_table st s w) \<longrightarrow> v = w)
   \<and> (\<forall>s. \<forall>w < DP_ROUTE_WAYS. re_valid (g_route_table st s w) \<longrightarrow>
      unat (re_worker_idx (g_route_table st s w)) < NE_CRYPTO_WORKERS
      \<and> unat (re_tx_slot (g_route_table st s w)) < NE_TX_SLOTS)"

lemma route_find_Some:
  "route_find ways key = Some w \<Longrightarrow> w < DP_ROUTE_WAYS \<and> re_valid (ways w) \<and> re_key (ways w) = key"
  by (auto simp: route_find_def dest: find_upt_SomeD)

lemma route_find_None:
  "route_find ways key = None \<longleftrightarrow> (\<forall>w < DP_ROUTE_WAYS. \<not> (re_valid (ways w) \<and> re_key (ways w) = key))"
  by (simp add: route_find_def find_upt_None)

lemma route_find_eqI:
  assumes "w < DP_ROUTE_WAYS" "re_valid (ways w)" "re_key (ways w) = key"
    and "\<And>v. v < DP_ROUTE_WAYS \<Longrightarrow> re_valid (ways v) \<Longrightarrow> re_key (ways v) = key \<Longrightarrow> v = w"
  shows "route_find ways key = Some w"
proof (cases "route_find ways key")
  case None
  then show ?thesis using assms(1-3) unfolding route_find_None by blast
next
  case (Some v)
  from route_find_Some [OF Some] have "v = w" by (intro assms(4)) simp_all
  with Some show ?thesis by simp
qed

section \<open>Least loaded\<close>

lemma least_loaded_fold:
  fixes counts :: "nat \<Rightarrow> u64" and f :: "nat \<Rightarrow> nat"
  defines "step \<equiv> (\<lambda>off (best, best_count). if counts (f off) < best_count then (f off, counts (f off)) else (best, best_count))"
  assumes "fold step xs (b, c) = (b', c')"
  shows "c' \<le> c \<and> (\<forall>x \<in> set xs. c' \<le> counts (f x)) \<and> ((b', c') = (b, c) \<or> (\<exists>x \<in> set xs. b' = f x \<and> c' = counts b'))"
  using assms(2)
proof (induction xs arbitrary: b c)
  case Nil
  then show ?case by simp
next
  case (Cons x xs)
  show ?case
  proof (cases "counts (f x) < c")
    case True
    with Cons.prems Cons.IH [of "f x" "counts (f x)"] show ?thesis by (auto simp: step_def)
  next
    case False
    with Cons.prems Cons.IH [of b c] show ?thesis by (auto simp: step_def)
  qed
qed

lemma unat_mod_of_nat: "0 < n \<Longrightarrow> n < 2 ^ 32 \<Longrightarrow> unat (x mod of_nat n :: u32) = unat x mod n"
  by (simp add: unat_mod_distrib unsigned_of_nat take_bit_nat_eq_self)

text \<open>The start of the scan may wrap in 32 bits; the scan still visits every slot when it does not.\<close>

lemma least_loaded_range:
  assumes "0 < n" "n < 2 ^ 32"
  shows "dp_route_least_loaded counts n start < n"
proof -
  let ?f = "\<lambda>off. unat ((start + of_nat off) mod of_nat n)"
  obtain b c where fo: "fold (\<lambda>off (best, best_count). if counts (?f off) < best_count then (?f off, counts (?f off))
       else (best, best_count)) [0..<n] (0, - 1) = (b, c)" by fastforce
  have "b < n" using least_loaded_fold [OF fo] assms by (auto simp: unat_mod_of_nat)
  then show ?thesis using fo by (simp add: dp_route_least_loaded_def Let_def)
qed

lemma active_slots_range: "0 < unat (dp_active_tx_slots st) \<and> unat (dp_active_tx_slots st) \<le> NE_TX_SLOTS"
proof -
  have "dp_active_tx_slots st > 0 \<and> dp_active_tx_slots st \<le> 4"
    by (simp add: dp_active_tx_slots_def Let_def NE_TX_SLOTS_def)
  then show ?thesis by (simp add: word_less_nat_alt word_le_nat_alt NE_TX_SLOTS_def)
qed

section \<open>Insertion\<close>

lemma insert_cases:
  obtains (hit) way where "route_find (g_route_table st (route_set key)) key = Some way"
      "dp_route_insert key hint st = (entry_route (g_route_table st (route_set key) way), st)"
  | (full) "route_find (g_route_table st (route_set key)) key = None"
      "\<forall>w < DP_ROUTE_WAYS. re_valid (g_route_table st (route_set key) w)"
      "dp_route_insert key hint st = (hash_route st (dp_route_key_hash key), st)"
  | (new) slot w t r st' where "route_find (g_route_table st (route_set key)) key = None"
      "slot < DP_ROUTE_WAYS" "\<not> re_valid (g_route_table st (route_set key) slot)"
      "w < NE_CRYPTO_WORKERS" "t < unat (dp_active_tx_slots st)"
      "0 \<le> hint \<and> hint < int NE_CRYPTO_WORKERS \<longrightarrow> int w = hint"
      "t = dp_route_least_loaded (g_tx_connection_count st) (unat (dp_active_tx_slots st)) (g_tx_rr st)"
      "dp_route_insert key hint st = (r, st')" "r = \<lparr>fr_worker_idx = int w, fr_tx_slot = int t\<rparr>"
      "g_route_table st' = (g_route_table st)(route_set key := (g_route_table st (route_set key))
          (slot := \<lparr>re_key = key, re_udp_tx_seq = (0, 0), re_worker_idx = of_nat w, re_tx_slot = of_nat t,
                     re_valid = True\<rparr>))"
      "g_worker_connection_count st' = (g_worker_connection_count st)(w := g_worker_connection_count st w + 1)"
      "g_tx_connection_count st' = (g_tx_connection_count st)(t := g_tx_connection_count st t + 1)"
      "g_active_tx_slots st' = g_active_tx_slots st" "g_tx_rr st' = g_tx_rr st + 1"
proof (cases "route_find (g_route_table st (route_set key)) key")
  case (Some way)
  then show ?thesis by (intro hit) (simp_all add: dp_route_insert_def Let_def)
next
  case None
  note miss = None
  show ?thesis
  proof (cases "find (\<lambda>way. \<not> re_valid (g_route_table st (route_set key) way)) [0..<DP_ROUTE_WAYS]")
    case None
    then have "\<forall>w < DP_ROUTE_WAYS. re_valid (g_route_table st (route_set key) w)" by (simp add: find_upt_None)
    with miss None show ?thesis by (intro full) (simp_all add: dp_route_insert_def Let_def)
  next
    case (Some slot)
    let ?t = "dp_route_least_loaded (g_tx_connection_count st) (unat (dp_active_tx_slots st)) (g_tx_rr st)"
    let ?h = "0 \<le> hint \<and> hint < int NE_CRYPTO_WORKERS"
    let ?w = "if ?h then nat hint
              else dp_route_least_loaded (g_worker_connection_count st) NE_CRYPTO_WORKERS (g_worker_rr st)"
    have t: "?t < unat (dp_active_tx_slots st)"
      using active_slots_range [of st] by (intro least_loaded_range) (auto simp: NE_TX_SLOTS_def)
    have w: "?w < NE_CRYPTO_WORKERS"
      using least_loaded_range [of NE_CRYPTO_WORKERS] by (auto simp: NE_CRYPTO_WORKERS_def)
    show ?thesis
      using miss Some find_upt_SomeD [OF Some] w t
      by (intro new [of slot ?w ?t "fst (dp_route_insert key hint st)" "snd (dp_route_insert key hint st)"])
        (simp_all add: dp_route_insert_def Let_def)
  qed
qed

lemma new_entry_range:
  assumes "w < NE_CRYPTO_WORKERS" "t < unat (dp_active_tx_slots st)"
  shows "unat (of_nat w :: u8) = w \<and> unat (of_nat t :: u8) = t \<and> t < NE_TX_SLOTS"
  using assms active_slots_range [of st]
  by (simp add: NE_CRYPTO_WORKERS_def NE_TX_SLOTS_def unsigned_of_nat take_bit_nat_eq_self)

lemma insert_keeps_ok:
  assumes "route_ok st"
  shows "route_ok (snd (dp_route_insert key hint st))"
proof (cases rule: insert_cases [of st key hint])
  case (new slot w t r st')
  note rng = new_entry_range [OF new(4,5)]
  have ninj: "\<not> (re_valid (g_route_table st (route_set key) v) \<and> re_key (g_route_table st (route_set key) v) = key)"
    if "v < DP_ROUTE_WAYS" for v
    using new(1) that by (simp add: route_find_None)
  have "v = w1" if "v < DP_ROUTE_WAYS" "w1 < DP_ROUTE_WAYS" "re_valid (g_route_table st' s v)"
    "re_valid (g_route_table st' s w1)" "re_key (g_route_table st' s v) = re_key (g_route_table st' s w1)" for s v w1
    using that assms ninj [of v] ninj [of w1] unfolding new(10) route_ok_def by (auto split: if_splits; metis)
  moreover have "unat (re_worker_idx (g_route_table st' s v)) < NE_CRYPTO_WORKERS
      \<and> unat (re_tx_slot (g_route_table st' s v)) < NE_TX_SLOTS"
    if "v < DP_ROUTE_WAYS" "re_valid (g_route_table st' s v)" for s v
    using that assms rng new(4) unfolding new(10) route_ok_def by (auto split: if_splits)
  ultimately have "route_ok st'" unfolding route_ok_def by blast
  then show ?thesis using new(8) by simp
qed (use assms in simp_all)

lemma insert_keeps_entry:
  assumes "entry_at st k = Some e"
  shows "entry_at (snd (dp_route_insert key hint st)) k = Some e"
proof (cases rule: insert_cases [of st key hint])
  case (new slot w t r st')
  obtain v where v: "route_find (g_route_table st (route_set k)) k = Some v" "g_route_table st (route_set k) v = e"
    using assms by (auto simp: entry_at_def)
  have "k \<noteq> key" using v(1) new(1) by auto
  define ways where "ways = g_route_table st (route_set k)"
  have "route_find (g_route_table st' (route_set k)) k = Some v \<and> g_route_table st' (route_set k) v = e"
  proof (cases "route_set k = route_set key")
    case True
    have "v \<noteq> slot" using route_find_Some [OF v(1)] new(3) True by auto
    moreover have "find (\<lambda>way. re_valid ((ways(slot := e1)) way) \<and> re_key ((ways(slot := e1)) way) = k) [0..<DP_ROUTE_WAYS]
        = find (\<lambda>way. re_valid (ways way) \<and> re_key (ways way) = k) [0..<DP_ROUTE_WAYS]"
      if "re_key e1 = key" "\<not> re_valid (ways slot)" for e1
      using that \<open>k \<noteq> key\<close> by (intro find_cong refl) auto
    ultimately show ?thesis using v new(3) True by (simp add: new(10) route_find_def ways_def)
  next
    case False
    then show ?thesis using v by (simp add: new(10))
  qed
  then show ?thesis using new(8) by (simp add: entry_at_def)
qed (use assms in simp_all)

section \<open>Runs\<close>

text \<open>What any thread may do to the shared table: the critical section of a lookup, a sequence
  number drawn from an entry, a new number of transmit slots.\<close>

datatype route_event =
    Insert dp_route_key int
  | Next_seq dp_route_key bool
  | Set_slots u32

fun route_step :: "route_event \<Rightarrow> route_state \<Rightarrow> route_state" where
  "route_step (Insert key hint) st = snd (dp_route_insert key hint st)"
| "route_step (Next_seq key d) st =
     (case route_find (g_route_table st (route_set key)) key of
        None \<Rightarrow> st
      | Some way \<Rightarrow> snd (entry_next_seq (route_set key) way d st))"
| "route_step (Set_slots n) st = dp_route_set_active_tx_slots n st"

definition route_init :: route_state where
  "route_init = \<lparr>g_route_table = (\<lambda>_ _. \<lparr>re_key = \<lparr>rk_ip_a = 0, rk_ip_b = 0, rk_port_a = 0, rk_port_b = 0, rk_protocol = 0\<rparr>,
       re_udp_tx_seq = (0, 0), re_worker_idx = 0, re_tx_slot = 0, re_valid = False\<rparr>),
     g_worker_connection_count = (\<lambda>_. 0), g_tx_connection_count = (\<lambda>_. 0), g_worker_rr = 0, g_tx_rr = 0,
     g_active_tx_slots = of_nat NE_TX_SLOTS, tls_crypto_worker_idx = -1, tls_out_ring_idx = 0,
     tls_udp_seq_fallback = (\<lambda>_ _. \<lparr>fb_key = \<lparr>rk_ip_a = 0, rk_ip_b = 0, rk_port_a = 0, rk_port_b = 0, rk_protocol = 0\<rparr>,
       fb_next_seq = (0, 0), fb_stamp = 0, fb_valid = False\<rparr>),
     tls_udp_seq_stamp = 0\<rparr>"

lemma next_seq_table:
  "g_route_table (snd (entry_next_seq si way d st)) s v =
     (if s = si \<and> v = way then (g_route_table st s v)
        \<lparr>re_udp_tx_seq := dir_set d (dir_get d (re_udp_tx_seq (g_route_table st s v)) + 1) (re_udp_tx_seq (g_route_table st s v))\<rparr>
      else g_route_table st s v)"
  by (auto simp: entry_next_seq_def Let_def)

lemma next_seq_keeps [simp]:
  "re_valid (g_route_table (snd (entry_next_seq si way d st)) s v) = re_valid (g_route_table st s v)"
  "re_key (g_route_table (snd (entry_next_seq si way d st)) s v) = re_key (g_route_table st s v)"
  "re_worker_idx (g_route_table (snd (entry_next_seq si way d st)) s v) = re_worker_idx (g_route_table st s v)"
  "re_tx_slot (g_route_table (snd (entry_next_seq si way d st)) s v) = re_tx_slot (g_route_table st s v)"
  by (simp_all add: next_seq_table)

lemma next_seq_find [simp]:
  "route_find (g_route_table (snd (entry_next_seq si way d st)) s) key = route_find (g_route_table st s) key"
  by (simp add: route_find_def)

lemma step_keeps_ok: "route_ok st \<Longrightarrow> route_ok (route_step e st)"
proof (cases e)
  case (Next_seq key d)
  then show "route_ok st \<Longrightarrow> route_ok (route_step e st)"
    by (cases "route_find (g_route_table st (route_set key)) key") (simp_all add: route_ok_def)
qed (auto simp: insert_keeps_ok dp_route_set_active_tx_slots_def Let_def route_ok_def [of "_\<lparr>g_active_tx_slots := _\<rparr>"]
    route_ok_def [of st])

interpretation route: event_system route_init route_step route_ok
  by unfold_locales (simp add: route_init_def route_ok_def, rule step_keeps_ok)

definition same_route :: "dp_route_entry \<Rightarrow> dp_route_entry \<Rightarrow> bool" where
  "same_route e e' \<longleftrightarrow> re_worker_idx e' = re_worker_idx e \<and> re_tx_slot e' = re_tx_slot e"

lemma step_keeps_route:
  assumes "entry_at st k = Some e"
  shows "\<exists>e'. entry_at (route_step ev st) k = Some e' \<and> same_route e e'"
proof (cases ev)
  case (Insert key hint)
  then show ?thesis using insert_keeps_entry [OF assms] by (simp add: same_route_def)
next
  case (Next_seq key d)
  then show ?thesis using assms by (auto simp: entry_at_def same_route_def split: option.splits)
next
  case (Set_slots n)
  then show ?thesis using assms by (auto simp: entry_at_def same_route_def dp_route_set_active_tx_slots_def Let_def)
qed

lemma run_keeps_route:
  "entry_at st k = Some e \<Longrightarrow> \<exists>e'. entry_at (fold route_step evs st) k = Some e' \<and> same_route e e'"
proof (induction evs arbitrary: st e)
  case (Cons ev evs)
  obtain e1 where "entry_at (route_step ev st) k = Some e1" "same_route e e1" using step_keeps_route [OF Cons.prems] by blast
  with Cons.IH [of "route_step ev st" e1] show ?case by (auto simp: same_route_def)
qed (simp add: same_route_def)

section \<open>Sequence numbers\<close>

lemma ucast_Suc_u64: "(ucast (v + 1 :: u64) :: u32) = ucast v + 1"
  by (rule word_unat_eq_iff [THEN iffD2])
    (simp add: unsigned_ucast_eq take_bit_eq_mod unat_word_ariths mod_simps mod_mod_cancel)

lemma dir_simps [simp]: "dir_get d (dir_set d v p) = v" "dir_set d v (dir_set d u p) = dir_set d v p"
  by (simp_all add: dir_get_def dir_set_def)

lemma entry_next_seq_again:
  "fst (entry_next_seq si way d (snd (entry_next_seq si way d st))) = fst (entry_next_seq si way d st) + 1"
  by (simp add: entry_next_seq_def Let_def ucast_Suc_u64)

lemma fallback_table [simp]: "g_route_table (snd (fallback_next_seq key d st)) = g_route_table st"
  by (simp add: fallback_next_seq_def Let_def split: sum.splits)

lemma fallback_Inl:
  assumes "find (\<lambda>w. fb_valid (tls_udp_seq_fallback st (unat (dp_route_key_hash key AND (of_nat DP_UDP_SEQ_FALLBACK_SETS - 1))) w)
      \<and> fb_key (tls_udp_seq_fallback st (unat (dp_route_key_hash key AND (of_nat DP_UDP_SEQ_FALLBACK_SETS - 1))) w) = key)
      [0..<DP_UDP_SEQ_FALLBACK_WAYS] = Some w"
  shows "fst (fallback_next_seq key d st) = dir_get d (fb_next_seq (tls_udp_seq_fallback st
      (unat (dp_route_key_hash key AND (of_nat DP_UDP_SEQ_FALLBACK_SETS - 1))) w))"
proof -
  let ?ways = "tls_udp_seq_fallback st (unat (dp_route_key_hash key AND (of_nat DP_UDP_SEQ_FALLBACK_SETS - 1)))"
  have "way_scan (\<lambda>w. fb_valid (?ways w)) (\<lambda>w. fb_key (?ways w) = key) (\<lambda>w. fb_stamp (?ways w))
      [0..<DP_UDP_SEQ_FALLBACK_WAYS] 0 = Inl w"
    using assms way_scan_find [of "\<lambda>w. fb_valid (?ways w)" "\<lambda>w. fb_key (?ways w) = key" _ "\<lambda>w. fb_stamp (?ways w)" 0]
    by (auto split: sum.splits)
  then show ?thesis by (simp add: fallback_next_seq_def Let_def)
qed

lemma fallback_next_seq_again:
  "fst (fallback_next_seq key d (snd (fallback_next_seq key d st))) = fst (fallback_next_seq key d st) + 1"
proof -
  define fi where "fi = unat (dp_route_key_hash key AND (of_nat DP_UDP_SEQ_FALLBACK_SETS - 1))"
  define ways where "ways = tls_udp_seq_fallback st fi"
  define st1 where "st1 = snd (fallback_next_seq key d st)"
  define sc where "sc = way_scan (\<lambda>w. fb_valid (ways w)) (\<lambda>w. fb_key (ways w) = key) (\<lambda>w. fb_stamp (ways w))
      [0..<DP_UDP_SEQ_FALLBACK_WAYS] 0"
  let ?P = "\<lambda>ws w. fb_valid (ws w) \<and> fb_key (ws w) = key"
  have found: "find (?P ways) [0..<DP_UDP_SEQ_FALLBACK_WAYS] = (case sc of Inl w \<Rightarrow> Some w | Inr _ \<Rightarrow> None)"
    unfolding sc_def by (rule way_scan_find)
  have "\<exists>w. find (?P (tls_udp_seq_fallback st1 fi)) [0..<DP_UDP_SEQ_FALLBACK_WAYS] = Some w
      \<and> dir_get d (fb_next_seq (tls_udp_seq_fallback st1 fi w)) = fst (fallback_next_seq key d st) + 1"
  proof (cases sc)
    case (Inl w)
    have "?P (tls_udp_seq_fallback st1 fi) = ?P ways"
      using Inl by (auto simp: st1_def fallback_next_seq_def Let_def fi_def [symmetric] ways_def [symmetric] sc_def [symmetric])
    then show ?thesis
      using Inl found
      by (intro exI [of _ w]) (auto simp: st1_def fallback_next_seq_def Let_def fi_def [symmetric] ways_def [symmetric] sc_def [symmetric])
  next
    case (Inr w)
    have w: "w < DP_UDP_SEQ_FALLBACK_WAYS"
      using way_scan_Inr_range [OF Inr [unfolded sc_def]] by (auto simp: DP_UDP_SEQ_FALLBACK_WAYS_def)
    have miss: "\<not> ?P ways v" if "v < DP_UDP_SEQ_FALLBACK_WAYS" for v
      using found Inr that by (simp add: find_upt_None)
    have new: "tls_udp_seq_fallback st1 fi = ways(w := \<lparr>fb_key = key, fb_next_seq = dir_set d 1 (0, 0),
        fb_stamp = tls_udp_seq_stamp st + 1, fb_valid = True\<rparr>)" "fst (fallback_next_seq key d st) = 0"
      using Inr by (simp_all add: st1_def fallback_next_seq_def Let_def fi_def [symmetric] ways_def [symmetric] sc_def [symmetric])
    have "find (?P (tls_udp_seq_fallback st1 fi)) [0..<DP_UDP_SEQ_FALLBACK_WAYS] = Some w"
      using w miss by (intro find_upt_SomeI) (auto simp: new)
    then show ?thesis by (intro exI [of _ w]) (simp add: new)
  qed
  then show ?thesis using fallback_Inl [of st1 key, folded fi_def] unfolding st1_def [symmetric] by force
qed

lemma insert_then_find:
  assumes "dp_route_insert key hint st = (r, st1)" "route_find (g_route_table st (route_set key)) key = None"
  shows "(\<exists>way. route_find (g_route_table st1 (route_set key)) key = Some way)
     \<or> (st1 = st \<and> (\<forall>st2 hint. g_route_table st2 = g_route_table st \<longrightarrow> snd (dp_route_insert key hint st2) = st2))"
proof (cases rule: insert_cases [of st key hint])
  case (full)
  have "snd (dp_route_insert key hint' st2) = st2" if "g_route_table st2 = g_route_table st" for st2 hint'
    using full(1,2) that by (cases rule: insert_cases [of st2 key hint']) (auto simp: that)
  with full(3) assms(1) show ?thesis by auto
next
  case (new slot w t r' st')
  have "route_find (g_route_table st' (route_set key)) key = Some slot"
    using new(1,2) by (intro route_find_eqI) (auto simp: new(10) route_find_None split: if_splits)
  then show ?thesis using new(8) assms(1) by auto
qed (use assms in simp)

section \<open>Ranges\<close>

lemma hash_to_n_range: "0 < unat n \<Longrightarrow> 0 \<le> dp_hash_to_n h n \<and> dp_hash_to_n h n < int (unat n)"
proof -
  assume n: "0 < unat n"
  have "unat (h AND (n - 1)) < unat n"
  proof -
    have "n \<noteq> 0" using n by auto
    then have "unat (n - 1) = unat n - 1" by (rule unat_minus_one)
    then show ?thesis using unat_and_le [of h "n - 1"] n by linarith
  qed
  moreover have "unat (h mod n) < unat n" using n by (simp add: unat_mod_distrib)
  ultimately show ?thesis using n by (auto simp: dp_hash_to_n_def uint_less_int_iff simp del: of_nat_unat)
qed

definition route_in_range :: "dp_flow_route \<Rightarrow> bool" where
  "route_in_range r \<longleftrightarrow> 0 \<le> fr_worker_idx r \<and> fr_worker_idx r < int NE_CRYPTO_WORKERS
     \<and> 0 \<le> fr_tx_slot r \<and> fr_tx_slot r < int NE_TX_SLOTS"

lemma hash_route_range: "route_in_range (hash_route st h)"
proof -
  have "int (unat (dp_active_tx_slots st)) \<le> int NE_TX_SLOTS" using active_slots_range [of st] by (simp del: of_nat_unat)
  with hash_to_n_range [of 6 h] hash_to_n_range [of "dp_active_tx_slots st" h] active_slots_range [of st]
  show ?thesis by (auto simp: route_in_range_def hash_route_def NE_CRYPTO_WORKERS_def)
qed

lemma entry_route_range:
  assumes "route_ok st" "route_find (g_route_table st s) key = Some way"
  shows "route_in_range (entry_route (g_route_table st s way))"
  using assms route_find_Some [OF assms(2)] by (auto simp: route_in_range_def entry_route_def route_ok_def uint_less_int_iff)

lemma insert_route_range: "route_ok st \<Longrightarrow> route_in_range (fst (dp_route_insert key hint st))"
proof (cases rule: insert_cases [of st key hint])
  case (new slot w t r st')
  then show ?thesis
    using new_entry_range [OF new(4,5)] by (simp add: route_in_range_def)
qed (simp_all add: entry_route_range hash_route_range)

lemma flow_hash_total: "n \<le> length pkt \<Longrightarrow> \<exists>h. dp_pkt_flow_hash pkt n = Some h"
  using parse_flow_cases [of n pkt] by (auto simp: dp_pkt_flow_hash_def Let_def)

lemma key_parse_total: "n \<le> length pkt \<Longrightarrow> \<exists>k. dp_route_key_parse_direction pkt n = Some k"
  using parse_flow_cases [of n pkt] by (auto simp: dp_route_key_parse_direction_def Let_def)

lemma route_get_cases:
  assumes "n \<le> length pkt" "dp_route_key_parse_direction pkt n = Some k"
  obtains (nokey) h where "k = None" "dp_flow_route_get pkt n hint st = Some (hash_route st h, st)"
  | (key) key d where "k = Some (key, d)" "dp_flow_route_get pkt n hint st =
      (case route_find (g_route_table st (route_set key)) key of
         Some way \<Rightarrow> Some (entry_route (g_route_table st (route_set key) way), st)
       | None \<Rightarrow> Some (dp_route_insert key hint st))"
  using assms flow_hash_total [OF assms(1)] by (cases k) (auto simp: dp_flow_route_get_def dp_route_key_parse_def)

section \<open>Balance\<close>

lemma least_loaded_min:
  assumes "0 < n" "n < 2 ^ 32" "unat start + n \<le> 2 ^ 32" "\<And>j. j < n \<Longrightarrow> counts j < (- 1 :: u64)" "j < n"
  shows "counts (dp_route_least_loaded counts n start) \<le> counts j"
proof -
  let ?f = "\<lambda>off. unat ((start + of_nat off) mod of_nat n)"
  obtain b c where fo: "fold (\<lambda>off (best, best_count). if counts (?f off) < best_count then (?f off, counts (?f off))
       else (best, best_count)) [0..<n] (0, - 1) = (b, c)" by fastforce
  have f: "?f off = (unat start + off) mod n" if "off < n" for off
  proof -
    have "unat (start + of_nat off) = unat start + off"
      using that assms(2,3) by (simp add: unat_word_ariths unsigned_of_nat take_bit_nat_eq_self)
    then show ?thesis using assms(1,2) by (simp add: unat_mod_of_nat)
  qed
  obtain off where off: "off < n" "(unat start + off) mod n = j" using rotation_surj [OF assms(5)] by blast
  then have c: "c \<le> counts j" using least_loaded_fold [OF fo] f [OF off(1)] by force
  then have "c < - 1" using assms(4) [OF assms(5)] by (rule le_less_trans)
  then have "c = counts b" using least_loaded_fold [OF fo] by auto
  moreover have "dp_route_least_loaded counts n start = b" using fo by (simp add: dp_route_least_loaded_def Let_def)
  ultimately show ?thesis using c by simp
qed

text \<open>After at most \<open>k\<close> insertions the loads of the \<open>n\<close> active slots differ by at most one.\<close>

definition tx_balanced :: "nat \<Rightarrow> nat \<Rightarrow> route_state \<Rightarrow> bool" where
  "tx_balanced n k st \<longleftrightarrow> unat (dp_active_tx_slots st) = n \<and> unat (g_tx_rr st) \<le> k
     \<and> (\<forall>i<n. unat (g_tx_connection_count st i) \<le> k)
     \<and> (\<forall>i<n. \<forall>j<n. unat (g_tx_connection_count st i) \<le> unat (g_tx_connection_count st j) + 1)"

lemma u64_not_max: "unat (x :: u64) < 2 ^ 32 \<Longrightarrow> x < - 1"
  by (simp add: word_less_nat_alt unsigned_minus_1_eq_mask mask_eq_exp_minus_1)

lemma insert_balanced:
  assumes b: "tx_balanced n k st" and k: "k + 8 < 2 ^ 32"
  shows "tx_balanced n (Suc k) (snd (dp_route_insert key hint st))"
proof (cases rule: insert_cases [of st key hint])
  case (new slot w t r st')
  let ?c = "g_tx_connection_count st"
  have n: "0 < n" "n \<le> 4" "t < n" using active_slots_range [of st] b new(5) by (auto simp: tx_balanced_def NE_TX_SLOTS_def)
  have max: "?c i < - 1" if "i < n" for i using b k that by (intro u64_not_max) (force simp: tx_balanced_def)
  have "?c t \<le> ?c j" if "j < n" for j
    unfolding new(7) using b n k max that by (intro least_loaded_min) (auto simp: tx_balanced_def)
  then have min: "unat (?c t) \<le> unat (?c j)" if "j < n" for j using that by (simp add: word_le_nat_alt)
  have inc: "unat (?c t + 1) = Suc (unat (?c t))"
    using max [OF n(3)] by (metis add.commute add_eq_0_iff order_less_irrefl unatSuc)
  have rr: "unat (g_tx_rr st + 1) \<le> Suc k"
    using b k by (simp add: tx_balanced_def unat_word_ariths mod_le_divisor order_trans [OF mod_less_eq_dividend])
  have "\<forall>i<n. unat ((?c(t := ?c t + 1)) i) \<le> Suc k" using b inc n(3) by (auto simp: tx_balanced_def le_SucI)
  moreover have "\<forall>i<n. \<forall>j<n. unat ((?c(t := ?c t + 1)) i) \<le> unat ((?c(t := ?c t + 1)) j) + 1"
    using b inc n(3) min by (auto simp: tx_balanced_def le_SucI)
  moreover have "dp_active_tx_slots st' = dp_active_tx_slots st" using new(13) by (simp add: dp_active_tx_slots_def)
  ultimately show ?thesis using b rr new(8,12,14) by (simp add: tx_balanced_def)
qed (use b in \<open>auto simp: tx_balanced_def le_SucI\<close>)

lemma inserts_balanced:
  "tx_balanced n k st \<Longrightarrow> k + length reqs + 8 \<le> 2 ^ 32 \<Longrightarrow>
   tx_balanced n (k + length reqs) (fold (\<lambda>(key, hint) st. snd (dp_route_insert key hint st)) reqs st)"
proof (induction reqs arbitrary: k st)
  case (Cons q reqs)
  obtain key hint where q: "q = (key, hint)" by fastforce
  have "tx_balanced n (Suc k) (snd (dp_route_insert key hint st))" using Cons.prems by (intro insert_balanced) auto
  with Cons.IH [of "Suc k"] Cons.prems q show ?case by simp
qed simp

section \<open>Properties\<close>

text \<open>An Ethernet frame with an IPv4 UDP packet.\<close>

definition udp_example :: "u8 \<Rightarrow> u8 \<Rightarrow> u8 \<Rightarrow> u8 \<Rightarrow> buf" where
  "udp_example src dst sport dport = replicate 12 0 @ [0x08, 0x00] @ [0x45, 0, 0, 28, 0, 0, 0, 0, 64, 17, 0, 0]
     @ [10, 0, 0, src] @ [10, 0, 0, dst] @ [0, sport, 0, dport, 0, 8, 0, 0]"

definition key_example :: dp_route_key where
  "key_example = \<lparr>rk_ip_a = 0x0A000001, rk_ip_b = 0x0A000002, rk_port_a = 5, rk_port_b = 7, rk_protocol = 17\<rparr>"

lemma key_example_parse: "dp_route_key_parse_direction (udp_example 1 2 5 7) 42 = Some (Some (key_example, False))"
  by code_simp

lemma key_example_parse2: "dp_route_key_parse_direction (udp_example 2 1 7 5) 42 = Some (Some (key_example, True))"
  by code_simp


text \<open>C21: routes are sticky. Once a flow has an entry, every later lookup of a packet with that key
  returns the worker and the transmit slot of the entry, whatever insertions, sequence draws and
  changes of the number of slots all threads made in between: the lookup scan and the critical
  sections may interleave in any order.\<close>

theorem flow_route_sticky:
  assumes "entry_at st key = Some e" and "len \<le> length pkt"
    and "dp_route_key_parse pkt len = Some (Some key)"
  shows "\<exists>st'. dp_flow_route_get pkt len worker_hint (fold route_step evs st)
     = Some (\<lparr>fr_worker_idx = uint (re_worker_idx e), fr_tx_slot = uint (re_tx_slot e)\<rparr>, st')"
proof -
  obtain e' where e': "entry_at (fold route_step evs st) key = Some e'" "same_route e e'"
    using run_keeps_route [OF assms(1)] by blast
  obtain h where h: "dp_pkt_flow_hash pkt len = Some h" using flow_hash_total [OF assms(2)] by blast
  show ?thesis
    using e' assms(3) h by (auto simp: dp_flow_route_get_def entry_at_def entry_route_def same_route_def)
qed

theorem flow_route_sticky_witness:
  "\<exists>st'. dp_flow_route_get (udp_example 1 2 5 7) 42 (-1) (fold route_step [Insert key_example (-1)] (route_step (Insert key_example 3) route_init))
     = Some (\<lparr>fr_worker_idx = 3, fr_tx_slot = 0\<rparr>, st')"
proof -
  let ?e = "\<lparr>re_key = key_example, re_udp_tx_seq = (0, 0), re_worker_idx = 3, re_tx_slot = 0, re_valid = True\<rparr>"
  have "entry_at (route_step (Insert key_example 3) route_init) key_example = Some ?e" by code_simp
  moreover have "dp_route_key_parse (udp_example 1 2 5 7) 42 = Some (Some key_example)"
    by (simp add: dp_route_key_parse_def key_example_parse)
  moreover have "42 \<le> length (udp_example 1 2 5 7)" by (simp add: udp_example_def)
  ultimately show ?thesis
    using flow_route_sticky [of "route_step (Insert key_example 3) route_init" key_example ?e 42 "udp_example 1 2 5 7"
        "-1" "[Insert key_example (-1)]"] by simp
qed

text \<open>A lookup returns a worker below the number of crypto workers and a slot below the number of transmit slots, which the
  callers use as array indices. The lookup never reads outside the packet.\<close>

lemma route_get_range:
  assumes "len \<le> length pkt" and ok: "route_ok st"
  shows "\<exists>r st'. dp_flow_route_get pkt len worker_hint st = Some (r, st') \<and> route_in_range r \<and> route_ok st'"
proof -
  obtain k where "dp_route_key_parse_direction pkt len = Some k" using key_parse_total [OF assms(1)] by blast
  from assms(1) this show ?thesis
  proof (cases rule: route_get_cases [where st = st and hint = worker_hint])
    case (nokey h)
    then show ?thesis using ok hash_route_range by blast
  next
    case (key key d)
    then show ?thesis
      using entry_route_range [OF ok] insert_route_range [OF ok] insert_keeps_ok [OF ok] ok
      by (cases "route_find (g_route_table st (route_set key)) key")
        (auto simp: prod_eq_iff intro: exI [of _ "fst (dp_route_insert key worker_hint st)"])
  qed
qed

text \<open>In every reachable state the keys of a set are distinct.\<close>

lemma reachable_route_range:
  assumes "len \<le> length pkt"
  shows "\<exists>r st'. dp_flow_route_get pkt len worker_hint (fold route_step evs route_init) = Some (r, st')
     \<and> route_in_range r \<and> route_ok st'"
  by (rule route_get_range [OF assms route.reachable_inv])

text \<open>The two directions of a connection share one key and have opposite direction flags,
  unless both ends are the same address and port.\<close>

lemma route_key_direction:
  assumes "dp_parse_flow p n = Some (Some f)" and "dp_parse_flow q m = Some (Some g)"
    and "f5_src_ip g = f5_dst_ip f" and "f5_dst_ip g = f5_src_ip f"
    and "f5_src_port g = f5_dst_port f" and "f5_dst_port g = f5_src_port f" and "f5_proto g = f5_proto f"
    and "f5_proto f = IPPROTO_TCP \<or> f5_proto f = IPPROTO_UDP"
    and "(f5_src_ip f, f5_src_port f) \<noteq> (f5_dst_ip f, f5_dst_port f)"
  shows "\<exists>key d. dp_route_key_parse_direction p n = Some (Some (key, d))
     \<and> dp_route_key_parse_direction q m = Some (Some (key, \<not> d))"
proof -
  let ?a = "bswap32 (f5_src_ip f)" and ?b = "bswap32 (f5_dst_ip f)" and ?pa = "f5_src_port f" and ?pb = "f5_dst_port f"
  have "?a \<noteq> ?b \<or> ?pa \<noteq> ?pb" using assms(9) bswap32_inj [of "f5_src_ip f" "f5_dst_ip f"] by auto
  then have swap: "(?a < ?b \<or> ?a = ?b \<and> ?pa < ?pb) \<longleftrightarrow> \<not> (?b < ?a \<or> ?a = ?b \<and> ?pb < ?pa)"
    by (metis linorder_less_linear order_less_asym)
  have tu: "\<not> (f5_proto f \<noteq> IPPROTO_TCP \<and> f5_proto f \<noteq> IPPROTO_UDP)" using assms(8) by blast
  have p: "dp_route_key_parse_direction p n = Some (Some
      (if ?b < ?a \<or> ?a = ?b \<and> ?pb < ?pa
       then (\<lparr>rk_ip_a = ?b, rk_ip_b = ?a, rk_port_a = ?pb, rk_port_b = ?pa, rk_protocol = f5_proto f\<rparr>, True)
       else (\<lparr>rk_ip_a = ?a, rk_ip_b = ?b, rk_port_a = ?pa, rk_port_b = ?pb, rk_protocol = f5_proto f\<rparr>, False)))"
    using tu by (simp add: dp_route_key_parse_direction_def assms(1) Let_def)
  have q: "dp_route_key_parse_direction q m = Some (Some
      (if ?a < ?b \<or> ?b = ?a \<and> ?pa < ?pb
       then (\<lparr>rk_ip_a = ?a, rk_ip_b = ?b, rk_port_a = ?pa, rk_port_b = ?pb, rk_protocol = f5_proto f\<rparr>, True)
       else (\<lparr>rk_ip_a = ?b, rk_ip_b = ?a, rk_port_a = ?pb, rk_port_b = ?pa, rk_protocol = f5_proto f\<rparr>, False)))"
    using tu by (simp add: dp_route_key_parse_direction_def assms(2-7) Let_def)
  have "?a < ?b \<or> ?b = ?a \<and> ?pa < ?pb \<longleftrightarrow> \<not> (?b < ?a \<or> ?a = ?b \<and> ?pb < ?pa)" using swap by metis
  then show ?thesis unfolding p q by (cases "?b < ?a \<or> ?a = ?b \<and> ?pb < ?pa") (simp, metis)+
qed

text \<open>Two calls for packets of the same flow and direction draw consecutive sequence numbers
  (modulo \<open>2 ^ 32\<close>), on each of the three paths: entry present, entry just created, and the
  thread-local fallback for a full set.\<close>

lemma udp_seq_consecutive:
  assumes "dp_udp_next_tx_seq pkt len st = Some (Some s, st1)" and "len \<le> length pkt"
  shows "\<exists>st2. dp_udp_next_tx_seq pkt len st1 = Some (Some (s + 1), st2)"
proof -
  obtain key d where k: "dp_route_key_parse_direction pkt len = Some (Some (key, d))" "rk_protocol key = IPPROTO_UDP"
    using assms(1) by (auto simp: dp_udp_next_tx_seq_def split: option.splits bind_splits if_splits)
  let ?find = "\<lambda>st. route_find (g_route_table st (route_set key)) key"
  have get: "dp_flow_route_get pkt len hint stx = Some (dp_route_insert key hint stx)" if "?find stx = None" for hint stx
    using route_get_cases [OF assms(2) k(1), of hint stx] that by auto
  have hit: "dp_udp_next_tx_seq pkt len stx = Some (Some (fst (entry_next_seq (route_set key) way d stx)),
      snd (entry_next_seq (route_set key) way d stx))" if "?find stx = Some way" for stx way
    using k that by (simp add: dp_udp_next_tx_seq_def case_prod_unfold)
  show ?thesis
  proof (cases "?find st")
    case (Some way)
    then show ?thesis using assms(1) hit [OF Some] hit [of st1 way] entry_next_seq_again [of "route_set key" way d st] by auto
  next
    case None
    obtain r sti where ins: "dp_route_insert key (tls_crypto_worker_idx st) st = (r, sti)" by fastforce
    show ?thesis
    proof (cases "?find sti")
      case (Some way)
      have "s = fst (entry_next_seq (route_set key) way d sti)" "st1 = snd (entry_next_seq (route_set key) way d sti)"
        using assms(1) k None get [OF None] ins Some by (simp_all add: dp_udp_next_tx_seq_def case_prod_unfold)
      then show ?thesis using hit [of st1 way] Some entry_next_seq_again [of "route_set key" way d sti] by auto
    next
      case miss: None
      have full: "sti = st" and keep: "\<And>st2 hint. g_route_table st2 = g_route_table st \<Longrightarrow> snd (dp_route_insert key hint st2) = st2"
        using insert_then_find [OF ins None] miss by auto
      have s: "s = fst (fallback_next_seq key d st)" "st1 = snd (fallback_next_seq key d st)"
        using assms(1) k None get [OF None] ins miss full by (simp_all add: dp_udp_next_tx_seq_def case_prod_unfold)
      have t1: "g_route_table st1 = g_route_table st" by (simp add: s)
      then show ?thesis
        using k None get [of st1] keep [OF t1] s fallback_next_seq_again [of key d st]
        by (auto simp: dp_udp_next_tx_seq_def case_prod_unfold)
    qed
  qed
qed

text \<open>New flows are spread evenly: starting from empty counters, after any sequence of
  insertions (with or without worker hint) the numbers of connections of any two active transmit
  slots differ by at most one, as long as the 32-bit cursor has not wrapped.\<close>

lemma tx_slots_balanced:
  assumes "g_tx_connection_count st = (\<lambda>_. 0)" and "g_tx_rr st = 0" and "length reqs + 8 \<le> 2 ^ 32"
    and "i < unat (dp_active_tx_slots st)" and "j < unat (dp_active_tx_slots st)"
  shows "let st' = fold (\<lambda>(key, hint) st. snd (dp_route_insert key hint st)) reqs st
         in unat (g_tx_connection_count st' i) \<le> unat (g_tx_connection_count st' j) + 1"
proof -
  have "tx_balanced (unat (dp_active_tx_slots st)) 0 st" using assms(1,2) by (simp add: tx_balanced_def)
  from inserts_balanced [OF this, of reqs] assms(3-5) show ?thesis by (simp add: tx_balanced_def Let_def)
qed

end
