(* ===== verification/Udp_Reorder.thy ===== *)
theory Udp_Reorder
  imports NE_Ring
begin

text \<open>
  The UDP reorder buffer of \<open>src/core/dataplane/udp_reorder.c\<close>. The arrays indexed by
  \<open>worker_idx\<close> are private to a worker, so the model is the state of one worker: 512 flows with a
  window of 256 slots each, and the counters. The callbacks \<open>ops->emit\<close> and \<open>ops->drop\<close> are
  represented by what reaches them, in order, in the field \<open>ro_out\<close>; whether \<open>emit\<close>
  succeeds is the parameter \<open>emit_ok\<close>. The sequence number recorded with each output is the one
  the packet was submitted with. The statistics are shared atomic counters in C and kept here
  with the state.
\<close>

section \<open>Definitions\<close>

definition UDP_REORDER_SETS :: nat where "UDP_REORDER_SETS = 128"
definition UDP_REORDER_WAYS :: nat where "UDP_REORDER_WAYS = 4"
definition UDP_REORDER_FLOW_CAP :: nat where "UDP_REORDER_FLOW_CAP = 512"
definition UDP_REORDER_WINDOW :: nat where "UDP_REORDER_WINDOW = 256"
definition UDP_REORDER_START_BACKTRACK :: u32 where "UDP_REORDER_START_BACKTRACK = 32"
definition UDP_REORDER_HELD_CAP :: u32 where "UDP_REORDER_HELD_CAP = 8192"
definition UDP_REORDER_GC_SLICE :: nat where "UDP_REORDER_GC_SLICE = 16"
definition UDP_REORDER_FLOW_IDLE_NS :: u64 where "UDP_REORDER_FLOW_IDLE_NS = 60000000000"

record dp_udp_reorder_key =
  uk_src_ip :: u32
  uk_dst_ip :: u32
  uk_src_port :: u16
  uk_dst_port :: u16

record dp_udp_reorder_item =
  ui_packet :: ne_packet
  ui_profile_pi :: int
  ui_ingress_wan_dp :: int

record udp_reorder_slot =
  us_item :: dp_udp_reorder_item
  us_seq :: u32
  us_valid :: bool

record udp_reorder_flow =
  uf_key :: dp_udp_reorder_key
  uf_epoch :: u32
  uf_next_seq :: u32
  uf_gap_since_ns :: u64
  uf_last_seen_ns :: u64
  uf_stamp :: u64
  uf_held :: u16
  uf_valid :: bool

datatype reorder_out =
    Emitted u32 dp_udp_reorder_item
  | Dropped u32 dp_udp_reorder_item

record dp_udp_reorder_stats =
  rs_held :: u64
  rs_released :: u64
  rs_late :: u64
  rs_gap :: u64
  rs_overflow :: u64
  rs_evicted :: u64
  rs_high_water :: u64

record reorder =
  ro_flows :: "nat \<Rightarrow> udp_reorder_flow"
  ro_slots :: "nat \<Rightarrow> nat \<Rightarrow> udp_reorder_slot"
  ro_held :: u32
  ro_gc_cursor :: u32
  ro_stamp :: u64
  ro_stats :: dp_udp_reorder_stats
  ro_out :: "reorder_out list"

definition key_zero :: dp_udp_reorder_key where
  "key_zero = \<lparr>uk_src_ip = 0, uk_dst_ip = 0, uk_src_port = 0, uk_dst_port = 0\<rparr>"

definition item_zero :: dp_udp_reorder_item where
  "item_zero = \<lparr>ui_packet = ne_packet_zero, ui_profile_pi = 0, ui_ingress_wan_dp = 0\<rparr>"

definition slot_zero :: udp_reorder_slot where
  "slot_zero = \<lparr>us_item = item_zero, us_seq = 0, us_valid = False\<rparr>"

definition flow_zero :: udp_reorder_flow where
  "flow_zero = \<lparr>uf_key = key_zero, uf_epoch = 0, uf_next_seq = 0, uf_gap_since_ns = 0, uf_last_seen_ns = 0,
     uf_stamp = 0, uf_held = 0, uf_valid = False\<rparr>"

definition seq_delta :: "u32 \<Rightarrow> u32 \<Rightarrow> int" where
  "seq_delta seq base = sint (seq - base)"

definition key_hash :: "dp_udp_reorder_key \<Rightarrow> u32" where
  "key_hash key =
     (let h = uk_src_ip key XOR (uk_dst_ip key * 0x9e3779b9);
          h = h XOR (push_bit 16 (ucast (uk_src_port key)) OR ucast (uk_dst_port key));
          h = h XOR drop_bit 16 h;
          h = h * 0x85ebca6b;
          h = h XOR drop_bit 13 h;
          h = h * 0xc2b2ae35
      in h XOR drop_bit 16 h)"

definition key_equal :: "dp_udp_reorder_key \<Rightarrow> dp_udp_reorder_key \<Rightarrow> bool" where
  "key_equal a b \<longleftrightarrow> uk_src_ip a = uk_src_ip b \<and> uk_dst_ip a = uk_dst_ip b \<and>
     uk_src_port a = uk_src_port b \<and> uk_dst_port a = uk_dst_port b"

definition upd_flow :: "nat \<Rightarrow> (udp_reorder_flow \<Rightarrow> udp_reorder_flow) \<Rightarrow> reorder \<Rightarrow> reorder" where
  "upd_flow f g st = st\<lparr>ro_flows := (ro_flows st)(f := g (ro_flows st f))\<rparr>"

definition upd_slot :: "nat \<Rightarrow> nat \<Rightarrow> udp_reorder_slot \<Rightarrow> reorder \<Rightarrow> reorder" where
  "upd_slot f i s st = st\<lparr>ro_slots := (ro_slots st)(f := (ro_slots st f)(i := s))\<rparr>"

definition upd_stats :: "(dp_udp_reorder_stats \<Rightarrow> dp_udp_reorder_stats) \<Rightarrow> reorder \<Rightarrow> reorder" where
  "upd_stats g st = st\<lparr>ro_stats := g (ro_stats st)\<rparr>"

definition item_drop :: "u32 \<Rightarrow> dp_udp_reorder_item \<Rightarrow> reorder \<Rightarrow> reorder" where
  "item_drop seq item st = st\<lparr>ro_out := ro_out st @ [Dropped seq item]\<rparr>"

definition item_emit :: "(dp_udp_reorder_item \<Rightarrow> bool) \<Rightarrow> u32 \<Rightarrow> dp_udp_reorder_item \<Rightarrow> bool \<Rightarrow> reorder \<Rightarrow> reorder" where
  "item_emit emit_ok seq item was_held st =
     (let st = (if emit_ok item then st\<lparr>ro_out := ro_out st @ [Emitted seq item]\<rparr> else item_drop seq item st)
      in if was_held then upd_stats (\<lambda>s. s\<lparr>rs_released := rs_released s + 1\<rparr>) st else st)"

definition update_high_water :: "u32 \<Rightarrow> reorder \<Rightarrow> reorder" where
  "update_high_water held = upd_stats (\<lambda>s. if ucast held > rs_high_water s then s\<lparr>rs_high_water := ucast held\<rparr> else s)"

definition dec_held :: "reorder \<Rightarrow> reorder" where
  "dec_held st = (if ro_held st > 0 then st\<lparr>ro_held := ro_held st - 1\<rparr> else st)"

definition flow_drop_slots :: "nat \<Rightarrow> reorder \<Rightarrow> reorder" where
  "flow_drop_slots f st =
     upd_flow f (\<lambda>fl. fl\<lparr>uf_held := 0, uf_gap_since_ns := 0\<rparr>)
       (fold (\<lambda>i st.
           let slot = ro_slots st f i in
           if \<not> us_valid slot then st
           else dec_held (upd_slot f i slot_zero (item_drop (us_seq slot) (us_item slot) st)))
         [0..<UDP_REORDER_WINDOW] st)"

definition flow_reset :: "nat \<Rightarrow> dp_udp_reorder_key \<Rightarrow> u32 \<Rightarrow> u32 \<Rightarrow> u64 \<Rightarrow> reorder \<Rightarrow> reorder" where
  "flow_reset f key epoch first_seq now_ns st =
     (let backtrack = (if first_seq < UDP_REORDER_START_BACKTRACK then first_seq else UDP_REORDER_START_BACKTRACK);
          st = (if uf_valid (ro_flows st f) then flow_drop_slots f st else st);
          stamp = ro_stamp st + 1
      in upd_flow f (\<lambda>_. flow_zero\<lparr>uf_key := key, uf_epoch := epoch, uf_next_seq := first_seq - backtrack,
            uf_gap_since_ns := (if backtrack \<noteq> 0 then now_ns else 0), uf_last_seen_ns := now_ns,
            uf_stamp := stamp, uf_valid := True\<rparr>) (st\<lparr>ro_stamp := stamp\<rparr>))"

text \<open>The scan of the four ways: \<^const>\<open>Inl\<close> the flow with the key, \<^const>\<open>Inr\<close> the victim.\<close>

fun lookup_scan :: "(nat \<Rightarrow> udp_reorder_flow) \<Rightarrow> dp_udp_reorder_key \<Rightarrow> nat list \<Rightarrow> nat \<Rightarrow> nat + nat" where
  "lookup_scan flows key [] victim = Inr victim"
| "lookup_scan flows key (idx # idxs) victim =
     (if uf_valid (flows idx) \<and> key_equal (uf_key (flows idx)) key then Inl idx
      else if \<not> uf_valid (flows idx) then Inr idx
      else if uf_stamp (flows idx) < uf_stamp (flows victim) then lookup_scan flows key idxs idx
      else lookup_scan flows key idxs victim)"

definition flow_lookup :: "dp_udp_reorder_key \<Rightarrow> u32 \<Rightarrow> u32 \<Rightarrow> u64 \<Rightarrow> reorder \<Rightarrow> nat \<times> reorder" where
  "flow_lookup key epoch first_seq now_ns st =
     (let base = unat (key_hash key AND (of_nat UDP_REORDER_SETS - 1)) * UDP_REORDER_WAYS
      in case lookup_scan (ro_flows st) key [base..<base + UDP_REORDER_WAYS] base of
           Inl idx \<Rightarrow>
             let st = (if uf_epoch (ro_flows st idx) \<noteq> epoch then flow_reset idx key epoch first_seq now_ns st else st);
                 stamp = ro_stamp st + 1
             in (idx, upd_flow idx (\<lambda>fl. fl\<lparr>uf_last_seen_ns := now_ns, uf_stamp := stamp\<rparr>) (st\<lparr>ro_stamp := stamp\<rparr>))
         | Inr victim \<Rightarrow>
             let st = (if uf_valid (ro_flows st victim)
                       then upd_stats (\<lambda>s. s\<lparr>rs_evicted := rs_evicted s + 1\<rparr>) st else st)
             in (victim, flow_reset victim key epoch first_seq now_ns st))"

definition valid_slots :: "reorder \<Rightarrow> nat \<Rightarrow> nat set" where
  "valid_slots st f = {i. i < UDP_REORDER_WINDOW \<and> us_valid (ro_slots st f i)}"

definition win_idx :: "u32 \<Rightarrow> nat" where
  "win_idx seq = unat (seq mod of_nat UDP_REORDER_WINDOW)"

text \<open>One round of the loop of \<open>flow_flush_contiguous\<close>: release the slot of \<open>next_seq\<close>.\<close>

definition flush_one :: "(dp_udp_reorder_item \<Rightarrow> bool) \<Rightarrow> nat \<Rightarrow> reorder \<Rightarrow> reorder" where
  "flush_one emit_ok f st =
     (let next = uf_next_seq (ro_flows st f); slot = ro_slots st f (win_idx next)
      in item_emit emit_ok next (us_item slot) True
           (upd_flow f (\<lambda>fl. fl\<lparr>uf_held := (if uf_held fl > 0 then uf_held fl - 1 else uf_held fl), uf_next_seq := next + 1\<rparr>)
             (dec_held (upd_slot f (win_idx next) (slot\<lparr>us_valid := False, us_item := item_zero\<rparr>) st))))"

definition flushable :: "nat \<Rightarrow> reorder \<Rightarrow> bool" where
  "flushable f st \<longleftrightarrow>
     (let next = uf_next_seq (ro_flows st f); slot = ro_slots st f (win_idx next)
      in us_valid slot \<and> us_seq slot = next)"

lemma finite_valid_slots [simp]: "finite (valid_slots st f)"
  by (simp add: valid_slots_def)

lemma win_idx_less [simp]: "win_idx seq < UDP_REORDER_WINDOW"
  by (simp add: win_idx_def UDP_REORDER_WINDOW_def unat_mod_distrib)

lemma emit_simps [simp]:
  "ro_slots (item_emit ok q it w st) = ro_slots st" "ro_flows (item_emit ok q it w st) = ro_flows st"
  "ro_held (item_emit ok q it w st) = ro_held st" "ro_stamp (item_emit ok q it w st) = ro_stamp st"
  "ro_gc_cursor (item_emit ok q it w st) = ro_gc_cursor st"
  "ro_out (item_emit ok q it w st) = ro_out st @ [if ok it then Emitted q it else Dropped q it]"
  by (simp_all add: item_emit_def Let_def item_drop_def upd_stats_def)

lemma reorder_upd_simps [simp]:
  "ro_slots (upd_flow f g st) = ro_slots st" "ro_held (upd_flow f g st) = ro_held st"
  "ro_out (upd_flow f g st) = ro_out st" "ro_stamp (upd_flow f g st) = ro_stamp st"
  "ro_gc_cursor (upd_flow f g st) = ro_gc_cursor st"
  "ro_flows (upd_flow f g st) = (ro_flows st)(f := g (ro_flows st f))"
  "ro_flows (upd_slot f i s st) = ro_flows st" "ro_held (upd_slot f i s st) = ro_held st"
  "ro_out (upd_slot f i s st) = ro_out st" "ro_stamp (upd_slot f i s st) = ro_stamp st"
  "ro_gc_cursor (upd_slot f i s st) = ro_gc_cursor st"
  "ro_slots (upd_slot f i s st) = (ro_slots st)(f := (ro_slots st f)(i := s))"
  "ro_slots (upd_stats h st) = ro_slots st" "ro_flows (upd_stats h st) = ro_flows st"
  "ro_held (upd_stats h st) = ro_held st" "ro_out (upd_stats h st) = ro_out st"
  "ro_stamp (upd_stats h st) = ro_stamp st" "ro_gc_cursor (upd_stats h st) = ro_gc_cursor st"
  "ro_slots (dec_held st) = ro_slots st" "ro_flows (dec_held st) = ro_flows st"
  "ro_out (dec_held st) = ro_out st" "ro_stamp (dec_held st) = ro_stamp st"
  "ro_gc_cursor (dec_held st) = ro_gc_cursor st"
  "ro_held (dec_held st) = (if ro_held st > 0 then ro_held st - 1 else ro_held st)"
  "ro_slots (item_drop q it st) = ro_slots st" "ro_flows (item_drop q it st) = ro_flows st"
  "ro_held (item_drop q it st) = ro_held st" "ro_stamp (item_drop q it st) = ro_stamp st"
  "ro_gc_cursor (item_drop q it st) = ro_gc_cursor st" "ro_out (item_drop q it st) = ro_out st @ [Dropped q it]"
  by (simp_all add: upd_flow_def upd_slot_def upd_stats_def dec_held_def item_drop_def)

lemma flush_one_slots:
  "ro_slots (flush_one ok f st) = (ro_slots st)(f := (ro_slots st f)(win_idx (uf_next_seq (ro_flows st f)) :=
     (ro_slots st f (win_idx (uf_next_seq (ro_flows st f))))\<lparr>us_valid := False, us_item := item_zero\<rparr>))"
  by (simp add: flush_one_def Let_def)

lemma valid_slots_flush_one:
  "valid_slots (flush_one ok f st) f = valid_slots st f - {win_idx (uf_next_seq (ro_flows st f))}"
  by (auto simp: valid_slots_def flush_one_slots)

function flush_loop :: "(dp_udp_reorder_item \<Rightarrow> bool) \<Rightarrow> nat \<Rightarrow> reorder \<Rightarrow> reorder" where
  "flush_loop emit_ok f st = (if flushable f st then flush_loop emit_ok f (flush_one emit_ok f st) else st)"
  by pat_completeness auto
termination
proof (relation "measure (\<lambda>(emit_ok, f, st). card (valid_slots st f))")
  fix emit_ok f and st :: reorder
  assume "flushable f st"
  then have "win_idx (uf_next_seq (ro_flows st f)) \<in> valid_slots st f"
    by (auto simp: flushable_def valid_slots_def Let_def)
  then have "card (valid_slots st f - {win_idx (uf_next_seq (ro_flows st f))}) < card (valid_slots st f)"
    by (rule card_Diff1_less [OF finite_valid_slots])
  then show "((emit_ok, f, flush_one emit_ok f st), emit_ok, f, st) \<in> measure (\<lambda>(emit_ok, f, st). card (valid_slots st f))"
    by (simp only: in_measure case_prod_conv valid_slots_flush_one)
qed simp

declare flush_loop.simps [simp del]

definition flow_flush_contiguous :: "(dp_udp_reorder_item \<Rightarrow> bool) \<Rightarrow> nat \<Rightarrow> reorder \<Rightarrow> reorder" where
  "flow_flush_contiguous emit_ok f st =
     upd_flow f (\<lambda>fl. fl\<lparr>uf_gap_since_ns := (if uf_held fl \<noteq> 0 then uf_gap_since_ns fl else 0)\<rparr>) (flush_loop emit_ok f st)"

text \<open>Distance and number of the nearest held packet; \<^const>\<open>None\<close> for the result \<open>-1\<close>.\<close>

definition INT32_MAX :: int where "INT32_MAX = 0x7fffffff"

definition flow_smallest_ahead :: "nat \<Rightarrow> reorder \<Rightarrow> (int \<times> u32) option" where
  "flow_smallest_ahead f st =
     (case fold (\<lambda>i (best_delta, best_seq).
          let slot = ro_slots st f i; delta = seq_delta (us_seq slot) (uf_next_seq (ro_flows st f)) in
          if \<not> us_valid slot then (best_delta, best_seq)
          else if delta \<ge> 0 \<and> delta < best_delta then (delta, us_seq slot)
          else (best_delta, best_seq)) [0..<UDP_REORDER_WINDOW] (INT32_MAX, 0) of
        (best_delta, best_seq) \<Rightarrow> if best_delta = INT32_MAX then None else Some (best_delta, best_seq))"

definition flow_skip_gap :: "(dp_udp_reorder_item \<Rightarrow> bool) \<Rightarrow> nat \<Rightarrow> reorder \<Rightarrow> reorder" where
  "flow_skip_gap emit_ok f st =
     (case flow_smallest_ahead f st of
        None \<Rightarrow> upd_flow f (\<lambda>fl. fl\<lparr>uf_gap_since_ns := 0\<rparr>) st
      | Some (delta, seq) \<Rightarrow>
          let st = (if delta > 0 then
                      upd_stats (\<lambda>s. s\<lparr>rs_gap := rs_gap s + of_int delta\<rparr>) (upd_flow f (\<lambda>fl. fl\<lparr>uf_next_seq := seq\<rparr>) st)
                    else st);
              st = flow_flush_contiguous emit_ok f st
          in if uf_held (ro_flows st f) \<noteq> 0
             then upd_flow f (\<lambda>fl. fl\<lparr>uf_gap_since_ns := uf_last_seen_ns fl\<rparr>) st else st)"

text \<open>The loop of \<open>flow_make_window_room\<close>; \<^const>\<open>None\<close> when it does not end.\<close>

partial_function (option) window_loop :: "(dp_udp_reorder_item \<Rightarrow> bool) \<Rightarrow> nat \<Rightarrow> u32 \<Rightarrow> reorder \<Rightarrow> reorder option" where
  "window_loop emit_ok f seq st =
     (if uf_held (ro_flows st f) \<noteq> 0 \<and> seq_delta seq (uf_next_seq (ro_flows st f)) \<ge> int UDP_REORDER_WINDOW
      then window_loop emit_ok f seq (flow_skip_gap emit_ok f st)
      else Some st)"

declare window_loop.simps [code]

definition flow_make_window_room :: "(dp_udp_reorder_item \<Rightarrow> bool) \<Rightarrow> nat \<Rightarrow> u32 \<Rightarrow> reorder \<Rightarrow> reorder option" where
  "flow_make_window_room emit_ok f seq st =
     map_option (\<lambda>st.
       if seq_delta seq (uf_next_seq (ro_flows st f)) \<ge> int UDP_REORDER_WINDOW then
         let target = seq - (of_nat UDP_REORDER_WINDOW - 1);
             skipped = (of_int (seq_delta target (uf_next_seq (ro_flows st f))) :: u32)
         in upd_stats (\<lambda>s. s\<lparr>rs_gap := rs_gap s + ucast skipped\<rparr>) (upd_flow f (\<lambda>fl. fl\<lparr>uf_next_seq := target\<rparr>) st)
       else st) (window_loop emit_ok f seq st)"

text \<open>The packet is the next one: emit it and what it releases.\<close>

definition submit_next :: "(dp_udp_reorder_item \<Rightarrow> bool) \<Rightarrow> nat \<Rightarrow> u32 \<Rightarrow> dp_udp_reorder_item \<Rightarrow> reorder \<Rightarrow> reorder" where
  "submit_next emit_ok f seq item st =
     flow_flush_contiguous emit_ok f
       (item_emit emit_ok seq item False (upd_flow f (\<lambda>fl. fl\<lparr>uf_next_seq := uf_next_seq fl + 1\<rparr>) st))"

definition submit_late :: "u32 \<Rightarrow> dp_udp_reorder_item \<Rightarrow> reorder \<Rightarrow> reorder" where
  "submit_late seq item st = item_drop seq item (upd_stats (\<lambda>s. s\<lparr>rs_late := rs_late s + 1\<rparr>) st)"

text \<open>The last part of \<open>dp_udp_reorder_submit\<close>: store the packet in its slot.\<close>

definition submit_hold :: "nat \<Rightarrow> u32 \<Rightarrow> dp_udp_reorder_item \<Rightarrow> u64 \<Rightarrow> reorder \<Rightarrow> reorder" where
  "submit_hold f seq item now_ns st =
     (let slot = ro_slots st f (win_idx seq) in
      if us_valid slot \<and> us_seq slot = seq then submit_late seq item st
      else
        let st = (if us_valid slot
                  then upd_stats (\<lambda>s. s\<lparr>rs_overflow := rs_overflow s + 1\<rparr>) (item_drop (us_seq slot) (us_item slot) st)
                  else (upd_flow f (\<lambda>fl. fl\<lparr>uf_held := uf_held fl + 1\<rparr>) st)\<lparr>ro_held := ro_held st + 1\<rparr>);
            st = upd_slot f (win_idx seq) \<lparr>us_item = item, us_seq = seq, us_valid = True\<rparr> st;
            st = upd_flow f (\<lambda>fl. fl\<lparr>uf_gap_since_ns := (if uf_gap_since_ns fl = 0 then now_ns else uf_gap_since_ns fl)\<rparr>) st;
            st = upd_stats (\<lambda>s. s\<lparr>rs_held := rs_held s + 1\<rparr>) st
        in update_high_water (ro_held st) st)"

text \<open>The part after \<open>flow_make_window_room\<close>.\<close>

definition submit_ahead :: "(dp_udp_reorder_item \<Rightarrow> bool) \<Rightarrow> nat \<Rightarrow> u32 \<Rightarrow> dp_udp_reorder_item \<Rightarrow> u64 \<Rightarrow> reorder \<Rightarrow> reorder" where
  "submit_ahead emit_ok f seq item now_ns st =
     (let delta = seq_delta seq (uf_next_seq (ro_flows st f)) in
      if delta < 0 then submit_late seq item st
      else if delta = 0 then submit_next emit_ok f seq item st
      else if ro_held st \<ge> UDP_REORDER_HELD_CAP then
        let st = flow_skip_gap emit_ok f st in
        if ro_held st \<ge> UDP_REORDER_HELD_CAP
        then item_drop seq item (upd_stats (\<lambda>s. s\<lparr>rs_overflow := rs_overflow s + 1\<rparr>) st)
        else submit_hold f seq item now_ns st
      else submit_hold f seq item now_ns st)"

definition dp_udp_reorder_submit ::
    "(dp_udp_reorder_item \<Rightarrow> bool) \<Rightarrow> bool \<Rightarrow> u64 \<Rightarrow> dp_udp_reorder_key \<Rightarrow> u32 \<Rightarrow> u32 \<Rightarrow> dp_udp_reorder_item
     \<Rightarrow> u64 \<Rightarrow> reorder \<Rightarrow> reorder option" where
  "dp_udp_reorder_submit emit_ok enabled hold_ns key epoch seq item now_ns st =
     (if \<not> enabled then Some (item_emit emit_ok seq item False st)
      else
        case flow_lookup key epoch seq now_ns st of (f, st) \<Rightarrow>
        let fl = ro_flows st f;
            st = (if uf_held fl \<noteq> 0 \<and> uf_gap_since_ns fl \<noteq> 0 \<and> now_ns - uf_gap_since_ns fl \<ge> hold_ns
                  then flow_skip_gap emit_ok f st else st);
            delta = seq_delta seq (uf_next_seq (ro_flows st f))
        in if delta < 0 then Some (submit_late seq item st)
           else if delta = 0 then Some (submit_next emit_ok f seq item st)
           else map_option (submit_ahead emit_ok f seq item now_ns) (flow_make_window_room emit_ok f seq st))"

definition gc_flow :: "(dp_udp_reorder_item \<Rightarrow> bool) \<Rightarrow> u64 \<Rightarrow> u64 \<Rightarrow> nat \<Rightarrow> reorder \<Rightarrow> reorder" where
  "gc_flow emit_ok hold_ns now_ns f st =
     (let fl = ro_flows st f in
      if \<not> uf_valid fl then st
      else
        let st = (if uf_held fl \<noteq> 0 \<and> uf_gap_since_ns fl \<noteq> 0 \<and> now_ns - uf_gap_since_ns fl \<ge> hold_ns
                  then flow_skip_gap emit_ok f st else st);
            fl = ro_flows st f
        in if uf_held fl = 0 \<and> now_ns - uf_last_seen_ns fl > UDP_REORDER_FLOW_IDLE_NS
           then upd_flow f (\<lambda>_. flow_zero) st else st)"

definition dp_udp_reorder_gc :: "(dp_udp_reorder_item \<Rightarrow> bool) \<Rightarrow> u64 \<Rightarrow> u64 \<Rightarrow> reorder \<Rightarrow> reorder" where
  "dp_udp_reorder_gc emit_ok hold_ns now_ns st =
     (let cursor = ro_gc_cursor st;
          st = fold (\<lambda>n. gc_flow emit_ok hold_ns now_ns (unat ((cursor + of_nat n) mod of_nat UDP_REORDER_FLOW_CAP)))
                 [0..<UDP_REORDER_GC_SLICE] st
      in st\<lparr>ro_gc_cursor := (cursor + of_nat UDP_REORDER_GC_SLICE) mod of_nat UDP_REORDER_FLOW_CAP\<rparr>)"

definition dp_udp_reorder_reset_worker :: "reorder \<Rightarrow> reorder" where
  "dp_udp_reorder_reset_worker st =
     (fold (\<lambda>f st. upd_flow f (\<lambda>_. flow_zero) (if uf_valid (ro_flows st f) then flow_drop_slots f st else st))
        [0..<UDP_REORDER_FLOW_CAP] st)\<lparr>ro_held := 0, ro_gc_cursor := 0\<rparr>"

definition dp_udp_reorder_get_stats :: "reorder \<Rightarrow> dp_udp_reorder_stats" where
  "dp_udp_reorder_get_stats st = ro_stats st"

section \<open>Held packets and outputs\<close>

fun out_pair :: "reorder_out \<Rightarrow> u32 \<times> dp_udp_reorder_item" where
  "out_pair (Emitted q it) = (q, it)"
| "out_pair (Dropped q it) = (q, it)"

definition slot_pair :: "udp_reorder_slot \<Rightarrow> u32 \<times> dp_udp_reorder_item" where
  "slot_pair s = (us_seq s, us_item s)"

definition out_items :: "reorder \<Rightarrow> (u32 \<times> dp_udp_reorder_item) multiset" where
  "out_items st = mset (map out_pair (ro_out st))"

definition flow_items :: "reorder \<Rightarrow> nat \<Rightarrow> (u32 \<times> dp_udp_reorder_item) multiset" where
  "flow_items st f = image_mset (\<lambda>i. slot_pair (ro_slots st f i)) (mset_set (valid_slots st f))"

definition held_items :: "reorder \<Rightarrow> (u32 \<times> dp_udp_reorder_item) multiset" where
  "held_items st = (\<Sum>f<UDP_REORDER_FLOW_CAP. flow_items st f)"

lemma size_flow_items [simp]: "size (flow_items st f) = card (valid_slots st f)"
  by (simp add: flow_items_def)

lemma out_items_simps [simp]:
  "out_items (upd_flow f g st) = out_items st" "out_items (upd_slot f i sl st) = out_items st"
  "out_items (upd_stats h st) = out_items st" "out_items (dec_held st) = out_items st"
  "out_items (item_drop q it st) = add_mset (q, it) (out_items st)"
  "out_items (item_emit ok q it w st) = add_mset (q, it) (out_items st)"
  by (simp_all add: out_items_def)

lemma valid_slots_cong: "ro_slots st f = ro_slots st' f \<Longrightarrow> valid_slots st f = valid_slots st' f"
  by (simp add: valid_slots_def)

lemma flow_items_cong: "ro_slots st f = ro_slots st' f \<Longrightarrow> flow_items st f = flow_items st' f"
  using valid_slots_cong [of st f st'] by (simp add: flow_items_def)

lemma valid_slots_simps [simp]:
  "valid_slots (upd_flow g h st) f = valid_slots st f" "valid_slots (upd_stats k st) f = valid_slots st f"
  "valid_slots (dec_held st) f = valid_slots st f" "valid_slots (item_drop q it st) f = valid_slots st f"
  "valid_slots (item_emit ok q it w st) f = valid_slots st f" "valid_slots (st\<lparr>ro_held := n\<rparr>) f = valid_slots st f"
  "valid_slots (st\<lparr>ro_stamp := t\<rparr>) f = valid_slots st f" "valid_slots (st\<lparr>ro_gc_cursor := t32\<rparr>) f = valid_slots st f"
  by (simp_all add: valid_slots_def)

lemma flow_items_simps [simp]:
  "flow_items (upd_flow g h st) f = flow_items st f" "flow_items (upd_stats k st) f = flow_items st f"
  "flow_items (dec_held st) f = flow_items st f" "flow_items (item_drop q it st) f = flow_items st f"
  "flow_items (item_emit ok q it w st) f = flow_items st f" "flow_items (st\<lparr>ro_held := n\<rparr>) f = flow_items st f"
  "flow_items (st\<lparr>ro_stamp := t\<rparr>) f = flow_items st f" "flow_items (st\<lparr>ro_gc_cursor := t32\<rparr>) f = flow_items st f"
  by (simp_all add: flow_items_def)

lemma flow_items_clear:
  assumes "i \<in> valid_slots st f" "ro_slots st' f = (ro_slots st f)(i := sl)" "\<not> us_valid sl"
  shows "valid_slots st' f = valid_slots st f - {i}"
    and "flow_items st f = add_mset (slot_pair (ro_slots st f i)) (flow_items st' f)"
proof -
  show v: "valid_slots st' f = valid_slots st f - {i}" using assms by (auto simp: valid_slots_def)
  have "flow_items st' f = image_mset (\<lambda>j. slot_pair (ro_slots st f j)) (mset_set (valid_slots st f - {i}))"
    unfolding flow_items_def v using assms(2) by (intro image_mset_cong) auto
  then show "flow_items st f = add_mset (slot_pair (ro_slots st f i)) (flow_items st' f)"
    unfolding flow_items_def [of st] by (subst mset_set.remove [OF finite_valid_slots assms(1)]) simp
qed

lemma flow_items_fill:
  assumes "i < UDP_REORDER_WINDOW" "i \<notin> valid_slots st f" "ro_slots st' f = (ro_slots st f)(i := sl)" "us_valid sl"
  shows "valid_slots st' f = insert i (valid_slots st f)"
    and "flow_items st' f = add_mset (slot_pair sl) (flow_items st f)"
proof -
  show v: "valid_slots st' f = insert i (valid_slots st f)" using assms by (auto simp: valid_slots_def)
  have "image_mset (\<lambda>j. slot_pair (ro_slots st' f j)) (mset_set (valid_slots st f)) = flow_items st f"
    unfolding flow_items_def using assms(2,3) by (intro image_mset_cong) auto
  then show "flow_items st' f = add_mset (slot_pair sl) (flow_items st f)"
    unfolding flow_items_def [of st'] v using assms(2,3) by simp
qed

section \<open>What an operation on one flow does\<close>

text \<open>\<open>acct f st st' extra\<close>: outside flow \<open>f\<close> flows and slots are untouched; the packets held by
  the flow and the outputs together gain exactly \<open>extra\<close>; the worker's count follows the flow's.\<close>

definition acct :: "nat \<Rightarrow> reorder \<Rightarrow> reorder \<Rightarrow> (u32 \<times> dp_udp_reorder_item) multiset \<Rightarrow> bool" where
  "acct f st st' extra \<longleftrightarrow>
     (\<forall>g. g \<noteq> f \<longrightarrow> ro_flows st' g = ro_flows st g \<and> ro_slots st' g = ro_slots st g)
     \<and> flow_items st' f + out_items st' = flow_items st f + out_items st + extra
     \<and> unat (ro_held st') + card (valid_slots st f) = unat (ro_held st) + card (valid_slots st' f)"

lemma acct_refl [simp]: "acct f st st {#}"
  by (simp add: acct_def)

lemma acct_trans: "acct f st st1 x \<Longrightarrow> acct f st1 st2 y \<Longrightarrow> acct f st st2 (x + y)"
  by (auto simp: acct_def ac_simps)

lemma acct_flow_only [simp]: "acct f st (upd_flow f g st) {#}" "acct f st (upd_stats h st) {#}"
  by (simp_all add: acct_def)

text \<open>\<open>wf f lo W st\<close>: every held packet of the flow is in the slot of its number, at a distance
  from \<open>lo\<close> to below \<open>W\<close> of the next expected number, and the counters are exact.\<close>

definition wf :: "nat \<Rightarrow> nat \<Rightarrow> nat \<Rightarrow> reorder \<Rightarrow> bool" where
  "wf f lo W st \<longleftrightarrow>
     (\<forall>i \<in> valid_slots st f. win_idx (us_seq (ro_slots st f i)) = i
        \<and> lo \<le> unat (us_seq (ro_slots st f i) - uf_next_seq (ro_flows st f))
        \<and> unat (us_seq (ro_slots st f i) - uf_next_seq (ro_flows st f)) < W)
     \<and> unat (uf_held (ro_flows st f)) = card (valid_slots st f)
     \<and> card (valid_slots st f) \<le> unat (ro_held st)"

lemma wf_mono: "wf f lo W st \<Longrightarrow> lo' \<le> lo \<Longrightarrow> W \<le> W' \<Longrightarrow> wf f lo' W' st"
  by (fastforce simp: wf_def)

lemma unat_dec: "x \<noteq> 0 \<Longrightarrow> unat (x - 1) = unat (x :: 'a::len word) - 1"
  by (rule unat_minus_one)

lemma dist_next: "(s :: u32) \<noteq> n \<Longrightarrow> unat (s - (n + 1)) = unat (s - n) - 1"
  using unat_dec [of "s - n"] by (simp add: algebra_simps)

lemma flush_one_spec:
  fixes ok :: "dp_udp_reorder_item \<Rightarrow> bool"
  assumes w: "wf f 0 W st" and fl: "flushable f st"
  defines "nx \<equiv> uf_next_seq (ro_flows st f)"
  defines "st' \<equiv> flush_one ok f st"
  shows "wf f 0 (W - 1) st'" and "acct f st st' {#}" and "uf_next_seq (ro_flows st' f) = nx + 1"
    and "card (valid_slots st' f) + 1 = card (valid_slots st f)" and "0 < W"
    and "\<exists>it. ro_out st' = ro_out st @ [if ok it then Emitted nx it else Dropped nx it]"
proof -
  let ?i = "win_idx nx"
  have i: "?i \<in> valid_slots st f" and seq: "us_seq (ro_slots st f ?i) = nx"
    using fl by (auto simp: flushable_def valid_slots_def Let_def nx_def)
  then have held: "0 < card (valid_slots st f)" by (auto simp: card_gt_0_iff)
  have sl: "ro_slots st' f = (ro_slots st f)(?i := (ro_slots st f ?i)\<lparr>us_valid := False, us_item := item_zero\<rparr>)"
    by (simp add: st'_def flush_one_slots nx_def)
  note cl = flow_items_clear [OF i sl]
  have v: "valid_slots st' f = valid_slots st f - {?i}" using cl(1) by simp
  show c: "card (valid_slots st' f) + 1 = card (valid_slots st f)" using i held by (simp add: v)
  show "uf_next_seq (ro_flows st' f) = nx + 1" by (simp add: st'_def flush_one_def Let_def nx_def)
  have h: "ro_held st \<noteq> 0" "uf_held (ro_flows st f) \<noteq> 0" using w held by (auto simp: wf_def)
  have ro: "unat (ro_held st') = unat (ro_held st) - 1"
    using h by (simp add: st'_def flush_one_def Let_def unat_dec word_gt_0)
  have rf: "unat (uf_held (ro_flows st' f)) = unat (uf_held (ro_flows st f)) - 1"
    using h by (simp add: st'_def flush_one_def Let_def unat_dec word_gt_0)
  show "0 < W" using w i seq by (force simp: wf_def)
  have "win_idx (us_seq (ro_slots st' f j)) = j
      \<and> unat (us_seq (ro_slots st' f j) - uf_next_seq (ro_flows st' f)) < W - 1" if "j \<in> valid_slots st' f" for j
  proof -
    have j: "j \<in> valid_slots st f" "j \<noteq> ?i" using that v by auto
    then have wj: "win_idx (us_seq (ro_slots st f j)) = j" "unat (us_seq (ro_slots st f j) - nx) < W"
      using w by (auto simp: wf_def nx_def)
    then have "us_seq (ro_slots st f j) \<noteq> nx" using j(2) by auto
    moreover then have "unat (us_seq (ro_slots st f j) - nx) \<noteq> 0" by (simp add: unat_eq_zero)
    ultimately show ?thesis
      using wj j dist_next [of "us_seq (ro_slots st f j)" nx]
      by (simp add: sl) (simp add: st'_def flush_one_def Let_def nx_def)
  qed
  then show "wf f 0 (W - 1) st'" using w ro rf c held by (auto simp: wf_def)
  have "out_items st' = add_mset (slot_pair (ro_slots st f ?i)) (out_items st)"
    by (simp add: st'_def flush_one_def Let_def nx_def [symmetric] slot_pair_def seq)
  then show "acct f st st' {#}"
    using cl(2) ro c held h w by (auto simp: acct_def st'_def flush_one_def Let_def wf_def)
  show "\<exists>it. ro_out st' = ro_out st @ [if ok it then Emitted nx it else Dropped nx it]"
    by (auto simp: st'_def flush_one_def Let_def nx_def)
qed

text \<open>\<open>adv f B st st'\<close>: the outputs are extended; the next expected number of the flow moves
  forward by at most \<open>B\<close>, and the numbers emitted lie between the old and the new next
  number, in increasing order.\<close>

fun emitted :: "reorder_out list \<Rightarrow> u32 list" where
  "emitted [] = []"
| "emitted (Emitted q it # xs) = q # emitted xs"
| "emitted (Dropped q it # xs) = emitted xs"

lemma emitted_append [simp]: "emitted (xs @ ys) = emitted xs @ emitted ys"
  by (induction xs rule: emitted.induct) auto

definition nxt :: "nat \<Rightarrow> reorder \<Rightarrow> u32" where
  "nxt f st = uf_next_seq (ro_flows st f)"

definition in_order :: "u32 \<Rightarrow> u32 \<Rightarrow> u32 list \<Rightarrow> bool" where
  "in_order n0 n1 qs \<longleftrightarrow> sorted_wrt (<) (map (\<lambda>q. unat (q - n0)) qs) \<and> (\<forall>q \<in> set qs. unat (q - n0) < unat (n1 - n0))"

definition adv :: "nat \<Rightarrow> nat \<Rightarrow> reorder \<Rightarrow> reorder \<Rightarrow> bool" where
  "adv f B st st' \<longleftrightarrow> (\<exists>outs. ro_out st' = ro_out st @ outs \<and> unat (nxt f st' - nxt f st) \<le> B
     \<and> in_order (nxt f st) (nxt f st') (emitted outs))"

lemma unat_dist_add:
  fixes a b c :: u32
  assumes "unat (b - a) + unat (c - b) < 2 ^ 32"
  shows "unat (c - a) = unat (b - a) + unat (c - b)"
proof -
  have "c - a = (b - a) + (c - b)" by simp
  then show ?thesis using assms by (simp only: unat_word_ariths) simp
qed

lemma adv_trans:
  assumes "adv f B1 st st1" "adv f B2 st1 st2" "B1 + B2 < 2 ^ 32"
  shows "adv f (B1 + B2) st st2"
proof -
  obtain o1 o2 where o1: "ro_out st1 = ro_out st @ o1" "unat (nxt f st1 - nxt f st) \<le> B1"
      "in_order (nxt f st) (nxt f st1) (emitted o1)"
    and o2: "ro_out st2 = ro_out st1 @ o2" "unat (nxt f st2 - nxt f st1) \<le> B2"
      "in_order (nxt f st1) (nxt f st2) (emitted o2)"
    using assms by (auto simp: adv_def)
  have d: "unat (nxt f st2 - nxt f st) = unat (nxt f st1 - nxt f st) + unat (nxt f st2 - nxt f st1)"
    using o1 o2 assms(3) by (intro unat_dist_add) linarith
  have q2: "unat (q - nxt f st) = unat (nxt f st1 - nxt f st) + unat (q - nxt f st1)" if "q \<in> set (emitted o2)" for q
    using o1 o2 assms(3) that by (intro unat_dist_add) (fastforce simp: in_order_def)
  have "sorted_wrt (\<lambda>x y. unat (x - nxt f st1) < unat (y - nxt f st1)) (emitted o2)"
    using o2(3) by (simp add: in_order_def sorted_wrt_map)
  then have "sorted_wrt (\<lambda>x y. unat (x - nxt f st) < unat (y - nxt f st)) (emitted o2)"
    by (rule sorted_wrt_mono_rel [rotated]) (simp add: q2)
  then have "sorted_wrt (<) (map (\<lambda>q. unat (q - nxt f st)) (emitted o2))" by (simp add: sorted_wrt_map)
  then have "in_order (nxt f st) (nxt f st2) (emitted (o1 @ o2))"
    using o1(3) o2(3) d q2 by (fastforce simp: in_order_def sorted_wrt_append)
  then show ?thesis using o1 o2 d by (auto simp: adv_def)
qed

lemma adv_refl [simp]: "adv f 0 st st"
  by (simp add: adv_def in_order_def)

lemma adv_same:
  "ro_out st' = ro_out st \<Longrightarrow> nxt f st' = nxt f st \<Longrightarrow> adv f 0 st st'"
  by (simp add: adv_def in_order_def)

lemma adv_mono: "adv f B st st' \<Longrightarrow> B \<le> B' \<Longrightarrow> adv f B' st st'"
  by (fastforce simp: adv_def)

lemma adv_one:
  assumes "nxt f st' = nxt f st + 1" "ro_out st' = ro_out st @ [if ok it then Emitted (nxt f st) it else Dropped (nxt f st) it]"
  shows "adv f 1 st st'"
  using assms by (simp add: adv_def in_order_def)

lemma flush_loop_spec:
  "wf f 0 W st \<Longrightarrow> W < 2 ^ 32 \<Longrightarrow>
   wf f 1 W (flush_loop ok f st) \<and> acct f st (flush_loop ok f st) {#} \<and> adv f W st (flush_loop ok f st)
   \<and> card (valid_slots (flush_loop ok f st) f) \<le> card (valid_slots st f)
   \<and> (flushable f st \<longrightarrow> card (valid_slots (flush_loop ok f st) f) < card (valid_slots st f))"
proof (induction ok f st arbitrary: W rule: flush_loop.induct)
  case (1 ok f st)
  show ?case
  proof (cases "flushable f st")
    case True
    note one = flush_one_spec [OF "1.prems"(1) True]
    have IH: "wf f 1 (W - 1) (flush_loop ok f (flush_one ok f st))"
      "acct f (flush_one ok f st) (flush_loop ok f (flush_one ok f st)) {#}"
      "adv f (W - 1) (flush_one ok f st) (flush_loop ok f (flush_one ok f st))"
      "card (valid_slots (flush_loop ok f (flush_one ok f st)) f) \<le> card (valid_slots (flush_one ok f st) f)"
      using "1.IH" [OF True one(1) [of ok]] "1.prems"(2) by auto
    have n1: "nxt f (flush_one ok f st) = nxt f st + 1" using one(3) [of ok] by (simp add: nxt_def)
    obtain it where "ro_out (flush_one ok f st) =
        ro_out st @ [if ok it then Emitted (nxt f st) it else Dropped (nxt f st) it]"
      using one(6) [of ok] unfolding nxt_def by blast
    with n1 have "adv f 1 st (flush_one ok f st)" by (rule adv_one)
    from adv_trans [OF this IH(3)] "1.prems"(2) one(5) have "adv f W st (flush_loop ok f (flush_one ok f st))" by simp
    moreover have "wf f 1 W (flush_loop ok f (flush_one ok f st))" using IH(1) by (rule wf_mono) auto
    moreover have "acct f st (flush_loop ok f (flush_one ok f st)) {#}" using acct_trans [OF one(2) [of ok] IH(2)] by simp
    ultimately show ?thesis using IH(4) one(4) [of ok] True by (simp add: flush_loop.simps [of ok f st])
  next
    case False
    have "unat (us_seq (ro_slots st f i) - uf_next_seq (ro_flows st f)) \<noteq> 0" if "i \<in> valid_slots st f" for i
    proof
      assume "unat (us_seq (ro_slots st f i) - uf_next_seq (ro_flows st f)) = 0"
      then have "us_seq (ro_slots st f i) = uf_next_seq (ro_flows st f)" by (simp add: unat_eq_zero)
      moreover have "win_idx (us_seq (ro_slots st f i)) = i" "us_valid (ro_slots st f i)"
        using "1.prems"(1) that by (auto simp: wf_def valid_slots_def)
      ultimately show False using False by (simp add: flushable_def Let_def)
    qed
    then have "wf f 1 W st" using "1.prems"(1) by (fastforce simp: wf_def)
    then show ?thesis using False by (simp add: flush_loop.simps [of ok f st] adv_mono [OF adv_refl])
  qed
qed

section \<open>Signed distances\<close>

lemma sint_u32: "sint (w :: u32) = (if unat w < 2 ^ 31 then int (unat w) else int (unat w) - 2 ^ 32)"
proof -
  have lt: "uint w < 2 ^ 32" using uint_lt2p [of w] by simp
  have "sint w = take_bit 32 (uint w) - 2 ^ 32 * of_bool (bit (uint w) 31)"
    by (simp add: sint_uint signed_take_bit_eq_take_bit_minus)
  also have "take_bit 32 (uint w) = uint w" using lt by (simp add: take_bit_int_eq_self)
  also have "bit (uint w) 31 \<longleftrightarrow> \<not> uint w < 2 ^ 31"
  proof -
    have "uint w div 2 ^ 31 = (if uint w < 2 ^ 31 then 0 else 1)" using lt by (auto intro: int_div_pos_eq [of _ _ _ "uint w - 2 ^ 31"])
    then show ?thesis by (simp add: bit_iff_odd)
  qed
  finally show ?thesis using uint_less_int_iff [of w "2 ^ 31"] by auto
qed

lemma seq_delta_cases:
  "unat (a - b) < 2 ^ 31 \<Longrightarrow> seq_delta a b = int (unat (a - b))"
  "0 \<le> seq_delta a b \<Longrightarrow> unat (a - b) < 2 ^ 31 \<and> seq_delta a b = int (unat (a - b))"
proof -
  show "unat (a - b) < 2 ^ 31 \<Longrightarrow> seq_delta a b = int (unat (a - b))"
    unfolding seq_delta_def sint_u32 by simp
  have "unat (a - b) < 2 ^ LENGTH(32)" by (rule unsigned_less)
  then show "0 \<le> seq_delta a b \<Longrightarrow> unat (a - b) < 2 ^ 31 \<and> seq_delta a b = int (unat (a - b))"
    unfolding seq_delta_def sint_u32 by (auto simp del: of_nat_unat split: if_splits)
qed

section \<open>Skipping a gap\<close>

lemma ahead_fold:
  fixes P :: "nat \<Rightarrow> bool" and d :: "nat \<Rightarrow> int" and q :: "nat \<Rightarrow> u32"
  assumes "\<And>i. i \<in> set xs \<Longrightarrow> P i \<Longrightarrow> 0 \<le> d i \<and> d i < M"
    and "fold (\<lambda>i (bd, bs). if \<not> P i then (bd, bs) else if d i \<ge> 0 \<and> d i < bd then (d i, q i) else (bd, bs)) xs (M, 0) = (bd, bs)"
  shows "(bd = M \<and> (\<forall>i \<in> set xs. \<not> P i))
     \<or> (\<exists>i \<in> set xs. P i \<and> bd = d i \<and> bs = q i) \<and> bd < M \<and> (\<forall>i \<in> set xs. P i \<longrightarrow> bd \<le> d i)"
  using assms
proof (induction xs arbitrary: bd bs rule: rev_induct)
  case (snoc x xs)
  obtain bd1 bs1 where f: "fold (\<lambda>i (bd, bs). if \<not> P i then (bd, bs) else if d i \<ge> 0 \<and> d i < bd then (d i, q i) else (bd, bs))
      xs (M, 0) = (bd1, bs1)" by fastforce
  note IH = snoc.IH [OF snoc.prems(1) f]
  from IH snoc.prems f show ?case by (auto split: if_splits)
qed simp

lemma smallest_ahead_spec:
  assumes "wf f 0 W st" and "W \<le> 2 ^ 30"
  shows "(flow_smallest_ahead f st = None \<and> valid_slots st f = {})
     \<or> (\<exists>i \<in> valid_slots st f. let q = us_seq (ro_slots st f i) in
          flow_smallest_ahead f st = Some (int (unat (q - nxt f st)), q)
          \<and> (\<forall>j \<in> valid_slots st f. unat (q - nxt f st) \<le> unat (us_seq (ro_slots st f j) - nxt f st)))"
proof -
  let ?q = "\<lambda>i. us_seq (ro_slots st f i)" and ?P = "\<lambda>i. us_valid (ro_slots st f i)"
  let ?d = "\<lambda>i. seq_delta (?q i) (nxt f st)"
  have d: "?d i = int (unat (?q i - nxt f st)) \<and> unat (?q i - nxt f st) < W" if "i < UDP_REORDER_WINDOW" "?P i" for i
  proof
    show lt: "unat (?q i - nxt f st) < W" using assms that by (auto simp: wf_def valid_slots_def nxt_def)
    then show "?d i = int (unat (?q i - nxt f st))" using assms(2) by (intro seq_delta_cases(1)) simp
  qed
  obtain bd bs where fo: "fold (\<lambda>i (bd, bs). if \<not> ?P i then (bd, bs) else if ?d i \<ge> 0 \<and> ?d i < bd then (?d i, ?q i)
      else (bd, bs)) [0..<UDP_REORDER_WINDOW] (INT32_MAX, 0) = (bd, bs)" by fastforce
  have "0 \<le> ?d i \<and> ?d i < INT32_MAX" if "i \<in> set [0..<UDP_REORDER_WINDOW]" "?P i" for i
    using d [of i] that assms(2) by (auto simp: INT32_MAX_def simp del: of_nat_unat)
  note r = ahead_fold [OF this fo]
  have sa: "flow_smallest_ahead f st = (if bd = INT32_MAX then None else Some (bd, bs))"
    unfolding flow_smallest_ahead_def Let_def fo [unfolded nxt_def] by simp
  from r show ?thesis
  proof
    assume "bd = INT32_MAX \<and> (\<forall>i \<in> set [0..<UDP_REORDER_WINDOW]. \<not> ?P i)"
    then show ?thesis using sa by (auto simp: valid_slots_def)
  next
    assume "(\<exists>i \<in> set [0..<UDP_REORDER_WINDOW]. ?P i \<and> bd = ?d i \<and> bs = ?q i) \<and> bd < INT32_MAX
      \<and> (\<forall>i \<in> set [0..<UDP_REORDER_WINDOW]. ?P i \<longrightarrow> bd \<le> ?d i)"
    then obtain i where i: "i < UDP_REORDER_WINDOW" "?P i" "bd = ?d i" "bs = ?q i" "bd < INT32_MAX"
      and mn: "\<And>j. j < UDP_REORDER_WINDOW \<Longrightarrow> ?P j \<Longrightarrow> bd \<le> ?d j" by auto
    have "unat (?q i - nxt f st) \<le> unat (?q j - nxt f st)" if "j \<in> valid_slots st f" for j
      using mn [of j] that d [of j] d [OF i(1,2)] i(3) by (auto simp: valid_slots_def simp del: of_nat_unat)
    moreover have "i \<in> valid_slots st f" using i by (simp add: valid_slots_def)
    ultimately show ?thesis using sa i d [OF i(1,2)] by (intro disjI2 bexI [of _ i]) (auto simp: Let_def)
  qed
qed

lemma wf_upd_flow:
  "uf_next_seq (g (ro_flows st f)) = uf_next_seq (ro_flows st f) \<Longrightarrow> uf_held (g (ro_flows st f)) = uf_held (ro_flows st f)
   \<Longrightarrow> wf f lo W (upd_flow f g st) = wf f lo W st"
  by (simp add: wf_def)

lemma wf_same:
  "ro_flows st' f = ro_flows st f \<Longrightarrow> ro_slots st' f = ro_slots st f \<Longrightarrow> ro_held st' = ro_held st
   \<Longrightarrow> wf f lo W st' = wf f lo W st"
  using valid_slots_cong [of st' f st] by (simp add: wf_def)

lemma wf_stats [simp]: "wf f lo W (upd_stats h st) = wf f lo W st"
  by (rule wf_same) simp_all

lemma nxt_simps [simp]:
  "nxt f (upd_stats h st) = nxt f st" "nxt f (dec_held st) = nxt f st" "nxt f (item_drop q it st) = nxt f st"
  "nxt f (item_emit ok q it w st) = nxt f st" "nxt f (upd_slot f2 i s st) = nxt f st"
  "nxt f (upd_flow f g st) = uf_next_seq (g (ro_flows st f))"
  by (simp_all add: nxt_def)

lemma flush_loop_valid: "uf_valid (ro_flows (flush_loop ok f st) g) = uf_valid (ro_flows st g)"
proof (induction ok f st rule: flush_loop.induct)
  case (1 ok f st)
  then show ?case
    by (cases "flushable f st") (simp_all add: flush_loop.simps [of ok f st] flush_one_def Let_def)
qed

lemma flush_contiguous_spec:
  assumes "wf f 0 W st" "W < 2 ^ 32"
  shows "wf f 1 W (flow_flush_contiguous ok f st)" "acct f st (flow_flush_contiguous ok f st) {#}"
    "adv f W st (flow_flush_contiguous ok f st)"
    "card (valid_slots (flow_flush_contiguous ok f st) f) \<le> card (valid_slots st f)"
    "flushable f st \<Longrightarrow> card (valid_slots (flow_flush_contiguous ok f st) f) < card (valid_slots st f)"
    "uf_valid (ro_flows (flow_flush_contiguous ok f st) g) = uf_valid (ro_flows st g)"
proof -
  note l = flush_loop_spec [OF assms, of ok]
  let ?st = "flush_loop ok f st" and ?st' = "flow_flush_contiguous ok f st"
  show "wf f 1 W ?st'" using l by (simp add: flow_flush_contiguous_def wf_upd_flow)
  show "acct f st ?st' {#}" using acct_trans [OF _ acct_flow_only(1)] l by (force simp: flow_flush_contiguous_def)
  have "adv f 0 ?st ?st'" by (rule adv_same) (simp_all add: flow_flush_contiguous_def nxt_def)
  then show "adv f W st ?st'" using adv_trans [of f W st ?st 0 ?st'] l assms(2) by simp
  show "card (valid_slots ?st' f) \<le> card (valid_slots st f)" using l by (simp add: flow_flush_contiguous_def)
  show "flushable f st \<Longrightarrow> card (valid_slots ?st' f) < card (valid_slots st f)" using l by (simp add: flow_flush_contiguous_def)
  show "uf_valid (ro_flows ?st' g) = uf_valid (ro_flows st g)" by (simp add: flow_flush_contiguous_def flush_loop_valid)
qed

lemma jump_spec:
  assumes w: "wf f 0 W st" and i: "i \<in> valid_slots st f" and q: "q = us_seq (ro_slots st f i)"
    and mn: "\<And>j. j \<in> valid_slots st f \<Longrightarrow> unat (q - nxt f st) \<le> unat (us_seq (ro_slots st f j) - nxt f st)"
  defines "st1 \<equiv> upd_flow f (\<lambda>fl. fl\<lparr>uf_next_seq := q\<rparr>) st"
  shows "wf f 0 (W - unat (q - nxt f st)) st1" "flushable f st1" "adv f (unat (q - nxt f st)) st st1"
    "unat (q - nxt f st) < W"
proof -
  have "unat (us_seq (ro_slots st f j) - q) < W - unat (q - nxt f st)" if j: "j \<in> valid_slots st f" for j
  proof -
    have "us_seq (ro_slots st f j) - q = (us_seq (ro_slots st f j) - nxt f st) - (q - nxt f st)" by simp
    then have "unat (us_seq (ro_slots st f j) - q) = unat (us_seq (ro_slots st f j) - nxt f st) - unat (q - nxt f st)"
      using mn [OF j] by (simp only: unat_sub word_le_nat_alt)
    moreover have "unat (us_seq (ro_slots st f j) - nxt f st) < W" using w j by (simp add: wf_def nxt_def)
    ultimately show ?thesis using mn [OF j] by linarith
  qed
  then show "wf f 0 (W - unat (q - nxt f st)) st1" using w by (simp add: wf_def st1_def)
  have "win_idx q = i" "us_valid (ro_slots st f i)" using w i q by (auto simp: wf_def valid_slots_def)
  then show "flushable f st1" using q by (simp add: flushable_def Let_def st1_def)
  show "adv f (unat (q - nxt f st)) st st1" by (simp add: adv_def st1_def in_order_def)
  show "unat (q - nxt f st) < W" using w i q by (simp add: wf_def nxt_def)
qed

lemma skip_gap_spec:
  assumes w: "wf f 0 W st" and W: "W \<le> 2 ^ 30"
  shows "wf f 1 W (flow_skip_gap ok f st) \<and> acct f st (flow_skip_gap ok f st) {#}
    \<and> adv f W st (flow_skip_gap ok f st)
    \<and> (valid_slots st f \<noteq> {} \<longrightarrow> card (valid_slots (flow_skip_gap ok f st) f) < card (valid_slots st f))
    \<and> (\<forall>g. uf_valid (ro_flows (flow_skip_gap ok f st) g) = uf_valid (ro_flows st g))"
  using smallest_ahead_spec [OF w W]
proof
  assume n: "flow_smallest_ahead f st = None \<and> valid_slots st f = {}"
  then have eq: "flow_skip_gap ok f st = upd_flow f (\<lambda>fl. fl\<lparr>uf_gap_since_ns := 0\<rparr>) st" by (simp add: flow_skip_gap_def)
  have "adv f 0 st (flow_skip_gap ok f st)" unfolding eq by (rule adv_same) (simp_all add: nxt_def)
  then have "adv f W st (flow_skip_gap ok f st)" by (rule adv_mono) simp
  moreover have "wf f 1 W st" using w n by (simp add: wf_def)
  ultimately show ?thesis using n by (simp add: eq wf_upd_flow)
next
  assume "\<exists>i \<in> valid_slots st f. let q = us_seq (ro_slots st f i) in
      flow_smallest_ahead f st = Some (int (unat (q - nxt f st)), q)
      \<and> (\<forall>j \<in> valid_slots st f. unat (q - nxt f st) \<le> unat (us_seq (ro_slots st f j) - nxt f st))"
  then obtain i q where i: "i \<in> valid_slots st f" and q: "q = us_seq (ro_slots st f i)"
    and sa: "flow_smallest_ahead f st = Some (int (unat (q - nxt f st)), q)"
    and mn: "\<And>j. j \<in> valid_slots st f \<Longrightarrow> unat (q - nxt f st) \<le> unat (us_seq (ro_slots st f j) - nxt f st)"
    by (auto simp: Let_def)
  define D where "D = unat (q - nxt f st)"
  define st1 where "st1 = (if D > 0 then upd_stats (\<lambda>s. s\<lparr>rs_gap := rs_gap s + of_int (int D)\<rparr>)
      (upd_flow f (\<lambda>fl. fl\<lparr>uf_next_seq := q\<rparr>) st) else st)"
  define st2 where "st2 = flow_flush_contiguous ok f st1"
  have eq: "flow_skip_gap ok f st = (if uf_held (ro_flows st2 f) \<noteq> 0
      then upd_flow f (\<lambda>fl. fl\<lparr>uf_gap_since_ns := uf_last_seen_ns fl\<rparr>) st2 else st2)"
    unfolding flow_skip_gap_def sa st2_def st1_def D_def by (simp add: Let_def del: of_nat_unat)
  note j = jump_spec [OF w i q mn]
  have same: "upd_flow f (\<lambda>fl. fl\<lparr>uf_next_seq := q\<rparr>) st = st" if "D = 0"
  proof -
    have "q = nxt f st" using that by (simp add: D_def unat_eq_zero)
    then show ?thesis by (simp add: upd_flow_def nxt_def)
  qed
  have s1: "wf f 0 (W - D) st1" "flushable f st1" "adv f D st st1" "D < W" "acct f st st1 {#}"
    "valid_slots st1 f = valid_slots st f" "\<And>g. uf_valid (ro_flows st1 g) = uf_valid (ro_flows st g)"
  proof -
    show "wf f 0 (W - D) st1" using j(1) w by (simp add: st1_def D_def)
    show "flushable f st1" using j(2) same by (cases "D = 0") (simp_all add: st1_def flushable_def)
    show "adv f D st st1" using j(3) by (simp add: st1_def D_def adv_def in_order_def)
    show "D < W" using j(4) by (simp add: D_def)
    show "acct f st st1 {#}" by (simp add: st1_def acct_def)
    show "valid_slots st1 f = valid_slots st f" by (simp add: st1_def)
    show "\<And>g. uf_valid (ro_flows st1 g) = uf_valid (ro_flows st g)" by (simp add: st1_def)
  qed
  have "W - D < 2 ^ 32" using W by simp
  note s2 = flush_contiguous_spec [OF s1(1) this, of ok, folded st2_def]
  have "adv f W st st2" using adv_trans [OF s1(3) s2(3)] s1(4) W by simp
  moreover have "acct f st st2 {#}" using acct_trans [OF s1(5) s2(2)] by simp
  moreover have "wf f 1 W st2" using s2(1) by (rule wf_mono) auto
  moreover have "card (valid_slots st2 f) < card (valid_slots st f)" using s2(5) s1(2,6) by simp
  moreover have "\<And>g. uf_valid (ro_flows st2 g) = uf_valid (ro_flows st g)" using s2(6) s1(7) by simp
  moreover have "adv f W st (upd_flow f (\<lambda>fl. fl\<lparr>uf_gap_since_ns := uf_last_seen_ns fl\<rparr>) st2) = adv f W st st2"
    by (simp add: adv_def nxt_def)
  ultimately show ?thesis unfolding eq by (auto simp: wf_upd_flow acct_def)
qed

section \<open>Making room in the window\<close>

lemma adv_tight: "adv f B st st' \<Longrightarrow> adv f (unat (nxt f st' - nxt f st)) st st' \<and> unat (nxt f st' - nxt f st) \<le> B"
  by (auto simp: adv_def)

lemma dist_after:
  fixes q a b :: u32
  assumes "unat (b - a) \<le> unat (q - a)"
  shows "unat (q - b) = unat (q - a) - unat (b - a)"
proof -
  have "q - b = (q - a) - (b - a)" by simp
  then show ?thesis using assms by (simp only: unat_sub word_le_nat_alt)
qed

text \<open>\<open>eff f st st' x\<close>: an operation on flow \<open>f\<close> that keeps the flow well formed.\<close>

definition eff :: "nat \<Rightarrow> reorder \<Rightarrow> reorder \<Rightarrow> (u32 \<times> dp_udp_reorder_item) multiset \<Rightarrow> bool" where
  "eff f st st' x \<longleftrightarrow> wf f 1 256 st' \<and> acct f st st' x \<and> (\<forall>g. uf_valid (ro_flows st' g) = uf_valid (ro_flows st g))"

lemma eff_trans: "eff f st st1 x \<Longrightarrow> eff f st1 st2 y \<Longrightarrow> eff f st st2 (x + y)"
  by (auto simp: eff_def intro: acct_trans)

lemma skip_gap_eff:
  assumes "wf f 1 256 st"
  shows "eff f st (flow_skip_gap ok f st) {#}" "adv f 256 st (flow_skip_gap ok f st)"
    "valid_slots st f \<noteq> {} \<Longrightarrow> card (valid_slots (flow_skip_gap ok f st) f) < card (valid_slots st f)"
proof -
  have "wf f 0 256 st" using assms by (rule wf_mono) auto
  from skip_gap_spec [OF this, of ok] show "eff f st (flow_skip_gap ok f st) {#}" "adv f 256 st (flow_skip_gap ok f st)"
    "valid_slots st f \<noteq> {} \<Longrightarrow> card (valid_slots (flow_skip_gap ok f st) f) < card (valid_slots st f)"
    by (auto simp: eff_def)
qed

lemma wf_held_zero: "wf f lo W st \<Longrightarrow> uf_held (ro_flows st f) = 0 \<longleftrightarrow> valid_slots st f = {}"
  by (auto simp: wf_def unat_eq_zero)

lemma window_loop_spec:
  assumes "wf f 1 256 st" and "0 \<le> seq_delta seq (nxt f st)"
  shows "\<exists>st'. window_loop ok f seq st = Some st' \<and> eff f st st' {#} \<and> adv f (unat (seq - nxt f st)) st st'
    \<and> 0 \<le> seq_delta seq (nxt f st') \<and> unat (nxt f st' - nxt f st) \<le> unat (seq - nxt f st)
    \<and> (valid_slots st' f = {} \<or> seq_delta seq (nxt f st') < 256)
    \<and> card (valid_slots st' f) \<le> card (valid_slots st f)"
  using assms
proof (induction "card (valid_slots st f)" arbitrary: st rule: less_induct)
  case less
  let ?D = "unat (seq - nxt f st)"
  have D: "?D < 2 ^ 31" "seq_delta seq (nxt f st) = int ?D" using seq_delta_cases(2) [OF less.prems(2)] by auto
  show ?case
  proof (cases "valid_slots st f \<noteq> {} \<and> 256 \<le> ?D")
    case False
    then have "window_loop ok f seq st = Some st"
      using wf_held_zero [OF less.prems(1)] D(2)
      by (subst window_loop.simps) (auto simp: nxt_def [symmetric] UDP_REORDER_WINDOW_def simp del: of_nat_unat)
    then show ?thesis
      using False less.prems D adv_mono [OF adv_refl [of f st], of ?D]
      by (auto simp: eff_def simp del: of_nat_unat)
  next
    case True
    let ?s1 = "flow_skip_gap ok f st"
    note sk = skip_gap_eff [OF less.prems(1), of ok]
    have step: "window_loop ok f seq st = window_loop ok f seq ?s1"
      using True wf_held_zero [OF less.prems(1)] D(2)
      by (subst window_loop.simps) (auto simp: nxt_def [symmetric] UDP_REORDER_WINDOW_def simp del: of_nat_unat)
    have m: "adv f (unat (nxt f ?s1 - nxt f st)) st ?s1" "unat (nxt f ?s1 - nxt f st) \<le> 256"
      using adv_tight [OF sk(2)] by auto
    have d1: "unat (seq - nxt f ?s1) = ?D - unat (nxt f ?s1 - nxt f st)"
      using m(2) True by (intro dist_after) linarith
    then have "0 \<le> seq_delta seq (nxt f ?s1)"
      using D(1) seq_delta_cases(1) [of seq "nxt f ?s1"] by (simp del: of_nat_unat)
    moreover have "wf f 1 256 ?s1" using sk(1) by (simp add: eff_def)
    ultimately obtain st' where IH: "window_loop ok f seq ?s1 = Some st'" "eff f ?s1 st' {#}"
      "adv f (unat (seq - nxt f ?s1)) ?s1 st'" "0 \<le> seq_delta seq (nxt f st')"
      "unat (nxt f st' - nxt f ?s1) \<le> unat (seq - nxt f ?s1)"
      "valid_slots st' f = {} \<or> seq_delta seq (nxt f st') < 256"
      "card (valid_slots st' f) \<le> card (valid_slots ?s1 f)"
      using less.hyps [OF sk(3)] True by blast
    have "adv f (unat (nxt f ?s1 - nxt f st) + unat (seq - nxt f ?s1)) st st'"
      using D(1) d1 True m(2) by (intro adv_trans [OF m(1) IH(3)]) auto
    then have a: "adv f ?D st st'" using d1 True m(2) by simp
    then have "unat (nxt f st' - nxt f st) \<le> ?D" by (auto simp: adv_def)
    moreover have "card (valid_slots st' f) \<le> card (valid_slots st f)" using IH(7) sk(3) True by linarith
    ultimately show ?thesis using step IH(1,4,6) a eff_trans [OF sk(1) IH(2)] by auto
  qed
qed

lemma make_room_spec:
  assumes "wf f 1 256 st" and "0 < seq_delta seq (nxt f st)"
  shows "\<exists>st'. flow_make_window_room ok f seq st = Some st' \<and> eff f st st' {#} \<and> adv f (2 ^ 31) st st'
    \<and> 0 \<le> seq_delta seq (nxt f st') \<and> seq_delta seq (nxt f st') < 256
    \<and> card (valid_slots st' f) \<le> card (valid_slots st f)"
proof -
  obtain s1 where s1: "window_loop ok f seq st = Some s1" "eff f st s1 {#}" "adv f (unat (seq - nxt f st)) st s1"
    "0 \<le> seq_delta seq (nxt f s1)" "unat (nxt f s1 - nxt f st) \<le> unat (seq - nxt f st)"
    "valid_slots s1 f = {} \<or> seq_delta seq (nxt f s1) < 256" "card (valid_slots s1 f) \<le> card (valid_slots st f)"
    using window_loop_spec [OF assms(1), of seq ok] assms(2) by auto
  have D: "unat (seq - nxt f st) < 2 ^ 31" using seq_delta_cases(2) [of seq "nxt f st"] assms(2) by simp
  have D1: "unat (seq - nxt f s1) < 2 ^ 31" "seq_delta seq (nxt f s1) = int (unat (seq - nxt f s1))"
    using seq_delta_cases(2) [OF s1(4)] by auto
  have a1: "adv f (2 ^ 31) st s1" using s1(3) D by (rule_tac adv_mono) auto
  show ?thesis
  proof (cases "seq_delta seq (nxt f s1) < 256")
    case True
    then have "flow_make_window_room ok f seq st = Some s1"
      using s1(1) by (simp add: flow_make_window_room_def nxt_def [symmetric] UDP_REORDER_WINDOW_def)
    then show ?thesis using s1 a1 True by auto
  next
    case False
    then have empty: "valid_slots s1 f = {}" using s1(6) by blast
    define t where "t = seq - 255"
    have big: "256 \<le> unat (seq - nxt f s1)" using False D1(2) by linarith
    obtain h where eq: "flow_make_window_room ok f seq st = Some (upd_stats h (upd_flow f (\<lambda>fl. fl\<lparr>uf_next_seq := t\<rparr>) s1))"
      using s1(1) False by (auto simp: flow_make_window_room_def nxt_def [symmetric] UDP_REORDER_WINDOW_def t_def Let_def)
    let ?s2 = "upd_stats h (upd_flow f (\<lambda>fl. fl\<lparr>uf_next_seq := t\<rparr>) s1)"
    have "unat (seq - t) = 255" by (simp add: t_def)
    then have sd: "seq_delta seq t = 255" using seq_delta_cases(1) [of seq t] by simp
    have tn: "t - nxt f s1 = (seq - nxt f s1) - 255" by (simp add: t_def)
    have "unat ((seq - nxt f s1) - 255) = unat (seq - nxt f s1) - unat (255 :: u32)"
      by (rule unat_sub) (use big in \<open>simp add: word_le_nat_alt\<close>)
    then have dt: "unat (t - nxt f s1) = unat (seq - nxt f s1) - 255" unfolding tn by simp
    have "unat (seq - nxt f st) = unat (nxt f s1 - nxt f st) + unat (seq - nxt f s1)"
      using dist_after [OF s1(5)] s1(5) by linarith
    moreover have "adv f (unat (t - nxt f s1)) s1 ?s2" by (simp add: adv_def in_order_def)
    moreover have "adv f (unat (nxt f s1 - nxt f st)) st s1" using adv_tight [OF s1(3)] by blast
    ultimately have "adv f (unat (nxt f s1 - nxt f st) + unat (t - nxt f s1)) st ?s2"
      using D dt by (intro adv_trans) auto
    then have "adv f (2 ^ 31) st ?s2"
      by (rule adv_mono) (use D dt \<open>unat (seq - nxt f st) = _\<close> in linarith)
    moreover have "eff f st ?s2 {#}"
      using s1(2) empty by (simp add: eff_def acct_def wf_def)
    ultimately show ?thesis using eq sd s1(7) by simp
  qed
qed

section \<open>The last step of a submission\<close>

lemma submit_next_spec:
  assumes w: "wf f 1 256 st" and q: "seq = nxt f st"
  shows "eff f st (submit_next ok f seq item st) {#(seq, item)#}" "adv f 256 st (submit_next ok f seq item st)"
proof -
  define s1 where "s1 = item_emit ok seq item False (upd_flow f (\<lambda>fl. fl\<lparr>uf_next_seq := uf_next_seq fl + 1\<rparr>) st)"
  have "unat (us_seq (ro_slots st f i) - (nxt f st + 1)) < 255" if "i \<in> valid_slots st f" for i
  proof -
    have "1 \<le> unat (us_seq (ro_slots st f i) - nxt f st)" "unat (us_seq (ro_slots st f i) - nxt f st) < 256"
      using w that by (auto simp: wf_def nxt_def)
    moreover then have "us_seq (ro_slots st f i) \<noteq> nxt f st" by auto
    ultimately show ?thesis using dist_next [of "us_seq (ro_slots st f i)" "nxt f st"] by linarith
  qed
  then have w1: "wf f 0 255 s1" using w by (simp add: wf_def s1_def nxt_def)
  have "adv f 1 st s1" by (rule adv_one [where ok = ok]) (simp_all add: s1_def q, simp add: nxt_def)
  moreover note fl = flush_contiguous_spec [OF w1, of ok]
  ultimately have "adv f (1 + 255) st (flow_flush_contiguous ok f s1)" by (intro adv_trans) auto
  then show "adv f 256 st (submit_next ok f seq item st)" by (simp add: submit_next_def s1_def)
  have "acct f st s1 {#(seq, item)#}" by (simp add: acct_def s1_def)
  from acct_trans [OF this fl(2)] have "acct f st (flow_flush_contiguous ok f s1) {#(seq, item)#}" by simp
  moreover have "wf f 1 256 (flow_flush_contiguous ok f s1)" using fl(1) by (rule_tac wf_mono) auto
  ultimately show "eff f st (submit_next ok f seq item st) {#(seq, item)#}"
    using fl(6) by (simp add: eff_def submit_next_def s1_def)
qed

lemma submit_late_spec:
  assumes "wf f 1 256 st"
  shows "eff f st (submit_late seq item st) {#(seq, item)#}" "adv f 0 st (submit_late seq item st)"
  using assms by (simp_all add: eff_def acct_def submit_late_def wf_def adv_def in_order_def)

lemma win_idx_inj:
  fixes a b n :: u32
  assumes "win_idx a = win_idx b" "unat (a - n) < 256" "unat (b - n) < 256"
  shows "a = b"
proof -
  have "unat a mod 256 = unat b mod 256" using assms(1) by (simp add: win_idx_def UDP_REORDER_WINDOW_def unat_mod_distrib)
  moreover have "unat (n + y) mod 256 = (unat n + unat y) mod 256" for y :: u32
    by (simp add: unat_word_ariths mod_mod_cancel)
  from this [of "x - n" for x] have "unat x mod 256 = (unat n + unat (x - n)) mod 256" for x by simp
  ultimately have "(unat (a - n) + unat n) mod 256 = (unat (b - n) + unat n) mod 256" by (metis add.commute)
  then have "unat (a - n) mod 256 = unat (b - n) mod 256" by (simp only: nat_mod_add_cancel)
  then have "a - n = b - n" using assms(2,3) by (simp add: word_unat_eq_iff)
  then show ?thesis by simp
qed

lemma submit_hold_spec:
  assumes w: "wf f 1 256 st" and d: "0 < unat (seq - nxt f st)" "unat (seq - nxt f st) < 256"
    and h: "unat (ro_held st) < 2 ^ 32 - 1"
  shows "eff f st (submit_hold f seq item now st) {#(seq, item)#}" "adv f 0 st (submit_hold f seq item now st)"
    "unat (ro_held (submit_hold f seq item now st)) \<le> Suc (unat (ro_held st))"
proof -
  let ?i = "win_idx seq" let ?sl = "ro_slots st f ?i" let ?st' = "submit_hold f seq item now st"
  have valid_same: "us_seq ?sl = seq" if "us_valid ?sl"
  proof -
    have "?i \<in> valid_slots st f" using that by (simp add: valid_slots_def)
    then have "win_idx (us_seq ?sl) = ?i" "unat (us_seq ?sl - nxt f st) < 256" using w by (auto simp: wf_def nxt_def)
    with d(2) show ?thesis by (intro win_idx_inj)
  qed
  have "eff f st ?st' {#(seq, item)#} \<and> adv f 0 st ?st' \<and> unat (ro_held ?st') \<le> Suc (unat (ro_held st))"
  proof (cases "us_valid ?sl")
    case True
    then have "?st' = submit_late seq item st" using valid_same by (simp add: submit_hold_def Let_def)
    then show ?thesis using submit_late_spec [OF w] by (simp add: submit_late_def)
  next
    case False
    then have ni: "?i \<notin> valid_slots st f" by (simp add: valid_slots_def)
    have sl: "ro_slots ?st' f = (ro_slots st f)(?i := \<lparr>us_item = item, us_seq = seq, us_valid = True\<rparr>)"
      using False by (simp add: submit_hold_def Let_def update_high_water_def)
    note fi = flow_items_fill [OF win_idx_less ni sl]
    have v: "valid_slots ?st' f = insert ?i (valid_slots st f)" using fi(1) by simp
    have card: "card (valid_slots ?st' f) = Suc (card (valid_slots st f))" using ni by (simp add: v)
    have "insert ?i (valid_slots st f) \<subseteq> {..<256}"
      using win_idx_less [of seq] by (auto simp: valid_slots_def UDP_REORDER_WINDOW_def)
    then have "card (insert ?i (valid_slots st f)) \<le> card {..<256::nat}" by (rule card_mono [rotated]) simp
    then have c: "card (valid_slots st f) < 256" using card v by simp
    have held: "uf_held (ro_flows ?st' f) = uf_held (ro_flows st f) + 1" "ro_held ?st' = ro_held st + 1"
      "nxt f ?st' = nxt f st" "ro_out ?st' = ro_out st"
      using False by (simp_all add: submit_hold_def Let_def update_high_water_def nxt_def)
    have "unat (uf_held (ro_flows st f)) = card (valid_slots st f)" using w by (simp add: wf_def)
    then have uh: "unat (uf_held (ro_flows ?st' f)) = card (valid_slots ?st' f)"
      using c card by (simp add: held unat_word_ariths)
    have rh: "unat (ro_held ?st') = Suc (unat (ro_held st))" using h by (simp add: held unat_word_ariths)
    have "win_idx (us_seq (ro_slots ?st' f j)) = j \<and> 1 \<le> unat (us_seq (ro_slots ?st' f j) - nxt f ?st')
        \<and> unat (us_seq (ro_slots ?st' f j) - nxt f ?st') < 256" if "j \<in> valid_slots ?st' f" for j
      using that w [unfolded wf_def, folded nxt_def] d ni unfolding v held(3) by (auto simp: sl)
    then have "wf f 1 256 ?st'" using uh rh card w by (simp add: wf_def nxt_def)
    moreover have "acct f st ?st' {#(seq, item)#}"
      using fi(2) rh card False
      by (simp add: acct_def slot_pair_def) (auto simp: submit_hold_def Let_def update_high_water_def out_items_def)
    moreover have "uf_valid (ro_flows ?st' g) = uf_valid (ro_flows st g)" for g
      using False by (simp add: submit_hold_def Let_def update_high_water_def)
    moreover have "adv f 0 st ?st'" using held by (intro adv_same)
    ultimately show ?thesis using rh by (simp add: eff_def)
  qed
  then show "eff f st ?st' {#(seq, item)#}" "adv f 0 st ?st'" "unat (ro_held ?st') \<le> Suc (unat (ro_held st))" by auto
qed

lemma submit_ahead_spec:
  assumes "wf f 1 256 st" and "0 \<le> seq_delta seq (nxt f st)" "seq_delta seq (nxt f st) < 256"
    and "ro_held st < UDP_REORDER_HELD_CAP"
  shows "eff f st (submit_ahead ok f seq item now st) {#(seq, item)#}" "adv f 256 st (submit_ahead ok f seq item now st)"
proof -
  have D: "seq_delta seq (nxt f st) = int (unat (seq - nxt f st))" using seq_delta_cases(2) [OF assms(2)] by blast
  have h: "unat (ro_held st) < 2 ^ 32 - 1" using assms(4) by (simp add: word_less_nat_alt UDP_REORDER_HELD_CAP_def)
  have "eff f st (submit_ahead ok f seq item now st) {#(seq, item)#} \<and> adv f 256 st (submit_ahead ok f seq item now st)"
  proof (cases "seq_delta seq (nxt f st) = 0")
    case True
    then have "seq = nxt f st" using D by (simp add: unat_eq_zero del: of_nat_unat)
    then show ?thesis
      using submit_next_spec [OF assms(1)] True by (simp add: submit_ahead_def Let_def nxt_def [symmetric])
  next
    case False
    then have "submit_ahead ok f seq item now st = submit_hold f seq item now st"
      using assms(2,4) by (simp add: submit_ahead_def Let_def nxt_def [symmetric])
    moreover have "0 < unat (seq - nxt f st)" "unat (seq - nxt f st) < 256" using False D assms(2,3) by linarith+
    ultimately show ?thesis
      using submit_hold_spec [OF assms(1) _ _ h, of seq item now] adv_mono [of f 0 _ _ 256] by auto
  qed
  then show "eff f st (submit_ahead ok f seq item now st) {#(seq, item)#}" "adv f 256 st (submit_ahead ok f seq item now st)"
    by auto
qed

section \<open>Dropping and looking up flows\<close>

definition drop_slot :: "nat \<Rightarrow> nat \<Rightarrow> reorder \<Rightarrow> reorder" where
  "drop_slot f i st = (let slot = ro_slots st f i in
     if \<not> us_valid slot then st
     else dec_held (upd_slot f i slot_zero (item_drop (us_seq slot) (us_item slot) st)))"

lemma drop_slot_spec:
  assumes "i < UDP_REORDER_WINDOW" and h: "card (valid_slots st f) \<le> unat (ro_held st)"
  shows "acct f st (drop_slot f i st) {#} \<and> valid_slots (drop_slot f i st) f = valid_slots st f - {i}
    \<and> ro_flows (drop_slot f i st) = ro_flows st \<and> card (valid_slots (drop_slot f i st) f) \<le> unat (ro_held (drop_slot f i st))
    \<and> unat (ro_held (drop_slot f i st)) \<le> unat (ro_held st)"
proof (cases "us_valid (ro_slots st f i)")
  case False
  then have "drop_slot f i st = st" "i \<notin> valid_slots st f" by (auto simp: drop_slot_def valid_slots_def)
  then show ?thesis using h by simp
next
  case True
  let ?st' = "drop_slot f i st"
  have i: "i \<in> valid_slots st f" using True assms(1) by (simp add: valid_slots_def)
  have sl: "ro_slots ?st' f = (ro_slots st f)(i := slot_zero)" using True by (simp add: drop_slot_def Let_def)
  note cl = flow_items_clear [OF i sl]
  have c: "Suc (card (valid_slots ?st' f)) = card (valid_slots st f)"
    using cl(1) card_Suc_Diff1 [OF finite_valid_slots i] by (simp add: slot_zero_def del: card_Diff_insert)
  have nz: "ro_held st \<noteq> 0" using h c by auto
  have rh: "unat (ro_held ?st') = unat (ro_held st) - 1"
    using True nz by (simp add: drop_slot_def Let_def unat_dec word_gt_0)
  have "out_items ?st' = add_mset (slot_pair (ro_slots st f i)) (out_items st)"
    using True by (simp add: drop_slot_def Let_def slot_pair_def)
  then have "acct f st ?st' {#}"
    using cl(2) rh c nz h True by (simp add: acct_def slot_zero_def) (auto simp: drop_slot_def Let_def)
  moreover have "ro_flows ?st' = ro_flows st" using True by (simp add: drop_slot_def Let_def)
  moreover have "valid_slots ?st' f = valid_slots st f - {i}" using cl(1) by (simp add: slot_zero_def)
  moreover have "card (valid_slots ?st' f) \<le> unat (ro_held ?st')" using c rh h by linarith
  ultimately show ?thesis using rh by simp
qed

lemma drop_slots_fold:
  assumes "card (valid_slots st f) \<le> unat (ro_held st)" "n \<le> UDP_REORDER_WINDOW"
  shows "acct f st (fold (drop_slot f) [0..<n] st) {#} \<and> valid_slots (fold (drop_slot f) [0..<n] st) f = valid_slots st f - {..<n}
    \<and> ro_flows (fold (drop_slot f) [0..<n] st) = ro_flows st
    \<and> card (valid_slots (fold (drop_slot f) [0..<n] st) f) \<le> unat (ro_held (fold (drop_slot f) [0..<n] st))
    \<and> unat (ro_held (fold (drop_slot f) [0..<n] st)) \<le> unat (ro_held st)"
  using assms(2)
proof (induction n)
  case 0
  then show ?case using assms(1) by simp
next
  case (Suc n)
  let ?s = "fold (drop_slot f) [0..<n] st"
  have IH: "acct f st ?s {#}" "valid_slots ?s f = valid_slots st f - {..<n}" "ro_flows ?s = ro_flows st"
    "card (valid_slots ?s f) \<le> unat (ro_held ?s)" "unat (ro_held ?s) \<le> unat (ro_held st)" using Suc by auto
  have "n < UDP_REORDER_WINDOW" using Suc.prems by simp
  note d = drop_slot_spec [OF this IH(4)]
  have "valid_slots st f - {..<n} - {n} = valid_slots st f - {..<Suc n}" by auto
  moreover have "acct f st (drop_slot f n ?s) {#}" using acct_trans [OF IH(1) conjunct1 [OF d]] by simp
  moreover have "fold (drop_slot f) [0..<Suc n] st = drop_slot f n ?s" by simp
  ultimately show ?case using d IH(2,3,5) by (simp only: simp_thms) (metis order_trans)
qed

lemma drop_slots_spec:
  assumes "card (valid_slots st f) \<le> unat (ro_held st)"
  shows "acct f st (flow_drop_slots f st) {#}" "valid_slots (flow_drop_slots f st) f = {}"
    "unat (ro_held (flow_drop_slots f st)) \<le> unat (ro_held st)"
    "uf_valid (ro_flows (flow_drop_slots f st) g) = uf_valid (ro_flows st g)"
proof -
  have eq: "flow_drop_slots f st = upd_flow f (\<lambda>fl. fl\<lparr>uf_held := 0, uf_gap_since_ns := 0\<rparr>)
      (fold (drop_slot f) [0..<UDP_REORDER_WINDOW] st)"
    unfolding flow_drop_slots_def drop_slot_def ..
  note d = drop_slots_fold [OF assms order_refl]
  show "acct f st (flow_drop_slots f st) {#}"
    using acct_trans [OF conjunct1 [OF d] acct_flow_only(1)] by (simp add: eq)
  have "valid_slots st f - {..<UDP_REORDER_WINDOW} = {}" by (auto simp: valid_slots_def)
  then show "valid_slots (flow_drop_slots f st) f = {}" using d by (simp add: eq)
  show "unat (ro_held (flow_drop_slots f st)) \<le> unat (ro_held st)" using d by (simp add: eq)
  show "uf_valid (ro_flows (flow_drop_slots f st) g) = uf_valid (ro_flows st g)" using d by (simp add: eq)
qed

lemma reset_spec:
  assumes "card (valid_slots st f) \<le> unat (ro_held st)" "\<not> uf_valid (ro_flows st f) \<longrightarrow> valid_slots st f = {}"
    and st'_def: "st' = flow_reset f key epoch seq now st"
  shows "wf f 1 256 st'" "acct f st st' {#}" "uf_valid (ro_flows st' f)" "unat (ro_held st') \<le> unat (ro_held st)"
    "nxt f st' = (if seq < 32 then 0 else seq - 32)"
proof -
  define s1 where "s1 = (if uf_valid (ro_flows st f) then flow_drop_slots f st else st)"
  have s1: "valid_slots s1 f = {}" "acct f st s1 {#}" "unat (ro_held s1) \<le> unat (ro_held st)"
    using drop_slots_spec [OF assms(1)] assms(2) by (auto simp: s1_def)
  obtain fl t where eq: "st' = upd_flow f (\<lambda>_. fl) (s1\<lparr>ro_stamp := t\<rparr>)" "uf_held fl = 0" "uf_valid fl"
      "uf_next_seq fl = seq - (if seq < 32 then seq else 32)"
    unfolding st'_def flow_reset_def Let_def s1_def [symmetric]
    by (auto simp: flow_zero_def UDP_REORDER_START_BACKTRACK_def)
  show "wf f 1 256 st'" using s1(1) by (simp add: eq wf_def)
  show "acct f st st' {#}" using s1(2) by (simp add: acct_def eq out_items_def)
  show "uf_valid (ro_flows st' f)" "unat (ro_held st') \<le> unat (ro_held st)"
    "nxt f st' = (if seq < 32 then 0 else seq - 32)" using s1(3) eq by (simp_all add: nxt_def)
qed

lemma lookup_scan_range:
  "lookup_scan flows key idxs v = Inl f \<Longrightarrow> f \<in> set idxs \<and> uf_valid (flows f) \<and> uf_key (flows f) = key"
  "lookup_scan flows key idxs v = Inr f \<Longrightarrow> f \<in> insert v (set idxs)"
  by (induction flows key idxs v rule: lookup_scan.induct) (auto simp: key_equal_def split: if_splits)

section \<open>The state of a worker\<close>

definition reorder_inv :: "reorder \<Rightarrow> bool" where
  "reorder_inv st \<longleftrightarrow>
     (\<forall>f < UDP_REORDER_FLOW_CAP. wf f 1 256 st \<and> (\<not> uf_valid (ro_flows st f) \<longrightarrow> valid_slots st f = {}))
     \<and> unat (ro_held st) = (\<Sum>f < UDP_REORDER_FLOW_CAP. card (valid_slots st f))"

lemma acct_global:
  assumes a: "acct f st st' x" and f: "f < UDP_REORDER_FLOW_CAP"
  shows "held_items st' + out_items st' = held_items st + out_items st + x"
    and "unat (ro_held st) = (\<Sum>f < UDP_REORDER_FLOW_CAP. card (valid_slots st f))
     \<Longrightarrow> unat (ro_held st') = (\<Sum>f < UDP_REORDER_FLOW_CAP. card (valid_slots st' f))"
proof -
  have other: "flow_items st' g = flow_items st g" "valid_slots st' g = valid_slots st g" if "g \<noteq> f" for g
    using a that flow_items_cong [of st' g st] valid_slots_cong [of st' g st] by (auto simp: acct_def)
  have sp: "(\<Sum>g < UDP_REORDER_FLOW_CAP. h g) = h f + (\<Sum>g \<in> {..<UDP_REORDER_FLOW_CAP} - {f}. h g)"
    for h :: "nat \<Rightarrow> 'a::comm_monoid_add"
    using f by (simp add: sum.remove)
  have "(\<Sum>g \<in> {..<UDP_REORDER_FLOW_CAP} - {f}. flow_items st' g) = (\<Sum>g \<in> {..<UDP_REORDER_FLOW_CAP} - {f}. flow_items st g)"
    by (rule sum.cong) (auto simp: other)
  then show "held_items st' + out_items st' = held_items st + out_items st + x"
    using a unfolding held_items_def sp [of "flow_items st'"] sp [of "flow_items st"] by (simp add: acct_def ac_simps)
  have "(\<Sum>g \<in> {..<UDP_REORDER_FLOW_CAP} - {f}. card (valid_slots st' g)) = (\<Sum>g \<in> {..<UDP_REORDER_FLOW_CAP} - {f}. card (valid_slots st g))"
    by (rule sum.cong) (auto simp: other)
  then show "unat (ro_held st') = (\<Sum>f < UDP_REORDER_FLOW_CAP. card (valid_slots st' f))"
    if "unat (ro_held st) = (\<Sum>f < UDP_REORDER_FLOW_CAP. card (valid_slots st f))"
    using a that unfolding sp [of "\<lambda>g. card (valid_slots st' g)"] sp [of "\<lambda>g. card (valid_slots st g)"]
    by (simp add: acct_def)
qed

lemma inv_step:
  assumes inv: "reorder_inv st" and a: "acct f st st' x" and f: "f < UDP_REORDER_FLOW_CAP"
    and w: "wf f 1 256 st'" and v: "\<not> uf_valid (ro_flows st' f) \<longrightarrow> valid_slots st' f = {}"
  shows "reorder_inv st'"
proof -
  have tot: "unat (ro_held st') = (\<Sum>f < UDP_REORDER_FLOW_CAP. card (valid_slots st' f))"
    using acct_global(2) [OF a f] inv by (simp add: reorder_inv_def)
  have "wf g 1 256 st' \<and> (\<not> uf_valid (ro_flows st' g) \<longrightarrow> valid_slots st' g = {})" if g: "g < UDP_REORDER_FLOW_CAP" for g
  proof (cases "g = f")
    case True
    then show ?thesis using w v by simp
  next
    case False
    then have same: "ro_flows st' g = ro_flows st g" "ro_slots st' g = ro_slots st g" using a by (auto simp: acct_def)
    then have vs: "valid_slots st' g = valid_slots st g" by (intro valid_slots_cong) simp
    have "card (valid_slots st' g) \<le> unat (ro_held st')"
      unfolding tot using g by (intro member_le_sum) auto
    then show ?thesis using inv g same vs by (simp add: reorder_inv_def wf_def)
  qed
  then show ?thesis using tot by (simp add: reorder_inv_def)
qed

lemma inv_flow:
  assumes "reorder_inv st" "f < UDP_REORDER_FLOW_CAP"
  shows "wf f 1 256 st" "card (valid_slots st f) \<le> unat (ro_held st)"
    "\<not> uf_valid (ro_flows st f) \<longrightarrow> valid_slots st f = {}"
  using assms by (auto simp: reorder_inv_def wf_def)

text \<open>\<open>live_flow st key epoch f\<close>: the flow of the key is in the table, at index \<open>f\<close>, in this epoch.\<close>

definition live_flow :: "reorder \<Rightarrow> dp_udp_reorder_key \<Rightarrow> u32 \<Rightarrow> nat \<Rightarrow> bool" where
  "live_flow st key epoch f \<longleftrightarrow>
     (let base = unat (key_hash key AND (of_nat UDP_REORDER_SETS - 1)) * UDP_REORDER_WAYS
      in lookup_scan (ro_flows st) key [base..<base + UDP_REORDER_WAYS] base = Inl f)
     \<and> uf_epoch (ro_flows st f) = epoch"

lemma lookup_index:
  assumes "base = unat (key_hash key AND (of_nat UDP_REORDER_SETS - 1)) * UDP_REORDER_WAYS" "f \<in> set [base..<base + UDP_REORDER_WAYS]"
  shows "f < UDP_REORDER_FLOW_CAP"
proof -
  have "unat (key_hash key AND (of_nat UDP_REORDER_SETS - 1)) \<le> 127"
    using unat_and_le [of "key_hash key" "of_nat UDP_REORDER_SETS - 1"] by (simp add: UDP_REORDER_SETS_def)
  then show ?thesis using assms by (auto simp: UDP_REORDER_WAYS_def UDP_REORDER_FLOW_CAP_def)
qed

lemma lookup_spec:
  assumes inv: "reorder_inv st" and l: "flow_lookup key epoch seq now st = (f, st')"
  shows "f < UDP_REORDER_FLOW_CAP" "reorder_inv st'" "acct f st st' {#}" "uf_valid (ro_flows st' f)"
    "unat (ro_held st') \<le> unat (ro_held st)"
    "live_flow st key epoch g \<Longrightarrow> g = f \<and> nxt f st' = nxt f st \<and> ro_out st' = ro_out st"
proof -
  define base where "base = unat (key_hash key AND (of_nat UDP_REORDER_SETS - 1)) * UDP_REORDER_WAYS"
  have ways: "0 < UDP_REORDER_WAYS" by (simp add: UDP_REORDER_WAYS_def)
  have goal: "f < UDP_REORDER_FLOW_CAP \<and> reorder_inv st' \<and> acct f st st' {#} \<and> uf_valid (ro_flows st' f)
    \<and> unat (ro_held st') \<le> unat (ro_held st)
    \<and> (live_flow st key epoch g \<longrightarrow> g = f \<and> nxt f st' = nxt f st \<and> ro_out st' = ro_out st)"
  proof (cases "lookup_scan (ro_flows st) key [base..<base + UDP_REORDER_WAYS] base")
    case (Inl idx)
    note sc = lookup_scan_range(1) [OF Inl]
    have f: "idx < UDP_REORDER_FLOW_CAP" using sc base_def by (intro lookup_index) auto
    define s1 where "s1 = (if uf_epoch (ro_flows st idx) \<noteq> epoch then flow_reset idx key epoch seq now st else st)"
    have s1: "wf idx 1 256 s1" "acct idx st s1 {#}" "uf_valid (ro_flows s1 idx)" "unat (ro_held s1) \<le> unat (ro_held st)"
      using reset_spec [OF inv_flow(2,3) [OF inv f] refl] inv_flow(1) [OF inv f] sc by (auto simp: s1_def)
    have eq: "f = idx" "st' = upd_flow idx (\<lambda>fl. fl\<lparr>uf_last_seen_ns := now, uf_stamp := ro_stamp s1 + 1\<rparr>) (s1\<lparr>ro_stamp := ro_stamp s1 + 1\<rparr>)"
      using l Inl by (auto simp: flow_lookup_def Let_def base_def [symmetric] s1_def [symmetric])
    have st': "wf idx 1 256 st'" "acct idx st st' {#}" "uf_valid (ro_flows st' idx)" "ro_held st' = ro_held s1"
      using s1 by (simp_all add: eq wf_def acct_def out_items_def)
    have "live_flow st key epoch g \<longrightarrow> g = f \<and> nxt f st' = nxt f st \<and> ro_out st' = ro_out st"
      using Inl by (auto simp: live_flow_def Let_def base_def [symmetric] eq s1_def nxt_def)
    then show ?thesis using st' f s1(4) eq(1) inv_step [OF inv st'(2) f st'(1)] by auto
  next
    case (Inr v)
    have f: "v < UDP_REORDER_FLOW_CAP"
      using lookup_scan_range(2) [OF Inr] base_def ways by (intro lookup_index) auto
    define s1 where "s1 = (if uf_valid (ro_flows st v) then upd_stats (\<lambda>s. s\<lparr>rs_evicted := rs_evicted s + 1\<rparr>) st else st)"
    have s1: "valid_slots s1 v = valid_slots st v" "ro_held s1 = ro_held st" "ro_flows s1 = ro_flows st" "acct v st s1 {#}"
      by (simp_all add: s1_def)
    have pre: "card (valid_slots s1 v) \<le> unat (ro_held s1)" "\<not> uf_valid (ro_flows s1 v) \<longrightarrow> valid_slots s1 v = {}"
      using inv_flow(2,3) [OF inv f] by (simp_all add: s1)
    have eq: "f = v" "st' = flow_reset v key epoch seq now s1"
      using l Inr by (auto simp: flow_lookup_def Let_def base_def [symmetric] s1_def [symmetric])
    note r = reset_spec [OF pre eq(2)]
    have a: "acct v st st' {#}" using acct_trans [OF s1(4) r(2)] by simp
    have "\<not> live_flow st key epoch g" using Inr by (simp add: live_flow_def Let_def base_def [symmetric])
    then show ?thesis using f r s1(2) a inv_step [OF inv a f r(1)] by (simp add: eq(1))
  qed
  then show "f < UDP_REORDER_FLOW_CAP" "reorder_inv st'" "acct f st st' {#}" "uf_valid (ro_flows st' f)"
    "unat (ro_held st') \<le> unat (ro_held st)"
    "live_flow st key epoch g \<Longrightarrow> g = f \<and> nxt f st' = nxt f st \<and> ro_out st' = ro_out st" by auto
qed

text \<open>What a submission does after the flow is found.\<close>

definition submit_body ::
    "(dp_udp_reorder_item \<Rightarrow> bool) \<Rightarrow> u64 \<Rightarrow> nat \<Rightarrow> u32 \<Rightarrow> dp_udp_reorder_item \<Rightarrow> u64 \<Rightarrow> reorder \<Rightarrow> reorder option" where
  "submit_body emit_ok hold_ns f seq item now_ns st =
     (let fl = ro_flows st f;
          st = (if uf_held fl \<noteq> 0 \<and> uf_gap_since_ns fl \<noteq> 0 \<and> now_ns - uf_gap_since_ns fl \<ge> hold_ns
                then flow_skip_gap emit_ok f st else st);
          delta = seq_delta seq (uf_next_seq (ro_flows st f))
      in if delta < 0 then Some (submit_late seq item st)
         else if delta = 0 then Some (submit_next emit_ok f seq item st)
         else map_option (submit_ahead emit_ok f seq item now_ns) (flow_make_window_room emit_ok f seq st))"

lemma eff_held_le:
  "eff f st st' {#} \<Longrightarrow> card (valid_slots st' f) \<le> card (valid_slots st f) \<Longrightarrow> ro_held st < CAP \<Longrightarrow> ro_held st' < CAP"
  by (auto simp: eff_def acct_def word_less_nat_alt)

lemma submit_body_spec:
  assumes w: "wf f 1 256 st" and cap: "ro_held st < UDP_REORDER_HELD_CAP"
  shows "\<exists>st'. submit_body ok hold_ns f seq item now st = Some st' \<and> eff f st st' {#(seq, item)#} \<and> adv f (2 ^ 31 + 512) st st'"
proof -
  define s1 where "s1 = (if uf_held (ro_flows st f) \<noteq> 0 \<and> uf_gap_since_ns (ro_flows st f) \<noteq> 0
      \<and> now - uf_gap_since_ns (ro_flows st f) \<ge> hold_ns then flow_skip_gap ok f st else st)"
  have s1: "eff f st s1 {#}" "adv f 256 st s1" "card (valid_slots s1 f) \<le> card (valid_slots st f)"
  proof -
    show "eff f st s1 {#}" using skip_gap_eff(1) [OF w] w by (simp add: s1_def eff_def)
    show "adv f 256 st s1" using skip_gap_eff(2) [OF w] adv_mono [OF adv_refl] by (simp add: s1_def)
    show "card (valid_slots s1 f) \<le> card (valid_slots st f)"
      using skip_gap_eff(3) [OF w, of ok] wf_held_zero [OF w] by (auto simp: s1_def intro: less_imp_le)
  qed
  have w1: "wf f 1 256 s1" and cap1: "ro_held s1 < UDP_REORDER_HELD_CAP"
    using s1 eff_held_le [OF s1(1,3) cap] by (auto simp: eff_def)
  have body: "submit_body ok hold_ns f seq item now st =
      (if seq_delta seq (nxt f s1) < 0 then Some (submit_late seq item s1)
       else if seq_delta seq (nxt f s1) = 0 then Some (submit_next ok f seq item s1)
       else map_option (submit_ahead ok f seq item now) (flow_make_window_room ok f seq s1))"
    unfolding submit_body_def Let_def s1_def [symmetric] nxt_def ..
  have "\<exists>st'. submit_body ok hold_ns f seq item now st = Some st' \<and> eff f s1 st' {#(seq, item)#} \<and> adv f (2 ^ 31 + 256) s1 st'"
  proof (cases "0 < seq_delta seq (nxt f s1)")
    case True
    obtain s2 where s2: "flow_make_window_room ok f seq s1 = Some s2" "eff f s1 s2 {#}" "adv f (2 ^ 31) s1 s2"
      "0 \<le> seq_delta seq (nxt f s2)" "seq_delta seq (nxt f s2) < 256" "card (valid_slots s2 f) \<le> card (valid_slots s1 f)"
      using make_room_spec [OF w1 True, of ok] by auto
    have w2: "wf f 1 256 s2" using s2(2) by (simp add: eff_def)
    note sa = submit_ahead_spec [OF w2 s2(4,5) eff_held_le [OF s2(2,6) cap1], of ok item now]
    have "adv f (2 ^ 31 + 256) s1 (submit_ahead ok f seq item now s2)" by (rule adv_trans [OF s2(3) sa(2)]) simp
    then show ?thesis using body True s2(1) eff_trans [OF s2(2) sa(1)] by simp
  next
    case False
    show ?thesis
    proof (cases "seq_delta seq (nxt f s1) = 0")
      case True
      then have "seq = nxt f s1" using seq_delta_cases(2) [of seq "nxt f s1"] by (simp add: unat_eq_zero del: of_nat_unat)
      note n = submit_next_spec [OF w1 this, of ok item]
      show ?thesis using body True n(1) adv_mono [OF n(2), of "2 ^ 31 + 256"] by auto
    next
      case neg: False
      note n = submit_late_spec [OF w1, of seq item]
      show ?thesis using body neg False n(1) adv_mono [OF n(2), of "2 ^ 31 + 256"] by auto
    qed
  qed
  then obtain st' where st': "submit_body ok hold_ns f seq item now st = Some st'" "eff f s1 st' {#(seq, item)#}"
    "adv f (2 ^ 31 + 256) s1 st'" by blast
  have "adv f (256 + (2 ^ 31 + 256)) st st'" by (rule adv_trans [OF s1(2) st'(3)]) simp
  then show ?thesis using st'(1) eff_trans [OF s1(1) st'(2)] by simp
qed

lemma submit_unfold:
  "dp_udp_reorder_submit ok True hold_ns key epoch seq item now st =
     (case flow_lookup key epoch seq now st of (f, st) \<Rightarrow> submit_body ok hold_ns f seq item now st)"
  by (simp add: dp_udp_reorder_submit_def submit_body_def)

lemma submit_cases:
  assumes inv: "reorder_inv st" and cap: "ro_held st < UDP_REORDER_HELD_CAP"
  obtains f st1 st' where "flow_lookup key epoch seq now st = (f, st1)" "f < UDP_REORDER_FLOW_CAP" "reorder_inv st1"
    "dp_udp_reorder_submit ok True hold_ns key epoch seq item now st = Some st'"
    "acct f st st1 {#}" "eff f st1 st' {#(seq, item)#}" "adv f (2 ^ 31 + 512) st1 st'" "uf_valid (ro_flows st1 f)"
proof -
  obtain f st1 where l: "flow_lookup key epoch seq now st = (f, st1)" by fastforce
  note s = lookup_spec [OF inv l]
  have "ro_held st1 < UDP_REORDER_HELD_CAP" using s(5) cap by (simp add: word_less_nat_alt)
  from submit_body_spec [OF inv_flow(1) [OF s(2,1)] this, of ok hold_ns seq item now]
  obtain st' where b: "submit_body ok hold_ns f seq item now st1 = Some st'"
    "eff f st1 st' {#(seq, item)#}" "adv f (2 ^ 31 + 512) st1 st'" by blast
  have "dp_udp_reorder_submit ok True hold_ns key epoch seq item now st = Some st'" using l b(1) by (simp add: submit_unfold)
  from that [OF l s(1,2) this s(3) b(2,3) s(4)] show ?thesis .
qed

section \<open>Collection and reset\<close>

lemma gc_flow_spec:
  assumes inv: "reorder_inv st" and f: "f < UDP_REORDER_FLOW_CAP"
  shows "reorder_inv (gc_flow ok hold_ns now f st)"
    "held_items (gc_flow ok hold_ns now f st) + out_items (gc_flow ok hold_ns now f st) = held_items st + out_items st"
proof -
  note w = inv_flow [OF inv f]
  define s1 where "s1 = (if uf_held (ro_flows st f) \<noteq> 0 \<and> uf_gap_since_ns (ro_flows st f) \<noteq> 0
      \<and> now - uf_gap_since_ns (ro_flows st f) \<ge> hold_ns then flow_skip_gap ok f st else st)"
  have s1: "eff f st s1 {#}" using skip_gap_eff(1) [OF w(1)] w(1) by (simp add: s1_def eff_def)
  let ?st' = "gc_flow ok hold_ns now f st"
  have "acct f st ?st' {#} \<and> wf f 1 256 ?st' \<and> (\<not> uf_valid (ro_flows ?st' f) \<longrightarrow> valid_slots ?st' f = {})"
  proof (cases "uf_valid (ro_flows st f)")
    case False
    then show ?thesis using w by (simp add: gc_flow_def)
  next
    case True
    then have eq: "?st' = (if uf_held (ro_flows s1 f) = 0 \<and> now - uf_last_seen_ns (ro_flows s1 f) > UDP_REORDER_FLOW_IDLE_NS
        then upd_flow f (\<lambda>_. flow_zero) s1 else s1)"
      by (simp add: gc_flow_def Let_def s1_def [symmetric])
    have z: "valid_slots s1 f = {}" if "uf_held (ro_flows s1 f) = 0" using s1 that wf_held_zero by (auto simp: eff_def)
    then have "wf f 1 256 (upd_flow f (\<lambda>_. flow_zero) s1)" if "uf_held (ro_flows s1 f) = 0"
      using that by (simp add: wf_def flow_zero_def)
    then show ?thesis using s1 True z by (auto simp: eq eff_def acct_def)
  qed
  then have a: "acct f st ?st' {#}" "wf f 1 256 ?st'" "\<not> uf_valid (ro_flows ?st' f) \<longrightarrow> valid_slots ?st' f = {}" by auto
  show "reorder_inv ?st'" by (rule inv_step [OF inv a(1) f a(2,3)])
  show "held_items ?st' + out_items ?st' = held_items st + out_items st" using acct_global(1) [OF a(1) f] by simp
qed

lemma gc_fold_spec:
  "reorder_inv st \<Longrightarrow> (\<And>n. n \<in> set ns \<Longrightarrow> idx n < UDP_REORDER_FLOW_CAP) \<Longrightarrow>
   reorder_inv (fold (\<lambda>n. gc_flow ok hold_ns now (idx n)) ns st)
   \<and> held_items (fold (\<lambda>n. gc_flow ok hold_ns now (idx n)) ns st) + out_items (fold (\<lambda>n. gc_flow ok hold_ns now (idx n)) ns st)
     = held_items st + out_items st"
proof (induction ns arbitrary: st)
  case (Cons n ns)
  note g = gc_flow_spec [OF Cons.prems(1), of "idx n" ok hold_ns now]
  from Cons.IH [OF g(1)] g(2) Cons.prems show ?case by simp
qed simp

definition reset_flow :: "nat \<Rightarrow> reorder \<Rightarrow> reorder" where
  "reset_flow f st = upd_flow f (\<lambda>_. flow_zero) (if uf_valid (ro_flows st f) then flow_drop_slots f st else st)"

lemma reset_flow_spec:
  assumes inv: "reorder_inv st" and f: "f < UDP_REORDER_FLOW_CAP"
  shows "reorder_inv (reset_flow f st)" "valid_slots (reset_flow f st) f = {}"
    "held_items (reset_flow f st) + out_items (reset_flow f st) = held_items st + out_items st"
    "g \<noteq> f \<Longrightarrow> valid_slots (reset_flow f st) g = valid_slots st g"
proof -
  note w = inv_flow [OF inv f]
  define s1 where "s1 = (if uf_valid (ro_flows st f) then flow_drop_slots f st else st)"
  have s1: "acct f st s1 {#}" "valid_slots s1 f = {}" using drop_slots_spec [OF w(2)] w(3) by (auto simp: s1_def)
  have a: "acct f st (reset_flow f st) {#}" using s1(1) by (auto simp: acct_def reset_flow_def s1_def [symmetric])
  have wz: "wf f 1 256 (reset_flow f st)" using s1(2) by (simp add: wf_def reset_flow_def s1_def [symmetric] flow_zero_def)
  show v: "valid_slots (reset_flow f st) f = {}" using s1(2) by (simp add: reset_flow_def s1_def [symmetric])
  show "reorder_inv (reset_flow f st)" by (rule inv_step [OF inv a f wz]) (simp add: v)
  show "held_items (reset_flow f st) + out_items (reset_flow f st) = held_items st + out_items st"
    using acct_global(1) [OF a f] by simp
  show "g \<noteq> f \<Longrightarrow> valid_slots (reset_flow f st) g = valid_slots st g"
    using a by (intro valid_slots_cong) (simp add: acct_def)
qed

lemma reset_fold_spec:
  assumes "reorder_inv st"
  shows "n \<le> UDP_REORDER_FLOW_CAP \<Longrightarrow> reorder_inv (fold reset_flow [0..<n] st)
    \<and> held_items (fold reset_flow [0..<n] st) + out_items (fold reset_flow [0..<n] st) = held_items st + out_items st
    \<and> (\<forall>f<n. valid_slots (fold reset_flow [0..<n] st) f = {})"
proof (induction n)
  case 0
  then show ?case using assms by simp
next
  case (Suc n)
  then have "reorder_inv (fold reset_flow [0..<n] st)" "n < UDP_REORDER_FLOW_CAP" by auto
  note r = reset_flow_spec [OF this]
  show ?case using Suc r by (auto simp: less_Suc_eq)
qed

section \<open>Properties\<close>

definition reorder_init :: reorder where
  "reorder_init = \<lparr>ro_flows = (\<lambda>_. flow_zero), ro_slots = (\<lambda>_ _. slot_zero), ro_held = 0, ro_gc_cursor = 0, ro_stamp = 0,
     ro_stats = \<lparr>rs_held = 0, rs_released = 0, rs_late = 0, rs_gap = 0, rs_overflow = 0, rs_evicted = 0, rs_high_water = 0\<rparr>,
     ro_out = []\<rparr>"

lemma reorder_init_inv: "reorder_inv reorder_init"
  by (simp add: reorder_inv_def reorder_init_def wf_def valid_slots_def slot_zero_def flow_zero_def)

lemma submit_total:
  assumes "reorder_inv st" and "ro_held st < UDP_REORDER_HELD_CAP"
  shows "\<exists>st'. dp_udp_reorder_submit emit_ok enabled hold_ns key epoch seq item now_ns st = Some st' \<and> reorder_inv st'
    \<and> held_items st' + out_items st' = held_items st + out_items st + {#(seq, item)#}"
proof (cases enabled)
  case False
  have "acct 0 st (item_emit emit_ok seq item False st) {#(seq, item)#}" by (simp add: acct_def)
  moreover have f0: "0 < UDP_REORDER_FLOW_CAP" by (simp add: UDP_REORDER_FLOW_CAP_def)
  moreover have "wf 0 1 256 (item_emit emit_ok seq item False st)"
    using inv_flow(1) [OF assms(1) f0] by (simp add: wf_def)
  ultimately have "reorder_inv (item_emit emit_ok seq item False st)"
    using inv_step [OF assms(1)] inv_flow(3) [OF assms(1) f0] by simp
  moreover have "held_items (item_emit emit_ok seq item False st) = held_items st" by (simp add: held_items_def)
  ultimately show ?thesis using False by (simp add: dp_udp_reorder_submit_def)
next
  case True
  obtain f st1 st' where s: "f < UDP_REORDER_FLOW_CAP" "reorder_inv st1"
    "dp_udp_reorder_submit emit_ok True hold_ns key epoch seq item now_ns st = Some st'"
    "acct f st st1 {#}" "eff f st1 st' {#(seq, item)#}" "uf_valid (ro_flows st1 f)"
    using submit_cases [OF assms] by metis
  have a: "acct f st1 st' {#(seq, item)#}" "wf f 1 256 st'" "uf_valid (ro_flows st' f)" using s(5,6) by (auto simp: eff_def)
  have "reorder_inv st'" by (rule inv_step [OF s(2) a(1) s(1) a(2)]) (simp add: a(3))
  then show ?thesis using True s(3) acct_global(1) [OF s(4,1)] acct_global(1) [OF a(1) s(1)] by simp
qed

text \<open>C1: as long as the worker holds fewer than the cap of packets, a submission terminates,
  keeps the invariant of the buffer (every held packet in its slot, ahead of the next expected
  number and inside the window, counters exact), and every packet has exactly one fate: the held
  packets, the emitted and the dropped ones together gain exactly the packet submitted.\<close>

theorem reorder_submit_total:
  assumes "reorder_inv st" and "ro_held st < UDP_REORDER_HELD_CAP"
  shows "\<exists>st'. dp_udp_reorder_submit emit_ok enabled hold_ns key epoch seq item now_ns st = Some st' \<and> reorder_inv st'
    \<and> held_items st' + out_items st' = held_items st + out_items st + {#(seq, item)#}"
  using assms by (rule submit_total)

theorem reorder_submit_total_witness:
  "\<exists>st'. dp_udp_reorder_submit (\<lambda>_. True) True 2000000 key_zero 0 40 item_zero 5 reorder_init = Some st' \<and> reorder_inv st'
    \<and> held_items st' + out_items st' = held_items reorder_init + out_items reorder_init + {#(40, item_zero)#}"
  by (rule reorder_submit_total [OF reorder_init_inv]) (simp add: reorder_init_def UDP_REORDER_HELD_CAP_def)

text \<open>C2: packets of a flow are emitted in order: for a flow that is in the table with the same
  epoch, the sequence numbers emitted by a submission are strictly increasing, none is below the
  next number expected before, and all are below the next number expected afterwards, also when
  the 32-bit numbers wrap. Successive submissions therefore emit increasing numbers.\<close>

theorem reorder_in_order:
  assumes "reorder_inv st" and "ro_held st < UDP_REORDER_HELD_CAP" and "live_flow st key epoch f"
    and "dp_udp_reorder_submit emit_ok True hold_ns key epoch seq item now_ns st = Some st'"
  shows "\<exists>outs. ro_out st' = ro_out st @ outs
    \<and> sorted_wrt (<) (map (\<lambda>q. unat (q - nxt f st)) (emitted outs))
    \<and> (\<forall>q \<in> set (emitted outs). unat (q - nxt f st) < unat (nxt f st' - nxt f st))"
proof -
  obtain g st1 st2 where s: "flow_lookup key epoch seq now_ns st = (g, st1)"
    "dp_udp_reorder_submit emit_ok True hold_ns key epoch seq item now_ns st = Some st2" "adv g (2 ^ 31 + 512) st1 st2"
    using submit_cases [OF assms(1,2)] by metis
  have "f = g \<and> nxt g st1 = nxt g st \<and> ro_out st1 = ro_out st" using lookup_spec(6) [OF assms(1) s(1) assms(3)] .
  then show ?thesis using s(2,3) assms(4) by (auto simp: adv_def in_order_def)
qed

definition one_held :: reorder where
  "one_held = the (dp_udp_reorder_submit (\<lambda>_. True) True 2000000 key_zero 0 40 item_zero 5 reorder_init)"

lemma one_held_ok: "reorder_inv one_held"
proof -
  have "ro_held reorder_init < UDP_REORDER_HELD_CAP" by (simp add: reorder_init_def UDP_REORDER_HELD_CAP_def)
  from submit_total [OF reorder_init_inv this, of "\<lambda>_. True" True 2000000 key_zero 0 40 item_zero 5]
  show ?thesis by (auto simp: one_held_def)
qed

theorem reorder_in_order_witness:
  "\<exists>st' outs. dp_udp_reorder_submit (\<lambda>_. True) True 2000000 key_zero 0 8 item_zero 6 one_held = Some st'
     \<and> ro_out st' = ro_out one_held @ outs \<and> sorted_wrt (<) (map (\<lambda>q. unat (q - nxt 0 one_held)) (emitted outs))"
proof -
  have cap: "ro_held one_held < UDP_REORDER_HELD_CAP" and live: "live_flow one_held key_zero 0 0" by code_simp+
  obtain st' where "dp_udp_reorder_submit (\<lambda>_. True) True 2000000 key_zero 0 8 item_zero 6 one_held = Some st'"
    using submit_total [OF one_held_ok cap] by blast
  from reorder_in_order [OF one_held_ok cap live this] this show ?thesis by blast
qed

text \<open>Collection of expired gaps and idle flows keeps the invariant and loses no packet.\<close>

lemma reorder_gc_keeps:
  assumes "reorder_inv st"
  shows "reorder_inv (dp_udp_reorder_gc emit_ok hold_ns now_ns st)
    \<and> held_items (dp_udp_reorder_gc emit_ok hold_ns now_ns st) + out_items (dp_udp_reorder_gc emit_ok hold_ns now_ns st)
      = held_items st + out_items st"
proof -
  define s1 where "s1 = fold (\<lambda>n. gc_flow emit_ok hold_ns now_ns (unat ((ro_gc_cursor st + of_nat n) mod of_nat UDP_REORDER_FLOW_CAP)))
      [0..<UDP_REORDER_GC_SLICE] st"
  have "unat ((ro_gc_cursor st + of_nat n) mod of_nat UDP_REORDER_FLOW_CAP) < UDP_REORDER_FLOW_CAP" for n
    by (simp add: UDP_REORDER_FLOW_CAP_def unat_mod_distrib)
  then have "reorder_inv s1 \<and> held_items s1 + out_items s1 = held_items st + out_items st"
    unfolding s1_def by (intro gc_fold_spec [OF assms]) auto
  moreover obtain c where eq: "dp_udp_reorder_gc emit_ok hold_ns now_ns st = s1\<lparr>ro_gc_cursor := c\<rparr>"
    by (simp add: dp_udp_reorder_gc_def Let_def s1_def)
  have "reorder_inv (s1\<lparr>ro_gc_cursor := c\<rparr>) = reorder_inv s1" "held_items (s1\<lparr>ro_gc_cursor := c\<rparr>) = held_items s1"
    "out_items (s1\<lparr>ro_gc_cursor := c\<rparr>) = out_items s1"
    by (simp_all add: reorder_inv_def wf_def held_items_def out_items_def)
  ultimately show ?thesis by (simp add: eq)
qed

text \<open>A reset of the worker leaves no packet behind: afterwards nothing is held, and every
  packet that was held has been handed to the drop callback.\<close>

lemma reorder_reset_releases:
  assumes "reorder_inv st"
  shows "held_items (dp_udp_reorder_reset_worker st) = {#}
    \<and> out_items (dp_udp_reorder_reset_worker st) = out_items st + held_items st
    \<and> reorder_inv (dp_udp_reorder_reset_worker st)"
proof -
  define s1 where "s1 = fold reset_flow [0..<UDP_REORDER_FLOW_CAP] st"
  have r: "reorder_inv s1" "held_items s1 + out_items s1 = held_items st + out_items st"
    "\<And>f. f < UDP_REORDER_FLOW_CAP \<Longrightarrow> valid_slots s1 f = {}"
    using reset_fold_spec [OF assms order_refl] by (auto simp: s1_def)
  have eq: "dp_udp_reorder_reset_worker st = s1\<lparr>ro_held := 0, ro_gc_cursor := 0\<rparr>"
    by (simp add: dp_udp_reorder_reset_worker_def s1_def reset_flow_def [abs_def])
  have "held_items s1 = {#}" unfolding held_items_def by (rule sum.neutral) (simp add: r(3) flow_items_def)
  moreover have "held_items (s1\<lparr>ro_held := 0, ro_gc_cursor := 0\<rparr>) = held_items s1"
    "out_items (s1\<lparr>ro_held := 0, ro_gc_cursor := 0\<rparr>) = out_items s1"
    by (simp_all add: held_items_def out_items_def)
  moreover have "reorder_inv (s1\<lparr>ro_held := 0, ro_gc_cursor := 0\<rparr>)"
    using r(1,3) by (simp add: reorder_inv_def wf_def)
  ultimately show ?thesis using r(2) by (simp add: eq ac_simps)
qed

end
