(* ===== verification/Reorder_Cap.thy ===== *)
theory Reorder_Cap
  imports Udp_Reorder
begin

text \<open>
  The reorder buffer of \<open>src/core/dataplane/udp_reorder.c\<close> when a worker holds as many packets as it may: a submission that
  makes room by skipping a gap of its own flow can leave its packet behind the next expected number, and the worker
  hangs with a later packet of the flow.
\<close>

section \<open>A flow that cannot advance\<close>

text \<open>A flow that holds packets, none of them ahead of the next expected number.\<close>

definition stuck :: "nat \<Rightarrow> u32 \<Rightarrow> reorder \<Rightarrow> bool" where
  "stuck f seq st \<longleftrightarrow> flow_smallest_ahead f st = None \<and> uf_held (ro_flows st f) \<noteq> 0
     \<and> int UDP_REORDER_WINDOW \<le> seq_delta seq (uf_next_seq (ro_flows st f))"

lemma stuck_skip: "stuck f seq st \<Longrightarrow> stuck f seq (flow_skip_gap ok f st)"
  by (auto simp: stuck_def flow_skip_gap_def flow_smallest_ahead_def)

lemma stuck_diverges: "stuck f seq st \<Longrightarrow> window_loop ok f seq st = None"
proof (rule ccontr)
  assume "stuck f seq st" and "window_loop ok f seq st \<noteq> None"
  then obtain st' where "window_loop ok f seq st = Some st'" by auto
  then have "\<not> stuck f seq st"
  proof (induct rule: window_loop.raw_induct [rotated, consumes 1])
    case (1 loop ok f seq st y)
    show ?case
    proof
      assume st: "stuck f seq st"
      then have "loop ok f seq (flow_skip_gap ok f st) = Some y" using 1(2) by (simp add: stuck_def)
      from 1(1) [OF this] stuck_skip [OF st, of ok] show False by blast
    qed
  qed
  with \<open>stuck f seq st\<close> show False by blast
qed

lemma ahead_none:
  assumes "\<And>i. i < UDP_REORDER_WINDOW \<Longrightarrow> us_valid (ro_slots st f i) \<Longrightarrow> seq_delta (us_seq (ro_slots st f i)) (uf_next_seq (ro_flows st f)) < 0"
  shows "flow_smallest_ahead f st = None"
proof -
  have "fold (\<lambda>i (bd, bs). if \<not> P i then (bd, bs) else if d i \<ge> 0 \<and> d i < bd then (d i, q i) else (bd, bs)) xs (M, 0) = (M, 0)"
    if "\<forall>i \<in> set xs. P i \<longrightarrow> d i < 0" for P and d :: "nat \<Rightarrow> int" and q :: "nat \<Rightarrow> u32" and xs M
    using that by (induction xs) auto
  then show ?thesis using assms by (simp add: flow_smallest_ahead_def Let_def)
qed

section \<open>A submission at the cap\<close>

lemma live_lookup:
  assumes "live_flow st key epoch f"
  shows "flow_lookup key epoch seq now st = (f, upd_flow f (\<lambda>fl. fl\<lparr>uf_last_seen_ns := now, uf_stamp := ro_stamp st + 1\<rparr>)
     (st\<lparr>ro_stamp := ro_stamp st + 1\<rparr>))"
  using assms by (simp add: live_flow_def flow_lookup_def Let_def)

text \<open>A flow that holds one packet, \<open>q\<close>.\<close>

definition holds_one :: "reorder \<Rightarrow> nat \<Rightarrow> u32 \<Rightarrow> bool" where
  "holds_one st f q \<longleftrightarrow> valid_slots st f = {win_idx q} \<and> us_seq (ro_slots st f (win_idx q)) = q"

text \<open>Operations that keep every flow in its place of the table.\<close>

definition same_places :: "reorder \<Rightarrow> reorder \<Rightarrow> bool" where
  "same_places st st' \<longleftrightarrow> (\<forall>g. uf_valid (ro_flows st' g) = uf_valid (ro_flows st g) \<and> uf_key (ro_flows st' g) = uf_key (ro_flows st g)
     \<and> uf_epoch (ro_flows st' g) = uf_epoch (ro_flows st g))"

lemma scan_same:
  assumes "lookup_scan flows key idxs v = Inl f" "\<And>g. uf_valid (flows' g) = uf_valid (flows g) \<and> uf_key (flows' g) = uf_key (flows g)"
  shows "lookup_scan flows' key idxs v' = Inl f"
  using assms by (induction flows key idxs v arbitrary: v' rule: lookup_scan.induct) (auto split: if_splits)

lemma live_same_places: "\<lbrakk>live_flow st key epoch f; same_places st st'\<rbrakk> \<Longrightarrow> live_flow st' key epoch f"
  using scan_same [of "ro_flows st" key _ _ f "ro_flows st'"] by (simp add: live_flow_def same_places_def Let_def) blast

text \<open>The gap before \<open>q\<close> is skipped: the flow holds nothing and expects the number after \<open>q\<close>.\<close>

lemma skip_to_one:
  fixes ok :: "dp_udp_reorder_item \<Rightarrow> bool"
  assumes "wf f 1 256 st" "holds_one st f q"
  defines "st' \<equiv> flow_skip_gap ok f st"
  shows "valid_slots st' f = {}" "uf_next_seq (ro_flows st' f) = q + 1" "uf_held (ro_flows st' f) = 0"
    "uf_gap_since_ns (ro_flows st' f) = 0" "ro_held st' = ro_held st - 1" "same_places st st'"
proof -
  let ?n = "uf_next_seq (ro_flows st f)"
  have w: "1 \<le> unat (q - ?n)" "unat (q - ?n) < 256" "unat (uf_held (ro_flows st f)) = 1" "1 \<le> unat (ro_held st)"
    using assms(1,2) by (auto simp: wf_def holds_one_def)
  have wf0: "wf f 0 256 st" using assms(1) by (auto simp: wf_def)
  have "flow_smallest_ahead f st = Some (int (unat (q - ?n)), q)"
    using smallest_ahead_spec [OF wf0] assms(2) by (auto simp: holds_one_def nxt_def Let_def)
  moreover have "0 < int (unat (q - ?n))" using w(1) by linarith
  ultimately obtain d where ahead: "flow_smallest_ahead f st = Some (d, q)" "0 < d" by blast
  define j where "j = upd_stats (\<lambda>s. s\<lparr>rs_gap := rs_gap s + of_int d\<rparr>) (upd_flow f (\<lambda>fl. fl\<lparr>uf_next_seq := q\<rparr>) st)"
  have held: "uf_held (ro_flows st f) = 1" using w(3) by (simp add: word_unat_eq_iff)
  have slots: "us_valid (ro_slots st f i) \<longleftrightarrow> i = win_idx q" if "i < UDP_REORDER_WINDOW" for i
    using assms(2) that by (auto simp: holds_one_def valid_slots_def)
  have wi: "win_idx x < UDP_REORDER_WINDOW" for x by (simp add: win_idx_def UDP_REORDER_WINDOW_def unat_mod_distrib)
  have q: "us_valid (ro_slots st f (win_idx q))" "us_seq (ro_slots st f (win_idx q)) = q"
    using slots [OF wi] assms(2) by (simp_all add: holds_one_def)
  have pos: "ro_held st > 0" using w(4) by (simp add: word_less_nat_alt)
  let ?o = "flush_one ok f j"
  have fl1: "flushable f j" using q by (simp add: flushable_def j_def Let_def)
  have fo: "uf_next_seq (ro_flows ?o f) = q + 1" "uf_held (ro_flows ?o f) = 0" "ro_held ?o = ro_held st - 1"
    "\<And>i. i < UDP_REORDER_WINDOW \<Longrightarrow> \<not> us_valid (ro_slots ?o f i)"
    using slots pos by (auto simp: flush_one_def Let_def j_def held dec_held_def item_emit_def item_drop_def upd_stats_def upd_flow_def upd_slot_def)
  have fl2: "\<not> flushable f ?o" using fo(4) [OF wi] by (simp add: flushable_def Let_def)
  have "flush_loop ok f j = ?o" using fl1 fl2 by (simp add: flush_loop.simps [of _ f])
  then have "flow_flush_contiguous ok f j = upd_flow f (\<lambda>fl. fl\<lparr>uf_gap_since_ns := 0\<rparr>) ?o"
    using fo(2) by (simp add: flow_flush_contiguous_def upd_flow_def)
  then have eq: "st' = upd_flow f (\<lambda>fl. fl\<lparr>uf_gap_since_ns := 0\<rparr>) ?o"
    using fo(2) ahead by (simp add: st'_def flow_skip_gap_def Let_def j_def [symmetric])
  show "valid_slots st' f = {}" unfolding eq using fo(4) by (auto simp: valid_slots_def)
  show "uf_next_seq (ro_flows st' f) = q + 1" "uf_held (ro_flows st' f) = 0"
    "uf_gap_since_ns (ro_flows st' f) = 0" "ro_held st' = ro_held st - 1"
    unfolding eq using fo(1-3) by simp_all
  show "same_places st st'"
    unfolding eq same_places_def
    by (simp add: flush_one_def Let_def j_def dec_held_def item_emit_def item_drop_def upd_stats_def upd_flow_def upd_slot_def)
qed

text \<open>A packet stored in an empty flow.\<close>

lemma hold_in_empty:
  fixes item :: dp_udp_reorder_item and now :: u64 and seq :: u32
  assumes "valid_slots st f = {}" "uf_held (ro_flows st f) = 0"
  defines "st' \<equiv> submit_hold f seq item now st"
  shows "valid_slots st' f = {win_idx seq}" "us_seq (ro_slots st' f (win_idx seq)) = seq"
    "uf_next_seq (ro_flows st' f) = uf_next_seq (ro_flows st f)" "uf_held (ro_flows st' f) = 1" "same_places st st'"
proof -
  have wi: "win_idx seq < UDP_REORDER_WINDOW" by (simp add: win_idx_def UDP_REORDER_WINDOW_def unat_mod_distrib)
  have "\<not> us_valid (ro_slots st f i)" if "i < UDP_REORDER_WINDOW" for i using assms(1) that by (auto simp: valid_slots_def)
  then show "valid_slots st' f = {win_idx seq}" "us_seq (ro_slots st' f (win_idx seq)) = seq"
    "uf_next_seq (ro_flows st' f) = uf_next_seq (ro_flows st f)" "uf_held (ro_flows st' f) = 1" "same_places st st'"
    using wi assms(2) by (auto simp: st'_def submit_hold_def Let_def valid_slots_def update_high_water_def same_places_def upd_flow_def)
qed

text \<open>Whatever comes a window ahead is then never stored.\<close>

lemma stuck_submit:
  assumes "live_flow st key epoch f" "valid_slots st f = {win_idx s}" "us_seq (ro_slots st f (win_idx s)) = s"
    and "uf_held (ro_flows st f) \<noteq> 0" "seq_delta s (uf_next_seq (ro_flows st f)) < 0"
    and "int UDP_REORDER_WINDOW \<le> seq_delta seq (uf_next_seq (ro_flows st f))"
  shows "dp_udp_reorder_submit ok True hold_ns key epoch seq item now st = None"
proof -
  define st1 where "st1 = upd_flow f (\<lambda>fl. fl\<lparr>uf_last_seen_ns := now, uf_stamp := ro_stamp st + 1\<rparr>) (st\<lparr>ro_stamp := ro_stamp st + 1\<rparr>)"
  have slot: "i = win_idx s" if "i < UDP_REORDER_WINDOW" "us_valid (ro_slots st f i)" for i
    using assms(2) that by (auto simp: valid_slots_def)
  have "flow_smallest_ahead f st1 = None"
    by (rule ahead_none) (use slot assms(3,5) in \<open>auto simp: st1_def\<close>)
  then have "stuck f seq st1" using assms(4,6) by (simp add: stuck_def st1_def)
  then have s: "stuck f seq st1" "stuck f seq (flow_skip_gap ok f st1)" using stuck_skip by auto
  have room: "flow_make_window_room ok f seq x = None" if "stuck f seq x" for x
    using stuck_diverges [OF that] by (simp add: flow_make_window_room_def)
  have far: "0 < seq_delta seq (uf_next_seq (ro_flows x f))" if "stuck f seq x" for x
    using that by (simp add: stuck_def UDP_REORDER_WINDOW_def)
  have "submit_body ok hold_ns f seq item now st1 = None"
    using room [OF s(1)] room [OF s(2)] far [OF s(1)] far [OF s(2)] by (simp add: submit_body_def Let_def)
  then show ?thesis by (simp add: submit_unfold live_lookup [OF assms(1)] st1_def)
qed

section \<open>The property\<close>


section \<open>Reaching the cap\<close>

text \<open>Packets that are submitted at one instant, from a worker that has held nothing yet.\<close>

primrec submits :: "(dp_udp_reorder_item \<Rightarrow> bool) \<Rightarrow> u64 \<Rightarrow> u64 \<Rightarrow> (dp_udp_reorder_key \<times> u32) list \<Rightarrow> reorder \<Rightarrow> reorder option" where
  "submits ok hold_ns now [] st = Some st"
| "submits ok hold_ns now (p # ps) st =
     Option.bind (dp_udp_reorder_submit ok True hold_ns (fst p) 0 (snd p) item_zero now st) (submits ok hold_ns now ps)"

lemma submits_append:
  "submits ok hold_ns now (ps @ qs) st = Option.bind (submits ok hold_ns now ps st) (submits ok hold_ns now qs)"
  by (induction ps arbitrary: st) (auto split: Option.bind_splits)

lemma submit_inv:
  assumes "reorder_inv st" "ro_held st < UDP_REORDER_HELD_CAP" "dp_udp_reorder_submit ok en hold_ns key epoch seq item now st = Some st'"
  shows "reorder_inv st'"
  using submit_total [OF assms(1,2), of ok en hold_ns key epoch seq item now] assms(3) by auto

definition others_same :: "nat set \<Rightarrow> reorder \<Rightarrow> reorder \<Rightarrow> bool" where
  "others_same F st st' \<longleftrightarrow> (\<forall>g. g \<notin> F \<longrightarrow> ro_flows st' g = ro_flows st g \<and> ro_slots st' g = ro_slots st g)"

lemma others_same_trans: "\<lbrakk>others_same F st st'; others_same G st' st''\<rbrakk> \<Longrightarrow> others_same (F \<union> G) st st''"
  by (simp add: others_same_def)

definition first_way :: "dp_udp_reorder_key \<Rightarrow> nat" where
  "first_way key = unat (key_hash key AND (of_nat UDP_REORDER_SETS - 1)) * UDP_REORDER_WAYS"

lemma first_way_bound: "first_way key < UDP_REORDER_FLOW_CAP"
proof -
  have "unat (key_hash key AND 127) \<le> unat (127 :: u32)" by (simp only: word_le_nat_alt [symmetric] word_and_le1)
  then show ?thesis by (simp add: first_way_def UDP_REORDER_SETS_def UDP_REORDER_WAYS_def UDP_REORDER_FLOW_CAP_def)
qed

text \<open>A flow in the table that expects number 1 and has no gap from an earlier time.\<close>

definition tracked :: "reorder \<Rightarrow> dp_udp_reorder_key \<Rightarrow> u64 \<Rightarrow> nat \<Rightarrow> bool" where
  "tracked st key now f \<longleftrightarrow> live_flow st key 0 f \<and> uf_next_seq (ro_flows st f) = 1 \<and> uf_gap_since_ns (ro_flows st f) \<in> {0, now}"

lemma tracked_other: "\<lbrakk>tracked st key now f; same_places st st'; ro_flows st' f = ro_flows st f\<rbrakk> \<Longrightarrow> tracked st' key now f"
  using live_same_places by (auto simp: tracked_def)

lemma new_flow:
  assumes inv: "reorder_inv st" and f: "f = first_way key" "\<not> uf_valid (ro_flows st f)"
  shows "\<exists>st'. dp_udp_reorder_submit ok True hold_ns key 0 0 item now st = Some st' \<and> tracked st' key now f
    \<and> valid_slots st' f = {} \<and> ro_held st' = ro_held st \<and> others_same {f} st st'"
proof -
  define st1 where "st1 = flow_reset f key 0 0 now st"
  have no: "\<not> us_valid (ro_slots st f i)" if "i < UDP_REORDER_WINDOW" for i
    using inv f that first_way_bound [of key] by (auto simp: reorder_inv_def valid_slots_def)
  have l: "flow_lookup key 0 0 now st = (f, st1)"
    using f(2) unfolding flow_lookup_def Let_def first_way_def [symmetric] f(1) [symmetric] st1_def
    by (simp add: UDP_REORDER_WAYS_def upt_conv_Cons)
  have st1: "uf_next_seq (ro_flows st1 f) = 0" "uf_held (ro_flows st1 f) = 0" "ro_slots st1 = ro_slots st" "ro_held st1 = ro_held st"
    "uf_valid (ro_flows st1 f)" "uf_key (ro_flows st1 f) = key" "uf_epoch (ro_flows st1 f) = 0" "uf_gap_since_ns (ro_flows st1 f) = 0"
    "\<And>g. g \<noteq> f \<Longrightarrow> ro_flows st1 g = ro_flows st g"
    using f(2) by (simp_all add: st1_def flow_reset_def Let_def UDP_REORDER_START_BACKTRACK_def flow_zero_def upd_flow_def)
  define st2 where "st2 = item_emit ok 0 item False (upd_flow f (\<lambda>fl. fl\<lparr>uf_next_seq := uf_next_seq fl + 1\<rparr>) st1)"
  have st2: "ro_flows st2 = (ro_flows st1)(f := (ro_flows st1 f)\<lparr>uf_next_seq := 1\<rparr>)" "ro_slots st2 = ro_slots st" "ro_held st2 = ro_held st"
    using st1 by (simp_all add: st2_def item_emit_def item_drop_def upd_flow_def)
  have "\<not> flushable f st2" using no [of "win_idx 1"] by (simp add: flushable_def Let_def st2 win_idx_def UDP_REORDER_WINDOW_def)
  then have "flush_loop ok f st2 = st2" by (subst flush_loop.simps) simp
  then have "submit_next ok f 0 item st1 = upd_flow f (\<lambda>fl. fl\<lparr>uf_gap_since_ns := (if uf_held fl \<noteq> 0 then uf_gap_since_ns fl else 0)\<rparr>) st2"
    by (simp only: submit_next_def flow_flush_contiguous_def st2_def [symmetric])
  then have "submit_next ok f 0 item st1 = upd_flow f (\<lambda>fl. fl\<lparr>uf_gap_since_ns := 0\<rparr>) st2"
    using st1(2) st2(1) by (simp add: upd_flow_def)
  moreover define st' where "st' = upd_flow f (\<lambda>fl. fl\<lparr>uf_gap_since_ns := 0\<rparr>) st2"
  ultimately have run: "dp_udp_reorder_submit ok True hold_ns key 0 0 item now st = Some st'"
    using st1(1,2) by (simp add: submit_unfold l submit_body_def Let_def seq_delta_def)
  have fl: "ro_flows st' f = (ro_flows st1 f)\<lparr>uf_next_seq := 1, uf_gap_since_ns := 0\<rparr>" by (simp add: st'_def st2 upd_flow_def)
  have "live_flow st' key 0 f"
    unfolding live_flow_def Let_def first_way_def [symmetric] f(1) [symmetric]
    using st1(5-7) by (simp add: fl UDP_REORDER_WAYS_def upt_conv_Cons key_equal_def)
  then have "tracked st' key now f" by (simp add: tracked_def fl)
  moreover have "valid_slots st' f = {}" "ro_held st' = ro_held st" "others_same {f} st st'"
    using no st1(9) by (auto simp: st'_def upd_flow_def st2 valid_slots_def others_same_def)
  ultimately show ?thesis using run by blast
qed

lemma hold_more:
  assumes cap: "ro_held st < UDP_REORDER_HELD_CAP" and t: "tracked st key now f" and s: "2 \<le> s" "s < 256" "s \<notin> valid_slots st f"
    and h: "0 < hold_ns"
  shows "\<exists>st'. dp_udp_reorder_submit ok True hold_ns key 0 (of_nat s) item now st = Some st' \<and> tracked st' key now f
    \<and> valid_slots st' f = insert s (valid_slots st f) \<and> us_seq (ro_slots st' f s) = of_nat s \<and> (\<forall>i. i \<noteq> s \<longrightarrow> ro_slots st' f i = ro_slots st f i)
    \<and> ro_held st' = ro_held st + 1 \<and> others_same {f} st st' \<and> same_places st st'"
proof -
  let ?q = "of_nat s :: u32"
  have live: "live_flow st key 0 f" and n: "uf_next_seq (ro_flows st f) = 1" and g: "uf_gap_since_ns (ro_flows st f) \<in> {0, now}"
    using t by (simp_all add: tracked_def)
  define st1 where "st1 = upd_flow f (\<lambda>fl. fl\<lparr>uf_last_seen_ns := now, uf_stamp := ro_stamp st + 1\<rparr>) (st\<lparr>ro_stamp := ro_stamp st + 1\<rparr>)"
  have w: "win_idx ?q = s" using s(2) by (simp add: win_idx_def UDP_REORDER_WINDOW_def unat_mod_distrib unsigned_of_nat take_bit_nat_eq_self)
  have "?q - 1 = of_nat (s - 1)" using s(1) by (simp add: of_nat_diff)
  then have "unat (?q - 1) = s - 1" using s(2) by (simp add: unsigned_of_nat take_bit_nat_eq_self)
  then have d: "seq_delta ?q 1 = int (s - 1)" using seq_delta_cases(1) [of ?q 1] s(2) by simp
  have near: "seq_delta ?q 1 < 256" "0 < seq_delta ?q 1" using s(1,2) unfolding d by linarith+
  have no: "\<not> us_valid (ro_slots st1 f s)" using s(2,3) by (simp add: st1_def valid_slots_def UDP_REORDER_WINDOW_def)
  have nx: "uf_next_seq (ro_flows st1 f) = 1" "ro_held st1 = ro_held st" using n by (simp_all add: st1_def)
  define st' where "st' = submit_hold f ?q item now st1"
  have "window_loop ok f ?q st1 = Some st1" using near nx by (subst window_loop.simps) (simp add: UDP_REORDER_WINDOW_def)
  then have "flow_make_window_room ok f ?q st1 = Some st1" using near nx by (simp add: flow_make_window_room_def UDP_REORDER_WINDOW_def)
  moreover have "submit_ahead ok f ?q item now st1 = st'"
    using near nx cap by (simp add: submit_ahead_def Let_def st'_def linorder_not_le)
  moreover have "(if uf_held (ro_flows st1 f) \<noteq> 0 \<and> uf_gap_since_ns (ro_flows st1 f) \<noteq> 0 \<and> now - uf_gap_since_ns (ro_flows st1 f) \<ge> hold_ns
      then x else y) = y" for x y :: reorder
    using g h by (auto simp: st1_def)
  ultimately have run: "dp_udp_reorder_submit ok True hold_ns key 0 ?q item now st = Some st'"
    using near nx by (simp add: submit_unfold live_lookup [OF live] st1_def [symmetric] submit_body_def Let_def)
  have res: "ro_held st' = ro_held st + 1" "ro_slots st' = (ro_slots st)(f := (ro_slots st f)(s := \<lparr>us_item = item, us_seq = ?q, us_valid = True\<rparr>))"
    "uf_next_seq (ro_flows st' f) = 1" "uf_gap_since_ns (ro_flows st' f) \<in> {0, now}" "same_places st st'" "others_same {f} st st'"
    using no n g by (auto simp: st'_def submit_hold_def Let_def w update_high_water_def same_places_def others_same_def upd_flow_def upd_slot_def
        upd_stats_def st1_def)
  have "tracked st' key now f" using res(3,4) live_same_places [OF live res(5)] by (simp add: tracked_def)
  moreover have "valid_slots st' f = insert s (valid_slots st f)" using s(2) by (auto simp: res(2) valid_slots_def UDP_REORDER_WINDOW_def)
  ultimately show ?thesis using run res by (intro exI [of _ st']) simp
qed

lemma hold_many:
  assumes "reorder_inv st" "tracked st key now f" "distinct ss" "\<forall>s \<in> set ss. 2 \<le> s \<and> s < 256 \<and> s \<notin> valid_slots st f" "0 < hold_ns"
    and "unat (ro_held st) + length ss \<le> 8192"
  shows "\<exists>st'. submits ok hold_ns now (map (\<lambda>s. (key, of_nat s)) ss) st = Some st' \<and> reorder_inv st' \<and> tracked st' key now f
    \<and> valid_slots st' f = set ss \<union> valid_slots st f \<and> unat (ro_held st') = unat (ro_held st) + length ss \<and> others_same {f} st st'"
  using assms
proof (induction ss arbitrary: st)
  case (Cons s ss)
  have "unat (ro_held st) < 8192" using Cons.prems(6) by simp
  then have cap: "ro_held st < UDP_REORDER_HELD_CAP" by (simp add: UDP_REORDER_HELD_CAP_def word_less_nat_alt)
  obtain st1 where r: "dp_udp_reorder_submit ok True hold_ns key 0 (of_nat s) item_zero now st = Some st1" "tracked st1 key now f"
    "valid_slots st1 f = insert s (valid_slots st f)" "ro_held st1 = ro_held st + 1" "others_same {f} st st1"
    using hold_more [OF cap Cons.prems(2), where s = s and hold_ns = hold_ns and ok = ok and item = item_zero] Cons.prems(4,5) by auto
  have inv: "reorder_inv st1" by (rule submit_inv [OF Cons.prems(1) cap r(1)])
  have h: "unat (ro_held st1) = unat (ro_held st) + 1" using \<open>unat (ro_held st) < 8192\<close> by (simp add: r(4) unat_word_ariths)
  have "\<forall>s \<in> set ss. 2 \<le> s \<and> s < 256 \<and> s \<notin> valid_slots st1 f" using Cons.prems(3,4) r(3) by auto
  with Cons.IH [OF inv r(2) _ _ Cons.prems(5)] Cons.prems(3,6) h obtain st' where
    "submits ok hold_ns now (map (\<lambda>s. (key, of_nat s)) ss) st1 = Some st'" "reorder_inv st'" "tracked st' key now f"
    "valid_slots st' f = set ss \<union> valid_slots st1 f" "unat (ro_held st') = unat (ro_held st1) + length ss" "others_same {f} st1 st'"
    by auto
  then show ?case using r h others_same_trans [of "{f}" st st1 "{f}" st'] by auto
qed (simp add: others_same_def)

text \<open>New flows, in places of their own, that hold \<open>n\<close> packets each.\<close>

lemma fill_flows:
  assumes "reorder_inv st" "distinct (map (first_way \<circ> fst) ks)" "\<forall>x \<in> set ks. \<not> uf_valid (ro_flows st (first_way (fst x)))"
    and "\<forall>x \<in> set ks. 0 < snd x \<and> snd x \<le> 254" "0 < hold_ns" "unat (ro_held st) + sum_list (map snd ks) \<le> 8192"
  shows "\<exists>ps st'. submits ok hold_ns now ps st = Some st' \<and> reorder_inv st' \<and> unat (ro_held st') = unat (ro_held st) + sum_list (map snd ks)
    \<and> others_same ((first_way \<circ> fst) ` set ks) st st'"
  using assms
proof (induction ks arbitrary: st)
  case Nil
  show ?case by (rule exI [of _ "[]"]) (simp add: Nil others_same_def)
next
  case (Cons x ks)
  let ?f = "first_way (fst x)" and ?ss = "[2..<2 + snd x]"
  have "unat (ro_held st) < 8192" using Cons.prems(4,6) by simp
  then have cap: "ro_held st < UDP_REORDER_HELD_CAP" by (simp add: UDP_REORDER_HELD_CAP_def word_less_nat_alt)
  have "\<not> uf_valid (ro_flows st ?f)" using Cons.prems(3) by simp
  from new_flow [OF Cons.prems(1) refl this, where ok = ok and hold_ns = hold_ns and item = item_zero and now = now] obtain st1 where
    1: "dp_udp_reorder_submit ok True hold_ns (fst x) 0 0 item_zero now st = Some st1" "tracked st1 (fst x) now ?f" "valid_slots st1 ?f = {}"
      "ro_held st1 = ro_held st" "others_same {?f} st st1" by blast
  have inv1: "reorder_inv st1" by (rule submit_inv [OF Cons.prems(1) cap 1(1)])
  have "\<forall>s \<in> set ?ss. 2 \<le> s \<and> s < 256 \<and> s \<notin> valid_slots st1 ?f" using Cons.prems(4) 1(3) by auto
  moreover have "unat (ro_held st1) + length ?ss \<le> 8192"
    using Cons.prems(6) unfolding 1(4) length_upt list.map sum_list.Cons by linarith
  ultimately obtain st2 where
    2: "submits ok hold_ns now (map (\<lambda>s. (fst x, of_nat s)) ?ss) st1 = Some st2" "reorder_inv st2"
      "unat (ro_held st2) = unat (ro_held st1) + length ?ss" "others_same {?f} st1 st2"
    using hold_many [OF inv1 1(2) distinct_upt _ Cons.prems(5)] by blast
  have h: "unat (ro_held st2) = unat (ro_held st) + snd x" using 2(3) unfolding 1(4) length_upt by simp
  have o: "others_same {?f} st st2" using others_same_trans [OF 1(5) 2(4)] by simp
  have fresh: "\<forall>y \<in> set ks. \<not> uf_valid (ro_flows st2 (first_way (fst y)))"
  proof
    fix y assume y: "y \<in> set ks"
    then have "(first_way \<circ> fst) y \<in> set (map (first_way \<circ> fst) ks)" by simp
    moreover have "(first_way \<circ> fst) x \<notin> set (map (first_way \<circ> fst) ks)" using Cons.prems(2) by (simp only: list.map distinct.simps not_False_eq_True)
    ultimately have "first_way (fst y) \<noteq> ?f" by (metis comp_apply)
    then have "ro_flows st2 (first_way (fst y)) = ro_flows st (first_way (fst y))" using o by (simp add: others_same_def)
    with y show "\<not> uf_valid (ro_flows st2 (first_way (fst y)))" using Cons.prems(3) by simp
  qed
  have r: "distinct (map (first_way \<circ> fst) ks)" "\<forall>x \<in> set ks. 0 < snd x \<and> snd x \<le> 254" "unat (ro_held st2) + sum_list (map snd ks) \<le> 8192"
    using conjunct2 [OF Cons.prems(2) [unfolded list.map distinct.simps]] Cons.prems(4,6) h by simp_all
  from Cons.IH [OF 2(2) r(1) fresh r(2) Cons.prems(5) r(3)] obtain ps st' where
    3: "submits ok hold_ns now ps st2 = Some st'" "reorder_inv st'" "unat (ro_held st') = unat (ro_held st2) + sum_list (map snd ks)"
      "others_same ((first_way \<circ> fst) ` set ks) st2 st'" by blast
  have "submits ok hold_ns now ((fst x, 0) # map (\<lambda>s. (fst x, of_nat s)) ?ss @ ps) st = Some st'"
    using 1(1) 2(1) 3(1) by (simp add: submits_append)
  moreover have "others_same ((first_way \<circ> fst) ` set (x # ks)) st st'" using others_same_trans [OF o 3(4)] by simp
  moreover have "unat (ro_held st') = unat (ro_held st) + sum_list (map snd (x # ks))" using h 3(3) by simp
  ultimately show ?case using 3(2) by blast
qed

text \<open>Thirty-four flows whose keys fall into different sets of the table.\<close>

definition cap_key :: "nat \<Rightarrow> dp_udp_reorder_key" where
  "cap_key n = key_zero\<lparr>uk_src_ip := of_nat n\<rparr>"

definition cap_sources :: "nat list" where
  "cap_sources = [1, 2, 3, 4, 5, 6, 7, 8, 9, 10, 12, 13, 14, 16, 17, 18, 19, 20, 21, 22, 23, 24, 25, 26, 28, 29, 31, 32, 34, 35, 37, 40]"

lemma cap_places: "distinct (map (first_way \<circ> cap_key) (0 # 41 # cap_sources))"
  by code_simp

lemma cap_reached:
  assumes "0 < hold_ns"
  shows "\<exists>ps st. submits ok hold_ns now ps reorder_init = Some st \<and> reorder_inv st \<and> ro_held st = UDP_REORDER_HELD_CAP
    \<and> tracked st (cap_key 0) now (first_way (cap_key 0)) \<and> holds_one st (first_way (cap_key 0)) 10"
proof -
  let ?k = "cap_key 0" let ?f = "first_way ?k" let ?ks = "(cap_key 41, 63 :: nat) # map (\<lambda>n. (cap_key n, 254)) cap_sources"
  have free: "\<not> uf_valid (ro_flows reorder_init g)" "ro_held reorder_init = 0" for g by (simp_all add: reorder_init_def flow_zero_def)
  from new_flow [OF reorder_init_inv refl free(1), where key = ?k and ok = ok and hold_ns = hold_ns and item = item_zero and now = now] obtain st1 where
    1: "dp_udp_reorder_submit ok True hold_ns ?k 0 0 item_zero now reorder_init = Some st1" "tracked st1 ?k now ?f" "valid_slots st1 ?f = {}"
      "ro_held st1 = 0" "others_same {?f} reorder_init st1" using free(2) by auto
  have inv1: "reorder_inv st1"
    by (rule submit_inv [OF reorder_init_inv _ 1(1)]) (simp add: free(2) UDP_REORDER_HELD_CAP_def)
  have cap1: "ro_held st1 < UDP_REORDER_HELD_CAP" by (simp add: 1(4) UDP_REORDER_HELD_CAP_def)
  from hold_more [OF cap1 1(2), where s = 10 and hold_ns = hold_ns and ok = ok and item = item_zero] 1(3,4) assms obtain st2 where
    2: "dp_udp_reorder_submit ok True hold_ns ?k 0 10 item_zero now st1 = Some st2" "tracked st2 ?k now ?f" "valid_slots st2 ?f = {10}"
      "us_seq (ro_slots st2 ?f 10) = 10" "ro_held st2 = 1" "others_same {?f} st1 st2" by auto
  have inv2: "reorder_inv st2" by (rule submit_inv [OF inv1 cap1 2(1)])
  have d: "distinct (map (first_way \<circ> fst) ?ks)" and f: "?f \<notin> (first_way \<circ> fst) ` set ?ks"
    using cap_places by (auto simp: comp_def)
  have o: "others_same {?f} reorder_init st2" using others_same_trans [OF 1(5) 2(6)] by simp
  have "\<not> uf_valid (ro_flows st2 g)" if "g \<noteq> ?f" for g using o that free(1) by (simp add: others_same_def)
  then have fresh: "\<forall>x \<in> set ?ks. \<not> uf_valid (ro_flows st2 (first_way (fst x)))" using f by (auto simp: image_iff)
  have n: "sum_list (map snd ?ks) = 8191" by (simp add: cap_sources_def)
  have le: "\<forall>x \<in> set ?ks. 0 < snd x \<and> snd x \<le> 254" by simp
  have tot: "unat (ro_held st2) + sum_list (map snd ?ks) \<le> 8192" unfolding n 2(5) by simp
  from fill_flows [OF inv2 d fresh le assms tot, of ok now] obtain ps st where
    3: "submits ok hold_ns now ps st2 = Some st" "reorder_inv st" "unat (ro_held st) = unat (ro_held st2) + sum_list (map snd ?ks)"
      "others_same ((first_way \<circ> fst) ` set ?ks) st2 st"
    by blast
  have total: "unat (ro_held st) = 8192" unfolding 3(3) n 2(5) by simp
  have "submits ok hold_ns now ((?k, 0) # (?k, 10) # ps) reorder_init = Some st" using 1(1) 2(1) 3(1) by simp
  moreover have "ro_held st = UDP_REORDER_HELD_CAP" using total by (simp add: UDP_REORDER_HELD_CAP_def word_unat_eq_iff)
  moreover have same: "ro_flows st ?f = ro_flows st2 ?f" "ro_slots st ?f = ro_slots st2 ?f" using 3(4) f by (simp_all add: others_same_def)
  have "live_flow st ?k 0 ?f"
    using 2(2) unfolding tracked_def live_flow_def Let_def first_way_def [symmetric]
    by (simp add: same UDP_REORDER_WAYS_def upt_conv_Cons split: if_splits)
  then have "tracked st ?k now ?f" using 2(2) same(1) by (simp add: tracked_def)
  moreover have "holds_one st ?f 10"
    using 2(3,4) same(2) by (simp add: holds_one_def valid_slots_def win_idx_def UDP_REORDER_WINDOW_def)
  ultimately show ?thesis using 3(2) by blast
qed


end
