(* ===== verification/Packet_Crypto.thy ===== *)
theory Packet_Crypto
  imports NE_Prelude
begin

text \<open>
  The crypto layer below the wire formats: the key slots of a policy
  (\<open>src/crypto/common/packet_crypto.c\<close>, \<open>sig_pqc_get_keys\<close> of \<open>src/crypto/pqc/pqc_handshake.c\<close>),
  the nonce generator and the AES-GCM calls (\<open>src/crypto/pqc/traffic_crypto.c\<close>), and payload
  encryption with the key fallback (\<open>src/crypto/pqc/include/crypto_pqc_layer.h\<close>).

  The cipher library behind \<open>scrypt.h\<close> is a binary: it is the parameter \<open>lib\<close>, a record of its
  entry points over an arbitrary type \<open>'c\<close> of cipher contexts. What the code relies on is the
  hypothesis \<open>scrypt_gcm\<close>. The process-wide and thread-local variables that one crypto thread uses
  form the record \<open>crypto_state\<close>. Logging is left out.
\<close>

section \<open>Key slots\<close>

definition KEY_SLOT_PREV :: nat where "KEY_SLOT_PREV = 0"
definition KEY_SLOT_CURRENT :: nat where "KEY_SLOT_CURRENT = 1"
definition KEY_SLOT_NEXT :: nat where "KEY_SLOT_NEXT = 2"
definition KEY_SLOT_COUNT :: nat where "KEY_SLOT_COUNT = 3"
definition PQC_TRAFFIC_KEY_SZ :: nat where "PQC_TRAFFIC_KEY_SZ = 32"

lemmas key_slot_defs = KEY_SLOT_PREV_def KEY_SLOT_CURRENT_def KEY_SLOT_NEXT_def KEY_SLOT_COUNT_def
  PQC_TRAFFIC_KEY_SZ_def

record packet_crypto_ctx =
  ctx_master_key :: buf
  ctx_keys :: "buf list"
  ctx_initialized :: bool
  ctx_policy_id :: int
  ctx_wire_id :: u8
  ctx_profile_id :: int
  ctx_pqc_from_handshake :: bool
  ctx_pqc_key_in_use_ms :: u64
  ctx_pqc_timed_key :: buf
  ctx_pqc_rekey_sent :: bool

definition key_nonzero :: "buf \<Rightarrow> nat \<Rightarrow> bool" where
  "key_nonzero key len \<longleftrightarrow> list_ex (\<lambda>x. x \<noteq> 0) (take len key)"

definition wipe_key_bytes :: "buf \<Rightarrow> nat \<Rightarrow> buf" where
  "wipe_key_bytes key len = replicate len 0 @ drop len key"

definition fill_static_slots :: "(buf \<Rightarrow> buf \<Rightarrow> buf) \<Rightarrow> buf \<Rightarrow> buf list" where
  "fill_static_slots hmac master =
     (let hmac_out = hmac master (replicate 8 0) in [hmac_out, hmac_out, hmac_out])"

definition pqc_clear_ctx_keys :: "packet_crypto_ctx \<Rightarrow> packet_crypto_ctx" where
  "pqc_clear_ctx_keys ctx =
     ctx\<lparr>ctx_keys := map (\<lambda>k. wipe_key_bytes k PQC_TRAFFIC_KEY_SZ) (ctx_keys ctx)\<rparr>"

text \<open>The fields of \<open>policy_key_binding_t\<close> that hold the session keys of a policy.\<close>

record policy_key_binding =
  pb_policy_id :: int
  pb_profile_id :: int
  pb_keys :: "buf list"
  pb_key_ids :: "u8 list"
  pb_key_slots_valid :: "bool list"
  pb_key_ready :: bool

definition sig_pqc_get_keys :: "'b policy_key_binding_scheme list \<Rightarrow> int \<Rightarrow> (buf list \<times> u8 list \<times> bool list) option" where
  "sig_pqc_get_keys bindings policy_id =
     map_option (\<lambda>b. (pb_keys b, pb_key_ids b, pb_key_slots_valid b))
       (find (\<lambda>b. pb_policy_id b = policy_id) bindings)"

definition pqc_load_handshake_slots :: "'b policy_key_binding_scheme list \<Rightarrow> packet_crypto_ctx \<Rightarrow> packet_crypto_ctx option" where
  "pqc_load_handshake_slots bindings ctx =
     (case sig_pqc_get_keys bindings (ctx_policy_id ctx) of
        None \<Rightarrow> None
      | Some (slots, key_ids, valid) \<Rightarrow>
          Some (ctx\<lparr>ctx_keys := map (\<lambda>slot. if valid ! slot then slots ! slot
              else wipe_key_bytes (ctx_keys ctx ! slot) PQC_TRAFFIC_KEY_SZ) [0..<KEY_SLOT_COUNT]\<rparr>))"

definition packet_crypto_get_key :: "packet_crypto_ctx \<Rightarrow> int \<Rightarrow> buf option" where
  "packet_crypto_get_key ctx slot =
     (if slot < 0 \<or> slot \<ge> int KEY_SLOT_COUNT then None else Some (ctx_keys ctx ! nat slot))"

definition packet_crypto_refresh_pqc_keys :: "'b policy_key_binding_scheme list \<Rightarrow> packet_crypto_ctx \<Rightarrow> packet_crypto_ctx" where
  "packet_crypto_refresh_pqc_keys bindings ctx =
     (if \<not> ctx_pqc_from_handshake ctx then ctx
      else case pqc_load_handshake_slots bindings ctx of
          Some ctx' \<Rightarrow> ctx'
        | None \<Rightarrow>
            if \<not> key_nonzero (ctx_keys ctx ! KEY_SLOT_CURRENT) PQC_TRAFFIC_KEY_SZ
            then pqc_clear_ctx_keys ctx else ctx)"

definition packet_crypto_init :: "(buf \<Rightarrow> buf \<Rightarrow> buf) \<Rightarrow> buf \<Rightarrow> packet_crypto_ctx" where
  "packet_crypto_init hmac master =
     \<lparr>ctx_master_key = master, ctx_keys = fill_static_slots hmac master, ctx_initialized = True,
      ctx_policy_id = 0, ctx_wire_id = 0, ctx_profile_id = 0, ctx_pqc_from_handshake = False,
      ctx_pqc_key_in_use_ms = 0, ctx_pqc_timed_key = replicate 32 0, ctx_pqc_rekey_sent = False\<rparr>"

text \<open>A context as the C struct has it: three slots of 32 bytes.\<close>

definition ctx_wf :: "packet_crypto_ctx \<Rightarrow> bool" where
  "ctx_wf ctx \<longleftrightarrow> length (ctx_keys ctx) = KEY_SLOT_COUNT
     \<and> (\<forall>k \<in> set (ctx_keys ctx). length k = PQC_TRAFFIC_KEY_SZ)"

definition binding_wf :: "'b policy_key_binding_scheme \<Rightarrow> bool" where
  "binding_wf b \<longleftrightarrow> length (pb_keys b) = KEY_SLOT_COUNT \<and> length (pb_key_ids b) = KEY_SLOT_COUNT
     \<and> length (pb_key_slots_valid b) = KEY_SLOT_COUNT
     \<and> (\<forall>k \<in> set (pb_keys b). length k = PQC_TRAFFIC_KEY_SZ)"

section \<open>The cipher library and the state of a crypto thread\<close>

record 'c scrypt_lib =
  scrypt_RandomBytes :: "nat \<Rightarrow> int \<times> buf"
  scrypt_CipherCtxNew :: "'c option"
  scrypt_CipherInit :: "'c \<Rightarrow> buf \<Rightarrow> buf \<Rightarrow> bool \<Rightarrow> int \<times> 'c"
  scrypt_CipherSetTagSize :: "'c \<Rightarrow> nat \<Rightarrow> 'c"
  scrypt_CipherUpdate :: "'c \<Rightarrow> buf \<Rightarrow> int \<times> buf \<times> 'c"
  scrypt_CipherFinal :: "'c \<Rightarrow> int \<times> buf \<times> 'c"
  scrypt_CipherGetTag :: "'c \<Rightarrow> int \<times> buf \<times> 'c"
  scrypt_CipherSetTag :: "'c \<Rightarrow> buf \<Rightarrow> int \<times> 'c"

record 'c crypto_state =
  g_pqc_initialized :: bool
  tls_pqc_salt :: buf
  tls_pqc_counter :: u32
  tls_salt_initialized :: bool
  tls_enc :: "'c option"
  tls_dec :: "'c option"

definition TRF_PQC_OK :: int where "TRF_PQC_OK = 0"
definition TRF_PQC_ERR_CRYPTO :: int where "TRF_PQC_ERR_CRYPTO = - 2"
definition TAG_SIZE_GCM :: nat where "TAG_SIZE_GCM = 16"
definition CRYPTO_PQC_NONCE_BYTES :: nat where "CRYPTO_PQC_NONCE_BYTES = 12"

text \<open>The four bytes of a \<open>uint32_t\<close> in memory on the little-endian target.\<close>

definition le32_bytes :: "u32 \<Rightarrow> buf" where
  "le32_bytes x = rev (be32_bytes x)"

definition trf_pqc_generate_nonce :: "('c, 'l) scrypt_lib_scheme \<Rightarrow> ('c, 'z) crypto_state_scheme
    \<Rightarrow> int \<times> buf \<times> ('c, 'z) crypto_state_scheme" where
  "trf_pqc_generate_nonce lib st =
     (let (ret, st) = (if tls_salt_initialized st then (0, st)
            else (case scrypt_RandomBytes lib 8 of (ret, salt) \<Rightarrow>
                (ret, st\<lparr>tls_pqc_salt := salt, tls_salt_initialized := (ret = 0)\<rparr>)))
      in if ret \<noteq> 0 then (TRF_PQC_ERR_CRYPTO, [], st)
         else (let cnt = tls_pqc_counter st + 1
               in (0, take 8 (tls_pqc_salt st) @ le32_bytes cnt, st\<lparr>tls_pqc_counter := cnt\<rparr>)))"

text \<open>
  Encryption in place of \<open>len\<close> bytes at offset \<open>off\<close>; the result is the return code, the new
  length, the buffer and the cipher context. Output of the library goes through the bounds check
  of the buffer it is written to.
\<close>

definition trf_encrypt_payload_gcm :: "('c, 'l) scrypt_lib_scheme \<Rightarrow> bool \<Rightarrow> 'c \<Rightarrow> buf \<Rightarrow> buf \<Rightarrow>
    buf \<Rightarrow> nat \<Rightarrow> nat \<Rightarrow> (int \<times> nat \<times> buf \<times> 'c) mem" where
  "trf_encrypt_payload_gcm lib ready ctx key nonce b off len =
     (if \<not> ready \<or> len = 0 then Some (TRF_PQC_ERR_CRYPTO, 0, b, ctx)
      else case scrypt_CipherInit lib ctx key nonce True of (ret, ctx) \<Rightarrow>
      if ret \<noteq> 0 then Some (TRF_PQC_ERR_CRYPTO, 0, b, ctx)
      else do {
        inp \<leftarrow> rdn b off len;
        case scrypt_CipherUpdate lib (scrypt_CipherSetTagSize lib ctx TAG_SIZE_GCM) inp of (ret, out, ctx) \<Rightarrow> do {
          b \<leftarrow> wrn b off out;
          if ret \<noteq> 0 then Some (TRF_PQC_ERR_CRYPTO, 0, b, ctx)
          else case scrypt_CipherFinal lib ctx of (ret, fin, ctx) \<Rightarrow> do {
            b \<leftarrow> wrn b (off + length out) fin;
            if ret \<noteq> 0 then Some (TRF_PQC_ERR_CRYPTO, 0, b, ctx)
            else case scrypt_CipherGetTag lib ctx of (ret, tag, ctx) \<Rightarrow>
            if ret \<noteq> 0 then Some (TRF_PQC_ERR_CRYPTO, 0, b, ctx)
            else do {
              tag \<leftarrow> rdn tag 0 TAG_SIZE_GCM;
              b \<leftarrow> wrn b (off + length out + length fin) tag;
              Some (TRF_PQC_OK, length out + length fin + TAG_SIZE_GCM, b, ctx) } } } })"

definition trf_decrypt_payload_gcm :: "('c, 'l) scrypt_lib_scheme \<Rightarrow> bool \<Rightarrow> 'c \<Rightarrow> buf \<Rightarrow> buf \<Rightarrow>
    buf \<Rightarrow> nat \<Rightarrow> nat \<Rightarrow> (int \<times> nat \<times> buf \<times> 'c) mem" where
  "trf_decrypt_payload_gcm lib ready ctx key nonce b off len =
     (if \<not> ready \<or> len \<le> TAG_SIZE_GCM then Some (TRF_PQC_ERR_CRYPTO, 0, b, ctx)
      else case scrypt_CipherInit lib ctx key nonce False of (ret, ctx) \<Rightarrow>
      if ret \<noteq> 0 then Some (TRF_PQC_ERR_CRYPTO, 0, b, ctx)
      else do {
        let payload_len = len - TAG_SIZE_GCM;
        tag \<leftarrow> rdn b (off + payload_len) TAG_SIZE_GCM;
        case scrypt_CipherSetTag lib (scrypt_CipherSetTagSize lib ctx TAG_SIZE_GCM) tag of (ret, ctx) \<Rightarrow>
        if ret \<noteq> 0 then Some (TRF_PQC_ERR_CRYPTO, 0, b, ctx)
        else do {
          inp \<leftarrow> rdn b off payload_len;
          case scrypt_CipherUpdate lib ctx inp of (ret, out, ctx) \<Rightarrow> do {
            b \<leftarrow> wrn b off out;
            if ret \<noteq> 0 then Some (TRF_PQC_ERR_CRYPTO, 0, b, ctx)
            else case scrypt_CipherFinal lib ctx of (ret, fin, ctx) \<Rightarrow> do {
              b \<leftarrow> wrn b (off + length out) fin;
              if ret \<noteq> 0 then Some (TRF_PQC_ERR_CRYPTO, 0, b, ctx)
              else Some (TRF_PQC_OK, length out + length fin, b, ctx) } } } })"

section \<open>Sessions\<close>

record crypto_pqc_sess =
  sess_key :: buf
  sess_aad :: buf
  sess_aad_len :: int

definition HARDCODED_AAD :: buf where
  "HARDCODED_AAD = [0x54, 0x45, 0x53, 0x54, 0x5f, 0x41, 0x41, 0x44]"

definition crypto_pqc_key_is_all_zero :: "buf \<Rightarrow> nat \<Rightarrow> bool" where
  "crypto_pqc_key_is_all_zero key len \<longleftrightarrow> list_all (\<lambda>x. x = 0) (take len key)"

definition crypto_pqc_sess_load :: "packet_crypto_ctx \<Rightarrow> crypto_pqc_sess option" where
  "crypto_pqc_sess_load ctx =
     (case packet_crypto_get_key ctx (int KEY_SLOT_CURRENT) of
        None \<Rightarrow> None
      | Some key \<Rightarrow>
          if crypto_pqc_key_is_all_zero key PQC_TRAFFIC_KEY_SZ then None
          else Some \<lparr>sess_key = key, sess_aad = HARDCODED_AAD, sess_aad_len = 12\<rparr>)"

definition crypto_pqc_generate_nonce :: "('c, 'l) scrypt_lib_scheme \<Rightarrow> ('c, 'z) crypto_state_scheme
    \<Rightarrow> buf option \<times> ('c, 'z) crypto_state_scheme" where
  "crypto_pqc_generate_nonce lib st =
     (case trf_pqc_generate_nonce lib st of (rc, nonce, st) \<Rightarrow>
        (if rc = TRF_PQC_OK then Some nonce else None, st))"

definition crypto_pqc_tls_cipher :: "('c, 'l) scrypt_lib_scheme \<Rightarrow> bool \<Rightarrow> ('c, 'z) crypto_state_scheme
    \<Rightarrow> 'c option \<times> ('c, 'z) crypto_state_scheme" where
  "crypto_pqc_tls_cipher lib enc st =
     (let st = (if enc
            then (if tls_enc st = None then st\<lparr>tls_enc := scrypt_CipherCtxNew lib\<rparr> else st)
            else (if tls_dec st = None then st\<lparr>tls_dec := scrypt_CipherCtxNew lib\<rparr> else st))
      in (if enc then tls_enc st else tls_dec st, st))"

definition crypto_pqc_encrypt_payload :: "('c, 'l) scrypt_lib_scheme \<Rightarrow> ('c, 'z) crypto_state_scheme \<Rightarrow>
    crypto_pqc_sess \<Rightarrow> buf \<Rightarrow> buf \<Rightarrow> nat \<Rightarrow> nat \<Rightarrow> (nat option \<times> buf \<times> ('c, 'z) crypto_state_scheme) mem" where
  "crypto_pqc_encrypt_payload lib st sess nonce b off len =
     (if len = 0 then Some (None, b, st)
      else case crypto_pqc_tls_cipher lib True st of
          (None, st) \<Rightarrow> Some (None, b, st)
        | (Some c, st) \<Rightarrow> do {
            (rc, out_len, b, c) \<leftarrow> trf_encrypt_payload_gcm lib (g_pqc_initialized st) c (sess_key sess) nonce b off len;
            Some (if rc = TRF_PQC_OK then Some out_len else None, b, st\<lparr>tls_enc := Some c\<rparr>) })"

definition crypto_pqc_decrypt_payload :: "('c, 'l) scrypt_lib_scheme \<Rightarrow> ('c, 'z) crypto_state_scheme \<Rightarrow>
    crypto_pqc_sess \<Rightarrow> buf \<Rightarrow> buf \<Rightarrow> nat \<Rightarrow> nat \<Rightarrow> (nat option \<times> buf \<times> ('c, 'z) crypto_state_scheme) mem" where
  "crypto_pqc_decrypt_payload lib st sess nonce b off len =
     (if len = 0 then Some (None, b, st)
      else case crypto_pqc_tls_cipher lib False st of
          (None, st) \<Rightarrow> Some (None, b, st)
        | (Some c, st) \<Rightarrow> do {
            (rc, out_len, b, c) \<leftarrow> trf_decrypt_payload_gcm lib (g_pqc_initialized st) c (sess_key sess) nonce b off len;
            Some (if rc = TRF_PQC_OK then Some out_len else None, b, st\<lparr>tls_dec := Some c\<rparr>) })"

text \<open>
  The loop over the key slots: \<open>prior\<close> holds the keys of the slots already visited, \<open>saved\<close> the
  ciphertext, which is put back before every attempt but the first.
\<close>

primrec resilient_loop :: "('c, 'l) scrypt_lib_scheme \<Rightarrow> ('c, 'z) crypto_state_scheme \<Rightarrow> buf \<Rightarrow> buf \<Rightarrow>
    buf \<Rightarrow> nat \<Rightarrow> nat \<Rightarrow> bool \<Rightarrow> buf list \<Rightarrow> buf option list \<Rightarrow>
    (nat option \<times> buf \<times> ('c, 'z) crypto_state_scheme) mem" where
  "resilient_loop lib st nonce saved b off len attempted prior [] = Some (None, b, st)"
| "resilient_loop lib st nonce saved b off len attempted prior (key # rest) =
     (case key of
        None \<Rightarrow> resilient_loop lib st nonce saved b off len attempted prior rest
      | Some candidate \<Rightarrow>
          if crypto_pqc_key_is_all_zero candidate PQC_TRAFFIC_KEY_SZ \<or> candidate \<in> set prior
          then resilient_loop lib st nonce saved b off len attempted (prior @ [candidate]) rest
          else do {
            b \<leftarrow> (if attempted then wrn b off saved else Some b);
            (r, b, st) \<leftarrow> crypto_pqc_decrypt_payload lib st
               \<lparr>sess_key = candidate, sess_aad = HARDCODED_AAD, sess_aad_len = 12\<rparr> nonce b off len;
            case r of
              Some out_len \<Rightarrow> Some (Some out_len, b, st)
            | None \<Rightarrow> resilient_loop lib st nonce saved b off len True (prior @ [candidate]) rest })"

definition fallback_keys :: "packet_crypto_ctx \<Rightarrow> buf option list" where
  "fallback_keys ctx = map (\<lambda>slot. packet_crypto_get_key ctx (int slot)) [KEY_SLOT_CURRENT, KEY_SLOT_NEXT, KEY_SLOT_PREV]"

definition crypto_pqc_decrypt_payload_resilient :: "('c, 'l) scrypt_lib_scheme \<Rightarrow> ('c, 'z) crypto_state_scheme \<Rightarrow>
    packet_crypto_ctx \<Rightarrow> buf \<Rightarrow> buf \<Rightarrow> nat \<Rightarrow> nat \<Rightarrow> (nat option \<times> buf \<times> ('c, 'z) crypto_state_scheme) mem" where
  "crypto_pqc_decrypt_payload_resilient lib st ctx nonce b off len =
     (if len = 0 \<or> len > 2048 then Some (None, b, st)
      else do {
        saved \<leftarrow> rdn b off len;
        resilient_loop lib st nonce saved b off len False []
          (fallback_keys ctx) })"

section \<open>What the code relies on in the cipher library\<close>

text \<open>
  One AES-GCM session, call by call: sealing yields the ciphertext and the tag, opening yields the
  plaintext, and a refused session ends with a non-zero return code without writing more bytes
  than the ciphertext has.
\<close>

definition gcm_sealed :: "('c, 'l) scrypt_lib_scheme \<Rightarrow> 'c \<Rightarrow> buf \<Rightarrow> buf \<Rightarrow> buf \<Rightarrow> buf \<Rightarrow> buf \<Rightarrow> bool" where
  "gcm_sealed lib c key nonce p ct tag \<longleftrightarrow>
     (case scrypt_CipherInit lib c key nonce True of (r0, c) \<Rightarrow>
      case scrypt_CipherUpdate lib (scrypt_CipherSetTagSize lib c TAG_SIZE_GCM) p of (r1, out, c) \<Rightarrow>
      case scrypt_CipherFinal lib c of (r2, fin, c) \<Rightarrow>
      case scrypt_CipherGetTag lib c of (r3, t, c) \<Rightarrow>
        r0 = 0 \<and> r1 = 0 \<and> r2 = 0 \<and> r3 = 0 \<and> ct = out @ fin \<and> tag = t)"

definition gcm_opened :: "('c, 'l) scrypt_lib_scheme \<Rightarrow> 'c \<Rightarrow> buf \<Rightarrow> buf \<Rightarrow> buf \<Rightarrow> buf \<Rightarrow> buf \<Rightarrow> bool" where
  "gcm_opened lib c key nonce ct tag p \<longleftrightarrow>
     (case scrypt_CipherInit lib c key nonce False of (r0, c) \<Rightarrow>
      case scrypt_CipherSetTag lib (scrypt_CipherSetTagSize lib c TAG_SIZE_GCM) tag of (r1, c) \<Rightarrow>
      case scrypt_CipherUpdate lib c ct of (r2, out, c) \<Rightarrow>
      case scrypt_CipherFinal lib c of (r3, fin, c) \<Rightarrow>
        r0 = 0 \<and> r1 = 0 \<and> r2 = 0 \<and> r3 = 0 \<and> p = out @ fin)"

definition gcm_refused :: "('c, 'l) scrypt_lib_scheme \<Rightarrow> 'c \<Rightarrow> buf \<Rightarrow> buf \<Rightarrow> buf \<Rightarrow> buf \<Rightarrow> bool" where
  "gcm_refused lib c key nonce ct tag \<longleftrightarrow>
     (case scrypt_CipherInit lib c key nonce False of (r0, c) \<Rightarrow> r0 \<noteq> 0 \<or>
     (case scrypt_CipherSetTag lib (scrypt_CipherSetTagSize lib c TAG_SIZE_GCM) tag of (r1, c) \<Rightarrow> r1 \<noteq> 0 \<or>
     (case scrypt_CipherUpdate lib c ct of (r2, out, c) \<Rightarrow> length out \<le> length ct \<and> (r2 \<noteq> 0 \<or>
     (case scrypt_CipherFinal lib c of (r3, fin, c) \<Rightarrow> length out + length fin \<le> length ct \<and> r3 \<noteq> 0)))))"

definition scrypt_gcm :: "('c, 'l) scrypt_lib_scheme \<Rightarrow> (buf \<Rightarrow> buf \<Rightarrow> buf \<Rightarrow> buf) \<Rightarrow>
    (buf \<Rightarrow> buf \<Rightarrow> buf \<Rightarrow> buf) \<Rightarrow> bool" where
  "scrypt_gcm lib enc tag \<longleftrightarrow>
     (\<forall>k n p. length k = PQC_TRAFFIC_KEY_SZ \<longrightarrow> length n = CRYPTO_PQC_NONCE_BYTES \<longrightarrow> p \<noteq> [] \<longrightarrow>
        length (enc k n p) = length p \<and> length (tag k n p) = TAG_SIZE_GCM
        \<and> (\<forall>c. gcm_sealed lib c k n p (enc k n p) (tag k n p)
             \<and> gcm_opened lib c k n (enc k n p) (tag k n p) p))"

lemma scrypt_gcmD:
  assumes "scrypt_gcm lib enc tag" "length k = 32" "length n = 12" "p \<noteq> []"
  shows "length (enc k n p) = length p" "length (tag k n p) = 16"
    "gcm_sealed lib c k n p (enc k n p) (tag k n p)" "gcm_opened lib c k n (enc k n p) (tag k n p) p"
  using assms by (auto simp: scrypt_gcm_def key_slot_defs CRYPTO_PQC_NONCE_BYTES_def TAG_SIZE_GCM_def)

definition sealed_payload :: "(buf \<Rightarrow> buf \<Rightarrow> buf \<Rightarrow> buf) \<Rightarrow> (buf \<Rightarrow> buf \<Rightarrow> buf \<Rightarrow> buf) \<Rightarrow> buf \<Rightarrow> buf \<Rightarrow> buf \<Rightarrow> buf" where
  "sealed_payload enc tag k n p = enc k n p @ tag k n p"

lemma length_sealed_payload:
  "\<lbrakk>scrypt_gcm lib enc tag; length k = 32; length n = 12; p \<noteq> []\<rbrakk>
   \<Longrightarrow> length (sealed_payload enc tag k n p) = length p + 16"
  by (simp add: sealed_payload_def scrypt_gcmD)

section \<open>Encryption and decryption in place\<close>

lemma trf_encrypt_ok:
  assumes "scrypt_gcm lib enc tag" "length k = 32" "length n = 12" "0 < len" "off + len + 16 \<le> length b"
  shows "\<exists>c'. trf_encrypt_payload_gcm lib True c k n b off len =
    Some (TRF_PQC_OK, len + 16, patch b off (sealed_payload enc tag k n (slice b off len)), c')"
proof -
  let ?p = "slice b off len"
  have p: "?p \<noteq> []" "length ?p = len" using assms by (auto simp flip: length_greater_0_conv)
  note L = scrypt_gcmD [OF assms(1-3) p(1)]
  obtain r0 c0 where c0: "scrypt_CipherInit lib c k n True = (r0, c0)" by fastforce
  obtain r1 out c1 where c1: "scrypt_CipherUpdate lib (scrypt_CipherSetTagSize lib c0 TAG_SIZE_GCM) ?p = (r1, out, c1)"
    by (metis prod_cases3)
  obtain r2 fin c2 where c2: "scrypt_CipherFinal lib c1 = (r2, fin, c2)" by (metis prod_cases3)
  obtain r3 t c3 where c3: "scrypt_CipherGetTag lib c2 = (r3, t, c3)" by (metis prod_cases3)
  have S: "r0 = 0" "r1 = 0" "r2 = 0" "r3 = 0" "enc k n ?p = out @ fin" "tag k n ?p = t"
    using L(3) [of c] by (simp_all add: gcm_sealed_def c0 c1 c2 c3)
  have len: "length out + length fin = len" "length t = 16" using L(1,2) S(5,6) p(2) by auto
  then have "patch (patch b off (out @ fin)) (off + len) t = patch b off (out @ fin @ t)"
    using patch_append [of off "out @ fin" t b] assms(5) by (simp add: add.assoc)
  then show ?thesis
    using assms(4,5) S len c0 c1 c2 c3
    by (simp add: trf_encrypt_payload_gcm_def sealed_payload_def TAG_SIZE_GCM_def patch_append add.assoc)
qed

lemma trf_decrypt_ok:
  assumes "scrypt_gcm lib enc tag" "length k = 32" "length n = 12" "p \<noteq> []" "off + len \<le> length b"
    and "slice b off len = sealed_payload enc tag k n p" and "len = length p + 16"
  shows "\<exists>c'. trf_decrypt_payload_gcm lib True c k n b off len = Some (TRF_PQC_OK, length p, patch b off p, c')"
proof -
  note L = scrypt_gcmD [OF assms(1-4)]
  have ct: "slice b off (length p) = enc k n p"
    using slice_slice [of 0 "length p" len b off] assms(6,7) L(1)
    by (simp add: sealed_payload_def) (simp add: slice_def)
  have tag: "slice b (off + length p) 16 = tag k n p"
    using slice_slice [of "length p" 16 len b off] assms(6,7) L(1,2)
    by (simp add: sealed_payload_def) (simp add: slice_def)
  obtain r0 c0 where c0: "scrypt_CipherInit lib c k n False = (r0, c0)" by fastforce
  obtain r1 c1 where c1: "scrypt_CipherSetTag lib (scrypt_CipherSetTagSize lib c0 TAG_SIZE_GCM) (tag k n p) = (r1, c1)"
    by fastforce
  obtain r2 out c2 where c2: "scrypt_CipherUpdate lib c1 (enc k n p) = (r2, out, c2)" by (metis prod_cases3)
  obtain r3 fin c3 where c3: "scrypt_CipherFinal lib c2 = (r3, fin, c3)" by (metis prod_cases3)
  have S: "r0 = 0" "r1 = 0" "r2 = 0" "r3 = 0" "p = out @ fin"
    using L(4) [of c] by (simp_all add: gcm_opened_def c0 c1 c2 c3)
  show ?thesis
    using assms(4,5,7) S(1-4) c0 c1 c2 c3 ct tag
    by (simp add: trf_decrypt_payload_gcm_def TAG_SIZE_GCM_def)
      (simp add: S(5) patch_append)
qed

lemma trf_decrypt_refused:
  assumes "gcm_refused lib c k n (slice b off m) (slice b (off + m) 16)"
    and "0 < m" "off + m + 16 \<le> length b" "len = m + 16"
  shows "\<exists>xs c'. length xs \<le> m \<and>
    trf_decrypt_payload_gcm lib True c k n b off len = Some (TRF_PQC_ERR_CRYPTO, 0, patch b off xs, c')"
proof -
  let ?ct = "slice b off m" and ?t = "slice b (off + m) 16"
  obtain r0 c0 where c0: "scrypt_CipherInit lib c k n False = (r0, c0)" by fastforce
  obtain r1 c1 where c1: "scrypt_CipherSetTag lib (scrypt_CipherSetTagSize lib c0 TAG_SIZE_GCM) ?t = (r1, c1)"
    by fastforce
  obtain r2 out c2 where c2: "scrypt_CipherUpdate lib c1 ?ct = (r2, out, c2)" by (metis prod_cases3)
  obtain r3 fin c3 where c3: "scrypt_CipherFinal lib c2 = (r3, fin, c3)" by (metis prod_cases3)
  note defs = trf_decrypt_payload_gcm_def TAG_SIZE_GCM_def TRF_PQC_ERR_CRYPTO_def
  note run = c0 c1 c2 c3 assms(2-4)
  have R: "r0 \<noteq> 0 \<or> r1 \<noteq> 0 \<or> (length out \<le> m \<and> (r2 \<noteq> 0 \<or> (length out + length fin \<le> m \<and> r3 \<noteq> 0)))"
    using assms(1,3) by (simp add: gcm_refused_def c0 c1 c2 c3)
  then consider "r0 \<noteq> 0 \<or> r1 \<noteq> 0" | "r0 = 0" "r1 = 0" "r2 \<noteq> 0" "length out \<le> m"
    | "r0 = 0" "r1 = 0" "r2 = 0" "length out + length fin \<le> m" "r3 \<noteq> 0" by blast
  then show ?thesis
  proof cases
    case 1
    with run show ?thesis by (intro exI [where x = "[]"]) (auto simp: defs)
  next
    case 2
    with run show ?thesis by (intro exI [where x = out]) (auto simp: defs)
  next
    case 3
    with run show ?thesis by (intro exI [where x = "out @ fin"]) (auto simp: defs patch_append)
  qed
qed

definition cipher_ready :: "('c, 'l) scrypt_lib_scheme \<Rightarrow> ('c, 'z) crypto_state_scheme \<Rightarrow> bool" where
  "cipher_ready lib st \<longleftrightarrow> g_pqc_initialized st
     \<and> (tls_enc st \<noteq> None \<or> scrypt_CipherCtxNew lib \<noteq> None)
     \<and> (tls_dec st \<noteq> None \<or> scrypt_CipherCtxNew lib \<noteq> None)"

lemma tls_cipher_ready:
  assumes "cipher_ready lib st"
  obtains c where "crypto_pqc_tls_cipher lib True st = (Some c, st\<lparr>tls_enc := Some c\<rparr>)"
    and "g_pqc_initialized st"
proof (cases "tls_enc st")
  case (Some c)
  with assms show ?thesis
    by (intro that [of c]) (auto simp: crypto_pqc_tls_cipher_def cipher_ready_def)
next
  case None
  with assms obtain c where "scrypt_CipherCtxNew lib = Some c" by (auto simp: cipher_ready_def)
  with None assms show ?thesis
    by (intro that [of c]) (auto simp: crypto_pqc_tls_cipher_def cipher_ready_def)
qed

lemma tls_decipher_ready:
  assumes "cipher_ready lib st"
  obtains c where "crypto_pqc_tls_cipher lib False st = (Some c, st\<lparr>tls_dec := Some c\<rparr>)"
    and "g_pqc_initialized st"
proof (cases "tls_dec st")
  case (Some c)
  with assms show ?thesis
    by (intro that [of c]) (auto simp: crypto_pqc_tls_cipher_def cipher_ready_def)
next
  case None
  with assms obtain c where "scrypt_CipherCtxNew lib = Some c" by (auto simp: cipher_ready_def)
  with None assms show ?thesis
    by (intro that [of c]) (auto simp: crypto_pqc_tls_cipher_def cipher_ready_def)
qed

lemma cipher_ready_dec [simp]: "cipher_ready lib st \<Longrightarrow> cipher_ready lib (st\<lparr>tls_dec := Some c\<rparr>)"
  by (simp add: cipher_ready_def)

lemma encrypt_payload_ok:
  assumes "scrypt_gcm lib enc tag" "cipher_ready lib st" "length (sess_key sess) = 32" "length n = 12"
    and "0 < len" "off + len + 16 \<le> length b"
  shows "\<exists>c. crypto_pqc_encrypt_payload lib st sess n b off len =
    Some (Some (len + 16), patch b off (sealed_payload enc tag (sess_key sess) n (slice b off len)),
          st\<lparr>tls_enc := Some c\<rparr>)"
proof -
  obtain c0 where "crypto_pqc_tls_cipher lib True st = (Some c0, st\<lparr>tls_enc := Some c0\<rparr>)" "g_pqc_initialized st"
    using tls_cipher_ready [OF assms(2)] .
  moreover obtain c where "trf_encrypt_payload_gcm lib True c0 (sess_key sess) n b off len =
      Some (TRF_PQC_OK, len + 16, patch b off (sealed_payload enc tag (sess_key sess) n (slice b off len)), c)"
    using trf_encrypt_ok [OF assms(1,3,4,5,6)] by blast
  ultimately show ?thesis using assms(5) by (auto simp: crypto_pqc_encrypt_payload_def)
qed

lemma decrypt_payload_ok:
  assumes "scrypt_gcm lib enc tag" "cipher_ready lib st" "length (sess_key sess) = 32" "length n = 12"
    and "p \<noteq> []" "off + len \<le> length b" "slice b off len = sealed_payload enc tag (sess_key sess) n p"
    and "len = length p + 16"
  shows "\<exists>c. crypto_pqc_decrypt_payload lib st sess n b off len =
    Some (Some (length p), patch b off p, st\<lparr>tls_dec := Some c\<rparr>)"
proof -
  obtain c0 where "crypto_pqc_tls_cipher lib False st = (Some c0, st\<lparr>tls_dec := Some c0\<rparr>)" "g_pqc_initialized st"
    using tls_decipher_ready [OF assms(2)] .
  moreover obtain c where "trf_decrypt_payload_gcm lib True c0 (sess_key sess) n b off len =
      Some (TRF_PQC_OK, length p, patch b off p, c)"
    using trf_decrypt_ok [OF assms(1,3-8)] by blast
  ultimately show ?thesis using assms(8) by (auto simp: crypto_pqc_decrypt_payload_def)
qed

lemma decrypt_payload_refused:
  assumes "cipher_ready lib st" "\<And>c. gcm_refused lib c (sess_key sess) n (slice b off m) (slice b (off + m) 16)"
    and "0 < m" "off + m + 16 \<le> length b" "len = m + 16"
  shows "\<exists>xs c. length xs \<le> m \<and>
    crypto_pqc_decrypt_payload lib st sess n b off len = Some (None, patch b off xs, st\<lparr>tls_dec := Some c\<rparr>)"
proof -
  obtain c0 where "crypto_pqc_tls_cipher lib False st = (Some c0, st\<lparr>tls_dec := Some c0\<rparr>)" "g_pqc_initialized st"
    using tls_decipher_ready [OF assms(1)] .
  moreover obtain xs c where "length xs \<le> m"
    "trf_decrypt_payload_gcm lib True c0 (sess_key sess) n b off len = Some (TRF_PQC_ERR_CRYPTO, 0, patch b off xs, c)"
    using trf_decrypt_refused [OF assms(2-5)] by blast
  ultimately show ?thesis using assms(5)
    by (auto simp: crypto_pqc_decrypt_payload_def TRF_PQC_OK_def TRF_PQC_ERR_CRYPTO_def)
qed

section \<open>The key fallback\<close>

text \<open>The buffer at the head of the loop: the original one, up to what failed attempts wrote.\<close>

definition retry_buf :: "buf \<Rightarrow> nat \<Rightarrow> nat \<Rightarrow> bool \<Rightarrow> buf \<Rightarrow> bool" where
  "retry_buf b0 off len attempted b \<longleftrightarrow>
     (if attempted then \<exists>xs. length xs \<le> len \<and> b = patch b0 off xs else b = b0)"

lemma retry_buf_restored:
  assumes "retry_buf b0 off len attempted b" "off + len \<le> length b0"
  shows "(if attempted then wrn b off (slice b0 off len) else Some b) = Some b0"
proof (cases attempted)
  case True
  then obtain xs where xs: "length xs \<le> len" "b = patch b0 off xs" using assms by (auto simp: retry_buf_def)
  then have "patch b off (slice b0 off len) = patch b0 off (slice b0 off len)"
    using assms(2) by (simp add: patch_over)
  then show ?thesis using True xs assms(2) by (simp add: patch_slice_same)
next
  case False
  then show ?thesis using assms by (simp add: retry_buf_def)
qed

lemma retry_bufI: "length xs \<le> len \<Longrightarrow> retry_buf b0 off len True (patch b0 off xs)"
  by (auto simp: retry_buf_def)

lemma resilient_loop_refused:
  assumes "\<And>k c. Some k \<in> set ks \<Longrightarrow> \<not> crypto_pqc_key_is_all_zero k PQC_TRAFFIC_KEY_SZ \<Longrightarrow>
      gcm_refused lib c k n (slice b0 off m) (slice b0 (off + m) 16)"
    and "0 < m" "off + m + 16 \<le> length b0" "len = m + 16" "cipher_ready lib st"
    and "retry_buf b0 off len attempted b"
  shows "\<exists>b' st' a. resilient_loop lib st n (slice b0 off len) b off len attempted prior ks = Some (None, b', st')
    \<and> retry_buf b0 off len a b'"
  using assms(1,5,6)
proof (induction ks arbitrary: st b attempted prior)
  case Nil
  then show ?case by auto
next
  case (Cons key ks)
  show ?case
  proof (cases "\<exists>k. key = Some k \<and> \<not> crypto_pqc_key_is_all_zero k PQC_TRAFFIC_KEY_SZ \<and> k \<notin> set prior")
    case False
    with Cons show ?thesis by (cases key) auto
  next
    case True
    then obtain k where k: "key = Some k" "\<not> crypto_pqc_key_is_all_zero k PQC_TRAFFIC_KEY_SZ" "k \<notin> set prior" by blast
    let ?s = "\<lparr>sess_key = k, sess_aad = HARDCODED_AAD, sess_aad_len = 12\<rparr>"
    have "\<And>c. gcm_refused lib c (sess_key ?s) n (slice b0 off m) (slice b0 (off + m) 16)"
      using Cons.prems(1) [of k] k by simp
    from decrypt_payload_refused [OF Cons.prems(2) this assms(2,3,4)]
    obtain xs c where d: "length xs \<le> m"
      "crypto_pqc_decrypt_payload lib st ?s n b0 off len = Some (None, patch b0 off xs, st\<lparr>tls_dec := Some c\<rparr>)"
      by blast
    have r: "retry_buf b0 off len True (patch b0 off xs)" using d(1) assms(4) by (intro retry_bufI) simp
    have "\<exists>b' st' a. resilient_loop lib (st\<lparr>tls_dec := Some c\<rparr>) n (slice b0 off len) (patch b0 off xs) off len
        True (prior @ [k]) ks = Some (None, b', st') \<and> retry_buf b0 off len a b'"
      using Cons.prems by (intro Cons.IH r) auto
    moreover have "(if attempted then wrn b off (slice b0 off len) else Some b) = Some b0"
      using retry_buf_restored [OF Cons.prems(3)] assms(3,4) by simp
    ultimately show ?thesis using k d(2) by (simp split del: if_split)
  qed
qed

lemma resilient_loop_finds:
  assumes "scrypt_gcm lib enc tag" "length k = 32" "length n = 12" "p \<noteq> []"
    and "\<not> crypto_pqc_key_is_all_zero k PQC_TRAFFIC_KEY_SZ" "off + len \<le> length b0" "len = length p + 16"
    and "slice b0 off len = sealed_payload enc tag k n p"
    and "\<And>k' c. Some k' \<in> set ks \<Longrightarrow> \<not> crypto_pqc_key_is_all_zero k' PQC_TRAFFIC_KEY_SZ \<Longrightarrow> k' \<noteq> k \<Longrightarrow>
      gcm_refused lib c k' n (enc k n p) (tag k n p)"
    and "Some k \<in> set ks" "k \<notin> set prior" "cipher_ready lib st" "retry_buf b0 off len attempted b"
  shows "\<exists>c. resilient_loop lib st n (slice b0 off len) b off len attempted prior ks =
    Some (Some (length p), patch b0 off p, st\<lparr>tls_dec := Some c\<rparr>)"
  using assms(9-13)
proof (induction ks arbitrary: st b attempted prior)
  case Nil
  then show ?case by simp
next
  case (Cons key ks)
  note L = scrypt_gcmD [OF assms(1-4)]
  have parts: "slice b0 off (length p) = enc k n p" "slice b0 (off + length p) 16 = tag k n p"
    using slice_slice [of 0 "length p" len b0 off] slice_slice [of "length p" 16 len b0 off] assms(7,8) L
    by (simp_all add: sealed_payload_def) (simp_all add: slice_def)
  note restored = retry_buf_restored [OF Cons.prems(5) assms(6)]
  consider (skip) "key = None" | (skipzero) k' where "key = Some k'"
      "crypto_pqc_key_is_all_zero k' PQC_TRAFFIC_KEY_SZ \<or> k' \<in> set prior"
    | (hit) "key = Some k" | (miss) k' where "key = Some k'" "k' \<noteq> k" "k' \<notin> set prior"
      "\<not> crypto_pqc_key_is_all_zero k' PQC_TRAFFIC_KEY_SZ" by (cases key) auto
  then show ?case
  proof cases
    case skip
    with Cons show ?thesis by auto
  next
    case skipzero
    with Cons.prems assms(5) have "\<exists>c. resilient_loop lib st n (slice b0 off len) b off len attempted (prior @ [k']) ks =
        Some (Some (length p), patch b0 off p, st\<lparr>tls_dec := Some c\<rparr>)" by (intro Cons.IH) auto
    with skipzero show ?thesis by auto
  next
    case hit
    let ?s = "\<lparr>sess_key = k, sess_aad = HARDCODED_AAD, sess_aad_len = 12\<rparr>"
    obtain c where "crypto_pqc_decrypt_payload lib st ?s n b0 off len =
        Some (Some (length p), patch b0 off p, st\<lparr>tls_dec := Some c\<rparr>)"
      using decrypt_payload_ok [OF assms(1) Cons.prems(4), of ?s n p off len b0] assms by auto
    with hit restored assms(5) Cons.prems(3) show ?thesis by (simp split del: if_split) blast
  next
    case (miss k')
    let ?s = "\<lparr>sess_key = k', sess_aad = HARDCODED_AAD, sess_aad_len = 12\<rparr>"
    have "\<And>c. gcm_refused lib c (sess_key ?s) n (slice b0 off (length p)) (slice b0 (off + length p) 16)"
      using Cons.prems(1) [of k'] miss by (simp add: parts)
    from decrypt_payload_refused [OF Cons.prems(4) this] obtain xs c where d: "length xs \<le> length p"
      "crypto_pqc_decrypt_payload lib st ?s n b0 off len = Some (None, patch b0 off xs, st\<lparr>tls_dec := Some c\<rparr>)"
      using assms(4,6,7) by fastforce
    have r: "retry_buf b0 off len True (patch b0 off xs)" using d(1) assms(7) by (intro retry_bufI) simp
    have "\<exists>c'. resilient_loop lib (st\<lparr>tls_dec := Some c\<rparr>) n (slice b0 off len) (patch b0 off xs) off len True
        (prior @ [k']) ks = Some (Some (length p), patch b0 off p, st\<lparr>tls_dec := Some c, tls_dec := Some c'\<rparr>)"
      using Cons.prems miss by (intro Cons.IH r) auto
    then show ?thesis using miss d(2) restored by (simp split del: if_split)
  qed
qed

text \<open>The receiver's other keys refuse what was sealed under \<open>k\<close>.\<close>

definition keys_told_apart :: "('c, 'l) scrypt_lib_scheme \<Rightarrow> (buf \<Rightarrow> buf \<Rightarrow> buf \<Rightarrow> buf) \<Rightarrow>
    (buf \<Rightarrow> buf \<Rightarrow> buf \<Rightarrow> buf) \<Rightarrow> packet_crypto_ctx \<Rightarrow> buf \<Rightarrow> buf \<Rightarrow> buf \<Rightarrow> bool" where
  "keys_told_apart lib enc tag ctx k n p \<longleftrightarrow>
     (\<forall>k' \<in> set (ctx_keys ctx). key_nonzero k' PQC_TRAFFIC_KEY_SZ \<longrightarrow> k' \<noteq> k \<longrightarrow>
        (\<forall>c. gcm_refused lib c k' n (enc k n p) (tag k n p)))"

lemma all_zero_iff: "crypto_pqc_key_is_all_zero key len \<longleftrightarrow> \<not> key_nonzero key len"
  by (auto simp: crypto_pqc_key_is_all_zero_def key_nonzero_def list_all_iff list_ex_iff)

lemma tried_keys:
  assumes "ctx_wf ctx"
  shows "Some k \<in> set (fallback_keys ctx)
    \<longleftrightarrow> k \<in> set (ctx_keys ctx)"
proof -
  have "\<exists>a b c. ctx_keys ctx = [a, b, c]"
    using assms by (auto simp: ctx_wf_def key_slot_defs numeral_3_eq_3 length_Suc_conv)
  then show ?thesis by (auto simp: fallback_keys_def packet_crypto_get_key_def key_slot_defs)
qed

lemma sess_load_ok:
  assumes "ctx_wf ctx" "crypto_pqc_sess_load ctx = Some sess"
  shows "sess_key sess = ctx_keys ctx ! 1" "length (sess_key sess) = 32"
    "key_nonzero (sess_key sess) PQC_TRAFFIC_KEY_SZ"
  using assms by (auto simp: crypto_pqc_sess_load_def packet_crypto_get_key_def key_slot_defs ctx_wf_def all_zero_iff
      split: option.splits if_splits)

lemma resilient_ok:
  assumes "scrypt_gcm lib enc tag" "ctx_wf ctx" "k \<in> set (ctx_keys ctx)" "key_nonzero k PQC_TRAFFIC_KEY_SZ"
    and "keys_told_apart lib enc tag ctx k n p" "cipher_ready lib st" "length n = 12" "p \<noteq> []"
    and "off + len \<le> length b" "len = length p + 16" "len \<le> 2048"
    and "slice b off len = sealed_payload enc tag k n p"
  shows "\<exists>c. crypto_pqc_decrypt_payload_resilient lib st ctx n b off len =
    Some (Some (length p), patch b off p, st\<lparr>tls_dec := Some c\<rparr>)"
proof -
  have "\<exists>c. resilient_loop lib st n (slice b off len) b off len False []
      (fallback_keys ctx) =
      Some (Some (length p), patch b off p, st\<lparr>tls_dec := Some c\<rparr>)"
  proof (rule resilient_loop_finds [OF assms(1)])
    show "length k = 32" using assms(2,3) by (auto simp: ctx_wf_def key_slot_defs)
    show "retry_buf b off len False b" by (simp add: retry_buf_def)
  qed (use assms in \<open>auto simp: tried_keys all_zero_iff keys_told_apart_def\<close>)
  then show ?thesis using assms(9-11) by (simp add: crypto_pqc_decrypt_payload_resilient_def)
qed

lemma resilient_refused:
  assumes "ctx_wf ctx" "cipher_ready lib st" "0 < m" "off + m + 16 \<le> length b" "m + 16 \<le> 2048"
    and "\<And>k c. k \<in> set (ctx_keys ctx) \<Longrightarrow> key_nonzero k PQC_TRAFFIC_KEY_SZ \<Longrightarrow>
      gcm_refused lib c k n (slice b off m) (slice b (off + m) 16)"
  shows "\<exists>b' st' a. crypto_pqc_decrypt_payload_resilient lib st ctx n b off (m + 16) = Some (None, b', st')
    \<and> retry_buf b off (m + 16) a b'"
proof -
  have "\<exists>b' st' a. resilient_loop lib st n (slice b off (m + 16)) b off (m + 16) False []
      (fallback_keys ctx) =
      Some (None, b', st') \<and> retry_buf b off (m + 16) a b'"
    by (rule resilient_loop_refused [of _ lib n b off m])
      (use assms in \<open>auto simp: tried_keys all_zero_iff retry_buf_def\<close>)
  then show ?thesis using assms(4,5) by (simp add: crypto_pqc_decrypt_payload_resilient_def)
qed

section \<open>Loading the handshake keys\<close>

lemma find_binding: "find (\<lambda>b. pb_policy_id b = i) bindings = Some b \<Longrightarrow> b \<in> set bindings"
  by (auto simp: find_Some_iff)

text \<open>After a refresh from a binding, a valid slot holds its key and every other slot is all zero.\<close>

lemma refresh_slots:
  assumes "ctx_wf ctx" "ctx_pqc_from_handshake ctx"
    and "find (\<lambda>b. pb_policy_id b = ctx_policy_id ctx) bindings = Some b" "slot < 3"
  shows "ctx_keys (packet_crypto_refresh_pqc_keys bindings ctx) ! slot =
    (if pb_key_slots_valid b ! slot then pb_keys b ! slot else replicate 32 0)"
  using assms
  by (simp add: packet_crypto_refresh_pqc_keys_def pqc_load_handshake_slots_def sig_pqc_get_keys_def
      wipe_key_bytes_def ctx_wf_def key_slot_defs)

lemma refresh_wf:
  assumes "ctx_wf ctx" "\<And>b. b \<in> set bindings \<Longrightarrow> binding_wf b"
  shows "ctx_wf (packet_crypto_refresh_pqc_keys bindings ctx)"
proof (cases "find (\<lambda>b. pb_policy_id b = ctx_policy_id ctx) bindings")
  case None
  with assms show ?thesis
    by (auto simp: packet_crypto_refresh_pqc_keys_def pqc_load_handshake_slots_def sig_pqc_get_keys_def
        pqc_clear_ctx_keys_def ctx_wf_def wipe_key_bytes_def key_slot_defs)
next
  case (Some b)
  then have "binding_wf b" using assms(2) find_binding by blast
  with Some assms(1) show ?thesis
    by (auto simp: packet_crypto_refresh_pqc_keys_def pqc_load_handshake_slots_def sig_pqc_get_keys_def
        ctx_wf_def binding_wf_def wipe_key_bytes_def key_slot_defs)
qed

text \<open>Without a binding the keys of a context that has a CURRENT key stay in place.\<close>

lemma refresh_no_binding:
  assumes "find (\<lambda>b. pb_policy_id b = ctx_policy_id ctx) bindings = None"
    and "key_nonzero (ctx_keys ctx ! 1) PQC_TRAFFIC_KEY_SZ"
  shows "packet_crypto_refresh_pqc_keys bindings ctx = ctx"
  using assms by (simp add: packet_crypto_refresh_pqc_keys_def pqc_load_handshake_slots_def
      sig_pqc_get_keys_def KEY_SLOT_CURRENT_def)

section \<open>Nonces\<close>

definition nonce_state :: "('c, 'l) scrypt_lib_scheme \<Rightarrow> ('c, 'z) crypto_state_scheme \<Rightarrow> nat \<Rightarrow> ('c, 'z) crypto_state_scheme" where
  "nonce_state lib st i = ((\<lambda>s. snd (snd (trf_pqc_generate_nonce lib s))) ^^ i) st"

definition nth_nonce :: "('c, 'l) scrypt_lib_scheme \<Rightarrow> ('c, 'z) crypto_state_scheme \<Rightarrow> nat \<Rightarrow> buf" where
  "nth_nonce lib st i = fst (snd (trf_pqc_generate_nonce lib (nonce_state lib st i)))"

definition salt_ready :: "('c, 'l) scrypt_lib_scheme \<Rightarrow> ('c, 'z) crypto_state_scheme \<Rightarrow> bool" where
  "salt_ready lib st \<longleftrightarrow> (if tls_salt_initialized st then length (tls_pqc_salt st) = 8
     else fst (scrypt_RandomBytes lib 8) = 0 \<and> length (snd (scrypt_RandomBytes lib 8)) = 8)"

definition nonce_salt :: "('c, 'l) scrypt_lib_scheme \<Rightarrow> ('c, 'z) crypto_state_scheme \<Rightarrow> buf" where
  "nonce_salt lib st = (if tls_salt_initialized st then tls_pqc_salt st else snd (scrypt_RandomBytes lib 8))"

lemma generate_nonce_ok:
  assumes "salt_ready lib st"
  shows "trf_pqc_generate_nonce lib st = (0, nonce_salt lib st @ le32_bytes (tls_pqc_counter st + 1),
    st\<lparr>tls_pqc_salt := nonce_salt lib st, tls_salt_initialized := True, tls_pqc_counter := tls_pqc_counter st + 1\<rparr>)"
  using assms by (auto simp: trf_pqc_generate_nonce_def salt_ready_def nonce_salt_def Let_def split: prod.splits)

lemma nonce_state_eq:
  assumes "salt_ready lib st"
  shows "salt_ready lib (nonce_state lib st i) \<and> nonce_salt lib (nonce_state lib st i) = nonce_salt lib st
    \<and> tls_pqc_counter (nonce_state lib st i) = tls_pqc_counter st + of_nat i"
proof (induction i)
  case 0
  with assms show ?case by (simp add: nonce_state_def)
next
  case (Suc i)
  moreover have "nonce_state lib st (Suc i) = snd (snd (trf_pqc_generate_nonce lib (nonce_state lib st i)))"
    by (simp add: nonce_state_def)
  moreover have "length (nonce_salt lib st) = 8" using assms by (auto simp: salt_ready_def nonce_salt_def)
  ultimately show ?case by (simp add: generate_nonce_ok) (simp add: salt_ready_def nonce_salt_def)
qed

lemma le32_bytes_inj: "le32_bytes x = le32_bytes y \<longleftrightarrow> x = y"
proof
  assume "le32_bytes x = le32_bytes y"
  then have "be32_bytes x = be32_bytes y" by (simp add: le32_bytes_def)
  then show "x = y" using be32_roundtrip [of x] be32_roundtrip [of y] unfolding be32_bytes_def by (metis list.inject)
qed simp

lemma length_le32 [simp]: "length (le32_bytes x) = 4"
  by (simp add: le32_bytes_def)

lemma of_nat_u32_eq: "(of_nat i :: u32) = of_nat j \<longleftrightarrow> i mod 2 ^ 32 = j mod 2 ^ 32"
  by (simp add: word_unat_eq_iff unat_of_nat)

section \<open>A concrete cipher, for witnesses\<close>

text \<open>A cipher of the library's shape: bytewise xor with the first key byte, the first sixteen key
  bytes as the tag. A context holds the direction, the key and the expected tag.\<close>

definition xor_enc :: "buf \<Rightarrow> buf \<Rightarrow> buf \<Rightarrow> buf" where
  "xor_enc k n p = map (\<lambda>x. x XOR hd k) p"

definition xor_tag :: "buf \<Rightarrow> buf \<Rightarrow> buf \<Rightarrow> buf" where
  "xor_tag k n p = take 16 k"

definition xor_lib :: "(bool \<times> buf \<times> buf) scrypt_lib" where
  "xor_lib = \<lparr>scrypt_RandomBytes = (\<lambda>n. (0, replicate n 7)), scrypt_CipherCtxNew = Some (True, [], []),
     scrypt_CipherInit = (\<lambda>_ k n enc. (0, (enc, k, []))), scrypt_CipherSetTagSize = (\<lambda>c _. c),
     scrypt_CipherUpdate = (\<lambda>(enc, k, t) p. (0, map (\<lambda>x. x XOR hd k) p, (enc, k, t))),
     scrypt_CipherFinal = (\<lambda>(enc, k, t). (if enc \<or> t = take 16 k then 0 else -1, [], (enc, k, t))),
     scrypt_CipherGetTag = (\<lambda>(enc, k, t). (0, take 16 k, (enc, k, t))),
     scrypt_CipherSetTag = (\<lambda>(enc, k, _) t. (0, (enc, k, t)))\<rparr>"

lemma xor_lib_gcm: "scrypt_gcm xor_lib xor_enc xor_tag"
  by (auto simp: scrypt_gcm_def xor_lib_def xor_enc_def xor_tag_def gcm_sealed_def gcm_opened_def
      key_slot_defs TAG_SIZE_GCM_def xor.assoc o_def)

lemma xor_lib_refused: "take 16 k' \<noteq> take 16 k \<Longrightarrow> gcm_refused xor_lib c k' n ct (xor_tag k n' p)"
  by (auto simp: gcm_refused_def xor_lib_def xor_tag_def)

definition example_state :: "(bool \<times> buf \<times> buf) crypto_state" where
  "example_state = \<lparr>g_pqc_initialized = True, tls_pqc_salt = [], tls_pqc_counter = 0,
     tls_salt_initialized = False, tls_enc = None, tls_dec = None\<rparr>"

definition example_ctx :: "u8 \<Rightarrow> u8 \<Rightarrow> u8 \<Rightarrow> packet_crypto_ctx" where
  "example_ctx a b c = \<lparr>ctx_master_key = replicate 32 0, ctx_keys = [replicate 32 a, replicate 32 b, replicate 32 c],
     ctx_initialized = True, ctx_policy_id = 7, ctx_wire_id = 5, ctx_profile_id = 1, ctx_pqc_from_handshake = True,
     ctx_pqc_key_in_use_ms = 0, ctx_pqc_timed_key = replicate 32 0, ctx_pqc_rekey_sent = False\<rparr>"

lemma example_ctx_wf [simp]: "ctx_wf (example_ctx a b c)"
  by (auto simp: ctx_wf_def example_ctx_def key_slot_defs)

lemma xor_ready [simp]: "cipher_ready xor_lib example_state" "salt_ready xor_lib example_state"
  by (simp_all add: cipher_ready_def salt_ready_def xor_lib_def example_state_def)

lemma replicate_nonzero: "key_nonzero (replicate 32 a) PQC_TRAFFIC_KEY_SZ \<longleftrightarrow> a \<noteq> 0"
  by (simp add: key_nonzero_def key_slot_defs numeral_eq_Suc)

lemma example_told_apart: "keys_told_apart xor_lib xor_enc xor_tag (example_ctx a b c) (replicate 32 k) n p"
proof -
  have "replicate 16 x \<noteq> replicate 16 y" if "x \<noteq> y" for x y :: u8
    using that by (simp add: numeral_eq_Suc)
  then show ?thesis
    by (auto simp: keys_told_apart_def example_ctx_def intro!: xor_lib_refused)
qed

lemma example_sess_load:
  "b \<noteq> 0 \<Longrightarrow> crypto_pqc_sess_load (example_ctx a b c) =
    Some \<lparr>sess_key = replicate 32 b, sess_aad = HARDCODED_AAD, sess_aad_len = 12\<rparr>"
  by (simp add: crypto_pqc_sess_load_def packet_crypto_get_key_def all_zero_iff example_ctx_def
      key_slot_defs replicate_nonzero [unfolded key_slot_defs])

section \<open>Properties\<close>

text \<open>A payload sealed under the sender's CURRENT key is recovered byte for byte by a receiver
  that has this key in any of its three slots, CURRENT, NEXT or PREV, at the price of at most two
  refused attempts; the bytes around the payload are untouched on both sides. The receiver may
  hold the payload in a different frame, at a different offset.\<close>

lemma payload_survives_rotation:
  assumes "scrypt_gcm lib enc tag"
    and "ctx_wf sender" "crypto_pqc_sess_load sender = Some sess" "cipher_ready lib st"
    and "ctx_wf receiver" "sess_key sess \<in> set (ctx_keys receiver)" "cipher_ready lib st'"
    and "keys_told_apart lib enc tag receiver (sess_key sess) n (slice b off len)"
    and "length n = 12" "0 < len" "off + len + 16 \<le> length b" "len + 16 \<le> 2048"
    and "off' + len + 16 \<le> length b'"
  shows "\<exists>wire b1 st1. crypto_pqc_encrypt_payload lib st sess n b off len = Some (Some (len + 16), b1, st1)
    \<and> wire = slice b1 off (len + 16) \<and> b1 = patch b off wire
    \<and> (\<exists>st2. crypto_pqc_decrypt_payload_resilient lib st' receiver n (patch b' off' wire) off' (len + 16) =
        Some (Some len, patch (patch b' off' wire) off' (slice b off len), st2))"
proof -
  let ?p = "slice b off len" and ?k = "sess_key sess"
  let ?w = "sealed_payload enc tag ?k n ?p"
  note k = sess_load_ok(2,3) [OF assms(2,3)]
  have p: "?p \<noteq> []" "length ?p = len" using assms(10,11) by (auto simp flip: length_greater_0_conv)
  have w: "length ?w = len + 16" using length_sealed_payload [OF assms(1) _ assms(9) p(1), of ?k] k p by simp
  obtain c where e: "crypto_pqc_encrypt_payload lib st sess n b off len =
      Some (Some (len + 16), patch b off ?w, st\<lparr>tls_enc := Some c\<rparr>)"
    using encrypt_payload_ok [OF assms(1,4) _ assms(9-11)] k by blast
  have "slice (patch b off ?w) off (len + 16) = ?w" using assms(11) w by (intro slice_patch_same) auto
  moreover have "\<exists>c. crypto_pqc_decrypt_payload_resilient lib st' receiver n (patch b' off' ?w) off' (len + 16) =
      Some (Some (length ?p), patch (patch b' off' ?w) off' ?p, st'\<lparr>tls_dec := Some c\<rparr>)"
  proof (rule resilient_ok [OF assms(1,5,6) _ assms(8,7,9) p(1)])
    show "slice (patch b' off' ?w) off' (len + 16) = ?w" using assms(13) w by (intro slice_patch_same) auto
  qed (use k p w assms(12,13) in auto)
  ultimately show ?thesis using e p(2) by auto
qed

text \<open>The n-th and the m-th nonce that a thread generates are equal exactly when n and m agree
  modulo 2 to the 32: within 2 to the 32 packets no nonce repeats, and the packet after that
  reuses the first nonce under whatever key is then current.\<close>

lemma nonce_repeats_iff:
  assumes "salt_ready lib st"
  shows "nth_nonce lib st i = nth_nonce lib st j \<longleftrightarrow> i mod 2 ^ 32 = j mod 2 ^ 32"
proof -
  have "nth_nonce lib st m = nonce_salt lib st @ le32_bytes (tls_pqc_counter st + of_nat m + 1)" for m
    using nonce_state_eq [OF assms, of m] by (simp add: nth_nonce_def generate_nonce_ok)
  then show ?thesis by (simp add: le32_bytes_inj of_nat_u32_eq)
qed

end
