(* ===== verification/Base64.thy ===== *)
theory Base64
  imports NE_Prelude
begin

text \<open>
  The base-64 coding of keys in \<open>src/crypto/pqc/traffic_crypto.c\<close>, plain and XOR-ed with a seed. A C string is
  the buffer that holds it, its terminating zero included, so that reading past the end of the array is
  \<^const>\<open>None\<close>; so is an access to the table \<open>b64_inv\<close> with the negative index that a character from 128 on gives
  where \<open>char\<close> is signed.
\<close>

section \<open>Definitions\<close>

definition base64_chars :: buf where
  "base64_chars = map of_char ''ABCDEFGHIJKLMNOPQRSTUVWXYZabcdefghijklmnopqrstuvwxyz0123456789+/''"

definition b64_pad :: u8 where "b64_pad = 61"

definition b64_char :: "u32 \<Rightarrow> u8" where
  "b64_char v = base64_chars ! unat (v AND 0x3F)"

fun trf_base64_encode :: "buf \<Rightarrow> buf" where
  "trf_base64_encode [] = [0]"
| "trf_base64_encode [a] =
     (let v = push_bit 16 (ucast a)
      in [b64_char (drop_bit 18 v), b64_char (drop_bit 12 v), b64_pad, b64_pad, 0])"
| "trf_base64_encode [a, b] =
     (let v = push_bit 16 (ucast a) OR push_bit 8 (ucast b)
      in [b64_char (drop_bit 18 v), b64_char (drop_bit 12 v), b64_char (drop_bit 6 v), b64_pad, 0])"
| "trf_base64_encode (a # b # c # rest) =
     (let v = push_bit 16 (ucast a) OR push_bit 8 (ucast b) OR ucast c
      in [b64_char (drop_bit 18 v), b64_char (drop_bit 12 v), b64_char (drop_bit 6 v), b64_char v]
         @ trf_base64_encode rest)"

text \<open>The table \<open>b64_inv\<close>: \<open>-1\<close> as an unsigned number where there is no entry.\<close>

definition b64_inv :: "u8 \<Rightarrow> u32 mem" where
  "b64_inv ch =
     (if ch \<ge> 128 then None
      else Some (case find (\<lambda>k. base64_chars ! k = ch) [0..<64] of None \<Rightarrow> -1 | Some k \<Rightarrow> of_nat k))"

definition c_strlen :: "buf \<Rightarrow> nat" where
  "c_strlen s = length (takeWhile (\<lambda>ch. ch \<noteq> 0) s)"

text \<open>The loop from position \<open>i\<close> on; the output so far is \<open>out\<close>, of at most \<open>cap\<close> bytes.\<close>

function b64_decode_loop :: "buf \<Rightarrow> nat \<Rightarrow> nat \<Rightarrow> buf \<Rightarrow> nat \<Rightarrow> buf mem" where
  "b64_decode_loop src in_len cap out i =
     (if i \<ge> in_len then Some out
      else do {
        c0 \<leftarrow> rd8 src i; c1 \<leftarrow> rd8 src (i + 1);
        v0 \<leftarrow> b64_inv c0; v1 \<leftarrow> b64_inv c1;
        let v = push_bit 18 v0 OR push_bit 12 v1;
        out \<leftarrow> (if length out < cap then Some (out @ [ucast (drop_bit 16 v)]) else None);
        c2 \<leftarrow> rd8 src (i + 2);
        (v, out) \<leftarrow> (if c2 \<noteq> b64_pad then do {
            v2 \<leftarrow> b64_inv c2;
            let v = v OR push_bit 6 v2;
            if length out < cap then Some (v, out @ [ucast (drop_bit 8 v)]) else None }
          else Some (v, out));
        c3 \<leftarrow> rd8 src (i + 3);
        out \<leftarrow> (if c3 \<noteq> b64_pad then do {
            v3 \<leftarrow> b64_inv c3;
            if length out < cap then Some (out @ [ucast (v OR v3)]) else None }
          else Some out);
        b64_decode_loop src in_len cap out (i + 4) })"
  by pat_completeness auto

termination
  by (relation "measure (\<lambda>(src, in_len, cap, out, i). in_len - i)") auto

declare b64_decode_loop.simps [simp del]

text \<open>\<open>cap\<close> is the size of the output array.\<close>

definition trf_base64_decode :: "buf \<Rightarrow> nat \<Rightarrow> buf mem" where
  "trf_base64_decode src cap = b64_decode_loop src (c_strlen src) cap [] 0"

definition xor_seed :: "buf \<Rightarrow> buf \<Rightarrow> buf" where
  "xor_seed seed xs = map (\<lambda>i. xs ! i XOR seed ! (i mod c_strlen seed)) [0..<length xs]"

definition trf_base64_encode_obfuscated :: "buf \<Rightarrow> buf \<Rightarrow> buf" where
  "trf_base64_encode_obfuscated src seed = trf_base64_encode (xor_seed seed src)"

definition trf_base64_decode_obfuscated :: "buf \<Rightarrow> buf \<Rightarrow> nat \<Rightarrow> buf mem" where
  "trf_base64_decode_obfuscated src seed cap = map_option (xor_seed seed) (trf_base64_decode src cap)"

section \<open>One group\<close>

lemma base64_chars_eq: "base64_chars = [65, 66, 67, 68, 69, 70, 71, 72, 73, 74, 75, 76, 77, 78, 79, 80, 81, 82, 83, 84, 85, 86, 87, 88, 89, 90, 97, 98, 99, 100, 101, 102, 103, 104, 105, 106, 107, 108, 109, 110, 111, 112, 113, 114, 115, 116, 117, 118, 119, 120, 121, 122, 48, 49, 50, 51, 52, 53, 54, 55, 56, 57, 43, 47]"
  by (simp add: base64_chars_def)

lemma base64_chars_distinct: "distinct base64_chars"
  unfolding base64_chars_eq by simp

lemma base64_chars_range: "\<forall>ch \<in> set base64_chars. ch < 128 \<and> ch \<noteq> 0 \<and> ch \<noteq> b64_pad"
  unfolding base64_chars_eq by (simp add: b64_pad_def)

lemma length_base64_chars: "length base64_chars = 64"
  by (simp add: base64_chars_def)

lemma b64_inv_char:
  assumes "k < 64"
  shows "b64_inv (base64_chars ! k) = Some (of_nat k)"
proof -
  have "find (\<lambda>j. base64_chars ! j = base64_chars ! k) [0..<64] = Some k"
    using assms base64_chars_distinct length_base64_chars
    by (intro find_upt_SomeI) (auto simp: nth_eq_iff_index_eq)
  moreover have "base64_chars ! k \<in> set base64_chars" using assms length_base64_chars by simp
  then have "base64_chars ! k < 128" using base64_chars_range by blast
  ultimately show ?thesis by (simp add: b64_inv_def not_le)
qed

lemma mask_3F: "(0x3F :: u32) = mask 6"
  by (simp add: mask_eq_exp_minus_1)

lemma b64_char_ok: "b64_inv (b64_char v) = Some (v AND 0x3F)" "b64_char v \<noteq> b64_pad" "b64_char v \<noteq> 0"
proof -
  have k: "unat (v AND 0x3F) < 64" using unat_and_le [of v "0x3F"] by simp
  show "b64_inv (b64_char v) = Some (v AND 0x3F)" using b64_inv_char [OF k] by (simp add: b64_char_def)
  have "b64_char v \<in> set base64_chars" using k length_base64_chars by (simp add: b64_char_def)
  then show "b64_char v \<noteq> b64_pad" "b64_char v \<noteq> 0" using base64_chars_range by blast+
qed

lemma group_bits:
  fixes a b c :: u8 and v :: u32
  defines "v \<equiv> push_bit 16 (ucast a) OR push_bit 8 (ucast b) OR ucast c"
  shows "ucast (drop_bit 16 (push_bit 18 (drop_bit 18 v AND 0x3F) OR push_bit 12 (drop_bit 12 v AND 0x3F))) = a"
    "ucast (drop_bit 8 (push_bit 18 (drop_bit 18 v AND 0x3F) OR push_bit 12 (drop_bit 12 v AND 0x3F)
       OR push_bit 6 (drop_bit 6 v AND 0x3F))) = b"
    "ucast (push_bit 18 (drop_bit 18 v AND 0x3F) OR push_bit 12 (drop_bit 12 v AND 0x3F)
       OR push_bit 6 (drop_bit 6 v AND 0x3F) OR (v AND 0x3F)) = c"
proof -
  have cases8: "n < LENGTH(8) \<Longrightarrow> n \<in> {0, 1, 2, 3, 4, 5, 6, 7}" for n :: nat by auto
  show "ucast (drop_bit 16 (push_bit 18 (drop_bit 18 v AND 0x3F) OR push_bit 12 (drop_bit 12 v AND 0x3F))) = a"
    unfolding v_def mask_3F by (rule bit_word_eqI; drule cases8; elim insertE emptyE; simp add: bit_simps bit_u8_high; simp add: eval_nat_numeral)
  show "ucast (drop_bit 8 (push_bit 18 (drop_bit 18 v AND 0x3F) OR push_bit 12 (drop_bit 12 v AND 0x3F)
       OR push_bit 6 (drop_bit 6 v AND 0x3F))) = b"
    unfolding v_def mask_3F by (rule bit_word_eqI; drule cases8; elim insertE emptyE; simp add: bit_simps bit_u8_high; simp add: eval_nat_numeral)
  show "ucast (push_bit 18 (drop_bit 18 v AND 0x3F) OR push_bit 12 (drop_bit 12 v AND 0x3F)
       OR push_bit 6 (drop_bit 6 v AND 0x3F) OR (v AND 0x3F)) = c"
    unfolding v_def mask_3F by (rule bit_word_eqI; drule cases8; elim insertE emptyE; simp add: bit_simps bit_u8_high; simp add: eval_nat_numeral)
qed

lemma pad_bits:
  fixes a b :: u8
  shows "ucast (drop_bit 16 (push_bit 18 (drop_bit 18 (push_bit 16 (ucast a)) AND 0x3F)
      OR push_bit 12 (drop_bit 12 (push_bit 16 (ucast a)) AND 0x3F) :: u32)) = a"
    "ucast (drop_bit 16 (push_bit 18 (drop_bit 18 (push_bit 16 (ucast a) OR push_bit 8 (ucast b)) AND 0x3F)
      OR push_bit 12 (drop_bit 12 (push_bit 16 (ucast a) OR push_bit 8 (ucast b)) AND 0x3F) :: u32)) = a"
    "ucast (drop_bit 8 (push_bit 18 (drop_bit 18 (push_bit 16 (ucast a) OR push_bit 8 (ucast b)) AND 0x3F)
      OR push_bit 12 (drop_bit 12 (push_bit 16 (ucast a) OR push_bit 8 (ucast b)) AND 0x3F)
      OR push_bit 6 (drop_bit 6 (push_bit 16 (ucast a) OR push_bit 8 (ucast b)) AND 0x3F) :: u32)) = b"
  using group_bits(1) [of a 0 0] group_bits(1) [of a b 0] group_bits(2) [of a b 0] by simp_all

section \<open>Round trip\<close>

lemma decode_group3:
  assumes "i < in_len" "length out + 3 \<le> cap" "rd8 src i = Some c0" "rd8 src (i + 1) = Some c1" "rd8 src (i + 2) = Some c2"
    "rd8 src (i + 3) = Some c3" "b64_inv c0 = Some x0" "b64_inv c1 = Some x1" "b64_inv c2 = Some x2" "b64_inv c3 = Some x3"
    "c2 \<noteq> b64_pad" "c3 \<noteq> b64_pad"
  shows "b64_decode_loop src in_len cap out i = b64_decode_loop src in_len cap
    (out @ [ucast (drop_bit 16 (push_bit 18 x0 OR push_bit 12 x1)),
            ucast (drop_bit 8 (push_bit 18 x0 OR push_bit 12 x1 OR push_bit 6 x2)),
            ucast (push_bit 18 x0 OR push_bit 12 x1 OR push_bit 6 x2 OR x3)]) (i + 4)"
  using assms by (subst b64_decode_loop.simps) (simp add: Let_def or.assoc)

lemma decode_group2:
  assumes "i < in_len" "length out + 2 \<le> cap" "rd8 src i = Some c0" "rd8 src (i + 1) = Some c1" "rd8 src (i + 2) = Some c2"
    "rd8 src (i + 3) = Some b64_pad" "b64_inv c0 = Some x0" "b64_inv c1 = Some x1" "b64_inv c2 = Some x2" "c2 \<noteq> b64_pad"
  shows "b64_decode_loop src in_len cap out i = b64_decode_loop src in_len cap
    (out @ [ucast (drop_bit 16 (push_bit 18 x0 OR push_bit 12 x1)),
            ucast (drop_bit 8 (push_bit 18 x0 OR push_bit 12 x1 OR push_bit 6 x2))]) (i + 4)"
  using assms by (subst b64_decode_loop.simps) (simp add: Let_def or.assoc)

lemma decode_group1:
  assumes "i < in_len" "length out + 1 \<le> cap" "rd8 src i = Some c0" "rd8 src (i + 1) = Some c1" "rd8 src (i + 2) = Some b64_pad"
    "rd8 src (i + 3) = Some b64_pad" "b64_inv c0 = Some x0" "b64_inv c1 = Some x1"
  shows "b64_decode_loop src in_len cap out i = b64_decode_loop src in_len cap
    (out @ [ucast (drop_bit 16 (push_bit 18 x0 OR push_bit 12 x1))]) (i + 4)"
  using assms by (subst b64_decode_loop.simps) (simp add: Let_def or.assoc)

lemma decode_end: "in_len \<le> i \<Longrightarrow> b64_decode_loop src in_len cap out i = Some out"
  by (subst b64_decode_loop.simps) simp

text \<open>Decoding at position \<open>length pre\<close> of a text whose rest is an encoding.\<close>

lemma decode_encoded:
  assumes "in_len = length pre + length (trf_base64_encode xs) - 1" "length out + length xs \<le> cap"
  shows "b64_decode_loop (pre @ trf_base64_encode xs) in_len cap out (length pre) = Some (out @ xs)"
  using assms
proof (induction xs arbitrary: pre out rule: trf_base64_encode.induct)
  case 1
  then show ?case by (simp add: decode_end)
next
  case (2 a)
  let ?v = "push_bit 16 (ucast a) :: u32"
  have "b64_decode_loop (pre @ trf_base64_encode [a]) in_len cap out (length pre) = b64_decode_loop (pre @ trf_base64_encode [a]) in_len cap
      (out @ [ucast (drop_bit 16 (push_bit 18 (drop_bit 18 ?v AND 0x3F) OR push_bit 12 (drop_bit 12 ?v AND 0x3F)))]) (length pre + 4)"
    by (rule decode_group1 [OF _ _ _ _ _ _ b64_char_ok(1) b64_char_ok(1)]) (use 2 in \<open>simp_all add: Let_def rd8_def nth_append\<close>)
  also have "\<dots> = Some (out @ [a])" unfolding pad_bits using 2 by (simp add: Let_def decode_end)
  finally show ?case .
next
  case (3 a b)
  let ?v = "push_bit 16 (ucast a) OR push_bit 8 (ucast b) :: u32"
  have "b64_decode_loop (pre @ trf_base64_encode [a, b]) in_len cap out (length pre) = b64_decode_loop (pre @ trf_base64_encode [a, b]) in_len cap
      (out @ [ucast (drop_bit 16 (push_bit 18 (drop_bit 18 ?v AND 0x3F) OR push_bit 12 (drop_bit 12 ?v AND 0x3F))),
        ucast (drop_bit 8 (push_bit 18 (drop_bit 18 ?v AND 0x3F) OR push_bit 12 (drop_bit 12 ?v AND 0x3F) OR push_bit 6 (drop_bit 6 ?v AND 0x3F)))])
      (length pre + 4)"
    by (rule decode_group2 [OF _ _ _ _ _ _ b64_char_ok(1) b64_char_ok(1) b64_char_ok(1) b64_char_ok(2)])
      (use 3 in \<open>simp_all add: Let_def rd8_def nth_append\<close>)
  also have "\<dots> = Some (out @ [a, b])" unfolding pad_bits using 3 by (simp add: Let_def decode_end)
  finally show ?case .
next
  case (4 a b c rest)
  let ?v = "push_bit 16 (ucast a) OR push_bit 8 (ucast b) OR ucast c :: u32"
  let ?g = "[b64_char (drop_bit 18 ?v), b64_char (drop_bit 12 ?v), b64_char (drop_bit 6 ?v), b64_char ?v]"
  have e: "trf_base64_encode (a # b # c # rest) = ?g @ trf_base64_encode rest" by (simp add: Let_def)
  let ?src = "pre @ ?g @ trf_base64_encode rest"
  have IH: "b64_decode_loop ((pre @ ?g) @ trf_base64_encode rest) in_len cap (out @ [a, b, c]) (length (pre @ ?g))
      = Some ((out @ [a, b, c]) @ rest)"
    by (rule 4(1) [OF refl]) (use 4(2,3) in \<open>simp_all add: Let_def\<close>)
  have "length (trf_base64_encode rest) \<noteq> 0" by (cases rest rule: trf_base64_encode.cases) (simp_all add: Let_def)
  then have "length pre < in_len" using 4(2) unfolding e by simp
  then have "b64_decode_loop ?src in_len cap out (length pre) = b64_decode_loop ?src in_len cap
      (out @ [ucast (drop_bit 16 (push_bit 18 (drop_bit 18 ?v AND 0x3F) OR push_bit 12 (drop_bit 12 ?v AND 0x3F))),
        ucast (drop_bit 8 (push_bit 18 (drop_bit 18 ?v AND 0x3F) OR push_bit 12 (drop_bit 12 ?v AND 0x3F) OR push_bit 6 (drop_bit 6 ?v AND 0x3F))),
        ucast (push_bit 18 (drop_bit 18 ?v AND 0x3F) OR push_bit 12 (drop_bit 12 ?v AND 0x3F) OR push_bit 6 (drop_bit 6 ?v AND 0x3F) OR (?v AND 0x3F))])
      (length pre + 4)"
    by (rule decode_group3 [OF _ _ _ _ _ _ b64_char_ok(1) b64_char_ok(1) b64_char_ok(1) b64_char_ok(1) b64_char_ok(2) b64_char_ok(2)])
      (use 4(3) in \<open>simp_all add: rd8_def nth_append\<close>)
  also have "\<dots> = Some (out @ a # b # c # rest)" unfolding group_bits using IH by (simp add: numeral_eq_Suc del: trf_base64_encode.simps)
  finally show ?case unfolding e .
qed

lemma encode_no_zero: "\<exists>t. trf_base64_encode xs = t @ [0] \<and> (\<forall>ch \<in> set t. ch \<noteq> 0)"
proof (induction xs rule: trf_base64_encode.induct)
  case (4 a b c rest)
  then show ?case by (fastforce simp: Let_def b64_char_ok)
qed (simp_all add: Let_def b64_char_ok b64_pad_def)

lemma strlen_encode: "c_strlen (trf_base64_encode xs) = length (trf_base64_encode xs) - 1"
proof -
  obtain t where t: "trf_base64_encode xs = t @ [0]" "\<forall>ch \<in> set t. ch \<noteq> 0" using encode_no_zero by blast
  then have "takeWhile (\<lambda>ch. ch \<noteq> 0) (t @ [0]) = t" by (simp add: takeWhile_append)
  then show ?thesis by (simp add: c_strlen_def t)
qed

lemma decode_encode: "length xs \<le> cap \<Longrightarrow> trf_base64_decode (trf_base64_encode xs) cap = Some xs"
  using decode_encoded [of "length (trf_base64_encode xs) - 1" "[]" xs "[]" cap] by (simp add: trf_base64_decode_def strlen_encode)

lemma xor_seed_twice: "xor_seed seed (xor_seed seed xs) = xs"
  by (rule nth_equalityI) (simp_all add: xor_seed_def xor.assoc)

lemma length_xor_seed [simp]: "length (xor_seed seed xs) = length xs"
  by (simp add: xor_seed_def)

section \<open>Properties\<close>

text \<open>A key that was encoded, plainly or with a seed that is not empty, is decoded to the same bytes, without an access outside the
  text or the output array, whenever the array has room for the key.\<close>

lemma base64_roundtrip:
  assumes "length xs \<le> cap" "0 < c_strlen seed"
  shows "trf_base64_decode (trf_base64_encode xs) cap = Some xs
    \<and> trf_base64_decode_obfuscated (trf_base64_encode_obfuscated xs seed) seed cap = Some xs"
  using assms by (simp add: decode_encode trf_base64_decode_obfuscated_def trf_base64_encode_obfuscated_def xor_seed_twice)

text \<open>The decoder trusts its input. A text whose length is not a multiple of four is read past its terminating
  zero, and a character from 128 on is used as a negative index into the table, which a malformed key of the
  database can cause.\<close>

lemma base64_decode_trusts_input:
  "trf_base64_decode (map of_char ''A'' @ [0]) 8192 = None \<and> trf_base64_decode [200, 65, 65, 65, 0] 8192 = None"
proof
  have "c_strlen (map of_char ''A'' @ [0]) = 1" by (simp add: c_strlen_def)
  then show "trf_base64_decode (map of_char ''A'' @ [0]) 8192 = None"
    unfolding trf_base64_decode_def by (subst b64_decode_loop.simps) (simp add: rd8_def)
  show "trf_base64_decode [200, 65, 65, 65, 0] 8192 = None"
    unfolding trf_base64_decode_def by (subst b64_decode_loop.simps) (simp add: rd8_def b64_inv_def c_strlen_def)
qed

end
