(* ===== verification/Crypto_Option.thy ===== *)
theory Crypto_Option
  imports Packet_Crypto
begin

text \<open>
  The shared state of the crypto options, from \<open>src/crypto/common/crypto_option_router.c\<close>: the worker
  index and the UDP metadata of a crypto thread, the process-wide fragment MTU and the UDP epoch, which
  the threads agree on through one atomic compare-and-exchange. The record \<open>option_state\<close> extends
  \<open>crypto_state\<close> by these variables; what the operating system answers (random bytes, clocks, process
  id, whether an allocation succeeds) is the record \<open>os_env\<close>.
\<close>

section \<open>Definitions\<close>

definition NE_FRAME :: nat where "NE_FRAME = 2048"
definition CRYPTO_OPT_FRAG_MTU_DEFAULT :: u32 where "CRYPTO_OPT_FRAG_MTU_DEFAULT = 1500"

datatype crypto_option_id = CRYPTO_OPT_L2_PQC | CRYPTO_OPT_COUNT

datatype crypto_proto_class = CRYPTO_PROTO_TCP | CRYPTO_PROTO_UDP | CRYPTO_PROTO_ICMP | CRYPTO_PROTO_OSPF
  | CRYPTO_PROTO_OTHER | CRYPTO_PROTO_ARP | CRYPTO_PROTO_COUNT

text \<open>\<open>env_epoch_at_cas\<close> is the value that the compare-and-exchange on the epoch finds: 0 unless another
  thread stored its epoch after this thread's load.\<close>

record os_env =
  env_getrandom :: "u32 option"
  env_real_sec :: u64
  env_real_nsec :: u64
  env_pid :: u32
  env_epoch_at_cas :: u32
  env_mono_sec :: u64
  env_mono_nsec :: u64
  env_calloc_ok :: bool

record 'c option_state = "'c crypto_state" +
  g_worker_idx :: u8
  g_opt_frag_mtu :: u32
  g_udp_epoch :: u32
  g_udp_tx_seq :: u32
  g_udp_tx_datagram_id :: u32
  g_udp_tx_datagram_clock :: u32
  g_udp_rx_epoch :: u32
  g_udp_rx_seq :: u32
  g_udp_tx_valid :: bool
  g_udp_rx_valid :: bool

definition crypto_option_bind_worker_idx :: "u8 \<Rightarrow> ('c, 'z) option_state_scheme \<Rightarrow> ('c, 'z) option_state_scheme" where
  "crypto_option_bind_worker_idx worker_idx st = st\<lparr>g_worker_idx := worker_idx\<rparr>"

definition crypto_option_worker_idx :: "('c, 'z) option_state_scheme \<Rightarrow> u8" where
  "crypto_option_worker_idx st = g_worker_idx st"

definition crypto_proto_classify :: "u8 \<Rightarrow> crypto_proto_class" where
  "crypto_proto_classify ip_proto =
     (if ip_proto = 6 then CRYPTO_PROTO_TCP
      else if ip_proto = 17 then CRYPTO_PROTO_UDP
      else if ip_proto = 1 then CRYPTO_PROTO_ICMP
      else if ip_proto = 89 then CRYPTO_PROTO_OSPF
      else CRYPTO_PROTO_OTHER)"

definition epoch_candidate :: "os_env \<Rightarrow> u32" where
  "epoch_candidate env =
     (let clock = ucast (env_real_nsec env) XOR ucast (env_real_sec env) XOR env_pid env * 0x9e3779b9;
          fallback = (if clock = 0 then 1 else clock)
      in case env_getrandom env of None \<Rightarrow> fallback | Some e \<Rightarrow> if e = 0 then fallback else e)"

definition crypto_option_udp_epoch :: "os_env \<Rightarrow> ('c, 'z) option_state_scheme \<Rightarrow> u32 \<times> ('c, 'z) option_state_scheme" where
  "crypto_option_udp_epoch env st =
     (let epoch = g_udp_epoch st in
      if epoch \<noteq> 0 then (epoch, st)
      else (let epoch = epoch_candidate env; expected = env_epoch_at_cas env in
            if expected = 0 then (epoch, st\<lparr>g_udp_epoch := epoch\<rparr>)
            else (expected, st\<lparr>g_udp_epoch := expected\<rparr>)))"

definition crypto_option_udp_set_tx_seq :: "u32 \<Rightarrow> ('c, 'z) option_state_scheme \<Rightarrow> ('c, 'z) option_state_scheme" where
  "crypto_option_udp_set_tx_seq seqno st =
     st\<lparr>g_udp_tx_seq := seqno, g_udp_tx_datagram_id := g_udp_tx_datagram_clock st,
        g_udp_tx_datagram_clock := g_udp_tx_datagram_clock st + 1, g_udp_tx_valid := True\<rparr>"

definition crypto_option_udp_tx_meta :: "os_env \<Rightarrow> ('c, 'z) option_state_scheme
    \<Rightarrow> (u32 \<times> u32 \<times> u32) option \<times> ('c, 'z) option_state_scheme" where
  "crypto_option_udp_tx_meta env st =
     (if \<not> g_udp_tx_valid st then (None, st)
      else case crypto_option_udp_epoch env st of (epoch, st) \<Rightarrow>
        (Some (epoch, g_udp_tx_seq st, g_udp_tx_datagram_id st), st))"

definition crypto_option_udp_clear_rx_meta :: "('c, 'z) option_state_scheme \<Rightarrow> ('c, 'z) option_state_scheme" where
  "crypto_option_udp_clear_rx_meta st = st\<lparr>g_udp_rx_valid := False\<rparr>"

definition crypto_option_udp_set_rx_meta :: "u32 \<Rightarrow> u32 \<Rightarrow> ('c, 'z) option_state_scheme \<Rightarrow> ('c, 'z) option_state_scheme" where
  "crypto_option_udp_set_rx_meta epoch seqno st =
     st\<lparr>g_udp_rx_epoch := epoch, g_udp_rx_seq := seqno, g_udp_rx_valid := True\<rparr>"

definition crypto_option_udp_take_rx_meta :: "('c, 'z) option_state_scheme
    \<Rightarrow> (u32 \<times> u32) option \<times> ('c, 'z) option_state_scheme" where
  "crypto_option_udp_take_rx_meta st =
     (if \<not> g_udp_rx_valid st then (None, st)
      else (Some (g_udp_rx_epoch st, g_udp_rx_seq st), st\<lparr>g_udp_rx_valid := False\<rparr>))"

definition crypto_option_set_mtu :: "u32 \<Rightarrow> ('c, 'z) option_state_scheme \<Rightarrow> ('c, 'z) option_state_scheme" where
  "crypto_option_set_mtu mtu st =
     (let mtu = (if mtu < 512 then 512 else mtu);
          mtu = (if mtu > of_nat NE_FRAME then of_nat NE_FRAME else mtu)
      in st\<lparr>g_opt_frag_mtu := mtu\<rparr>)"

definition crypto_option_get_mtu :: "('c, 'z) option_state_scheme \<Rightarrow> u32" where
  "crypto_option_get_mtu st =
     (let mtu = g_opt_frag_mtu st in
      if mtu < 512 \<or> mtu > of_nat NE_FRAME then CRYPTO_OPT_FRAG_MTU_DEFAULT else mtu)"

definition crypto_option_wire_overhead :: "crypto_option_id \<Rightarrow> u32" where
  "crypto_option_wire_overhead opt = (if opt = CRYPTO_OPT_L2_PQC then 30 else 0)"

section \<open>The UDP epoch under concurrent initialisation\<close>

text \<open>
  Every thread runs \<open>crypto_option_udp_epoch\<close> as two atomic accesses to \<open>g_udp_epoch\<close>: the load, and,
  when the load found 0, the compare-and-exchange. A thread is before the load (\<open>EpochStart\<close>),
  between the two with its candidate (\<open>EpochLoaded\<close>), or has returned (\<open>EpochDone\<close>).
\<close>

datatype epoch_pc = EpochStart | EpochLoaded u32 | EpochDone u32

type_synonym epoch_system = "u32 \<times> (nat \<Rightarrow> epoch_pc)"

definition epoch_init :: epoch_system where
  "epoch_init = (0, \<lambda>_. EpochStart)"

definition epoch_step :: "nat \<times> os_env \<Rightarrow> epoch_system \<Rightarrow> epoch_system" where
  "epoch_step ev s =
     (case ev of (t, env) \<Rightarrow> case s of (g, pcs) \<Rightarrow>
        (case pcs t of
           EpochStart \<Rightarrow> (g, pcs(t := if g \<noteq> 0 then EpochDone g else EpochLoaded (epoch_candidate env)))
         | EpochLoaded e \<Rightarrow> if g = 0 then (e, pcs(t := EpochDone e)) else (g, pcs(t := EpochDone g))
         | EpochDone e \<Rightarrow> s))"

definition epoch_ok :: "epoch_system \<Rightarrow> bool" where
  "epoch_ok s \<longleftrightarrow> (\<forall>t e. (snd s t = EpochLoaded e \<longrightarrow> e \<noteq> 0) \<and> (snd s t = EpochDone e \<longrightarrow> e = fst s \<and> e \<noteq> 0))"

lemma epoch_candidate_nonzero: "epoch_candidate env \<noteq> 0"
  by (simp add: epoch_candidate_def Let_def split: option.splits)

interpretation epochs: event_system epoch_init epoch_step epoch_ok
proof
  show "epoch_ok epoch_init" by (simp add: epoch_ok_def epoch_init_def)
next
  fix s :: epoch_system and ev :: "nat \<times> os_env"
  assume s: "epoch_ok s"
  obtain t env where ev: "ev = (t, env)" by (cases ev)
  obtain g pcs where gp: "s = (g, pcs)" by (cases s)
  show "epoch_ok (epoch_step ev s)"
    using s by (cases "pcs t") (auto simp: epoch_ok_def epoch_step_def ev gp epoch_candidate_nonzero)
qed

text \<open>The two atomic steps, with another thread's write in between or not, give the result of
  \<open>crypto_option_udp_epoch\<close>.\<close>

lemma epoch_step_refines:
  assumes "pcs t = EpochStart" "env_epoch_at_cas env = g'" "g_udp_epoch st \<noteq> 0 \<Longrightarrow> g' = g_udp_epoch st"
  shows "(case epoch_step (t, env) (g_udp_epoch st, pcs) of (_, pcs') \<Rightarrow> epoch_step (t, env) (g', pcs')) =
    (g_udp_epoch (snd (crypto_option_udp_epoch env st)), pcs(t := EpochDone (fst (crypto_option_udp_epoch env st))))"
  using assms by (auto simp: epoch_step_def crypto_option_udp_epoch_def Let_def)

section \<open>Properties\<close>

text \<open>Whatever the interleaving of the threads that ask for the UDP epoch for the first time, all of
  them get one and the same non-zero epoch, and the shared variable holds it.\<close>

lemma udp_epoch_agreement:
  assumes "fold epoch_step evs epoch_init = (g, pcs)" "pcs t = EpochDone e" "pcs u = EpochDone e'"
  shows "e = e' \<and> e = g \<and> e \<noteq> 0"
proof -
  have "epoch_ok (g, pcs)" using epochs.reachable_inv [of evs] assms(1) by simp
  then show ?thesis using assms(2,3) by (auto simp: epoch_ok_def)
qed

end
