(* ===== verification/Frag_Table.thy ===== *)
theory Frag_Table
  imports Crypto_Option Eth_Parse
begin

text \<open>
  The UDP reassembly tables of \<open>src/crypto/pqc/pqc_l2_option.c\<close>: one table of 4096 entries per profile
  and crypto worker, probed in windows of eight, with time-out, eviction of the oldest entry and an
  incremental collector. An entry keeps copies of the two halves of a datagram until both are there.
  Lengths inside an entry are natural numbers: the stores check them against 1600 first, so the 32-bit
  sums of the code cannot wrap.
\<close>

section \<open>Definitions\<close>

definition OPT_FRAG_TABLE_SIZE :: nat where "OPT_FRAG_TABLE_SIZE = 4096"
definition OPT_FRAG_TIMEOUT_NS :: u64 where "OPT_FRAG_TIMEOUT_NS = 200 * 1000000"
definition ETH_L2_HDR_MAX :: nat where "ETH_L2_HDR_MAX = 18"
definition ETH_HEADER_SIZE :: nat where "ETH_HEADER_SIZE = 14"

record opt_entry =
  en_epoch :: u32
  en_datagram_id :: u32
  en_bond_seq :: u32
  en_first_len :: nat
  en_second_len :: nat
  en_timestamp_ns :: u64
  en_eth_hdr :: buf
  en_eth_len :: u8
  en_got_first :: bool
  en_got_second :: bool
  en_first :: buf
  en_second :: buf

type_synonym opt_entries = "nat \<Rightarrow> opt_entry"

text \<open>The array \<open>entries\<close> has \<open>OPT_FRAG_TABLE_SIZE\<close> elements: an access at another index is a fault.\<close>

definition en_at :: "opt_entries \<Rightarrow> nat \<Rightarrow> opt_entry mem" where
  "en_at es idx = (if idx < OPT_FRAG_TABLE_SIZE then Some (es idx) else None)"

record opt_table =
  ot_gc_cursor :: nat
  ot_entries :: opt_entries

definition zero_entry :: opt_entry where
  "zero_entry = \<lparr>en_epoch = 0, en_datagram_id = 0, en_bond_seq = 0, en_first_len = 0, en_second_len = 0,
     en_timestamp_ns = 0, en_eth_hdr = replicate ETH_L2_HDR_MAX 0, en_eth_len = 0, en_got_first = False,
     en_got_second = False, en_first = replicate 1600 0, en_second = replicate 1600 0\<rparr>"

definition opt_clear_entry :: "opt_entry \<Rightarrow> opt_entry" where
  "opt_clear_entry e = e\<lparr>en_epoch := 0, en_datagram_id := 0, en_bond_seq := 0, en_first_len := 0,
     en_second_len := 0, en_timestamp_ns := 0, en_eth_len := 0, en_got_first := False, en_got_second := False\<rparr>"

definition opt_time_ns :: "os_env \<Rightarrow> u64" where
  "opt_time_ns env = env_mono_sec env * 1000000000 + env_mono_nsec env"

definition en_occupied :: "opt_entry \<Rightarrow> bool" where
  "en_occupied e \<longleftrightarrow> en_got_first e \<or> en_got_second e"

definition en_expired :: "u64 \<Rightarrow> opt_entry \<Rightarrow> bool" where
  "en_expired now e \<longleftrightarrow> now - en_timestamp_ns e > OPT_FRAG_TIMEOUT_NS"

definition opt_prepare_entry :: "opt_entry \<Rightarrow> u32 \<Rightarrow> u32 \<Rightarrow> u32 \<Rightarrow> u64 \<Rightarrow> opt_entry" where
  "opt_prepare_entry e epoch datagram_id bond_seq now =
     (let e = (if en_epoch e \<noteq> epoch \<or> en_datagram_id e \<noteq> datagram_id \<or> en_bond_seq e \<noteq> bond_seq
                  \<or> (en_occupied e \<and> en_expired now e)
               then opt_clear_entry e else e)
      in e\<lparr>en_epoch := epoch, en_datagram_id := datagram_id, en_bond_seq := bond_seq, en_timestamp_ns := now\<rparr>)"

text \<open>The probe loop: \<open>Inl idx\<close> for the early return, otherwise the first free index and the oldest
  occupied one with its age.\<close>

primrec pick_loop :: "u32 \<Rightarrow> u32 \<Rightarrow> u64 \<Rightarrow> nat list \<Rightarrow> opt_entries \<Rightarrow> nat option \<Rightarrow> (nat \<times> u64) option
    \<Rightarrow> (opt_entries \<times> (nat + nat option \<times> (nat \<times> u64) option)) mem" where
  "pick_loop epoch datagram_id now [] es empty_idx oldest = Some (es, Inr (empty_idx, oldest))"
| "pick_loop epoch datagram_id now (idx # idxs) es empty_idx oldest = do {
     e \<leftarrow> en_at es idx;
     let e = (if en_occupied e \<and> en_expired now e then opt_clear_entry e else e);
     let es = es(idx := e);
     if \<not> en_occupied e
     then pick_loop epoch datagram_id now idxs es (if empty_idx = None then Some idx else empty_idx) oldest
     else if en_epoch e = epoch \<and> en_datagram_id e = datagram_id then Some (es, Inl idx)
     else (let age = now - en_timestamp_ns e;
               oldest = (case oldest of
                   None \<Rightarrow> Some (idx, age)
                 | Some (_, oldest_age) \<Rightarrow> if age > oldest_age then Some (idx, age) else oldest)
           in pick_loop epoch datagram_id now idxs es empty_idx oldest) }"

definition slot_base :: "u32 \<Rightarrow> u32 \<Rightarrow> nat" where
  "slot_base epoch datagram_id = unat (datagram_id XOR (epoch * 0x9e3779b9)) mod OPT_FRAG_TABLE_SIZE"

definition probe_window :: "u32 \<Rightarrow> u32 \<Rightarrow> nat list" where
  "probe_window epoch datagram_id = map (\<lambda>i. (slot_base epoch datagram_id + i) mod OPT_FRAG_TABLE_SIZE) [0..<8]"

definition opt_pick_slot :: "opt_entries \<Rightarrow> u32 \<Rightarrow> u32 \<Rightarrow> u64 \<Rightarrow> (nat \<times> opt_entries) mem" where
  "opt_pick_slot es epoch datagram_id now = do {
     (es, r) \<leftarrow> pick_loop epoch datagram_id now (probe_window epoch datagram_id) es None None;
     Some (case r of
         Inl idx \<Rightarrow> (idx, es)
       | Inr (Some empty_idx, _) \<Rightarrow> (empty_idx, es)
       | Inr (None, Some (oldest_idx, _)) \<Rightarrow> (oldest_idx, es)
       | Inr (None, None) \<Rightarrow> (slot_base epoch datagram_id, es)) }"

definition opt_store_first :: "opt_entry \<Rightarrow> u32 \<Rightarrow> u32 \<Rightarrow> u32 \<Rightarrow> buf \<Rightarrow> u8 \<Rightarrow> buf \<Rightarrow> u64 \<Rightarrow> opt_entry option" where
  "opt_store_first e epoch datagram_id bond_seq eth eth_len data now =
     (if length data > 1600 then None
      else if eth_len = 0 \<or> unat eth_len > ETH_L2_HDR_MAX then None
      else
        let e = opt_prepare_entry e epoch datagram_id bond_seq now in
        Some (e\<lparr>en_first_len := length data, en_first := patch (en_first e) 0 data,
                en_eth_hdr := patch (en_eth_hdr e) 0 (take (unat eth_len) eth), en_eth_len := eth_len,
                en_got_first := True\<rparr>))"

definition opt_store_second :: "opt_entry \<Rightarrow> u32 \<Rightarrow> u32 \<Rightarrow> u32 \<Rightarrow> buf \<Rightarrow> u64 \<Rightarrow> opt_entry option" where
  "opt_store_second e epoch datagram_id bond_seq data now =
     (if length data > 1600 then None
      else
        let e = opt_prepare_entry e epoch datagram_id bond_seq now in
        Some (e\<lparr>en_second_len := length data, en_second := patch (en_second e) 0 data, en_got_second := True\<rparr>))"

text \<open>The result is the return code, \<open>*out_len\<close> (meaningful for code 1), the entry and the output buffer.\<close>

definition opt_emit_join :: "opt_entry \<Rightarrow> buf \<Rightarrow> (int \<times> nat \<times> opt_entry \<times> buf) mem" where
  "opt_emit_join e out =
     (if \<not> en_got_first e \<or> \<not> en_got_second e then Some (0, 0, e, out)
      else
        let eth_len = (if en_eth_len e \<noteq> 0 then unat (en_eth_len e) else ETH_HEADER_SIZE) in
        if en_first_len e + en_second_len e + eth_len > NE_FRAME then Some (-1, 0, opt_clear_entry e, out)
        else do {
          h \<leftarrow> rdn (en_eth_hdr e) 0 eth_len;
          out \<leftarrow> wrn out 0 h;
          f \<leftarrow> rdn (en_first e) 0 (en_first_len e);
          out \<leftarrow> wrn out eth_len f;
          s \<leftarrow> rdn (en_second e) 0 (en_second_len e);
          out \<leftarrow> (if en_second_len e > 0 then wrn out (eth_len + en_first_len e) s else Some out);
          out \<leftarrow> (if eth_len \<ge> 2 then crypto_eth_set_ipv4_et out (eth_len - 2) else Some out);
          Some (1, eth_len + en_first_len e + en_second_len e, opt_clear_entry e, out) })"

definition gc_entry :: "u64 \<Rightarrow> opt_entry \<Rightarrow> opt_entry" where
  "gc_entry now_ns e = (if en_occupied e \<and> en_expired now_ns e then opt_clear_entry e else e)"

primrec gc_loop :: "nat \<Rightarrow> u64 \<Rightarrow> nat list \<Rightarrow> opt_entries \<Rightarrow> opt_entries mem" where
  "gc_loop start now_ns [] es = Some es"
| "gc_loop start now_ns (n # ns) es = do {
     let i = (start + n) mod OPT_FRAG_TABLE_SIZE;
     e \<leftarrow> en_at es i;
     gc_loop start now_ns ns (es(i := gc_entry now_ns e)) }"

definition opt_frag_gc_table :: "opt_table \<Rightarrow> u64 \<Rightarrow> opt_table mem" where
  "opt_frag_gc_table ft now_ns = do {
     es \<leftarrow> gc_loop (ot_gc_cursor ft) now_ns [0..<256] (ot_entries ft);
     Some \<lparr>ot_gc_cursor = (ot_gc_cursor ft + 256) mod OPT_FRAG_TABLE_SIZE, ot_entries = es\<rparr> }"

section \<open>Entries\<close>

definition en_wf :: "opt_entry \<Rightarrow> bool" where
  "en_wf e \<longleftrightarrow> length (en_eth_hdr e) = ETH_L2_HDR_MAX \<and> length (en_first e) = 1600 \<and> length (en_second e) = 1600
     \<and> en_first_len e \<le> 1600 \<and> en_second_len e \<le> 1600 \<and> unat (en_eth_len e) \<le> ETH_L2_HDR_MAX
     \<and> (en_got_first e \<longrightarrow> en_eth_len e \<noteq> 0)"

lemma clear_wf [inv_intros]: "en_wf e \<Longrightarrow> en_wf (opt_clear_entry e)"
  by (simp add: en_wf_def opt_clear_entry_def)

lemma clear_free [simp]: "\<not> en_occupied (opt_clear_entry e)"
  by (simp add: en_occupied_def opt_clear_entry_def)

lemma prepare_wf [inv_intros]: "en_wf e \<Longrightarrow> en_wf (opt_prepare_entry e a b c now)"
  using clear_wf [of e] by (auto simp: opt_prepare_entry_def Let_def en_wf_def)

lemma store_first_wf [inv_intros]:
  "\<lbrakk>en_wf e; opt_store_first e a b c eth l data now = Some e'\<rbrakk> \<Longrightarrow> en_wf e'"
  using prepare_wf [of e a b c now]
  by (auto simp: opt_store_first_def Let_def en_wf_def min_def split: if_splits)

lemma store_second_wf [inv_intros]:
  "\<lbrakk>en_wf e; opt_store_second e a b c data now = Some e'\<rbrakk> \<Longrightarrow> en_wf e'"
  using prepare_wf [of e a b c now]
  by (auto simp: opt_store_second_def Let_def en_wf_def split: if_splits)

lemma zero_wf: "en_wf zero_entry"
  by (simp add: en_wf_def zero_entry_def)

lemma set_ipv4_et_ok: "i + 1 < length b \<Longrightarrow> crypto_eth_set_ipv4_et b i = Some (patch b i [8, 0])"
  by (simp add: crypto_eth_set_ipv4_et_def patch_pair)

text \<open>The joined packet: the Ethernet header of the first fragment with the IPv4 type, then both halves.\<close>

definition joined :: "opt_entry \<Rightarrow> buf" where
  "joined e = take (unat (en_eth_len e) - 2) (en_eth_hdr e) @ [0x08, 0x00]
     @ take (en_first_len e) (en_first e) @ take (en_second_len e) (en_second e)"

lemma emit_join_ok:
  assumes "en_wf e" "en_got_first e" "en_got_second e" "2 \<le> unat (en_eth_len e)"
    and "unat (en_eth_len e) + en_first_len e + en_second_len e \<le> NE_FRAME" "NE_FRAME \<le> length out"
  shows "opt_emit_join e out =
    Some (1, unat (en_eth_len e) + en_first_len e + en_second_len e, opt_clear_entry e, patch out 0 (joined e))"
proof -
  let ?l = "unat (en_eth_len e)"
  let ?h = "take ?l (en_eth_hdr e)" and ?f = "take (en_first_len e) (en_first e)"
  let ?s = "take (en_second_len e) (en_second e)"
  have len: "length ?h = ?l" "length ?f = en_first_len e" "length ?s = en_second_len e" "en_eth_len e \<noteq> 0"
    using assms(1,2) by (auto simp: en_wf_def ETH_L2_HDR_MAX_def)
  have room: "?l + en_first_len e + en_second_len e \<le> length out" using assms(5,6) by linarith
  have wh: "patch (patch out 0 ?h) ?l ?f = patch out 0 (?h @ ?f)"
    using patch_append [of 0 ?h ?f out] len room by simp
  have ws: "patch (patch out 0 (?h @ ?f)) (?l + en_first_len e) ?s = patch out 0 (?h @ ?f @ ?s)"
    using patch_append [of 0 "?h @ ?f" ?s out] len room by simp
  have hsplit: "?h = take (?l - 2) (en_eth_hdr e) @ drop (?l - 2) ?h"
    using append_take_drop_id [of "?l - 2" ?h] by (simp add: min_def)
  have j: "patch (?h @ ?f @ ?s) (?l - 2) [8, 0] = joined e"
  proof -
    have "length (take (?l - 2) (en_eth_hdr e)) = ?l - 2" "length (drop (?l - 2) ?h) = 2"
      using len(1) assms(4) by auto
    then have "patch ((take (?l - 2) (en_eth_hdr e) @ drop (?l - 2) ?h @ ?f @ ?s)) (?l - 2) [8, 0] = joined e"
      unfolding joined_def by (subst patch_middle) auto
    then show ?thesis by (metis append.assoc hsplit)
  qed
  have e: "patch (patch out 0 (?h @ ?f @ ?s)) (?l - 2) [8, 0] = patch out 0 (joined e)"
    using patch_in_patch [of 0 "?h @ ?f @ ?s" out "?l - 2" "[8, 0]"] j len room assms(4) by simp
  have reads: "rdn (en_eth_hdr e) 0 ?l = Some ?h" "rdn (en_first e) 0 (en_first_len e) = Some ?f"
    "rdn (en_second e) 0 (en_second_len e) = Some ?s"
    using assms(1) by (auto simp: en_wf_def slice_def)
  have z: "(if en_second_len e > 0 then wrn (patch out 0 (?h @ ?f)) (?l + en_first_len e) ?s
      else Some (patch out 0 (?h @ ?f))) = Some (patch out 0 (?h @ ?f @ ?s))"
    using len room ws by auto
  show ?thesis
    using assms(2-6) len room
    by (simp add: opt_emit_join_def Let_def reads z wh set_ipv4_et_ok e del: take_eq_Nil)
qed

lemma length_joined:
  "\<lbrakk>en_wf e; 2 \<le> unat (en_eth_len e)\<rbrakk> \<Longrightarrow> length (joined e) = unat (en_eth_len e) + en_first_len e + en_second_len e"
  by (auto simp: joined_def en_wf_def)

section \<open>Slot selection\<close>

lemma pick_loop_Cons:
  "pick_loop epoch did now (idx # idxs) es emp old = Some (es', r) \<Longrightarrow>
     idx < OPT_FRAG_TABLE_SIZE \<and>
     (let es = (if en_occupied (es idx) \<and> en_expired now (es idx) then es(idx := opt_clear_entry (es idx)) else es);
          age = now - en_timestamp_ns (es idx)
      in (if \<not> en_occupied (es idx)
         then pick_loop epoch did now idxs es (if emp = None then Some idx else emp) old
         else if en_epoch (es idx) = epoch \<and> en_datagram_id (es idx) = did then Some (es, Inl idx)
         else pick_loop epoch did now idxs es emp (case old of
                   None \<Rightarrow> Some (idx, age)
                 | Some (_, oldest_age) \<Rightarrow> if age > oldest_age then Some (idx, age) else old)) = Some (es', r))"
  by (cases "idx < OPT_FRAG_TABLE_SIZE"; cases emp) (auto simp: en_at_def Let_def split: if_split_asm)

lemma pick_loop_entries:
  assumes "pick_loop epoch did now idxs es emp old = Some (es', r)"
  shows "es' i = es i \<or> (i \<in> set idxs \<and> en_occupied (es i) \<and> en_expired now (es i) \<and> es' i = opt_clear_entry (es i))"
  using assms
proof (induction idxs arbitrary: es emp old)
  case Nil
  then show ?case by simp
next
  case (Cons idx idxs)
  let ?es = "if en_occupied (es idx) \<and> en_expired now (es idx) then es(idx := opt_clear_entry (es idx)) else es"
  have same: "?es i = es i \<or> (i = idx \<and> en_occupied (es i) \<and> en_expired now (es i) \<and> ?es i = opt_clear_entry (es i))"
    by auto
  have "es' i = ?es i \<or> (i \<in> set idxs \<and> en_occupied (?es i) \<and> en_expired now (?es i) \<and> es' i = opt_clear_entry (?es i))"
    using pick_loop_Cons [OF Cons.prems]
    by (auto simp: Let_def split: if_splits option.splits prod.splits dest!: Cons.IH)
  with same show ?case by (auto split: if_splits)
qed

text \<open>A live entry of the datagram in the window is found, whatever the other entries are.\<close>

lemma pick_loop_hit:
  assumes "idx \<in> set idxs" "en_occupied (es idx)" "\<not> en_expired now (es idx)"
    and "en_epoch (es idx) = epoch" "en_datagram_id (es idx) = did" "\<forall>i \<in> set idxs. i < OPT_FRAG_TABLE_SIZE"
    and "\<And>i. i \<in> set idxs \<Longrightarrow> i \<noteq> idx \<Longrightarrow> en_occupied (es i) \<Longrightarrow> \<not> en_expired now (es i) \<Longrightarrow>
      \<not> (en_epoch (es i) = epoch \<and> en_datagram_id (es i) = did)"
  shows "\<exists>es'. pick_loop epoch did now idxs es emp old = Some (es', Inl idx) \<and> es' idx = es idx"
  using assms
proof (induction idxs arbitrary: es emp old)
  case Nil
  then show ?case by simp
next
  case (Cons i idxs)
  show ?case
  proof (cases "i = idx")
    case True
    with Cons.prems show ?thesis by (simp add: en_at_def)
  next
    case False
    let ?es = "if en_occupied (es i) \<and> en_expired now (es i) then es(i := opt_clear_entry (es i)) else es"
    have "\<exists>es'. pick_loop epoch did now idxs ?es emp' old' = Some (es', Inl idx) \<and> es' idx = ?es idx" for emp' old'
    proof (rule Cons.IH)
      fix j
      assume j: "j \<in> set idxs" "j \<noteq> idx" "en_occupied (?es j)" "\<not> en_expired now (?es j)"
      then show "\<not> (en_epoch (?es j) = epoch \<and> en_datagram_id (?es j) = did)"
        using Cons.prems(7) [of j] by (auto split: if_splits)
    qed (use Cons.prems False in auto)
    moreover have "\<not> (en_occupied (?es i) \<and> en_epoch (?es i) = epoch \<and> en_datagram_id (?es i) = did)"
      using Cons.prems(7) [of i] False by auto
    moreover have "en_at es i = Some (es i)" using Cons.prems(6) by (simp add: en_at_def)
    moreover have "es(i := if en_occupied (es i) \<and> en_expired now (es i) then opt_clear_entry (es i) else es i) = ?es" by simp
    ultimately show ?thesis using False by (auto simp: Let_def)
  qed
qed

lemma pick_loop_Inl:
  assumes "pick_loop epoch did now idxs es emp old = Some (es', Inl i)"
  shows "i \<in> set idxs \<and> en_occupied (es' i) \<and> \<not> en_expired now (es' i) \<and> en_epoch (es' i) = epoch
    \<and> en_datagram_id (es' i) = did"
  using assms
proof (induction idxs arbitrary: es emp old)
  case (Cons idx idxs)
  from pick_loop_Cons [OF Cons.prems] show ?case
    by (auto simp: Let_def split: if_splits option.splits prod.splits dest!: Cons.IH)
qed simp

lemma pick_loop_Inr:
  "pick_loop epoch did now idxs es emp old = Some (es', Inr (emp', old')) \<Longrightarrow>
    set_option emp' \<subseteq> set_option emp \<union> set idxs \<and> fst ` set_option old' \<subseteq> fst ` set_option old \<union> set idxs"
proof (induction idxs arbitrary: es emp old)
  case Nil
  then show ?case by simp
next
  case (Cons idx idxs)
  let ?R = "Some (es', Inr (emp', old'))"
  let ?es = "if en_occupied (es idx) \<and> en_expired now (es idx) then es(idx := opt_clear_entry (es idx)) else es"
  let ?emp = "if emp = None then Some idx else emp"
  let ?age = "now - en_timestamp_ns (?es idx)"
  let ?old = "case old of None \<Rightarrow> Some (idx, ?age) | Some (_, oldest_age) \<Rightarrow> if ?age > oldest_age then Some (idx, ?age) else old"
  have step: "pick_loop epoch did now idxs ?es ?emp old = ?R \<or> pick_loop epoch did now idxs ?es emp ?old = ?R"
    using pick_loop_Cons [OF Cons.prems] unfolding Let_def by (simp only: split: if_split_asm) auto
  have sub: "set_option ?emp \<subseteq> insert idx (set_option emp)"
    "fst ` set_option ?old \<subseteq> insert idx (fst ` set_option old)"
    by (auto split: option.splits)
  have widen: "A \<subseteq> B \<union> S \<Longrightarrow> B \<subseteq> insert idx C \<Longrightarrow> A \<subseteq> C \<union> insert idx S" for A B C S :: "nat set"
    by blast
  from step show ?case
  proof
    assume "pick_loop epoch did now idxs ?es ?emp old = ?R"
    note IH = Cons.IH [OF this]
    show ?thesis unfolding list.set
      by (intro conjI widen [OF IH [THEN conjunct1] sub(1)] widen [OF IH [THEN conjunct2] subset_insertI])
  next
    assume "pick_loop epoch did now idxs ?es emp ?old = ?R"
    note IH = Cons.IH [OF this]
    show ?thesis unfolding list.set
      by (intro conjI widen [OF IH [THEN conjunct1] subset_insertI] widen [OF IH [THEN conjunct2] sub(2)])
  qed
qed

text \<open>The loop looks only at entries of the array.\<close>

lemma pick_loop_total:
  "\<forall>i \<in> set idxs. i < OPT_FRAG_TABLE_SIZE \<Longrightarrow> \<exists>r. pick_loop epoch did now idxs es emp old = Some r"
  by (induction idxs arbitrary: es emp old) (auto simp: en_at_def Let_def)

lemma probe_window_inside: "\<forall>i \<in> set (probe_window epoch did). i < OPT_FRAG_TABLE_SIZE"
  by (auto simp: probe_window_def OPT_FRAG_TABLE_SIZE_def)

lemma pick_slot_total:
  obtains idx es' where "opt_pick_slot es epoch did now = Some (idx, es')"
proof -
  obtain es1 r where "pick_loop epoch did now (probe_window epoch did) es None None = Some (es1, r)"
    using pick_loop_total [OF probe_window_inside] by fastforce
  then have "\<exists>p. opt_pick_slot es epoch did now = Some p" by (simp add: opt_pick_slot_def)
  with that show ?thesis by fastforce
qed

lemma pick_slot_spec:
  assumes "opt_pick_slot es epoch did now = Some (idx, es')"
  shows "idx \<in> set (probe_window epoch did)"
    and "es' i = es i \<or> (en_occupied (es i) \<and> en_expired now (es i) \<and> es' i = opt_clear_entry (es i))"
    and "en_at es' idx = Some (es' idx)"
proof -
  obtain es1 r where r1: "pick_loop epoch did now (probe_window epoch did) es None None = Some (es1, r)"
    using pick_loop_total [OF probe_window_inside] by fastforce
  then have "es1 = es'"
    using assms by (simp add: opt_pick_slot_def split: sum.splits option.splits prod.splits)
  with r1 have r: "pick_loop epoch did now (probe_window epoch did) es None None = Some (es', r)" by simp
  show "es' i = es i \<or> (en_occupied (es i) \<and> en_expired now (es i) \<and> es' i = opt_clear_entry (es i))"
    using pick_loop_entries [OF r] by blast
  have base: "slot_base epoch did \<in> set (probe_window epoch did)"
    by (auto simp: probe_window_def slot_base_def image_iff intro!: bexI [of _ 0])
  show idx: "idx \<in> set (probe_window epoch did)"
  proof (cases r)
    case (Inl j)
    with r assms pick_loop_Inl [of epoch did now _ es None None es' j] show ?thesis
      by (simp add: opt_pick_slot_def)
  next
    case (Inr p)
    obtain emp' old' where p: "p = (emp', old')" by (cases p)
    with Inr r pick_loop_Inr [of epoch did now "probe_window epoch did" es None None es' emp' old']
    have "set_option emp' \<subseteq> set (probe_window epoch did)" "fst ` set_option old' \<subseteq> set (probe_window epoch did)"
      by auto
    with Inr p r assms base show ?thesis
      by (auto simp: opt_pick_slot_def split: option.splits prod.splits)
  qed
  then show "en_at es' idx = Some (es' idx)" using probe_window_inside by (simp add: en_at_def)
qed

lemma pick_slot_hit:
  assumes "idx \<in> set (probe_window epoch did)" "en_occupied (es idx)" "\<not> en_expired now (es idx)"
    and "en_epoch (es idx) = epoch" "en_datagram_id (es idx) = did"
    and "\<And>i. i \<in> set (probe_window epoch did) \<Longrightarrow> i \<noteq> idx \<Longrightarrow> en_occupied (es i) \<Longrightarrow> \<not> en_expired now (es i) \<Longrightarrow>
      \<not> (en_epoch (es i) = epoch \<and> en_datagram_id (es i) = did)"
  shows "\<exists>es'. opt_pick_slot es epoch did now = Some (idx, es') \<and> es' idx = es idx"
proof -
  have "\<exists>es'. pick_loop epoch did now (probe_window epoch did) es None None = Some (es', Inl idx) \<and> es' idx = es idx"
    by (rule pick_loop_hit) (use assms probe_window_inside in auto)
  then show ?thesis by (auto simp: opt_pick_slot_def)
qed

text \<open>A fresh datagram gets an entry that is not one of its own: free, or another datagram's.\<close>

definition no_live_entry :: "opt_entries \<Rightarrow> u32 \<Rightarrow> u32 \<Rightarrow> bool" where
  "no_live_entry es epoch did \<longleftrightarrow> (\<forall>i \<in> set (probe_window epoch did).
     en_occupied (es i) \<longrightarrow> \<not> (en_epoch (es i) = epoch \<and> en_datagram_id (es i) = did))"

lemma no_live_entry_pick:
  "\<lbrakk>no_live_entry es epoch did; opt_pick_slot es epoch' did' now = Some (idx, es')\<rbrakk> \<Longrightarrow> no_live_entry es' epoch did"
  using pick_slot_spec(2) [of es epoch' did' now idx es'] unfolding no_live_entry_def
  by (metis clear_free)

text \<open>A step of the collector looks only at entries of the array.\<close>

lemma gc_loop_run:
  "gc_loop start now ns es = Some (fold (\<lambda>n es. let i = (start + n) mod OPT_FRAG_TABLE_SIZE in es(i := gc_entry now (es i))) ns es)"
  by (induction ns arbitrary: es) (simp_all add: en_at_def Let_def OPT_FRAG_TABLE_SIZE_def)

lemma frag_gc_table_run:
  "opt_frag_gc_table ft now = Some \<lparr>ot_gc_cursor = (ot_gc_cursor ft + 256) mod OPT_FRAG_TABLE_SIZE,
     ot_entries = fold (\<lambda>n es. let i = (ot_gc_cursor ft + n) mod OPT_FRAG_TABLE_SIZE in es(i := gc_entry now (es i)))
       [0..<256] (ot_entries ft)\<rparr>"
  by (simp add: opt_frag_gc_table_def gc_loop_run)

end
