(* ===== verification/L2_Option.thy ===== *)
theory L2_Option
  imports Frag_Table Policy_Config Crypto_Route
begin

text \<open>
  The layer-2 post-quantum wire format of \<open>src/crypto/pqc/pqc_l2_option.c\<close>: encryption and decryption
  in place of IPv4, UDP and ARP frames, splitting of UDP datagrams into two fragments and their
  reassembly. A frame is a buffer of the capacity of its UMEM frame together with a length; every
  function returns the changed buffer and state also when it fails, as the code works in place. A
  result \<open>-1\<close> is \<^const>\<open>None\<close>, inside the memory monad.
\<close>

section \<open>Wire format\<close>

definition L2_UDP_KIND_FRAG0 :: u8 where "L2_UDP_KIND_FRAG0 = 0"
definition L2_UDP_KIND_FRAG1 :: u8 where "L2_UDP_KIND_FRAG1 = 1"
definition L2_UDP_KIND_FULL :: u8 where "L2_UDP_KIND_FULL = 2"
definition L2_UDP_SHIM_SIZE :: nat where "L2_UDP_SHIM_SIZE = 13"
definition L2_UDP_MARKER_SIZE :: nat where "L2_UDP_MARKER_SIZE = 4"
definition AES_GCM_TAG_SIZE :: nat where "AES_GCM_TAG_SIZE = 16"
definition L2_NONCE_SIZE :: nat where "L2_NONCE_SIZE = 12"
definition OPT_FRAG_META_LEN :: nat where "OPT_FRAG_META_LEN = 47"
definition MIN_ETH_PKT :: nat where "MIN_ETH_PKT = ETH_HEADER_SIZE + 8"
definition ARP_ETH_IPV4_PAYLOAD :: nat where "ARP_ETH_IPV4_PAYLOAD = 28"
definition ARP_WIRE_HDR_LEN :: nat where "ARP_WIRE_HDR_LEN = 14"
definition MAX_PROFILES :: nat where "MAX_PROFILES = 32"
definition POLICY_ACTION_ENCRYPT_L2 :: int where "POLICY_ACTION_ENCRYPT_L2 = 2"

lemmas l2_sizes = L2_UDP_SHIM_SIZE_def L2_UDP_MARKER_SIZE_def AES_GCM_TAG_SIZE_def L2_NONCE_SIZE_def
  OPT_FRAG_META_LEN_def MIN_ETH_PKT_def ARP_ETH_IPV4_PAYLOAD_def ARP_WIRE_HDR_LEN_def NE_FRAME_def
  ETH_HEADER_SIZE_def ETH_L2_HDR_MAX_def

record 'c l2_state = "'c option_state" +
  g_tables :: "nat \<Rightarrow> nat \<Rightarrow> opt_table option"

definition shim_bytes :: "u8 \<Rightarrow> u32 \<Rightarrow> u32 \<Rightarrow> u32 \<Rightarrow> buf" where
  "shim_bytes kind epoch seqno datagram_id =
     (push_bit 4 1 OR (kind AND 0x0f)) # be32_bytes epoch @ be32_bytes seqno @ be32_bytes datagram_id"

definition l2_udp_write_shim :: "buf \<Rightarrow> nat \<Rightarrow> u8 \<Rightarrow> u32 \<Rightarrow> u32 \<Rightarrow> u32 \<Rightarrow> buf mem" where
  "l2_udp_write_shim b off kind epoch seqno datagram_id = wrn b off (shim_bytes kind epoch seqno datagram_id)"

definition rd_be32 :: "buf \<Rightarrow> nat \<Rightarrow> u32 mem" where
  "rd_be32 b off = do { w \<leftarrow> rd8 b off; x \<leftarrow> rd8 b (off + 1); y \<leftarrow> rd8 b (off + 2); z \<leftarrow> rd8 b (off + 3);
     Some (be32 w x y z) }"

definition l2_udp_read_shim :: "buf \<Rightarrow> nat \<Rightarrow> (u8 \<times> u32 \<times> u32 \<times> u32) option mem" where
  "l2_udp_read_shim b off = do {
     b0 \<leftarrow> rd8 b off;
     let kind = b0 AND 0x0f;
     if drop_bit 4 b0 \<noteq> 1 \<or> kind > L2_UDP_KIND_FULL then Some None
     else do {
       epoch \<leftarrow> rd_be32 b (off + 1);
       seqno \<leftarrow> rd_be32 b (off + 5);
       datagram_id \<leftarrow> rd_be32 b (off + 9);
       Some (Some (kind, epoch, seqno, datagram_id)) } }"

text \<open>The array \<open>g_tables\<close> has one place for each profile and worker; an access outside of it is a fault.\<close>

definition opt_table :: "os_env \<Rightarrow> int \<Rightarrow> int \<Rightarrow> bool \<Rightarrow> ('c, 'z) l2_state_scheme
    \<Rightarrow> (nat \<times> nat \<times> opt_table option \<times> ('c, 'z) l2_state_scheme) mem" where
  "opt_table env profile_slot worker_idx create st =
     (let p = (if profile_slot < 0 \<or> profile_slot \<ge> int MAX_PROFILES then 0 else nat profile_slot);
          w = (if worker_idx < 0 \<or> worker_idx \<ge> int NE_CRYPTO_WORKERS then 0 else nat worker_idx)
      in if p \<ge> MAX_PROFILES \<or> w \<ge> NE_CRYPTO_WORKERS then None
         else case g_tables st p w of
          Some t \<Rightarrow> Some (p, w, Some t, st)
        | None \<Rightarrow>
            if \<not> create \<or> \<not> env_calloc_ok env then Some (p, w, None, st)
            else (let t = \<lparr>ot_gc_cursor = 0, ot_entries = \<lambda>_. zero_entry\<rparr>
                  in Some (p, w, Some t, st\<lparr>g_tables := (g_tables st)(p := (g_tables st p)(w \<mapsto> t))\<rparr>)))"

definition opt_policy_match :: "app_config \<Rightarrow> int \<Rightarrow> u8 \<Rightarrow> bool" where
  "opt_policy_match cfg action wire_id \<longleftrightarrow>
     list_ex (\<lambda>cp. cp_action cp = action \<and> (of_int (cp_id cp) :: u8) = wire_id)
       (take MAX_CRYPTO_POLICIES (ac_policies cfg))"

definition l2_udp_marker :: buf where
  "l2_udp_marker = [0x5B, 0x55, 0x44, 0x01]"

definition l2_udp_marker_match :: "buf \<Rightarrow> nat \<Rightarrow> nat option \<Rightarrow> bool mem" where
  "l2_udp_marker_match pkt pkt_len off =
     (case off of
        None \<Rightarrow> Some False
      | Some off \<Rightarrow>
          if pkt_len < off + L2_UDP_MARKER_SIZE then Some False
          else do { m \<leftarrow> rdn pkt off L2_UDP_MARKER_SIZE; Some (m = l2_udp_marker) })"

definition l2_udp_marker_write :: "buf \<Rightarrow> nat \<Rightarrow> buf mem" where
  "l2_udp_marker_write pkt off = wrn pkt off l2_udp_marker"

definition l2_policy_off :: "buf \<Rightarrow> nat \<Rightarrow> nat option mem" where
  "l2_policy_off pkt pkt_len = crypto_eth_l2_policy_off pkt pkt_len"

definition l2_core_id_off :: "buf \<Rightarrow> nat \<Rightarrow> nat option mem" where
  "l2_core_id_off pkt pkt_len = do { off \<leftarrow> l2_policy_off pkt pkt_len; Some (map_option (\<lambda>o1. o1 + 1) off) }"

definition l2_nonce_off :: "buf \<Rightarrow> nat \<Rightarrow> nat option mem" where
  "l2_nonce_off pkt pkt_len = do { off \<leftarrow> l2_core_id_off pkt pkt_len; Some (map_option (\<lambda>o1. o1 + 1) off) }"

definition l2_enc_start_off :: "buf \<Rightarrow> nat \<Rightarrow> nat option mem" where
  "l2_enc_start_off pkt pkt_len = do {
     off \<leftarrow> l2_nonce_off pkt pkt_len;
     case off of
       None \<Rightarrow> Some None
     | Some off \<Rightarrow> if pkt_len < off + L2_NONCE_SIZE then Some None else Some (Some (off + L2_NONCE_SIZE)) }"

definition l2_frag_magic_off :: "buf \<Rightarrow> nat \<Rightarrow> nat option mem" where
  "l2_frag_magic_off pkt pkt_len = l2_enc_start_off pkt pkt_len"

definition l2_write_wire_header_et :: "('c, 'z) option_state_scheme \<Rightarrow> buf \<Rightarrow> nat \<Rightarrow> u16 \<Rightarrow> u8 \<Rightarrow> buf \<Rightarrow> buf mem" where
  "l2_write_wire_header_et st pkt et_off fake policy_id nonce = do {
     pkt \<leftarrow> wr8 pkt et_off (ucast (drop_bit 8 fake));
     pkt \<leftarrow> wr8 pkt (et_off + 1) (ucast (fake AND 0xFF));
     pkt \<leftarrow> wr8 pkt (et_off + 2) policy_id;
     pkt \<leftarrow> wr8 pkt (et_off + 3) (crypto_option_worker_idx st);
     wrn pkt (et_off + 4) nonce }"

definition l2_write_wire_header :: "('c, 'z) option_state_scheme \<Rightarrow> buf \<Rightarrow> nat \<Rightarrow> u8 \<Rightarrow> buf \<Rightarrow> buf mem" where
  "l2_write_wire_header st pkt et_off policy_id nonce =
     l2_write_wire_header_et st pkt et_off NE_L2_FAKE_ETHERTYPE policy_id nonce"

definition l2_restore_plain_packet :: "buf \<Rightarrow> nat \<Rightarrow> nat \<Rightarrow> nat \<Rightarrow> (nat option \<times> buf) mem" where
  "l2_restore_plain_packet pkt pkt_len payload payload_len = do {
     et_off \<leftarrow> crypto_eth_l2_prefix_len pkt pkt_len;
     case et_off of
       None \<Rightarrow> Some (None, pkt)
     | Some et_off \<Rightarrow> do {
         let l3_off = et_off + 2;
         typed \<leftarrow> (if payload_len \<ge> 2
            then do { b0 \<leftarrow> rd8 pkt payload; b1 \<leftarrow> rd8 pkt (payload + 1); Some (b0 = 0x08 \<and> b1 = 0x00) }
            else Some False);
         pkt \<leftarrow> crypto_eth_set_ipv4_et pkt et_off;
         if typed then do {
           pkt \<leftarrow> mmove pkt l3_off (payload + 2) (payload_len - 2);
           Some (Some (l3_off + payload_len - 2), pkt) }
         else do {
           pkt \<leftarrow> mmove pkt l3_off payload payload_len;
           Some (Some (l3_off + payload_len), pkt) } } }"

definition l2_wire_prefix_len :: "buf \<Rightarrow> nat \<Rightarrow> nat option mem" where
  "l2_wire_prefix_len pkt pkt_len = do {
     et_off \<leftarrow> crypto_eth_l2_prefix_len pkt pkt_len; Some (map_option (\<lambda>o1. o1 + 2) et_off) }"

section \<open>Encryption and decryption\<close>

definition l2_do_encrypt :: "('c, 'l) scrypt_lib_scheme \<Rightarrow> packet_crypto_ctx \<Rightarrow> ('c, 'z) option_state_scheme \<Rightarrow>
    buf \<Rightarrow> nat \<Rightarrow> (nat option \<times> buf \<times> ('c, 'z) option_state_scheme) mem" where
  "l2_do_encrypt lib ctx st pkt pkt_len = do {
     l3 \<leftarrow> crypto_eth_ipv4_offset pkt pkt_len;
     et \<leftarrow> crypto_eth_l2_prefix_len pkt pkt_len;
     case (l3, et) of
       (Some l3_off, Some et_off) \<Rightarrow> do {
         let payload_len = pkt_len - l3_off;
         let enc_start = et_off + 2 + 1 + 1 + L2_NONCE_SIZE;
         if pkt_len < enc_start then Some (None, pkt, st)
         else do {
           pkt \<leftarrow> mmove pkt enc_start l3_off payload_len;
           case crypto_pqc_sess_load ctx of
             None \<Rightarrow> Some (None, pkt, st)
           | Some pqc \<Rightarrow>
             (case crypto_pqc_generate_nonce lib st of
                (None, st) \<Rightarrow> Some (None, pkt, st)
              | (Some nonce, st) \<Rightarrow> do {
                  pkt \<leftarrow> l2_write_wire_header st pkt et_off (ctx_wire_id ctx) nonce;
                  (r, pkt, st) \<leftarrow> crypto_pqc_encrypt_payload lib st pqc nonce pkt enc_start payload_len;
                  Some (map_option (\<lambda>new_len. enc_start + new_len) r, pkt, st) }) } }
     | _ \<Rightarrow> Some (None, pkt, st) }"

definition l2_do_encrypt_udp :: "('c, 'l) scrypt_lib_scheme \<Rightarrow> os_env \<Rightarrow> packet_crypto_ctx \<Rightarrow> ('c, 'z) option_state_scheme \<Rightarrow>
    buf \<Rightarrow> nat \<Rightarrow> (nat option \<times> buf \<times> ('c, 'z) option_state_scheme) mem" where
  "l2_do_encrypt_udp lib env ctx st pkt pkt_len = do {
     l3 \<leftarrow> crypto_eth_ipv4_offset pkt pkt_len;
     et \<leftarrow> crypto_eth_l2_prefix_len pkt pkt_len;
     case (l3, et) of
       (Some l3_off, Some et_off) \<Rightarrow>
         (case crypto_option_udp_tx_meta env st of
            (None, st) \<Rightarrow> Some (None, pkt, st)
          | (Some (epoch, seqno, datagram_id), st) \<Rightarrow> do {
              let payload_len = pkt_len - l3_off;
              let magic_off = et_off + 2 + 1 + 1 + L2_NONCE_SIZE;
              let enc_start = magic_off + L2_UDP_MARKER_SIZE;
              let plain_len = L2_UDP_SHIM_SIZE + payload_len;
              if enc_start + plain_len + AES_GCM_TAG_SIZE > NE_FRAME then Some (None, pkt, st)
              else do {
                pkt \<leftarrow> mmove pkt (enc_start + L2_UDP_SHIM_SIZE) l3_off payload_len;
                pkt \<leftarrow> l2_udp_write_shim pkt enc_start L2_UDP_KIND_FULL epoch seqno datagram_id;
                case crypto_pqc_sess_load ctx of
                  None \<Rightarrow> Some (None, pkt, st)
                | Some pqc \<Rightarrow>
                  (case crypto_pqc_generate_nonce lib st of
                     (None, st) \<Rightarrow> Some (None, pkt, st)
                   | (Some nonce, st) \<Rightarrow> do {
                       pkt \<leftarrow> l2_write_wire_header_et st pkt et_off NE_L2_FAKE_ETHERTYPE_UDP (ctx_wire_id ctx) nonce;
                       pkt \<leftarrow> l2_udp_marker_write pkt magic_off;
                       (r, pkt, st) \<leftarrow> crypto_pqc_encrypt_payload lib st pqc nonce pkt enc_start plain_len;
                       Some (map_option (\<lambda>new_len. enc_start + new_len) r, pkt, st) }) } })
     | _ \<Rightarrow> Some (None, pkt, st) }"

definition l2_do_decrypt :: "('c, 'l) scrypt_lib_scheme \<Rightarrow> packet_crypto_ctx \<Rightarrow> ('c, 'z) option_state_scheme \<Rightarrow>
    buf \<Rightarrow> nat \<Rightarrow> (nat option \<times> buf \<times> ('c, 'z) option_state_scheme) mem" where
  "l2_do_decrypt lib ctx st pkt pkt_len = do {
     enc \<leftarrow> l2_enc_start_off pkt pkt_len;
     case enc of
       None \<Rightarrow> Some (None, pkt, st)
     | Some enc_start \<Rightarrow>
       (case crypto_pqc_sess_load ctx of
          None \<Rightarrow> Some (None, pkt, st)
        | Some _ \<Rightarrow> do {
            noff \<leftarrow> l2_nonce_off pkt pkt_len;
            noff \<leftarrow> noff;
            nonce \<leftarrow> rdn pkt noff L2_NONCE_SIZE;
            (r, pkt, st) \<leftarrow> crypto_pqc_decrypt_payload_resilient lib st ctx nonce pkt enc_start (pkt_len - enc_start);
            case r of
              None \<Rightarrow> Some (None, pkt, st)
            | Some dec_len \<Rightarrow> do {
                (n, pkt) \<leftarrow> l2_restore_plain_packet pkt pkt_len enc_start dec_len;
                Some (n, pkt, st) } }) }"

text \<open>The results of a UDP decryption that the caller reads through pointers: epoch, sequence number,
  datagram id and kind.\<close>

type_synonym udp_meta = "u32 \<times> u32 \<times> u32 \<times> u8"

definition l2_do_decrypt_udp :: "('c, 'l) scrypt_lib_scheme \<Rightarrow> packet_crypto_ctx \<Rightarrow> ('c, 'z) option_state_scheme \<Rightarrow>
    buf \<Rightarrow> nat \<Rightarrow> ((nat \<times> udp_meta) option \<times> buf \<times> ('c, 'z) option_state_scheme) mem" where
  "l2_do_decrypt_udp lib ctx st pkt pkt_len = do {
     magic \<leftarrow> l2_frag_magic_off pkt pkt_len;
     marked \<leftarrow> l2_udp_marker_match pkt pkt_len magic;
     case magic of
       None \<Rightarrow> Some (None, pkt, st)
     | Some magic_off \<Rightarrow>
       let enc_start = magic_off + L2_UDP_MARKER_SIZE in
       if \<not> marked then Some (None, pkt, st)
       else if pkt_len < enc_start + L2_UDP_SHIM_SIZE + AES_GCM_TAG_SIZE then Some (None, pkt, st)
       else (case crypto_pqc_sess_load ctx of
          None \<Rightarrow> Some (None, pkt, st)
        | Some _ \<Rightarrow> do {
            noff \<leftarrow> l2_nonce_off pkt pkt_len;
            noff \<leftarrow> noff;
            nonce \<leftarrow> rdn pkt noff L2_NONCE_SIZE;
            (r, pkt, st) \<leftarrow> crypto_pqc_decrypt_payload_resilient lib st ctx nonce pkt enc_start (pkt_len - enc_start);
            case r of
              None \<Rightarrow> Some (None, pkt, st)
            | Some dec_len \<Rightarrow>
              if dec_len < L2_UDP_SHIM_SIZE then Some (None, pkt, st)
              else do {
                shim \<leftarrow> l2_udp_read_shim pkt enc_start;
                case shim of
                  None \<Rightarrow> Some (None, pkt, st)
                | Some (kind, epoch, seqno, datagram_id) \<Rightarrow> do {
                    let payload_len = dec_len - L2_UDP_SHIM_SIZE;
                    et \<leftarrow> crypto_eth_l2_prefix_len pkt pkt_len;
                    case et of
                      None \<Rightarrow> Some (None, pkt, st)
                    | Some et_off \<Rightarrow> do {
                        let l3_off = et_off + 2;
                        pkt \<leftarrow> mmove pkt l3_off (enc_start + L2_UDP_SHIM_SIZE) payload_len;
                        pkt \<leftarrow> (if kind = L2_UDP_KIND_FULL then crypto_eth_set_ipv4_et pkt (l3_off - 2) else Some pkt);
                        Some (Some (l3_off + payload_len, epoch, seqno, datagram_id, kind), pkt, st) } } } }) }"

definition l2_do_encrypt_arp :: "('c, 'l) scrypt_lib_scheme \<Rightarrow> packet_crypto_ctx \<Rightarrow> ('c, 'z) option_state_scheme \<Rightarrow>
    buf \<Rightarrow> nat \<Rightarrow> (nat option \<times> buf \<times> ('c, 'z) option_state_scheme) mem" where
  "l2_do_encrypt_arp lib ctx st pkt pkt_len = do {
     arp \<leftarrow> crypto_eth_arp_offset pkt pkt_len;
     case arp of
       None \<Rightarrow> Some (None, pkt, st)
     | Some arp_off \<Rightarrow>
       if pkt_len < arp_off + ARP_ETH_IPV4_PAYLOAD then Some (None, pkt, st)
       else do {
         let et_off = arp_off - 2;
         let enc_start = et_off + 2 + ARP_WIRE_HDR_LEN;
         pkt \<leftarrow> mmove pkt enc_start arp_off ARP_ETH_IPV4_PAYLOAD;
         case crypto_pqc_sess_load ctx of
           None \<Rightarrow> Some (None, pkt, st)
         | Some pqc \<Rightarrow>
           (case crypto_pqc_generate_nonce lib st of
              (None, st) \<Rightarrow> Some (None, pkt, st)
            | (Some nonce, st) \<Rightarrow> do {
                pkt \<leftarrow> l2_write_wire_header_et st pkt et_off NE_L2_FAKE_ETHERTYPE_ARP (ctx_wire_id ctx) nonce;
                (r, pkt, st) \<leftarrow> crypto_pqc_encrypt_payload lib st pqc nonce pkt enc_start ARP_ETH_IPV4_PAYLOAD;
                Some (map_option (\<lambda>new_len. enc_start + new_len) r, pkt, st) }) } }"

definition l2_do_decrypt_arp :: "('c, 'l) scrypt_lib_scheme \<Rightarrow> packet_crypto_ctx \<Rightarrow> ('c, 'z) option_state_scheme \<Rightarrow>
    buf \<Rightarrow> nat \<Rightarrow> (nat option \<times> buf \<times> ('c, 'z) option_state_scheme) mem" where
  "l2_do_decrypt_arp lib ctx st pkt pkt_len = do {
     et \<leftarrow> crypto_eth_inner_et_off pkt pkt_len;
     case et of
       None \<Rightarrow> Some (None, pkt, st)
     | Some et_off \<Rightarrow>
       let enc_start = et_off + 2 + ARP_WIRE_HDR_LEN in
       if pkt_len < enc_start then Some (None, pkt, st)
       else (case crypto_pqc_sess_load ctx of
          None \<Rightarrow> Some (None, pkt, st)
        | Some _ \<Rightarrow> do {
            nonce \<leftarrow> rdn pkt (et_off + 2 + 1 + 1) L2_NONCE_SIZE;
            (r, pkt, st) \<leftarrow> crypto_pqc_decrypt_payload_resilient lib st ctx nonce pkt enc_start (pkt_len - enc_start);
            case r of
              None \<Rightarrow> Some (None, pkt, st)
            | Some dec_len \<Rightarrow>
              if dec_len < ARP_ETH_IPV4_PAYLOAD then Some (None, pkt, st)
              else do {
                let arp_off = et_off + 2;
                pkt \<leftarrow> crypto_eth_set_arp_et pkt et_off;
                pkt \<leftarrow> mmove pkt arp_off enc_start dec_len;
                Some (Some (arp_off + dec_len), pkt, st) } }) }"

section \<open>Splitting and reassembly\<close>

definition l2_encrypt_fragment_single :: "('c, 'l) scrypt_lib_scheme \<Rightarrow> packet_crypto_ctx \<Rightarrow> ('c, 'z) option_state_scheme \<Rightarrow>
    buf \<Rightarrow> buf \<Rightarrow> u32 \<Rightarrow> u32 \<Rightarrow> u32 \<Rightarrow> u8 \<Rightarrow> buf \<Rightarrow> nat \<Rightarrow> nat
    \<Rightarrow> (nat option \<times> buf \<times> ('c, 'z) option_state_scheme) mem" where
  "l2_encrypt_fragment_single lib ctx st eth_hdr enc_plain epoch seqno datagram_id frag_index out out_max et_off = do {
     let magic_off = et_off + 2 + 1 + 1 + L2_NONCE_SIZE;
     let enc_off = magic_off + L2_UDP_MARKER_SIZE;
     let plain_len = L2_UDP_SHIM_SIZE + length enc_plain;
     if enc_off + plain_len + AES_GCM_TAG_SIZE > out_max then Some (None, out, st)
     else do {
       h \<leftarrow> rdn eth_hdr 0 et_off;
       out \<leftarrow> wrn out 0 h;
       case crypto_pqc_sess_load ctx of
         None \<Rightarrow> Some (None, out, st)
       | Some pqc \<Rightarrow>
         (case crypto_pqc_generate_nonce lib st of
            (None, st) \<Rightarrow> Some (None, out, st)
          | (Some nonce, st) \<Rightarrow> do {
              out \<leftarrow> wrn out (enc_off + L2_UDP_SHIM_SIZE) enc_plain;
              out \<leftarrow> l2_udp_write_shim out enc_off frag_index epoch seqno datagram_id;
              out \<leftarrow> l2_write_wire_header_et st out et_off NE_L2_FAKE_ETHERTYPE_UDP (ctx_wire_id ctx) nonce;
              out \<leftarrow> l2_udp_marker_write out magic_off;
              (r, out, st) \<leftarrow> crypto_pqc_encrypt_payload lib st pqc nonce out enc_off plain_len;
              Some (map_option (\<lambda>new_len. enc_off + new_len) r, out, st) }) } }"

definition l2_encrypt_fragment0_inplace :: "('c, 'l) scrypt_lib_scheme \<Rightarrow> packet_crypto_ctx \<Rightarrow> ('c, 'z) option_state_scheme \<Rightarrow>
    buf \<Rightarrow> nat \<Rightarrow> u32 \<Rightarrow> u32 \<Rightarrow> u32 \<Rightarrow> nat \<Rightarrow> nat \<Rightarrow> nat
    \<Rightarrow> (nat option \<times> buf \<times> ('c, 'z) option_state_scheme) mem" where
  "l2_encrypt_fragment0_inplace lib ctx st pkt frag0_plain_len epoch seqno datagram_id out_max et_off l3_off = do {
     let magic_off = et_off + 2 + 1 + 1 + L2_NONCE_SIZE;
     let enc_off = magic_off + L2_UDP_MARKER_SIZE;
     let plain_len = L2_UDP_SHIM_SIZE + frag0_plain_len;
     if enc_off + plain_len + AES_GCM_TAG_SIZE > out_max then Some (None, pkt, st)
     else do {
       pkt \<leftarrow> mmove pkt (enc_off + L2_UDP_SHIM_SIZE) l3_off frag0_plain_len;
       pkt \<leftarrow> l2_udp_write_shim pkt enc_off L2_UDP_KIND_FRAG0 epoch seqno datagram_id;
       case crypto_pqc_sess_load ctx of
         None \<Rightarrow> Some (None, pkt, st)
       | Some pqc \<Rightarrow>
         (case crypto_pqc_generate_nonce lib st of
            (None, st) \<Rightarrow> Some (None, pkt, st)
          | (Some nonce, st) \<Rightarrow> do {
              pkt \<leftarrow> l2_write_wire_header_et st pkt et_off NE_L2_FAKE_ETHERTYPE_UDP (ctx_wire_id ctx) nonce;
              pkt \<leftarrow> l2_udp_marker_write pkt magic_off;
              (r, pkt, st) \<leftarrow> crypto_pqc_encrypt_payload lib st pqc nonce pkt enc_off plain_len;
              Some (map_option (\<lambda>new_len. enc_off + new_len) r, pkt, st) }) } }"

text \<open>
  The sizes that a split computes before it encrypts anything: the plaintext length of the first
  fragment and of the second one, with \<open>None\<close> for the early returns. \<open>ip0\<close> and \<open>proto\<close> are the first
  byte and the protocol field of the IPv4 header.
\<close>

definition l2_split_plan :: "nat \<Rightarrow> nat \<Rightarrow> nat \<Rightarrow> u8 \<Rightarrow> u8 \<Rightarrow> (nat \<times> nat) option" where
  "l2_split_plan frag_mtu pkt_len l3_off ip0 proto =
     (let ip_hdr_len = unat (ip0 AND 0x0F) * 4 in
      if drop_bit 4 ip0 \<noteq> 4 \<or> ip_hdr_len < 20 \<or> pkt_len < l3_off + ip_hdr_len then None
      else let ip_payload_len = pkt_len - l3_off - ip_hdr_len in
      if proto \<noteq> 17 then None
      else if ip_payload_len < 8 then None
      else let app_len = ip_payload_len - 8 in
      if app_len = 0 then None
      else let frag_overhead = l3_off + OPT_FRAG_META_LEN in
      if frag_overhead \<ge> frag_mtu then None
      else let max_plain0 = frag_mtu - frag_overhead; fixed_plain0 = ip_hdr_len + 8 in
      if max_plain0 \<le> fixed_plain0 then None
      else let half1 = max_plain0 - fixed_plain0; half1 = (if half1 \<ge> app_len then app_len - 1 else half1)
      in Some (ip_hdr_len + 8 + half1, app_len - half1))"

definition l2_split :: "('c, 'l) scrypt_lib_scheme \<Rightarrow> os_env \<Rightarrow> packet_crypto_ctx \<Rightarrow> ('c, 'z) option_state_scheme \<Rightarrow>
    buf \<Rightarrow> nat \<Rightarrow> nat \<Rightarrow> buf \<Rightarrow> nat \<Rightarrow> ((nat \<times> nat) option \<times> buf \<times> buf \<times> ('c, 'z) option_state_scheme) mem" where
  "l2_split lib env ctx st pkt pkt_len frag0_max frag1 frag1_max = do {
     let frag_mtu = unat (crypto_option_get_mtu st);
     l3 \<leftarrow> crypto_eth_ipv4_offset pkt pkt_len;
     case l3 of
       None \<Rightarrow> Some (None, pkt, frag1, st)
     | Some l3_off \<Rightarrow> do {
         ip0 \<leftarrow> rd8 pkt l3_off;
         proto \<leftarrow> rd8 pkt (l3_off + 9);
         case l2_split_plan frag_mtu pkt_len l3_off ip0 proto of
           None \<Rightarrow> Some (None, pkt, frag1, st)
         | Some (frag0_plain_len, half2) \<Rightarrow>
           (case crypto_option_udp_tx_meta env st of
              (None, st) \<Rightarrow> Some (None, pkt, frag1, st)
            | (Some (epoch, seqno, datagram_id), st) \<Rightarrow> do {
                frag1_plain \<leftarrow> rdn pkt (l3_off + frag0_plain_len) half2;
                et \<leftarrow> crypto_eth_l2_prefix_len pkt ETH_L2_HDR_MAX;
                et_off \<leftarrow> et;
                (r1, frag1, st) \<leftarrow> l2_encrypt_fragment_single lib ctx st pkt frag1_plain epoch seqno datagram_id
                    L2_UDP_KIND_FRAG1 frag1 frag1_max et_off;
                case r1 of
                  None \<Rightarrow> Some (None, pkt, frag1, st)
                | Some frag1_len \<Rightarrow> do {
                    et \<leftarrow> crypto_eth_l2_prefix_len pkt pkt_len;
                    et_off \<leftarrow> et;
                    (r0, pkt, st) \<leftarrow> l2_encrypt_fragment0_inplace lib ctx st pkt frag0_plain_len epoch seqno datagram_id
                        frag0_max et_off l3_off;
                    Some (map_option (\<lambda>frag0_len. (frag0_len, frag1_len)) r0, pkt, frag1, st) } }) } }"

text \<open>The result is the return code, \<open>*out_len\<close>, the entries of the table and the output buffer.\<close>

definition l2_reassemble :: "os_env \<Rightarrow> opt_entries \<Rightarrow> buf \<Rightarrow> nat \<Rightarrow> u32 \<Rightarrow> u32 \<Rightarrow> u32 \<Rightarrow> u8 \<Rightarrow> buf
    \<Rightarrow> (int \<times> nat \<times> opt_entries \<times> buf) mem" where
  "l2_reassemble env es pkt pkt_len epoch datagram_id bond_seq frag_index out = do {
     wire \<leftarrow> l2_wire_prefix_len pkt pkt_len;
     case wire of
       None \<Rightarrow> Some (-1, 0, es, out)
     | Some wire_eth \<Rightarrow>
       if wire_eth > ETH_L2_HDR_MAX then Some (-1, 0, es, out)
       else if pkt_len < wire_eth then Some (-1, 0, es, out)
       else do {
         inner \<leftarrow> rdn pkt wire_eth (pkt_len - wire_eth);
         let now = opt_time_ns env;
         (idx, es) \<leftarrow> opt_pick_slot es epoch datagram_id now;
         entry \<leftarrow> en_at es idx;
         if frag_index = 0 then
           (if length inner < 20 then Some (-1, 0, es, out)
            else do {
              i0 \<leftarrow> rd8 inner 0;
              let ip_hdr_len = unat (i0 AND 0x0F) * 4;
              if drop_bit 4 i0 \<noteq> 4 then Some (-1, 0, es, out)
              else if ip_hdr_len < 20 \<or> length inner < ip_hdr_len then Some (-1, 0, es, out)
              else (case opt_store_first entry epoch datagram_id bond_seq pkt (of_nat wire_eth) inner now of
                  None \<Rightarrow> Some (-1, 0, es, out)
                | Some e \<Rightarrow> do {
                    (rc, out_len, e, out) \<leftarrow> opt_emit_join e out;
                    Some (rc, out_len, es(idx := e), out) }) })
         else if frag_index = 1 then
           (let e = (if en_occupied entry \<and> en_epoch entry = epoch \<and> en_datagram_id entry = datagram_id
                         \<and> en_expired now entry
                     then opt_clear_entry entry else entry)
            in case opt_store_second e epoch datagram_id bond_seq inner now of
                  None \<Rightarrow> Some (-1, 0, es(idx := e), out)
                | Some e \<Rightarrow> do {
                    (rc, out_len, e, out) \<leftarrow> opt_emit_join e out;
                    Some (rc, out_len, es(idx := e), out) })
         else Some (-1, 0, es, out) } }"

section \<open>The operations of the option\<close>

text \<open>\<open>encrypt\<close> and \<open>decrypt\<close> of the option interface: the return code, \<open>*pkt_len\<close>, the frame and the
  state.\<close>

type_synonym ('c, 'z) l2_result = "(int \<times> nat \<times> buf \<times> ('c, 'z) l2_state_scheme) mem"

definition len_result :: "nat \<Rightarrow> nat option \<times> buf \<times> ('c, 'z) l2_state_scheme \<Rightarrow> ('c, 'z) l2_result" where
  "len_result pkt_len r =
     (case r of (None, pkt, st) \<Rightarrow> Some (-1, pkt_len, pkt, st) | (Some n, pkt, st) \<Rightarrow> Some (0, n, pkt, st))"

definition l2_udp_encrypt :: "('c, 'l) scrypt_lib_scheme \<Rightarrow> os_env \<Rightarrow> packet_crypto_ctx \<Rightarrow> ('c, 'z) l2_state_scheme \<Rightarrow>
    buf \<Rightarrow> nat \<Rightarrow> ('c, 'z) l2_result" where
  "l2_udp_encrypt lib env ctx st pkt pkt_len =
     (if \<not> ctx_initialized ctx \<or> pkt_len < MIN_ETH_PKT then Some (-1, pkt_len, pkt, st)
      else do {
        ip \<leftarrow> crypto_pkt_is_ipv4 pkt pkt_len;
        if \<not> ip then Some (0, pkt_len, pkt, st)
        else do { r \<leftarrow> l2_do_encrypt_udp lib env ctx st pkt pkt_len; len_result pkt_len r } })"

definition l2_udp_decrypt :: "('c, 'l) scrypt_lib_scheme \<Rightarrow> packet_crypto_ctx \<Rightarrow> ('c, 'z) l2_state_scheme \<Rightarrow>
    buf \<Rightarrow> nat \<Rightarrow> ('c, 'z) l2_result" where
  "l2_udp_decrypt lib ctx st pkt pkt_len =
     (if \<not> ctx_initialized ctx then Some (-1, pkt_len, pkt, st)
      else do {
        marked \<leftarrow> crypto_eth_l2_has_marker pkt pkt_len;
        if \<not> marked then Some (0, pkt_len, pkt, st)
        else do {
          (r, pkt, st) \<leftarrow> l2_do_decrypt_udp lib ctx st pkt pkt_len;
          case r of
            None \<Rightarrow> Some (-1, pkt_len, pkt, st)
          | Some (n, epoch, seqno, datagram_id, kind) \<Rightarrow>
            if kind \<noteq> L2_UDP_KIND_FULL then Some (-1, pkt_len, pkt, st)
            else do {
              ip \<leftarrow> crypto_pkt_is_ipv4 pkt n;
              if \<not> ip then Some (-1, pkt_len, pkt, st)
              else Some (0, n, pkt, crypto_option_udp_set_rx_meta epoch seqno st) } } })"

definition l2_udp_need_split :: "('c, 'z) option_state_scheme \<Rightarrow> u32 \<Rightarrow> bool" where
  "l2_udp_need_split st pkt_len \<longleftrightarrow> pkt_len + of_nat OPT_FRAG_META_LEN > crypto_option_get_mtu st"

definition l2_udp_split :: "('c, 'l) scrypt_lib_scheme \<Rightarrow> os_env \<Rightarrow> packet_crypto_ctx \<Rightarrow> ('c, 'z) option_state_scheme \<Rightarrow>
    buf \<Rightarrow> nat \<Rightarrow> nat \<Rightarrow> buf \<Rightarrow> nat \<Rightarrow> ((nat \<times> nat) option \<times> buf \<times> buf \<times> ('c, 'z) option_state_scheme) mem" where
  "l2_udp_split lib env ctx st pkt pkt_len frag0_max frag1 frag1_max =
     l2_split lib env ctx st pkt pkt_len frag0_max frag1 frag1_max"

definition l2_udp_is_fragment :: "app_config \<Rightarrow> buf \<Rightarrow> nat \<Rightarrow> bool mem" where
  "l2_udp_is_fragment cfg pkt pkt_len = do {
     marked \<leftarrow> crypto_eth_l2_has_marker pkt pkt_len;
     if \<not> marked then Some False
     else do {
       tag_off \<leftarrow> l2_frag_magic_off pkt pkt_len;
       case tag_off of
         None \<Rightarrow> Some False
       | Some off \<Rightarrow>
         if pkt_len < off + L2_UDP_MARKER_SIZE + L2_UDP_SHIM_SIZE + AES_GCM_TAG_SIZE then Some False
         else do {
           m \<leftarrow> l2_udp_marker_match pkt pkt_len tag_off;
           if \<not> m then Some False
           else do {
             wire_pol \<leftarrow> crypto_eth_l2_read_policy_id pkt pkt_len;
             case wire_pol of
               None \<Rightarrow> Some False
             | Some w \<Rightarrow> Some (opt_policy_match cfg POLICY_ACTION_ENCRYPT_L2 w) } } } }"

text \<open>The result is the return code, \<open>*pkt_len\<close>, \<open>*out_len\<close>, the frame, the output buffer and the
  state. The code passes the frame as the output buffer: the frame is read before the output is
  written, so the two may be the same memory.\<close>

definition l2_udp_reasm :: "('c, 'l) scrypt_lib_scheme \<Rightarrow> os_env \<Rightarrow> int \<Rightarrow> int \<Rightarrow> packet_crypto_ctx \<Rightarrow>
    ('c, 'z) l2_state_scheme \<Rightarrow> buf \<Rightarrow> nat \<Rightarrow> buf \<Rightarrow> (int \<times> nat \<times> nat \<times> buf \<times> buf \<times> ('c, 'z) l2_state_scheme) mem" where
  "l2_udp_reasm lib env profile_slot worker_idx ctx st pkt pkt_len out = do {
     (r, pkt, st) \<leftarrow> l2_do_decrypt_udp lib ctx st pkt pkt_len;
     case r of
       None \<Rightarrow> Some (-1, pkt_len, 0, pkt, out, st)
     | Some (nd, epoch, seqno, datagram_id, kind) \<Rightarrow>
       if kind = L2_UDP_KIND_FULL then do {
         ip \<leftarrow> crypto_pkt_is_ipv4 pkt nd;
         if \<not> ip then Some (-1, nd, 0, pkt, out, st)
         else do {
           bytes \<leftarrow> rdn pkt 0 nd;
           out \<leftarrow> wrn out 0 bytes;
           Some (1, nd, nd, pkt, out, crypto_option_udp_set_rx_meta epoch seqno st) } }
       else if kind > L2_UDP_KIND_FRAG1 then Some (-1, nd, 0, pkt, out, st)
       else do {
         (p, w, t, st) \<leftarrow> opt_table env profile_slot worker_idx True st;
         case t of
           None \<Rightarrow> Some (-1, nd, 0, pkt, out, st)
         | Some ft \<Rightarrow> do {
             (rr, out_len, es, out) \<leftarrow> l2_reassemble env (ot_entries ft) pkt nd epoch datagram_id seqno kind out;
             let st = st\<lparr>g_tables := (g_tables st)(p := (g_tables st p)(w \<mapsto> ft\<lparr>ot_entries := es\<rparr>))\<rparr>;
             if rr = 1 then Some (rr, out_len, out_len, pkt, out, crypto_option_udp_set_rx_meta epoch seqno st)
             else Some (rr, nd, out_len, pkt, out, st) } } }"

definition l2_udp_frag_gc :: "os_env \<Rightarrow> int \<Rightarrow> int \<Rightarrow> u64 \<Rightarrow> ('c, 'z) l2_state_scheme \<Rightarrow> ('c, 'z) l2_state_scheme mem" where
  "l2_udp_frag_gc env profile_slot worker_idx now_ns st = do {
     (p, w, t, st) \<leftarrow> opt_table env profile_slot worker_idx False st;
     case t of
       None \<Rightarrow> Some st
     | Some ft \<Rightarrow> do {
         ft \<leftarrow> opt_frag_gc_table ft now_ns;
         Some (st\<lparr>g_tables := (g_tables st)(p := (g_tables st p)(w \<mapsto> ft))\<rparr>) } }"

definition l2_tcp_encrypt :: "('c, 'l) scrypt_lib_scheme \<Rightarrow> packet_crypto_ctx \<Rightarrow> ('c, 'z) l2_state_scheme \<Rightarrow>
    buf \<Rightarrow> nat \<Rightarrow> ('c, 'z) l2_result" where
  "l2_tcp_encrypt lib ctx st pkt pkt_len =
     (if \<not> ctx_initialized ctx \<or> pkt_len < MIN_ETH_PKT then Some (-1, pkt_len, pkt, st)
      else do {
        ip \<leftarrow> crypto_pkt_is_ipv4 pkt pkt_len;
        if \<not> ip then Some (0, pkt_len, pkt, st)
        else do { r \<leftarrow> l2_do_encrypt lib ctx st pkt pkt_len; len_result pkt_len r } })"

definition l2_tcp_decrypt :: "('c, 'l) scrypt_lib_scheme \<Rightarrow> packet_crypto_ctx \<Rightarrow> ('c, 'z) l2_state_scheme \<Rightarrow>
    buf \<Rightarrow> nat \<Rightarrow> ('c, 'z) l2_result" where
  "l2_tcp_decrypt lib ctx st pkt pkt_len =
     (if \<not> ctx_initialized ctx then Some (-1, pkt_len, pkt, st)
      else do {
        marked \<leftarrow> crypto_eth_l2_has_marker pkt pkt_len;
        if \<not> marked then Some (0, pkt_len, pkt, st)
        else do { r \<leftarrow> l2_do_decrypt lib ctx st pkt pkt_len; len_result pkt_len r } })"

text \<open>The ICMP and OSPF operations have the bodies of the TCP ones.\<close>

definition l2_icmp_encrypt :: "('c, 'l) scrypt_lib_scheme \<Rightarrow> packet_crypto_ctx \<Rightarrow> ('c, 'z) l2_state_scheme \<Rightarrow>
    buf \<Rightarrow> nat \<Rightarrow> ('c, 'z) l2_result" where
  "l2_icmp_encrypt lib ctx st pkt pkt_len =
     (if \<not> ctx_initialized ctx \<or> pkt_len < MIN_ETH_PKT then Some (-1, pkt_len, pkt, st)
      else do {
        ip \<leftarrow> crypto_pkt_is_ipv4 pkt pkt_len;
        if \<not> ip then Some (0, pkt_len, pkt, st)
        else do { r \<leftarrow> l2_do_encrypt lib ctx st pkt pkt_len; len_result pkt_len r } })"

definition l2_icmp_decrypt :: "('c, 'l) scrypt_lib_scheme \<Rightarrow> packet_crypto_ctx \<Rightarrow> ('c, 'z) l2_state_scheme \<Rightarrow>
    buf \<Rightarrow> nat \<Rightarrow> ('c, 'z) l2_result" where
  "l2_icmp_decrypt lib ctx st pkt pkt_len =
     (if \<not> ctx_initialized ctx then Some (-1, pkt_len, pkt, st)
      else do {
        marked \<leftarrow> crypto_eth_l2_has_marker pkt pkt_len;
        if \<not> marked then Some (0, pkt_len, pkt, st)
        else do { r \<leftarrow> l2_do_decrypt lib ctx st pkt pkt_len; len_result pkt_len r } })"

definition l2_ospf_encrypt :: "('c, 'l) scrypt_lib_scheme \<Rightarrow> packet_crypto_ctx \<Rightarrow> ('c, 'z) l2_state_scheme \<Rightarrow>
    buf \<Rightarrow> nat \<Rightarrow> ('c, 'z) l2_result" where
  "l2_ospf_encrypt lib ctx st pkt pkt_len =
     (if \<not> ctx_initialized ctx \<or> pkt_len < MIN_ETH_PKT then Some (-1, pkt_len, pkt, st)
      else do {
        ip \<leftarrow> crypto_pkt_is_ipv4 pkt pkt_len;
        if \<not> ip then Some (0, pkt_len, pkt, st)
        else do { r \<leftarrow> l2_do_encrypt lib ctx st pkt pkt_len; len_result pkt_len r } })"

definition l2_ospf_decrypt :: "('c, 'l) scrypt_lib_scheme \<Rightarrow> packet_crypto_ctx \<Rightarrow> ('c, 'z) l2_state_scheme \<Rightarrow>
    buf \<Rightarrow> nat \<Rightarrow> ('c, 'z) l2_result" where
  "l2_ospf_decrypt lib ctx st pkt pkt_len =
     (if \<not> ctx_initialized ctx then Some (-1, pkt_len, pkt, st)
      else do {
        marked \<leftarrow> crypto_eth_l2_has_marker pkt pkt_len;
        if \<not> marked then Some (0, pkt_len, pkt, st)
        else do { r \<leftarrow> l2_do_decrypt lib ctx st pkt pkt_len; len_result pkt_len r } })"

definition l2_arp_encrypt :: "('c, 'l) scrypt_lib_scheme \<Rightarrow> packet_crypto_ctx \<Rightarrow> ('c, 'z) l2_state_scheme \<Rightarrow>
    buf \<Rightarrow> nat \<Rightarrow> ('c, 'z) l2_result" where
  "l2_arp_encrypt lib ctx st pkt pkt_len =
     (if \<not> ctx_initialized ctx \<or> pkt_len < MIN_ETH_PKT then Some (-1, pkt_len, pkt, st)
      else do {
        arp \<leftarrow> crypto_pkt_is_arp pkt pkt_len;
        if \<not> arp then Some (0, pkt_len, pkt, st)
        else do { r \<leftarrow> l2_do_encrypt_arp lib ctx st pkt pkt_len; len_result pkt_len r } })"

definition l2_arp_decrypt :: "('c, 'l) scrypt_lib_scheme \<Rightarrow> packet_crypto_ctx \<Rightarrow> ('c, 'z) l2_state_scheme \<Rightarrow>
    buf \<Rightarrow> nat \<Rightarrow> ('c, 'z) l2_result" where
  "l2_arp_decrypt lib ctx st pkt pkt_len =
     (if \<not> ctx_initialized ctx then Some (-1, pkt_len, pkt, st)
      else do {
        marked \<leftarrow> crypto_eth_l2_has_arp_marker pkt pkt_len;
        if \<not> marked then Some (0, pkt_len, pkt, st)
        else do { r \<leftarrow> l2_do_decrypt_arp lib ctx st pkt pkt_len; len_result pkt_len r } })"

end
