(* ===== verification/L2_Correct.thy ===== *)
theory L2_Correct
  imports L2_Option
begin

text \<open>
  Correctness of the layer-2 wire format: what encryption puts on the wire, and that decryption at
  the peer, in any frame that holds these bytes, restores the packet. The shared lemmas describe an
  encrypted frame as its Ethernet prefix, a header and a sealed payload.
\<close>

section \<open>Buffers\<close>

lemma patch_before:
  "o1 + length xs + length ys \<le> length b \<Longrightarrow> patch (patch b (o1 + length xs) ys) o1 xs = patch b o1 (xs @ ys)"
  by (rule nth_equalityI) (auto simp: nth_patch nth_append)

lemma patch_cover:
  assumes "length xs \<le> length ys" "o1 + length hs + length ys \<le> length b"
  shows "patch (patch (patch b (o1 + length hs) xs) o1 hs) (o1 + length hs) ys = patch b o1 (hs @ ys)"
  using assms by (intro nth_equalityI) (auto simp: nth_patch nth_append)

lemma take_patch: "off + length xs \<le> length b \<Longrightarrow> n = off + length xs \<Longrightarrow> take n (patch b off xs) = take off b @ xs"
  by (simp add: patch_def)

lemma slice_take: "off + m \<le> n \<Longrightarrow> slice (take n b) off m = slice b off m"
  by (simp add: slice_def drop_take min_def)

lemma slice_middle: "off = length xs \<Longrightarrow> m = length ys \<Longrightarrow> slice (xs @ ys @ zs) off m = ys"
  by (simp add: slice_def)

lemma slice_end: "off = length xs \<Longrightarrow> m = length ys \<Longrightarrow> slice (xs @ ys) off m = ys"
  by (simp add: slice_def)

lemma take_eq_append_take: "take n b = xs @ ys \<Longrightarrow> m = length xs \<Longrightarrow> m \<le> n \<Longrightarrow> take m b = xs"
  by (metis append_eq_conv_conj min.absorb1 take_take)

lemma slice_of_take:
  assumes "take n b = xs @ ys @ zs" "off = length xs" "m = length ys"
  shows "slice b off m = ys"
proof -
  have "b = xs @ ys @ zs @ drop n b" using append_take_drop_id [of n b] assms(1) by simp
  then show ?thesis using assms(2,3) by (metis slice_middle)
qed

lemma slice_2: "off + 2 \<le> length b \<Longrightarrow> slice b off 2 = [b ! off, b ! (off + 1)]"
  by (rule nth_equalityI) (auto simp: less_2_cases_iff)

lemma et_at_slice2: "off + 2 \<le> length b \<Longrightarrow> slice b off 2 = be16_bytes w \<Longrightarrow> et_at b off = w"
  by (simp add: slice_2 et_at_def be16_bytes_def be16_roundtrip)

lemma et_at_bytes: "off + 2 \<le> length b \<Longrightarrow> slice b off 2 = be16_bytes (et_at b off)"
  by (simp add: slice_2 et_at_def be16_bytes_def be16_byte)

lemma ipv4_et_bytes: "be16_bytes ETH_P_IP = [8, 0]" "be16_bytes ETH_P_ARP = [8, 6]"
  by code_simp+

section \<open>The Ethernet prefix\<close>

lemma et_at_take: "take n b' = take n b \<Longrightarrow> off + 1 < n \<Longrightarrow> et_at b' off = et_at b off"
  by (metis et_at_def add_lessD1 nth_take)

text \<open>Replacing the type field by another recognised type keeps its offset.\<close>

lemma inner_et_off_retag:
  assumes "crypto_eth_inner_et_off b n = Some (Some o1)" "n \<le> length b"
    and "take o1 b' = take o1 b" "o1 + 2 \<le> n'" "n' \<le> length b'" "eth_inner_hit (et_at b' o1)"
  shows "crypto_eth_inner_et_off b' n' = Some (Some o1)"
proof -
  have o1: "o1 = 12 \<or> o1 = 16" "o1 + 2 \<le> n"
    using inner_et_off_spec [OF assms(2)] assms(1) by (metis option.inject)+
  show ?thesis
  proof (cases "o1 = 12")
    case True
    with assms(4-6) show ?thesis by (simp add: crypto_eth_inner_et_off_def)
  next
    case False
    then have [simp]: "o1 = 16" using o1 by simp
    have "et_at b' 12 = et_at b 12" using assms(3) by (intro et_at_take [of 16]) auto
    moreover have "\<not> eth_inner_hit (et_at b 12)" "et_at b 12 = ETH_P_8021Q"
      using assms(1,2) o1(2) by (auto simp: crypto_eth_inner_et_off_def split: if_splits)
    ultimately show ?thesis using assms(4-6) by (simp add: crypto_eth_inner_et_off_def)
  qed
qed

lemma inner_hits [simp]:
  "eth_inner_hit ETH_P_IP" "eth_inner_hit NE_L2_FAKE_ETHERTYPE" "eth_inner_hit NE_L2_FAKE_ETHERTYPE_UDP"
  "eth_inner_hit NE_L2_FAKE_ETHERTYPE_ARP"
  by (simp_all add: eth_inner_hit_def eth_match_et_def ethertype_defs)

lemma ipv4_offsetD:
  assumes "crypto_eth_ipv4_offset b n = Some (Some l3)" "n \<le> length b"
  obtains et where "l3 = et + 2" "crypto_eth_inner_et_off b n = Some (Some et)" "et = 12 \<or> et = 16"
    "et + 22 \<le> n" "et_at b et = ETH_P_IP"
proof -
  obtain r where r: "crypto_eth_inner_et_off b n = Some r" "\<And>o1. r = Some o1 \<Longrightarrow> (o1 = 12 \<or> o1 = 16) \<and> o1 + 2 \<le> n"
    using inner_et_off_spec [OF assms(2)] by metis
  with assms show ?thesis
    by (cases r) (auto simp: crypto_eth_ipv4_offset_def split: if_splits intro!: that)
qed

lemma ipv4_offsetI:
  "\<lbrakk>crypto_eth_inner_et_off b n = Some (Some et); et + 22 \<le> n; n \<le> length b; et_at b et = ETH_P_IP\<rbrakk>
   \<Longrightarrow> crypto_eth_ipv4_offset b n = Some (Some (et + 2))"
  by (simp add: crypto_eth_ipv4_offset_def)

section \<open>The wire header\<close>

definition wire_header :: "u16 \<Rightarrow> u8 \<Rightarrow> u8 \<Rightarrow> buf \<Rightarrow> buf" where
  "wire_header fake pol worker nonce = be16_bytes fake @ [pol, worker] @ nonce"

lemma length_wire_header [simp]: "length (wire_header fake pol worker nonce) = 4 + length nonce"
  by (simp add: wire_header_def)

lemma ucast_low_byte: "ucast (x AND 0xFF :: u16) = (ucast x :: u8)"
proof -
  have "x AND 0xFF = take_bit 8 x" by (simp add: take_bit_eq_mask mask_eq_exp_minus_1)
  then show ?thesis by (simp only:) (rule bit_word_eqI, auto simp: bit_simps)
qed

lemma write_wire_header:
  assumes "et + 4 + length nonce \<le> length b"
  shows "l2_write_wire_header_et st b et fake pol nonce = Some (patch b et (wire_header fake pol (g_worker_idx st) nonce))"
proof -
  let ?h = "[ucast (drop_bit 8 fake), ucast fake, pol, g_worker_idx st]"
  have "patch (patch (patch (patch b et [ucast (drop_bit 8 fake)]) (et + 1) [ucast fake]) (et + 2) [pol]) (et + 3)
      [g_worker_idx st] = patch b et ?h"
    using assms by (intro nth_equalityI) (auto simp: nth_patch nth_Cons')
  moreover have "patch (patch b et ?h) (et + 4) nonce = patch b et (?h @ nonce)"
    using patch_append [of et ?h nonce b] assms by (simp add: eval_nat_numeral)
  ultimately show ?thesis
    using assms
    by (simp add: l2_write_wire_header_et_def crypto_option_worker_idx_def ucast_low_byte wire_header_def be16_bytes_def)
qed

section \<open>Encryption\<close>

definition next_nonce :: "('c, 'l) scrypt_lib_scheme \<Rightarrow> ('c, 'z) crypto_state_scheme \<Rightarrow> buf" where
  "next_nonce lib st = nonce_salt lib st @ le32_bytes (tls_pqc_counter st + 1)"

definition after_nonce :: "('c, 'l) scrypt_lib_scheme \<Rightarrow> ('c, 'z) crypto_state_scheme \<Rightarrow> ('c, 'z) crypto_state_scheme" where
  "after_nonce lib st = st\<lparr>tls_pqc_salt := nonce_salt lib st, tls_salt_initialized := True,
     tls_pqc_counter := tls_pqc_counter st + 1\<rparr>"

lemma pqc_generate_nonce:
  "salt_ready lib st \<Longrightarrow> crypto_pqc_generate_nonce lib st = (Some (next_nonce lib st), after_nonce lib st)"
  by (simp add: crypto_pqc_generate_nonce_def generate_nonce_ok next_nonce_def after_nonce_def TRF_PQC_OK_def)

lemma length_next_nonce: "salt_ready lib st \<Longrightarrow> length (next_nonce lib st) = 12"
  by (auto simp: next_nonce_def nonce_salt_def salt_ready_def)

lemma after_nonce_simps [simp]:
  "cipher_ready lib (after_nonce lib' st) = cipher_ready lib st"
  "g_worker_idx (after_nonce lib' st) = g_worker_idx st"
  "salt_ready lib st \<Longrightarrow> salt_ready lib (after_nonce lib st)"
  by (auto simp: after_nonce_def cipher_ready_def salt_ready_def nonce_salt_def)

lemma tls_enc_simps [simp]:
  "cipher_ready lib st \<Longrightarrow> cipher_ready lib (st\<lparr>tls_enc := Some c\<rparr>)"
  "salt_ready lib (st\<lparr>tls_enc := x\<rparr>) = salt_ready lib st"
  by (auto simp: cipher_ready_def salt_ready_def)

text \<open>The step all encryptions end with: a plaintext lies behind the place of the header; the header is
  written and the plaintext sealed.\<close>

lemma header_and_seal:
  assumes "scrypt_gcm lib enc tag" "cipher_ready lib st" "length (sess_key sess) = 32" "length nonce = 12"
    and "p \<noteq> []" "et + length hdr + length p + 16 \<le> length b"
  shows "\<exists>c. crypto_pqc_encrypt_payload lib st sess nonce
      (patch (patch b (et + length hdr) p) et hdr) (et + length hdr) (length p) =
    Some (Some (length p + 16), patch b et (hdr @ sealed_payload enc tag (sess_key sess) nonce p), st\<lparr>tls_enc := Some c\<rparr>)"
proof -
  let ?b = "patch (patch b (et + length hdr) p) et hdr"
  have l: "length ?b = length b" using assms(6) by simp
  have "slice ?b (et + length hdr) (length p) = slice (patch b (et + length hdr) p) (et + length hdr) (length p)"
    using assms(6) by (intro slice_patch_disjoint) auto
  then have p: "slice ?b (et + length hdr) (length p) = p" using assms(6) by (simp add: slice_patch_same)
  have "length (sealed_payload enc tag (sess_key sess) nonce p) = length p + 16"
    using length_sealed_payload [OF assms(1,3,4,5)] .
  then have "patch ?b (et + length hdr) (sealed_payload enc tag (sess_key sess) nonce p) =
      patch b et (hdr @ sealed_payload enc tag (sess_key sess) nonce p)"
    using assms(6) by (intro patch_cover) auto
  then show ?thesis
    using encrypt_payload_ok [OF assms(1-4), of "length p" "et + length hdr" ?b] assms(5,6) l p by simp
qed

lemma do_encrypt_ok:
  assumes "scrypt_gcm lib enc tag" "ctx_wf ctx" "crypto_pqc_sess_load ctx = Some sess"
    and "cipher_ready lib st" "salt_ready lib st"
    and "crypto_eth_ipv4_offset b n = Some (Some (et + 2))" "n + 30 \<le> length b"
  shows "\<exists>c. l2_do_encrypt lib ctx st b n = Some (Some (n + 30),
    patch b et (wire_header NE_L2_FAKE_ETHERTYPE (ctx_wire_id ctx) (g_worker_idx st) (next_nonce lib st)
      @ sealed_payload enc tag (sess_key sess) (next_nonce lib st) (slice b (et + 2) (n - (et + 2)))),
    (after_nonce lib st)\<lparr>tls_enc := Some c\<rparr>)"
proof -
  let ?n = "next_nonce lib st" and ?p = "slice b (et + 2) (n - (et + 2))"
  let ?hd = "wire_header NE_L2_FAKE_ETHERTYPE (ctx_wire_id ctx) (g_worker_idx st) ?n"
  obtain et' where e: "et + 2 = et' + 2" "crypto_eth_inner_et_off b n = Some (Some et')" "et' + 22 \<le> n"
    using ipv4_offsetD [OF assms(6)] assms(7) by (metis add_leD1)
  then have [simp]: "et' = et" by simp
  have nn: "length ?n = 12" using length_next_nonce [OF assms(5)] .
  have p: "length ?p = n - (et + 2)" "?p \<noteq> []" using e assms(7) by (auto simp flip: length_greater_0_conv)
  obtain c where c: "crypto_pqc_encrypt_payload lib (after_nonce lib st) sess ?n
      (patch (patch b (et + length ?hd) ?p) et ?hd) (et + length ?hd) (length ?p) =
    Some (Some (length ?p + 16), patch b et (?hd @ sealed_payload enc tag (sess_key sess) ?n ?p),
      (after_nonce lib st)\<lparr>tls_enc := Some c\<rparr>)"
    using header_and_seal [OF assms(1) _ sess_load_ok(2) [OF assms(2,3)] nn p(2), of "after_nonce lib st" et ?hd b]
      assms(4,7) e nn p by auto
  have w: "l2_write_wire_header (after_nonce lib st) (patch b (et + 16) ?p) et (ctx_wire_id ctx) ?n =
      Some (patch (patch b (et + 16) ?p) et ?hd)"
    using assms(7) e nn p by (simp add: l2_write_wire_header_def write_wire_header)
  have m: "mmove b (et + 16) (et + 2) (n - (et + 2)) = Some (patch b (et + 16) ?p)"
    using e assms(7) by simp
  show ?thesis
    using assms(3,5,6) e c nn p w m
    by (simp add: l2_do_encrypt_def crypto_eth_l2_prefix_len_def l2_sizes pqc_generate_nonce Let_def
        add.commute [of 16]) auto
qed

section \<open>Decryption\<close>

text \<open>A received frame: \<open>n\<close> bytes, an Ethernet prefix, a header of \<open>length hdr\<close> bytes that starts with a
  recognised type, and what follows.\<close>

definition wire_frame :: "buf \<Rightarrow> nat \<Rightarrow> buf \<Rightarrow> buf \<Rightarrow> buf \<Rightarrow> bool" where
  "wire_frame b n pre hdr body \<longleftrightarrow> n \<le> length b \<and> take n b = pre @ hdr @ body
     \<and> crypto_eth_inner_et_off b n = Some (Some (length pre))"

lemma wire_frame_length:
  "wire_frame b n pre hdr body \<Longrightarrow> n = length pre + length hdr + length body"
  by (auto simp: wire_frame_def dest!: arg_cong [where f = length])

lemma wire_frame_take:
  assumes "wire_frame b n pre hdr body"
  shows "take (length pre) b = pre" "slice b (length pre) (length hdr) = hdr"
    "slice b (length pre + length hdr) (length body) = body"
proof -
  note L = wire_frame_length [OF assms]
  have t: "take n b = pre @ hdr @ body" using assms by (simp add: wire_frame_def)
  show "take (length pre) b = pre" using take_eq_append_take [OF t, of "length pre"] L by simp
  show "slice b (length pre) (length hdr) = hdr" by (rule slice_of_take [OF t]) simp_all
  show "slice b (length pre + length hdr) (length body) = body"
    using t by (intro slice_of_take [of n b "pre @ hdr" body "[]"]) simp_all
qed

lemma wire_header_slices:
  assumes "wire_frame b n pre (wire_header fake pol wk nonce @ rest) body" "length nonce = 12"
  shows "et_at b (length pre) = fake" "b ! (length pre + 2) = pol" "b ! (length pre + 3) = wk"
    "slice b (length pre + 4) 12 = nonce"
    "slice b (length pre + 16) (length rest) = rest"
proof -
  note L = wire_frame_length [OF assms(1)]
  have nb: "n \<le> length b" using assms(1) by (simp add: wire_frame_def)
  have t: "take n b = pre @ be16_bytes fake @ [pol, wk] @ nonce @ rest @ body"
    using assms(1) by (simp add: wire_frame_def wire_header_def)
  have "slice b (length pre) 2 = be16_bytes fake" by (rule slice_of_take [OF t]) simp_all
  then show "et_at b (length pre) = fake" using L nb assms(2) by (intro et_at_slice2) auto
  have nth: "i < n \<Longrightarrow> b ! i = (pre @ be16_bytes fake @ [pol, wk] @ nonce @ rest @ body) ! i" for i
    using t by (metis nth_take)
  show "b ! (length pre + 2) = pol" "b ! (length pre + 3) = wk"
    using nth L assms(2) by (simp_all add: nth_append)
  show "slice b (length pre + 4) 12 = nonce"
    using t assms(2) by (intro slice_of_take [of n b "pre @ be16_bytes fake @ [pol, wk]" nonce "rest @ body"]) simp_all
  show "slice b (length pre + 16) (length rest) = rest"
    using t assms(2) by (intro slice_of_take [of n b "pre @ be16_bytes fake @ [pol, wk] @ nonce" rest body]) simp_all
qed

lemma wire_offsets:
  assumes "crypto_eth_inner_et_off b n = Some (Some et)" "et + 16 \<le> n"
  shows "l2_nonce_off b n = Some (Some (et + 4))" "l2_enc_start_off b n = Some (Some (et + 16))"
    "l2_frag_magic_off b n = Some (Some (et + 16))"
  using assms
  by (simp_all add: l2_frag_magic_off_def l2_enc_start_off_def l2_nonce_off_def l2_core_id_off_def
      l2_policy_off_def crypto_eth_l2_policy_off_def l2_sizes)

text \<open>What decryption needs from the receiver: the sender's key in one of its slots, a CURRENT key of its
  own, and cipher contexts.\<close>

definition can_open :: "('c, 'l) scrypt_lib_scheme \<Rightarrow> (buf \<Rightarrow> buf \<Rightarrow> buf \<Rightarrow> buf) \<Rightarrow> (buf \<Rightarrow> buf \<Rightarrow> buf \<Rightarrow> buf) \<Rightarrow>
    packet_crypto_ctx \<Rightarrow> ('c, 'z) crypto_state_scheme \<Rightarrow> buf \<Rightarrow> buf \<Rightarrow> buf \<Rightarrow> bool" where
  "can_open lib enc tag ctx st k nonce p \<longleftrightarrow> ctx_wf ctx \<and> ctx_initialized ctx \<and> crypto_pqc_sess_load ctx \<noteq> None
     \<and> cipher_ready lib st \<and> k \<in> set (ctx_keys ctx) \<and> keys_told_apart lib enc tag ctx k nonce p"

lemma resilient_wire:
  assumes "scrypt_gcm lib enc tag" "can_open lib enc tag ctx st k nonce p" "key_nonzero k PQC_TRAFFIC_KEY_SZ"
    and "length nonce = 12" "p \<noteq> []" "length p + 16 \<le> 2048"
    and "wire_frame b n pre hdr (sealed_payload enc tag k nonce p)"
  shows "\<exists>c. crypto_pqc_decrypt_payload_resilient lib st ctx nonce b (length pre + length hdr) (n - (length pre + length hdr))
    = Some (Some (length p), patch b (length pre + length hdr) p, st\<lparr>tls_dec := Some c\<rparr>)"
proof -
  have c: "ctx_wf ctx" "cipher_ready lib st" "k \<in> set (ctx_keys ctx)" "keys_told_apart lib enc tag ctx k nonce p"
    using assms(2) by (auto simp: can_open_def)
  then have "length k = 32" by (auto simp: ctx_wf_def key_slot_defs)
  then have s: "length (sealed_payload enc tag k nonce p) = length p + 16"
    using length_sealed_payload [OF assms(1) _ assms(4,5)] by simp
  have L: "n - (length pre + length hdr) = length p + 16" "n \<le> length b"
    using wire_frame_length [OF assms(7)] s assms(7) by (auto simp: wire_frame_def)
  show ?thesis
    using wire_frame_length [OF assms(7)] wire_frame_take(3) [OF assms(7)] s L assms(6)
    by (intro resilient_ok [OF assms(1) c(1,3) assms(3) c(4,2) assms(4,5)]) auto
qed

lemma patch_keeps_prefix:
  assumes "crypto_eth_inner_et_off b n = Some (Some et)" "n \<le> length b" "et + 2 \<le> off" "off + length p \<le> length b"
  shows "crypto_eth_inner_et_off (patch b off p) n = Some (Some et)"
proof -
  have "et + 2 \<le> n" "eth_inner_hit (et_at b et)"
    using inner_et_off_spec [OF assms(2)] assms(1) by (metis option.inject)+
  moreover have "take et (patch b off p) = take et b" using assms(3,4) by (simp add: patch_def)
  moreover have "et_at (patch b off p) et = et_at b et"
    using assms(3,4) by (simp add: et_at_def nth_patch)
  ultimately show ?thesis
    using assms by (intro inner_et_off_retag [OF assms(1,2)]) auto
qed

lemma do_decrypt_ok:
  assumes "scrypt_gcm lib enc tag" "can_open lib enc tag ctx st k nonce p" "key_nonzero k PQC_TRAFFIC_KEY_SZ"
    and "length nonce = 12" "p \<noteq> []" "length p + 16 \<le> 2048"
    and "wire_frame b n pre (wire_header fake pol wk nonce) (sealed_payload enc tag k nonce p)"
    and "take 2 p \<noteq> [8, 0]"
  shows "\<exists>b' c. l2_do_decrypt lib ctx st b n = Some (Some (length pre + 2 + length p), b', st\<lparr>tls_dec := Some c\<rparr>)
    \<and> length b' = length b \<and> take (length pre + 2 + length p) b' = pre @ [8, 0] @ p"
proof -
  let ?et = "length pre" let ?es = "?et + 16"
  have "length k = 32" using assms(2) by (auto simp: can_open_def ctx_wf_def key_slot_defs)
  then have L: "n = ?es + length p + 16" "n \<le> length b"
    using wire_frame_length [OF assms(7)] length_sealed_payload [OF assms(1) _ assms(4,5)] assms(4,7)
    by (auto simp: wire_frame_def)
  have off: "crypto_eth_inner_et_off b n = Some (Some ?et)" using assms(7) by (simp add: wire_frame_def)
  have pre: "take ?et b = pre" using wire_frame_take(1) [OF assms(7)] .
  have nonce: "rdn b (?et + 4) 12 = Some nonce"
    using wire_header_slices(4) [of b n pre fake pol wk nonce "[]"] assms(4,7) L by simp
  obtain c where c: "crypto_pqc_decrypt_payload_resilient lib st ctx nonce b ?es (n - ?es) =
      Some (Some (length p), patch b ?es p, st\<lparr>tls_dec := Some c\<rparr>)"
    using resilient_wire [OF assms(1-7)] assms(4) by auto
  let ?b1 = "patch b ?es p"
  let ?b2 = "patch (patch ?b1 ?et [8, 0]) (?et + 2) p"
  have pref: "crypto_eth_l2_prefix_len ?b1 n = Some (Some ?et)"
    unfolding crypto_eth_l2_prefix_len_def using off L by (intro patch_keeps_prefix) auto
  have p0: "2 \<le> length p \<Longrightarrow> \<not> (?b1 ! ?es = 8 \<and> ?b1 ! (?es + 1) = 0)"
    using assms(8) L by (cases p; cases "tl p") (auto simp: nth_patch)
  have p1: "slice (patch ?b1 ?et [8, 0]) ?es (length p) = p"
    using L by (subst slice_patch_disjoint) (auto simp: slice_patch_same)
  have "l2_restore_plain_packet ?b1 n ?es (length p) = Some (Some (?et + 2 + length p), ?b2)"
    using p0 pref L p1 by (cases "2 \<le> length p") (auto simp: l2_restore_plain_packet_def set_ipv4_et_ok Let_def)
  moreover have "take (?et + 2 + length p) ?b2 = pre @ [8, 0] @ p"
  proof -
    have "?b2 = patch ?b1 ?et ([8, 0] @ p)" using patch_append [of ?et "[8, 0]" p ?b1] L by simp
    then show ?thesis using L pre by (simp add: take_patch) (simp add: patch_def)
  qed
  moreover obtain sess where "crypto_pqc_sess_load ctx = Some sess" using assms(2) by (auto simp: can_open_def)
  moreover have "l2_enc_start_off b n = Some (Some ?es)" "l2_nonce_off b n = Some (Some (?et + 4))"
    using wire_offsets [OF off] L(1) by simp_all
  moreover have "length ?b2 = length b" using L by simp
  ultimately show ?thesis using c nonce by (auto simp: l2_do_decrypt_def L2_NONCE_SIZE_def)
qed

section \<open>The encrypted frame at the receiver\<close>

text \<open>A frame that holds the bytes sent is a wire frame with the prefix of the original packet.\<close>

lemma sent_wire_frame:
  assumes "crypto_eth_inner_et_off b n = Some (Some et)" "n \<le> length b"
    and "eth_inner_hit fake" "m = et + length hdr + length body" "m \<le> length b"
    and "take m b' = take m (patch b et (hdr @ body))" "m \<le> length b'"
    and "hdr = be16_bytes fake @ rest"
  shows "wire_frame b' m (take et b) hdr body"
proof -
  have et: "et + 2 \<le> n" using inner_et_off_spec [OF assms(2)] assms(1) by (metis option.inject)
  have t: "take m b' = take et b @ hdr @ body"
    using assms(4-6) by (simp add: take_patch)
  have pre: "take et b' = take et b"
    using take_eq_append_take [OF t, of et] assms(4,5) by (simp add: min_def)
  have "slice b' et 2 = be16_bytes fake"
    using t assms(4,5,8) by (intro slice_of_take [of m b' "take et b" _ "rest @ body"]) auto
  then have "et_at b' et = fake" using assms(4,7,8) by (intro et_at_slice2) auto
  then have "crypto_eth_inner_et_off b' m = Some (Some et)"
    using assms(3,4,7,8) pre by (intro inner_et_off_retag [OF assms(1,2)]) auto
  then show ?thesis using t assms(4,5,7) by (simp add: wire_frame_def min_def)
qed

lemma packet_parts:
  assumes "et + 2 \<le> n" "n \<le> length b" "et_at b et = w"
  shows "take n b = take et b @ be16_bytes w @ slice b (et + 2) (n - (et + 2))"
proof -
  have "n = et + (2 + (n - (et + 2)))" using assms(1) by simp
  then have "take n b = take et b @ slice b et (2 + (n - (et + 2)))" unfolding slice_def by (metis take_add)
  also have "slice b et (2 + (n - (et + 2))) = slice b et 2 @ slice b (et + 2) (n - (et + 2))"
    by (rule slice_split) simp
  also have "slice b et 2 = be16_bytes w" using et_at_bytes [of et b] assms by simp
  finally show ?thesis .
qed

section \<open>Round trip of IPv4 frames\<close>

text \<open>The conditions under which a peer can send and the other can receive.\<close>

definition can_seal :: "('c, 'l) scrypt_lib_scheme \<Rightarrow> packet_crypto_ctx \<Rightarrow> ('c, 'z) crypto_state_scheme \<Rightarrow> buf \<Rightarrow> bool" where
  "can_seal lib ctx st k \<longleftrightarrow> ctx_wf ctx \<and> ctx_initialized ctx \<and> cipher_ready lib st \<and> salt_ready lib st
     \<and> map_option sess_key (crypto_pqc_sess_load ctx) = Some k"

lemma can_sealD:
  assumes "can_seal lib ctx st k"
  obtains sess where "crypto_pqc_sess_load ctx = Some sess" "sess_key sess = k" "length k = 32"
    "key_nonzero k PQC_TRAFFIC_KEY_SZ" "ctx_wf ctx" "ctx_initialized ctx" "cipher_ready lib st" "salt_ready lib st"
proof -
  obtain sess where "crypto_pqc_sess_load ctx = Some sess" "sess_key sess = k" "ctx_wf ctx"
    using assms by (auto simp: can_seal_def)
  with sess_load_ok(2,3) [of ctx sess] assms show ?thesis by (intro that [of sess]) (auto simp: can_seal_def)
qed

text \<open>C3: A TCP packet that is encrypted in place by one peer and decrypted in place by the other, in any
  frame that holds the bytes sent, comes out byte for byte as it went in, with its length; on the wire it
  is 30 bytes longer. No access leaves the frame. The receiver needs the sender's key in any of its slots.
  An IPv4 header never starts with the bytes 08 00, which the receiver would take for a type field.\<close>

theorem l2_plain_roundtrip:
  assumes "scrypt_gcm lib enc tag" "can_seal lib sctx st k"
    and "crypto_eth_ipv4_offset pkt len = Some (Some l3)" "length pkt = NE_FRAME" "len + 30 \<le> NE_FRAME"
    and "can_open lib enc tag rctx st' k (next_nonce lib st) (slice pkt l3 (len - l3))"
    and "slice pkt l3 2 \<noteq> [8, 0]"
  shows "\<exists>sent st1. l2_tcp_encrypt lib sctx st pkt len = Some (0, len + 30, sent, st1)
    \<and> (\<forall>frame. length frame = NE_FRAME \<and> take (len + 30) frame = take (len + 30) sent \<longrightarrow>
        (\<exists>frame' st2. l2_tcp_decrypt lib rctx st' frame (len + 30) = Some (0, len, frame', st2)
          \<and> take len frame' = take len pkt))"
proof -
  obtain sess where s: "crypto_pqc_sess_load sctx = Some sess" "sess_key sess = k" "length k = 32"
    "key_nonzero k PQC_TRAFFIC_KEY_SZ" "ctx_wf sctx" "ctx_initialized sctx" "cipher_ready lib st" "salt_ready lib st"
    using can_sealD [OF assms(2)] by blast
  have lp: "len \<le> length pkt" "len + 30 \<le> length pkt" using assms(4,5) by auto
  obtain et where et: "l3 = et + 2" "crypto_eth_inner_et_off pkt len = Some (Some et)" "et + 22 \<le> len"
    "et_at pkt et = ETH_P_IP" "et = 12 \<or> et = 16" using ipv4_offsetD [OF assms(3) lp(1)] by metis
  let ?n = "next_nonce lib st" and ?p = "slice pkt l3 (len - l3)"
  let ?hdr = "wire_header NE_L2_FAKE_ETHERTYPE (ctx_wire_id sctx) (g_worker_idx st) ?n"
  let ?body = "sealed_payload enc tag k ?n ?p"
  let ?sent = "patch pkt et (?hdr @ ?body)"
  have nn: "length ?n = 12" using length_next_nonce [OF s(8)] .
  have p: "length ?p = len - l3" "?p \<noteq> []" "length ?p + 16 \<le> 2048"
    using et lp assms(5) by (auto simp: NE_FRAME_def simp flip: length_greater_0_conv)
  have lb: "length ?body = length ?p + 16" using length_sealed_payload [OF assms(1) s(3) nn p(2)] .
  obtain c where c: "l2_do_encrypt lib sctx st pkt len =
      Some (Some (len + 30), ?sent, (after_nonce lib st)\<lparr>tls_enc := Some c\<rparr>)"
    using do_encrypt_ok [OF assms(1) s(5,1,7,8), of pkt len et] assms(3) lp(2) et(1) s(2) by auto
  then have enc: "l2_tcp_encrypt lib sctx st pkt len = Some (0, len + 30, ?sent, (after_nonce lib st)\<lparr>tls_enc := Some c\<rparr>)"
    using s(6) assms(3) et(3) by (simp add: l2_tcp_encrypt_def crypto_pkt_is_ipv4_def len_result_def l2_sizes)
  have "\<exists>frame' st2. l2_tcp_decrypt lib rctx st' frame (len + 30) = Some (0, len, frame', st2)
      \<and> take len frame' = take len pkt"
    if f: "length frame = NE_FRAME" "take (len + 30) frame = take (len + 30) ?sent" for frame
  proof -
    have w: "wire_frame frame (len + 30) (take et pkt) ?hdr ?body"
      using et lp f assms(4) nn p lb
      by (intro sent_wire_frame [OF et(2) lp(1), of NE_L2_FAKE_ETHERTYPE])
        (auto simp: wire_header_def)
    have lpre: "length (take et pkt) = et" using et lp by simp
    have t2: "take 2 ?p \<noteq> [8, 0]"
      using assms(7) et lp by (simp add: slice_def min_def) 
    obtain frame' c where d: "l2_do_decrypt lib rctx st' frame (len + 30) =
        Some (Some (et + 2 + length ?p), frame', st'\<lparr>tls_dec := Some c\<rparr>)"
      "take (et + 2 + length ?p) frame' = take et pkt @ [8, 0] @ ?p"
      using do_decrypt_ok [OF assms(1,6) s(4) nn p(2,3) w t2] lpre by metis
    have "et_at frame et = NE_L2_FAKE_ETHERTYPE"
      using wire_header_slices(1) [of frame "len + 30" "take et pkt" NE_L2_FAKE_ETHERTYPE _ _ ?n "[]"] w nn lpre by simp
    then have "crypto_eth_l2_has_marker frame (len + 30) = Some True"
      using w lpre f assms(4,5) et by (simp add: crypto_eth_l2_has_marker_def wire_frame_def)
    moreover have len: "et + 2 + length ?p = len" using et p(1) by simp
    moreover have "take len frame' = take len pkt"
      using d(2) [unfolded len] packet_parts [OF _ lp(1) et(4)] et(1,3) by (simp add: ipv4_et_bytes)
    moreover have "ctx_initialized rctx" using assms(6) by (simp add: can_open_def)
    ultimately show ?thesis using d(1) by (auto simp: l2_tcp_decrypt_def len_result_def)
  qed
  with enc show ?thesis by blast
qed

definition example_l2 :: "(bool \<times> buf \<times> buf) l2_state" where
  "example_l2 = \<lparr>g_pqc_initialized = True, tls_pqc_salt = [], tls_pqc_counter = 0, tls_salt_initialized = False,
     tls_enc = None, tls_dec = None, g_worker_idx = 3, g_opt_frag_mtu = 1500, g_udp_epoch = 77, g_udp_tx_seq = 5,
     g_udp_tx_datagram_id = 9, g_udp_tx_datagram_clock = 10, g_udp_rx_epoch = 0, g_udp_rx_seq = 0,
     g_udp_tx_valid = True, g_udp_rx_valid = False, g_tables = \<lambda>_ _. None\<rparr>"

definition example_env :: os_env where
  "example_env = \<lparr>env_getrandom = None, env_real_sec = 0, env_real_nsec = 0, env_pid = 0, env_epoch_at_cas = 0,
     env_mono_sec = 0, env_mono_nsec = 0, env_calloc_ok = True\<rparr>"

text \<open>A frame with an Ethernet header of type IPv4, then the given bytes.\<close>

definition example_pkt :: "buf \<Rightarrow> buf" where
  "example_pkt xs = replicate 12 1 @ [8, 0] @ xs @ replicate (2034 - length xs) 0"

lemma length_example_pkt [simp]: "length xs \<le> 2034 \<Longrightarrow> length (example_pkt xs) = NE_FRAME"
  by (simp add: example_pkt_def NE_FRAME_def)

lemma example_ipv4:
  assumes "20 \<le> length xs" "length xs \<le> 2034"
  shows "crypto_eth_ipv4_offset (example_pkt xs) (14 + length xs) = Some (Some 14)"
proof -
  have "et_at (example_pkt xs) 12 = ETH_P_IP"
    by (simp add: et_at_def example_pkt_def nth_append be16_def ETH_P_IP_def)
  moreover have "crypto_eth_inner_et_off (example_pkt xs) (14 + length xs) = Some (Some 12)"
    using assms calculation by (simp add: crypto_eth_inner_et_off_def NE_FRAME_def)
  ultimately show ?thesis
    using ipv4_offsetI [of "example_pkt xs" "14 + length xs" 12] assms by (simp add: NE_FRAME_def)
qed

lemma example_payload: "length xs \<le> 2034 \<Longrightarrow> m \<le> length xs \<Longrightarrow> slice (example_pkt xs) 14 m = take m xs"
  by (simp add: slice_def example_pkt_def)

lemma example_l2_ready [simp]: "cipher_ready xor_lib example_l2" "salt_ready xor_lib example_l2"
  by (simp_all add: cipher_ready_def salt_ready_def xor_lib_def example_l2_def)

lemma example_ctx_simps [simp]:
  "ctx_initialized (example_ctx a b c)" "ctx_keys (example_ctx a b c) = [replicate 32 a, replicate 32 b, replicate 32 c]"
  by (simp_all add: example_ctx_def)

lemma example_can_seal: "b \<noteq> 0 \<Longrightarrow> can_seal xor_lib (example_ctx a b c) example_l2 (replicate 32 b)"
  by (simp add: can_seal_def example_sess_load)

lemma example_can_open:
  assumes "b \<noteq> 0" "k = a \<or> k = b \<or> k = c" "cipher_ready xor_lib st"
  shows "can_open xor_lib xor_enc xor_tag (example_ctx a b c) st (replicate 32 k) n p"
  using assms by (auto simp: can_open_def example_sess_load example_told_apart)

theorem l2_plain_roundtrip_witness:
  "\<exists>sent st1. l2_tcp_encrypt xor_lib (example_ctx 0 2 0) example_l2 (example_pkt (0x45 # replicate 30 6)) 45
      = Some (0, 45 + 30, sent, st1)
    \<and> (\<forall>frame. length frame = NE_FRAME \<and> take (45 + 30) frame = take (45 + 30) sent \<longrightarrow>
        (\<exists>frame' st2. l2_tcp_decrypt xor_lib (example_ctx 2 4 0) example_l2 frame (45 + 30) = Some (0, 45, frame', st2)
          \<and> take 45 frame' = take 45 (example_pkt (0x45 # replicate 30 6))))"
proof (rule l2_plain_roundtrip [of xor_lib xor_enc xor_tag "example_ctx 0 2 0" example_l2 "replicate 32 2" _ 45 14, OF xor_lib_gcm])
  let ?xs = "0x45 # replicate 30 6 :: buf"
  show "can_seal xor_lib (example_ctx 0 2 0) example_l2 (replicate 32 2)" by (rule example_can_seal) simp
  show "crypto_eth_ipv4_offset (example_pkt ?xs) 45 = Some (Some 14)" using example_ipv4 [of ?xs] by simp
  show "slice (example_pkt ?xs) 14 2 \<noteq> [8, 0]" using example_payload [of ?xs 2] by (simp add: take_Cons')
  show "length (example_pkt ?xs) = NE_FRAME" by simp
  show "45 + 30 \<le> NE_FRAME" by (simp add: NE_FRAME_def)
  show "can_open xor_lib xor_enc xor_tag (example_ctx 2 4 0) example_l2 (replicate 32 2) (next_nonce xor_lib example_l2)
      (slice (example_pkt ?xs) 14 (45 - 14))" by (rule example_can_open) simp_all
qed

end
