(* ===== verification/L2_Udp.thy ===== *)
theory L2_Udp
  imports L2_Correct
begin

text \<open>
  Correctness of the UDP side of the layer-2 option: the authenticated shim, whole datagrams, the split of
  a datagram into two fragments, and reassembly in either order of arrival.
\<close>

section \<open>The shim\<close>

definition udp_kinds :: "u8 set" where
  "udp_kinds = {L2_UDP_KIND_FRAG0, L2_UDP_KIND_FRAG1, L2_UDP_KIND_FULL}"

lemmas udp_kind_defs = L2_UDP_KIND_FRAG0_def L2_UDP_KIND_FRAG1_def L2_UDP_KIND_FULL_def

lemma length_shim [simp]: "length (shim_bytes kind e s d) = 13"
  by (simp add: shim_bytes_def)

lemma shim_first_byte:
  "kind \<in> udp_kinds \<Longrightarrow> drop_bit 4 (push_bit 4 1 OR (kind AND 0x0f)) = (1 :: u8) \<and> (push_bit 4 1 OR (kind AND 0x0f)) AND 0x0f = kind"
  by (auto simp: udp_kinds_def udp_kind_defs)

lemma rd_be32_ok: "off + 4 \<le> length b \<Longrightarrow> slice b off 4 = be32_bytes x \<Longrightarrow> rd_be32 b off = Some x"
proof -
  assume a: "off + 4 \<le> length b" "slice b off 4 = be32_bytes x"
  have "b ! (off + i) = be32_bytes x ! i" if "i < 4" for i using nth_slice [OF a(1) that] a(2) by simp
  from this [of 0] this [of 1] this [of 2] this [of 3] show ?thesis
    using a(1) by (simp add: rd_be32_def be32_bytes_def)
qed

lemma read_shim_ok:
  assumes "kind \<in> udp_kinds" "off + 13 \<le> length b" "slice b off 13 = shim_bytes kind e s d"
  shows "l2_udp_read_shim b off = Some (Some (kind, e, s, d))"
proof -
  have part: "slice b (off + i) m = slice (shim_bytes kind e s d) i m" if "i + m \<le> 13" for i m
    using slice_slice [OF that, of b off] assms(3) by simp
  have "b ! off = shim_bytes kind e s d ! 0" using nth_slice [OF assms(2), of 0] assms(3) by simp
  then have b0: "b ! off = push_bit 4 1 OR (kind AND 0x0f)" by (simp add: shim_bytes_def)
  have "rd_be32 b (off + 1) = Some e" "rd_be32 b (off + 5) = Some s" "rd_be32 b (off + 9) = Some d"
    using part [of 1 4] part [of 5 4] part [of 9 4] assms(2)
    by (auto intro!: rd_be32_ok simp: shim_bytes_def slice_def be32_bytes_def take_Cons' drop_Cons')
  moreover have "\<not> kind > L2_UDP_KIND_FULL" using assms(1) by (auto simp: udp_kinds_def udp_kind_defs)
  ultimately show ?thesis
    using shim_first_byte [OF assms(1)] assms(2) by (simp add: l2_udp_read_shim_def b0 Let_def)
qed

section \<open>Sealing\<close>

text \<open>Running a definition of the model step by step, without normalising the offsets in between.\<close>

lemmas run_simps = Option.bind.simps option.case prod.case if_False if_True Let_def option.map not_False_eq_True simp_thms

definition udp_header :: "u8 \<Rightarrow> u8 \<Rightarrow> buf \<Rightarrow> buf" where
  "udp_header pol worker nonce = wire_header NE_L2_FAKE_ETHERTYPE_UDP pol worker nonce @ l2_udp_marker"

lemma length_udp_header [simp]: "length (udp_header pol worker nonce) = 8 + length nonce"
  by (simp add: udp_header_def l2_udp_marker_def)

lemma tx_meta_state:
  assumes "crypto_option_udp_tx_meta env st = (Some m, st1)"
  obtains e where "st1 = st\<lparr>g_udp_epoch := e\<rparr>"
proof (cases "g_udp_epoch st = 0")
  case False
  with assms show ?thesis
    by (intro that [of "g_udp_epoch st"])
      (auto simp: crypto_option_udp_tx_meta_def crypto_option_udp_epoch_def Let_def split: if_splits)
next
  case True
  with assms show ?thesis
    by (auto simp: crypto_option_udp_tx_meta_def crypto_option_udp_epoch_def Let_def split: if_splits intro: that)
qed

lemma udp_epoch_simps [simp]:
  "cipher_ready lib (st\<lparr>g_udp_epoch := e\<rparr>) = cipher_ready lib st"
  "salt_ready lib (st\<lparr>g_udp_epoch := e\<rparr>) = salt_ready lib st"
  "next_nonce lib (st\<lparr>g_udp_epoch := e\<rparr>) = next_nonce lib st"
  by (simp_all add: cipher_ready_def salt_ready_def next_nonce_def nonce_salt_def)

lemma udp_seal:
  assumes "scrypt_gcm lib enc tag" "cipher_ready lib st" "length (sess_key sess) = 32" "length nonce = 12"
    and "p \<noteq> []" "et + 20 + length p + 16 \<le> length b"
  shows "\<exists>c. do { pkt \<leftarrow> l2_write_wire_header_et st (patch b (et + 20) p) et NE_L2_FAKE_ETHERTYPE_UDP pol nonce;
        pkt \<leftarrow> l2_udp_marker_write pkt (et + 16);
        crypto_pqc_encrypt_payload lib st sess nonce pkt (et + 20) (length p) } =
    Some (Some (length p + 16), patch b et (udp_header pol (g_worker_idx st) nonce
      @ sealed_payload enc tag (sess_key sess) nonce p), st\<lparr>tls_enc := Some c\<rparr>)"
proof -
  let ?wh = "wire_header NE_L2_FAKE_ETHERTYPE_UDP pol (g_worker_idx st) nonce"
  let ?h = "udp_header pol (g_worker_idx st) nonce"
  have h: "length ?h = 20" using assms(4) by simp
  have "l2_write_wire_header_et st (patch b (et + 20) p) et NE_L2_FAKE_ETHERTYPE_UDP pol nonce =
      Some (patch (patch b (et + 20) p) et ?wh)"
    using assms(4,6) by (intro write_wire_header) simp
  moreover have "l2_udp_marker_write (patch (patch b (et + 20) p) et ?wh) (et + 16) =
      Some (patch (patch b (et + 20) p) et ?h)"
    using patch_append [of et ?wh l2_udp_marker "patch b (et + 20) p"] assms(4,6)
    by (simp add: l2_udp_marker_write_def udp_header_def l2_udp_marker_def)
  ultimately show ?thesis
    using header_and_seal [OF assms(1-5), of et ?h b] assms(4,6) h by simp
qed

lemma shim_and_payload:
  assumes "l3 + m \<le> length b" "es + 13 + m \<le> length b"
  shows "do { pkt \<leftarrow> mmove b (es + 13) l3 m; l2_udp_write_shim pkt es kind e s d } =
    Some (patch b es (shim_bytes kind e s d @ slice b l3 m))"
  using assms patch_before [of es "shim_bytes kind e s d" "slice b l3 m" b]
  by (simp add: l2_udp_write_shim_def)

lemma do_encrypt_udp_ok:
  assumes "scrypt_gcm lib enc tag" "ctx_wf ctx" "crypto_pqc_sess_load ctx = Some sess"
    and "cipher_ready lib st" "salt_ready lib st"
    and "crypto_option_udp_tx_meta env st = (Some (epoch, seqno, did), st1)"
    and "crypto_eth_ipv4_offset b n = Some (Some (et + 2))" "length b = NE_FRAME" "n + 47 \<le> NE_FRAME"
  shows "\<exists>c. l2_do_encrypt_udp lib env ctx st b n = Some (Some (n + 47),
    patch b et (udp_header (ctx_wire_id ctx) (g_worker_idx st) (next_nonce lib st)
      @ sealed_payload enc tag (sess_key sess) (next_nonce lib st)
          (shim_bytes L2_UDP_KIND_FULL epoch seqno did @ slice b (et + 2) (n - (et + 2)))),
    (after_nonce lib st1)\<lparr>tls_enc := Some c\<rparr>)"
proof -
  let ?n = "next_nonce lib st" and ?q = "slice b (et + 2) (n - (et + 2))"
  let ?p = "shim_bytes L2_UDP_KIND_FULL epoch seqno did @ ?q"
  obtain et' where e: "et + 2 = et' + 2" "crypto_eth_inner_et_off b n = Some (Some et')" "et' + 22 \<le> n"
    using ipv4_offsetD [OF assms(7)] assms(8,9) by (metis add_leD1)
  then have [simp]: "et' = et" by simp
  obtain ep where st1: "st1 = st\<lparr>g_udp_epoch := ep\<rparr>" using tx_meta_state [OF assms(6)] .
  have nn: "length ?n = 12" using length_next_nonce [OF assms(5)] .
  have p: "length ?p = 13 + (n - (et + 2))" "?p \<noteq> []" using e assms(8,9) by (auto simp: shim_bytes_def)
  have room: "et + 20 + length ?p + 16 = n + 47" using p(1) e(3) by simp
  obtain c where c: "do { pkt \<leftarrow> l2_write_wire_header_et (after_nonce lib st1) (patch b (et + 20) ?p) et
          NE_L2_FAKE_ETHERTYPE_UDP (ctx_wire_id ctx) ?n;
        pkt \<leftarrow> l2_udp_marker_write pkt (et + 16);
        crypto_pqc_encrypt_payload lib (after_nonce lib st1) sess ?n pkt (et + 20) (length ?p) } =
    Some (Some (length ?p + 16), patch b et (udp_header (ctx_wire_id ctx) (g_worker_idx st) ?n
      @ sealed_payload enc tag (sess_key sess) ?n ?p), (after_nonce lib st1)\<lparr>tls_enc := Some c\<rparr>)"
    using udp_seal [OF assms(1) _ sess_load_ok(2) [OF assms(2,3)] nn p(2), of "after_nonce lib st1" et b "ctx_wire_id ctx"]
      assms(4,8,9) st1 room by auto
  have sh: "do { pkt \<leftarrow> mmove b (et + 20 + 13) (et + 2) (n - (et + 2));
      l2_udp_write_shim pkt (et + 20) L2_UDP_KIND_FULL epoch seqno did } = Some (patch b (et + 20) ?p)"
    using e(3) assms(8,9) by (intro shim_and_payload) auto
  obtain b1 where b1: "mmove b (et + 20 + 13) (et + 2) (n - (et + 2)) = Some b1"
    "l2_udp_write_shim b1 (et + 20) L2_UDP_KIND_FULL epoch seqno did = Some (patch b (et + 20) ?p)"
    using sh by (auto simp: bind_eq_Some_conv)
  have offs: "et + 2 + 1 + 1 + L2_NONCE_SIZE = et + 16" "et + 16 + L2_UDP_MARKER_SIZE = et + 20"
    "et + 20 + length ?p + AES_GCM_TAG_SIZE = n + 47"
    "L2_UDP_SHIM_SIZE + (n - (et + 2)) = length ?p" "et + 20 + L2_UDP_SHIM_SIZE = et + 20 + 13"
    using e(3) p(1) by (auto simp: l2_sizes)
  have gen: "crypto_pqc_generate_nonce lib st1 = (Some ?n, after_nonce lib st1)"
    using pqc_generate_nonce [of lib st1] assms(5) st1 by simp
  have fit: "\<not> n + 47 > NE_FRAME" using assms(9) by simp
  obtain b2 b3 where w: "l2_write_wire_header_et (after_nonce lib st1) (patch b (et + 20) ?p) et
      NE_L2_FAKE_ETHERTYPE_UDP (ctx_wire_id ctx) ?n = Some b2" "l2_udp_marker_write b2 (et + 16) = Some b3"
    "crypto_pqc_encrypt_payload lib (after_nonce lib st1) sess ?n b3 (et + 20) (length ?p) =
      Some (Some (length ?p + 16), patch b et (udp_header (ctx_wire_id ctx) (g_worker_idx st) ?n
        @ sealed_payload enc tag (sess_key sess) ?n ?p), (after_nonce lib st1)\<lparr>tls_enc := Some c\<rparr>)"
    using c by (auto simp: bind_eq_Some_conv)
  have new: "et + 20 + (length ?p + 16) = n + 47" using room by simp
  show ?thesis
    by (rule exI [of _ c]) (simp only: l2_do_encrypt_udp_def crypto_eth_l2_prefix_len_def assms(3,6,7) e(2) \<open>et' = et\<close>
        run_simps offs fit b1 gen w new)
qed

section \<open>Opening\<close>

lemma udp_frame_marker:
  assumes "wire_frame b n pre (udp_header pol wk nonce) body" "length nonce = 12"
  shows "l2_udp_marker_match b n (Some (length pre + 16)) = Some True"
    "et_at b (length pre) = NE_L2_FAKE_ETHERTYPE_UDP" "rdn b (length pre + 4) 12 = Some nonce"
    "b ! (length pre + 2) = pol" "b ! (length pre + 3) = wk"
proof -
  have w: "wire_frame b n pre (wire_header NE_L2_FAKE_ETHERTYPE_UDP pol wk nonce @ l2_udp_marker) body"
    using assms(1) by (simp add: udp_header_def)
  have L: "length pre + 20 \<le> n" "n \<le> length b"
    using wire_frame_length [OF assms(1)] assms by (auto simp: wire_frame_def)
  have m: "length l2_udp_marker = 4" by (simp add: l2_udp_marker_def)
  have "slice b (length pre + 16) 4 = l2_udp_marker" using wire_header_slices(5) [OF w assms(2)] m by simp
  then show "l2_udp_marker_match b n (Some (length pre + 16)) = Some True"
    using L by (simp add: l2_udp_marker_match_def L2_UDP_MARKER_SIZE_def)
  show "et_at b (length pre) = NE_L2_FAKE_ETHERTYPE_UDP" "b ! (length pre + 2) = pol" "b ! (length pre + 3) = wk"
    using wire_header_slices(1-3) [OF w assms(2)] .
  show "rdn b (length pre + 4) 12 = Some nonce" using wire_header_slices(4) [OF w assms(2)] L by simp
qed

text \<open>The type field after decryption: only a whole datagram gets its IPv4 type back here.\<close>

definition opened_type :: "u8 \<Rightarrow> buf" where
  "opened_type kind = (if kind = L2_UDP_KIND_FULL then [8, 0] else be16_bytes NE_L2_FAKE_ETHERTYPE_UDP)"

lemma do_decrypt_udp_ok:
  assumes "scrypt_gcm lib enc tag" "can_open lib enc tag ctx st k nonce (shim_bytes kind e s d @ q)"
    and "key_nonzero k PQC_TRAFFIC_KEY_SZ" "length nonce = 12" "kind \<in> udp_kinds"
    and "length q + 29 \<le> 2048"
    and "wire_frame b n pre (udp_header pol wk nonce) (sealed_payload enc tag k nonce (shim_bytes kind e s d @ q))"
  shows "\<exists>b' c. l2_do_decrypt_udp lib ctx st b n =
      Some (Some (length pre + 2 + length q, e, s, d, kind), b', st\<lparr>tls_dec := Some c\<rparr>)
    \<and> length b' = length b \<and> take (length pre + 2 + length q) b' = pre @ opened_type kind @ q"
proof -
  let ?et = "length pre" let ?es = "?et + 20" let ?p = "shim_bytes kind e s d @ q"
  have p: "?p \<noteq> []" "length ?p = 13 + length q" by (auto simp: shim_bytes_def)
  have "length k = 32" using assms(2) by (auto simp: can_open_def ctx_wf_def key_slot_defs)
  then have L: "n = ?es + length ?p + 16" "n \<le> length b"
    using wire_frame_length [OF assms(7)] length_sealed_payload [OF assms(1) _ assms(4) p(1)] assms(4,7)
    by (auto simp: wire_frame_def)
  have off: "crypto_eth_inner_et_off b n = Some (Some ?et)" using assms(7) by (simp add: wire_frame_def)
  have pre: "take ?et b = pre" using wire_frame_take(1) [OF assms(7)] .
  note M = udp_frame_marker [OF assms(7,4)]
  obtain c where c: "crypto_pqc_decrypt_payload_resilient lib st ctx nonce b ?es (n - ?es) =
      Some (Some (length ?p), patch b ?es ?p, st\<lparr>tls_dec := Some c\<rparr>)"
    using resilient_wire [OF assms(1-4) p(1) _ assms(7)] assms(4,6) p(2) by auto
  let ?b1 = "patch b ?es ?p"
  have pl: "length ?b1 = length b" using L by simp
  have shim: "l2_udp_read_shim ?b1 ?es = Some (Some (kind, e, s, d))"
  proof (rule read_shim_ok [OF assms(5)])
    have "slice ?b1 ?es 13 = slice ?p 0 13" using slice_patch_inside [of ?es ?p b ?es 13] L p(2) by simp
    then show "slice ?b1 ?es 13 = shim_bytes kind e s d" by (simp add: slice_def)
  qed (use L p(2) pl in simp)
  have pref: "crypto_eth_inner_et_off ?b1 n = Some (Some ?et)"
    using off L p(2) by (intro patch_keeps_prefix) auto
  have "slice ?b1 (?es + 13) (length q) = slice ?p 13 (length q)"
    using slice_patch_inside [of ?es ?p b "?es + 13" "length q"] L p(2) by simp
  then have q: "slice ?b1 (?es + 13) (length q) = q" by (simp add: slice_def)
  have mv: "mmove ?b1 (?et + 2) (?es + 13) (length q) = Some (patch ?b1 (?et + 2) q)"
    using mmove_ok [of "?es + 13" "length q" ?b1 "?et + 2"] q L p(2) pl by simp
  let ?b2 = "if kind = L2_UDP_KIND_FULL then patch (patch ?b1 (?et + 2) q) ?et [8, 0] else patch ?b1 (?et + 2) q"
  have set: "(if kind = L2_UDP_KIND_FULL then crypto_eth_set_ipv4_et (patch ?b1 (?et + 2) q) (?et + 2 - 2)
      else Some (patch ?b1 (?et + 2) q)) = Some ?b2"
    using L p(2) by (simp add: set_ipv4_et_ok)
  have ty: "slice ?b1 ?et 2 = be16_bytes NE_L2_FAKE_ETHERTYPE_UDP"
    using et_at_bytes [of ?et b] M(2) L slice_patch_disjoint [of ?es ?p b ?et 2] p(2) by simp
  have "take (?et + 2 + length q) ?b2 = pre @ opened_type kind @ q"
  proof (cases "kind = L2_UDP_KIND_FULL")
    case True
    have "patch (patch ?b1 (?et + 2) q) ?et [8, 0] = patch ?b1 ?et ([8, 0] @ q)"
      using patch_before [of ?et "[8, 0]" q ?b1] L p(2) pl by simp
    then show ?thesis using True L p(2) pre pl
      by (simp add: take_patch opened_type_def) (simp add: patch_def)
  next
    case False
    have "take (?et + 2 + length q) (patch ?b1 (?et + 2) q) = take (?et + 2) ?b1 @ q"
      using L p(2) pl by (intro take_patch) auto
    also have "take (?et + 2) ?b1 = take ?et ?b1 @ slice ?b1 ?et 2" by (simp only: take_add slice_def)
    also have "take ?et ?b1 = pre" using pre L by (simp add: patch_def)
    finally show ?thesis using False ty by (simp add: opened_type_def)
  qed
  moreover have "length ?b2 = length b" using L p(2) pl by simp
  moreover obtain sess where "crypto_pqc_sess_load ctx = Some sess" using assms(2) by (auto simp: can_open_def)
  moreover have "l2_frag_magic_off b n = Some (Some (?et + 16))" "l2_nonce_off b n = Some (Some (?et + 4))"
    using wire_offsets [OF off] L(1) by simp_all
  moreover have "?et + 16 + L2_UDP_MARKER_SIZE = ?es" "\<not> n < ?es + L2_UDP_SHIM_SIZE + AES_GCM_TAG_SIZE"
    "\<not> length ?p < L2_UDP_SHIM_SIZE" "length ?p - L2_UDP_SHIM_SIZE = length q" "?es + L2_UDP_SHIM_SIZE = ?es + 13"
    using L(1) p(2) by (simp_all add: l2_sizes)
  ultimately show ?thesis
    by (intro exI [of _ ?b2] exI [of _ c] conjI)
      (simp_all only: l2_do_decrypt_udp_def crypto_eth_l2_prefix_len_def M c shim pref mv set run_simps L2_NONCE_SIZE_def)
qed

end
