(* ===== verification/L2_Reassembly.thy ===== *)
theory L2_Reassembly
  imports L2_Udp
begin

text \<open>
  Splitting a UDP datagram and joining the two halves again: both fragments within the computed sizes,
  and reassembly in either order of arrival gives back the packet.
\<close>

section \<open>The half that waits\<close>

definition same_datagram :: "u32 \<Rightarrow> u32 \<Rightarrow> opt_entry \<Rightarrow> bool" where
  "same_datagram e d x \<longleftrightarrow> en_epoch x = e \<and> en_datagram_id x = d"

text \<open>The table holds one half of a datagram, stored at time \<open>now\<close>, and nothing else of that datagram in
  its probe window.\<close>

definition waiting :: "opt_entries \<Rightarrow> u32 \<Rightarrow> u32 \<Rightarrow> u32 \<Rightarrow> u64 \<Rightarrow> nat \<Rightarrow> bool" where
  "waiting es e d s now idx \<longleftrightarrow> idx \<in> set (probe_window e d) \<and> en_wf (es idx) \<and> en_occupied (es idx)
     \<and> same_datagram e d (es idx) \<and> en_bond_seq (es idx) = s \<and> en_timestamp_ns (es idx) = now
     \<and> (\<forall>i \<in> set (probe_window e d). i \<noteq> idx \<longrightarrow> en_occupied (es i) \<longrightarrow> \<not> same_datagram e d (es i))"

definition has_first :: "opt_entry \<Rightarrow> buf \<Rightarrow> buf \<Rightarrow> bool" where
  "has_first x h q \<longleftrightarrow> en_got_first x \<and> unat (en_eth_len x) = length h \<and> take (length h) (en_eth_hdr x) = h
     \<and> en_first_len x = length q \<and> take (length q) (en_first x) = q"

definition has_second :: "opt_entry \<Rightarrow> buf \<Rightarrow> bool" where
  "has_second x q \<longleftrightarrow> en_got_second x \<and> en_second_len x = length q \<and> take (length q) (en_second x) = q"

lemma prepare_fields [simp]:
  "en_epoch (opt_prepare_entry x e d s now) = e" "en_datagram_id (opt_prepare_entry x e d s now) = d"
  "en_bond_seq (opt_prepare_entry x e d s now) = s" "en_timestamp_ns (opt_prepare_entry x e d s now) = now"
  by (simp_all add: opt_prepare_entry_def Let_def)

lemma prepare_fresh:
  "en_occupied x \<longrightarrow> \<not> same_datagram e d x \<Longrightarrow> \<not> en_occupied (opt_prepare_entry x e d s now)"
  by (auto simp: opt_prepare_entry_def Let_def same_datagram_def en_occupied_def opt_clear_entry_def)

lemma prepare_live:
  "\<lbrakk>same_datagram e d x; en_bond_seq x = s; \<not> en_expired now x\<rbrakk>
   \<Longrightarrow> opt_prepare_entry x e d s now = x\<lparr>en_timestamp_ns := now\<rparr>"
  by (simp add: opt_prepare_entry_def same_datagram_def)

lemma store_first_ok:
  assumes "en_wf x" "length q \<le> 1600" "length h = unat l" "14 \<le> unat l" "unat l \<le> 18" "take (unat l) eth = h"
  obtains y where "opt_store_first x e d s eth l q now = Some y" "en_wf y" "has_first y h q"
    "same_datagram e d y" "en_bond_seq y = s" "en_timestamp_ns y = now" "en_occupied y"
    "en_got_second y = en_got_second (opt_prepare_entry x e d s now)"
    "en_second_len y = en_second_len (opt_prepare_entry x e d s now)"
    "en_second y = en_second (opt_prepare_entry x e d s now)"
proof -
  let ?x = "opt_prepare_entry x e d s now"
  have w: "en_wf ?x" using assms(1) by (rule prepare_wf)
  then have len: "length (en_first ?x) = 1600" "length (en_eth_hdr ?x) = 18" by (auto simp: en_wf_def ETH_L2_HDR_MAX_def)
  have l0: "l \<noteq> 0" using assms(4) by auto
  let ?y = "?x\<lparr>en_first_len := length q, en_first := patch (en_first ?x) 0 q,
      en_eth_hdr := patch (en_eth_hdr ?x) 0 h, en_eth_len := l, en_got_first := True\<rparr>"
  have y: "opt_store_first x e d s eth l q now = Some ?y"
    using assms l0 by (simp add: opt_store_first_def Let_def ETH_L2_HDR_MAX_def)
  show ?thesis
    by (rule that [OF y])
      (use store_first_wf [OF assms(1) y] assms len in
        \<open>auto simp: has_first_def same_datagram_def en_occupied_def take_patch_0\<close>)
qed

lemma store_second_ok:
  assumes "en_wf x" "length q \<le> 1600"
  obtains y where "opt_store_second x e d s q now = Some y" "en_wf y" "has_second y q"
    "same_datagram e d y" "en_bond_seq y = s" "en_timestamp_ns y = now" "en_occupied y"
    "en_got_first y = en_got_first (opt_prepare_entry x e d s now)"
    "en_first_len y = en_first_len (opt_prepare_entry x e d s now)"
    "en_first y = en_first (opt_prepare_entry x e d s now)"
    "en_eth_len y = en_eth_len (opt_prepare_entry x e d s now)"
    "en_eth_hdr y = en_eth_hdr (opt_prepare_entry x e d s now)"
proof -
  let ?x = "opt_prepare_entry x e d s now"
  have w: "en_wf ?x" using assms(1) by (rule prepare_wf)
  then have len: "length (en_second ?x) = 1600" by (auto simp: en_wf_def)
  let ?y = "?x\<lparr>en_second_len := length q, en_second := patch (en_second ?x) 0 q, en_got_second := True\<rparr>"
  have y: "opt_store_second x e d s q now = Some ?y"
    using assms by (simp add: opt_store_second_def Let_def)
  show ?thesis
    by (rule that [OF y])
      (use store_second_wf [OF assms(1) y] assms len in
        \<open>auto simp: has_second_def same_datagram_def en_occupied_def take_patch_0\<close>)
qed

text \<open>Joining: the output starts with the packet.\<close>

lemma emit_both:
  assumes "en_wf y" "has_first y h q0" "has_second y q1" "14 \<le> length h"
    and "length h + length q0 + length q1 \<le> NE_FRAME" "NE_FRAME \<le> length out"
  shows "opt_emit_join y out = Some (1, length h + length q0 + length q1, opt_clear_entry y,
    patch out 0 (take (length h - 2) h @ [8, 0] @ q0 @ q1))"
proof -
  have "take (length h - 2) (en_eth_hdr y) = take (length h - 2) (take (length h) (en_eth_hdr y))"
    by (simp add: min_def)
  also have "take (length h) (en_eth_hdr y) = h" using assms(2) by (simp add: has_first_def)
  finally have "joined y = take (length h - 2) h @ [8, 0] @ q0 @ q1"
    using assms(2,3) by (simp add: joined_def has_first_def has_second_def)
  with emit_join_ok [OF assms(1), of out] assms show ?thesis by (simp add: has_first_def has_second_def)
qed

lemma emit_one:
  "\<not> en_got_first y \<or> \<not> en_got_second y \<Longrightarrow> opt_emit_join y out = Some (0, 0, y, out)"
  by (simp add: opt_emit_join_def)

lemma waiting_upd:
  assumes "opt_pick_slot es e d now = Some (idx, es')" "no_live_entry es e d"
    and "en_wf y" "same_datagram e d y" "en_bond_seq y = s" "en_timestamp_ns y = now" "en_occupied y"
  shows "waiting (es'(idx := y)) e d s now idx"
  using assms pick_slot_spec(1) [OF assms(1)] no_live_entry_pick [OF assms(2,1)]
  by (auto simp: waiting_def no_live_entry_def same_datagram_def)

lemma waiting_found:
  assumes "waiting es e d s t0 idx" "now - t0 \<le> OPT_FRAG_TIMEOUT_NS"
  obtains es' where "opt_pick_slot es e d now = Some (idx, es')" "es' idx = es idx" "\<not> en_expired now (es idx)"
proof -
  have "\<not> en_expired now (es idx)" using assms by (simp add: waiting_def en_expired_def)
  with assms show ?thesis
    using pick_slot_hit [of idx e d es now] that by (auto simp: waiting_def same_datagram_def)
qed

lemma pick_wf: "\<lbrakk>en_wf (es i); opt_pick_slot es e d now = Some (idx, es')\<rbrakk> \<Longrightarrow> en_wf (es' i)"
  using pick_slot_spec(2) [of es e d now idx es' i] clear_wf [of "es i"] by auto

section \<open>One fragment at a time\<close>

text \<open>A decrypted fragment: an Ethernet header of the length the parser finds, then the half.\<close>

definition opened_frame :: "buf \<Rightarrow> nat \<Rightarrow> buf \<Rightarrow> buf \<Rightarrow> bool" where
  "opened_frame b n h q \<longleftrightarrow> n \<le> length b \<and> take n b = h @ q \<and> l2_wire_prefix_len b n = Some (Some (length h))
     \<and> 14 \<le> length h \<and> length h \<le> 18 \<and> length q \<le> 1600"

definition ipv4_head :: "buf \<Rightarrow> bool" where
  "ipv4_head q \<longleftrightarrow> 20 \<le> length q \<and> drop_bit 4 (q ! 0) = 4 \<and> 20 \<le> unat (q ! 0 AND 0x0F) * 4
     \<and> unat (q ! 0 AND 0x0F) * 4 \<le> length q"

lemma opened_frame_parts:
  assumes "opened_frame b n h q"
  shows "rdn b (length h) (n - length h) = Some q" "\<not> ETH_L2_HDR_MAX < length h" "\<not> n < length h"
    "unat (of_nat (length h) :: u8) = length h" "take (length h) b = h"
proof -
  have n: "n = length h + length q" using assms by (auto simp: opened_frame_def dest!: arg_cong [where f = length])
  have "slice b (length h) (length q) = q"
    using assms slice_of_take [of n b h q "[]"] by (simp add: opened_frame_def)
  then show "rdn b (length h) (n - length h) = Some q" using assms n by (simp add: opened_frame_def)
  show "\<not> ETH_L2_HDR_MAX < length h" "\<not> n < length h"
    using assms n by (auto simp: opened_frame_def ETH_L2_HDR_MAX_def)
  have "length h < 2 ^ LENGTH(8)" using assms by (simp add: opened_frame_def)
  then show "unat (of_nat (length h) :: u8) = length h" by (simp add: unat_of_nat)
  show "take (length h) b = h" using assms n by (intro take_eq_append_take [of n b h q]) (auto simp: opened_frame_def)
qed

lemma reassemble_first_run:
  assumes "opened_frame b n h q" "ipv4_head q" "opt_pick_slot es e d (opt_time_ns env) = Some (idx, es')"
    and "opt_store_first (es' idx) e d s b (of_nat (length h)) q (opt_time_ns env) = Some y"
    and "opt_emit_join y out = Some (rc, out_len, y', out')"
  shows "l2_reassemble env es b n e d s 0 out = Some (rc, out_len, es'(idx := y'), out')"
proof -
  have "l2_wire_prefix_len b n = Some (Some (length h))" using assms(1) by (simp add: opened_frame_def)
  moreover have "q \<noteq> []" using assms(2) by (auto simp: ipv4_head_def)
  then have "rd8 q 0 = Some (q ! 0)" by simp
  moreover have "\<not> length q < 20" "\<not> drop_bit 4 (q ! 0) \<noteq> 4"
    "\<not> (unat (q ! 0 AND 0x0F) * 4 < 20 \<or> length q < unat (q ! 0 AND 0x0F) * 4)"
    using assms(2) by (auto simp: ipv4_head_def)
  ultimately show ?thesis
    using assms(3-5) opened_frame_parts(1-3) [OF assms(1)] pick_slot_spec(3) [OF assms(3)]
    by (simp only: l2_reassemble_def run_simps)
qed

lemma reassemble_second_run:
  assumes "opened_frame b n h q" "opt_pick_slot es e d (opt_time_ns env) = Some (idx, es')"
    and "en_occupied (es' idx) \<and> same_datagram e d (es' idx) \<longrightarrow> \<not> en_expired (opt_time_ns env) (es' idx)"
    and "opt_store_second (es' idx) e d s q (opt_time_ns env) = Some y"
    and "opt_emit_join y out = Some (rc, out_len, y', out')"
  shows "l2_reassemble env es b n e d s 1 out = Some (rc, out_len, es'(idx := y'), out')"
proof -
  have "l2_wire_prefix_len b n = Some (Some (length h))" using assms(1) by (simp add: opened_frame_def)
  moreover have "\<not> (en_occupied (es' idx) \<and> en_epoch (es' idx) = e \<and> en_datagram_id (es' idx) = d
      \<and> en_expired (opt_time_ns env) (es' idx))"
    using assms(3) by (auto simp: same_datagram_def)
  moreover have "(1 :: u8) \<noteq> 0" by simp
  ultimately show ?thesis
    using assms(2,4,5) opened_frame_parts(1-3) [OF assms(1)] pick_slot_spec(3) [OF assms(2)]
    by (simp only: l2_reassemble_def run_simps refl)
qed

lemma fresh_not_expired:
  "\<lbrakk>no_live_entry es e d; opt_pick_slot es e d now = Some (idx, es')\<rbrakk> \<Longrightarrow> \<not> (en_occupied (es' idx) \<and> same_datagram e d (es' idx))"
  using no_live_entry_pick [of es e d e d now idx es'] pick_slot_spec(1) [of es e d now idx es']
  by (auto simp: no_live_entry_def same_datagram_def)

text \<open>The first half arrives first.\<close>

lemma reassemble_first_fresh:
  assumes "opened_frame b n h q" "ipv4_head q" "\<And>i. en_wf (es i)" "no_live_entry es e d"
  obtains es' idx where "l2_reassemble env es b n e d s 0 out = Some (0, 0, es', out)"
    "waiting es' e d s (opt_time_ns env) idx" "has_first (es' idx) h q"
proof -
  let ?now = "opt_time_ns env"
  obtain idx es1 where p: "opt_pick_slot es e d ?now = Some (idx, es1)" by (rule pick_slot_total)
  note parts = opened_frame_parts [OF assms(1)]
  obtain y where y: "opt_store_first (es1 idx) e d s b (of_nat (length h)) q ?now = Some y" "en_wf y" "has_first y h q"
    "same_datagram e d y" "en_bond_seq y = s" "en_timestamp_ns y = ?now" "en_occupied y"
    "en_got_second y = en_got_second (opt_prepare_entry (es1 idx) e d s ?now)"
  proof (rule store_first_ok [of "es1 idx" q h "of_nat (length h)" b e d s ?now])
    show "en_wf (es1 idx)" using pick_wf [OF assms(3) p] .
  qed (use assms(1) parts in \<open>auto simp: opened_frame_def\<close>)
  have "\<not> en_occupied (opt_prepare_entry (es1 idx) e d s ?now)"
    using fresh_not_expired [OF assms(4) p] by (intro prepare_fresh) blast
  then have "\<not> en_got_second y" using y(8) by (simp add: en_occupied_def)
  then have "l2_reassemble env es b n e d s 0 out = Some (0, 0, es1(idx := y), out)"
    using reassemble_first_run [OF assms(1,2) p y(1) emit_one] by blast
  moreover have "waiting (es1(idx := y)) e d s ?now idx"
    using waiting_upd [OF p assms(4) y(2,4-7)] .
  ultimately show ?thesis using y(3) by (intro that [of "es1(idx := y)" idx]) auto
qed

text \<open>The second half arrives first.\<close>

lemma reassemble_second_fresh:
  assumes "opened_frame b n h q" "\<And>i. en_wf (es i)" "no_live_entry es e d"
  obtains es' idx where "l2_reassemble env es b n e d s 1 out = Some (0, 0, es', out)"
    "waiting es' e d s (opt_time_ns env) idx" "has_second (es' idx) q"
proof -
  let ?now = "opt_time_ns env"
  obtain idx es1 where p: "opt_pick_slot es e d ?now = Some (idx, es1)" by (rule pick_slot_total)
  have wf: "en_wf (es1 idx)" using pick_wf [OF assms(2) p] .
  obtain y where y: "opt_store_second (es1 idx) e d s q ?now = Some y" "en_wf y" "has_second y q"
    "same_datagram e d y" "en_bond_seq y = s" "en_timestamp_ns y = ?now" "en_occupied y"
    "en_got_first y = en_got_first (opt_prepare_entry (es1 idx) e d s ?now)"
    by (rule store_second_ok [OF wf, of q e d s ?now]) (use assms(1) in \<open>auto simp: opened_frame_def\<close>)
  have "\<not> en_occupied (opt_prepare_entry (es1 idx) e d s ?now)"
    using fresh_not_expired [OF assms(3) p] by (intro prepare_fresh) blast
  then have "\<not> en_got_first y" using y(8) by (simp add: en_occupied_def)
  then have "l2_reassemble env es b n e d s 1 out = Some (0, 0, es1(idx := y), out)"
    using reassemble_second_run [OF assms(1) p _ y(1) emit_one] fresh_not_expired [OF assms(3) p] by blast
  moreover have "waiting (es1(idx := y)) e d s ?now idx"
    using waiting_upd [OF p assms(3) y(2,4-7)] .
  ultimately show ?thesis using y(3) by (intro that [of "es1(idx := y)" idx]) auto
qed

text \<open>The other half arrives in time.\<close>

lemma reassemble_second_joins:
  assumes "opened_frame b n h' q1" "waiting es e d s t0 idx" "has_first (es idx) h q0" "14 \<le> length h"
    and "opt_time_ns env - t0 \<le> OPT_FRAG_TIMEOUT_NS"
    and "length h + length q0 + length q1 \<le> NE_FRAME" "NE_FRAME \<le> length out"
  shows "\<exists>es'. l2_reassemble env es b n e d s 1 out = Some (1, length h + length q0 + length q1, es',
    patch out 0 (take (length h - 2) h @ [8, 0] @ q0 @ q1))"
proof -
  let ?now = "opt_time_ns env" let ?x = "es idx"
  obtain es1 where p: "opt_pick_slot es e d ?now = Some (idx, es1)" "es1 idx = ?x" "\<not> en_expired ?now ?x"
    using waiting_found [OF assms(2,5)] .
  have w: "en_wf ?x" "same_datagram e d ?x" "en_bond_seq ?x = s" using assms(2) by (auto simp: waiting_def)
  note live = prepare_live [OF w(2,3) p(3)]
  obtain y where y: "opt_store_second ?x e d s q1 ?now = Some y" "en_wf y" "has_second y q1"
    "en_got_first y = en_got_first ?x" "en_first_len y = en_first_len ?x" "en_first y = en_first ?x"
    "en_eth_len y = en_eth_len ?x" "en_eth_hdr y = en_eth_hdr ?x"
    by (rule store_second_ok [OF w(1), of q1 e d s ?now]) (use assms(1) live in \<open>auto simp: opened_frame_def\<close>)
  then have "has_first y h q0" using assms(3) by (simp add: has_first_def)
  note out = emit_both [OF y(2) this y(3) assms(4,6,7)]
  have "opt_store_second (es1 idx) e d s q1 ?now = Some y" "\<not> en_expired ?now (es1 idx)" using y(1) p(2,3) by simp_all
  with reassemble_second_run [OF assms(1) p(1) _ _ out] show ?thesis by blast
qed

lemma reassemble_first_joins:
  assumes "opened_frame b n h q0" "ipv4_head q0" "waiting es e d s t0 idx" "has_second (es idx) q1"
    and "opt_time_ns env - t0 \<le> OPT_FRAG_TIMEOUT_NS"
    and "length h + length q0 + length q1 \<le> NE_FRAME" "NE_FRAME \<le> length out"
  shows "\<exists>es'. l2_reassemble env es b n e d s 0 out = Some (1, length h + length q0 + length q1, es',
    patch out 0 (take (length h - 2) h @ [8, 0] @ q0 @ q1))"
proof -
  let ?now = "opt_time_ns env" let ?x = "es idx"
  obtain es1 where p: "opt_pick_slot es e d ?now = Some (idx, es1)" "es1 idx = ?x" "\<not> en_expired ?now ?x"
    using waiting_found [OF assms(3,5)] .
  have w: "en_wf ?x" "same_datagram e d ?x" "en_bond_seq ?x = s" using assms(3) by (auto simp: waiting_def)
  note live = prepare_live [OF w(2,3) p(3)]
  note parts = opened_frame_parts [OF assms(1)]
  obtain y where y: "opt_store_first ?x e d s b (of_nat (length h)) q0 ?now = Some y" "en_wf y" "has_first y h q0"
    "en_got_second y = en_got_second ?x" "en_second_len y = en_second_len ?x" "en_second y = en_second ?x"
    by (rule store_first_ok [OF w(1), of q0 h "of_nat (length h)" b e d s ?now])
      (use assms(1) live parts in \<open>auto simp: opened_frame_def\<close>)
  then have "has_second y q1" using assms(4) by (simp add: has_second_def)
  moreover have "14 \<le> length h" using assms(1) by (simp add: opened_frame_def)
  ultimately show ?thesis
    using emit_both [OF y(2,3) _ _ assms(6,7)] reassemble_first_run [OF assms(1,2) p(1), of s] p(2) y(1) by metis
qed

section \<open>Producing the fragments\<close>

lemma split_plan_ok:
  assumes "l2_split_plan mtu n l3 ip0 proto = Some (m0, m1)"
  shows "l3 + m0 + m1 = n" "28 \<le> m0" "0 < m1" "l3 + 47 + m0 \<le> mtu"
    "drop_bit 4 ip0 = 4" "20 \<le> unat (ip0 AND 0x0F) * 4" "unat (ip0 AND 0x0F) * 4 \<le> m0"
  using assms by (auto simp: l2_split_plan_def Let_def OPT_FRAG_META_LEN_def split: if_splits)

lemma fragment0_ok:
  assumes "scrypt_gcm lib enc tag" "ctx_wf ctx" "crypto_pqc_sess_load ctx = Some sess"
    and "cipher_ready lib st" "salt_ready lib st"
    and "et + 2 + m \<le> length b" "et + 49 + m \<le> out_max" "out_max \<le> length b"
  shows "\<exists>c. l2_encrypt_fragment0_inplace lib ctx st b m e s d out_max et (et + 2) = Some (Some (et + 49 + m),
    patch b et (udp_header (ctx_wire_id ctx) (g_worker_idx st) (next_nonce lib st)
      @ sealed_payload enc tag (sess_key sess) (next_nonce lib st)
          (shim_bytes L2_UDP_KIND_FRAG0 e s d @ slice b (et + 2) m)),
    (after_nonce lib st)\<lparr>tls_enc := Some c\<rparr>)"
proof -
  let ?n = "next_nonce lib st" and ?p = "shim_bytes L2_UDP_KIND_FRAG0 e s d @ slice b (et + 2) m"
  have nn: "length ?n = 12" using length_next_nonce [OF assms(5)] .
  have p: "length ?p = 13 + m" "?p \<noteq> []" using assms(6) by (auto simp: shim_bytes_def)
  have room: "et + 20 + length ?p + 16 \<le> length b" using p(1) assms(7,8) by simp
  obtain c b2 b3 where w: "l2_write_wire_header_et (after_nonce lib st) (patch b (et + 20) ?p) et
      NE_L2_FAKE_ETHERTYPE_UDP (ctx_wire_id ctx) ?n = Some b2" "l2_udp_marker_write b2 (et + 16) = Some b3"
    "crypto_pqc_encrypt_payload lib (after_nonce lib st) sess ?n b3 (et + 20) (length ?p) =
      Some (Some (length ?p + 16), patch b et (udp_header (ctx_wire_id ctx) (g_worker_idx st) ?n
        @ sealed_payload enc tag (sess_key sess) ?n ?p), (after_nonce lib st)\<lparr>tls_enc := Some c\<rparr>)"
    using udp_seal [OF assms(1) _ sess_load_ok(2) [OF assms(2,3)] nn p(2) room, of "after_nonce lib st" "ctx_wire_id ctx"]
      assms(4) by (auto simp: bind_eq_Some_conv)
  obtain b1 where b1: "mmove b (et + 20 + 13) (et + 2) m = Some b1"
    "l2_udp_write_shim b1 (et + 20) L2_UDP_KIND_FRAG0 e s d = Some (patch b (et + 20) ?p)"
    using shim_and_payload [of "et + 2" m b "et + 20"] assms(6) room p(1) by (auto simp: bind_eq_Some_conv)
  have offs: "et + 2 + 1 + 1 + L2_NONCE_SIZE = et + 16" "et + 16 + L2_UDP_MARKER_SIZE = et + 20"
    "L2_UDP_SHIM_SIZE + m = length ?p" "et + 20 + L2_UDP_SHIM_SIZE = et + 20 + 13"
    "et + 20 + (length ?p + 16) = et + 49 + m" "\<not> et + 20 + length ?p + AES_GCM_TAG_SIZE > out_max"
    using p(1) assms(7) by (auto simp: l2_sizes)
  show ?thesis
    by (rule exI [of _ c]) (simp only: l2_encrypt_fragment0_inplace_def assms(3) run_simps offs b1
        pqc_generate_nonce [OF assms(5)] w)
qed

lemma fragment1_ok:
  assumes "scrypt_gcm lib enc tag" "ctx_wf ctx" "crypto_pqc_sess_load ctx = Some sess"
    and "cipher_ready lib st" "salt_ready lib st" "et \<le> length eth"
    and "et + 49 + length q \<le> out_max" "out_max \<le> length out"
  shows "\<exists>c. l2_encrypt_fragment_single lib ctx st eth q e s d kind out out_max et = Some (Some (et + 49 + length q),
    patch (patch out 0 (take et eth)) et (udp_header (ctx_wire_id ctx) (g_worker_idx st) (next_nonce lib st)
      @ sealed_payload enc tag (sess_key sess) (next_nonce lib st) (shim_bytes kind e s d @ q)),
    (after_nonce lib st)\<lparr>tls_enc := Some c\<rparr>)"
proof -
  let ?n = "next_nonce lib st" and ?p = "shim_bytes kind e s d @ q" and ?o = "patch out 0 (take et eth)"
  have nn: "length ?n = 12" using length_next_nonce [OF assms(5)] .
  have p: "length ?p = 13 + length q" "?p \<noteq> []" by (auto simp: shim_bytes_def)
  have lo: "length ?o = length out" using assms(6-8) by simp
  have room: "et + 20 + length ?p + 16 \<le> length ?o" using p(1) assms(7,8) lo by simp
  obtain c b2 b3 where w: "l2_write_wire_header_et (after_nonce lib st) (patch ?o (et + 20) ?p) et
      NE_L2_FAKE_ETHERTYPE_UDP (ctx_wire_id ctx) ?n = Some b2" "l2_udp_marker_write b2 (et + 16) = Some b3"
    "crypto_pqc_encrypt_payload lib (after_nonce lib st) sess ?n b3 (et + 20) (length ?p) =
      Some (Some (length ?p + 16), patch ?o et (udp_header (ctx_wire_id ctx) (g_worker_idx st) ?n
        @ sealed_payload enc tag (sess_key sess) ?n ?p), (after_nonce lib st)\<lparr>tls_enc := Some c\<rparr>)"
    using udp_seal [OF assms(1) _ sess_load_ok(2) [OF assms(2,3)] nn p(2) room, of "after_nonce lib st" "ctx_wire_id ctx"]
      assms(4) by (auto simp: bind_eq_Some_conv)
  have b1: "wrn ?o (et + 20 + 13) q = Some (patch ?o (et + 20 + 13) q)"
    "l2_udp_write_shim (patch ?o (et + 20 + 13) q) (et + 20) kind e s d = Some (patch ?o (et + 20) ?p)"
    using patch_before [of "et + 20" "shim_bytes kind e s d" q ?o] room p(1)
    by (simp_all add: l2_udp_write_shim_def)
  have h: "rdn eth 0 et = Some (take et eth)" "wrn out 0 (take et eth) = Some ?o"
    using assms(6-8) by (simp_all add: slice_def)
  have offs: "et + 2 + 1 + 1 + L2_NONCE_SIZE = et + 16" "et + 16 + L2_UDP_MARKER_SIZE = et + 20"
    "L2_UDP_SHIM_SIZE + length q = length ?p" "et + 20 + L2_UDP_SHIM_SIZE = et + 20 + 13"
    "et + 20 + (length ?p + 16) = et + 49 + length q" "\<not> et + 20 + length ?p + AES_GCM_TAG_SIZE > out_max"
    using p(1) assms(7) by (auto simp: l2_sizes)
  show ?thesis
    by (rule exI [of _ c]) (simp only: l2_encrypt_fragment_single_def assms(3) run_simps offs h b1
        pqc_generate_nonce [OF assms(5)] w)
qed

end
