(* ===== verification/L2_Properties.thy ===== *)
theory L2_Properties
  imports L2_Reassembly
begin

text \<open>
  The properties of the UDP and ARP sides of the layer-2 option: round trips of whole datagrams and ARP
  packets, the sizes of fragments, and the round trip of a split datagram through the reassembly table.
\<close>

section \<open>Whole datagrams\<close>

lemma udp_sent_frame:
  assumes "crypto_eth_inner_et_off b n = Some (Some et)" "n \<le> length b" "length nonce = 12"
    and "m = et + 20 + length body" "m \<le> length b"
    and "take m b' = take m (patch b et (udp_header pol wk nonce @ body))" "m \<le> length b'"
  shows "wire_frame b' m (take et b) (udp_header pol wk nonce) body"
  using assms
  by (intro sent_wire_frame [OF assms(1,2), of NE_L2_FAKE_ETHERTYPE_UDP]) (auto simp: udp_header_def wire_header_def l2_udp_marker_def)

text \<open>C6: A UDP datagram that needs no split is encrypted in place by one peer and decrypted in place by the
  other, in any frame that holds the bytes sent: it comes out byte for byte with its length, 47 bytes
  longer on the wire, and the receiver learns the epoch and sequence number of the sender.\<close>

theorem l2_udp_roundtrip:
  assumes "scrypt_gcm lib enc tag" "can_seal lib sctx st k"
    and "crypto_option_udp_tx_meta env st = (Some (epoch, seqno, did), st0)"
    and "crypto_eth_ipv4_offset pkt len = Some (Some l3)" "length pkt = NE_FRAME" "len + 47 \<le> NE_FRAME"
    and "can_open lib enc tag rctx st' k (next_nonce lib st)
      (shim_bytes L2_UDP_KIND_FULL epoch seqno did @ slice pkt l3 (len - l3))"
  shows "\<exists>sent st1. l2_udp_encrypt lib env sctx st pkt len = Some (0, len + 47, sent, st1)
    \<and> (\<forall>frame. length frame = NE_FRAME \<and> take (len + 47) frame = take (len + 47) sent \<longrightarrow>
        (\<exists>frame' st2. l2_udp_decrypt lib rctx st' frame (len + 47) = Some (0, len, frame', st2)
          \<and> take len frame' = take len pkt
          \<and> fst (crypto_option_udp_take_rx_meta st2) = Some (epoch, seqno)))"
proof -
  obtain sess where s: "crypto_pqc_sess_load sctx = Some sess" "sess_key sess = k" "length k = 32"
    "key_nonzero k PQC_TRAFFIC_KEY_SZ" "ctx_wf sctx" "ctx_initialized sctx" "cipher_ready lib st" "salt_ready lib st"
    using can_sealD [OF assms(2)] by blast
  have lp: "len \<le> length pkt" "len + 47 \<le> length pkt" using assms(5,6) by auto
  obtain et where et: "l3 = et + 2" "crypto_eth_inner_et_off pkt len = Some (Some et)" "et + 22 \<le> len"
    "et_at pkt et = ETH_P_IP" "et = 12 \<or> et = 16" using ipv4_offsetD [OF assms(4) lp(1)] by metis
  let ?n = "next_nonce lib st" and ?q = "slice pkt l3 (len - l3)"
  let ?p = "shim_bytes L2_UDP_KIND_FULL epoch seqno did @ ?q"
  let ?hdr = "udp_header (ctx_wire_id sctx) (g_worker_idx st) ?n" and ?body = "sealed_payload enc tag k ?n ?p"
  let ?sent = "patch pkt et (?hdr @ ?body)"
  have nn: "length ?n = 12" using length_next_nonce [OF s(8)] .
  have q: "length ?q = len - l3" using et lp by simp
  have lb: "length ?body = length ?p + 16" by (rule length_sealed_payload [OF assms(1) s(3) nn]) (simp add: shim_bytes_def)
  have L: "len + 47 = et + 20 + length ?body" using lb q et by simp
  obtain c where c: "l2_do_encrypt_udp lib env sctx st pkt len =
      Some (Some (len + 47), ?sent, (after_nonce lib st0)\<lparr>tls_enc := Some c\<rparr>)"
    using do_encrypt_udp_ok [OF assms(1) s(5,1,7,8) assms(3), of pkt len et] assms(4,5,6) et(1) s(2) by auto
  have "l2_udp_encrypt lib env sctx st pkt len = Some (0, len + 47, ?sent, (after_nonce lib st0)\<lparr>tls_enc := Some c\<rparr>)"
    using s(6) assms(4) et(3) c by (simp add: l2_udp_encrypt_def crypto_pkt_is_ipv4_def len_result_def l2_sizes)
  moreover have "\<exists>frame' st2. l2_udp_decrypt lib rctx st' frame (len + 47) = Some (0, len, frame', st2)
      \<and> take len frame' = take len pkt \<and> fst (crypto_option_udp_take_rx_meta st2) = Some (epoch, seqno)"
    if f: "length frame = NE_FRAME" "take (len + 47) frame = take (len + 47) ?sent" for frame
  proof -
    have w: "wire_frame frame (len + 47) (take et pkt) ?hdr ?body"
      by (rule udp_sent_frame [OF et(2) lp(1) nn L lp(2) f(2)]) (use f(1) assms(6) in simp)
    have lpre: "length (take et pkt) = et" using et lp by simp
    have kind: "L2_UDP_KIND_FULL \<in> udp_kinds" by (simp add: udp_kinds_def)
    have small: "length ?q + 29 \<le> 2048" using q assms(6) by (simp add: NE_FRAME_def)
    obtain frame' c where d: "l2_do_decrypt_udp lib rctx st' frame (len + 47) =
        Some (Some (et + 2 + length ?q, epoch, seqno, did, L2_UDP_KIND_FULL), frame', st'\<lparr>tls_dec := Some c\<rparr>)"
      "length frame' = length frame" "take (et + 2 + length ?q) frame' = take et pkt @ [8, 0] @ ?q"
      using do_decrypt_udp_ok [OF assms(1,7) s(4) nn kind small w] lpre by (auto simp: opened_type_def)
    have mark: "crypto_eth_l2_has_marker frame (len + 47) = Some True"
      using udp_frame_marker(2) [OF w nn] w lpre f assms(6) et by (simp add: crypto_eth_l2_has_marker_def wire_frame_def)
    have len: "et + 2 + length ?q = len" using et q by simp
    have t: "take len frame' = take len pkt"
      using d(3) [unfolded len] packet_parts [OF _ lp(1) et(4)] et(1,3) by (simp add: ipv4_et_bytes)
    have "crypto_eth_ipv4_offset frame' len = Some (Some (et + 2))"
    proof (rule ipv4_offsetI)
      have a: "et_at frame' et = et_at pkt et" using t et(3) by (intro et_at_take [of len]) auto
      then show "et_at frame' et = ETH_P_IP" using et(4) by simp
      have "take et frame' = take et pkt" using t et(3) by (metis add_leD1 min.absorb1 take_take)
      then show "crypto_eth_inner_et_off frame' len = Some (Some et)"
        using a et(3,4) d(2) f(1) assms(6) by (intro inner_et_off_retag [OF et(2) lp(1)]) auto
    qed (use et(3) d(2) f(1) assms(6) in auto)
    then have "crypto_pkt_is_ipv4 frame' len = Some True" by (simp add: crypto_pkt_is_ipv4_def)
    moreover have "ctx_initialized rctx" using assms(7) by (simp add: can_open_def)
    ultimately show ?thesis
      using d(1) len mark t
      by (simp add: l2_udp_decrypt_def) (simp add: crypto_option_udp_set_rx_meta_def crypto_option_udp_take_rx_meta_def)
  qed
  ultimately show ?thesis by blast
qed

theorem l2_udp_roundtrip_witness:
  "\<exists>sent st1. l2_udp_encrypt xor_lib \<lparr>env_getrandom = None, env_real_sec = 0, env_real_nsec = 0, env_pid = 0,
        env_epoch_at_cas = 0, env_mono_sec = 0, env_mono_nsec = 0, env_calloc_ok = True\<rparr>
      (example_ctx 0 2 0) example_l2 (example_pkt (0x45 # replicate 30 17)) 45 = Some (0, 45 + 47, sent, st1)
    \<and> (\<forall>frame. length frame = NE_FRAME \<and> take (45 + 47) frame = take (45 + 47) sent \<longrightarrow>
        (\<exists>frame' st2. l2_udp_decrypt xor_lib (example_ctx 0 4 2) example_l2 frame (45 + 47) = Some (0, 45, frame', st2)
          \<and> take 45 frame' = take 45 (example_pkt (0x45 # replicate 30 17))
          \<and> fst (crypto_option_udp_take_rx_meta st2) = Some (77, 5)))"
proof (rule l2_udp_roundtrip [of xor_lib xor_enc xor_tag "example_ctx 0 2 0" example_l2 "replicate 32 2" _ 77 5 9
      example_l2 _ 45 14, OF xor_lib_gcm])
  let ?xs = "0x45 # replicate 30 17 :: buf"
  show "can_seal xor_lib (example_ctx 0 2 0) example_l2 (replicate 32 2)" by (rule example_can_seal) simp
  show "crypto_eth_ipv4_offset (example_pkt ?xs) 45 = Some (Some 14)" using example_ipv4 [of ?xs] by simp
  show "length (example_pkt ?xs) = NE_FRAME" by simp
  show "45 + 47 \<le> NE_FRAME" by (simp add: NE_FRAME_def)
  show "can_open xor_lib xor_enc xor_tag (example_ctx 0 4 2) example_l2 (replicate 32 2) (next_nonce xor_lib example_l2)
      (shim_bytes L2_UDP_KIND_FULL 77 5 9 @ slice (example_pkt ?xs) 14 (45 - 14))" by (rule example_can_open) simp_all
qed (simp add: crypto_option_udp_tx_meta_def crypto_option_udp_epoch_def example_l2_def)

section \<open>ARP\<close>

lemma inner_et_offI:
  assumes "et = 12 \<or> et = 16 \<and> et_at b 12 = ETH_P_8021Q" "eth_inner_hit (et_at b et)" "et + 2 \<le> n" "n \<le> length b"
  shows "crypto_eth_inner_et_off b n = Some (Some et)"
proof -
  have "\<not> eth_inner_hit ETH_P_8021Q" by (simp add: eth_inner_hit_def eth_match_et_def ethertype_defs)
  with assms show ?thesis by (auto simp: crypto_eth_inner_et_off_def)
qed

lemma arp_offsetD:
  assumes "crypto_eth_arp_offset b n = Some (Some arp_off)" "n \<le> length b"
  obtains et where "arp_off = et + 2" "et = 12 \<or> et = 16 \<and> et_at b 12 = ETH_P_8021Q" "et + 30 \<le> n" "et_at b et = ETH_P_ARP"
proof (cases "et_at b 12 = ETH_P_8021Q")
  case True
  with assms show ?thesis by (intro that [of 16]) (auto simp: crypto_eth_arp_offset_def split: if_splits)
next
  case False
  with assms show ?thesis by (intro that [of 12]) (auto simp: crypto_eth_arp_offset_def split: if_splits)
qed

lemma do_encrypt_arp_ok:
  assumes "scrypt_gcm lib enc tag" "ctx_wf ctx" "crypto_pqc_sess_load ctx = Some sess"
    and "cipher_ready lib st" "salt_ready lib st"
    and "crypto_eth_arp_offset b n = Some (Some (et + 2))" "n \<le> length b" "et + 60 \<le> length b" "et + 30 \<le> n"
  shows "\<exists>c. l2_do_encrypt_arp lib ctx st b n = Some (Some (et + 60),
    patch b et (wire_header NE_L2_FAKE_ETHERTYPE_ARP (ctx_wire_id ctx) (g_worker_idx st) (next_nonce lib st)
      @ sealed_payload enc tag (sess_key sess) (next_nonce lib st) (slice b (et + 2) 28)),
    (after_nonce lib st)\<lparr>tls_enc := Some c\<rparr>)"
proof -
  let ?n = "next_nonce lib st" and ?p = "slice b (et + 2) 28"
  let ?hdr = "wire_header NE_L2_FAKE_ETHERTYPE_ARP (ctx_wire_id ctx) (g_worker_idx st) ?n"
  have nn: "length ?n = 12" using length_next_nonce [OF assms(5)] .
  have p: "length ?p = 28" "?p \<noteq> []" using assms(7,9) by (auto simp flip: length_greater_0_conv)
  obtain c where c: "crypto_pqc_encrypt_payload lib (after_nonce lib st) sess ?n
      (patch (patch b (et + 16) ?p) et ?hdr) (et + 16) 28 =
    Some (Some (28 + 16), patch b et (?hdr @ sealed_payload enc tag (sess_key sess) ?n ?p),
      (after_nonce lib st)\<lparr>tls_enc := Some c\<rparr>)"
    using header_and_seal [OF assms(1) _ sess_load_ok(2) [OF assms(2,3)] nn p(2), of "after_nonce lib st" et ?hdr b]
      assms(4,8) nn p(1) by auto
  have w: "l2_write_wire_header_et (after_nonce lib st) (patch b (et + 16) ?p) et NE_L2_FAKE_ETHERTYPE_ARP (ctx_wire_id ctx) ?n =
      Some (patch (patch b (et + 16) ?p) et ?hdr)"
    using assms(8) nn p(1) by (simp add: write_wire_header)
  have m: "mmove b (et + 16) (et + 2) 28 = Some (patch b (et + 16) ?p)" using assms(7-9) by simp
  have offs: "et + 2 - 2 = et" "et + 2 + ARP_WIRE_HDR_LEN = et + 16" "ARP_ETH_IPV4_PAYLOAD = 28" "\<not> n < et + 2 + 28"
    "et + 16 + (28 + 16) = et + 60"
    using assms(9) by (simp_all add: l2_sizes)
  show ?thesis
    by (rule exI [of _ c]) (simp only: l2_do_encrypt_arp_def assms(3,6) run_simps offs m w c pqc_generate_nonce [OF assms(5)])
qed

lemma set_arp_et_ok: "i + 1 < length b \<Longrightarrow> crypto_eth_set_arp_et b i = Some (patch b i [8, 6])"
  by (simp add: crypto_eth_set_arp_et_def patch_pair)

lemma do_decrypt_arp_ok:
  assumes "scrypt_gcm lib enc tag" "can_open lib enc tag ctx st k nonce p" "key_nonzero k PQC_TRAFFIC_KEY_SZ"
    and "length nonce = 12" "length p = 28"
    and "wire_frame b n pre (wire_header NE_L2_FAKE_ETHERTYPE_ARP pol wk nonce) (sealed_payload enc tag k nonce p)"
  shows "\<exists>b' c. l2_do_decrypt_arp lib ctx st b n = Some (Some (length pre + 30), b', st\<lparr>tls_dec := Some c\<rparr>)
    \<and> take (length pre + 30) b' = pre @ [8, 6] @ p"
proof -
  let ?et = "length pre" let ?es = "?et + 16"
  have "length k = 32" using assms(2) by (auto simp: can_open_def ctx_wf_def key_slot_defs)
  moreover have p: "p \<noteq> []" using assms(5) by auto
  ultimately have L: "n = ?et + 60" "n \<le> length b"
    using wire_frame_length [OF assms(6)] length_sealed_payload [OF assms(1) _ assms(4)] assms(4-6)
    by (auto simp: wire_frame_def)
  have off: "crypto_eth_inner_et_off b n = Some (Some ?et)" using assms(6) by (simp add: wire_frame_def)
  have pre: "take ?et b = pre" using wire_frame_take(1) [OF assms(6)] .
  have four: "?et + 2 + 1 + 1 = ?et + 4" by simp
  have "slice b (?et + 4) 12 = nonce"
    using wire_header_slices(4) [of b n pre NE_L2_FAKE_ETHERTYPE_ARP pol wk nonce "[]"] assms(4,6) by simp
  then have nonce: "rdn b (?et + 2 + 1 + 1) 12 = Some nonce" unfolding four using L by simp
  have "length p + 16 \<le> 2048" using assms(5) by simp
  then obtain c where c: "crypto_pqc_decrypt_payload_resilient lib st ctx nonce b ?es (n - ?es) =
      Some (Some 28, patch b ?es p, st\<lparr>tls_dec := Some c\<rparr>)"
    using resilient_wire [OF assms(1-4) p _ assms(6)] assms(4,5) by auto
  let ?b1 = "patch b ?es p" let ?b2 = "patch (patch ?b1 ?et [8, 6]) (?et + 2) p"
  have set: "crypto_eth_set_arp_et ?b1 ?et = Some (patch ?b1 ?et [8, 6])" using L assms(5) by (simp add: set_arp_et_ok)
  have "slice (patch ?b1 ?et [8, 6]) ?es 28 = p"
    using L assms(5) by (subst slice_patch_disjoint) (auto simp: slice_patch_same)
  then have mv: "mmove (patch ?b1 ?et [8, 6]) (?et + 2) ?es 28 = Some ?b2" using L assms(5) by simp
  have "?b2 = patch ?b1 ?et ([8, 6] @ p)" using patch_append [of ?et "[8, 6]" p ?b1] L assms(5) by simp
  then have t: "take (?et + 30) ?b2 = pre @ [8, 6] @ p"
    using L assms(5) pre by (simp add: take_patch) (simp add: patch_def)
  obtain sess where sess: "crypto_pqc_sess_load ctx = Some sess" using assms(2) by (auto simp: can_open_def)
  have offs: "?et + 2 + ARP_WIRE_HDR_LEN = ?es" "\<not> n < ?es" "\<not> 28 < ARP_ETH_IPV4_PAYLOAD" "?et + 2 + 28 = ?et + 30"
    using L(1) by (simp_all add: l2_sizes)
  have "l2_do_decrypt_arp lib ctx st b n = Some (Some (?et + 30), ?b2, st\<lparr>tls_dec := Some c\<rparr>)"
    by (simp only: l2_do_decrypt_arp_def off sess nonce c set mv run_simps offs L2_NONCE_SIZE_def)
  with t show ?thesis by blast
qed

text \<open>An ARP packet that is encrypted in place by one peer and decrypted by the other, in any frame that
  holds the bytes sent, comes out byte for byte, cut to the Ethernet header and the 28 bytes of the ARP
  message: padding is not carried over. This holds for VLAN-tagged and untagged frames.\<close>

lemma l2_arp_roundtrip:
  assumes "scrypt_gcm lib enc tag" "can_seal lib sctx st k"
    and "crypto_eth_arp_offset pkt len = Some (Some arp_off)" "length pkt = NE_FRAME" "len \<le> NE_FRAME"
    and "can_open lib enc tag rctx st' k (next_nonce lib st) (slice pkt arp_off 28)"
  shows "\<exists>sent n st1. l2_arp_encrypt lib sctx st pkt len = Some (0, n, sent, st1) \<and> n = arp_off + 58
    \<and> (\<forall>frame. length frame = NE_FRAME \<and> take n frame = take n sent \<longrightarrow>
        (\<exists>frame' st2. l2_arp_decrypt lib rctx st' frame n = Some (0, arp_off + 28, frame', st2)
          \<and> take (arp_off + 28) frame' = take (arp_off + 28) pkt))"
proof -
  obtain sess where s: "crypto_pqc_sess_load sctx = Some sess" "sess_key sess = k" "length k = 32"
    "key_nonzero k PQC_TRAFFIC_KEY_SZ" "ctx_wf sctx" "ctx_initialized sctx" "cipher_ready lib st" "salt_ready lib st"
    using can_sealD [OF assms(2)] by blast
  have lp: "len \<le> length pkt" using assms(4,5) by auto
  obtain et where et: "arp_off = et + 2" "et = 12 \<or> et = 16 \<and> et_at pkt 12 = ETH_P_8021Q" "et + 30 \<le> len"
    "et_at pkt et = ETH_P_ARP" using arp_offsetD [OF assms(3) lp] by metis
  let ?n = "next_nonce lib st" and ?p = "slice pkt arp_off 28"
  let ?hdr = "wire_header NE_L2_FAKE_ETHERTYPE_ARP (ctx_wire_id sctx) (g_worker_idx st) ?n"
  let ?body = "sealed_payload enc tag k ?n ?p" let ?sent = "patch pkt et (?hdr @ ?body)"
  have nn: "length ?n = 12" using length_next_nonce [OF s(8)] .
  have p: "length ?p = 28" using et lp by simp
  then have lb: "length ?body = 44" using length_sealed_payload [OF assms(1) s(3) nn, of ?p] by fastforce
  have room: "et + 60 \<le> length pkt" using et(2) assms(4) by (auto simp: NE_FRAME_def)
  obtain c where "l2_do_encrypt_arp lib sctx st pkt len = Some (Some (et + 60), ?sent, (after_nonce lib st)\<lparr>tls_enc := Some c\<rparr>)"
    using do_encrypt_arp_ok [OF assms(1) s(5,1,7,8), of pkt len et] assms(3) lp room et s(2) by auto
  then have e: "l2_arp_encrypt lib sctx st pkt len = Some (0, et + 60, ?sent, (after_nonce lib st)\<lparr>tls_enc := Some c\<rparr>)"
    using s(6) assms(3) et(3) by (simp add: l2_arp_encrypt_def crypto_pkt_is_arp_def len_result_def l2_sizes)
  have "\<exists>frame' st2. l2_arp_decrypt lib rctx st' frame (et + 60) = Some (0, arp_off + 28, frame', st2)
      \<and> take (arp_off + 28) frame' = take (arp_off + 28) pkt"
    if f: "length frame = NE_FRAME" "take (et + 60) frame = take (et + 60) ?sent" for frame
  proof -
    have t: "take (et + 60) frame = take et pkt @ ?hdr @ ?body" using f(2) lb nn room by (simp add: take_patch)
    have lpre: "length (take et pkt) = et" using et lp by simp
    have pre: "take et frame = take et pkt" using take_eq_append_take [OF t, of et] lpre by simp
    have "slice frame et 2 = be16_bytes NE_L2_FAKE_ETHERTYPE_ARP"
      using t lpre by (intro slice_of_take [of "et + 60" frame "take et pkt"]) (auto simp: wire_header_def)
    then have ty: "et_at frame et = NE_L2_FAKE_ETHERTYPE_ARP" using f(1) room assms(4) by (intro et_at_slice2) auto
    have off: "crypto_eth_inner_et_off frame (et + 60) = Some (Some et)"
    proof (rule inner_et_offI)
      show "et = 12 \<or> et = 16 \<and> et_at frame 12 = ETH_P_8021Q"
        using et(2) et_at_take [of 16 frame pkt 12] pre by auto
    qed (use ty f(1) room assms(4) in auto)
    have w: "wire_frame frame (et + 60) (take et pkt) ?hdr ?body"
      using t off lpre f(1) room assms(4) by (simp add: wire_frame_def)
    obtain frame' c where d: "l2_do_decrypt_arp lib rctx st' frame (et + 60) = Some (Some (et + 30), frame', st'\<lparr>tls_dec := Some c\<rparr>)"
      "take (et + 30) frame' = take et pkt @ [8, 6] @ ?p"
      using do_decrypt_arp_ok [OF assms(1,6) s(4) nn p w] lpre by auto
    have "take (et + 30) frame' = take (et + 30) pkt"
      using d(2) packet_parts [of et "et + 30" pkt, OF _ _ et(4)] et(1,3) lp by (simp add: ipv4_et_bytes)
    moreover have "crypto_eth_l2_has_arp_marker frame (et + 60) = Some True"
      using off ty f(1) room assms(4) by (simp add: crypto_eth_l2_has_arp_marker_def)
    moreover have "ctx_initialized rctx" using assms(6) by (simp add: can_open_def)
    moreover have "arp_off + 28 = et + 30" using et(1) by simp
    ultimately show ?thesis using d(1) by (simp add: l2_arp_decrypt_def len_result_def add.commute)
  qed
  moreover have "et + 60 = arp_off + 58" using et(1) by simp
  ultimately show ?thesis using e by blast
qed

end
