(* ===== verification/L2_Split.thy ===== *)
theory L2_Split
  imports L2_Properties
begin

text \<open>
  The round trip of a split UDP datagram: the sender's two frames, and the receiver's reassembly table
  taking them in either order.
\<close>

section \<open>The sender\<close>

lemma get_mtu_le: "unat (crypto_option_get_mtu st) \<le> NE_FRAME"
proof -
  have "crypto_option_get_mtu st \<le> of_nat NE_FRAME"
    by (auto simp: crypto_option_get_mtu_def Let_def CRYPTO_OPT_FRAG_MTU_DEFAULT_def NE_FRAME_def)
  then show ?thesis by (simp add: word_le_nat_alt NE_FRAME_def)
qed

lemma nonce_simps [simp]:
  "next_nonce lib (st\<lparr>tls_enc := x\<rparr>) = next_nonce lib st"
  "next_nonce lib (after_nonce lib (st\<lparr>g_udp_epoch := e\<rparr>)) = next_nonce lib (after_nonce lib st)"
  by (simp_all add: next_nonce_def nonce_salt_def after_nonce_def)

lemma worker_idx_simps [simp]:
  "g_worker_idx (st\<lparr>tls_enc := x\<rparr>) = g_worker_idx st" "g_worker_idx (st\<lparr>g_udp_epoch := e\<rparr>) = g_worker_idx st"
  by simp_all

lemma split_ok:
  assumes "scrypt_gcm lib enc tag" "can_seal lib ctx st k"
    and "crypto_option_udp_tx_meta env st = (Some (e, s, d), st0)"
    and "crypto_eth_ipv4_offset pkt len = Some (Some (et + 2))" "length pkt = NE_FRAME" "len \<le> NE_FRAME"
    and "l2_split_plan (unat (crypto_option_get_mtu st)) len (et + 2) (pkt ! (et + 2)) (pkt ! (et + 2 + 9)) = Some (m0, m1)"
    and "length tail = NE_FRAME" "et + 49 + m1 \<le> NE_FRAME"
  shows "\<exists>st1. l2_udp_split lib env ctx st pkt len NE_FRAME tail NE_FRAME =
    Some (Some (et + 49 + m0, et + 49 + m1),
      patch pkt et (udp_header (ctx_wire_id ctx) (g_worker_idx st) (next_nonce lib (after_nonce lib st))
        @ sealed_payload enc tag k (next_nonce lib (after_nonce lib st))
            (shim_bytes L2_UDP_KIND_FRAG0 e s d @ slice pkt (et + 2) m0)),
      patch (patch tail 0 (take et pkt)) et (udp_header (ctx_wire_id ctx) (g_worker_idx st) (next_nonce lib st)
        @ sealed_payload enc tag k (next_nonce lib st)
            (shim_bytes L2_UDP_KIND_FRAG1 e s d @ slice pkt (et + 2 + m0) m1)), st1)"
proof -
  obtain sess where sd: "crypto_pqc_sess_load ctx = Some sess" "sess_key sess = k" "length k = 32"
    "key_nonzero k PQC_TRAFFIC_KEY_SZ" "ctx_wf ctx" "ctx_initialized ctx" "cipher_ready lib st" "salt_ready lib st"
    using can_sealD [OF assms(2)] by blast
  have lp: "len \<le> length pkt" using assms(5,6) by simp
  obtain et' where et': "et + 2 = et' + 2" "crypto_eth_inner_et_off pkt len = Some (Some et')" "et' + 22 \<le> len"
    "et_at pkt et' = ETH_P_IP" "et' = 12 \<or> et' = 16" using ipv4_offsetD [OF assms(4) lp] by metis
  then have [simp]: "et' = et" by simp
  note plan = split_plan_ok [OF assms(7)]
  obtain ep where st0: "st0 = st\<lparr>g_udp_epoch := ep\<rparr>" using tx_meta_state [OF assms(3)] .
  let ?q = "slice pkt (et + 2 + m0) m1"
  have q: "length ?q = m1" "rdn pkt (et + 2 + m0) m1 = Some ?q" using plan(1) lp by simp_all
  have pref: "crypto_eth_inner_et_off pkt ETH_L2_HDR_MAX = Some (Some et)"
  proof (rule inner_et_off_retag [OF _ lp refl])
    show "crypto_eth_inner_et_off pkt len = Some (Some et)" using et'(2) by simp
    show "et + 2 \<le> ETH_L2_HDR_MAX" using et'(5) by (auto simp: ETH_L2_HDR_MAX_def)
    show "ETH_L2_HDR_MAX \<le> length pkt" unfolding assms(5) by (simp add: ETH_L2_HDR_MAX_def NE_FRAME_def)
    show "eth_inner_hit (et_at pkt et)" using et'(4) by simp
  qed
  obtain c1 where f1: "l2_encrypt_fragment_single lib ctx st0 pkt ?q e s d L2_UDP_KIND_FRAG1 tail NE_FRAME et =
      Some (Some (et + 49 + m1), patch (patch tail 0 (take et pkt)) et
        (udp_header (ctx_wire_id ctx) (g_worker_idx st) (next_nonce lib st)
          @ sealed_payload enc tag k (next_nonce lib st) (shim_bytes L2_UDP_KIND_FRAG1 e s d @ ?q)),
        (after_nonce lib st0)\<lparr>tls_enc := Some c1\<rparr>)"
  proof -
    have "cipher_ready lib st0" "salt_ready lib st0" "et \<le> length pkt" using sd(7,8) st0 et' lp by simp_all
    moreover have "next_nonce lib st0 = next_nonce lib st" "g_worker_idx st0 = g_worker_idx st" using st0 by simp_all
    moreover have "et + 49 + length ?q \<le> NE_FRAME" "NE_FRAME \<le> length tail" unfolding q(1) using assms(8,9) by simp_all
    ultimately show ?thesis
      using fragment1_ok [OF assms(1) sd(5,1), of st0 et pkt ?q NE_FRAME tail e s d L2_UDP_KIND_FRAG1]
      unfolding q(1) sd(2) by (metis that)
  qed
  let ?st1 = "(after_nonce lib st0)\<lparr>tls_enc := Some c1\<rparr>"
  have m: "et + 49 + m0 \<le> NE_FRAME" using plan(4) get_mtu_le [of st] by linarith
  have ready: "cipher_ready lib ?st1" "salt_ready lib ?st1" using sd(7,8) st0 by simp_all
  obtain c0 where f0: "l2_encrypt_fragment0_inplace lib ctx ?st1 pkt m0 e s d NE_FRAME et (et + 2) =
      Some (Some (et + 49 + m0), patch pkt et (udp_header (ctx_wire_id ctx) (g_worker_idx st) (next_nonce lib (after_nonce lib st))
        @ sealed_payload enc tag k (next_nonce lib (after_nonce lib st))
            (shim_bytes L2_UDP_KIND_FRAG0 e s d @ slice pkt (et + 2) m0)), (after_nonce lib ?st1)\<lparr>tls_enc := Some c0\<rparr>)"
  proof -
    have "et + 2 + m0 \<le> length pkt" "NE_FRAME \<le> length pkt" using m assms(5) by simp_all
    moreover have "next_nonce lib ?st1 = next_nonce lib (after_nonce lib st)" "g_worker_idx ?st1 = g_worker_idx st" using st0 by simp_all
    ultimately show ?thesis
      using fragment0_ok [OF assms(1) sd(5,1) ready, of et m0 pkt NE_FRAME e s d] m unfolding sd(2) by (metis that)
  qed
  have reads: "rd8 pkt (et + 2) = Some (pkt ! (et + 2))" "rd8 pkt (et + 2 + 9) = Some (pkt ! (et + 2 + 9))"
    using et' lp by simp_all
  show ?thesis
    by (rule exI [of _ "(after_nonce lib ?st1)\<lparr>tls_enc := Some c0\<rparr>"])
      (simp only: l2_udp_split_def l2_split_def crypto_eth_l2_prefix_len_def assms(3,4,7) reads q(2) pref et'(2) \<open>et' = et\<close>
        f1 f0 run_simps)
qed

section \<open>The receiver\<close>

text \<open>The entries of the table that a profile and a worker use; a table that does not exist yet is all zero.\<close>

definition table_entries :: "('c, 'z) l2_state_scheme \<Rightarrow> int \<Rightarrow> int \<Rightarrow> opt_entries" where
  "table_entries st p w = (case g_tables st (nat p) (nat w) of None \<Rightarrow> (\<lambda>_. zero_entry) | Some t \<Rightarrow> ot_entries t)"

definition slot_in_range :: "int \<Rightarrow> int \<Rightarrow> bool" where
  "slot_in_range p w \<longleftrightarrow> 0 \<le> p \<and> p < int MAX_PROFILES \<and> 0 \<le> w \<and> w < int NE_CRYPTO_WORKERS"

lemma reasm_run:
  assumes "l2_do_decrypt_udp lib ctx st b n = Some (Some (nd, e, s, d, kind), b', st1)"
    and "kind = L2_UDP_KIND_FRAG0 \<or> kind = L2_UDP_KIND_FRAG1" "env_calloc_ok env" "slot_in_range p w"
    and "l2_reassemble env (table_entries st1 p w) b' nd e d s kind out = Some (rc, out_len, es, out')"
    and "cipher_ready lib st1"
  shows "\<exists>st2. l2_udp_reasm lib env p w ctx st b n out = Some (rc, if rc = 1 then out_len else nd, out_len, b', out', st2)
    \<and> table_entries st2 p w = es \<and> cipher_ready lib st2
    \<and> (rc = 1 \<longrightarrow> fst (crypto_option_udp_take_rx_meta st2) = Some (e, s))"
proof -
  have kind: "kind \<noteq> L2_UDP_KIND_FULL" "\<not> kind > L2_UDP_KIND_FRAG1"
    using assms(2) by (auto simp: udp_kind_defs)
  have p: "p \<ge> 0" "w \<ge> 0" "\<not> p < 0" "\<not> w < 0" "\<not> p \<ge> int MAX_PROFILES" "\<not> w \<ge> int NE_CRYPTO_WORKERS"
    using assms(4) by (auto simp: slot_in_range_def)
  then have r: "\<not> MAX_PROFILES \<le> nat p" "\<not> NE_CRYPTO_WORKERS \<le> nat w" by linarith+
  let ?new = "\<lparr>ot_gc_cursor = 0, ot_entries = \<lambda>_. zero_entry\<rparr>"
  let ?add = "st1\<lparr>g_tables := (g_tables st1)(nat p := (g_tables st1 (nat p))(nat w \<mapsto> ?new))\<rparr>"
  have run: "opt_table env p w True st1 = (case g_tables st1 (nat p) (nat w) of Some t \<Rightarrow> Some (nat p, nat w, Some t, st1)
      | None \<Rightarrow> Some (nat p, nat w, Some ?new, ?add))"
    by (simp only: opt_table_def Let_def p r assms(3) simp_thms if_False)
  have ready: "cipher_ready lib ?add" using assms(6) by (simp add: cipher_ready_def)
  obtain t st' where t: "opt_table env p w True st1 = Some (nat p, nat w, Some t, st')" "ot_entries t = table_entries st1 p w"
    "cipher_ready lib st'"
  proof (cases "g_tables st1 (nat p) (nat w)")
    case None
    show ?thesis by (rule that [of ?new ?add]) (simp_all only: run None ready table_entries_def option.case opt_table.simps)
  next
    case (Some t)
    show ?thesis by (rule that [of t st1]) (simp_all only: run Some assms(6) table_entries_def option.case)
  qed
  show ?thesis
    using assms(1,5) kind t
    by (auto simp: l2_udp_reasm_def Let_def table_entries_def cipher_ready_def crypto_option_udp_set_rx_meta_def
        crypto_option_udp_take_rx_meta_def)
qed

lemma open_fragment:
  assumes "scrypt_gcm lib enc tag" "can_open lib enc tag ctx st k nonce (shim_bytes kind e s d @ q)"
    and "key_nonzero k PQC_TRAFFIC_KEY_SZ" "length nonce = 12" "kind = L2_UDP_KIND_FRAG0 \<or> kind = L2_UDP_KIND_FRAG1"
    and "length q \<le> 1600" "length pre = 12 \<or> length pre = 16"
    and "wire_frame b n pre (udp_header pol wk nonce) (sealed_payload enc tag k nonce (shim_bytes kind e s d @ q))"
  obtains b' c where "l2_do_decrypt_udp lib ctx st b n =
      Some (Some (length pre + 2 + length q, e, s, d, kind), b', st\<lparr>tls_dec := Some c\<rparr>)"
    "opened_frame b' (length pre + 2 + length q) (pre @ be16_bytes NE_L2_FAKE_ETHERTYPE_UDP) q"
proof -
  let ?nd = "length pre + 2 + length q"
  have kind: "kind \<in> udp_kinds" "kind \<noteq> L2_UDP_KIND_FULL" using assms(5) by (auto simp: udp_kinds_def udp_kind_defs)
  have small: "length q + 29 \<le> 2048" using assms(6) by simp
  obtain b' c where d: "l2_do_decrypt_udp lib ctx st b n = Some (Some (?nd, e, s, d, kind), b', st\<lparr>tls_dec := Some c\<rparr>)"
    "length b' = length b" "take ?nd b' = pre @ be16_bytes NE_L2_FAKE_ETHERTYPE_UDP @ q"
    using do_decrypt_udp_ok [OF assms(1-4) kind(1) small assms(8)] kind(2) by (auto simp: opened_type_def)
  have nb: "n \<le> length b" using assms(8) by (simp add: wire_frame_def)
  have off: "crypto_eth_inner_et_off b n = Some (Some (length pre))" using assms(8) by (simp add: wire_frame_def)
  have "length k = 32" using assms(2) by (auto simp: can_open_def ctx_wf_def key_slot_defs)
  then have "length (sealed_payload enc tag k nonce (shim_bytes kind e s d @ q)) = length q + 29"
    using length_sealed_payload [OF assms(1) _ assms(4), of k "shim_bytes kind e s d @ q"] by (simp add: shim_bytes_def)
  then have L: "?nd \<le> n" using wire_frame_length [OF assms(8)] assms(4) by simp
  have pre: "take (length pre) b' = take (length pre) b"
    using take_eq_append_take [OF d(3), of "length pre"] wire_frame_take(1) [OF assms(8)] by simp
  have "slice b' (length pre) 2 = be16_bytes NE_L2_FAKE_ETHERTYPE_UDP" by (rule slice_of_take [OF d(3)]) simp_all
  then have "et_at b' (length pre) = NE_L2_FAKE_ETHERTYPE_UDP" using L nb d(2) by (intro et_at_slice2) auto
  then have "crypto_eth_inner_et_off b' ?nd = Some (Some (length pre))"
    by (intro inner_et_off_retag [OF off nb pre]) (use L nb d(2) in simp_all)
  then have "l2_wire_prefix_len b' ?nd = Some (Some (length pre + 2))"
    by (simp add: l2_wire_prefix_len_def crypto_eth_l2_prefix_len_def)
  moreover have "14 \<le> length pre + 2" "length pre + 2 \<le> 18" using assms(7) by auto
  ultimately have "opened_frame b' ?nd (pre @ be16_bytes NE_L2_FAKE_ETHERTYPE_UDP) q"
    using d(2,3) L nb assms(6) by (simp add: opened_frame_def)
  with d(1) show ?thesis by (rule that)
qed

text \<open>A fragment as it arrives: a frame that holds the wire form of one half, sealed under a key of the
  receiver.\<close>

definition arrives :: "('c, 'l) scrypt_lib_scheme \<Rightarrow> (buf \<Rightarrow> buf \<Rightarrow> buf \<Rightarrow> buf) \<Rightarrow> (buf \<Rightarrow> buf \<Rightarrow> buf \<Rightarrow> buf) \<Rightarrow>
    packet_crypto_ctx \<Rightarrow> ('c, 'z) crypto_state_scheme \<Rightarrow> buf \<Rightarrow> nat \<Rightarrow> buf \<Rightarrow> u8 \<Rightarrow> u32 \<Rightarrow> u32 \<Rightarrow> u32 \<Rightarrow> buf \<Rightarrow> bool" where
  "arrives lib enc tag ctx st b n pre kind e s d q \<longleftrightarrow> (\<exists>k nonce pol wk. length nonce = 12
     \<and> key_nonzero k PQC_TRAFFIC_KEY_SZ \<and> can_open lib enc tag ctx st k nonce (shim_bytes kind e s d @ q)
     \<and> wire_frame b n pre (udp_header pol wk nonce) (sealed_payload enc tag k nonce (shim_bytes kind e s d @ q)))
     \<and> length q \<le> 1600 \<and> (length pre = 12 \<or> length pre = 16)"

lemma arrives_state:
  "\<lbrakk>arrives lib enc tag ctx st b n pre kind e s d q; cipher_ready lib st'\<rbrakk> \<Longrightarrow> arrives lib enc tag ctx st' b n pre kind e s d q"
  unfolding arrives_def can_open_def by blast

lemma table_entries_dec [simp]: "table_entries (st\<lparr>tls_dec := c\<rparr>) p w = table_entries st p w"
  by (simp add: table_entries_def)

lemma arrives_reasm:
  assumes "scrypt_gcm lib enc tag" "arrives lib enc tag ctx st b n pre kind e s d q"
    and "kind = L2_UDP_KIND_FRAG0 \<or> kind = L2_UDP_KIND_FRAG1" "env_calloc_ok env" "slot_in_range p w"
    and "\<And>b' nd. opened_frame b' nd (pre @ be16_bytes NE_L2_FAKE_ETHERTYPE_UDP) q \<Longrightarrow>
      \<exists>es. l2_reassemble env (table_entries st p w) b' nd e d s kind out = Some (rc, out_len, es, out') \<and> P es"
  shows "\<exists>nd b' st2. l2_udp_reasm lib env p w ctx st b n out = Some (rc, nd, out_len, b', out', st2)
    \<and> P (table_entries st2 p w) \<and> cipher_ready lib st2
    \<and> (rc = 1 \<longrightarrow> nd = out_len \<and> fst (crypto_option_udp_take_rx_meta st2) = Some (e, s))"
proof -
  obtain k nonce pol wk where k: "key_nonzero k PQC_TRAFFIC_KEY_SZ" "length nonce = 12"
    "can_open lib enc tag ctx st k nonce (shim_bytes kind e s d @ q)"
    "wire_frame b n pre (udp_header pol wk nonce) (sealed_payload enc tag k nonce (shim_bytes kind e s d @ q))"
    and q: "length q \<le> 1600" "length pre = 12 \<or> length pre = 16"
    using assms(2) unfolding arrives_def by blast
  obtain b' c where d: "l2_do_decrypt_udp lib ctx st b n =
      Some (Some (length pre + 2 + length q, e, s, d, kind), b', st\<lparr>tls_dec := Some c\<rparr>)"
    "opened_frame b' (length pre + 2 + length q) (pre @ be16_bytes NE_L2_FAKE_ETHERTYPE_UDP) q"
    using open_fragment [OF assms(1) k(3,1,2) assms(3) q k(4)] .
  obtain es where es: "l2_reassemble env (table_entries (st\<lparr>tls_dec := Some c\<rparr>) p w) b' (length pre + 2 + length q) e d s kind out
      = Some (rc, out_len, es, out')" "P es" using assms(6) [OF d(2)] by auto
  have "cipher_ready lib (st\<lparr>tls_dec := Some c\<rparr>)" using k(3) by (simp add: can_open_def cipher_ready_def)
  then obtain st2 where r: "l2_udp_reasm lib env p w ctx st b n out =
      Some (rc, if rc = 1 then out_len else length pre + 2 + length q, out_len, b', out', st2)"
    "table_entries st2 p w = es" "cipher_ready lib st2"
    "rc = 1 \<longrightarrow> fst (crypto_option_udp_take_rx_meta st2) = Some (e, s)"
    using reasm_run [OF d(1) assms(3-5) es(1)] by blast
  show ?thesis
    by (intro exI conjI, rule r(1)) (use r(2-4) es(2) in simp_all)
qed

text \<open>One call for each of two fragments, with the same output buffer: the two return codes, the length and
  the bytes of the packet, and the epoch and sequence number that are handed to the reorder stage.\<close>

definition reasm_pair :: "('c, 'l) scrypt_lib_scheme \<Rightarrow> os_env \<Rightarrow> os_env \<Rightarrow> int \<Rightarrow> int \<Rightarrow> packet_crypto_ctx \<Rightarrow>
    ('c, 'z) l2_state_scheme \<Rightarrow> buf \<times> nat \<Rightarrow> buf \<times> nat \<Rightarrow> buf \<Rightarrow> (int \<times> int \<times> nat \<times> buf \<times> (u32 \<times> u32) option) mem" where
  "reasm_pair lib env1 env2 p w ctx st f g out = do {
     (rc1, _, _, _, out, st) \<leftarrow> l2_udp_reasm lib env1 p w ctx st (fst f) (snd f) out;
     (rc2, n, _, _, out, st) \<leftarrow> l2_udp_reasm lib env2 p w ctx st (fst g) (snd g) out;
     Some (rc1, rc2, n, out, fst (crypto_option_udp_take_rx_meta st)) }"

lemma fragment_kinds: "L2_UDP_KIND_FRAG0 = 0" "L2_UDP_KIND_FRAG1 = 1"
  by (simp_all add: udp_kind_defs)

lemma reasm_pair_run:
  assumes "l2_udp_reasm lib env1 p w ctx st a na out = Some (0, x1, x2, x3, out, st1)"
    and "l2_udp_reasm lib env2 p w ctx st1 b nb out = Some (1, n, x4, x5, out', st2)"
    and "fst (crypto_option_udp_take_rx_meta st2) = Some (e, s)"
  shows "reasm_pair lib env1 env2 p w ctx st (a, na) (b, nb) out = Some (0, 1, n, out', Some (e, s))"
  using assms by (simp add: reasm_pair_def)

lemma reasm_first_second:
  assumes "scrypt_gcm lib enc tag" "env_calloc_ok env1" "env_calloc_ok env2" "slot_in_range p w"
    and "arrives lib enc tag ctx st a na pre L2_UDP_KIND_FRAG0 e s d q0" "ipv4_head q0"
    and "arrives lib enc tag ctx st b nb pre L2_UDP_KIND_FRAG1 e s d q1"
    and "\<And>i. en_wf (table_entries st p w i)" "no_live_entry (table_entries st p w) e d"
    and "opt_time_ns env2 - opt_time_ns env1 \<le> OPT_FRAG_TIMEOUT_NS"
    and "length pre + 2 + length q0 + length q1 \<le> NE_FRAME" "length out = NE_FRAME"
  shows "reasm_pair lib env1 env2 p w ctx st (a, na) (b, nb) out =
    Some (0, 1, length pre + 2 + length q0 + length q1, patch out 0 (pre @ [8, 0] @ q0 @ q1), Some (e, s))"
proof -
  let ?h = "pre @ be16_bytes NE_L2_FAKE_ETHERTYPE_UDP" let ?P = "\<lambda>es. \<exists>idx. waiting es e d s (opt_time_ns env1) idx \<and> has_first (es idx) ?h q0"
  have "\<exists>es. l2_reassemble env1 (table_entries st p w) b' nd e d s L2_UDP_KIND_FRAG0 out = Some (0, 0, es, out) \<and> ?P es"
    if "opened_frame b' nd ?h q0" for b' nd
    using reassemble_first_fresh [OF that assms(6,8,9), of env1 s out] unfolding fragment_kinds by metis
  then obtain nd b' st1 idx where r: "l2_udp_reasm lib env1 p w ctx st a na out = Some (0, nd, 0, b', out, st1)"
    "waiting (table_entries st1 p w) e d s (opt_time_ns env1) idx" "has_first (table_entries st1 p w idx) ?h q0" "cipher_ready lib st1"
    using arrives_reasm [OF assms(1,5) _ assms(2,4), of out 0 0 out ?P] by blast
  have h: "14 \<le> length ?h" "length ?h + length q0 + length q1 \<le> NE_FRAME" "NE_FRAME \<le> length out" "take (length ?h - 2) ?h = pre"
    using assms(5,11,12) by (auto simp: arrives_def)
  have "\<exists>es. l2_reassemble env2 (table_entries st1 p w) b' nd e d s L2_UDP_KIND_FRAG1 out =
      Some (1, length ?h + length q0 + length q1, es, patch out 0 (pre @ [8, 0] @ q0 @ q1)) \<and> True"
    if "opened_frame b' nd ?h q1" for b' nd
    using reassemble_second_joins [OF that r(2,3) h(1) assms(10) h(2,3)] h(4) unfolding fragment_kinds by simp
  from arrives_reasm [OF assms(1) arrives_state [OF assms(7) r(4)] _ assms(3,4) this]
  show ?thesis using reasm_pair_run [OF r(1)] by (auto simp: add.assoc)
qed

lemma reasm_second_first:
  assumes "scrypt_gcm lib enc tag" "env_calloc_ok env1" "env_calloc_ok env2" "slot_in_range p w"
    and "arrives lib enc tag ctx st a na pre L2_UDP_KIND_FRAG0 e s d q0" "ipv4_head q0"
    and "arrives lib enc tag ctx st b nb pre L2_UDP_KIND_FRAG1 e s d q1"
    and "\<And>i. en_wf (table_entries st p w i)" "no_live_entry (table_entries st p w) e d"
    and "opt_time_ns env2 - opt_time_ns env1 \<le> OPT_FRAG_TIMEOUT_NS"
    and "length pre + 2 + length q0 + length q1 \<le> NE_FRAME" "length out = NE_FRAME"
  shows "reasm_pair lib env1 env2 p w ctx st (b, nb) (a, na) out =
    Some (0, 1, length pre + 2 + length q0 + length q1, patch out 0 (pre @ [8, 0] @ q0 @ q1), Some (e, s))"
proof -
  let ?h = "pre @ be16_bytes NE_L2_FAKE_ETHERTYPE_UDP" let ?P = "\<lambda>es. \<exists>idx. waiting es e d s (opt_time_ns env1) idx \<and> has_second (es idx) q1"
  have "\<exists>es. l2_reassemble env1 (table_entries st p w) b' nd e d s L2_UDP_KIND_FRAG1 out = Some (0, 0, es, out) \<and> ?P es"
    if "opened_frame b' nd ?h q1" for b' nd
    using reassemble_second_fresh [OF that assms(8,9), of env1 s out] unfolding fragment_kinds by metis
  then obtain nd b' st1 idx where r: "l2_udp_reasm lib env1 p w ctx st b nb out = Some (0, nd, 0, b', out, st1)"
    "waiting (table_entries st1 p w) e d s (opt_time_ns env1) idx" "has_second (table_entries st1 p w idx) q1" "cipher_ready lib st1"
    using arrives_reasm [OF assms(1,7) _ assms(2,4), of out 0 0 out ?P] by blast
  have h: "length ?h + length q0 + length q1 \<le> NE_FRAME" "NE_FRAME \<le> length out" "take (length ?h - 2) ?h = pre"
    using assms(11,12) by auto
  have "\<exists>es. l2_reassemble env2 (table_entries st1 p w) b' nd e d s L2_UDP_KIND_FRAG0 out =
      Some (1, length ?h + length q0 + length q1, es, patch out 0 (pre @ [8, 0] @ q0 @ q1)) \<and> True"
    if "opened_frame b' nd ?h q0" for b' nd
    using reassemble_first_joins [OF that assms(6) r(2,3) assms(10) h(1,2)] h(3) unfolding fragment_kinds by simp
  from arrives_reasm [OF assms(1) arrives_state [OF assms(5) r(4)] _ assms(3,4) this]
  show ?thesis using reasm_pair_run [OF r(1)] by (auto simp: add.assoc)
qed

section \<open>The round trip\<close>

lemma frag0_wire:
  assumes "crypto_eth_inner_et_off pkt len = Some (Some et)" "len \<le> length pkt" "length nonce = 12"
    and "m = et + 20 + length body" "m \<le> length pkt" "m \<le> length frame"
    and "take m frame = take m (patch pkt et (udp_header pol wk nonce @ body))"
  shows "wire_frame frame m (take et pkt) (udp_header pol wk nonce) body"
  by (rule udp_sent_frame [OF assms(1-5,7,6)])

lemma frag1_wire:
  assumes "crypto_eth_inner_et_off pkt len = Some (Some et)" "len \<le> length pkt" "length nonce = 12"
    and "m = et + 20 + length body" "m \<le> length pkt" "m \<le> length frame" "length tail = length pkt"
    and "take m frame = take m (patch (patch tail 0 (take et pkt)) et (udp_header pol wk nonce @ body))"
  shows "wire_frame frame m (take et pkt) (udp_header pol wk nonce) body"
proof -
  have "take et (patch tail 0 (take et pkt)) = take et pkt" using assms(4,5,7) by (simp add: take_patch_0)
  then have "take m (patch (patch tail 0 (take et pkt)) et (udp_header pol wk nonce @ body)) =
      take m (patch pkt et (udp_header pol wk nonce @ body))"
    using assms(3,4,5,7) by (simp add: take_patch)
  then show ?thesis using frag0_wire [OF assms(1-6)] assms(8) by simp
qed

lemma packet_halves:
  assumes "et + 2 + m0 + m1 = n" "n \<le> length b" "et_at b et = ETH_P_IP"
  shows "take et b @ [8, 0] @ slice b (et + 2) m0 @ slice b (et + 2 + m0) m1 = take n b"
proof -
  have n: "n - (et + 2) = m0 + m1" "et + 2 \<le> n" using assms(1) by simp_all
  show ?thesis
    using packet_parts [OF n(2) assms(2,3)] slice_split [of "m0 + m1" m0 m1 b "et + 2"] unfolding n(1) ipv4_et_bytes by simp
qed

lemma ipv4_head_slice:
  assumes "l2_split_plan mtu n l3 (pkt ! l3) proto = Some (m0, m1)" "n \<le> length pkt"
  shows "ipv4_head (slice pkt l3 m0)"
proof -
  note plan = split_plan_ok [OF assms(1)]
  have "l3 + m0 \<le> length pkt" "0 < m0" using plan(1,2) assms(2) by linarith+
  then have "length (slice pkt l3 m0) = m0" "slice pkt l3 m0 ! 0 = pkt ! l3" using nth_slice [of l3 m0 pkt 0] by simp_all
  with plan(2,5-7) show ?thesis by (simp add: ipv4_head_def)
qed

text \<open>C4: A UDP datagram that is split for the path MTU travels as two encrypted frames. The receiver, whose
  table holds nothing of this datagram, gets the packet back byte for byte and with its length once both frames
  have arrived within the timeout, whichever arrives first: the first call stores a half and returns 0, the
  second returns 1 and hands on the epoch and the sequence number of the sender. The two frames exceed
  their halves by the Ethernet header and 47 bytes.\<close>

theorem l2_split_roundtrip:
  assumes "scrypt_gcm lib enc tag" "can_seal lib sctx st k"
    and "crypto_option_udp_tx_meta env st = (Some (e, s, d), st0)"
    and "crypto_eth_ipv4_offset pkt len = Some (Some l3)" "length pkt = NE_FRAME" "len \<le> NE_FRAME"
    and "l2_split_plan (unat (crypto_option_get_mtu st)) len l3 (pkt ! l3) (pkt ! (l3 + 9)) = Some (m0, m1)"
    and "length tail = NE_FRAME" "m0 \<le> 1600" "m1 \<le> 1600"
    and "can_open lib enc tag rctx st' k (next_nonce lib (after_nonce lib st))
      (shim_bytes L2_UDP_KIND_FRAG0 e s d @ slice pkt l3 m0)"
    and "can_open lib enc tag rctx st' k (next_nonce lib st) (shim_bytes L2_UDP_KIND_FRAG1 e s d @ slice pkt (l3 + m0) m1)"
    and "\<And>i. en_wf (table_entries st' p w i)" "no_live_entry (table_entries st' p w) e d"
    and "env_calloc_ok env1" "env_calloc_ok env2" "slot_in_range p w"
    and "opt_time_ns env2 - opt_time_ns env1 \<le> OPT_FRAG_TIMEOUT_NS"
  shows "\<exists>n0 n1 frag0 frag1 st1.
    l2_udp_split lib env sctx st pkt len NE_FRAME tail NE_FRAME = Some (Some (n0, n1), frag0, frag1, st1)
    \<and> n0 = l3 + m0 + 47 \<and> n1 = l3 + m1 + 47
    \<and> (\<forall>f g out. length f = NE_FRAME \<and> take n0 f = take n0 frag0 \<and> length g = NE_FRAME \<and> take n1 g = take n1 frag1
          \<and> length out = NE_FRAME \<longrightarrow>
        (\<exists>out'. take len out' = take len pkt
          \<and> reasm_pair lib env1 env2 p w rctx st' (f, n0) (g, n1) out = Some (0, 1, len, out', Some (e, s))
          \<and> reasm_pair lib env1 env2 p w rctx st' (g, n1) (f, n0) out = Some (0, 1, len, out', Some (e, s))))"
proof -
  have lp: "len \<le> length pkt" using assms(5,6) by simp
  obtain et where et: "l3 = et + 2" "crypto_eth_inner_et_off pkt len = Some (Some et)" "et + 22 \<le> len"
    "et_at pkt et = ETH_P_IP" "et = 12 \<or> et = 16" using ipv4_offsetD [OF assms(4) lp] by metis
  note plan = split_plan_ok [OF assms(7)]
  let ?q0 = "slice pkt l3 m0" and ?q1 = "slice pkt (l3 + m0) m1"
  let ?n0 = "et + 49 + m0" and ?n1 = "et + 49 + m1" and ?N0 = "next_nonce lib (after_nonce lib st)" and ?N1 = "next_nonce lib st"
  let ?b0 = "sealed_payload enc tag k ?N0 (shim_bytes L2_UDP_KIND_FRAG0 e s d @ ?q0)"
  let ?b1 = "sealed_payload enc tag k ?N1 (shim_bytes L2_UDP_KIND_FRAG1 e s d @ ?q1)"
  have salt: "salt_ready lib st" using can_sealD [OF assms(2)] by blast
  have key: "length k = 32" "key_nonzero k PQC_TRAFFIC_KEY_SZ" using can_sealD [OF assms(2)] by blast+
  have nn: "length ?N0 = 12" "length ?N1 = 12"
    using length_next_nonce [OF salt] length_next_nonce [of lib "after_nonce lib st"] salt by simp_all
  have q: "length ?q0 = m0" "length ?q1 = m1" using plan(1) lp by simp_all
  have b: "?n0 = et + 20 + length ?b0" "?n1 = et + 20 + length ?b1"
    using length_sealed_payload [OF assms(1) key(1) nn(1), of "shim_bytes L2_UDP_KIND_FRAG0 e s d @ ?q0"]
      length_sealed_payload [OF assms(1) key(1) nn(2), of "shim_bytes L2_UDP_KIND_FRAG1 e s d @ ?q1"] q
    by (simp_all add: shim_bytes_def)
  have "et \<le> 16" using et(5) by auto
  then have room: "?n0 \<le> NE_FRAME" "?n1 \<le> NE_FRAME" using assms(9,10) by (simp_all add: NE_FRAME_def)
  obtain frag0 frag1 st1 where sent: "l2_udp_split lib env sctx st pkt len NE_FRAME tail NE_FRAME = Some (Some (?n0, ?n1), frag0, frag1, st1)"
    "frag0 = patch pkt et (udp_header (ctx_wire_id sctx) (g_worker_idx st) ?N0 @ ?b0)"
    "frag1 = patch (patch tail 0 (take et pkt)) et (udp_header (ctx_wire_id sctx) (g_worker_idx st) ?N1 @ ?b1)"
    using split_ok [OF assms(1-3) _ assms(5,6) _ assms(8) room(2)] assms(4,7) et(1) by blast
  have pre: "length (take et pkt) = et" using et lp by simp
  have halves: "take et pkt @ [8, 0] @ ?q0 @ ?q1 = take len pkt"
    using packet_halves [OF plan(1) [unfolded et(1)] lp et(4)] et(1) by simp
  have "\<exists>out'. take len out' = take len pkt
      \<and> reasm_pair lib env1 env2 p w rctx st' (f, ?n0) (g, ?n1) out = Some (0, 1, len, out', Some (e, s))
      \<and> reasm_pair lib env1 env2 p w rctx st' (g, ?n1) (f, ?n0) out = Some (0, 1, len, out', Some (e, s))"
    if f: "length f = NE_FRAME" "take ?n0 f = take ?n0 frag0" "length g = NE_FRAME" "take ?n1 g = take ?n1 frag1"
      "length out = NE_FRAME" for f g out
  proof -
    have w: "wire_frame f ?n0 (take et pkt) (udp_header (ctx_wire_id sctx) (g_worker_idx st) ?N0) ?b0"
      "wire_frame g ?n1 (take et pkt) (udp_header (ctx_wire_id sctx) (g_worker_idx st) ?N1) ?b1"
      using frag0_wire [OF et(2) lp nn(1) b(1), of f] frag1_wire [OF et(2) lp nn(2) b(2), of g tail]
        room f assms(5,8) sent(2,3) by simp_all
    then have a: "arrives lib enc tag rctx st' f ?n0 (take et pkt) L2_UDP_KIND_FRAG0 e s d ?q0"
      "arrives lib enc tag rctx st' g ?n1 (take et pkt) L2_UDP_KIND_FRAG1 e s d ?q1"
      using key nn assms(9-12) q pre et(5) unfolding arrives_def by metis+
    have h: "ipv4_head ?q0" using ipv4_head_slice [OF assms(7) lp] .
    have L: "length (take et pkt) + 2 + length ?q0 + length ?q1 = len" using pre q plan(1) et(1) by simp
    note run = reasm_first_second [OF assms(1,15-17) a(1) h a(2) assms(13,14,18), of out]
      reasm_second_first [OF assms(1,15-17) a(1) h a(2) assms(13,14,18), of out]
    have "take len (patch out 0 (take len pkt)) = take len pkt" using lp f(5) assms(5) by (simp add: take_patch_0)
    with run [unfolded L halves] assms(6) f(5) show ?thesis by blast
  qed
  moreover have "?n0 = l3 + m0 + 47" "?n1 = l3 + m1 + 47" using et(1) by simp_all
  ultimately show ?thesis using sent(1) by blast
qed

lemma example_tx_meta: "crypto_option_udp_tx_meta example_env example_l2 = (Some (77, 5, 9), snd (crypto_option_udp_tx_meta example_env example_l2))"
  by (simp add: crypto_option_udp_tx_meta_def crypto_option_udp_epoch_def example_l2_def)

lemma example_table: "table_entries example_l2 0 0 = (\<lambda>_. zero_entry)"
  by (simp add: table_entries_def example_l2_def)

lemma example_mtu: "crypto_option_get_mtu example_l2 = 1500"
  by (simp add: crypto_option_get_mtu_def example_l2_def Let_def CRYPTO_OPT_FRAG_MTU_DEFAULT_def NE_FRAME_def)

lemma example_plan:
  "l2_split_plan (unat (crypto_option_get_mtu example_l2)) 1600 14
     (example_pkt (0x45 # replicate 1585 17) ! 14) (example_pkt (0x45 # replicate 1585 17) ! (14 + 9)) = Some (1439, 147)"
proof -
  have "example_pkt (0x45 # replicate 1585 17) ! 14 = 0x45" "example_pkt (0x45 # replicate 1585 17) ! (14 + 9) = 17"
    by (simp_all add: example_pkt_def nth_append)
  moreover have "drop_bit 4 (0x45 :: u8) = 4" "unat ((0x45 :: u8) AND 0x0F) = 5" by simp_all
  ultimately show ?thesis unfolding example_mtu l2_split_plan_def Let_def OPT_FRAG_META_LEN_def by simp
qed

theorem l2_split_roundtrip_witness:
  "\<exists>n0 n1 frag0 frag1 st1.
    l2_udp_split xor_lib example_env (example_ctx 0 2 0) example_l2 (example_pkt (0x45 # replicate 1585 17)) 1600 NE_FRAME
      (replicate NE_FRAME 0) NE_FRAME = Some (Some (n0, n1), frag0, frag1, st1)
    \<and> n0 = 14 + 1439 + 47 \<and> n1 = 14 + 147 + 47
    \<and> (\<forall>f g out. length f = NE_FRAME \<and> take n0 f = take n0 frag0 \<and> length g = NE_FRAME \<and> take n1 g = take n1 frag1
          \<and> length out = NE_FRAME \<longrightarrow>
        (\<exists>out'. take 1600 out' = take 1600 (example_pkt (0x45 # replicate 1585 17))
          \<and> reasm_pair xor_lib example_env example_env 0 0 (example_ctx 0 4 2) example_l2 (f, n0) (g, n1) out
              = Some (0, 1, 1600, out', Some (77, 5))
          \<and> reasm_pair xor_lib example_env example_env 0 0 (example_ctx 0 4 2) example_l2 (g, n1) (f, n0) out
              = Some (0, 1, 1600, out', Some (77, 5))))"
proof (rule l2_split_roundtrip [of xor_lib xor_enc xor_tag "example_ctx 0 2 0" example_l2 "replicate 32 2" example_env 77 5 9,
      OF xor_lib_gcm _ example_tx_meta _ _ _ example_plan])
  let ?xs = "0x45 # replicate 1585 17 :: buf"
  show "can_seal xor_lib (example_ctx 0 2 0) example_l2 (replicate 32 2)" by (rule example_can_seal) simp
  show "crypto_eth_ipv4_offset (example_pkt ?xs) 1600 = Some (Some 14)" using example_ipv4 [of ?xs] by simp
  show "length (example_pkt ?xs) = NE_FRAME" by simp
  show "1600 \<le> NE_FRAME" by (simp add: NE_FRAME_def)
  show "en_wf (table_entries example_l2 0 0 i)" for i by (simp add: example_table zero_wf)
  show "no_live_entry (table_entries example_l2 0 0) 77 9"
    by (simp add: example_table no_live_entry_def zero_entry_def en_occupied_def)
qed (simp_all add: example_can_open example_env_def slot_in_range_def MAX_PROFILES_def NE_CRYPTO_WORKERS_def)

section \<open>Sizes\<close>

lemma split_plan_second:
  assumes "l2_split_plan mtu n l3 ip0 proto = Some (m0, m1)"
  shows "l3 + m1 + 47 \<le> mtu \<longleftrightarrow> n + l3 + 94 \<le> 2 * mtu"
  using assms by (auto simp: l2_split_plan_def Let_def OPT_FRAG_META_LEN_def split: if_splits)

text \<open>C38: Two frames are enough for every datagram up to twice the MTU less the headers, and for no more: the
  first frame always fits the configured MTU, the second fits exactly when the length of the packet plus its
  layer-3 offset plus twice the overhead of 47 bytes is at most twice the MTU. A longer packet is still
  sent, with a second frame above the MTU.\<close>

theorem l2_split_fits_mtu:
  assumes "scrypt_gcm lib enc tag" "can_seal lib ctx st k"
    and "crypto_option_udp_tx_meta env st = (Some (e, s, d), st0)"
    and "crypto_eth_ipv4_offset pkt len = Some (Some l3)" "length pkt = NE_FRAME" "len \<le> NE_FRAME"
    and "l2_split_plan (unat (crypto_option_get_mtu st)) len l3 (pkt ! l3) (pkt ! (l3 + 9)) = Some (m0, m1)"
    and "length tail = NE_FRAME" "l3 + 47 + m1 \<le> NE_FRAME"
  shows "\<exists>n0 n1 frag0 frag1 st1.
    l2_udp_split lib env ctx st pkt len NE_FRAME tail NE_FRAME = Some (Some (n0, n1), frag0, frag1, st1)
    \<and> n0 \<le> unat (crypto_option_get_mtu st)
    \<and> (n1 \<le> unat (crypto_option_get_mtu st) \<longleftrightarrow> len + l3 + 94 \<le> 2 * unat (crypto_option_get_mtu st))"
proof -
  have "len \<le> length pkt" using assms(5,6) by simp
  then obtain et where et: "l3 = et + 2" using ipv4_offsetD [OF assms(4)] by metis
  have room: "et + 49 + m1 \<le> NE_FRAME" using assms(9) et by simp
  obtain f0 f1 st1 where
    "l2_udp_split lib env ctx st pkt len NE_FRAME tail NE_FRAME = Some (Some (et + 49 + m0, et + 49 + m1), f0, f1, st1)"
    using split_ok [OF assms(1-3) _ assms(5,6) _ assms(8) room] assms(4,7) et by blast
  moreover have "et + 49 + m0 \<le> unat (crypto_option_get_mtu st)" using split_plan_ok(4) [OF assms(7)] et by simp
  moreover have "et + 49 + m1 = l3 + m1 + 47" using et by simp
  ultimately show ?thesis using split_plan_second [OF assms(7)] by metis
qed

theorem l2_split_fits_mtu_witness:
  "\<exists>n0 n1 frag0 frag1 st1.
    l2_udp_split xor_lib example_env (example_ctx 0 2 0) example_l2 (example_pkt (0x45 # replicate 1585 17)) 1600 NE_FRAME
      (replicate NE_FRAME 0) NE_FRAME = Some (Some (n0, n1), frag0, frag1, st1)
    \<and> n0 \<le> unat (crypto_option_get_mtu example_l2)
    \<and> (n1 \<le> unat (crypto_option_get_mtu example_l2) \<longleftrightarrow> 1600 + 14 + 94 \<le> 2 * unat (crypto_option_get_mtu example_l2))"
proof (rule l2_split_fits_mtu [of xor_lib xor_enc xor_tag "example_ctx 0 2 0" example_l2 "replicate 32 2" example_env 77 5 9,
      OF xor_lib_gcm _ example_tx_meta _ _ _ example_plan])
  let ?xs = "0x45 # replicate 1585 17 :: buf"
  show "can_seal xor_lib (example_ctx 0 2 0) example_l2 (replicate 32 2)" by (rule example_can_seal) simp
  show "crypto_eth_ipv4_offset (example_pkt ?xs) 1600 = Some (Some 14)" using example_ipv4 [of ?xs] by simp
  show "length (example_pkt ?xs) = NE_FRAME" by simp
qed (simp_all add: NE_FRAME_def)

end
