(* ===== verification/Option_Router.thy ===== *)
theory Option_Router
  imports L2_Option
begin

text \<open>
  The option interface and its dispatch: the table of operations per protocol class
  (\<open>src/crypto/common/crypto_option_registry.c\<close>), the operations of the classes that never fragment
  (\<open>src/crypto/options/common/opt_no_frag_ops.c\<close>) and the calls through the table
  (\<open>src/crypto/common/crypto_option_router.c\<close>). The struct of function pointers is a record of
  functions; every pointer of the five tables is set, so the null tests on them are not represented.
\<close>

section \<open>The table of operations\<close>

record ('c, 'z) option_ops =
  op_need_split :: "('c, 'z) l2_state_scheme \<Rightarrow> u32 \<Rightarrow> bool"
  op_split :: "packet_crypto_ctx \<Rightarrow> ('c, 'z) l2_state_scheme \<Rightarrow> buf \<Rightarrow> nat \<Rightarrow> nat \<Rightarrow> buf \<Rightarrow> nat \<Rightarrow>
    ((nat \<times> nat) option \<times> buf \<times> buf \<times> ('c, 'z) l2_state_scheme) mem"
  op_encrypt :: "packet_crypto_ctx \<Rightarrow> ('c, 'z) l2_state_scheme \<Rightarrow> buf \<Rightarrow> nat \<Rightarrow> ('c, 'z) l2_result"
  op_decrypt :: "packet_crypto_ctx \<Rightarrow> ('c, 'z) l2_state_scheme \<Rightarrow> buf \<Rightarrow> nat \<Rightarrow> ('c, 'z) l2_result"
  op_is_fragment :: "app_config \<Rightarrow> buf \<Rightarrow> nat \<Rightarrow> bool mem"
  op_reasm :: "int \<Rightarrow> int \<Rightarrow> packet_crypto_ctx \<Rightarrow> ('c, 'z) l2_state_scheme \<Rightarrow> buf \<Rightarrow> nat \<Rightarrow> buf \<Rightarrow>
    (int \<times> nat \<times> nat \<times> buf \<times> buf \<times> ('c, 'z) l2_state_scheme) mem"
  op_frag_gc :: "int \<Rightarrow> int \<Rightarrow> u64 \<Rightarrow> ('c, 'z) l2_state_scheme \<Rightarrow> ('c, 'z) l2_state_scheme mem"

definition opt_no_frag_need_split :: "('c, 'z) l2_state_scheme \<Rightarrow> u32 \<Rightarrow> bool" where
  "opt_no_frag_need_split st pkt_len = False"

definition opt_no_frag_split :: "packet_crypto_ctx \<Rightarrow> ('c, 'z) l2_state_scheme \<Rightarrow> buf \<Rightarrow> nat \<Rightarrow> nat \<Rightarrow> buf \<Rightarrow> nat \<Rightarrow>
    ((nat \<times> nat) option \<times> buf \<times> buf \<times> ('c, 'z) l2_state_scheme) mem" where
  "opt_no_frag_split ctx st pkt pkt_len frag0_max frag1 frag1_max = Some (None, pkt, frag1, st)"

definition opt_no_frag_is_fragment :: "app_config \<Rightarrow> buf \<Rightarrow> nat \<Rightarrow> bool mem" where
  "opt_no_frag_is_fragment cfg pkt pkt_len = Some False"

definition opt_no_frag_reasm :: "int \<Rightarrow> int \<Rightarrow> packet_crypto_ctx \<Rightarrow> ('c, 'z) l2_state_scheme \<Rightarrow> buf \<Rightarrow> nat \<Rightarrow> buf \<Rightarrow>
    (int \<times> nat \<times> nat \<times> buf \<times> buf \<times> ('c, 'z) l2_state_scheme) mem" where
  "opt_no_frag_reasm profile_slot worker_idx ctx st pkt pkt_len out = Some (-1, pkt_len, 0, pkt, out, st)"

definition opt_no_frag_frag_gc :: "int \<Rightarrow> int \<Rightarrow> u64 \<Rightarrow> ('c, 'z) l2_state_scheme \<Rightarrow> ('c, 'z) l2_state_scheme mem" where
  "opt_no_frag_frag_gc profile_slot worker_idx now_ns st = Some st"

text \<open>The macro \<open>CRYPTO_OPS_PLAIN\<close>.\<close>

definition CRYPTO_OPS_PLAIN :: "(packet_crypto_ctx \<Rightarrow> ('c, 'z) l2_state_scheme \<Rightarrow> buf \<Rightarrow> nat \<Rightarrow> ('c, 'z) l2_result) \<Rightarrow>
    (packet_crypto_ctx \<Rightarrow> ('c, 'z) l2_state_scheme \<Rightarrow> buf \<Rightarrow> nat \<Rightarrow> ('c, 'z) l2_result) \<Rightarrow> ('c, 'z) option_ops" where
  "CRYPTO_OPS_PLAIN enc dec =
     \<lparr>op_need_split = opt_no_frag_need_split, op_split = opt_no_frag_split, op_encrypt = enc, op_decrypt = dec,
      op_is_fragment = opt_no_frag_is_fragment, op_reasm = opt_no_frag_reasm, op_frag_gc = opt_no_frag_frag_gc\<rparr>"

definition crypto_opt_l2_pqc_udp_ops :: "('c, 'l) scrypt_lib_scheme \<Rightarrow> os_env \<Rightarrow> ('c, 'z) option_ops" where
  "crypto_opt_l2_pqc_udp_ops lib env =
     \<lparr>op_need_split = l2_udp_need_split, op_split = l2_udp_split lib env, op_encrypt = l2_udp_encrypt lib env,
      op_decrypt = l2_udp_decrypt lib, op_is_fragment = l2_udp_is_fragment, op_reasm = l2_udp_reasm lib env,
      op_frag_gc = l2_udp_frag_gc env\<rparr>"

text \<open>The table that \<open>crypto_option_registry_init\<close> fills.\<close>

fun g_l2_pqc_ops :: "('c, 'l) scrypt_lib_scheme \<Rightarrow> os_env \<Rightarrow> crypto_proto_class \<Rightarrow> ('c, 'z) option_ops" where
  "g_l2_pqc_ops lib env CRYPTO_PROTO_TCP = CRYPTO_OPS_PLAIN (l2_tcp_encrypt lib) (l2_tcp_decrypt lib)"
| "g_l2_pqc_ops lib env CRYPTO_PROTO_UDP = crypto_opt_l2_pqc_udp_ops lib env"
| "g_l2_pqc_ops lib env CRYPTO_PROTO_ICMP = CRYPTO_OPS_PLAIN (l2_icmp_encrypt lib) (l2_icmp_decrypt lib)"
| "g_l2_pqc_ops lib env CRYPTO_PROTO_OSPF = CRYPTO_OPS_PLAIN (l2_ospf_encrypt lib) (l2_ospf_decrypt lib)"
| "g_l2_pqc_ops lib env CRYPTO_PROTO_ARP = CRYPTO_OPS_PLAIN (l2_arp_encrypt lib) (l2_arp_decrypt lib)"
| "g_l2_pqc_ops lib env _ = CRYPTO_OPS_PLAIN (l2_icmp_encrypt lib) (l2_icmp_decrypt lib)"

definition crypto_option_ops :: "('c, 'l) scrypt_lib_scheme \<Rightarrow> os_env \<Rightarrow> crypto_option_id \<Rightarrow> crypto_proto_class
    \<Rightarrow> ('c, 'z) option_ops option" where
  "crypto_option_ops lib env oid proto =
     (if oid \<noteq> CRYPTO_OPT_L2_PQC then None
      else let proto = (if proto = CRYPTO_PROTO_COUNT then CRYPTO_PROTO_OTHER else proto)
           in Some (g_l2_pqc_ops lib env proto))"

section \<open>Calls through the table\<close>

definition crypto_option_need_split :: "('c, 'l) scrypt_lib_scheme \<Rightarrow> os_env \<Rightarrow> crypto_option_id \<Rightarrow> crypto_proto_class \<Rightarrow>
    ('c, 'z) l2_state_scheme \<Rightarrow> u32 \<Rightarrow> bool" where
  "crypto_option_need_split lib env oid proto st pkt_len =
     (case crypto_option_ops lib env oid proto of None \<Rightarrow> False | Some ops \<Rightarrow> op_need_split ops st pkt_len)"

definition crypto_option_split :: "('c, 'l) scrypt_lib_scheme \<Rightarrow> os_env \<Rightarrow> crypto_option_id \<Rightarrow> crypto_proto_class \<Rightarrow>
    packet_crypto_ctx \<Rightarrow> ('c, 'z) l2_state_scheme \<Rightarrow> buf \<Rightarrow> nat \<Rightarrow> nat \<Rightarrow> buf \<Rightarrow> nat \<Rightarrow>
    ((nat \<times> nat) option \<times> buf \<times> buf \<times> ('c, 'z) l2_state_scheme) mem" where
  "crypto_option_split lib env oid proto ctx st pkt pkt_len frag0_max frag1 frag1_max =
     (case crypto_option_ops lib env oid proto of
        None \<Rightarrow> Some (None, pkt, frag1, st)
      | Some ops \<Rightarrow> op_split ops ctx st pkt pkt_len frag0_max frag1 frag1_max)"

definition crypto_option_encrypt :: "('c, 'l) scrypt_lib_scheme \<Rightarrow> os_env \<Rightarrow> crypto_option_id \<Rightarrow> crypto_proto_class \<Rightarrow>
    packet_crypto_ctx \<Rightarrow> ('c, 'z) l2_state_scheme \<Rightarrow> buf \<Rightarrow> nat \<Rightarrow> ('c, 'z) l2_result" where
  "crypto_option_encrypt lib env oid proto ctx st pkt pkt_len =
     (case crypto_option_ops lib env oid proto of
        None \<Rightarrow> Some (-1, pkt_len, pkt, st)
      | Some ops \<Rightarrow> op_encrypt ops ctx st pkt pkt_len)"

definition crypto_option_decrypt :: "('c, 'l) scrypt_lib_scheme \<Rightarrow> os_env \<Rightarrow> crypto_option_id \<Rightarrow> crypto_proto_class \<Rightarrow>
    packet_crypto_ctx \<Rightarrow> ('c, 'z) l2_state_scheme \<Rightarrow> buf \<Rightarrow> nat \<Rightarrow> ('c, 'z) l2_result" where
  "crypto_option_decrypt lib env oid proto ctx st pkt pkt_len =
     (case crypto_option_ops lib env oid proto of
        None \<Rightarrow> Some (-1, pkt_len, pkt, st)
      | Some ops \<Rightarrow> op_decrypt ops ctx st pkt pkt_len)"

definition crypto_option_is_fragment :: "('c, 'l) scrypt_lib_scheme \<Rightarrow> os_env \<Rightarrow> ('c, 'z) l2_state_scheme itself \<Rightarrow>
    crypto_option_id \<Rightarrow> crypto_proto_class \<Rightarrow> app_config \<Rightarrow> buf \<Rightarrow> nat \<Rightarrow> bool mem" where
  "crypto_option_is_fragment lib env (_ :: ('c, 'z) l2_state_scheme itself) oid proto cfg pkt pkt_len =
     (case (crypto_option_ops lib env oid proto :: ('c, 'z) option_ops option) of
        None \<Rightarrow> Some False
      | Some ops \<Rightarrow> op_is_fragment ops cfg pkt pkt_len)"

definition crypto_option_reassemble :: "('c, 'l) scrypt_lib_scheme \<Rightarrow> os_env \<Rightarrow> crypto_option_id \<Rightarrow> crypto_proto_class \<Rightarrow>
    int \<Rightarrow> int \<Rightarrow> packet_crypto_ctx \<Rightarrow> ('c, 'z) l2_state_scheme \<Rightarrow> buf \<Rightarrow> nat \<Rightarrow> buf \<Rightarrow>
    (int \<times> nat \<times> nat \<times> buf \<times> buf \<times> ('c, 'z) l2_state_scheme) mem" where
  "crypto_option_reassemble lib env oid proto profile_slot worker_idx ctx st pkt pkt_len out =
     (case crypto_option_ops lib env oid proto of
        None \<Rightarrow> Some (-1, pkt_len, 0, pkt, out, st)
      | Some ops \<Rightarrow> op_reasm ops profile_slot worker_idx ctx st pkt pkt_len out)"

definition crypto_option_frag_gc :: "('c, 'l) scrypt_lib_scheme \<Rightarrow> os_env \<Rightarrow> crypto_option_id \<Rightarrow> crypto_proto_class \<Rightarrow>
    int \<Rightarrow> int \<Rightarrow> u64 \<Rightarrow> ('c, 'z) l2_state_scheme \<Rightarrow> ('c, 'z) l2_state_scheme mem" where
  "crypto_option_frag_gc lib env oid proto profile_slot worker_idx now_ns st =
     (case crypto_option_ops lib env oid proto of
        None \<Rightarrow> Some st
      | Some ops \<Rightarrow> op_frag_gc ops profile_slot worker_idx now_ns st)"

definition crypto_option_frag_gc_all :: "('c, 'l) scrypt_lib_scheme \<Rightarrow> os_env \<Rightarrow> int \<Rightarrow> int \<Rightarrow> u64 \<Rightarrow>
    ('c, 'z) l2_state_scheme \<Rightarrow> ('c, 'z) l2_state_scheme mem" where
  "crypto_option_frag_gc_all lib env profile_slot worker_idx now_ns st =
     crypto_option_frag_gc lib env CRYPTO_OPT_L2_PQC CRYPTO_PROTO_UDP profile_slot worker_idx now_ns st"

section \<open>The dispatch, resolved\<close>

lemmas router_defs = crypto_option_ops_def CRYPTO_OPS_PLAIN_def crypto_opt_l2_pqc_udp_ops_def Let_def

lemma plain_ops_agree:
  "l2_icmp_encrypt = l2_tcp_encrypt" "l2_ospf_encrypt = l2_tcp_encrypt"
  "l2_icmp_decrypt = l2_tcp_decrypt" "l2_ospf_decrypt = l2_tcp_decrypt"
  by (simp_all add: fun_eq_iff l2_icmp_encrypt_def l2_ospf_encrypt_def l2_tcp_encrypt_def
      l2_icmp_decrypt_def l2_ospf_decrypt_def l2_tcp_decrypt_def)

lemma router_encrypt:
  "crypto_option_encrypt lib env CRYPTO_OPT_L2_PQC proto ctx st pkt n =
     (if proto = CRYPTO_PROTO_UDP then l2_udp_encrypt lib env ctx st pkt n
      else if proto = CRYPTO_PROTO_ARP then l2_arp_encrypt lib ctx st pkt n
      else l2_tcp_encrypt lib ctx st pkt n)"
  by (cases proto) (simp_all add: crypto_option_encrypt_def router_defs plain_ops_agree)

lemma router_decrypt:
  "crypto_option_decrypt lib env CRYPTO_OPT_L2_PQC proto ctx st pkt n =
     (if proto = CRYPTO_PROTO_UDP then l2_udp_decrypt lib ctx st pkt n
      else if proto = CRYPTO_PROTO_ARP then l2_arp_decrypt lib ctx st pkt n
      else l2_tcp_decrypt lib ctx st pkt n)"
  by (cases proto) (simp_all add: crypto_option_decrypt_def router_defs plain_ops_agree)

lemma router_reassemble:
  "crypto_option_reassemble lib env CRYPTO_OPT_L2_PQC proto p w ctx st pkt n out =
     (if proto = CRYPTO_PROTO_UDP then l2_udp_reasm lib env p w ctx st pkt n out else Some (-1, n, 0, pkt, out, st))"
  by (cases proto) (simp_all add: crypto_option_reassemble_def router_defs opt_no_frag_reasm_def)

lemma router_split:
  "crypto_option_split lib env CRYPTO_OPT_L2_PQC proto ctx st pkt n m0 tail m1 =
     (if proto = CRYPTO_PROTO_UDP then l2_udp_split lib env ctx st pkt n m0 tail m1 else Some (None, pkt, tail, st))"
  by (cases proto) (simp_all add: crypto_option_split_def router_defs opt_no_frag_split_def)

lemma router_need_split:
  "crypto_option_need_split lib env CRYPTO_OPT_L2_PQC proto st n \<longleftrightarrow> proto = CRYPTO_PROTO_UDP \<and> l2_udp_need_split st n"
  by (cases proto) (simp_all add: crypto_option_need_split_def router_defs opt_no_frag_need_split_def)

end
