(* ===== verification/L2_Safety.thy ===== *)
theory L2_Safety
  imports Option_Router L2_Reassembly
begin

text \<open>
  Memory safety of the receive side of the layer-2 option for arbitrary frames: whatever bytes arrive, the
  decryption, the reassembly and the garbage collection read and write inside the buffers they are given.
  The only thing assumed of the cipher library is that it does not write more bytes than it is given.
\<close>

section \<open>Calls that stay inside their buffers\<close>

definition mem_ok :: "('a \<Rightarrow> bool) \<Rightarrow> 'a mem \<Rightarrow> bool" where
  "mem_ok P m \<longleftrightarrow> (\<exists>x. m = Some x \<and> P x)"

lemma mem_ok_Some [simp]: "mem_ok P (Some x) \<longleftrightarrow> P x"
  by (simp add: mem_ok_def)

lemma mem_ok_bind: "\<lbrakk>mem_ok Q m; \<And>x. Q x \<Longrightarrow> mem_ok P (f x)\<rbrakk> \<Longrightarrow> mem_ok P (m \<bind> f)"
  by (auto simp: mem_ok_def)

lemma mem_ok_mono: "\<lbrakk>mem_ok Q m; \<And>x. Q x \<Longrightarrow> P x\<rbrakk> \<Longrightarrow> mem_ok P m"
  by (auto simp: mem_ok_def)

lemma mem_ok_D: "mem_ok P m \<Longrightarrow> \<exists>x. m = Some x"
  by (auto simp: mem_ok_def)

definition lib_bounded :: "('c, 'l) scrypt_lib_scheme \<Rightarrow> bool" where
  "lib_bounded lib \<longleftrightarrow> (\<forall>c inp. case scrypt_CipherUpdate lib c inp of (_, out, c) \<Rightarrow> length out \<le> length inp
     \<and> (case scrypt_CipherFinal lib c of (_, fin, _) \<Rightarrow> length out + length fin \<le> length inp))"

lemma lib_boundedD:
  assumes "lib_bounded lib" "scrypt_CipherUpdate lib c inp = (r, out, c')"
  shows "length out \<le> length inp" "scrypt_CipherFinal lib c' = (r', fin, c'') \<Longrightarrow> length out + length fin \<le> length inp"
proof -
  have b: "length out \<le> length inp \<and> (case scrypt_CipherFinal lib c' of (_, fin, _) \<Rightarrow> length out + length fin \<le> length inp)"
    using assms(1) [unfolded lib_bounded_def] assms(2) by (metis (no_types, lifting) case_prod_conv)
  then show "length out \<le> length inp" ..
  show "length out + length fin \<le> length inp" if "scrypt_CipherFinal lib c' = (r', fin, c'')" using b that by simp
qed

section \<open>The cipher calls\<close>

text \<open>Decryption changes nothing of the state of the thread but its cipher context.\<close>

definition dec_only :: "('c, 'z) crypto_state_scheme \<Rightarrow> ('c, 'z) crypto_state_scheme \<Rightarrow> bool" where
  "dec_only st st' \<longleftrightarrow> (\<exists>c. st' = st\<lparr>tls_dec := c\<rparr>)"

lemma dec_only_refl [simp]: "dec_only st st"
  unfolding dec_only_def by (rule exI [of _ "tls_dec st"]) simp

lemma dec_only_trans: "\<lbrakk>dec_only st st'; dec_only st' st''\<rbrakk> \<Longrightarrow> dec_only st st''"
  by (auto simp: dec_only_def)

lemma dec_only_upd: "dec_only st st' \<Longrightarrow> dec_only st (st'\<lparr>tls_dec := c\<rparr>)"
  by (auto simp: dec_only_def)

lemma tls_cipher_dec_only: "crypto_pqc_tls_cipher lib False st = (oc, st') \<Longrightarrow> dec_only st st'"
  by (auto simp: crypto_pqc_tls_cipher_def Let_def dec_only_def split: if_splits intro: exI [of _ "tls_dec st"])

text \<open>What a decryption in place may change: the length of the buffer stays, a result is shorter than the
  ciphertext by the tag.\<close>

lemma trf_decrypt_safe:
  assumes "lib_bounded lib" "off + len \<le> length b"
  shows "mem_ok (\<lambda>(rc, n, b', c'). length b' = length b \<and> n + 16 \<le> max 16 len) (trf_decrypt_payload_gcm lib ready c key nonce b off len)"
proof (cases "\<not> ready \<or> len \<le> 16")
  case True
  then show ?thesis by (auto simp: trf_decrypt_payload_gcm_def TAG_SIZE_GCM_def)
next
  case False
  then have len: "ready" "16 < len" by auto
  obtain r0 c0 where i: "scrypt_CipherInit lib c key nonce False = (r0, c0)" by fastforce
  let ?tag = "slice b (off + len - 16) 16" and ?inp = "slice b off (len - 16)"
  obtain r1 c1 where t: "scrypt_CipherSetTag lib (scrypt_CipherSetTagSize lib c0 16) ?tag = (r1, c1)" by fastforce
  obtain r2 out c2 where u: "scrypt_CipherUpdate lib c1 ?inp = (r2, out, c2)" using prod_cases3 by blast
  obtain r3 fin c3 where f: "scrypt_CipherFinal lib c2 = (r3, fin, c3)" using prod_cases3 by blast
  have "length ?inp = len - 16" using assms(2) by simp
  then have "length out \<le> len - 16" "length out + length fin \<le> len - 16"
    using lib_boundedD(1) [OF assms(1) u] lib_boundedD(2) [OF assms(1) u f] by simp_all
  moreover from this have "length out + length fin + 16 \<le> len" using len by simp
  ultimately show ?thesis using len assms(2) by (simp add: trf_decrypt_payload_gcm_def TAG_SIZE_GCM_def i t u f)
qed

lemma decrypt_payload_safe:
  assumes "lib_bounded lib" "off + len \<le> length b"
  shows "mem_ok (\<lambda>(r, b', st'). length b' = length b \<and> dec_only st st' \<and> (\<forall>n. r = Some n \<longrightarrow> n + 16 \<le> max 16 len))
    (crypto_pqc_decrypt_payload lib st sess nonce b off len)"
proof -
  obtain oc st1 where c: "crypto_pqc_tls_cipher lib False st = (oc, st1)" by fastforce
  show ?thesis
    using trf_decrypt_safe [OF assms, of "g_pqc_initialized st1" "the oc" "sess_key sess" nonce] tls_cipher_dec_only [OF c]
    by (auto simp: crypto_pqc_decrypt_payload_def c split: option.split intro!: mem_ok_bind dec_only_upd)
qed

lemma resilient_loop_safe:
  assumes "lib_bounded lib" "off + len \<le> length b" "length saved = len"
  shows "mem_ok (\<lambda>(r, b', st'). length b' = length b \<and> dec_only st st' \<and> (\<forall>n. r = Some n \<longrightarrow> n + 16 \<le> max 16 len))
    (resilient_loop lib st nonce saved b off len attempted prior keys)"
  using assms(2)
proof (induction keys arbitrary: st b attempted prior)
  case (Cons key keys)
  show ?case
  proof (cases key)
    case None
    then show ?thesis using Cons by simp
  next
    case (Some k)
    let ?b = "if attempted then patch b off saved else b"
    have b: "(if attempted then wrn b off saved else Some b) = Some ?b" "length ?b = length b" "off + len \<le> length ?b"
      using Cons.prems assms(3) by auto
    have step: "mem_ok (\<lambda>(r, b', st'). length b' = length ?b \<and> dec_only st st' \<and> (\<forall>n. r = Some n \<longrightarrow> n + 16 \<le> max 16 len))
        (crypto_pqc_decrypt_payload lib st \<lparr>sess_key = k, sess_aad = HARDCODED_AAD, sess_aad_len = 12\<rparr> nonce ?b off len)"
      by (rule decrypt_payload_safe [OF assms(1) b(3)])
    have "mem_ok (\<lambda>(r, b', st'). length b' = length b \<and> dec_only st st' \<and> (\<forall>n. r = Some n \<longrightarrow> n + 16 \<le> max 16 len))
        (crypto_pqc_decrypt_payload lib st \<lparr>sess_key = k, sess_aad = HARDCODED_AAD, sess_aad_len = 12\<rparr> nonce ?b off len \<bind>
         (\<lambda>(r, b, st). case r of Some out_len \<Rightarrow> Some (Some out_len, b, st)
            | None \<Rightarrow> resilient_loop lib st nonce saved b off len True (prior @ [k]) keys))"
    proof (rule mem_ok_bind [OF step], clarify, goal_cases)
      case (1 r b' st')
      then have "off + len \<le> length b'" "length b' = length b" using b(2,3) by simp_all
      then have "mem_ok (\<lambda>(r, b'', st''). length b'' = length b' \<and> dec_only st' st'' \<and> (\<forall>n. r = Some n \<longrightarrow> n + 16 \<le> max 16 len))
          (resilient_loop lib st' nonce saved b' off len True (prior @ [k]) keys)" using Cons.IH by blast
      with 1 b(2) show ?case by (cases r) (auto elim!: mem_ok_mono intro: dec_only_trans)
    qed
    then show ?thesis using Cons.IH [OF Cons.prems] unfolding Some by (simp add: b(1))
  qed
qed simp

lemma resilient_safe:
  assumes "lib_bounded lib" "off + len \<le> length b"
  shows "mem_ok (\<lambda>(r, b', st'). length b' = length b \<and> dec_only st st' \<and> (\<forall>n. r = Some n \<longrightarrow> n + 16 \<le> max 16 len))
    (crypto_pqc_decrypt_payload_resilient lib st ctx nonce b off len)"
  using resilient_loop_safe [OF assms, of "slice b off len" st nonce False "[]" "fallback_keys ctx"] assms(2)
  by (simp add: crypto_pqc_decrypt_payload_resilient_def)

section \<open>Decryption\<close>

lemma inner_et_off_total:
  assumes "n \<le> length b"
  obtains "crypto_eth_inner_et_off b n = Some None"
  | et where "crypto_eth_inner_et_off b n = Some (Some et)" "12 \<le> et" "et \<le> 16" "et + 2 \<le> n"
proof -
  obtain r where r: "crypto_eth_inner_et_off b n = Some r"
    "\<And>et. r = Some et \<Longrightarrow> (et = 12 \<or> et = 16) \<and> et + 2 \<le> n" using inner_et_off_spec [OF assms] by metis
  show ?thesis
  proof (cases r)
    case None
    then show ?thesis using r(1) that(1) by simp
  next
    case (Some et)
    then have "12 \<le> et" "et \<le> 16" "et + 2 \<le> n" using r(2) by auto
    then show ?thesis using r(1) Some that(2) by simp
  qed
qed

lemma l2_offsets_total:
  assumes "crypto_eth_inner_et_off b n = Some (Some et)"
  shows "l2_enc_start_off b n = Some (if n < et + 16 then None else Some (et + 16))"
    "l2_nonce_off b n = Some (if n < et + 3 then None else Some (et + 4))"
  using assms
  by (auto simp: l2_enc_start_off_def l2_nonce_off_def l2_core_id_off_def l2_policy_off_def crypto_eth_l2_policy_off_def
      L2_NONCE_SIZE_def)

lemma l2_offsets_None:
  "crypto_eth_inner_et_off b n = Some None \<Longrightarrow> l2_enc_start_off b n = Some None"
  by (simp add: l2_enc_start_off_def l2_nonce_off_def l2_core_id_off_def l2_policy_off_def crypto_eth_l2_policy_off_def)

lemma restore_safe:
  assumes "n \<le> length b" "28 \<le> off" "off + m \<le> n"
  shows "mem_ok (\<lambda>(r, b'). length b' = length b \<and> (\<forall>k. r = Some k \<longrightarrow> k \<le> n)) (l2_restore_plain_packet b n off m)"
  using assms(1)
proof (cases rule: inner_et_off_total)
  case 1
  then show ?thesis by (simp add: l2_restore_plain_packet_def crypto_eth_l2_prefix_len_def)
next
  case (2 et)
  let ?b = "patch b et [8, 0]"
  have b: "crypto_eth_set_ipv4_et b et = Some ?b" "length ?b = length b"
    using 2 assms(1) by (simp_all add: crypto_eth_set_ipv4_et_def patch_pair)
  have t: "(if m \<ge> 2 then do { b0 \<leftarrow> rd8 b off; b1 \<leftarrow> rd8 b (off + 1); Some (b0 = 0x08 \<and> b1 = 0x00) } else Some False)
      = Some (2 \<le> m \<and> b ! off = 8 \<and> b ! (off + 1) = 0)" using assms by auto
  have "et + 2 + (m - 2) \<le> length b" "et + 2 + m \<le> n" "et + 2 + m \<le> length b" using 2 assms by simp_all
  then show ?thesis
    using 2(1) b assms by (auto simp: l2_restore_plain_packet_def crypto_eth_l2_prefix_len_def Let_def t)
qed

definition frame_kept :: "buf \<Rightarrow> nat \<Rightarrow> ('c, 'z) crypto_state_scheme \<Rightarrow> nat option \<times> buf \<times> ('c, 'z) crypto_state_scheme \<Rightarrow> bool" where
  "frame_kept b n st = (\<lambda>(r, b', st'). length b' = length b \<and> dec_only st st' \<and> (\<forall>k. r = Some k \<longrightarrow> k \<le> n))"

lemma do_decrypt_safe:
  assumes "lib_bounded lib" "n \<le> length b"
  shows "mem_ok (frame_kept b n st) (l2_do_decrypt lib ctx st b n)"
  using assms(2)
proof (cases rule: inner_et_off_total)
  case 1
  then show ?thesis by (simp add: l2_do_decrypt_def l2_offsets_None frame_kept_def)
next
  case (2 et)
  show ?thesis
  proof (cases "n < et + 16 \<or> crypto_pqc_sess_load ctx = None")
    case True
    then show ?thesis by (auto simp: l2_do_decrypt_def l2_offsets_total [OF 2(1)] frame_kept_def split: option.split)
  next
    case False
    then have n: "et + 16 \<le> n" and s: "\<exists>sess. crypto_pqc_sess_load ctx = Some sess" by auto
    have room: "et + 16 + (n - (et + 16)) \<le> length b" using n assms(2) by simp
    have body: "mem_ok (frame_kept b n st) (crypto_pqc_decrypt_payload_resilient lib st ctx nonce b (et + 16) (n - (et + 16)) \<bind>
        (\<lambda>(r, b, st). case r of None \<Rightarrow> Some (None, b, st)
           | Some dec_len \<Rightarrow> l2_restore_plain_packet b n (et + 16) dec_len \<bind> (\<lambda>(n, b). Some (n, b, st))))" for nonce
    proof (rule mem_ok_bind [OF resilient_safe [OF assms(1) room]], clarify, goal_cases)
      case (1 r b' st')
      show ?case
      proof (cases r)
        case (Some m)
        then have "et + 16 + m \<le> n" using 1(3) n by auto
        then have "mem_ok (\<lambda>(r, b''). length b'' = length b' \<and> (\<forall>k. r = Some k \<longrightarrow> k \<le> n)) (l2_restore_plain_packet b' n (et + 16) m)"
          using assms(2) 1(1) \<open>12 \<le> et\<close> by (intro restore_safe) auto
        then show ?thesis using 1(1,2) by (auto simp: Some frame_kept_def mem_ok_def)
      qed (use 1 in \<open>simp add: frame_kept_def\<close>)
    qed
    have "rdn b (et + 4) 12 = Some (slice b (et + 4) 12)" using n assms(2) by simp
    then show ?thesis using s n body by (auto simp: l2_do_decrypt_def l2_offsets_total [OF 2(1)] L2_NONCE_SIZE_def)
  qed
qed

lemma read_shim_safe: "off + 13 \<le> length b \<Longrightarrow> mem_ok (\<lambda>_. True) (l2_udp_read_shim b off)"
  by (auto simp: l2_udp_read_shim_def rd_be32_def Let_def)

lemma set_et_safe:
  "et + 2 \<le> length b \<Longrightarrow> mem_ok (\<lambda>b'. length b' = length b) (crypto_eth_set_ipv4_et b et)"
  "et + 2 \<le> length b \<Longrightarrow> mem_ok (\<lambda>b'. length b' = length b) (crypto_eth_set_arp_et b et)"
  by (simp_all add: crypto_eth_set_ipv4_et_def crypto_eth_set_arp_et_def)

definition udp_kept :: "buf \<Rightarrow> nat \<Rightarrow> ('c, 'z) crypto_state_scheme \<Rightarrow>
    (nat \<times> udp_meta) option \<times> buf \<times> ('c, 'z) crypto_state_scheme \<Rightarrow> bool" where
  "udp_kept b n st = (\<lambda>(r, b', st'). length b' = length b \<and> dec_only st st' \<and> (\<forall>k meta. r = Some (k, meta) \<longrightarrow> k \<le> n))"

lemma udp_tail_safe:
  assumes "n \<le> length b" "32 \<le> off" "off + m \<le> n" "13 \<le> m"
  shows "mem_ok (udp_kept b n st) (do {
    shim \<leftarrow> l2_udp_read_shim b off;
    case shim of
      None \<Rightarrow> Some (None, b, st)
    | Some (kind, epoch, seqno, datagram_id) \<Rightarrow> do {
        let payload_len = m - L2_UDP_SHIM_SIZE;
        et \<leftarrow> crypto_eth_l2_prefix_len b n;
        case et of
          None \<Rightarrow> Some (None, b, st)
        | Some et_off \<Rightarrow> do {
            let l3_off = et_off + 2;
            b \<leftarrow> mmove b l3_off (off + L2_UDP_SHIM_SIZE) payload_len;
            b \<leftarrow> (if kind = L2_UDP_KIND_FULL then crypto_eth_set_ipv4_et b (l3_off - 2) else Some b);
            Some (Some (l3_off + payload_len, epoch, seqno, datagram_id, kind), b, st) } } })"
proof -
  obtain shim where shim: "l2_udp_read_shim b off = Some shim" using read_shim_safe [of off b] assms by (auto simp: mem_ok_def)
  from assms(1) show ?thesis
  proof (cases rule: inner_et_off_total)
    case 1
    then show ?thesis by (simp add: shim udp_kept_def crypto_eth_l2_prefix_len_def split: option.split prod.split)
  next
    case (2 et)
    let ?b = "patch b (et + 2) (slice b (off + 13) (m - 13))"
    have mv: "mmove b (et + 2) (off + 13) (m - 13) = Some ?b" using 2 assms by simp
    have lb: "length ?b = length b" "et + 2 \<le> length ?b" using 2 assms by simp_all
    have k: "et + 2 + (m - 13) \<le> n" using 2 assms by simp
    show ?thesis
      using set_et_safe(1) [OF lb(2)] lb(1) k mv 2(1)
      by (auto simp: shim udp_kept_def crypto_eth_l2_prefix_len_def Let_def L2_UDP_SHIM_SIZE_def mem_ok_def split: option.split prod.split)
  qed
qed

lemma do_decrypt_udp_safe:
  assumes "lib_bounded lib" "n \<le> length b"
  shows "mem_ok (udp_kept b n st) (l2_do_decrypt_udp lib ctx st b n)"
  using assms(2)
proof (cases rule: inner_et_off_total)
  case 1
  then show ?thesis by (simp add: l2_do_decrypt_udp_def l2_frag_magic_off_def l2_offsets_None l2_udp_marker_match_def udp_kept_def)
next
  case (2 et)
  show ?thesis
  proof (cases "n < et + 49 \<or> crypto_pqc_sess_load ctx = None")
    case True
    have "mem_ok (\<lambda>_. True) (l2_udp_marker_match b n (if n < et + 16 then None else Some (et + 16)))"
      using assms(2) by (simp add: l2_udp_marker_match_def L2_UDP_MARKER_SIZE_def)
    then show ?thesis
      using True
      by (auto simp: l2_do_decrypt_udp_def l2_frag_magic_off_def l2_offsets_total [OF 2(1)] udp_kept_def Let_def mem_ok_def l2_sizes
          split: option.split if_split)
  next
    case False
    then have n: "et + 49 \<le> n" and s: "\<exists>sess. crypto_pqc_sess_load ctx = Some sess" by auto
    have room: "et + 20 + (n - (et + 20)) \<le> length b" using n assms(2) by simp
    note tail = udp_tail_safe [of n _ "et + 20"]
    have body: "mem_ok (udp_kept b n st) (crypto_pqc_decrypt_payload_resilient lib st ctx nonce b (et + 20) (n - (et + 20)) \<bind>
        (\<lambda>(r, b, st). case r of None \<Rightarrow> Some (None, b, st)
           | Some dec_len \<Rightarrow> if dec_len < L2_UDP_SHIM_SIZE then Some (None, b, st)
             else do {
                shim \<leftarrow> l2_udp_read_shim b (et + 20);
                case shim of
                  None \<Rightarrow> Some (None, b, st)
                | Some (kind, epoch, seqno, datagram_id) \<Rightarrow> do {
                    let payload_len = dec_len - L2_UDP_SHIM_SIZE;
                    et' \<leftarrow> crypto_eth_l2_prefix_len b n;
                    case et' of
                      None \<Rightarrow> Some (None, b, st)
                    | Some et_off \<Rightarrow> do {
                        let l3_off = et_off + 2;
                        b \<leftarrow> mmove b l3_off (et + 20 + L2_UDP_SHIM_SIZE) payload_len;
                        b \<leftarrow> (if kind = L2_UDP_KIND_FULL then crypto_eth_set_ipv4_et b (l3_off - 2) else Some b);
                        Some (Some (l3_off + payload_len, epoch, seqno, datagram_id, kind), b, st) } } }))" for nonce
    proof (rule mem_ok_bind [OF resilient_safe [OF assms(1) room]], clarify, goal_cases)
      case (1 r b' st')
      have b': "mem_ok (udp_kept b' n st') m \<Longrightarrow> mem_ok (udp_kept b n st) m" for m
        using 1(1,2) by (elim mem_ok_mono) (auto simp: udp_kept_def intro: dec_only_trans)
      show ?case
      proof (cases "\<exists>m. r = Some m \<and> 13 \<le> m")
        case True
        then obtain m where m: "r = Some m" "13 \<le> m" by blast
        then have "et + 20 + m \<le> n" using 1(3) n by auto
        with m(2) tail [of b' m st'] assms(2) 1(1) \<open>12 \<le> et\<close> show ?thesis
          unfolding m(1) by (auto simp: L2_UDP_SHIM_SIZE_def intro!: b')
      qed (use 1 in \<open>auto simp: udp_kept_def L2_UDP_SHIM_SIZE_def split: option.split\<close>)
    qed
    have rd: "rdn b (et + 4) 12 = Some (slice b (et + 4) 12)" "rdn b (et + 16) 4 = Some (slice b (et + 16) 4)" using n assms(2) by simp_all
    have keep: "mem_ok (udp_kept b n st) (Some (None, b, st))" by (simp add: udp_kept_def)
    have offs: "\<not> n < et + 16" "\<not> n < et + 3" "\<not> n < et + 16 + 4" "\<not> n < et + 16 + 4 + L2_UDP_SHIM_SIZE + AES_GCM_TAG_SIZE"
      "et + 16 + 4 = et + 20" using n by (simp_all add: l2_sizes)
    obtain sess where sess: "crypto_pqc_sess_load ctx = Some sess" using s by blast
    show ?thesis
      using body keep
      by (simp only: l2_do_decrypt_udp_def l2_frag_magic_off_def l2_offsets_total [OF 2(1)] l2_udp_marker_match_def sess rd
          L2_NONCE_SIZE_def L2_UDP_MARKER_SIZE_def offs run_simps split: if_split)
  qed
qed

lemma do_decrypt_arp_safe:
  assumes "lib_bounded lib" "n \<le> length b"
  shows "mem_ok (frame_kept b n st) (l2_do_decrypt_arp lib ctx st b n)"
  using assms(2)
proof (cases rule: inner_et_off_total)
  case 1
  then show ?thesis by (simp add: l2_do_decrypt_arp_def frame_kept_def)
next
  case (2 et)
  show ?thesis
  proof (cases "n < et + 16 \<or> crypto_pqc_sess_load ctx = None")
    case True
    then show ?thesis using 2(1) by (auto simp: l2_do_decrypt_arp_def frame_kept_def Let_def ARP_WIRE_HDR_LEN_def split: option.split)
  next
    case False
    then have n: "et + 16 \<le> n" and s: "\<exists>sess. crypto_pqc_sess_load ctx = Some sess" by auto
    have room: "et + 16 + (n - (et + 16)) \<le> length b" using n assms(2) by simp
    have body: "mem_ok (frame_kept b n st) (crypto_pqc_decrypt_payload_resilient lib st ctx nonce b (et + 16) (n - (et + 16)) \<bind>
        (\<lambda>(r, b, st). case r of None \<Rightarrow> Some (None, b, st)
           | Some dec_len \<Rightarrow> if dec_len < ARP_ETH_IPV4_PAYLOAD then Some (None, b, st)
             else do {
                let arp_off = et + 2;
                b \<leftarrow> crypto_eth_set_arp_et b et;
                b \<leftarrow> mmove b arp_off (et + 16) dec_len;
                Some (Some (arp_off + dec_len), b, st) }))" for nonce
    proof (rule mem_ok_bind [OF resilient_safe [OF assms(1) room]], clarify, goal_cases)
      case (1 r b' st')
      show ?case
      proof (cases r)
        case (Some m)
        then have m: "et + 16 + m \<le> n" using 1(3) n by auto
        have "et + 2 \<le> length b'" using m 1(1) assms(2) by simp
        from set_et_safe(2) [OF this] obtain b2 where "crypto_eth_set_arp_et b' et = Some b2" "length b2 = length b'"
          by (auto simp: mem_ok_def)
        then show ?thesis using 1(1,2) m assms(2) by (auto simp: Some frame_kept_def Let_def)
      qed (use 1 in \<open>simp add: frame_kept_def\<close>)
    qed
    have four: "et + 2 + 1 + 1 = et + 4" by simp
    have rd: "rdn b (et + 2 + 1 + 1) 12 = Some (slice b (et + 4) 12)" unfolding four using n assms(2) by simp
    obtain sess where sess: "crypto_pqc_sess_load ctx = Some sess" using s by blast
    have offs: "et + 2 + ARP_WIRE_HDR_LEN = et + 16" "\<not> n < et + 16" using n by (simp_all add: ARP_WIRE_HDR_LEN_def)
    show ?thesis
      using body by (simp only: l2_do_decrypt_arp_def 2(1) sess rd offs L2_NONCE_SIZE_def run_simps)
  qed
qed

text \<open>The operations of the interface.\<close>

lemma marker_safe:
  assumes "n \<le> length b"
  shows "\<exists>r. crypto_eth_l2_has_marker b n = Some r" "\<exists>r. crypto_eth_l2_has_arp_marker b n = Some r" "\<exists>r. crypto_pkt_is_ipv4 b n = Some r"
proof -
  obtain r where r: "crypto_eth_ipv4_offset b n = Some r" using ipv4_offset_spec [OF assms] by metis
  then show "\<exists>r. crypto_pkt_is_ipv4 b n = Some r" by (simp add: crypto_pkt_is_ipv4_def)
  have "(\<exists>r. crypto_eth_l2_has_marker b n = Some r) \<and> (\<exists>r. crypto_eth_l2_has_arp_marker b n = Some r)"
    using assms
  proof (cases rule: inner_et_off_total)
    case 1
    then show ?thesis by (auto simp: crypto_eth_l2_has_marker_def crypto_eth_l2_has_arp_marker_def)
  next
    case (2 et)
    then have "et + 1 < length b" using assms by simp
    with 2(1) show ?thesis by (simp add: crypto_eth_l2_has_marker_def crypto_eth_l2_has_arp_marker_def)
  qed
  then show "\<exists>r. crypto_eth_l2_has_marker b n = Some r" "\<exists>r. crypto_eth_l2_has_arp_marker b n = Some r" by blast+
qed

text \<open>What a decryption leaves behind: a frame of the same size, a length within the received one, and the
  reassembly tables as they were.\<close>

definition decrypted_ok :: "buf \<Rightarrow> nat \<Rightarrow> ('c, 'z) l2_state_scheme \<Rightarrow> int \<times> nat \<times> buf \<times> ('c, 'z) l2_state_scheme \<Rightarrow> bool" where
  "decrypted_ok b n st = (\<lambda>(rc, k, b', st'). length b' = length b \<and> k \<le> n \<and> g_tables st' = g_tables st)"

lemma dec_only_tables: "dec_only st st' \<Longrightarrow> g_tables st' = g_tables st"
  by (auto simp: dec_only_def)

lemma len_result_ok:
  "mem_ok (frame_kept b n st) m \<Longrightarrow> mem_ok (decrypted_ok b n st) (m \<bind> len_result n)"
  by (auto simp: mem_ok_def frame_kept_def decrypted_ok_def len_result_def dec_only_tables split: option.split)

lemma tcp_decrypt_safe:
  assumes "lib_bounded lib" "n \<le> length b"
  shows "mem_ok (decrypted_ok b n st) (l2_tcp_decrypt lib ctx st b n)"
proof -
  obtain r where "crypto_eth_l2_has_marker b n = Some r" using marker_safe(1) [OF assms(2)] ..
  then show ?thesis
    using len_result_ok [OF do_decrypt_safe [OF assms, of st ctx]] by (simp add: l2_tcp_decrypt_def decrypted_ok_def)
qed

lemma arp_decrypt_safe:
  assumes "lib_bounded lib" "n \<le> length b"
  shows "mem_ok (decrypted_ok b n st) (l2_arp_decrypt lib ctx st b n)"
proof -
  obtain r where "crypto_eth_l2_has_arp_marker b n = Some r" using marker_safe(2) [OF assms(2)] ..
  then show ?thesis
    using len_result_ok [OF do_decrypt_arp_safe [OF assms, of st ctx]] by (simp add: l2_arp_decrypt_def decrypted_ok_def)
qed

lemma udp_decrypt_safe:
  assumes "lib_bounded lib" "n \<le> length b"
  shows "mem_ok (decrypted_ok b n st) (l2_udp_decrypt lib ctx st b n)"
proof -
  obtain m where m: "crypto_eth_l2_has_marker b n = Some m" using marker_safe(1) [OF assms(2)] ..
  obtain r b' st' where d: "l2_do_decrypt_udp lib ctx st b n = Some (r, b', st')" "udp_kept b n st (r, b', st')"
    using do_decrypt_udp_safe [OF assms, of st ctx] by (auto simp: mem_ok_def)
  have "\<exists>x. crypto_pkt_is_ipv4 b' k = Some x" if "r = Some (k, meta)" for k meta
    using d(2) that assms(2) by (intro marker_safe(3)) (cases meta, auto simp: udp_kept_def)
  then show ?thesis
    using m d dec_only_tables [of st st']
    by (cases r) (auto simp: l2_udp_decrypt_def decrypted_ok_def udp_kept_def crypto_option_udp_set_rx_meta_def)
qed

section \<open>Reassembly\<close>

definition entries_wf :: "opt_entries \<Rightarrow> bool" where
  "entries_wf es \<longleftrightarrow> (\<forall>i < OPT_FRAG_TABLE_SIZE. en_wf (es i))"

lemma entries_wf_upd [intro]: "\<lbrakk>entries_wf es; en_wf x\<rbrakk> \<Longrightarrow> entries_wf (es(i := x))"
  by (simp add: entries_wf_def)

lemma entries_wf_pick: "\<lbrakk>entries_wf es; opt_pick_slot es e d now = Some (idx, es')\<rbrakk> \<Longrightarrow> entries_wf es'"
  using pick_wf [of es _ e d now idx es'] by (simp add: entries_wf_def)

lemma emit_join_safe:
  assumes "en_wf x" "length out = NE_FRAME"
  shows "mem_ok (\<lambda>(rc, n, x', out'). en_wf x' \<and> length out' = length out \<and> n \<le> NE_FRAME) (opt_emit_join x out)"
proof (cases "en_got_first x \<and> en_got_second x
    \<and> en_first_len x + en_second_len x + (if en_eth_len x \<noteq> 0 then unat (en_eth_len x) else ETH_HEADER_SIZE) \<le> NE_FRAME")
  case True
  let ?l = "unat (en_eth_len x)" and ?f = "en_first_len x" and ?s = "en_second_len x"
  have l: "en_eth_len x \<noteq> 0" "0 < ?l" "?l \<le> 18" "?f \<le> 1600" "?s \<le> 1600"
    "length (en_eth_hdr x) = 18" "length (en_first x) = 1600" "length (en_second x) = 1600"
    using assms(1) True by (auto simp: en_wf_def ETH_L2_HDR_MAX_def unat_gt_0)
  have room: "?l + ?f + ?s \<le> length out" using True l assms(2) by simp
  have "\<exists>o'. (if 0 < ?s then wrn (patch (patch out 0 (slice (en_eth_hdr x) 0 ?l)) ?l (slice (en_first x) 0 ?f)) (?l + ?f)
        (slice (en_second x) 0 ?s) else Some (patch (patch out 0 (slice (en_eth_hdr x) 0 ?l)) ?l (slice (en_first x) 0 ?f))) = Some o'
      \<and> length o' = length out" using l room by auto
  then obtain o' where o': "(if 0 < ?s then wrn (patch (patch out 0 (slice (en_eth_hdr x) 0 ?l)) ?l (slice (en_first x) 0 ?f)) (?l + ?f)
        (slice (en_second x) 0 ?s) else Some (patch (patch out 0 (slice (en_eth_hdr x) 0 ?l)) ?l (slice (en_first x) 0 ?f))) = Some o'"
      "length o' = length out" by blast
  have "?l - 2 + 2 \<le> length o'" if "2 \<le> ?l" using that room o'(2) by simp
  from set_et_safe(1) [OF this] have "\<exists>o''. (if 2 \<le> ?l then crypto_eth_set_ipv4_et o' (?l - 2) else Some o') = Some o'' \<and> length o'' = length out"
    using o'(2) by (auto simp: mem_ok_def)
  then obtain o'' where o'': "(if 2 \<le> ?l then crypto_eth_set_ipv4_et o' (?l - 2) else Some o') = Some o''" "length o'' = length out" by blast
  have r: "rdn (en_eth_hdr x) 0 ?l = Some (slice (en_eth_hdr x) 0 ?l)" "rdn (en_first x) 0 ?f = Some (slice (en_first x) 0 ?f)"
    "rdn (en_second x) 0 ?s = Some (slice (en_second x) 0 ?s)"
    "wrn out 0 (slice (en_eth_hdr x) 0 ?l) = Some (patch out 0 (slice (en_eth_hdr x) 0 ?l))"
    "wrn (patch out 0 (slice (en_eth_hdr x) 0 ?l)) ?l (slice (en_first x) 0 ?f)
      = Some (patch (patch out 0 (slice (en_eth_hdr x) 0 ?l)) ?l (slice (en_first x) 0 ?f))"
    using l room by simp_all
  have c: "\<not> (\<not> en_got_first x \<or> \<not> en_got_second x)" "\<not> ?f + ?s + ?l > NE_FRAME" "?l + ?f + ?s \<le> NE_FRAME" using True l(1) by auto
  have "opt_emit_join x out = Some (1, ?l + ?f + ?s, opt_clear_entry x, o'')"
    by (simp only: opt_emit_join_def c(1,2) l(1) r o'(1) o''(1) run_simps)
  then show ?thesis using c(3) o''(2) clear_wf [OF assms(1)] by simp
next
  case False
  then show ?thesis using assms clear_wf [OF assms(1)] by (auto simp: opt_emit_join_def Let_def)
qed

definition joined_ok :: "buf \<Rightarrow> int \<times> nat \<times> opt_entries \<times> buf \<Rightarrow> bool" where
  "joined_ok out = (\<lambda>(rc, n, es, out'). entries_wf es \<and> length out' = length out \<and> n \<le> NE_FRAME)"

lemma emit_joined_ok:
  assumes "en_wf x" "length out = NE_FRAME" "entries_wf es"
  shows "mem_ok (joined_ok out) (do { (rc, n, x, out) \<leftarrow> opt_emit_join x out; Some (rc, n, es(idx := x), out) })"
  using emit_join_safe [OF assms(1,2)] assms(3) by (auto simp: mem_ok_def joined_ok_def)

lemma reassemble_safe:
  assumes "n \<le> length b" "entries_wf es" "length out = NE_FRAME"
  shows "mem_ok (joined_ok out) (l2_reassemble env es b n e d s kind out)"
  using assms(1)
proof (cases rule: inner_et_off_total)
  case 1
  then show ?thesis using assms by (simp add: l2_reassemble_def l2_wire_prefix_len_def crypto_eth_l2_prefix_len_def joined_ok_def)
next
  case (2 et)
  let ?inner = "slice b (et + 2) (n - (et + 2))"
  obtain idx es' where p: "opt_pick_slot es e d (opt_time_ns env) = Some (idx, es')" by (rule pick_slot_total)
  have at: "en_at es' idx = Some (es' idx)" using pick_slot_spec(3) [OF p] .
  have w: "entries_wf es'" "en_wf (es' idx)"
    using entries_wf_pick [OF assms(2) p] at by (auto simp: entries_wf_def en_at_def split: if_split_asm)
  have keep: "joined_ok out (-1, 0, es', out)" "joined_ok out (-1, 0, es, out)"
    using w assms(2) by (simp_all add: joined_ok_def)
  have inner: "rdn b (et + 2) (n - (et + 2)) = Some ?inner" "\<not> length ?inner < 20 \<longrightarrow> rd8 ?inner 0 = Some (?inner ! 0)"
    using 2 assms(1) by auto
  have wire: "l2_wire_prefix_len b n = Some (Some (et + 2))" "\<not> ETH_L2_HDR_MAX < et + 2" "\<not> n < et + 2"
    using 2 by (simp_all add: l2_wire_prefix_len_def crypto_eth_l2_prefix_len_def ETH_L2_HDR_MAX_def)
  let ?x = "if en_occupied (es' idx) \<and> en_epoch (es' idx) = e \<and> en_datagram_id (es' idx) = d \<and> en_expired (opt_time_ns env) (es' idx)
    then opt_clear_entry (es' idx) else es' idx"
  have x: "en_wf ?x" using w(2) clear_wf by simp
  have first: "mem_ok (joined_ok out) (case opt_store_first (es' idx) e d s b (of_nat (et + 2)) ?inner (opt_time_ns env) of
      None \<Rightarrow> Some (-1, 0, es', out)
    | Some x \<Rightarrow> do { (rc, n, x, out) \<leftarrow> opt_emit_join x out; Some (rc, n, es'(idx := x), out) })"
    using emit_joined_ok [OF store_first_wf [OF w(2)] assms(3) w(1)] keep(1) by (simp split: option.split)
  have "mem_ok (joined_ok out) (case opt_store_second y e d s ?inner (opt_time_ns env) of
      None \<Rightarrow> Some (-1, 0, es'(idx := y), out)
    | Some x \<Rightarrow> do { (rc, n, x, out) \<leftarrow> opt_emit_join x out; Some (rc, n, es'(idx := x), out) })" if "en_wf y" for y
    using emit_joined_ok [OF store_second_wf [OF that] assms(3) w(1)] w(1) that by (auto simp: joined_ok_def split: option.split)
  note second = this [OF x]
  show ?thesis
    using first second keep inner(2)
    by (simp only: l2_reassemble_def wire inner(1) p at run_simps Let_def mem_ok_Some split: if_split) simp
qed

definition tables_wf :: "('c, 'z) l2_state_scheme \<Rightarrow> bool" where
  "tables_wf st \<longleftrightarrow> (\<forall>p w t. g_tables st p w = Some t \<longrightarrow> entries_wf (ot_entries t))"

lemma tables_wf_upd:
  "\<lbrakk>tables_wf st; entries_wf (ot_entries t); g_tables st' = (g_tables st)(p := (g_tables st p)(w \<mapsto> t))\<rbrakk> \<Longrightarrow> tables_wf st'"
  by (auto simp: tables_wf_def)

lemma opt_table_wf:
  assumes "tables_wf st" "opt_table env p w create st = Some (p', w', t, st')"
  shows "tables_wf st'" "t = Some t' \<Longrightarrow> entries_wf (ot_entries t')"
  using assms by (auto simp: opt_table_def Let_def tables_wf_def entries_wf_def zero_wf split: option.splits if_splits)

lemma opt_table_total:
  obtains p' w' t st' where "opt_table env p w create st = Some (p', w', t, st')"
proof -
  have "\<not> MAX_PROFILES \<le> (if p < 0 \<or> p \<ge> int MAX_PROFILES then 0 else nat p)"
    "\<not> NE_CRYPTO_WORKERS \<le> (if w < 0 \<or> w \<ge> int NE_CRYPTO_WORKERS then 0 else nat w)"
    by (auto simp: MAX_PROFILES_def NE_CRYPTO_WORKERS_def)
  then have "\<exists>r. opt_table env p w create st = Some r"
    unfolding opt_table_def Let_def by (simp only: simp_thms if_False split: option.split if_split) blast
  with that show ?thesis by fastforce
qed

definition reasm_ok :: "buf \<Rightarrow> buf \<Rightarrow> int \<times> nat \<times> nat \<times> buf \<times> buf \<times> ('c, 'z) l2_state_scheme \<Rightarrow> bool" where
  "reasm_ok b out = (\<lambda>(rc, n, out_len, b', out', st'). length b' = length b \<and> length out' = length out \<and> tables_wf st'
     \<and> n \<le> NE_FRAME \<and> out_len \<le> NE_FRAME)"

lemma udp_reasm_safe:
  assumes "lib_bounded lib" "n \<le> length b" "n \<le> NE_FRAME" "length out = NE_FRAME" "tables_wf st"
  shows "mem_ok (reasm_ok b out) (l2_udp_reasm lib env p w ctx st b n out)"
proof -
  obtain r b' st' where d: "l2_do_decrypt_udp lib ctx st b n = Some (r, b', st')" "udp_kept b n st (r, b', st')"
    using do_decrypt_udp_safe [OF assms(1,2), of st ctx] by (auto simp: mem_ok_def)
  have st': "tables_wf st'" using d(2) assms(5) dec_only_tables [of st st'] by (simp add: udp_kept_def tables_wf_def)
  have b': "length b' = length b" using d(2) by (simp add: udp_kept_def)
  show ?thesis
  proof (cases r)
    case None
    then show ?thesis using d(1) st' b' assms by (simp add: l2_udp_reasm_def reasm_ok_def)
  next
    case (Some m)
    obtain nd e s dg kind where m: "m = (nd, e, s, dg, kind)" by (metis prod_cases5)
    have nd: "nd \<le> length b'" "nd \<le> NE_FRAME" using d(2) b' assms(2,3) by (auto simp: udp_kept_def Some m)
    have keep: "reasm_ok b out (-1, nd, 0, b', out, st')" using st' b' nd by (simp add: reasm_ok_def)
    obtain ip where ip: "crypto_pkt_is_ipv4 b' nd = Some ip" using marker_safe(3) [OF nd(1)] ..
    have full: "mem_ok (reasm_ok b out) (do { bytes \<leftarrow> rdn b' 0 nd; out \<leftarrow> wrn out 0 bytes;
        Some (1, nd, nd, b', out, crypto_option_udp_set_rx_meta e s st') })"
      using nd st' b' assms(4) by (simp add: reasm_ok_def tables_wf_def crypto_option_udp_set_rx_meta_def)
    obtain p' w' t st1 where t: "opt_table env p w True st' = Some (p', w', t, st1)" by (rule opt_table_total)
    note tw = opt_table_wf [OF st' t]
    have part: "mem_ok (reasm_ok b out) (do {
        (rr, out_len, es, out) \<leftarrow> l2_reassemble env (ot_entries ft) b' nd e dg s kind out;
        let st = st1\<lparr>g_tables := (g_tables st1)(p' := (g_tables st1 p')(w' \<mapsto> ft\<lparr>ot_entries := es\<rparr>))\<rparr>;
        if rr = 1 then Some (rr, out_len, out_len, b', out, crypto_option_udp_set_rx_meta e s st)
        else Some (rr, nd, out_len, b', out, st) })" if "t = Some ft" for ft
    proof (rule mem_ok_bind [OF reassemble_safe [OF nd(1) tw(2) [OF that] assms(4)]], clarify, goal_cases)
      case (1 rr out_len es out')
      then have "tables_wf (st1\<lparr>g_tables := (g_tables st1)(p' := (g_tables st1 p')(w' \<mapsto> ft\<lparr>ot_entries := es\<rparr>))\<rparr>)"
        using tw(1) by (intro tables_wf_upd [OF tw(1), of "ft\<lparr>ot_entries := es\<rparr>"]) (auto simp: joined_ok_def)
      then show ?case using 1 nd b' by (auto simp: joined_ok_def reasm_ok_def Let_def tables_wf_def crypto_option_udp_set_rx_meta_def)
    qed
    have none: "reasm_ok b out (-1, nd, 0, b', out, st1)" using tw(1) b' nd by (simp add: reasm_ok_def)
    show ?thesis
      using full part keep none
      by (cases t) (simp_all only: l2_udp_reasm_def d(1) Some m ip t run_simps mem_ok_Some split: if_split)
  qed
qed

lemma gc_entries_wf:
  assumes "entries_wf (ot_entries t)"
  shows "mem_ok (\<lambda>t'. entries_wf (ot_entries t')) (opt_frag_gc_table t now)"
proof -
  have "entries_wf (fold (\<lambda>n es. let i = (start + n) mod OPT_FRAG_TABLE_SIZE in es(i := gc_entry now (es i))) ns es)"
    if "entries_wf es" for start ns es
    using that
  proof (induction ns arbitrary: es)
    case (Cons n ns)
    have "entries_wf (es(i := gc_entry now (es i)))" for i
      using Cons.prems clear_wf by (auto simp: gc_entry_def entries_wf_def)
    from Cons.IH [OF this] show ?case unfolding fold_Cons comp_apply Let_def .
  qed simp
  then show ?thesis using assms by (simp add: frag_gc_table_run)
qed

lemma gc_tables_wf:
  assumes "tables_wf st"
  shows "mem_ok tables_wf (l2_udp_frag_gc env p w now st)"
proof -
  obtain p' w' t st' where t: "opt_table env p w False st = Some (p', w', t, st')" by (rule opt_table_total)
  note tw = opt_table_wf [OF assms t]
  show ?thesis
  proof (cases t)
    case None
    then show ?thesis using t tw(1) by (simp add: l2_udp_frag_gc_def)
  next
    case (Some ft)
    obtain ft' where "opt_frag_gc_table ft now = Some ft'" "entries_wf (ot_entries ft')"
      using gc_entries_wf [OF tw(2) [OF Some]] by (auto simp: mem_ok_def)
    then show ?thesis using t tw(1) Some by (simp add: l2_udp_frag_gc_def tables_wf_def)
  qed
qed

section \<open>The property\<close>

text \<open>C5: Whatever bytes arrive from the network, and whatever the cipher library answers, the receive side of
  the layer-2 option touches only the memory it is given, and only places inside its fixed arrays, the tables of
  profiles and workers and the 4096 entries of a table: for every protocol class, every profile and worker number,
  decryption and reassembly return a frame and an output buffer of unchanged size, lengths within a frame, and
  well-formed reassembly tables, and so does a collection of expired entries.\<close>

theorem l2_receive_memory_safe:
  assumes "lib_bounded lib" "pkt_len \<le> length pkt" "pkt_len \<le> NE_FRAME" "length out = NE_FRAME" "tables_wf st"
  shows "(\<exists>rc n pkt' st'. crypto_option_decrypt lib env oid proto ctx st pkt pkt_len = Some (rc, n, pkt', st')
      \<and> length pkt' = length pkt \<and> n \<le> pkt_len \<and> tables_wf st')
    \<and> (\<exists>rc n out_len pkt' out' st'. crypto_option_reassemble lib env oid proto p w ctx st pkt pkt_len out
        = Some (rc, n, out_len, pkt', out', st')
      \<and> length pkt' = length pkt \<and> length out' = NE_FRAME \<and> n \<le> NE_FRAME \<and> out_len \<le> NE_FRAME \<and> tables_wf st')
    \<and> (\<exists>st'. crypto_option_frag_gc_all lib env p w now st = Some st' \<and> tables_wf st')"
proof (intro conjI)
  show "\<exists>rc n pkt' st'. crypto_option_decrypt lib env oid proto ctx st pkt pkt_len = Some (rc, n, pkt', st')
      \<and> length pkt' = length pkt \<and> n \<le> pkt_len \<and> tables_wf st'"
  proof (cases oid)
    case CRYPTO_OPT_L2_PQC
    then have "mem_ok (decrypted_ok pkt pkt_len st) (crypto_option_decrypt lib env oid proto ctx st pkt pkt_len)"
      using tcp_decrypt_safe [OF assms(1,2), of st ctx] udp_decrypt_safe [OF assms(1,2), of st ctx]
        arp_decrypt_safe [OF assms(1,2), of st ctx]
      by (simp add: router_decrypt)
    then show ?thesis using assms(5) by (auto simp: mem_ok_def decrypted_ok_def tables_wf_def)
  qed (use assms(5) in \<open>simp add: crypto_option_decrypt_def crypto_option_ops_def\<close>)
  show "\<exists>rc n out_len pkt' out' st'. crypto_option_reassemble lib env oid proto p w ctx st pkt pkt_len out
        = Some (rc, n, out_len, pkt', out', st')
      \<and> length pkt' = length pkt \<and> length out' = NE_FRAME \<and> n \<le> NE_FRAME \<and> out_len \<le> NE_FRAME \<and> tables_wf st'"
  proof (cases oid)
    case CRYPTO_OPT_L2_PQC
    then have "mem_ok (reasm_ok pkt out) (crypto_option_reassemble lib env oid proto p w ctx st pkt pkt_len out)"
      using udp_reasm_safe [OF assms, of env p w ctx] assms(3,5) by (simp add: router_reassemble reasm_ok_def)
    then show ?thesis using assms(4) by (auto simp: mem_ok_def reasm_ok_def)
  qed (use assms in \<open>simp add: crypto_option_reassemble_def crypto_option_ops_def\<close>)
  show "\<exists>st'. crypto_option_frag_gc_all lib env p w now st = Some st' \<and> tables_wf st'"
    using gc_tables_wf [OF assms(5)]
    by (simp add: crypto_option_frag_gc_all_def crypto_option_frag_gc_def router_defs mem_ok_def)
qed

lemma xor_lib_bounded: "lib_bounded xor_lib"
  by (auto simp: lib_bounded_def xor_lib_def split: prod.split)

theorem l2_receive_memory_safe_witness:
  "(\<exists>rc n pkt' st'. crypto_option_decrypt xor_lib example_env CRYPTO_OPT_L2_PQC CRYPTO_PROTO_UDP (example_ctx 0 2 0) example_l2
        (replicate 1500 0x10) 1500 = Some (rc, n, pkt', st') \<and> length pkt' = length (replicate 1500 (0x10 :: u8)) \<and> n \<le> 1500 \<and> tables_wf st')
    \<and> (\<exists>rc n out_len pkt' out' st'. crypto_option_reassemble xor_lib example_env CRYPTO_OPT_L2_PQC CRYPTO_PROTO_UDP 0 3
        (example_ctx 0 2 0) example_l2 (replicate 1500 0x10) 1500 (replicate NE_FRAME 0) = Some (rc, n, out_len, pkt', out', st')
      \<and> length pkt' = length (replicate 1500 (0x10 :: u8)) \<and> length out' = NE_FRAME \<and> n \<le> NE_FRAME \<and> out_len \<le> NE_FRAME \<and> tables_wf st')
    \<and> (\<exists>st'. crypto_option_frag_gc_all xor_lib example_env 0 3 5 example_l2 = Some st' \<and> tables_wf st')"
  by (rule l2_receive_memory_safe [OF xor_lib_bounded]) (simp_all add: NE_FRAME_def tables_wf_def example_l2_def)

section \<open>Encryption without room\<close>

lemma trf_encrypt_overrun:
  assumes "scrypt_gcm lib enc tag" "length k = 32" "length n = 12" "0 < len" "off + len \<le> length b" "length b < off + len + 16"
  shows "trf_encrypt_payload_gcm lib True c k n b off len = None"
proof -
  let ?p = "slice b off len"
  have p: "?p \<noteq> []" "length ?p = len" using assms by (auto simp flip: length_greater_0_conv)
  note L = scrypt_gcmD [OF assms(1-3) p(1)]
  obtain r0 c0 where c0: "scrypt_CipherInit lib c k n True = (r0, c0)" by fastforce
  obtain r1 out c1 where c1: "scrypt_CipherUpdate lib (scrypt_CipherSetTagSize lib c0 TAG_SIZE_GCM) ?p = (r1, out, c1)"
    by (metis prod_cases3)
  obtain r2 fin c2 where c2: "scrypt_CipherFinal lib c1 = (r2, fin, c2)" by (metis prod_cases3)
  obtain r3 t c3 where c3: "scrypt_CipherGetTag lib c2 = (r3, t, c3)" by (metis prod_cases3)
  have S: "r0 = 0" "r1 = 0" "r2 = 0" "r3 = 0" "enc k n ?p = out @ fin" "tag k n ?p = t"
    using L(3) [of c] by (simp_all add: gcm_sealed_def c0 c1 c2 c3)
  have len: "length out + length fin = len" "length t = 16" using L(1,2) S(5,6) p(2) by auto
  then have "wrn (patch (patch b off out) (off + length out) fin) (off + length out + length fin) t = None"
    using assms(5,6) by (simp add: wrn_def)
  then show ?thesis
    using assms(4,5) S(1-4) len c0 c1 c2 c3 by (simp add: trf_encrypt_payload_gcm_def TAG_SIZE_GCM_def)
qed

lemma do_encrypt_overrun:
  assumes "scrypt_gcm lib enc tag" "can_seal lib ctx st k"
    and "crypto_eth_ipv4_offset b n = Some (Some l3)" "n \<le> length b" "length b < n + 30"
  shows "l2_do_encrypt lib ctx st b n = None"
proof -
  obtain sess where sd: "crypto_pqc_sess_load ctx = Some sess" "sess_key sess = k" "length k = 32"
    "ctx_wf ctx" "cipher_ready lib st" "salt_ready lib st" using can_sealD [OF assms(2)] by blast
  obtain et where et: "l3 = et + 2" "crypto_eth_inner_et_off b n = Some (Some et)" "et + 22 \<le> n"
    using ipv4_offsetD [OF assms(3,4)] by metis
  let ?n = "next_nonce lib st" and ?st = "after_nonce lib st"
  have nn: "length ?n = 12" using length_next_nonce [OF sd(6)] .
  have offs: "et + 2 + 1 + 1 + L2_NONCE_SIZE = et + 16" "\<not> n < et + 16" using et(3) by (simp_all add: L2_NONCE_SIZE_def)
  show ?thesis
  proof (cases "n + 14 \<le> length b")
    case True
    let ?b1 = "patch b (et + 16) (slice b (et + 2) (n - (et + 2)))"
    have m: "mmove b (et + 16) (et + 2) (n - (et + 2)) = Some ?b1" and l1: "length ?b1 = length b" using True et by simp_all
    let ?b2 = "patch ?b1 et (wire_header NE_L2_FAKE_ETHERTYPE (ctx_wire_id ctx) (g_worker_idx ?st) ?n)"
    have w: "l2_write_wire_header ?st ?b1 et (ctx_wire_id ctx) ?n = Some ?b2"
      using l1 True et nn by (simp add: l2_write_wire_header_def write_wire_header)
    have l2: "length ?b2 = length b" using l1 True et nn by simp
    have z: "0 < n - (et + 2)" "et + 16 + (n - (et + 2)) \<le> length ?b2" "length ?b2 < et + 16 + (n - (et + 2)) + 16"
      using l2 et True assms(5) by simp_all
    have ready: "cipher_ready lib ?st" using sd(5) by simp
    have "crypto_pqc_encrypt_payload lib ?st sess ?n ?b2 (et + 16) (n - (et + 2)) = None"
      using trf_encrypt_overrun [OF assms(1) sd(3) nn z] ready z(1) sd(2)
      by (auto simp: crypto_pqc_encrypt_payload_def crypto_pqc_tls_cipher_def cipher_ready_def Let_def split: option.splits)
    then show ?thesis
      by (simp only: l2_do_encrypt_def crypto_eth_l2_prefix_len_def assms(3) et(1,2) offs m sd(1) w
          pqc_generate_nonce [OF sd(6)] run_simps)
  next
    case False
    then have "mmove b (et + 16) (et + 2) (n - (et + 2)) = None" using et by (simp add: mmove_def wrn_def rdn_def)
    then show ?thesis
      by (simp only: l2_do_encrypt_def crypto_eth_l2_prefix_len_def assms(3) et(1,2) offs run_simps)
  qed
qed

text \<open>Only the UDP encryption checks that its result fits the frame: a UDP datagram without room for the
  47 bytes of overhead is rejected and left as it is. The encryption of TCP, ICMP and OSPF packets, and of every
  other IPv4 packet, has no such check: a packet without room for its 30 bytes is written past the end of the
  frame.\<close>

lemma l2_encrypt_without_room:
  assumes "scrypt_gcm lib enc tag" "can_seal lib ctx st k"
    and "crypto_eth_ipv4_offset pkt len = Some (Some l3)" "length pkt = NE_FRAME" "len \<le> NE_FRAME" "NE_FRAME < len + 30"
    and "crypto_option_udp_tx_meta env st = (Some (e, s, d), st0)"
  shows "crypto_option_encrypt lib env CRYPTO_OPT_L2_PQC CRYPTO_PROTO_UDP ctx st pkt len = Some (-1, len, pkt, st0)
    \<and> crypto_option_encrypt lib env CRYPTO_OPT_L2_PQC CRYPTO_PROTO_TCP ctx st pkt len = None"
proof -
  have lp: "len \<le> length pkt" using assms(4,5) by simp
  obtain et where et: "l3 = et + 2" "crypto_eth_inner_et_off pkt len = Some (Some et)" "et + 22 \<le> len"
    using ipv4_offsetD [OF assms(3) lp] by metis
  have init: "ctx_initialized ctx" using assms(2) by (simp add: can_seal_def)
  have ip: "crypto_pkt_is_ipv4 pkt len = Some True" "\<not> len < MIN_ETH_PKT"
    using assms(3) et(3) by (simp_all add: crypto_pkt_is_ipv4_def MIN_ETH_PKT_def ETH_HEADER_SIZE_def)
  have big: "et + 2 + 1 + 1 + L2_NONCE_SIZE + L2_UDP_MARKER_SIZE + (L2_UDP_SHIM_SIZE + (len - (et + 2))) + AES_GCM_TAG_SIZE > NE_FRAME"
    using assms(6) et(3) by (simp add: l2_sizes)
  have "l2_do_encrypt_udp lib env ctx st pkt len = Some (None, pkt, st0)"
    by (simp only: l2_do_encrypt_udp_def crypto_eth_l2_prefix_len_def assms(3,7) et(1,2) big run_simps)
  moreover have "l2_do_encrypt lib ctx st pkt len = None"
    using do_encrypt_overrun [OF assms(1-3) lp] assms(4,6) by simp
  ultimately show ?thesis
    using init ip by (simp add: router_encrypt l2_udp_encrypt_def l2_tcp_encrypt_def len_result_def)
qed

end
