(* ===== verification/Cfm_Link.thy ===== *)
theory Cfm_Link
  imports Policy_Config Eth_Parse Flow_Table
begin

text \<open>
  Link monitoring of the WANs, \<open>src/core/failover/cfm_diag.c\<close> and \<open>cfm.h\<close>: heartbeat frames (CCM) with their
  byte layout, the handling of received frames, and the evaluation that runs every 100 ms and declares a link
  up or down after several observations in a row. The monitor thread is a sequence of events on a link: a frame
  from the raw socket, or an evaluation, each with the clock value it reads. Sockets, locks, log output and the
  state callback (which the program never sets) are not represented.
\<close>

section \<open>Definitions\<close>

definition CFM_TIMEOUT_MS :: u64 where "CFM_TIMEOUT_MS = 350"
definition CFM_STARTUP_TIMEOUT_MS :: u64 where "CFM_STARTUP_TIMEOUT_MS = 1000"
definition CFM_DOWN_CONFIRM :: int where "CFM_DOWN_CONFIRM = 2"
definition CFM_UP_CONFIRM :: int where "CFM_UP_CONFIRM = 3"
definition ETH_P_CFM :: u16 where "ETH_P_CFM = 0x8902"
definition CFM_OPCODE_CCM :: u8 where "CFM_OPCODE_CCM = 1"
definition CFM_MULTICAST_MAC :: buf where "CFM_MULTICAST_MAC = [0x01, 0x80, 0xC2, 0x00, 0x00, 0x35]"

lemmas cfm_defs = CFM_TIMEOUT_MS_def CFM_STARTUP_TIMEOUT_MS_def CFM_DOWN_CONFIRM_def CFM_UP_CONFIRM_def

record cfm_link =
  cl_last_recv_time :: u64
  cl_rx_any :: u64
  cl_rx_short :: u64
  cl_rx_not_cfm :: u64
  cl_rx_bad_ccm :: u64
  cl_rx_peer_ccm :: u64
  cl_rx_own_skip :: u64
  cl_local_mep_id :: int
  cl_remote_mep_id :: int
  cl_cfg_wan_idx :: int
  cl_wan_dp :: int
  cl_consecutive_fails :: int
  cl_consecutive_successes :: int
  cl_tx_seq :: u32
  cl_ifname :: string
  cl_bridge :: string
  cl_local_mac :: buf
  cl_remote_mac :: buf
  cl_is_up :: bool
  cl_mac_learned :: bool

subsection \<open>Look-up\<close>

definition find_link_by_wan_dp :: "cfm_link list \<Rightarrow> int \<Rightarrow> cfm_link option" where
  "find_link_by_wan_dp links wan_dp =
     (if wan_dp < 0 then None else find (\<lambda>l. cl_wan_dp l = wan_dp) links)"

definition cfm_bridge_for_wan_dp :: "app_config \<Rightarrow> int \<Rightarrow> string" where
  "cfm_bridge_for_wan_dp cfg wan_dp =
     (if wan_dp < 0 \<or> ac_profiles cfg = [] then []
      else case find (\<lambda>b. bp_wan_dp b = wan_dp \<and> bp_ifname b \<noteq> []) (pf_bridges (hd (ac_profiles cfg))) of
          None \<Rightarrow> []
        | Some b \<Rightarrow> take 15 (bp_ifname b))"

record cfm_wan_snap =
  sn_ifname :: string
  sn_bridge :: string
  sn_peer_mac :: buf
  sn_mac_learned :: bool
  sn_is_up :: bool

definition cfm_snapshot_wan_peers :: "cfm_link list \<Rightarrow> int \<Rightarrow> cfm_wan_snap list" where
  "cfm_snapshot_wan_peers links max_n =
     map (\<lambda>l. \<lparr>sn_ifname = take 15 (cl_ifname l), sn_bridge = take 15 (cl_bridge l), sn_peer_mac = cl_remote_mac l,
        sn_mac_learned = cl_mac_learned l, sn_is_up = cl_is_up l\<rparr>) (take (nat max_n) links)"

definition cfm_wan_status_by_name :: "cfm_link list \<Rightarrow> string \<Rightarrow> int" where
  "cfm_wan_status_by_name links name =
     (if name = [] then -1
      else let hits = filter (\<lambda>l. name = cl_ifname l \<or> name = cl_bridge l) links
           in if hits = [] then -1 else if list_ex cl_is_up hits then 1 else 0)"

definition cfm_link_is_down :: "cfm_link list \<Rightarrow> int \<Rightarrow> bool" where
  "cfm_link_is_down links wan_dp =
     (case find_link_by_wan_dp links wan_dp of None \<Rightarrow> False | Some l \<Rightarrow> \<not> cl_is_up l)"

subsection \<open>Heartbeats\<close>

text \<open>The packed struct \<open>cfm_ccm_packet\<close> with the fields that \<open>send_ccm_packet\<close> sets, byte by byte.\<close>

definition ccm_maid :: "string \<Rightarrow> buf" where
  "ccm_maid ifname =
     (let s = map of_char (''MA-WAN-PORT-'' @ take 16 ifname) in s @ replicate (48 - length s) 0)"

definition ccm_packet :: "buf \<Rightarrow> buf \<Rightarrow> u32 \<Rightarrow> u16 \<Rightarrow> string \<Rightarrow> buf" where
  "ccm_packet dst src seqno mep ifname =
     dst @ src @ be16_bytes ETH_P_CFM
     @ [0xA0, CFM_OPCODE_CCM, 4, 70] @ be32_bytes seqno @ be16_bytes mep @ ccm_maid ifname
     @ replicate 22 0 @ [0]"

definition send_ccm_packet :: "cfm_link \<Rightarrow> buf \<times> cfm_link" where
  "send_ccm_packet l =
     (ccm_packet (if cl_mac_learned l then cl_remote_mac l else CFM_MULTICAST_MAC) (cl_local_mac l) (cl_tx_seq l)
        (of_int (cl_local_mep_id l)) (cl_ifname l),
      l\<lparr>cl_tx_seq := cl_tx_seq l + 1\<rparr>)"

text \<open>The part of the receive loop that has found a CCM of another station.\<close>

definition cfm_peer_ccm :: "cfm_link \<Rightarrow> buf \<Rightarrow> u16 \<Rightarrow> u64 \<Rightarrow> cfm_link" where
  "cfm_peer_ccm l src_mac rx_mep_id now =
     (if \<not> cl_mac_learned l then
        l\<lparr>cl_remote_mac := src_mac, cl_remote_mep_id := uint rx_mep_id, cl_mac_learned := True, cl_is_up := True,
          cl_last_recv_time := now, cl_consecutive_fails := 0, cl_consecutive_successes := CFM_UP_CONFIRM,
          cl_rx_peer_ccm := cl_rx_peer_ccm l + 1\<rparr>
      else if src_mac \<noteq> cl_remote_mac l then
        l\<lparr>cl_remote_mac := src_mac, cl_remote_mep_id := uint rx_mep_id, cl_last_recv_time := now,
          cl_consecutive_fails := 0, cl_consecutive_successes := CFM_UP_CONFIRM, cl_is_up := True,
          cl_rx_peer_ccm := cl_rx_peer_ccm l + 1\<rparr>
      else if uint rx_mep_id = cl_remote_mep_id l then
        (let succs = (if cl_consecutive_successes l < CFM_UP_CONFIRM then cl_consecutive_successes l + 1
                      else cl_consecutive_successes l)
         in l\<lparr>cl_last_recv_time := now, cl_consecutive_fails := 0, cl_consecutive_successes := succs,
              cl_is_up := (if succs \<ge> CFM_UP_CONFIRM then True else cl_is_up l),
              cl_rx_peer_ccm := cl_rx_peer_ccm l + 1\<rparr>)
      else l)"

text \<open>One received frame.\<close>

definition cfm_rx :: "cfm_link \<Rightarrow> buf \<Rightarrow> nat \<Rightarrow> u64 \<Rightarrow> cfm_link mem" where
  "cfm_rx l b rx_bytes now =
     (let l = l\<lparr>cl_rx_any := cl_rx_any l + 1\<rparr> in
      if rx_bytes < 14 + 4 then Some (l\<lparr>cl_rx_short := cl_rx_short l + 1\<rparr>)
      else do {
        eth_type \<leftarrow> eth_read_et b 12;
        if eth_type \<noteq> ETH_P_CFM then Some (l\<lparr>cl_rx_not_cfm := cl_rx_not_cfm l + 1\<rparr>)
        else if rx_bytes < 14 + 10 then Some (l\<lparr>cl_rx_short := cl_rx_short l + 1\<rparr>)
        else do {
          src_mac \<leftarrow> rdn b 6 6;
          c0 \<leftarrow> rd8 b 14;
          opc \<leftarrow> rd8 b 15;
          if drop_bit 5 c0 AND 0x07 \<noteq> 5 \<or> opc \<noteq> CFM_OPCODE_CCM
          then Some (l\<lparr>cl_rx_bad_ccm := cl_rx_bad_ccm l + 1\<rparr>)
          else do {
            rx_mep_id \<leftarrow> eth_read_et b 22;
            if src_mac = cl_local_mac l then Some (l\<lparr>cl_rx_own_skip := cl_rx_own_skip l + 1\<rparr>)
            else Some (cfm_peer_ccm l src_mac rx_mep_id now) } } })"

text \<open>The evaluation of a link every 100 ms, after its heartbeat was sent.\<close>

definition cfm_eval :: "cfm_link \<Rightarrow> u64 \<Rightarrow> cfm_link" where
  "cfm_eval l now =
     (if cl_mac_learned l then
        if now - cl_last_recv_time l > CFM_TIMEOUT_MS then
          (let fails = cl_consecutive_fails l + 1
           in l\<lparr>cl_consecutive_fails := fails, cl_consecutive_successes := 0,
                cl_is_up := (if fails \<ge> CFM_DOWN_CONFIRM then False else cl_is_up l)\<rparr>)
        else
          (let succs = (if cl_consecutive_successes l < CFM_UP_CONFIRM then cl_consecutive_successes l + 1
                        else cl_consecutive_successes l)
           in l\<lparr>cl_consecutive_fails := 0, cl_consecutive_successes := succs,
                cl_is_up := (if succs \<ge> CFM_UP_CONFIRM then True else cl_is_up l)\<rparr>)
      else l\<lparr>cl_is_up := \<not> now - cl_last_recv_time l > CFM_STARTUP_TIMEOUT_MS\<rparr>)"

subsection \<open>Set-up\<close>

definition mep_of_mac :: "buf \<Rightarrow> int" where
  "mep_of_mac mac = (let m = uint (be16 (mac ! 4) (mac ! 5) AND 0x1FFF) in if m = 0 then 1 else m)"

text \<open>The link of WAN \<open>i\<close>; \<open>hw_mac\<close> is the answer to \<open>SIOCGIFHWADDR\<close>, if it succeeds.\<close>

definition cfm_link_of :: "app_config \<Rightarrow> nat \<Rightarrow> buf option \<Rightarrow> u64 \<Rightarrow> cfm_link" where
  "cfm_link_of cfg i hw_mac now =
     (let wan = ac_wans cfg ! i;
          wan_dp = config_wan_cfg_to_dp cfg (int i);
          local_mac = (case hw_mac of Some m \<Rightarrow> m | None \<Rightarrow> wc_src_mac wan);
          known = list_ex (\<lambda>x. x \<noteq> 0) (take 6 (wc_dst_mac wan))
      in \<lparr>cl_last_recv_time = now, cl_rx_any = 0, cl_rx_short = 0, cl_rx_not_cfm = 0, cl_rx_bad_ccm = 0,
          cl_rx_peer_ccm = 0, cl_rx_own_skip = 0, cl_local_mep_id = mep_of_mac local_mac,
          cl_remote_mep_id = (if known then mep_of_mac (wc_dst_mac wan) else 0), cl_cfg_wan_idx = int i,
          cl_wan_dp = wan_dp, cl_consecutive_fails = 0,
          cl_consecutive_successes = (if known then CFM_UP_CONFIRM else 0), cl_tx_seq = 0,
          cl_ifname = take 15 (wc_ifname wan), cl_bridge = cfm_bridge_for_wan_dp cfg wan_dp, cl_local_mac = local_mac,
          cl_remote_mac = (if known then wc_dst_mac wan else replicate 6 0), cl_is_up = True, cl_mac_learned = known\<rparr>)"

text \<open>\<open>probe i\<close> is \<^const>\<open>None\<close> when the interface, the socket or its binding is not available, and otherwise the
  hardware address, if it can be read. The result is the list of links that are monitored.\<close>

definition cfm_init :: "app_config \<Rightarrow> (nat \<Rightarrow> buf option option) \<Rightarrow> u64 \<Rightarrow> cfm_link list" where
  "cfm_init cfg probe now =
     concat (map (\<lambda>i. if wc_ifname (ac_wans cfg ! i) = [] \<or> wc_dst_ip (ac_wans cfg ! i) \<noteq> 0 then []
          else case probe i of None \<Rightarrow> [] | Some hw_mac \<Rightarrow> [cfm_link_of cfg i hw_mac now])
        [0..<min (length (ac_wans cfg)) MAX_INTERFACES])"

text \<open>The monitor thread on one link.\<close>

datatype cfm_event = Rx buf nat u64 | Tick u64

fun cfm_step :: "cfm_event \<Rightarrow> cfm_link \<Rightarrow> cfm_link mem" where
  "cfm_step (Rx b n now) l = cfm_rx l b n now"
| "cfm_step (Tick now) l = Some (cfm_eval (snd (send_ccm_packet l)) now)"

primrec cfm_run :: "cfm_event list \<Rightarrow> cfm_link \<Rightarrow> cfm_link mem" where
  "cfm_run [] l = Some l"
| "cfm_run (e # es) l = cfm_step e l \<bind> cfm_run es"

lemma cfm_run_append: "cfm_run (xs @ ys) l = cfm_run xs l \<bind> cfm_run ys"
  by (induction xs arbitrary: l) (auto simp: Option.bind_assoc intro!: arg_cong [where f = "Option.bind _"])

section \<open>Memory safety and the debounce invariant\<close>

fun event_ok :: "cfm_event \<Rightarrow> bool" where
  "event_ok (Rx b n now) \<longleftrightarrow> n \<le> length b"
| "event_ok (Tick now) \<longleftrightarrow> True"

text \<open>A link that is up has fewer failures in a row than a link may have, one that is down fewer successes.\<close>

definition link_inv :: "cfm_link \<Rightarrow> bool" where
  "link_inv l \<longleftrightarrow> 0 \<le> cl_consecutive_fails l \<and> 0 \<le> cl_consecutive_successes l \<and> cl_consecutive_successes l \<le> CFM_UP_CONFIRM
     \<and> (if cl_mac_learned l
        then (if cl_is_up l then cl_consecutive_fails l < CFM_DOWN_CONFIRM else cl_consecutive_successes l < CFM_UP_CONFIRM)
        else cl_consecutive_fails l = 0 \<and> cl_consecutive_successes l = 0)"

lemma peer_ccm_inv [inv_intros]: "link_inv l \<Longrightarrow> link_inv (cfm_peer_ccm l src mep now)"
  by (auto simp: link_inv_def cfm_peer_ccm_def Let_def cfm_defs split: if_splits)

lemma eval_inv [inv_intros]: "link_inv l \<Longrightarrow> link_inv (cfm_eval l now)"
  by (auto simp: link_inv_def cfm_eval_def Let_def cfm_defs split: if_splits)

lemma counter_inv [inv_intros]:
  "link_inv l \<Longrightarrow> link_inv (l\<lparr>cl_rx_any := a, cl_rx_short := b, cl_rx_not_cfm := c, cl_rx_bad_ccm := d, cl_rx_own_skip := e,
     cl_tx_seq := f\<rparr>)"
  by (simp add: link_inv_def)

lemma step_total: "event_ok e \<Longrightarrow> \<exists>l'. cfm_step e l = Some l'"
  by (cases e) (auto simp: cfm_rx_def Let_def)

lemma rx_cases:
  assumes "cfm_rx l b n now = Some l'" "n \<le> length b"
  obtains a s c d e where "l' = l\<lparr>cl_rx_any := a, cl_rx_short := s, cl_rx_not_cfm := c, cl_rx_bad_ccm := d, cl_rx_own_skip := e\<rparr>"
  | "l' = cfm_peer_ccm (l\<lparr>cl_rx_any := cl_rx_any l + 1\<rparr>) (slice b 6 6) (et_at b 22) now" "24 \<le> n" "slice b 6 6 \<noteq> cl_local_mac l"
proof -
  note counted = that(1) and heard = that(2)
  let ?l = "l\<lparr>cl_rx_any := cl_rx_any l + 1\<rparr>"
  have idle: thesis if "l' = ?l\<lparr>cl_rx_short := s, cl_rx_not_cfm := c, cl_rx_bad_ccm := d, cl_rx_own_skip := e\<rparr>" for s c d e
    using that by (intro counted) simp
  consider "l' = ?l\<lparr>cl_rx_short := cl_rx_short l + 1\<rparr>" | "l' = ?l\<lparr>cl_rx_not_cfm := cl_rx_not_cfm l + 1\<rparr>"
    | "l' = ?l\<lparr>cl_rx_bad_ccm := cl_rx_bad_ccm l + 1\<rparr>" | "l' = ?l\<lparr>cl_rx_own_skip := cl_rx_own_skip l + 1\<rparr>"
    | "l' = cfm_peer_ccm ?l (slice b 6 6) (et_at b 22) now" "24 \<le> n" "slice b 6 6 \<noteq> cl_local_mac l"
    using assms by (auto simp: cfm_rx_def Let_def split: if_splits)
  then show ?thesis
  proof cases
    case 1
    then show ?thesis by (intro idle [of "cl_rx_own_skip l" "cl_rx_bad_ccm l" "cl_rx_not_cfm l" "cl_rx_short l + 1"]) simp
  next
    case 2
    then show ?thesis by (intro idle [of "cl_rx_own_skip l" "cl_rx_bad_ccm l" "cl_rx_not_cfm l + 1" "cl_rx_short l"]) simp
  next
    case 3
    then show ?thesis by (intro idle [of "cl_rx_own_skip l" "cl_rx_bad_ccm l + 1" "cl_rx_not_cfm l" "cl_rx_short l"]) simp
  next
    case 4
    then show ?thesis by (intro idle [of "cl_rx_own_skip l + 1" "cl_rx_bad_ccm l" "cl_rx_not_cfm l" "cl_rx_short l"]) simp
  qed (rule heard)
qed

lemma step_inv: "\<lbrakk>cfm_step e l = Some l'; event_ok e; link_inv l\<rbrakk> \<Longrightarrow> link_inv l'"
proof (cases e)
  case (Rx b n now)
  assume a: "cfm_step e l = Some l'" "event_ok e" "link_inv l"
  then have "cfm_rx l b n now = Some l'" "n \<le> length b" by (simp_all add: Rx)
  then show ?thesis
  proof (cases rule: rx_cases)
    case 1
    then show ?thesis using a(3) by (simp add: link_inv_def)
  next
    case 2
    then show ?thesis using a(3) by (simp add: link_inv_def [of "l\<lparr>cl_rx_any := _\<rparr>"] link_inv_def [of l] peer_ccm_inv)
  qed
next
  case (Tick now)
  assume "cfm_step e l = Some l'" "event_ok e" "link_inv l"
  then show ?thesis using eval_inv [of "l\<lparr>cl_tx_seq := cl_tx_seq l + 1\<rparr>" now] by (simp add: Tick send_ccm_packet_def link_inv_def)
qed

lemma link_of_inv: "link_inv (cfm_link_of cfg i hw now)"
  by (simp add: link_inv_def cfm_link_of_def Let_def cfm_defs)

section \<open>Failover\<close>

lemma silent_tick:
  assumes "cl_mac_learned l" "now - cl_last_recv_time l > CFM_TIMEOUT_MS"
  shows "\<exists>l'. cfm_step (Tick now) l = Some l' \<and> cl_mac_learned l' \<and> cl_last_recv_time l' = cl_last_recv_time l
    \<and> cl_consecutive_successes l' = 0 \<and> cl_consecutive_fails l' = cl_consecutive_fails l + 1
    \<and> cl_is_up l' = (cl_is_up l \<and> cl_consecutive_fails l + 1 < 2)
    \<and> cl_remote_mac l' = cl_remote_mac l \<and> cl_local_mac l' = cl_local_mac l \<and> cl_remote_mep_id l' = cl_remote_mep_id l"
  using assms by (auto simp: send_ccm_packet_def cfm_eval_def Let_def CFM_DOWN_CONFIRM_def)

lemma silent_ticks:
  assumes "cl_mac_learned l" "\<forall>now \<in> set ts. now - cl_last_recv_time l > CFM_TIMEOUT_MS" "ts \<noteq> []"
    "0 \<le> cl_consecutive_fails l"
  shows "\<exists>l'. cfm_run (map Tick ts) l = Some l' \<and> cl_mac_learned l'
    \<and> cl_consecutive_successes l' = 0 \<and> cl_is_up l' = (cl_is_up l \<and> cl_consecutive_fails l + int (length ts) < 2)
    \<and> cl_remote_mac l' = cl_remote_mac l \<and> cl_local_mac l' = cl_local_mac l \<and> cl_remote_mep_id l' = cl_remote_mep_id l"
  using assms
proof (induction ts arbitrary: l)
  case (Cons now ts)
  obtain l1 where l1: "cfm_step (Tick now) l = Some l1" "cl_mac_learned l1" "cl_last_recv_time l1 = cl_last_recv_time l"
    "cl_consecutive_successes l1 = 0" "cl_consecutive_fails l1 = cl_consecutive_fails l + 1"
    "cl_is_up l1 = (cl_is_up l \<and> cl_consecutive_fails l + 1 < 2)"
    "cl_remote_mac l1 = cl_remote_mac l" "cl_local_mac l1 = cl_local_mac l" "cl_remote_mep_id l1 = cl_remote_mep_id l"
    using silent_tick [of l now] Cons.prems by auto
  show ?case
  proof (cases "ts = []")
    case True
    then show ?thesis using l1 by (simp del: cfm_step.simps)
  next
    case False
    then show ?thesis using Cons.IH [of l1] Cons.prems l1 by (auto simp del: cfm_step.simps)
  qed
qed simp

text \<open>A good observation of a link: an evaluation in time, or a heartbeat of the known peer. The code counts both alike,
  against the comment at \<open>CFM_UP_CONFIRM\<close>, which speaks of evaluations only.\<close>

definition peer_frame :: "cfm_link \<Rightarrow> buf \<Rightarrow> nat \<Rightarrow> bool" where
  "peer_frame l b n \<longleftrightarrow> 24 \<le> n \<and> n \<le> length b \<and> et_at b 12 = ETH_P_CFM \<and> drop_bit 5 (b ! 14) AND 0x07 = 5 \<and> b ! 15 = CFM_OPCODE_CCM
     \<and> slice b 6 6 = cl_remote_mac l \<and> uint (et_at b 22) = cl_remote_mep_id l \<and> cl_remote_mac l \<noteq> cl_local_mac l"

fun good :: "cfm_link \<Rightarrow> cfm_event \<Rightarrow> bool" where
  "good l (Rx b n now) \<longleftrightarrow> peer_frame l b n"
| "good l (Tick now) \<longleftrightarrow> now - cl_last_recv_time l \<le> CFM_TIMEOUT_MS"

text \<open>Every event of the list is good when its turn comes.\<close>

fun good_run :: "cfm_link \<Rightarrow> cfm_event list \<Rightarrow> bool" where
  "good_run l [] = True"
| "good_run l (e # es) \<longleftrightarrow> good l e \<and> (\<forall>l'. cfm_step e l = Some l' \<longrightarrow> good_run l' es)"

lemma good_step:
  assumes "good l e" "cl_mac_learned l" "cl_consecutive_successes l \<le> 3"
  shows "\<exists>l'. cfm_step e l = Some l' \<and> cl_mac_learned l' \<and> cl_consecutive_fails l' = 0
    \<and> cl_consecutive_successes l' = min 3 (cl_consecutive_successes l + 1)
    \<and> cl_is_up l' = (cl_is_up l \<or> 2 \<le> cl_consecutive_successes l)
    \<and> cl_remote_mac l' = cl_remote_mac l \<and> cl_local_mac l' = cl_local_mac l \<and> cl_remote_mep_id l' = cl_remote_mep_id l"
proof (cases e)
  case (Rx b n now)
  then have f: "peer_frame l b n" using assms(1) by simp
  have "cfm_rx l b n now = Some (cfm_peer_ccm (l\<lparr>cl_rx_any := cl_rx_any l + 1\<rparr>) (slice b 6 6) (et_at b 22) now)"
    using f by (auto simp: peer_frame_def cfm_rx_def Let_def)
  then show ?thesis
    using f assms(2,3) by (auto simp: Rx cfm_peer_ccm_def peer_frame_def Let_def CFM_UP_CONFIRM_def)
next
  case (Tick now)
  then have "\<not> now - cl_last_recv_time l > CFM_TIMEOUT_MS" using assms(1) by auto
  then show ?thesis
    using assms(2,3) by (auto simp: Tick send_ccm_packet_def cfm_eval_def Let_def CFM_UP_CONFIRM_def)
qed

lemma good_steps:
  assumes "good_run l es" "cl_mac_learned l" "0 \<le> cl_consecutive_successes l" "cl_consecutive_successes l \<le> 3"
  shows "\<exists>l'. cfm_run es l = Some l' \<and> cl_is_up l' = (cl_is_up l \<or> es \<noteq> [] \<and> 3 \<le> cl_consecutive_successes l + int (length es))"
  using assms
proof (induction es arbitrary: l)
  case (Cons e es)
  obtain l1 where l1: "cfm_step e l = Some l1" "cl_mac_learned l1"
    "cl_consecutive_successes l1 = min 3 (cl_consecutive_successes l + 1)"
    "cl_is_up l1 = (cl_is_up l \<or> 2 \<le> cl_consecutive_successes l)"
    using good_step [of l e] Cons.prems by auto
  have "good_run l1 es" using Cons.prems(1) l1(1) by simp
  then obtain l' where "cfm_run es l1 = Some l'"
    "cl_is_up l' = (cl_is_up l1 \<or> es \<noteq> [] \<and> 3 \<le> cl_consecutive_successes l1 + int (length es))"
    using Cons.IH [of l1] Cons.prems l1(2,3) by auto
  then show ?case using l1 Cons.prems(3) by (auto simp: min_def split: if_splits)
qed simp

section \<open>Properties\<close>

text \<open>C27: failover of a monitored link whose peer is known, from every state the monitor can reach: two or more
  evaluations in a row without a heartbeat for 350 ms take the link down, and a link taken down that way
  comes up again exactly with the third good observation in a row. Good observations are the evaluations in time and also
  the received heartbeats of the peer. This is what the code counts; the comment at \<open>CFM_UP_CONFIRM\<close> speaks of
  consecutive evaluation ticks of 100 ms, but three heartbeats in a burst, without any evaluation, bring a link up.\<close>

theorem cfm_failover:
  assumes "cfm_run es (cfm_link_of cfg i hw t0) = Some l" "list_all event_ok es" "cl_mac_learned l"
    and "\<forall>now \<in> set ts. now - cl_last_recv_time l > CFM_TIMEOUT_MS" "2 \<le> length ts"
  shows "\<exists>l'. cfm_run (map Tick ts) l = Some l' \<and> \<not> cl_is_up l'
    \<and> (\<forall>gs. good_run l' gs \<longrightarrow> (\<exists>l''. cfm_run gs l' = Some l'' \<and> (cl_is_up l'' \<longleftrightarrow> 3 \<le> length gs)))"
proof -
  have "link_inv l'" if "cfm_run es k = Some l'" "list_all event_ok es" "link_inv k" for es k l'
    using that by (induction es arbitrary: k) (auto dest: step_inv split: Option.bind_splits)
  then have inv: "link_inv l" using assms(1,2) link_of_inv by blast
  then obtain l' where l': "cfm_run (map Tick ts) l = Some l'" "cl_mac_learned l'" "cl_consecutive_successes l' = 0" "\<not> cl_is_up l'"
    using silent_ticks [OF assms(3,4)] assms(5) by (fastforce simp: link_inv_def)
  have "\<exists>l''. cfm_run gs l' = Some l'' \<and> (cl_is_up l'' \<longleftrightarrow> 3 \<le> length gs)" if "good_run l' gs" for gs
    using good_steps [OF that l'(2)] l'(3,4) by auto
  with l' show ?thesis by blast
qed

definition cfm_example :: app_config where
  "cfm_example = \<lparr>ac_locals = [], ac_wans = [\<lparr>wc_ifname = ''eth1'', wc_dst_ip = 0, wc_src_mac = [2, 0, 0, 0, 0, 1],
     wc_dst_mac = [2, 0, 0, 0, 0, 9], wc_dataplane = True\<rparr>], ac_bpf_file = [],
     ac_bpf_wan_file = [], ac_crypto_enabled = True, ac_fake_ethertype_ipv4 = 0, ac_profiles = [], ac_policies = []\<rparr>"

definition cfm_example_link :: cfm_link where
  "cfm_example_link = cfm_eval (snd (send_ccm_packet (cfm_link_of cfm_example 0 None 0))) 100"

theorem cfm_failover_witness:
  "\<exists>l'. cfm_run (map Tick [500, 600]) cfm_example_link = Some l' \<and> \<not> cl_is_up l'
    \<and> (\<forall>gs. good_run l' gs \<longrightarrow> (\<exists>l''. cfm_run gs l' = Some l'' \<and> (cl_is_up l'' \<longleftrightarrow> 3 \<le> length gs)))"
proof (rule cfm_failover [of "[Tick 100]" cfm_example 0 None 0])
  show "cfm_run [Tick 100] (cfm_link_of cfm_example 0 None 0) = Some cfm_example_link" by (simp add: cfm_example_link_def)
  have l: "cl_mac_learned cfm_example_link" "cl_last_recv_time cfm_example_link = 0" by code_simp+
  then show "cl_mac_learned cfm_example_link" by simp
  show "\<forall>now \<in> set [500, 600]. now - cl_last_recv_time cfm_example_link > CFM_TIMEOUT_MS" by (simp add: l CFM_TIMEOUT_MS_def)
qed simp_all

lemma length_maid [simp]: "length (ccm_maid ifname) = 48"
  by (simp add: ccm_maid_def Let_def)

text \<open>The fields of a heartbeat where the receiver looks for them.\<close>

lemma ccm_fields:
  assumes "length dst = 6" "length src = 6"
  shows "length (ccm_packet dst src seqno mep ifname) = 95" "slice (ccm_packet dst src seqno mep ifname) 6 6 = src"
    "et_at (ccm_packet dst src seqno mep ifname) 12 = ETH_P_CFM" "ccm_packet dst src seqno mep ifname ! 14 = 0xA0"
    "ccm_packet dst src seqno mep ifname ! 15 = CFM_OPCODE_CCM" "et_at (ccm_packet dst src seqno mep ifname) 22 = mep"
  using assms
  by (simp_all add: ccm_packet_def slice_def et_at_def nth_append be16_bytes_def be32_bytes_def)

lemma mep_range: "0 < mep_of_mac mac" "mep_of_mac mac < 0x2000"
proof -
  let ?w = "be16 (mac ! 4) (mac ! 5) AND 0x1FFF"
  have "?w \<le> 0x1FFF" by (rule word_and_le1)
  then have "uint ?w \<le> 0x1FFF" by (simp add: word_le_def)
  moreover have "uint ?w = 0 \<or> 0 < uint ?w" using uint_ge_0 [of ?w] by linarith
  ultimately show "0 < mep_of_mac mac" "mep_of_mac mac < 0x2000" unfolding mep_of_mac_def Let_def by auto
qed

lemma mep_word: "uint (of_int (mep_of_mac mac) :: u16) = mep_of_mac mac"
  using mep_range [of mac] by (simp add: unsigned_of_int take_bit_int_eq_self)

text \<open>Two encryptors that monitor the same line understand each other: the heartbeat one of them sends,
  unicast or multicast, reaches the other as a heartbeat of its peer, whether the peer's address was configured, was
  learned before or is still unknown. It refreshes the receive time, clears the failures, and names the
  peer by its own address and the id derived from it.\<close>

lemma cfm_heartbeat_heard:
  assumes "length (cl_local_mac a) = 6" "length (cl_remote_mac a) = 6" "cl_local_mep_id a = mep_of_mac (cl_local_mac a)"
    and "cl_local_mac b \<noteq> cl_local_mac a"
    and "cl_mac_learned b \<longrightarrow> cl_remote_mac b = cl_local_mac a \<and> cl_remote_mep_id b = mep_of_mac (cl_local_mac a)"
    and "95 \<le> length frame" "take 95 frame = fst (send_ccm_packet a)"
  shows "\<exists>b'. cfm_rx b frame 95 now = Some b' \<and> cl_last_recv_time b' = now \<and> cl_consecutive_fails b' = 0
    \<and> cl_mac_learned b' \<and> cl_remote_mac b' = cl_local_mac a \<and> cl_remote_mep_id b' = mep_of_mac (cl_local_mac a)
    \<and> (cl_is_up b \<or> \<not> cl_mac_learned b \<or> 2 \<le> cl_consecutive_successes b \<longrightarrow> cl_is_up b')"
proof -
  let ?dst = "if cl_mac_learned a then cl_remote_mac a else CFM_MULTICAST_MAC"
  let ?p = "ccm_packet ?dst (cl_local_mac a) (cl_tx_seq a) (of_int (cl_local_mep_id a)) (cl_ifname a)"
  have p: "take 95 frame = ?p" using assms(7) by (simp add: send_ccm_packet_def)
  have dst: "length ?dst = 6" using assms(2) by (simp add: CFM_MULTICAST_MAC_def)
  note f = ccm_fields [OF dst assms(1), of "cl_tx_seq a" "of_int (cl_local_mep_id a)" "cl_ifname a"]
  have nth: "frame ! i = ?p ! i" if "i < 95" for i using that p by (metis nth_take)
  have "slice frame 6 6 = slice (take 95 frame) 6 6" by (simp add: slice_def drop_take)
  then have "slice frame 6 6 = cl_local_mac a" using p f(2) by simp
  moreover have "et_at frame 12 = ETH_P_CFM" "et_at frame 22 = of_int (mep_of_mac (cl_local_mac a))"
    using f(3,6) nth assms(3) by (simp_all add: et_at_def)
  moreover have "frame ! 14 = 0xA0" "frame ! 15 = CFM_OPCODE_CCM" using f(4,5) nth by simp_all
  moreover have "drop_bit 5 (0xA0 :: u8) AND 0x07 = 5" by simp
  ultimately have rx: "cfm_rx b frame 95 now =
      Some (cfm_peer_ccm (b\<lparr>cl_rx_any := cl_rx_any b + 1\<rparr>) (cl_local_mac a) (of_int (mep_of_mac (cl_local_mac a))) now)"
    using assms(4,6) by (simp add: cfm_rx_def Let_def)
  show ?thesis
    unfolding rx using assms(5) by (auto simp: cfm_peer_ccm_def mep_word Let_def CFM_UP_CONFIRM_def)
qed

end
