(* ===== verification/Mac_Table.thy ===== *)
theory Mac_Table
  imports Flow_Table
begin

text \<open>
  The table of learned stations of \<open>src/core/flow/mac_learn.c\<close>: an array of pairs of a MAC address and the name of a LAN
  port, indexed by chains of entries with the same last byte. A MAC address is a list of six bytes. The array with its
  counter is the list of its live entries; the chains are the two index arrays, with \<open>-1\<close> for their ends. A walk along
  the chains need not end for arbitrary index arrays, so it is a partial function; in every table that the operations
  build it does. The lookups agree with the association list of the entries, which is the abstract view of the table.
\<close>

section \<open>State\<close>

definition MAC_LEARN_MAX_ENTRIES :: nat where "MAC_LEARN_MAX_ENTRIES = 256"
definition MAC_LEN :: nat where "MAC_LEN = 6"
definition IF_NAMESIZE :: nat where "IF_NAMESIZE = 16"

record mac_learn_entry =
  me_mac :: buf
  me_ifname :: string

record mac_learn_table =
  mt_list :: "mac_learn_entry list"
  mt_hash_head :: "u8 \<Rightarrow> int"
  mt_hash_next :: "nat \<Rightarrow> int"
  mt_iface_macs :: "buf list"

datatype mac_upsert_result = MAC_UPSERT_REFRESH | MAC_UPSERT_NEW | MAC_UPSERT_MOVE

text \<open>\<open>strncpy\<close> into an array of \<open>IF_NAMESIZE\<close> characters that is closed with a zero.\<close>

definition if_name :: "string \<Rightarrow> string" where
  "if_name s = take (IF_NAMESIZE - 1) s"

section \<open>The hash index\<close>

definition mac_hash_key :: "buf \<Rightarrow> u8" where
  "mac_hash_key mac = mac ! 5"

definition hash_rebuild_locked :: "mac_learn_table \<Rightarrow> mac_learn_table" where
  "hash_rebuild_locked t =
     (case fold (\<lambda>i (head, nxt). let b = mac_hash_key (me_mac (mt_list t ! i)) in (head(b := int i), nxt(i := head b)))
        [0..<length (mt_list t)] (\<lambda>_. -1, \<lambda>_. -1) of
        (head, nxt) \<Rightarrow> t\<lparr>mt_hash_head := head, mt_hash_next := nxt\<rparr>)"

partial_function (option) chain_find :: "(nat \<Rightarrow> int) \<Rightarrow> mac_learn_entry list \<Rightarrow> buf \<Rightarrow> int \<Rightarrow> int option" where
  "chain_find nxt entries mac i =
     (if i < 0 then Some (-1)
      else if me_mac (entries ! nat i) = mac then Some i
      else chain_find nxt entries mac (nxt (nat i)))"

definition find_idx_by_mac_locked :: "mac_learn_table \<Rightarrow> buf \<Rightarrow> int option" where
  "find_idx_by_mac_locked t mac = chain_find (mt_hash_next t) (mt_list t) mac (mt_hash_head t (mac_hash_key mac))"

section \<open>Updates\<close>

definition port_idx :: "mac_learn_entry list \<Rightarrow> string \<Rightarrow> nat option" where
  "port_idx entries ifname = find (\<lambda>i. me_ifname (entries ! i) = ifname) [0..<length entries]"

definition upsert_locked :: "string \<Rightarrow> buf \<Rightarrow> mac_learn_table \<Rightarrow> (mac_upsert_result \<times> mac_learn_table) option" where
  "upsert_locked ifname mac t = do {
     mac_idx \<leftarrow> find_idx_by_mac_locked t mac;
     let entries = mt_list t;
     if mac_idx \<ge> 0 then
       if me_ifname (entries ! nat mac_idx) = ifname then Some (MAC_UPSERT_REFRESH, t)
       else Some (MAC_UPSERT_MOVE,
         t\<lparr>mt_list := entries[nat mac_idx := (entries ! nat mac_idx)\<lparr>me_ifname := if_name ifname\<rparr>]\<rparr>)
     else
       case port_idx entries ifname of
         Some i \<Rightarrow> Some (MAC_UPSERT_REFRESH, hash_rebuild_locked (t\<lparr>mt_list := entries[i := (entries ! i)\<lparr>me_mac := mac\<rparr>]\<rparr>))
       | None \<Rightarrow>
           if length entries \<ge> MAC_LEARN_MAX_ENTRIES then Some (MAC_UPSERT_REFRESH, t)
           else Some (MAC_UPSERT_NEW,
             hash_rebuild_locked (t\<lparr>mt_list := entries @ [\<lparr>me_mac = mac, me_ifname = if_name ifname\<rparr>]\<rparr>)) }"

definition table_init :: mac_learn_table where
  "table_init = \<lparr>mt_list = [], mt_hash_head = (\<lambda>_. -1), mt_hash_next = (\<lambda>_. -1), mt_iface_macs = []\<rparr>"

definition mac_is_zero :: "buf \<Rightarrow> bool" where
  "mac_is_zero mac \<longleftrightarrow> mac = replicate MAC_LEN 0"

definition mac_is_multicast :: "buf \<Rightarrow> bool" where
  "mac_is_multicast mac \<longleftrightarrow> mac ! 0 AND 1 \<noteq> 0"

definition mac_is_local_iface_locked :: "mac_learn_table \<Rightarrow> buf \<Rightarrow> bool" where
  "mac_is_local_iface_locked t mac \<longleftrightarrow> mac \<in> set (mt_iface_macs t)"

definition purge_local_iface_macs_locked :: "mac_learn_table \<Rightarrow> mac_learn_table" where
  "purge_local_iface_macs_locked t =
     (let kept = filter (\<lambda>e. \<not> mac_is_local_iface_locked t (me_mac e)) (mt_list t) in
      if length kept \<noteq> length (mt_list t) then hash_rebuild_locked (t\<lparr>mt_list := kept\<rparr>) else t)"

text \<open>One step of the collapse, for one entry: the last entry of a port takes the place of the first.\<close>

definition collapse :: "mac_learn_entry \<Rightarrow> mac_learn_entry list \<Rightarrow> mac_learn_entry list" where
  "collapse e tmp =
     (case port_idx tmp (me_ifname e) of
        Some i \<Rightarrow> tmp[i := e]
      | None \<Rightarrow> if length tmp < MAC_LEARN_MAX_ENTRIES then tmp @ [e] else tmp)"

definition enforce_one_mac_per_ifname_locked :: "mac_learn_table \<Rightarrow> mac_learn_table" where
  "enforce_one_mac_per_ifname_locked t =
     (let tmp = fold collapse (mt_list t) [] in
      if length tmp \<noteq> length (mt_list t) then hash_rebuild_locked (t\<lparr>mt_list := tmp\<rparr>) else t)"

text \<open>The name of the port of a station.\<close>

definition table_lookup :: "mac_learn_table \<Rightarrow> buf \<Rightarrow> string option option" where
  "table_lookup t mac = do {
     i \<leftarrow> find_idx_by_mac_locked t mac;
     Some (if i < 0 then None else Some (if_name (me_ifname (mt_list t ! nat i)))) }"

section \<open>The index is correct\<close>

primrec last_idx :: "(nat \<Rightarrow> bool) \<Rightarrow> nat \<Rightarrow> int" where
  "last_idx P 0 = -1"
| "last_idx P (Suc m) = (if P m then int m else last_idx P m)"

abbreviation key_at :: "mac_learn_entry list \<Rightarrow> nat \<Rightarrow> u8" where
  "key_at entries i \<equiv> mac_hash_key (me_mac (entries ! i))"

definition index_ok :: "mac_learn_table \<Rightarrow> bool" where
  "index_ok t \<longleftrightarrow> hash_rebuild_locked t = t"

text \<open>The abstract view: of several entries of a station the last one counts.\<close>

definition mac_fdb :: "mac_learn_table \<Rightarrow> buf \<rightharpoonup> string" where
  "mac_fdb t = map_of (rev (map (\<lambda>e. (me_mac e, me_ifname e)) (mt_list t)))"

lemma last_idx_bounds: "last_idx P m < int m" "-1 \<le> last_idx P m"
  by (induction m) auto

lemma last_idx_neg: "last_idx P m < 0 \<longleftrightarrow> (\<forall>i < m. \<not> P i)"
  by (induction m) (auto simp: less_Suc_eq)

lemma last_idx_hit: "0 \<le> last_idx P m \<Longrightarrow> P (nat (last_idx P m))"
  by (induction m) (auto split: if_splits)

lemma last_idx_cong: "(\<And>i. i < m \<Longrightarrow> P i = Q i) \<Longrightarrow> last_idx P m = last_idx Q m"
  by (induction m) auto

lemma rebuild_prefix:
  "fold (\<lambda>i (head, nxt). let b = key_at entries i in (head(b := int i), nxt(i := head b))) [0..<m] (\<lambda>_. -1, \<lambda>_. -1)
   = (\<lambda>b. last_idx (\<lambda>i. key_at entries i = b) m,
      \<lambda>i. if i < m then last_idx (\<lambda>j. key_at entries j = key_at entries i) i else -1)"
  by (induction m) (auto simp: Let_def fun_eq_iff)

lemma hash_rebuild_fields:
  "hash_rebuild_locked t = t\<lparr>mt_hash_head := \<lambda>b. last_idx (\<lambda>i. key_at (mt_list t) i = b) (length (mt_list t)),
     mt_hash_next := \<lambda>i. if i < length (mt_list t) then last_idx (\<lambda>j. key_at (mt_list t) j = key_at (mt_list t) i) i else -1\<rparr>"
  by (simp add: hash_rebuild_locked_def rebuild_prefix)

lemma rebuild_simps [simp]: "mt_list (hash_rebuild_locked t) = mt_list t"
  "mt_iface_macs (hash_rebuild_locked t) = mt_iface_macs t"
  by (simp_all add: hash_rebuild_fields)

lemma index_fields: "index_ok t \<longleftrightarrow> mt_hash_head t = (\<lambda>b. last_idx (\<lambda>i. key_at (mt_list t) i = b) (length (mt_list t)))
    \<and> mt_hash_next t = (\<lambda>i. if i < length (mt_list t) then last_idx (\<lambda>j. key_at (mt_list t) j = key_at (mt_list t) i) i else -1)"
  by (cases t) (auto simp: index_ok_def hash_rebuild_fields)

lemma index_rebuilt [inv_intros]: "index_ok (hash_rebuild_locked t)"
  unfolding index_fields rebuild_simps by (simp add: hash_rebuild_fields)

lemma chain_find_correct:
  assumes "\<And>i. i < length entries \<Longrightarrow> nxt i = last_idx (\<lambda>j. key_at entries j = key_at entries i) i"
  shows "m \<le> length entries \<Longrightarrow> chain_find nxt entries mac (last_idx (\<lambda>i. key_at entries i = mac_hash_key mac) m)
    = Some (last_idx (\<lambda>i. me_mac (entries ! i) = mac) m)"
proof (induction m)
  case 0
  show ?case by (subst chain_find.simps) simp
next
  case (Suc m)
  then have IH: "chain_find nxt entries mac (last_idx (\<lambda>i. key_at entries i = mac_hash_key mac) m)
    = Some (last_idx (\<lambda>i. me_mac (entries ! i) = mac) m)" by simp
  show ?case
  proof (cases "key_at entries m = mac_hash_key mac")
    case True
    with IH assms [of m] Suc.prems show ?thesis by (subst chain_find.simps) simp
  next
    case False
    then have "me_mac (entries ! m) \<noteq> mac" by auto
    with False IH show ?thesis by simp
  qed
qed

lemma find_idx_correct:
  assumes "index_ok t"
  shows "find_idx_by_mac_locked t mac = Some (last_idx (\<lambda>i. me_mac (mt_list t ! i) = mac) (length (mt_list t)))"
  using assms unfolding index_fields find_idx_by_mac_locked_def by (simp add: chain_find_correct)

lemma map_of_last_idx:
  "map_of (rev (map (\<lambda>e. (me_mac e, me_ifname e)) entries)) mac =
     (let i = last_idx (\<lambda>i. me_mac (entries ! i) = mac) (length entries) in
      if i < 0 then None else Some (me_ifname (entries ! nat i)))"
proof (induction entries rule: rev_induct)
  case Nil
  show ?case by simp
next
  case (snoc e es)
  have "last_idx (\<lambda>i. me_mac ((es @ [e]) ! i) = mac) (length es) = last_idx (\<lambda>i. me_mac (es ! i) = mac) (length es)"
    by (rule last_idx_cong) (simp add: nth_append)
  moreover have "last_idx (\<lambda>i. me_mac (es ! i) = mac) (length es) < int (length es)" by (rule last_idx_bounds)
  ultimately show ?case using snoc by (auto simp: Let_def nth_append nat_less_iff)
qed

lemma mac_fdb_find:
  assumes "index_ok t" "find_idx_by_mac_locked t mac = Some i"
  shows "mac_fdb t mac = (if i < 0 then None else Some (me_ifname (mt_list t ! nat i)))"
    and "i < int (length (mt_list t))" and "0 \<le> i \<Longrightarrow> me_mac (mt_list t ! nat i) = mac"
    and "i < 0 \<longleftrightarrow> (\<forall>e \<in> set (mt_list t). me_mac e \<noteq> mac)"
proof -
  have i: "i = last_idx (\<lambda>i. me_mac (mt_list t ! i) = mac) (length (mt_list t))"
    using find_idx_correct [OF assms(1), of mac] assms(2) by simp
  show "mac_fdb t mac = (if i < 0 then None else Some (me_ifname (mt_list t ! nat i)))"
    by (simp add: mac_fdb_def map_of_last_idx Let_def i)
  show "i < int (length (mt_list t))" by (simp add: i last_idx_bounds)
  show "0 \<le> i \<Longrightarrow> me_mac (mt_list t ! nat i) = mac" using last_idx_hit [of "\<lambda>i. me_mac (mt_list t ! i) = mac"] by (simp add: i)
  show "i < 0 \<longleftrightarrow> (\<forall>e \<in> set (mt_list t). me_mac e \<noteq> mac)" by (simp add: i last_idx_neg all_set_conv_all_nth)
qed

section \<open>The invariant of the table, and what an update does\<close>

definition station :: "buf \<Rightarrow> bool" where
  "station mac \<longleftrightarrow> length mac = MAC_LEN \<and> \<not> mac_is_zero mac \<and> \<not> mac_is_multicast mac"

definition port_name :: "string \<Rightarrow> bool" where
  "port_name s \<longleftrightarrow> s \<noteq> [] \<and> length s < IF_NAMESIZE"

definition entry_ok :: "mac_learn_entry \<Rightarrow> bool" where
  "entry_ok e \<longleftrightarrow> station (me_mac e) \<and> port_name (me_ifname e)"

definition table_ok :: "mac_learn_table \<Rightarrow> bool" where
  "table_ok t \<longleftrightarrow> index_ok t \<and> distinct (map me_mac (mt_list t)) \<and> length (mt_list t) \<le> MAC_LEARN_MAX_ENTRIES
     \<and> (\<forall>e \<in> set (mt_list t). entry_ok e)"

lemma if_name_id [simp]: "port_name s \<Longrightarrow> if_name s = s"
  by (auto simp: port_name_def if_name_def)

lemma option_ext: "(\<And>p. x = Some p \<longleftrightarrow> y = Some p) \<Longrightarrow> x = y"
  by (cases x; cases y) auto

lemma fdb_nth:
  assumes "distinct (map me_mac (mt_list t))"
  shows "mac_fdb t m = Some p \<longleftrightarrow> (\<exists>i < length (mt_list t). me_mac (mt_list t ! i) = m \<and> me_ifname (mt_list t ! i) = p)"
proof -
  have "distinct (map fst (rev (map (\<lambda>e. (me_mac e, me_ifname e)) (mt_list t))))"
    using assms by (simp add: comp_def rev_map [symmetric])
  then have "mac_fdb t m = Some p \<longleftrightarrow> (m, p) \<in> set (rev (map (\<lambda>e. (me_mac e, me_ifname e)) (mt_list t)))"
    unfolding mac_fdb_def by (rule map_of_eq_Some_iff)
  also have "\<dots> \<longleftrightarrow> (\<exists>e \<in> set (mt_list t). me_mac e = m \<and> me_ifname e = p)" by auto
  also have "\<dots> \<longleftrightarrow> (\<exists>i < length (mt_list t). me_mac (mt_list t ! i) = m \<and> me_ifname (mt_list t ! i) = p)" by (metis in_set_conv_nth)
  finally show ?thesis .
qed

lemma port_idx_Some: "port_idx es p = Some i \<Longrightarrow> i < length es \<and> me_ifname (es ! i) = p"
  by (auto simp: port_idx_def find_Some_iff)

lemma port_idx_None: "port_idx es p = None \<longleftrightarrow> (\<forall>e \<in> set es. me_ifname e \<noteq> p)"
  by (auto simp: port_idx_def find_None_iff all_set_conv_all_nth)

lemma table_ok_rebuilt:
  assumes "distinct (map me_mac es)" "length es \<le> MAC_LEARN_MAX_ENTRIES" "\<forall>e \<in> set es. entry_ok e"
  shows "table_ok (hash_rebuild_locked (t\<lparr>mt_list := es\<rparr>))"
  using assms by (simp add: table_ok_def index_rebuilt)

lemma mac_fdb_same_list: "mt_list t' = mt_list t \<Longrightarrow> mac_fdb t' = mac_fdb t"
  by (simp add: mac_fdb_def)

text \<open>The three ways in which an update changes the entries: the name of one entry, the address of one, one more.\<close>

lemma table_move:
  assumes ok: "table_ok t" and i: "i < length (mt_list t)" and p: "port_name p"
  defines "t' \<equiv> t\<lparr>mt_list := (mt_list t)[i := (mt_list t ! i)\<lparr>me_ifname := p\<rparr>]\<rparr>"
  shows "table_ok t'" and "mac_fdb t' = (mac_fdb t)(me_mac (mt_list t ! i) \<mapsto> p)"
proof -
  have mac: "me_mac (mt_list t' ! j) = me_mac (mt_list t ! j)" for j
    using i by (cases "j = i") (simp_all add: t'_def)
  have name: "me_ifname (mt_list t' ! j) = (if j = i then p else me_ifname (mt_list t ! j))" for j
    using i by (simp add: t'_def)
  have len: "length (mt_list t') = length (mt_list t)" by (simp add: t'_def)
  have macs: "map me_mac (mt_list t') = map me_mac (mt_list t)" by (simp add: list_eq_iff_nth_eq mac len)
  have "mt_hash_head t' = mt_hash_head t" "mt_hash_next t' = mt_hash_next t" by (simp_all add: t'_def)
  then have "index_ok t'" using ok by (simp add: table_ok_def index_fields mac len cong: if_cong)
  moreover have "entry_ok (mt_list t' ! j)" if "j < length (mt_list t)" for j
    using ok that p by (simp add: table_ok_def entry_ok_def mac name)
  ultimately show "table_ok t'" using ok by (simp add: table_ok_def macs len all_set_conv_all_nth)
  have d: "distinct (map me_mac (mt_list t))" "distinct (map me_mac (mt_list t'))"
    using ok macs by (simp_all add: table_ok_def)
  have same: "me_mac (mt_list t ! j) = me_mac (mt_list t ! i) \<longleftrightarrow> j = i" if "j < length (mt_list t)" for j
    using d(1) i that by (simp add: distinct_conv_nth) metis
  show "mac_fdb t' = (mac_fdb t)(me_mac (mt_list t ! i) \<mapsto> p)"
  proof (rule ext, rule option_ext)
    fix m q
    show "mac_fdb t' m = Some q \<longleftrightarrow> ((mac_fdb t)(me_mac (mt_list t ! i) \<mapsto> p)) m = Some q"
      using i same by (cases "m = me_mac (mt_list t ! i)") (auto simp: fdb_nth [OF d(1)] fdb_nth [OF d(2)] mac name len)
  qed
qed

lemma table_replace:
  assumes ok: "table_ok t" and i: "i < length (mt_list t)" and m: "station mac" "\<forall>e \<in> set (mt_list t). me_mac e \<noteq> mac"
  defines "t' \<equiv> hash_rebuild_locked (t\<lparr>mt_list := (mt_list t)[i := (mt_list t ! i)\<lparr>me_mac := mac\<rparr>]\<rparr>)"
  shows "table_ok t'"
    and "mac_fdb t' = (mac_fdb t)(me_mac (mt_list t ! i) := None, mac \<mapsto> me_ifname (mt_list t ! i))"
proof -
  let ?es = "(mt_list t)[i := (mt_list t ! i)\<lparr>me_mac := mac\<rparr>]"
  have es: "mt_list t' = ?es" by (simp add: t'_def)
  have d: "distinct (map me_mac (mt_list t))" using ok by (simp add: table_ok_def)
  have new: "mac \<notin> me_mac ` set (mt_list t)" using m(2) by auto
  have d': "distinct (map me_mac ?es)" using d new by (simp add: map_update distinct_list_update)
  have "\<forall>e \<in> set ?es. entry_ok e"
  proof
    fix e assume "e \<in> set ?es"
    then have "e \<in> insert ((mt_list t ! i)\<lparr>me_mac := mac\<rparr>) (set (mt_list t))" using set_update_subset_insert by fast
    then show "entry_ok e" using ok i m(1) by (auto simp: table_ok_def entry_ok_def)
  qed
  then show "table_ok t'" unfolding t'_def using ok d' by (intro table_ok_rebuilt) (simp_all add: table_ok_def)
  have same: "me_mac (mt_list t ! j) = me_mac (mt_list t ! i) \<longleftrightarrow> j = i" if "j < length (mt_list t)" for j
    using d i that by (simp add: distinct_conv_nth) metis
  have fresh: "me_mac (mt_list t ! j) \<noteq> mac" if "j < length (mt_list t)" for j using m(2) that by simp
  have at: "mt_list t' ! j = (if j = i then (mt_list t ! i)\<lparr>me_mac := mac\<rparr> else mt_list t ! j)" for j using i by (simp add: es)
  have len: "length (mt_list t') = length (mt_list t)" by (simp add: es)
  have d'': "distinct (map me_mac (mt_list t'))" using d' by (simp add: es)
  show "mac_fdb t' = (mac_fdb t)(me_mac (mt_list t ! i) := None, mac \<mapsto> me_ifname (mt_list t ! i))"
  proof (rule ext, rule option_ext)
    fix x q
    consider "x = mac" | "x \<noteq> mac" "x = me_mac (mt_list t ! i)" | "x \<noteq> mac" "x \<noteq> me_mac (mt_list t ! i)" by blast
    then show "mac_fdb t' x = Some q \<longleftrightarrow> ((mac_fdb t)(me_mac (mt_list t ! i) := None, mac \<mapsto> me_ifname (mt_list t ! i))) x = Some q"
    proof cases
      case 1
      then show ?thesis using i fresh by (auto simp: fdb_nth [OF d''] at len)
    next
      case 2
      then show ?thesis using same by (auto simp: fdb_nth [OF d''] at len)
    next
      case 3
      then have "mac_fdb t' x = Some q \<longleftrightarrow> mac_fdb t x = Some q" by (auto simp: fdb_nth [OF d''] fdb_nth [OF d] at len)
      with 3 show ?thesis by simp
    qed
  qed
qed

lemma table_append:
  assumes ok: "table_ok t" and m: "station mac" "\<forall>e \<in> set (mt_list t). me_mac e \<noteq> mac" and p: "port_name p"
    and room: "length (mt_list t) < MAC_LEARN_MAX_ENTRIES"
  defines "t' \<equiv> hash_rebuild_locked (t\<lparr>mt_list := mt_list t @ [\<lparr>me_mac = mac, me_ifname = p\<rparr>]\<rparr>)"
  shows "table_ok t'" and "mac_fdb t' = (mac_fdb t)(mac \<mapsto> p)"
proof -
  show "table_ok t'" unfolding t'_def using ok m p room by (intro table_ok_rebuilt) (auto simp: table_ok_def entry_ok_def)
  show "mac_fdb t' = (mac_fdb t)(mac \<mapsto> p)" by (simp add: t'_def mac_fdb_def)
qed

text \<open>An update finds room when the station or the port is known or the table is not full.\<close>

definition fdb_room :: "string \<Rightarrow> buf \<Rightarrow> mac_learn_table \<Rightarrow> bool" where
  "fdb_room p mac t \<longleftrightarrow> mac_fdb t mac \<noteq> None \<or> port_idx (mt_list t) p \<noteq> None \<or> length (mt_list t) < MAC_LEARN_MAX_ENTRIES"

text \<open>What learning a station on a port does to the abstract view: nothing else changes, except that the station that the
  port had may be forgotten.\<close>

definition fdb_learnt :: "string \<Rightarrow> buf \<Rightarrow> (buf \<rightharpoonup> string) \<Rightarrow> (buf \<rightharpoonup> string) \<Rightarrow> bool" where
  "fdb_learnt p mac m m' \<longleftrightarrow> m' mac = Some p
     \<and> (\<forall>x. x \<noteq> mac \<longrightarrow> m' x = m x \<or> m x = Some p \<and> m' x = None)"

lemma fdb_None: "mac_fdb t mac = None \<longleftrightarrow> (\<forall>e \<in> set (mt_list t). me_mac e \<noteq> mac)"
  by (simp add: mac_fdb_def map_of_eq_None_iff image_image) auto

lemma find_idx_ok:
  assumes "table_ok t"
  obtains i where "find_idx_by_mac_locked t mac = Some i" "i < int (length (mt_list t))"
    "0 \<le> i \<Longrightarrow> me_mac (mt_list t ! nat i) = mac" "i < 0 \<Longrightarrow> mac_fdb t mac = None"
    "0 \<le> i \<Longrightarrow> mac_fdb t mac = Some (me_ifname (mt_list t ! nat i))"
proof -
  have ix: "index_ok t" using assms by (simp add: table_ok_def)
  from find_idx_correct [OF this] obtain i where i: "find_idx_by_mac_locked t mac = Some i" by blast
  with mac_fdb_find [OF ix i] show ?thesis by (intro that [of i]) simp_all
qed

lemma upsert_correct:
  assumes ok: "table_ok t" and m: "station mac" and p: "port_name p"
  obtains r t' where "upsert_locked p mac t = Some (r, t')" "table_ok t'" "mt_iface_macs t' = mt_iface_macs t"
    "fdb_room p mac t \<Longrightarrow> fdb_learnt p mac (mac_fdb t) (mac_fdb t')" "\<not> fdb_room p mac t \<Longrightarrow> t' = t"
proof -
  obtain i where i: "find_idx_by_mac_locked t mac = Some i" "i < int (length (mt_list t))"
    "0 \<le> i \<Longrightarrow> me_mac (mt_list t ! nat i) = mac" "i < 0 \<Longrightarrow> mac_fdb t mac = None"
    "0 \<le> i \<Longrightarrow> mac_fdb t mac = Some (me_ifname (mt_list t ! nat i))" using find_idx_ok [OF ok] by blast
  consider (same) "0 \<le> i" "me_ifname (mt_list t ! nat i) = p" | (move) "0 \<le> i" "me_ifname (mt_list t ! nat i) \<noteq> p"
    | (port) k where "i < 0" "port_idx (mt_list t) p = Some k"
    | (full) "i < 0" "port_idx (mt_list t) p = None" "MAC_LEARN_MAX_ENTRIES \<le> length (mt_list t)"
    | (append) "i < 0" "port_idx (mt_list t) p = None" "length (mt_list t) < MAC_LEARN_MAX_ENTRIES"
    by (cases "port_idx (mt_list t) p") (auto simp: not_le [symmetric])
  then show ?thesis
  proof cases
    case same
    have eq: "upsert_locked p mac t = Some (MAC_UPSERT_REFRESH, t)" using same i(1) by (simp add: upsert_locked_def)
    show ?thesis using same i ok by (intro that [OF eq]) (simp_all add: fdb_learnt_def fdb_room_def)
  next
    case move
    then have n: "nat i < length (mt_list t)" using i(2) by simp
    let ?t = "t\<lparr>mt_list := (mt_list t)[nat i := (mt_list t ! nat i)\<lparr>me_ifname := p\<rparr>]\<rparr>"
    have eq: "upsert_locked p mac t = Some (MAC_UPSERT_MOVE, ?t)" using move i(1) p by (simp add: upsert_locked_def Let_def)
    show ?thesis using move i table_move [OF ok n p]
      by (intro that [OF eq]) (simp_all add: fdb_learnt_def fdb_room_def)
  next
    case port
    then have k: "k < length (mt_list t)" "me_ifname (mt_list t ! k) = p" using port_idx_Some by blast+
    have new: "\<forall>e \<in> set (mt_list t). me_mac e \<noteq> mac" using i(4) port(1) by (simp add: fdb_None)
    have old: "mac_fdb t (me_mac (mt_list t ! k)) = Some p"
      using ok k by (auto simp: table_ok_def fdb_nth)
    let ?t = "hash_rebuild_locked (t\<lparr>mt_list := (mt_list t)[k := (mt_list t ! k)\<lparr>me_mac := mac\<rparr>]\<rparr>)"
    have eq: "upsert_locked p mac t = Some (MAC_UPSERT_REFRESH, ?t)" using port i(1) by (simp add: upsert_locked_def Let_def)
    show ?thesis using port k old table_replace [OF ok k(1) m new]
      by (intro that [OF eq]) (simp_all add: fdb_learnt_def fdb_room_def)
  next
    case full
    have eq: "upsert_locked p mac t = Some (MAC_UPSERT_REFRESH, t)" using full i(1) by (simp add: upsert_locked_def Let_def)
    show ?thesis using full i ok by (intro that [OF eq]) (simp_all add: fdb_room_def)
  next
    case append
    have new: "\<forall>e \<in> set (mt_list t). me_mac e \<noteq> mac" using i(4) append(1) by (simp add: fdb_None)
    let ?t = "hash_rebuild_locked (t\<lparr>mt_list := mt_list t @ [\<lparr>me_mac = mac, me_ifname = p\<rparr>]\<rparr>)"
    have eq: "upsert_locked p mac t = Some (MAC_UPSERT_NEW, ?t)" using append i(1) p by (simp add: upsert_locked_def Let_def)
    show ?thesis using append table_append [OF ok m new p append(3)]
      by (intro that [OF eq]) (simp_all add: fdb_learnt_def fdb_room_def)
  qed
qed

lemma table_lookup_correct:
  assumes "table_ok t"
  shows "table_lookup t mac = Some (mac_fdb t mac)"
proof -
  obtain i where i: "find_idx_by_mac_locked t mac = Some i" "i < int (length (mt_list t))"
    "i < 0 \<Longrightarrow> mac_fdb t mac = None" "0 \<le> i \<Longrightarrow> mac_fdb t mac = Some (me_ifname (mt_list t ! nat i))"
    using find_idx_ok [OF assms] by blast
  have "port_name (me_ifname (mt_list t ! nat i))" if "0 \<le> i"
    using assms i(2) that by (simp add: table_ok_def entry_ok_def)
  then show ?thesis using i by (simp add: table_lookup_def)
qed

lemma table_filter:
  assumes "table_ok t"
  shows "table_ok (hash_rebuild_locked (t\<lparr>mt_list := filter P (mt_list t)\<rparr>))"
  using assms by (intro table_ok_rebuilt) (auto simp: table_ok_def distinct_map_filter intro: le_trans [OF length_filter_le])

lemma filter_full:
  assumes "length (filter P xs) = length xs"
  shows "filter P xs = xs"
proof (rule filter_True, rule ballI, rule ccontr)
  fix x
  assume "x \<in> set xs" "\<not> P x"
  then have "length (filter P xs) < length xs" by (rule length_filter_less)
  with assms show False by simp
qed

lemma purge_local_ok:
  assumes "table_ok t"
  shows "table_ok (purge_local_iface_macs_locked t)"
    and "mt_list (purge_local_iface_macs_locked t) = filter (\<lambda>e. me_mac e \<notin> set (mt_iface_macs t)) (mt_list t)"
    and "mt_iface_macs (purge_local_iface_macs_locked t) = mt_iface_macs t"
proof -
  let ?P = "\<lambda>e. \<not> mac_is_local_iface_locked t (me_mac e)"
  have P: "?P = (\<lambda>e. me_mac e \<notin> set (mt_iface_macs t))" by (simp add: mac_is_local_iface_locked_def)
  have "filter ?P (mt_list t) = mt_list t" if "length (filter ?P (mt_list t)) = length (mt_list t)"
    using that by (rule filter_full)
  then show "table_ok (purge_local_iface_macs_locked t)"
    "mt_list (purge_local_iface_macs_locked t) = filter (\<lambda>e. me_mac e \<notin> set (mt_iface_macs t)) (mt_list t)"
    "mt_iface_macs (purge_local_iface_macs_locked t) = mt_iface_macs t"
    using table_filter [OF assms, of ?P] assms by (auto simp: purge_local_iface_macs_locked_def Let_def P)
qed

section \<open>What a table of stations promises\<close>

text \<open>The contract between the table and the dataplane: \<open>learn\<close> records the port of a station when there is room and then
  forgets at most the station that the port had, and \<open>find\<close> reads the abstract view.\<close>

primrec learn_all :: "('p \<Rightarrow> 'm \<Rightarrow> 't \<Rightarrow> 't option) \<Rightarrow> ('p \<times> 'm) list \<Rightarrow> 't \<Rightarrow> 't option" where
  "learn_all learn [] t = Some t"
| "learn_all learn (e # es) t = do { t \<leftarrow> learn (fst e) (snd e) t; learn_all learn es t }"

locale forwarding_db =
  fixes ok :: "'t \<Rightarrow> bool" and fdb :: "'t \<Rightarrow> 'm \<rightharpoonup> 'p" and entries :: "'t \<Rightarrow> nat" and room :: "'p \<Rightarrow> 'm \<Rightarrow> 't \<Rightarrow> bool"
    and legit :: "'p \<Rightarrow> 'm \<Rightarrow> bool" and learn :: "'p \<Rightarrow> 'm \<Rightarrow> 't \<Rightarrow> 't option" and find :: "'t \<Rightarrow> 'm \<Rightarrow> 'p option option"
    and cap :: nat
  assumes find_fdb: "ok t \<Longrightarrow> find t m = Some (fdb t m)"
    and learn_ok: "ok t \<Longrightarrow> legit p m \<Longrightarrow> \<exists>t'. learn p m t = Some t' \<and> ok t' \<and> entries t' \<le> Suc (entries t)
      \<and> (room p m t \<longrightarrow> fdb t' m = Some p \<and> (\<forall>x. x \<noteq> m \<longrightarrow> fdb t' x = fdb t x \<or> fdb t x = Some p \<and> fdb t' x = None))
      \<and> (\<not> room p m t \<longrightarrow> fdb t' = fdb t)"
    and room_known: "ok t \<Longrightarrow> fdb t m \<noteq> None \<Longrightarrow> room p m t"
    and room_free: "ok t \<Longrightarrow> entries t < cap \<Longrightarrow> room p m t"
begin

lemma learn_all_ok:
  assumes "ok t" "\<forall>e \<in> set es. legit (fst e) (snd e)"
  shows "\<exists>t'. learn_all learn es t = Some t' \<and> ok t' \<and> entries t' \<le> entries t + length es"
  using assms
proof (induction es arbitrary: t)
  case (Cons e es)
  then obtain t1 where t1: "learn (fst e) (snd e) t = Some t1" "ok t1" "entries t1 \<le> Suc (entries t)"
    using learn_ok [of t "fst e" "snd e"] by auto
  from Cons.IH [OF t1(2)] Cons.prems t1 show ?case by force
qed simp

lemma learn_all_append:
  "learn_all learn (es @ fs) t = (case learn_all learn es t of None \<Rightarrow> None | Some t' \<Rightarrow> learn_all learn fs t')"
  by (induction es arbitrary: t) (simp_all add: bind_eq_Some_conv split: option.split bind_split)

text \<open>Whatever is found was learnt last.\<close>

lemma found_was_learnt:
  assumes "ok t" "fdb t = Map.empty" "\<forall>e \<in> set es. legit (fst e) (snd e)" "learn_all learn es t = Some t'" "fdb t' m = Some p"
  shows "\<exists>es1 es2. es = es1 @ (p, m) # es2 \<and> m \<notin> snd ` set es2"
  using assms
proof (induction es arbitrary: t' rule: rev_induct)
  case (snoc e es)
  obtain t1 where t1: "learn_all learn es t = Some t1" "ok t1" using learn_all_ok [of t es] snoc.prems by auto
  have t': "learn (fst e) (snd e) t1 = Some t'"
    using snoc.prems(4) t1 by (simp add: learn_all_append bind_eq_Some_conv)
  have laws: "fdb t' = fdb t1 \<and> fdb t1 (snd e) = None
      \<or> fdb t' (snd e) = Some (fst e) \<and> (\<forall>x. x \<noteq> snd e \<longrightarrow> fdb t' x = fdb t1 x \<or> fdb t' x = None)"
    using learn_ok [OF t1(2), of "fst e" "snd e"] room_known [OF t1(2), of "snd e" "fst e"] snoc.prems(3) t' by fastforce
  show ?case
  proof (cases "snd e = m \<and> fst e = p")
    case True
    then have "es @ [e] = es @ (p, m) # [] \<and> m \<notin> snd ` set []" by (cases e) simp
    then show ?thesis by blast
  next
    case False
    then have ne: "snd e \<noteq> m" using laws snoc.prems(5) by auto
    then have m: "snd e \<noteq> m" "fdb t1 m = Some p" using laws snoc.prems(5) by (simp, metis option.distinct(1))
    from snoc.IH [OF _ _ _ t1(1) m(2)] snoc.prems obtain es1 es2 where "es = es1 @ (p, m) # es2" "m \<notin> snd ` set es2" by auto
    then have "es @ [e] = es1 @ (p, m) # (es2 @ [e]) \<and> m \<notin> snd ` set (es2 @ [e])" using m by auto
    then show ?thesis by blast
  qed
qed simp

text \<open>A station stays known as long as neither it nor its port is heard of again.\<close>

lemma station_stays:
  assumes "ok t" "fdb t m = Some p" "\<forall>e \<in> set es. legit (fst e) (snd e)" "\<forall>e \<in> set es. fst e \<noteq> p \<and> snd e \<noteq> m"
  shows "\<exists>t'. learn_all learn es t = Some t' \<and> ok t' \<and> fdb t' m = Some p"
  using assms
proof (induction es arbitrary: t)
  case (Cons e es)
  obtain t1 where t1: "learn (fst e) (snd e) t = Some t1" "ok t1"
    and laws: "room (fst e) (snd e) t \<longrightarrow> (\<forall>x. x \<noteq> snd e \<longrightarrow> fdb t1 x = fdb t x \<or> fdb t x = Some (fst e) \<and> fdb t1 x = None)"
      "\<not> room (fst e) (snd e) t \<longrightarrow> fdb t1 = fdb t"
    using learn_ok [of t "fst e" "snd e"] Cons.prems by auto
  have "fst e \<noteq> p" "m \<noteq> snd e" using Cons.prems(4) by auto
  then have "fdb t1 m = Some p" using laws Cons.prems(2) by (metis option.inject)
  with t1 have t1: "learn (fst e) (snd e) t = Some t1" "ok t1" "fdb t1 m = Some p" by simp_all
  from Cons.IH [OF t1(2,3)] Cons.prems t1 show ?case by simp
qed simp

lemma learnt_is_found:
  assumes "ok t" "entries t + length es < cap" "\<forall>e \<in> set (es @ (p, m) # es'). legit (fst e) (snd e)"
    "\<forall>e \<in> set es'. fst e \<noteq> p \<and> snd e \<noteq> m"
  shows "\<exists>t'. learn_all learn (es @ (p, m) # es') t = Some t' \<and> ok t' \<and> find t' m = Some (Some p)"
proof -
  obtain t1 where t1: "learn_all learn es t = Some t1" "ok t1" "entries t1 \<le> entries t + length es"
    using learn_all_ok [of t es] assms by auto
  then have "room p m t1" using assms(2) by (intro room_free) simp_all
  then obtain t2 where t2: "learn p m t1 = Some t2" "ok t2" "fdb t2 m = Some p" using learn_ok [OF t1(2), of p m] assms(3) by auto
  from station_stays [OF t2(2,3) _ assms(4)] assms(3) obtain t3 where
    "learn_all learn es' t2 = Some t3" "ok t3" "fdb t3 m = Some p" by auto
  then show ?thesis using t1 t2 find_fdb by (simp add: learn_all_append)
qed

end

end
