(* ===== verification/Wan_Scheduler.thy ===== *)
theory Wan_Scheduler
  imports Cfm_Link NE_Ring Crypto_Route Mac_Table
begin

text \<open>
  The scheduling of WANs, \<open>src/core/forwarder/wan_scheduler.c\<close>, with the operator commands of
  \<open>src/core/failover/wan_admin.c\<close> and the failover gate of \<open>src/core/failover/wan_failover.c\<close>: which WANs may take
  new traffic, the pool of WANs and weights a profile offers (weights of dead WANs are given to the live ones,
  joining WANs are ramped up, draining ones tapered off), and the choice of the WAN of a packet. The variables of
  the file, and the links of the monitor, are the record \<open>wan_sched\<close>; the parts of \<open>struct forwarder\<close> and
  \<open>struct ne_pair\<close> that the data path reads or changes are the records \<open>forwarder\<close> and \<open>ne_pair\<close>. An operation
  reads the clock once, as the argument \<open>now\<close>. Log output is not represented.
\<close>

section \<open>State\<close>

definition WAN_DRAIN_GRACE_MS :: u64 where "WAN_DRAIN_GRACE_MS = 5000"
definition NE_BATCH_SIZE :: u32 where "NE_BATCH_SIZE = 64"
definition MAX_PROFILE_INTERFACES :: nat where "MAX_PROFILE_INTERFACES = 16"

text \<open>The conversion of an \<open>uint64_t\<close> value to \<open>int\<close>.\<close>

definition int_of_u64 :: "u64 \<Rightarrow> int" where
  "int_of_u64 x = sint (ucast x :: 32 word)"

record wan_drain_slot =
  dr_active :: bool
  dr_legacy_cfg_wan :: int
  dr_seed_weight :: int
  dr_ifname :: string
  dr_start_ms :: u64
  dr_until_ms :: u64

record wan_weight_blend =
  bl_active :: bool
  bl_profile_id :: int
  bl_wan_cfg :: "int list"
  bl_old_w :: "int list"
  bl_new_w :: "int list"
  bl_start_ms :: u64
  bl_until_ms :: u64

record wan_join_ramp =
  jr_active :: bool
  jr_cfg_wan :: int
  jr_target_w :: int
  jr_start_ms :: u64
  jr_until_ms :: u64

text \<open>Only the first of the blends is ever used; \<open>ws_links\<close> are the links of \<open>cfm_diag.c\<close>.\<close>

record wan_sched =
  wan_drains :: "wan_drain_slot list"
  wan_active_dp_count :: int
  wan_stopped :: "bool list"
  wan_admin_hold :: "bool list"
  wan_blend :: wan_weight_blend
  wan_joins :: "wan_join_ramp list"
  ws_links :: "cfm_link list"

text \<open>\<open>pr_frames\<close> is the UMEM area: the bytes of the frame at an address.\<close>

record ne_pair =
  pr_frames :: "u64 \<Rightarrow> buf"
  pr_frame_size :: nat
  pr_wan_ifnames :: "string list"
  pr_wan_count :: int
  pr_pool :: ne_pool
  pr_bpf_wans :: "bool list"
  pr_xdp_wan_on :: "bool list"
  pr_wan_live :: "bool list"
  pr_local_count :: int
  pr_local_live :: "bool list"

record forwarder =
  fw_cfg :: app_config
  fw_local_ifnames :: "string list"
  fw_local_count :: int
  fw_wan_ifnames :: "string list"
  fw_wan_count :: int
  fw_wan_cfg_idx :: "int list"
  fw_pair :: ne_pair
  fw_mid_to_wan :: "nat \<Rightarrow> nat \<Rightarrow> ne_ring"
  fw_mid_to_local :: "nat \<Rightarrow> nat \<Rightarrow> ne_ring"
  fw_threads_started :: bool
  fw_split_tail_cache :: "nat \<Rightarrow> u64 list"
  fw_mac_table :: mac_learn_table

definition drain_zero :: wan_drain_slot where
  "drain_zero = \<lparr>dr_active = False, dr_legacy_cfg_wan = 0, dr_seed_weight = 0, dr_ifname = [], dr_start_ms = 0, dr_until_ms = 0\<rparr>"

definition join_zero :: wan_join_ramp where
  "join_zero = \<lparr>jr_active = False, jr_cfg_wan = 0, jr_target_w = 0, jr_start_ms = 0, jr_until_ms = 0\<rparr>"

definition dp_valid :: "int \<Rightarrow> bool" where
  "dp_valid dp \<longleftrightarrow> 0 \<le> dp \<and> dp < int MAX_INTERFACES"

section \<open>Which WANs take traffic\<close>

definition wan_failover_dp_excluded :: "wan_sched \<Rightarrow> int \<Rightarrow> bool" where
  "wan_failover_dp_excluded ws wan_dp = cfm_link_is_down (ws_links ws) wan_dp"

definition wan_seed_weight_from_cfg :: "app_config \<Rightarrow> int \<Rightarrow> int" where
  "wan_seed_weight_from_cfg cfg cfg_wan =
     (if ac_profiles cfg = [] then 1
      else let p = hd (ac_profiles cfg) in
        fold (\<lambda>wi best. if pf_wan_indices p ! wi \<noteq> cfg_wan then best
             else if pf_wan_bandwidth_weight p ! wi > best then pf_wan_bandwidth_weight p ! wi else best)
          [0..<length (pf_wan_indices p)] 1)"

definition wan_drain_taper_pct :: "wan_sched \<Rightarrow> u64 \<Rightarrow> int \<Rightarrow> int" where
  "wan_drain_taper_pct ws now dp =
     (if \<not> dp_valid dp \<or> \<not> dr_active (wan_drains ws ! nat dp) then 0
      else let until_ms = dr_until_ms (wan_drains ws ! nat dp) in
        if now \<ge> until_ms then 0
        else int_of_u64 ((until_ms - now) * 100 div WAN_DRAIN_GRACE_MS))"

definition fwd_wan_dp_ok_for_new_traffic :: "wan_sched \<Rightarrow> int \<Rightarrow> bool" where
  "fwd_wan_dp_ok_for_new_traffic ws dp \<longleftrightarrow>
     dp_valid dp \<and> \<not> wan_stopped ws ! nat dp \<and> \<not> wan_admin_hold ws ! nat dp \<and> \<not> dr_active (wan_drains ws ! nat dp)
     \<and> \<not> wan_failover_dp_excluded ws dp \<and> dp < wan_active_dp_count ws"

definition fwd_wan_is_stopped :: "wan_sched \<Rightarrow> int \<Rightarrow> bool" where
  "fwd_wan_is_stopped ws dp = (if \<not> dp_valid dp then True else wan_stopped ws ! nat dp \<or> wan_admin_hold ws ! nat dp)"

definition fwd_wan_mark_stopped :: "int \<Rightarrow> wan_sched \<Rightarrow> wan_sched" where
  "fwd_wan_mark_stopped dp ws = (if \<not> dp_valid dp then ws else ws\<lparr>wan_stopped := (wan_stopped ws)[nat dp := True]\<rparr>)"

definition fwd_wan_mark_live :: "int \<Rightarrow> wan_sched \<Rightarrow> wan_sched" where
  "fwd_wan_mark_live dp ws = (if \<not> dp_valid dp then ws else ws\<lparr>wan_stopped := (wan_stopped ws)[nat dp := False]\<rparr>)"

definition fwd_wan_admin_hold_set :: "int \<Rightarrow> bool \<Rightarrow> wan_sched \<Rightarrow> wan_sched" where
  "fwd_wan_admin_hold_set dp held ws =
     (if \<not> dp_valid dp then ws else ws\<lparr>wan_admin_hold := (wan_admin_hold ws)[nat dp := held]\<rparr>)"

definition fwd_wan_admin_is_held :: "wan_sched \<Rightarrow> int \<Rightarrow> bool" where
  "fwd_wan_admin_is_held ws dp = (if \<not> dp_valid dp then True else wan_admin_hold ws ! nat dp)"

definition fwd_wan_refresh_active :: "forwarder \<Rightarrow> wan_sched \<Rightarrow> wan_sched" where
  "fwd_wan_refresh_active fwd ws = ws\<lparr>wan_active_dp_count := fw_wan_count fwd\<rparr>"

definition fwd_wan_ifname_dataplane_in_cfg :: "app_config \<Rightarrow> string \<Rightarrow> bool" where
  "fwd_wan_ifname_dataplane_in_cfg cfg ifname = config_wan_live_in_cfg cfg ifname"

section \<open>Queues\<close>

lemma pop_shrinks:
  assumes "ne_ring_try_pop r = Some (pkt, r')"
  shows "unat (r_head r' - r_tail r') < unat (r_head r - r_tail r)"
proof -
  have "r_tail r \<noteq> r_head r" "r_head r' = r_head r" "r_tail r' = r_tail r + 1"
    using assms by (auto simp: ne_ring_try_pop_def split: if_splits)
  moreover from this have "r_head r - r_tail r \<noteq> 0" by simp
  then have "unat (r_head r - r_tail r - 1) < unat (r_head r - r_tail r)" by (simp add: unat_minus_one unat_gt_0)
  ultimately show ?thesis by (simp add: diff_diff_eq)
qed

text \<open>The inner loop of \<open>fwd_wan_flush_queue\<close>: empty one ring into the pool of free frames.\<close>

function flush_ring :: "ne_ring \<Rightarrow> ne_pool \<Rightarrow> u32 \<Rightarrow> ne_ring \<times> ne_pool \<times> u32" where
  "flush_ring r pool dropped =
     (case ne_ring_try_pop r of
        None \<Rightarrow> (r, pool, dropped)
      | Some (pkt, r') \<Rightarrow> flush_ring r' (ne_frame_free pool (pk_addr pkt)) (dropped + 1))"
  by pat_completeness auto

termination
  by (relation "measure (\<lambda>(r, pool, dropped). unat (r_head r - r_tail r))") (auto intro: pop_shrinks)

declare flush_ring.simps [simp del]

definition set_ring :: "nat \<Rightarrow> nat \<Rightarrow> ne_ring \<Rightarrow> forwarder \<Rightarrow> forwarder" where
  "set_ring wan ri r fwd = fwd\<lparr>fw_mid_to_wan := (fw_mid_to_wan fwd)(wan := (fw_mid_to_wan fwd wan)(ri := r))\<rparr>"

definition set_pool :: "ne_pool \<Rightarrow> forwarder \<Rightarrow> forwarder" where
  "set_pool pool fwd = fwd\<lparr>fw_pair := (fw_pair fwd)\<lparr>pr_pool := pool\<rparr>\<rparr>"

definition fwd_wan_flush_queue :: "int \<Rightarrow> forwarder \<Rightarrow> u32 \<times> forwarder" where
  "fwd_wan_flush_queue wan_idx fwd =
     (if wan_idx < 0 \<or> wan_idx \<ge> fw_wan_count fwd then (0, fwd)
      else fold (\<lambda>w (dropped, fwd).
          case flush_ring (fw_mid_to_wan fwd (nat wan_idx) w) (pr_pool (fw_pair fwd)) dropped of (r, pool, dropped) \<Rightarrow>
            (dropped, set_pool pool (set_ring (nat wan_idx) w r fwd))) [0..<NE_CRYPTO_WORKERS] (0, fwd))"

definition fwd_wan_has_tx_room :: "forwarder \<Rightarrow> route_state \<Rightarrow> int \<Rightarrow> bool" where
  "fwd_wan_has_tx_room fwd rs wan_idx \<longleftrightarrow>
     0 \<le> wan_idx \<and> wan_idx < fw_wan_count fwd
     \<and> (let r = fw_mid_to_wan fwd (nat wan_idx) (nat (tls_out_ring_idx rs)) in ne_ring_count r + NE_BATCH_SIZE < r_cap r)"

definition fwd_mid_to_wan_depth :: "forwarder \<Rightarrow> int \<Rightarrow> u32" where
  "fwd_mid_to_wan_depth fwd wan_dp =
     (if wan_dp < 0 then 0
      else fold (\<lambda>w d. d + ne_ring_count (fw_mid_to_wan fwd (nat wan_dp) w)) [0..<NE_CRYPTO_WORKERS] 0)"

section \<open>Draining and ramps\<close>

definition ne_pair_wan_live :: "ne_pair \<Rightarrow> int \<Rightarrow> bool" where
  "ne_pair_wan_live p dp_slot \<longleftrightarrow> 0 \<le> dp_slot \<and> dp_slot < pr_wan_count p \<and> pr_wan_live p ! nat dp_slot"

text \<open>Detaching the XDP program; deleting the sockets and the link is kernel I/O.\<close>

definition profile_iface_xdp_detach_wan :: "int \<Rightarrow> ne_pair \<Rightarrow> ne_pair" where
  "profile_iface_xdp_detach_wan dp_slot p =
     (if \<not> dp_valid dp_slot then p
      else if \<not> pr_xdp_wan_on p ! nat dp_slot \<and> \<not> pr_bpf_wans p ! nat dp_slot then p
      else p\<lparr>pr_bpf_wans := (pr_bpf_wans p)[nat dp_slot := False], pr_xdp_wan_on := (pr_xdp_wan_on p)[nat dp_slot := False]\<rparr>)"

definition wan_drain_finish_slot :: "int \<Rightarrow> forwarder \<times> wan_sched \<Rightarrow> forwarder \<times> wan_sched" where
  "wan_drain_finish_slot dp = (\<lambda>(fwd, ws).
     if \<not> dp_valid dp \<or> \<not> dr_active (wan_drains ws ! nat dp) then (fwd, ws)
     else let fwd = snd (fwd_wan_flush_queue dp fwd);
              fwd = fwd\<lparr>fw_pair := profile_iface_xdp_detach_wan dp (fw_pair fwd)\<rparr>
          in (fwd, ws\<lparr>wan_stopped := (wan_stopped ws)[nat dp := True],
                      wan_drains := (wan_drains ws)[nat dp := (wan_drains ws ! nat dp)\<lparr>dr_active := False\<rparr>]\<rparr>))"

definition fwd_wan_drain_tick :: "u64 \<Rightarrow> forwarder \<times> wan_sched \<Rightarrow> forwarder \<times> wan_sched" where
  "fwd_wan_drain_tick now s =
     fold (\<lambda>dp (fwd, ws).
         if \<not> dr_active (wan_drains ws ! dp) then (fwd, ws)
         else if wan_drain_taper_pct ws now (int dp) > 0 then (fwd, ws)
         else if now < dr_until_ms (wan_drains ws ! dp) then (fwd, ws)
         else wan_drain_finish_slot (int dp) (fwd, ws))
       [0..<min (nat (fw_wan_count (fst s))) MAX_INTERFACES] s"

definition fwd_wan_reset_on_init :: "forwarder \<Rightarrow> wan_sched \<Rightarrow> wan_sched" where
  "fwd_wan_reset_on_init fwd ws =
     ws\<lparr>wan_active_dp_count := fw_wan_count fwd, wan_drains := replicate MAX_INTERFACES drain_zero,
        wan_stopped := replicate MAX_INTERFACES False, wan_admin_hold := replicate MAX_INTERFACES False,
        wan_joins := replicate MAX_INTERFACES join_zero\<rparr>"

definition fwd_wan_configure_live_drains :: "u64 \<Rightarrow> forwarder \<Rightarrow> app_config \<Rightarrow> app_config \<Rightarrow> wan_sched \<Rightarrow> wan_sched" where
  "fwd_wan_configure_live_drains now fwd old cfg ws =
     fold (\<lambda>dp ws.
         let ci = fw_wan_cfg_idx fwd ! dp in
         if ci < 0 \<or> ci \<ge> wan_count old then ws
         else if \<not> config_wan_live old ci \<or> config_wan_live cfg ci then ws
         else if dr_active (wan_drains ws ! dp) \<or> wan_stopped ws ! dp then ws
         else ws\<lparr>wan_drains := (wan_drains ws)[dp := \<lparr>dr_active = True, dr_legacy_cfg_wan = ci,
                   dr_seed_weight = wan_seed_weight_from_cfg old ci, dr_ifname = take 15 (wc_ifname (ac_wans old ! nat ci)),
                   dr_start_ms = now, dr_until_ms = now + WAN_DRAIN_GRACE_MS\<rparr>]\<rparr>)
       [0..<min (nat (fw_wan_count fwd)) MAX_INTERFACES] ws"

definition wan_weight_blend_progress :: "wan_weight_blend \<Rightarrow> u64 \<Rightarrow> int" where
  "wan_weight_blend_progress b now =
     (if \<not> bl_active b then 100
      else if now \<ge> bl_until_ms b then 100
      else let elapsed = now - bl_start_ms b; total_ms = bl_until_ms b - bl_start_ms b
           in if total_ms = 0 then 100 else int_of_u64 (elapsed * 100 div total_ms))"

text \<open>The division by 100 rounds towards zero in C; a result that is not positive becomes 1 either way.\<close>

definition profile_wan_weight_blended :: "wan_sched \<Rightarrow> u64 \<Rightarrow> profile_config \<Rightarrow> int \<Rightarrow> int \<Rightarrow> int" where
  "profile_wan_weight_blended ws now p cfg_wan nominal_weight =
     (if nominal_weight \<le> 0 then nominal_weight
      else let b = wan_blend ws in
        if \<not> bl_active b \<or> bl_profile_id b \<noteq> pf_id p then nominal_weight
        else case find (\<lambda>i. bl_wan_cfg b ! i = cfg_wan) [0..<length (bl_wan_cfg b)] of
            None \<Rightarrow> nominal_weight
          | Some pos \<Rightarrow>
              let blend = wan_weight_blend_progress b now;
                  w = (bl_old_w b ! pos * (100 - blend) + bl_new_w b ! pos * blend) div 100
              in if w > 0 then w else 1)"

definition wan_join_ramp_pct :: "wan_sched \<Rightarrow> u64 \<Rightarrow> int \<Rightarrow> int" where
  "wan_join_ramp_pct ws now cfg_wan =
     (if cfg_wan < 0 then -1
      else case find (\<lambda>j. jr_active j \<and> jr_cfg_wan j = cfg_wan) (wan_joins ws) of
          None \<Rightarrow> -1
        | Some j \<Rightarrow>
            if now \<ge> jr_until_ms j then 100
            else let total_ms = jr_until_ms j - jr_start_ms j
                 in if total_ms = 0 then 100 else int_of_u64 ((now - jr_start_ms j) * 100 div total_ms))"

text \<open>The slot of a join: the one that has this WAN, unless the search meets no such slot; then the first free one.\<close>

definition join_slot :: "wan_join_ramp list \<Rightarrow> int \<Rightarrow> nat option" where
  "join_slot joins cfg_wan =
     (case find (\<lambda>i. jr_active (joins ! i) \<and> jr_cfg_wan (joins ! i) = cfg_wan) [0..<length joins] of
        Some i \<Rightarrow> Some i
      | None \<Rightarrow> find (\<lambda>i. \<not> jr_active (joins ! i)) [0..<length joins])"

definition fwd_wan_join_ramp_begin :: "u64 \<Rightarrow> int \<Rightarrow> int \<Rightarrow> wan_sched \<Rightarrow> wan_sched" where
  "fwd_wan_join_ramp_begin now cfg_wan target_weight ws =
     (if cfg_wan < 0 then ws
      else case join_slot (wan_joins ws) cfg_wan of
          None \<Rightarrow> ws
        | Some slot \<Rightarrow> ws\<lparr>wan_joins := (wan_joins ws)[slot := \<lparr>jr_active = True, jr_cfg_wan = cfg_wan,
              jr_target_w = (if target_weight > 0 then target_weight else 1), jr_start_ms = now,
              jr_until_ms = now + WAN_DRAIN_GRACE_MS\<rparr>]\<rparr>)"

definition fwd_wan_join_ramp_tick :: "u64 \<Rightarrow> wan_sched \<Rightarrow> wan_sched" where
  "fwd_wan_join_ramp_tick now ws =
     ws\<lparr>wan_joins := map (\<lambda>j. if jr_active j \<and> now \<ge> jr_until_ms j then j\<lparr>jr_active := False\<rparr> else j) (wan_joins ws)\<rparr>"

definition fwd_wan_weight_blend_tick :: "u64 \<Rightarrow> wan_sched \<Rightarrow> wan_sched" where
  "fwd_wan_weight_blend_tick now ws =
     (let ws = (if bl_active (wan_blend ws) \<and> wan_weight_blend_progress (wan_blend ws) now \<ge> 100
                then ws\<lparr>wan_blend := (wan_blend ws)\<lparr>bl_active := False\<rparr>\<rparr> else ws)
      in fwd_wan_join_ramp_tick now ws)"

definition fwd_wan_weight_blend_begin :: "u64 \<Rightarrow> app_config \<Rightarrow> app_config \<Rightarrow> wan_sched \<Rightarrow> wan_sched" where
  "fwd_wan_weight_blend_begin now old new ws =
     (let ws = ws\<lparr>wan_blend := (wan_blend ws)\<lparr>bl_active := False\<rparr>\<rparr> in
      if ac_profiles old = [] \<or> ac_profiles new = [] then ws
      else let np = hd (ac_profiles new); op = hd (ac_profiles old) in
        if pf_id op \<noteq> pf_id np \<or> length (pf_wan_indices op) \<noteq> length (pf_wan_indices np) then ws
        else if pf_wan_indices op = pf_wan_indices np \<and> pf_wan_bandwidth_weight op = pf_wan_bandwidth_weight np then ws
        else ws\<lparr>wan_blend := \<lparr>bl_active = True, bl_profile_id = pf_id np,
               bl_wan_cfg = take MAX_PROFILE_INTERFACES (pf_wan_indices np),
               bl_old_w = take MAX_PROFILE_INTERFACES (pf_wan_bandwidth_weight op),
               bl_new_w = take MAX_PROFILE_INTERFACES (pf_wan_bandwidth_weight np),
               bl_start_ms = now, bl_until_ms = now + WAN_DRAIN_GRACE_MS\<rparr>\<rparr>)"

section \<open>The pool of a profile and the choice of a WAN\<close>

definition fwd_wan_live_dp_for_cfg :: "forwarder \<Rightarrow> wan_sched \<Rightarrow> int \<Rightarrow> int" where
  "fwd_wan_live_dp_for_cfg fwd ws cfg_wan =
     (if cfg_wan < 0 then -1
      else let n = min (nat (max (fw_wan_count fwd) (pr_wan_count (fw_pair fwd)))) MAX_INTERFACES in
        case find (\<lambda>dp. fw_wan_cfg_idx fwd ! dp = cfg_wan) [0..<n] of
          None \<Rightarrow> -1
        | Some dp \<Rightarrow> if \<not> fwd_wan_dp_ok_for_new_traffic ws (int dp) then -1 else int dp)"

text \<open>The first loop of \<open>fwd_wan_build_profile_pool\<close>: the live WANs with their weights, and the weight of the
  dead ones.\<close>

definition pool_step :: "forwarder \<Rightarrow> wan_sched \<Rightarrow> u64 \<Rightarrow> profile_config \<Rightarrow> nat \<Rightarrow> (int \<times> int) list \<times> int \<Rightarrow> (int \<times> int) list \<times> int" where
  "pool_step fwd ws now p i = (\<lambda>(alive, dead_weight).
     if length alive \<ge> MAX_PROFILE_INTERFACES then (alive, dead_weight)
     else let wi = pf_wan_indices p ! i; base = profile_wan_weight_blended ws now p wi (pf_wan_bandwidth_weight p ! i) in
       if base \<le> 0 then (alive, dead_weight)
       else if fwd_wan_live_dp_for_cfg fwd ws wi < 0 then (alive, dead_weight + base)
       else let ramp = wan_join_ramp_pct ws now wi in
         if ramp = 0 then (alive, dead_weight + base)
         else let w = (if ramp > 0 \<and> ramp < 100 then (let w = base * ramp div 100 in if w \<le> 0 then 1 else w) else base)
              in (alive @ [(wi, w)], dead_weight))"

definition live_wans :: "forwarder \<Rightarrow> wan_sched \<Rightarrow> u64 \<Rightarrow> profile_config \<Rightarrow> (int \<times> int) list \<times> int" where
  "live_wans fwd ws now p = fold (pool_step fwd ws now p) [0..<length (pf_wan_indices p)] ([], 0)"

definition redistribute :: "(int \<times> int) list \<Rightarrow> int \<Rightarrow> (int \<times> int) list" where
  "redistribute alive dead_weight =
     (if alive \<noteq> [] \<and> dead_weight > 0 then
        let share = dead_weight div int (length alive); rem = dead_weight mod int (length alive)
        in map (\<lambda>i. (fst (alive ! i), snd (alive ! i) + share + (if int i < rem then 1 else 0))) [0..<length alive]
      else alive)"

definition draining_wans :: "forwarder \<Rightarrow> wan_sched \<Rightarrow> u64 \<Rightarrow> (int \<times> int) list" where
  "draining_wans fwd ws now =
     map (\<lambda>dp. let taper = wan_drain_taper_pct ws now (int dp); w = dr_seed_weight (wan_drains ws ! dp) * taper div 100
           in (dr_legacy_cfg_wan (wan_drains ws ! dp), if w \<le> 0 then 1 else w))
       (filter (\<lambda>dp. dr_active (wan_drains ws ! dp) \<and> \<not> wan_stopped ws ! dp \<and> wan_drain_taper_pct ws now (int dp) > 0)
          [0..<min (nat (fw_wan_count fwd)) MAX_INTERFACES])"

definition fwd_wan_build_profile_pool :: "forwarder \<Rightarrow> wan_sched \<Rightarrow> u64 \<Rightarrow> profile_config \<Rightarrow> int \<Rightarrow> (int \<times> int) list" where
  "fwd_wan_build_profile_pool fwd ws now p max_n =
     (if max_n \<le> 0 then []
      else case live_wans fwd ws now p of (alive, dead_weight) \<Rightarrow>
        take (nat max_n) (redistribute alive dead_weight @ draining_wans fwd ws now))"

definition fwd_wan_dp_for_legacy_cfg :: "forwarder \<Rightarrow> wan_sched \<Rightarrow> u64 \<Rightarrow> int \<Rightarrow> int" where
  "fwd_wan_dp_for_legacy_cfg fwd ws now legacy_cfg_wan =
     (case find (\<lambda>dp. dr_active (wan_drains ws ! dp) \<and> \<not> wan_stopped ws ! dp
            \<and> dr_legacy_cfg_wan (wan_drains ws ! dp) = legacy_cfg_wan \<and> wan_drain_taper_pct ws now (int dp) > 0)
          [0..<min (nat (fw_wan_count fwd)) MAX_INTERFACES] of
        None \<Rightarrow> -1
      | Some dp \<Rightarrow> int dp)"

text \<open>One round of the two loops of \<open>pick_least_loaded_wan\<close>: \<open>best\<close> and its depth.\<close>

definition shallower :: "forwarder \<Rightarrow> int \<Rightarrow> int \<times> u32 \<Rightarrow> int \<times> u32" where
  "shallower fwd dp = (\<lambda>(best, best_depth).
     let d = fwd_mid_to_wan_depth fwd dp in if d < best_depth then (dp, d) else (best, best_depth))"

definition pick_least_loaded_wan :: "forwarder \<Rightarrow> wan_sched \<Rightarrow> route_state \<Rightarrow> int \<Rightarrow> int \<Rightarrow> int" where
  "pick_least_loaded_wan fwd ws rs profile_idx selected =
     (if fwd_wan_has_tx_room fwd rs selected then selected
      else
        let start = (-1, 0xFFFFFFFF);
            in_cfg = (0 \<le> profile_idx \<and> profile_idx < int (length (ac_profiles (fw_cfg fwd))));
            p = ac_profiles (fw_cfg fwd) ! nat profile_idx;
            profile_pool = (in_cfg \<and> pf_wan_indices p \<noteq> []);
            (best, depth) = (if in_cfg then
                fold (\<lambda>i acc. if pf_wan_bandwidth_weight p ! i \<le> 0 then acc
                    else let dp = fwd_wan_live_dp_for_cfg fwd ws (pf_wan_indices p ! i) in
                      if dp < 0 \<or> \<not> fwd_wan_has_tx_room fwd rs dp then acc else shallower fwd dp acc)
                  [0..<length (pf_wan_indices p)] start
              else start)
        in if in_cfg \<and> best \<ge> 0 then best
           else if profile_pool then selected
           else
             let (best, depth) = fold (\<lambda>wi acc.
                   if \<not> fwd_wan_dp_ok_for_new_traffic ws (int wi) \<or> \<not> fwd_wan_has_tx_room fwd rs (int wi) then acc
                   else shallower fwd (int wi) acc) [0..<nat (fw_wan_count fwd)] (best, depth)
             in if best \<ge> 0 then best else selected)"

definition fwd_wan_pick_for_local :: "bool \<Rightarrow> forwarder \<Rightarrow> wan_sched \<Rightarrow> route_state \<Rightarrow> u64 \<Rightarrow> flow_tls \<Rightarrow> int \<Rightarrow> bool \<Rightarrow>
    u32 \<Rightarrow> u32 \<Rightarrow> u16 \<Rightarrow> u16 \<Rightarrow> u8 \<Rightarrow> int \<times> flow_tls" where
  "fwd_wan_pick_for_local calloc_ok fwd ws rs now t profile_idx flow_ok src_ip dst_ip src_port dst_port proto =
     (if fw_wan_count fwd \<le> 0 then (-1, t)
      else if profile_idx < 0 \<or> profile_idx \<ge> int (length (ac_profiles (fw_cfg fwd)))
      then (pick_least_loaded_wan fwd ws rs profile_idx 0, t)
      else
        let p = ac_profiles (fw_cfg fwd) ! nat profile_idx;
            pool = fwd_wan_build_profile_pool fwd ws now p (int MAX_INTERFACES)
        in if pool = [] then (pick_least_loaded_wan fwd ws rs profile_idx 0, t)
           else case (if flow_ok
               then flow_table_pick_wan_per_flow_packet calloc_ok t src_ip dst_ip src_port dst_port proto
                      (map fst pool) (Some (map snd pool))
               else flow_table_pick_wan_per_packet t (map fst pool) (Some (map snd pool))) of (wan_cfg, t) \<Rightarrow>
             if wan_cfg < 0 then (pick_least_loaded_wan fwd ws rs profile_idx 0, t)
             else
               let dp = fwd_wan_live_dp_for_cfg fwd ws wan_cfg;
                   dp = (if dp < 0 then fwd_wan_dp_for_legacy_cfg fwd ws now wan_cfg else dp)
               in if dp < 0 \<or> dp \<ge> fw_wan_count fwd \<or> \<not> fwd_wan_dp_ok_for_new_traffic ws dp
                  then (pick_least_loaded_wan fwd ws rs profile_idx 0, t)
                  else (pick_least_loaded_wan fwd ws rs profile_idx dp, t))"

section \<open>Operator commands\<close>

definition find_cfg_wan_idx :: "app_config \<Rightarrow> string \<Rightarrow> int" where
  "find_cfg_wan_idx cfg ifname =
     (case find (\<lambda>i. wc_ifname (ac_wans cfg ! i) = ifname) [0..<length (ac_wans cfg)] of None \<Rightarrow> -1 | Some i \<Rightarrow> int i)"

definition find_live_dp_by_ifname :: "forwarder \<Rightarrow> string \<Rightarrow> int" where
  "find_live_dp_by_ifname fwd ifname =
     (let n = min (nat (max (pr_wan_count (fw_pair fwd)) (fw_wan_count fwd))) MAX_INTERFACES in
      case find (\<lambda>i. ne_pair_wan_live (fw_pair fwd) (int i)
           \<and> (fw_wan_ifnames fwd ! i \<noteq> [] \<and> fw_wan_ifnames fwd ! i = ifname
              \<or> pr_wan_ifnames (fw_pair fwd) ! i \<noteq> [] \<and> pr_wan_ifnames (fw_pair fwd) ! i = ifname)) [0..<n] of
        None \<Rightarrow> -1 | Some i \<Rightarrow> int i)"

text \<open>The dataplane index of a configured WAN, live or not: the loops over \<open>wan_cfg_idx\<close>.\<close>

definition dp_of_cfg :: "forwarder \<Rightarrow> int \<Rightarrow> int" where
  "dp_of_cfg fwd ci = (case find (\<lambda>i. fw_wan_cfg_idx fwd ! i = ci) [0..<MAX_INTERFACES] of None \<Rightarrow> -1 | Some i \<Rightarrow> int i)"

definition wan_admin_kick :: "string \<Rightarrow> forwarder \<times> wan_sched \<Rightarrow> int \<times> forwarder \<times> wan_sched" where
  "wan_admin_kick ifname = (\<lambda>(fwd, ws).
     if ifname = [] \<or> \<not> fw_threads_started fwd then (-1, fwd, ws)
     else
       let di = find_live_dp_by_ifname fwd ifname;
           ci = find_cfg_wan_idx (fw_cfg fwd) ifname;
           di = (if di < 0 \<and> ci \<ge> 0
                 then (let d = fwd_wan_live_dp_for_cfg fwd ws ci in if d < 0 then dp_of_cfg fwd ci else d) else di)
       in if di < 0 then (-1, fwd, ws)
          else if fwd_wan_admin_is_held ws di then (0, fwd, ws)
          else (0, snd (fwd_wan_flush_queue di fwd), fwd_wan_admin_hold_set di True ws))"

definition wan_admin_restore :: "u64 \<Rightarrow> string \<Rightarrow> forwarder \<Rightarrow> wan_sched \<Rightarrow> int \<times> wan_sched" where
  "wan_admin_restore now ifname fwd ws =
     (if ifname = [] \<or> \<not> fw_threads_started fwd then (-1, ws)
      else
        let ci = find_cfg_wan_idx (fw_cfg fwd) ifname in
        if ci < 0 \<or> \<not> config_wan_live (fw_cfg fwd) ci then (-1, ws)
        else
          let di = find_live_dp_by_ifname fwd ifname; di = (if di < 0 then dp_of_cfg fwd ci else di) in
          if di < 0 \<or> \<not> ne_pair_wan_live (fw_pair fwd) di then (-1, ws)
          else
            let ws = fwd_wan_admin_hold_set di False ws;
                target_w = config_wan_profile_weight (fw_cfg fwd) ci;
                target_w = (if target_w \<le> 0 then 1 else target_w)
            in (0, fwd_wan_join_ramp_begin now ci target_w ws))"

section \<open>The pool\<close>

text \<open>The weight the profile gives to its WAN number \<open>i\<close> at this moment.\<close>

definition base_weight :: "wan_sched \<Rightarrow> u64 \<Rightarrow> profile_config \<Rightarrow> nat \<Rightarrow> int" where
  "base_weight ws now p i = profile_wan_weight_blended ws now p (pf_wan_indices p ! i) (pf_wan_bandwidth_weight p ! i)"

definition alive_ok :: "forwarder \<Rightarrow> wan_sched \<Rightarrow> (int \<times> int) list \<Rightarrow> bool" where
  "alive_ok fwd ws alive \<longleftrightarrow> (\<forall>(c, w) \<in> set alive. 0 \<le> fwd_wan_live_dp_for_cfg fwd ws c \<and> 0 < w)"

lemma pool_step_ok:
  assumes "alive_ok fwd ws alive" "0 \<le> dead"
  shows "alive_ok fwd ws (fst (pool_step fwd ws now p i (alive, dead)))" "dead \<le> snd (pool_step fwd ws now p i (alive, dead))"
  using assms by (auto simp: pool_step_def Let_def alive_ok_def)

lemma live_wans_ok: "alive_ok fwd ws (fst (live_wans fwd ws now p))" "0 \<le> snd (live_wans fwd ws now p)"
proof -
  have "alive_ok fwd ws (fst (fold (pool_step fwd ws now p) is acc)) \<and> 0 \<le> snd (fold (pool_step fwd ws now p) is acc)"
    if "alive_ok fwd ws (fst acc)" "0 \<le> snd acc" for "is" acc
    using that
  proof (induction "is" arbitrary: acc)
    case (Cons i "is")
    have "alive_ok fwd ws (fst (pool_step fwd ws now p i acc))" "0 \<le> snd (pool_step fwd ws now p i acc)"
      using pool_step_ok [of fwd ws "fst acc" "snd acc" now p i] Cons.prems by auto
    then show ?case using Cons.IH by simp
  qed simp
  from this [of "([], 0)"] show "alive_ok fwd ws (fst (live_wans fwd ws now p))" "0 \<le> snd (live_wans fwd ws now p)"
    by (auto simp: live_wans_def alive_ok_def)
qed

text \<open>The WANs that the profile can offer, and the weight that each of its WANs brings in: a live WAN that is ramping up brings the
  part of its weight that the ramp allows, every other its whole weight, also when it is down.\<close>

definition offers :: "forwarder \<Rightarrow> wan_sched \<Rightarrow> u64 \<Rightarrow> profile_config \<Rightarrow> nat \<Rightarrow> bool" where
  "offers fwd ws now p i \<longleftrightarrow> 0 < base_weight ws now p i \<and> 0 \<le> fwd_wan_live_dp_for_cfg fwd ws (pf_wan_indices p ! i)
     \<and> wan_join_ramp_pct ws now (pf_wan_indices p ! i) \<noteq> 0"

definition brought_weight :: "forwarder \<Rightarrow> wan_sched \<Rightarrow> u64 \<Rightarrow> profile_config \<Rightarrow> nat \<Rightarrow> int" where
  "brought_weight fwd ws now p i =
     (let base = base_weight ws now p i; ramp = wan_join_ramp_pct ws now (pf_wan_indices p ! i) in
      if base \<le> 0 then 0
      else if 0 \<le> fwd_wan_live_dp_for_cfg fwd ws (pf_wan_indices p ! i) \<and> 0 < ramp \<and> ramp < 100 then max 1 (base * ramp div 100)
      else base)"

lemma pool_step_offers:
  "length alive < MAX_PROFILE_INTERFACES \<Longrightarrow> pool_step fwd ws now p i (alive, dead) =
     (if offers fwd ws now p i then (alive @ [(pf_wan_indices p ! i, brought_weight fwd ws now p i)], dead)
      else (alive, dead + brought_weight fwd ws now p i))"
  by (auto simp: pool_step_def offers_def brought_weight_def base_weight_def Let_def)

lemma live_wans_eq:
  assumes "length (pf_wan_indices p) \<le> MAX_PROFILE_INTERFACES"
  defines "n \<equiv> length (pf_wan_indices p)"
  shows "fst (live_wans fwd ws now p) = map (\<lambda>i. (pf_wan_indices p ! i, brought_weight fwd ws now p i)) (filter (offers fwd ws now p) [0..<n])"
    "sum_list (map snd (fst (live_wans fwd ws now p))) + snd (live_wans fwd ws now p) = (\<Sum>i < n. brought_weight fwd ws now p i)"
proof -
  let ?f = "\<lambda>n. fold (pool_step fwd ws now p) [0..<n] ([], 0)"
  let ?alive = "\<lambda>n. map (\<lambda>i. (pf_wan_indices p ! i, brought_weight fwd ws now p i)) (filter (offers fwd ws now p) [0..<n])"
  have all: "fst (?f k) = ?alive k \<and> sum_list (map snd (fst (?f k))) + snd (?f k) = (\<Sum>i < k. brought_weight fwd ws now p i)"
    if "k \<le> n" for k
    using that
  proof (induction k)
    case (Suc k)
    obtain alive dead where f: "?f k = (alive, dead)" by fastforce
    have IH: "alive = ?alive k" "sum_list (map snd alive) + dead = (\<Sum>i < k. brought_weight fwd ws now p i)" using Suc f by auto
    have "length alive \<le> k" unfolding IH(1) using length_filter_le [of _ "[0..<k]"] by simp
    then have "length alive < MAX_PROFILE_INTERFACES" using Suc.prems assms(1) by (simp add: n_def)
    note step = pool_step_offers [OF this, of fwd ws now p k dead]
    have f': "?f (Suc k) = pool_step fwd ws now p k (alive, dead)" using f by simp
    show ?case using IH(2) unfolding f' step by (cases "offers fwd ws now p k") (simp_all add: IH(1))
  qed simp
  then show "fst (live_wans fwd ws now p) = ?alive n"
    "sum_list (map snd (fst (live_wans fwd ws now p))) + snd (live_wans fwd ws now p) = (\<Sum>i < n. brought_weight fwd ws now p i)"
    unfolding live_wans_def n_def by blast+
qed

lemma sum_upt_less: "rem \<le> n \<Longrightarrow> sum_list (map (\<lambda>i. if i < rem then 1 else 0 :: int) [0..<n]) = int rem"
proof -
  assume "rem \<le> n"
  then have "[0..<n] = [0..<rem] @ [rem..<n]" using upt_add_eq_append [of 0 rem "n - rem"] by simp
  moreover have "map (\<lambda>i. if i < rem then 1 else 0 :: int) [0..<rem] = map (\<lambda>_. 1) [0..<rem]" by simp
  moreover have "map (\<lambda>i. if i < rem then 1 else 0 :: int) [rem..<n] = map (\<lambda>_. 0) [rem..<n]" by simp
  ultimately show ?thesis by (simp only: map_append sum_list_append) (simp add: sum_list_triv)
qed

lemma redistribute_sum:
  assumes "alive \<noteq> []" "0 \<le> dead"
  shows "sum_list (map snd (redistribute alive dead)) = sum_list (map snd alive) + dead"
proof (cases "0 < dead")
  case True
  let ?n = "int (length alive)" let ?share = "dead div ?n" and ?rem = "dead mod ?n"
  have n: "0 < ?n" using assms(1) by simp
  have r: "0 \<le> ?rem" "nat ?rem \<le> length alive" using n pos_mod_bound [OF n, of dead] by (simp_all add: nat_le_iff less_imp_le)
  have "map snd (redistribute alive dead) =
      map (\<lambda>i. (snd (alive ! i) + ?share) + (if i < nat ?rem then 1 else 0)) [0..<length alive]"
    using True assms(1) r(1) by (simp add: redistribute_def Let_def comp_def) (auto simp: nat_less_iff zless_nat_eq_int_zless)
  then have "sum_list (map snd (redistribute alive dead)) =
      sum_list (map (\<lambda>i. snd (alive ! i)) [0..<length alive]) + sum_list (map (\<lambda>i. ?share) [0..<length alive])
      + sum_list (map (\<lambda>i. if i < nat ?rem then 1 else 0) [0..<length alive])"
    by (simp add: sum_list_addf)
  also have "map (\<lambda>i. snd (alive ! i)) [0..<length alive] = map snd alive" by (rule nth_equalityI) auto
  also have "sum_list (map (\<lambda>i. ?share) [0..<length alive]) = ?n * ?share" by (simp add: sum_list_triv)
  also have "sum_list (map (\<lambda>i. if i < nat ?rem then 1 else 0) [0..<length alive]) = ?rem" using sum_upt_less [OF r(2)] r(1) by simp
  finally show ?thesis by (simp add: add.assoc)
qed (use assms in \<open>simp add: redistribute_def\<close>)

lemma redistribute_ok:
  assumes "alive_ok fwd ws alive" "0 \<le> dead"
  shows "alive_ok fwd ws (redistribute alive dead)" "map fst (redistribute alive dead) = map fst alive"
    "length (redistribute alive dead) = length alive"
proof -
  have "0 < snd (alive ! i) + dead div int (length alive) + (if int i < dead mod int (length alive) then 1 else 0)
      \<and> 0 \<le> fwd_wan_live_dp_for_cfg fwd ws (fst (alive ! i))" if "i < length alive" for i
  proof -
    have "alive ! i \<in> set alive" using that by simp
    then have "0 < snd (alive ! i)" "0 \<le> fwd_wan_live_dp_for_cfg fwd ws (fst (alive ! i))"
      using assms(1) unfolding alive_ok_def by (metis (no_types, lifting) case_prodD prod.collapse)+
    moreover have "0 < int (length alive)" using that by linarith
    then have "0 \<le> dead div int (length alive)" using assms(2) by (simp add: pos_imp_zdiv_nonneg_iff)
    ultimately show ?thesis by simp
  qed
  then show "alive_ok fwd ws (redistribute alive dead)" using assms(1) by (auto simp: redistribute_def alive_ok_def Let_def)
  show "map fst (redistribute alive dead) = map fst alive"
    by (auto simp: redistribute_def Let_def intro: nth_equalityI)
  show "length (redistribute alive dead) = length alive" by (simp add: redistribute_def Let_def)
qed

section \<open>The choice\<close>

lemma live_dp_spec:
  assumes "fwd_wan_live_dp_for_cfg fwd ws c = dp" "0 \<le> dp"
  shows "fwd_wan_dp_ok_for_new_traffic ws dp" "dp < max (fw_wan_count fwd) (pr_wan_count (fw_pair fwd))" "0 \<le> c"
    "fw_wan_cfg_idx fwd ! nat dp = c"
  using assms
  by (auto simp: fwd_wan_live_dp_for_cfg_def Let_def find_Some_iff split: if_splits option.splits)

lemma pick_flow_member:
  assumes "wans \<noteq> []"
  shows "fst (flow_table_pick_wan_per_packet t wans weights) \<in> set wans"
    "fst (flow_table_pick_wan_per_flow_packet ok t src dst sport dport proto wans weights) \<in> set wans"
proof -
  let ?w = "take MAX_INTERFACES wans"
  have w: "?w \<noteq> []" "set ?w \<subseteq> set wans" using assms set_take_subset [of MAX_INTERFACES wans] by (auto simp: MAX_INTERFACES_def)
  have p: "fst (flow_table_pick_wan_per_packet t' xs weights) \<in> set xs" if "xs \<noteq> []" for t' xs
    using pick_member [of "take MAX_INTERFACES xs"] that set_take_subset [of MAX_INTERFACES xs]
    by (auto simp: flow_table_pick_wan_per_packet_def Let_def MAX_INTERFACES_def case_prod_unfold)
  show "fst (flow_table_pick_wan_per_packet t wans weights) \<in> set wans" using p [OF assms] .
  show "fst (flow_table_pick_wan_per_flow_packet ok t src dst sport dport proto wans weights) \<in> set wans"
    using assms p [OF w(1)] w(2) pick_member [OF w(1)]
    by (auto simp: flow_table_pick_wan_per_flow_packet_def Let_def case_prod_unfold split: option.split)
qed

text \<open>The first loop of \<open>pick_least_loaded_wan\<close>.\<close>

definition profile_scan :: "forwarder \<Rightarrow> wan_sched \<Rightarrow> route_state \<Rightarrow> profile_config \<Rightarrow> nat list \<Rightarrow> int \<times> u32 \<Rightarrow> int \<times> u32" where
  "profile_scan fwd ws rs p = fold (\<lambda>i acc. if pf_wan_bandwidth_weight p ! i \<le> 0 then acc
     else let dp = fwd_wan_live_dp_for_cfg fwd ws (pf_wan_indices p ! i) in
       if dp < 0 \<or> \<not> fwd_wan_has_tx_room fwd rs dp then acc else shallower fwd dp acc)"

definition candidate :: "forwarder \<Rightarrow> wan_sched \<Rightarrow> route_state \<Rightarrow> profile_config \<Rightarrow> nat \<Rightarrow> bool" where
  "candidate fwd ws rs p i \<longleftrightarrow> 0 < pf_wan_bandwidth_weight p ! i \<and> 0 \<le> fwd_wan_live_dp_for_cfg fwd ws (pf_wan_indices p ! i)
     \<and> fwd_wan_has_tx_room fwd rs (fwd_wan_live_dp_for_cfg fwd ws (pf_wan_indices p ! i))"

definition scan_ok :: "forwarder \<Rightarrow> wan_sched \<Rightarrow> route_state \<Rightarrow> int \<times> u32 \<Rightarrow> bool" where
  "scan_ok fwd ws rs acc \<longleftrightarrow> (0 \<le> fst acc \<longrightarrow> fwd_wan_dp_ok_for_new_traffic ws (fst acc) \<and> fwd_wan_has_tx_room fwd rs (fst acc))"

lemma shallower_spec: "shallower fwd dp acc = (dp, fwd_mid_to_wan_depth fwd dp) \<and> fwd_mid_to_wan_depth fwd dp < snd acc
    \<or> shallower fwd dp acc = acc \<and> snd acc \<le> fwd_mid_to_wan_depth fwd dp"
  by (auto simp: shallower_def Let_def split: prod.split)

lemma profile_scan_ok: "scan_ok fwd ws rs acc \<Longrightarrow> scan_ok fwd ws rs (profile_scan fwd ws rs p is acc)"
proof (induction "is" arbitrary: acc)
  case (Cons i "is")
  let ?dp = "fwd_wan_live_dp_for_cfg fwd ws (pf_wan_indices p ! i)"
  have "scan_ok fwd ws rs (shallower fwd ?dp acc)" if "0 \<le> ?dp" "fwd_wan_has_tx_room fwd rs ?dp"
    using shallower_spec [of fwd ?dp acc] that live_dp_spec(1) [OF refl that(1)] Cons.prems by (auto simp: scan_ok_def)
  then show ?case using Cons by (simp add: profile_scan_def Let_def)
qed (simp add: profile_scan_def)

lemma profile_scan_sign: "0 \<le> fst acc \<Longrightarrow> 0 \<le> fst (profile_scan fwd ws rs p is acc)"
proof (induction "is" arbitrary: acc)
  case (Cons i "is")
  have "0 \<le> fst (shallower fwd dp acc)" if "0 \<le> dp" for dp using shallower_spec [of fwd dp acc] that Cons.prems by auto
  then show ?case using Cons by (simp add: profile_scan_def Let_def)
qed (simp add: profile_scan_def)

lemma profile_scan_finds:
  assumes "i \<in> set is" "candidate fwd ws rs p i"
    and "fwd_mid_to_wan_depth fwd (fwd_wan_live_dp_for_cfg fwd ws (pf_wan_indices p ! i)) < snd acc"
  shows "0 \<le> fst (profile_scan fwd ws rs p is acc)"
  using assms(1,3)
proof (induction "is" arbitrary: acc)
  case (Cons j "is")
  let ?step = "\<lambda>j acc. profile_scan fwd ws rs p [j] acc"
  have split: "profile_scan fwd ws rs p (j # is) acc = profile_scan fwd ws rs p is (?step j acc)"
    by (simp add: profile_scan_def)
  show ?case
  proof (cases "0 \<le> fst (?step j acc)")
    case True
    then show ?thesis unfolding split by (rule profile_scan_sign)
  next
    case False
    have "?step i acc = shallower fwd (fwd_wan_live_dp_for_cfg fwd ws (pf_wan_indices p ! i)) acc"
      using assms(2) by (simp add: profile_scan_def candidate_def Let_def)
    also have "\<dots> = (fwd_wan_live_dp_for_cfg fwd ws (pf_wan_indices p ! i),
        fwd_mid_to_wan_depth fwd (fwd_wan_live_dp_for_cfg fwd ws (pf_wan_indices p ! i)))"
      using shallower_spec [of fwd "fwd_wan_live_dp_for_cfg fwd ws (pf_wan_indices p ! i)" acc] Cons.prems(2) by (metis not_less)
    finally have "0 \<le> fst (?step i acc)" using assms(2) by (simp add: candidate_def)
    then have "j \<noteq> i" using False by blast
    moreover have "snd (?step j acc) = snd acc"
    proof -
      let ?dp = "fwd_wan_live_dp_for_cfg fwd ws (pf_wan_indices p ! j)"
      show ?thesis using False shallower_spec [of fwd ?dp acc] by (auto simp: profile_scan_def Let_def split: if_splits)
    qed
    ultimately show ?thesis unfolding split using Cons by simp
  qed
qed simp

text \<open>What a WAN is allowed to be when the schedule offers only healthy ones.\<close>

lemma pick_room: "fwd_wan_has_tx_room fwd rs selected \<Longrightarrow> pick_least_loaded_wan fwd ws rs pi selected = selected"
  by (simp add: pick_least_loaded_wan_def)

lemma pick_profile:
  assumes "\<not> fwd_wan_has_tx_room fwd rs selected" "0 \<le> pi" "pi < int (length (ac_profiles (fw_cfg fwd)))"
    and "p = ac_profiles (fw_cfg fwd) ! nat pi" "pf_wan_indices p \<noteq> []"
  shows "pick_least_loaded_wan fwd ws rs pi selected =
    (let best = fst (profile_scan fwd ws rs p [0..<length (pf_wan_indices p)] (-1, 0xFFFFFFFF)) in if 0 \<le> best then best else selected)"
  using assms by (simp add: pick_least_loaded_wan_def profile_scan_def Let_def case_prod_unfold)

lemma room_in_range: "fwd_wan_has_tx_room fwd rs dp \<Longrightarrow> 0 \<le> dp \<and> dp < fw_wan_count fwd"
  by (simp add: fwd_wan_has_tx_room_def)

lemma pick_least_loaded_ok:
  assumes "0 \<le> pi" "pi < int (length (ac_profiles (fw_cfg fwd)))" "p = ac_profiles (fw_cfg fwd) ! nat pi" "pf_wan_indices p \<noteq> []"
    and "0 \<le> dp" "dp < fw_wan_count fwd" "pick_least_loaded_wan fwd ws rs pi dp = r"
  shows "0 \<le> r" "r < fw_wan_count fwd" "r = dp \<or> fwd_wan_dp_ok_for_new_traffic ws r"
    and "i < length (pf_wan_indices p) \<Longrightarrow> candidate fwd ws rs p i \<Longrightarrow>
      fwd_mid_to_wan_depth fwd (fwd_wan_live_dp_for_cfg fwd ws (pf_wan_indices p ! i)) < 0xFFFFFFFF \<Longrightarrow> fwd_wan_has_tx_room fwd rs r"
proof -
  let ?scan = "profile_scan fwd ws rs p [0..<length (pf_wan_indices p)] (-1, 0xFFFFFFFF)"
  have ok: "scan_ok fwd ws rs ?scan" by (rule profile_scan_ok) (simp add: scan_ok_def)
  have r: "r = (if fwd_wan_has_tx_room fwd rs dp then dp else if 0 \<le> fst ?scan then fst ?scan else dp)"
    using pick_room [of fwd rs dp ws pi] pick_profile [of fwd rs dp pi p ws] assms(1-4,7) by (auto simp: Let_def)
  show "0 \<le> r" "r < fw_wan_count fwd" "r = dp \<or> fwd_wan_dp_ok_for_new_traffic ws r"
    using r ok assms(5,6) by (auto simp: scan_ok_def dest: room_in_range)
  show "fwd_wan_has_tx_room fwd rs r" if i: "i < length (pf_wan_indices p)" "candidate fwd ws rs p i"
      "fwd_mid_to_wan_depth fwd (fwd_wan_live_dp_for_cfg fwd ws (pf_wan_indices p ! i)) < 0xFFFFFFFF"
  proof -
    have "0 \<le> fst ?scan" by (rule profile_scan_finds [of i]) (use i in simp_all)
    then show ?thesis using r ok by (simp add: scan_ok_def split: if_splits)
  qed
qed

text \<open>What is looked for first: WAN 0, or an eligible WAN; the latter when every WAN of the pool is live.\<close>

lemma pick_for_local_selects:
  assumes "0 \<le> pi" "pi < int (length (ac_profiles (fw_cfg fwd)))" "p = ac_profiles (fw_cfg fwd) ! nat pi"
    and "0 < fw_wan_count fwd" "wan_active_dp_count ws \<le> fw_wan_count fwd"
    and "fwd_wan_pick_for_local calloc_ok fwd ws rs now t pi flow_ok src_ip dst_ip src_port dst_port proto = (r, t')"
  obtains dp where "pick_least_loaded_wan fwd ws rs pi dp = r" "0 \<le> dp" "dp < fw_wan_count fwd" "dp = 0 \<or> fwd_wan_dp_ok_for_new_traffic ws dp"
    "\<lbrakk>fwd_wan_build_profile_pool fwd ws now p (int MAX_INTERFACES) \<noteq> [];
      \<forall>(c, w) \<in> set (fwd_wan_build_profile_pool fwd ws now p (int MAX_INTERFACES)). 0 \<le> fwd_wan_live_dp_for_cfg fwd ws c\<rbrakk>
      \<Longrightarrow> fwd_wan_dp_ok_for_new_traffic ws dp"
proof -
  let ?pool = "fwd_wan_build_profile_pool fwd ws now p (int MAX_INTERFACES)"
  let ?pick = "if flow_ok then flow_table_pick_wan_per_flow_packet calloc_ok t src_ip dst_ip src_port dst_port proto
                      (map fst ?pool) (Some (map snd ?pool))
               else flow_table_pick_wan_per_packet t (map fst ?pool) (Some (map snd ?pool))"
  obtain c t'' where c: "?pick = (c, t'')" by fastforce
  let ?live = "fwd_wan_live_dp_for_cfg fwd ws c"
  let ?dp = "if ?live < 0 then fwd_wan_dp_for_legacy_cfg fwd ws now c else ?live"
  let ?sel = "if ?pool = [] \<or> c < 0 \<or> ?dp < 0 \<or> ?dp \<ge> fw_wan_count fwd \<or> \<not> fwd_wan_dp_ok_for_new_traffic ws ?dp then 0 else ?dp"
  have run: "pick_least_loaded_wan fwd ws rs pi ?sel = r"
    using assms(1,2,4,6) c unfolding fwd_wan_pick_for_local_def Let_def assms(3) [symmetric] by (auto split: if_splits)
  have elig: "fwd_wan_dp_ok_for_new_traffic ws ?sel" if ne: "?pool \<noteq> []" and l: "\<forall>(c, w) \<in> set ?pool. 0 \<le> fwd_wan_live_dp_for_cfg fwd ws c"
  proof -
    have "fst ?pick \<in> set (map fst ?pool)" using ne pick_flow_member [of "map fst ?pool"] by simp
    then have "c \<in> set (map fst ?pool)" by (simp add: c)
    then have "0 \<le> ?live" using l by auto
    note spec = live_dp_spec [OF refl this]
    have "?live < fw_wan_count fwd" using spec(1) assms(5) by (simp add: fwd_wan_dp_ok_for_new_traffic_def)
    then show ?thesis using ne spec(1,3) \<open>0 \<le> ?live\<close> by simp
  qed
  show ?thesis by (rule that [OF run _ _ _ elig]) (use assms(4) in auto)
qed

lemma pool_without_drains:
  assumes "\<forall>d \<in> set (wan_drains ws). \<not> dr_active d" "length (wan_drains ws) = MAX_INTERFACES"
  shows "fwd_wan_build_profile_pool fwd ws now p (int MAX_INTERFACES)
    = take MAX_INTERFACES (redistribute (fst (live_wans fwd ws now p)) (snd (live_wans fwd ws now p)))"
    "fwd_wan_dp_for_legacy_cfg fwd ws now c = -1"
proof -
  have no: "\<not> dr_active (wan_drains ws ! dp)" if "dp < MAX_INTERFACES" for dp using assms that by auto
  then have "draining_wans fwd ws now = []" by (auto simp: draining_wans_def filter_empty_conv)
  then show "fwd_wan_build_profile_pool fwd ws now p (int MAX_INTERFACES)
    = take MAX_INTERFACES (redistribute (fst (live_wans fwd ws now p)) (snd (live_wans fwd ws now p)))"
    by (simp add: fwd_wan_build_profile_pool_def case_prod_unfold MAX_INTERFACES_def)
  show "fwd_wan_dp_for_legacy_cfg fwd ws now c = -1"
    using no by (auto simp: fwd_wan_dp_for_legacy_cfg_def find_None_iff split: option.split dest!: find_Some_iff [THEN iffD1])
qed

lemma length_live_wans: "length (fst (live_wans fwd ws now p)) \<le> MAX_PROFILE_INTERFACES"
proof -
  have "length (fst (fold (pool_step fwd ws now p) is acc)) \<le> MAX_PROFILE_INTERFACES" if "length (fst acc) \<le> MAX_PROFILE_INTERFACES" for "is" acc
    using that
  proof (induction "is" arbitrary: acc)
    case (Cons i "is")
    have "length (fst (pool_step fwd ws now p i acc)) \<le> MAX_PROFILE_INTERFACES"
      using Cons.prems by (auto simp: pool_step_def Let_def case_prod_unfold)
    then show ?case using Cons.IH by simp
  qed simp
  from this [of "([], 0)"] show ?thesis by (simp add: live_wans_def)
qed

subsection \<open>Flushing\<close>

lemma frame_free_spec:
  assumes "pool_ok pool" "length (pool_contents pool) < unat (q_cap pool)"
  shows "pool_ok (ne_frame_free pool a)" "pool_contents (ne_frame_free pool a) = pool_contents pool @ [a]"
    "q_cap (ne_frame_free pool a) = q_cap pool"
  using pool.push_room [OF assms, of a] by (auto simp: ne_frame_free_def word_unat_eq_iff [of "q_cap _"] split: prod.splits if_splits)

lemma flush_ring_spec:
  assumes "ring_ok r" "pool_ok pool" "length (pool_contents pool) + length (ring_contents r) \<le> unat (q_cap pool)"
  shows "\<exists>r' pool'. flush_ring r pool d = (r', pool', d + of_nat (length (ring_contents r))) \<and> ring_ok r' \<and> ring_contents r' = []
    \<and> r_cap r' = r_cap r \<and> pool_ok pool' \<and> pool_contents pool' = pool_contents pool @ map pk_addr (ring_contents r) \<and> q_cap pool' = q_cap pool"
  using assms
proof (induction "ring_contents r" arbitrary: r pool d)
  case Nil
  then show ?case using ring.pop_empty [OF Nil.prems(1)] by (subst flush_ring.simps) (simp add: Nil.hyps [symmetric])
next
  case (Cons x xs)
  obtain r1 where r1: "ne_ring_try_pop r = Some (x, r1)" "ring_ok r1" "ring_contents r1 = xs" "r_cap r1 = r_cap r"
    using ring_pop_front [OF Cons.prems(1) Cons.hyps(2) [symmetric]] by auto
  have "length (pool_contents pool) < unat (q_cap pool)" using Cons.prems(3) by (simp add: Cons.hyps(2) [symmetric])
  note fr = frame_free_spec [OF Cons.prems(2) this, of "pk_addr x"]
  have room: "length (pool_contents (ne_frame_free pool (pk_addr x))) + length (ring_contents r1)
      \<le> unat (q_cap (ne_frame_free pool (pk_addr x)))"
    using Cons.prems(3) by (simp add: fr r1 Cons.hyps(2) [symmetric])
  obtain r' pool' where IH: "flush_ring r1 (ne_frame_free pool (pk_addr x)) (d + 1) = (r', pool', d + 1 + of_nat (length xs))"
    "ring_ok r'" "ring_contents r' = []" "r_cap r' = r_cap r1" "pool_ok pool'"
    "pool_contents pool' = pool_contents pool @ [pk_addr x] @ map pk_addr xs" "q_cap pool' = q_cap pool"
    using Cons.hyps(1) [OF r1(3) [symmetric] r1(2) fr(1) room, of "d + 1"] by (auto simp: r1 fr)
  then show ?case using r1
    by (subst flush_ring.simps) (auto simp: Cons.hyps(2) [symmetric] add.assoc)
qed

text \<open>The frames that wait for a WAN, in the order in which a flush frees them.\<close>

definition wan_frames :: "forwarder \<Rightarrow> nat \<Rightarrow> nat list \<Rightarrow> u64 list" where
  "wan_frames fwd wan ws = concat (map (\<lambda>w. map pk_addr (ring_contents (fw_mid_to_wan fwd wan w))) ws)"

definition flush_one_ring :: "nat \<Rightarrow> nat \<Rightarrow> u32 \<times> forwarder \<Rightarrow> u32 \<times> forwarder" where
  "flush_one_ring wan w = (\<lambda>(dropped, fwd).
     case flush_ring (fw_mid_to_wan fwd wan w) (pr_pool (fw_pair fwd)) dropped of (r, pool, dropped) \<Rightarrow>
       (dropped, set_pool pool (set_ring wan w r fwd)))"

lemma flush_rings_spec:
  assumes "distinct ws" "\<forall>w \<in> set ws. ring_ok (fw_mid_to_wan fwd wan w)" "pool_ok (pr_pool (fw_pair fwd))"
    and "length (pool_contents (pr_pool (fw_pair fwd))) + length (wan_frames fwd wan ws) \<le> unat (q_cap (pr_pool (fw_pair fwd)))"
    and "fold (flush_one_ring wan) ws (d, fwd) = (d', fwd')"
  shows "d' = d + of_nat (length (wan_frames fwd wan ws))
    \<and> (\<forall>w \<in> set ws. ring_ok (fw_mid_to_wan fwd' wan w) \<and> ring_contents (fw_mid_to_wan fwd' wan w) = [])
    \<and> (\<forall>v w. v \<noteq> wan \<or> w \<notin> set ws \<longrightarrow> fw_mid_to_wan fwd' v w = fw_mid_to_wan fwd v w)
    \<and> pool_ok (pr_pool (fw_pair fwd')) \<and> pool_contents (pr_pool (fw_pair fwd')) = pool_contents (pr_pool (fw_pair fwd)) @ wan_frames fwd wan ws"
  using assms
proof (induction ws arbitrary: d fwd)
  case (Cons w ws)
  let ?r = "fw_mid_to_wan fwd wan w" and ?pool = "pr_pool (fw_pair fwd)"
  have room: "length (pool_contents ?pool) + length (ring_contents ?r) \<le> unat (q_cap ?pool)"
    using Cons.prems(4) by (simp add: wan_frames_def)
  obtain r pool where f: "flush_ring ?r ?pool d = (r, pool, d + of_nat (length (ring_contents ?r)))" "ring_ok r" "ring_contents r = []"
    "pool_ok pool" "pool_contents pool = pool_contents ?pool @ map pk_addr (ring_contents ?r)" "q_cap pool = q_cap ?pool"
    using flush_ring_spec [OF _ Cons.prems(3) room, of d] Cons.prems(2) by auto
  let ?fwd = "set_pool pool (set_ring wan w r fwd)"
  have m: "fw_mid_to_wan ?fwd = (fw_mid_to_wan fwd)(wan := (fw_mid_to_wan fwd wan)(w := r))" "pr_pool (fw_pair ?fwd) = pool"
    by (simp_all add: set_pool_def set_ring_def)
  have fr: "wan_frames ?fwd wan ws = wan_frames fwd wan ws"
    using Cons.prems(1) unfolding wan_frames_def m by (intro arg_cong [of _ _ concat] map_cong) auto
  have step: "fold (flush_one_ring wan) ws (d + of_nat (length (ring_contents ?r)), ?fwd) = (d', fwd')"
    using Cons.prems(5) flush_one_ring_def [of wan w, THEN fun_cong, of "(d, fwd)"] by (simp add: f(1))
  have "\<forall>v \<in> set ws. ring_ok (fw_mid_to_wan ?fwd wan v)" using Cons.prems(1,2) by (simp add: m)
  moreover have "length (pool_contents (pr_pool (fw_pair ?fwd))) + length (wan_frames ?fwd wan ws) \<le> unat (q_cap (pr_pool (fw_pair ?fwd)))"
    using Cons.prems(4) by (simp add: fr m f) (simp add: wan_frames_def)
  ultimately show ?case
    using Cons.IH [OF _ _ _ _ step] Cons.prems(1) f fr by (simp add: m wan_frames_def add.assoc)
qed (simp add: wan_frames_def)

section \<open>Properties\<close>

text \<open>C25: the pool of WANs for a profile, in every state. For a profile with at most as many WANs as a profile may have (which
  a loaded one has), the pool begins with the WANs of the profile that are live, have a positive weight and are not at the
  very start of a ramp, in the order of the profile; behind them come the WANs that drain, whatever profile they
  belong to, as far as there is room. All weights are positive. If the first part is not empty, its weights add up to
  the weights that the WANs of the profile bring in: a live WAN that is ramping up brings the part that the ramp allows, every other
  WAN its whole weight, dead ones included. So without a ramp failover conserves bandwidth among the live WANs: the share
  of a dead WAN goes to the others and none is lost to rounding.\<close>

theorem wan_pool_conserves_weight:
  assumes "length (pf_wan_indices p) \<le> MAX_PROFILE_INTERFACES"
  shows "\<exists>live. fwd_wan_build_profile_pool fwd ws now p (int MAX_INTERFACES) = live @ take (MAX_INTERFACES - length live) (draining_wans fwd ws now)
     \<and> map fst live = map (\<lambda>i. pf_wan_indices p ! i) (filter (offers fwd ws now p) [0..<length (pf_wan_indices p)])
     \<and> (\<forall>(c, w) \<in> set live. 0 < w \<and> 0 \<le> fwd_wan_live_dp_for_cfg fwd ws c) \<and> (\<forall>(c, w) \<in> set (draining_wans fwd ws now). 0 < w)
     \<and> (live \<noteq> [] \<longrightarrow> sum_list (map snd live) = (\<Sum>i < length (pf_wan_indices p). brought_weight fwd ws now p i))
     \<and> (\<forall>i < length (pf_wan_indices p). wan_join_ramp_pct ws now (pf_wan_indices p ! i) \<notin> {1..<100} \<longrightarrow>
          brought_weight fwd ws now p i = max 0 (base_weight ws now p i))"
proof -
  obtain alive dead where l: "live_wans fwd ws now p = (alive, dead)" by fastforce
  have ok: "alive_ok fwd ws alive" "0 \<le> dead" using live_wans_ok [of fwd ws now p] by (simp_all add: l)
  note red = redistribute_ok [OF ok] and eq = live_wans_eq [OF assms, of fwd ws now, unfolded l fst_conv snd_conv]
  let ?live = "redistribute alive dead"
  have "length ?live \<le> MAX_INTERFACES"
    using length_live_wans [of fwd ws now p] red(3) by (simp add: l MAX_INTERFACES_def MAX_PROFILE_INTERFACES_def)
  then have pool: "fwd_wan_build_profile_pool fwd ws now p (int MAX_INTERFACES) = ?live @ take (MAX_INTERFACES - length ?live) (draining_wans fwd ws now)"
    by (simp add: fwd_wan_build_profile_pool_def l MAX_INTERFACES_def)
  have names: "map fst ?live = map (\<lambda>i. pf_wan_indices p ! i) (filter (offers fwd ws now p) [0..<length (pf_wan_indices p)])"
    using red(2) by (simp add: eq(1) comp_def)
  have total: "sum_list (map snd ?live) = (\<Sum>i < length (pf_wan_indices p). brought_weight fwd ws now p i)" if "?live \<noteq> []"
    using redistribute_sum [OF _ ok(2)] eq(2) that red(3) by (cases alive) simp_all
  have "\<forall>(c, w) \<in> set (draining_wans fwd ws now). 0 < w" by (auto simp: draining_wans_def Let_def)
  moreover have "brought_weight fwd ws now p i = max 0 (base_weight ws now p i)" if "wan_join_ramp_pct ws now (pf_wan_indices p ! i) \<notin> {1..<100}" for i
    using that by (auto simp: brought_weight_def Let_def)
  ultimately show ?thesis using pool names total red(1) by (intro exI [of _ ?live]) (auto simp: alive_ok_def)
qed

definition sched_example :: wan_sched where
  "sched_example = \<lparr>wan_drains = replicate MAX_INTERFACES drain_zero, wan_active_dp_count = 2,
     wan_stopped = replicate MAX_INTERFACES False, wan_admin_hold = (replicate MAX_INTERFACES False)[0 := True],
     wan_blend = \<lparr>bl_active = False, bl_profile_id = 0, bl_wan_cfg = [], bl_old_w = [], bl_new_w = [], bl_start_ms = 0, bl_until_ms = 0\<rparr>,
     wan_joins = replicate MAX_INTERFACES join_zero, ws_links = []\<rparr>"

definition pair_example :: ne_pair where
  "pair_example = \<lparr>pr_frames = (\<lambda>_. replicate 2048 0), pr_frame_size = 2048, pr_wan_ifnames = replicate MAX_INTERFACES [],
     pr_wan_count = 2, pr_pool = example_pool, pr_bpf_wans = replicate MAX_INTERFACES True,
     pr_xdp_wan_on = replicate MAX_INTERFACES True, pr_wan_live = replicate MAX_INTERFACES True,
     pr_local_count = 2, pr_local_live = replicate MAX_INTERFACES True\<rparr>"

definition ring_example :: ne_ring where
  "ring_example = \<lparr>r_buf = replicate 128 ne_packet_zero, r_cap = 128, r_mask = 127, r_head = 0, r_tail = 0, r_mpsc_pop = False\<rparr>"

definition fwd_example :: forwarder where
  "fwd_example = \<lparr>fw_cfg = cfg_example [profile_example []] [],
     fw_local_ifnames = [''lan1'', ''lan2''] @ replicate 14 [], fw_local_count = 2,
     fw_wan_ifnames = [''wan1'', ''wan2''] @ replicate 14 [], fw_wan_count = 2, fw_wan_cfg_idx = [1, 2] @ replicate 14 (-1),
     fw_pair = pair_example, fw_mid_to_wan = (\<lambda>_ _. ring_example),
     fw_mid_to_local = (\<lambda>_ _. ring_example), fw_threads_started = True, fw_split_tail_cache = (\<lambda>_. []), fw_mac_table = table_init\<rparr>"

theorem wan_pool_conserves_weight_witness:
  "fwd_wan_live_dp_for_cfg fwd_example sched_example 1 = -1
   \<and> fwd_wan_build_profile_pool fwd_example sched_example 0 (profile_example []) (int MAX_INTERFACES) = [(2, 4)]
   \<and> sum_list (map snd (fwd_wan_build_profile_pool fwd_example sched_example 0 (profile_example []) (int MAX_INTERFACES)))
      = (\<Sum>i < 2. max 0 (base_weight sched_example 0 (profile_example []) i))"
proof -
  let ?p = "profile_example []" and ?ws = sched_example
  have e: "fwd_wan_live_dp_for_cfg fwd_example ?ws 1 = -1" by code_simp
  have pool: "fwd_wan_build_profile_pool fwd_example ?ws 0 ?p (int MAX_INTERFACES) = [(2, 4)]" by code_simp
  have d: "draining_wans fwd_example ?ws 0 = []" by code_simp
  have p: "length (pf_wan_indices ?p) = 2" "pf_wan_indices ?p = [1, 2]" by (simp_all add: profile_example_def)
  have r: "wan_join_ramp_pct ?ws 0 1 = -1" "wan_join_ramp_pct ?ws 0 2 = -1" by code_simp+
  have "length (pf_wan_indices ?p) \<le> MAX_PROFILE_INTERFACES" by (simp add: p(1) MAX_PROFILE_INTERFACES_def)
  from wan_pool_conserves_weight [OF this, of fwd_example ?ws 0]
  have s: "sum_list (map snd [(2, 4 :: int)]) = (\<Sum>i < 2. brought_weight fwd_example ?ws 0 ?p i)"
    and b: "\<And>i. i < 2 \<Longrightarrow> wan_join_ramp_pct ?ws 0 (pf_wan_indices ?p ! i) \<notin> {1..<100} \<Longrightarrow>
      brought_weight fwd_example ?ws 0 ?p i = max 0 (base_weight ?ws 0 ?p i)"
    unfolding pool d p(1) by auto
  have "brought_weight fwd_example ?ws 0 ?p i = max 0 (base_weight ?ws 0 ?p i)" if "i < 2" for i
    by (rule b [OF that]) (use that r in \<open>auto simp: p(2) less_Suc_eq numeral_2_eq_2\<close>)
  then show ?thesis using e pool s by simp
qed


definition route_example :: route_state where
  "route_example = route_init\<lparr>tls_out_ring_idx := 3\<rparr>"

definition flow_example :: flow_tls where
  "flow_example = \<lparr>g_flow_swrr = None, g_default_swrr = flow_swrr_zero, g_flow_swrr_clock = 0\<rparr>"


text \<open>The fallback does not look at the eligibility of a WAN. When every WAN of the profile is held, stopped or
  down, packets are sent to WAN 0 as long as its ring has room, also when WAN 0 is one that the operator has
  taken out of service.\<close>

lemma wan_fallback_takes_held:
  assumes "0 < fw_wan_count fwd" "0 \<le> pi" "pi < int (length (ac_profiles (fw_cfg fwd)))" "p = ac_profiles (fw_cfg fwd) ! nat pi"
    and "\<forall>c \<in> set (pf_wan_indices p). fwd_wan_live_dp_for_cfg fwd ws c < 0"
    and "\<forall>d \<in> set (wan_drains ws). \<not> dr_active d" "length (wan_drains ws) = MAX_INTERFACES"
    and "fwd_wan_admin_is_held ws 0" "fwd_wan_has_tx_room fwd rs 0"
  shows "fwd_wan_pick_for_local calloc_ok fwd ws rs now t pi flow_ok src_ip dst_ip src_port dst_port proto = (0, t)
    \<and> \<not> fwd_wan_dp_ok_for_new_traffic ws 0"
proof -
  have "fst (fold (pool_step fwd ws now p) is acc) = fst acc" if "set is \<subseteq> {..<length (pf_wan_indices p)}" for "is" acc
    using that
  proof (induction "is" arbitrary: acc)
    case (Cons i "is")
    have "fst (pool_step fwd ws now p i acc) = fst acc" using assms(5) Cons.prems by (auto simp: pool_step_def Let_def case_prod_unfold)
    then show ?case using Cons by simp
  qed simp
  then have "fst (live_wans fwd ws now p) = []" unfolding live_wans_def by (simp add: lessThan_atLeast0)
  then have "fwd_wan_build_profile_pool fwd ws now p (int MAX_INTERFACES) = []"
    by (simp add: pool_without_drains(1) [OF assms(6,7)] redistribute_def)
  then show ?thesis
    using assms(1-4,8,9) by (simp add: fwd_wan_pick_for_local_def pick_room fwd_wan_dp_ok_for_new_traffic_def
        fwd_wan_admin_is_held_def dp_valid_def MAX_INTERFACES_def)
qed

text \<open>Taking a WAN out of service by name strands no frame. When the command finds the WAN live and not yet held,
  the WAN is held and takes no new traffic afterwards, all its transmit rings are empty, the rings of the other
  WANs are as before, and exactly the frames that waited in the rings are handed to the pool of free frames.\<close>

lemma wan_admin_kick_releases:
  assumes "fw_threads_started fwd" "ifname \<noteq> []" "find_live_dp_by_ifname fwd ifname = int d" "int d < fw_wan_count fwd"
    and "\<not> fwd_wan_admin_is_held ws (int d)" "d < length (wan_admin_hold ws)"
    and "\<forall>w < NE_CRYPTO_WORKERS. ring_ok (fw_mid_to_wan fwd d w)" "pool_ok (pr_pool (fw_pair fwd))"
    and "length (pool_contents (pr_pool (fw_pair fwd))) + length (wan_frames fwd d [0..<NE_CRYPTO_WORKERS]) \<le> unat (q_cap (pr_pool (fw_pair fwd)))"
    and "wan_admin_kick ifname (fwd, ws) = (rc, fwd', ws')"
  shows "rc = 0 \<and> fwd_wan_admin_is_held ws' (int d) \<and> \<not> fwd_wan_dp_ok_for_new_traffic ws' (int d)
    \<and> wan_frames fwd' d [0..<NE_CRYPTO_WORKERS] = [] \<and> (\<forall>v w. v \<noteq> d \<longrightarrow> fw_mid_to_wan fwd' v w = fw_mid_to_wan fwd v w)
    \<and> pool_contents (pr_pool (fw_pair fwd')) = pool_contents (pr_pool (fw_pair fwd)) @ wan_frames fwd d [0..<NE_CRYPTO_WORKERS]"
proof -
  obtain n fwd1 where fl: "fold (flush_one_ring d) [0..<NE_CRYPTO_WORKERS] (0, fwd) = (n, fwd1)" by fastforce
  have "fwd_wan_flush_queue (int d) fwd = (n, fwd1)"
    using fl assms(4) by (simp add: fwd_wan_flush_queue_def flush_one_ring_def [abs_def])
  then have r: "rc = 0" "fwd' = fwd1" "ws' = fwd_wan_admin_hold_set (int d) True ws"
    using assms(1-3,5,10) by (auto simp: wan_admin_kick_def Let_def)
  have v: "dp_valid (int d)" using assms(5) by (simp add: fwd_wan_admin_is_held_def split: if_splits)
  have held: "fwd_wan_admin_is_held ws' (int d)" "\<not> fwd_wan_dp_ok_for_new_traffic ws' (int d)"
    using v assms(6) by (simp_all add: r fwd_wan_admin_hold_set_def fwd_wan_admin_is_held_def fwd_wan_dp_ok_for_new_traffic_def)
  have q: "\<forall>w \<in> set [0..<NE_CRYPTO_WORKERS]. ring_ok (fw_mid_to_wan fwd d w)" using assms(7) by simp
  note spec = flush_rings_spec [OF distinct_upt q assms(8,9) fl]
  then have "wan_frames fwd1 d [0..<NE_CRYPTO_WORKERS] = []" by (simp add: wan_frames_def)
  then show ?thesis using r held spec by blast
qed

definition busy_ring :: ne_ring where
  "busy_ring = ring_example\<lparr>r_buf := (r_buf ring_example)[0 := example_packet 60], r_head := 1\<rparr>"

definition fwd_busy :: forwarder where
  "fwd_busy = set_ring 1 2 busy_ring fwd_example"

end
