(* ===== verification/Pqc_Handshake.thy ===== *)
theory Pqc_Handshake
  imports Packet_Crypto Base64
begin

text \<open>
  The key exchange of \<open>src/crypto/pqc/pqc_handshake.c\<close>: the messages and their signatures, the key slots of a
  policy, the responder's side of a handshake (\<open>HELLO\<close>, \<open>READY\<close>), the initiator's side of a key rotation
  (\<open>RESP\<close>, \<open>COMMIT\<close>), the signed keepalives and the deletion of the previous key. Digest, signature and key
  encapsulation are the entry points of the cipher library, here the record \<open>hs_lib\<close>. What a call meets in its
  environment (clock, random numbers, allocation, whether the datagram leaves) is the record \<open>hs_env\<close>; a datagram that
  does not leave counts as cut short (\<open>-EIO\<close>), an error number of the system call is not told apart. Sockets,
  threads, logs and the receive queue are not represented; a message that is sent is part of the result. The
  mutex makes the parts of a handler atomic; a handler of one policy runs in the one worker thread of that policy.
\<close>

section \<open>Messages\<close>

definition PQC_HS_MAGIC :: u32 where "PQC_HS_MAGIC = 0x50514348"
definition PQC_HS_MSG_HELLO :: u8 where "PQC_HS_MSG_HELLO = 1"
definition PQC_HS_MSG_RESP :: u8 where "PQC_HS_MSG_RESP = 2"
definition PQC_HS_MSG_KEEPALIVE :: u8 where "PQC_HS_MSG_KEEPALIVE = 3"
definition PQC_HS_MSG_POKE :: u8 where "PQC_HS_MSG_POKE = 4"
definition PQC_HS_MSG_READY :: u8 where "PQC_HS_MSG_READY = 5"
definition PQC_HS_MSG_COMMIT :: u8 where "PQC_HS_MSG_COMMIT = 6"
definition PQC_HS_MSG_MAX_SZ :: nat where "PQC_HS_MSG_MAX_SZ = 10000"
definition PQC_HS_CACHE_SLOTS :: nat where "PQC_HS_CACHE_SLOTS = 4"
definition PQC_HS_HDR_SZ :: nat where "PQC_HS_HDR_SZ = 17"
definition PQC_HS_KEEPALIVE_TIMEOUT_MS :: u64 where "PQC_HS_KEEPALIVE_TIMEOUT_MS = 45000"
definition PQC_HS_PREV_KEY_GRACE_MS :: u64 where "PQC_HS_PREV_KEY_GRACE_MS = 90000"
definition PQC_HS_STATE_READY :: u8 where "PQC_HS_STATE_READY = 1"
definition PQC_HS_STATE_FAILED :: u8 where "PQC_HS_STATE_FAILED = 2"
definition PQC_HS_STATE_HANDSHAKING :: u8 where "PQC_HS_STATE_HANDSHAKING = 3"
definition PQC_HS_KEEPALIVE_DATA_SZ :: u16 where "PQC_HS_KEEPALIVE_DATA_SZ = 51"
definition RAW_KEY_SZ :: nat where "RAW_KEY_SZ = 8192"

lemmas hs_msg_types = PQC_HS_MSG_HELLO_def PQC_HS_MSG_RESP_def PQC_HS_MSG_KEEPALIVE_def PQC_HS_MSG_POKE_def
  PQC_HS_MSG_READY_def PQC_HS_MSG_COMMIT_def

text \<open>Error codes of the C library that the handlers return, negated.\<close>

definition ENOENT :: int where "ENOENT = 2"
definition EIO :: int where "EIO = 5"
definition EAGAIN :: int where "EAGAIN = 11"
definition EINVAL :: int where "EINVAL = 22"
definition EPROTO :: int where "EPROTO = 71"
definition EKEYREJECTED :: int where "EKEYREJECTED = 129"

lemmas errno_defs = ENOENT_def EIO_def EAGAIN_def EINVAL_def EPROTO_def EKEYREJECTED_def

text \<open>The packed struct; \<open>hm_payload\<close> is the data followed by the signature.\<close>

record pqc_hs_msg =
  hm_magic :: u32
  hm_msg_type :: u8
  hm_session_id :: u32
  hm_policy_id :: u32
  hm_sig_len :: u16
  hm_data_len :: u16
  hm_payload :: buf

definition le16_bytes :: "u16 \<Rightarrow> buf" where
  "le16_bytes x = [ucast x, ucast (drop_bit 8 x)]"

definition le16_of :: "buf \<Rightarrow> nat \<Rightarrow> u16" where
  "le16_of b i = be16 (b ! (i + 1)) (b ! i)"

definition le32_of :: "buf \<Rightarrow> nat \<Rightarrow> u32" where
  "le32_of b i = be32 (b ! (i + 3)) (b ! (i + 2)) (b ! (i + 1)) (b ! i)"

definition hs_msg_header :: "pqc_hs_msg \<Rightarrow> u16 \<Rightarrow> buf" where
  "hs_msg_header m sig_len = le32_bytes (hm_magic m) @ [hm_msg_type m] @ le32_bytes (hm_session_id m)
     @ le32_bytes (hm_policy_id m) @ le16_bytes sig_len @ le16_bytes (hm_data_len m)"

definition hs_msg_bytes :: "pqc_hs_msg \<Rightarrow> buf" where
  "hs_msg_bytes m = hs_msg_header m (hm_sig_len m) @ hm_payload m"

definition pqc_hs_validate_message :: "buf \<Rightarrow> nat \<Rightarrow> pqc_hs_msg option mem" where
  "pqc_hs_validate_message b rx_len =
     (if rx_len < PQC_HS_HDR_SZ then Some None
      else do {
        h \<leftarrow> rdn b 0 PQC_HS_HDR_SZ;
        let sig_len = le16_of h 13;
        let data_len = le16_of h 15;
        let total_len = PQC_HS_HDR_SZ + unat data_len + unat sig_len;
        if total_len > PQC_HS_MSG_MAX_SZ \<or> total_len \<noteq> rx_len then Some None
        else do {
          p \<leftarrow> rdn b PQC_HS_HDR_SZ (unat data_len + unat sig_len);
          Some (Some \<lparr>hm_magic = le32_of h 0, hm_msg_type = h ! 4, hm_session_id = le32_of h 5, hm_policy_id = le32_of h 9,
            hm_sig_len = sig_len, hm_data_len = data_len, hm_payload = p\<rparr>) } })"

definition hm_data :: "pqc_hs_msg \<Rightarrow> buf" where
  "hm_data m = take (unat (hm_data_len m)) (hm_payload m)"

definition hm_signature :: "pqc_hs_msg \<Rightarrow> buf" where
  "hm_signature m = slice (hm_payload m) (unat (hm_data_len m)) (unat (hm_sig_len m))"

section \<open>The cipher library\<close>

record hs_lib =
  hl_sha256 :: "buf \<Rightarrow> buf option"
  hl_dsa_sign :: "buf \<Rightarrow> buf \<Rightarrow> buf option"
  hl_dsa_verify :: "buf \<Rightarrow> buf \<Rightarrow> buf \<Rightarrow> bool"
  hl_kem_decapsulate :: "buf \<Rightarrow> buf \<Rightarrow> buf option"

record hs_env =
  he_now :: u64
  he_encapsulate :: "buf \<Rightarrow> (buf \<times> buf) option"
  he_session_id :: "u32 option"
  he_request_id :: "u64 option"
  he_malloc_ok :: bool
  he_send_ok :: bool

definition pqc_hs_transcript_hash :: "hs_lib \<Rightarrow> pqc_hs_msg \<Rightarrow> buf option" where
  "pqc_hs_transcript_hash lib m =
     (if PQC_HS_HDR_SZ + unat (hm_data_len m) > PQC_HS_MSG_MAX_SZ then None
      else hl_sha256 lib (hs_msg_header m 0 @ hm_data m))"

definition pqc_hs_sign_message :: "hs_lib \<Rightarrow> buf \<Rightarrow> pqc_hs_msg \<Rightarrow> buf option" where
  "pqc_hs_sign_message lib priv_key m =
     (case pqc_hs_transcript_hash lib m of None \<Rightarrow> None | Some digest \<Rightarrow> hl_dsa_sign lib priv_key digest)"

definition pqc_hs_verify_message :: "hs_lib \<Rightarrow> buf \<Rightarrow> pqc_hs_msg \<Rightarrow> bool" where
  "pqc_hs_verify_message lib pub_key m =
     (case pqc_hs_transcript_hash lib m of None \<Rightarrow> False | Some digest \<Rightarrow> hl_dsa_verify lib pub_key digest (hm_signature m))"

text \<open>The result of the digest is not tested; when it fails, the key is whatever the array held, here \<^const>\<open>None\<close>.\<close>

definition derive_traffic_key :: "hs_lib \<Rightarrow> buf \<Rightarrow> buf mem" where
  "derive_traffic_key lib shared_secret = do {
     ss \<leftarrow> rdn shared_secret 0 32;
     h \<leftarrow> hl_sha256 lib ss;
     rdn h 0 PQC_TRAFFIC_KEY_SZ }"

section \<open>The binding of a policy\<close>

record pqc_hs_cache_entry =
  hc_response :: "pqc_hs_msg option"
  hc_session_id :: u32
  hc_hello_hash :: buf
  hc_master_key :: buf
  hc_valid :: bool
  hc_key_promoted :: bool
  hc_requires_commit :: bool

definition hs_cache_zero :: pqc_hs_cache_entry where
  "hs_cache_zero = \<lparr>hc_response = None, hc_session_id = 0, hc_hello_hash = replicate 32 0, hc_master_key = replicate 32 0,
     hc_valid = False, hc_key_promoted = False, hc_requires_commit = False\<rparr>"

text \<open>The other fields of \<open>policy_key_binding_t\<close> that the key exchange of a policy uses.\<close>

record pqc_binding = policy_key_binding +
  pb_encrypt_key :: buf
  pb_decrypt_key :: buf
  pb_local_priv :: buf
  pb_peer_pub :: buf
  pb_is_initiator :: bool
  pb_is_tunnel :: bool
  pb_hs_cache :: "pqc_hs_cache_entry list"
  pb_hs_cache_next :: nat
  pb_rekey_requested :: bool
  pb_handshake_give_up :: bool
  pb_rotation_give_up :: bool
  pb_giveup_logged :: bool
  pb_send_poke :: bool
  pb_keepalive_enabled :: bool
  pb_keepalive_send_now :: bool
  pb_last_sent_time :: u64
  pb_last_recv_time :: u64
  pb_handshake_start_time :: u64
  pb_rotation_start_time :: u64
  pb_local_request_id :: u64
  pb_local_keepalive_seq :: u64
  pb_peer_keepalive_epoch :: u64
  pb_peer_keepalive_seq :: u64
  pb_keepalive_monitor_start_time :: u64
  pb_last_keepalive_rx_time :: u64
  pb_next_auto_retry_time :: u64
  pb_prev_discard_after_ms :: u64

definition set_slot :: "nat \<Rightarrow> buf \<Rightarrow> u8 \<Rightarrow> bool \<Rightarrow> pqc_binding \<Rightarrow> pqc_binding" where
  "set_slot slot key kid valid b = b\<lparr>pb_keys := (pb_keys b)[slot := key], pb_key_ids := (pb_key_ids b)[slot := kid],
     pb_key_slots_valid := (pb_key_slots_valid b)[slot := valid]\<rparr>"

definition pqc_hs_wipe_slot_locked :: "nat \<Rightarrow> pqc_binding \<Rightarrow> pqc_binding" where
  "pqc_hs_wipe_slot_locked slot b =
     (if slot \<ge> KEY_SLOT_COUNT then b else set_slot slot (replicate PQC_TRAFFIC_KEY_SZ 0) 0 False b)"

definition next_key_id :: "u8 \<Rightarrow> u8" where
  "next_key_id kid = (if kid + 1 = 0 then 1 else kid + 1)"

text \<open>The call \<open>forwarder_pre_diversify_pqc_keys\<close> at the end refreshes the packet contexts of the profile; it belongs to
  the crypto runtime.\<close>

definition handle_handshake_success :: "u64 \<Rightarrow> buf \<Rightarrow> pqc_binding \<Rightarrow> pqc_binding" where
  "handle_handshake_success now derived_master b =
     (let b = set_slot KEY_SLOT_PREV (pb_keys b ! KEY_SLOT_CURRENT) (pb_key_ids b ! KEY_SLOT_CURRENT)
                (pb_key_slots_valid b ! KEY_SLOT_CURRENT) b;
          b = set_slot KEY_SLOT_CURRENT derived_master (next_key_id (pb_key_ids b ! KEY_SLOT_CURRENT)) True b;
          b = pqc_hs_wipe_slot_locked KEY_SLOT_NEXT b;
          b = b\<lparr>pb_encrypt_key := derived_master, pb_decrypt_key := derived_master, pb_key_ready := True,
                pb_rekey_requested := False, pb_last_sent_time := 0, pb_last_recv_time := 0, pb_handshake_start_time := 0,
                pb_handshake_give_up := False, pb_rotation_start_time := 0, pb_rotation_give_up := False,
                pb_prev_discard_after_ms := 0, pb_giveup_logged := False\<rparr>
      in if pb_is_tunnel b
         then b\<lparr>pb_keepalive_enabled := True, pb_keepalive_monitor_start_time := now, pb_last_keepalive_rx_time := now,
                pb_keepalive_send_now := True, pb_next_auto_retry_time := 0\<rparr>
         else b)"

definition pqc_hs_stage_next_key :: "buf \<Rightarrow> pqc_binding \<Rightarrow> int \<times> pqc_binding" where
  "pqc_hs_stage_next_key derived_master b =
     (if \<not> pb_key_ready b \<or> \<not> pb_key_slots_valid b ! KEY_SLOT_CURRENT then (- EAGAIN, b)
      else (0, (set_slot KEY_SLOT_NEXT derived_master (next_key_id (pb_key_ids b ! KEY_SLOT_CURRENT)) True b)
                 \<lparr>pb_prev_discard_after_ms := 0\<rparr>))"

definition pqc_hs_promote_staged_key :: "u64 \<Rightarrow> pqc_binding \<Rightarrow> int \<times> pqc_binding" where
  "pqc_hs_promote_staged_key now b =
     (if \<not> pb_key_slots_valid b ! KEY_SLOT_NEXT then (- ENOENT, b)
      else (0, handle_handshake_success now (pb_keys b ! KEY_SLOT_NEXT) b))"

definition pqc_hs_clear_cache_locked :: "pqc_binding \<Rightarrow> pqc_binding" where
  "pqc_hs_clear_cache_locked b = b\<lparr>pb_hs_cache := replicate PQC_HS_CACHE_SLOTS hs_cache_zero, pb_hs_cache_next := 0\<rparr>"

definition upd_binding :: "int \<Rightarrow> (pqc_binding \<Rightarrow> pqc_binding) \<Rightarrow> pqc_binding list \<Rightarrow> pqc_binding list" where
  "upd_binding policy_id f bs =
     (case find (\<lambda>i. pb_policy_id (bs ! i) = policy_id) [0..<length bs] of None \<Rightarrow> bs | Some i \<Rightarrow> bs[i := f (bs ! i)])"

definition sig_pqc_discard_prev_key :: "int \<Rightarrow> pqc_binding list \<Rightarrow> pqc_binding list" where
  "sig_pqc_discard_prev_key policy_id =
     upd_binding policy_id (\<lambda>b. if pb_key_slots_valid b ! KEY_SLOT_PREV then pqc_hs_wipe_slot_locked KEY_SLOT_PREV b else b)"

definition sig_pqc_request_new_session :: "int \<Rightarrow> pqc_binding list \<Rightarrow> int \<times> pqc_binding list" where
  "sig_pqc_request_new_session policy_id bs =
     (case find (\<lambda>b. pb_policy_id b = policy_id) bs of
        None \<Rightarrow> (- ENOENT, bs)
      | Some b \<Rightarrow>
          if \<not> pb_key_ready b then (- EAGAIN, bs)
          else if pb_rekey_requested b then (0, bs)
          else (0, upd_binding policy_id (\<lambda>b. b\<lparr>pb_rekey_requested := True, pb_handshake_give_up := False,
                 pb_rotation_give_up := False, pb_rotation_start_time := 0, pb_giveup_logged := False\<rparr>) bs))"

section \<open>Cutover control messages\<close>

text \<open>A signed message of this end, with the size of its signature.\<close>

definition hs_signed :: "hs_lib \<Rightarrow> buf \<Rightarrow> u8 \<Rightarrow> u32 \<Rightarrow> int \<Rightarrow> buf \<Rightarrow> (pqc_hs_msg \<times> nat) option" where
  "hs_signed lib raw_priv msg_type session_id policy_id msg_data =
     (let m = \<lparr>hm_magic = PQC_HS_MAGIC, hm_msg_type = msg_type, hm_session_id = session_id, hm_policy_id = of_int policy_id,
               hm_sig_len = 0, hm_data_len = of_nat (length msg_data), hm_payload = msg_data\<rparr>
      in case pqc_hs_sign_message lib raw_priv m of
           None \<Rightarrow> None
         | Some sig \<Rightarrow> Some (m\<lparr>hm_sig_len := of_nat (length sig), hm_payload := msg_data @ sig\<rparr>, length sig))"

definition pqc_hs_send_cutover_control :: "hs_lib \<Rightarrow> hs_env \<Rightarrow> pqc_binding \<Rightarrow> u8 \<Rightarrow> u32 \<Rightarrow> (int \<times> pqc_hs_msg list) mem" where
  "pqc_hs_send_cutover_control lib env b msg_type session_id =
     (if session_id = 0 \<or> msg_type \<noteq> PQC_HS_MSG_READY \<and> msg_type \<noteq> PQC_HS_MSG_COMMIT then Some (- EINVAL, [])
      else do {
        raw_priv \<leftarrow> trf_base64_decode (pb_local_priv b) RAW_KEY_SZ;
        case (if raw_priv = [] then None else hs_signed lib raw_priv msg_type session_id (pb_policy_id b) []) of
          None \<Rightarrow> Some (- EKEYREJECTED, [])
        | Some (m, sig_sz) \<Rightarrow>
            if sig_sz = 0 \<or> sig_sz > 65535 then Some (- EKEYREJECTED, [])
            else Some (if he_send_ok env then 0 else - EIO, if he_send_ok env then [m] else []) })"

definition pqc_hs_verify_cutover_control :: "hs_lib \<Rightarrow> pqc_binding \<Rightarrow> pqc_hs_msg \<Rightarrow> u8 \<Rightarrow> u32 \<Rightarrow> int mem" where
  "pqc_hs_verify_cutover_control lib b m expected_type session_id =
     (if hm_magic m \<noteq> PQC_HS_MAGIC \<or> hm_msg_type m \<noteq> expected_type \<or> hm_session_id m \<noteq> session_id
         \<or> hm_policy_id m \<noteq> of_int (pb_policy_id b) \<or> hm_data_len m \<noteq> 0 then Some (- EINVAL)
      else do {
        raw_pub \<leftarrow> trf_base64_decode (pb_peer_pub b) RAW_KEY_SZ;
        Some (if raw_pub = [] \<or> \<not> pqc_hs_verify_message lib raw_pub m then - EKEYREJECTED else 0) })"

section \<open>The responder\<close>

definition cache_matches :: "pqc_binding \<Rightarrow> nat \<Rightarrow> u32 \<Rightarrow> buf \<Rightarrow> bool" where
  "cache_matches b slot session_id hello_hash \<longleftrightarrow>
     hc_valid (pb_hs_cache b ! slot) \<and> hc_session_id (pb_hs_cache b ! slot) = session_id
     \<and> hc_hello_hash (pb_hs_cache b ! slot) = hello_hash"

definition pqc_hs_send_cached_response :: "hs_env \<Rightarrow> pqc_binding \<Rightarrow> nat \<Rightarrow> u32 \<Rightarrow> buf \<Rightarrow> int \<times> pqc_binding \<times> pqc_hs_msg list" where
  "pqc_hs_send_cached_response env b cache_slot session_id hello_hash =
     (if cache_slot \<ge> PQC_HS_CACHE_SLOTS \<or> \<not> cache_matches b cache_slot session_id hello_hash then (-1, b, [])
      else case hc_response (pb_hs_cache b ! cache_slot) of
          None \<Rightarrow> (-1, b, [])
        | Some response \<Rightarrow>
            if \<not> he_malloc_ok env \<or> \<not> he_send_ok env then (-1, b, [])
            else
              let e = pb_hs_cache b ! cache_slot in
              if \<not> hc_requires_commit e \<and> \<not> hc_key_promoted e
              then (0, handle_handshake_success (he_now env) (hc_master_key e)
                         (b\<lparr>pb_hs_cache := (pb_hs_cache b)[cache_slot := e\<lparr>hc_key_promoted := True, hc_master_key := replicate 32 0\<rparr>]\<rparr>),
                    [response])
              else (0, b, [response]))"

definition cache_slot_of :: "pqc_binding \<Rightarrow> (pqc_hs_cache_entry \<Rightarrow> bool) \<Rightarrow> nat option" where
  "cache_slot_of b P = find (\<lambda>i. P (pb_hs_cache b ! i)) [0..<PQC_HS_CACHE_SLOTS]"

definition store_response :: "pqc_hs_msg \<Rightarrow> u32 \<Rightarrow> buf \<Rightarrow> buf \<Rightarrow> bool \<Rightarrow> pqc_binding \<Rightarrow> pqc_binding" where
  "store_response resp session_id hello_hash key rotation b =
     b\<lparr>pb_hs_cache := (pb_hs_cache b)[pb_hs_cache_next b := \<lparr>hc_response = Some resp, hc_session_id = session_id,
         hc_hello_hash = hello_hash, hc_master_key = key, hc_valid = True, hc_key_promoted = False, hc_requires_commit = rotation\<rparr>],
       pb_hs_cache_next := (pb_hs_cache_next b + 1) mod PQC_HS_CACHE_SLOTS\<rparr>"

definition pqc_hs_handle_l3_responder_hello :: "hs_lib \<Rightarrow> hs_env \<Rightarrow> pqc_binding \<Rightarrow> buf \<Rightarrow> nat \<Rightarrow> (int \<times> pqc_binding \<times> pqc_hs_msg list) mem" where
  "pqc_hs_handle_l3_responder_hello lib env b rx_buf rx_len = do {
     v \<leftarrow> pqc_hs_validate_message rx_buf rx_len;
     case v of
       None \<Rightarrow> Some (-1, b, [])
     | Some m \<Rightarrow>
         if hm_magic m \<noteq> PQC_HS_MAGIC \<or> hm_msg_type m \<noteq> PQC_HS_MSG_HELLO \<or> hm_policy_id m \<noteq> of_int (pb_policy_id b) \<or> hm_session_id m = 0
         then Some (-1, b, [])
         else case hl_sha256 lib (take rx_len rx_buf) of
             None \<Rightarrow> Some (-1, b, [])
           | Some hello_hash \<Rightarrow>
               (case cache_slot_of b (\<lambda>e. hc_valid e \<and> hc_session_id e = hm_session_id m) of
                  Some i \<Rightarrow>
                    if hc_hello_hash (pb_hs_cache b ! i) = hello_hash
                    then Some (pqc_hs_send_cached_response env b i (hm_session_id m) hello_hash)
                    else Some (-1, b, [])
                | None \<Rightarrow>
                  if c_strlen (pb_local_priv b) = 0 \<or> c_strlen (pb_peer_pub b) = 0 then Some (-1, b, [])
                  else do {
                    raw_pub \<leftarrow> trf_base64_decode (pb_peer_pub b) RAW_KEY_SZ;
                    if \<not> pqc_hs_verify_message lib raw_pub m then Some (-1, b, [])
                    else case he_encapsulate env (hm_data m) of
                        None \<Rightarrow> Some (-1, b, [])
                      | Some (ct, ss) \<Rightarrow> do {
                          raw_priv \<leftarrow> trf_base64_decode (pb_local_priv b) RAW_KEY_SZ;
                          case hs_signed lib raw_priv PQC_HS_MSG_RESP (hm_session_id m) (pb_policy_id b) ct of
                            None \<Rightarrow> Some (-1, b, [])
                          | Some (resp, sig_sz) \<Rightarrow>
                              if PQC_HS_HDR_SZ + length ct + sig_sz > PQC_HS_MSG_MAX_SZ then Some (-1, b, [])
                              else do {
                                derived_master \<leftarrow> derive_traffic_key lib ss;
                                let rotation = pb_key_ready b;
                                let (rc, b) = (if rotation then pqc_hs_stage_next_key derived_master b else (0, b));
                                if rc \<noteq> 0 then Some (-1, b, [])
                                else if \<not> he_malloc_ok env then Some (-1, b, [])
                                else
                                  let cached_slot = pb_hs_cache_next b;
                                      b = store_response resp (hm_session_id m) hello_hash derived_master rotation b
                                  in Some (pqc_hs_send_cached_response env b cached_slot (hm_session_id m) hello_hash) } } }) }"

definition pqc_hs_handle_ready :: "hs_lib \<Rightarrow> hs_env \<Rightarrow> pqc_binding \<Rightarrow> pqc_hs_msg \<Rightarrow> (int \<times> pqc_binding \<times> pqc_hs_msg list) mem" where
  "pqc_hs_handle_ready lib env b m = do {
     rc \<leftarrow> pqc_hs_verify_cutover_control lib b m PQC_HS_MSG_READY (hm_session_id m);
     if rc \<noteq> 0 then Some (- EKEYREJECTED, b, [])
     else case cache_slot_of b (\<lambda>e. hc_valid e \<and> hc_requires_commit e \<and> hc_session_id e = hm_session_id m) of
         None \<Rightarrow> Some (- ENOENT, b, [])
       | Some i \<Rightarrow>
           let e = pb_hs_cache b ! i in
           if \<not> hc_key_promoted e \<and> (\<not> pb_key_slots_valid b ! KEY_SLOT_NEXT \<or> pb_keys b ! KEY_SLOT_NEXT \<noteq> hc_master_key e)
           then Some (- ENOENT, b, [])
           else
             let (rc, b) = (if hc_key_promoted e then (0, b)
                   else (case pqc_hs_promote_staged_key (he_now env) b of (rc, b) \<Rightarrow>
                     if rc \<noteq> 0 then (rc, b)
                     else (0, b\<lparr>pb_hs_cache := (pb_hs_cache b)[i := (pb_hs_cache b ! i)\<lparr>hc_key_promoted := True,
                            hc_master_key := replicate 32 0\<rparr>]\<rparr>)))
             in if rc \<noteq> 0 then Some (- EIO, b, [])
                else do {
                  (rc, out) \<leftarrow> pqc_hs_send_cutover_control lib env b PQC_HS_MSG_COMMIT (hm_session_id m);
                  Some (if rc \<noteq> 0 then - EIO else 0, b, out) } }"

section \<open>The initiator's key rotation\<close>

text \<open>One datagram received by the loop of \<open>initiate_l3_key_rotation\<close> for the session with secret key \<open>sk\<close>: whether
  the new key was staged.\<close>

definition rotation_on_resp :: "hs_lib \<Rightarrow> buf \<Rightarrow> u32 \<Rightarrow> pqc_binding \<Rightarrow> buf \<Rightarrow> nat \<Rightarrow> (bool \<times> pqc_binding) mem" where
  "rotation_on_resp lib sk session_id b rx_buf rx_len = do {
     v \<leftarrow> pqc_hs_validate_message rx_buf rx_len;
     case v of
       None \<Rightarrow> Some (False, b)
     | Some resp \<Rightarrow>
         if hm_magic resp \<noteq> PQC_HS_MAGIC \<or> hm_msg_type resp \<noteq> PQC_HS_MSG_RESP \<or> hm_session_id resp \<noteq> session_id
            \<or> hm_policy_id resp \<noteq> of_int (pb_policy_id b) then Some (False, b)
         else do {
           raw_pub \<leftarrow> trf_base64_decode (pb_peer_pub b) RAW_KEY_SZ;
           if \<not> pqc_hs_verify_message lib raw_pub resp then Some (False, b)
           else case hl_kem_decapsulate lib sk (hm_data resp) of
               None \<Rightarrow> Some (False, b)
             | Some ss \<Rightarrow> do {
                 derived_master \<leftarrow> derive_traffic_key lib ss;
                 Some (case pqc_hs_stage_next_key derived_master b of (rc, b) \<Rightarrow> (rc = 0, b)) } } }"

text \<open>One datagram received by the loop of \<open>pqc_hs_initiator_commit_staged\<close>: whether the loop ends.\<close>

definition commit_on_rx :: "hs_lib \<Rightarrow> hs_env \<Rightarrow> u32 \<Rightarrow> pqc_binding \<Rightarrow> buf \<Rightarrow> nat \<Rightarrow> (bool \<times> pqc_binding) mem" where
  "commit_on_rx lib env session_id b rx_buf rx_len = do {
     v \<leftarrow> pqc_hs_validate_message rx_buf rx_len;
     case v of
       None \<Rightarrow> Some (False, b)
     | Some m \<Rightarrow>
         if hm_msg_type m \<noteq> PQC_HS_MSG_COMMIT \<or> hm_session_id m \<noteq> session_id then Some (False, b)
         else do {
           rc \<leftarrow> pqc_hs_verify_cutover_control lib b m PQC_HS_MSG_COMMIT session_id;
           if rc \<noteq> 0 then Some (False, b)
           else Some (case pqc_hs_promote_staged_key (he_now env) b of (rc, b) \<Rightarrow> (True, b)) } }"

section \<open>Keepalives\<close>

definition pqc_hs_l3_state_locked :: "pqc_binding \<Rightarrow> u8" where
  "pqc_hs_l3_state_locked b =
     (if \<not> pb_handshake_give_up b \<and> pb_handshake_start_time b \<noteq> 0 \<and> \<not> pb_key_ready b
         \<or> \<not> pb_rotation_give_up b \<and> pb_rotation_start_time b \<noteq> 0 then PQC_HS_STATE_HANDSHAKING
      else if pb_key_ready b \<and> pb_key_slots_valid b ! KEY_SLOT_CURRENT then PQC_HS_STATE_READY
      else PQC_HS_STATE_FAILED)"

definition pqc_hs_digest_key_locked :: "hs_lib \<Rightarrow> pqc_binding \<Rightarrow> nat \<Rightarrow> buf option" where
  "pqc_hs_digest_key_locked lib b slot =
     (if slot \<ge> KEY_SLOT_COUNT \<or> \<not> pb_key_slots_valid b ! slot then None else hl_sha256 lib (pb_keys b ! slot))"

definition pqc_hs_l3_key_fingerprint_locked :: "hs_lib \<Rightarrow> pqc_binding \<Rightarrow> buf option" where
  "pqc_hs_l3_key_fingerprint_locked lib b =
     (if pqc_hs_l3_state_locked b \<noteq> PQC_HS_STATE_READY then None else hl_sha256 lib (pb_keys b ! KEY_SLOT_CURRENT))"

record pqc_hs_keepalive_status =
  ks_state :: u8
  ks_role :: u8
  ks_key_id :: u8
  ks_key_fingerprint :: buf
  ks_epoch :: u64
  ks_sequence :: u64

definition be64_bytes :: "u64 \<Rightarrow> buf" where
  "be64_bytes x = be32_bytes (ucast (drop_bit 32 x)) @ be32_bytes (ucast x)"

definition be64_of :: "buf \<Rightarrow> nat \<Rightarrow> u64" where
  "be64_of b i = push_bit 32 (ucast (be32 (b ! i) (b ! (i + 1)) (b ! (i + 2)) (b ! (i + 3))))
     OR ucast (be32 (b ! (i + 4)) (b ! (i + 5)) (b ! (i + 6)) (b ! (i + 7)))"

definition keepalive_wire :: "pqc_hs_keepalive_status \<Rightarrow> buf" where
  "keepalive_wire k = [ks_state k, ks_role k, ks_key_id k] @ ks_key_fingerprint k @ be64_bytes (ks_epoch k) @ be64_bytes (ks_sequence k)"

definition keepalive_of_wire :: "buf \<Rightarrow> pqc_hs_keepalive_status" where
  "keepalive_of_wire w = \<lparr>ks_state = w ! 0, ks_role = w ! 1, ks_key_id = w ! 2, ks_key_fingerprint = slice w 3 32,
     ks_epoch = be64_of w 35, ks_sequence = be64_of w 43\<rparr>"

definition pqc_hs_verify_l3_keepalive :: "hs_lib \<Rightarrow> pqc_binding \<Rightarrow> pqc_hs_msg \<Rightarrow> (int \<times> pqc_hs_keepalive_status option) mem" where
  "pqc_hs_verify_l3_keepalive lib b m =
     (if \<not> pb_is_tunnel b \<or> hm_magic m \<noteq> PQC_HS_MAGIC \<or> hm_msg_type m \<noteq> PQC_HS_MSG_KEEPALIVE \<or> hm_session_id m = 0
         \<or> hm_policy_id m \<noteq> of_int (pb_policy_id b) \<or> hm_data_len m \<noteq> PQC_HS_KEEPALIVE_DATA_SZ \<or> hm_sig_len m = 0
         \<or> c_strlen (pb_peer_pub b) = 0 then Some (- EINVAL, None)
      else do {
        raw_pub \<leftarrow> trf_base64_decode (pb_peer_pub b) RAW_KEY_SZ;
        if raw_pub = [] \<or> \<not> pqc_hs_verify_message lib raw_pub m then Some (- EKEYREJECTED, None)
        else do {
          w \<leftarrow> rdn (hm_payload m) 0 (unat PQC_HS_KEEPALIVE_DATA_SZ);
          let k = keepalive_of_wire w;
          if ks_state k \<notin> {PQC_HS_STATE_READY, PQC_HS_STATE_FAILED, PQC_HS_STATE_HANDSHAKING} \<or> ks_role k > 1
             \<or> ks_role k = (if pb_is_initiator b then 1 else 0) then Some (- EPROTO, None)
          else if ks_epoch k = 0 \<or> ks_sequence k = 0 then Some (- EINVAL, None)
          else if ks_state k = PQC_HS_STATE_READY \<and> (ks_key_id k = 0 \<or> list_all (\<lambda>x. x = 0) (ks_key_fingerprint k))
          then Some (- EPROTO, None)
          else Some (0, Some k) } })"

text \<open>\<open>pqc_hs_send_l3_keepalive\<close>: a new epoch when there is none, then the next sequence number.\<close>

definition pqc_hs_send_l3_keepalive :: "hs_lib \<Rightarrow> hs_env \<Rightarrow> pqc_binding \<Rightarrow> (int \<times> pqc_binding \<times> pqc_hs_msg list) mem" where
  "pqc_hs_send_l3_keepalive lib env b =
     (if \<not> pb_keepalive_enabled b then Some (- EAGAIN, b, [])
      else case (if pb_local_request_id b \<noteq> 0 then Some b
                 else map_option (\<lambda>r. b\<lparr>pb_local_request_id := r, pb_local_keepalive_seq := 0\<rparr>) (he_request_id env)) of
          None \<Rightarrow> Some (- EIO, b, [])
        | Some b \<Rightarrow>
            let state = pqc_hs_l3_state_locked b;
                sqn = (let s = pb_local_keepalive_seq b + 1 in if s = 0 then 1 else s);
                b = b\<lparr>pb_local_keepalive_seq := sqn\<rparr>;
                fp = (if state = PQC_HS_STATE_READY then hl_sha256 lib (pb_keys b ! KEY_SLOT_CURRENT) else Some (replicate 32 0))
            in case (fp, he_session_id env) of
                (Some fp, Some sid) \<Rightarrow>
                  let k = \<lparr>ks_state = state, ks_role = (if pb_is_initiator b then 1 else 0),
                           ks_key_id = (if state = PQC_HS_STATE_READY then pb_key_ids b ! KEY_SLOT_CURRENT else 0),
                           ks_key_fingerprint = fp, ks_epoch = pb_local_request_id b, ks_sequence = sqn\<rparr>
                  in do {
                    raw_priv \<leftarrow> trf_base64_decode (pb_local_priv b) RAW_KEY_SZ;
                    case (if raw_priv = [] then None else hs_signed lib raw_priv PQC_HS_MSG_KEEPALIVE sid (pb_policy_id b) (keepalive_wire k)) of
                      None \<Rightarrow> Some (- EKEYREJECTED, b, [])
                    | Some (m, sig_sz) \<Rightarrow>
                        if sig_sz = 0 \<or> sig_sz > 65535 then Some (- EKEYREJECTED, b, [])
                        else if he_send_ok env \<and> PQC_HS_HDR_SZ + 51 + sig_sz \<le> PQC_HS_MSG_MAX_SZ then Some (0, b, [m])
                        else Some (- EIO, b, []) }
              | _ \<Rightarrow> Some (- EIO, b, []))"

text \<open>The \<open>KEEPALIVE\<close> branch of \<open>sig_pqc_feed_rx_packet\<close> for the binding \<open>b\<close>.\<close>

definition keepalive_recovery :: "u64 \<Rightarrow> pqc_binding \<Rightarrow> pqc_binding" where
  "keepalive_recovery now b =
     (if pb_key_ready b
      then b\<lparr>pb_rekey_requested := True, pb_handshake_give_up := False, pb_rotation_give_up := False, pb_rotation_start_time := 0\<rparr>
      else
        let b = b\<lparr>pb_handshake_give_up := False, pb_handshake_start_time := now, pb_rotation_give_up := False,
               pb_rotation_start_time := 0, pb_giveup_logged := False, pb_key_ready := False, pb_next_auto_retry_time := 0,
               pb_prev_discard_after_ms := 0, pb_keepalive_monitor_start_time := now\<rparr>;
            b = (if pb_is_initiator b then b\<lparr>pb_send_poke := False\<rparr>
                 else b\<lparr>pb_local_request_id := 0, pb_local_keepalive_seq := 0, pb_send_poke := True\<rparr>)
        in pqc_hs_clear_cache_locked b)"

definition keepalive_rx :: "hs_lib \<Rightarrow> u64 \<Rightarrow> pqc_binding \<Rightarrow> pqc_hs_msg \<Rightarrow> pqc_binding mem" where
  "keepalive_rx lib now b m = do {
     (rc, st) \<leftarrow> pqc_hs_verify_l3_keepalive lib b m;
     case st of
       None \<Rightarrow> Some b
     | Some k \<Rightarrow>
         if ks_epoch k = pb_peer_keepalive_epoch b \<and> ks_sequence k \<le> pb_peer_keepalive_seq b then Some b
         else
           let b = b\<lparr>pb_peer_keepalive_epoch := ks_epoch k, pb_peer_keepalive_seq := ks_sequence k,
                     pb_last_keepalive_rx_time := now, pb_keepalive_monitor_start_time := now\<rparr>;
               local_state = pqc_hs_l3_state_locked b
           in if local_state = PQC_HS_STATE_HANDSHAKING \<or> ks_state k = PQC_HS_STATE_HANDSHAKING then Some b
              else if local_state = PQC_HS_STATE_READY \<and> ks_state k = PQC_HS_STATE_READY then
                if pqc_hs_l3_key_fingerprint_locked lib b = Some (ks_key_fingerprint k) then
                  Some (if pb_key_slots_valid b ! KEY_SLOT_PREV \<and> pb_prev_discard_after_ms b = 0
                        then b\<lparr>pb_prev_discard_after_ms := now + PQC_HS_PREV_KEY_GRACE_MS\<rparr> else b)
                else if pqc_hs_digest_key_locked lib b KEY_SLOT_NEXT = Some (ks_key_fingerprint k) then Some b
                else if pqc_hs_digest_key_locked lib b KEY_SLOT_PREV = Some (ks_key_fingerprint k) then Some b
                else Some (keepalive_recovery now b)
              else if local_state = PQC_HS_STATE_FAILED \<or> ks_state k = PQC_HS_STATE_FAILED
              then Some (keepalive_recovery now b)
              else Some b }"

text \<open>The worker loop once the grace period of the previous key is over, up to the deletion of the key. The deletion goes
  through the crypto runtime (\<open>fwd_crypto_discard_pqc_prev_key\<close>), which comes back to the binding only when the previous key is
  still in a packet context, here \<open>in_ram\<close>.\<close>

definition discard_prev_tick :: "u64 \<Rightarrow> bool \<Rightarrow> pqc_binding \<Rightarrow> pqc_binding" where
  "discard_prev_tick now in_ram b =
     (if pb_prev_discard_after_ms b \<noteq> 0 \<and> now \<ge> pb_prev_discard_after_ms b
      then (let b = b\<lparr>pb_prev_discard_after_ms := 0\<rparr>
            in if in_ram \<and> pb_key_slots_valid b ! KEY_SLOT_PREV then pqc_hs_wipe_slot_locked KEY_SLOT_PREV b else b)
      else b)"

end
