(* ===== verification/Key_Cutover.thy ===== *)
theory Key_Cutover
  imports Pqc_Handshake
begin

text \<open>
  The rotation of a session key between two peers. The initiator and the responder of a policy run the handlers of
  \<open>pqc_handshake.c\<close> on their bindings; the network may lose, delay, repeat, reorder and alter messages, but a message
  whose signature verifies was signed by the peer. The states of the pair are the record \<open>cutover\<close>, its behaviour the
  step relation \<open>cutover_step\<close>. Some fields exist for the proof only: the messages each peer has signed, the secret
  and the traffic key of every session, the sessions whose key the responder has put to use, the keys that the
  initiator has used, and whether the responder has ever started a session a second time. It can: it knows a session by
  its cache of four responses, so a \<open>HELLO\<close> that arrives again after four later sessions stages a second key.
\<close>

section \<open>The pair\<close>

datatype ini_phase = Idle | WaitResp u32 | WaitCommit u32

record cutover =
  ct_ini :: pqc_binding
  ct_phase :: ini_phase
  ct_res :: pqc_binding
  ct_sent_ini :: "pqc_hs_msg set"
  ct_sent_res :: "pqc_hs_msg set"
  ct_secret :: "u32 \<Rightarrow> buf option"
  ct_key :: "u32 \<Rightarrow> buf option"
  ct_done :: "u32 set"
  ct_used :: "buf set"
  ct_replayed :: bool

abbreviation cur_key :: "pqc_binding \<Rightarrow> buf" where "cur_key b \<equiv> pb_keys b ! KEY_SLOT_CURRENT"

text \<open>What a signature vouches for: type, session, policy and data of the message.\<close>

definition hm_core :: "pqc_hs_msg \<Rightarrow> u8 \<times> u32 \<times> u32 \<times> buf" where
  "hm_core m = (hm_msg_type m, hm_session_id m, hm_policy_id m, hm_data m)"

text \<open>A datagram can arrive when the signature of the message in it either fails or is one that the peer has made.\<close>

definition can_arrive :: "hs_lib \<Rightarrow> buf \<Rightarrow> pqc_hs_msg set \<Rightarrow> buf \<Rightarrow> nat \<Rightarrow> bool" where
  "can_arrive lib raw_pub sent rx_buf rx_len \<longleftrightarrow>
     (\<forall>m. pqc_hs_validate_message rx_buf rx_len = Some (Some m) \<longrightarrow> pqc_hs_verify_message lib raw_pub m \<longrightarrow> hm_core m \<in> hm_core ` sent)"

definition msg_can_arrive :: "hs_lib \<Rightarrow> buf \<Rightarrow> pqc_hs_msg set \<Rightarrow> pqc_hs_msg \<Rightarrow> bool" where
  "msg_can_arrive lib raw_pub sent m \<longleftrightarrow> (pqc_hs_verify_message lib raw_pub m \<longrightarrow> hm_core m \<in> hm_core ` sent)"

text \<open>The public keys each side has of the other, decoded.\<close>

definition pub_of :: "pqc_binding \<Rightarrow> buf \<Rightarrow> bool" where
  "pub_of b raw_pub \<longleftrightarrow> trf_base64_decode (pb_peer_pub b) RAW_KEY_SZ = Some raw_pub"

text \<open>Encapsulation to a public key gives a secret that the matching secret key recovers, of 32 bytes at least; the new
  traffic key and its fingerprint differ from all that went before.\<close>

definition encap_ok :: "hs_lib \<Rightarrow> (buf \<Rightarrow> buf \<Rightarrow> bool) \<Rightarrow> hs_env \<Rightarrow> bool" where
  "encap_ok lib kem_pair env \<longleftrightarrow>
     (\<forall>pk ct ss sk. he_encapsulate env pk = Some (ct, ss) \<longrightarrow> kem_pair pk sk \<longrightarrow> hl_kem_decapsulate lib sk ct = Some ss)"

definition fresh_key :: "hs_lib \<Rightarrow> cutover \<Rightarrow> buf \<Rightarrow> bool" where
  "fresh_key lib s k \<longleftrightarrow> length k = PQC_TRAFFIC_KEY_SZ
     \<and> (\<forall>k' \<in> ct_used s \<union> ran (ct_key s) \<union> {cur_key (ct_res s)}. k' \<noteq> k \<and> hl_sha256 lib k' \<noteq> hl_sha256 lib k)"

text \<open>Session keys that were stored by a handler, and sessions whose key the responder has promoted.\<close>

definition note_key :: "pqc_binding \<Rightarrow> pqc_binding \<Rightarrow> (u32 \<Rightarrow> buf option) \<Rightarrow> u32 \<Rightarrow> buf option" where
  "note_key b b' key =
     (if pb_hs_cache_next b' = pb_hs_cache_next b then key
      else let e = pb_hs_cache b' ! pb_hs_cache_next b in key(hc_session_id e \<mapsto> hc_master_key e))"

definition promoted_sessions :: "pqc_binding \<Rightarrow> u32 set" where
  "promoted_sessions b = {hc_session_id e | e. e \<in> set (pb_hs_cache b) \<and> hc_valid e \<and> hc_key_promoted e}"

text \<open>An encapsulation makes a new key.\<close>

definition fresh_encap :: "hs_lib \<Rightarrow> hs_env \<Rightarrow> cutover \<Rightarrow> buf \<Rightarrow> nat \<Rightarrow> bool" where
  "fresh_encap lib env s rx_buf rx_len \<longleftrightarrow>
     (\<forall>m ct ss k. pqc_hs_validate_message rx_buf rx_len = Some (Some m) \<longrightarrow>
        he_encapsulate env (hm_data m) = Some (ct, ss) \<longrightarrow> derive_traffic_key lib ss = Some k \<longrightarrow> fresh_key lib s k)"

text \<open>The handler has stored a response for a session that it had handled before.\<close>

definition session_again :: "pqc_binding \<Rightarrow> pqc_binding \<Rightarrow> (u32 \<Rightarrow> buf option) \<Rightarrow> bool" where
  "session_again b b' key \<longleftrightarrow> pb_hs_cache_next b' \<noteq> pb_hs_cache_next b
     \<and> key (hc_session_id (pb_hs_cache b' ! pb_hs_cache_next b)) \<noteq> None"

inductive cutover_step :: "hs_lib \<Rightarrow> (buf \<Rightarrow> buf \<Rightarrow> bool) \<Rightarrow> cutover \<Rightarrow> cutover \<Rightarrow> bool"
  for lib :: hs_lib and kem_pair :: "buf \<Rightarrow> buf \<Rightarrow> bool" where
  rekey_request:
    "sig_pqc_request_new_session policy_id [ct_ini s] = (rc, [b]) \<Longrightarrow> cutover_step lib kem_pair s (s\<lparr>ct_ini := b\<rparr>)"
| hello_sent:
    "ct_phase s = Idle \<Longrightarrow> pb_rekey_requested (ct_ini s) \<Longrightarrow> ct_secret s sid = None \<Longrightarrow> sid \<noteq> 0 \<Longrightarrow> kem_pair pk sk \<Longrightarrow>
     length pk < 65536 \<Longrightarrow> hs_signed lib raw_priv PQC_HS_MSG_HELLO sid (pb_policy_id (ct_ini s)) pk = Some (m, sig_sz) \<Longrightarrow>
     cutover_step lib kem_pair s
       (s\<lparr>ct_ini := (ct_ini s)\<lparr>pb_rotation_start_time := (if pb_rotation_start_time (ct_ini s) = 0 then now else pb_rotation_start_time (ct_ini s))\<rparr>,
          ct_phase := WaitResp sid, ct_sent_ini := insert m (ct_sent_ini s), ct_secret := (ct_secret s)(sid \<mapsto> sk)\<rparr>)"
| rotation_timeout:
    "ct_phase s = WaitResp sid \<Longrightarrow>
     cutover_step lib kem_pair s (s\<lparr>ct_ini := (ct_ini s)\<lparr>pb_rotation_start_time := 0\<rparr>, ct_phase := Idle\<rparr>)"
| hello_received:
    "pub_of (ct_res s) raw_pub \<Longrightarrow> can_arrive lib raw_pub (ct_sent_ini s) rx_buf rx_len \<Longrightarrow> encap_ok lib kem_pair env \<Longrightarrow>
     fresh_encap lib env s rx_buf rx_len \<Longrightarrow>
     pqc_hs_handle_l3_responder_hello lib env (ct_res s) rx_buf rx_len = Some (rc, b, out) \<Longrightarrow>
     cutover_step lib kem_pair s
       (s\<lparr>ct_res := b, ct_sent_res := ct_sent_res s \<union> set out, ct_key := note_key (ct_res s) b (ct_key s),
          ct_replayed := (ct_replayed s \<or> session_again (ct_res s) b (ct_key s))\<rparr>)"
| resp_received:
    "ct_phase s = WaitResp sid \<Longrightarrow> ct_secret s sid = Some sk \<Longrightarrow> pub_of (ct_ini s) raw_pub \<Longrightarrow>
     can_arrive lib raw_pub (ct_sent_res s) rx_buf rx_len \<Longrightarrow>
     rotation_on_resp lib sk sid (ct_ini s) rx_buf rx_len = Some (staged, b) \<Longrightarrow>
     cutover_step lib kem_pair s (s\<lparr>ct_ini := b, ct_phase := (if staged then WaitCommit sid else WaitResp sid)\<rparr>)"
| ready_sent:
    "ct_phase s = WaitCommit sid \<Longrightarrow> pqc_hs_send_cutover_control lib env (ct_ini s) PQC_HS_MSG_READY sid = Some (rc, out) \<Longrightarrow>
     cutover_step lib kem_pair s (s\<lparr>ct_sent_ini := ct_sent_ini s \<union> set out\<rparr>)"
| ready_received:
    "pub_of (ct_res s) raw_pub \<Longrightarrow> msg_can_arrive lib raw_pub (ct_sent_ini s) m \<Longrightarrow>
     pqc_hs_handle_ready lib env (ct_res s) m = Some (rc, b, out) \<Longrightarrow>
     cutover_step lib kem_pair s
       (s\<lparr>ct_res := b, ct_sent_res := ct_sent_res s \<union> set out, ct_done := ct_done s \<union> promoted_sessions b\<rparr>)"
| commit_received:
    "ct_phase s = WaitCommit sid \<Longrightarrow> pub_of (ct_ini s) raw_pub \<Longrightarrow> can_arrive lib raw_pub (ct_sent_res s) rx_buf rx_len \<Longrightarrow>
     commit_on_rx lib env sid (ct_ini s) rx_buf rx_len = Some (fin, b) \<Longrightarrow>
     cutover_step lib kem_pair s
       (s\<lparr>ct_ini := b, ct_phase := (if fin then Idle else WaitCommit sid), ct_used := insert (cur_key b) (ct_used s)\<rparr>)"
| keepalive_ini_sent:
    "pqc_hs_send_l3_keepalive lib env (ct_ini s) = Some (rc, b, out) \<Longrightarrow>
     cutover_step lib kem_pair s (s\<lparr>ct_ini := b, ct_sent_ini := ct_sent_ini s \<union> set out\<rparr>)"
| keepalive_res_sent:
    "pqc_hs_send_l3_keepalive lib env (ct_res s) = Some (rc, b, out) \<Longrightarrow>
     cutover_step lib kem_pair s (s\<lparr>ct_res := b, ct_sent_res := ct_sent_res s \<union> set out\<rparr>)"
| keepalive_ini_received:
    "keepalive_rx lib now (ct_ini s) m = Some b \<Longrightarrow> cutover_step lib kem_pair s (s\<lparr>ct_ini := b\<rparr>)"
| keepalive_res_received:
    "pub_of (ct_res s) raw_pub \<Longrightarrow> msg_can_arrive lib raw_pub (ct_sent_ini s) m \<Longrightarrow>
     keepalive_rx lib now (ct_res s) m = Some b \<Longrightarrow> cutover_step lib kem_pair s (s\<lparr>ct_res := b\<rparr>)"
| ini_tick: "cutover_step lib kem_pair s (s\<lparr>ct_ini := discard_prev_tick now in_ram (ct_ini s)\<rparr>)"
| res_tick: "cutover_step lib kem_pair s (s\<lparr>ct_res := discard_prev_tick now in_ram (ct_res s)\<rparr>)"

section \<open>The handlers, resolved\<close>

definition slots_ok :: "pqc_binding \<Rightarrow> bool" where
  "slots_ok b \<longleftrightarrow> length (pb_keys b) = 3 \<and> length (pb_key_ids b) = 3 \<and> length (pb_key_slots_valid b) = 3
     \<and> pb_key_ready b \<and> pb_key_slots_valid b ! KEY_SLOT_CURRENT"

text \<open>The part of a binding on which the argument rests.\<close>

definition same_keys :: "pqc_binding \<Rightarrow> pqc_binding \<Rightarrow> bool" where
  "same_keys b b' \<longleftrightarrow> pb_keys b' = pb_keys b \<and> pb_key_ids b' = pb_key_ids b \<and> pb_key_slots_valid b' = pb_key_slots_valid b
     \<and> pb_key_ready b' = pb_key_ready b \<and> pb_hs_cache b' = pb_hs_cache b \<and> pb_hs_cache_next b' = pb_hs_cache_next b"

lemma same_keys_refl [simp]: "same_keys b b"
  by (simp add: same_keys_def)

lemma request_same_keys: "sig_pqc_request_new_session policy_id [b] = (rc, [b']) \<Longrightarrow> same_keys b b'"
  by (auto simp: sig_pqc_request_new_session_def upd_binding_def same_keys_def split: if_splits)

lemma staged_fields:
  assumes "slots_ok b" "pqc_hs_stage_next_key k b = (rc, b')"
  shows "rc = 0" "pb_keys b' = (pb_keys b)[2 := k]" "pb_key_slots_valid b' = (pb_key_slots_valid b)[2 := True]" "slots_ok b'"
    "pb_hs_cache b' = pb_hs_cache b" "pb_hs_cache_next b' = pb_hs_cache_next b" "pb_prev_discard_after_ms b' = 0"
    "pb_policy_id b' = pb_policy_id b"
  using assms by (auto simp: pqc_hs_stage_next_key_def slots_ok_def set_slot_def key_slot_defs)

lemma promoted_fields:
  assumes "slots_ok b" "pqc_hs_promote_staged_key now b = (rc, b')" "pb_key_slots_valid b ! 2"
  shows "rc = 0" "pb_keys b' = [pb_keys b ! 1, pb_keys b ! 2, replicate 32 0]" "pb_key_slots_valid b' = [True, True, False]" "slots_ok b'"
    "pb_hs_cache b' = pb_hs_cache b" "pb_hs_cache_next b' = pb_hs_cache_next b" "pb_prev_discard_after_ms b' = 0"
    "pb_local_priv b' = pb_local_priv b" "pb_policy_id b' = pb_policy_id b"
proof -
  have three: "xs[0 := x, Suc 0 := y, 2 := z] = [x, y, z]" if "length xs = 3" for xs :: "'x list" and x y z
    using that by (auto simp: length_Suc_conv numeral_3_eq_3 numeral_2_eq_2)
  have l: "length (pb_keys b) = 3" "length (pb_key_ids b) = 3" "length (pb_key_slots_valid b) = 3"
    "pb_key_slots_valid b ! 1" using assms(1) by (simp_all add: slots_ok_def key_slot_defs)
  have b': "b' = handle_handshake_success now (pb_keys b ! 2) b" "rc = 0"
    using assms(2,3) by (simp_all add: pqc_hs_promote_staged_key_def key_slot_defs)
  show "rc = 0" by (rule b')
  note d = handle_handshake_success_def set_slot_def pqc_hs_wipe_slot_locked_def key_slot_defs Let_def
  show "pb_keys b' = [pb_keys b ! 1, pb_keys b ! 2, replicate 32 0]"
    unfolding b'(1) by (simp add: d three l)
  show v: "pb_key_slots_valid b' = [True, True, False]"
    unfolding b'(1) using l(4) by (simp add: d three l)
  show "slots_ok b'" unfolding b'(1) slots_ok_def using l by (simp add: d)
  show "pb_hs_cache b' = pb_hs_cache b" "pb_hs_cache_next b' = pb_hs_cache_next b" "pb_prev_discard_after_ms b' = 0"
    "pb_local_priv b' = pb_local_priv b" "pb_policy_id b' = pb_policy_id b"
    unfolding b'(1) by (simp_all add: d)
qed

lemma tick_fields:
  "slots_ok b \<Longrightarrow> slots_ok (discard_prev_tick now in_ram b)"
  "slots_ok b \<Longrightarrow> pb_keys (discard_prev_tick now in_ram b) ! Suc 0 = pb_keys b ! Suc 0"
  "slots_ok b \<Longrightarrow> pb_keys (discard_prev_tick now in_ram b) ! 2 = pb_keys b ! 2"
  "slots_ok b \<Longrightarrow> pb_key_slots_valid (discard_prev_tick now in_ram b) ! 2 = pb_key_slots_valid b ! 2"
  "pb_hs_cache (discard_prev_tick now in_ram b) = pb_hs_cache b" "pb_hs_cache_next (discard_prev_tick now in_ram b) = pb_hs_cache_next b"
  "pb_prev_discard_after_ms (discard_prev_tick now in_ram b) \<in> {0, pb_prev_discard_after_ms b}"
  "pb_prev_discard_after_ms b = 0 \<Longrightarrow> discard_prev_tick now in_ram b = b"
  by (auto simp: discard_prev_tick_def pqc_hs_wipe_slot_locked_def set_slot_def slots_ok_def key_slot_defs Let_def)

text \<open>A keepalive changes no key of a peer that has one; it can only start the clock of the previous key.\<close>

lemma keepalive_rx_fields:
  assumes "keepalive_rx lib now b m = Some b'" "slots_ok b"
  shows "same_keys b b'"
    "pb_prev_discard_after_ms b' = pb_prev_discard_after_ms b \<or>
     (\<exists>k. pqc_hs_verify_l3_keepalive lib b m = Some (0, Some k) \<and> ks_state k = PQC_HS_STATE_READY
        \<and> hl_sha256 lib (cur_key b) = Some (ks_key_fingerprint k))"
proof -
  obtain rc st where v: "pqc_hs_verify_l3_keepalive lib b m = Some (rc, st)" using assms(1) by (auto simp: keepalive_rx_def split: Option.bind_splits)
  have rdy: "pb_key_ready b" using assms(2) by (simp add: slots_ok_def)
  have rec: "same_keys b (keepalive_recovery now (b\<lparr>pb_peer_keepalive_epoch := e, pb_peer_keepalive_seq := q,
      pb_last_keepalive_rx_time := now, pb_keepalive_monitor_start_time := now\<rparr>))"
    "pb_prev_discard_after_ms (keepalive_recovery now (b\<lparr>pb_peer_keepalive_epoch := e, pb_peer_keepalive_seq := q,
      pb_last_keepalive_rx_time := now, pb_keepalive_monitor_start_time := now\<rparr>)) = pb_prev_discard_after_ms b" for e q
    using rdy by (simp_all add: keepalive_recovery_def same_keys_def)
  have rc: "rc = 0" if "st = Some k" for k
    using v that by (auto simp: pqc_hs_verify_l3_keepalive_def Let_def split: if_splits Option.bind_splits)
  show "same_keys b b'"
    using assms(1) rec(1) by (auto simp: keepalive_rx_def v Let_def same_keys_def split: if_splits option.splits)
  show "pb_prev_discard_after_ms b' = pb_prev_discard_after_ms b \<or>
     (\<exists>k. pqc_hs_verify_l3_keepalive lib b m = Some (0, Some k) \<and> ks_state k = PQC_HS_STATE_READY
        \<and> hl_sha256 lib (cur_key b) = Some (ks_key_fingerprint k))"
    using assms(1) rec(2) rc v
    by (auto simp: keepalive_rx_def v Let_def pqc_hs_l3_key_fingerprint_locked_def split: if_splits option.splits)
qed

lemma signed_fields:
  assumes "hs_signed lib raw_priv ty sid pid d = Some (m, n)" "length d < 65536"
  shows "hm_msg_type m = ty" "hm_session_id m = sid" "hm_data m = d"
proof -
  have "unat (of_nat (length d) :: u16) = length d" using assms(2) by (simp add: unat_of_nat take_bit_nat_eq_self)
  then show "hm_msg_type m = ty" "hm_session_id m = sid" "hm_data m = d"
    using assms(1) by (auto simp: hs_signed_def Let_def hm_data_def split: option.splits)
qed

text \<open>Unpromoted entries of the cache wait for a commit.\<close>

definition cache_waits :: "pqc_binding \<Rightarrow> bool" where
  "cache_waits b \<longleftrightarrow> (\<forall>e \<in> set (pb_hs_cache b). hc_valid e \<longrightarrow> \<not> hc_key_promoted e \<longrightarrow> hc_requires_commit e)"

lemma cached_response:
  assumes "pqc_hs_send_cached_response env b i sid h = (rc, b', out)" "length (pb_hs_cache b) = 4" "cache_waits b"
  shows "b' = b" "\<forall>m \<in> set out. \<exists>e \<in> set (pb_hs_cache b). hc_valid e \<and> hc_response e = Some m"
proof -
  have "hc_valid (pb_hs_cache b ! i) \<Longrightarrow> \<not> hc_key_promoted (pb_hs_cache b ! i) \<Longrightarrow> hc_requires_commit (pb_hs_cache b ! i)" if "i < 4"
    using assms(2,3) that by (auto simp: cache_waits_def)
  then show "b' = b" "\<forall>m \<in> set out. \<exists>e \<in> set (pb_hs_cache b). hc_valid e \<and> hc_response e = Some m"
    using assms(1,2)
    by (auto simp: pqc_hs_send_cached_response_def cache_matches_def PQC_HS_CACHE_SLOTS_def Let_def split: if_splits option.splits)
qed

lemma stored_response:
  assumes "pb_hs_cache_next b < 4" "length (pb_hs_cache b) = 4"
    and "pqc_hs_send_cached_response env (store_response resp sid h k True b) (pb_hs_cache_next b) sid h = (rc, b', out)"
  shows "b' = store_response resp sid h k True b" "set out \<subseteq> {resp}"
  using assms
  by (auto simp: pqc_hs_send_cached_response_def cache_matches_def PQC_HS_CACHE_SLOTS_def store_response_def Let_def split: if_splits)

lemma hello_cases:
  assumes "pqc_hs_handle_l3_responder_hello lib env b rx_buf rx_len = Some (rc, b', out)" "slots_ok b" "pub_of b raw_pub"
    and "length (pb_hs_cache b) = 4" "pb_hs_cache_next b < 4" "cache_waits b"
  obtains (same) "b' = b" "\<forall>m \<in> set out. \<exists>e \<in> set (pb_hs_cache b). hc_valid e \<and> hc_response e = Some m"
  | (staged) k where "pqc_hs_stage_next_key k b = (0, b')" "out = []"
  | (fresh) m ct ss k resp sz h b1 where "pqc_hs_validate_message rx_buf rx_len = Some (Some m)" "hm_msg_type m = PQC_HS_MSG_HELLO"
      "cache_slot_of b (\<lambda>e. hc_valid e \<and> hc_session_id e = hm_session_id m) = None" "pqc_hs_verify_message lib raw_pub m"
      "he_encapsulate env (hm_data m) = Some (ct, ss)" "derive_traffic_key lib ss = Some k"
      "\<exists>raw_priv. hs_signed lib raw_priv PQC_HS_MSG_RESP (hm_session_id m) (pb_policy_id b) ct = Some (resp, sz)" "length ct < 65536"
      "pqc_hs_stage_next_key k b = (0, b1)" "b' = store_response resp (hm_session_id m) h k True b1" "set out \<subseteq> {resp}"
proof -
  have rdy: "pb_key_ready b" using assms(2) by (simp add: slots_ok_def)
  obtain v where v: "pqc_hs_validate_message rx_buf rx_len = Some v"
    using assms(1) by (auto simp: pqc_hs_handle_l3_responder_hello_def split: Option.bind_splits)
  note run = assms(1) [unfolded pqc_hs_handle_l3_responder_hello_def v Option.bind.bind_lunit]
  show ?thesis
  proof (cases "b' = b \<and> out = []")
    case True
    then show ?thesis using same by simp
  next
    case False
    then obtain m h where m: "v = Some m" "hm_msg_type m = PQC_HS_MSG_HELLO" "hl_sha256 lib (take rx_len rx_buf) = Some h"
      using run by (auto split: option.splits if_splits)
    show ?thesis
    proof (cases "cache_slot_of b (\<lambda>e. hc_valid e \<and> hc_session_id e = hm_session_id m)")
      case (Some i)
      then have "pqc_hs_send_cached_response env b i (hm_session_id m) h = (rc, b', out)"
        using run False m by (auto split: if_splits)
      from cached_response [OF this assms(4,6)] show ?thesis by (rule same)
    next
      case None
      then obtain ct ss where e: "he_encapsulate env (hm_data m) = Some (ct, ss)" "pqc_hs_verify_message lib raw_pub m"
        using run False m assms(3) by (auto simp: pub_of_def split: if_splits option.splits)
      then obtain raw_priv resp sz k where g: "trf_base64_decode (pb_local_priv b) RAW_KEY_SZ = Some raw_priv"
        "hs_signed lib raw_priv PQC_HS_MSG_RESP (hm_session_id m) (pb_policy_id b) ct = Some (resp, sz)"
        "PQC_HS_HDR_SZ + length ct + sz \<le> PQC_HS_MSG_MAX_SZ" "derive_traffic_key lib ss = Some k"
        using run False m None assms(3) by (auto simp: pub_of_def split: if_splits option.splits Option.bind_splits)
      obtain b1 where b1: "pqc_hs_stage_next_key k b = (0, b1)" using staged_fields(1) [OF assms(2)] by (metis prod.exhaust)
      note st = staged_fields [OF assms(2) b1]
      have run1: "(if \<not> he_malloc_ok env then (-1, b1, [])
          else pqc_hs_send_cached_response env (store_response resp (hm_session_id m) h k True b1) (pb_hs_cache_next b1) (hm_session_id m) h) = (rc, b', out)"
        using run False m None assms(3) e g b1 rdy by (auto simp: pub_of_def Let_def split: if_splits)
      show ?thesis
      proof (cases "he_malloc_ok env")
        case True
        then have "pqc_hs_send_cached_response env (store_response resp (hm_session_id m) h k True b1) (pb_hs_cache_next b1) (hm_session_id m) h = (rc, b', out)"
          using run1 by simp
        note sr = stored_response [OF _ _ this]
        have "length ct < 65536" using g(3) by (simp add: PQC_HS_MSG_MAX_SZ_def)
        moreover have "\<exists>raw_priv. hs_signed lib raw_priv PQC_HS_MSG_RESP (hm_session_id m) (pb_policy_id b) ct = Some (resp, sz)"
          using g(2) by blast
        ultimately show ?thesis using fresh [OF _ _ None e(2,1) g(4) _ _ b1] sr st(5,6) assms(4,5) v m(1,2) by simp
      next
        case False
        then show ?thesis using run1 staged b1 by auto
      qed
    qed
  qed
qed

lemma send_control_fields:
  assumes "pqc_hs_send_cutover_control lib env b ty sid = Some (rc, out)" "m \<in> set out"
  shows "hm_msg_type m = ty" "hm_session_id m = sid" "hm_data m = []"
proof -
  obtain raw_priv sz where "hs_signed lib raw_priv ty sid (pb_policy_id b) [] = Some (m, sz)"
    using assms by (auto simp: pqc_hs_send_cutover_control_def split: if_splits Option.bind_splits option.splits)
  from signed_fields [OF this] show "hm_msg_type m = ty" "hm_session_id m = sid" "hm_data m = []" by simp_all
qed

lemma verify_controlD:
  assumes "pqc_hs_verify_cutover_control lib b m ty sid = Some 0" "pub_of b raw_pub"
  shows "hm_msg_type m = ty" "hm_session_id m = sid" "pqc_hs_verify_message lib raw_pub m"
  using assms by (auto simp: pqc_hs_verify_cutover_control_def pub_of_def errno_defs split: if_splits)

definition mark_promoted :: "nat \<Rightarrow> pqc_binding \<Rightarrow> pqc_binding" where
  "mark_promoted i b = b\<lparr>pb_hs_cache := (pb_hs_cache b)[i := (pb_hs_cache b ! i)\<lparr>hc_key_promoted := True, hc_master_key := replicate 32 0\<rparr>]\<rparr>"

lemma ready_cases:
  assumes "pqc_hs_handle_ready lib env b m = Some (rc, b', out)" "slots_ok b" "pub_of b raw_pub"
  obtains (same) "b' = b" "\<forall>m' \<in> set out. hm_msg_type m' = PQC_HS_MSG_COMMIT \<and> hm_session_id m' = hm_session_id m
      \<and> (\<exists>i < 4. hc_valid (pb_hs_cache b ! i) \<and> hc_session_id (pb_hs_cache b ! i) = hm_session_id m \<and> hc_key_promoted (pb_hs_cache b ! i))"
  | (promote) i b1 where "hm_msg_type m = PQC_HS_MSG_READY" "pqc_hs_verify_message lib raw_pub m" "i < 4"
      "hc_valid (pb_hs_cache b ! i)" "hc_session_id (pb_hs_cache b ! i) = hm_session_id m" "\<not> hc_key_promoted (pb_hs_cache b ! i)"
      "pb_key_slots_valid b ! 2" "pb_keys b ! 2 = hc_master_key (pb_hs_cache b ! i)"
      "pqc_hs_promote_staged_key (he_now env) b = (0, b1)" "b' = mark_promoted i b1"
      "\<forall>m' \<in> set out. hm_msg_type m' = PQC_HS_MSG_COMMIT \<and> hm_session_id m' = hm_session_id m"
proof -
  obtain vr where vr: "pqc_hs_verify_cutover_control lib b m PQC_HS_MSG_READY (hm_session_id m) = Some vr"
    using assms(1) by (auto simp: pqc_hs_handle_ready_def split: Option.bind_splits)
  note run = assms(1) [unfolded pqc_hs_handle_ready_def vr Option.bind.bind_lunit]
  show ?thesis
  proof (cases "b' = b \<and> out = []")
    case True
    then show ?thesis using same by simp
  next
    case False
    then obtain i where i: "vr = 0" "cache_slot_of b (\<lambda>e. hc_valid e \<and> hc_requires_commit e \<and> hc_session_id e = hm_session_id m) = Some i"
      using run by (auto split: if_splits option.splits)
    have e: "i < 4" "hc_valid (pb_hs_cache b ! i)" "hc_session_id (pb_hs_cache b ! i) = hm_session_id m"
      using i(2) by (auto simp: cache_slot_of_def PQC_HS_CACHE_SLOTS_def dest: find_upt_SomeD)
    note ver = verify_controlD [OF vr [unfolded i(1)] assms(3)]
    show ?thesis
    proof (cases "hc_key_promoted (pb_hs_cache b ! i)")
      case True
      then obtain rc' where "pqc_hs_send_cutover_control lib env b PQC_HS_MSG_COMMIT (hm_session_id m) = Some (rc', out)" "b' = b"
        using run i by (auto simp: Let_def split: Option.bind_splits)
      then show ?thesis using same e True send_control_fields by blast
    next
      case False
      then have n: "pb_key_slots_valid b ! 2" "pb_keys b ! 2 = hc_master_key (pb_hs_cache b ! i)"
        using run i \<open>\<not> (b' = b \<and> out = [])\<close> by (auto simp: Let_def key_slot_defs split: if_splits)
      obtain rc1 b1 where "pqc_hs_promote_staged_key (he_now env) b = (rc1, b1)" by fastforce
      moreover from promoted_fields(1) [OF assms(2) this n(1)] have "rc1 = 0" .
      ultimately have b1: "pqc_hs_promote_staged_key (he_now env) b = (0, b1)" by simp
      then obtain rc' where "pqc_hs_send_cutover_control lib env (mark_promoted i b1) PQC_HS_MSG_COMMIT (hm_session_id m) = Some (rc', out)"
        "b' = mark_promoted i b1"
        using run i n False by (auto simp: Let_def key_slot_defs mark_promoted_def split: Option.bind_splits)
      then show ?thesis using promote [OF ver(1,3) e False n b1] send_control_fields by blast
    qed
  qed
qed

lemma resp_cases:
  assumes "rotation_on_resp lib sk sid b rx_buf rx_len = Some (staged, b')" "slots_ok b" "pub_of b raw_pub"
  obtains (same) "\<not> staged" "b' = b"
  | (stage) m ss k where "staged" "pqc_hs_validate_message rx_buf rx_len = Some (Some m)" "hm_msg_type m = PQC_HS_MSG_RESP"
      "hm_session_id m = sid" "pqc_hs_verify_message lib raw_pub m" "hl_kem_decapsulate lib sk (hm_data m) = Some ss"
      "derive_traffic_key lib ss = Some k" "pqc_hs_stage_next_key k b = (0, b')"
proof -
  obtain v where v: "pqc_hs_validate_message rx_buf rx_len = Some v"
    using assms(1) by (auto simp: rotation_on_resp_def split: Option.bind_splits)
  note run = assms(1) [unfolded rotation_on_resp_def v Option.bind.bind_lunit]
  show ?thesis
  proof (cases "\<not> staged \<and> b' = b")
    case True
    then show ?thesis using same by simp
  next
    case False
    then obtain m ss k where m: "v = Some m" "hm_msg_type m = PQC_HS_MSG_RESP" "hm_session_id m = sid" "pqc_hs_verify_message lib raw_pub m"
      "hl_kem_decapsulate lib sk (hm_data m) = Some ss" "derive_traffic_key lib ss = Some k"
      "(case pqc_hs_stage_next_key k b of (rc, b) \<Rightarrow> (rc = 0, b)) = (staged, b')"
      using run assms(3) by (auto simp: pub_of_def split: if_splits option.splits Option.bind_splits)
    obtain rc1 b1 where b1: "pqc_hs_stage_next_key k b = (rc1, b1)" by fastforce
    from staged_fields(1) [OF assms(2) b1] b1 m(7) show ?thesis using stage v m by simp
  qed
qed

lemma commit_cases:
  assumes "commit_on_rx lib env sid b rx_buf rx_len = Some (fin, b')" "pub_of b raw_pub"
  obtains (same) "\<not> fin" "b' = b"
  | (promote) m rc where "fin" "pqc_hs_validate_message rx_buf rx_len = Some (Some m)" "hm_msg_type m = PQC_HS_MSG_COMMIT"
      "hm_session_id m = sid" "pqc_hs_verify_message lib raw_pub m" "pqc_hs_promote_staged_key (he_now env) b = (rc, b')"
proof -
  obtain v where v: "pqc_hs_validate_message rx_buf rx_len = Some v"
    using assms(1) by (auto simp: commit_on_rx_def split: Option.bind_splits)
  note run = assms(1) [unfolded commit_on_rx_def v Option.bind.bind_lunit]
  show ?thesis
  proof (cases "\<not> fin \<and> b' = b")
    case True
    then show ?thesis using same by simp
  next
    case False
    then obtain m where m: "v = Some m" "pqc_hs_verify_cutover_control lib b m PQC_HS_MSG_COMMIT sid = Some 0"
      "(case pqc_hs_promote_staged_key (he_now env) b of (rc, b) \<Rightarrow> (True, b)) = (fin, b')"
      using run by (auto split: if_splits option.splits Option.bind_splits)
    then show ?thesis using promote v verify_controlD [OF m(2) assms(2)] by (auto split: prod.splits)
  qed
qed

text \<open>A signed keepalive of a ready peer carries the fingerprint of its current key.\<close>

definition keepalive_says :: "hs_lib \<Rightarrow> pqc_hs_msg \<Rightarrow> buf set \<Rightarrow> bool" where
  "keepalive_says lib m keys \<longleftrightarrow> (let k = keepalive_of_wire (hm_data m) in
     ks_state k = PQC_HS_STATE_READY \<longrightarrow> (\<exists>key \<in> keys. hl_sha256 lib key = Some (ks_key_fingerprint k)))"

lemma keepalive_sent_fields:
  assumes "pqc_hs_send_l3_keepalive lib env b = Some (rc, b', out)" "\<And>x h. hl_sha256 lib x = Some h \<Longrightarrow> length h = 32"
  shows "same_keys b b'" "pb_prev_discard_after_ms b' = pb_prev_discard_after_ms b"
    "m \<in> set out \<Longrightarrow> hm_msg_type m = PQC_HS_MSG_KEEPALIVE \<and> keepalive_says lib m {cur_key b}"
proof -
  show "same_keys b b'" "pb_prev_discard_after_ms b' = pb_prev_discard_after_ms b"
    using assms(1) by (auto simp: pqc_hs_send_l3_keepalive_def Let_def same_keys_def split: if_splits option.splits Option.bind_splits)
  assume m: "m \<in> set out"
  have key: "hm_msg_type m = PQC_HS_MSG_KEEPALIVE \<and> keepalive_says lib m {cur_key b}"
    if sig: "hs_signed lib raw_priv PQC_HS_MSG_KEEPALIVE sid pid (keepalive_wire k) = Some (m, sz)"
      and fp: "ks_state k = PQC_HS_STATE_READY \<longrightarrow> hl_sha256 lib (cur_key b) = Some (ks_key_fingerprint k)" "length (ks_key_fingerprint k) = 32"
    for raw_priv sid pid k sz
  proof -
    have "length (keepalive_wire k) < 65536" using fp(2) by (simp add: keepalive_wire_def be64_bytes_def be32_bytes_def)
    from signed_fields [OF sig this] have "hm_msg_type m = PQC_HS_MSG_KEEPALIVE" "hm_data m = keepalive_wire k" by simp_all
    moreover have "ks_state (keepalive_of_wire (keepalive_wire k)) = ks_state k"
      "ks_key_fingerprint (keepalive_of_wire (keepalive_wire k)) = ks_key_fingerprint k"
      using fp(2) by (simp_all add: keepalive_of_wire_def keepalive_wire_def slice_def)
    ultimately show ?thesis using fp(1) by (simp add: keepalive_says_def)
  qed
  have elim: Q if "\<And>raw_priv sid pid k sz. hs_signed lib raw_priv PQC_HS_MSG_KEEPALIVE sid pid (keepalive_wire k) = Some (m, sz) \<Longrightarrow>
      (ks_state k = PQC_HS_STATE_READY \<longrightarrow> hl_sha256 lib (cur_key b) = Some (ks_key_fingerprint k)) \<Longrightarrow>
      length (ks_key_fingerprint k) = 32 \<Longrightarrow> Q" for Q
    using assms(1) m
    by (auto simp: pqc_hs_send_l3_keepalive_def Let_def split: if_splits option.splits Option.bind_splits)
      (erule that; simp add: assms(2))+
  show "hm_msg_type m = PQC_HS_MSG_KEEPALIVE \<and> keepalive_says lib m {cur_key b}"
    by (rule elim) (rule key)
qed

lemma keepalive_verified:
  assumes "pqc_hs_verify_l3_keepalive lib b m = Some (0, Some k)" "pub_of b raw_pub"
  shows "hm_msg_type m = PQC_HS_MSG_KEEPALIVE" "pqc_hs_verify_message lib raw_pub m" "k = keepalive_of_wire (hm_data m)"
  using assms
  by (auto simp: pqc_hs_verify_l3_keepalive_def pub_of_def Let_def rdn_def slice_def hm_data_def errno_defs split: if_splits Option.bind_splits)

section \<open>The invariant\<close>

definition resp_good :: "hs_lib \<Rightarrow> cutover \<Rightarrow> pqc_hs_msg \<Rightarrow> bool" where
  "resp_good lib s m \<longleftrightarrow> (\<exists>sk ss k. ct_secret s (hm_session_id m) = Some sk \<and> hl_kem_decapsulate lib sk (hm_data m) = Some ss
     \<and> derive_traffic_key lib ss = Some k \<and> ct_key s (hm_session_id m) = Some k)"

definition entry_ok :: "hs_lib \<Rightarrow> cutover \<Rightarrow> pqc_hs_cache_entry \<Rightarrow> bool" where
  "entry_ok lib s e \<longleftrightarrow> (hc_valid e \<longrightarrow>
     (if hc_key_promoted e then hc_session_id e \<in> ct_done s
      else hc_requires_commit e \<and> hc_session_id e \<notin> ct_done s \<and> ct_key s (hc_session_id e) = Some (hc_master_key e))
     \<and> (\<forall>m. hc_response e = Some m \<longrightarrow> hm_msg_type m = PQC_HS_MSG_RESP \<and> resp_good lib s m))"

definition cache_ok :: "hs_lib \<Rightarrow> cutover \<Rightarrow> bool" where
  "cache_ok lib s \<longleftrightarrow> (let c = pb_hs_cache (ct_res s) in length c = 4 \<and> pb_hs_cache_next (ct_res s) < 4 \<and> (\<forall>e \<in> set c. entry_ok lib s e)
     \<and> (\<forall>i < 4. \<forall>j < 4. i \<noteq> j \<longrightarrow> hc_valid (c ! i) \<longrightarrow> hc_valid (c ! j) \<longrightarrow> hc_session_id (c ! i) \<noteq> hc_session_id (c ! j)))"

definition ini_msg_ok :: "hs_lib \<Rightarrow> (buf \<Rightarrow> buf \<Rightarrow> bool) \<Rightarrow> cutover \<Rightarrow> pqc_hs_msg \<Rightarrow> bool" where
  "ini_msg_ok lib kem_pair s m \<longleftrightarrow>
     (hm_msg_type m = PQC_HS_MSG_HELLO \<longrightarrow> (\<exists>sk. ct_secret s (hm_session_id m) = Some sk \<and> kem_pair (hm_data m) sk))
     \<and> (hm_msg_type m = PQC_HS_MSG_READY \<longrightarrow> hm_session_id m \<in> ct_done s \<or> ct_phase s = WaitCommit (hm_session_id m))
     \<and> (hm_msg_type m = PQC_HS_MSG_KEEPALIVE \<longrightarrow> keepalive_says lib m (ct_used s))"

definition res_msg_ok :: "hs_lib \<Rightarrow> cutover \<Rightarrow> pqc_hs_msg \<Rightarrow> bool" where
  "res_msg_ok lib s m \<longleftrightarrow> (hm_msg_type m = PQC_HS_MSG_RESP \<longrightarrow> resp_good lib s m)
     \<and> (hm_msg_type m = PQC_HS_MSG_COMMIT \<longrightarrow> hm_session_id m \<in> ct_done s)"

definition ghost_ok :: "hs_lib \<Rightarrow> cutover \<Rightarrow> bool" where
  "ghost_ok lib s \<longleftrightarrow> ct_done s \<subseteq> dom (ct_key s) \<and> dom (ct_key s) \<subseteq> dom (ct_secret s) \<and> inj_on (ct_key s) (dom (ct_key s))
     \<and> (\<forall>sid k. sid \<notin> ct_done s \<longrightarrow> ct_key s sid = Some k \<longrightarrow> k \<notin> ct_used s)
     \<and> cur_key (ct_ini s) \<in> ct_used s \<and> cur_key (ct_res s) \<in> ct_used s \<union> ran (ct_key s)
     \<and> inj_on (hl_sha256 lib) (ct_used s \<union> ran (ct_key s))"

definition phase_ok :: "cutover \<Rightarrow> bool" where
  "phase_ok s \<longleftrightarrow> (case ct_phase s of
      WaitCommit sid \<Rightarrow> pb_key_slots_valid (ct_ini s) ! 2 \<and> ct_key s sid = Some (pb_keys (ct_ini s) ! 2)
        \<and> (if sid \<in> ct_done s
           then cur_key (ct_res s) = pb_keys (ct_ini s) ! 2 \<and> pb_key_slots_valid (ct_res s) ! 0 \<and> pb_keys (ct_res s) ! 0 = cur_key (ct_ini s)
             \<and> cur_key (ct_res s) \<notin> ct_used s
           else cur_key (ct_res s) = cur_key (ct_ini s))
    | WaitResp sid \<Rightarrow> sid \<notin> ct_done s \<and> cur_key (ct_res s) = cur_key (ct_ini s)
    | Idle \<Rightarrow> cur_key (ct_res s) = cur_key (ct_ini s))"

definition cut_inv :: "hs_lib \<Rightarrow> (buf \<Rightarrow> buf \<Rightarrow> bool) \<Rightarrow> cutover \<Rightarrow> bool" where
  "cut_inv lib kem_pair s \<longleftrightarrow> slots_ok (ct_ini s) \<and> slots_ok (ct_res s) \<and> cache_ok lib s
     \<and> (\<forall>m \<in> ct_sent_ini s. ini_msg_ok lib kem_pair s m) \<and> (\<forall>m \<in> ct_sent_res s. res_msg_ok lib s m)
     \<and> ghost_ok lib s \<and> (pb_prev_discard_after_ms (ct_res s) \<noteq> 0 \<longrightarrow> cur_key (ct_res s) \<in> ct_used s) \<and> phase_ok s"

lemmas cut_inv_defs = cut_inv_def cache_ok_def entry_ok_def resp_good_def ini_msg_ok_def res_msg_ok_def ghost_ok_def phase_ok_def Let_def

lemma core_same:
  assumes "msg_can_arrive lib raw_pub sent m" "pqc_hs_verify_message lib raw_pub m"
  shows "\<exists>m' \<in> sent. hm_msg_type m' = hm_msg_type m \<and> hm_session_id m' = hm_session_id m \<and> hm_data m' = hm_data m"
  using assms by (auto simp: msg_can_arrive_def hm_core_def)

lemma arrive_msg:
  "can_arrive lib raw_pub sent rx_buf rx_len \<Longrightarrow> pqc_hs_validate_message rx_buf rx_len = Some (Some m) \<Longrightarrow> msg_can_arrive lib raw_pub sent m"
  by (simp add: can_arrive_def msg_can_arrive_def)

text \<open>Which fields each part depends on.\<close>

lemma part_frames:
  "cache_ok lib (s\<lparr>ct_ini := b\<rparr>) = cache_ok lib s" "cache_ok lib (s\<lparr>ct_sent_ini := M\<rparr>) = cache_ok lib s"
  "cache_ok lib (s\<lparr>ct_sent_res := M\<rparr>) = cache_ok lib s" "cache_ok lib (s\<lparr>ct_phase := p\<rparr>) = cache_ok lib s"
  "cache_ok lib (s\<lparr>ct_used := U\<rparr>) = cache_ok lib s"
  "ini_msg_ok lib kem_pair (s\<lparr>ct_ini := b\<rparr>) m = ini_msg_ok lib kem_pair s m" "ini_msg_ok lib kem_pair (s\<lparr>ct_res := b\<rparr>) m = ini_msg_ok lib kem_pair s m"
  "ini_msg_ok lib kem_pair (s\<lparr>ct_sent_ini := M\<rparr>) m = ini_msg_ok lib kem_pair s m"
  "ini_msg_ok lib kem_pair (s\<lparr>ct_sent_res := M\<rparr>) m = ini_msg_ok lib kem_pair s m"
  "ini_msg_ok lib kem_pair (s\<lparr>ct_key := K\<rparr>) m = ini_msg_ok lib kem_pair s m"
  "res_msg_ok lib (s\<lparr>ct_ini := b\<rparr>) m = res_msg_ok lib s m" "res_msg_ok lib (s\<lparr>ct_res := b\<rparr>) m = res_msg_ok lib s m"
  "res_msg_ok lib (s\<lparr>ct_sent_ini := M\<rparr>) m = res_msg_ok lib s m" "res_msg_ok lib (s\<lparr>ct_sent_res := M\<rparr>) m = res_msg_ok lib s m"
  "res_msg_ok lib (s\<lparr>ct_phase := p\<rparr>) m = res_msg_ok lib s m" "res_msg_ok lib (s\<lparr>ct_used := U\<rparr>) m = res_msg_ok lib s m"
  "ghost_ok lib (s\<lparr>ct_phase := p\<rparr>) = ghost_ok lib s" "ghost_ok lib (s\<lparr>ct_sent_ini := M\<rparr>) = ghost_ok lib s"
  "ghost_ok lib (s\<lparr>ct_sent_res := M\<rparr>) = ghost_ok lib s"
  "phase_ok (s\<lparr>ct_sent_ini := M\<rparr>) = phase_ok s" "phase_ok (s\<lparr>ct_sent_res := M\<rparr>) = phase_ok s"
  by (simp_all add: cache_ok_def entry_ok_def [abs_def] resp_good_def [abs_def] ini_msg_ok_def res_msg_ok_def ghost_ok_def phase_ok_def
      split: ini_phase.split)

lemma key_frames:
  "pb_keys b ! 1 = pb_keys (ct_ini s) ! 1 \<Longrightarrow> ghost_ok lib (s\<lparr>ct_ini := b\<rparr>) = ghost_ok lib s"
  "pb_keys b ! 1 = pb_keys (ct_res s) ! 1 \<Longrightarrow> ghost_ok lib (s\<lparr>ct_res := b\<rparr>) = ghost_ok lib s"
  "pb_keys b ! 1 = pb_keys (ct_ini s) ! 1 \<Longrightarrow> pb_keys b ! 2 = pb_keys (ct_ini s) ! 2 \<Longrightarrow>
     pb_key_slots_valid b ! 2 = pb_key_slots_valid (ct_ini s) ! 2 \<Longrightarrow> phase_ok (s\<lparr>ct_ini := b\<rparr>) = phase_ok s"
  "pb_keys b ! 1 = pb_keys (ct_res s) ! 1 \<Longrightarrow> pb_keys b ! 0 = pb_keys (ct_res s) ! 0 \<Longrightarrow>
     pb_key_slots_valid b ! 0 = pb_key_slots_valid (ct_res s) ! 0 \<Longrightarrow> phase_ok (s\<lparr>ct_res := b\<rparr>) = phase_ok s"
  "pb_hs_cache b = pb_hs_cache (ct_res s) \<Longrightarrow> pb_hs_cache_next b = pb_hs_cache_next (ct_res s) \<Longrightarrow> cache_ok lib (s\<lparr>ct_res := b\<rparr>) = cache_ok lib s"
  by (simp_all add: ghost_ok_def phase_ok_def cache_ok_def entry_ok_def [abs_def] resp_good_def [abs_def] key_slot_defs
      split: ini_phase.split)

lemma inv_ini_same:
  assumes "cut_inv lib kem_pair s" "same_keys (ct_ini s) b"
  shows "cut_inv lib kem_pair (s\<lparr>ct_ini := b\<rparr>)"
  using assms by (simp add: cut_inv_def part_frames key_frames same_keys_def slots_ok_def)

lemma inv_res_same:
  assumes "cut_inv lib kem_pair s" "same_keys (ct_res s) b"
    and "pb_prev_discard_after_ms b = pb_prev_discard_after_ms (ct_res s) \<or> cur_key (ct_res s) \<in> ct_used s"
  shows "cut_inv lib kem_pair (s\<lparr>ct_res := b\<rparr>)"
  using assms by (auto simp: cut_inv_def part_frames key_frames same_keys_def slots_ok_def)

lemma inv_ini_tick:
  assumes "cut_inv lib kem_pair s"
  shows "cut_inv lib kem_pair (s\<lparr>ct_ini := discard_prev_tick now in_ram (ct_ini s)\<rparr>)"
  using assms by (simp add: cut_inv_def part_frames key_frames tick_fields)

lemma inv_res_tick:
  assumes "cut_inv lib kem_pair s"
  shows "cut_inv lib kem_pair (s\<lparr>ct_res := discard_prev_tick now in_ram (ct_res s)\<rparr>)"
proof (cases "pb_prev_discard_after_ms (ct_res s) = 0")
  case True
  then show ?thesis using assms tick_fields(8) [OF True] by simp
next
  case False
  then have u: "cur_key (ct_res s) \<in> ct_used s" using assms by (simp add: cut_inv_def)
  have c: "cur_key (discard_prev_tick now in_ram (ct_res s)) = cur_key (ct_res s)"
    using assms by (simp add: cut_inv_def key_slot_defs tick_fields)
  have "phase_ok (s\<lparr>ct_res := discard_prev_tick now in_ram (ct_res s)\<rparr>)"
    using assms u c by (auto simp: cut_inv_def phase_ok_def split: ini_phase.splits if_splits)
  then show ?thesis using assms u c by (simp add: cut_inv_def part_frames key_frames tick_fields)
qed

lemma inv_sent:
  assumes "cut_inv lib kem_pair s"
  shows "\<forall>m \<in> M. ini_msg_ok lib kem_pair s m \<Longrightarrow> cut_inv lib kem_pair (s\<lparr>ct_sent_ini := ct_sent_ini s \<union> M\<rparr>)"
    "\<forall>m \<in> M. res_msg_ok lib s m \<Longrightarrow> cut_inv lib kem_pair (s\<lparr>ct_sent_res := ct_sent_res s \<union> M\<rparr>)"
  using assms by (auto simp: cut_inv_def part_frames)

section \<open>Every step keeps it\<close>

lemma resp_good_mono:
  assumes "resp_good lib s m" "\<And>sid v. ct_secret s sid = Some v \<Longrightarrow> ct_secret s' sid = Some v"
    "\<And>sid v. ct_key s sid = Some v \<Longrightarrow> ct_key s' sid = Some v"
  shows "resp_good lib s' m"
  using assms unfolding resp_good_def by blast

lemma phase_same: "ct_phase s = p \<Longrightarrow> s\<lparr>ct_phase := p\<rparr> = s" "s\<lparr>ct_ini := ct_ini s, ct_phase := p\<rparr> = s\<lparr>ct_phase := p\<rparr>"
  by (cases s; simp)+

lemma used_same: "k \<in> ct_used s \<Longrightarrow> s\<lparr>ct_used := insert k (ct_used s)\<rparr> = s"
  by (cases s) (simp add: insert_absorb)

lemma step_hello_sent:
  assumes inv: "cut_inv lib kem_pair s" and p: "ct_phase s = Idle" "ct_secret s sid = None" "kem_pair pk sk" "length pk < 65536"
    and m: "hs_signed lib raw_priv PQC_HS_MSG_HELLO sid pid pk = Some (m, sz)" and b: "same_keys (ct_ini s) b"
  shows "cut_inv lib kem_pair (s\<lparr>ct_ini := b, ct_phase := WaitResp sid, ct_sent_ini := insert m (ct_sent_ini s),
    ct_secret := (ct_secret s)(sid \<mapsto> sk)\<rparr>)" (is "cut_inv lib kem_pair ?s")
proof -
  have f: "hm_msg_type m = PQC_HS_MSG_HELLO" "hm_session_id m = sid" "hm_data m = pk" using signed_fields [OF m p(4)] by simp_all
  have good: "resp_good lib ?s x" if "resp_good lib s x" for x
    by (rule resp_good_mono [OF that]) (use p(2) in auto)
  have "ct_done s \<subseteq> dom (ct_key s)" "dom (ct_key s) \<subseteq> dom (ct_secret s)" using inv by (simp_all add: cut_inv_def ghost_ok_def)
  then have d: "sid \<notin> ct_done s" using p(2) by blast
  have slots: "slots_ok (ct_ini ?s)" "slots_ok (ct_res ?s)" using inv b by (simp_all add: cut_inv_def same_keys_def slots_ok_def)
  have cache: "cache_ok lib ?s"
    using inv good by (auto simp: cut_inv_def cache_ok_def entry_ok_def Let_def)
  have im: "ini_msg_ok lib kem_pair ?s m" using f p(3) by (simp add: ini_msg_ok_def hs_msg_types)
  have ims: "ini_msg_ok lib kem_pair ?s x" if "x \<in> ct_sent_ini s" for x
    using inv that p(1,2) by (auto simp: cut_inv_def ini_msg_ok_def)
  have rms: "res_msg_ok lib ?s x" if "x \<in> ct_sent_res s" for x
    using inv that good by (auto simp: cut_inv_def res_msg_ok_def)
  have "dom (ct_key ?s) \<subseteq> dom (ct_secret ?s)" using inv by (auto simp: cut_inv_def ghost_ok_def)
  then have "ghost_ok lib ?s" "phase_ok ?s" using inv b d p(1) by (simp_all add: cut_inv_def ghost_ok_def phase_ok_def same_keys_def)
  then show ?thesis using inv slots cache im ims rms by (simp add: cut_inv_def)
qed

lemma step_timeout:
  assumes inv: "cut_inv lib kem_pair s" and p: "ct_phase s = WaitResp sid" and b: "same_keys (ct_ini s) b"
  shows "cut_inv lib kem_pair (s\<lparr>ct_ini := b, ct_phase := Idle\<rparr>)"
proof -
  let ?s = "s\<lparr>ct_phase := Idle\<rparr>"
  have "ini_msg_ok lib kem_pair ?s x" if "x \<in> ct_sent_ini s" for x
    using inv that p by (auto simp: cut_inv_def ini_msg_ok_def)
  moreover have "phase_ok ?s" using inv p by (simp add: cut_inv_def phase_ok_def)
  ultimately have "cut_inv lib kem_pair ?s" using inv by (simp add: cut_inv_def part_frames)
  moreover have "s\<lparr>ct_ini := b, ct_phase := Idle\<rparr> = ?s\<lparr>ct_ini := b\<rparr>" by (cases s) simp
  moreover have "same_keys (ct_ini ?s) b" using b by simp
  ultimately show ?thesis using inv_ini_same [of lib kem_pair ?s b] by metis
qed

lemma step_resp_received:
  assumes inv: "cut_inv lib kem_pair s" and p: "ct_phase s = WaitResp sid" "ct_secret s sid = Some sk" "pub_of (ct_ini s) raw_pub"
    and arr: "can_arrive lib raw_pub (ct_sent_res s) rx_buf rx_len"
    and run: "rotation_on_resp lib sk sid (ct_ini s) rx_buf rx_len = Some (staged, b)"
  shows "cut_inv lib kem_pair (s\<lparr>ct_ini := b, ct_phase := (if staged then WaitCommit sid else WaitResp sid)\<rparr>)"
proof -
  have ok: "slots_ok (ct_ini s)" using inv by (simp add: cut_inv_def)
  show ?thesis using run ok p(3)
  proof (cases rule: resp_cases)
    case same
    then show ?thesis using inv p(1) by (simp add: phase_same)
  next
    case (stage m ss k)
    note st = staged_fields [OF ok stage(8)]
    obtain m' where "m' \<in> ct_sent_res s" "hm_msg_type m' = PQC_HS_MSG_RESP" "hm_session_id m' = sid" "hm_data m' = hm_data m"
      using core_same [OF arrive_msg [OF arr stage(2)] stage(5)] stage(3,4) by auto
    then have key: "ct_key s sid = Some k" using inv p(2) stage(6,7) by (auto simp: cut_inv_def res_msg_ok_def resp_good_def)
    have l: "length (pb_keys (ct_ini s)) = 3" "length (pb_key_slots_valid (ct_ini s)) = 3" using ok by (simp_all add: slots_ok_def)
    let ?s = "s\<lparr>ct_ini := b, ct_phase := WaitCommit sid\<rparr>"
    have keys: "pb_keys b ! 1 = pb_keys (ct_ini s) ! 1" "pb_keys b ! 2 = k" "pb_key_slots_valid b ! 2" using st(2,3) l by simp_all
    have "ini_msg_ok lib kem_pair ?s x" if "x \<in> ct_sent_ini s" for x
      using inv that p(1) by (auto simp: cut_inv_def ini_msg_ok_def)
    moreover have "phase_ok ?s" using inv p(1) key keys by (simp add: cut_inv_def phase_ok_def key_slot_defs)
    moreover have "ghost_ok lib (s\<lparr>ct_ini := b\<rparr>) = ghost_ok lib s" by (rule key_frames(1)) (use keys in simp)
    then have "ghost_ok lib ?s" using inv by (simp add: cut_inv_def part_frames)
    ultimately show ?thesis using inv st(4) stage(1) by (simp add: cut_inv_def part_frames)
  qed
qed

lemma step_ready_sent:
  assumes inv: "cut_inv lib kem_pair s" and p: "ct_phase s = WaitCommit sid"
    and run: "pqc_hs_send_cutover_control lib env (ct_ini s) PQC_HS_MSG_READY sid = Some (rc, out)"
  shows "cut_inv lib kem_pair (s\<lparr>ct_sent_ini := ct_sent_ini s \<union> set out\<rparr>)"
  using send_control_fields(1,2) [OF run] p by (intro inv_sent(1) [OF inv]) (simp add: ini_msg_ok_def hs_msg_types)

lemma step_commit_received:
  assumes inv: "cut_inv lib kem_pair s" and p: "ct_phase s = WaitCommit sid" "pub_of (ct_ini s) raw_pub"
    and arr: "can_arrive lib raw_pub (ct_sent_res s) rx_buf rx_len"
    and run: "commit_on_rx lib env sid (ct_ini s) rx_buf rx_len = Some (fin, b)"
  shows "cut_inv lib kem_pair (s\<lparr>ct_ini := b, ct_phase := (if fin then Idle else WaitCommit sid), ct_used := insert (cur_key b) (ct_used s)\<rparr>)"
  using run p(2)
proof (cases rule: commit_cases)
  case same
  have "cur_key (ct_ini s) \<in> ct_used s" using inv by (simp add: cut_inv_def ghost_ok_def)
  then show ?thesis using inv p(1) same by (simp add: phase_same used_same)
next
  case (promote m rc)
  obtain m' where "m' \<in> ct_sent_res s" "hm_msg_type m' = PQC_HS_MSG_COMMIT" "hm_session_id m' = sid"
    using core_same [OF arrive_msg [OF arr promote(2)] promote(5)] promote(3,4) by auto
  then have d: "sid \<in> ct_done s" using inv by (auto simp: cut_inv_def res_msg_ok_def)
  have ok: "slots_ok (ct_ini s)" and ph: "pb_key_slots_valid (ct_ini s) ! 2" "ct_key s sid = Some (pb_keys (ct_ini s) ! 2)"
    "cur_key (ct_res s) = pb_keys (ct_ini s) ! 2"
    using inv p(1) d by (simp_all add: cut_inv_def phase_ok_def)
  note pf = promoted_fields [OF ok promote(6) ph(1)]
  have cur: "cur_key b = pb_keys (ct_ini s) ! 2" using pf(2) by (simp add: key_slot_defs)
  let ?s = "s\<lparr>ct_ini := b, ct_phase := Idle, ct_used := insert (cur_key b) (ct_used s)\<rparr>"
  have im: "ini_msg_ok lib kem_pair ?s x" if "x \<in> ct_sent_ini s" for x
    using inv that p(1) d by (auto simp: cut_inv_def ini_msg_ok_def keepalive_says_def Let_def)
  have in_ran: "cur_key b \<in> ran (ct_key s)" using ph(2) cur by (auto simp: ran_def)
  have inj: "inj_on (ct_key s) (dom (ct_key s))" using inv by (simp add: cut_inv_def ghost_ok_def)
  have "k \<noteq> cur_key b" if "sid' \<notin> ct_done s" "ct_key s sid' = Some k" for sid' k
    using inj_onD [OF inj, of sid sid'] that ph(2) cur d by auto
  then have "ghost_ok lib ?s" using inv in_ran cur ph(3) by (auto simp: cut_inv_def ghost_ok_def insert_absorb)
  moreover have "phase_ok ?s" using cur ph(3) by (simp add: phase_ok_def)
  ultimately show ?thesis using inv im pf(4) promote(1) by (auto simp: cut_inv_def part_frames)
qed

text \<open>A staged key touches neither the current nor the previous key of the responder.\<close>

lemma step_staged:
  assumes inv: "cut_inv lib kem_pair s" and st: "pqc_hs_stage_next_key k (ct_res s) = (0, b)"
  shows "cut_inv lib kem_pair (s\<lparr>ct_res := b\<rparr>)" "cur_key b = cur_key (ct_res s)"
proof -
  have ok: "slots_ok (ct_res s)" using inv by (simp add: cut_inv_def)
  note f = staged_fields [OF ok st]
  have keys: "pb_keys b ! 1 = pb_keys (ct_res s) ! 1" "pb_keys b ! 0 = pb_keys (ct_res s) ! 0"
    "pb_key_slots_valid b ! 0 = pb_key_slots_valid (ct_res s) ! 0" using f(2,3) by simp_all
  have "ghost_ok lib (s\<lparr>ct_res := b\<rparr>) = ghost_ok lib s" "phase_ok (s\<lparr>ct_res := b\<rparr>) = phase_ok s"
    "cache_ok lib (s\<lparr>ct_res := b\<rparr>) = cache_ok lib s"
    by (rule key_frames; use keys f(5,6) in simp)+
  moreover have "res_msg_ok lib (s\<lparr>ct_res := b\<rparr>) m = res_msg_ok lib s m" for m by (simp add: res_msg_ok_def resp_good_def)
  ultimately show "cut_inv lib kem_pair (s\<lparr>ct_res := b\<rparr>)" using inv f(4,7) by (simp add: cut_inv_def part_frames)
  show "cur_key b = cur_key (ct_res s)" using keys by (simp add: key_slot_defs)
qed

text \<open>The response to a new session, put in the cache.\<close>

lemma step_stored:
  assumes inv: "cut_inv lib kem_pair s" and new: "ct_key s sid = None" "fresh_key lib s k" "ct_secret s sid = Some sk"
    and absent: "cache_slot_of (ct_res s) (\<lambda>e. hc_valid e \<and> hc_session_id e = sid) = None"
    and resp: "hm_msg_type resp = PQC_HS_MSG_RESP" "hm_session_id resp = sid" "hl_kem_decapsulate lib sk (hm_data resp) = Some ss"
      "derive_traffic_key lib ss = Some k"
    and M: "M \<subseteq> {resp}" and disc: "pb_prev_discard_after_ms (ct_res s) = 0"
  shows "cut_inv lib kem_pair (s\<lparr>ct_res := store_response resp sid h k True (ct_res s), ct_sent_res := ct_sent_res s \<union> M,
    ct_key := (ct_key s)(sid \<mapsto> k)\<rparr>)" (is "cut_inv lib kem_pair ?s")
proof -
  let ?c = "pb_hs_cache (ct_res s)" and ?n = "pb_hs_cache_next (ct_res s)"
  let ?e = "\<lparr>hc_response = Some resp, hc_session_id = sid, hc_hello_hash = h, hc_master_key = k, hc_valid = True,
    hc_key_promoted = False, hc_requires_commit = True\<rparr>"
  have c: "length ?c = 4" "?n < 4" and old: "\<And>e. e \<in> set ?c \<Longrightarrow> entry_ok lib s e"
    and dist: "\<And>i j. i < 4 \<Longrightarrow> j < 4 \<Longrightarrow> i \<noteq> j \<Longrightarrow> hc_valid (?c ! i) \<Longrightarrow> hc_valid (?c ! j) \<Longrightarrow> hc_session_id (?c ! i) \<noteq> hc_session_id (?c ! j)"
    using inv by (simp_all add: cut_inv_def cache_ok_def Let_def)
  have g: "ct_done s \<subseteq> dom (ct_key s)" "dom (ct_key s) \<subseteq> dom (ct_secret s)" "inj_on (ct_key s) (dom (ct_key s))"
    "\<And>sid k. sid \<notin> ct_done s \<Longrightarrow> ct_key s sid = Some k \<Longrightarrow> k \<notin> ct_used s" "cur_key (ct_ini s) \<in> ct_used s"
    "cur_key (ct_res s) \<in> ct_used s \<union> ran (ct_key s)" "inj_on (hl_sha256 lib) (ct_used s \<union> ran (ct_key s))"
    using inv by (auto simp: cut_inv_def ghost_ok_def)
  have nd: "sid \<notin> ct_done s" using g(1) new(1) by blast
  have fr: "k' \<noteq> k" "hl_sha256 lib k' \<noteq> hl_sha256 lib k" if "k' \<in> ct_used s \<union> ran (ct_key s)" for k'
    using new(2) that by (auto simp: fresh_key_def)
  have none: "\<not> (hc_valid (?c ! i) \<and> hc_session_id (?c ! i) = sid)" if "i < 4" for i
    using absent that by (auto simp: cache_slot_of_def PQC_HS_CACHE_SLOTS_def find_None_iff)
  have good: "resp_good lib ?s m" if "resp_good lib s m" for m
    by (rule resp_good_mono [OF that]) (use new(1) in auto)
  have good_new: "resp_good lib ?s resp" using resp new(3) by (simp add: resp_good_def)
  have "entry_ok lib ?s e" if "entry_ok lib s e" for e
    using that good new(1) unfolding entry_ok_def by (auto split: if_splits)
  moreover have "entry_ok lib ?s ?e" using good_new resp(1) nd by (simp add: entry_ok_def)
  ultimately have entries: "entry_ok lib ?s e" if "e \<in> set (?c[?n := ?e])" for e
    using that old set_update_subset_insert [of ?c ?n ?e] by blast
  have "hc_session_id (?c[?n := ?e] ! i) \<noteq> hc_session_id (?c[?n := ?e] ! j)"
    if "i < 4" "j < 4" "i \<noteq> j" "hc_valid (?c[?n := ?e] ! i)" "hc_valid (?c[?n := ?e] ! j)" for i j
    using that c none dist by (auto simp: nth_list_update split: if_splits)
  then have cache: "cache_ok lib ?s" using c entries by (simp add: cache_ok_def store_response_def PQC_HS_CACHE_SLOTS_def)
  have im: "ini_msg_ok lib kem_pair ?s m = ini_msg_ok lib kem_pair s m" for m by (simp add: ini_msg_ok_def)
  have rm: "res_msg_ok lib ?s m" if "res_msg_ok lib s m" for m using that good by (simp add: res_msg_ok_def)
  have rm_new: "res_msg_ok lib ?s resp" using good_new resp(1) by (simp add: res_msg_ok_def hs_msg_types)
  have cur: "cur_key (store_response resp sid h k True (ct_res s)) = cur_key (ct_res s)"
    and slots: "slots_ok (store_response resp sid h k True (ct_res s))"
    using inv by (simp_all add: store_response_def cut_inv_def slots_ok_def)
  have ran: "ran ((ct_key s)(sid \<mapsto> k)) = insert k (ran (ct_key s))" using new(1) by simp
  have inj: "inj_on ((ct_key s)(sid \<mapsto> k)) (dom ((ct_key s)(sid \<mapsto> k)))"
    using g(3) fr(1) new(1) by (force simp: inj_on_def dom_def ran_def)
  have sha: "inj_on (hl_sha256 lib) (insert k (ct_used s \<union> ran (ct_key s)))" using g(7) fr(2) by (fastforce simp: inj_on_def)
  have nu: "k \<notin> ct_used s" using fr(1) by blast
  have "ct_done s \<subseteq> dom (ct_key ?s)" using g(1) by auto
  moreover have "dom (ct_key ?s) \<subseteq> dom (ct_secret ?s)" using g(2) new(3) by auto
  ultimately have "ghost_ok lib ?s"
    using g(4-6) inj sha nu cur ran by (auto simp: ghost_ok_def simp del: inj_on_insert dom_fun_upd)
  moreover have "phase_ok ?s"
    using inv new(1) cur by (auto simp: cut_inv_def phase_ok_def store_response_def split: ini_phase.splits if_splits)
  ultimately show ?thesis using inv slots cache im rm rm_new M disc cur
    by (auto simp: cut_inv_def store_response_def)
qed

lemma step_hello_received:
  assumes inv: "cut_inv lib kem_pair s" and p: "pub_of (ct_res s) raw_pub" "can_arrive lib raw_pub (ct_sent_ini s) rx_buf rx_len"
    "encap_ok lib kem_pair env" "fresh_encap lib env s rx_buf rx_len"
    and run: "pqc_hs_handle_l3_responder_hello lib env (ct_res s) rx_buf rx_len = Some (rc, b, out)"
    and once: "\<not> session_again (ct_res s) b (ct_key s)"
  shows "cut_inv lib kem_pair (s\<lparr>ct_res := b, ct_sent_res := ct_sent_res s \<union> set out, ct_key := note_key (ct_res s) b (ct_key s)\<rparr>)"
proof -
  have ok: "slots_ok (ct_res s)" and cache: "cache_ok lib s" using inv by (simp_all add: cut_inv_def)
  have c: "length (pb_hs_cache (ct_res s)) = 4" "pb_hs_cache_next (ct_res s) < 4" "cache_waits (ct_res s)"
    using cache by (auto simp: cache_ok_def Let_def cache_waits_def entry_ok_def)
  have same_key: "s\<lparr>ct_res := b, ct_sent_res := M, ct_key := ct_key s\<rparr> = s\<lparr>ct_res := b, ct_sent_res := M\<rparr>" for b M by (cases s) simp
  have same_res: "s\<lparr>ct_res := ct_res s, ct_sent_res := M\<rparr> = s\<lparr>ct_sent_res := M\<rparr>" for M by (cases s) simp
  show ?thesis using run ok p(1) c
  proof (cases rule: hello_cases)
    case same
    have "\<forall>m \<in> set out. res_msg_ok lib s m"
      using same(2) cache by (fastforce simp: cache_ok_def Let_def entry_ok_def res_msg_ok_def hs_msg_types)
    from inv_sent(2) [OF inv this] same(1) show ?thesis by (simp add: note_key_def same_key same_res)
  next
    case (staged k)
    have "pb_hs_cache_next b = pb_hs_cache_next (ct_res s)" by (rule staged_fields(6) [OF ok staged(1)])
    moreover have "s\<lparr>ct_res := b, ct_sent_res := ct_sent_res s\<rparr> = s\<lparr>ct_res := b\<rparr>" by (cases s) simp
    ultimately show ?thesis using step_staged(1) [OF inv staged(1)] staged(2) by (simp add: note_key_def same_key)
  next
    case (fresh m ct ss k resp sz h b1)
    let ?sid = "hm_session_id m" and ?s1 = "s\<lparr>ct_res := b1\<rparr>"
    note f = staged_fields [OF ok fresh(9)]
    obtain raw_priv where sig: "hs_signed lib raw_priv PQC_HS_MSG_RESP ?sid (pb_policy_id (ct_res s)) ct = Some (resp, sz)" using fresh(7) by blast
    note resp = signed_fields [OF sig fresh(8)]
    obtain m' where "m' \<in> ct_sent_ini s" "hm_msg_type m' = PQC_HS_MSG_HELLO" "hm_session_id m' = ?sid" "hm_data m' = hm_data m"
      using core_same [OF arrive_msg [OF p(2) fresh(1)] fresh(4)] fresh(2) by auto
    then obtain sk where sk: "ct_secret s ?sid = Some sk" "kem_pair (hm_data m) sk"
      using inv by (auto simp: cut_inv_def ini_msg_ok_def)
    have dec: "hl_kem_decapsulate lib sk ct = Some ss" using p(3) fresh(5) sk(2) by (auto simp: encap_ok_def)
    have turn: "(n + 1) mod 4 \<noteq> n" if "n < 4" for n :: nat using that by presburger
    have stored: "pb_hs_cache_next b \<noteq> pb_hs_cache_next (ct_res s)"
      "hc_session_id (pb_hs_cache b ! pb_hs_cache_next (ct_res s)) = ?sid" "hc_master_key (pb_hs_cache b ! pb_hs_cache_next (ct_res s)) = k"
      using c(1,2) f(5,6) fresh(10) turn by (simp_all add: store_response_def PQC_HS_CACHE_SLOTS_def)
    have new: "ct_key s ?sid = None" "fresh_key lib s k"
      using p(4) once stored(1,2) fresh(1,5,6) by (auto simp: fresh_encap_def session_again_def)
    have inv1: "cut_inv lib kem_pair ?s1" by (rule step_staged(1) [OF inv fresh(9)])
    have "fresh_key lib ?s1 k" using new(2) step_staged(2) [OF inv fresh(9)] by (simp add: fresh_key_def)
    moreover have "cache_slot_of (ct_res ?s1) (\<lambda>e. hc_valid e \<and> hc_session_id e = ?sid) = None"
      using fresh(3) f(5) by (simp add: cache_slot_of_def)
    ultimately have "cut_inv lib kem_pair (?s1\<lparr>ct_res := store_response resp ?sid h k True (ct_res ?s1),
        ct_sent_res := ct_sent_res ?s1 \<union> set out, ct_key := (ct_key ?s1)(?sid \<mapsto> k)\<rparr>)"
      by (intro step_stored [OF inv1 _ _ _ _ _ _ _ fresh(6)]) (use new(1) sk(1) resp dec fresh(11) f(7) in simp_all)
    moreover have "note_key (ct_res s) b (ct_key s) = (ct_key s)(?sid \<mapsto> k)" using stored by (simp add: note_key_def Let_def)
    ultimately show ?thesis using fresh(10) by simp
  qed
qed

lemma step_ready_received:
  assumes inv: "cut_inv lib kem_pair s" and p: "pub_of (ct_res s) raw_pub" "msg_can_arrive lib raw_pub (ct_sent_ini s) m"
    and run: "pqc_hs_handle_ready lib env (ct_res s) m = Some (rc, b, out)"
  shows "cut_inv lib kem_pair (s\<lparr>ct_res := b, ct_sent_res := ct_sent_res s \<union> set out, ct_done := ct_done s \<union> promoted_sessions b\<rparr>)"
    (is "cut_inv lib kem_pair ?s")
proof -
  let ?c = "pb_hs_cache (ct_res s)" and ?sid = "hm_session_id m"
  have ok: "slots_ok (ct_res s)" using inv by (simp add: cut_inv_def)
  have c: "length ?c = 4" "pb_hs_cache_next (ct_res s) < 4" and old: "\<And>e. e \<in> set ?c \<Longrightarrow> entry_ok lib s e"
    and dist: "\<And>i j. i < 4 \<Longrightarrow> j < 4 \<Longrightarrow> i \<noteq> j \<Longrightarrow> hc_valid (?c ! i) \<Longrightarrow> hc_valid (?c ! j) \<Longrightarrow> hc_session_id (?c ! i) \<noteq> hc_session_id (?c ! j)"
    using inv by (simp_all add: cut_inv_def cache_ok_def Let_def)
  have prom: "promoted_sessions (ct_res s) \<subseteq> ct_done s" using old by (auto simp: promoted_sessions_def entry_ok_def)
  show ?thesis using run ok p(1)
  proof (cases rule: ready_cases)
    case same
    have "ct_done s \<union> promoted_sessions (ct_res s) = ct_done s" using prom by blast
    moreover have "s\<lparr>ct_res := ct_res s, ct_sent_res := M, ct_done := ct_done s\<rparr> = s\<lparr>ct_sent_res := M\<rparr>" for M by (cases s) simp
    moreover have "\<forall>m' \<in> set out. res_msg_ok lib s m'"
    proof
      fix m' assume "m' \<in> set out"
      then obtain i where i: "hm_msg_type m' = PQC_HS_MSG_COMMIT" "hm_session_id m' = ?sid" "i < 4" "hc_valid (?c ! i)"
        "hc_session_id (?c ! i) = ?sid" "hc_key_promoted (?c ! i)" using same(2) by blast
      moreover have "entry_ok lib s (?c ! i)" using old i(3) c(1) by simp
      ultimately show "res_msg_ok lib s m'" by (simp add: res_msg_ok_def entry_ok_def hs_msg_types)
    qed
    ultimately show ?thesis using inv_sent(2) [OF inv] same(1) by simp
  next
    case (promote i b1)
    have e: "entry_ok lib s (?c ! i)" using old promote(3) c(1) by simp
    then have nd: "?sid \<notin> ct_done s" and key: "ct_key s ?sid = Some (hc_master_key (?c ! i))"
      using promote(4-6) by (auto simp: entry_ok_def split: if_splits)
    obtain m' where "m' \<in> ct_sent_ini s" "hm_msg_type m' = PQC_HS_MSG_READY" "hm_session_id m' = ?sid"
      using core_same [OF p(2) promote(2)] promote(1) by auto
    then have ph: "ct_phase s = WaitCommit ?sid" using inv nd by (auto simp: cut_inv_def ini_msg_ok_def)
    then have st: "pb_key_slots_valid (ct_ini s) ! 2" "ct_key s ?sid = Some (pb_keys (ct_ini s) ! 2)" "cur_key (ct_res s) = cur_key (ct_ini s)"
      using inv nd by (simp_all add: cut_inv_def phase_ok_def)
    note pf = promoted_fields [OF ok promote(9,7)]
    have bc: "pb_hs_cache b = ?c[i := (?c ! i)\<lparr>hc_key_promoted := True, hc_master_key := replicate 32 0\<rparr>]" "pb_hs_cache_next b = pb_hs_cache_next (ct_res s)"
      and bk: "pb_keys b = pb_keys b1" "pb_key_slots_valid b = pb_key_slots_valid b1" "slots_ok b" "pb_prev_discard_after_ms b = 0"
      using promote(10) pf(4-7) by (simp_all add: mark_promoted_def slots_ok_def)
    have cur: "cur_key b = pb_keys (ct_ini s) ! 2" "pb_keys b ! 0 = cur_key (ct_ini s)" "pb_key_slots_valid b ! 0"
      using bk(1,2) pf(2,3) key st(2,3) promote(8) by (simp_all add: key_slot_defs)
    have dn: "ct_done s \<union> promoted_sessions b = insert ?sid (ct_done s)"
    proof -
      let ?e = "(?c ! i)\<lparr>hc_key_promoted := True, hc_master_key := replicate 32 0\<rparr>"
      have "promoted_sessions b \<subseteq> insert ?sid (promoted_sessions (ct_res s))"
      proof
        fix x assume "x \<in> promoted_sessions b"
        then obtain e where e: "e \<in> set (?c[i := ?e])" "hc_valid e" "hc_key_promoted e" "x = hc_session_id e"
          using bc(1) by (auto simp: promoted_sessions_def)
        then have "e = ?e \<or> e \<in> set ?c" using set_update_subset_insert [of ?c i ?e] by blast
        then show "x \<in> insert ?sid (promoted_sessions (ct_res s))" using e promote(5) by (auto simp: promoted_sessions_def)
      qed
      moreover have "?e \<in> set (pb_hs_cache b)" using bc(1) promote(3) c(1) by (simp add: set_update_memI)
      then have "hc_session_id ?e \<in> promoted_sessions b" using promote(4) unfolding promoted_sessions_def by fastforce
      ultimately show ?thesis using prom promote(5) by auto
    qed
    have entries: "entry_ok lib ?s (pb_hs_cache b ! j)" if "j < 4" for j
    proof (cases "j = i")
      case True
      then show ?thesis using e bc(1) c(1) promote(3-6) dn by (simp add: entry_ok_def resp_good_def)
    next
      case False
      then have "hc_valid (?c ! j) \<Longrightarrow> hc_session_id (?c ! j) \<noteq> ?sid" using dist [of j i] that promote(3-5) by auto
      moreover have "entry_ok lib s (?c ! j)" using old that c(1) by simp
      ultimately show ?thesis using False bc(1) dn by (auto simp: entry_ok_def resp_good_def)
    qed
    have "hc_session_id (pb_hs_cache b ! j) = hc_session_id (?c ! j) \<and> hc_valid (pb_hs_cache b ! j) = hc_valid (?c ! j)" if "j < 4" for j
      using bc(1) c(1) that promote(3) by (simp add: nth_list_update)
    then have cache: "cache_ok lib ?s" using entries dist c bc by (auto simp: cache_ok_def in_set_conv_nth)
    have im: "ini_msg_ok lib kem_pair ?s x" if "ini_msg_ok lib kem_pair s x" for x using that by (auto simp: ini_msg_ok_def)
    have rm: "res_msg_ok lib ?s x" if "res_msg_ok lib s x" for x using that by (auto simp: res_msg_ok_def resp_good_def)
    have rm_new: "res_msg_ok lib ?s x" if "x \<in> set out" for x
      using promote(11) that dn by (auto simp: res_msg_ok_def hs_msg_types)
    have nu: "cur_key b \<notin> ct_used s" using inv nd st(2) cur(1) by (auto simp: cut_inv_def ghost_ok_def)
    have "cur_key b \<in> ran (ct_key s)" using st(2) cur(1) by (auto intro: ranI)
    then have "ghost_ok lib ?s" using inv dn key by (auto simp: cut_inv_def ghost_ok_def)
    moreover have "phase_ok ?s" using ph st cur nu dn by (simp add: phase_ok_def)
    ultimately show ?thesis using inv bk(3,4) cache im rm rm_new by (auto simp: cut_inv_def)
  qed
qed

lemma ini_then_sent: "s\<lparr>ct_ini := b, ct_sent_ini := M\<rparr> = (s\<lparr>ct_ini := b\<rparr>)\<lparr>ct_sent_ini := M\<rparr>"
  and res_then_sent: "s\<lparr>ct_res := b, ct_sent_res := M\<rparr> = (s\<lparr>ct_res := b\<rparr>)\<lparr>ct_sent_res := M\<rparr>"
  by simp_all

lemma step_keepalive_ini_sent:
  assumes inv: "cut_inv lib kem_pair s" and sha: "\<And>x h. hl_sha256 lib x = Some h \<Longrightarrow> length h = 32"
    and run: "pqc_hs_send_l3_keepalive lib env (ct_ini s) = Some (rc, b, out)"
  shows "cut_inv lib kem_pair (s\<lparr>ct_ini := b, ct_sent_ini := ct_sent_ini s \<union> set out\<rparr>)"
proof -
  note f = keepalive_sent_fields [OF run sha]
  have says: "hm_msg_type m = PQC_HS_MSG_KEEPALIVE \<and> keepalive_says lib m {cur_key (ct_ini s)}" if "m \<in> set out" for m
    by (rule keepalive_sent_fields(3) [OF run _ that]) (rule sha)
  have "cur_key (ct_ini s) \<in> ct_used s" using inv by (simp add: cut_inv_def ghost_ok_def)
  with says have "\<forall>m \<in> set out. ini_msg_ok lib kem_pair (s\<lparr>ct_ini := b\<rparr>) m"
    by (auto simp: ini_msg_ok_def keepalive_says_def Let_def hs_msg_types)
  from inv_sent(1) [OF inv_ini_same [OF inv f(1)] this] show ?thesis by simp
qed

lemma step_keepalive_res_sent:
  assumes inv: "cut_inv lib kem_pair s" and sha: "\<And>x h. hl_sha256 lib x = Some h \<Longrightarrow> length h = 32"
    and run: "pqc_hs_send_l3_keepalive lib env (ct_res s) = Some (rc, b, out)"
  shows "cut_inv lib kem_pair (s\<lparr>ct_res := b, ct_sent_res := ct_sent_res s \<union> set out\<rparr>)"
proof -
  note f = keepalive_sent_fields [OF run sha]
  have "hm_msg_type m = PQC_HS_MSG_KEEPALIVE \<and> keepalive_says lib m {cur_key (ct_res s)}" if "m \<in> set out" for m
    by (rule keepalive_sent_fields(3) [OF run _ that]) (rule sha)
  then have "\<forall>m \<in> set out. res_msg_ok lib (s\<lparr>ct_res := b\<rparr>) m" by (auto simp: res_msg_ok_def hs_msg_types)
  from inv_sent(2) [OF inv_res_same [OF inv f(1) disjI1 [OF f(2)]] this] show ?thesis by simp
qed

text \<open>The keepalive that starts the clock of the responder's previous key shows that the initiator uses the new one.\<close>

lemma step_keepalive_res_received:
  assumes inv: "cut_inv lib kem_pair s" and p: "pub_of (ct_res s) raw_pub" "msg_can_arrive lib raw_pub (ct_sent_ini s) m"
    and run: "keepalive_rx lib now (ct_res s) m = Some b"
  shows "cut_inv lib kem_pair (s\<lparr>ct_res := b\<rparr>)"
proof -
  have ok: "slots_ok (ct_res s)" using inv by (simp add: cut_inv_def)
  have "cur_key (ct_res s) \<in> ct_used s"
    if v: "pqc_hs_verify_l3_keepalive lib (ct_res s) m = Some (0, Some k)" and r: "ks_state k = PQC_HS_STATE_READY"
      "hl_sha256 lib (cur_key (ct_res s)) = Some (ks_key_fingerprint k)" for k
  proof -
    note kv = keepalive_verified [OF v p(1)]
    obtain m' where "m' \<in> ct_sent_ini s" "hm_msg_type m' = PQC_HS_MSG_KEEPALIVE" "hm_data m' = hm_data m"
      using core_same [OF p(2) kv(2)] kv(1) by auto
    then have "keepalive_says lib m (ct_used s)" using inv by (auto simp: cut_inv_def ini_msg_ok_def keepalive_says_def)
    then obtain key where key: "key \<in> ct_used s" "hl_sha256 lib key = hl_sha256 lib (cur_key (ct_res s))"
      using r kv(3) by (auto simp: keepalive_says_def Let_def)
    have inj: "inj_on (hl_sha256 lib) (ct_used s \<union> ran (ct_key s))" "cur_key (ct_res s) \<in> ct_used s \<union> ran (ct_key s)"
      using inv by (simp_all add: cut_inv_def ghost_ok_def)
    have "key = cur_key (ct_res s)" by (rule inj_onD [OF inj(1) key(2) _ inj(2)]) (use key(1) in simp)
    then show ?thesis using key(1) by simp
  qed
  with keepalive_rx_fields [OF run ok] show ?thesis by (intro inv_res_same [OF inv]) blast+
qed

lemma replayed_frame: "cut_inv lib kem_pair (s\<lparr>ct_replayed := r\<rparr>) = cut_inv lib kem_pair s"
  by (simp add: cut_inv_defs [abs_def] split: ini_phase.split)

lemma cutover_step_keeps:
  assumes "cutover_step lib kem_pair s s'" "cut_inv lib kem_pair s" and sha: "\<And>x h. hl_sha256 lib x = Some h \<Longrightarrow> length h = 32"
    and once: "\<not> ct_replayed s'"
  shows "cut_inv lib kem_pair s'"
  using assms(1)
proof cases
  case (rekey_request policy_id rc b)
  then show ?thesis using inv_ini_same [OF assms(2) request_same_keys] by simp
next
  case (hello_sent sid pk sk raw_priv m sig_sz now)
  then show ?thesis using step_hello_sent [OF assms(2) hello_sent(2,4,6,7,8)] by (simp add: same_keys_def)
next
  case (rotation_timeout sid)
  then show ?thesis using step_timeout [OF assms(2) rotation_timeout(2)] by (simp add: same_keys_def)
next
  case (hello_received raw_pub rx_buf rx_len env rc b out)
  then have "\<not> session_again (ct_res s) b (ct_key s)" using once by simp
  from step_hello_received [OF assms(2) hello_received(2-6) this] show ?thesis
    unfolding hello_received(1) using replayed_frame by (simp add: replayed_frame)
next
  case (resp_received sid sk raw_pub rx_buf rx_len staged b)
  then show ?thesis using step_resp_received [OF assms(2) resp_received(2-6)] by simp
next
  case (ready_sent sid env rc out)
  then show ?thesis using step_ready_sent [OF assms(2) ready_sent(2,3)] by simp
next
  case (ready_received raw_pub m env rc b out)
  then show ?thesis using step_ready_received [OF assms(2) ready_received(2-4)] by simp
next
  case (commit_received sid raw_pub rx_buf rx_len env fin b)
  then show ?thesis using step_commit_received [OF assms(2) commit_received(2-5)] by simp
next
  case (keepalive_ini_sent env rc b out)
  then show ?thesis using step_keepalive_ini_sent [OF assms(2) sha] by simp
next
  case (keepalive_res_sent env rc b out)
  then show ?thesis using step_keepalive_res_sent [OF assms(2) sha] by simp
next
  case (keepalive_ini_received now m b)
  then show ?thesis using assms(2) inv_ini_same [OF assms(2) keepalive_rx_fields(1)] by (simp add: cut_inv_def)
next
  case (keepalive_res_received raw_pub m now b)
  then show ?thesis using step_keepalive_res_received [OF assms(2)] by simp
next
  case (ini_tick now in_ram)
  then show ?thesis using inv_ini_tick [OF assms(2)] by simp
next
  case (res_tick now in_ram)
  then show ?thesis using inv_res_tick [OF assms(2)] by simp
qed

lemma replayed_stays: "\<lbrakk>cutover_step lib kem_pair s s'; ct_replayed s\<rbrakk> \<Longrightarrow> ct_replayed s'"
  by (erule cutover_step.cases) auto

section \<open>The previous keys\<close>

text \<open>Between the commit of the responder and that of the initiator the responder is one key ahead.\<close>

definition commit_open :: "cutover \<Rightarrow> bool" where
  "commit_open s \<longleftrightarrow> (case ct_phase s of WaitCommit sid \<Rightarrow> sid \<in> ct_done s | _ \<Rightarrow> False)"

text \<open>At any other time the two peers have the same previous key, as long as both keep one.\<close>

definition prev_ok :: "cutover \<Rightarrow> bool" where
  "prev_ok s \<longleftrightarrow> (\<not> commit_open s \<longrightarrow> pb_key_slots_valid (ct_ini s) ! 0 \<longrightarrow> pb_key_slots_valid (ct_res s) ! 0 \<longrightarrow>
     pb_keys (ct_ini s) ! 0 = pb_keys (ct_res s) ! 0)"

text \<open>An operation that leaves the previous key alone, or deletes it.\<close>

definition prev_kept :: "pqc_binding \<Rightarrow> pqc_binding \<Rightarrow> bool" where
  "prev_kept b b' \<longleftrightarrow> (pb_key_slots_valid b' ! 0 \<longrightarrow> pb_key_slots_valid b ! 0 \<and> pb_keys b' ! 0 = pb_keys b ! 0)"

lemma prev_kept_same [simp]: "same_keys b b' \<Longrightarrow> prev_kept b b'"
  by (simp add: prev_kept_def same_keys_def)

lemma prev_kept_staged: "\<lbrakk>slots_ok b; pqc_hs_stage_next_key k b = (rc, b')\<rbrakk> \<Longrightarrow> prev_kept b b'"
  by (simp add: prev_kept_def staged_fields)

lemma prev_kept_tick: "slots_ok b \<Longrightarrow> prev_kept b (discard_prev_tick now in_ram b)"
  by (auto simp: prev_kept_def discard_prev_tick_def pqc_hs_wipe_slot_locked_def set_slot_def slots_ok_def key_slot_defs Let_def)

lemma prev_ok_kept:
  assumes "prev_ok s" "prev_kept (ct_ini s) (ct_ini s')" "prev_kept (ct_res s) (ct_res s')" "commit_open s \<Longrightarrow> commit_open s'"
  shows "prev_ok s'"
  using assms by (auto simp: prev_ok_def prev_kept_def)

lemma ready_opens:
  assumes inv: "cut_inv lib kem_pair s" and p: "pub_of (ct_res s) raw_pub" "msg_can_arrive lib raw_pub (ct_sent_ini s) m"
    and run: "pqc_hs_handle_ready lib env (ct_res s) m = Some (rc, b, out)" and moved: "b \<noteq> ct_res s"
  shows "ct_phase s = WaitCommit (hm_session_id m)" "hm_session_id m \<in> promoted_sessions b"
proof -
  let ?c = "pb_hs_cache (ct_res s)"
  have ok: "slots_ok (ct_res s)" and c: "length ?c = 4" "\<And>e. e \<in> set ?c \<Longrightarrow> entry_ok lib s e"
    using inv by (simp_all add: cut_inv_def cache_ok_def Let_def)
  obtain i b1 where pr: "hm_msg_type m = PQC_HS_MSG_READY" "pqc_hs_verify_message lib raw_pub m" "i < 4"
      "hc_valid (?c ! i)" "hc_session_id (?c ! i) = hm_session_id m" "\<not> hc_key_promoted (?c ! i)" "pb_key_slots_valid (ct_res s) ! 2"
      "pqc_hs_promote_staged_key (he_now env) (ct_res s) = (0, b1)" "b = mark_promoted i b1"
    using run ok p(1) by (cases rule: ready_cases) (use moved in blast)+
  have "entry_ok lib s (?c ! i)" using c pr(3) by simp
  then have nd: "hm_session_id m \<notin> ct_done s" using pr(4-6) by (auto simp: entry_ok_def split: if_splits)
  obtain m' where "m' \<in> ct_sent_ini s" "hm_msg_type m' = PQC_HS_MSG_READY" "hm_session_id m' = hm_session_id m"
    using core_same [OF p(2) pr(2)] pr(1) by auto
  then show "ct_phase s = WaitCommit (hm_session_id m)" using inv nd by (auto simp: cut_inv_def ini_msg_ok_def)
  let ?e = "(?c ! i)\<lparr>hc_key_promoted := True, hc_master_key := replicate 32 0\<rparr>"
  have "pb_hs_cache b = ?c[i := ?e]" using pr(9) promoted_fields(5) [OF ok pr(8,7)] by (simp add: mark_promoted_def)
  then have "?e \<in> set (pb_hs_cache b)" using pr(3) c(1) by (simp add: set_update_memI)
  moreover have "hm_session_id m = hc_session_id ?e" "hc_valid ?e" "hc_key_promoted ?e" using pr(4,5) by simp_all
  ultimately show "hm_session_id m \<in> promoted_sessions b" unfolding promoted_sessions_def by blast
qed

lemma prev_ok_step:
  assumes "cutover_step lib kem_pair s s'" "cut_inv lib kem_pair s" "prev_ok s" and sha: "\<And>x h. hl_sha256 lib x = Some h \<Longrightarrow> length h = 32"
  shows "prev_ok s'"
proof -
  have ok: "slots_ok (ct_ini s)" "slots_ok (ct_res s)" using assms(2) by (simp_all add: cut_inv_def)
  note keep = prev_ok_kept [OF assms(3)]
  from assms(1) show ?thesis
  proof cases
    case (rekey_request policy_id rc b)
    then show ?thesis by (intro keep) (auto simp: request_same_keys commit_open_def split: ini_phase.splits)
  next
    case (hello_sent sid pk sk raw_priv m sig_sz now)
    then show ?thesis by (intro keep) (auto simp: commit_open_def same_keys_def split: ini_phase.splits)
  next
    case (rotation_timeout sid)
    then show ?thesis by (intro keep) (auto simp: commit_open_def same_keys_def split: ini_phase.splits)
  next
    case (hello_received raw_pub rx_buf rx_len env rc b out)
    have c: "length (pb_hs_cache (ct_res s)) = 4" "pb_hs_cache_next (ct_res s) < 4" "cache_waits (ct_res s)"
      using assms(2) by (auto simp: cut_inv_def cache_ok_def Let_def cache_waits_def entry_ok_def)
    have "prev_kept (ct_res s) b" using hello_received(6) ok(2) hello_received(2) c
    proof (cases rule: hello_cases)
      case (fresh m ct ss k resp sz h b1)
      then show ?thesis using prev_kept_staged [OF ok(2) fresh(9)] by (simp add: prev_kept_def store_response_def)
    qed (use prev_kept_staged [OF ok(2)] in auto)
    with hello_received show ?thesis by (intro keep) (auto simp: commit_open_def split: ini_phase.splits)
  next
    case (resp_received sid sk raw_pub rx_buf rx_len staged b)
    have "prev_kept (ct_ini s) b" using resp_received(6) ok(1) resp_received(4)
      by (cases rule: resp_cases) (use prev_kept_staged [OF ok(1)] in auto)
    with resp_received show ?thesis by (intro keep) (auto simp: commit_open_def split: ini_phase.splits)
  next
    case (ready_sent sid env rc out)
    then show ?thesis by (intro keep) (auto simp: commit_open_def split: ini_phase.splits)
  next
    case (ready_received raw_pub m env rc b out)
    show ?thesis
    proof (cases "b = ct_res s")
      case True
      with ready_received show ?thesis by (intro keep) (auto simp: commit_open_def split: ini_phase.splits)
    next
      case False
      with ready_opens [OF assms(2) ready_received(2-4)] ready_received(1) have "commit_open s'" by (simp add: commit_open_def)
      then show ?thesis by (simp add: prev_ok_def)
    qed
  next
    case (commit_received sid raw_pub rx_buf rx_len env fin b)
    from commit_received(5) commit_received(3) show ?thesis
    proof (cases rule: commit_cases)
      case same
      with commit_received show ?thesis by (intro keep) (auto simp: commit_open_def split: ini_phase.splits)
    next
      case (promote m rc)
      obtain m' where "m' \<in> ct_sent_res s" "hm_msg_type m' = PQC_HS_MSG_COMMIT" "hm_session_id m' = sid"
        using core_same [OF arrive_msg [OF commit_received(4) promote(2)] promote(5)] promote(3,4) by auto
      then have "sid \<in> ct_done s" using assms(2) by (auto simp: cut_inv_def res_msg_ok_def)
      then have ph: "pb_key_slots_valid (ct_ini s) ! 2" "pb_keys (ct_res s) ! 0 = cur_key (ct_ini s)"
        using assms(2) commit_received(2) by (simp_all add: cut_inv_def phase_ok_def)
      from promoted_fields(2) [OF ok(1) promote(6) ph(1)] ph(2) commit_received(1) show ?thesis
        by (simp add: prev_ok_def key_slot_defs)
    qed
  next
    case (keepalive_ini_sent env rc b out)
    then show ?thesis using keepalive_sent_fields(1) [OF keepalive_ini_sent(2) sha] by (intro keep) (auto simp: commit_open_def split: ini_phase.splits)
  next
    case (keepalive_res_sent env rc b out)
    then show ?thesis using keepalive_sent_fields(1) [OF keepalive_res_sent(2) sha] by (intro keep) (auto simp: commit_open_def split: ini_phase.splits)
  next
    case (keepalive_ini_received now m b)
    then show ?thesis using keepalive_rx_fields(1) [OF keepalive_ini_received(2) ok(1)] by (intro keep) (auto simp: commit_open_def split: ini_phase.splits)
  next
    case (keepalive_res_received raw_pub m now b)
    then show ?thesis using keepalive_rx_fields(1) [OF keepalive_res_received(4) ok(2)] by (intro keep) (auto simp: commit_open_def split: ini_phase.splits)
  next
    case (ini_tick now in_ram)
    then show ?thesis using prev_kept_tick [OF ok(1)] by (intro keep) (auto simp: commit_open_def split: ini_phase.splits)
  next
    case (res_tick now in_ram)
    then show ?thesis using prev_kept_tick [OF ok(2)] by (intro keep) (auto simp: commit_open_def split: ini_phase.splits)
  qed
qed

end
