(* ===== verification/Cutover_Hitless.thy ===== *)
theory Cutover_Hitless
  imports Key_Cutover
begin

text \<open>
  What the rotation of a session key promises: at no moment does a packet travel under a key that the receiver has
  thrown away. The theorem speaks of the packet contexts of the two peers, as they are refreshed from the bindings;
  together with \<open>payload_survives_rotation\<close> of \<open>Packet_Crypto\<close>, which needs no more than the sender's CURRENT key in
  some slot of the receiver, every packet of either direction can be opened throughout a rotation. The example run
  takes a pair to the middle of a rotation, where the CURRENT keys of the two peers differ.
\<close>

section \<open>No packet is lost to a rotation\<close>

definition synced :: "hs_lib \<Rightarrow> cutover \<Rightarrow> bool" where
  "synced lib s \<longleftrightarrow> slots_ok (ct_ini s) \<and> slots_ok (ct_res s) \<and> cur_key (ct_res s) = cur_key (ct_ini s) \<and> ct_phase s = Idle
     \<and> (pb_key_slots_valid (ct_ini s) ! KEY_SLOT_PREV \<longrightarrow> pb_key_slots_valid (ct_res s) ! KEY_SLOT_PREV \<longrightarrow>
          pb_keys (ct_ini s) ! KEY_SLOT_PREV = pb_keys (ct_res s) ! KEY_SLOT_PREV)
     \<and> pb_hs_cache (ct_res s) = replicate PQC_HS_CACHE_SLOTS hs_cache_zero \<and> pb_hs_cache_next (ct_res s) = 0
     \<and> ct_sent_ini s = {} \<and> ct_sent_res s = {} \<and> ct_key s = Map.empty \<and> ct_secret s = Map.empty \<and> ct_done s = {}
     \<and> ct_used s = {cur_key (ct_ini s)}"

lemma synced_inv: "synced lib s \<Longrightarrow> cut_inv lib kem_pair s"
  by (simp add: synced_def cut_inv_def cache_ok_def entry_ok_def ghost_ok_def phase_ok_def hs_cache_zero_def PQC_HS_CACHE_SLOTS_def)

lemma synced_prev: "synced lib s \<Longrightarrow> prev_ok s"
  by (simp add: synced_def prev_ok_def key_slot_defs)

lemma cutover_reachable_inv:
  assumes "(cutover_step lib kem_pair)\<^sup>*\<^sup>* s s'" "synced lib s" "\<And>x h. hl_sha256 lib x = Some h \<Longrightarrow> length h = 32"
    and "\<not> ct_replayed s'"
  shows "cut_inv lib kem_pair s' \<and> prev_ok s'"
  using assms(1,4)
proof induction
  case base
  then show ?case using synced_inv synced_prev assms(2) by blast
next
  case (step y z)
  have "\<not> ct_replayed y" using replayed_stays step.hyps(2) step.prems by blast
  then show ?case using step cutover_step_keeps prev_ok_step assms(3) by blast
qed

text \<open>Where the CURRENT key of a peer is in the slots of the other.\<close>

definition has_key :: "pqc_binding \<Rightarrow> nat set \<Rightarrow> buf \<Rightarrow> bool" where
  "has_key b slots key \<longleftrightarrow> (\<exists>i \<in> slots. i < 3 \<and> pb_key_slots_valid b ! i \<and> pb_keys b ! i = key)"

lemma inv_keys_shared:
  assumes "cut_inv lib kem_pair s"
  shows "has_key (ct_res s) {KEY_SLOT_CURRENT, KEY_SLOT_PREV} (cur_key (ct_ini s))"
    "has_key (ct_ini s) {KEY_SLOT_CURRENT, KEY_SLOT_NEXT} (cur_key (ct_res s))"
proof -
  have "pb_key_slots_valid (ct_ini s) ! 1" "pb_key_slots_valid (ct_res s) ! 1" "phase_ok s"
    using assms by (simp_all add: cut_inv_def slots_ok_def key_slot_defs)
  then show "has_key (ct_res s) {KEY_SLOT_CURRENT, KEY_SLOT_PREV} (cur_key (ct_ini s))"
    "has_key (ct_ini s) {KEY_SLOT_CURRENT, KEY_SLOT_NEXT} (cur_key (ct_res s))"
    by (auto simp: has_key_def phase_ok_def key_slot_defs split: ini_phase.splits if_splits)
qed

text \<open>Where the previous key of a peer is: a packet that was sealed before its sender's last promotion is under this key.\<close>

lemma inv_prev_shared:
  assumes "cut_inv lib kem_pair s" "prev_ok s" "pb_key_slots_valid (ct_ini s) ! KEY_SLOT_PREV" "pb_key_slots_valid (ct_res s) ! KEY_SLOT_PREV"
  shows "has_key (ct_ini s) {KEY_SLOT_PREV, KEY_SLOT_CURRENT} (pb_keys (ct_res s) ! KEY_SLOT_PREV)"
    "\<not> commit_open s \<Longrightarrow> has_key (ct_res s) {KEY_SLOT_PREV} (pb_keys (ct_ini s) ! KEY_SLOT_PREV)"
proof -
  have v: "pb_key_slots_valid (ct_ini s) ! 1" "phase_ok s" using assms(1) by (simp_all add: cut_inv_def slots_ok_def key_slot_defs)
  show "\<not> commit_open s \<Longrightarrow> has_key (ct_res s) {KEY_SLOT_PREV} (pb_keys (ct_ini s) ! KEY_SLOT_PREV)"
    using assms(2-4) by (simp add: prev_ok_def has_key_def key_slot_defs)
  have "commit_open s \<Longrightarrow> pb_keys (ct_res s) ! 0 = cur_key (ct_ini s)"
    using v(2) by (auto simp: commit_open_def phase_ok_def split: ini_phase.splits)
  moreover have "\<not> commit_open s \<Longrightarrow> pb_keys (ct_ini s) ! 0 = pb_keys (ct_res s) ! 0"
    using assms(2-4) by (simp add: prev_ok_def key_slot_defs)
  ultimately show "has_key (ct_ini s) {KEY_SLOT_PREV, KEY_SLOT_CURRENT} (pb_keys (ct_res s) ! KEY_SLOT_PREV)"
    using assms(3) v(1) by (cases "commit_open s") (simp_all add: has_key_def key_slot_defs)
qed

lemma has_key_refreshed:
  assumes "has_key b slots key" "ctx_wf ctx" "ctx_pqc_from_handshake ctx" "ctx_policy_id ctx = pb_policy_id b"
  shows "key \<in> set (ctx_keys (packet_crypto_refresh_pqc_keys [b] ctx))"
proof -
  obtain i where i: "i < 3" "pb_key_slots_valid b ! i" "pb_keys b ! i = key" using assms(1) by (auto simp: has_key_def)
  have "ctx_keys (packet_crypto_refresh_pqc_keys [b] ctx) ! i = key"
    using refresh_slots [OF assms(2,3) _ i(1), of "[b]" b] assms(4) i(2,3) by simp
  moreover have "length (ctx_keys (packet_crypto_refresh_pqc_keys [b] ctx)) = 3"
    using assms(2-4) by (simp add: packet_crypto_refresh_pqc_keys_def pqc_load_handshake_slots_def sig_pqc_get_keys_def key_slot_defs)
  ultimately show ?thesis using i(1) by (metis nth_mem)
qed

lemma hitless:
  assumes "synced lib s" "(cutover_step lib kem_pair)\<^sup>*\<^sup>* s s'" "\<not> ct_replayed s'" "\<forall>x h. hl_sha256 lib x = Some h \<longrightarrow> length h = 32"
    and "ctx_wf ci" "ctx_pqc_from_handshake ci" "ctx_policy_id ci = pb_policy_id (ct_ini s')"
    and "ctx_wf cr" "ctx_pqc_from_handshake cr" "ctx_policy_id cr = pb_policy_id (ct_res s')"
  shows "ctx_keys (packet_crypto_refresh_pqc_keys [ct_ini s'] ci) ! KEY_SLOT_CURRENT
      \<in> set (ctx_keys (packet_crypto_refresh_pqc_keys [ct_res s'] cr))
    \<and> ctx_keys (packet_crypto_refresh_pqc_keys [ct_res s'] cr) ! KEY_SLOT_CURRENT
      \<in> set (ctx_keys (packet_crypto_refresh_pqc_keys [ct_ini s'] ci))
    \<and> (pb_key_slots_valid (ct_ini s') ! KEY_SLOT_PREV \<and> pb_key_slots_valid (ct_res s') ! KEY_SLOT_PREV \<longrightarrow>
         pb_keys (ct_res s') ! KEY_SLOT_PREV \<in> set (ctx_keys (packet_crypto_refresh_pqc_keys [ct_ini s'] ci))
         \<and> (\<not> commit_open s' \<longrightarrow>
              pb_keys (ct_ini s') ! KEY_SLOT_PREV \<in> set (ctx_keys (packet_crypto_refresh_pqc_keys [ct_res s'] cr))))"
proof -
  have inv: "cut_inv lib kem_pair s'" "prev_ok s'" using cutover_reachable_inv [OF assms(2,1) _ assms(3)] assms(4) by blast+
  then have v: "pb_key_slots_valid (ct_ini s') ! 1" "pb_key_slots_valid (ct_res s') ! 1" by (simp_all add: cut_inv_def slots_ok_def key_slot_defs)
  have "ctx_keys (packet_crypto_refresh_pqc_keys [ct_ini s'] ci) ! 1 = cur_key (ct_ini s')"
    "ctx_keys (packet_crypto_refresh_pqc_keys [ct_res s'] cr) ! 1 = cur_key (ct_res s')"
    using refresh_slots [OF assms(5,6), of "[ct_ini s']" _ 1] refresh_slots [OF assms(8,9), of "[ct_res s']" _ 1] assms(7,10) v
    by (simp_all add: key_slot_defs)
  moreover note has_key_refreshed [OF inv_keys_shared(1) [OF inv(1)] assms(8-10)] has_key_refreshed [OF inv_keys_shared(2) [OF inv(1)] assms(5-7)]
  moreover note has_key_refreshed [OF inv_prev_shared(1) [OF inv] assms(5-7)] has_key_refreshed [OF inv_prev_shared(2) [OF inv] assms(8-10)]
  ultimately show ?thesis by (simp add: key_slot_defs)
qed

text \<open>C8: take a run of a pair from a state where both peers have the same CURRENT key and no rotation is under way, in which
  the network loses, delays, repeats, reorders and forges messages, and requests, timeouts, retries, keepalives and the
  deletion of previous keys interleave in any way, and in which the responder starts no session a second time (it does so only
  when a \<open>HELLO\<close> comes again after four later sessions have pushed its response out of the cache). In the last state of
  such a run the CURRENT key of each peer is in a slot of the packet context of the other, as the contexts are refreshed from the
  bindings of this state. A packet that was sealed before its sender's last promotion is under the sender's PREV key: as long as
  both peers keep their PREV keys, the initiator has the responder's, and the responder has the initiator's except while the
  responder is one key ahead, between its commit and that of the initiator.\<close>

theorem cutover_hitless:
  assumes "synced lib s" "(cutover_step lib kem_pair)\<^sup>*\<^sup>* s s'" "\<not> ct_replayed s'" "\<forall>x h. hl_sha256 lib x = Some h \<longrightarrow> length h = 32"
    and "ctx_wf ci" "ctx_pqc_from_handshake ci" "ctx_policy_id ci = pb_policy_id (ct_ini s')"
    and "ctx_wf cr" "ctx_pqc_from_handshake cr" "ctx_policy_id cr = pb_policy_id (ct_res s')"
  shows "ctx_keys (packet_crypto_refresh_pqc_keys [ct_ini s'] ci) ! KEY_SLOT_CURRENT
      \<in> set (ctx_keys (packet_crypto_refresh_pqc_keys [ct_res s'] cr))
    \<and> ctx_keys (packet_crypto_refresh_pqc_keys [ct_res s'] cr) ! KEY_SLOT_CURRENT
      \<in> set (ctx_keys (packet_crypto_refresh_pqc_keys [ct_ini s'] ci))
    \<and> (pb_key_slots_valid (ct_ini s') ! KEY_SLOT_PREV \<and> pb_key_slots_valid (ct_res s') ! KEY_SLOT_PREV \<longrightarrow>
         pb_keys (ct_res s') ! KEY_SLOT_PREV \<in> set (ctx_keys (packet_crypto_refresh_pqc_keys [ct_ini s'] ci))
         \<and> (\<not> commit_open s' \<longrightarrow>
              pb_keys (ct_ini s') ! KEY_SLOT_PREV \<in> set (ctx_keys (packet_crypto_refresh_pqc_keys [ct_res s'] cr))))"
  by (rule hitless [OF assms])

section \<open>A run to the middle of a rotation\<close>

definition toy_lib :: hs_lib where
  "toy_lib = \<lparr>hl_sha256 = (\<lambda>x. Some (take 32 (x @ replicate 32 0))), hl_dsa_sign = (\<lambda>priv digest. Some [1]),
     hl_dsa_verify = (\<lambda>pub digest sig. sig = [1]), hl_kem_decapsulate = (\<lambda>sk ct. Some (replicate 32 7))\<rparr>"

definition toy_env :: hs_env where
  "toy_env = \<lparr>he_now = 1000, he_encapsulate = (\<lambda>pk. Some ([5], replicate 32 7)), he_session_id = Some 9, he_request_id = Some 3,
     he_malloc_ok = True, he_send_ok = True\<rparr>"

definition toy_binding :: "bool \<Rightarrow> pqc_binding" where
  "toy_binding initiator = \<lparr>pb_policy_id = 4, pb_profile_id = 1, pb_keys = [replicate 32 0, replicate 32 2, replicate 32 0],
     pb_key_ids = [0, 1, 0], pb_key_slots_valid = [False, True, False], pb_key_ready = True,
     pb_encrypt_key = replicate 32 2, pb_decrypt_key = replicate 32 2, pb_local_priv = [81, 81, 61, 61, 0], pb_peer_pub = [81, 81, 61, 61, 0],
     pb_is_initiator = initiator, pb_is_tunnel = True, pb_hs_cache = replicate PQC_HS_CACHE_SLOTS hs_cache_zero, pb_hs_cache_next = 0,
     pb_rekey_requested = False, pb_handshake_give_up = False, pb_rotation_give_up = False, pb_giveup_logged = False, pb_send_poke = False,
     pb_keepalive_enabled = True, pb_keepalive_send_now = False, pb_last_sent_time = 0, pb_last_recv_time = 0, pb_handshake_start_time = 0,
     pb_rotation_start_time = 0, pb_local_request_id = 0, pb_local_keepalive_seq = 0, pb_peer_keepalive_epoch = 0, pb_peer_keepalive_seq = 0,
     pb_keepalive_monitor_start_time = 0, pb_last_keepalive_rx_time = 0, pb_next_auto_retry_time = 0, pb_prev_discard_after_ms = 0\<rparr>"

definition toy_msg :: "u8 \<Rightarrow> buf \<Rightarrow> pqc_hs_msg" where
  "toy_msg ty d = \<lparr>hm_magic = PQC_HS_MAGIC, hm_msg_type = ty, hm_session_id = 9, hm_policy_id = 4, hm_sig_len = 1,
     hm_data_len = of_nat (length d), hm_payload = d @ [1]\<rparr>"

abbreviation "toy_hello \<equiv> toy_msg PQC_HS_MSG_HELLO [6]"
abbreviation "toy_resp \<equiv> toy_msg PQC_HS_MSG_RESP [5]"
abbreviation "toy_ready \<equiv> toy_msg PQC_HS_MSG_READY []"
abbreviation "toy_commit \<equiv> toy_msg PQC_HS_MSG_COMMIT []"

definition toy_start :: cutover where
  "toy_start = \<lparr>ct_ini = toy_binding True, ct_phase = Idle, ct_res = toy_binding False, ct_sent_ini = {}, ct_sent_res = {},
     ct_secret = Map.empty, ct_key = Map.empty, ct_done = {}, ct_used = {replicate 32 2}, ct_replayed = False\<rparr>"

definition ini1 :: pqc_binding where "ini1 = (toy_binding True)\<lparr>pb_rekey_requested := True\<rparr>"
definition ini2 :: pqc_binding where "ini2 = ini1\<lparr>pb_rotation_start_time := 500\<rparr>"
definition ini3 :: pqc_binding where "ini3 = snd (pqc_hs_stage_next_key (replicate 32 7) ini2)"
definition hello_hash :: buf where "hello_hash = take 32 (hs_msg_bytes toy_hello @ replicate 32 0)"
definition res1 :: pqc_binding where
  "res1 = store_response toy_resp 9 hello_hash (replicate 32 7) True (snd (pqc_hs_stage_next_key (replicate 32 7) (toy_binding False)))"
definition ini4 :: pqc_binding where "ini4 = snd (pqc_hs_promote_staged_key 1000 ini3)"
definition res2 :: pqc_binding where "res2 = mark_promoted 0 (snd (pqc_hs_promote_staged_key 1000 res1))"

lemmas toy_defs = toy_lib_def toy_env_def toy_binding_def toy_msg_def ini1_def ini2_def ini3_def res1_def res2_def hello_hash_def

lemma toy_pub: "pub_of (toy_binding x) [65]" "pub_of ini2 [65]" "pub_of res1 [65]"
  by (cases x; code_simp) code_simp+

lemma toy_request: "sig_pqc_request_new_session 4 [toy_binding True] = (0, [ini1])"
  by code_simp

lemma toy_hello_signed: "hs_signed toy_lib [65] PQC_HS_MSG_HELLO 9 4 [6] = Some (toy_hello, 1)"
  by code_simp

lemma toy_hello_valid: "pqc_hs_validate_message (hs_msg_bytes toy_hello) 19 = Some (Some toy_hello)"
  and toy_hello_verified: "pqc_hs_verify_message toy_lib [65] toy_hello"
  and toy_hello_hash: "hl_sha256 toy_lib (take 19 (hs_msg_bytes toy_hello)) = Some hello_hash"
  and toy_encapsulated: "he_encapsulate toy_env (hm_data toy_hello) = Some ([5], replicate 32 7)"
  and toy_derived: "derive_traffic_key toy_lib (replicate 32 7) = Some (replicate 32 7)"
  and toy_resp_signed: "hs_signed toy_lib [65] PQC_HS_MSG_RESP 9 4 [5] = Some (toy_resp, 1)"
  and toy_resp_cached: "pqc_hs_send_cached_response toy_env res1 0 9 hello_hash = (0, res1, [toy_resp])"
  and toy_not_cached: "cache_slot_of (toy_binding False) (\<lambda>e. hc_valid e \<and> hc_session_id e = 9) = None"
  by code_simp+

lemma toy_hello_handled:
  "pqc_hs_handle_l3_responder_hello toy_lib toy_env (toy_binding False) (hs_msg_bytes toy_hello) 19 = Some (0, res1, [toy_resp])"
proof -
  let ?b = "toy_binding False" and ?s = "pqc_hs_stage_next_key (replicate 32 7) (toy_binding False)"
  have f: "hm_magic toy_hello = PQC_HS_MAGIC" "hm_msg_type toy_hello = PQC_HS_MSG_HELLO" "hm_policy_id toy_hello = of_int (pb_policy_id ?b)"
    "hm_session_id toy_hello = 9" "c_strlen (pb_local_priv ?b) \<noteq> 0" "c_strlen (pb_peer_pub ?b) \<noteq> 0"
    "trf_base64_decode (pb_local_priv ?b) RAW_KEY_SZ = Some [65]" "trf_base64_decode (pb_peer_pub ?b) RAW_KEY_SZ = Some [65]"
    "pb_policy_id ?b = 4" "pb_key_ready ?b" "he_malloc_ok toy_env"
    by code_simp+
  have "fst ?s = 0" by code_simp
  then obtain s where s: "?s = (0, s)" by (metis prod.collapse)
  have n: "pb_hs_cache_next (snd ?s) = 0" by code_simp
  have l: "\<not> PQC_HS_HDR_SZ + length [5::u8] + 1 > PQC_HS_MSG_MAX_SZ" by (simp add: PQC_HS_HDR_SZ_def PQC_HS_MSG_MAX_SZ_def)
  have "(9::u32) \<noteq> 0" "(0::int) = 0" by simp_all
  then have "pqc_hs_handle_l3_responder_hello toy_lib toy_env ?b (hs_msg_bytes toy_hello) 19 =
      Some (pqc_hs_send_cached_response toy_env (store_response toy_resp 9 hello_hash (replicate 32 7) True s) (pb_hs_cache_next s) 9 hello_hash)"
    unfolding pqc_hs_handle_l3_responder_hello_def
    by (simp only: toy_hello_valid Option.bind.bind_lunit option.simps f toy_hello_hash toy_not_cached toy_hello_verified toy_encapsulated
        toy_resp_signed toy_derived simp_thms if_False if_True Let_def l s prod.case)
  then show ?thesis using toy_resp_cached n by (simp only: res1_def s snd_conv)
qed

lemma toy_resp_valid: "pqc_hs_validate_message (hs_msg_bytes toy_resp) 19 = Some (Some toy_resp)"
  and toy_resp_handled: "rotation_on_resp toy_lib [6] 9 ini2 (hs_msg_bytes toy_resp) 19 = Some (True, ini3)"
  by code_simp+

lemma toy_control_signed: "hs_signed toy_lib [65] ty 9 4 [] = Some (toy_msg ty [], 1)"
  by (simp add: hs_signed_def pqc_hs_sign_message_def pqc_hs_transcript_hash_def toy_lib_def toy_msg_def PQC_HS_HDR_SZ_def PQC_HS_MSG_MAX_SZ_def)

lemma toy_control_sent:
  assumes "ty \<in> {PQC_HS_MSG_READY, PQC_HS_MSG_COMMIT}" "pb_policy_id b = 4" "trf_base64_decode (pb_local_priv b) RAW_KEY_SZ = Some [65]"
  shows "pqc_hs_send_cutover_control toy_lib toy_env b ty 9 = Some (0, [toy_msg ty []])"
  using assms by (auto simp: pqc_hs_send_cutover_control_def toy_control_signed toy_env_def)

lemma toy_ready_sent: "pqc_hs_send_cutover_control toy_lib toy_env ini3 PQC_HS_MSG_READY 9 = Some (0, [toy_ready])"
  by (rule toy_control_sent; (simp; fail)?) code_simp+

lemma toy_ready_handled: "pqc_hs_handle_ready toy_lib toy_env res1 toy_ready = Some (0, res2, [toy_commit])"
proof -
  let ?e = "pb_hs_cache res1 ! 0" and ?p = "pqc_hs_promote_staged_key 1000 res1"
  have ver: "pqc_hs_verify_cutover_control toy_lib res1 toy_ready PQC_HS_MSG_READY 9 = Some 0" by code_simp
  have slot: "cache_slot_of res1 (\<lambda>e. hc_valid e \<and> hc_requires_commit e \<and> hc_session_id e = 9) = Some 0" by code_simp
  have e: "\<not> hc_key_promoted ?e" "pb_key_slots_valid res1 ! KEY_SLOT_NEXT" "pb_keys res1 ! KEY_SLOT_NEXT = hc_master_key ?e" by code_simp+
  have "fst ?p = 0" by code_simp
  then obtain s where s: "?p = (0, s)" by (metis prod.collapse)
  have sent: "pqc_hs_send_cutover_control toy_lib toy_env res2 PQC_HS_MSG_COMMIT 9 = Some (0, [toy_commit])"
    by (rule toy_control_sent; (simp; fail)?) code_simp+
  have id: "hm_session_id toy_ready = 9" "he_now toy_env = 1000" by (simp_all add: toy_msg_def toy_env_def)
  have r: "res2 = s\<lparr>pb_hs_cache := (pb_hs_cache s)[0 := (pb_hs_cache s ! 0)\<lparr>hc_key_promoted := True, hc_master_key := replicate 32 0\<rparr>]\<rparr>"
    by (simp add: res2_def mark_promoted_def s)
  show ?thesis
    unfolding pqc_hs_handle_ready_def
    by (simp only: id ver slot e s r [symmetric] sent Option.bind.bind_lunit option.simps simp_thms if_False if_True Let_def prod.case)
qed

definition toy_mid :: cutover where
  "toy_mid = \<lparr>ct_ini = ini3, ct_phase = WaitCommit 9, ct_res = res2, ct_sent_ini = {toy_hello, toy_ready}, ct_sent_res = {toy_resp, toy_commit},
     ct_secret = [9 \<mapsto> [6]], ct_key = [9 \<mapsto> replicate 32 7], ct_done = {9}, ct_used = {replicate 32 2}, ct_replayed = False\<rparr>"

lemma toy_cache:
  "pb_hs_cache_next (toy_binding False) = 0" "pb_hs_cache_next res1 = 1"
  "pb_hs_cache res1 ! 0 = \<lparr>hc_response = Some toy_resp, hc_session_id = 9, hc_hello_hash = hello_hash, hc_master_key = replicate 32 7,
     hc_valid = True, hc_key_promoted = False, hc_requires_commit = True\<rparr>"
  "map hc_session_id (pb_hs_cache res2) = [9, 0, 0, 0]"
  "map (\<lambda>e. hc_valid e \<and> hc_key_promoted e) (pb_hs_cache res2) = [True, False, False, False]"
  by code_simp+

lemma toy_noted: "note_key (toy_binding False) res1 Map.empty = [9 \<mapsto> replicate 32 7]"
  by (simp add: note_key_def toy_cache Let_def)

lemma toy_promoted: "promoted_sessions res2 = {9}"
proof -
  have "length (pb_hs_cache res2) = 4" using arg_cong [OF toy_cache(4), of length] by simp
  then obtain a b c d where c: "pb_hs_cache res2 = [a, b, c, d]" by (auto simp: length_Suc_conv eval_nat_numeral)
  then show ?thesis using toy_cache(4,5) by (auto simp: promoted_sessions_def)
qed

lemma toy_fresh: "fresh_encap toy_lib toy_env (toy_start\<lparr>ct_ini := b, ct_phase := p, ct_sent_ini := M, ct_secret := S\<rparr>) (hs_msg_bytes toy_hello) 19"
proof -
  have "fresh_key toy_lib (toy_start\<lparr>ct_ini := b, ct_phase := p, ct_sent_ini := M, ct_secret := S\<rparr>) (replicate 32 7)"
    by (simp add: fresh_key_def toy_start_def toy_lib_def toy_binding_def key_slot_defs PQC_TRAFFIC_KEY_SZ_def)
  then show ?thesis by (auto simp: fresh_encap_def toy_hello_valid toy_encapsulated toy_derived)
qed

lemma step_to: "cutover_step lib kem_pair s t \<Longrightarrow> t = t' \<Longrightarrow> cutover_step lib kem_pair s t'"
  by simp

lemma toy_arrives: "m \<in> sent \<Longrightarrow> pqc_hs_validate_message b n = Some (Some m) \<Longrightarrow> can_arrive lib pub sent b n"
  by (simp add: can_arrive_def)

abbreviation "toy_step \<equiv> cutover_step toy_lib (\<lambda>pk sk. pk = sk)"
abbreviation "toy2 \<equiv> toy_start\<lparr>ct_ini := ini2, ct_phase := WaitResp 9, ct_sent_ini := {toy_hello}, ct_secret := [9 \<mapsto> [6]]\<rparr>"
abbreviation "toy3 \<equiv> toy2\<lparr>ct_res := res1, ct_sent_res := {toy_resp}, ct_key := [9 \<mapsto> replicate 32 7]\<rparr>"
abbreviation "toy4 \<equiv> toy3\<lparr>ct_ini := ini3, ct_phase := WaitCommit 9\<rparr>"
abbreviation "toy5 \<equiv> toy4\<lparr>ct_sent_ini := {toy_hello, toy_ready}\<rparr>"

lemma toy_step1: "toy_step toy_start (toy_start\<lparr>ct_ini := ini1\<rparr>)"
  by (rule rekey_request) (use toy_request in \<open>simp add: toy_start_def\<close>)

lemma toy_step2: "toy_step (toy_start\<lparr>ct_ini := ini1\<rparr>) toy2"
proof (rule step_to [OF hello_sent [OF _ _ _ _ refl]])
  show "hs_signed toy_lib [65] PQC_HS_MSG_HELLO 9 (pb_policy_id (ct_ini (toy_start\<lparr>ct_ini := ini1\<rparr>))) [6] = Some (toy_hello, 1)"
    using toy_hello_signed by (simp add: ini1_def toy_binding_def)
qed (simp_all add: toy_start_def ini1_def ini2_def toy_binding_def)

lemma toy_step3: "toy_step toy2 toy3"
proof (rule step_to [OF hello_received])
  show "pub_of (ct_res toy2) [65]" using toy_pub(1) by (simp add: toy_start_def)
  show "can_arrive toy_lib [65] (ct_sent_ini toy2) (hs_msg_bytes toy_hello) 19" by (rule toy_arrives [OF _ toy_hello_valid]) simp
  show "encap_ok toy_lib (\<lambda>pk sk. pk = sk) toy_env" by (simp add: encap_ok_def toy_lib_def toy_env_def)
  show "fresh_encap toy_lib toy_env toy2 (hs_msg_bytes toy_hello) 19" by (rule toy_fresh)
  show "pqc_hs_handle_l3_responder_hello toy_lib toy_env (ct_res toy2) (hs_msg_bytes toy_hello) 19 = Some (0, res1, [toy_resp])"
    using toy_hello_handled by (simp add: toy_start_def)
qed (simp add: toy_start_def toy_noted session_again_def)

lemma toy_step4: "toy_step toy3 toy4"
proof (rule step_to [OF resp_received])
  show "can_arrive toy_lib [65] (ct_sent_res toy3) (hs_msg_bytes toy_resp) 19" by (rule toy_arrives [OF _ toy_resp_valid]) simp
  show "rotation_on_resp toy_lib [6] 9 (ct_ini toy3) (hs_msg_bytes toy_resp) 19 = Some (True, ini3)" using toy_resp_handled by simp
qed (use toy_pub(2) in simp_all)

lemma toy_step5: "toy_step toy4 toy5"
  by (rule step_to [OF ready_sent [of _ 9 toy_lib toy_env]]) (use toy_ready_sent in \<open>auto simp: insert_commute\<close>)

lemma toy_step6: "toy_step toy5 toy_mid"
proof (rule step_to [OF ready_received])
  show "pqc_hs_handle_ready toy_lib toy_env (ct_res toy5) toy_ready = Some (0, res2, [toy_commit])" using toy_ready_handled by simp
  show "msg_can_arrive toy_lib [65] (ct_sent_ini toy5) toy_ready" by (simp add: msg_can_arrive_def)
qed (use toy_pub(3) in \<open>simp_all add: toy_promoted toy_mid_def toy_start_def insert_commute\<close>)

lemma toy_run: "toy_step\<^sup>*\<^sup>* toy_start toy_mid"
  apply (rule converse_rtranclp_into_rtranclp, rule toy_step1)
  apply (rule converse_rtranclp_into_rtranclp, rule toy_step2)
  apply (rule converse_rtranclp_into_rtranclp, rule toy_step3)
  apply (rule converse_rtranclp_into_rtranclp, rule toy_step4)
  apply (rule converse_rtranclp_into_rtranclp, rule toy_step5)
  apply (rule r_into_rtranclp, rule toy_step6)
  done

text \<open>The initiator gets the commit: both peers have the new key, and the old one in PREV.\<close>

lemma toy_commit_valid: "pqc_hs_validate_message (hs_msg_bytes toy_commit) 18 = Some (Some toy_commit)"
  and toy_commit_verified: "pqc_hs_verify_cutover_control toy_lib ini3 toy_commit PQC_HS_MSG_COMMIT 9 = Some 0"
  and toy_commit_pub: "trf_base64_decode (pb_peer_pub ini3) RAW_KEY_SZ = Some [65]"
  and toy_end_keys: "pb_keys ini4 = [replicate 32 2, replicate 32 7, replicate 32 0]" "pb_key_slots_valid ini4 = [True, True, False]"
    "pb_keys res2 = [replicate 32 2, replicate 32 7, replicate 32 0]" "pb_key_slots_valid res2 = [True, True, False]"
  by code_simp+

lemma toy_commit_handled: "commit_on_rx toy_lib toy_env 9 ini3 (hs_msg_bytes toy_commit) 18 = Some (True, ini4)"
proof -
  have "hm_msg_type toy_commit = PQC_HS_MSG_COMMIT" "hm_session_id toy_commit = 9" "he_now toy_env = 1000"
    by (simp_all add: toy_msg_def toy_env_def)
  then show ?thesis
    by (simp add: commit_on_rx_def toy_commit_valid toy_commit_verified ini4_def split: prod.split)
qed

definition toy_end :: cutover where
  "toy_end = toy_mid\<lparr>ct_ini := ini4, ct_phase := Idle, ct_used := {replicate 32 7, replicate 32 2}\<rparr>"

lemma toy_step7: "toy_step toy_mid toy_end"
proof (rule step_to [OF commit_received])
  show "commit_on_rx toy_lib toy_env 9 (ct_ini toy_mid) (hs_msg_bytes toy_commit) 18 = Some (True, ini4)"
    using toy_commit_handled by (simp add: toy_mid_def)
  show "can_arrive toy_lib [65] (ct_sent_res toy_mid) (hs_msg_bytes toy_commit) 18"
    by (rule toy_arrives [OF _ toy_commit_valid]) (simp add: toy_mid_def)
  show "pub_of (ct_ini toy_mid) [65]" using toy_commit_pub by (simp add: pub_of_def toy_mid_def)
qed (simp_all add: toy_end_def toy_mid_def toy_end_keys key_slot_defs)

lemma toy_synced: "synced toy_lib toy_start"
  by (simp add: synced_def toy_start_def toy_binding_def slots_ok_def key_slot_defs)

definition toy_ctx :: packet_crypto_ctx where
  "toy_ctx = (example_ctx 0 2 0)\<lparr>ctx_pqc_from_handshake := True, ctx_policy_id := 4\<rparr>"

text \<open>In the middle of the run the CURRENT keys of the peers differ, and each peer still holds the other's; at its end both
  hold the key that was CURRENT before.\<close>

theorem cutover_hitless_witness:
  "cur_key (ct_ini toy_mid) = replicate 32 2 \<and> cur_key (ct_res toy_mid) = replicate 32 7
   \<and> ctx_keys (packet_crypto_refresh_pqc_keys [ct_ini toy_mid] toy_ctx) ! KEY_SLOT_CURRENT
       \<in> set (ctx_keys (packet_crypto_refresh_pqc_keys [ct_res toy_mid] toy_ctx))
   \<and> ctx_keys (packet_crypto_refresh_pqc_keys [ct_res toy_mid] toy_ctx) ! KEY_SLOT_CURRENT
       \<in> set (ctx_keys (packet_crypto_refresh_pqc_keys [ct_ini toy_mid] toy_ctx))
   \<and> replicate 32 2 \<in> set (ctx_keys (packet_crypto_refresh_pqc_keys [ct_ini toy_end] toy_ctx))
   \<and> replicate 32 2 \<in> set (ctx_keys (packet_crypto_refresh_pqc_keys [ct_res toy_end] toy_ctx))"
proof -
  have cur: "cur_key (ct_ini toy_mid) = replicate 32 2" "cur_key (ct_res toy_mid) = replicate 32 7"
    unfolding toy_mid_def cutover.simps by code_simp+
  have "pb_policy_id ini3 = 4" "pb_policy_id ini4 = 4" "pb_policy_id res2 = 4" by code_simp+
  then have pid: "ctx_policy_id toy_ctx = pb_policy_id (ct_ini toy_mid)" "ctx_policy_id toy_ctx = pb_policy_id (ct_res toy_mid)"
    "ctx_policy_id toy_ctx = pb_policy_id (ct_ini toy_end)" "ctx_policy_id toy_ctx = pb_policy_id (ct_res toy_end)"
    by (simp_all add: toy_mid_def toy_end_def toy_ctx_def)
  have wf: "ctx_wf toy_ctx" "ctx_pqc_from_handshake toy_ctx" using example_ctx_wf [of 0 2 0] by (simp_all add: toy_ctx_def ctx_wf_def)
  have sha: "\<forall>x h. hl_sha256 toy_lib x = Some h \<longrightarrow> length h = 32" by (auto simp: toy_lib_def)
  have once: "\<not> ct_replayed toy_mid" "\<not> ct_replayed toy_end" by (simp_all add: toy_mid_def toy_end_def)
  have run: "toy_step\<^sup>*\<^sup>* toy_start toy_end" using toy_run toy_step7 by (rule rtranclp.rtrancl_into_rtrancl)
  have "\<not> commit_open toy_end" by (simp add: commit_open_def toy_end_def)
  moreover have "pb_keys (ct_res toy_end) ! KEY_SLOT_PREV = replicate 32 2" "pb_keys (ct_ini toy_end) ! KEY_SLOT_PREV = replicate 32 2"
    "pb_key_slots_valid (ct_ini toy_end) ! KEY_SLOT_PREV" "pb_key_slots_valid (ct_res toy_end) ! KEY_SLOT_PREV"
    by (simp_all add: toy_end_def toy_mid_def toy_end_keys key_slot_defs)
  ultimately show ?thesis
    using cutover_hitless [OF toy_synced toy_run once(1) sha wf pid(1) wf pid(2)]
      cutover_hitless [OF toy_synced run once(2) sha wf pid(3) wf pid(4)] cur by simp
qed

end
