(* ===== verification/Crypto_Runtime.thy ===== *)
theory Crypto_Runtime
  imports Pqc_Handshake Option_Router
begin

text \<open>
  The crypto runtime of \<open>src/core/forwarder/crypto_runtime.c\<close>: the packet contexts of the active policies, the
  private copies of the crypto workers and the generation counter that tells when to renew them, the tables from wire
  ids to policies, the grace period after a reload in which the wire ids of the previous configuration still resolve,
  and the lifetime of session keys. The mutex makes each operation one step; the clock is read once per operation and
  is an argument, as are the bindings of the key exchange. An array with its count is a list of the array's size and
  the count. Not represented are the diagnostics and the policies of the ARP bridge that a rebuild renews.
\<close>

section \<open>State\<close>

definition FWD_CRYPTO_PROFILE_RELOAD_GRACE_MS :: u64 where "FWD_CRYPTO_PROFILE_RELOAD_GRACE_MS = 3000"
definition NE_PQC_KEY_LIFETIME_MS :: u64 where "NE_PQC_KEY_LIFETIME_MS = 30 * 24 * 60 * 60 * 1000"

text \<open>The static variables of the file.\<close>

record crypto_runtime =
  rt_ctx :: "packet_crypto_ctx list"
  rt_worker_ctx :: "nat \<Rightarrow> packet_crypto_ctx list"
  rt_ready :: "bool list"
  rt_worker_prev_ctx :: "nat \<Rightarrow> packet_crypto_ctx list"
  rt_generation :: u32
  rt_index_by_wire_id :: "u8 \<Rightarrow> int"
  rt_profile_by_wire_id :: "u8 \<Rightarrow> int"
  rt_policies :: "crypto_policy list"
  rt_count :: nat
  rt_prev_ctx :: "packet_crypto_ctx list"
  rt_prev_ready :: "bool list"
  rt_prev_index_by_wire_id :: "u8 \<Rightarrow> int"
  rt_prev_profile_by_wire_id :: "u8 \<Rightarrow> int"
  rt_prev_policies :: "crypto_policy list"
  rt_prev_count :: nat
  rt_prev_grace_active :: bool
  rt_prev_grace_until_ms :: u64

text \<open>The thread-local variables.\<close>

record crypto_tls =
  tls_policy_crypto_worker :: int
  tls_policy_crypto_generation :: u32

section \<open>Private copies of the workers\<close>

definition policy_crypto_publish :: "crypto_runtime \<Rightarrow> crypto_runtime" where
  "policy_crypto_publish rt = rt\<lparr>rt_generation := rt_generation rt + 1\<rparr>"

definition valid_worker :: "int \<Rightarrow> bool" where
  "valid_worker w \<longleftrightarrow> 0 \<le> w \<and> w < int NE_CRYPTO_WORKERS"

definition policy_crypto_sync_worker :: "int \<Rightarrow> crypto_runtime \<Rightarrow> crypto_tls \<Rightarrow> crypto_runtime \<times> crypto_tls" where
  "policy_crypto_sync_worker worker_idx rt tls =
     (if \<not> valid_worker worker_idx then (rt, tls)
      else if tls_policy_crypto_worker tls = worker_idx \<and> tls_policy_crypto_generation tls = rt_generation rt then (rt, tls)
      else (rt\<lparr>rt_worker_ctx := (rt_worker_ctx rt)(nat worker_idx := rt_ctx rt),
               rt_worker_prev_ctx := (rt_worker_prev_ctx rt)(nat worker_idx := rt_prev_ctx rt)\<rparr>,
            tls\<lparr>tls_policy_crypto_worker := worker_idx, tls_policy_crypto_generation := rt_generation rt\<rparr>))"

definition policy_crypto_ctx_for_worker :: "int \<Rightarrow> nat \<Rightarrow> bool \<Rightarrow> crypto_runtime \<Rightarrow> crypto_tls
    \<Rightarrow> packet_crypto_ctx \<times> crypto_runtime \<times> crypto_tls" where
  "policy_crypto_ctx_for_worker worker_idx policy_index previous rt tls =
     (if \<not> valid_worker worker_idx
      then ((if previous then rt_prev_ctx rt else rt_ctx rt) ! policy_index, rt, tls)
      else case policy_crypto_sync_worker worker_idx rt tls of (rt, tls) \<Rightarrow>
        ((if previous then rt_worker_prev_ctx rt (nat worker_idx) else rt_worker_ctx rt (nat worker_idx)) ! policy_index, rt, tls))"

section \<open>Lifetime of a key\<close>

definition ne_key_nonzero :: "buf \<Rightarrow> nat \<Rightarrow> bool" where
  "ne_key_nonzero key len = list_ex (\<lambda>i. key ! i \<noteq> 0) [0..<len]"

definition ne_wipe_key :: "buf \<Rightarrow> nat \<Rightarrow> buf" where
  "ne_wipe_key key len = replicate len 0 @ drop len key"

definition ne_pqc_start_lifetime_clock :: "u64 \<Rightarrow> packet_crypto_ctx \<Rightarrow> packet_crypto_ctx" where
  "ne_pqc_start_lifetime_clock now ctx =
     ctx\<lparr>ctx_pqc_timed_key := ctx_keys ctx ! KEY_SLOT_CURRENT, ctx_pqc_key_in_use_ms := now, ctx_pqc_rekey_sent := False\<rparr>"

definition ne_pqc_on_key_material :: "u64 \<Rightarrow> packet_crypto_ctx \<Rightarrow> packet_crypto_ctx" where
  "ne_pqc_on_key_material now ctx =
     (if \<not> ctx_pqc_from_handshake ctx then ctx
      else if \<not> ne_key_nonzero (ctx_keys ctx ! KEY_SLOT_CURRENT) PQC_TRAFFIC_KEY_SZ
      then ctx\<lparr>ctx_pqc_key_in_use_ms := 0, ctx_pqc_rekey_sent := False,
               ctx_pqc_timed_key := ne_wipe_key (ctx_pqc_timed_key ctx) PQC_TRAFFIC_KEY_SZ\<rparr>
      else if ctx_keys ctx ! KEY_SLOT_CURRENT = ctx_pqc_timed_key ctx then ctx
      else ne_pqc_start_lifetime_clock now ctx)"

definition fwd_crypto_profile_slot_for_id :: "int \<Rightarrow> int" where
  "fwd_crypto_profile_slot_for_id profile_id = (if profile_id > 0 then 0 else -1)"

definition fwd_crypto_maybe_expire_prev_grace :: "u64 \<Rightarrow> crypto_runtime \<Rightarrow> crypto_runtime" where
  "fwd_crypto_maybe_expire_prev_grace now rt =
     (if \<not> rt_prev_grace_active rt then rt
      else if now \<ge> rt_prev_grace_until_ms rt then rt\<lparr>rt_prev_grace_active := False\<rparr> else rt)"

definition first_ready :: "crypto_runtime \<Rightarrow> (packet_crypto_ctx \<Rightarrow> bool) \<Rightarrow> nat option" where
  "first_ready rt P = find (\<lambda>i. rt_ready rt ! i \<and> P (rt_ctx rt ! i)) [0..<rt_count rt]"

definition upd_ctx :: "nat \<Rightarrow> (packet_crypto_ctx \<Rightarrow> packet_crypto_ctx) \<Rightarrow> crypto_runtime \<Rightarrow> crypto_runtime" where
  "upd_ctx i f rt = rt\<lparr>rt_ctx := (rt_ctx rt)[i := f (rt_ctx rt ! i)]\<rparr>"

definition fwd_crypto_discard_pqc_prev_key :: "int \<Rightarrow> crypto_runtime \<Rightarrow> pqc_binding list \<Rightarrow> crypto_runtime \<times> pqc_binding list" where
  "fwd_crypto_discard_pqc_prev_key policy_id rt bindings =
     (case first_ready rt (\<lambda>c. ctx_policy_id c = policy_id) of
        None \<Rightarrow> (rt, bindings)
      | Some i \<Rightarrow>
          if ne_key_nonzero (ctx_keys (rt_ctx rt ! i) ! KEY_SLOT_PREV) PQC_TRAFFIC_KEY_SZ
          then (policy_crypto_publish (upd_ctx i (\<lambda>c. c\<lparr>ctx_keys := (ctx_keys c)[KEY_SLOT_PREV :=
                    ne_wipe_key (ctx_keys c ! KEY_SLOT_PREV) PQC_TRAFFIC_KEY_SZ]\<rparr>) rt),
                sig_pqc_discard_prev_key policy_id bindings)
          else (rt, bindings))"

text \<open>The two loops of \<open>fwd_crypto_pqc_key_lifetime_tick\<close>: one context of the first, one request of the second.\<close>

definition lifetime_tick_ctx :: "u64 \<Rightarrow> bool \<Rightarrow> packet_crypto_ctx \<Rightarrow> packet_crypto_ctx \<times> (int \<times> u64) list" where
  "lifetime_tick_ctx now ready ctx =
     (let started = ctx_pqc_key_in_use_ms ctx in
      if \<not> ready \<or> \<not> ctx_pqc_from_handshake ctx then (ctx, [])
      else if started = 0 then
        (if \<not> ne_key_nonzero (ctx_keys ctx ! KEY_SLOT_CURRENT) PQC_TRAFFIC_KEY_SZ then ctx
         else ne_pqc_start_lifetime_clock now ctx, [])
      else if now < started \<or> now - started < NE_PQC_KEY_LIFETIME_MS then (ctx, [])
      else if ctx_pqc_rekey_sent ctx then (ctx, [])
      else (ctx\<lparr>ctx_pqc_rekey_sent := True\<rparr>, [(ctx_policy_id ctx, started)]))"

definition lifetime_request :: "int \<times> u64 \<Rightarrow> crypto_runtime \<times> pqc_binding list \<Rightarrow> crypto_runtime \<times> pqc_binding list" where
  "lifetime_request rq s = (case s of (rt, bindings) \<Rightarrow>
     case sig_pqc_request_new_session (fst rq) bindings of (rc, bindings) \<Rightarrow>
       if rc = 0 then (rt, bindings)
       else case first_ready rt (\<lambda>c. ctx_policy_id c = fst rq \<and> ctx_pqc_key_in_use_ms c = snd rq) of
           None \<Rightarrow> (rt, bindings)
         | Some i \<Rightarrow> (upd_ctx i (\<lambda>c. c\<lparr>ctx_pqc_rekey_sent := False\<rparr>) rt, bindings))"

definition lifetime_ticked :: "u64 \<Rightarrow> crypto_runtime \<Rightarrow> nat \<Rightarrow> packet_crypto_ctx \<times> (int \<times> u64) list" where
  "lifetime_ticked now rt i = lifetime_tick_ctx now (rt_ready rt ! i) (rt_ctx rt ! i)"

definition fwd_crypto_pqc_key_lifetime_tick :: "u64 \<Rightarrow> crypto_runtime \<Rightarrow> pqc_binding list \<Rightarrow> crypto_runtime \<times> pqc_binding list" where
  "fwd_crypto_pqc_key_lifetime_tick now rt bindings =
     (let requests = concat (map (\<lambda>i. snd (lifetime_ticked now rt i)) [0..<rt_count rt]);
          rt = rt\<lparr>rt_ctx := map (\<lambda>i. if i < rt_count rt then fst (lifetime_ticked now rt i) else rt_ctx rt ! i) [0..<length (rt_ctx rt)]\<rparr>
      in fold lifetime_request requests (rt, bindings))"

text \<open>What \<open>fwd_crypto_format_pqc_key_times\<close> prints.\<close>

datatype pqc_key_times = NO_SUCH_POLICY | NO_ENCRYPT | KEY_TIMES u64 u64 u64

definition crypto_policy_is_encrypt :: "crypto_policy \<Rightarrow> bool" where
  "crypto_policy_is_encrypt cp \<longleftrightarrow> cp_action cp = Policy_Config.POLICY_ACTION_ENCRYPT_L2"

definition pqc_key_remaining :: "u64 \<Rightarrow> bool \<Rightarrow> u64 \<Rightarrow> u64" where
  "pqc_key_remaining now has_key started =
     (if \<not> has_key then 0
      else if started = 0 then NE_PQC_KEY_LIFETIME_MS
      else if now \<ge> started \<and> now - started \<ge> NE_PQC_KEY_LIFETIME_MS then 0
      else NE_PQC_KEY_LIFETIME_MS - (if now > started then now - started else 0))"

definition fwd_crypto_format_pqc_key_times :: "u64 \<Rightarrow> int \<Rightarrow> crypto_runtime \<Rightarrow> pqc_key_times" where
  "fwd_crypto_format_pqc_key_times now policy_id rt =
     (if policy_id \<le> 0 then NO_SUCH_POLICY
      else case find (\<lambda>i. cp_db_id (rt_policies rt ! i) = policy_id \<or> ctx_policy_id (rt_ctx rt ! i) = policy_id) [0..<rt_count rt] of
          None \<Rightarrow> NO_SUCH_POLICY
        | Some i \<Rightarrow>
            if \<not> crypto_policy_is_encrypt (rt_policies rt ! i) then NO_ENCRYPT
            else
              let ctx = rt_ctx rt ! i;
                  has_key = (rt_ready rt ! i \<and> ctx_pqc_from_handshake ctx
                             \<and> ne_key_nonzero (ctx_keys ctx ! KEY_SLOT_CURRENT) PQC_TRAFFIC_KEY_SZ);
                  rem_ms = pqc_key_remaining now has_key (if has_key then ctx_pqc_key_in_use_ms ctx else 0);
                  rem_ms = (rem_ms + 59999) div 60000 * 60000
              in KEY_TIMES (rem_ms div (24 * 60 * 60 * 1000)) (rem_ms div (60 * 60 * 1000) mod 24) (rem_ms div (60 * 1000) mod 60))"

section \<open>Reload\<close>

definition fwd_crypto_clear_grace :: "crypto_runtime \<Rightarrow> crypto_runtime" where
  "fwd_crypto_clear_grace rt = rt\<lparr>rt_prev_grace_active := False\<rparr>"

definition fwd_crypto_snapshot_active_to_prev :: "u64 \<Rightarrow> crypto_runtime \<Rightarrow> crypto_runtime" where
  "fwd_crypto_snapshot_active_to_prev now rt = policy_crypto_publish
     (rt\<lparr>rt_prev_ctx := rt_ctx rt, rt_prev_ready := rt_ready rt, rt_prev_index_by_wire_id := rt_index_by_wire_id rt,
         rt_prev_profile_by_wire_id := rt_profile_by_wire_id rt, rt_prev_policies := rt_policies rt, rt_prev_count := rt_count rt,
         rt_prev_grace_active := rt_count rt > 0, rt_prev_grace_until_ms := now + FWD_CRYPTO_PROFILE_RELOAD_GRACE_MS\<rparr>)"

definition load_keys :: "u64 \<Rightarrow> pqc_binding list \<Rightarrow> packet_crypto_ctx \<Rightarrow> packet_crypto_ctx" where
  "load_keys now bindings ctx = ne_pqc_on_key_material now (packet_crypto_refresh_pqc_keys bindings ctx)"

definition forwarder_pre_diversify_pqc_keys :: "u64 \<Rightarrow> pqc_binding list \<Rightarrow> int \<Rightarrow> crypto_runtime \<Rightarrow> crypto_runtime" where
  "forwarder_pre_diversify_pqc_keys now bindings profile_id rt = policy_crypto_publish
     (rt\<lparr>rt_ctx := map (\<lambda>i. let ctx = rt_ctx rt ! i in
        if i < rt_count rt \<and> rt_ready rt ! i \<and> ctx_profile_id ctx = profile_id then load_keys now bindings ctx else ctx)
        [0..<length (rt_ctx rt)]\<rparr>)"

definition sync_policy_keys :: "u64 \<Rightarrow> pqc_binding list \<Rightarrow> app_config \<Rightarrow> int \<Rightarrow> int \<Rightarrow> crypto_runtime \<Rightarrow> crypto_runtime" where
  "sync_policy_keys now bindings cfg profile_id pi rt =
     (if pi < 0 \<or> pi \<ge> int (length (ac_policies cfg)) then rt
      else
        let cp = ac_policies cfg ! nat pi in
        if \<not> crypto_policy_is_encrypt cp then rt
        else case find (\<lambda>i. cp_db_id (rt_policies rt ! i) = cp_db_id cp) [0..<rt_count rt] of
            None \<Rightarrow> rt
          | Some i \<Rightarrow>
              if \<not> rt_ready rt ! i then rt
              else upd_ctx i (\<lambda>c. load_keys now bindings
                     (c\<lparr>ctx_profile_id := profile_id, ctx_policy_id := cp_db_id cp, ctx_wire_id := of_int (cp_id cp)\<rparr>)) rt)"

definition fwd_crypto_sync_pqc_session_keys :: "u64 \<Rightarrow> pqc_binding list \<Rightarrow> app_config option \<Rightarrow> crypto_runtime \<Rightarrow> crypto_runtime" where
  "fwd_crypto_sync_pqc_session_keys now bindings cfg rt =
     (case cfg of
        None \<Rightarrow> rt
      | Some cfg \<Rightarrow>
          if \<not> ac_crypto_enabled cfg \<or> ac_profiles cfg = [] then rt
          else let prof = hd (ac_profiles cfg)
               in policy_crypto_publish (fold (sync_policy_keys now bindings cfg (pf_id prof)) (pf_policy_indices prof) rt))"

definition zero_ctx :: packet_crypto_ctx where
  "zero_ctx = \<lparr>ctx_master_key = replicate 32 0, ctx_keys = replicate KEY_SLOT_COUNT (replicate 32 0), ctx_initialized = False,
     ctx_policy_id = 0, ctx_wire_id = 0, ctx_profile_id = 0, ctx_pqc_from_handshake = False, ctx_pqc_key_in_use_ms = 0,
     ctx_pqc_timed_key = replicate 32 0, ctx_pqc_rekey_sent = False\<rparr>"

definition wire_id_in_range :: "crypto_policy \<Rightarrow> bool" where
  "wire_id_in_range cp \<longleftrightarrow> 0 \<le> cp_id cp \<and> cp_id cp \<le> 255"

text \<open>The context of a policy after a rebuild: that of the ready policy with the same database id, or a new one.\<close>

definition rebuilt_ctx :: "u64 \<Rightarrow> pqc_binding list \<Rightarrow> crypto_runtime \<Rightarrow> crypto_policy \<Rightarrow> packet_crypto_ctx" where
  "rebuilt_ctx now bindings old cp =
     (case find (\<lambda>i. rt_ready old ! i \<and> cp_db_id (rt_policies old ! i) = cp_db_id cp) [0..<rt_count old] of
        Some i \<Rightarrow> load_keys now bindings ((rt_ctx old ! i)\<lparr>ctx_pqc_from_handshake := True,
          ctx_wire_id := of_int (cp_id cp), ctx_policy_id := cp_db_id cp\<rparr>)
      | None \<Rightarrow> load_keys now bindings (zero_ctx\<lparr>ctx_initialized := True, ctx_policy_id := cp_db_id cp,
          ctx_wire_id := of_int (cp_id cp), ctx_pqc_from_handshake := True\<rparr>))"

text \<open>One round of the first loop of \<open>fwd_crypto_rebuild\<close>, and one of the second.\<close>

definition rebuild_policy :: "u64 \<Rightarrow> pqc_binding list \<Rightarrow> crypto_runtime \<Rightarrow> nat \<times> crypto_policy \<Rightarrow> crypto_runtime \<Rightarrow> crypto_runtime" where
  "rebuild_policy now bindings old ip rt = (case ip of (i, cp) \<Rightarrow>
     if \<not> crypto_policy_is_encrypt cp then rt
     else rt\<lparr>rt_index_by_wire_id := (if wire_id_in_range cp then (rt_index_by_wire_id rt)(of_int (cp_id cp) := int i) else rt_index_by_wire_id rt),
             rt_ctx := (rt_ctx rt)[i := rebuilt_ctx now bindings old cp], rt_ready := (rt_ready rt)[i := True]\<rparr>)"

definition rebuild_profile :: "app_config \<Rightarrow> int \<Rightarrow> int \<Rightarrow> crypto_runtime \<Rightarrow> crypto_runtime" where
  "rebuild_profile cfg profile_id pi rt =
     (if pi < 0 \<or> pi \<ge> int (length (ac_policies cfg)) then rt
      else
        let cp = ac_policies cfg ! nat pi in
        if \<not> crypto_policy_is_encrypt cp then rt
        else
          let rt = (if wire_id_in_range cp then rt\<lparr>rt_profile_by_wire_id := (rt_profile_by_wire_id rt)(of_int (cp_id cp) := profile_id)\<rparr> else rt)
          in if rt_ready rt ! nat pi then upd_ctx (nat pi) (\<lambda>c. c\<lparr>ctx_profile_id := profile_id, ctx_policy_id := cp_db_id cp\<rparr>) rt else rt)"

definition with_fake_ethertype :: "app_config \<Rightarrow> app_config" where
  "with_fake_ethertype cfg = (if ac_fake_ethertype_ipv4 cfg = 0 then cfg\<lparr>ac_fake_ethertype_ipv4 := NE_L2_FAKE_ETHERTYPE\<rparr> else cfg)"

definition fwd_crypto_rebuild :: "u64 \<Rightarrow> pqc_binding list \<Rightarrow> app_config option \<Rightarrow> crypto_runtime
    \<Rightarrow> (app_config \<times> pol_in_tables) option \<times> crypto_runtime" where
  "fwd_crypto_rebuild now bindings cfg old =
     (let rt = old\<lparr>rt_ready := replicate MAX_CRYPTO_POLICIES False, rt_policies := [], rt_count := 0,
                   rt_index_by_wire_id := (\<lambda>_. -1), rt_profile_by_wire_id := (\<lambda>_. -1)\<rparr>
      in case map_option config_refresh_policy_in_any cfg of
          None \<Rightarrow> (None, policy_crypto_publish rt)
        | Some (cfg, tables) \<Rightarrow>
            if \<not> ac_crypto_enabled cfg then (Some (cfg, tables), policy_crypto_publish rt)
            else
              let policies = take MAX_CRYPTO_POLICIES (ac_policies cfg);
                  rt = rt\<lparr>rt_count := length policies, rt_policies := policies\<rparr>;
                  rt = fold (rebuild_policy now bindings old) (enumerate 0 policies) rt;
                  rt = (case ac_profiles cfg of
                      [] \<Rightarrow> rt
                    | p # _ \<Rightarrow> fold (rebuild_profile cfg (pf_id p)) (take MAX_CRYPTO_POLICIES (pf_policy_indices p)) rt)
              in (Some (with_fake_ethertype cfg, tables), policy_crypto_publish rt))"

section \<open>Lookups of the dataplane\<close>

definition lookup_hit :: "(u8 \<Rightarrow> int) \<Rightarrow> nat \<Rightarrow> bool list \<Rightarrow> u8 \<Rightarrow> nat option" where
  "lookup_hit index_by_wire_id active_count ready wire_id =
     (let pi = index_by_wire_id wire_id in
      if 0 \<le> pi \<and> pi < int active_count \<and> ready ! nat pi then Some (nat pi) else None)"

text \<open>A lookup is one step here. The code reads the index, the count, the ready flag and the variables of the grace one after the
  other and without the lock, while \<open>fwd_crypto_rebuild\<close>, which holds it, clears and refills them; a lookup that falls
  into a rebuild may see a mixture, which the model does not have.\<close>

definition fwd_crypto_ctx_for_wire_id :: "u64 \<Rightarrow> int \<Rightarrow> u8 \<Rightarrow> crypto_runtime \<Rightarrow> crypto_tls
    \<Rightarrow> packet_crypto_ctx option \<times> crypto_runtime \<times> crypto_tls" where
  "fwd_crypto_ctx_for_wire_id now worker_idx wire_id rt tls =
     (let rt = fwd_crypto_maybe_expire_prev_grace now rt in
      case lookup_hit (rt_index_by_wire_id rt) (rt_count rt) (rt_ready rt) wire_id of
        Some pi \<Rightarrow> (case policy_crypto_ctx_for_worker worker_idx pi False rt tls of (c, s) \<Rightarrow> (Some c, s))
      | None \<Rightarrow>
          if \<not> rt_prev_grace_active rt then (None, rt, tls)
          else case lookup_hit (rt_prev_index_by_wire_id rt) (rt_prev_count rt) (rt_prev_ready rt) wire_id of
              Some pi \<Rightarrow> (case policy_crypto_ctx_for_worker worker_idx pi True rt tls of (c, s) \<Rightarrow> (Some c, s))
            | None \<Rightarrow> (None, rt, tls))"

definition fwd_crypto_profile_id_for_wire_id :: "u64 \<Rightarrow> u8 \<Rightarrow> crypto_runtime \<Rightarrow> int \<times> crypto_runtime" where
  "fwd_crypto_profile_id_for_wire_id now wire_id rt =
     (let rt = fwd_crypto_maybe_expire_prev_grace now rt in
      (if rt_profile_by_wire_id rt wire_id > 0 then rt_profile_by_wire_id rt wire_id
       else if rt_prev_grace_active rt \<and> rt_prev_profile_by_wire_id rt wire_id > 0 then rt_prev_profile_by_wire_id rt wire_id
       else -1, rt))"

definition fwd_crypto_frag_gc_worker_tick :: "('c, 'l) scrypt_lib_scheme \<Rightarrow> os_env \<Rightarrow> int \<Rightarrow> ('c, 'z) l2_state_scheme \<Rightarrow> ('c, 'z) l2_state_scheme mem" where
  "fwd_crypto_frag_gc_worker_tick lib env worker_idx st =
     (if \<not> valid_worker worker_idx then Some st
      else crypto_option_frag_gc_all lib env 0 worker_idx (env_mono_sec env * 1000000000 + env_mono_nsec env) st)"

definition fwd_crypto_policy_ready :: "int \<Rightarrow> crypto_runtime \<Rightarrow> bool" where
  "fwd_crypto_policy_ready policy_index rt \<longleftrightarrow>
     0 \<le> policy_index \<and> policy_index < int MAX_CRYPTO_POLICIES \<and> rt_ready rt ! nat policy_index"

definition fwd_crypto_policy_ctx :: "int \<Rightarrow> int \<Rightarrow> crypto_runtime \<Rightarrow> crypto_tls \<Rightarrow> packet_crypto_ctx option \<times> crypto_runtime \<times> crypto_tls" where
  "fwd_crypto_policy_ctx worker_idx policy_index rt tls =
     (if \<not> fwd_crypto_policy_ready policy_index rt then (None, rt, tls)
      else case policy_crypto_ctx_for_worker worker_idx (nat policy_index) False rt tls of (c, s) \<Rightarrow> (Some c, s))"

definition fwd_crypto_reset_on_init :: "crypto_runtime \<Rightarrow> crypto_runtime" where
  "fwd_crypto_reset_on_init rt =
     rt\<lparr>rt_prev_count := 0, rt_prev_grace_active := False, rt_prev_grace_until_ms := 0,
        rt_prev_ready := replicate MAX_CRYPTO_POLICIES False, rt_prev_index_by_wire_id := (\<lambda>_. -1),
        rt_prev_profile_by_wire_id := (\<lambda>_. -1), rt_prev_policies := []\<rparr>"

section \<open>Operations as data\<close>

text \<open>The operations that other threads can run between two lookups of a worker.\<close>

datatype runtime_op =
    Discard_Prev int "pqc_binding list"
  | Lifetime_Tick u64 "pqc_binding list"
  | Clear_Grace
  | Snapshot u64
  | Pre_Diversify u64 "pqc_binding list" int
  | Sync_Keys u64 "pqc_binding list" "app_config option"
  | Rebuild u64 "pqc_binding list" "app_config option"
  | Wire_Lookup u64 int u8 crypto_tls
  | Policy_Lookup int int crypto_tls
  | Profile_Lookup u64 u8

fun run_op :: "runtime_op \<Rightarrow> crypto_runtime \<Rightarrow> crypto_runtime" where
  "run_op (Discard_Prev policy_id bindings) rt = fst (fwd_crypto_discard_pqc_prev_key policy_id rt bindings)"
| "run_op (Lifetime_Tick now bindings) rt = fst (fwd_crypto_pqc_key_lifetime_tick now rt bindings)"
| "run_op Clear_Grace rt = fwd_crypto_clear_grace rt"
| "run_op (Snapshot now) rt = fwd_crypto_snapshot_active_to_prev now rt"
| "run_op (Pre_Diversify now bindings profile_id) rt = forwarder_pre_diversify_pqc_keys now bindings profile_id rt"
| "run_op (Sync_Keys now bindings cfg) rt = fwd_crypto_sync_pqc_session_keys now bindings cfg rt"
| "run_op (Rebuild now bindings cfg) rt = snd (fwd_crypto_rebuild now bindings cfg rt)"
| "run_op (Wire_Lookup now worker_idx wire_id tls) rt = fst (snd (fwd_crypto_ctx_for_wire_id now worker_idx wire_id rt tls))"
| "run_op (Policy_Lookup worker_idx policy_index tls) rt = fst (snd (fwd_crypto_policy_ctx worker_idx policy_index rt tls))"
| "run_op (Profile_Lookup now wire_id) rt = snd (fwd_crypto_profile_id_for_wire_id now wire_id rt)"

fun op_worker :: "runtime_op \<Rightarrow> int" where
  "op_worker (Wire_Lookup _ w _ _) = w"
| "op_worker (Policy_Lookup w _ _) = w"
| "op_worker _ = -1"

section \<open>The copies are up to date\<close>

text \<open>Two contexts that differ in the lifetime of their key only.\<close>

definition ctx_alike :: "packet_crypto_ctx \<Rightarrow> packet_crypto_ctx \<Rightarrow> bool" where
  "ctx_alike c d \<longleftrightarrow> ctx_master_key c = ctx_master_key d \<and> ctx_keys c = ctx_keys d \<and> ctx_initialized c = ctx_initialized d
     \<and> ctx_policy_id c = ctx_policy_id d \<and> ctx_wire_id c = ctx_wire_id d \<and> ctx_profile_id c = ctx_profile_id d
     \<and> ctx_pqc_from_handshake c = ctx_pqc_from_handshake d"

lemma ctx_alike_refl [simp]: "ctx_alike c c"
  by (simp add: ctx_alike_def)

lemma ctx_alike_trans: "ctx_alike c d \<Longrightarrow> ctx_alike d e \<Longrightarrow> ctx_alike c e"
  by (simp add: ctx_alike_def)

definition ctxs_alike :: "packet_crypto_ctx list \<Rightarrow> packet_crypto_ctx list \<Rightarrow> bool" where
  "ctxs_alike = list_all2 ctx_alike"

lemma ctxs_alike_refl [simp]: "ctxs_alike cs cs"
  by (simp add: ctxs_alike_def list_all2_refl)

lemma ctxs_alike_trans: "ctxs_alike cs ds \<Longrightarrow> ctxs_alike ds es \<Longrightarrow> ctxs_alike cs es"
  unfolding ctxs_alike_def by (rule list_all2_trans [OF ctx_alike_trans])

text \<open>What an operation of another thread can do: publish, or leave the contexts alike.\<close>

definition quiet :: "crypto_runtime \<Rightarrow> crypto_runtime \<Rightarrow> bool" where
  "quiet rt rt' \<longleftrightarrow> rt_generation rt' = rt_generation rt \<and> ctxs_alike (rt_ctx rt) (rt_ctx rt') \<and> rt_prev_ctx rt' = rt_prev_ctx rt"

definition same_copies :: "nat \<Rightarrow> crypto_runtime \<Rightarrow> crypto_runtime \<Rightarrow> bool" where
  "same_copies w rt rt' \<longleftrightarrow> rt_worker_ctx rt' w = rt_worker_ctx rt w \<and> rt_worker_prev_ctx rt' w = rt_worker_prev_ctx rt w"

lemma quiet_refl [simp]: "quiet rt rt"
  by (simp add: quiet_def)

lemma quiet_trans: "quiet rt rt' \<Longrightarrow> quiet rt' rt'' \<Longrightarrow> quiet rt rt''"
  unfolding quiet_def using ctxs_alike_trans by auto

lemma quiet_upd: "(\<And>c. ctx_alike c (f c)) \<Longrightarrow> quiet rt (upd_ctx i f rt)"
  by (cases "i < length (rt_ctx rt)")
    (auto simp: quiet_def upd_ctx_def ctxs_alike_def list_all2_conv_all_nth nth_list_update)

lemma lifetime_tick_alike: "ctx_alike c (fst (lifetime_tick_ctx now ready c))"
  by (simp add: lifetime_tick_ctx_def ne_pqc_start_lifetime_clock_def ctx_alike_def Let_def)

lemma lifetime_request_quiet: "quiet (fst s) (fst (lifetime_request rq s))"
  by (cases s) (auto simp: lifetime_request_def ctx_alike_def intro!: quiet_upd split: prod.splits option.splits)

lemma lifetime_requests_quiet: "quiet (fst s) (fst (fold lifetime_request rqs s))"
proof (induction rqs arbitrary: s)
  case (Cons rq rqs)
  then show ?case using quiet_trans [OF lifetime_request_quiet Cons.IH] by simp
qed simp

lemma lifetime_quiet: "quiet rt (fst (fwd_crypto_pqc_key_lifetime_tick now rt bindings))"
proof -
  let ?rt = "rt\<lparr>rt_ctx := map (\<lambda>i. if i < rt_count rt then fst (lifetime_ticked now rt i) else rt_ctx rt ! i) [0..<length (rt_ctx rt)]\<rparr>"
  have "quiet rt ?rt" by (simp add: quiet_def ctxs_alike_def list_all2_conv_all_nth lifetime_ticked_def lifetime_tick_alike)
  from quiet_trans [OF this lifetime_requests_quiet [of "(?rt, bindings)", simplified]] show ?thesis
    by (simp add: fwd_crypto_pqc_key_lifetime_tick_def Let_def)
qed

lemma lifetime_request_copies: "same_copies w rt (fst s) \<Longrightarrow> same_copies w rt (fst (lifetime_request rq s))"
  by (cases s) (auto simp: lifetime_request_def same_copies_def upd_ctx_def split: prod.splits option.splits)

lemma lifetime_copies: "same_copies w rt (fst (fwd_crypto_pqc_key_lifetime_tick now rt bindings))"
proof -
  have f: "same_copies w rt (fst (fold lifetime_request rqs s))" if "same_copies w rt (fst s)" for s rqs
    using that by (induction rqs arbitrary: s) (simp_all add: lifetime_request_copies)
  show ?thesis unfolding fwd_crypto_pqc_key_lifetime_tick_def Let_def by (rule f) (simp add: same_copies_def)
qed

text \<open>A fold whose steps keep generation and copies keeps them.\<close>

lemma fold_keeps:
  assumes "\<And>x rt. x \<in> set xs \<Longrightarrow> P (f x rt) = P rt"
  shows "P (fold f xs rt) = P rt"
  using assms by (induction xs arbitrary: rt) simp_all

lemmas runtime_updates = policy_crypto_publish_def upd_ctx_def same_copies_def Let_def

lemma sync_policy_generation: "rt_generation (sync_policy_keys now bindings cfg pid pi rt) = rt_generation rt"
  and sync_policy_copies: "rt_worker_ctx (sync_policy_keys now bindings cfg pid pi rt) = rt_worker_ctx rt"
    "rt_worker_prev_ctx (sync_policy_keys now bindings cfg pid pi rt) = rt_worker_prev_ctx rt"
  and sync_policy_prev: "rt_prev_ctx (sync_policy_keys now bindings cfg pid pi rt) = rt_prev_ctx rt"
  by (auto simp: sync_policy_keys_def upd_ctx_def Let_def split: option.splits)

lemma rebuild_policy_generation: "rt_generation (rebuild_policy now bindings old ip rt) = rt_generation rt"
  and rebuild_policy_copies: "rt_worker_ctx (rebuild_policy now bindings old ip rt) = rt_worker_ctx rt"
    "rt_worker_prev_ctx (rebuild_policy now bindings old ip rt) = rt_worker_prev_ctx rt"
  by (auto simp: rebuild_policy_def split: prod.splits)

lemma rebuild_profile_generation: "rt_generation (rebuild_profile cfg pid pi rt) = rt_generation rt"
  and rebuild_profile_copies: "rt_worker_ctx (rebuild_profile cfg pid pi rt) = rt_worker_ctx rt"
    "rt_worker_prev_ctx (rebuild_profile cfg pid pi rt) = rt_worker_prev_ctx rt"
  by (auto simp: rebuild_profile_def upd_ctx_def Let_def)

lemma rebuild_generation: "rt_generation (snd (fwd_crypto_rebuild now bindings cfg rt)) = rt_generation rt + 1"
  and rebuild_copies: "same_copies w rt (snd (fwd_crypto_rebuild now bindings cfg rt))"
  by (auto simp: fwd_crypto_rebuild_def runtime_updates rebuild_policy_generation rebuild_policy_copies rebuild_profile_generation
      rebuild_profile_copies fold_keeps [where P = rt_generation] fold_keeps [where P = rt_worker_ctx] fold_keeps [where P = rt_worker_prev_ctx]
      split: option.splits prod.splits list.splits)

lemma sync_keys_generation:
    "fwd_crypto_sync_pqc_session_keys now bindings cfg rt = rt \<or> rt_generation (fwd_crypto_sync_pqc_session_keys now bindings cfg rt) = rt_generation rt + 1"
  and sync_keys_copies: "same_copies w rt (fwd_crypto_sync_pqc_session_keys now bindings cfg rt)"
  by (auto simp: fwd_crypto_sync_pqc_session_keys_def runtime_updates sync_policy_generation sync_policy_copies
      fold_keeps [where P = rt_generation] fold_keeps [where P = rt_worker_ctx] fold_keeps [where P = rt_worker_prev_ctx] split: option.splits)

lemma sync_worker_quiet:
  "quiet rt (fst (policy_crypto_sync_worker v rt tls))"
  "v \<noteq> int w \<Longrightarrow> same_copies w rt (fst (policy_crypto_sync_worker v rt tls))"
  by (auto simp: policy_crypto_sync_worker_def quiet_def same_copies_def valid_worker_def)

lemma ctx_for_worker_quiet:
  "quiet rt (fst (snd (policy_crypto_ctx_for_worker v i p rt tls)))"
  "v \<noteq> int w \<Longrightarrow> same_copies w rt (fst (snd (policy_crypto_ctx_for_worker v i p rt tls)))"
  using sync_worker_quiet(1) [of rt v tls] sync_worker_quiet(2) [of v w rt tls]
  by (auto simp: policy_crypto_ctx_for_worker_def same_copies_def split: prod.splits)

lemma expire_quiet:
  "quiet rt (fwd_crypto_maybe_expire_prev_grace now rt)" "same_copies w rt (fwd_crypto_maybe_expire_prev_grace now rt)"
  by (simp_all add: fwd_crypto_maybe_expire_prev_grace_def quiet_def same_copies_def)

lemma same_copies_trans: "same_copies w rt rt' \<Longrightarrow> same_copies w rt' rt'' \<Longrightarrow> same_copies w rt rt''"
  by (simp add: same_copies_def)

lemma run_op_effect:
  "quiet rt (run_op op rt) \<or> rt_generation (run_op op rt) = rt_generation rt + 1"
  "op_worker op \<noteq> int w \<Longrightarrow> same_copies w rt (run_op op rt)"
proof -
  show "quiet rt (run_op op rt) \<or> rt_generation (run_op op rt) = rt_generation rt + 1"
  proof (cases op)
    case (Wire_Lookup now v wire tls)
    have "quiet rt (run_op op rt)"
      using quiet_trans [OF expire_quiet(1) ctx_for_worker_quiet(1)] expire_quiet(1)
      by (auto simp: Wire_Lookup fwd_crypto_ctx_for_wire_id_def Let_def split: option.splits prod.splits) (metis fst_conv snd_conv)+
    then show ?thesis ..
  next
    case (Policy_Lookup v i tls)
    then show ?thesis
      using ctx_for_worker_quiet(1) [of rt v "nat i" False tls] by (auto simp: fwd_crypto_policy_ctx_def split: prod.splits)
  next
    case (Sync_Keys now bindings cfg)
    then show ?thesis using sync_keys_generation [of now bindings cfg rt] by auto
  qed (auto simp: fwd_crypto_discard_pqc_prev_key_def runtime_updates lifetime_quiet fwd_crypto_clear_grace_def quiet_def
      fwd_crypto_snapshot_active_to_prev_def forwarder_pre_diversify_pqc_keys_def rebuild_generation
      fwd_crypto_profile_id_for_wire_id_def fwd_crypto_maybe_expire_prev_grace_def lifetime_quiet [unfolded quiet_def] split: option.splits)
  assume w: "op_worker op \<noteq> int w"
  show "same_copies w rt (run_op op rt)"
  proof (cases op)
    case (Wire_Lookup now v wire tls)
    with w show ?thesis
      using same_copies_trans [OF expire_quiet(2) ctx_for_worker_quiet(2)] expire_quiet(2)
      by (auto simp: fwd_crypto_ctx_for_wire_id_def Let_def split: option.splits prod.splits) (metis fst_conv snd_conv)+
  next
    case (Policy_Lookup v i tls)
    with w show ?thesis
      using ctx_for_worker_quiet(2) [of v w rt "nat i" False tls]
      by (auto simp: fwd_crypto_policy_ctx_def same_copies_def split: prod.splits)
  qed (auto simp: fwd_crypto_discard_pqc_prev_key_def runtime_updates lifetime_copies [unfolded same_copies_def] fwd_crypto_clear_grace_def
      fwd_crypto_snapshot_active_to_prev_def forwarder_pre_diversify_pqc_keys_def rebuild_copies [unfolded same_copies_def]
      sync_keys_copies [unfolded same_copies_def] fwd_crypto_profile_id_for_wire_id_def fwd_crypto_maybe_expire_prev_grace_def split: option.splits)
qed

lemma ops_effect:
  "(\<exists>n \<le> length ops. rt_generation (fold run_op ops rt) = rt_generation rt + of_nat n \<and> (n = 0 \<longrightarrow> quiet rt (fold run_op ops rt)))
   \<and> ((\<forall>op \<in> set ops. op_worker op \<noteq> int w) \<longrightarrow> same_copies w rt (fold run_op ops rt))"
proof (induction ops arbitrary: rt)
  case Nil
  then show ?case by (simp add: same_copies_def)
next
  case (Cons op ops)
  let ?rt = "run_op op rt" and ?rt' = "fold run_op ops (run_op op rt)"
  obtain n where n: "n \<le> length ops" "rt_generation ?rt' = rt_generation ?rt + of_nat n" "n = 0 \<longrightarrow> quiet ?rt ?rt'"
    using Cons.IH by blast
  have c: "same_copies w rt ?rt'" if "\<forall>o' \<in> set (op # ops). op_worker o' \<noteq> int w"
    using same_copies_trans [OF run_op_effect(2)] Cons.IH that by auto
  show ?case
  proof (cases "quiet rt ?rt")
    case True
    then have "n \<le> length (op # ops) \<and> rt_generation ?rt' = rt_generation rt + of_nat n \<and> (n = 0 \<longrightarrow> quiet rt ?rt')"
      using n quiet_trans by (auto simp: quiet_def)
    then show ?thesis using c by auto
  next
    case False
    then have "rt_generation ?rt = rt_generation rt + 1" using run_op_effect(1) by blast
    then have "Suc n \<le> length (op # ops) \<and> rt_generation ?rt' = rt_generation rt + of_nat (Suc n) \<and> (Suc n = 0 \<longrightarrow> quiet rt ?rt')"
      using n(1,2) by (simp add: algebra_simps)
    then show ?thesis using c by auto
  qed
qed

text \<open>The state of a worker thread right after it has looked at its copies: it has none yet, or they are those of the
  generation it remembers, and this generation is the present one.\<close>

definition copies_current :: "nat \<Rightarrow> crypto_runtime \<Rightarrow> crypto_tls \<Rightarrow> bool" where
  "copies_current w rt tls \<longleftrightarrow> tls_policy_crypto_worker tls \<noteq> int w
     \<or> tls_policy_crypto_generation tls = rt_generation rt
       \<and> ctxs_alike (rt_worker_ctx rt w) (rt_ctx rt) \<and> rt_worker_prev_ctx rt w = rt_prev_ctx rt"

lemma sync_makes_current:
  assumes "w < NE_CRYPTO_WORKERS" "copies_current w rt tls" "length ops < 2 ^ 32" "\<forall>op \<in> set ops. op_worker op \<noteq> int w"
    and "policy_crypto_sync_worker (int w) (fold run_op ops rt) tls = (rt', tls')"
  shows "copies_current w rt' tls'" "tls_policy_crypto_worker tls' = int w"
    "rt_ctx rt' = rt_ctx (fold run_op ops rt)" "rt_prev_ctx rt' = rt_prev_ctx (fold run_op ops rt)"
proof -
  let ?rt = "fold run_op ops rt"
  obtain n where n: "n \<le> length ops" "rt_generation ?rt = rt_generation rt + of_nat n" "n = 0 \<longrightarrow> quiet rt ?rt"
    and c: "same_copies w rt ?rt" using ops_effect assms(4) by blast
  have v: "valid_worker (int w)" using assms(1) by (simp add: valid_worker_def)
  show "rt_ctx rt' = rt_ctx ?rt" "rt_prev_ctx rt' = rt_prev_ctx ?rt" "tls_policy_crypto_worker tls' = int w"
    using assms(5) v by (auto simp: policy_crypto_sync_worker_def split: if_splits)
  show "copies_current w rt' tls'"
  proof (cases "tls_policy_crypto_worker tls = int w \<and> tls_policy_crypto_generation tls = rt_generation ?rt")
    case True
    then have same: "rt' = ?rt" "tls' = tls" using assms(5) v by (simp_all add: policy_crypto_sync_worker_def)
    have "rt_generation rt = rt_generation ?rt" using True assms(2) by (simp add: copies_current_def)
    then have "(of_nat n :: u32) = 0" using n(2) by simp
    then have "2 ^ 32 dvd n" by (simp add: word_of_nat_eq_0_iff)
    then have "n = 0" using n(1) assms(3) by (meson dvd_imp_le le_less_trans linorder_not_less neq0_conv)
    then have "quiet rt ?rt" using n(3) by simp
    then show ?thesis using True assms(2) c ctxs_alike_trans unfolding same by (auto simp: copies_current_def quiet_def same_copies_def)
  next
    case False
    then show ?thesis using assms(5) v by (auto simp: policy_crypto_sync_worker_def copies_current_def)
  qed
qed

lemma current_lookup:
  assumes "w < NE_CRYPTO_WORKERS" "copies_current w rt tls" "length ops < 2 ^ 32" "\<forall>op \<in> set ops. op_worker op \<noteq> int w"
    and "i < length (rt_ctx (fold run_op ops rt))"
    and "policy_crypto_ctx_for_worker (int w) i False (fold run_op ops rt) tls = (c, rt', tls')"
  shows "ctx_alike c (rt_ctx (fold run_op ops rt) ! i)" "copies_current w rt' tls'"
proof -
  obtain r t where sync: "policy_crypto_sync_worker (int w) (fold run_op ops rt) tls = (r, t)" by fastforce
  note cur = sync_makes_current [OF assms(1-4) sync]
  have eq: "rt' = r" "tls' = t" "c = rt_worker_ctx r w ! i"
    using assms(1,6) by (auto simp: policy_crypto_ctx_for_worker_def valid_worker_def sync)
  have "ctxs_alike (rt_worker_ctx r w) (rt_ctx r)" using cur(1,2) by (simp add: copies_current_def)
  then show "ctx_alike c (rt_ctx (fold run_op ops rt) ! i)" "copies_current w rt' tls'"
    using cur(1,3) eq assms(5) by (simp_all add: ctxs_alike_def list_all2_conv_all_nth)
qed

text \<open>C28: a crypto worker never works with outdated keys. Between two lookups of a worker other threads may publish,
  reload, rotate and expire as they like, up to \<open>2 ^ 32 - 1\<close> operations; the context that the next lookup returns agrees with the
  master context of that moment in everything but the bookkeeping of the key's lifetime.\<close>

theorem worker_reads_current:
  assumes "w < NE_CRYPTO_WORKERS" "copies_current w rt tls" "length ops < 2 ^ 32" "\<forall>op \<in> set ops. op_worker op \<noteq> int w"
    and "i < length (rt_ctx (fold run_op ops rt))"
    and "policy_crypto_ctx_for_worker (int w) i False (fold run_op ops rt) tls = (c, rt', tls')"
  shows "ctx_alike c (rt_ctx (fold run_op ops rt) ! i) \<and> copies_current w rt' tls'"
  using current_lookup [OF assms] by simp

section \<open>The runtime is well formed\<close>

definition hits_ok :: "(u8 \<Rightarrow> int) \<Rightarrow> nat \<Rightarrow> bool list \<Rightarrow> bool" where
  "hits_ok index active_count ready \<longleftrightarrow> (\<forall>id. index id < int active_count \<and> (0 \<le> index id \<longrightarrow> ready ! nat (index id)))"

definition ctx_array :: "packet_crypto_ctx list \<Rightarrow> bool" where
  "ctx_array cs \<longleftrightarrow> length cs = MAX_CRYPTO_POLICIES \<and> (\<forall>c \<in> set cs. ctx_wf c)"

definition runtime_wf :: "crypto_runtime \<Rightarrow> bool" where
  "runtime_wf rt \<longleftrightarrow> ctx_array (rt_ctx rt) \<and> ctx_array (rt_prev_ctx rt) \<and> (\<forall>w. ctx_array (rt_worker_ctx rt w) \<and> ctx_array (rt_worker_prev_ctx rt w))
     \<and> length (rt_ready rt) = MAX_CRYPTO_POLICIES \<and> length (rt_prev_ready rt) = MAX_CRYPTO_POLICIES
     \<and> rt_count rt \<le> MAX_CRYPTO_POLICIES \<and> rt_prev_count rt \<le> MAX_CRYPTO_POLICIES \<and> length (rt_policies rt) = rt_count rt
     \<and> hits_ok (rt_index_by_wire_id rt) (rt_count rt) (rt_ready rt)
     \<and> hits_ok (rt_prev_index_by_wire_id rt) (rt_prev_count rt) (rt_prev_ready rt)"

fun op_bindings :: "runtime_op \<Rightarrow> pqc_binding list" where
  "op_bindings (Discard_Prev _ bindings) = bindings"
| "op_bindings (Lifetime_Tick _ bindings) = bindings"
| "op_bindings (Pre_Diversify _ bindings _) = bindings"
| "op_bindings (Sync_Keys _ bindings _) = bindings"
| "op_bindings (Rebuild _ bindings _) = bindings"
| "op_bindings _ = []"

lemma on_key_material_simps [simp]:
  "ctx_keys (ne_pqc_on_key_material now c) = ctx_keys c" "ctx_wire_id (ne_pqc_on_key_material now c) = ctx_wire_id c"
  "ctx_policy_id (ne_pqc_on_key_material now c) = ctx_policy_id c" "ctx_profile_id (ne_pqc_on_key_material now c) = ctx_profile_id c"
  "ctx_pqc_from_handshake (ne_pqc_on_key_material now c) = ctx_pqc_from_handshake c"
  by (simp_all add: ne_pqc_on_key_material_def ne_pqc_start_lifetime_clock_def)

lemma refresh_simps [simp]:
  "ctx_wire_id (packet_crypto_refresh_pqc_keys bindings c) = ctx_wire_id c"
  "ctx_policy_id (packet_crypto_refresh_pqc_keys bindings c) = ctx_policy_id c"
  "ctx_profile_id (packet_crypto_refresh_pqc_keys bindings c) = ctx_profile_id c"
  "ctx_pqc_from_handshake (packet_crypto_refresh_pqc_keys bindings c) = ctx_pqc_from_handshake c"
  by (simp_all add: packet_crypto_refresh_pqc_keys_def pqc_load_handshake_slots_def pqc_clear_ctx_keys_def split: option.splits)

lemma load_keys_wf: "ctx_wf c \<Longrightarrow> \<forall>b \<in> set bindings. binding_wf b \<Longrightarrow> ctx_wf (load_keys now bindings c)"
  using refresh_wf [of c bindings] by (simp add: load_keys_def ctx_wf_def)

lemma ctx_wf_ids [simp]:
  "ctx_wf (c\<lparr>ctx_profile_id := p\<rparr>) = ctx_wf c" "ctx_wf (c\<lparr>ctx_policy_id := q\<rparr>) = ctx_wf c"
  "ctx_wf (c\<lparr>ctx_wire_id := w\<rparr>) = ctx_wf c" "ctx_wf (c\<lparr>ctx_pqc_from_handshake := h\<rparr>) = ctx_wf c"
  by (simp_all add: ctx_wf_def)

lemma zero_ctx_wf: "ctx_wf (zero_ctx\<lparr>ctx_initialized := a, ctx_policy_id := b, ctx_wire_id := d, ctx_pqc_from_handshake := e\<rparr>)"
  by (simp add: ctx_wf_def zero_ctx_def key_slot_defs PQC_TRAFFIC_KEY_SZ_def)

lemma ctx_arrayD: "ctx_array cs \<Longrightarrow> i < MAX_CRYPTO_POLICIES \<Longrightarrow> ctx_wf (cs ! i)" "ctx_array cs \<Longrightarrow> length cs = MAX_CRYPTO_POLICIES"
  by (auto simp: ctx_array_def)

lemma ctx_array_upd: "ctx_array cs \<Longrightarrow> ctx_wf c \<Longrightarrow> ctx_array (cs[i := c])"
  using set_update_subset_insert [of cs i c] by (auto simp: ctx_array_def)

lemma ctx_array_map: "ctx_array cs \<Longrightarrow> (\<And>i. i < MAX_CRYPTO_POLICIES \<Longrightarrow> ctx_wf (f i)) \<Longrightarrow> ctx_array (map f [0..<length cs])"
  by (auto simp: ctx_array_def)

lemma upd_ctx_wf:
  assumes "runtime_wf rt" "\<And>c. ctx_wf c \<Longrightarrow> ctx_wf (f c)"
  shows "runtime_wf (upd_ctx i f rt)"
proof (cases "i < MAX_CRYPTO_POLICIES")
  case True
  with assms show ?thesis by (auto simp: runtime_wf_def upd_ctx_def ctx_arrayD intro!: ctx_array_upd)
next
  case False
  then have "(rt_ctx rt)[i := f (rt_ctx rt ! i)] = rt_ctx rt"
    using assms(1) by (intro list_update_beyond) (simp add: runtime_wf_def ctx_array_def)
  then have "upd_ctx i f rt = rt" by (cases rt) (simp add: upd_ctx_def)
  then show ?thesis using assms(1) by simp
qed

lemma publish_wf [simp]: "runtime_wf (policy_crypto_publish rt) = runtime_wf rt"
  by (simp add: policy_crypto_publish_def runtime_wf_def)

lemma first_ready_SomeD: "runtime_wf rt \<Longrightarrow> first_ready rt P = Some i \<Longrightarrow> i < MAX_CRYPTO_POLICIES"
  by (auto simp: first_ready_def runtime_wf_def dest: find_upt_SomeD)

lemma wf_lifetime_irrelevant: "ctx_alike c d \<Longrightarrow> ctx_wf d = ctx_wf c"
  by (simp add: ctx_alike_def ctx_wf_def)

lemma wipe_prev_wf: "ctx_wf c \<Longrightarrow> ctx_wf (c\<lparr>ctx_keys := (ctx_keys c)[KEY_SLOT_PREV := ne_wipe_key (ctx_keys c ! KEY_SLOT_PREV) PQC_TRAFFIC_KEY_SZ]\<rparr>)"
  using set_update_subset_insert [of "ctx_keys c" KEY_SLOT_PREV "ne_wipe_key (ctx_keys c ! KEY_SLOT_PREV) PQC_TRAFFIC_KEY_SZ"]
  by (auto simp: ctx_wf_def ne_wipe_key_def key_slot_defs)

lemma discard_wf: "runtime_wf rt \<Longrightarrow> runtime_wf (fst (fwd_crypto_discard_pqc_prev_key policy_id rt bindings))"
  by (auto simp: fwd_crypto_discard_pqc_prev_key_def first_ready_SomeD wipe_prev_wf intro!: upd_ctx_wf split: option.splits)

lemma lifetime_wf:
  assumes "runtime_wf rt"
  shows "runtime_wf (fst (fwd_crypto_pqc_key_lifetime_tick now rt bindings))"
proof -
  have step: "runtime_wf (fst (lifetime_request rq s))" if "runtime_wf (fst s)" for rq s
    using that first_ready_SomeD by (cases s) (auto simp: lifetime_request_def ctx_wf_def intro!: upd_ctx_wf split: prod.splits option.splits)
  have all: "runtime_wf (fst (fold lifetime_request rqs s))" if "runtime_wf (fst s)" for rqs s
    using that by (induction rqs arbitrary: s) (simp_all add: step)
  have "ctx_wf (fst (lifetime_ticked now rt i))" if "i < MAX_CRYPTO_POLICIES" for i
    using wf_lifetime_irrelevant [OF lifetime_tick_alike] assms ctx_arrayD(1) that by (simp add: lifetime_ticked_def runtime_wf_def)
  then have "ctx_array (map (\<lambda>i. if i < rt_count rt then fst (lifetime_ticked now rt i) else rt_ctx rt ! i) [0..<length (rt_ctx rt)])"
    using assms by (intro ctx_array_map) (auto simp: runtime_wf_def ctx_arrayD)
  then show ?thesis unfolding fwd_crypto_pqc_key_lifetime_tick_def Let_def using assms by (intro all) (simp add: runtime_wf_def)
qed

lemma pre_diversify_wf:
  assumes "runtime_wf rt" "\<forall>b \<in> set bindings. binding_wf b"
  shows "runtime_wf (forwarder_pre_diversify_pqc_keys now bindings profile_id rt)"
proof -
  have "ctx_array (map (\<lambda>i. let ctx = rt_ctx rt ! i in
      if i < rt_count rt \<and> rt_ready rt ! i \<and> ctx_profile_id ctx = profile_id then load_keys now bindings ctx else ctx) [0..<length (rt_ctx rt)])"
    using assms by (intro ctx_array_map) (auto simp: runtime_wf_def ctx_arrayD load_keys_wf Let_def)
  then show ?thesis using assms(1) by (simp add: forwarder_pre_diversify_pqc_keys_def runtime_wf_def policy_crypto_publish_def)
qed

lemma sync_policy_wf:
  assumes "runtime_wf rt" "\<forall>b \<in> set bindings. binding_wf b"
  shows "runtime_wf (sync_policy_keys now bindings cfg pid pi rt)"
proof -
  have "i < MAX_CRYPTO_POLICIES" if "find P [0..<rt_count rt] = Some i" for i P
    using find_upt_SomeD [OF that] assms(1) by (auto simp: runtime_wf_def)
  then show ?thesis using assms
    by (auto simp: sync_policy_keys_def Let_def load_keys_wf intro!: upd_ctx_wf split: option.splits)
qed

lemma sync_keys_wf:
  assumes "runtime_wf rt" "\<forall>b \<in> set bindings. binding_wf b"
  shows "runtime_wf (fwd_crypto_sync_pqc_session_keys now bindings cfg rt)"
proof -
  have "runtime_wf (fold (sync_policy_keys now bindings c pid) ps r)" if "runtime_wf r" for c pid ps r
    using that by (induction ps arbitrary: r) (simp_all add: sync_policy_wf assms(2))
  then show ?thesis using assms(1) by (auto simp: fwd_crypto_sync_pqc_session_keys_def Let_def split: option.splits)
qed

lemma rebuilt_ctx_wf:
  assumes "runtime_wf old" "\<forall>b \<in> set bindings. binding_wf b"
  shows "ctx_wf (rebuilt_ctx now bindings old cp)"
proof -
  have "ctx_wf (rt_ctx old ! i)" if "find P [0..<rt_count old] = Some i" for i P
    using find_upt_SomeD [OF that] assms(1) ctx_arrayD(1) by (auto simp: runtime_wf_def)
  then show ?thesis using assms(2) zero_ctx_wf
    by (auto simp: rebuilt_ctx_def intro!: load_keys_wf split: option.splits)
qed

lemma rebuild_policy_wf:
  assumes "runtime_wf rt" "runtime_wf old" "\<forall>b \<in> set bindings. binding_wf b" "fst ip < rt_count rt"
  shows "runtime_wf (rebuild_policy now bindings old ip rt) \<and> rt_count (rebuild_policy now bindings old ip rt) = rt_count rt"
proof (cases ip)
  case (Pair i cp)
  have "hits_ok f n r \<Longrightarrow> i < n \<Longrightarrow> n \<le> length r \<Longrightarrow> hits_ok f n (r[i := True])" for f n r by (auto simp: hits_ok_def nth_list_update)
  moreover have "hits_ok f n r \<Longrightarrow> i < n \<Longrightarrow> n \<le> length r \<Longrightarrow> hits_ok (f(id := int i)) n (r[i := True])" for f n r id
    by (auto simp: hits_ok_def nth_list_update)
  ultimately show ?thesis using assms rebuilt_ctx_wf [OF assms(2,3)]
    by (auto simp: Pair rebuild_policy_def runtime_wf_def intro!: ctx_array_upd)
qed

lemma rebuild_profile_wf: "runtime_wf rt \<Longrightarrow> runtime_wf (rebuild_profile cfg pid pi rt)"
proof -
  have "runtime_wf (rt\<lparr>rt_profile_by_wire_id := f\<rparr>) = runtime_wf rt" for rt f by (simp add: runtime_wf_def)
  then show "runtime_wf rt \<Longrightarrow> ?thesis" by (auto simp: rebuild_profile_def Let_def ctx_wf_def intro!: upd_ctx_wf)
qed

lemma rebuild_wf:
  assumes "runtime_wf rt" "\<forall>b \<in> set bindings. binding_wf b"
  shows "runtime_wf (snd (fwd_crypto_rebuild now bindings cfg rt))"
proof -
  let ?cleared = "rt\<lparr>rt_ready := replicate MAX_CRYPTO_POLICIES False, rt_policies := [], rt_count := 0,
    rt_index_by_wire_id := (\<lambda>_. -1), rt_profile_by_wire_id := (\<lambda>_. -1)\<rparr>"
  have cleared: "runtime_wf ?cleared" using assms(1) by (simp add: runtime_wf_def hits_ok_def)
  have policies: "runtime_wf (fold (rebuild_policy now bindings rt) ips r)"
    if "runtime_wf r" "\<forall>ip \<in> set ips. fst ip < rt_count r" for ips r
    using that
  proof (induction ips arbitrary: r)
    case (Cons ip ips)
    then show ?case using rebuild_policy_wf [OF Cons.prems(1) assms(1,2), of ip now] by simp
  qed simp
  have profile: "runtime_wf (fold (rebuild_profile c pid) ps r)" if "runtime_wf r" for c pid ps r
    using that by (induction ps arbitrary: r) (simp_all add: rebuild_profile_wf)
  show ?thesis
  proof (cases "map_option config_refresh_policy_in_any cfg")
    case None
    then show ?thesis using cleared by (simp add: fwd_crypto_rebuild_def Let_def)
  next
    case (Some ct)
    obtain c t where ct: "ct = (c, t)" by fastforce
    let ?ps = "take MAX_CRYPTO_POLICIES (ac_policies c)"
    let ?start = "?cleared\<lparr>rt_count := length ?ps, rt_policies := ?ps\<rparr>"
    have "runtime_wf ?start" using assms(1) by (simp add: runtime_wf_def hits_ok_def) 
    moreover have "\<forall>ip \<in> set (enumerate 0 ?ps). fst ip < rt_count ?start" by (auto simp: enumerate_eq_zip dest: set_zip_leftD)
    ultimately have "runtime_wf (fold (rebuild_policy now bindings rt) (enumerate 0 ?ps) ?start)" by (rule policies)
    then show ?thesis using cleared profile Some ct
      by (auto simp: fwd_crypto_rebuild_def Let_def split: list.splits)
  qed
qed

lemma sync_worker_wf: "runtime_wf rt \<Longrightarrow> runtime_wf (fst (policy_crypto_sync_worker v rt tls))"
  by (auto simp: policy_crypto_sync_worker_def runtime_wf_def)

lemma ctx_for_worker_wf:
  assumes "runtime_wf rt" "i < MAX_CRYPTO_POLICIES" "policy_crypto_ctx_for_worker v i p rt tls = (c, rt', tls')"
  shows "runtime_wf rt'" "ctx_wf c"
proof -
  have "runtime_wf (fst (policy_crypto_sync_worker v rt tls))" by (rule sync_worker_wf [OF assms(1)])
  then show "runtime_wf rt'" "ctx_wf c"
    using assms ctx_arrayD(1) by (auto simp: policy_crypto_ctx_for_worker_def runtime_wf_def split: if_splits prod.splits)
qed

lemma expire_wf: "runtime_wf rt \<Longrightarrow> runtime_wf (fwd_crypto_maybe_expire_prev_grace now rt)"
  by (simp add: fwd_crypto_maybe_expire_prev_grace_def runtime_wf_def)

lemma lookup_hit_SomeD: "lookup_hit f n r wire = Some i \<Longrightarrow> i < n \<and> f wire = int i \<and> r ! i"
  by (auto simp: lookup_hit_def Let_def split: if_splits)

lemma ctx_for_wire_id_wf:
  assumes "runtime_wf rt" "fwd_crypto_ctx_for_wire_id now v wire rt tls = (co, rt', tls')"
  shows "runtime_wf rt'" "co = Some c \<Longrightarrow> ctx_wf c"
proof -
  let ?rt = "fwd_crypto_maybe_expire_prev_grace now rt"
  have wf: "runtime_wf ?rt" by (rule expire_wf [OF assms(1)])
  have count: "rt_count ?rt \<le> MAX_CRYPTO_POLICIES" "rt_prev_count ?rt \<le> MAX_CRYPTO_POLICIES" using wf by (simp_all add: runtime_wf_def)
  have "runtime_wf rt' \<and> (\<forall>c. co = Some c \<longrightarrow> ctx_wf c)"
    using assms(2) ctx_for_worker_wf [OF wf] wf count
    by (auto simp: fwd_crypto_ctx_for_wire_id_def Let_def dest!: lookup_hit_SomeD split: option.splits if_splits prod.splits)
      (meson less_le_trans)+
  then show "runtime_wf rt'" "co = Some c \<Longrightarrow> ctx_wf c" by auto
qed

lemma policy_ctx_wf:
  assumes "runtime_wf rt" "fwd_crypto_policy_ctx v i rt tls = (co, rt', tls')"
  shows "runtime_wf rt'"
proof -
  have "nat i < MAX_CRYPTO_POLICIES" if "fwd_crypto_policy_ready i rt" using that by (auto simp: fwd_crypto_policy_ready_def)
  then show ?thesis using assms ctx_for_worker_wf(1) [OF assms(1), of "nat i" v False tls]
    by (auto simp: fwd_crypto_policy_ctx_def split: if_splits prod.splits)
qed

text \<open>C30: every operation of the crypto runtime keeps its state well formed: all arrays have their size, every context, of the
  runtime and of the workers, has three slots of 32 bytes, and a wire id that maps to a policy maps to an active and ready one. So the
  context of a lookup is always a proper context.\<close>

theorem runtime_well_formed:
  assumes "runtime_wf rt" "\<forall>b \<in> set (op_bindings op). binding_wf b"
  shows "runtime_wf (run_op op rt) \<and> (case fst (fwd_crypto_ctx_for_wire_id now v wire rt tls) of None \<Rightarrow> True | Some c \<Rightarrow> ctx_wf c)"
proof -
  have "runtime_wf (run_op op rt)"
  proof (cases op)
    case (Wire_Lookup now v wire tls)
    then show ?thesis using ctx_for_wire_id_wf(1) [OF assms(1)] by (metis eq_fst_iff eq_snd_iff run_op.simps(8))
  next
    case (Policy_Lookup v i tls)
    then show ?thesis using policy_ctx_wf [OF assms(1)] by (metis eq_fst_iff eq_snd_iff run_op.simps(9))
  next
    case (Snapshot now)
    then show ?thesis using assms(1) by (simp add: fwd_crypto_snapshot_active_to_prev_def runtime_wf_def policy_crypto_publish_def)
  next
    case Clear_Grace
    then show ?thesis using assms(1) by (simp add: fwd_crypto_clear_grace_def runtime_wf_def)
  qed (use assms in \<open>simp_all add: discard_wf lifetime_wf pre_diversify_wf sync_keys_wf rebuild_wf expire_wf fwd_crypto_profile_id_for_wire_id_def Let_def\<close>)
  moreover have "case fst (fwd_crypto_ctx_for_wire_id now v wire rt tls) of None \<Rightarrow> True | Some c \<Rightarrow> ctx_wf c"
    using ctx_for_wire_id_wf(2) [OF assms(1)] by (cases "fwd_crypto_ctx_for_wire_id now v wire rt tls") (auto split: option.splits)
  ultimately show ?thesis by simp
qed

section \<open>Reloads and rotations\<close>

lemma rebuild_policy_prev:
  "rt_prev_ctx (rebuild_policy now bindings old ip rt) = rt_prev_ctx rt"
  "rt_prev_ready (rebuild_policy now bindings old ip rt) = rt_prev_ready rt"
  "rt_prev_index_by_wire_id (rebuild_policy now bindings old ip rt) = rt_prev_index_by_wire_id rt"
  "rt_prev_count (rebuild_policy now bindings old ip rt) = rt_prev_count rt"
  "rt_prev_grace_active (rebuild_policy now bindings old ip rt) = rt_prev_grace_active rt"
  "rt_prev_grace_until_ms (rebuild_policy now bindings old ip rt) = rt_prev_grace_until_ms rt"
  by (auto simp: rebuild_policy_def split: prod.splits)

lemma rebuild_profile_prev:
  "rt_prev_ctx (rebuild_profile cfg pid pi rt) = rt_prev_ctx rt"
  "rt_prev_ready (rebuild_profile cfg pid pi rt) = rt_prev_ready rt"
  "rt_prev_index_by_wire_id (rebuild_profile cfg pid pi rt) = rt_prev_index_by_wire_id rt"
  "rt_prev_count (rebuild_profile cfg pid pi rt) = rt_prev_count rt"
  "rt_prev_grace_active (rebuild_profile cfg pid pi rt) = rt_prev_grace_active rt"
  "rt_prev_grace_until_ms (rebuild_profile cfg pid pi rt) = rt_prev_grace_until_ms rt"
  by (auto simp: rebuild_profile_def upd_ctx_def Let_def)

definition prev_part :: "crypto_runtime \<Rightarrow> packet_crypto_ctx list \<times> bool list \<times> (u8 \<Rightarrow> int) \<times> nat \<times> bool \<times> u64" where
  "prev_part rt = (rt_prev_ctx rt, rt_prev_ready rt, rt_prev_index_by_wire_id rt, rt_prev_count rt, rt_prev_grace_active rt, rt_prev_grace_until_ms rt)"

lemma rebuild_prev: "prev_part (snd (fwd_crypto_rebuild now bindings cfg rt)) = prev_part rt"
proof -
  have "prev_part (fold (rebuild_policy now bindings old) ips r) = prev_part r"
    "prev_part (fold (rebuild_profile c pid) ps r) = prev_part r" for old ips r c pid ps
    by (rule fold_keeps; simp add: prev_part_def rebuild_policy_prev rebuild_profile_prev)+
  then show ?thesis
    by (auto simp: fwd_crypto_rebuild_def policy_crypto_publish_def prev_part_def Let_def split: option.splits prod.splits list.splits)
qed

text \<open>C29: a reload refuses no packet that is under way. After the snapshot and the rebuild of a reload, a wire id that had a ready
  policy before and has none now still resolves for three seconds, for every crypto worker, to the context its policy had
  when the snapshot was taken; after that it resolves no longer. (The lookup follows the rebuild with no other operation
  in between; a second reload within the three seconds takes a new snapshot, which replaces the first.)\<close>

theorem reload_grace_keeps_wire_ids:
  assumes "w < NE_CRYPTO_WORKERS" "copies_current w rt tls" "unat now0 + 3000 < 2 ^ 64"
    and "lookup_hit (rt_index_by_wire_id rt) (rt_count rt) (rt_ready rt) wire = Some i"
    and "rt1 = snd (fwd_crypto_rebuild now1 bindings cfg (fwd_crypto_snapshot_active_to_prev now0 rt))"
    and "lookup_hit (rt_index_by_wire_id rt1) (rt_count rt1) (rt_ready rt1) wire = None"
  shows "fst (fwd_crypto_ctx_for_wire_id now (int w) wire rt1 tls) = (if unat now < unat now0 + 3000 then Some (rt_ctx rt ! i) else None)"
proof -
  let ?snap = "fwd_crypto_snapshot_active_to_prev now0 rt"
  have "prev_part rt1 = prev_part ?snap" using rebuild_prev assms(5) by simp
  then have p: "rt_prev_ctx rt1 = rt_ctx rt" "rt_prev_ready rt1 = rt_ready rt" "rt_prev_index_by_wire_id rt1 = rt_index_by_wire_id rt"
    "rt_prev_count rt1 = rt_count rt" "rt_prev_grace_active rt1 = (rt_count rt > 0)" "rt_prev_grace_until_ms rt1 = now0 + 3000"
    by (simp_all add: prev_part_def fwd_crypto_snapshot_active_to_prev_def policy_crypto_publish_def FWD_CRYPTO_PROFILE_RELOAD_GRACE_MS_def)
  have count: "rt_count rt > 0" using lookup_hit_SomeD [OF assms(4)] by simp
  have time: "now0 + 3000 \<le> now \<longleftrightarrow> \<not> unat now < unat now0 + 3000"
    using assms(3) by (simp add: word_le_nat_alt unat_word_ariths not_less)
  have "rt_generation rt1 = rt_generation rt + 2"
    using rebuild_generation assms(5) by (simp add: fwd_crypto_snapshot_active_to_prev_def policy_crypto_publish_def)
  then have "\<not> (tls_policy_crypto_worker tls = int w \<and> tls_policy_crypto_generation tls = rt_generation rt1)"
    using assms(2) by (auto simp: copies_current_def)
  then have "fst (policy_crypto_ctx_for_worker (int w) i True rt1 tls) = rt_ctx rt ! i"
    using assms(1) p(1) by (auto simp: policy_crypto_ctx_for_worker_def policy_crypto_sync_worker_def valid_worker_def)
  then show ?thesis
    using assms(4,6) p count time
    by (auto simp: fwd_crypto_ctx_for_wire_id_def fwd_crypto_maybe_expire_prev_grace_def Let_def split: prod.splits)
qed

lemma rebuild_policy_other:
  "fst ip \<noteq> i \<Longrightarrow> rt_ctx (rebuild_policy now bindings old ip rt) ! i = rt_ctx rt ! i"
  "length (rt_ctx (rebuild_policy now bindings old ip rt)) = length (rt_ctx rt)"
  by (auto simp: rebuild_policy_def split: prod.splits)

lemma rebuild_policies_ctx:
  assumes "(i, cp) \<in> set ips" "distinct (map fst ips)" "crypto_policy_is_encrypt cp" "i < length (rt_ctx rt)"
  shows "rt_ctx (fold (rebuild_policy now bindings old) ips rt) ! i = rebuilt_ctx now bindings old cp"
  using assms
proof (induction ips arbitrary: rt)
  case (Cons ip ips)
  show ?case
  proof (cases "ip = (i, cp)")
    case True
    have rest: "rt_ctx (fold (rebuild_policy now bindings old) ips r) ! i = rt_ctx r ! i" for r
      by (rule fold_keeps [where P = "\<lambda>r. rt_ctx r ! i"]) (use Cons.prems(2) True in \<open>auto intro!: rebuild_policy_other(1) simp: image_iff\<close>)
    moreover have "rt_ctx (rebuild_policy now bindings old (i, cp) rt) ! i = rebuilt_ctx now bindings old cp"
      using Cons.prems(3,4) by (simp add: rebuild_policy_def)
    ultimately show ?thesis using True by simp
  next
    case False
    then show ?thesis using Cons by (simp add: rebuild_policy_other)
  qed
qed simp

lemma upd_ctx_field: "(\<And>c. g (f c) = g c) \<Longrightarrow> g (rt_ctx (upd_ctx j f rt) ! i) = g (rt_ctx rt ! i)"
  by (cases "i = j \<and> j < length (rt_ctx rt)") (auto simp: upd_ctx_def nth_list_update list_update_beyond)

lemma rebuild_profile_ctx:
  "ctx_keys (rt_ctx (rebuild_profile cfg pid pi rt) ! i) = ctx_keys (rt_ctx rt ! i)"
  "ctx_pqc_key_in_use_ms (rt_ctx (rebuild_profile cfg pid pi rt) ! i) = ctx_pqc_key_in_use_ms (rt_ctx rt ! i)"
  "ctx_wire_id (rt_ctx (rebuild_profile cfg pid pi rt) ! i) = ctx_wire_id (rt_ctx rt ! i)"
  by (simp_all add: rebuild_profile_def Let_def upd_ctx_field)

lemma rebuild_ctx:
  assumes "runtime_wf rt" "ac_crypto_enabled cfg" "i < length (ac_policies cfg)" "i < MAX_CRYPTO_POLICIES"
    and "cp = ac_policies cfg ! i" "crypto_policy_is_encrypt cp"
  shows "ctx_keys (rt_ctx (snd (fwd_crypto_rebuild now bindings (Some cfg) rt)) ! i) = ctx_keys (rebuilt_ctx now bindings rt cp)"
    "ctx_pqc_key_in_use_ms (rt_ctx (snd (fwd_crypto_rebuild now bindings (Some cfg) rt)) ! i) = ctx_pqc_key_in_use_ms (rebuilt_ctx now bindings rt cp)"
    "ctx_wire_id (rt_ctx (snd (fwd_crypto_rebuild now bindings (Some cfg) rt)) ! i) = ctx_wire_id (rebuilt_ctx now bindings rt cp)"
proof -
  obtain c t where ct: "config_refresh_policy_in_any cfg = (c, t)" by fastforce
  have same: "ac_policies c = ac_policies cfg" "ac_crypto_enabled c = ac_crypto_enabled cfg"
    using ct by (auto simp: config_refresh_policy_in_any_def Let_def split: list.splits)
  define ps where "ps = take MAX_CRYPTO_POLICIES (ac_policies c)"
  define start where "start = rt\<lparr>rt_ready := replicate MAX_CRYPTO_POLICIES False, rt_policies := [], rt_count := 0,
    rt_index_by_wire_id := (\<lambda>_. -1), rt_profile_by_wire_id := (\<lambda>_. -1)\<rparr>\<lparr>rt_count := length ps, rt_policies := ps\<rparr>"
  define mid where "mid = fold (rebuild_policy now bindings rt) (enumerate 0 ps) start"
  have "(i, cp) \<in> set (enumerate 0 ps)" using assms(3-5) same(1) by (auto simp: in_set_enumerate_eq ps_def)
  then have mid: "rt_ctx mid ! i = rebuilt_ctx now bindings rt cp"
    unfolding mid_def using assms(1,4,6)
    by (intro rebuild_policies_ctx) (simp_all add: distinct_enumerate start_def runtime_wf_def ctx_array_def)
  have fin: "\<exists>pis pid. rt_ctx (snd (fwd_crypto_rebuild now bindings (Some cfg) rt)) = rt_ctx (fold (rebuild_profile c pid) pis mid)"
    using assms(2) same(2) by (cases "ac_profiles c")
      (auto simp: fwd_crypto_rebuild_def ct Let_def policy_crypto_publish_def mid_def start_def ps_def intro: exI [of _ "[]"] exI)
  then obtain pis pid where fin: "rt_ctx (snd (fwd_crypto_rebuild now bindings (Some cfg) rt)) = rt_ctx (fold (rebuild_profile c pid) pis mid)" by blast
  show "ctx_keys (rt_ctx (snd (fwd_crypto_rebuild now bindings (Some cfg) rt)) ! i) = ctx_keys (rebuilt_ctx now bindings rt cp)"
    "ctx_wire_id (rt_ctx (snd (fwd_crypto_rebuild now bindings (Some cfg) rt)) ! i) = ctx_wire_id (rebuilt_ctx now bindings rt cp)"
    unfolding fin mid [symmetric] by (rule fold_keeps [where P = "\<lambda>r. ctx_keys (rt_ctx r ! i)"] fold_keeps [where P = "\<lambda>r. ctx_wire_id (rt_ctx r ! i)"];
      simp add: rebuild_profile_ctx)+
  show "ctx_pqc_key_in_use_ms (rt_ctx (snd (fwd_crypto_rebuild now bindings (Some cfg) rt)) ! i) = ctx_pqc_key_in_use_ms (rebuilt_ctx now bindings rt cp)"
    unfolding fin mid [symmetric] by (rule fold_keeps [where P = "\<lambda>r. ctx_pqc_key_in_use_ms (rt_ctx r ! i)"]) (simp add: rebuild_profile_ctx)
qed

text \<open>A reload does not disturb the session of a policy that stays. Whatever else changes, also the position and the
  wire id of the policy: when the old configuration had a ready context for the database id of an encrypting policy of the
  new one, with a CURRENT key whose clock runs, and the key exchange has no other key for it, the context of the new position
  has the same keys, the same start of the lifetime, and the new wire id.\<close>

lemma reload_keeps_session:
  assumes "runtime_wf rt" "ac_crypto_enabled cfg" "i < length (ac_policies cfg)" "i < MAX_CRYPTO_POLICIES"
    and "cp = ac_policies cfg ! i" "crypto_policy_is_encrypt cp"
    and "find (\<lambda>j. rt_ready rt ! j \<and> cp_db_id (rt_policies rt ! j) = cp_db_id cp) [0..<rt_count rt] = Some j"
    and "ctx_pqc_timed_key (rt_ctx rt ! j) = ctx_keys (rt_ctx rt ! j) ! KEY_SLOT_CURRENT"
    and "key_nonzero (ctx_keys (rt_ctx rt ! j) ! KEY_SLOT_CURRENT) PQC_TRAFFIC_KEY_SZ"
    and "find (\<lambda>b. pb_policy_id b = cp_db_id cp) bindings = None"
    and "c = rt_ctx (snd (fwd_crypto_rebuild now bindings (Some cfg) rt)) ! i"
  shows "ctx_keys c = ctx_keys (rt_ctx rt ! j) \<and> ctx_pqc_key_in_use_ms c = ctx_pqc_key_in_use_ms (rt_ctx rt ! j)
    \<and> ctx_wire_id c = of_int (cp_id cp)"
proof -
  have len: "length (ctx_keys (rt_ctx rt ! j) ! KEY_SLOT_CURRENT) = 32"
    using find_upt_SomeD [OF assms(7)] assms(1) ctx_arrayD(1) [of "rt_ctx rt" j]
    by (auto simp: runtime_wf_def ctx_wf_def key_slot_defs PQC_TRAFFIC_KEY_SZ_def)
  have nz: "ne_key_nonzero (ctx_keys (rt_ctx rt ! j) ! KEY_SLOT_CURRENT) PQC_TRAFFIC_KEY_SZ"
    using assms(9) len by (auto simp: key_nonzero_def ne_key_nonzero_def list_ex_iff PQC_TRAFFIC_KEY_SZ_def in_set_conv_nth Bex_def)
  let ?d = "(rt_ctx rt ! j)\<lparr>ctx_pqc_from_handshake := True, ctx_wire_id := of_int (cp_id cp), ctx_policy_id := cp_db_id cp\<rparr>"
  have "rebuilt_ctx now bindings rt cp = load_keys now bindings ?d" using assms(7) by (simp add: rebuilt_ctx_def)
  also have "packet_crypto_refresh_pqc_keys bindings ?d = ?d"
    using assms(9,10) by (intro refresh_no_binding) (simp_all add: key_slot_defs)
  then have "load_keys now bindings ?d = ?d" using nz assms(8) by (simp add: load_keys_def ne_pqc_on_key_material_def)
  finally show ?thesis using rebuild_ctx [OF assms(1-6), of now bindings] assms(11) by simp
qed

text \<open>The lifetime of a session key. When thirty days after the key came into use the tick asks for a new session, it does so
  for the policy of the context, a context with a running clock whose key is at least thirty days old; as long as
  the key stays, no later tick asks again, also after reloads that bring the same key; and a new key starts the clock anew.\<close>

lemma key_lifetime_one_request:
  assumes "lifetime_tick_ctx now ready c = (c', requests)" "requests \<noteq> []"
    and "ctx_pqc_timed_key c = ctx_keys c ! KEY_SLOT_CURRENT" "ne_key_nonzero (ctx_keys c ! KEY_SLOT_CURRENT) PQC_TRAFFIC_KEY_SZ"
  shows "requests = [(ctx_policy_id c, ctx_pqc_key_in_use_ms c)] \<and> ready \<and> ctx_pqc_key_in_use_ms c \<noteq> 0
    \<and> unat now \<ge> unat (ctx_pqc_key_in_use_ms c) + 30 * 24 * 60 * 60 * 1000
    \<and> (\<forall>now'. lifetime_tick_ctx now' ready (ne_pqc_on_key_material now'' c') = (c', []))
    \<and> (\<forall>key. ne_key_nonzero key PQC_TRAFFIC_KEY_SZ \<longrightarrow> key \<noteq> ctx_keys c ! KEY_SLOT_CURRENT \<longrightarrow> length (ctx_keys c) = KEY_SLOT_COUNT \<longrightarrow>
         (let d = ne_pqc_on_key_material now'' (c'\<lparr>ctx_keys := (ctx_keys c)[KEY_SLOT_CURRENT := key]\<rparr>)
          in ctx_pqc_key_in_use_ms d = now'' \<and> \<not> ctx_pqc_rekey_sent d))"
proof -
  let ?s = "ctx_pqc_key_in_use_ms c"
  have c: "ready" "ctx_pqc_from_handshake c" "?s \<noteq> 0" "\<not> now < ?s" "\<not> now - ?s < NE_PQC_KEY_LIFETIME_MS" "\<not> ctx_pqc_rekey_sent c"
    "c' = c\<lparr>ctx_pqc_rekey_sent := True\<rparr>" "requests = [(ctx_policy_id c, ?s)]"
    using assms(1,2) by (auto simp: lifetime_tick_ctx_def Let_def split: if_splits)
  have "unat (now - ?s) = unat now - unat ?s" using c(4) by (simp add: unat_sub not_less)
  then have age: "unat now \<ge> unat ?s + 30 * 24 * 60 * 60 * 1000"
    using c(4,5) by (simp add: word_less_nat_alt word_le_nat_alt NE_PQC_KEY_LIFETIME_MS_def not_less)
  have "ne_pqc_on_key_material now'' c' = c'" using c(2,7) assms(3,4) by (simp add: ne_pqc_on_key_material_def)
  moreover have "lifetime_tick_ctx now' ready c' = (c', [])" for now' using c(2,3,7) by (simp add: lifetime_tick_ctx_def Let_def)
  moreover have "ne_pqc_on_key_material now'' (c'\<lparr>ctx_keys := (ctx_keys c)[KEY_SLOT_CURRENT := key]\<rparr>) =
      ne_pqc_start_lifetime_clock now'' (c'\<lparr>ctx_keys := (ctx_keys c)[KEY_SLOT_CURRENT := key]\<rparr>)"
    if "ne_key_nonzero key PQC_TRAFFIC_KEY_SZ" "key \<noteq> ctx_keys c ! KEY_SLOT_CURRENT" "length (ctx_keys c) = KEY_SLOT_COUNT" for key
    using that c(2,7) assms(3) by (simp add: ne_pqc_on_key_material_def key_slot_defs)
  ultimately show ?thesis using c age by (simp add: ne_pqc_start_lifetime_clock_def Let_def)
qed

text \<open>After a key exchange has refreshed the contexts of its profile, the next lookup of a worker has the new keys.\<close>

lemma rotation_reaches_worker:
  assumes "w < NE_CRYPTO_WORKERS" "copies_current w rt tls" "i < rt_count rt" "i < length (rt_ctx rt)" "rt_ready rt ! i"
    and "policy_crypto_ctx_for_worker (int w) i False
      (forwarder_pre_diversify_pqc_keys now bindings (ctx_profile_id (rt_ctx rt ! i)) rt) tls = (c, rt', tls')"
  shows "ctx_keys c = ctx_keys (packet_crypto_refresh_pqc_keys bindings (rt_ctx rt ! i))"
proof -
  let ?op = "Pre_Diversify now bindings (ctx_profile_id (rt_ctx rt ! i))"
  have "ctx_alike c (rt_ctx (fold run_op [?op] rt) ! i)"
    using assms by (intro current_lookup(1) [of w rt tls]) (simp_all add: forwarder_pre_diversify_pqc_keys_def policy_crypto_publish_def)
  then show ?thesis using assms(3-5)
    by (simp add: ctx_alike_def forwarder_pre_diversify_pqc_keys_def policy_crypto_publish_def Let_def load_keys_def)
qed

section \<open>An example\<close>

text \<open>One encrypting policy with database id 7 and wire id 4, whose context has a key since time 1000.\<close>

definition demo_policy :: "int \<Rightarrow> crypto_policy" where
  "demo_policy wire = \<lparr>cp_id = wire, cp_db_id = 7, cp_priority = 1, cp_action = 2, cp_protocol = 0, cp_src_port_from = 0, cp_src_port_to = 0,
     cp_dst_port_from = 0, cp_dst_port_to = 0, cp_src_any = True, cp_dst_any = True, cp_src_negate = False, cp_dst_negate = False,
     cp_src_net = 0, cp_src_mask = 0, cp_dst_net = 0, cp_dst_mask = 0\<rparr>"

definition demo_ctx :: packet_crypto_ctx where
  "demo_ctx = zero_ctx\<lparr>ctx_keys := [replicate 32 0, replicate 32 2, replicate 32 0], ctx_initialized := True, ctx_policy_id := 7, ctx_wire_id := 4,
     ctx_profile_id := 1, ctx_pqc_from_handshake := True, ctx_pqc_key_in_use_ms := 1000, ctx_pqc_timed_key := replicate 32 2\<rparr>"

definition demo_rt :: crypto_runtime where
  "demo_rt = \<lparr>rt_ctx = (replicate 128 zero_ctx)[0 := demo_ctx], rt_worker_ctx = (\<lambda>_. replicate 128 zero_ctx), rt_ready = (replicate 128 False)[0 := True],
     rt_worker_prev_ctx = (\<lambda>_. replicate 128 zero_ctx), rt_generation = 1, rt_index_by_wire_id = (\<lambda>_. -1)(4 := 0), rt_profile_by_wire_id = (\<lambda>_. -1)(4 := 1),
     rt_policies = [demo_policy 4], rt_count = 1, rt_prev_ctx = replicate 128 zero_ctx, rt_prev_ready = replicate 128 False,
     rt_prev_index_by_wire_id = (\<lambda>_. -1), rt_prev_profile_by_wire_id = (\<lambda>_. -1), rt_prev_policies = [], rt_prev_count = 0,
     rt_prev_grace_active = False, rt_prev_grace_until_ms = 0\<rparr>"

definition demo_tls :: crypto_tls where
  "demo_tls = \<lparr>tls_policy_crypto_worker = -1, tls_policy_crypto_generation = 0\<rparr>"

definition demo_cfg :: "int \<Rightarrow> app_config" where
  "demo_cfg wire = \<lparr>ac_locals = [], ac_wans = [], ac_bpf_file = [], ac_bpf_wan_file = [],
     ac_crypto_enabled = True, ac_fake_ethertype_ipv4 = 0, ac_profiles = [], ac_policies = [demo_policy wire]\<rparr>"

lemma demo_ctx_simps [simp]:
  "ctx_wf demo_ctx" "ctx_wf zero_ctx" "ctx_pqc_key_in_use_ms demo_ctx = 1000" "ctx_policy_id demo_ctx = 7"
  "ctx_keys demo_ctx ! KEY_SLOT_CURRENT = replicate 32 2" "ctx_pqc_timed_key demo_ctx = replicate 32 2" "length (ctx_keys demo_ctx) = KEY_SLOT_COUNT"
  "ctx_pqc_from_handshake demo_ctx" "\<not> ctx_pqc_rekey_sent demo_ctx"
  by (simp_all add: demo_ctx_def zero_ctx_def ctx_wf_def key_slot_defs PQC_TRAFFIC_KEY_SZ_def)

lemma demo_key_nonzero [simp]: "a \<noteq> 0 \<Longrightarrow> ne_key_nonzero (replicate 32 a) PQC_TRAFFIC_KEY_SZ" "a \<noteq> 0 \<Longrightarrow> key_nonzero (replicate 32 a) PQC_TRAFFIC_KEY_SZ"
  by (auto simp: ne_key_nonzero_def list_ex_iff PQC_TRAFFIC_KEY_SZ_def Bex_def key_nonzero_def intro: exI [of _ 0])

lemma demo_rt_wf: "runtime_wf demo_rt"
proof -
  have z: "ctx_array (replicate 128 zero_ctx)" by (auto simp: ctx_array_def MAX_CRYPTO_POLICIES_def)
  have d: "ctx_array ((replicate 128 zero_ctx)[0 := demo_ctx])" by (rule ctx_array_upd [OF z]) simp
  have h: "hits_ok ((\<lambda>_. -1)(4 := 0)) 1 ((replicate 128 False)[0 := True])" "hits_ok (\<lambda>_. -1) 0 (replicate 128 False)"
    by (simp_all add: hits_ok_def)
  show ?thesis unfolding runtime_wf_def demo_rt_def crypto_runtime.simps
    using z d h by (simp add: MAX_CRYPTO_POLICIES_def del: list_update_code)
qed

lemma demo_lookup: "lookup_hit (rt_index_by_wire_id demo_rt) (rt_count demo_rt) (rt_ready demo_rt) 4 = Some 0"
  by (simp add: lookup_hit_def demo_rt_def)

theorem runtime_well_formed_witness:
  "runtime_wf (run_op (Snapshot 5) demo_rt)
   \<and> (case fst (fwd_crypto_ctx_for_wire_id 9 2 4 demo_rt demo_tls) of None \<Rightarrow> True | Some c \<Rightarrow> ctx_wf c)"
  by (rule runtime_well_formed [OF demo_rt_wf]) simp

theorem worker_reads_current_witness:
  "\<exists>c rt' tls'. policy_crypto_ctx_for_worker 2 0 False (fold run_op [Snapshot 5, Rebuild 6 [] None] demo_rt) demo_tls = (c, rt', tls')
     \<and> ctx_alike c (rt_ctx (fold run_op [Snapshot 5, Rebuild 6 [] None] demo_rt) ! 0) \<and> copies_current 2 rt' tls'"
proof -
  let ?ops = "[Snapshot 5, Rebuild 6 [] None]"
  obtain c rt' tls' where l: "policy_crypto_ctx_for_worker (int 2) 0 False (fold run_op ?ops demo_rt) demo_tls = (c, rt', tls')"
    by (metis prod.exhaust)
  have "ctx_alike c (rt_ctx (fold run_op ?ops demo_rt) ! 0) \<and> copies_current 2 rt' tls'"
  proof (rule worker_reads_current [OF _ _ _ _ _ l])
    show "copies_current 2 demo_rt demo_tls" by (simp add: copies_current_def demo_tls_def)
    show "0 < length (rt_ctx (fold run_op ?ops demo_rt))"
      by (simp add: fwd_crypto_rebuild_def fwd_crypto_snapshot_active_to_prev_def policy_crypto_publish_def demo_rt_def Let_def)
  qed (simp_all add: NE_CRYPTO_WORKERS_def)
  with l show ?thesis by auto
qed

theorem reload_grace_keeps_wire_ids_witness:
  "fst (fwd_crypto_ctx_for_wire_id 2999 2 4 (snd (fwd_crypto_rebuild 1 [] None (fwd_crypto_snapshot_active_to_prev 0 demo_rt))) demo_tls) = Some demo_ctx
   \<and> fst (fwd_crypto_ctx_for_wire_id 3000 2 4 (snd (fwd_crypto_rebuild 1 [] None (fwd_crypto_snapshot_active_to_prev 0 demo_rt))) demo_tls) = None"
proof -
  let ?rt = "snd (fwd_crypto_rebuild 1 [] None (fwd_crypto_snapshot_active_to_prev 0 demo_rt))"
  have "lookup_hit (rt_index_by_wire_id ?rt) (rt_count ?rt) (rt_ready ?rt) 4 = None"
    by (simp add: lookup_hit_def fwd_crypto_rebuild_def fwd_crypto_snapshot_active_to_prev_def policy_crypto_publish_def demo_rt_def Let_def)
  then have "fst (fwd_crypto_ctx_for_wire_id now (int 2) 4 ?rt demo_tls) = (if unat now < unat (0::u64) + 3000 then Some (rt_ctx demo_rt ! 0) else None)" for now
    by (intro reload_grace_keeps_wire_ids [OF _ _ _ demo_lookup refl])
      (simp_all add: NE_CRYPTO_WORKERS_def copies_current_def demo_tls_def)
  from this [of 2999] this [of 3000] show ?thesis by (simp add: demo_rt_def)
qed

end
