(* ===== verification/Dataplane_Rotation.thy ===== *)
theory Dataplane_Rotation
  imports Cutover_Hitless Crypto_Runtime
begin

text \<open>
  The key exchange, the crypto runtime and the payload encryption together: what a crypto worker of one peer seals while
  a rotation of the session key is under way, a crypto worker of the other peer opens.
\<close>

text \<open>A context that a crypto worker has looked up after the key exchange refreshed the contexts of the profile from a
  binding, which it does after every change of a key slot.\<close>

definition refreshed_lookup :: "pqc_binding \<Rightarrow> packet_crypto_ctx \<Rightarrow> bool" where
  "refreshed_lookup b c \<longleftrightarrow> (\<exists>rt tls w i now rt' tls'.
     w < NE_CRYPTO_WORKERS \<and> copies_current w rt tls \<and> i < rt_count rt \<and> i < length (rt_ctx rt) \<and> rt_ready rt ! i
     \<and> ctx_wf (rt_ctx rt ! i) \<and> ctx_pqc_from_handshake (rt_ctx rt ! i) \<and> ctx_policy_id (rt_ctx rt ! i) = pb_policy_id b
     \<and> policy_crypto_ctx_for_worker (int w) i False
         (forwarder_pre_diversify_pqc_keys now [b] (ctx_profile_id (rt_ctx rt ! i)) rt) tls = (c, rt', tls'))"

lemma refreshed_lookup_keys:
  assumes "refreshed_lookup b c"
  obtains d where "ctx_keys c = ctx_keys (packet_crypto_refresh_pqc_keys [b] d)" "ctx_wf d" "ctx_pqc_from_handshake d" "ctx_policy_id d = pb_policy_id b"
  using assms rotation_reaches_worker unfolding refreshed_lookup_def by metis

text \<open>The context of a packet that was sealed late: it was looked up from an earlier binding of its sender, whose CURRENT key
  is the sender's PREV key now. Both peers must still keep their PREV keys; and the initiator's does not count while the
  responder is one key ahead of it.\<close>

definition late_sender :: "cutover \<Rightarrow> pqc_binding \<Rightarrow> pqc_binding \<Rightarrow> packet_crypto_ctx \<Rightarrow> bool" where
  "late_sender s bs br c \<longleftrightarrow> (\<exists>b. refreshed_lookup b c \<and> pb_key_slots_valid b ! KEY_SLOT_CURRENT \<and> cur_key b = pb_keys bs ! KEY_SLOT_PREV)
     \<and> pb_key_slots_valid bs ! KEY_SLOT_PREV \<and> pb_key_slots_valid br ! KEY_SLOT_PREV \<and> \<not> (commit_open s \<and> bs = ct_ini s)"

lemma refreshed_current:
  assumes "refreshed_lookup b c" "pb_key_slots_valid b ! KEY_SLOT_CURRENT"
  shows "ctx_keys c ! KEY_SLOT_CURRENT = cur_key b"
proof -
  obtain d where d: "ctx_keys c = ctx_keys (packet_crypto_refresh_pqc_keys [b] d)" "ctx_wf d" "ctx_pqc_from_handshake d"
    "ctx_policy_id d = pb_policy_id b" using refreshed_lookup_keys [OF assms(1)] .
  then show ?thesis using refresh_slots [OF d(2,3), of "[b]" b 1] assms(2) by (simp add: key_slot_defs)
qed

text \<open>C7: a key rotation loses no packet, from end to end. Take a state that two peers can reach from a synchronised start in a
  run in which the responder starts no session a second time. Take as receiver the context that a crypto worker of one
  peer has looked up in this state, and as sender that of a worker of the other peer, looked up in this state or, for
  a packet on its way or a worker that lags behind, before the last promotion of its peer; in the second case both
  peers must still keep their previous key, and the sender is not the initiator while the responder is one key ahead. Then a
  payload sealed by the sender is recovered byte for byte by the receiver, in both directions.\<close>

theorem rotation_loses_no_packet:
  assumes "synced hs s" "(cutover_step hs kem_pair)\<^sup>*\<^sup>* s s'" "\<not> ct_replayed s'" "\<forall>x h. hl_sha256 hs x = Some h \<longrightarrow> length h = 32"
    and "(bs, br) = (ct_ini s', ct_res s') \<or> (bs, br) = (ct_res s', ct_ini s')"
    and "refreshed_lookup bs sender \<or> late_sender s' bs br sender" "refreshed_lookup br receiver" "ctx_wf sender" "ctx_wf receiver"
    and "scrypt_gcm lib enc tag" "crypto_pqc_sess_load sender = Some sess" "cipher_ready lib st" "cipher_ready lib st'"
    and "keys_told_apart lib enc tag receiver (sess_key sess) n (slice b off len)"
    and "length n = 12" "0 < len" "off + len + 16 \<le> length b" "len + 16 \<le> 2048" "off' + len + 16 \<le> length b'"
  shows "\<exists>wire b1 st1. crypto_pqc_encrypt_payload lib st sess n b off len = Some (Some (len + 16), b1, st1)
    \<and> wire = slice b1 off (len + 16)
    \<and> (\<exists>st2. crypto_pqc_decrypt_payload_resilient lib st' receiver n (patch b' off' wire) off' (len + 16) =
        Some (Some len, patch (patch b' off' wire) off' (slice b off len), st2))"
proof -
  obtain e where e: "ctx_keys receiver = ctx_keys (packet_crypto_refresh_pqc_keys [br] e)" "ctx_wf e" "ctx_pqc_from_handshake e"
    "ctx_policy_id e = pb_policy_id br" using refreshed_lookup_keys [OF assms(7)] .
  have sk: "sess_key sess = ctx_keys sender ! KEY_SLOT_CURRENT" using sess_load_ok [OF assms(8,11)] by (simp add: key_slot_defs)
  have "sess_key sess \<in> set (ctx_keys receiver)" using assms(6)
  proof
    assume "refreshed_lookup bs sender"
    then obtain d where d: "ctx_keys sender = ctx_keys (packet_crypto_refresh_pqc_keys [bs] d)" "ctx_wf d" "ctx_pqc_from_handshake d"
      "ctx_policy_id d = pb_policy_id bs" using refreshed_lookup_keys by blast
    have "ctx_keys (packet_crypto_refresh_pqc_keys [bs] d) ! KEY_SLOT_CURRENT \<in> set (ctx_keys (packet_crypto_refresh_pqc_keys [br] e))"
      using assms(5) hitless [OF assms(1-4), of d e] hitless [OF assms(1-4), of e d] d(2-4) e(2-4) by auto
    then show ?thesis using sk d(1) e(1) by simp
  next
    assume late: "late_sender s' bs br sender"
    then obtain b0 where b0: "refreshed_lookup b0 sender" "pb_key_slots_valid b0 ! KEY_SLOT_CURRENT" "cur_key b0 = pb_keys bs ! KEY_SLOT_PREV"
      by (auto simp: late_sender_def)
    obtain f where f: "ctx_wf f" "ctx_pqc_from_handshake f" "ctx_policy_id f = pb_policy_id bs"
      by (rule that [of "e\<lparr>ctx_policy_id := pb_policy_id bs\<rparr>"]) (use e(2,3) in \<open>simp_all add: ctx_wf_def\<close>)
    have "pb_keys bs ! KEY_SLOT_PREV \<in> set (ctx_keys (packet_crypto_refresh_pqc_keys [br] e))"
      using assms(5) late hitless [OF assms(1-4), of f e] hitless [OF assms(1-4), of e f] f e(2-4) by (auto simp: late_sender_def)
    then show ?thesis using sk e(1) b0(3) refreshed_current [OF b0(1,2)] by simp
  qed
  then show ?thesis
    using payload_survives_rotation [OF assms(10,8,11,12,9) _ assms(13-19)] by blast
qed

section \<open>The example run\<close>

definition toy_sender :: packet_crypto_ctx where "toy_sender = load_keys 0 [ini3] toy_ctx"
definition toy_receiver :: packet_crypto_ctx where "toy_receiver = load_keys 0 [res2] toy_ctx"

lemma toy_binding_slots:
  "pb_policy_id ini3 = 4" "pb_keys ini3 = [replicate 32 0, replicate 32 2, replicate 32 7]" "pb_key_slots_valid ini3 = [False, True, True]"
  "pb_policy_id res2 = 4" "pb_keys res2 = [replicate 32 2, replicate 32 7, replicate 32 0]" "pb_key_slots_valid res2 = [True, True, False]"
  by code_simp+

lemma toy_ctx_keys: "ctx_keys toy_sender = ctx_keys (example_ctx 0 2 7)" "ctx_keys toy_receiver = ctx_keys (example_ctx 2 7 0)"
proof -
  have "[0..<KEY_SLOT_COUNT] = [0, 1, 2]" by code_simp
  then show "ctx_keys toy_sender = ctx_keys (example_ctx 0 2 7)" "ctx_keys toy_receiver = ctx_keys (example_ctx 2 7 0)"
    by (simp_all add: toy_sender_def toy_receiver_def load_keys_def packet_crypto_refresh_pqc_keys_def pqc_load_handshake_slots_def
        sig_pqc_get_keys_def toy_ctx_def example_ctx_def toy_binding_slots wipe_key_bytes_def PQC_TRAFFIC_KEY_SZ_def)
qed

lemma toy_refreshed:
  assumes "pb_policy_id b = 4"
  shows "refreshed_lookup b (load_keys 0 [b] toy_ctx)"
proof -
  let ?rt = "demo_rt\<lparr>rt_ctx := [toy_ctx], rt_ready := [True]\<rparr>"
  obtain c rt' tls' where l: "policy_crypto_ctx_for_worker (int 0) 0 False
      (forwarder_pre_diversify_pqc_keys 0 [b] (ctx_profile_id (rt_ctx ?rt ! 0)) ?rt) demo_tls = (c, rt', tls')"
    by (metis prod.exhaust)
  then have "c = load_keys 0 [b] toy_ctx"
    by (auto simp: policy_crypto_ctx_for_worker_def policy_crypto_sync_worker_def valid_worker_def NE_CRYPTO_WORKERS_def demo_tls_def
        forwarder_pre_diversify_pqc_keys_def policy_crypto_publish_def demo_rt_def)
  moreover have "ctx_wf toy_ctx" "ctx_pqc_from_handshake toy_ctx" "ctx_policy_id toy_ctx = 4"
    using example_ctx_wf [of 0 2 0] by (simp_all add: toy_ctx_def)
  ultimately show ?thesis unfolding refreshed_lookup_def using l assms
    by (intro exI [of _ ?rt] exI [of _ demo_tls] exI [of _ 0] exI [of _ rt'] exI [of _ tls'])
      (simp add: NE_CRYPTO_WORKERS_def copies_current_def demo_tls_def demo_rt_def)
qed

theorem rotation_loses_no_packet_witness:
  "\<exists>wire b1 st1. crypto_pqc_encrypt_payload xor_lib example_state \<lparr>sess_key = replicate 32 2, sess_aad = HARDCODED_AAD, sess_aad_len = 12\<rparr>
       (replicate 12 0) (replicate 40 1) 4 10 = Some (Some (10 + 16), b1, st1)
    \<and> wire = slice b1 4 (10 + 16)
    \<and> (\<exists>st2. crypto_pqc_decrypt_payload_resilient xor_lib example_state toy_receiver (replicate 12 0) (patch (replicate 50 9) 6 wire) 6 (10 + 16) =
        Some (Some 10, patch (patch (replicate 50 9) 6 wire) 6 (slice (replicate 40 1) 4 10), st2))"
proof (rule rotation_loses_no_packet [OF toy_synced toy_run])
  show "\<not> ct_replayed toy_mid" by (simp add: toy_mid_def)
  show "\<forall>x h. hl_sha256 toy_lib x = Some h \<longrightarrow> length h = 32" by (auto simp: toy_lib_def)
  show "(ini3, res2) = (ct_ini toy_mid, ct_res toy_mid) \<or> (ini3, res2) = (ct_res toy_mid, ct_ini toy_mid)" by (simp add: toy_mid_def)
  have looked: "refreshed_lookup ini3 toy_sender" "refreshed_lookup res2 toy_receiver"
    unfolding toy_sender_def toy_receiver_def by (rule toy_refreshed, rule toy_binding_slots)+
  then show "refreshed_lookup ini3 toy_sender \<or> late_sender toy_mid ini3 res2 toy_sender" "refreshed_lookup res2 toy_receiver" by simp_all
  show "ctx_wf toy_sender" "ctx_wf toy_receiver" using example_ctx_wf toy_ctx_keys by (simp_all add: ctx_wf_def)
  show "scrypt_gcm xor_lib xor_enc xor_tag" by (rule xor_lib_gcm)
  have "crypto_pqc_sess_load toy_sender = crypto_pqc_sess_load (example_ctx 0 2 7)"
    by (simp add: crypto_pqc_sess_load_def packet_crypto_get_key_def toy_ctx_keys)
  then show "crypto_pqc_sess_load toy_sender = Some \<lparr>sess_key = replicate 32 2, sess_aad = HARDCODED_AAD, sess_aad_len = 12\<rparr>"
    using example_sess_load [of 2 0 7] by simp
  show "keys_told_apart xor_lib xor_enc xor_tag toy_receiver
      (sess_key \<lparr>sess_key = replicate 32 2, sess_aad = HARDCODED_AAD, sess_aad_len = 12\<rparr>) (replicate 12 0) (slice (replicate 40 1) 4 10)"
    using example_told_apart [of 2 7 0 2] by (simp add: keys_told_apart_def toy_ctx_keys)
qed (simp_all add: xor_ready(1))

end
