(* ===== verification/Mac_Learn.thy ===== *)
theory Mac_Learn
  imports Wan_Scheduler
begin

text \<open>
  Learning of stations, \<open>src/core/flow/mac_learn.c\<close>: which ARP packets teach the table of \<open>Mac_Table\<close>, the lookups of the
  dataplane, the stamps that tell an ARP packet relayed from the WAN from one of a LAN client, the removal of ports that
  have left the configuration, and the file in which the table survives a restart. Each operation runs under the lock of
  the table. The file is its text, or \<open>None\<close> when it cannot be opened; what the system calls answer is the record
  \<open>mac_io\<close>. Log output is not represented.
\<close>

section \<open>Stamps of relayed ARP packets\<close>

definition MAC_RELAY_STAMP_MAX :: nat where "MAC_RELAY_STAMP_MAX = 32"
definition MAC_RELAY_TTL_MS :: u64 where "MAC_RELAY_TTL_MS = 3000"

record mac_relay_entry =
  ml_smac :: buf
  ml_spa_be :: u32
  ml_expire_ms :: u64

record mac_relay =
  mr_entries :: "mac_relay_entry list"
  mr_next :: nat

definition mac_relay_init :: mac_relay where
  "mac_relay_init = \<lparr>mr_entries = replicate MAC_RELAY_STAMP_MAX \<lparr>ml_smac = replicate MAC_LEN 0, ml_spa_be = 0, ml_expire_ms = 0\<rparr>,
     mr_next = 0\<rparr>"

definition mac_relay_stamp :: "u64 \<Rightarrow> buf \<Rightarrow> u32 \<Rightarrow> mac_relay \<Rightarrow> mac_relay" where
  "mac_relay_stamp now smac spa_be g =
     g\<lparr>mr_entries := (mr_entries g)[mr_next g := \<lparr>ml_smac = smac, ml_spa_be = spa_be, ml_expire_ms = now + MAC_RELAY_TTL_MS\<rparr>],
       mr_next := (mr_next g + 1) mod MAC_RELAY_STAMP_MAX\<rparr>"

definition mac_relay_recent :: "u64 \<Rightarrow> buf \<Rightarrow> u32 \<Rightarrow> mac_relay \<Rightarrow> bool" where
  "mac_relay_recent now smac spa_be g \<longleftrightarrow>
     list_ex (\<lambda>e. \<not> ml_expire_ms e \<le> now \<and> ml_spa_be e = spa_be \<and> ml_smac e = smac) (mr_entries g)"

section \<open>Ports\<close>

definition ne_pair_local_live :: "ne_pair \<Rightarrow> int \<Rightarrow> bool" where
  "ne_pair_local_live p pair_local_idx \<longleftrightarrow>
     0 \<le> pair_local_idx \<and> pair_local_idx < pr_local_count p \<and> pr_local_live p ! nat pair_local_idx"

definition ifname_in_configured_locals :: "forwarder \<Rightarrow> string \<Rightarrow> bool" where
  "ifname_in_configured_locals fwd ifname \<longleftrightarrow>
     ifname \<noteq> [] \<and> (list_ex (\<lambda>i. fw_local_ifnames fwd ! i = ifname) [0..<nat (fw_local_count fwd)]
       \<or> ifname \<in> set (ac_locals (fw_cfg fwd)))"

definition ingress_idx_by_ifname :: "forwarder \<Rightarrow> string \<Rightarrow> int" where
  "ingress_idx_by_ifname fwd ifname =
     (case find (\<lambda>i. ne_pair_local_live (fw_pair fwd) (int i) \<and> fw_local_ifnames fwd ! i = ifname) [0..<nat (fw_local_count fwd)] of
        None \<Rightarrow> -1 | Some i \<Rightarrow> int i)"

definition mac_fwd_local_for_cfg_idx :: "forwarder \<Rightarrow> int \<Rightarrow> int" where
  "mac_fwd_local_for_cfg_idx fwd cfg_li =
     (if cfg_li < 0 \<or> cfg_li \<ge> int (length (ac_locals (fw_cfg fwd))) then -1
      else let ifname = ac_locals (fw_cfg fwd) ! nat cfg_li in
        if ifname = [] then -1 else ingress_idx_by_ifname fwd ifname)"

text \<open>The LAN port of the first usable bridge of a WAN.\<close>

definition bridge_local :: "app_config \<Rightarrow> profile_config \<Rightarrow> int \<Rightarrow> string option" where
  "bridge_local cfg prof wan_dp =
     (case find (\<lambda>b. bp_wan_dp b = wan_dp \<and> 0 \<le> bp_local_idx b \<and> bp_local_idx b < int (length (ac_locals cfg))
          \<and> ac_locals cfg ! nat (bp_local_idx b) \<noteq> []) (pf_bridges prof) of
        None \<Rightarrow> None | Some b \<Rightarrow> Some (if_name (ac_locals cfg ! nat (bp_local_idx b))))"

definition mac_fwd_local_for_wan_dp :: "forwarder \<Rightarrow> int \<Rightarrow> int \<Rightarrow> int" where
  "mac_fwd_local_for_wan_dp fwd profile_pi wan_dp =
     (let cfg = fw_cfg fwd in
      if profile_pi < 0 \<or> profile_pi \<ge> int (length (ac_profiles cfg)) then -1
      else let prof = ac_profiles cfg ! nat profile_pi in
        if \<not> pf_enabled prof then -1
        else case bridge_local cfg prof wan_dp of None \<Rightarrow> -1 | Some ifname \<Rightarrow> ingress_idx_by_ifname fwd ifname)"

section \<open>The file\<close>

text \<open>Answers of the system: whether the directory exists, the temporary file can be written and renamed, a socket can be
  opened, and the hardware address of an interface.\<close>

record mac_io =
  io_dir_ok :: bool
  io_tmp_ok :: bool
  io_rename_ok :: bool
  io_sock_ok :: bool
  io_hwaddr :: "string \<Rightarrow> buf option"

definition newline :: char where "newline = CHR 0x0A"

text \<open>\<open>fgets\<close> with a buffer of \<open>n + 1\<close> characters.\<close>

primrec fgets :: "nat \<Rightarrow> string \<Rightarrow> string \<times> string" where
  "fgets 0 s = ([], s)"
| "fgets (Suc n) s =
     (case s of
        [] \<Rightarrow> ([], [])
      | c # s \<Rightarrow> if c = newline then ([c], s) else (case fgets n s of (line, rest) \<Rightarrow> (c # line, rest)))"

lemma fgets_rest: "length (snd (fgets n s)) \<le> length s"
proof (induction n arbitrary: s)
  case (Suc n)
  show ?case
  proof (cases s)
    case (Cons c s')
    with Suc [of s'] show ?thesis by (auto split: prod.split)
  qed simp
qed simp

lemma fgets_shorter: "s \<noteq> [] \<Longrightarrow> length (snd (fgets (Suc n) s)) < length s"
  using fgets_rest [of n "tl s"] by (cases s) (auto split: prod.split)

function fgets_lines :: "string \<Rightarrow> string list" where
  "fgets_lines s = (if s = [] then [] else case fgets 255 s of (line, rest) \<Rightarrow> line # fgets_lines rest)"
  by pat_completeness auto
termination
  by (relation "measure length") (use fgets_shorter [of _ 254] in \<open>force simp: prod_eq_iff\<close>)+

text \<open>The conversions \<open>%<width>s\<close> and \<open>%x\<close> of \<open>sscanf\<close>: white space before them is skipped, and a conversion fails where no
  character fits. The value of \<open>%x\<close> is the one of \<open>strtoul\<close>, of which the caller keeps the last byte.\<close>

definition c_string :: "string \<Rightarrow> string" where
  "c_string s = takeWhile (\<lambda>c. c \<noteq> CHR 0x00) s"

definition scan_word :: "nat \<Rightarrow> string \<Rightarrow> (string \<times> string) option" where
  "scan_word width s =
     (let s = dropWhile is_c_space s; w = takeWhile (\<lambda>c. \<not> is_c_space c) (take width s)
      in if s = [] then None else Some (w, drop (length w) s))"

definition xdigit :: "char \<Rightarrow> nat option" where
  "xdigit c = (let n = of_char c in
     if 48 \<le> n \<and> n \<le> 57 then Some (n - 48) else if 97 \<le> n \<and> n \<le> 102 then Some (n - 87)
     else if 65 \<le> n \<and> n \<le> 70 then Some (n - 55) else None)"

definition scan_hex :: "string \<Rightarrow> (u8 \<times> string) option" where
  "scan_hex s =
     (let s = dropWhile is_c_space s;
          neg = (s \<noteq> [] \<and> hd s = CHR ''-'');
          s = (if s \<noteq> [] \<and> (hd s = CHR ''-'' \<or> hd s = CHR ''+'') then tl s else s);
          s = (if take 2 s = ''0x'' \<or> take 2 s = ''0X'' then drop 2 s else s);
          ds = takeWhile (\<lambda>c. xdigit c \<noteq> None) s;
          v = min (foldl (\<lambda>acc c. acc * 16 + the (xdigit c)) 0 ds) (2 ^ 64 - 1)
      in if ds = [] then None
         else Some (if neg \<and> v < 2 ^ 64 - 1 then - of_nat v else of_nat v, dropWhile (\<lambda>c. xdigit c \<noteq> None) s))"

fun scan_macs :: "nat \<Rightarrow> string \<Rightarrow> buf option" where
  "scan_macs 0 s = Some []"
| "scan_macs (Suc n) s = do {
     (b, s) \<leftarrow> scan_hex s;
     if n = 0 then Some [b]
     else case s of
         c # s \<Rightarrow> if c = CHR '':'' then do { bs \<leftarrow> scan_macs n s; Some (b # bs) } else None
       | [] \<Rightarrow> None }"

definition parse_mac_colon :: "string \<Rightarrow> buf option" where
  "parse_mac_colon s = scan_macs MAC_LEN s"

text \<open>A line of the file that is not a comment: the name of a port and the text of an address.\<close>

definition is_comment :: "string \<Rightarrow> bool" where
  "is_comment line \<longleftrightarrow> line = [] \<or> hd line = CHR ''#'' \<or> hd line = newline \<or> hd line = CHR 0x0D"

definition scan_line :: "string \<Rightarrow> (string \<times> string) option" where
  "scan_line line = do {
     (ifname, rest) \<leftarrow> scan_word 15 (c_string line);
     (mac_s, rest) \<leftarrow> scan_word 23 rest;
     Some (ifname, mac_s) }"

definition mac_fdb_log_has_entries :: "string option \<Rightarrow> nat" where
  "mac_fdb_log_has_entries file =
     (case file of None \<Rightarrow> 0
      | Some text \<Rightarrow> length (filter (\<lambda>line. \<not> is_comment line \<and> scan_line line \<noteq> None) (fgets_lines text)))"

definition merge_find_mac :: "mac_learn_entry list \<Rightarrow> buf \<Rightarrow> nat option" where
  "merge_find_mac es mac = find (\<lambda>i. me_mac (es ! i) = mac) [0..<length es]"

text \<open>The three stages of the merge: the entries of the file, the table over them, and without the entries of ports that
  are configured but not in the table.\<close>

definition seed_entry :: "mac_learn_table \<Rightarrow> string \<Rightarrow> mac_learn_entry list \<Rightarrow> mac_learn_entry list" where
  "seed_entry t line merged =
     (if length merged \<ge> MAC_LEARN_MAX_ENTRIES \<or> is_comment line then merged
      else case scan_line line of
          None \<Rightarrow> merged
        | Some (ifname, mac_s) \<Rightarrow> (case parse_mac_colon mac_s of
              None \<Rightarrow> merged
            | Some mac \<Rightarrow>
                if mac_is_zero mac \<or> mac_is_multicast mac \<or> mac_is_local_iface_locked t mac then merged
                else if merge_find_mac merged mac \<noteq> None then merged
                else merged @ [\<lparr>me_mac = mac, me_ifname = if_name ifname\<rparr>]))"

definition overlay_entry :: "mac_learn_entry \<Rightarrow> mac_learn_entry list \<Rightarrow> mac_learn_entry list" where
  "overlay_entry e merged =
     (case merge_find_mac merged (me_mac e) of
        Some i \<Rightarrow> merged[i := (merged ! i)\<lparr>me_ifname := if_name (me_ifname e)\<rparr>]
      | None \<Rightarrow> if length merged < MAC_LEARN_MAX_ENTRIES then merged @ [e] else merged)"

definition merged_entries :: "forwarder \<Rightarrow> mac_learn_table \<Rightarrow> string option \<Rightarrow> mac_learn_entry list" where
  "merged_entries fwd t file =
     (let merged = (case file of None \<Rightarrow> [] | Some text \<Rightarrow> fold (seed_entry t) (fgets_lines text) []);
          merged = fold overlay_entry (mt_list t) merged
      in filter (\<lambda>e. me_mac e \<in> me_mac ` set (mt_list t) \<or> \<not> ifname_in_configured_locals fwd (me_ifname e)) merged)"

definition hex_digit :: "nat \<Rightarrow> char" where
  "hex_digit n = char_of (if n < 10 then n + 48 else n + 87)"

definition hex2 :: "u8 \<Rightarrow> string" where
  "hex2 b = [hex_digit (unat b div 16), hex_digit (unat b mod 16)]"

fun mac_text :: "buf \<Rightarrow> string" where
  "mac_text [] = []"
| "mac_text [b] = hex2 b"
| "mac_text (b # bs) = hex2 b @ CHR '':'' # mac_text bs"

definition entry_text :: "mac_learn_entry \<Rightarrow> string" where
  "entry_text e = (if me_ifname e \<noteq> [] then me_ifname e else ''-'') @ CHR '' '' # mac_text (me_mac e) @ [newline]"

text \<open>The first line of the file is a comment; the dash in it stands for three bytes of UTF-8.\<close>

definition file_header :: string where
  "file_header = ''# NE MAC LAN FDB v2 '' @ [CHR 0xE2, CHR 0x80, CHR 0x94]
     @ '' ifname mac (one client MAC per LAN port)'' @ [newline]"

definition file_text :: "mac_learn_entry list \<Rightarrow> string" where
  "file_text es = file_header @ concat (map entry_text es)"

definition mac_fdb_persist_save_locked :: "mac_io \<Rightarrow> forwarder \<Rightarrow> mac_learn_table \<Rightarrow> string option \<Rightarrow> string option" where
  "mac_fdb_persist_save_locked io fwd t file =
     (if \<not> io_dir_ok io then file
      else if mt_list t = [] \<and> mac_fdb_log_has_entries file > 0 then file
      else if \<not> io_tmp_ok io then file
      else if \<not> io_rename_ok io then file
      else Some (file_text (merged_entries fwd t file)))"

text \<open>One line of the file when it is read back: the table and the number of entries taken, or \<open>Inr\<close> when the table is full
  and the reading ends. The index is not renewed while the lines are read.\<close>

definition load_line :: "forwarder \<Rightarrow> string \<Rightarrow> mac_learn_table \<times> nat \<Rightarrow> ((mac_learn_table \<times> nat) + unit) option" where
  "load_line fwd line = (\<lambda>(t, loaded).
     if is_comment line then Some (Inl (t, loaded))
     else case scan_line line of
         None \<Rightarrow> Some (Inl (t, loaded))
       | Some (ifname, mac_s) \<Rightarrow>
           if \<not> ifname_in_configured_locals fwd ifname then Some (Inl (t, loaded))
           else case parse_mac_colon mac_s of
               None \<Rightarrow> Some (Inl (t, loaded))
             | Some mac \<Rightarrow>
                 if mac_is_zero mac \<or> mac_is_multicast mac \<or> mac_is_local_iface_locked t mac then Some (Inl (t, loaded))
                 else case port_idx (mt_list t) ifname of
                     Some i \<Rightarrow> Some (Inl (t\<lparr>mt_list := (mt_list t)[i := (mt_list t ! i)\<lparr>me_mac := mac\<rparr>]\<rparr>, loaded + 1))
                   | None \<Rightarrow> do {
                       idx \<leftarrow> find_idx_by_mac_locked t mac;
                       if idx \<ge> 0 then Some (Inl (t, loaded))
                       else if length (mt_list t) \<ge> MAC_LEARN_MAX_ENTRIES then Some (Inr ())
                       else Some (Inl (t\<lparr>mt_list := mt_list t @ [\<lparr>me_mac = mac, me_ifname = if_name ifname\<rparr>]\<rparr>, loaded + 1)) })"

primrec load_lines :: "forwarder \<Rightarrow> string list \<Rightarrow> mac_learn_table \<times> nat \<Rightarrow> (mac_learn_table \<times> nat) option" where
  "load_lines fwd [] s = Some s"
| "load_lines fwd (line # lines) s = do {
     r \<leftarrow> load_line fwd line s;
     case r of Inr _ \<Rightarrow> Some s | Inl s \<Rightarrow> load_lines fwd lines s }"

definition mac_fdb_persist_load_locked :: "forwarder \<Rightarrow> string option \<Rightarrow> mac_learn_table \<Rightarrow> (nat \<times> mac_learn_table) option" where
  "mac_fdb_persist_load_locked fwd file t =
     (case file of
        None \<Rightarrow> Some (0, t)
      | Some text \<Rightarrow> do {
          (t, loaded) \<leftarrow> load_lines fwd (fgets_lines text) (t, 0);
          Some (loaded, if loaded > 0 then hash_rebuild_locked (enforce_one_mac_per_ifname_locked t) else t) })"

section \<open>Operations\<close>

definition set_macs :: "mac_learn_table \<Rightarrow> forwarder \<Rightarrow> forwarder" where
  "set_macs t fwd = fwd\<lparr>fw_mac_table := t\<rparr>"

datatype mac_learn_src = MAC_LEARN_SRC_TRAFFIC | MAC_LEARN_SRC_ARP

text \<open>Learning and saving are one step here. When the table has changed, the code releases the lock for a moment
  between the two, to print the table (\<open>log_mac_runtime_table_from_locked\<close>); what another thread learns in that moment
  is then in the file already with the first save.\<close>

definition table_learn :: "mac_io \<Rightarrow> string \<Rightarrow> buf \<Rightarrow> mac_learn_src \<Rightarrow> forwarder \<times> string option \<Rightarrow> (forwarder \<times> string option) option" where
  "table_learn io ifname mac src = (\<lambda>(fwd, file).
     if ifname = [] then Some (fwd, file)
     else if src \<noteq> MAC_LEARN_SRC_ARP then Some (fwd, file)
     else if mac_is_zero mac \<or> mac_is_multicast mac then Some (fwd, file)
     else let t = fw_mac_table fwd in
       if mac_is_local_iface_locked t mac then Some (fwd, file)
       else do {
         let replaced = list_ex (\<lambda>e. me_ifname e = ifname \<and> me_mac e \<noteq> mac) (mt_list t);
         (r, t) \<leftarrow> upsert_locked ifname mac t;
         let fwd = set_macs t fwd;
         Some (fwd, if r = MAC_UPSERT_NEW \<or> r = MAC_UPSERT_MOVE \<or> replaced then mac_fdb_persist_save_locked io fwd t file else file) })"

definition mac_learn :: "mac_io \<Rightarrow> int \<Rightarrow> buf \<Rightarrow> nat \<Rightarrow> mac_learn_src \<Rightarrow> forwarder \<times> string option \<Rightarrow> (forwarder \<times> string option) mem" where
  "mac_learn io ingress_idx pkt len src = (\<lambda>(fwd, file).
     if len < 14 \<or> ingress_idx < 0 \<or> ingress_idx \<ge> fw_local_count fwd then Some (fwd, file)
     else if \<not> ne_pair_local_live (fw_pair fwd) ingress_idx then Some (fwd, file)
     else if src \<noteq> MAC_LEARN_SRC_ARP then Some (fwd, file)
     else do {
       arp \<leftarrow> dp_pkt_is_arp pkt len;
       if \<not> arp then Some (fwd, file)
       else do {
         eth_src \<leftarrow> rdn pkt MAC_LEN MAC_LEN;
         if mac_is_zero eth_src \<or> mac_is_multicast eth_src then Some (fwd, file)
         else table_learn io (fw_local_ifnames fwd ! nat ingress_idx) eth_src src (fwd, file) } })"

definition mac_lookup :: "forwarder \<Rightarrow> buf \<Rightarrow> int option" where
  "mac_lookup fwd mac = do {
     r \<leftarrow> table_lookup (fw_mac_table fwd) mac;
     Some (case r of None \<Rightarrow> -1 | Some ifname \<Rightarrow> ingress_idx_by_ifname fwd ifname) }"

definition mac_is_appliance_mac :: "forwarder \<Rightarrow> buf \<Rightarrow> bool" where
  "mac_is_appliance_mac fwd mac = mac_is_local_iface_locked (fw_mac_table fwd) mac"

definition table_purge_orphan_locked :: "forwarder \<Rightarrow> mac_learn_table \<Rightarrow> nat \<times> mac_learn_table" where
  "table_purge_orphan_locked fwd t =
     (let kept = filter (\<lambda>e. ifname_in_configured_locals fwd (me_ifname e)) (mt_list t);
          purge_count = length (mt_list t) - length kept
      in (purge_count, if purge_count > 0 then hash_rebuild_locked (t\<lparr>mt_list := kept\<rparr>) else t))"

definition table_maintain :: "forwarder \<Rightarrow> forwarder" where
  "table_maintain fwd = set_macs (snd (table_purge_orphan_locked fwd (fw_mac_table fwd))) fwd"

definition mac_learn_tick :: "forwarder \<Rightarrow> forwarder" where
  "mac_learn_tick fwd = table_maintain fwd"

definition refresh_iface_macs_add :: "mac_io \<Rightarrow> string \<Rightarrow> buf list \<Rightarrow> buf list" where
  "refresh_iface_macs_add io ifname macs =
     (if ifname = [] \<or> length macs \<ge> MAX_INTERFACES then macs
      else case io_hwaddr io (if_name ifname) of
          None \<Rightarrow> macs
        | Some hw \<Rightarrow> if mac_is_zero hw \<or> mac_is_multicast hw then macs else if hw \<in> set macs then macs else macs @ [hw])"

definition refresh_iface_macs_locked :: "mac_io \<Rightarrow> forwarder \<Rightarrow> mac_learn_table \<Rightarrow> mac_learn_table" where
  "refresh_iface_macs_locked io fwd t =
     t\<lparr>mt_iface_macs := (if \<not> io_sock_ok io then []
        else fold (refresh_iface_macs_add io)
          (map (\<lambda>i. fw_local_ifnames fwd ! i) [0..<nat (fw_local_count fwd)] @ ac_locals (fw_cfg fwd)) [])\<rparr>"

definition mac_learn_refresh_iface_macs :: "mac_io \<Rightarrow> forwarder \<Rightarrow> forwarder" where
  "mac_learn_refresh_iface_macs io fwd =
     set_macs (purge_local_iface_macs_locked (refresh_iface_macs_locked io fwd (fw_mac_table fwd))) fwd"

definition mac_learn_persist :: "mac_io \<Rightarrow> forwarder \<Rightarrow> string option \<Rightarrow> string option" where
  "mac_learn_persist io fwd file = mac_fdb_persist_save_locked io fwd (fw_mac_table fwd) file"

definition mac_learn_restore :: "mac_io \<Rightarrow> forwarder \<times> string option \<Rightarrow> (forwarder \<times> string option) option" where
  "mac_learn_restore io = (\<lambda>(fwd, file). do {
     let fwd = mac_learn_refresh_iface_macs io fwd;
     (loaded, t) \<leftarrow> mac_fdb_persist_load_locked fwd file (fw_mac_table fwd);
     let t = enforce_one_mac_per_ifname_locked (purge_local_iface_macs_locked t);
     let fwd = set_macs t fwd;
     Some (fwd, if loaded > 0 then mac_fdb_persist_save_locked io fwd t file else file) })"

definition mac_learn_bootstrap :: "forwarder \<Rightarrow> forwarder" where
  "mac_learn_bootstrap fwd = set_macs table_init fwd"

section \<open>The table keeps its promises\<close>

lemma upsert_length:
  "upsert_locked p mac t = Some (r, t') \<Longrightarrow> length (mt_list t') \<le> Suc (length (mt_list t))"
  by (auto simp: upsert_locked_def Let_def bind_eq_Some_conv split: if_splits option.splits)

lemma set_macs_simps [simp]: "fw_mac_table (set_macs t fwd) = t" "set_macs t (set_macs t' fwd) = set_macs t fwd"
  "fw_pair (set_macs t fwd) = fw_pair fwd" "fw_cfg (set_macs t fwd) = fw_cfg fwd"
  "fw_local_ifnames (set_macs t fwd) = fw_local_ifnames fwd" "fw_local_count (set_macs t fwd) = fw_local_count fwd"
  by (simp_all add: set_macs_def)

lemma table_learn_ok:
  assumes ok: "table_ok (fw_mac_table fwd)" and m: "station mac" "mac \<notin> set (mt_iface_macs (fw_mac_table fwd))" and p: "port_name p"
  obtains t' file' where "table_learn io p mac MAC_LEARN_SRC_ARP (fwd, file) = Some (set_macs t' fwd, file')" "table_ok t'"
    "mt_iface_macs t' = mt_iface_macs (fw_mac_table fwd)" "length (mt_list t') \<le> Suc (length (mt_list (fw_mac_table fwd)))"
    "fdb_room p mac (fw_mac_table fwd) \<Longrightarrow> fdb_learnt p mac (mac_fdb (fw_mac_table fwd)) (mac_fdb t')"
    "\<not> fdb_room p mac (fw_mac_table fwd) \<Longrightarrow> t' = fw_mac_table fwd"
proof -
  obtain r t' where t': "upsert_locked p mac (fw_mac_table fwd) = Some (r, t')" "table_ok t'"
    "mt_iface_macs t' = mt_iface_macs (fw_mac_table fwd)"
    "fdb_room p mac (fw_mac_table fwd) \<Longrightarrow> fdb_learnt p mac (mac_fdb (fw_mac_table fwd)) (mac_fdb t')"
    "\<not> fdb_room p mac (fw_mac_table fwd) \<Longrightarrow> t' = fw_mac_table fwd"
    using upsert_correct [OF ok m(1) p] by blast
  have p': "p \<noteq> []" using p by (simp add: port_name_def)
  have "\<exists>file'. table_learn io p mac MAC_LEARN_SRC_ARP (fwd, file) = Some (set_macs t' fwd, file')"
    using m p' t'(1) by (simp add: table_learn_def station_def mac_is_local_iface_locked_def Let_def)
  then show ?thesis using t' upsert_length [OF t'(1)] that by blast
qed

interpretation fdb: forwarding_db
  "\<lambda>s. table_ok (fw_mac_table (fst s)) \<and> mt_iface_macs (fw_mac_table (fst s)) = I"
  "\<lambda>s. mac_fdb (fw_mac_table (fst s))"
  "\<lambda>s. length (mt_list (fw_mac_table (fst s)))"
  "\<lambda>p m s. fdb_room p m (fw_mac_table (fst s))"
  "\<lambda>p m. station m \<and> port_name p \<and> m \<notin> set I"
  "\<lambda>p m. table_learn io p m MAC_LEARN_SRC_ARP"
  "\<lambda>s. table_lookup (fw_mac_table (fst s))"
  MAC_LEARN_MAX_ENTRIES
  for I :: "buf list" and io :: mac_io
proof
  fix s :: "forwarder \<times> string option" and m
  assume "table_ok (fw_mac_table (fst s)) \<and> mt_iface_macs (fw_mac_table (fst s)) = I"
  then show "table_lookup (fw_mac_table (fst s)) m = Some (mac_fdb (fw_mac_table (fst s)) m)"
    by (simp add: table_lookup_correct)
next
  fix s :: "forwarder \<times> string option" and m p
  assume s: "table_ok (fw_mac_table (fst s)) \<and> mt_iface_macs (fw_mac_table (fst s)) = I"
    and e: "station m \<and> port_name p \<and> m \<notin> set I"
  obtain fwd fl where sp: "s = (fwd, fl)" by (cases s)
  from s e sp obtain t' file' where t': "table_learn io p m MAC_LEARN_SRC_ARP s = Some (set_macs t' fwd, file')" "table_ok t'"
    "mt_iface_macs t' = I" "length (mt_list t') \<le> Suc (length (mt_list (fw_mac_table fwd)))"
    "fdb_room p m (fw_mac_table fwd) \<Longrightarrow> fdb_learnt p m (mac_fdb (fw_mac_table fwd)) (mac_fdb t')"
    "\<not> fdb_room p m (fw_mac_table fwd) \<Longrightarrow> t' = fw_mac_table fwd"
    using table_learn_ok [of fwd m p io fl] by auto
  then show "\<exists>s'. table_learn io p m MAC_LEARN_SRC_ARP s = Some s' \<and>
      (table_ok (fw_mac_table (fst s')) \<and> mt_iface_macs (fw_mac_table (fst s')) = I) \<and>
      length (mt_list (fw_mac_table (fst s'))) \<le> Suc (length (mt_list (fw_mac_table (fst s)))) \<and>
      (fdb_room p m (fw_mac_table (fst s)) \<longrightarrow> mac_fdb (fw_mac_table (fst s')) m = Some p \<and>
        (\<forall>x. x \<noteq> m \<longrightarrow> mac_fdb (fw_mac_table (fst s')) x = mac_fdb (fw_mac_table (fst s)) x \<or>
          mac_fdb (fw_mac_table (fst s)) x = Some p \<and> mac_fdb (fw_mac_table (fst s')) x = None)) \<and>
      (\<not> fdb_room p m (fw_mac_table (fst s)) \<longrightarrow> mac_fdb (fw_mac_table (fst s')) = mac_fdb (fw_mac_table (fst s)))"
    using sp by (intro exI [of _ "(set_macs t' fwd, file')"]) (auto simp: fdb_learnt_def)
next
  fix s :: "forwarder \<times> string option" and m p
  assume "table_ok (fw_mac_table (fst s)) \<and> mt_iface_macs (fw_mac_table (fst s)) = I"
    and "length (mt_list (fw_mac_table (fst s))) < MAC_LEARN_MAX_ENTRIES"
  then show "fdb_room p m (fw_mac_table (fst s))" by (simp add: fdb_room_def)
qed (simp add: fdb_room_def)

lemma table_init_ok: "table_ok table_init" "mac_fdb table_init = Map.empty" "mt_list table_init = []" "mt_iface_macs table_init = []"
  by (simp_all add: table_ok_def index_fields mac_fdb_def table_init_def)

text \<open>The observations of the LAN clients: a list of ports and addresses, in order.\<close>

definition learn_arps :: "mac_io \<Rightarrow> (string \<times> buf) list \<Rightarrow> forwarder \<times> string option \<Rightarrow> (forwarder \<times> string option) option" where
  "learn_arps io = learn_all (\<lambda>p m. table_learn io p m MAC_LEARN_SRC_ARP)"

text \<open>C19: the forwarding table is sound, and complete until it is full. From an empty table, any sequence of ARP observations
  of stations that are not the appliance's own is learnt without getting stuck. A lookup then answers a port only if the
  station was last heard of on this port, however many observations there were. It does answer with the port of an observation
  when fewer than 256 observations came before it, and neither its station nor its port was heard of after it.
  (The bound is needed: a table can be full with entries that nothing removes, and then a new station on a new port is
  not learnt; see the section on a full table below.)\<close>

theorem mac_table_sound_complete:
  assumes "\<forall>e \<in> set es. station (snd e) \<and> port_name (fst e)"
  shows "\<exists>fwd' file'. learn_arps io es (mac_learn_bootstrap fwd, file) = Some (fwd', file')
    \<and> (\<forall>mac. \<exists>r. table_lookup (fw_mac_table fwd') mac = Some r
        \<and> (\<forall>p. r = Some p \<longrightarrow> (\<exists>es1 es2. es = es1 @ (p, mac) # es2 \<and> mac \<notin> snd ` set es2))
        \<and> (\<forall>es1 p es2. es = es1 @ (p, mac) # es2 \<and> length es1 < MAC_LEARN_MAX_ENTRIES \<and> (\<forall>e \<in> set es2. fst e \<noteq> p \<and> snd e \<noteq> mac)
             \<longrightarrow> r = Some p))"
proof -
  let ?s = "(mac_learn_bootstrap fwd, file)"
  have ok: "table_ok (fw_mac_table (fst ?s)) \<and> mt_iface_macs (fw_mac_table (fst ?s)) = []"
    and empty: "mac_fdb (fw_mac_table (fst ?s)) = Map.empty" and len: "length (mt_list (fw_mac_table (fst ?s))) = 0"
    by (simp_all add: mac_learn_bootstrap_def table_init_ok)
  have legit: "\<forall>e \<in> set es. station (snd e) \<and> port_name (fst e) \<and> snd e \<notin> set []" using assms by simp
  obtain s' where s': "learn_arps io es ?s = Some s'" "table_ok (fw_mac_table (fst s'))"
    using fdb.learn_all_ok [OF ok legit, of io] unfolding learn_arps_def by blast
  let ?t = "fw_mac_table (fst s')"
  have find: "table_lookup ?t mac = Some (mac_fdb ?t mac)" for mac by (rule table_lookup_correct [OF s'(2)])
  have sound: "\<exists>es1 es2. es = es1 @ (p, mac) # es2 \<and> mac \<notin> snd ` set es2" if "mac_fdb ?t mac = Some p" for mac p
    by (rule fdb.found_was_learnt [OF ok empty legit s'(1) [unfolded learn_arps_def] that])
  have complete: "mac_fdb ?t mac = Some p"
    if "es = es1 @ (p, mac) # es2 \<and> length es1 < MAC_LEARN_MAX_ENTRIES \<and> (\<forall>e \<in> set es2. fst e \<noteq> p \<and> snd e \<noteq> mac)" for mac es1 p es2
  proof -
    have "\<exists>t'. learn_all (\<lambda>p m. table_learn io p m MAC_LEARN_SRC_ARP) (es1 @ (p, mac) # es2) ?s = Some t'
        \<and> (table_ok (fw_mac_table (fst t')) \<and> mt_iface_macs (fw_mac_table (fst t')) = [])
        \<and> table_lookup (fw_mac_table (fst t')) mac = Some (Some p)"
      using that legit len by (intro fdb.learnt_is_found [OF ok]) auto
    then show ?thesis using s'(1) that find [of mac] by (auto simp: learn_arps_def)
  qed
  have "learn_arps io es ?s = Some (fst s', snd s')" using s'(1) by simp
  moreover have "\<forall>mac. \<exists>r. table_lookup ?t mac = Some r
        \<and> (\<forall>p. r = Some p \<longrightarrow> (\<exists>es1 es2. es = es1 @ (p, mac) # es2 \<and> mac \<notin> snd ` set es2))
        \<and> (\<forall>es1 p es2. es = es1 @ (p, mac) # es2 \<and> length es1 < MAC_LEARN_MAX_ENTRIES \<and> (\<forall>e \<in> set es2. fst e \<noteq> p \<and> snd e \<noteq> mac)
             \<longrightarrow> r = Some p)"
    using find sound complete by blast
  ultimately show ?thesis by blast
qed

definition io_example :: mac_io where
  "io_example = \<lparr>io_dir_ok = True, io_tmp_ok = True, io_rename_ok = True, io_sock_ok = True, io_hwaddr = (\<lambda>_. None)\<rparr>"

definition mac_example :: "u8 \<Rightarrow> buf" where
  "mac_example n = [2, 0, 0, 0, 0, n]"

lemma station_example [simp]: "station (mac_example n)"
  by (simp add: station_def mac_example_def mac_is_zero_def mac_is_multicast_def MAC_LEN_def numeral_eq_Suc)

theorem mac_table_sound_complete_witness:
  "\<exists>fwd' file'. learn_arps io_example [(''lan1'', mac_example 1), (''lan2'', mac_example 2)] (mac_learn_bootstrap fwd_example, None) = Some (fwd', file')
    \<and> table_lookup (fw_mac_table fwd') (mac_example 1) = Some (Some ''lan1'')"
proof -
  let ?es = "[(''lan1'', mac_example 1), (''lan2'', mac_example 2)]"
  have es: "\<forall>e \<in> set ?es. station (snd e) \<and> port_name (fst e)" by (simp add: port_name_def IF_NAMESIZE_def)
  from mac_table_sound_complete [OF es, of io_example fwd_example None] obtain fwd' file' r where
    l: "learn_arps io_example ?es (mac_learn_bootstrap fwd_example, None) = Some (fwd', file')"
    and r: "table_lookup (fw_mac_table fwd') (mac_example 1) = Some r"
      "\<forall>es1 p es2. ?es = es1 @ (p, mac_example 1) # es2 \<and> length es1 < MAC_LEARN_MAX_ENTRIES
         \<and> (\<forall>e \<in> set es2. fst e \<noteq> p \<and> snd e \<noteq> mac_example 1) \<longrightarrow> r = Some p" by metis
  have "r = Some ''lan1''"
    using r(2) [rule_format, of "[]" "''lan1''" "[(''lan2'', mac_example 2)]"] by (simp add: mac_example_def MAC_LEARN_MAX_ENTRIES_def)
  with l r show ?thesis by blast
qed

text \<open>A station that is heard of on one port and then on another gets an entry on the second, beside the entry that this
  port has; the first port is left without one and takes the next station into a new entry.\<close>

definition roam :: "string \<Rightarrow> string \<Rightarrow> buf list \<Rightarrow> (string \<times> buf) list" where
  "roam p q macs = concat (map (\<lambda>m. [(p, m), (q, m)]) macs)"

definition entries_on :: "string \<Rightarrow> buf list \<Rightarrow> mac_learn_entry list" where
  "entries_on q macs = map (\<lambda>m. \<lparr>me_mac = m, me_ifname = q\<rparr>) macs"

lemma entries_on_no_port: "p \<noteq> q \<Longrightarrow> port_idx (entries_on q macs) p = None"
  by (simp add: port_idx_None entries_on_def)

lemma roam_step:
  assumes ok: "table_ok t" and l: "mt_list t = entries_on q macs" and m: "station m" "m \<notin> set macs"
    and pq: "port_name p" "port_name q" "p \<noteq> q" and room: "length macs < MAC_LEARN_MAX_ENTRIES"
  obtains t1 t2 where "upsert_locked p m t = Some (MAC_UPSERT_NEW, t1)" "upsert_locked q m t1 = Some (MAC_UPSERT_MOVE, t2)"
    "table_ok t2" "mt_list t2 = entries_on q (macs @ [m])" "mt_iface_macs t1 = mt_iface_macs t" "mt_iface_macs t2 = mt_iface_macs t"
proof -
  have new: "\<forall>e \<in> set (mt_list t). me_mac e \<noteq> m" using m(2) by (auto simp: l entries_on_def)
  have len: "length (mt_list t) = length macs" by (simp add: l entries_on_def)
  let ?t1 = "hash_rebuild_locked (t\<lparr>mt_list := mt_list t @ [\<lparr>me_mac = m, me_ifname = p\<rparr>]\<rparr>)"
  have ix: "index_ok t" using ok by (simp add: table_ok_def)
  obtain i where i: "find_idx_by_mac_locked t m = Some i" using find_idx_correct [OF ix] by blast
  have "i < 0" using mac_fdb_find(4) [OF ix i] new by simp
  then have e1: "upsert_locked p m t = Some (MAC_UPSERT_NEW, ?t1)"
    using i entries_on_no_port [OF pq(3), of macs] room pq(1) len by (simp add: upsert_locked_def Let_def l [symmetric])
  have ok1: "table_ok ?t1" using table_append(1) [OF ok m(1) new pq(1)] room len by simp
  have l1: "mt_list ?t1 = mt_list t @ [\<lparr>me_mac = m, me_ifname = p\<rparr>]" by simp
  have i1: "find_idx_by_mac_locked ?t1 m = Some (int (length macs))"
    using find_idx_correct [of ?t1 m] ok1 l1 len by (simp add: table_ok_def nth_append)
  let ?t2 = "?t1\<lparr>mt_list := (mt_list ?t1)[length macs := (mt_list ?t1 ! length macs)\<lparr>me_ifname := q\<rparr>]\<rparr>"
  have e2: "upsert_locked q m ?t1 = Some (MAC_UPSERT_MOVE, ?t2)"
    using i1 l1 len pq by (simp add: upsert_locked_def Let_def nth_append)
  have "table_ok ?t2" using l1 len by (intro table_move(1) [OF ok1 _ pq(2)]) simp
  moreover have "mt_list ?t2 = entries_on q (macs @ [m])"
    using l1 len by (simp add: list_update_append nth_append) (simp add: l entries_on_def)
  ultimately show ?thesis using e1 e2 by (intro that [of ?t1 ?t2]) simp_all
qed

lemma table_learn_upsert:
  assumes "upsert_locked p m (fw_mac_table fwd) = Some (r, t)" "station m" "port_name p" "m \<notin> set (mt_iface_macs (fw_mac_table fwd))"
  shows "\<exists>fl'. table_learn io p m MAC_LEARN_SRC_ARP (fwd, fl) = Some (set_macs t fwd, fl')"
  using assms by (simp add: table_learn_def station_def port_name_def mac_is_local_iface_locked_def Let_def)

lemma learn_arps_append:
  "learn_arps io (es @ fs) s = (case learn_arps io es s of None \<Rightarrow> None | Some s' \<Rightarrow> learn_arps io fs s')"
  unfolding learn_arps_def by (rule fdb.learn_all_append)

lemma roam_fills:
  assumes "distinct macs" "\<forall>m \<in> set macs. station m" "port_name p" "port_name q" "p \<noteq> q" "length macs \<le> MAC_LEARN_MAX_ENTRIES"
  shows "\<exists>t fl'. learn_arps io (roam p q macs) (mac_learn_bootstrap fwd, fl) = Some (set_macs t fwd, fl')
    \<and> table_ok t \<and> mt_list t = entries_on q macs \<and> mt_iface_macs t = []"
  using assms
proof (induction macs rule: rev_induct)
  case Nil
  show ?case by (auto simp: roam_def entries_on_def learn_arps_def mac_learn_bootstrap_def table_init_ok)
next
  case (snoc m macs)
  then obtain t fl1 where t: "learn_arps io (roam p q macs) (mac_learn_bootstrap fwd, fl) = Some (set_macs t fwd, fl1)"
    "table_ok t" "mt_list t = entries_on q macs" "mt_iface_macs t = []" by auto
  have "station m" "m \<notin> set macs" "length macs < MAC_LEARN_MAX_ENTRIES" using snoc.prems by auto
  from roam_step [OF t(2,3) this(1,2) snoc.prems(3-5) this(3)] obtain t1 t2 where
    u: "upsert_locked p m t = Some (MAC_UPSERT_NEW, t1)" "upsert_locked q m t1 = Some (MAC_UPSERT_MOVE, t2)"
    and t2: "table_ok t2" "mt_list t2 = entries_on q (macs @ [m])" "mt_iface_macs t1 = mt_iface_macs t" "mt_iface_macs t2 = mt_iface_macs t" .
  from table_learn_upsert [of p m "set_macs t fwd" MAC_UPSERT_NEW t1 io fl1] u(1) \<open>station m\<close> snoc.prems(3) t(4)
  obtain fl2 where l2: "table_learn io p m MAC_LEARN_SRC_ARP (set_macs t fwd, fl1) = Some (set_macs t1 fwd, fl2)" by auto
  from table_learn_upsert [of q m "set_macs t1 fwd" MAC_UPSERT_MOVE t2 io fl2] u(2) \<open>station m\<close> snoc.prems(4) t(4) t2(3)
  obtain fl3 where l3: "table_learn io q m MAC_LEARN_SRC_ARP (set_macs t1 fwd, fl2) = Some (set_macs t2 fwd, fl3)" by auto
  have "roam p q (macs @ [m]) = roam p q macs @ [(p, m), (q, m)]" by (simp add: roam_def)
  then have "learn_arps io (roam p q (macs @ [m])) (mac_learn_bootstrap fwd, fl) = Some (set_macs t2 fwd, fl3)"
    using t(1) l2 l3 by (simp only: learn_arps_append option.case) (simp add: learn_arps_def)
  then show ?case using t2 t(4) by auto
qed

text \<open>The table can be filled from the LAN. Documented is one station for each LAN port; but a station that moves to
  another port is added to the one that this port has, so 256 addresses that each appear on one port and then on another
  fill the table with entries of the second port. From then on no new station is learnt on the first port, and a lookup
  of one finds nothing.\<close>

lemma mac_table_exhausted:
  assumes "distinct macs" "\<forall>m \<in> set macs. station m" "length macs = MAC_LEARN_MAX_ENTRIES"
    and "port_name p" "port_name q" "p \<noteq> q" and "station m" "m \<notin> set macs"
  shows "\<exists>fwd' fl'. learn_arps io (roam p q macs) (mac_learn_bootstrap fwd, fl) = Some (fwd', fl')
    \<and> (\<forall>m \<in> set macs. table_lookup (fw_mac_table fwd') m = Some (Some q))
    \<and> (\<exists>fl''. table_learn io p m MAC_LEARN_SRC_ARP (fwd', fl') = Some (fwd', fl''))
    \<and> table_lookup (fw_mac_table fwd') m = Some None"
proof -
  obtain t fl' where t: "learn_arps io (roam p q macs) (mac_learn_bootstrap fwd, fl) = Some (set_macs t fwd, fl')"
    "table_ok t" "mt_list t = entries_on q macs" "mt_iface_macs t = []"
    using roam_fills [OF assms(1,2,4-6), of io fwd fl] assms(3) by auto
  have fdb: "mac_fdb t x = (if x \<in> set macs then Some q else None)" for x
  proof (cases "x \<in> set macs")
    case True
    then obtain i where "i < length macs" "x = macs ! i" by (auto simp: in_set_conv_nth)
    then have "mac_fdb t x = Some q" using t(2,3) by (auto simp: table_ok_def fdb_nth entries_on_def)
    with True show ?thesis by simp
  next
    case False
    then have "mac_fdb t x = None" by (auto simp: fdb_None t(3) entries_on_def)
    with False show ?thesis by simp
  qed
  have "\<not> fdb_room p m t"
    using fdb assms(3,8) entries_on_no_port [OF assms(6), of macs] t(3) by (simp add: fdb_room_def entries_on_def)
  then have "\<exists>fl''. table_learn io p m MAC_LEARN_SRC_ARP (set_macs t fwd, fl') = Some (set_macs t fwd, fl'')"
    using table_learn_ok [of "set_macs t fwd" m p io fl'] t(2,4) assms(4,7) by (metis empty_iff list.set(1) set_macs_simps(1,2))
  then show ?thesis using t(1) table_lookup_correct [OF t(2)] fdb assms(8) by auto
qed

definition macs_example :: "buf list" where
  "macs_example = map (\<lambda>n. mac_example (of_nat n)) [0..<256]"

lemma macs_example_distinct: "distinct macs_example"
proof -
  have "inj_on (\<lambda>n :: nat. (of_nat n :: u8)) {0..<256}"
    by (rule inj_onI) (simp add: word_of_nat_eq_iff take_bit_nat_eq_self)
  then show ?thesis by (auto simp: macs_example_def mac_example_def distinct_map inj_on_def)
qed

section \<open>The file keeps the table\<close>

lemma fgets_line: "newline \<notin> set w \<Longrightarrow> length w < n \<Longrightarrow> fgets n (w @ newline # rest) = (w @ [newline], rest)"
proof (induction w arbitrary: n)
  case Nil
  then show ?case by (cases n) simp_all
next
  case (Cons c w)
  then obtain k where k: "n = Suc k" by (cases n) simp_all
  with Cons have "fgets k (w @ newline # rest) = (w @ [newline], rest)" by simp
  with Cons.prems k show ?case by auto
qed

lemma fgets_lines_line:
  assumes "newline \<notin> set w" "length w < 255"
  shows "fgets_lines ((w @ [newline]) @ rest) = (w @ [newline]) # fgets_lines rest"
  using fgets_line [OF assms, of rest] by (subst fgets_lines.simps) simp

text \<open>A name that survives the file: no character that ends a word or a C string, and not the start of a comment.\<close>

definition file_name :: "string \<Rightarrow> bool" where
  "file_name s \<longleftrightarrow> port_name s \<and> hd s \<noteq> CHR ''#'' \<and> (\<forall>c \<in> set s. \<not> is_c_space c \<and> c \<noteq> CHR 0x00)"

lemma hex_digit_props:
  assumes "n < 16"
  shows "xdigit (hex_digit n) = Some n" "\<not> is_c_space (hex_digit n)" "hex_digit n \<noteq> CHR 0x00" "hex_digit n \<noteq> newline"
    "hex_digit n \<noteq> CHR ''-''" "hex_digit n \<noteq> CHR ''+''" "hex_digit n \<noteq> CHR ''x''" "hex_digit n \<noteq> CHR ''X''"
proof -
  have c: "of_char (hex_digit n) = (if n < 10 then n + 48 else n + 87)" using assms by (simp add: hex_digit_def)
  show "xdigit (hex_digit n) = Some n" using assms by (auto simp: xdigit_def c Let_def)
  show "\<not> is_c_space (hex_digit n)" using assms by (auto simp: is_c_space_def c)
  have ne: "hex_digit n \<noteq> x" if "of_char x \<noteq> (if n < 10 then n + 48 else n + 87)" for x using c that by auto
  show "hex_digit n \<noteq> CHR 0x00" "hex_digit n \<noteq> newline"
    "hex_digit n \<noteq> CHR ''-''" "hex_digit n \<noteq> CHR ''+''" "hex_digit n \<noteq> CHR ''x''" "hex_digit n \<noteq> CHR ''X''"
    using assms by (auto intro!: ne simp: newline_def split: if_splits)
qed

lemma unat_u8_lt: "unat (b :: u8) < 256"
  using unsigned_less [of b] by simp

lemma hex2_digits: "unat (b :: u8) div 16 < 16" "unat b mod 16 < 16"
  using unat_u8_lt [of b] by auto

lemma scan_hex2:
  assumes "rest = [] \<or> xdigit (hd rest) = None"
  shows "scan_hex (hex2 b @ rest) = Some (b, rest)"
proof -
  note h = hex_digit_props [OF hex2_digits(1) [of b]] hex_digit_props [OF hex2_digits(2) [of b]]
  have t: "takeWhile (\<lambda>c. xdigit c \<noteq> None) rest = []" "dropWhile (\<lambda>c. xdigit c \<noteq> None) rest = rest"
    using assms by (cases rest; auto)+
  have v: "unat b div 16 * 16 + unat b mod 16 = unat b" by simp
  have "min (unat b) (2 ^ 64 - 1) = unat b" using unat_u8_lt [of b] by simp
  then show ?thesis using h t v by (simp add: scan_hex_def hex2_def Let_def)
qed

lemma scan_macs_text: "bs \<noteq> [] \<Longrightarrow> scan_macs (length bs) (mac_text bs) = Some bs"
proof (induction bs rule: mac_text.induct)
  case (2 b)
  show ?case using scan_hex2 [of "[]" b] by simp
next
  case (3 b b' bs)
  have "xdigit (CHR '':'') = None" by (simp add: xdigit_def)
  then have "scan_hex (mac_text (b # b' # bs)) = Some (b, CHR '':'' # mac_text (b' # bs))"
    using scan_hex2 [of "CHR '':'' # mac_text (b' # bs)" b] by simp
  moreover have "scan_macs (Suc (length bs)) (mac_text (b' # bs)) = Some (b' # bs)" using 3 by simp
  ultimately show ?case by (simp del: scan_macs.simps add: scan_macs.simps(2) [of "Suc (length bs)"])
qed simp

lemma mac_text_chars: "c \<in> set (mac_text bs) \<Longrightarrow> \<not> is_c_space c \<and> c \<noteq> CHR 0x00 \<and> c \<noteq> newline"
proof (induction bs rule: mac_text.induct)
  case (2 b)
  then show ?case using hex_digit_props [OF hex2_digits(1) [of b]] hex_digit_props [OF hex2_digits(2) [of b]]
    by (auto simp: hex2_def)
next
  case (3 b b' bs)
  have "\<not> is_c_space (CHR '':'') \<and> CHR '':'' \<noteq> newline" by (simp add: is_c_space_def newline_def)
  then show ?case using 3 hex_digit_props [OF hex2_digits(1) [of b]] hex_digit_props [OF hex2_digits(2) [of b]]
    by (auto simp: hex2_def)
qed simp

lemma mac_text_length: "length (mac_text bs) \<le> 3 * length bs"
  by (induction bs rule: mac_text.induct) (simp_all add: hex2_def)

lemma mac_text_ne: "bs \<noteq> [] \<Longrightarrow> mac_text bs \<noteq> []"
  by (induction bs rule: mac_text.induct) (simp_all add: hex2_def)

lemma words_of_entry:
  assumes n: "file_name p" and m: "length mac = MAC_LEN"
  defines "line \<equiv> p @ CHR '' '' # mac_text mac @ [newline]"
  shows "scan_line line = Some (p, mac_text mac)" and "\<not> is_comment line" and "newline \<notin> set (p @ CHR '' '' # mac_text mac)"
    and "length (p @ CHR '' '' # mac_text mac) < 255"
proof -
  have sp: "is_c_space newline" "is_c_space (CHR '' '')" "newline \<noteq> CHR 0x00" "newline \<noteq> CHR 0x0D"
    by (simp_all add: is_c_space_def newline_def)
  have p: "p \<noteq> []" "length p \<le> 15" "\<forall>c \<in> set p. \<not> is_c_space c \<and> c \<noteq> CHR 0x00" "hd p \<noteq> CHR ''#''"
    using n by (auto simp: file_name_def port_name_def IF_NAMESIZE_def)
  have ne: "mac \<noteq> []" using m by (auto simp: MAC_LEN_def)
  have t: "\<forall>c \<in> set (mac_text mac). \<not> is_c_space c \<and> c \<noteq> CHR 0x00 \<and> c \<noteq> newline" "mac_text mac \<noteq> []" "length (mac_text mac) \<le> 18"
    using mac_text_chars [of _ mac] mac_text_ne [OF ne] mac_text_length [of mac] m by (auto simp: MAC_LEN_def)
  have nn: "newline \<notin> set p" using p(3) sp(1) by auto
  show "newline \<notin> set (p @ CHR '' '' # mac_text mac)" using nn t(1) by (auto simp: newline_def)
  show "length (p @ CHR '' '' # mac_text mac) < 255" using p(2) t(3) by simp
  have hd: "hd line = hd p" "hd p \<in> set p" "line \<noteq> []" using p(1) by (simp_all add: line_def)
  have cr: "is_c_space (CHR 0x0D)" by (simp add: is_c_space_def)
  have "hd p \<noteq> newline" "hd p \<noteq> CHR 0x0D" using hd(2) p(3) sp(1) cr by metis+
  then show "\<not> is_comment line" using hd(1,3) p(4) by (simp add: is_comment_def)
  have c: "c_string line = line" using p(3) t(1) sp(3) by (auto simp: c_string_def line_def takeWhile_eq_all_conv)
  have w1: "scan_word 15 (p @ CHR '' '' # mac_text mac @ [newline]) = Some (p, CHR '' '' # mac_text mac @ [newline])"
  proof -
    have "dropWhile is_c_space (p @ x) = p @ x" for x using p by (cases p) auto
    moreover have "takeWhile (\<lambda>c. \<not> is_c_space c) (take 15 (p @ CHR '' '' # x)) = p" for x
      using p(2,3) sp(2) by (cases "length p = 15") (auto simp: takeWhile_append takeWhile_eq_all_conv take_Cons')
    ultimately show ?thesis using p(1) by (simp add: scan_word_def)
  qed
  have w2: "scan_word 23 (CHR '' '' # mac_text mac @ [newline]) = Some (mac_text mac, [newline])"
  proof -
    have "dropWhile is_c_space (CHR '' '' # mac_text mac @ [newline]) = mac_text mac @ [newline]"
      using t sp by (cases "mac_text mac") auto
    moreover have "takeWhile (\<lambda>c. \<not> is_c_space c) (take 23 (mac_text mac @ [newline])) = mac_text mac"
      using t sp by (auto simp: takeWhile_append takeWhile_eq_all_conv)
    ultimately show ?thesis using t(2) by (simp add: scan_word_def)
  qed
  show "scan_line line = Some (p, mac_text mac)" using c w1 w2 by (simp add: scan_line_def line_def)
qed

lemma header_line: "\<exists>h. file_header = h @ [newline] \<and> newline \<notin> set h \<and> length h < 255 \<and> is_comment (h @ [newline])"
  by (intro exI [of _ "butlast file_header"]) (simp add: file_header_def newline_def is_comment_def)

lemma file_lines:
  assumes "\<forall>e \<in> set es. file_name (me_ifname e) \<and> length (me_mac e) = MAC_LEN"
  shows "\<exists>h. is_comment h \<and> fgets_lines (file_text es) = h # map entry_text es"
proof -
  have "fgets_lines (concat (map entry_text es)) = map entry_text es"
    using assms
  proof (induction es)
    case (Cons e es)
    have e: "entry_text e = (me_ifname e @ CHR '' '' # mac_text (me_mac e)) @ [newline]"
      using Cons.prems by (auto simp: entry_text_def file_name_def port_name_def)
    note w = words_of_entry(3,4) [of "me_ifname e" "me_mac e"]
    have "fgets_lines (entry_text e @ concat (map entry_text es)) = entry_text e # fgets_lines (concat (map entry_text es))"
      unfolding e using Cons.prems w by (intro fgets_lines_line) simp_all
    with Cons show ?case by (simp del: fgets_lines.simps)
  qed simp
  moreover obtain h where "file_header = h @ [newline]" "newline \<notin> set h" "length h < 255" "is_comment (h @ [newline])"
    using header_line by blast
  ultimately show ?thesis using fgets_lines_line [of h "concat (map entry_text es)"]
    by (intro exI [of _ "h @ [newline]"]) (simp add: file_text_def del: fgets_lines.simps)
qed

text \<open>An entry as the file can keep it, for the configuration that reads it back.\<close>

definition restorable :: "forwarder \<Rightarrow> mac_learn_entry \<Rightarrow> bool" where
  "restorable fwd e \<longleftrightarrow> station (me_mac e) \<and> file_name (me_ifname e) \<and> ifname_in_configured_locals fwd (me_ifname e)"

lemma entry_line:
  assumes "station (me_mac e)" "file_name (me_ifname e)"
  shows "\<not> is_comment (entry_text e)" "scan_line (entry_text e) = Some (me_ifname e, mac_text (me_mac e))"
    "parse_mac_colon (mac_text (me_mac e)) = Some (me_mac e)" "if_name (me_ifname e) = me_ifname e"
proof -
  have ln: "entry_text e = me_ifname e @ CHR '' '' # mac_text (me_mac e) @ [newline]"
    using assms(2) by (auto simp: entry_text_def file_name_def port_name_def)
  have m: "length (me_mac e) = MAC_LEN" "me_mac e \<noteq> []" using assms(1) by (auto simp: station_def MAC_LEN_def)
  show "\<not> is_comment (entry_text e)" "scan_line (entry_text e) = Some (me_ifname e, mac_text (me_mac e))"
    unfolding ln using words_of_entry(1,2) [OF assms(2) m(1)] by simp_all
  show "parse_mac_colon (mac_text (me_mac e)) = Some (me_mac e)"
    using scan_macs_text [OF m(2)] m(1) by (simp add: parse_mac_colon_def)
  show "if_name (me_ifname e) = me_ifname e" using assms(2) by (simp add: file_name_def)
qed

subsection \<open>Reading entries\<close>

text \<open>The last entry of a port.\<close>

primrec last_on :: "mac_learn_entry list \<Rightarrow> string \<Rightarrow> mac_learn_entry option" where
  "last_on [] p = None"
| "last_on (e # es) p = (case last_on es p of Some x \<Rightarrow> Some x | None \<Rightarrow> if me_ifname e = p then Some e else None)"

lemma last_on_Some: "last_on es p = Some e \<Longrightarrow> e \<in> set es \<and> me_ifname e = p"
  by (induction es) (auto split: option.splits if_splits)

lemma last_on_None: "last_on es p = None \<longleftrightarrow> p \<notin> me_ifname ` set es"
  by (induction es) (auto split: option.splits)

lemma last_on_distinct:
  assumes "distinct (map me_ifname es)"
  shows "last_on es p = Some e \<longleftrightarrow> e \<in> set es \<and> me_ifname e = p"
proof
  assume e: "e \<in> set es \<and> me_ifname e = p"
  then have "last_on es p \<noteq> None" by (auto simp: last_on_None)
  then obtain x where x: "last_on es p = Some x" by blast
  from last_on_Some [OF x] e have "x = e" using assms by (auto simp: distinct_map dest: inj_onD)
  with x show "last_on es p = Some e" by simp
qed (rule last_on_Some)

text \<open>Entries that are read one after the other, or collapsed: of each port the last one is left.\<close>

lemma collapse_one:
  assumes "distinct (map me_ifname tmp)" "length tmp < MAC_LEARN_MAX_ENTRIES"
  shows "distinct (map me_ifname (collapse e tmp))" "length (collapse e tmp) \<le> Suc (length tmp)"
    "last_on (collapse e tmp) p = (if p = me_ifname e then Some e else last_on tmp p)"
proof -
  have all: "distinct (map me_ifname (collapse e tmp)) \<and> length (collapse e tmp) \<le> Suc (length tmp)
    \<and> set (collapse e tmp) = insert e {x \<in> set tmp. me_ifname x \<noteq> me_ifname e}"
  proof (cases "port_idx tmp (me_ifname e)")
    case None
    then have "\<forall>x \<in> set tmp. me_ifname x \<noteq> me_ifname e" by (simp add: port_idx_None)
    then show ?thesis using assms None by (auto simp: collapse_def)
  next
    case (Some i)
    then have i: "i < length tmp" "me_ifname (tmp ! i) = me_ifname e" using port_idx_Some [OF Some] by auto
    have m: "map me_ifname (tmp[i := e]) = map me_ifname tmp" using i by (simp add: map_update list_update_same_conv)
    have "set (tmp[i := e]) = insert e {x \<in> set tmp. me_ifname x \<noteq> me_ifname e}"
    proof -
      have "set (tmp[i := e]) = insert e (set tmp - {tmp ! i})"
        using set_update_distinct [of tmp i e] assms(1) i(1) by (simp add: distinct_map)
      moreover have "x = tmp ! i" if "x \<in> set tmp" "me_ifname x = me_ifname e" for x
        using that i assms(1) by (auto simp: distinct_map intro: inj_onD [of me_ifname "set tmp"])
      ultimately show ?thesis using i(2) by auto
    qed
    then show ?thesis using assms m Some by (simp add: collapse_def)
  qed
  then show "distinct (map me_ifname (collapse e tmp))" "length (collapse e tmp) \<le> Suc (length tmp)" by simp_all
  have "last_on (collapse e tmp) p = Some x \<longleftrightarrow> (if p = me_ifname e then Some e else last_on tmp p) = Some x" for x
    using all last_on_distinct [of "collapse e tmp" p x] last_on_distinct [OF assms(1), of p x] by auto
  then show "last_on (collapse e tmp) p = (if p = me_ifname e then Some e else last_on tmp p)" by (metis option.exhaust)
qed

lemma collapse_all:
  assumes "distinct (map me_ifname tmp)" "length tmp + length es \<le> MAC_LEARN_MAX_ENTRIES"
  shows "distinct (map me_ifname (fold collapse es tmp)) \<and> length (fold collapse es tmp) \<le> length tmp + length es
    \<and> (\<forall>p. last_on (fold collapse es tmp) p = (case last_on es p of Some x \<Rightarrow> Some x | None \<Rightarrow> last_on tmp p))"
  using assms
proof (induction es arbitrary: tmp)
  case (Cons e es)
  have l: "length tmp < MAC_LEARN_MAX_ENTRIES" using Cons.prems(2) by simp
  note c = collapse_one [OF Cons.prems(1) l, of e]
  have "length (collapse e tmp) + length es \<le> MAC_LEARN_MAX_ENTRIES" using c(2) Cons.prems(2) by simp
  from Cons.IH [OF c(1) this] c(2,3) show ?case by (auto split: option.splits)
qed simp

lemma collapse_fixed:
  assumes "distinct (map me_ifname (tmp @ es))" "length (tmp @ es) \<le> MAC_LEARN_MAX_ENTRIES"
  shows "fold collapse es tmp = tmp @ es"
  using assms
proof (induction es arbitrary: tmp)
  case (Cons e es)
  have "port_idx tmp (me_ifname e) = None" using Cons.prems(1) by (simp add: port_idx_None) (metis image_eqI)
  then have "collapse e tmp = tmp @ [e]" using Cons.prems(2) by (simp add: collapse_def)
  then show ?case using Cons.IH [of "tmp @ [e]"] Cons.prems by simp
qed simp

lemma stale_find: "(\<And>b. mt_hash_head t b = -1) \<Longrightarrow> find_idx_by_mac_locked t mac = Some (-1)"
  unfolding find_idx_by_mac_locked_def by (subst chain_find.simps) simp

lemma load_one:
  assumes e: "station (me_mac e)" "file_name (me_ifname e)"
    and own: "ifname_in_configured_locals fwd (me_ifname e) \<Longrightarrow> me_mac e \<notin> set (mt_iface_macs t)"
    and h: "\<And>b. mt_hash_head t b = -1" and len: "length (mt_list t) < MAC_LEARN_MAX_ENTRIES"
  shows "load_line fwd (entry_text e) (t, n) =
    Some (Inl (if ifname_in_configured_locals fwd (me_ifname e) then (t\<lparr>mt_list := collapse e (mt_list t)\<rparr>, n + 1) else (t, n)))"
proof -
  have same: "(mt_list t ! i)\<lparr>me_mac := me_mac e\<rparr> = e" if "port_idx (mt_list t) (me_ifname e) = Some i" for i
    using port_idx_Some [OF that] by (cases e) simp
  show ?thesis
    using entry_line [OF e] e own len stale_find [OF h] same
    by (auto simp: load_line_def station_def mac_is_local_iface_locked_def collapse_def split: option.splits)
qed

lemma load_all:
  assumes "\<forall>e \<in> set es. station (me_mac e) \<and> file_name (me_ifname e)
      \<and> (ifname_in_configured_locals fwd (me_ifname e) \<longrightarrow> me_mac e \<notin> set (mt_iface_macs t))"
    and "distinct (map me_ifname (mt_list t))" "\<And>b. mt_hash_head t b = -1" "length (mt_list t) + length es \<le> MAC_LEARN_MAX_ENTRIES"
  shows "load_lines fwd (map entry_text es) (t, n) =
    Some (t\<lparr>mt_list := fold collapse (filter (\<lambda>e. ifname_in_configured_locals fwd (me_ifname e)) es) (mt_list t)\<rparr>,
      n + length (filter (\<lambda>e. ifname_in_configured_locals fwd (me_ifname e)) es))"
  using assms
proof (induction es arbitrary: t n)
  case (Cons e es)
  have l: "length (mt_list t) < MAC_LEARN_MAX_ENTRIES" using Cons.prems(4) by simp
  note c = collapse_one [OF Cons.prems(2) l, of e]
  have one: "load_line fwd (entry_text e) (t, n) =
    Some (Inl (if ifname_in_configured_locals fwd (me_ifname e) then (t\<lparr>mt_list := collapse e (mt_list t)\<rparr>, n + 1) else (t, n)))"
    by (rule load_one [OF _ _ _ Cons.prems(3) l]) (use Cons.prems(1) in auto)
  show ?case
    using Cons.IH [of "t\<lparr>mt_list := collapse e (mt_list t)\<rparr>" "n + 1"] Cons.IH [of t n] Cons.prems c(1,2) one by simp
qed simp

subsection \<open>Merging with an earlier file\<close>

lemma overlay_one:
  assumes "distinct (map me_mac merged)" "length merged < MAC_LEARN_MAX_ENTRIES" "port_name (me_ifname e)"
  shows "distinct (map me_mac (overlay_entry e merged)) \<and> length (overlay_entry e merged) \<le> Suc (length merged)
    \<and> set (overlay_entry e merged) = insert e {x \<in> set merged. me_mac x \<noteq> me_mac e}"
proof (cases "merge_find_mac merged (me_mac e)")
  case None
  then have "\<forall>x \<in> set merged. me_mac x \<noteq> me_mac e" by (auto simp: merge_find_mac_def find_None_iff in_set_conv_nth)
  then show ?thesis using assms None by (auto simp: overlay_entry_def)
next
  case (Some i)
  then have i: "i < length merged" "me_mac (merged ! i) = me_mac e" by (auto simp: merge_find_mac_def find_Some_iff)
  have e: "(merged ! i)\<lparr>me_ifname := if_name (me_ifname e)\<rparr> = e" using i(2) assms(3) by (cases e) simp
  have m: "map me_mac (merged[i := e]) = map me_mac merged" using i by (simp add: map_update list_update_same_conv)
  have "set (merged[i := e]) = insert e (set merged - {merged ! i})"
    using set_update_distinct [of merged i e] assms(1) i(1) by (simp add: distinct_map)
  moreover have "x = merged ! i" if "x \<in> set merged" "me_mac x = me_mac e" for x
    using that i assms(1) by (auto simp: distinct_map intro: inj_onD [of me_mac "set merged"])
  ultimately have "set (merged[i := e]) = insert e {x \<in> set merged. me_mac x \<noteq> me_mac e}" using i(2) by auto
  then show ?thesis using assms m Some e by (simp add: overlay_entry_def)
qed

lemma overlay_all:
  assumes "distinct (map me_mac merged)" "distinct (map me_mac es)" "length merged + length es \<le> MAC_LEARN_MAX_ENTRIES"
    and "\<forall>e \<in> set es. port_name (me_ifname e)"
  shows "distinct (map me_mac (fold overlay_entry es merged)) \<and> length (fold overlay_entry es merged) \<le> length merged + length es
    \<and> set (fold overlay_entry es merged) = set es \<union> {x \<in> set merged. me_mac x \<notin> me_mac ` set es}"
  using assms
proof (induction es arbitrary: merged)
  case (Cons e es)
  have l: "length merged < MAC_LEARN_MAX_ENTRIES" using Cons.prems(3) by simp
  have o: "distinct (map me_mac (overlay_entry e merged))" "length (overlay_entry e merged) \<le> Suc (length merged)"
    "set (overlay_entry e merged) = insert e {x \<in> set merged. me_mac x \<noteq> me_mac e}"
    using overlay_one [OF Cons.prems(1) l, of e] Cons.prems(4) by auto
  have "length (overlay_entry e merged) + length es \<le> MAC_LEARN_MAX_ENTRIES" using o(2) Cons.prems(3) by simp
  from Cons.IH [OF o(1) _ this] Cons.prems(2,4) o(2,3) show ?case by auto
qed simp

lemma overlay_fresh:
  assumes "distinct (map me_mac (merged @ es))" "length (merged @ es) \<le> MAC_LEARN_MAX_ENTRIES"
  shows "fold overlay_entry es merged = merged @ es"
  using assms
proof (induction es arbitrary: merged)
  case (Cons e es)
  have "merge_find_mac merged (me_mac e) = None"
    using Cons.prems(1) by (simp add: merge_find_mac_def find_None_iff) (metis image_eqI nth_mem)
  then have "overlay_entry e merged = merged @ [e]" using Cons.prems(2) by (simp add: overlay_entry_def)
  then show ?case using Cons.IH [of "merged @ [e]"] Cons.prems by simp
qed simp

text \<open>The seed: the entries of the earlier file but for addresses of the appliance.\<close>

lemma seed_all:
  assumes "\<forall>e \<in> set es. station (me_mac e) \<and> file_name (me_ifname e)" "distinct (map me_mac (merged @ es))"
    and "length merged + length es \<le> MAC_LEARN_MAX_ENTRIES"
  shows "fold (seed_entry t) (map entry_text es) merged = merged @ filter (\<lambda>e. me_mac e \<notin> set (mt_iface_macs t)) es"
  using assms
proof (induction es arbitrary: merged)
  case (Cons e es)
  have e: "station (me_mac e)" "file_name (me_ifname e)" using Cons.prems(1) by simp_all
  have "merge_find_mac merged (me_mac e) = None"
    using Cons.prems(2) by (simp add: merge_find_mac_def find_None_iff) (metis image_eqI nth_mem)
  then have "seed_entry t (entry_text e) merged = (if me_mac e \<notin> set (mt_iface_macs t) then merged @ [e] else merged)"
    using entry_line [OF e] e(1) Cons.prems(3) by (simp add: seed_entry_def station_def mac_is_local_iface_locked_def)
  then show ?case using Cons.IH [of "merged @ [e]"] Cons.IH [of merged] Cons.prems by auto
qed simp

text \<open>An earlier file with the entries \<open>es0\<close>, on any ports.\<close>

definition file_holds :: "string option \<Rightarrow> mac_learn_entry list \<Rightarrow> bool" where
  "file_holds file es0 \<longleftrightarrow> (file = None \<and> es0 = [] \<or> file = Some (file_text es0)) \<and> distinct (map me_mac es0)
     \<and> (\<forall>e \<in> set es0. station (me_mac e) \<and> file_name (me_ifname e))"

lemma merged_spec:
  assumes ok: "table_ok t" and es: "\<forall>e \<in> set (mt_list t). restorable fwd e"
    and f: "file_holds file es0" "length es0 + length (mt_list t) \<le> MAC_LEARN_MAX_ENTRIES"
  defines "M \<equiv> merged_entries fwd t file"
  shows "distinct (map me_mac M)" "length M \<le> MAC_LEARN_MAX_ENTRIES"
    "\<forall>e \<in> set M. station (me_mac e) \<and> file_name (me_ifname e)"
    "set (filter (\<lambda>e. ifname_in_configured_locals fwd (me_ifname e)) M) = set (mt_list t)"
    "es0 = [] \<Longrightarrow> M = mt_list t"
proof -
  let ?es = "mt_list t" and ?s = "filter (\<lambda>e. me_mac e \<notin> set (mt_iface_macs t)) es0"
  have d: "distinct (map me_mac ?es)" "length ?es \<le> MAC_LEARN_MAX_ENTRIES" "\<forall>e \<in> set ?es. port_name (me_ifname e)"
    using ok by (auto simp: table_ok_def entry_ok_def)
  have f0: "\<forall>e \<in> set es0. station (me_mac e) \<and> file_name (me_ifname e)" "distinct (map me_mac ([] @ es0))"
    using f(1) by (auto simp: file_holds_def)
  have seeded: "(case file of None \<Rightarrow> [] | Some text \<Rightarrow> fold (seed_entry t) (fgets_lines text) []) = ?s"
  proof (cases "file")
    case None
    then show ?thesis using f(1) by (auto simp: file_holds_def)
  next
    case (Some x)
    then have x: "x = file_text es0" using f(1) by (auto simp: file_holds_def)
    obtain h where h: "is_comment h" "fgets_lines (file_text es0) = h # map entry_text es0"
      using file_lines [of es0] f0(1) by (auto simp: station_def)
    have "seed_entry t h [] = []" using h(1) by (simp add: seed_entry_def)
    then show ?thesis using seed_all [OF f0, of t] f(2) Some x h(2) by (simp del: fgets_lines.simps)
  qed
  have sd: "distinct (map me_mac ?s)" using f0(2) by (simp add: distinct_map_filter)
  have sl: "length ?s + length ?es \<le> MAC_LEARN_MAX_ENTRIES" using f(2) length_filter_le [of _ es0] by (meson add_le_mono1 le_trans)
  note o = overlay_all [OF sd d(1) sl d(3)]
  have M: "M = filter (\<lambda>e. me_mac e \<in> me_mac ` set ?es \<or> \<not> ifname_in_configured_locals fwd (me_ifname e)) (fold overlay_entry ?es ?s)"
    by (simp add: M_def merged_entries_def seeded)
  show "distinct (map me_mac M)" unfolding M using o by (simp add: distinct_map_filter)
  show "length M \<le> MAC_LEARN_MAX_ENTRIES" unfolding M using o sl length_filter_le by (meson le_trans)
  show "\<forall>e \<in> set M. station (me_mac e) \<and> file_name (me_ifname e)"
    unfolding M using o f0(1) es by (auto simp: restorable_def)
  show "set (filter (\<lambda>e. ifname_in_configured_locals fwd (me_ifname e)) M) = set ?es"
    unfolding M using o es by (auto simp: restorable_def)
  show "M = ?es" if "es0 = []"
    unfolding M using that overlay_fresh [of "[]" ?es] d(1,2) by simp
qed

text \<open>C31: the table survives a restart. A table of stations on configured ports whose names a text line can hold is merged
  into an earlier file, if there is one, and read back into an empty table. As long as both together do not hold more than
  256 entries, the new table has exactly one entry for each port of the old one, and it is an entry of the old
  table on this port. When the old table has one entry for each port, which is what the program means to keep, nothing is lost;
  when it has several on a port and there was no earlier file, the last of them is the one that is kept. Entries of the
  earlier file on configured ports that the table does not hold are forgotten, those on other ports stay in the
  file and are not read.\<close>

theorem mac_file_roundtrip:
  assumes ok: "table_ok t" "mt_list t \<noteq> []"
    and es: "\<forall>e \<in> set (mt_list t). restorable fwd e \<and> me_mac e \<notin> set (mt_iface_macs t0)"
    and f: "file_holds file es0" "length es0 + length (mt_list t) \<le> MAC_LEARN_MAX_ENTRIES"
    and t0: "mt_list t0 = []" "index_ok t0" and io: "io_dir_ok io" "io_tmp_ok io" "io_rename_ok io"
  shows "\<exists>text t'. mac_fdb_persist_save_locked io fwd t file = Some text
    \<and> mac_fdb_persist_load_locked fwd (Some text) t0 = Some (length (mt_list t), t') \<and> table_ok t'
    \<and> set (mt_list t') \<subseteq> set (mt_list t) \<and> distinct (map me_ifname (mt_list t'))
    \<and> me_ifname ` set (mt_list t') = me_ifname ` set (mt_list t)
    \<and> (distinct (map me_ifname (mt_list t)) \<longrightarrow> mac_fdb t' = mac_fdb t)
    \<and> (es0 = [] \<longrightarrow> (\<forall>e \<in> set (mt_list t'). last_on (mt_list t) (me_ifname e) = Some e))"
proof -
  let ?M = "merged_entries fwd t file" and ?conf = "\<lambda>e. ifname_in_configured_locals fwd (me_ifname e)"
  have res: "\<forall>e \<in> set (mt_list t). restorable fwd e" using es by simp
  note m = merged_spec [OF ok(1) res f]
  have save: "mac_fdb_persist_save_locked io fwd t file = Some (file_text ?M)"
    using io ok(2) by (simp add: mac_fdb_persist_save_locked_def)
  obtain h where h: "is_comment h" "fgets_lines (file_text ?M) = h # map entry_text ?M"
    using file_lines [of ?M] m(3) by (auto simp: station_def)
  have head: "mt_hash_head t0 b = -1" for b using t0 by (simp add: index_fields)
  have skip: "load_lines fwd (h # map entry_text ?M) (t0, 0) = load_lines fwd (map entry_text ?M) (t0, 0)"
    using h(1) by (simp add: load_line_def)
  have own: "me_mac e \<notin> set (mt_iface_macs t0)" if "e \<in> set ?M" "?conf e" for e using m(4) that es by auto
  let ?F = "filter ?conf ?M"
  have lines: "load_lines fwd (map entry_text ?M) (t0, 0) = Some (t0\<lparr>mt_list := fold collapse ?F []\<rparr>, length ?F)"
    using load_all [of ?M fwd t0 0] m(2,3) own head t0(1) by simp
  have F: "distinct (map me_mac ?F)" "distinct (map me_mac (mt_list t))" using m(1) ok(1) by (simp_all add: distinct_map_filter table_ok_def)
  then have n: "length ?F = length (mt_list t)" using m(4) by (metis distinct_card distinct_map)
  define L where "L = fold collapse ?F []"
  have "length ?F \<le> MAC_LEARN_MAX_ENTRIES" using f(2) n by simp
  with collapse_all [of "[]" ?F] have L: "distinct (map me_ifname L)" "length L \<le> MAC_LEARN_MAX_ENTRIES" "\<And>p. last_on L p = last_on ?F p"
    by (auto simp: L_def split: option.splits)
  have mem: "e \<in> set L \<longleftrightarrow> last_on ?F (me_ifname e) = Some e" for e using last_on_distinct [OF L(1)] L(3) by auto
  then have sub: "set L \<subseteq> set (mt_list t)" using last_on_Some m(4) by blast
  have ports: "me_ifname ` set L = me_ifname ` set (mt_list t)"
    using last_on_None [of L] last_on_None [of ?F] L(3) m(4) by (metis (no_types, lifting) set_eqI)
  have macs: "distinct (map me_mac L)"
    using L(1) sub F(2) by (auto simp: distinct_map intro: inj_on_subset)
  have ne: "L \<noteq> []" using ports ok(2) by auto
  let ?t1 = "t0\<lparr>mt_list := L\<rparr>"
  have enf: "enforce_one_mac_per_ifname_locked ?t1 = ?t1"
    using collapse_fixed [of "[]" L] L(1,2) by (simp add: enforce_one_mac_per_ifname_locked_def)
  let ?t = "hash_rebuild_locked ?t1"
  have load: "mac_fdb_persist_load_locked fwd (Some (file_text ?M)) t0 = Some (length (mt_list t), ?t)"
    using h(2) skip lines enf ok(2) n by (simp add: mac_fdb_persist_load_locked_def L_def [symmetric] del: fgets_lines.simps)
  have tok: "table_ok ?t" using ok(1) macs L(2) sub by (intro table_ok_rebuilt) (auto simp: table_ok_def)
  have same: "mac_fdb ?t = mac_fdb t" if "distinct (map me_ifname (mt_list t))"
  proof -
    have "e \<in> set L" if e: "e \<in> set (mt_list t)" for e
    proof -
      obtain x where x: "x \<in> set L" "me_ifname x = me_ifname e" using ports e by (metis imageE imageI)
      then have "x = e" using sub e \<open>distinct (map me_ifname (mt_list t))\<close> by (auto simp: distinct_map dest: inj_onD)
      with x show ?thesis by simp
    qed
    then have s: "set L = set (mt_list t)" using sub by blast
    have "map_of (rev (map (\<lambda>e. (me_mac e, me_ifname e)) L)) = map_of (rev (map (\<lambda>e. (me_mac e, me_ifname e)) (mt_list t)))"
      using macs F(2) s by (subst map_of_inject_set) (simp_all add: rev_map comp_def flip: rev_map)
    then show ?thesis by (simp add: mac_fdb_def)
  qed
  have lasts: "last_on (mt_list t) (me_ifname e) = Some e" if "es0 = []" "e \<in> set L" for e
  proof -
    have "?F = mt_list t" using m(5) [OF that(1)] res by (simp add: restorable_def)
    then show ?thesis using mem that(2) by simp
  qed
  have "mt_list ?t = L" by simp
  then show ?thesis using save load tok sub L(1) ports same lasts by (intro exI [of _ "file_text ?M"] exI [of _ ?t]) simp
qed

text \<open>The example: an earlier file with an entry on a port that is not configured, and a table with two entries.\<close>

theorem mac_file_roundtrip_witness:
  "\<exists>t file text t'. mt_list t = [\<lparr>me_mac = mac_example 1, me_ifname = ''lan1''\<rparr>]
    \<and> file = Some (file_text [\<lparr>me_mac = mac_example 1, me_ifname = ''old0''\<rparr>, \<lparr>me_mac = mac_example 2, me_ifname = ''old0''\<rparr>])
    \<and> mac_fdb_persist_save_locked io_example fwd_example t file = Some text
    \<and> mac_fdb_persist_load_locked fwd_example (Some text) table_init = Some (1, t') \<and> mac_fdb t' (mac_example 1) = Some ''lan1''"
proof -
  let ?e = "\<lparr>me_mac = mac_example 1, me_ifname = ''lan1''\<rparr>"
  let ?es0 = "[\<lparr>me_mac = mac_example 1, me_ifname = ''old0''\<rparr>, \<lparr>me_mac = mac_example 2, me_ifname = ''old0''\<rparr>]"
  let ?t = "hash_rebuild_locked (table_init\<lparr>mt_list := [?e]\<rparr>)"
  have n: "port_name ''lan1''" "file_name ''lan1''" "file_name ''old0''" by (simp_all add: file_name_def port_name_def IF_NAMESIZE_def is_c_space_def)
  have c: "ifname_in_configured_locals fwd_example ''lan1''" by (simp add: ifname_in_configured_locals_def fwd_example_def upt_conv_Cons)
  have 1: "table_ok ?t" using n(1) by (intro table_ok_rebuilt) (simp_all add: MAC_LEARN_MAX_ENTRIES_def entry_ok_def)
  have 2: "mt_list ?t \<noteq> []" by simp
  have 3: "\<forall>e \<in> set (mt_list ?t). restorable fwd_example e \<and> me_mac e \<notin> set (mt_iface_macs table_init)"
    using n c by (simp add: restorable_def table_init_ok)
  have 4: "file_holds (Some (file_text ?es0)) ?es0" using n by (simp add: file_holds_def) (simp add: mac_example_def)
  have 5: "length ?es0 + length (mt_list ?t) \<le> MAC_LEARN_MAX_ENTRIES" by (simp add: MAC_LEARN_MAX_ENTRIES_def)
  have 6: "index_ok table_init" using table_init_ok by (simp add: table_ok_def)
  have 7: "io_dir_ok io_example" "io_tmp_ok io_example" "io_rename_ok io_example" by (simp_all add: io_example_def)
  from mac_file_roundtrip [OF 1 2 3 4 5 table_init_ok(3) 6 7] obtain tx t' where
    r: "mac_fdb_persist_save_locked io_example fwd_example ?t (Some (file_text ?es0)) = Some tx"
      "mac_fdb_persist_load_locked fwd_example (Some tx) table_init = Some (1, t')" "mac_fdb t' = mac_fdb ?t" by auto
  have l: "mt_list ?t = [?e]" by simp
  have "mac_fdb t' (mac_example 1) = Some ''lan1''" using r(3) by (simp add: mac_fdb_def)
  with r(1,2) l show ?thesis by blast
qed

section \<open>Maintenance\<close>

lemma refresh_ok: "table_ok t \<Longrightarrow> table_ok (refresh_iface_macs_locked io fwd t)"
  by (simp add: table_ok_def index_fields refresh_iface_macs_locked_def cong: if_cong)

lemma mac_learn_refresh_ok:
  assumes "table_ok (fw_mac_table fwd)"
  shows "table_ok (fw_mac_table (mac_learn_refresh_iface_macs io fwd))"
    and "e \<in> set (mt_list (fw_mac_table (mac_learn_refresh_iface_macs io fwd))) \<Longrightarrow>
      me_mac e \<notin> set (mt_iface_macs (fw_mac_table (mac_learn_refresh_iface_macs io fwd)))"
  using purge_local_ok [OF refresh_ok [OF assms]] by (simp_all add: mac_learn_refresh_iface_macs_def)

lemma mac_learn_tick_ok:
  assumes "table_ok (fw_mac_table fwd)"
  shows "table_ok (fw_mac_table (mac_learn_tick fwd))"
    and "mt_list (fw_mac_table (mac_learn_tick fwd)) = filter (\<lambda>e. ifname_in_configured_locals fwd (me_ifname e)) (mt_list (fw_mac_table fwd))"
proof -
  let ?t = "fw_mac_table fwd" and ?P = "\<lambda>e. ifname_in_configured_locals fwd (me_ifname e)"
  have "filter ?P (mt_list ?t) = mt_list ?t" if "\<not> length (filter ?P (mt_list ?t)) < length (mt_list ?t)"
    using that length_filter_le [of ?P "mt_list ?t"] by (intro filter_full) simp
  then show "table_ok (fw_mac_table (mac_learn_tick fwd))" "mt_list (fw_mac_table (mac_learn_tick fwd)) = filter ?P (mt_list ?t)"
    using table_filter [OF assms, of ?P] assms
    by (auto simp: mac_learn_tick_def table_maintain_def table_purge_orphan_locked_def Let_def)
qed

section \<open>The relay stamps are the last 32\<close>

definition stamp_entry :: "u64 \<times> buf \<times> u32 \<Rightarrow> mac_relay_entry" where
  "stamp_entry s = \<lparr>ml_smac = fst (snd s), ml_spa_be = snd (snd s), ml_expire_ms = fst s + MAC_RELAY_TTL_MS\<rparr>"

definition stamp_all :: "(u64 \<times> buf \<times> u32) list \<Rightarrow> mac_relay \<Rightarrow> mac_relay" where
  "stamp_all ss g = fold (\<lambda>s. mac_relay_stamp (fst s) (fst (snd s)) (snd (snd s))) ss g"

definition zero_stamp :: mac_relay_entry where
  "zero_stamp = \<lparr>ml_smac = replicate MAC_LEN 0, ml_spa_be = 0, ml_expire_ms = 0\<rparr>"

text \<open>Position \<open>i\<close> of the ring holds the last stamp with this number modulo 32.\<close>

definition last_at :: "(u64 \<times> buf \<times> u32) list \<Rightarrow> nat \<Rightarrow> mac_relay_entry" where
  "last_at ss i = (let k = last_idx (\<lambda>k. k mod MAC_RELAY_STAMP_MAX = i) (length ss) in
     if k < 0 then zero_stamp else stamp_entry (ss ! nat k))"

lemma stamp_all_entries:
  "mr_next (stamp_all ss mac_relay_init) = length ss mod MAC_RELAY_STAMP_MAX
   \<and> mr_entries (stamp_all ss mac_relay_init) = map (last_at ss) [0..<MAC_RELAY_STAMP_MAX]"
proof (induction ss rule: rev_induct)
  case Nil
  show ?case by (simp add: stamp_all_def mac_relay_init_def last_at_def zero_stamp_def map_replicate_const)
next
  case (snoc s ss)
  let ?n = "length ss mod MAC_RELAY_STAMP_MAX"
  have n: "?n < MAC_RELAY_STAMP_MAX" by (simp add: MAC_RELAY_STAMP_MAX_def)
  have nth: "nat (last_idx P (length ss)) < length ss" if "\<not> last_idx P (length ss) < 0" for P
    using that last_idx_bounds(1) [of P "length ss"] by simp
  have at: "last_at (ss @ [s]) i = (if i = ?n then stamp_entry s else last_at ss i)" for i
    using nth [of "\<lambda>k. k mod MAC_RELAY_STAMP_MAX = i"] by (auto simp: last_at_def Let_def nth_append)
  have "(map (last_at ss) [0..<MAC_RELAY_STAMP_MAX])[?n := stamp_entry s] = map (last_at (ss @ [s])) [0..<MAC_RELAY_STAMP_MAX]"
    using n by (intro nth_equalityI) (auto simp: at nth_list_update)
  moreover have "stamp_all (ss @ [s]) mac_relay_init = mac_relay_stamp (fst s) (fst (snd s)) (snd (snd s)) (stamp_all ss mac_relay_init)"
    by (simp add: stamp_all_def)
  ultimately show ?case using snoc by (simp add: mac_relay_stamp_def stamp_entry_def mod_Suc_eq)
qed

lemma last_idx_mod:
  "last_idx (\<lambda>k. k mod d = i) n = int k \<longleftrightarrow> k < n \<and> k mod d = i \<and> n \<le> k + d" if "0 < d"
proof (induction n)
  case (Suc n)
  show ?case
  proof (cases "n mod d = i")
    case True
    have "k = n" if "k < Suc n" "k mod d = i" "Suc n \<le> k + d"
    proof (rule ccontr)
      assume "k \<noteq> n"
      then have "0 < n - k" "n - k < d" using that by auto
      moreover have "(n - k) mod d = 0" using True that by (metis less_Suc_eq_le mod_eq_dvd_iff_nat dvd_imp_mod_0)
      ultimately show False by simp
    qed
    with True \<open>0 < d\<close> show ?thesis by auto
  next
    case False
    have "n < k + d" if "k < n" "k mod d = i" "n \<le> k + d"
      using False that by (metis le_neq_implies_less mod_add_self2)
    moreover have "k < n" if "k < Suc n" "k mod d = i" using False that by (metis less_antisym)
    ultimately show ?thesis using False Suc by auto
  qed
qed auto

lemma relay_recent_iff:
  "mac_relay_recent now smac spa (stamp_all ss mac_relay_init) \<longleftrightarrow>
     (\<exists>k < length ss. length ss \<le> k + MAC_RELAY_STAMP_MAX \<and> now < fst (ss ! k) + MAC_RELAY_TTL_MS \<and> snd (ss ! k) = (smac, spa))"
proof -
  let ?d = MAC_RELAY_STAMP_MAX
  let ?hit = "\<lambda>e. \<not> ml_expire_ms e \<le> now \<and> ml_spa_be e = spa \<and> ml_smac e = smac"
  have d: "0 < ?d" by (simp add: MAC_RELAY_STAMP_MAX_def)
  have hit: "?hit (stamp_entry s) \<longleftrightarrow> now < fst s + MAC_RELAY_TTL_MS \<and> snd s = (smac, spa)" for s
    by (cases s) (auto simp: stamp_entry_def not_le)
  have zero: "\<not> ?hit zero_stamp" by (simp add: zero_stamp_def)
  have at: "?hit (last_at ss i) \<longleftrightarrow> (\<exists>k. last_idx (\<lambda>k. k mod ?d = i) (length ss) = int k \<and> ?hit (stamp_entry (ss ! k)))" for i
  proof (cases "last_idx (\<lambda>k. k mod ?d = i) (length ss) < 0")
    case True
    then have "last_at ss i = zero_stamp" by (simp add: last_at_def Let_def)
    with True zero show ?thesis by auto
  next
    case False
    then obtain k where "last_idx (\<lambda>k. k mod ?d = i) (length ss) = int k" by (metis int_nat_eq not_less)
    then show ?thesis by (simp add: last_at_def Let_def)
  qed
  have "mac_relay_recent now smac spa (stamp_all ss mac_relay_init) \<longleftrightarrow> (\<exists>i < ?d. ?hit (last_at ss i))"
    by (auto simp: mac_relay_recent_def stamp_all_entries list_ex_iff)
  also have "\<dots> \<longleftrightarrow> (\<exists>k < length ss. length ss \<le> k + ?d \<and> ?hit (stamp_entry (ss ! k)))"
    using mod_less_divisor [OF d] by (simp only: at last_idx_mod [OF d]) blast
  finally show ?thesis by (simp add: hit)
qed

end
