(* ===== verification/Dataplane_State.thy ===== *)
theory Dataplane_State
  imports Crypto_Runtime Mac_Learn Udp_Reorder
begin

text \<open>
  What a crypto worker of the dataplane sees: the forwarder with its rings, frame pool, ports and learnt stations, the
  crypto runtime and the state of the crypto options, the routes of flows, the schedule of WANs, the reorder buffer, and
  the variables of the ARP bridge. A worker handles one packet at a time; a handler is a function of this record. A frame
  is owned by the pool, by a ring, by the cache of tail frames, by the reorder buffer, or by the worker that handles it;
  the multiset of the frames owned by all but the worker is the measure by which leaks and double frees are seen. The
  counters of \<open>stats.c\<close> and the waking of idle threads are not represented.
\<close>

section \<open>State\<close>

text \<open>The variables of \<open>arp_bridge.c\<close>.\<close>

record arp_state =
  g_arp_crypto_ctx :: packet_crypto_ctx
  g_arp_crypto_ctx_ready :: bool
  g_arp_key_loaded :: bool
  g_arp_default_master_key :: buf
  g_arp_lan_on_backup :: "bool list"

record 'c dataplane =
  dp_fwd :: forwarder
  dp_opt :: "'c l2_state"
  dp_rt :: crypto_runtime
  dp_tls :: crypto_tls
  dp_route :: route_state
  dp_sched :: wan_sched
  dp_flow :: flow_tls
  dp_reorder :: reorder
  dp_relay :: mac_relay
  dp_arp :: arp_state
  dp_macfile :: "string option"
  dp_pol_in :: pol_in_tables

text \<open>What stays the same while a packet is handled: the library, the answers of the system, the settings.\<close>

record 'c dp_env =
  de_lib :: "'c scrypt_lib"
  de_os :: os_env
  de_io :: mac_io
  de_hmac :: "buf \<Rightarrow> buf \<Rightarrow> buf"
  de_calloc_ok :: bool
  de_reorder_enabled :: bool
  de_reorder_hold_ns :: u64

definition de_now_ms :: "'c dp_env \<Rightarrow> u64" where
  "de_now_ms env = env_mono_sec (de_os env) * 1000 + env_mono_nsec (de_os env) div 1000000"

definition de_now_ns :: "'c dp_env \<Rightarrow> u64" where
  "de_now_ns env = env_mono_sec (de_os env) * 1000000000 + env_mono_nsec (de_os env)"

definition dp_out_ring_idx :: "'c dataplane \<Rightarrow> nat" where
  "dp_out_ring_idx s = nat (tls_out_ring_idx (dp_route s))"

definition dp_crypto_current_worker_idx :: "'c dataplane \<Rightarrow> int" where
  "dp_crypto_current_worker_idx s = tls_crypto_worker_idx (dp_route s)"

section \<open>Frames\<close>

definition NE_DIR_LOCAL :: u8 where "NE_DIR_LOCAL = 0"
definition NE_DIR_WAN :: u8 where "NE_DIR_WAN = 1"

definition ne_packet_data :: "'c dataplane \<Rightarrow> u64 \<Rightarrow> buf" where
  "ne_packet_data s a = pr_frames (fw_pair (dp_fwd s)) a"

definition with_fwd :: "(forwarder \<Rightarrow> forwarder) \<Rightarrow> 'c dataplane \<Rightarrow> 'c dataplane" where
  "with_fwd f s = s\<lparr>dp_fwd := f (dp_fwd s)\<rparr>"

definition put_frame :: "u64 \<Rightarrow> buf \<Rightarrow> 'c dataplane \<Rightarrow> 'c dataplane" where
  "put_frame a b = with_fwd (\<lambda>fwd. fwd\<lparr>fw_pair := (fw_pair fwd)\<lparr>pr_frames := (pr_frames (fw_pair fwd))(a := b)\<rparr>\<rparr>)"

definition set_local_ring :: "nat \<Rightarrow> nat \<Rightarrow> ne_ring \<Rightarrow> forwarder \<Rightarrow> forwarder" where
  "set_local_ring li ri r fwd = fwd\<lparr>fw_mid_to_local := (fw_mid_to_local fwd)(li := (fw_mid_to_local fwd li)(ri := r))\<rparr>"

definition free_frame :: "u64 \<Rightarrow> 'c dataplane \<Rightarrow> 'c dataplane" where
  "free_frame a = with_fwd (\<lambda>fwd. set_pool (ne_frame_free (pr_pool (fw_pair fwd)) a) fwd)"

text \<open>\<open>dp_ring_push\<close> on the two kinds of rings: also a packet that does not fit is taken, its frame goes to the pool.\<close>

definition push_wan :: "nat \<Rightarrow> ne_packet \<Rightarrow> 'c dataplane \<Rightarrow> bool \<times> 'c dataplane" where
  "push_wan wan job s =
     (let fwd = dp_fwd s; ri = dp_out_ring_idx s in
      case dp_ring_push (pr_frame_size (fw_pair fwd)) (fw_mid_to_wan fwd wan ri) (pr_pool (fw_pair fwd)) job of
        (ok, r, pool, _) \<Rightarrow> (ok, s\<lparr>dp_fwd := set_pool pool (set_ring wan ri r fwd)\<rparr>))"

definition push_local :: "nat \<Rightarrow> ne_packet \<Rightarrow> 'c dataplane \<Rightarrow> bool \<times> 'c dataplane" where
  "push_local li job s =
     (let fwd = dp_fwd s; ri = dp_out_ring_idx s in
      case dp_ring_push (pr_frame_size (fw_pair fwd)) (fw_mid_to_local fwd li ri) (pr_pool (fw_pair fwd)) job of
        (ok, r, pool, _) \<Rightarrow> (ok, s\<lparr>dp_fwd := set_pool pool (set_local_ring li ri r fwd)\<rparr>))"

section \<open>Ownership of frames\<close>

definition ring_frames :: "ne_ring \<Rightarrow> u64 multiset" where
  "ring_frames r = mset (map pk_addr (ring_contents r))"

definition grid_frames :: "(nat \<Rightarrow> nat \<Rightarrow> ne_ring) \<Rightarrow> u64 multiset" where
  "grid_frames g = (\<Sum>i<MAX_INTERFACES. \<Sum>w<NE_CRYPTO_WORKERS. ring_frames (g i w))"

definition fwd_frames :: "forwarder \<Rightarrow> u64 multiset" where
  "fwd_frames fwd = mset (pool_contents (pr_pool (fw_pair fwd))) + grid_frames (fw_mid_to_wan fwd) + grid_frames (fw_mid_to_local fwd)
     + (\<Sum>w<NE_CRYPTO_WORKERS. mset (fw_split_tail_cache fwd w))"

definition item_addr :: "u32 \<times> dp_udp_reorder_item \<Rightarrow> u64" where
  "item_addr x = pk_addr (ui_packet (snd x))"

definition dp_frames :: "'c dataplane \<Rightarrow> u64 multiset" where
  "dp_frames s = fwd_frames (dp_fwd s) + image_mset item_addr (held_items (dp_reorder s))"

text \<open>Rings and pool are well formed, and the pool has room for all frames, \<open>n\<close> of them in the worker's hands.\<close>

definition fwd_ok :: "forwarder \<Rightarrow> bool" where
  "fwd_ok fwd \<longleftrightarrow> (\<forall>i w. ring_ok (fw_mid_to_wan fwd i w)) \<and> (\<forall>i w. ring_ok (fw_mid_to_local fwd i w))
     \<and> pool_ok (pr_pool (fw_pair fwd))"

definition dp_ok :: "nat \<Rightarrow> 'c dataplane \<Rightarrow> bool" where
  "dp_ok n s \<longleftrightarrow> fwd_ok (dp_fwd s) \<and> size (dp_frames s) + n \<le> unat (q_cap (pr_pool (fw_pair (dp_fwd s))))
     \<and> dp_out_ring_idx s < NE_CRYPTO_WORKERS"

lemma sum_update:
  fixes f :: "'b \<Rightarrow> 'd multiset"
  assumes "finite A" "a \<in> A"
  shows "(\<Sum>x\<in>A. f ((g(a := b)) x)) + f (g a) = (\<Sum>x\<in>A. f (g x)) + f b"
proof -
  have "(\<Sum>x\<in>A. f ((g(a := b)) x)) = f b + (\<Sum>x\<in>A - {a}. f (g x))"
    using assms by (simp add: sum.remove)
  moreover have "(\<Sum>x\<in>A. f (g x)) = f (g a) + (\<Sum>x\<in>A - {a}. f (g x))" using assms by (simp add: sum.remove)
  ultimately show ?thesis by simp
qed

lemma grid_update:
  assumes "i < MAX_INTERFACES" "w < NE_CRYPTO_WORKERS"
  shows "grid_frames (g(i := (g i)(w := r))) + ring_frames (g i w) = grid_frames g + ring_frames r"
proof -
  let ?row = "\<lambda>h. \<Sum>w<NE_CRYPTO_WORKERS. ring_frames (h w)"
  have 1: "grid_frames (g(i := (g i)(w := r))) + ?row (g i) = grid_frames g + ?row ((g i)(w := r))"
    unfolding grid_frames_def using assms sum_update [of "{..<MAX_INTERFACES}" i ?row g "(g i)(w := r)"] by simp
  have 2: "?row ((g i)(w := r)) + ring_frames (g i w) = ?row (g i) + ring_frames r"
    using assms sum_update [of "{..<NE_CRYPTO_WORKERS}" w ring_frames "g i" r] by simp
  have "grid_frames (g(i := (g i)(w := r))) + ring_frames (g i w) + ?row (g i) = grid_frames g + ring_frames r + ?row (g i)"
    using 1 2 by (metis (no_types, lifting) add.assoc add.commute)
  then show ?thesis by simp
qed

lemma ring_push_frames:
  assumes "ring_ok r"
  shows "case ne_ring_try_push r p of
      None \<Rightarrow> True
    | Some r' \<Rightarrow> ring_ok r' \<and> ring_frames r' = add_mset (pk_addr p) (ring_frames r)"
proof (cases "length (ring_contents r) < unat (r_cap r)")
  case True
  from ring.push_room [OF assms this, of p] show ?thesis by (auto simp: ring_frames_def)
next
  case False
  then have "length (ring_contents r) = unat (r_cap r)" using ring.bounded [OF assms] by simp
  then show ?thesis using ring.push_full [OF assms] by simp
qed

lemma pool_free_frames:
  assumes "pool_ok p" "length (pool_contents p) < unat (q_cap p)"
  shows "pool_ok (ne_frame_free p a)" "mset (pool_contents (ne_frame_free p a)) = add_mset a (mset (pool_contents p))"
    "q_cap (ne_frame_free p a) = q_cap p"
proof -
  obtain put p' where pp: "pool_push p [a] = (put, p')" by (cases "pool_push p [a]")
  from pool.push_room [OF assms, of a] obtain q where
    "(if put = 1 then Some p' else None) = Some q" "pool_ok q" "pool_contents q = pool_contents p @ [a]" "unat (q_cap q) = unat (q_cap p)"
    by (auto simp: pp)
  then have "pool_ok p' \<and> pool_contents p' = pool_contents p @ [a] \<and> q_cap p' = q_cap p" by (auto split: if_splits simp: word_unat_eq_iff)
  then show "pool_ok (ne_frame_free p a)" "mset (pool_contents (ne_frame_free p a)) = add_mset a (mset (pool_contents p))"
    "q_cap (ne_frame_free p a) = q_cap p" by (simp_all add: ne_frame_free_def pp)
qed

lemma dp_ring_push_frames:
  assumes "ring_ok r" "pool_ok p" "length (pool_contents p) < unat (q_cap p)"
    and "dp_ring_push fs r p job = (ok, r', p', n)"
  shows "ring_ok r' \<and> pool_ok p' \<and> q_cap p' = q_cap p
    \<and> ring_frames r' + mset (pool_contents p') = add_mset (pk_addr job) (ring_frames r + mset (pool_contents p))
    \<and> (ok \<longrightarrow> p' = p \<and> ne_ring_try_push r job = Some r') \<and> (\<not> ok \<longrightarrow> r' = r \<and> p' = ne_frame_free p (pk_addr job))"
  using assms(4) ring_push_frames [OF assms(1), of job] pool_free_frames [OF assms(2,3), of "pk_addr job"] assms(1,2)
  by (auto simp: dp_ring_push_def split: if_splits option.splits)

lemma with_fwd_simps [simp]: "dp_fwd (with_fwd f s) = f (dp_fwd s)" "dp_opt (with_fwd f s) = dp_opt s" "dp_rt (with_fwd f s) = dp_rt s"
  "dp_tls (with_fwd f s) = dp_tls s" "dp_route (with_fwd f s) = dp_route s" "dp_sched (with_fwd f s) = dp_sched s"
  "dp_flow (with_fwd f s) = dp_flow s" "dp_reorder (with_fwd f s) = dp_reorder s" "dp_relay (with_fwd f s) = dp_relay s"
  "dp_arp (with_fwd f s) = dp_arp s" "dp_macfile (with_fwd f s) = dp_macfile s" "dp_pol_in (with_fwd f s) = dp_pol_in s" "dp_out_ring_idx (with_fwd f s) = dp_out_ring_idx s"
  by (simp_all add: with_fwd_def dp_out_ring_idx_def)

lemma fwd_updates [simp]: "fw_mid_to_wan (set_pool q fwd) = fw_mid_to_wan fwd" "fw_mid_to_local (set_pool q fwd) = fw_mid_to_local fwd"
  "fw_split_tail_cache (set_pool q fwd) = fw_split_tail_cache fwd" "pr_pool (fw_pair (set_pool q fwd)) = q"
  "fw_mid_to_wan (set_local_ring i w r fwd) = fw_mid_to_wan fwd" "fw_pair (set_local_ring i w r fwd) = fw_pair fwd"
  "fw_split_tail_cache (set_local_ring i w r fwd) = fw_split_tail_cache fwd"
  "fw_mid_to_local (set_local_ring i w r fwd) = (fw_mid_to_local fwd)(i := (fw_mid_to_local fwd i)(w := r))"
  "fw_mid_to_local (set_ring i w r fwd) = fw_mid_to_local fwd" "fw_pair (set_ring i w r fwd) = fw_pair fwd"
  "fw_split_tail_cache (set_ring i w r fwd) = fw_split_tail_cache fwd"
  "fw_mid_to_wan (set_ring i w r fwd) = (fw_mid_to_wan fwd)(i := (fw_mid_to_wan fwd i)(w := r))"
  by (simp_all add: set_pool_def set_local_ring_def set_ring_def)

lemma pool_has_room:
  assumes "dp_ok (Suc n) s"
  shows "length (pool_contents (pr_pool (fw_pair (dp_fwd s)))) < unat (q_cap (pr_pool (fw_pair (dp_fwd s))))"
  using assms by (simp add: dp_ok_def dp_frames_def fwd_frames_def)

lemma dp_ok_less: "dp_ok m s \<Longrightarrow> n \<le> m \<Longrightarrow> dp_ok n s"
  by (simp add: dp_ok_def)

lemma free_frame_owned:
  assumes "dp_ok (Suc n) s"
  shows "dp_frames (free_frame a s) = add_mset a (dp_frames s)" "dp_ok n (free_frame a s)"
proof -
  have p: "pool_ok (pr_pool (fw_pair (dp_fwd s)))" using assms by (simp add: dp_ok_def fwd_ok_def)
  note f = pool_free_frames [OF p pool_has_room [OF assms], of a]
  show 1: "dp_frames (free_frame a s) = add_mset a (dp_frames s)"
    using f by (simp add: free_frame_def dp_frames_def fwd_frames_def)
  show "dp_ok n (free_frame a s)"
    using f 1 assms by (simp add: free_frame_def dp_ok_def fwd_ok_def)
qed

lemma push_wan_owned:
  assumes ok: "dp_ok (Suc n) s" and i: "i < MAX_INTERFACES" and r: "push_wan i job s = (b, s')"
  shows "dp_frames s' = add_mset (pk_addr job) (dp_frames s)" "dp_ok n s'"
proof -
  let ?fwd = "dp_fwd s" and ?ri = "dp_out_ring_idx s"
  have w: "?ri < NE_CRYPTO_WORKERS" and f: "fwd_ok ?fwd" using ok by (simp_all add: dp_ok_def)
  obtain ok' rg pool k where p: "dp_ring_push (pr_frame_size (fw_pair ?fwd)) (fw_mid_to_wan ?fwd i ?ri) (pr_pool (fw_pair ?fwd)) job = (ok', rg, pool, k)"
    by (cases "dp_ring_push (pr_frame_size (fw_pair ?fwd)) (fw_mid_to_wan ?fwd i ?ri) (pr_pool (fw_pair ?fwd)) job") auto
  have s': "s' = s\<lparr>dp_fwd := set_pool pool (set_ring i ?ri rg ?fwd)\<rparr>" using r p by (simp add: push_wan_def Let_def)
  have q: "ring_ok rg" "pool_ok pool" "q_cap pool = q_cap (pr_pool (fw_pair ?fwd))"
    "ring_frames rg + mset (pool_contents pool) = add_mset (pk_addr job) (ring_frames (fw_mid_to_wan ?fwd i ?ri) + mset (pool_contents (pr_pool (fw_pair ?fwd))))"
    using dp_ring_push_frames [OF _ _ pool_has_room [OF ok] p] f by (auto simp: fwd_ok_def)
  have g: "grid_frames ((fw_mid_to_wan ?fwd)(i := (fw_mid_to_wan ?fwd i)(?ri := rg))) + ring_frames (fw_mid_to_wan ?fwd i ?ri)
      = grid_frames (fw_mid_to_wan ?fwd) + ring_frames rg" by (rule grid_update [OF i w])
  have "dp_frames s' + ring_frames (fw_mid_to_wan ?fwd i ?ri)
      = add_mset (pk_addr job) (dp_frames s) + ring_frames (fw_mid_to_wan ?fwd i ?ri)"
    using g q(4) by (simp add: s' dp_frames_def fwd_frames_def) (metis (no_types, lifting) add.assoc add.commute union_mset_add_mset_left)
  then show 1: "dp_frames s' = add_mset (pk_addr job) (dp_frames s)" by simp
  show "dp_ok n s'" using 1 q(1-3) f ok w by (simp add: dp_ok_def fwd_ok_def s' dp_out_ring_idx_def)
qed

lemma push_local_owned:
  assumes ok: "dp_ok (Suc n) s" and i: "i < MAX_INTERFACES" and r: "push_local i job s = (b, s')"
  shows "dp_frames s' = add_mset (pk_addr job) (dp_frames s)" "dp_ok n s'"
proof -
  let ?fwd = "dp_fwd s" and ?ri = "dp_out_ring_idx s"
  have w: "?ri < NE_CRYPTO_WORKERS" and f: "fwd_ok ?fwd" using ok by (simp_all add: dp_ok_def)
  obtain ok' rg pool k where p: "dp_ring_push (pr_frame_size (fw_pair ?fwd)) (fw_mid_to_local ?fwd i ?ri) (pr_pool (fw_pair ?fwd)) job = (ok', rg, pool, k)"
    by (cases "dp_ring_push (pr_frame_size (fw_pair ?fwd)) (fw_mid_to_local ?fwd i ?ri) (pr_pool (fw_pair ?fwd)) job") auto
  have s': "s' = s\<lparr>dp_fwd := set_pool pool (set_local_ring i ?ri rg ?fwd)\<rparr>" using r p by (simp add: push_local_def Let_def)
  have q: "ring_ok rg" "pool_ok pool" "q_cap pool = q_cap (pr_pool (fw_pair ?fwd))"
    "ring_frames rg + mset (pool_contents pool) = add_mset (pk_addr job) (ring_frames (fw_mid_to_local ?fwd i ?ri) + mset (pool_contents (pr_pool (fw_pair ?fwd))))"
    using dp_ring_push_frames [OF _ _ pool_has_room [OF ok] p] f by (auto simp: fwd_ok_def)
  have g: "grid_frames ((fw_mid_to_local ?fwd)(i := (fw_mid_to_local ?fwd i)(?ri := rg))) + ring_frames (fw_mid_to_local ?fwd i ?ri)
      = grid_frames (fw_mid_to_local ?fwd) + ring_frames rg" by (rule grid_update [OF i w])
  have "dp_frames s' + ring_frames (fw_mid_to_local ?fwd i ?ri)
      = add_mset (pk_addr job) (dp_frames s) + ring_frames (fw_mid_to_local ?fwd i ?ri)"
    using g q(4) by (simp add: s' dp_frames_def fwd_frames_def) (metis (no_types, lifting) add.assoc add.commute union_mset_add_mset_left)
  then show 1: "dp_frames s' = add_mset (pk_addr job) (dp_frames s)" by simp
  show "dp_ok n s'" using 1 q(1-3) f ok w by (simp add: dp_ok_def fwd_ok_def s' dp_out_ring_idx_def)
qed

lemma dp_frames_upd [simp]: "dp_frames (s\<lparr>dp_opt := a\<rparr>) = dp_frames s" "dp_frames (s\<lparr>dp_rt := b\<rparr>) = dp_frames s"
  "dp_frames (s\<lparr>dp_tls := c\<rparr>) = dp_frames s" "dp_frames (s\<lparr>dp_route := d\<rparr>) = dp_frames s" "dp_frames (s\<lparr>dp_sched := e\<rparr>) = dp_frames s"
  "dp_frames (s\<lparr>dp_flow := f\<rparr>) = dp_frames s" "dp_frames (s\<lparr>dp_relay := g\<rparr>) = dp_frames s" "dp_frames (s\<lparr>dp_arp := h\<rparr>) = dp_frames s"
  "dp_frames (s\<lparr>dp_macfile := i\<rparr>) = dp_frames s" "dp_frames (put_frame x y s) = dp_frames s"
  by (simp_all add: dp_frames_def fwd_frames_def put_frame_def)

lemma dp_ok_upd [simp]: "dp_ok n (s\<lparr>dp_opt := a\<rparr>) = dp_ok n s" "dp_ok n (s\<lparr>dp_rt := b\<rparr>) = dp_ok n s"
  "dp_ok n (s\<lparr>dp_tls := c\<rparr>) = dp_ok n s" "dp_ok n (s\<lparr>dp_sched := e\<rparr>) = dp_ok n s"
  "dp_ok n (s\<lparr>dp_flow := f\<rparr>) = dp_ok n s" "dp_ok n (s\<lparr>dp_relay := g\<rparr>) = dp_ok n s" "dp_ok n (s\<lparr>dp_arp := h\<rparr>) = dp_ok n s"
  "dp_ok n (s\<lparr>dp_macfile := i\<rparr>) = dp_ok n s"
  by (simp_all add: dp_ok_def dp_out_ring_idx_def)

lemma dp_ok_put_frame [simp]: "dp_ok n (put_frame x y s) = dp_ok n s"
  by (simp add: dp_ok_def fwd_ok_def) (simp add: put_frame_def)

lemma dp_ok_route: "dp_ok n s \<Longrightarrow> nat (tls_out_ring_idx d) < NE_CRYPTO_WORKERS \<Longrightarrow> dp_ok n (s\<lparr>dp_route := d\<rparr>)"
  by (simp add: dp_ok_def dp_out_ring_idx_def)

lemma set_macs_frames [simp]: "fwd_frames (set_macs t fwd) = fwd_frames fwd" "fwd_ok (set_macs t fwd) = fwd_ok fwd"
  by (simp_all add: set_macs_def fwd_frames_def fwd_ok_def)

end
