(* ===== verification/Arp_Bridge.thy ===== *)
theory Arp_Bridge
  imports Dataplane_State
begin

text \<open>
  The ARP bridge, \<open>src/core/dataplane/arp_bridge.c\<close>: ARP packets of the LAN are encrypted with a fixed key and sent to the
  WAN that is paired with the port, or to another WAN that is up; ARP packets of a WAN are decrypted, stamped, and sent
  to the port of the station, or copied to every LAN port of the profile when they are broadcast. The result \<open>0\<close> of the
  two entry points means that the frame was taken; with any other result the caller frees it. Log output, and the names
  that only it uses, are not represented.
\<close>

section \<open>The fixed key\<close>

definition ARP_DEFAULT_WIRE_ID :: u8 where "ARP_DEFAULT_WIRE_ID = 250"
definition ARP_ETH_HDR_LEN :: nat where "ARP_ETH_HDR_LEN = 14"
definition AES_MAX_KEY_SIZE :: nat where "AES_MAX_KEY_SIZE = 32"

definition g_arp_hardcoded_master_key_hex :: string where
  "g_arp_hardcoded_master_key_hex = ''73214a9ce15d2fb816c73b90ad44f26e580da137cb7f2495ee6318d489ba05cf''"

text \<open>\<open>sscanf\<close> with \<open>%2x\<close> at every second character, \<open>config.c\<close>.\<close>

definition parse_hex_bytes :: "string \<Rightarrow> nat \<Rightarrow> buf option" where
  "parse_hex_bytes str expected_len =
     (if length str \<noteq> expected_len * 2 then None
      else those (map (\<lambda>i. map_option fst (scan_hex (take 2 (dropWhile is_c_space (drop (i * 2) str))))) [0..<expected_len]))"

definition arp_crypto_ctx_init :: "(buf \<Rightarrow> buf \<Rightarrow> buf) \<Rightarrow> arp_state \<Rightarrow> arp_state" where
  "arp_crypto_ctx_init hmac g =
     (let loaded = (if g_arp_key_loaded g then Some g
          else case parse_hex_bytes g_arp_hardcoded_master_key_hex AES_MAX_KEY_SIZE of
              None \<Rightarrow> None
            | Some key \<Rightarrow> Some (g\<lparr>g_arp_default_master_key := key, g_arp_key_loaded := True\<rparr>))
      in case loaded of
          None \<Rightarrow> g
        | Some g \<Rightarrow>
            if g_arp_crypto_ctx_ready g then g
            else g\<lparr>g_arp_crypto_ctx := (packet_crypto_init hmac (g_arp_default_master_key g))\<lparr>ctx_initialized := True,
                     ctx_wire_id := ARP_DEFAULT_WIRE_ID, ctx_policy_id := 0, ctx_profile_id := 0\<rparr>,
                   g_arp_crypto_ctx_ready := True\<rparr>)"

definition arp_bridge_reload_policies :: "'c dp_env \<Rightarrow> 'c dataplane \<Rightarrow> 'c dataplane" where
  "arp_bridge_reload_policies env s = s\<lparr>dp_arp := arp_crypto_ctx_init (de_hmac env) (dp_arp s)\<rparr>"

section \<open>Where ARP packets go\<close>

definition arp_eth_dmac_is_broadcast :: "buf \<Rightarrow> nat \<Rightarrow> bool mem" where
  "arp_eth_dmac_is_broadcast pkt len =
     (if len < ARP_ETH_HDR_LEN then Some False
      else do { dmac \<leftarrow> rdn pkt 0 MAC_LEN; Some (dmac = replicate MAC_LEN 0xFF) })"

definition profile_pi_for_wan_dp :: "forwarder \<Rightarrow> int \<Rightarrow> int" where
  "profile_pi_for_wan_dp fwd wan_dp =
     (let cfg = fw_cfg fwd; cfg_idx = config_wan_dp_to_cfg cfg wan_dp in
      if cfg_idx < 0 \<or> ac_profiles cfg = [] then -1
      else let p = hd (ac_profiles cfg) in
        if \<not> pf_enabled p then -1 else if cfg_idx \<in> set (pf_wan_indices p) then 0 else -1)"

definition resolve_wan_dp_for_fwd_local :: "forwarder \<Rightarrow> profile_config \<Rightarrow> int \<Rightarrow> int option" where
  "resolve_wan_dp_for_fwd_local fwd prof fwd_local_idx =
     (if fwd_local_idx < 0 \<or> fwd_local_idx \<ge> fw_local_count fwd then None
      else let ifname = fw_local_ifnames fwd ! nat fwd_local_idx; locals = ac_locals (fw_cfg fwd) in
        if ifname = [] then None
        else map_option bp_wan_dp (find (\<lambda>b. 0 \<le> bp_local_idx b \<and> bp_local_idx b < int (length locals)
               \<and> locals ! nat (bp_local_idx b) = ifname) (pf_bridges prof)))"

definition arp_wan_dp_usable :: "forwarder \<Rightarrow> wan_sched \<Rightarrow> int \<Rightarrow> bool" where
  "arp_wan_dp_usable fwd ws wan_dp \<longleftrightarrow>
     0 \<le> wan_dp \<and> wan_dp < fw_wan_count fwd \<and> ne_pair_wan_live (fw_pair fwd) wan_dp
     \<and> \<not> fwd_wan_is_stopped ws wan_dp \<and> \<not> wan_failover_dp_excluded ws wan_dp"

definition arp_dp_for_cfg_wan :: "forwarder \<Rightarrow> wan_sched \<Rightarrow> int \<Rightarrow> int" where
  "arp_dp_for_cfg_wan fwd ws cfg_wan =
     (if cfg_wan < 0 then -1
      else case find (\<lambda>dp. fw_wan_cfg_idx fwd ! dp = cfg_wan \<and> arp_wan_dp_usable fwd ws (int dp))
          [0..<min (nat (fw_wan_count fwd)) MAX_INTERFACES] of
        None \<Rightarrow> -1 | Some dp \<Rightarrow> int dp)"

definition arp_pick_backup_wan_dp :: "forwarder \<Rightarrow> wan_sched \<Rightarrow> route_state \<Rightarrow> profile_config \<Rightarrow> int \<Rightarrow> int" where
  "arp_pick_backup_wan_dp fwd ws rs prof primary_wan_dp =
     fst (fold (\<lambda>cfg_wan (best, best_depth).
         let dp = arp_dp_for_cfg_wan fwd ws cfg_wan in
         if dp < 0 \<or> dp = primary_wan_dp then (best, best_depth)
         else if \<not> fwd_wan_has_tx_room fwd rs dp then (best, best_depth)
         else let depth = fwd_mid_to_wan_depth fwd dp in
           if depth < best_depth then (dp, depth) else (best, best_depth))
       (pf_wan_indices prof) (-1, 0xFFFFFFFF))"

definition arp_select_egress_wan :: "forwarder \<Rightarrow> wan_sched \<Rightarrow> route_state \<Rightarrow> profile_config \<Rightarrow> int \<Rightarrow> int \<times> bool" where
  "arp_select_egress_wan fwd ws rs prof primary_wan_dp =
     (if arp_wan_dp_usable fwd ws primary_wan_dp then (primary_wan_dp, False)
      else let backup = arp_pick_backup_wan_dp fwd ws rs prof primary_wan_dp in
        if backup < 0 then (-1, False) else (backup, True))"

definition arp_profile_owns_local :: "forwarder \<Rightarrow> int \<Rightarrow> int \<Rightarrow> bool" where
  "arp_profile_owns_local fwd profile_pi fwd_local_idx \<longleftrightarrow>
     (let cfg = fw_cfg fwd in
      0 \<le> profile_pi \<and> profile_pi < int (length (ac_profiles cfg))
      \<and> 0 \<le> fwd_local_idx \<and> fwd_local_idx < fw_local_count fwd \<and> ne_pair_local_live (fw_pair fwd) fwd_local_idx
      \<and> (let prof = ac_profiles cfg ! nat profile_pi; ifname = fw_local_ifnames fwd ! nat fwd_local_idx in
         pf_enabled prof \<and> ifname \<noteq> []
         \<and> list_ex (\<lambda>ci. 0 \<le> ci \<and> ci < int (length (ac_locals cfg)) \<and> ac_locals cfg ! nat ci = ifname) (pf_local_indices prof)))"

definition profile_pi_for_fwd_local :: "forwarder \<Rightarrow> int \<Rightarrow> int" where
  "profile_pi_for_fwd_local fwd fwd_li =
     (if fwd_li < 0 \<or> fwd_li \<ge> fw_local_count fwd then -1
      else let cfg = fw_cfg fwd; ifname = fw_local_ifnames fwd ! nat fwd_li in
        if ifname = [] \<or> ac_profiles cfg = [] then -1
        else let p = hd (ac_profiles cfg) in
          if \<not> pf_enabled p then -1
          else if list_ex (\<lambda>ci. 0 \<le> ci \<and> ci < int (length (ac_locals cfg)) \<and> ac_locals cfg ! nat ci = ifname) (pf_local_indices p)
          then 0 else -1)"

section \<open>Copies for every port\<close>

text \<open>One port of a flood: the first port takes the frame itself, every other one a copy. A failed push of the frame
  itself leaves it with the caller.\<close>

definition arp_flood_push_local :: "nat \<Rightarrow> nat \<Rightarrow> ne_packet \<times> bool \<times> 'c dataplane \<Rightarrow> (bool \<times> ne_packet \<times> bool \<times> 'c dataplane) mem" where
  "arp_flood_push_local li wi = (\<lambda>(job, sent, s).
     let fwd = dp_fwd s; ring = fw_mid_to_local fwd li wi in
     if \<not> sent then
       let job = job\<lparr>pk_dir := NE_DIR_LOCAL, pk_local_idx := of_nat li\<rparr> in
       case ne_ring_try_push ring job of
         None \<Rightarrow> Some (False, job, False, s)
       | Some ring \<Rightarrow> Some (True, job, True, with_fwd (set_local_ring li wi ring) s)
     else
       case ne_frame_alloc (pr_pool (fw_pair fwd)) of
         None \<Rightarrow> Some (False, job, sent, s)
       | Some (a, pool) \<Rightarrow> do {
           let s = with_fwd (set_pool pool) s;
           bytes \<leftarrow> rdn (ne_packet_data s (pk_addr job)) 0 (pk_len job);
           frame \<leftarrow> wrn (ne_packet_data s a) 0 bytes;
           let s = put_frame a frame s;
           let clone = ne_packet_zero\<lparr>pk_addr := a, pk_len := pk_len job, pk_dir := NE_DIR_LOCAL, pk_local_idx := of_nat li\<rparr>;
           case ne_ring_try_push ring clone of
             None \<Rightarrow> Some (False, job, sent, free_frame a s)
           | Some ring \<Rightarrow> Some (True, job, sent, with_fwd (set_local_ring li wi ring) s) })"

text \<open>One configured port of the profile: \<open>sent_mask\<close> holds the ports already served.\<close>

definition arp_flood_port :: "int \<Rightarrow> int \<Rightarrow> ne_packet \<times> bool \<times> nat set \<times> 'c dataplane \<Rightarrow> (ne_packet \<times> bool \<times> nat set \<times> 'c dataplane) mem" where
  "arp_flood_port profile_pi cfg_li = (\<lambda>(job, sent, sent_mask, s).
     let fwd = dp_fwd s; li = mac_fwd_local_for_cfg_idx fwd cfg_li in
     if li < 0 \<or> li \<ge> fw_local_count fwd then Some (job, sent, sent_mask, s)
     else if \<not> arp_profile_owns_local fwd profile_pi li then Some (job, sent, sent_mask, s)
     else if li < 16 \<and> nat li \<in> sent_mask then Some (job, sent, sent_mask, s)
     else do {
       (ok, job, sent, s) \<leftarrow> arp_flood_push_local (nat li) (dp_out_ring_idx s) (job, sent, s);
       Some (job, sent, if ok \<and> li < 16 then insert (nat li) sent_mask else sent_mask, s) })"

primrec arp_flood_ports :: "int \<Rightarrow> int list \<Rightarrow> ne_packet \<times> bool \<times> nat set \<times> 'c dataplane \<Rightarrow> (ne_packet \<times> bool \<times> nat set \<times> 'c dataplane) mem" where
  "arp_flood_ports profile_pi [] st = Some st"
| "arp_flood_ports profile_pi (ci # cis) st = do { st \<leftarrow> arp_flood_port profile_pi ci st; arp_flood_ports profile_pi cis st }"

definition arp_flood_to_profile_locals :: "int \<Rightarrow> ne_packet \<Rightarrow> 'c dataplane \<Rightarrow> (int \<times> ne_packet \<times> 'c dataplane) mem" where
  "arp_flood_to_profile_locals profile_pi job s =
     (let cfg = fw_cfg (dp_fwd s) in
      if profile_pi < 0 \<or> profile_pi \<ge> int (length (ac_profiles cfg)) then Some (-1, job, s)
      else let prof = ac_profiles cfg ! nat profile_pi in
        if \<not> pf_enabled prof \<or> pf_local_indices prof = [] then Some (-1, job, s)
        else do {
          (job, sent, sent_mask, s) \<leftarrow> arp_flood_ports profile_pi (pf_local_indices prof) (job, False, {}, s);
          Some (if sent then 0 else -1, job, s) })"

section \<open>Encryption\<close>

definition arp_try_encrypt_l2_pqc :: "'c dp_env \<Rightarrow> int \<Rightarrow> ne_packet \<Rightarrow> 'c dataplane \<Rightarrow> (bool \<times> ne_packet \<times> 'c dataplane) mem" where
  "arp_try_encrypt_l2_pqc env profile_idx job s =
     (let g = arp_crypto_ctx_init (de_hmac env) (dp_arp s); s = s\<lparr>dp_arp := g\<rparr> in
      if \<not> g_arp_crypto_ctx_ready g then Some (False, job, s)
      else if pk_len job > NE_FRAME then Some (False, job, s)
      else do {
        let pkt = ne_packet_data s (pk_addr job);
        scratch \<leftarrow> rdn pkt 0 (pk_len job);
        let ctx = (g_arp_crypto_ctx g)\<lparr>ctx_profile_id := (if profile_idx \<ge> 0 then profile_idx else 0), ctx_policy_id := 0,
                    ctx_wire_id := ARP_DEFAULT_WIRE_ID\<rparr>;
        let s = s\<lparr>dp_arp := g\<lparr>g_arp_crypto_ctx := ctx\<rparr>\<rparr>;
        (rc, len, pkt, opt) \<leftarrow> crypto_option_encrypt (de_lib env) (de_os env) CRYPTO_OPT_L2_PQC CRYPTO_PROTO_ARP ctx (dp_opt s) pkt (pk_len job);
        let s = s\<lparr>dp_opt := opt\<rparr>;
        if rc \<noteq> 0 then do { pkt \<leftarrow> wrn pkt 0 scratch; Some (False, job, put_frame (pk_addr job) pkt s) }
        else Some (True, job\<lparr>pk_len := len\<rparr>, put_frame (pk_addr job) pkt s) })"

definition arp_try_decrypt_l2_pqc :: "'c dp_env \<Rightarrow> ne_packet \<Rightarrow> 'c dataplane \<Rightarrow> (int \<times> ne_packet \<times> 'c dataplane) mem" where
  "arp_try_decrypt_l2_pqc env job s = do {
     let pkt = ne_packet_data s (pk_addr job);
     plain \<leftarrow> crypto_pkt_is_arp pkt (pk_len job);
     if plain then Some (0, job, s)
     else do {
       marked \<leftarrow> crypto_eth_l2_has_arp_marker pkt (pk_len job);
       if \<not> marked then Some (-1, job, s)
       else do {
         let g = arp_crypto_ctx_init (de_hmac env) (dp_arp s);
         let s = s\<lparr>dp_arp := g\<rparr>;
         if \<not> g_arp_crypto_ctx_ready g then Some (-1, job, s)
         else do {
           (rc, len, pkt, opt) \<leftarrow> crypto_option_decrypt (de_lib env) (de_os env) CRYPTO_OPT_L2_PQC CRYPTO_PROTO_ARP (g_arp_crypto_ctx g) (dp_opt s) pkt (pk_len job);
           let s = put_frame (pk_addr job) pkt (s\<lparr>dp_opt := opt\<rparr>);
           if rc \<noteq> 0 then Some (-1, job, s)
           else do {
             arp \<leftarrow> crypto_pkt_is_arp pkt len;
             if \<not> arp then Some (-1, job, s) else Some (1, job\<lparr>pk_len := len\<rparr>, s) } } } } }"

section \<open>From the LAN\<close>

text \<open>The first part of \<open>arp_bridge_from_local\<close>: packets that are not bridged, and what is learnt from the others. The
  flag says that the handler returns \<open>0\<close> at once.\<close>

definition arp_local_filter :: "'c dp_env \<Rightarrow> ne_packet \<Rightarrow> int \<Rightarrow> 'c dataplane \<Rightarrow> (bool \<times> 'c dataplane) mem" where
  "arp_local_filter env job ingress_li s =
     (if pk_len job < ARP_ETH_HDR_LEN then Some (False, s)
      else do {
        let pkt = ne_packet_data s (pk_addr job);
        let fwd = dp_fwd s;
        ips \<leftarrow> dp_parse_arp_ips pkt (pk_len job);
        case ips of
          None \<Rightarrow> Some (False, s)
        | Some (spa, tpa) \<Rightarrow> do {
            smac \<leftarrow> rdn pkt MAC_LEN MAC_LEN;
            if mac_relay_recent (de_now_ms env) smac spa (dp_relay s) then Some (True, s)
            else if mac_is_appliance_mac fwd smac then Some (True, s)
            else do {
              arp_op \<leftarrow> dp_parse_arp_op pkt (pk_len job);
              smac_li \<leftarrow> (if arp_op = Some 2 then mac_lookup fwd smac else Some (-1));
              if arp_op = Some 2 \<and> smac_li \<ge> 0 \<and> smac_li \<noteq> ingress_li then Some (True, s)
              else do {
                (fwd, macfile) \<leftarrow> mac_learn (de_io env) ingress_li pkt (pk_len job) MAC_LEARN_SRC_ARP (fwd, dp_macfile s);
                Some (False, s\<lparr>dp_fwd := fwd, dp_macfile := macfile\<rparr>) } } } })"

definition note_backup :: "bool \<Rightarrow> int \<Rightarrow> arp_state \<Rightarrow> arp_state" where
  "note_backup used_backup ingress_li g =
     (if 0 \<le> ingress_li \<and> ingress_li < int MAX_INTERFACES
      then g\<lparr>g_arp_lan_on_backup := (g_arp_lan_on_backup g)[nat ingress_li := used_backup]\<rparr> else g)"

definition arp_bridge_from_local :: "'c dp_env \<Rightarrow> ne_packet \<Rightarrow> int \<Rightarrow> 'c dataplane \<Rightarrow> (int \<times> 'c dataplane) mem" where
  "arp_bridge_from_local env job ingress_li s = do {
     (filtered, s) \<leftarrow> arp_local_filter env job ingress_li s;
     if filtered then Some (0, s)
     else
       let fwd = dp_fwd s; profile_pi = profile_pi_for_fwd_local fwd ingress_li in
       if profile_pi < 0 then Some (-1, s)
       else
         let prof = ac_profiles (fw_cfg fwd) ! nat profile_pi in
         case resolve_wan_dp_for_fwd_local fwd prof ingress_li of
           None \<Rightarrow> Some (-1, s)
         | Some primary_wan_dp \<Rightarrow>
             if primary_wan_dp < 0 \<or> primary_wan_dp \<ge> fw_wan_count fwd then Some (-1, s)
             else case arp_select_egress_wan fwd (dp_sched s) (dp_route s) prof primary_wan_dp of (wan_dp, used_backup) \<Rightarrow>
               if wan_dp < 0 then Some (-1, s)
               else if pk_len job < ARP_ETH_HDR_LEN then Some (-1, s)
               else do {
                 ips \<leftarrow> dp_parse_arp_ips (ne_packet_data s (pk_addr job)) (pk_len job);
                 if ips = None then Some (-1, s)
                 else do {
                   (encrypted, job, s) \<leftarrow> arp_try_encrypt_l2_pqc env profile_pi job s;
                   let s = s\<lparr>dp_arp := note_backup used_backup ingress_li (dp_arp s)\<rparr>;
                   let job = job\<lparr>pk_dir := NE_DIR_WAN, pk_wan_idx := of_int wan_dp\<rparr>;
                   case push_wan (nat wan_dp) job s of (ok, s) \<Rightarrow> Some (if ok then 0 else -1, s) } } }"

section \<open>From the WAN\<close>

definition arp_bridge_from_wan :: "'c dp_env \<Rightarrow> ne_packet \<Rightarrow> int \<Rightarrow> 'c dataplane \<Rightarrow> (int \<times> 'c dataplane) mem" where
  "arp_bridge_from_wan env job ingress_wan_dp s = do {
     was_plain \<leftarrow> crypto_pkt_is_arp (ne_packet_data s (pk_addr job)) (pk_len job);
     plain_ips \<leftarrow> (if was_plain then dp_parse_arp_ips (ne_packet_data s (pk_addr job)) (pk_len job) else Some None);
     (dec, job, s) \<leftarrow> arp_try_decrypt_l2_pqc env job s;
     if dec < 0 then Some (-1, s)
     else do {
       let pkt = ne_packet_data s (pk_addr job);
       ips \<leftarrow> (if dec = 1 then dp_parse_arp_ips pkt (pk_len job) else Some plain_ips);
       let fwd = dp_fwd s;
       let profile_pi = profile_pi_for_wan_dp fwd ingress_wan_dp;
       if profile_pi < 0 then Some (-1, s)
       else if pk_len job < ARP_ETH_HDR_LEN then Some (-1, s)
       else do {
         is_bcast \<leftarrow> arp_eth_dmac_is_broadcast pkt (pk_len job);
         smac \<leftarrow> rdn pkt MAC_LEN MAC_LEN;
         dmac \<leftarrow> rdn pkt 0 MAC_LEN;
         let s = (case ips of None \<Rightarrow> s | Some (spa, tpa) \<Rightarrow> s\<lparr>dp_relay := mac_relay_stamp (de_now_ms env) smac spa (dp_relay s)\<rparr>);
         if is_bcast then do {
           (rc, job, s) \<leftarrow> arp_flood_to_profile_locals profile_pi job s;
           Some (if rc \<noteq> 0 then -1 else 0, s) }
         else do {
           deliver_li \<leftarrow> mac_lookup fwd dmac;
           if deliver_li < 0 \<or> \<not> arp_profile_owns_local fwd profile_pi deliver_li then Some (-1, s)
           else
             let job = job\<lparr>pk_dir := NE_DIR_LOCAL, pk_local_idx := of_int deliver_li\<rparr> in
             case push_local (nat deliver_li) job s of (ok, s) \<Rightarrow> Some (if ok then 0 else -1, s) } } } }"

end
