(* ===== verification/Local_Egress.thy ===== *)
theory Local_Egress
  imports Arp_Bridge
begin

text \<open>
  Packets from the LAN, \<open>src/core/dataplane/local_egress.c\<close>: the choice of policy and WAN, the bypass, and the
  encryption, with the split of a UDP datagram into two frames. ARP packets go to the bridge.
\<close>

definition SPLIT_TAIL_REFILL_BATCH :: u32 where "SPLIT_TAIL_REFILL_BATCH = 32"

section \<open>Rings and tail frames\<close>

definition push_to_wan :: "ne_packet \<Rightarrow> int \<Rightarrow> 'c dataplane \<Rightarrow> bool \<times> 'c dataplane" where
  "push_to_wan job wan_dp s = push_wan (nat wan_dp) (job\<lparr>pk_dir := NE_DIR_WAN, pk_wan_idx := of_int wan_dp\<rparr>) s"

text \<open>The tail is freed on failure, the first frame stays with the caller. The two packets are pushed together.\<close>

definition push_split_to_wan :: "ne_packet \<Rightarrow> nat \<Rightarrow> ne_packet \<Rightarrow> nat \<Rightarrow> int \<Rightarrow> 'c dataplane \<Rightarrow> bool \<times> 'c dataplane" where
  "push_split_to_wan job l1 tail l2 wan_dp s =
     (let fwd = dp_fwd s; tx = fw_mid_to_wan fwd (nat wan_dp) (dp_out_ring_idx s); size = pr_frame_size (fw_pair fwd) in
      if wan_dp < 0 \<or> wan_dp \<ge> fw_wan_count fwd \<or> ne_ring_count tx + 2 > r_cap tx then (False, free_frame (pk_addr tail) s)
      else if l1 = 0 \<or> l2 = 0 \<or> l1 > size \<or> l2 > size then (False, free_frame (pk_addr tail) s)
      else
        let tail = tail\<lparr>pk_len := l2, pk_dir := NE_DIR_WAN, pk_wan_idx := of_int wan_dp\<rparr>;
            job = job\<lparr>pk_len := l1, pk_dir := NE_DIR_WAN, pk_wan_idx := of_int wan_dp\<rparr>
        in case ne_ring_try_push_pair tx job tail of
             None \<Rightarrow> (False, free_frame (pk_addr tail) s)
           | Some tx \<Rightarrow> (True, with_fwd (set_ring (nat wan_dp) (dp_out_ring_idx s) tx) s))"

definition set_tails :: "nat \<Rightarrow> u64 list \<Rightarrow> forwarder \<Rightarrow> forwarder" where
  "set_tails w as fwd = fwd\<lparr>fw_split_tail_cache := (fw_split_tail_cache fwd)(w := as)\<rparr>"

definition split_tail_take :: "int \<Rightarrow> 'c dataplane \<Rightarrow> u64 option \<times> 'c dataplane" where
  "split_tail_take worker_idx s =
     (if worker_idx < 0 \<or> worker_idx \<ge> int NE_CRYPTO_WORKERS then (None, s)
      else
        let w = nat worker_idx; fwd = dp_fwd s;
            (got, fwd) = (if fw_split_tail_cache fwd w = [] then
                case ne_frame_alloc_batch (pr_pool (fw_pair fwd)) SPLIT_TAIL_REFILL_BATCH of
                  (as, pool) \<Rightarrow> (as \<noteq> [], set_tails w as (set_pool pool fwd))
              else (True, fwd));
            as = fw_split_tail_cache fwd w
        in if \<not> got then (None, s\<lparr>dp_fwd := fwd\<rparr>)
           else (Some (last as), s\<lparr>dp_fwd := set_tails w (butlast as) fwd\<rparr>))"

section \<open>Encryption\<close>

text \<open>The result is negative when the caller drops the packet, \<open>0\<close> when it sends the frame, positive when both frames of
  a split are under way.\<close>

definition encrypt_to_wan :: "'c dp_env \<Rightarrow> ne_packet \<Rightarrow> int \<Rightarrow> packet_crypto_ctx \<Rightarrow> crypto_proto_class \<Rightarrow> bool \<Rightarrow>
    'c dataplane \<Rightarrow> (int \<times> ne_packet \<times> 'c dataplane) mem" where
  "encrypt_to_wan env job wan_dp pctx pclass flow_ok s = do {
     let worker_idx = dp_crypto_current_worker_idx s;
     let pkt = ne_packet_data s (pk_addr job);
     (seq_ok, s) \<leftarrow> (if pclass = CRYPTO_PROTO_UDP then
         if \<not> flow_ok then Some (False, s)
         else do {
           (udp_seq, rs) \<leftarrow> dp_udp_next_tx_seq pkt (pk_len job) (dp_route s);
           let s = s\<lparr>dp_route := rs\<rparr>;
           Some (case udp_seq of None \<Rightarrow> (False, s) | Some q \<Rightarrow> (True, s\<lparr>dp_opt := crypto_option_udp_set_tx_seq q (dp_opt s)\<rparr>)) }
       else Some (True, s));
     if \<not> seq_ok then Some (-1, job, s)
     else if crypto_option_need_split (de_lib env) (de_os env) CRYPTO_OPT_L2_PQC pclass (dp_opt s) (of_nat (pk_len job)) then
       (case split_tail_take worker_idx s of
          (None, s) \<Rightarrow> Some (-1, job, s)
        | (Some a, s) \<Rightarrow> do {
            let size = pr_frame_size (fw_pair (dp_fwd s));
            (r, pkt, tail_buf, opt) \<leftarrow> crypto_option_split (de_lib env) (de_os env) CRYPTO_OPT_L2_PQC pclass pctx (dp_opt s) pkt (pk_len job)
               size (ne_packet_data s a) size;
            let s = put_frame a tail_buf (put_frame (pk_addr job) pkt (s\<lparr>dp_opt := opt\<rparr>));
            case r of
              None \<Rightarrow> Some (-1, job, free_frame a s)
            | Some (l1, l2) \<Rightarrow>
                (case push_split_to_wan job l1 (ne_packet_zero\<lparr>pk_addr := a\<rparr>) l2 wan_dp s of
                   (ok, s) \<Rightarrow> Some (if ok then 1 else -1, job, s)) })
     else do {
       (rc, len, pkt, opt) \<leftarrow> crypto_option_encrypt (de_lib env) (de_os env) CRYPTO_OPT_L2_PQC pclass pctx (dp_opt s) pkt (pk_len job);
       let s = put_frame (pk_addr job) pkt (s\<lparr>dp_opt := opt\<rparr>);
       if rc \<noteq> 0 then Some (-1, job, s) else Some (0, job\<lparr>pk_len := len\<rparr>, s) } }"

section \<open>Policy\<close>

text \<open>\<open>config_select_crypto_policy\<close> with the position of the policy in the array, which the code finds from its address.\<close>

definition policy_idx_better :: "app_config \<Rightarrow> nat \<Rightarrow> nat option \<Rightarrow> nat option" where
  "policy_idx_better cfg i best =
     (case best of
        None \<Rightarrow> Some i
      | Some b \<Rightarrow> let cp = ac_policies cfg ! i; bp = ac_policies cfg ! b in
          if cp_priority cp < cp_priority bp \<or> (cp_priority cp = cp_priority bp \<and> cp_id cp < cp_id bp) then Some i else best)"

definition policy_idx_step :: "app_config \<Rightarrow> flow5 \<Rightarrow> int \<Rightarrow> nat option \<Rightarrow> nat option" where
  "policy_idx_step cfg f pi best =
     (if pi < 0 \<or> pi \<ge> int (length (ac_policies cfg)) then best
      else if \<not> crypto_policy_match_packet (ac_policies cfg ! nat pi) (f5_src_ip f) (f5_dst_ip f) (f5_src_port f) (f5_dst_port f) (f5_proto f)
      then best
      else policy_idx_better cfg (nat pi) best)"

definition select_policy_idx :: "app_config \<Rightarrow> int \<Rightarrow> flow5 \<Rightarrow> nat option" where
  "select_policy_idx cfg profile_idx f =
     (if profile_idx < 0 \<or> profile_idx \<ge> int (length (ac_profiles cfg)) then None
      else fold (policy_idx_step cfg f) (pf_policy_indices (ac_profiles cfg ! nat profile_idx)) None)"

lemma policy_idx_better_select:
  "map_option ((!) (ac_policies cfg)) (policy_idx_better cfg i best) = policy_better (ac_policies cfg ! i) (map_option ((!) (ac_policies cfg)) best)"
  by (cases best) (simp_all add: policy_idx_better_def policy_better_def Let_def)

lemma select_policy_idx_select:
  "map_option ((!) (ac_policies cfg)) (select_policy_idx cfg profile_idx f)
   = config_select_crypto_policy cfg profile_idx (f5_src_ip f) (f5_dst_ip f) (f5_src_port f) (f5_dst_port f) (f5_proto f)"
proof -
  let ?in = "\<lambda>i. \<not> (i < 0 \<or> i \<ge> int (length (ac_policies cfg)))"
  have "map_option ((!) (ac_policies cfg)) (fold (policy_idx_step cfg f) is best)
     = fold (\<lambda>cp best. if \<not> crypto_policy_match_packet cp (f5_src_ip f) (f5_dst_ip f) (f5_src_port f) (f5_dst_port f) (f5_proto f) then best
          else policy_better cp best) (map (\<lambda>i. ac_policies cfg ! nat i) (filter ?in is)) (map_option ((!) (ac_policies cfg)) best)" for "is" best
    by (induction "is" arbitrary: best) (simp_all add: policy_idx_better_select policy_idx_step_def)
  then show ?thesis by (simp add: select_policy_idx_def config_select_crypto_policy_def profile_policies_def)
qed

lemma policy_idx_step_in:
  assumes "\<forall>b. best = Some b \<longrightarrow> b < length (ac_policies cfg)" "policy_idx_step cfg f pi best = Some i"
  shows "i < length (ac_policies cfg)"
  using assms by (auto simp: policy_idx_step_def policy_idx_better_def Let_def split: if_splits option.splits)

lemma select_policy_idx_in:
  assumes "select_policy_idx cfg profile_idx f = Some i"
  shows "i < length (ac_policies cfg)"
proof -
  have "i < length (ac_policies cfg)"
    if "fold (policy_idx_step cfg f) is best = Some i" "\<forall>b. best = Some b \<longrightarrow> b < length (ac_policies cfg)" for "is" best
    using that by (induction "is" arbitrary: best) (simp, metis (no_types, lifting) fold_simps(2) policy_idx_step_in)
  then show ?thesis using assms by (auto simp: select_policy_idx_def split: if_splits)
qed

definition pick_profile_policy :: "forwarder \<Rightarrow> int \<Rightarrow> flow5 option \<Rightarrow> nat option" where
  "pick_profile_policy fwd local_idx flow =
     (let cfg = fw_cfg fwd in
      if ac_profiles cfg = [] then None
      else let p = hd (ac_profiles cfg) in
        if \<not> pf_enabled p then None
        else if local_idx \<notin> set (pf_local_indices p) then None
        else case (case flow of None \<Rightarrow> None | Some f \<Rightarrow> select_policy_idx cfg 0 f) of
            None \<Rightarrow> None
          | Some i \<Rightarrow>
              let c = ac_policies cfg ! i in
              if cp_action c \<noteq> POLICY_ACTION_BYPASS \<and> cp_action c \<noteq> POLICY_ACTION_ENCRYPT_L2 then None else Some i)"

definition dataplane_local_needs_mid :: "forwarder \<Rightarrow> buf \<Rightarrow> nat \<Rightarrow> int \<Rightarrow> bool mem" where
  "dataplane_local_needs_mid fwd pkt len local_idx = do {
     arp \<leftarrow> dp_pkt_is_arp pkt len;
     if arp then Some True
     else if \<not> ac_crypto_enabled (fw_cfg fwd) then Some False
     else do {
       flow \<leftarrow> dp_parse_flow pkt len;
       case pick_profile_policy fwd local_idx flow of
         None \<Rightarrow> Some False
       | Some i \<Rightarrow> Some (cp_action (ac_policies (fw_cfg fwd) ! i) \<noteq> POLICY_ACTION_BYPASS) } }"

section \<open>The handler\<close>

definition drop_local :: "ne_packet \<Rightarrow> 'c dataplane \<Rightarrow> 'c dataplane" where
  "drop_local job s = free_frame (pk_addr job) s"

text \<open>The part of \<open>dataplane_process_local\<close> after the choice of a policy that encrypts and of a WAN.\<close>

definition encrypt_local :: "'c dp_env \<Rightarrow> ne_packet \<Rightarrow> flow5 \<Rightarrow> nat \<Rightarrow> int \<Rightarrow> 'c dataplane \<Rightarrow> 'c dataplane mem" where
  "encrypt_local env job f pi wan_dp s = do {
     let pkt = ne_packet_data s (pk_addr job);
     s \<leftarrow> (if f5_proto f = IPPROTO_TCP then do {
             (rc, pkt) \<leftarrow> crypto_tcp_clamp_mss pkt (pk_len job) CRYPTO_OPT_FRAG_MTU_DEFAULT (crypto_option_wire_overhead CRYPTO_OPT_L2_PQC);
             Some (put_frame (pk_addr job) pkt s) }
           else Some s);
     if pi \<ge> MAX_CRYPTO_POLICIES \<or> \<not> fwd_crypto_policy_ready (int pi) (dp_rt s) then Some (drop_local job s)
     else (case fwd_crypto_policy_ctx (dp_crypto_current_worker_idx s) (int pi) (dp_rt s) (dp_tls s) of
         (None, rt, tls) \<Rightarrow> Some (drop_local job (s\<lparr>dp_rt := rt, dp_tls := tls\<rparr>))
       | (Some pctx, rt, tls) \<Rightarrow> do {
           (enc, job, s) \<leftarrow> encrypt_to_wan env job wan_dp pctx (crypto_proto_classify (f5_proto f)) True (s\<lparr>dp_rt := rt, dp_tls := tls\<rparr>);
           if enc < 0 then Some (drop_local job s)
           else if enc > 0 then Some s
           else Some (snd (push_to_wan job wan_dp s)) }) }"

definition dataplane_process_local :: "'c dp_env \<Rightarrow> ne_packet \<Rightarrow> 'c dataplane \<Rightarrow> 'c dataplane mem" where
  "dataplane_process_local env job s = do {
     let pkt = ne_packet_data s (pk_addr job);
     let fwd = dp_fwd s;
     flow \<leftarrow> dp_parse_flow pkt (pk_len job);
     let li = (if uint (pk_local_idx job) < fw_local_count fwd then uint (pk_local_idx job) else 0);
     arp \<leftarrow> dp_pkt_is_arp pkt (pk_len job);
     if arp then do {
       (rc, s) \<leftarrow> arp_bridge_from_local env job li s;
       Some (if rc = 0 then s else drop_local job s) }
     else
       case pick_profile_policy fwd li flow of
         None \<Rightarrow> Some (drop_local job s)
       | Some pi \<Rightarrow>
           let f = the flow in
           case fwd_wan_pick_for_local (de_calloc_ok env) fwd (dp_sched s) (dp_route s) (de_now_ms env) (dp_flow s) 0 (flow \<noteq> None)
              (f5_src_ip f) (f5_dst_ip f) (f5_src_port f) (f5_dst_port f) (f5_proto f) of
             (wan_dp, t) \<Rightarrow>
               let s = s\<lparr>dp_flow := t\<rparr> in
               if wan_dp < 0 \<or> \<not> fwd_wan_has_tx_room fwd (dp_route s) wan_dp then Some (drop_local job s)
               else if cp_action (ac_policies (fw_cfg fwd) ! pi) = POLICY_ACTION_BYPASS then Some (snd (push_to_wan job wan_dp s))
               else if \<not> ac_crypto_enabled (fw_cfg fwd) then Some (drop_local job s)
               else encrypt_local env job f pi wan_dp s }"

end
