(* ===== verification/Wan_Ingress.thy ===== *)
theory Wan_Ingress
  imports Local_Egress
begin

text \<open>
  Packets from a WAN, \<open>src/core/dataplane/wan_ingress.c\<close>: decryption and reassembly, the choice of profile, the gate of
  incoming policies, the reorder buffer of UDP, and the delivery to a LAN port. ARP packets go to the bridge. The option
  never holds frames of the worker, so \<open>crypto_l2_pqc_reasm_held\<close> and \<open>crypto_l2_pqc_reasm_out_addr\<close>, which are
  constant zero, and the results that depend on them, do not appear.
\<close>

section \<open>Wire format\<close>

definition WAN_L2_UDP_MARKER_LEN :: nat where "WAN_L2_UDP_MARKER_LEN = 4"
definition WAN_L2_UDP_SHIM_LEN :: nat where "WAN_L2_UDP_SHIM_LEN = 13"
definition WAN_L2_GCM_TAG_LEN :: nat where "WAN_L2_GCM_TAG_LEN = 16"
definition PACKET_CRYPTO_NONCE_BYTES :: int where "PACKET_CRYPTO_NONCE_BYTES = 12"
definition wan_l2_udp_marker :: buf where "wan_l2_udp_marker = [0x5B, 0x55, 0x44, 0x01]"

definition wan_l2_is_udp_tagged :: "buf \<Rightarrow> nat \<Rightarrow> bool mem" where
  "wan_l2_is_udp_tagged pkt len = do {
     marked \<leftarrow> crypto_eth_l2_has_marker pkt len;
     if \<not> marked then Some False
     else do {
       mark_off \<leftarrow> crypto_eth_l2_frag_magic_off pkt len PACKET_CRYPTO_NONCE_BYTES;
       case mark_off of
         None \<Rightarrow> Some False
       | Some off \<Rightarrow>
           if len < off + WAN_L2_UDP_MARKER_LEN + WAN_L2_UDP_SHIM_LEN + WAN_L2_GCM_TAG_LEN then Some False
           else do { m \<leftarrow> rdn pkt off WAN_L2_UDP_MARKER_LEN; Some (m = wan_l2_udp_marker) } } }"

definition wan_l2_is_frag :: "buf \<Rightarrow> nat \<Rightarrow> bool mem" where
  "wan_l2_is_frag pkt len = wan_l2_is_udp_tagged pkt len"

definition fwd_policy_by_wire_id :: "forwarder \<Rightarrow> u8 \<Rightarrow> crypto_policy option" where
  "fwd_policy_by_wire_id fwd wire_id =
     find (\<lambda>cp. cp_action cp \<noteq> POLICY_ACTION_BYPASS \<and> (of_int (cp_id cp) :: u8) = wire_id)
       (take MAX_CRYPTO_POLICIES (ac_policies (fw_cfg fwd)))"

definition wan_l2_plain_ipv4 :: "buf \<Rightarrow> nat \<Rightarrow> bool mem" where
  "wan_l2_plain_ipv4 pkt len = crypto_pkt_is_ipv4 pkt len"

definition wan_l2_plain_ok :: "buf \<Rightarrow> nat \<Rightarrow> bool mem" where
  "wan_l2_plain_ok pkt len = do {
     ip \<leftarrow> crypto_pkt_is_ipv4 pkt len;
     if ip then Some True else crypto_pkt_is_arp pkt len }"

definition wan_wire_is_encrypted :: "crypto_runtime \<Rightarrow> buf \<Rightarrow> nat \<Rightarrow> bool mem" where
  "wan_wire_is_encrypted rt pkt len = do {
     a \<leftarrow> fwd_crypto_has_l2_marker (rt_index_by_wire_id rt) pkt len;
     b \<leftarrow> (if a then Some True else crypto_eth_l2_has_marker pkt len);
     if b then Some True else wan_l2_is_udp_tagged pkt len }"

section \<open>Decryption\<close>

definition decrypt_l2 :: "'c dp_env \<Rightarrow> buf \<Rightarrow> nat \<Rightarrow> 'c dataplane \<Rightarrow> (int \<times> nat \<times> buf \<times> 'c dataplane) mem" where
  "decrypt_l2 env pkt len s = do {
     marked \<leftarrow> crypto_eth_l2_has_marker pkt len;
     wire_id \<leftarrow> (if marked then crypto_eth_l2_read_policy_id pkt len else Some None);
     case wire_id of
       None \<Rightarrow> Some (0, len, pkt, s)
     | Some wire_id \<Rightarrow>
       (case fwd_crypto_ctx_for_wire_id (de_now_ms env) (dp_crypto_current_worker_idx s) wire_id (dp_rt s) (dp_tls s) of
          (None, rt, tls) \<Rightarrow> Some (-1, len, pkt, s\<lparr>dp_rt := rt, dp_tls := tls\<rparr>)
        | (Some ctx, rt, tls) \<Rightarrow>
          let s = s\<lparr>dp_rt := rt, dp_tls := tls\<rparr> in
          if len > NE_FRAME then Some (-1, len, pkt, s)
          else do {
            scratch \<leftarrow> rdn pkt 0 len;
            (rc, n, pkt, opt) \<leftarrow> crypto_option_decrypt (de_lib env) (de_os env) CRYPTO_OPT_L2_PQC CRYPTO_PROTO_TCP ctx (dp_opt s) pkt len;
            let s = s\<lparr>dp_opt := opt\<rparr>;
            ip \<leftarrow> (if rc = 0 then crypto_pkt_is_ipv4 pkt n else Some False);
            if ip then Some (0, n, pkt, s)
            else do { pkt \<leftarrow> wrn pkt 0 scratch; Some (-1, len, pkt, s) } }) }"

text \<open>The option reassembles into the frame of the packet itself; what it writes comes from its own table, after the
  last read of the packet. The result is \<open>0\<close> or \<open>-1\<close>, with the new length, the flag \<open>pending\<close> and the frame.\<close>

definition reassemble_l2 :: "'c dp_env \<Rightarrow> buf \<Rightarrow> nat \<Rightarrow> u8 \<Rightarrow> 'c dataplane \<Rightarrow> (int \<times> nat \<times> bool \<times> buf \<times> 'c dataplane) mem" where
  "reassemble_l2 env pkt len policy_id s =
     (case fwd_crypto_ctx_for_wire_id (de_now_ms env) (dp_crypto_current_worker_idx s) policy_id (dp_rt s) (dp_tls s) of
        (None, rt, tls) \<Rightarrow> Some (-1, len, False, pkt, s\<lparr>dp_rt := rt, dp_tls := tls\<rparr>)
      | (Some ctx, rt, tls) \<Rightarrow>
        (case fwd_crypto_profile_id_for_wire_id (de_now_ms env) policy_id rt of (profile_id, rt) \<Rightarrow>
         let s = s\<lparr>dp_rt := rt, dp_tls := tls\<rparr>; slot = fwd_crypto_profile_slot_for_id profile_id in
         if slot < 0 then Some (-1, len, False, pkt, s)
         else do {
           (rr, n, blen, pkt, out, opt) \<leftarrow> crypto_option_reassemble (de_lib env) (de_os env) CRYPTO_OPT_L2_PQC CRYPTO_PROTO_UDP
             slot (dp_crypto_current_worker_idx s) ctx (dp_opt s) pkt len pkt;
           let s = s\<lparr>dp_opt := opt\<rparr>;
           if rr = 0 then Some (0, n, True, pkt, s)
           else if rr \<noteq> 1 then Some (-1, n, False, pkt, s)
           else do {
             joined \<leftarrow> rdn out 0 blen;
             pkt \<leftarrow> wrn pkt 0 joined;
             Some (0, blen, False, pkt, s) } }))"

definition wan_try_l2_pqc_udp :: "'c dp_env \<Rightarrow> buf \<Rightarrow> nat \<Rightarrow> 'c dataplane \<Rightarrow> (int \<times> nat \<times> bool \<times> buf \<times> 'c dataplane) mem" where
  "wan_try_l2_pqc_udp env pkt len s = do {
     tagged \<leftarrow> wan_l2_is_udp_tagged pkt len;
     wire_pol \<leftarrow> (if tagged then crypto_eth_l2_read_policy_id pkt len else Some None);
     case wire_pol of
       None \<Rightarrow> Some (0, len, False, pkt, s)
     | Some w \<Rightarrow>
         if fwd_policy_by_wire_id (dp_fwd s) w = None then Some (0, len, False, pkt, s)
         else (case fwd_crypto_ctx_for_wire_id (de_now_ms env) (dp_crypto_current_worker_idx s) w (dp_rt s) (dp_tls s) of
             (None, rt, tls) \<Rightarrow> Some (0, len, False, pkt, s\<lparr>dp_rt := rt, dp_tls := tls\<rparr>)
           | (Some _, rt, tls) \<Rightarrow> do {
               (rc, n, pending, pkt, s) \<leftarrow> reassemble_l2 env pkt len w (s\<lparr>dp_rt := rt, dp_tls := tls\<rparr>);
               if rc \<noteq> 0 then Some (-1, n, False, pkt, s) else Some (1, n, pending, pkt, s) }) }"

definition wan_is_fragment :: "'c dp_env \<Rightarrow> buf \<Rightarrow> nat \<Rightarrow> 'c dataplane \<Rightarrow> bool mem" where
  "wan_is_fragment env pkt len s =
     crypto_option_is_fragment (de_lib env) (de_os env) TYPE('c l2_state) CRYPTO_OPT_L2_PQC CRYPTO_PROTO_UDP (fw_cfg (dp_fwd s)) pkt len"

text \<open>The second part of \<open>decrypt_wan\<close>, for what is not taken by \<open>wan_try_l2_pqc_udp\<close>. The scratch area has 8192 bytes;
  restoring more would read what was never saved.\<close>

definition decrypt_wan_slow :: "'c dp_env \<Rightarrow> bool \<Rightarrow> buf \<Rightarrow> nat \<Rightarrow> 'c dataplane \<Rightarrow> (int \<times> nat \<times> bool \<times> buf \<times> 'c dataplane) mem" where
  "decrypt_wan_slow env is_l2 pkt len s = do {
     tagged \<leftarrow> wan_l2_is_udp_tagged pkt len;
     need_backup \<leftarrow> (if tagged then Some True else wan_is_fragment env pkt len s);
     scratch \<leftarrow> (if need_backup then if len \<le> 8192 then rdn pkt 0 len else None else Some []);
     (rc, n, pkt, s) \<leftarrow> decrypt_l2 env pkt len s;
     ok \<leftarrow> (if rc \<noteq> 0 then Some False else wan_l2_plain_ok pkt n);
     if ok then Some (0, n, False, pkt, s)
     else do {
       pkt \<leftarrow> (if need_backup then wrn pkt 0 scratch else Some pkt);
       frag \<leftarrow> wan_is_fragment env pkt len s;
       if frag then do {
         wire_pol \<leftarrow> crypto_eth_l2_read_policy_id pkt len;
         case wire_pol of
           None \<Rightarrow> Some (-1, len, False, pkt, s)
         | Some w \<Rightarrow> do {
             (rc, n, pending, pkt, s) \<leftarrow> reassemble_l2 env pkt len w s;
             if rc \<noteq> 0 then Some (-1, n, False, pkt, s) else Some (0, n, pending, pkt, s) } }
       else if is_l2 then Some (-1, len, False, pkt, s)
       else Some (0, len, False, pkt, s) } }"

definition decrypt_wan :: "'c dp_env \<Rightarrow> ne_packet \<Rightarrow> 'c dataplane \<Rightarrow> (int \<times> ne_packet \<times> 'c dataplane) mem" where
  "decrypt_wan env job s = do {
     let pkt = ne_packet_data s (pk_addr job);
     let len = pk_len job;
     encrypted \<leftarrow> wan_wire_is_encrypted (dp_rt s) pkt len;
     if \<not> encrypted then Some (0, job, s)
     else do {
       known \<leftarrow> fwd_crypto_has_l2_marker (rt_index_by_wire_id (dp_rt s)) pkt len;
       is_l2 \<leftarrow> (if known then Some True else wan_l2_is_udp_tagged pkt len);
       (l2_fast, n, pending, pkt, s) \<leftarrow> wan_try_l2_pqc_udp env pkt len s;
       (rc, n, pending, pkt, s) \<leftarrow> (if l2_fast < 0 then Some (-1, n, False, pkt, s)
         else if l2_fast = 1 then Some (0, n, pending, pkt, s)
         else decrypt_wan_slow env is_l2 pkt len s);
       let s = put_frame (pk_addr job) pkt s;
       Some (if rc \<noteq> 0 then (-1, job, s) else if pending then (1, job, s) else (0, job\<lparr>pk_len := n\<rparr>, s)) } }"

section \<open>Profile and policy\<close>

definition eth_dmac_is_unicast :: "buf \<Rightarrow> bool mem" where
  "eth_dmac_is_unicast pkt = do { b \<leftarrow> rd8 pkt 0; Some (b AND 1 = 0) }"

definition profile_pi_for_wire_policy :: "'c dp_env \<Rightarrow> u8 \<Rightarrow> 'c dataplane \<Rightarrow> int \<times> 'c dataplane" where
  "profile_pi_for_wire_policy env wire_id s =
     (case fwd_crypto_profile_id_for_wire_id (de_now_ms env) wire_id (dp_rt s) of (profile_id, rt) \<Rightarrow>
      (case ac_profiles (fw_cfg (dp_fwd s)) of
         [] \<Rightarrow> -1
       | p # _ \<Rightarrow> if profile_id < 0 then -1 else if pf_id p = profile_id then 0 else -1,
       s\<lparr>dp_rt := rt\<rparr>))"

definition profile_owns_local :: "forwarder \<Rightarrow> int \<Rightarrow> int \<Rightarrow> bool" where
  "profile_owns_local fwd profile_pi fwd_local_idx \<longleftrightarrow>
     (let cfg = fw_cfg fwd in
      0 \<le> profile_pi \<and> profile_pi < int (length (ac_profiles cfg))
      \<and> 0 \<le> fwd_local_idx \<and> fwd_local_idx < fw_local_count fwd \<and> ne_pair_local_live (fw_pair fwd) fwd_local_idx
      \<and> (let prof = ac_profiles cfg ! nat profile_pi; ifname = fw_local_ifnames fwd ! nat fwd_local_idx in
         pf_enabled prof \<and> ifname \<noteq> []
         \<and> list_ex (\<lambda>ci. 0 \<le> ci \<and> ci < int (length (ac_locals cfg)) \<and> ac_locals cfg ! nat ci = ifname) (pf_local_indices prof)))"

definition wan_profile_pi_bypass :: "forwarder \<Rightarrow> buf \<Rightarrow> nat \<Rightarrow> int mem" where
  "wan_profile_pi_bypass fwd pkt len =
     (case ac_profiles (fw_cfg fwd) of
        [] \<Rightarrow> Some (-1)
      | p # _ \<Rightarrow>
        if \<not> pf_enabled p then Some (-1)
        else do {
          flow \<leftarrow> dp_parse_flow pkt len;
          Some (case flow of
              None \<Rightarrow> -1
            | Some f \<Rightarrow> (case config_select_crypto_policy (fw_cfg fwd) 0 (f5_dst_ip f) (f5_src_ip f) (f5_dst_port f) (f5_src_port f) (f5_proto f) of
                  None \<Rightarrow> -1
                | Some cp \<Rightarrow> if cp_action cp \<noteq> POLICY_ACTION_BYPASS then -1 else 0)) })"

definition wan_policy_in_ok :: "forwarder \<Rightarrow> pol_in_tables \<Rightarrow> int \<Rightarrow> buf \<Rightarrow> nat \<Rightarrow> bool mem" where
  "wan_policy_in_ok fwd tables profile_pi pkt len =
     (if profile_pi < 0 then Some False
      else do {
        flow \<leftarrow> dp_parse_flow pkt len;
        Some (case flow of
            None \<Rightarrow> False
          | Some f \<Rightarrow> config_policy_in_ok (fw_cfg fwd) tables profile_pi (f5_src_ip f) (f5_dst_ip f) (f5_src_port f) (f5_dst_port f) (f5_proto f)) })"

definition wan_clamp_tcp_mss :: "forwarder \<Rightarrow> buf \<Rightarrow> nat \<Rightarrow> buf mem" where
  "wan_clamp_tcp_mss fwd pkt len =
     (case ac_profiles (fw_cfg fwd) of
        [] \<Rightarrow> Some pkt
      | p # _ \<Rightarrow>
        if \<not> pf_enabled p then Some pkt
        else do {
          flow \<leftarrow> dp_parse_flow pkt len;
          case flow of
            None \<Rightarrow> Some pkt
          | Some f \<Rightarrow>
              if f5_proto f \<noteq> IPPROTO_TCP then Some pkt
              else (case config_select_crypto_policy (fw_cfg fwd) 0 (f5_src_ip f) (f5_dst_ip f) (f5_src_port f) (f5_dst_port f) (f5_proto f) of
                  None \<Rightarrow> Some pkt
                | Some cp \<Rightarrow>
                    if cp_action cp = POLICY_ACTION_BYPASS then Some pkt
                    else do {
                      (rc, pkt) \<leftarrow> crypto_tcp_clamp_mss pkt len CRYPTO_OPT_FRAG_MTU_DEFAULT (crypto_option_wire_overhead CRYPTO_OPT_L2_PQC);
                      Some pkt }) })"

definition wan_profile_pi :: "'c dp_env \<Rightarrow> buf \<Rightarrow> nat \<Rightarrow> 'c dataplane \<Rightarrow> (int \<times> 'c dataplane) mem" where
  "wan_profile_pi env pkt len s = do {
     a \<leftarrow> fwd_crypto_has_l2_marker (rt_index_by_wire_id (dp_rt s)) pkt len;
     marked \<leftarrow> (if a then Some True else crypto_eth_l2_has_marker pkt len);
     if marked then do {
       w \<leftarrow> crypto_eth_l2_read_policy_id pkt len;
       Some (case w of None \<Rightarrow> (-1, s) | Some wire_pol \<Rightarrow> profile_pi_for_wire_policy env wire_pol s) }
     else do { pi \<leftarrow> wan_profile_pi_bypass (dp_fwd s) pkt len; Some (pi, s) } }"

section \<open>Delivery\<close>

text \<open>The result is \<open>0\<close> when the packet is in the ring of a port, \<open>1\<close> when the ring did not take it and its frame is
  already back in the pool, \<open>-1\<close> when the frame is still with the caller.\<close>

definition forward_wan_to_local :: "ne_packet \<Rightarrow> int \<Rightarrow> int \<Rightarrow> 'c dataplane \<Rightarrow> (int \<times> 'c dataplane) mem" where
  "forward_wan_to_local job profile_pi ingress_wan_dp s =
     (if profile_pi < 0 \<or> pk_len job < 14 then Some (-1, s)
      else do {
        let pkt = ne_packet_data s (pk_addr job);
        let fwd = dp_fwd s;
        unicast \<leftarrow> eth_dmac_is_unicast pkt;
        if \<not> unicast then Some (-1, s)
        else do {
          dmac \<leftarrow> rdn pkt 0 MAC_LEN;
          li \<leftarrow> mac_lookup fwd dmac;
          let li = (if (li < 0 \<or> \<not> profile_owns_local fwd profile_pi li) \<and> ingress_wan_dp \<ge> 0
                    then mac_fwd_local_for_wan_dp fwd profile_pi ingress_wan_dp else li);
          Some (if li \<ge> 0 \<and> profile_owns_local fwd profile_pi li
                then case push_local (nat li) (job\<lparr>pk_dir := NE_DIR_LOCAL, pk_local_idx := of_int li\<rparr>) s of
                    (ok, s) \<Rightarrow> (if ok then 0 else 1, s)
                else (-1, s)) } })"

definition bind_flow_slot :: "ne_packet \<Rightarrow> 'c dataplane \<Rightarrow> 'c dataplane mem" where
  "bind_flow_slot job s = do {
     (slot, rs) \<leftarrow> dp_flow_pick_tx_slot (ne_packet_data s (pk_addr job)) (pk_len job) (dp_crypto_current_worker_idx s) (dp_route s);
     Some (s\<lparr>dp_route := dp_out_ring_bind slot rs\<rparr>) }"

definition bind_packet_slot :: "ne_packet \<Rightarrow> 'c dataplane \<Rightarrow> 'c dataplane mem" where
  "bind_packet_slot job s = do {
     slot \<leftarrow> dp_pick_tx_slot (ne_packet_data s (pk_addr job)) (pk_len job) (dp_route s);
     Some (s\<lparr>dp_route := dp_out_ring_bind slot (dp_route s)\<rparr>) }"

section \<open>The reorder buffer\<close>

text \<open>What the reorder buffer calls for a packet that leaves it. The buffer releases packets in the same order whether or
  not they can be delivered, so it runs first, and its log of calls is replayed on the forwarder.\<close>

definition udp_reorder_drop :: "dp_udp_reorder_item \<Rightarrow> 'c dataplane \<Rightarrow> 'c dataplane" where
  "udp_reorder_drop item s = free_frame (pk_addr (ui_packet item)) s"

definition udp_reorder_emit :: "dp_udp_reorder_item \<Rightarrow> 'c dataplane \<Rightarrow> (bool \<times> 'c dataplane) mem" where
  "udp_reorder_emit item s = do {
     s \<leftarrow> bind_flow_slot (ui_packet item) s;
     (rc, s) \<leftarrow> forward_wan_to_local (ui_packet item) (ui_profile_pi item) (ui_ingress_wan_dp item) s;
     Some (\<not> rc < 0, s) }"

fun replay_out :: "reorder_out \<Rightarrow> 'c dataplane \<Rightarrow> 'c dataplane mem" where
  "replay_out (Emitted seq item) s = do {
     (ok, s) \<leftarrow> udp_reorder_emit item s;
     Some (if ok then s else udp_reorder_drop item s) }"
| "replay_out (Dropped seq item) s = Some (udp_reorder_drop item s)"

primrec replay_outs :: "reorder_out list \<Rightarrow> 'c dataplane \<Rightarrow> 'c dataplane mem" where
  "replay_outs [] s = Some s"
| "replay_outs (x # xs) s = do { s \<leftarrow> replay_out x s; replay_outs xs s }"

definition take_out :: "reorder \<Rightarrow> 'c dataplane \<Rightarrow> 'c dataplane mem" where
  "take_out ro s = replay_outs (ro_out ro) (s\<lparr>dp_reorder := ro\<lparr>ro_out := []\<rparr>\<rparr>)"

definition valid_reorder_worker :: "'c dataplane \<Rightarrow> bool" where
  "valid_reorder_worker s \<longleftrightarrow> 0 \<le> dp_crypto_current_worker_idx s \<and> dp_crypto_current_worker_idx s < int NE_CRYPTO_WORKERS"

definition reorder_submit :: "'c dp_env \<Rightarrow> dp_udp_reorder_key \<Rightarrow> u32 \<Rightarrow> u32 \<Rightarrow> dp_udp_reorder_item \<Rightarrow> 'c dataplane \<Rightarrow> 'c dataplane mem" where
  "reorder_submit env key epoch seq item s = do {
     ro \<leftarrow> dp_udp_reorder_submit (\<lambda>_. True) (de_reorder_enabled env \<and> valid_reorder_worker s) (de_reorder_hold_ns env)
       key epoch seq item (de_now_ns env) ((dp_reorder s)\<lparr>ro_out := []\<rparr>);
     take_out ro s }"

definition dataplane_udp_reorder_gc :: "'c dp_env \<Rightarrow> 'c dataplane \<Rightarrow> 'c dataplane mem" where
  "dataplane_udp_reorder_gc env s =
     (if \<not> valid_reorder_worker s then Some s
      else take_out (dp_udp_reorder_gc (\<lambda>_. True) (de_reorder_hold_ns env) (de_now_ns env) ((dp_reorder s)\<lparr>ro_out := []\<rparr>)) s)"

definition dataplane_udp_reorder_reset :: "'c dataplane \<Rightarrow> 'c dataplane mem" where
  "dataplane_udp_reorder_reset s =
     (if \<not> valid_reorder_worker s then Some s
      else take_out (dp_udp_reorder_reset_worker ((dp_reorder s)\<lparr>ro_out := []\<rparr>)) s)"

section \<open>The handler\<close>

definition wan_pkt_is_arp :: "buf \<Rightarrow> nat \<Rightarrow> bool mem" where
  "wan_pkt_is_arp pkt len = do {
     marked \<leftarrow> crypto_eth_l2_has_arp_marker pkt len;
     if marked then Some True else dp_pkt_is_arp pkt len }"

definition dataplane_wan_needs_mid :: "'c dataplane \<Rightarrow> buf \<Rightarrow> nat \<Rightarrow> bool mem" where
  "dataplane_wan_needs_mid s pkt len = do {
     arp \<leftarrow> wan_pkt_is_arp pkt len;
     if arp then Some True
     else if \<not> ac_crypto_enabled (fw_cfg (dp_fwd s)) then Some False
     else wan_wire_is_encrypted (dp_rt s) pkt len }"

definition drop_wan :: "ne_packet \<Rightarrow> 'c dataplane \<Rightarrow> 'c dataplane" where
  "drop_wan job s = free_frame (pk_addr job) s"

definition ingress_dp :: "ne_packet \<Rightarrow> 'c dataplane \<Rightarrow> int" where
  "ingress_dp job s = (if uint (pk_wan_idx job) < fw_wan_count (dp_fwd s) then uint (pk_wan_idx job) else -1)"

text \<open>The last part of \<open>dataplane_process_wan\<close>: a packet that has passed the gates.\<close>

definition deliver_wan :: "ne_packet \<Rightarrow> int \<Rightarrow> 'c dataplane \<Rightarrow> 'c dataplane mem" where
  "deliver_wan job profile_pi s = do {
     (rc, s) \<leftarrow> forward_wan_to_local job profile_pi (ingress_dp job s) s;
     Some (if rc < 0 then drop_wan job s else s) }"

definition deliver_decrypted :: "'c dp_env \<Rightarrow> ne_packet \<Rightarrow> int \<Rightarrow> 'c dataplane \<Rightarrow> 'c dataplane mem" where
  "deliver_decrypted env job profile_pi s =
     (case crypto_option_udp_take_rx_meta (dp_opt s) of
        (None, opt) \<Rightarrow> do {
          s \<leftarrow> bind_flow_slot job (s\<lparr>dp_opt := opt\<rparr>);
          deliver_wan job profile_pi s }
      | (Some (epoch, seq), opt) \<Rightarrow> do {
          let s = s\<lparr>dp_opt := opt\<rparr>;
          flow \<leftarrow> dp_parse_flow (ne_packet_data s (pk_addr job)) (pk_len job);
          case flow of
            None \<Rightarrow> Some (drop_wan job s)
          | Some f \<Rightarrow>
              if f5_proto f \<noteq> IPPROTO_UDP then Some (drop_wan job s)
              else reorder_submit env \<lparr>uk_src_ip = f5_src_ip f, uk_dst_ip = f5_dst_ip f, uk_src_port = f5_src_port f,
                       uk_dst_port = f5_dst_port f\<rparr> epoch seq
                     \<lparr>ui_packet = job, ui_profile_pi = profile_pi, ui_ingress_wan_dp = ingress_dp job s\<rparr> s })"

definition process_wan_encrypted :: "'c dp_env \<Rightarrow> ne_packet \<Rightarrow> buf \<Rightarrow> 'c dataplane \<Rightarrow> 'c dataplane mem" where
  "process_wan_encrypted env job wire s =
     (let s = s\<lparr>dp_opt := crypto_option_udp_clear_rx_meta (dp_opt s)\<rparr> in
      if \<not> ac_crypto_enabled (fw_cfg (dp_fwd s)) then Some (drop_wan job s)
      else do {
        (dec, job, s) \<leftarrow> decrypt_wan env job s;
        if dec \<noteq> 0 then Some (drop_wan job s)
        else do {
          (profile_pi, s) \<leftarrow> wan_profile_pi env wire (length wire) s;
          if profile_pi < 0 then Some (drop_wan job s)
          else do {
            let pkt = ne_packet_data s (pk_addr job);
            ok \<leftarrow> (if pf_policy_in_any (ac_profiles (fw_cfg (dp_fwd s)) ! nat profile_pi) then Some True
                   else wan_policy_in_ok (dp_fwd s) (dp_pol_in s) profile_pi pkt (pk_len job));
            if \<not> ok then Some (drop_wan job s)
            else do {
              pkt \<leftarrow> wan_clamp_tcp_mss (dp_fwd s) pkt (pk_len job);
              deliver_decrypted env job profile_pi (put_frame (pk_addr job) pkt s) } } } })"

definition dataplane_process_wan :: "'c dp_env \<Rightarrow> ne_packet \<Rightarrow> 'c dataplane \<Rightarrow> 'c dataplane mem" where
  "dataplane_process_wan env job s =
     (let len = pk_len job; pkt = ne_packet_data s (pk_addr job) in
      if len < 14 \<or> len > NE_FRAME then Some (drop_wan job s)
      else do {
        frag \<leftarrow> wan_l2_is_frag pkt len;
        wire \<leftarrow> rdn pkt 0 (if frag then min len 64 else len);
        arp \<leftarrow> wan_pkt_is_arp pkt len;
        if arp then do {
          s \<leftarrow> bind_packet_slot job s;
          (bridged, s) \<leftarrow> (if ingress_dp job s \<ge> 0 then arp_bridge_from_wan env job (ingress_dp job s) s else Some (-1, s));
          Some (if bridged = 0 then s else drop_wan job s) }
        else do {
          encrypted \<leftarrow> wan_wire_is_encrypted (dp_rt s) pkt len;
          if encrypted then process_wan_encrypted env job wire s
          else do {
            ip \<leftarrow> wan_l2_plain_ipv4 pkt len;
            if \<not> ip then Some (drop_wan job s)
            else do {
              (profile_pi, s) \<leftarrow> wan_profile_pi env wire (length wire) s;
              if profile_pi < 0 then Some (drop_wan job s)
              else do {
                s \<leftarrow> bind_packet_slot job s;
                deliver_wan job profile_pi s } } } } })"

end
