(* ===== verification/Ingress_Safety.thy ===== *)
theory Ingress_Safety
  imports Wan_Ingress L2_Safety
begin

text \<open>
  The handler of WAN packets returns for every content of the packet, stays inside its buffers, and passes the frame of
  the packet on exactly once. The conditions on the state are those that its parts keep.
\<close>

section \<open>Parsers\<close>

lemma mem_ok_if: "\<lbrakk>b \<Longrightarrow> mem_ok P x; \<not> b \<Longrightarrow> mem_ok P y\<rbrakk> \<Longrightarrow> mem_ok P (if b then x else y)"
  by simp

lemma mem_ok_total: "\<exists>x. m = Some x \<Longrightarrow> mem_ok (\<lambda>_. True) m"
  by (auto simp: mem_ok_def)

lemma read_policy_total:
  assumes "n \<le> length b"
  shows "mem_ok (\<lambda>_. True) (crypto_eth_l2_read_policy_id b n)"
proof -
  obtain r where r: "crypto_eth_l2_policy_off b n = Some r" "\<And>o1. r = Some o1 \<Longrightarrow> (o1 = 14 \<or> o1 = 18) \<and> o1 < n"
    using policy_off_spec [OF assms] by metis
  then have "o1 < length b" if "r = Some o1" for o1 using that assms by fastforce
  then show ?thesis by (cases r) (simp_all add: crypto_eth_l2_read_policy_id_def r(1) rd8_def)
qed

lemma udp_tagged_total:
  assumes "n \<le> length b"
  shows "mem_ok (\<lambda>_. True) (wan_l2_is_udp_tagged b n)"
proof -
  obtain m where m: "crypto_eth_l2_has_marker b n = Some m" using marker_safe(1) [OF assms] ..
  obtain r where r: "crypto_eth_l2_policy_off b n = Some r" using policy_off_spec [OF assms] by metis
  have "\<exists>x. crypto_eth_l2_frag_magic_off b n 12 = Some x"
    by (cases r) (simp_all add: crypto_eth_l2_frag_magic_off_def crypto_eth_l2_core_id_off_def r)
  then obtain x where x: "crypto_eth_l2_frag_magic_off b n 12 = Some x" ..
  show ?thesis
    using assms by (cases x) (simp_all add: wan_l2_is_udp_tagged_def m PACKET_CRYPTO_NONCE_BYTES_def x rdn_def WAN_L2_UDP_MARKER_LEN_def)
qed

lemma known_marker_total:
  assumes "n \<le> length b"
  shows "mem_ok (\<lambda>_. True) (fwd_crypto_has_l2_marker t b n)"
proof -
  obtain m where m: "crypto_eth_l2_has_marker b n = Some m" using marker_safe(1) [OF assms] ..
  show ?thesis
    unfolding fwd_crypto_has_l2_marker_def m Option.bind.simps
    by (rule mem_ok_if, simp, rule mem_ok_bind [OF read_policy_total [OF assms]]) (simp split: option.split)
qed

lemma wire_encrypted_total:
  assumes "n \<le> length b"
  shows "mem_ok (\<lambda>_. True) (wan_wire_is_encrypted rt b n)"
  unfolding wan_wire_is_encrypted_def
  using udp_tagged_total [OF assms] marker_safe(1) [OF assms]
  by (intro mem_ok_bind [OF known_marker_total [OF assms]] mem_ok_bind [where Q = "\<lambda>_. True"]) (auto intro: mem_ok_total)

lemma plain_ok_total:
  assumes "n \<le> length b"
  shows "mem_ok (\<lambda>_. True) (wan_l2_plain_ok b n)" "mem_ok (\<lambda>_. True) (wan_l2_plain_ipv4 b n)" "mem_ok (\<lambda>_. True) (wan_pkt_is_arp b n)"
proof -
  obtain ip where "crypto_pkt_is_ipv4 b n = Some ip" using marker_safe(3) [OF assms] ..
  moreover obtain r where "crypto_eth_arp_offset b n = Some r" using arp_offset_spec [OF assms] by blast
  moreover obtain m where "crypto_eth_l2_has_arp_marker b n = Some m" using marker_safe(2) [OF assms] ..
  moreover obtain a where "dp_pkt_is_arp b n = Some a" using packet_parsers_total [OF assms] by blast
  ultimately show "mem_ok (\<lambda>_. True) (wan_l2_plain_ok b n)" "mem_ok (\<lambda>_. True) (wan_l2_plain_ipv4 b n)" "mem_ok (\<lambda>_. True) (wan_pkt_is_arp b n)"
    by (simp_all add: wan_l2_plain_ok_def wan_l2_plain_ipv4_def wan_pkt_is_arp_def crypto_pkt_is_arp_def)
qed

lemma is_fragment_total:
  assumes "n \<le> length b"
  shows "mem_ok (\<lambda>_. True) (wan_is_fragment env b n s)"
proof -
  obtain m where m: "crypto_eth_l2_has_marker b n = Some m" using marker_safe(1) [OF assms] ..
  obtain r where r: "l2_enc_start_off b n = Some r"
    using assms by (cases rule: inner_et_off_total) (auto simp: l2_offsets_None l2_offsets_total)
  have "mem_ok (\<lambda>_. True) (l2_udp_is_fragment cfg b n)" for cfg
    unfolding l2_udp_is_fragment_def m Option.bind.simps l2_frag_magic_off_def r
    using assms read_policy_total [OF assms]
    by (cases r) (auto simp: l2_udp_marker_match_def rdn_def L2_UDP_MARKER_SIZE_def mem_ok_def split: option.split)
  then show ?thesis
    by (simp add: wan_is_fragment_def crypto_option_is_fragment_def crypto_option_ops_def crypto_opt_l2_pqc_udp_ops_def)
qed

section \<open>Decryption\<close>

text \<open>What the decryption changes: the state of the options, the caches of the keys, the frame of the packet.\<close>

definition crypto_only :: "'c dataplane \<Rightarrow> 'c dataplane \<Rightarrow> bool" where
  "crypto_only s s' \<longleftrightarrow> dp_fwd s' = dp_fwd s \<and> dp_route s' = dp_route s \<and> dp_reorder s' = dp_reorder s \<and> dp_sched s' = dp_sched s
     \<and> dp_flow s' = dp_flow s \<and> dp_relay s' = dp_relay s \<and> dp_arp s' = dp_arp s \<and> dp_macfile s' = dp_macfile s \<and> dp_pol_in s' = dp_pol_in s"

lemma crypto_only_simps [simp]: "crypto_only s s" "crypto_only s (s'\<lparr>dp_opt := opt\<rparr>) = crypto_only s s'"
  "crypto_only s (s'\<lparr>dp_rt := rt\<rparr>) = crypto_only s s'" "crypto_only s (s'\<lparr>dp_tls := tls\<rparr>) = crypto_only s s'"
  "crypto_only (s\<lparr>dp_opt := opt\<rparr>) s' = crypto_only s s'" "crypto_only (s\<lparr>dp_rt := rt\<rparr>) s' = crypto_only s s'"
  "crypto_only (s\<lparr>dp_tls := tls\<rparr>) s' = crypto_only s s'"
  by (auto simp: crypto_only_def)

lemma crypto_only_trans: "crypto_only s s' \<Longrightarrow> crypto_only s' s'' \<Longrightarrow> crypto_only s s''"
  by (simp add: crypto_only_def)

definition opened :: "buf \<Rightarrow> 'c dataplane \<Rightarrow> int \<times> nat \<times> buf \<times> 'c dataplane \<Rightarrow> bool" where
  "opened b s = (\<lambda>(rc, n, b', s'). length b' = length b \<and> n \<le> NE_FRAME \<and> crypto_only s s' \<and> tables_wf (dp_opt s'))"

definition opened_p :: "buf \<Rightarrow> 'c dataplane \<Rightarrow> int \<times> nat \<times> bool \<times> buf \<times> 'c dataplane \<Rightarrow> bool" where
  "opened_p b s = (\<lambda>(rc, n, pending, b', s'). length b' = length b \<and> n \<le> NE_FRAME \<and> crypto_only s s' \<and> tables_wf (dp_opt s'))"

lemma option_decrypt_safe:
  assumes "lib_bounded lib" "n \<le> length b" "tables_wf st"
  shows "mem_ok (\<lambda>(rc, k, b', st'). length b' = length b \<and> k \<le> n \<and> tables_wf st')
    (crypto_option_decrypt lib env CRYPTO_OPT_L2_PQC CRYPTO_PROTO_TCP ctx st b n)"
  unfolding router_decrypt
  by (rule mem_ok_mono [where Q = "decrypted_ok b n st"])
    (use tcp_decrypt_safe [OF assms(1,2)] assms(3) in \<open>auto simp: decrypted_ok_def tables_wf_def\<close>)

lemma decrypt_l2_safe:
  assumes lib: "lib_bounded (de_lib env)" and n: "n \<le> length b" "n \<le> NE_FRAME" and st: "tables_wf (dp_opt s)"
  shows "mem_ok (opened b s) (decrypt_l2 env b n s)"
proof -
  obtain m where m: "crypto_eth_l2_has_marker b n = Some m" using marker_safe(1) [OF n(1)] ..
  obtain w where w: "(if m then crypto_eth_l2_read_policy_id b n else Some None) = Some w"
    using read_policy_total [OF n(1)] by (cases m) (auto simp: mem_ok_def)
  have base: "opened b s (rc, n, b, s\<lparr>dp_rt := rt, dp_tls := tls\<rparr>)" "opened b s (rc, n, b, s)" for rc rt tls
    using n st by (simp_all add: opened_def)
  show ?thesis
  proof (cases w)
    case None
    then show ?thesis using base(2) by (simp add: decrypt_l2_def m w)
  next
    case (Some wid)
    obtain c rt tls where l: "fwd_crypto_ctx_for_wire_id (de_now_ms env) (dp_crypto_current_worker_idx s) wid (dp_rt s) (dp_tls s) = (c, rt, tls)"
      by (metis prod_cases3)
    have d: "mem_ok (opened b s) (do {
        scratch \<leftarrow> rdn b 0 n;
        (rc, k, pkt, opt) \<leftarrow> crypto_option_decrypt (de_lib env) (de_os env) CRYPTO_OPT_L2_PQC CRYPTO_PROTO_TCP ctx (dp_opt s) b n;
        ip \<leftarrow> (if rc = 0 then crypto_pkt_is_ipv4 pkt k else Some False);
        if ip then Some (0, k, pkt, s\<lparr>dp_rt := rt, dp_tls := tls, dp_opt := opt\<rparr>)
        else do { pkt \<leftarrow> wrn pkt 0 scratch; Some (-1, n, pkt, s\<lparr>dp_rt := rt, dp_tls := tls, dp_opt := opt\<rparr>) } })" for ctx
    proof -
      have r: "rdn b 0 n = Some (slice b 0 n)" using n by (simp add: rdn_def)
      show ?thesis unfolding r Option.bind.simps
      proof (rule mem_ok_bind [OF option_decrypt_safe [OF lib n(1) st]], clarify, goal_cases)
        case (1 rc k pkt opt)
        obtain ip where ip: "(if rc = 0 then crypto_pkt_is_ipv4 pkt k else Some False) = Some ip"
          using marker_safe(3) [of k pkt] 1 n by (cases "rc = 0") auto
        then show ?case using 1 n ip by (simp add: opened_def wrn_def)
      qed
    qed
    show ?thesis
      using d base n
      by (cases c) (simp_all add: decrypt_l2_def m w Some l Let_def)
  qed
qed

lemma option_reassemble_safe:
  assumes "lib_bounded lib" "length b = NE_FRAME" "n \<le> NE_FRAME" "tables_wf st"
  shows "mem_ok (reasm_ok b b) (crypto_option_reassemble lib env CRYPTO_OPT_L2_PQC CRYPTO_PROTO_UDP p w ctx st b n b)"
  using udp_reasm_safe [OF assms(1) _ assms(3) assms(2,4)] assms by (simp add: router_reassemble)

lemma reassemble_l2_safe:
  assumes lib: "lib_bounded (de_lib env)" and b: "length b = NE_FRAME" "n \<le> NE_FRAME" and st: "tables_wf (dp_opt s)"
  shows "mem_ok (opened_p b s) (reassemble_l2 env b n w s)"
proof -
  obtain c rt tls where l: "fwd_crypto_ctx_for_wire_id (de_now_ms env) (dp_crypto_current_worker_idx s) w (dp_rt s) (dp_tls s) = (c, rt, tls)"
    by (metis prod_cases3)
  obtain pid rt2 where q: "fwd_crypto_profile_id_for_wire_id (de_now_ms env) w rt = (pid, rt2)" by fastforce
  let ?s = "s\<lparr>dp_rt := rt2, dp_tls := tls\<rparr>"
  have d: "mem_ok (opened_p b s) (do {
      (rr, n, blen, pkt, out, opt) \<leftarrow> crypto_option_reassemble (de_lib env) (de_os env) CRYPTO_OPT_L2_PQC CRYPTO_PROTO_UDP
         slot wi ctx (dp_opt s) b n b;
      if rr = 0 then Some (0, n, True, pkt, ?s\<lparr>dp_opt := opt\<rparr>)
      else if rr \<noteq> 1 then Some (-1, n, False, pkt, ?s\<lparr>dp_opt := opt\<rparr>)
      else do { joined \<leftarrow> rdn out 0 blen; pkt \<leftarrow> wrn pkt 0 joined; Some (0, blen, False, pkt, ?s\<lparr>dp_opt := opt\<rparr>) } })" for slot wi ctx
    by (rule mem_ok_bind [OF option_reassemble_safe [OF lib b st]]) (use b in \<open>auto simp: reasm_ok_def opened_p_def rdn_def wrn_def\<close>)
  show ?thesis
    using d b st by (cases c) (simp_all add: reassemble_l2_def l q Let_def opened_p_def)
qed

lemma try_udp_safe:
  assumes lib: "lib_bounded (de_lib env)" and b: "length b = NE_FRAME" "n \<le> NE_FRAME" and st: "tables_wf (dp_opt s)"
  shows "mem_ok (opened_p b s) (wan_try_l2_pqc_udp env b n s)"
proof -
  obtain t where t: "wan_l2_is_udp_tagged b n = Some t" using udp_tagged_total [of n b] b by (auto simp: mem_ok_def)
  obtain w where w: "(if t then crypto_eth_l2_read_policy_id b n else Some None) = Some w"
    using read_policy_total [of n b] b by (cases t) (auto simp: mem_ok_def)
  have keep: "opened_p b s (0, n, False, b, s)" using b st by (simp add: opened_p_def)
  show ?thesis
  proof (cases w)
    case (Some wid)
    obtain c rt tls where l: "fwd_crypto_ctx_for_wire_id (de_now_ms env) (dp_crypto_current_worker_idx s) wid (dp_rt s) (dp_tls s) = (c, rt, tls)"
      by (metis prod_cases3)
    have "mem_ok (opened_p b s) (do { (rc, n, pending, pkt, s) \<leftarrow> reassemble_l2 env b n wid (s\<lparr>dp_rt := rt, dp_tls := tls\<rparr>);
        if rc \<noteq> 0 then Some (-1, n, False, pkt, s) else Some (1, n, pending, pkt, s) })"
      by (rule mem_ok_bind [OF reassemble_l2_safe [OF lib b]]) (use st in \<open>auto simp: opened_p_def\<close>)
    then show ?thesis
      using keep by (cases c) (simp_all add: wan_try_l2_pqc_udp_def t w Some l opened_p_def)
  qed (simp add: wan_try_l2_pqc_udp_def t w keep)
qed

lemma decrypt_slow_safe:
  assumes lib: "lib_bounded (de_lib env)" and b: "length b = NE_FRAME" "n \<le> NE_FRAME" and st: "tables_wf (dp_opt s)"
  shows "mem_ok (opened_p b s) (decrypt_wan_slow env is_l2 b n s)"
proof -
  have n: "n \<le> length b" "n \<le> 8192" using b by (simp_all add: NE_FRAME_def)
  obtain t where t: "wan_l2_is_udp_tagged b n = Some t" using udp_tagged_total [OF n(1)] by (auto simp: mem_ok_def)
  obtain nb where nb: "(if t then Some True else wan_is_fragment env b n s) = Some nb"
    using is_fragment_total [OF n(1)] by (cases t) (auto simp: mem_ok_def)
  define scratch where "scratch = (if nb then slice b 0 n else [])"
  have sc: "(if nb then if n \<le> 8192 then rdn b 0 n else None else Some []) = Some scratch"
    using n by (simp add: scratch_def rdn_def)
  have rest: "mem_ok (opened_p b s) (do {
      pkt \<leftarrow> (if nb then wrn pkt 0 scratch else Some pkt);
      frag \<leftarrow> wan_is_fragment env pkt n s1;
      if frag then do {
        wire_pol \<leftarrow> crypto_eth_l2_read_policy_id pkt n;
        case wire_pol of
          None \<Rightarrow> Some (-1, n, False, pkt, s1)
        | Some w \<Rightarrow> do {
            (rc, n, pending, pkt, s) \<leftarrow> reassemble_l2 env pkt n w s1;
            if rc \<noteq> 0 then Some (-1, n, False, pkt, s) else Some (0, n, pending, pkt, s) } }
      else if is_l2 then Some (-1, n, False, pkt, s1)
      else Some (0, n, False, pkt, s1) })" if o: "opened b s (rc, k, pkt, s1)" for rc k pkt s1
  proof -
    obtain p1 where p1: "(if nb then wrn pkt 0 scratch else Some pkt) = Some p1" "length p1 = NE_FRAME"
      using o b by (cases nb) (auto simp: opened_def wrn_def scratch_def)
    have l: "n \<le> length p1" using p1 b by simp
    obtain fr where fr: "wan_is_fragment env p1 n s1 = Some fr" using is_fragment_total [OF l] by (auto simp: mem_ok_def)
    obtain w where w: "crypto_eth_l2_read_policy_id p1 n = Some w" using read_policy_total [OF l] by (auto simp: mem_ok_def)
    have keep: "opened_p b s (rc, n, False, p1, s1)" for rc using o p1 b by (simp add: opened_p_def opened_def)
    have r: "mem_ok (opened_p b s) (do { (rc, n, pending, pkt, s) \<leftarrow> reassemble_l2 env p1 n wid s1;
        if rc \<noteq> 0 then Some (-1, n, False, pkt, s) else Some (0, n, pending, pkt, s) })" for wid
      by (rule mem_ok_bind [OF reassemble_l2_safe [OF lib p1(2) b(2)]])
        (use o p1 b in \<open>auto simp: opened_p_def opened_def intro: crypto_only_trans\<close>)
    show ?thesis using keep r by (cases w) (simp_all add: p1(1) fr w)
  qed
  have body: "mem_ok (opened_p b s) (do {
      ok \<leftarrow> (if rc \<noteq> 0 then Some False else wan_l2_plain_ok pkt k);
      if ok then Some (0, k, False, pkt, s1)
      else do {
      pkt \<leftarrow> (if nb then wrn pkt 0 scratch else Some pkt);
      frag \<leftarrow> wan_is_fragment env pkt n s1;
      if frag then do {
        wire_pol \<leftarrow> crypto_eth_l2_read_policy_id pkt n;
        case wire_pol of
          None \<Rightarrow> Some (-1, n, False, pkt, s1)
        | Some w \<Rightarrow> do {
            (rc, n, pending, pkt, s) \<leftarrow> reassemble_l2 env pkt n w s1;
            if rc \<noteq> 0 then Some (-1, n, False, pkt, s) else Some (0, n, pending, pkt, s) } }
      else if is_l2 then Some (-1, n, False, pkt, s1)
      else Some (0, n, False, pkt, s1) } })" if o: "opened b s (rc, k, pkt, s1)" for rc k pkt s1
  proof -
    obtain ok where ok: "(if rc \<noteq> 0 then Some False else wan_l2_plain_ok pkt k) = Some ok"
      using o b plain_ok_total(1) [of k pkt] by (cases "rc = 0") (auto simp: mem_ok_def opened_def)
    show ?thesis unfolding ok Option.bind.simps
      by (rule mem_ok_if) (use o rest [OF o] in \<open>simp_all add: opened_def opened_p_def\<close>)
  qed
  show ?thesis
    unfolding decrypt_wan_slow_def t nb sc Option.bind.simps
    by (rule mem_ok_bind [OF decrypt_l2_safe [OF lib n(1) b(2) st]]) (clarify, rule body)
qed

lemma put_frame_simps [simp]: "dp_opt (put_frame a b s) = dp_opt s" "dp_rt (put_frame a b s) = dp_rt s" "dp_route (put_frame a b s) = dp_route s"
  "dp_reorder (put_frame a b s) = dp_reorder s" "ne_packet_data (put_frame a b s) = (ne_packet_data s)(a := b)"
  by (auto simp: put_frame_def ne_packet_data_def)

text \<open>Of the forwarder, decryption writes the frame of the packet and nothing else.\<close>

definition decrypted :: "ne_packet \<Rightarrow> 'c dataplane \<Rightarrow> int \<times> ne_packet \<times> 'c dataplane \<Rightarrow> bool" where
  "decrypted job s = (\<lambda>(rc, job', s'). pk_addr job' = pk_addr job \<and> pk_len job' \<le> NE_FRAME \<and> tables_wf (dp_opt s')
     \<and> (\<exists>s1 b. crypto_only s s1 \<and> length b = NE_FRAME \<and> (s' = s1 \<or> s' = put_frame (pk_addr job) b s1)))"

lemma decrypt_wan_safe:
  assumes lib: "lib_bounded (de_lib env)" and b: "length (ne_packet_data s (pk_addr job)) = NE_FRAME" "pk_len job \<le> NE_FRAME"
    and st: "tables_wf (dp_opt s)"
  shows "mem_ok (decrypted job s) (decrypt_wan env job s)"
proof -
  let ?b = "ne_packet_data s (pk_addr job)" and ?n = "pk_len job"
  have n: "?n \<le> length ?b" using b by simp
  obtain e where e: "wan_wire_is_encrypted (dp_rt s) ?b ?n = Some e" using wire_encrypted_total [OF n] by (auto simp: mem_ok_def)
  obtain k where k: "fwd_crypto_has_l2_marker (rt_index_by_wire_id (dp_rt s)) ?b ?n = Some k"
    using known_marker_total [OF n] by (auto simp: mem_ok_def)
  obtain l2 where l2: "(if k then Some True else wan_l2_is_udp_tagged ?b ?n) = Some l2"
    using udp_tagged_total [OF n] by (cases k) (auto simp: mem_ok_def)
  have same: "decrypted job s (0, job, s)"
    unfolding decrypted_def prod.case using b st by (intro conjI exI [of _ s] exI [of _ ?b]) simp_all
  have put: "decrypted job s (rc, job', put_frame (pk_addr job) pkt s1)"
    if "opened_p ?b s (rc1, m, pending, pkt, s1)" "pk_addr job' = pk_addr job" "pk_len job' \<le> NE_FRAME" for rc job' rc1 m pending pkt s1
    unfolding decrypted_def prod.case using that b
    by (intro conjI exI [of _ s1] exI [of _ pkt]) (simp_all add: opened_p_def)
  have mid: "mem_ok (opened_p ?b s) (if l2_fast < 0 then Some (-1, m, False, pkt, s1)
      else if l2_fast = 1 then Some (0, m, pending, pkt, s1) else decrypt_wan_slow env l2 pkt ?n s1)"
    if o: "opened_p ?b s (l2_fast, m, pending, pkt, s1)" for l2_fast m pending pkt s1
  proof -
    have "mem_ok (opened_p pkt s1) (decrypt_wan_slow env l2 pkt ?n s1)"
      using o b by (intro decrypt_slow_safe [OF lib]) (simp_all add: opened_p_def)
    then have "mem_ok (opened_p ?b s) (decrypt_wan_slow env l2 pkt ?n s1)"
      by (rule mem_ok_mono) (use o in \<open>auto simp: opened_p_def intro: crypto_only_trans\<close>)
    then show ?thesis using o by (simp add: opened_p_def)
  qed
  show ?thesis
    unfolding decrypt_wan_def Let_def e k l2 Option.bind.simps
  proof (rule mem_ok_if, simp add: same, rule mem_ok_bind [OF try_udp_safe [OF lib b st]], goal_cases)
    case (1 x)
    obtain l2_fast m pending pkt s1 where x: "x = (l2_fast, m, pending, pkt, s1)" by (metis prod_cases5)
    show ?case unfolding x prod.case
      by (rule mem_ok_bind [OF mid [OF 1(2) [unfolded x]]]) (use put b in \<open>auto simp: opened_p_def\<close>)
  qed
qed

section \<open>The state of the worker\<close>

definition held_fit :: "reorder \<Rightarrow> bool" where
  "held_fit ro \<longleftrightarrow> (\<forall>x \<in># held_items ro. pk_len (ui_packet (snd x)) \<le> NE_FRAME)"

text \<open>The invariants of the parts, with \<open>n\<close> frames in the hands of the worker.\<close>

definition worker_ok :: "nat \<Rightarrow> 'c dataplane \<Rightarrow> bool" where
  "worker_ok n s \<longleftrightarrow> dp_ok n s \<and> (\<forall>a. length (ne_packet_data s a) = NE_FRAME) \<and> table_ok (fw_mac_table (dp_fwd s))
     \<and> fw_local_count (dp_fwd s) \<le> int MAX_INTERFACES \<and> route_ok (dp_route s) \<and> tables_wf (dp_opt s)
     \<and> reorder_inv (dp_reorder s) \<and> held_fit (dp_reorder s)"

lemma worker_ok_less: "worker_ok m s \<Longrightarrow> n \<le> m \<Longrightarrow> worker_ok n s"
  using dp_ok_less by (auto simp: worker_ok_def)

lemma crypto_only_frames:
  assumes "crypto_only s s'"
  shows "dp_frames s' = dp_frames s" "dp_ok n s' = dp_ok n s" "ne_packet_data s' = ne_packet_data s"
  using assms by (simp_all add: crypto_only_def dp_frames_def dp_ok_def dp_out_ring_idx_def ne_packet_data_def fun_eq_iff)

lemma worker_ok_crypto: "crypto_only s s' \<Longrightarrow> tables_wf (dp_opt s') \<Longrightarrow> worker_ok n s \<Longrightarrow> worker_ok n s'"
  using crypto_only_frames [of s s'] by (simp add: worker_ok_def crypto_only_def)

lemma put_frame_fwd [simp]: "fw_mac_table (dp_fwd (put_frame a b s)) = fw_mac_table (dp_fwd s)" "fw_local_count (dp_fwd (put_frame a b s)) = fw_local_count (dp_fwd s)"
  "fw_cfg (dp_fwd (put_frame a b s)) = fw_cfg (dp_fwd s)"
  by (simp_all add: put_frame_def)

lemma worker_ok_put: "worker_ok n s \<Longrightarrow> length b = NE_FRAME \<Longrightarrow> worker_ok n (put_frame a b s)"
  by (simp add: worker_ok_def)

lemma worker_ok_free:
  assumes "worker_ok (Suc n) s"
  shows "worker_ok n (free_frame a s)" "dp_frames (free_frame a s) = add_mset a (dp_frames s)"
proof -
  have ok: "dp_ok (Suc n) s" using assms by (simp add: worker_ok_def)
  show "dp_frames (free_frame a s) = add_mset a (dp_frames s)" by (rule free_frame_owned(1) [OF ok])
  show "worker_ok n (free_frame a s)"
    using assms free_frame_owned(2) [OF ok, of a] by (simp add: worker_ok_def free_frame_def ne_packet_data_def set_pool_def)
qed

lemma push_local_keeps:
  assumes "worker_ok (Suc n) s" "li < MAX_INTERFACES" "push_local li job s = (ok, s')"
  shows "worker_ok n s'" "dp_frames s' = add_mset (pk_addr job) (dp_frames s)" "dp_reorder s' = dp_reorder s"
proof -
  have dp: "dp_ok (Suc n) s" using assms(1) by (simp add: worker_ok_def)
  obtain ok' r pool k where p: "dp_ring_push (pr_frame_size (fw_pair (dp_fwd s))) (fw_mid_to_local (dp_fwd s) li (dp_out_ring_idx s)) (pr_pool (fw_pair (dp_fwd s))) job
      = (ok', r, pool, k)" by (metis prod_cases4)
  have s': "s' = s\<lparr>dp_fwd := set_pool pool (set_local_ring li (dp_out_ring_idx s) r (dp_fwd s))\<rparr>"
    using assms(3) by (simp add: push_local_def Let_def p)
  show "dp_frames s' = add_mset (pk_addr job) (dp_frames s)" by (rule push_local_owned(1) [OF dp assms(2,3)])
  show "worker_ok n s'"
    using assms(1) push_local_owned(2) [OF dp assms(2,3)] by (simp add: worker_ok_def s' ne_packet_data_def set_pool_def set_local_ring_def)
  show "dp_reorder s' = dp_reorder s" by (simp add: s')
qed

section \<open>Delivery\<close>

definition delivered :: "nat \<Rightarrow> u64 \<Rightarrow> 'c dataplane \<Rightarrow> int \<times> 'c dataplane \<Rightarrow> bool" where
  "delivered n a s = (\<lambda>(rc, s'). (if rc < 0 then s' = s
     else worker_ok n s' \<and> dp_frames s' = add_mset a (dp_frames s) \<and> dp_reorder s' = dp_reorder s))"

lemma mac_lookup_total: "table_ok (fw_mac_table fwd) \<Longrightarrow> mem_ok (\<lambda>_. True) (mac_lookup fwd mac)"
  by (simp add: mac_lookup_def table_lookup_correct)

lemma forward_safe:
  assumes ok: "worker_ok (Suc n) s"
  shows "mem_ok (delivered n (pk_addr job) s) (forward_wan_to_local job profile_pi w s)"
proof -
  let ?pkt = "ne_packet_data s (pk_addr job)" and ?fwd = "dp_fwd s"
  have len: "length ?pkt = NE_FRAME" using ok by (simp add: worker_ok_def)
  then have r: "rd8 ?pkt 0 = Some (?pkt ! 0)" "rdn ?pkt 0 MAC_LEN = Some (slice ?pkt 0 MAC_LEN)"
    by (simp_all add: rd8_def rdn_def NE_FRAME_def MAC_LEN_def)
  obtain l where l: "mac_lookup ?fwd (slice ?pkt 0 MAC_LEN) = Some l"
    using mac_lookup_total [of ?fwd] ok by (auto simp: worker_ok_def mem_ok_def)
  have stay: "delivered n (pk_addr job) s (-1, s)" by (simp add: delivered_def)
  have push: "delivered n (pk_addr job) s (case push_local (nat li) (job\<lparr>pk_dir := NE_DIR_LOCAL, pk_local_idx := of_int li\<rparr>) s of (ok, s) \<Rightarrow> (if ok then 0 else 1, s))"
    if "0 \<le> li \<and> profile_owns_local ?fwd profile_pi li" for li
  proof -
    have li: "nat li < MAX_INTERFACES" using that ok by (auto simp: profile_owns_local_def worker_ok_def Let_def)
    obtain b s' where p: "push_local (nat li) (job\<lparr>pk_dir := NE_DIR_LOCAL, pk_local_idx := of_int li\<rparr>) s = (b, s')" by fastforce
    show ?thesis using push_local_keeps [OF ok li p] by (simp add: p delivered_def)
  qed
  show ?thesis
    unfolding forward_wan_to_local_def Let_def eth_dmac_is_unicast_def r l Option.bind.simps
    using stay push by (simp split: if_split)
qed

lemma bind_slot_safe:
  assumes ok: "worker_ok n s" and n: "pk_len job \<le> NE_FRAME"
  shows "mem_ok (\<lambda>s'. worker_ok n s' \<and> dp_frames s' = dp_frames s \<and> dp_reorder s' = dp_reorder s) (bind_flow_slot job s)"
    "mem_ok (\<lambda>s'. worker_ok n s' \<and> dp_frames s' = dp_frames s \<and> dp_reorder s' = dp_reorder s) (bind_packet_slot job s)"
proof -
  let ?pkt = "ne_packet_data s (pk_addr job)"
  have len: "pk_len job \<le> length ?pkt" using ok n by (simp add: worker_ok_def)
  have rok: "route_ok (dp_route s)" using ok by (simp add: worker_ok_def)
  have bound: "worker_ok n (s\<lparr>dp_route := dp_out_ring_bind x rs\<rparr>)" if "route_ok rs" for x rs
  proof -
    have "unat (dp_active_tx_slots rs) \<le> 4" using active_slots_range [of rs] by (simp add: NE_TX_SLOTS_def)
    then have u: "uint (dp_active_tx_slots rs) < 6" by (simp only: uint_nat)
    have "tls_out_ring_idx (dp_out_ring_bind x rs) < 6"
      by (cases "x < 0 \<or> x \<ge> uint (dp_active_tx_slots rs)") (use u in \<open>auto simp: dp_out_ring_bind_def simp del: uint_nat\<close>)
    then have "nat (tls_out_ring_idx (dp_out_ring_bind x rs)) < NE_CRYPTO_WORKERS" unfolding NE_CRYPTO_WORKERS_def by arith
    moreover have "route_ok (dp_out_ring_bind x rs)" using that by (simp add: dp_out_ring_bind_def route_ok_def)
    ultimately show ?thesis using ok dp_ok_route by (auto simp: worker_ok_def ne_packet_data_def)
  qed
  obtain r st' where g: "dp_flow_route_get ?pkt (pk_len job) (dp_crypto_current_worker_idx s) (dp_route s) = Some (r, st')" "route_ok st'"
    using route_get_range [OF len rok] by blast
  show "mem_ok (\<lambda>s'. worker_ok n s' \<and> dp_frames s' = dp_frames s \<and> dp_reorder s' = dp_reorder s) (bind_flow_slot job s)"
    using bound [OF g(2)] by (simp add: bind_flow_slot_def dp_flow_pick_tx_slot_def g(1))
  obtain k where k: "dp_route_key_parse ?pkt (pk_len job) = Some k"
    using key_parse_total [OF len] by (auto simp: dp_route_key_parse_def)
  obtain h where h: "dp_pkt_flow_hash ?pkt (pk_len job) = Some h" using flow_hash_total [OF len] ..
  show "mem_ok (\<lambda>s'. worker_ok n s' \<and> dp_frames s' = dp_frames s \<and> dp_reorder s' = dp_reorder s) (bind_packet_slot job s)"
    using bound [OF rok] by (cases k) (simp_all add: bind_packet_slot_def dp_pick_tx_slot_def k h)
qed

section \<open>The reorder buffer\<close>

fun out_item :: "reorder_out \<Rightarrow> dp_udp_reorder_item" where
  "out_item (Emitted seq item) = item"
| "out_item (Dropped seq item) = item"

definition out_addrs :: "reorder_out list \<Rightarrow> u64 multiset" where
  "out_addrs outs = mset (map (\<lambda>x. pk_addr (ui_packet (out_item x))) outs)"

definition outs_fit :: "reorder_out list \<Rightarrow> bool" where
  "outs_fit outs \<longleftrightarrow> (\<forall>x \<in> set outs. pk_len (ui_packet (out_item x)) \<le> NE_FRAME)"

definition replayed :: "nat \<Rightarrow> u64 multiset \<Rightarrow> 'c dataplane \<Rightarrow> 'c dataplane \<Rightarrow> bool" where
  "replayed n as s s' \<longleftrightarrow> worker_ok n s' \<and> dp_frames s' = as + dp_frames s \<and> dp_reorder s' = dp_reorder s"

lemma free_frame_reorder [simp]: "dp_reorder (free_frame a s) = dp_reorder s"
  by (simp add: free_frame_def)

lemma emit_safe:
  assumes ok: "worker_ok (Suc n) s" and fit: "pk_len (ui_packet item) \<le> NE_FRAME"
  shows "mem_ok (replayed n {#pk_addr (ui_packet item)#} s)
    (do { (ok, s) \<leftarrow> udp_reorder_emit item s; Some (if ok then s else udp_reorder_drop item s) })"
proof -
  obtain s1 where s1: "bind_flow_slot (ui_packet item) s = Some s1" "worker_ok (Suc n) s1" "dp_frames s1 = dp_frames s" "dp_reorder s1 = dp_reorder s"
    using bind_slot_safe(1) [OF ok fit] by (auto simp: mem_ok_def)
  obtain rc s2 where f: "forward_wan_to_local (ui_packet item) (ui_profile_pi item) (ui_ingress_wan_dp item) s1 = Some (rc, s2)"
    "delivered n (pk_addr (ui_packet item)) s1 (rc, s2)"
    using forward_safe [OF s1(2), of "ui_packet item" "ui_profile_pi item" "ui_ingress_wan_dp item"] by (auto simp: mem_ok_def)
  show ?thesis
    using worker_ok_free [OF s1(2)] f(2) s1(3,4)
    by (simp add: udp_reorder_emit_def s1(1) f(1) replayed_def delivered_def udp_reorder_drop_def split: if_splits)
qed

lemma replay_out_safe:
  assumes "worker_ok (Suc n) s" "pk_len (ui_packet (out_item x)) \<le> NE_FRAME"
  shows "mem_ok (replayed n {#pk_addr (ui_packet (out_item x))#} s) (replay_out x s)"
proof (cases x)
  case (Emitted seq item)
  then show ?thesis using emit_safe [OF assms(1), of item] assms(2) by simp
next
  case (Dropped seq item)
  then show ?thesis using worker_ok_free [OF assms(1)] by (simp add: replayed_def udp_reorder_drop_def)
qed

lemma replay_outs_safe:
  "worker_ok (length outs + n) s \<Longrightarrow> outs_fit outs \<Longrightarrow> mem_ok (replayed n (out_addrs outs) s) (replay_outs outs s)"
proof (induction outs arbitrary: s)
  case Nil
  then show ?case by (simp add: replayed_def out_addrs_def)
next
  case (Cons x xs)
  have "mem_ok (replayed (length xs + n) {#pk_addr (ui_packet (out_item x))#} s) (replay_out x s)"
    using Cons.prems by (intro replay_out_safe) (simp_all add: outs_fit_def)
  then obtain s1 where s1: "replay_out x s = Some s1" "replayed (length xs + n) {#pk_addr (ui_packet (out_item x))#} s s1"
    by (auto simp: mem_ok_def)
  have "mem_ok (replayed n (out_addrs xs) s1) (replay_outs xs s1)"
    using s1(2) Cons.prems(2) by (intro Cons.IH) (simp_all add: replayed_def outs_fit_def)
  then show ?case
    using s1 by (auto simp: mem_ok_def replayed_def out_addrs_def)
qed

lemma reorder_out_upd [simp]: "reorder_inv (ro\<lparr>ro_out := os\<rparr>) = reorder_inv ro" "held_items (ro\<lparr>ro_out := os\<rparr>) = held_items ro"
  by (simp_all add: reorder_inv_def wf_def held_items_def valid_slots_def flow_items_def [abs_def])

lemma out_addrs_items: "out_addrs (ro_out ro) = image_mset item_addr (out_items ro)"
proof -
  have "pk_addr (ui_packet (out_item x)) = item_addr (out_pair x)" for x by (cases x) (simp_all add: item_addr_def)
  then show ?thesis by (simp add: out_addrs_def out_items_def multiset.map_comp comp_def mset_map [symmetric] del: mset_map)
qed

lemma outs_fit_items: "outs_fit (ro_out ro) \<longleftrightarrow> (\<forall>x \<in># out_items ro. pk_len (ui_packet (snd x)) \<le> NE_FRAME)"
proof -
  have "out_item x = snd (out_pair x)" for x by (cases x) simp_all
  then show ?thesis by (simp add: outs_fit_def out_items_def)
qed

text \<open>The packets that leave the buffer are delivered or freed, those that stay are still owned by it.\<close>

lemma take_out_safe:
  assumes ok: "worker_ok k s" and inv: "reorder_inv ro" and new: "held_items ro + out_items ro = held_items (dp_reorder s) + new"
    and k: "size new \<le> k" and fit: "\<forall>x \<in># new. pk_len (ui_packet (snd x)) \<le> NE_FRAME"
  shows "mem_ok (\<lambda>s'. worker_ok 0 s' \<and> dp_frames s' = image_mset item_addr new + dp_frames s) (take_out ro s)"
proof -
  let ?s = "s\<lparr>dp_reorder := ro\<lparr>ro_out := []\<rparr>\<rparr>"
  have all: "\<forall>x \<in># held_items ro + out_items ro. pk_len (ui_packet (snd x)) \<le> NE_FRAME"
    unfolding new using ok fit by (auto simp: worker_ok_def held_fit_def)
  have sz: "size (held_items ro) + length (ro_out ro) = size (held_items (dp_reorder s)) + size new"
    using arg_cong [OF new, of size] by (simp add: out_items_def)
  have fr: "dp_frames ?s = fwd_frames (dp_fwd s) + image_mset item_addr (held_items ro)" by (simp add: dp_frames_def)
  have "dp_ok (length (ro_out ro) + 0) ?s"
    using ok sz k by (simp add: worker_ok_def dp_ok_def fr dp_out_ring_idx_def) (simp add: dp_frames_def)
  then have "worker_ok (length (ro_out ro) + 0) ?s"
    using ok inv all by (simp add: worker_ok_def held_fit_def ne_packet_data_def)
  moreover have "outs_fit (ro_out ro)" using all by (simp add: outs_fit_items)
  ultimately have "mem_ok (replayed 0 (out_addrs (ro_out ro)) ?s) (replay_outs (ro_out ro) ?s)" by (rule replay_outs_safe)
  moreover have "out_addrs (ro_out ro) + dp_frames ?s = image_mset item_addr new + dp_frames s"
  proof -
    have "image_mset item_addr (out_items ro) + image_mset item_addr (held_items ro)
        = image_mset item_addr new + image_mset item_addr (held_items (dp_reorder s))"
      using arg_cong [OF new, of "image_mset item_addr"] by (simp add: add.commute)
    then show ?thesis by (simp add: fr out_addrs_items dp_frames_def add.left_commute)
  qed
  ultimately show ?thesis unfolding take_out_def by (auto simp: mem_ok_def replayed_def)
qed

lemma reorder_submit_safe:
  assumes ok: "worker_ok 1 s" and cap: "ro_held (dp_reorder s) < UDP_REORDER_HELD_CAP" and fit: "pk_len (ui_packet item) \<le> NE_FRAME"
  shows "mem_ok (\<lambda>s'. worker_ok 0 s' \<and> dp_frames s' = add_mset (pk_addr (ui_packet item)) (dp_frames s)) (reorder_submit env key epoch seq item s)"
proof -
  obtain ro where ro: "dp_udp_reorder_submit (\<lambda>_. True) (de_reorder_enabled env \<and> valid_reorder_worker s) (de_reorder_hold_ns env)
       key epoch seq item (de_now_ns env) ((dp_reorder s)\<lparr>ro_out := []\<rparr>) = Some ro"
    "reorder_inv ro" "held_items ro + out_items ro = held_items (dp_reorder s) + {#(seq, item)#}"
  proof -
    have "reorder_inv ((dp_reorder s)\<lparr>ro_out := []\<rparr>)" "ro_held ((dp_reorder s)\<lparr>ro_out := []\<rparr>) < UDP_REORDER_HELD_CAP"
      "out_items ((dp_reorder s)\<lparr>ro_out := []\<rparr>) = {#}"
      using ok cap by (simp_all add: worker_ok_def out_items_def)
    then show ?thesis using that submit_total [of "(dp_reorder s)\<lparr>ro_out := []\<rparr>"] by (metis add.right_neutral reorder_out_upd(2))
  qed
  have "mem_ok (\<lambda>s'. worker_ok 0 s' \<and> dp_frames s' = image_mset item_addr {#(seq, item)#} + dp_frames s) (take_out ro s)"
    by (rule take_out_safe [OF ok ro(2,3)]) (use fit in simp_all)
  then show ?thesis by (simp add: reorder_submit_def ro(1) item_addr_def)
qed

lemma reorder_gc_safe:
  assumes "worker_ok 0 s"
  shows "mem_ok (\<lambda>s'. worker_ok 0 s' \<and> dp_frames s' = dp_frames s) (dataplane_udp_reorder_gc env s)"
    "mem_ok (\<lambda>s'. worker_ok 0 s' \<and> dp_frames s' = dp_frames s) (dataplane_udp_reorder_reset s)"
proof -
  have i: "reorder_inv ((dp_reorder s)\<lparr>ro_out := []\<rparr>)" using assms by (simp add: worker_ok_def)
  have "mem_ok (\<lambda>s'. worker_ok 0 s' \<and> dp_frames s' = image_mset item_addr {#} + dp_frames s)
      (take_out (dp_udp_reorder_gc (\<lambda>_. True) (de_reorder_hold_ns env) (de_now_ns env) ((dp_reorder s)\<lparr>ro_out := []\<rparr>)) s)"
    using reorder_gc_keeps [OF i] by (intro take_out_safe [OF assms]) (auto simp: out_items_def)
  then show "mem_ok (\<lambda>s'. worker_ok 0 s' \<and> dp_frames s' = dp_frames s) (dataplane_udp_reorder_gc env s)"
    using assms by (simp add: dataplane_udp_reorder_gc_def)
  have "mem_ok (\<lambda>s'. worker_ok 0 s' \<and> dp_frames s' = image_mset item_addr {#} + dp_frames s)
      (take_out (dp_udp_reorder_reset_worker ((dp_reorder s)\<lparr>ro_out := []\<rparr>)) s)"
    using reorder_reset_releases [OF i] by (intro take_out_safe [OF assms]) (auto simp: out_items_def)
  then show "mem_ok (\<lambda>s'. worker_ok 0 s' \<and> dp_frames s' = dp_frames s) (dataplane_udp_reorder_reset s)"
    using assms by (simp add: dataplane_udp_reorder_reset_def)
qed

section \<open>The handler\<close>

definition passed_on :: "u64 \<Rightarrow> 'c dataplane \<Rightarrow> 'c dataplane \<Rightarrow> bool" where
  "passed_on a s s' \<longleftrightarrow> worker_ok 0 s' \<and> dp_frames s' = add_mset a (dp_frames s)"

lemma drop_passes: "worker_ok 1 s \<Longrightarrow> passed_on (pk_addr job) s (drop_wan job s)"
  using worker_ok_free [of 0 s "pk_addr job"] by (simp add: passed_on_def drop_wan_def)

lemma passed_same: "passed_on a s1 s' \<Longrightarrow> dp_frames s1 = dp_frames s \<Longrightarrow> passed_on a s s'"
  by (simp add: passed_on_def)

lemma deliver_wan_safe:
  assumes ok: "worker_ok 1 s"
  shows "mem_ok (passed_on (pk_addr job) s) (deliver_wan job profile_pi s)"
proof -
  have "worker_ok (Suc 0) s" using ok by simp
  then obtain rc s' where f: "forward_wan_to_local job profile_pi (ingress_dp job s) s = Some (rc, s')" "delivered 0 (pk_addr job) s (rc, s')"
    using forward_safe [of 0 s job profile_pi "ingress_dp job s"] by (auto simp: mem_ok_def)
  then show ?thesis
    using drop_passes [OF ok, of job] by (auto simp: deliver_wan_def delivered_def passed_on_def split: if_splits)
qed

lemma worker_parse_flow:
  assumes "worker_ok n s" "pk_len job \<le> NE_FRAME"
  obtains f where "dp_parse_flow (ne_packet_data s (pk_addr job)) (pk_len job) = Some f"
  using packet_parsers_total [of "pk_len job" "ne_packet_data s (pk_addr job)"] assms by (auto simp: worker_ok_def)

lemma deliver_decrypted_safe:
  assumes ok: "worker_ok 1 s" and n: "pk_len job \<le> NE_FRAME" and cap: "ro_held (dp_reorder s) < UDP_REORDER_HELD_CAP"
  shows "mem_ok (passed_on (pk_addr job) s) (deliver_decrypted env job profile_pi s)"
proof -
  obtain meta opt where m: "crypto_option_udp_take_rx_meta (dp_opt s) = (meta, opt)" by fastforce
  have opt: "tables_wf opt" using m ok by (auto simp: crypto_option_udp_take_rx_meta_def worker_ok_def tables_wf_def split: if_splits)
  let ?s = "s\<lparr>dp_opt := opt\<rparr>"
  have ok': "worker_ok 1 ?s" by (rule worker_ok_crypto [OF _ _ ok]) (simp_all add: opt)
  show ?thesis
  proof (cases meta)
    case None
    obtain s1 where s1: "bind_flow_slot job ?s = Some s1" "worker_ok 1 s1" "dp_frames s1 = dp_frames s"
      using bind_slot_safe(1) [OF ok' n] by (auto simp: mem_ok_def)
    show ?thesis
      using deliver_wan_safe [OF s1(2), of job profile_pi] s1(3)
      by (auto simp: deliver_decrypted_def m None s1(1) mem_ok_def passed_on_def)
  next
    case (Some es)
    obtain f where f: "dp_parse_flow (ne_packet_data ?s (pk_addr job)) (pk_len job) = Some f" using worker_parse_flow [OF ok' n] .
    have cap': "ro_held (dp_reorder ?s) < UDP_REORDER_HELD_CAP" using cap by simp
    have sub: "mem_ok (passed_on (pk_addr job) s) (reorder_submit env key epoch seq
        \<lparr>ui_packet = job, ui_profile_pi = profile_pi, ui_ingress_wan_dp = ingress_dp job ?s\<rparr> ?s)" for key epoch seq
      using reorder_submit_safe [OF ok' cap', of "\<lparr>ui_packet = job, ui_profile_pi = profile_pi, ui_ingress_wan_dp = ingress_dp job ?s\<rparr>"] n
      by (simp add: passed_on_def [abs_def])
    have drop: "passed_on (pk_addr job) s (drop_wan job ?s)" using drop_passes [OF ok', of job] by (rule passed_same) simp
    obtain epoch seq where es: "es = (epoch, seq)" by fastforce
    show ?thesis
      using sub drop by (cases f) (simp_all add: deliver_decrypted_def m Some es f Let_def)
  qed
qed

lemma profile_pi_safe:
  assumes "worker_ok n s" "m \<le> length wire"
  shows "mem_ok (\<lambda>(pi, s'). crypto_only s s' \<and> dp_opt s' = dp_opt s) (wan_profile_pi env wire m s)"
proof -
  obtain a where a: "fwd_crypto_has_l2_marker (rt_index_by_wire_id (dp_rt s)) wire m = Some a"
    using known_marker_total [OF assms(2)] by (auto simp: mem_ok_def)
  obtain b where b: "(if a then Some True else crypto_eth_l2_has_marker wire m) = Some b"
    using marker_safe(1) [OF assms(2)] by (cases a) auto
  obtain w where w: "crypto_eth_l2_read_policy_id wire m = Some w" using read_policy_total [OF assms(2)] by (auto simp: mem_ok_def)
  obtain f where "dp_parse_flow wire m = Some f" using packet_parsers_total [OF assms(2)] by blast
  then have "\<exists>pi. wan_profile_pi_bypass (dp_fwd s) wire m = Some pi"
    by (cases "ac_profiles (fw_cfg (dp_fwd s))") (simp_all add: wan_profile_pi_bypass_def)
  then obtain pi where pi: "wan_profile_pi_bypass (dp_fwd s) wire m = Some pi" ..
  show ?thesis
    by (cases w) (auto simp: wan_profile_pi_def a b w pi profile_pi_for_wire_policy_def split: prod.split if_split)
qed

lemma clamp_wan_safe:
  assumes "n \<le> length b"
  shows "mem_ok (\<lambda>b'. length b' = length b) (wan_clamp_tcp_mss fwd b n)"
proof -
  obtain f where f: "dp_parse_flow b n = Some f" using packet_parsers_total [OF assms] by blast
  have "mem_ok (\<lambda>b'. length b' = length b) (do { (rc, pkt) \<leftarrow> crypto_tcp_clamp_mss b n mtu ov; Some pkt })" for mtu ov
    using clamp_cases [OF assms, of mtu ov] assms clamped_frame(1) by (auto simp: Let_def mem_ok_def)
  then show ?thesis by (auto simp: wan_clamp_tcp_mss_def f split: list.split option.split)
qed

lemma process_encrypted_safe:
  assumes lib: "lib_bounded (de_lib env)" and ok: "worker_ok 1 s" and n: "pk_len job \<le> NE_FRAME"
    and cap: "ro_held (dp_reorder s) < UDP_REORDER_HELD_CAP"
  shows "mem_ok (passed_on (pk_addr job) s) (process_wan_encrypted env job wire s)"
proof -
  let ?s = "s\<lparr>dp_opt := crypto_option_udp_clear_rx_meta (dp_opt s)\<rparr>"
  have ok0: "worker_ok 1 ?s"
    by (rule worker_ok_crypto [OF _ _ ok]) (use ok in \<open>simp_all add: worker_ok_def crypto_option_udp_clear_rx_meta_def tables_wf_def\<close>)
  have drop: "passed_on (pk_addr job) s (drop_wan j s1)" if "worker_ok 1 s1" "pk_addr j = pk_addr job" "dp_frames s1 = dp_frames s" for j s1
    using drop_passes [OF that(1), of j] that(2,3) by (simp add: passed_on_def)
  obtain dec job1 s1 where d: "decrypt_wan env job ?s = Some (dec, job1, s1)" "decrypted job ?s (dec, job1, s1)"
    using decrypt_wan_safe [OF lib _ n, of ?s] ok0 by (auto simp: mem_ok_def worker_ok_def)
  obtain s0 b where s0: "crypto_only ?s s0" "length b = NE_FRAME" "s1 = s0 \<or> s1 = put_frame (pk_addr job) b s0"
    and j1: "pk_addr job1 = pk_addr job" "pk_len job1 \<le> NE_FRAME" and t1: "tables_wf (dp_opt s1)"
    using d(2) by (auto simp: decrypted_def)
  have ok1: "worker_ok 1 s1" using worker_ok_crypto [OF s0(1) _ ok0] worker_ok_put [OF _ s0(2)] s0(3) t1 by auto
  have fr1: "dp_frames s1 = dp_frames s" using crypto_only_frames(1) [OF s0(1)] s0(3) by auto
  have cap1: "ro_held (dp_reorder s1) < UDP_REORDER_HELD_CAP" using s0(1,3) cap by (auto simp: crypto_only_def)
  obtain pi s2 where p: "wan_profile_pi env wire (length wire) s1 = Some (pi, s2)" "crypto_only s1 s2" "dp_opt s2 = dp_opt s1"
    using profile_pi_safe [OF ok1 order_refl, of env wire] by (auto simp: mem_ok_def)
  have ok2: "worker_ok 1 s2" using worker_ok_crypto [OF p(2) _ ok1] t1 p(3) by simp
  have fr2: "dp_frames s2 = dp_frames s" using crypto_only_frames(1) [OF p(2)] fr1 by simp
  have cap2: "ro_held (dp_reorder s2) < UDP_REORDER_HELD_CAP" using p(2) cap1 by (simp add: crypto_only_def)
  let ?b = "ne_packet_data s2 (pk_addr job1)"
  have l: "pk_len job1 \<le> length ?b" using ok2 j1(2) by (simp add: worker_ok_def)
  obtain f where f: "dp_parse_flow ?b (pk_len job1) = Some f" using worker_parse_flow [OF ok2 j1(2)] .
  have "\<exists>okp. (if pf_policy_in_any (ac_profiles (fw_cfg (dp_fwd s2)) ! nat pi) then Some True
      else wan_policy_in_ok (dp_fwd s2) (dp_pol_in s2) pi ?b (pk_len job1)) = Some okp"
    by (auto simp: wan_policy_in_ok_def f)
  then obtain okp where okp: "(if pf_policy_in_any (ac_profiles (fw_cfg (dp_fwd s2)) ! nat pi) then Some True
      else wan_policy_in_ok (dp_fwd s2) (dp_pol_in s2) pi ?b (pk_len job1)) = Some okp" ..
  obtain b2 where b2: "wan_clamp_tcp_mss (dp_fwd s2) ?b (pk_len job1) = Some b2" "length b2 = NE_FRAME"
    using clamp_wan_safe [OF l, of "dp_fwd s2"] ok2 by (auto simp: mem_ok_def worker_ok_def)
  have fin: "mem_ok (passed_on (pk_addr job) s) (deliver_decrypted env job1 pi (put_frame (pk_addr job1) b2 s2))"
    by (rule mem_ok_mono [OF deliver_decrypted_safe [OF worker_ok_put [OF ok2 b2(2)] j1(2)]])
      (use cap2 fr2 j1(1) in \<open>simp_all add: passed_on_def\<close>)
  show ?thesis
    using drop [OF ok0] drop [OF ok1 j1(1) fr1] drop [OF ok2 j1(1) fr2] fin
    unfolding process_wan_encrypted_def d(1) Let_def
    by (simp add: p(1) okp b2(1) del: One_nat_def)
qed

lemma process_wan_safe:
  assumes lib: "lib_bounded (de_lib env)" and ok: "worker_ok 1 s" and cap: "ro_held (dp_reorder s) < UDP_REORDER_HELD_CAP"
    and arp: "wan_pkt_is_arp (ne_packet_data s (pk_addr job)) (pk_len job) = Some False"
  shows "mem_ok (passed_on (pk_addr job) s) (dataplane_process_wan env job s)"
proof (cases "pk_len job < 14 \<or> pk_len job > NE_FRAME")
  case True
  then show ?thesis using drop_passes [OF ok, of job] by (simp add: dataplane_process_wan_def Let_def)
next
  case False
  let ?b = "ne_packet_data s (pk_addr job)" and ?n = "pk_len job"
  have n: "?n \<le> NE_FRAME" "?n \<le> length ?b" using False ok by (simp_all add: worker_ok_def)
  obtain t where t: "wan_l2_is_frag ?b ?n = Some t" using udp_tagged_total [OF n(2)] by (auto simp: mem_ok_def wan_l2_is_frag_def)
  define wire where "wire = slice ?b 0 (if t then min ?n 64 else ?n)"
  have w: "rdn ?b 0 (if t then min ?n 64 else ?n) = Some wire" using n by (auto simp: rdn_def wire_def)
  obtain e where e: "wan_wire_is_encrypted (dp_rt s) ?b ?n = Some e" using wire_encrypted_total [OF n(2)] by (auto simp: mem_ok_def)
  obtain ip where ip: "wan_l2_plain_ipv4 ?b ?n = Some ip" using plain_ok_total(2) [OF n(2)] by (auto simp: mem_ok_def)
  obtain pi s2 where p: "wan_profile_pi env wire (length wire) s = Some (pi, s2)" "crypto_only s s2" "dp_opt s2 = dp_opt s"
    using profile_pi_safe [OF ok order_refl, of env wire] by (auto simp: mem_ok_def)
  have ok2: "worker_ok 1 s2" using worker_ok_crypto [OF p(2) _ ok] ok p(3) by (simp add: worker_ok_def)
  have fr2: "dp_frames s2 = dp_frames s" using crypto_only_frames(1) [OF p(2)] .
  obtain s3 where s3: "bind_packet_slot job s2 = Some s3" "worker_ok 1 s3" "dp_frames s3 = dp_frames s2"
    using bind_slot_safe(2) [OF ok2 n(1)] by (auto simp: mem_ok_def)
  have fin: "mem_ok (passed_on (pk_addr job) s) (deliver_wan job pi s3)"
    by (rule mem_ok_mono [OF deliver_wan_safe [OF s3(2)]]) (simp add: passed_on_def s3(3) fr2)
  have drop2: "passed_on (pk_addr job) s (drop_wan job s2)" using drop_passes [OF ok2, of job] by (simp add: passed_on_def fr2)
  show ?thesis
    using False drop_passes [OF ok, of job] drop2 fin process_encrypted_safe [OF lib ok n(1) cap, of wire]
    by (simp add: dataplane_process_wan_def Let_def t w arp e ip p(1) s3(1) del: One_nat_def)
qed

section \<open>An example\<close>

definition worker_example :: "forwarder \<Rightarrow> (bool \<times> buf \<times> buf) dataplane" where
  "worker_example fwd = \<lparr>dp_fwd = fwd, dp_opt = example_l2, dp_rt = demo_rt, dp_tls = demo_tls, dp_route = route_init,
     dp_sched = sched_example, dp_flow = flow_example, dp_reorder = reorder_init, dp_relay = mac_relay_init,
     dp_arp = \<lparr>g_arp_crypto_ctx = zero_ctx, g_arp_crypto_ctx_ready = False, g_arp_key_loaded = False,
       g_arp_default_master_key = replicate 32 0, g_arp_lan_on_backup = replicate MAX_INTERFACES False\<rparr>,
     dp_macfile = None, dp_pol_in = (\<lambda>_. [])\<rparr>"

definition env_example :: "(bool \<times> buf \<times> buf) dp_env" where
  "env_example = \<lparr>de_lib = xor_lib, de_os = example_env, de_io = io_example, de_hmac = (\<lambda>k m. replicate 32 9), de_calloc_ok = True,
     de_reorder_enabled = True, de_reorder_hold_ns = 2000000\<rparr>"

lemma empty_ring_frames [simp]: "ring_frames ring_example = {#}" "ring_ok ring_example"
  by (auto simp: ring_frames_def ring_contents_def circ_def ring_example_def ring_ok_def intro!: exI [of _ 7])

lemma held_init [simp]: "held_items reorder_init = {#}" "ro_held reorder_init = 0"
  by (simp_all add: held_items_def flow_items_def valid_slots_def reorder_init_def slot_zero_def)

lemma worker_example_ok: "worker_ok 1 (worker_example fwd_example)"
proof -
  have f: "dp_frames (worker_example fwd_example) = {#}"
    by (simp add: dp_frames_def fwd_frames_def grid_frames_def worker_example_def fwd_example_def pair_example_def
        example_pool_def pool_contents_def circ_def)
  have p: "pool_ok example_pool" by (auto simp: example_pool_def pool_ok_def intro!: exI [of _ 1])
  have "dp_ok 1 (worker_example fwd_example)" unfolding dp_ok_def f
    using p by (simp add: fwd_ok_def worker_example_def fwd_example_def pair_example_def example_pool_def dp_out_ring_idx_def route_init_def NE_CRYPTO_WORKERS_def)
  moreover have "route_ok route_init" using route.reachable_inv [of "[]"] by simp
  ultimately show ?thesis
    by (simp add: worker_ok_def worker_example_def ne_packet_data_def fwd_example_def pair_example_def NE_FRAME_def
        MAX_INTERFACES_def reorder_init_inv held_fit_def tables_wf_def example_l2_def table_init_ok)
qed

section \<open>The property\<close>

text \<open>C9: the handler of WAN packets is safe for every packet that is not ARP, as long as the reorder buffer of the worker holds fewer
  than its cap of 8192 packets. In a state that satisfies the invariants of its parts, and for a cipher library that does not write more
  bytes than it is given, the handler returns whatever the packet holds: it reads and writes inside the frames, the
  tables and the parsed headers only. It keeps the invariants, and it passes the frame of the packet on exactly once:
  the frames in pool, rings, tail caches and reorder buffer together gain the frame of the packet and nothing else,
  although packets held before may leave the buffer in the same step. (The bound on the reorder buffer is a condition on
  each call and not one of the invariants that the handler keeps: a worker can reach the cap, and then the handler may store a packet in the
  wrong place and hang with a later one, see \<open>Reorder_Cap\<close>.)\<close>

theorem wan_ingress_safe:
  assumes "lib_bounded (de_lib env)" and "worker_ok 1 s" and "ro_held (dp_reorder s) < UDP_REORDER_HELD_CAP"
    and "wan_pkt_is_arp (ne_packet_data s (pk_addr job)) (pk_len job) = Some False"
  shows "\<exists>s'. dataplane_process_wan env job s = Some s' \<and> worker_ok 0 s' \<and> dp_frames s' = add_mset (pk_addr job) (dp_frames s)"
  using process_wan_safe [OF assms] by (simp add: mem_ok_def passed_on_def)

theorem wan_ingress_safe_witness:
  "\<exists>s'. dataplane_process_wan env_example (ne_packet_zero\<lparr>pk_addr := 2048, pk_len := 60\<rparr>) (worker_example fwd_example) = Some s'
    \<and> worker_ok 0 s' \<and> dp_frames s' = add_mset 2048 (dp_frames (worker_example fwd_example))"
proof -
  let ?job = "ne_packet_zero\<lparr>pk_addr := 2048, pk_len := 60\<rparr>" and ?s = "worker_example fwd_example"
  have b: "ne_packet_data ?s a = replicate 2048 0" for a
    by (simp add: ne_packet_data_def worker_example_def fwd_example_def pair_example_def)
  have 1: "lib_bounded (de_lib env_example)" by (simp add: env_example_def xor_lib_bounded)
  have 3: "ro_held (dp_reorder ?s) < UDP_REORDER_HELD_CAP" by (simp add: worker_example_def UDP_REORDER_HELD_CAP_def)
  have 4: "wan_pkt_is_arp (ne_packet_data ?s (pk_addr ?job)) (pk_len ?job) = Some False"
    by (simp add: b wan_pkt_is_arp_def crypto_eth_l2_has_arp_marker_def crypto_eth_inner_et_off_def eth_inner_hit_def eth_match_et_def
        ethertype_defs et_at_def be16_def dp_pkt_is_arp_def)
  from wan_ingress_safe [OF 1 worker_example_ok 3 4] show ?thesis by simp
qed

end
