(* ===== verification/Dataplane_Faults.thy ===== *)
theory Dataplane_Faults
  imports Ingress_Safety
begin

text \<open>
  Faults of the handlers. Two concern ARP packets: the caller of the bridge frees the frame unless the bridge returns \<open>0\<close>; but
  the bridge returns \<open>0\<close> for the packets it filters without freeing them, and it returns \<open>-1\<close> after a ring has refused
  a packet, although the ring has freed the frame. One concerns the time after a reload, in which packets with the wire
  ids of the old configuration are still accepted.
\<close>

section \<open>Frames that are lost\<close>

primrec process_locals :: "'c dp_env \<Rightarrow> ne_packet list \<Rightarrow> 'c dataplane \<Rightarrow> 'c dataplane mem" where
  "process_locals env [] s = Some s"
| "process_locals env (job # jobs) s = do { s \<leftarrow> dataplane_process_local env job s; process_locals env jobs s }"

text \<open>An ARP packet of the LAN with the sender of an ARP packet that a WAN has brought a moment ago.\<close>

definition arp_echo :: "'c dp_env \<Rightarrow> 'c dataplane \<Rightarrow> ne_packet \<Rightarrow> bool" where
  "arp_echo env s job \<longleftrightarrow> pk_len job \<le> NE_FRAME \<and> length (ne_packet_data s (pk_addr job)) = NE_FRAME \<and> ARP_ETH_HDR_LEN \<le> pk_len job
     \<and> dp_pkt_is_arp (ne_packet_data s (pk_addr job)) (pk_len job) = Some True
     \<and> (\<exists>spa tpa. dp_parse_arp_ips (ne_packet_data s (pk_addr job)) (pk_len job) = Some (Some (spa, tpa))
          \<and> mac_relay_recent (de_now_ms env) (slice (ne_packet_data s (pk_addr job)) MAC_LEN MAC_LEN) spa (dp_relay s))"

lemma echo_lost:
  assumes "arp_echo env s job"
  shows "dataplane_process_local env job s = Some s"
proof -
  let ?b = "ne_packet_data s (pk_addr job)"
  have l: "pk_len job \<le> length ?b" "MAC_LEN + MAC_LEN \<le> length ?b"
    using assms by (simp_all add: arp_echo_def NE_FRAME_def MAC_LEN_def)
  obtain f where f: "dp_parse_flow ?b (pk_len job) = Some f" using packet_parsers_total [OF l(1)] by blast
  have "arp_local_filter env job li s = Some (True, s)" for li
    using assms l(2) by (auto simp: arp_local_filter_def arp_echo_def rdn_def)
  then show ?thesis
    using assms f by (simp add: dataplane_process_local_def arp_echo_def arp_bridge_from_local_def Let_def)
qed

text \<open>Filtered ARP packets leak their frames. Such an echo comes back whenever two LAN ports reach the same switch. The
  bridge takes it (its result is \<open>0\<close>, so the caller does not free the frame) and puts it nowhere: after any number of
  echoes the state is what it was, no pool, ring or buffer owns the frames of the echoes, and a frame that nobody owned
  while the worker handled its packet is owned by nobody afterwards. The pool runs dry by one frame for each echo. (The
  same happens to packets with the address of the appliance and to replies from a wrong port.)\<close>

lemma arp_echo_leaks:
  assumes "\<forall>job \<in> set jobs. arp_echo env s job"
  shows "\<exists>s'. process_locals env jobs s = Some s' \<and> dp_frames s' = dp_frames s
    \<and> pool_contents (pr_pool (fw_pair (dp_fwd s'))) = pool_contents (pr_pool (fw_pair (dp_fwd s)))"
proof -
  have "process_locals env jobs s = Some s"
    using assms by (induction jobs) (simp_all add: echo_lost)
  then show ?thesis by blast
qed

definition arp_frame :: "buf \<Rightarrow> buf \<Rightarrow> buf \<Rightarrow> buf \<Rightarrow> u8 \<Rightarrow> buf" where
  "arp_frame dmac smac spa tpa opcode = dmac @ smac @ [8, 6] @ [0, 1, 8, 0, 6, 4, 0, opcode] @ smac @ spa @ [0, 0, 0, 0, 0, 0] @ tpa @ replicate 2006 0"

definition with_frame :: "buf \<Rightarrow> forwarder \<Rightarrow> forwarder" where
  "with_frame b fwd = fwd\<lparr>fw_pair := (fw_pair fwd)\<lparr>pr_frames := (\<lambda>_. b)\<rparr>\<rparr>"

abbreviation example_arp :: buf where
  "example_arp \<equiv> arp_frame (mac_example 1) (mac_example 9) [10, 0, 0, 9] [10, 0, 0, 1] 1"

lemma example_arp_bytes:
  "length example_arp = NE_FRAME" "dp_pkt_is_arp example_arp 60 = Some True" "slice example_arp 6 6 = mac_example 9" "slice example_arp 0 6 = mac_example 1"
  "dp_parse_arp_ips example_arp 60 = Some (Some (0x0900000A, 0x0100000A))" "et_at example_arp 12 = 0x0806"
  by (simp_all add: arp_frame_def mac_example_def NE_FRAME_def dp_pkt_is_arp_def et_at_def be16_def slice_def dp_parse_arp_ips_def
      arp_payload_offset_def rdn_def le32_of_def be32_def)

definition relay_example :: "(bool \<times> buf \<times> buf) dataplane" where
  "relay_example = (worker_example (with_frame example_arp fwd_example))\<lparr>dp_relay := mac_relay_stamp 0 (mac_example 9) 0x0900000A mac_relay_init\<rparr>"

section \<open>Frames that are freed twice\<close>

lemma push_local_full:
  assumes "\<And>p. ne_ring_try_push (fw_mid_to_local (dp_fwd s) li (dp_out_ring_idx s)) p = None"
  shows "\<exists>s'. push_local li job s = (False, s')"
  by (simp add: push_local_def dp_ring_push_def assms Let_def)

text \<open>C37: a refused ARP packet is freed twice. When a WAN brings an unencrypted ARP packet for a known station, and the
  transmit rings of its LAN port are full, \<open>dp_ring_push\<close> frees the frame, the bridge returns \<open>-1\<close>, and the caller
  frees the frame again: afterwards the pool and the rings together own the frame once more than a frame can be owned,
  so two later packets share one buffer. (The result of the push is passed on in the same way for packets from the LAN.)\<close>

theorem arp_refusal_frees_twice:
  assumes "worker_ok 2 s" and "14 \<le> pk_len job" and "pk_len job \<le> NE_FRAME" and "b = ne_packet_data s (pk_addr job)"
    and "wan_pkt_is_arp b (pk_len job) = Some True" and "crypto_pkt_is_arp b (pk_len job) = Some True"
    and "arp_eth_dmac_is_broadcast b (pk_len job) = Some False"
    and "0 \<le> ingress_dp job s" and "0 \<le> pi" and "profile_pi_for_wan_dp (dp_fwd s) (ingress_dp job s) = pi"
    and "mac_lookup (dp_fwd s) (slice b 0 MAC_LEN) = Some li" and "0 \<le> li" and "arp_profile_owns_local (dp_fwd s) pi li"
    and full: "\<And>ri p. ne_ring_try_push (fw_mid_to_local (dp_fwd s) (nat li) ri) p = None"
  shows "\<exists>s'. dataplane_process_wan env job s = Some s' \<and> dp_frames s' = {#pk_addr job, pk_addr job#} + dp_frames s"
proof -
  let ?n = "pk_len job"
  have len: "length b = NE_FRAME" using assms(1,4) by (simp add: worker_ok_def)
  obtain t where t: "wan_l2_is_frag b ?n = Some t" using udp_tagged_total [of ?n b] len assms(3) by (auto simp: mem_ok_def wan_l2_is_frag_def)
  have w: "\<exists>wire. rdn b 0 (if t then min ?n 64 else ?n) = Some wire" using len assms(3) by (auto simp: rdn_def)
  obtain s1 where s1: "bind_packet_slot job s = Some s1" "worker_ok 2 s1" "dp_frames s1 = dp_frames s" "dp_reorder s1 = dp_reorder s"
    using bind_slot_safe(2) [OF assms(1,3)] by (auto simp: mem_ok_def)
  have f1: "dp_fwd s1 = dp_fwd s" using s1(1) by (auto simp: bind_packet_slot_def split: bind_splits)
  have b1: "ne_packet_data s1 (pk_addr job) = b" "ingress_dp job s1 = ingress_dp job s" using f1 assms(4) by (simp_all add: ne_packet_data_def ingress_dp_def)
  obtain ips where ips: "dp_parse_arp_ips b ?n = Some ips" using packet_parsers_total [of ?n b] len assms(3) by auto
  define s2 where "s2 = (case ips of None \<Rightarrow> s1 | Some (spa, tpa) \<Rightarrow>
    s1\<lparr>dp_relay := mac_relay_stamp (de_now_ms env) (slice b MAC_LEN MAC_LEN) spa (dp_relay s1)\<rparr>)"
  have ok2: "dp_ok 2 s2" "dp_frames s2 = dp_frames s" "dp_fwd s2 = dp_fwd s"
    using s1(2,3) f1 by (auto simp: s2_def worker_ok_def split: option.split)
  let ?job = "job\<lparr>pk_dir := NE_DIR_LOCAL, pk_local_idx := of_int li\<rparr>"
  obtain s3 where s3: "push_local (nat li) ?job s2 = (False, s3)" using push_local_full [of s2 "nat li" ?job] full ok2(3) by auto
  have li: "nat li < MAX_INTERFACES" using assms(1,13) by (auto simp: arp_profile_owns_local_def worker_ok_def Let_def)
  have ok2': "dp_ok (Suc 1) s2" using ok2(1) by (simp add: numeral_2_eq_2)
  note o3 = push_local_owned [OF ok2' li s3]
  have r: "rdn b MAC_LEN MAC_LEN = Some (slice b MAC_LEN MAC_LEN)" "rdn b 0 MAC_LEN = Some (slice b 0 MAC_LEN)"
    using len by (simp_all add: rdn_def NE_FRAME_def MAC_LEN_def)
  have dec: "arp_try_decrypt_l2_pqc env job s1 = Some (0, job, s1)"
    by (simp add: arp_try_decrypt_l2_pqc_def b1 assms(6) Let_def)
  have "arp_bridge_from_wan env job (ingress_dp job s1) s1 = Some (-1, s3)"
    unfolding arp_bridge_from_wan_def b1 assms(6) Option.bind.simps ips dec Let_def prod.case f1 assms(10) r assms(7,11)
    using assms(2,9,12,13) s3 [unfolded s2_def] ips by (simp add: ARP_ETH_HDR_LEN_def)
  then have "dataplane_process_wan env job s = Some (drop_wan job s3)"
    using assms(2,3,4,5,8) t w s1(1) b1(2) by (auto simp: dataplane_process_wan_def Let_def)
  moreover have "dp_frames (drop_wan job s3) = {#pk_addr job, pk_addr job#} + dp_frames s"
    using free_frame_owned(1) [of 0 s3 "pk_addr job"] o3 ok2(2) by (simp add: drop_wan_def)
  ultimately show ?thesis by blast
qed

text \<open>The example: one station is known on the first port, whose rings have room for one packet and hold one.\<close>

definition full_ring :: ne_ring where
  "full_ring = \<lparr>r_buf = [ne_packet_zero], r_cap = 1, r_mask = 0, r_head = 1, r_tail = 0, r_mpsc_pop = False\<rparr>"

definition table_example :: mac_learn_table where
  "table_example = hash_rebuild_locked (table_init\<lparr>mt_list := [\<lparr>me_mac = mac_example 1, me_ifname = ''lan0''\<rparr>]\<rparr>)"

definition full_example :: forwarder where
  "full_example = fwd_example\<lparr>fw_local_ifnames := [''lan0'', ''lan1''] @ replicate 14 [],
     fw_mid_to_local := (\<lambda>i w. if i = 0 then full_ring else ring_example), fw_mac_table := table_example,
     fw_pair := pair_example\<lparr>pr_frames := (\<lambda>_. example_arp),
       pr_pool := \<lparr>q_buf = replicate 16 0, q_cap = 16, q_mask = 15, q_head = 0, q_tail = 0\<rparr>\<rparr>\<rparr>"

lemma full_ring_frames: "ring_ok full_ring" "ring_frames full_ring = {#0#}" "ne_ring_try_push full_ring p = None"
  by (auto simp: full_ring_def ring_ok_def ring_frames_def ring_contents_def circ_def ne_ring_try_push_def ne_packet_zero_def intro!: exI [of _ 0])

lemma table_example_ok: "table_ok table_example" "mac_fdb table_example (mac_example 1) = Some ''lan0''"
proof -
  have n: "port_name ''lan0''" by (simp add: port_name_def IF_NAMESIZE_def)
  show "table_ok table_example"
    using n unfolding table_example_def by (intro table_ok_rebuilt) (simp_all add: MAC_LEARN_MAX_ENTRIES_def entry_ok_def)
  show "mac_fdb table_example (mac_example 1) = Some ''lan0''" by (simp add: mac_fdb_def table_example_def)
qed

lemma full_example_frames: "dp_frames (worker_example full_example) = replicate_mset 6 0"
proof -
  have "(\<Sum>w<NE_CRYPTO_WORKERS. ring_frames (if i = 0 then full_ring else ring_example)) = (if i = 0 then replicate_mset 6 0 else {#})" for i :: nat
    by (simp add: full_ring_frames NE_CRYPTO_WORKERS_def numeral_eq_Suc)
  then have "grid_frames (\<lambda>i w. if i = 0 then full_ring else ring_example) = replicate_mset 6 0"
    by (simp add: grid_frames_def MAX_INTERFACES_def)
  then show ?thesis
    by (simp add: dp_frames_def fwd_frames_def worker_example_def full_example_def pool_contents_def circ_def pair_example_def)
      (simp add: grid_frames_def fwd_example_def)
qed

lemma full_example_ok: "worker_ok 2 (worker_example full_example)"
proof -
  have p: "pool_ok \<lparr>q_buf = replicate 16 0, q_cap = 16, q_mask = 15, q_head = 0, q_tail = 0\<rparr>"
    by (auto simp: pool_ok_def intro!: exI [of _ 4])
  have "dp_ok 2 (worker_example full_example)" unfolding dp_ok_def full_example_frames
    using p full_ring_frames(1)
    by (simp add: fwd_ok_def worker_example_def full_example_def dp_out_ring_idx_def route_init_def NE_CRYPTO_WORKERS_def fwd_example_def)
  moreover have "route_ok route_init" using route.reachable_inv [of "[]"] by simp
  ultimately show ?thesis
    using example_arp_bytes(1) table_example_ok(1)
    by (simp add: worker_ok_def worker_example_def ne_packet_data_def full_example_def MAX_INTERFACES_def reorder_init_inv
        held_fit_def tables_wf_def example_l2_def fwd_example_def)
qed

theorem arp_refusal_frees_twice_witness:
  "\<exists>s'. dataplane_process_wan env_example (ne_packet_zero\<lparr>pk_addr := 2048, pk_len := 60\<rparr>) (worker_example full_example) = Some s'
    \<and> dp_frames s' = {#2048, 2048#} + replicate_mset 6 0"
proof -
  let ?job = "ne_packet_zero\<lparr>pk_addr := 2048, pk_len := 60\<rparr>" and ?s = "worker_example full_example"
  have b: "ne_packet_data ?s a = example_arp" for a by (simp add: ne_packet_data_def worker_example_def full_example_def)
  have fwd: "dp_fwd ?s = full_example" by (simp add: worker_example_def)
  have len: "60 \<le> length example_arp" using example_arp_bytes(1) by (simp add: NE_FRAME_def)
  have 4: "wan_pkt_is_arp example_arp (pk_len ?job) = Some True"
    using example_arp_bytes(2) has_marker_total(2) [OF len] by (auto simp: wan_pkt_is_arp_def)
  have 5: "crypto_pkt_is_arp example_arp (pk_len ?job) = Some True"
    using example_arp_bytes(1,6) by (simp add: crypto_pkt_is_arp_def crypto_eth_arp_offset_def NE_FRAME_def ethertype_defs)
  have 6: "arp_eth_dmac_is_broadcast example_arp (pk_len ?job) = Some False"
  proof -
    have "mac_example 1 ! 0 \<noteq> replicate 6 0xFF ! 0" by (simp add: mac_example_def)
    then have "mac_example 1 \<noteq> replicate 6 0xFF" by metis
    then show ?thesis using example_arp_bytes(1,4) by (simp add: arp_eth_dmac_is_broadcast_def rdn_def NE_FRAME_def MAC_LEN_def ARP_ETH_HDR_LEN_def)
  qed
  have 7: "ingress_dp ?job ?s = 0"
    unfolding ingress_dp_def fwd by (simp add: full_example_def fwd_example_def ne_packet_zero_def)
  have 8: "profile_pi_for_wan_dp (dp_fwd ?s) (ingress_dp ?job ?s) = 0"
    unfolding 7 fwd by code_simp
  have 9: "mac_lookup (dp_fwd ?s) (slice example_arp 0 MAC_LEN) = Some 0"
    unfolding fwd using table_example_ok example_arp_bytes(4)
    by (simp add: mac_lookup_def full_example_def table_lookup_correct MAC_LEN_def ingress_idx_by_ifname_def fwd_example_def
        ne_pair_local_live_def pair_example_def MAX_INTERFACES_def upt_conv_Cons)
  have 10: "arp_profile_owns_local (dp_fwd ?s) 0 0"
    unfolding fwd by (simp add: arp_profile_owns_local_def full_example_def fwd_example_def cfg_example_def profile_example_def ne_pair_local_live_def
        pair_example_def MAX_INTERFACES_def)
  have 11: "ne_ring_try_push (fw_mid_to_local (dp_fwd ?s) (nat 0) ri) p = None" for ri p
    unfolding fwd by (simp add: full_example_def full_ring_frames(3))
  show ?thesis
    using arp_refusal_frees_twice [OF full_example_ok _ _ b [symmetric] 4 5 6 _ _ 8 9 _ 10 11, of env_example] 7
    by (simp add: NE_FRAME_def full_example_frames)
qed

section \<open>Packets that are not authentic\<close>

lemma untagged_no_fragment:
  assumes "n \<le> length b" "wan_l2_is_udp_tagged b n = Some False"
  shows "wan_is_fragment env b n s = Some False"
proof -
  have "l2_udp_is_fragment cfg b n = Some False" for cfg
    using assms(1)
  proof (cases rule: inner_et_off_total)
    case 1
    then show ?thesis by (simp add: l2_udp_is_fragment_def crypto_eth_l2_has_marker_def)
  next
    case (2 et)
    then have e: "et + 1 < length b" "n \<ge> et + 2" using assms(1) by simp_all
    have c: "slice b (et + 16) 4 = slice b (16 + et) 4" by (simp add: add.commute)
    show ?thesis
      using 2(1) e assms c
      by (auto simp: l2_udp_is_fragment_def crypto_eth_l2_has_marker_def l2_frag_magic_off_def l2_offsets_total wan_l2_is_udp_tagged_def
          crypto_eth_l2_frag_magic_off_def crypto_eth_l2_core_id_off_def crypto_eth_l2_policy_off_def PACKET_CRYPTO_NONCE_BYTES_def
          l2_udp_marker_match_def L2_UDP_MARKER_SIZE_def L2_UDP_SHIM_SIZE_def AES_GCM_TAG_SIZE_def WAN_L2_UDP_MARKER_LEN_def
          WAN_L2_UDP_SHIM_LEN_def WAN_L2_GCM_TAG_LEN_def rdn_def wan_l2_udp_marker_def l2_udp_marker_def split: if_splits)
  qed
  then show ?thesis by (simp add: wan_is_fragment_def crypto_option_is_fragment_def crypto_option_ops_def crypto_opt_l2_pqc_udp_ops_def)
qed

lemma tagged_cong:
  assumes "take n b' = take n b" "n \<le> length b" "n \<le> length b'"
  shows "wan_l2_is_udp_tagged b' n = wan_l2_is_udp_tagged b n"
proof -
  have r: "eth_read_et b' off = eth_read_et b off" if "off + 1 < n" for off
    using that assms et_at_take [OF assms(1) that] by simp
  have i: "crypto_eth_inner_et_off b' n = crypto_eth_inner_et_off b n"
    by (simp add: crypto_eth_inner_et_off_def r split: if_split cong: if_cong)
  have d: "rdn b' off 4 = rdn b off 4" if "off + 4 \<le> n" for off
    using that assms slice_take [of off 4 n b] slice_take [of off 4 n b'] by (simp add: rdn_def)
  show ?thesis
    using assms(2)
  proof (cases rule: inner_et_off_total)
    case 1
    then show ?thesis by (simp add: wan_l2_is_udp_tagged_def crypto_eth_l2_has_marker_def i)
  next
    case (2 et)
    have "eth_read_et b' et = eth_read_et b et" using 2 by (intro r) simp
    then show ?thesis
      using 2(1) d [of "16 + et"]
      by (simp add: wan_l2_is_udp_tagged_def crypto_eth_l2_has_marker_def i crypto_eth_l2_frag_magic_off_def crypto_eth_l2_core_id_off_def
          crypto_eth_l2_policy_off_def PACKET_CRYPTO_NONCE_BYTES_def WAN_L2_UDP_MARKER_LEN_def WAN_L2_UDP_SHIM_LEN_def WAN_L2_GCM_TAG_LEN_def
          cong: if_cong)
  qed
qed

text \<open>C34: after a reload the receiver accepts packets that no key authenticates. A marked packet other than UDP with a wire
  id of the running configuration is rejected when its decryption fails. With a wire id that only the old configuration
  has, which stays valid for the three seconds of grace, \<open>decrypt_wan\<close> reports success for the same packet and hands on
  its bytes as they came, and the profile of the old id is found for it; when the profile admits any traffic, nothing
  else is checked before delivery. (The test whether the packet is encrypted looks at the ids of the running
  configuration only.)\<close>

theorem grace_accepts_unauthentic:
  assumes b: "b = ne_packet_data s (pk_addr job)" "length b = NE_FRAME" "pk_len job \<le> NE_FRAME"
    and marked: "crypto_eth_l2_has_marker b (pk_len job) = Some True" "crypto_eth_l2_read_policy_id b (pk_len job) = Some (Some w)"
    and untagged: "wan_l2_is_udp_tagged b (pk_len job) = Some False"
    and ctx: "fwd_crypto_ctx_for_wire_id (de_now_ms env) (dp_crypto_current_worker_idx s) w (dp_rt s) (dp_tls s) = (Some ctx, rt, tls)"
    and fails: "crypto_option_decrypt (de_lib env) (de_os env) CRYPTO_OPT_L2_PQC CRYPTO_PROTO_TCP ctx (dp_opt s) b (pk_len job)
      = Some (rc, k, b', opt)" "rc \<noteq> 0" "length b' = length b"
  shows "\<exists>s'. decrypt_wan env job s = Some (if rt_index_by_wire_id (dp_rt s) w \<ge> 0 then -1 else 0, job, s')
      \<and> take (pk_len job) (ne_packet_data s' (pk_addr job)) = take (pk_len job) b"
proof -
  let ?n = "pk_len job" and ?known = "rt_index_by_wire_id (dp_rt s) w \<ge> 0" and ?s = "s\<lparr>dp_rt := rt, dp_tls := tls, dp_opt := opt\<rparr>"
  have n: "?n \<le> length b" "?n \<le> length b'" using b fails(3) by simp_all
  let ?b = "patch b' 0 (slice b 0 ?n)"
  have nf: "wan_is_fragment env b ?n s' = Some False" for s' by (rule untagged_no_fragment [OF n(1) untagged])
  have tk: "take ?n ?b = take ?n b" using n by (simp add: patch_def slice_def)
  have l: "length ?b = length b" using n fails(3) by simp
  have nf': "wan_is_fragment env ?b ?n s' = Some False" for s'
    by (rule untagged_no_fragment) (use n l untagged tagged_cong [OF tk n(1)] in simp_all)
  have r: "rdn b 0 ?n = Some (slice b 0 ?n)" using n by (simp add: rdn_def)
  have w: "wrn b' 0 (slice b 0 ?n) = Some ?b" using n by (simp add: wrn_def)
  have known: "fwd_crypto_has_l2_marker (rt_index_by_wire_id (dp_rt s)) b ?n = Some ?known"
    by (simp add: fwd_crypto_has_l2_marker_def marked)
  have "decrypt_l2 env b ?n s = Some (-1, ?n, ?b, ?s)"
    unfolding decrypt_l2_def marked Option.bind.simps if_True option.case ctx prod.case Let_def r
    using b(3) fails(2) by (simp add: fails(1) w)
  then have slow: "decrypt_wan_slow env ?known b ?n s = Some (if ?known then -1 else 0, ?n, False, ?b, ?s)"
    by (simp add: decrypt_wan_slow_def untagged nf nf')
  have fast: "wan_try_l2_pqc_udp env b ?n s = Some (0, ?n, False, b, s)" by (simp add: wan_try_l2_pqc_udp_def untagged)
  have "decrypt_wan env job s = Some (if ?known then -1 else 0, job, put_frame (pk_addr job) ?b ?s)"
    using marked known slow fast by (auto simp: decrypt_wan_def Let_def b(1) [symmetric] wan_wire_is_encrypted_def untagged)
  then show ?thesis using tk by auto
qed

definition marked_example :: buf where
  "marked_example = replicate 12 1 @ [0x10, 0x4A, 9] @ replicate 2033 0"

definition grace_example :: "(bool \<times> buf \<times> buf) dataplane" where
  "grace_example = (worker_example (with_frame marked_example fwd_example))\<lparr>dp_rt := demo_rt
     \<lparr>rt_prev_ctx := (replicate 128 zero_ctx)[0 := zero_ctx\<lparr>ctx_initialized := True\<rparr>], rt_prev_ready := (replicate 128 False)[0 := True],
      rt_prev_index_by_wire_id := (\<lambda>_. -1)(9 := 0), rt_prev_count := 1, rt_prev_grace_active := True, rt_prev_grace_until_ms := 3000\<rparr>\<rparr>"

theorem grace_accepts_unauthentic_witness:
  "\<exists>s'. decrypt_wan env_example (ne_packet_zero\<lparr>pk_addr := 2048, pk_len := 60\<rparr>) grace_example
      = Some (0, ne_packet_zero\<lparr>pk_addr := 2048, pk_len := 60\<rparr>, s')
    \<and> take 60 (ne_packet_data s' 2048) = take 60 marked_example"
proof -
  let ?job = "ne_packet_zero\<lparr>pk_addr := 2048, pk_len := 60\<rparr>" and ?s = grace_example and ?ctx = "zero_ctx\<lparr>ctx_initialized := True\<rparr>"
  have 1: "marked_example = ne_packet_data ?s (pk_addr ?job)"
    by (simp add: ne_packet_data_def grace_example_def worker_example_def with_frame_def)
  have 2: "length marked_example = NE_FRAME" "pk_len ?job \<le> NE_FRAME" by (simp_all add: marked_example_def NE_FRAME_def)
  have i: "crypto_eth_inner_et_off marked_example 60 = Some (Some 12)" "et_at marked_example 12 = 0x104A"
    by (simp_all add: crypto_eth_inner_et_off_def marked_example_def et_at_def be16_def eth_inner_hit_def eth_match_et_def ethertype_defs nth_append)
  have l: "length marked_example = 2048" using 2(1) by (simp add: NE_FRAME_def)
  have m: "crypto_eth_l2_has_marker marked_example (pk_len ?job) = Some True"
    using i l by (simp add: crypto_eth_l2_has_marker_def ethertype_defs)
  have w: "crypto_eth_l2_read_policy_id marked_example (pk_len ?job) = Some (Some 9)"
    using i l by (simp add: crypto_eth_l2_read_policy_id_def crypto_eth_l2_policy_off_def rd8_def) (simp add: marked_example_def nth_append)
  have t: "wan_l2_is_udp_tagged marked_example (pk_len ?job) = Some False"
    using m i by (simp add: wan_l2_is_udp_tagged_def crypto_eth_l2_frag_magic_off_def crypto_eth_l2_core_id_off_def crypto_eth_l2_policy_off_def
        PACKET_CRYPTO_NONCE_BYTES_def WAN_L2_UDP_MARKER_LEN_def WAN_L2_UDP_SHIM_LEN_def WAN_L2_GCM_TAG_LEN_def)
  have c: "fwd_crypto_ctx_for_wire_id (de_now_ms env_example) (dp_crypto_current_worker_idx ?s) 9 (dp_rt ?s) (dp_tls ?s)
      = (Some ?ctx, dp_rt ?s, dp_tls ?s)"
    by (simp add: fwd_crypto_ctx_for_wire_id_def Let_def fwd_crypto_maybe_expire_prev_grace_def grace_example_def worker_example_def demo_rt_def
        de_now_ms_def env_example_def example_env_def lookup_hit_def policy_crypto_ctx_for_worker_def valid_worker_def
        dp_crypto_current_worker_idx_def route_init_def)
  have z: "crypto_pqc_sess_load ?ctx = None"
    by (simp add: crypto_pqc_sess_load_def packet_crypto_get_key_def zero_ctx_def crypto_pqc_key_is_all_zero_def list_all_iff)
  have d: "crypto_option_decrypt (de_lib env_example) (de_os env_example) CRYPTO_OPT_L2_PQC CRYPTO_PROTO_TCP ?ctx (dp_opt ?s) marked_example (pk_len ?job)
      = Some (-1, 60, marked_example, dp_opt ?s)"
    using m i by (simp add: router_decrypt l2_tcp_decrypt_def l2_do_decrypt_def l2_offsets_total z len_result_def)
  have k: "rt_index_by_wire_id (dp_rt ?s) 9 = -1" by (simp add: grace_example_def demo_rt_def)
  show ?thesis
    using grace_accepts_unauthentic [OF 1 2 m w t c d] k by simp
qed

end
