(* ===== verification/Bpf_Filter.thy ===== *)
theory Bpf_Filter
  imports L2_Option
begin

text \<open>
  The two XDP programs, \<open>bpf/lan.c\<close> and \<open>bpf/wan.c\<close>, which decide in the driver what happens to a received frame: it goes
  to the socket of its receive queue, to the network stack of the kernel, or nowhere. \<open>data\<close> and \<open>data_end\<close> of the
  context are the frame as a list; the verifier of the kernel accepts the programs only if no access leaves it. The helper
  \<open>bpf_redirect_map\<close> answers, as \<open>bpf_helper_defs.h\<close> documents, \<open>XDP_REDIRECT\<close> for a key that the map has, and the low bits
  of its flags, which are zero (\<open>XDP_ABORTED\<close>), otherwise. \<open>update_wan_fake_ethertype\<close> of
  \<open>core/iface/profile_xdp.c\<close> writes the map of the WAN program.
\<close>

section \<open>Definitions\<close>

datatype xdp_action = XDP_ABORTED | XDP_DROP | XDP_PASS | XDP_REDIRECT u32

record xdp_md =
  xdp_data :: buf
  rx_queue_index :: u32

type_synonym xskmap = "u32 \<Rightarrow> u32 option"

definition bpf_redirect_map :: "xskmap \<Rightarrow> u32 \<Rightarrow> xdp_action" where
  "bpf_redirect_map m key = (case m key of None \<Rightarrow> XDP_ABORTED | Some fd \<Rightarrow> XDP_REDIRECT fd)"

definition PATH_MTU :: nat where "PATH_MTU = 1500"
definition ETH_FRAME_MAX :: nat where "ETH_FRAME_MAX = 14 + PATH_MTU"
definition ETH_VLAN_FRAME_MAX :: nat where "ETH_VLAN_FRAME_MAX = 18 + PATH_MTU"
definition ETH_P_CFM :: u16 where "ETH_P_CFM = 0x8902"

lemmas frame_max_defs = PATH_MTU_def ETH_FRAME_MAX_def ETH_VLAN_FRAME_MAX_def

definition xdp_redirect_prog :: "xskmap \<Rightarrow> xdp_md \<Rightarrow> xdp_action mem" where
  "xdp_redirect_prog xsks_map ctx =
     (let data = xdp_data ctx; pkt_len = length data; redirect = Some (bpf_redirect_map xsks_map (rx_queue_index ctx)) in
      if 14 > pkt_len then Some XDP_PASS
      else do {
        h_proto \<leftarrow> eth_read_et data 12;
        if h_proto = ETH_P_8021Q \<and> pkt_len > ETH_VLAN_FRAME_MAX then Some XDP_DROP
        else if h_proto \<noteq> ETH_P_8021Q \<and> pkt_len > ETH_FRAME_MAX then Some XDP_DROP
        else if h_proto = ETH_P_ARP then redirect
        else if h_proto = ETH_P_IP then
          if 14 + 20 > pkt_len then Some XDP_PASS else redirect
        else Some XDP_PASS })"

definition IPPROTO_OSPF_VAL :: u8 where "IPPROTO_OSPF_VAL = 89"

definition config_hit :: "u16 option \<Rightarrow> u16 \<Rightarrow> bool" where
  "config_hit fake proto = (case fake of None \<Rightarrow> False | Some et \<Rightarrow> et \<noteq> 0 \<and> proto = et)"

definition xdp_wan_redirect_prog :: "xskmap \<Rightarrow> (nat \<Rightarrow> u16 option) \<Rightarrow> xdp_md \<Rightarrow> xdp_action mem" where
  "xdp_wan_redirect_prog wan_xsks_map wan_config_map ctx =
     (let data = xdp_data ctx; pkt_len = length data; redirect = Some (bpf_redirect_map wan_xsks_map (rx_queue_index ctx)) in
      if 14 > pkt_len then Some XDP_PASS
      else do {
        proto \<leftarrow> eth_read_et data 12;
        if proto = ETH_P_CFM then Some XDP_PASS
        else if proto = ETH_P_ARP then redirect
        else if proto = NE_L2_FAKE_ETHERTYPE_ARP then redirect
        else if proto = NE_L2_FAKE_ETHERTYPE_UDP then redirect
        else if proto = ETH_P_IP then
          if 14 + 20 > pkt_len then Some XDP_PASS
          else do {
            protocol \<leftarrow> rd8 data (14 + 9);
            if protocol \<in> {IPPROTO_ICMP, IPPROTO_TCP, IPPROTO_UDP, IPPROTO_OSPF_VAL} then redirect else Some XDP_PASS }
        else if config_hit (wan_config_map 0) proto then redirect
        else if config_hit (wan_config_map 1) proto then redirect
        else Some XDP_PASS })"

text \<open>An array map of two entries is zero at first; the update writes both entries, whatever the configuration says.\<close>

definition wan_config_init :: "nat \<Rightarrow> u16 option" where
  "wan_config_init key = (if key < 2 then Some 0 else None)"

definition update_wan_fake_ethertype :: "u16 \<Rightarrow> (nat \<Rightarrow> u16 option) \<Rightarrow> (nat \<Rightarrow> u16 option)" where
  "update_wan_fake_ethertype fake_ethertype_ipv4 m = m(0 \<mapsto> NE_L2_FAKE_ETHERTYPE, 1 \<mapsto> NE_L2_FAKE_ETHERTYPE_UDP)"

section \<open>What the programs do\<close>

lemma bpf_read_et_ok: "off + 2 \<le> length b \<Longrightarrow> eth_read_et b off = Some (et_at b off)"
  by (simp add: eth_read_et_def et_at_def)

text \<open>The LAN program returns for every frame, and what it hands to the socket of a queue is an untagged ARP or IPv4 frame
  of at most 1514 bytes.\<close>

lemma lan_total: "\<exists>a. xdp_redirect_prog m ctx = Some a"
  by (auto simp: xdp_redirect_prog_def Let_def bpf_read_et_ok)

lemma lan_redirected:
  assumes "xdp_redirect_prog m ctx = Some (XDP_REDIRECT fd)"
  shows "14 \<le> length (xdp_data ctx)" "length (xdp_data ctx) \<le> ETH_FRAME_MAX" "m (rx_queue_index ctx) = Some fd"
    and "et_at (xdp_data ctx) 12 = ETH_P_ARP \<or> et_at (xdp_data ctx) 12 = ETH_P_IP \<and> 34 \<le> length (xdp_data ctx)"
proof -
  have len: "14 \<le> length (xdp_data ctx)" using assms by (auto simp: xdp_redirect_prog_def Let_def split: if_splits)
  then have r: "eth_read_et (xdp_data ctx) 12 = Some (et_at (xdp_data ctx) 12)" by (simp add: bpf_read_et_ok)
  show "14 \<le> length (xdp_data ctx)" by (rule len)
  show "length (xdp_data ctx) \<le> ETH_FRAME_MAX" "m (rx_queue_index ctx) = Some fd"
    "et_at (xdp_data ctx) 12 = ETH_P_ARP \<or> et_at (xdp_data ctx) 12 = ETH_P_IP \<and> 34 \<le> length (xdp_data ctx)"
    using assms len by (auto simp: xdp_redirect_prog_def Let_def r bpf_redirect_map_def ethertype_defs split: if_splits option.splits)
qed

text \<open>The WAN program returns for every frame, and with the map that is written at start-up it takes all three kinds of
  encrypted frames and leaves the frames of the link monitor to the kernel.\<close>

lemma wan_total: "\<exists>a. xdp_wan_redirect_prog m cm ctx = Some a"
  by (auto simp: xdp_wan_redirect_prog_def Let_def bpf_read_et_ok)

lemma wan_takes_encrypted:
  assumes "14 \<le> length (xdp_data ctx)"
    and "et_at (xdp_data ctx) 12 \<in> {NE_L2_FAKE_ETHERTYPE, NE_L2_FAKE_ETHERTYPE_UDP, NE_L2_FAKE_ETHERTYPE_ARP}"
  shows "xdp_wan_redirect_prog m (update_wan_fake_ethertype fake wan_config_init) ctx = Some (bpf_redirect_map m (rx_queue_index ctx))"
  using assms by (auto simp: xdp_wan_redirect_prog_def Let_def bpf_read_et_ok config_hit_def update_wan_fake_ethertype_def ETH_P_CFM_def
      ethertype_defs)

lemma wan_passes_cfm:
  assumes "14 \<le> length (xdp_data ctx)" "et_at (xdp_data ctx) 12 = ETH_P_CFM"
  shows "xdp_wan_redirect_prog m cm ctx = Some XDP_PASS"
  using assms by (simp add: xdp_wan_redirect_prog_def Let_def bpf_read_et_ok)

end
