(* ===== verification/Egress_Crypto.thy ===== *)
theory Egress_Crypto
  imports Ingress_Safety
begin

text \<open>
  The sending side of the layer-2 option for packets with room for it: encryption and split stay inside their frames,
  and a frame they report as ready has been sealed by the cipher library under the current key of the policy, with the
  nonce that its header carries.
\<close>

section \<open>Sealing\<close>

text \<open>What is assumed of the library beside \<open>lib_bounded\<close>: a tag that is delivered has 16 bytes, random bytes as many as were
  asked for.\<close>

definition tag_delivered :: "('c, 'l) scrypt_lib_scheme \<Rightarrow> bool" where
  "tag_delivered lib \<longleftrightarrow> (\<forall>c. case scrypt_CipherGetTag lib c of (r, tag, _) \<Rightarrow> r = 0 \<longrightarrow> TAG_SIZE_GCM \<le> length tag)"

definition random_delivered :: "('c, 'l) scrypt_lib_scheme \<Rightarrow> bool" where
  "random_delivered lib \<longleftrightarrow> (case scrypt_RandomBytes lib 8 of (r, bs) \<Rightarrow> r = 0 \<longrightarrow> length bs = 8)"

definition sealed_at :: "('c, 'l) scrypt_lib_scheme \<Rightarrow> buf \<Rightarrow> buf \<Rightarrow> buf \<Rightarrow> nat \<Rightarrow> nat \<Rightarrow> bool" where
  "sealed_at lib key nonce b off n \<longleftrightarrow> (\<exists>c p ct tag. p \<noteq> [] \<and> gcm_sealed lib c key nonce p ct tag \<and> n = length ct + 16
     \<and> slice b off n = ct @ take 16 tag)"

lemma seal_bytes:
  assumes "length out + length fin \<le> len" "off + len + 16 \<le> length b" "length tag = 16"
  shows "length (patch (patch (patch b off out) (off + length out) fin) (off + length out + length fin) tag) = length b"
    "take off (patch (patch (patch b off out) (off + length out) fin) (off + length out + length fin) tag) = take off b"
    "slice (patch (patch (patch b off out) (off + length out) fin) (off + length out + length fin) tag) off (length out + length fin + 16)
      = (out @ fin) @ tag"
proof -
  let ?b = "patch b off ((out @ fin) @ tag)"
  have eq: "patch (patch (patch b off out) (off + length out) fin) (off + length out + length fin) tag = ?b"
    using patch_append [of off out fin b] patch_append [of off "out @ fin" tag b] assms by (simp add: add.assoc)
  show "length (patch (patch (patch b off out) (off + length out) fin) (off + length out + length fin) tag) = length b"
    using assms by (simp add: eq)
  show "take off (patch (patch (patch b off out) (off + length out) fin) (off + length out + length fin) tag) = take off b"
    using assms by (simp add: eq) (simp add: patch_def)
  show "slice (patch (patch (patch b off out) (off + length out) fin) (off + length out + length fin) tag) off (length out + length fin + 16)
      = (out @ fin) @ tag"
    using assms slice_patch_same [of off "(out @ fin) @ tag" b "length out + length fin + 16"] by (simp add: eq)
qed

lemma trf_encrypt_safe:
  assumes lib: "lib_bounded lib" "tag_delivered lib" and room: "off + len + 16 \<le> length b"
  shows "mem_ok (\<lambda>(rc, n, b', c'). length b' = length b \<and> take off b' = take off b
      \<and> (rc = TRF_PQC_OK \<longrightarrow> n \<le> len + 16 \<and> sealed_at lib key nonce b' off n))
    (trf_encrypt_payload_gcm lib ready c key nonce b off len)"
proof (cases "\<not> ready \<or> len = 0")
  case True
  then show ?thesis by (auto simp: trf_encrypt_payload_gcm_def TRF_PQC_ERR_CRYPTO_def TRF_PQC_OK_def)
next
  case False
  then have len: "ready" "0 < len" by auto
  obtain r0 c0 where i: "scrypt_CipherInit lib c key nonce True = (r0, c0)" by fastforce
  let ?inp = "slice b off len"
  obtain r1 out c1 where u: "scrypt_CipherUpdate lib (scrypt_CipherSetTagSize lib c0 16) ?inp = (r1, out, c1)" using prod_cases3 by blast
  obtain r2 fin c2 where f: "scrypt_CipherFinal lib c1 = (r2, fin, c2)" using prod_cases3 by blast
  obtain r3 tag c3 where t: "scrypt_CipherGetTag lib c2 = (r3, tag, c3)" using prod_cases3 by blast
  have p: "length ?inp = len" "?inp \<noteq> []" using room len by (auto simp flip: length_greater_0_conv)
  have o: "length out \<le> len" "length out + length fin \<le> len"
    using lib_boundedD(1) [OF lib(1) u] lib_boundedD(2) [OF lib(1) u f] p by simp_all
  have tg: "r3 = 0 \<Longrightarrow> 16 \<le> length tag" using lib(2) t by (auto simp: tag_delivered_def TAG_SIZE_GCM_def split: prod.splits)
  have w: "wrn b off out = Some (patch b off out)" "wrn (patch b off out) (off + length out) fin = Some (patch (patch b off out) (off + length out) fin)"
    "length (patch b off out) = length b" "length (patch (patch b off out) (off + length out) fin) = length b"
    "take off (patch b off out) = take off b" "take off (patch (patch b off out) (off + length out) fin) = take off b"
    using o room by (simp_all add: patch_def)
  note s = seal_bytes [OF o(2) room, of "take 16 tag"]
  have err: "TRF_PQC_ERR_CRYPTO \<noteq> TRF_PQC_OK" by (simp add: TRF_PQC_ERR_CRYPTO_def TRF_PQC_OK_def)
  show ?thesis
  proof (cases "r0 = 0 \<and> r1 = 0 \<and> r2 = 0 \<and> r3 = 0")
    case True
    then have "gcm_sealed lib c key nonce ?inp (out @ fin) tag" by (simp add: gcm_sealed_def TAG_SIZE_GCM_def i u f t)
    then have "sealed_at lib key nonce (patch (patch (patch b off out) (off + length out) fin) (off + length out + length fin) (take 16 tag))
        off (length out + length fin + 16)"
      unfolding sealed_at_def
      by (intro exI [of _ c] exI [of _ ?inp] exI [of _ "out @ fin"] exI [of _ tag]) (use p s(3) tg True in auto)
    then show ?thesis
      using len True tg w s(1,2) o room
      by (simp add: trf_encrypt_payload_gcm_def i u f t TAG_SIZE_GCM_def slice_def [of tag 0])
  qed (use len w room tg i u f t err in \<open>auto simp: trf_encrypt_payload_gcm_def TAG_SIZE_GCM_def\<close>)
qed

text \<open>Encryption changes the cipher context and the nonces of the thread, and keeps the salt of the nonces well formed.\<close>

definition salt_fine :: "('c, 'z) crypto_state_scheme \<Rightarrow> bool" where
  "salt_fine st \<longleftrightarrow> (tls_salt_initialized st \<longrightarrow> length (tls_pqc_salt st) = 8)"

definition enc_only :: "('c, 'z) crypto_state_scheme \<Rightarrow> ('c, 'z) crypto_state_scheme \<Rightarrow> bool" where
  "enc_only st st' \<longleftrightarrow> crypto_state.more st' = crypto_state.more st \<and> (salt_fine st \<longrightarrow> salt_fine st')"

lemma enc_only_refl [simp]: "enc_only st st"
  by (simp add: enc_only_def)

lemma enc_only_trans: "enc_only st st' \<Longrightarrow> enc_only st' st'' \<Longrightarrow> enc_only st st''"
  by (simp add: enc_only_def)

lemma tls_cipher_enc_only: "crypto_pqc_tls_cipher lib True st = (oc, st') \<Longrightarrow> enc_only st st'"
  by (auto simp: crypto_pqc_tls_cipher_def Let_def enc_only_def salt_fine_def split: if_splits)

lemma enc_only_upd: "enc_only st st' \<Longrightarrow> enc_only st (st'\<lparr>tls_enc := c\<rparr>)"
  by (simp add: enc_only_def salt_fine_def)

lemma encrypt_payload_safe:
  assumes "lib_bounded lib" "tag_delivered lib" "off + len + 16 \<le> length b"
  shows "mem_ok (\<lambda>(r, b', st'). length b' = length b \<and> take off b' = take off b \<and> enc_only st st'
      \<and> (\<forall>n. r = Some n \<longrightarrow> n \<le> len + 16 \<and> sealed_at lib (sess_key sess) nonce b' off n))
    (crypto_pqc_encrypt_payload lib st sess nonce b off len)"
proof -
  obtain oc st1 where c: "crypto_pqc_tls_cipher lib True st = (oc, st1)" by fastforce
  show ?thesis
    using trf_encrypt_safe [OF assms, of "sess_key sess" nonce "g_pqc_initialized st1" "the oc"] tls_cipher_enc_only [OF c]
    by (auto simp: crypto_pqc_encrypt_payload_def c split: option.split intro!: mem_ok_bind enc_only_upd)
qed

lemma generate_nonce_safe:
  assumes "random_delivered lib" "salt_fine st" "crypto_pqc_generate_nonce lib st = (r, st')"
  shows "enc_only st st'" "r = Some n \<Longrightarrow> length n = 12"
proof -
  obtain ret salt where rb: "scrypt_RandomBytes lib 8 = (ret, salt)" by fastforce
  have "ret = 0 \<Longrightarrow> length salt = 8" using assms(1) rb by (simp add: random_delivered_def)
  then show "enc_only st st'" "r = Some n \<Longrightarrow> length n = 12"
    using assms(2,3) rb
    by (auto simp: crypto_pqc_generate_nonce_def trf_pqc_generate_nonce_def Let_def enc_only_def salt_fine_def TRF_PQC_OK_def
        TRF_PQC_ERR_CRYPTO_def split: if_splits)
qed

section \<open>Encrypted frames\<close>

text \<open>A frame that may leave: a marker type, and behind the header bytes that the library sealed under the key with the nonce
  of the header.\<close>

definition sealed_frame :: "('c, 'l) scrypt_lib_scheme \<Rightarrow> buf \<Rightarrow> buf \<Rightarrow> nat \<Rightarrow> bool" where
  "sealed_frame lib key b n \<longleftrightarrow> (\<exists>et off. (et = 12 \<or> et = 16)
     \<and> (et_at b et = NE_L2_FAKE_ETHERTYPE \<and> off = et + 16 \<or> et_at b et = NE_L2_FAKE_ETHERTYPE_UDP \<and> off = et + 20)
     \<and> off \<le> n \<and> sealed_at lib key (slice b (et + 4) 12) b off (n - off))"

definition sealed_under :: "('c, 'l) scrypt_lib_scheme \<Rightarrow> packet_crypto_ctx \<Rightarrow> buf \<Rightarrow> nat \<Rightarrow> bool" where
  "sealed_under lib ctx b n \<longleftrightarrow> (\<exists>sess. crypto_pqc_sess_load ctx = Some sess \<and> sealed_frame lib (sess_key sess) b n)"

definition sent :: "('c, 'l) scrypt_lib_scheme \<Rightarrow> packet_crypto_ctx \<Rightarrow> ('c, 'z) crypto_state_scheme \<Rightarrow> buf \<Rightarrow> nat \<Rightarrow>
    nat option \<times> buf \<times> ('c, 'z) crypto_state_scheme \<Rightarrow> bool" where
  "sent lib ctx st b lim = (\<lambda>(r, b', st'). length b' = length b \<and> enc_only st st'
     \<and> (\<forall>m. r = Some m \<longrightarrow> m \<le> lim \<and> sealed_under lib ctx b' m))"

definition lib_fine :: "('c, 'l) scrypt_lib_scheme \<Rightarrow> bool" where
  "lib_fine lib \<longleftrightarrow> lib_bounded lib \<and> tag_delivered lib \<and> random_delivered lib"

lemma sealed_frameI:
  assumes b: "take off b' = take off b" "off \<le> length b" "length b' = length b"
    and h: "et + 4 + 12 \<le> off" "slice b et (4 + 12) = wire_header fake pol w nonce" "length nonce = 12" "et = 12 \<or> et = 16"
    and f: "fake = NE_L2_FAKE_ETHERTYPE \<and> off = et + 16 \<or> fake = NE_L2_FAKE_ETHERTYPE_UDP \<and> off = et + 20"
    and s: "sealed_at lib key nonce b' off m"
  shows "sealed_frame lib key b' (off + m)"
proof -
  have eq: "slice b' et 16 = wire_header fake pol w nonce"
    using h(1,2) b(1) slice_take [of et 16 off b'] slice_take [of et 16 off b] by simp
  have "slice b' et 2 = slice (slice b' et 16) 0 2" by (simp add: slice_slice)
  then have "slice b' et 2 = be16_bytes fake" by (simp only: eq) (simp add: wire_header_def slice_def be16_bytes_def)
  then have e: "et_at b' et = fake" using b h(1) by (intro et_at_slice2) simp_all
  have "slice b' (et + 4) 12 = slice (slice b' et 16) 4 12" by (simp add: slice_slice)
  then have "slice b' (et + 4) 12 = nonce" using h(3) by (simp only: eq) (simp add: wire_header_def slice_def be16_bytes_def)
  then show ?thesis unfolding sealed_frame_def using e h(4) f s by (intro exI [of _ et] exI [of _ off]) auto
qed

text \<open>The end of every encryption: header, in the UDP format the marker, and the seal.\<close>

lemma seal_plain_safe:
  assumes lib: "lib_fine lib" and st: "salt_fine st" and et: "et = 12 \<or> et = 16" and room: "et + 16 + len + 16 \<le> length b"
    and sess: "crypto_pqc_sess_load ctx = Some sess"
  shows "mem_ok (sent lib ctx st b (et + 16 + len + 16)) (case crypto_pqc_generate_nonce lib st of
      (None, st) \<Rightarrow> Some (None, b, st)
    | (Some nonce, st) \<Rightarrow> do {
        b \<leftarrow> l2_write_wire_header (st :: ('c, 'z) option_state_scheme) b et (ctx_wire_id ctx) nonce;
        (r, b, st) \<leftarrow> crypto_pqc_encrypt_payload lib st sess nonce b (et + 16) len;
        Some (map_option (\<lambda>new_len. et + 16 + new_len) r, b, st) })"
proof -
  obtain on st1 where n: "crypto_pqc_generate_nonce lib st = (on, st1)" by fastforce
  note g = generate_nonce_safe [OF _ st n]
  show ?thesis
  proof (cases on)
    case None
    then show ?thesis using g(1) lib by (simp add: n sent_def lib_fine_def)
  next
    case (Some nonce)
    have nn: "length nonce = 12" "enc_only st st1" using g(1) g(2) [OF _ Some] lib by (simp_all add: lib_fine_def)
    let ?h = "wire_header NE_L2_FAKE_ETHERTYPE (ctx_wire_id ctx) (g_worker_idx st1) nonce"
    let ?b = "patch b et ?h"
    have w: "l2_write_wire_header st1 b et (ctx_wire_id ctx) nonce = Some ?b" using room nn by (simp add: l2_write_wire_header_def write_wire_header)
    have fits: "et + length ?h \<le> length b" "4 + 12 = length ?h" using room nn(1) by simp_all
    have l: "length ?b = length b" "slice ?b et (4 + 12) = ?h"
      by (rule length_patch [OF fits(1)], rule slice_patch_same [OF fits])
    have "mem_ok (sent lib ctx st b (et + 16 + len + 16)) (do {
        (r, b, st) \<leftarrow> crypto_pqc_encrypt_payload lib st1 sess nonce ?b (et + 16) len;
        Some (map_option (\<lambda>new_len. et + 16 + new_len) r, b, st) })"
    proof (rule mem_ok_bind [OF encrypt_payload_safe], goal_cases)
      case (4 x)
      obtain r b' st' where x: "x = (r, b', st')" by (metis prod_cases3)
      have "sealed_under lib ctx b' (et + 16 + m)" if "r = Some m" for m
        using sealed_frameI [OF _ _ _ _ l(2) nn(1) et, of "et + 16" b' lib "sess_key sess" m] 4 x that room l sess nn(1)
        by (auto simp: sealed_under_def simp del: slice_patch_same)
      then show ?case using 4 x l nn(2) by (auto simp: sent_def intro: enc_only_trans)
    qed (use lib room l in \<open>simp_all add: lib_fine_def\<close>)
    then show ?thesis by (simp add: n Some w)
  qed
qed

lemma seal_udp_safe:
  assumes lib: "lib_fine lib" and st: "salt_fine st" and et: "et = 12 \<or> et = 16" and room: "et + 20 + len + 16 \<le> length b"
    and sess: "crypto_pqc_sess_load ctx = Some sess"
  shows "mem_ok (sent lib ctx st b (et + 20 + len + 16)) (case crypto_pqc_generate_nonce lib st of
      (None, st) \<Rightarrow> Some (None, b, st)
    | (Some nonce, st) \<Rightarrow> do {
        b \<leftarrow> l2_write_wire_header_et (st :: ('c, 'z) option_state_scheme) b et NE_L2_FAKE_ETHERTYPE_UDP (ctx_wire_id ctx) nonce;
        b \<leftarrow> l2_udp_marker_write b (et + 16);
        (r, b, st) \<leftarrow> crypto_pqc_encrypt_payload lib st sess nonce b (et + 20) len;
        Some (map_option (\<lambda>new_len. et + 20 + new_len) r, b, st) })"
proof -
  obtain on st1 where n: "crypto_pqc_generate_nonce lib st = (on, st1)" by fastforce
  note g = generate_nonce_safe [OF _ st n]
  show ?thesis
  proof (cases on)
    case None
    then show ?thesis using g(1) lib by (simp add: n sent_def lib_fine_def)
  next
    case (Some nonce)
    have nn: "length nonce = 12" "enc_only st st1" using g(1) g(2) [OF _ Some] lib by (simp_all add: lib_fine_def)
    let ?h = "wire_header NE_L2_FAKE_ETHERTYPE_UDP (ctx_wire_id ctx) (g_worker_idx st1) nonce"
    let ?b1 = "patch b et ?h" and ?b = "patch (patch b et ?h) (et + 16) l2_udp_marker"
    have m: "length l2_udp_marker = 4" by (simp add: l2_udp_marker_def)
    have w: "l2_write_wire_header_et st1 b et NE_L2_FAKE_ETHERTYPE_UDP (ctx_wire_id ctx) nonce = Some ?b1" "l2_udp_marker_write ?b1 (et + 16) = Some ?b"
      using room nn m by (simp_all add: write_wire_header l2_udp_marker_write_def)
    have fits: "et + length ?h \<le> length b" "4 + 12 = length ?h" using room nn(1) by simp_all
    have l1: "length ?b1 = length b" by (rule length_patch [OF fits(1)])
    then have fits': "et + 16 + length l2_udp_marker \<le> length ?b1" using room m by simp
    have "slice ?b et (4 + 12) = slice ?b1 et (4 + 12)" by (rule slice_patch_disjoint [OF fits']) (use l1 room in simp_all)
    also have "\<dots> = ?h" by (rule slice_patch_same [OF fits])
    finally have l: "length ?b = length b" "slice ?b et (4 + 12) = ?h" using l1 length_patch [OF fits'] by simp_all
    have "mem_ok (sent lib ctx st b (et + 20 + len + 16)) (do {
        (r, b, st) \<leftarrow> crypto_pqc_encrypt_payload lib st1 sess nonce ?b (et + 20) len;
        Some (map_option (\<lambda>new_len. et + 20 + new_len) r, b, st) })"
    proof (rule mem_ok_bind [OF encrypt_payload_safe], goal_cases)
      case (4 x)
      obtain r b' st' where x: "x = (r, b', st')" by (metis prod_cases3)
      have "sealed_under lib ctx b' (et + 20 + m)" if "r = Some m" for m
        using sealed_frameI [OF _ _ _ _ l(2) nn(1) et, of "et + 20" b' lib "sess_key sess" m] 4 x that room l sess nn(1)
        by (auto simp: sealed_under_def simp del: slice_patch_same)
      then show ?case using 4 x l nn(2) by (auto simp: sent_def intro: enc_only_trans)
    qed (use lib room l in \<open>simp_all add: lib_fine_def\<close>)
    then show ?thesis by (simp add: n Some w)
  qed
qed

text \<open>The encryption of a whole packet.\<close>

lemma sent_keep [simp]: "sent lib ctx st b lim (None, b', st') \<longleftrightarrow> length b' = length b \<and> enc_only st st'"
  by (simp add: sent_def)

lemma sent_trans: "sent lib ctx st1 b1 lim x \<Longrightarrow> length b1 = length b \<Longrightarrow> enc_only st st1 \<Longrightarrow> sent lib ctx st b lim x"
  by (auto simp: sent_def intro: enc_only_trans)

lemma do_encrypt_safe:
  assumes lib: "lib_fine lib" and st: "salt_fine st" and n: "n + 30 \<le> length b"
  shows "mem_ok (sent lib ctx st b (n + 30)) (l2_do_encrypt lib ctx st b n)"
proof -
  have nb: "n \<le> length b" using n by simp
  obtain l3 where l3: "crypto_eth_ipv4_offset b n = Some l3" using ipv4_offset_spec [OF nb] by metis
  obtain et where et: "crypto_eth_l2_prefix_len b n = Some et" using inner_et_off_spec [OF nb] by (metis crypto_eth_l2_prefix_len_def)
  show ?thesis
  proof (cases l3)
    case None
    then show ?thesis by (simp add: l2_do_encrypt_def l3 et)
  next
    case (Some off)
    obtain e where e: "off = e + 2" "et = Some e" "e = 12 \<or> e = 16" "e + 22 \<le> n"
      using ipv4_offsetD [OF l3 [unfolded Some] nb] et by (metis crypto_eth_l2_prefix_len_def option.inject)
    have offs: "e + 2 + 1 + 1 + L2_NONCE_SIZE = e + 16" "\<not> n < e + 16" using e by (simp_all add: L2_NONCE_SIZE_def)
    let ?b = "patch b (e + 16) (slice b (e + 2) (n - (e + 2)))"
    have m: "mmove b (e + 16) (e + 2) (n - (e + 2)) = Some ?b" and l: "length ?b = length b" using n e by simp_all
    show ?thesis
    proof (cases "crypto_pqc_sess_load ctx")
      case None
      then show ?thesis using l by (simp only: l2_do_encrypt_def l3 et Some e(1,2) offs m run_simps mem_ok_Some sent_keep enc_only_refl)
    next
      case pqc: (Some sess)
      have room: "e + 16 + (n - (e + 2)) + 16 \<le> length ?b" using l n e by simp
      have le: "e + 16 + (n - (e + 2)) + 16 = n + 30" using e by simp
      show ?thesis
        by (simp only: l2_do_encrypt_def l3 et Some e(1,2) offs m pqc run_simps)
          (rule mem_ok_mono [OF seal_plain_safe [OF lib st e(3) room pqc, unfolded le]], rule sent_trans [OF _ l enc_only_refl])
    qed
  qed
qed

text \<open>The UDP encryption takes its numbers from the state of the option, where it may set the epoch.\<close>

definition opt_only :: "('c, 'z) option_state_scheme \<Rightarrow> ('c, 'z) option_state_scheme \<Rightarrow> bool" where
  "opt_only st st' \<longleftrightarrow> option_state.more st' = option_state.more st \<and> (salt_fine st \<longrightarrow> salt_fine st')"

lemma opt_only_refl [simp]: "opt_only st st"
  by (simp add: opt_only_def)

lemma opt_only_trans: "opt_only st st' \<Longrightarrow> opt_only st' st'' \<Longrightarrow> opt_only st st''"
  by (simp add: opt_only_def)

lemma enc_only_opt: "enc_only st st' \<Longrightarrow> opt_only st st'"
  by (cases st; cases st') (simp add: enc_only_def opt_only_def)

lemma opt_only_tables:
  fixes st st' :: "('c, 'z) l2_state_scheme"
  shows "opt_only st st' \<Longrightarrow> g_tables st' = g_tables st"
  by (cases st; cases st') (simp add: opt_only_def)

lemma tx_meta_opt: "crypto_option_udp_tx_meta env st = (m, st') \<Longrightarrow> opt_only st st'"
  by (auto simp: crypto_option_udp_tx_meta_def crypto_option_udp_epoch_def opt_only_def salt_fine_def Let_def split: if_splits)

definition sent_opt :: "('c, 'l) scrypt_lib_scheme \<Rightarrow> packet_crypto_ctx \<Rightarrow> ('c, 'z) option_state_scheme \<Rightarrow> buf \<Rightarrow> nat \<Rightarrow>
    nat option \<times> buf \<times> ('c, 'z) option_state_scheme \<Rightarrow> bool" where
  "sent_opt lib ctx st b lim = (\<lambda>(r, b', st'). length b' = length b \<and> opt_only st st'
     \<and> (\<forall>m. r = Some m \<longrightarrow> m \<le> lim \<and> sealed_under lib ctx b' m))"

lemma sent_opt_keep [simp]: "sent_opt lib ctx st b lim (None, b', st') \<longleftrightarrow> length b' = length b \<and> opt_only st st'"
  by (simp add: sent_opt_def)

lemma sent_optI: "sent lib ctx st1 b1 lim x \<Longrightarrow> length b1 = length b \<Longrightarrow> opt_only st st1 \<Longrightarrow> lim \<le> lim' \<Longrightarrow> sent_opt lib ctx st b lim' x"
  by (auto simp: sent_def sent_opt_def intro: opt_only_trans enc_only_opt)

lemma do_encrypt_udp_safe:
  assumes lib: "lib_fine lib" and st: "salt_fine st" and b: "length b = NE_FRAME" "n \<le> NE_FRAME"
  shows "mem_ok (sent_opt lib ctx st b NE_FRAME) (l2_do_encrypt_udp lib env ctx st b n)"
proof -
  have nb: "n \<le> length b" using b by simp
  obtain l3 where l3: "crypto_eth_ipv4_offset b n = Some l3" using ipv4_offset_spec [OF nb] by metis
  obtain et where et: "crypto_eth_l2_prefix_len b n = Some et" using inner_et_off_spec [OF nb] by (metis crypto_eth_l2_prefix_len_def)
  obtain m st1 where tx: "crypto_option_udp_tx_meta env st = (m, st1)" by fastforce
  have st1: "opt_only st st1" "salt_fine st1" using tx_meta_opt [OF tx] st by (simp_all add: opt_only_def)
  show ?thesis
  proof (cases "l3 = None \<or> m = None")
    case True
    then show ?thesis using st1 by (cases l3; cases et) (auto simp: l2_do_encrypt_udp_def l3 et tx)
  next
    case False
    then obtain off e0 sq dg where so: "l3 = Some off" "m = Some (e0, sq, dg)" by auto
    obtain e where e: "off = e + 2" "et = Some e" "e = 12 \<or> e = 16" "e + 22 \<le> n"
      using ipv4_offsetD [OF l3 [unfolded so] nb] et by (metis crypto_eth_l2_prefix_len_def option.inject)
    have offs: "e + 2 + 1 + 1 + L2_NONCE_SIZE = e + 16" "e + 16 + L2_UDP_MARKER_SIZE = e + 20" "e + 20 + L2_UDP_SHIM_SIZE = e + 33"
      by (simp_all add: l2_sizes)
    show ?thesis
    proof (cases "e + 20 + (L2_UDP_SHIM_SIZE + (n - (e + 2))) + AES_GCM_TAG_SIZE > NE_FRAME")
      case True
      then show ?thesis using st1 by (simp only: l2_do_encrypt_udp_def l3 et so e(1,2) offs tx run_simps) simp
    next
      case fits: False
      let ?b1 = "patch b (e + 33) (slice b (e + 2) (n - (e + 2)))"
      let ?b2 = "patch ?b1 (e + 20) (shim_bytes L2_UDP_KIND_FULL e0 sq dg)"
      have r: "e + 33 + (n - (e + 2)) + 16 \<le> NE_FRAME" using fits by (simp add: l2_sizes)
      have m1: "mmove b (e + 33) (e + 2) (n - (e + 2)) = Some ?b1" and l1: "length ?b1 = length b" using r b e by simp_all
      have m2: "l2_udp_write_shim ?b1 (e + 20) L2_UDP_KIND_FULL e0 sq dg = Some ?b2" and l2: "length ?b2 = length b"
        using r b l1 by (simp_all add: l2_udp_write_shim_def)
      show ?thesis
      proof (cases "crypto_pqc_sess_load ctx")
        case None
        then show ?thesis using st1 l2 fits by (simp only: l2_do_encrypt_udp_def l3 et so e(1,2) offs tx m1 m2 run_simps) simp
      next
        case pqc: (Some sess)
        have room: "e + 20 + (L2_UDP_SHIM_SIZE + (n - (e + 2))) + 16 \<le> length ?b2" using l2 fits b by (simp add: l2_sizes)
        have lim: "e + 20 + (L2_UDP_SHIM_SIZE + (n - (e + 2))) + 16 \<le> NE_FRAME" using room l2 b by simp
        show ?thesis
          using fits
          by (simp only: l2_do_encrypt_udp_def l3 et so e(1,2) offs tx m1 m2 pqc run_simps if_False)
            (rule mem_ok_mono [OF seal_udp_safe [OF lib st1(2) e(3) room pqc]], rule sent_optI [OF _ l2 st1(1) lim])
      qed
    qed
  qed
qed

section \<open>The split of a datagram\<close>

lemma fragment_single_safe:
  assumes lib: "lib_fine lib" and st: "salt_fine st" and et: "et = 12 \<or> et = 16" "et \<le> length eth" and max: "out_max \<le> length out"
  shows "mem_ok (sent_opt lib ctx st out out_max) (l2_encrypt_fragment_single lib ctx st eth q e0 sq dg kind out out_max et)"
proof -
  have offs: "et + 2 + 1 + 1 + L2_NONCE_SIZE = et + 16" "et + 16 + L2_UDP_MARKER_SIZE = et + 20" "et + 20 + L2_UDP_SHIM_SIZE = et + 33"
    by (simp_all add: l2_sizes)
  show ?thesis
  proof (cases "et + 20 + (L2_UDP_SHIM_SIZE + length q) + AES_GCM_TAG_SIZE > out_max")
    case True
    then show ?thesis by (simp only: l2_encrypt_fragment_single_def offs run_simps) simp
  next
    case fits: False
    then have r: "et + 33 + length q + 16 \<le> length out" using max by (simp add: l2_sizes)
    let ?o = "patch out 0 (take et eth)"
    let ?o1 = "patch ?o (et + 33) q"
    let ?o2 = "patch ?o1 (et + 20) (shim_bytes kind e0 sq dg)"
    have h: "rdn eth 0 et = Some (take et eth)" "wrn out 0 (take et eth) = Some ?o" and l0: "length ?o = length out"
      using et(2) r by (simp_all add: slice_def)
    have m1: "wrn ?o (et + 33) q = Some ?o1" and l1: "length ?o1 = length out" using r l0 by simp_all
    have m2: "l2_udp_write_shim ?o1 (et + 20) kind e0 sq dg = Some ?o2" and l2: "length ?o2 = length out"
      using r l1 by (simp_all add: l2_udp_write_shim_def)
    show ?thesis
    proof (cases "crypto_pqc_sess_load ctx")
      case None
      then show ?thesis using l0 fits
        by (simp only: l2_encrypt_fragment_single_def offs h m1 m2 run_simps if_False mem_ok_Some sent_opt_keep opt_only_refl)
    next
      case pqc: (Some sess)
      have room: "et + 20 + (L2_UDP_SHIM_SIZE + length q) + 16 \<le> length ?o2" using l2 r by (simp add: l2_sizes)
      have lim: "et + 20 + (L2_UDP_SHIM_SIZE + length q) + 16 \<le> out_max" using fits by (simp add: l2_sizes)
      obtain on st1 where n: "crypto_pqc_generate_nonce lib st = (on, st1)" by fastforce
      have keep: "opt_only st st1" using generate_nonce_safe(1) [OF _ st n] lib by (simp add: lib_fine_def enc_only_opt)
      note seal = mem_ok_mono [OF seal_udp_safe [OF lib st et(1) room pqc] sent_optI [OF _ l2 opt_only_refl lim]]
      show ?thesis
      proof (cases on)
        case None
        then show ?thesis using keep l0 fits
          by (simp only: l2_encrypt_fragment_single_def offs h m1 m2 pqc n run_simps if_False mem_ok_Some sent_opt_keep)
      next
        case (Some nonce)
        then show ?thesis using fits seal
          by (simp only: l2_encrypt_fragment_single_def offs h m1 m2 pqc n run_simps if_False)
      qed
    qed
  qed
qed

lemma fragment0_safe:
  assumes lib: "lib_fine lib" and st: "salt_fine st" and et: "et = 12 \<or> et = 16" and b: "et + 2 + m \<le> length b" "out_max \<le> length b"
  shows "mem_ok (sent_opt lib ctx st b out_max) (l2_encrypt_fragment0_inplace lib ctx st b m e0 sq dg out_max et (et + 2))"
proof -
  have offs: "et + 2 + 1 + 1 + L2_NONCE_SIZE = et + 16" "et + 16 + L2_UDP_MARKER_SIZE = et + 20" "et + 20 + L2_UDP_SHIM_SIZE = et + 33"
    by (simp_all add: l2_sizes)
  show ?thesis
  proof (cases "et + 20 + (L2_UDP_SHIM_SIZE + m) + AES_GCM_TAG_SIZE > out_max")
    case True
    then show ?thesis by (simp only: l2_encrypt_fragment0_inplace_def offs run_simps) simp
  next
    case fits: False
    then have r: "et + 33 + m + 16 \<le> length b" using b by (simp add: l2_sizes)
    let ?b1 = "patch b (et + 33) (slice b (et + 2) m)"
    let ?b2 = "patch ?b1 (et + 20) (shim_bytes L2_UDP_KIND_FRAG0 e0 sq dg)"
    have m1: "mmove b (et + 33) (et + 2) m = Some ?b1" and l1: "length ?b1 = length b" using r b by simp_all
    have m2: "l2_udp_write_shim ?b1 (et + 20) L2_UDP_KIND_FRAG0 e0 sq dg = Some ?b2" and l2: "length ?b2 = length b"
      using r l1 by (simp_all add: l2_udp_write_shim_def)
    show ?thesis
    proof (cases "crypto_pqc_sess_load ctx")
      case None
      then show ?thesis using l2 fits
        by (simp only: l2_encrypt_fragment0_inplace_def offs m1 m2 run_simps if_False mem_ok_Some sent_opt_keep opt_only_refl)
    next
      case pqc: (Some sess)
      have room: "et + 20 + (L2_UDP_SHIM_SIZE + m) + 16 \<le> length ?b2" using l2 r by (simp add: l2_sizes)
      have lim: "et + 20 + (L2_UDP_SHIM_SIZE + m) + 16 \<le> out_max" using fits by (simp add: l2_sizes)
      show ?thesis using fits
        by (simp only: l2_encrypt_fragment0_inplace_def offs m1 m2 pqc run_simps if_False)
          (rule mem_ok_mono [OF seal_udp_safe [OF lib st et room pqc] sent_optI [OF _ l2 opt_only_refl lim]])
    qed
  qed
qed

text \<open>Both frames of a split are sealed, and each fits the frame it lies in.\<close>

definition split_sent :: "('c, 'l) scrypt_lib_scheme \<Rightarrow> packet_crypto_ctx \<Rightarrow> ('c, 'z) option_state_scheme \<Rightarrow> buf \<Rightarrow> nat \<Rightarrow> buf \<Rightarrow> nat \<Rightarrow>
    (nat \<times> nat) option \<times> buf \<times> buf \<times> ('c, 'z) option_state_scheme \<Rightarrow> bool" where
  "split_sent lib ctx st b max0 tail max1 = (\<lambda>(r, b', tail', st'). length b' = length b \<and> length tail' = length tail \<and> opt_only st st'
     \<and> (\<forall>l0 l1. r = Some (l0, l1) \<longrightarrow> l0 \<le> max0 \<and> l1 \<le> max1 \<and> sealed_under lib ctx b' l0 \<and> sealed_under lib ctx tail' l1))"

lemma split_safe:
  assumes lib: "lib_fine lib" and st: "salt_fine st" and b: "n \<le> length b" "max0 \<le> length b" "max1 \<le> length tail"
  shows "mem_ok (split_sent lib ctx st b max0 tail max1) (l2_split lib env ctx st b n max0 tail max1)"
proof -
  obtain l3 where l3: "crypto_eth_ipv4_offset b n = Some l3" using ipv4_offset_spec [OF b(1)] by metis
  show ?thesis
  proof (cases l3)
    case None
    then show ?thesis by (simp add: l2_split_def l3 split_sent_def)
  next
    case (Some off)
    obtain et where et: "off = et + 2" "crypto_eth_inner_et_off b n = Some (Some et)" "et = 12 \<or> et = 16" "et + 22 \<le> n"
      using ipv4_offsetD [OF l3 [unfolded Some] b(1)] by metis
    have et18: "crypto_eth_l2_prefix_len b ETH_L2_HDR_MAX = Some (Some et)" "crypto_eth_l2_prefix_len b n = Some (Some et)"
      using et b by (auto simp: crypto_eth_l2_prefix_len_def crypto_eth_inner_et_off_def ETH_L2_HDR_MAX_def split: if_splits bind_splits)
    have rd: "rd8 b (et + 2) = Some (b ! (et + 2))" "rd8 b (et + 2 + 9) = Some (b ! (et + 2 + 9))" using et b by simp_all
    let ?plan = "l2_split_plan (unat (crypto_option_get_mtu st)) n (et + 2) (b ! (et + 2)) (b ! (et + 2 + 9))"
    obtain m st1 where tx: "crypto_option_udp_tx_meta env st = (m, st1)" by fastforce
    have st1: "opt_only st st1" "salt_fine st1" using tx_meta_opt [OF tx] st by (simp_all add: opt_only_def)
    show ?thesis
    proof (cases "?plan = None \<or> m = None")
      case True
      then show ?thesis
        using st1 by (cases ?plan) (auto simp only: l2_split_def l3 Some et(1) rd tx run_simps split_sent_def mem_ok_Some opt_only_refl
            option.distinct split: prod.splits)
    next
      case False
      then obtain m0 m1 e0 sq dg where so: "?plan = Some (m0, m1)" "m = Some (e0, sq, dg)" by auto
      note p = split_plan_ok(1) [OF so(1)]
      have q: "rdn b (et + 2 + m0) m1 = Some (slice b (et + 2 + m0) m1)" using p b by simp
      have one: "mem_ok (sent_opt lib ctx st1 tail max1) (l2_encrypt_fragment_single lib ctx st1 b (slice b (et + 2 + m0) m1) e0 sq dg
          L2_UDP_KIND_FRAG1 tail max1 et)" using fragment_single_safe [OF lib st1(2) et(3) _ b(3)] et(4) b(1) by simp
      have two: "mem_ok (split_sent lib ctx st b max0 tail max1) (case r1 of
            None \<Rightarrow> Some (None, b, t1, st2)
          | Some frag1_len \<Rightarrow> do {
              et' \<leftarrow> crypto_eth_l2_prefix_len b n;
              et_off \<leftarrow> et';
              (r0, pkt, st) \<leftarrow> l2_encrypt_fragment0_inplace lib ctx st2 b m0 e0 sq dg max0 et_off (et + 2);
              Some (map_option (\<lambda>frag0_len. (frag0_len, frag1_len)) r0, pkt, t1, st) })"
        if s: "sent_opt lib ctx st1 tail max1 (r1, t1, st2)" for r1 t1 st2
      proof -
        have st2: "opt_only st st2" "salt_fine st2" using s st1 st by (auto simp: sent_opt_def intro: opt_only_trans) (simp add: opt_only_def)
        have z: "mem_ok (sent_opt lib ctx st2 b max0) (l2_encrypt_fragment0_inplace lib ctx st2 b m0 e0 sq dg max0 et (et + 2))"
          by (rule fragment0_safe [OF lib st2(2) et(3) _ b(2)]) (use p b in simp)
        show ?thesis
        proof (cases r1)
          case None
          then show ?thesis using s st2 by (simp add: split_sent_def sent_opt_def)
        next
          case (Some l1)
          show ?thesis unfolding Some option.case et18 Option.bind.simps
            by (rule mem_ok_bind [OF z]) (use s st2 in \<open>auto simp: Some split_sent_def sent_opt_def intro: opt_only_trans\<close>)
        qed
      qed
      have "mem_ok (split_sent lib ctx st b max0 tail max1) (do {
          (r1, frag1, st) \<leftarrow> l2_encrypt_fragment_single lib ctx st1 b (slice b (et + 2 + m0) m1) e0 sq dg L2_UDP_KIND_FRAG1 tail max1 et;
          case r1 of
            None \<Rightarrow> Some (None, b, frag1, st)
          | Some frag1_len \<Rightarrow> do {
              et' \<leftarrow> crypto_eth_l2_prefix_len b n;
              et_off \<leftarrow> et';
              (r0, pkt, st) \<leftarrow> l2_encrypt_fragment0_inplace lib ctx st b m0 e0 sq dg max0 et_off (et + 2);
              Some (map_option (\<lambda>frag0_len. (frag0_len, frag1_len)) r0, pkt, frag1, st) } })"
        by (rule mem_ok_bind [OF one], clarify, rule two)
      then show ?thesis by (simp only: l2_split_def l3 Some et(1) rd tx so q et18(1) run_simps)
    qed
  qed
qed

end
