(* ===== verification/Egress_Safety.thy ===== *)
theory Egress_Safety
  imports Egress_Crypto Bpf_Filter
begin

text \<open>
  The handler of LAN packets: it returns for every packet that the LAN filter lets in, stays inside its buffers, passes
  every frame on exactly once, and puts nothing on a WAN that the policy of the packet wants encrypted and that has not
  been sealed by the cipher library under the current key of the policy.
\<close>

section \<open>Options and sequence numbers\<close>

definition sent_rc :: "('c, 'l) scrypt_lib_scheme \<Rightarrow> packet_crypto_ctx \<Rightarrow> ('c, 'z) l2_state_scheme \<Rightarrow> buf \<Rightarrow>
    int \<times> nat \<times> buf \<times> ('c, 'z) l2_state_scheme \<Rightarrow> bool" where
  "sent_rc lib ctx st b = (\<lambda>(rc, k, b', st'). length b' = length b \<and> opt_only st st'
     \<and> (rc = 0 \<longrightarrow> k \<le> NE_FRAME \<and> sealed_under lib ctx b' k))"

lemma len_result_sent: "sent_opt lib ctx st b NE_FRAME x \<Longrightarrow> mem_ok (sent_rc lib ctx st b) (len_result n x)"
  by (auto simp: sent_opt_def sent_rc_def len_result_def split: prod.splits option.splits)

lemma option_encrypt_safe:
  assumes lib: "lib_fine lib" and st: "salt_fine st" and b: "length b = NE_FRAME" "n + 30 \<le> NE_FRAME"
    and ip: "crypto_pkt_is_ipv4 b n = Some True" and proto: "proto \<noteq> CRYPTO_PROTO_ARP"
  shows "mem_ok (sent_rc lib ctx st b) (crypto_option_encrypt lib env CRYPTO_OPT_L2_PQC proto ctx st b n)"
proof -
  have n: "n + 30 \<le> length b" "n \<le> NE_FRAME" using b by simp_all
  have fail: "sent_rc lib ctx st b (-1, n, b, st)" by (simp add: sent_rc_def)
  have plain: "mem_ok (sent_rc lib ctx st b) (do { r \<leftarrow> l2_do_encrypt lib ctx st b n; len_result n r })"
    by (rule mem_ok_bind [OF do_encrypt_safe [OF lib st n(1)]], rule len_result_sent, erule sent_optI) (use b in simp_all)
  have udp: "mem_ok (sent_rc lib ctx st b) (do { r \<leftarrow> l2_do_encrypt_udp lib env ctx st b n; len_result n r })"
    by (rule mem_ok_bind [OF do_encrypt_udp_safe [OF lib st b(1) n(2)]], rule len_result_sent)
  show ?thesis
    using proto plain udp fail by (simp add: router_encrypt l2_tcp_encrypt_def l2_udp_encrypt_def ip)
qed

lemma option_split_safe:
  assumes "lib_fine lib" "salt_fine st" "n \<le> length b" "max0 \<le> length b" "max1 \<le> length tail"
  shows "mem_ok (split_sent lib ctx st b max0 tail max1) (crypto_option_split lib env CRYPTO_OPT_L2_PQC proto ctx st b n max0 tail max1)"
  using split_safe [OF assms, of ctx env] by (simp add: router_split l2_udp_split_def split_sent_def)

lemma insert_keeps_ring [simp]: "tls_out_ring_idx (snd (dp_route_insert key hint st)) = tls_out_ring_idx st"
  "tls_crypto_worker_idx (snd (dp_route_insert key hint st)) = tls_crypto_worker_idx st"
  by (simp_all add: dp_route_insert_def Let_def split: option.split)

lemma route_get_keeps_ring:
  "dp_flow_route_get pkt n hint st = Some (r, st') \<Longrightarrow> tls_out_ring_idx st' = tls_out_ring_idx st \<and> tls_crypto_worker_idx st' = tls_crypto_worker_idx st"
proof -
  have "tls_out_ring_idx st' = tls_out_ring_idx st \<and> tls_crypto_worker_idx st' = tls_crypto_worker_idx st"
    if "dp_route_insert key hint st = (r, st')" for key
    using insert_keeps_ring [of key hint st] that by simp
  then show "dp_flow_route_get pkt n hint st = Some (r, st') \<Longrightarrow> ?thesis"
    by (auto simp: dp_flow_route_get_def split: bind_splits option.splits)
qed

lemma next_tx_seq_safe:
  assumes n: "n \<le> length pkt" and ok: "route_ok st"
  shows "mem_ok (\<lambda>(q, st'). route_ok st' \<and> tls_out_ring_idx st' = tls_out_ring_idx st \<and> tls_crypto_worker_idx st' = tls_crypto_worker_idx st)
    (dp_udp_next_tx_seq pkt n st)"
proof -
  have entry: "route_ok st' \<and> tls_out_ring_idx st' = tls_out_ring_idx st1 \<and> tls_crypto_worker_idx st' = tls_crypto_worker_idx st1"
    if "entry_next_seq (route_set key) way d st1 = (x, st')" "route_ok st1" "route_find (g_route_table st1 (route_set key)) key = Some way"
    for key way d st1 x st'
    using step_keeps_ok [OF that(2), of "Next_seq key d"] that(1,3) by (auto simp: entry_next_seq_def Let_def)
  have fall: "route_ok st' \<and> tls_out_ring_idx st' = tls_out_ring_idx st1 \<and> tls_crypto_worker_idx st' = tls_crypto_worker_idx st1"
    if "fallback_next_seq key d st1 = (x, st')" "route_ok st1" for key d st1 x st'
    using that by (auto simp: fallback_next_seq_def Let_def route_ok_def split: sum.splits)
  obtain k where k: "dp_route_key_parse_direction pkt n = Some k" using key_parse_total [OF n] by blast
  obtain r st1 where g: "dp_flow_route_get pkt n (tls_crypto_worker_idx st) st = Some (r, st1)" "route_ok st1"
    using route_get_range [OF n ok] by blast
  note g2 = route_get_keeps_ring [OF g(1)]
  show ?thesis
    using ok g(2) g2 by (auto simp: dp_udp_next_tx_seq_def k g(1) split: option.split prod.split dest: entry fall)
qed

section \<open>Tail frames and rings\<close>

text \<open>The invariant of a worker that sends: beside \<open>worker_ok\<close>, the salt, the number of WANs and the frame size.\<close>

definition sender_ok :: "nat \<Rightarrow> 'c dataplane \<Rightarrow> bool" where
  "sender_ok n s \<longleftrightarrow> worker_ok n s \<and> salt_fine (dp_opt s) \<and> fw_wan_count (dp_fwd s) \<le> int MAX_INTERFACES
     \<and> pr_frame_size (fw_pair (dp_fwd s)) = NE_FRAME"

lemma sender_ok_less: "sender_ok m s \<Longrightarrow> n \<le> m \<Longrightarrow> sender_ok n s"
  using worker_ok_less by (auto simp: sender_ok_def)

lemma set_tails_simps [simp]: "fw_split_tail_cache (set_tails w as fwd) = (fw_split_tail_cache fwd)(w := as)" "fw_pair (set_tails w as fwd) = fw_pair fwd"
  "fw_mid_to_wan (set_tails w as fwd) = fw_mid_to_wan fwd" "fw_mid_to_local (set_tails w as fwd) = fw_mid_to_local fwd"
  "fw_mac_table (set_tails w as fwd) = fw_mac_table fwd" "fw_local_count (set_tails w as fwd) = fw_local_count fwd"
  "fw_wan_count (set_tails w as fwd) = fw_wan_count fwd" "fw_cfg (set_tails w as fwd) = fw_cfg fwd"
  by (simp_all add: set_tails_def)

lemma set_pool_simps [simp]: "fw_mac_table (set_pool q fwd) = fw_mac_table fwd" "fw_local_count (set_pool q fwd) = fw_local_count fwd"
  "fw_wan_count (set_pool q fwd) = fw_wan_count fwd" "pr_frame_size (fw_pair (set_pool q fwd)) = pr_frame_size (fw_pair fwd)"
  "pr_frames (fw_pair (set_pool q fwd)) = pr_frames (fw_pair fwd)" "fw_cfg (set_pool q fwd) = fw_cfg fwd"
  "fw_mac_table (set_ring i w r fwd) = fw_mac_table fwd" "fw_local_count (set_ring i w r fwd) = fw_local_count fwd"
  "fw_wan_count (set_ring i w r fwd) = fw_wan_count fwd" "fw_cfg (set_ring i w r fwd) = fw_cfg fwd"
  by (simp_all add: set_pool_def set_ring_def)

lemma tails_update:
  assumes "w < NE_CRYPTO_WORKERS"
  shows "fwd_frames (set_tails w as fwd) + mset (fw_split_tail_cache fwd w) = fwd_frames fwd + mset as"
  using sum_update [of "{..<NE_CRYPTO_WORKERS}" w mset "fw_split_tail_cache fwd" as] assms
  by (simp add: fwd_frames_def ac_simps)

text \<open>Taking a tail moves frames from the pool to the cache, and one of them into the hands of the worker.\<close>

lemma refill_keeps:
  assumes ok: "sender_ok n s" and w: "w < NE_CRYPTO_WORKERS" and empty: "fw_split_tail_cache (dp_fwd s) w = []"
    and al: "ne_frame_alloc_batch (pr_pool (fw_pair (dp_fwd s))) SPLIT_TAIL_REFILL_BATCH = (as, pool)"
  shows "sender_ok n (s\<lparr>dp_fwd := set_tails w as (set_pool pool (dp_fwd s))\<rparr>)"
    "dp_frames (s\<lparr>dp_fwd := set_tails w as (set_pool pool (dp_fwd s))\<rparr>) = dp_frames s"
proof -
  let ?fwd = "dp_fwd s" and ?p = "pr_pool (fw_pair (dp_fwd s))"
  have p: "pool_ok ?p" using ok by (simp add: sender_ok_def worker_ok_def dp_ok_def fwd_ok_def)
  have "pool_pop ?p SPLIT_TAIL_REFILL_BATCH = (as, pool)" using al by (simp add: ne_frame_alloc_batch_def SPLIT_TAIL_REFILL_BATCH_def)
  from pool_pop_spec [OF p this] have q: "pool_ok pool" "q_cap pool = q_cap ?p" "as @ pool_contents pool = pool_contents ?p" by auto
  have "fwd_frames (set_pool pool ?fwd) + mset as = fwd_frames ?fwd"
    using arg_cong [OF q(3), of mset] by (simp add: fwd_frames_def ac_simps)
  then have f: "fwd_frames (set_tails w as (set_pool pool ?fwd)) = fwd_frames ?fwd"
    using tails_update [OF w, of as "set_pool pool ?fwd"] empty by simp
  then show "dp_frames (s\<lparr>dp_fwd := set_tails w as (set_pool pool ?fwd)\<rparr>) = dp_frames s" by (simp add: dp_frames_def)
  then show "sender_ok n (s\<lparr>dp_fwd := set_tails w as (set_pool pool ?fwd)\<rparr>)"
    using ok q(1,2) by (simp add: sender_ok_def worker_ok_def dp_ok_def fwd_ok_def dp_out_ring_idx_def ne_packet_data_def)
qed

lemma take_tail_keeps:
  assumes ok: "sender_ok n s" and w: "w < NE_CRYPTO_WORKERS" and some: "fw_split_tail_cache (dp_fwd s) w = as @ [a]"
  shows "sender_ok (Suc n) (s\<lparr>dp_fwd := set_tails w as (dp_fwd s)\<rparr>)"
    "dp_frames s = add_mset a (dp_frames (s\<lparr>dp_fwd := set_tails w as (dp_fwd s)\<rparr>))"
proof -
  have "fwd_frames (dp_fwd s) = add_mset a (fwd_frames (set_tails w as (dp_fwd s)))"
    using tails_update [OF w, of as "dp_fwd s"] some by simp
  then show f: "dp_frames s = add_mset a (dp_frames (s\<lparr>dp_fwd := set_tails w as (dp_fwd s)\<rparr>))" by (simp add: dp_frames_def)
  show "sender_ok (Suc n) (s\<lparr>dp_fwd := set_tails w as (dp_fwd s)\<rparr>)"
    using ok arg_cong [OF f, of size] by (simp add: sender_ok_def worker_ok_def dp_ok_def fwd_ok_def dp_out_ring_idx_def ne_packet_data_def)
qed

text \<open>What the steps of the sender leave alone.\<close>

definition rings_kept :: "'c dataplane \<Rightarrow> 'c dataplane \<Rightarrow> bool" where
  "rings_kept s s' \<longleftrightarrow> fw_mid_to_wan (dp_fwd s') = fw_mid_to_wan (dp_fwd s) \<and> fw_wan_count (dp_fwd s') = fw_wan_count (dp_fwd s)
     \<and> dp_crypto_current_worker_idx s' = dp_crypto_current_worker_idx s \<and> dp_out_ring_idx s' = dp_out_ring_idx s"

lemma rings_kept_refl [simp]: "rings_kept s s"
  by (simp add: rings_kept_def)

lemma rings_kept_trans: "rings_kept s s' \<Longrightarrow> rings_kept s' s'' \<Longrightarrow> rings_kept s s''"
  by (simp add: rings_kept_def)

lemma split_tail_safe:
  assumes ok: "sender_ok n s" and t: "split_tail_take wi s = (r, s')"
  shows "rings_kept s s'" "ne_packet_data s' = ne_packet_data s" "dp_opt s' = dp_opt s"
    "r = None \<Longrightarrow> sender_ok n s' \<and> dp_frames s' = dp_frames s"
    "r = Some a \<Longrightarrow> sender_ok (Suc n) s' \<and> dp_frames s = add_mset a (dp_frames s')"
proof -
  obtain as pool where al: "ne_frame_alloc_batch (pr_pool (fw_pair (dp_fwd s))) SPLIT_TAIL_REFILL_BATCH = (as, pool)" by fastforce
  show "rings_kept s s'" "ne_packet_data s' = ne_packet_data s" "dp_opt s' = dp_opt s"
    using t by (auto simp: split_tail_take_def Let_def al rings_kept_def ne_packet_data_def dp_crypto_current_worker_idx_def dp_out_ring_idx_def
        split: if_splits)
  have refill: "sender_ok n (s\<lparr>dp_fwd := set_tails (nat wi) as (set_pool pool (dp_fwd s))\<rparr>)
      \<and> dp_frames (s\<lparr>dp_fwd := set_tails (nat wi) as (set_pool pool (dp_fwd s))\<rparr>) = dp_frames s"
    if "0 \<le> wi" "wi < int NE_CRYPTO_WORKERS" "fw_split_tail_cache (dp_fwd s) (nat wi) = []"
    using refill_keeps [OF ok _ that(3) al] that by (simp add: nat_less_iff)
  show "r = None \<Longrightarrow> sender_ok n s' \<and> dp_frames s' = dp_frames s"
    using t ok refill by (auto simp: split_tail_take_def Let_def al split: if_splits)
  show "sender_ok (Suc n) s' \<and> dp_frames s = add_mset a (dp_frames s')" if r: "r = Some a"
  proof -
    have wi: "0 \<le> wi" "wi < int NE_CRYPTO_WORKERS" "nat wi < NE_CRYPTO_WORKERS"
      using t r by (auto simp: split_tail_take_def split: if_splits)
    show ?thesis
    proof (cases "fw_split_tail_cache (dp_fwd s) (nat wi) = []")
      case True
      let ?s = "s\<lparr>dp_fwd := set_tails (nat wi) as (set_pool pool (dp_fwd s))\<rparr>"
      have as: "as \<noteq> []" "a = last as" "s' = ?s\<lparr>dp_fwd := set_tails (nat wi) (butlast as) (dp_fwd ?s)\<rparr>"
        using t r wi True by (auto simp: split_tail_take_def Let_def al split: if_splits)
      have c: "fw_split_tail_cache (dp_fwd ?s) (nat wi) = butlast as @ [a]" using as by simp
      show ?thesis
        using take_tail_keeps [OF conjunct1 [OF refill [OF wi(1,2) True]] wi(3) c] refill [OF wi(1,2) True] as(3) by simp
    next
      case False
      have c: "fw_split_tail_cache (dp_fwd s) (nat wi) = butlast (fw_split_tail_cache (dp_fwd s) (nat wi)) @ [a]"
        and s': "s' = s\<lparr>dp_fwd := set_tails (nat wi) (butlast (fw_split_tail_cache (dp_fwd s) (nat wi))) (dp_fwd s)\<rparr>"
        using t r wi False by (auto simp: split_tail_take_def Let_def)
      show ?thesis using take_tail_keeps [OF ok wi(3) c] by (simp add: s')
    qed
  qed
qed

section \<open>Encryption of a packet of the LAN\<close>

text \<open>What a step of the sender adds to the rings of the WANs: packets for whose frames \<open>P\<close> holds.\<close>

definition wan_gains :: "(buf \<Rightarrow> nat \<Rightarrow> bool) \<Rightarrow> 'c dataplane \<Rightarrow> 'c dataplane \<Rightarrow> bool" where
  "wan_gains P s s' \<longleftrightarrow> (\<forall>i w. \<exists>new. ring_contents (fw_mid_to_wan (dp_fwd s') i w) = ring_contents (fw_mid_to_wan (dp_fwd s) i w) @ new
     \<and> (\<forall>p \<in> set new. P (ne_packet_data s' (pk_addr p)) (pk_len p)))"

lemma wan_gains_kept: "rings_kept s s' \<Longrightarrow> wan_gains P s s'"
  by (simp add: wan_gains_def rings_kept_def)

lemma wan_gains_before: "rings_kept s s1 \<Longrightarrow> wan_gains P s1 s' \<Longrightarrow> wan_gains P s s'"
  by (simp add: wan_gains_def rings_kept_def)

lemma wan_gains_mono: "wan_gains P s s' \<Longrightarrow> (\<And>b n. P b n \<Longrightarrow> Q b n) \<Longrightarrow> wan_gains Q s s'"
  by (simp add: wan_gains_def) metis

lemma sender_upd:
  assumes "sender_ok n s"
  shows "salt_fine opt \<Longrightarrow> tables_wf opt \<Longrightarrow> sender_ok n (s\<lparr>dp_opt := opt\<rparr>)" "sender_ok n (s\<lparr>dp_rt := rt, dp_tls := tls\<rparr>)"
    "sender_ok n (s\<lparr>dp_flow := fl\<rparr>)"
    "route_ok rs \<Longrightarrow> tls_out_ring_idx rs = tls_out_ring_idx (dp_route s) \<Longrightarrow> sender_ok n (s\<lparr>dp_route := rs\<rparr>)"
  using assms by (simp_all add: sender_ok_def worker_ok_def dp_ok_def dp_out_ring_idx_def ne_packet_data_def)

lemma sender_put: "sender_ok n s \<Longrightarrow> length b = NE_FRAME \<Longrightarrow> sender_ok n (put_frame a b s)"
  by (simp add: sender_ok_def worker_ok_put) (simp add: put_frame_def)

lemma rings_kept_put [simp]: "rings_kept s (put_frame a b s') = rings_kept s s'"
  by (simp add: rings_kept_def dp_crypto_current_worker_idx_def dp_out_ring_idx_def) (simp add: put_frame_def)

lemma rings_kept_upd [simp]: "rings_kept s (s'\<lparr>dp_opt := opt\<rparr>) = rings_kept s s'" "rings_kept s (s'\<lparr>dp_flow := fl\<rparr>) = rings_kept s s'"
  "rings_kept s (s'\<lparr>dp_rt := rt\<rparr>) = rings_kept s s'" "rings_kept s (s'\<lparr>dp_tls := tls\<rparr>) = rings_kept s s'"
  by (simp_all add: rings_kept_def dp_crypto_current_worker_idx_def dp_out_ring_idx_def)

lemma rings_kept_free [simp]: "rings_kept s (free_frame a s') = rings_kept s s'"
  by (simp add: rings_kept_def dp_crypto_current_worker_idx_def free_frame_def)

lemma rings_kept_route:
  "tls_out_ring_idx rs = tls_out_ring_idx (dp_route s) \<Longrightarrow> tls_crypto_worker_idx rs = tls_crypto_worker_idx (dp_route s) \<Longrightarrow> rings_kept s (s\<lparr>dp_route := rs\<rparr>)"
  by (simp add: rings_kept_def dp_crypto_current_worker_idx_def dp_out_ring_idx_def)

lemma sender_free:
  assumes "sender_ok (Suc n) s"
  shows "sender_ok n (free_frame a s)" "dp_frames (free_frame a s) = add_mset a (dp_frames s)"
  using assms worker_ok_free [of n s a] by (simp_all add: sender_ok_def free_frame_def)

lemma sender_data: "sender_ok n s \<Longrightarrow> length (ne_packet_data s a) = NE_FRAME"
  by (simp add: sender_ok_def worker_ok_def)

lemma ne_packet_data_upd [simp]: "ne_packet_data (s\<lparr>dp_opt := opt\<rparr>) = ne_packet_data s" "ne_packet_data (s\<lparr>dp_route := rs\<rparr>) = ne_packet_data s"
  "ne_packet_data (s\<lparr>dp_flow := fl\<rparr>) = ne_packet_data s" "ne_packet_data (s\<lparr>dp_rt := rt\<rparr>) = ne_packet_data s"
  "ne_packet_data (s\<lparr>dp_tls := tls\<rparr>) = ne_packet_data s" "ne_packet_data (free_frame a s) = ne_packet_data s"
  by (simp_all add: ne_packet_data_def fun_eq_iff free_frame_def)

lemma try_push_contents:
  assumes "ring_ok r" "ne_ring_try_push r p = Some r'"
  shows "ring_contents r' = ring_contents r @ [p]"
proof -
  have "length (ring_contents r) < unat (r_cap r)"
    using ring.bounded [OF assms(1)] ring.push_full [OF assms(1), of p] assms(2) by (cases "length (ring_contents r) = unat (r_cap r)") auto
  from ring.push_room [OF assms(1) this, of p] show ?thesis using assms(2) by auto
qed

text \<open>The two pushes. The frames of the pair enter the ring together, or the tail goes back to the pool.\<close>

lemma push_wan_keeps:
  assumes ok: "sender_ok (Suc n) s" and i: "i < MAX_INTERFACES" and p: "push_wan i job s = (b, s')"
    and f: "b \<Longrightarrow> P (ne_packet_data s (pk_addr job)) (pk_len job)"
  shows "sender_ok n s'" "dp_frames s' = add_mset (pk_addr job) (dp_frames s)" "wan_gains P s s'"
proof -
  have dp: "dp_ok (Suc n) s" using ok by (simp add: sender_ok_def worker_ok_def)
  obtain b' r pool k where q: "dp_ring_push (pr_frame_size (fw_pair (dp_fwd s))) (fw_mid_to_wan (dp_fwd s) i (dp_out_ring_idx s)) (pr_pool (fw_pair (dp_fwd s))) job
      = (b', r, pool, k)" by (metis prod_cases4)
  have s': "s' = s\<lparr>dp_fwd := set_pool pool (set_ring i (dp_out_ring_idx s) r (dp_fwd s))\<rparr>" "b = b'" using p by (simp_all add: push_wan_def Let_def q)
  show "dp_frames s' = add_mset (pk_addr job) (dp_frames s)" by (rule push_wan_owned(1) [OF dp i p])
  show "sender_ok n s'"
    using ok push_wan_owned(2) [OF dp i p] by (simp add: sender_ok_def worker_ok_def s' ne_packet_data_def)
  have rg: "ring_ok (fw_mid_to_wan (dp_fwd s) i (dp_out_ring_idx s))" "pool_ok (pr_pool (fw_pair (dp_fwd s)))"
    using dp by (simp_all add: dp_ok_def fwd_ok_def)
  note g = dp_ring_push_frames [OF rg pool_has_room [OF dp] q]
  have "r = fw_mid_to_wan (dp_fwd s) i (dp_out_ring_idx s) \<or> b \<and> ring_contents r = ring_contents (fw_mid_to_wan (dp_fwd s) i (dp_out_ring_idx s)) @ [job]"
    using g s'(2) try_push_contents [OF rg(1)] by auto
  then show "wan_gains P s s'" using f by (auto simp: wan_gains_def s' ne_packet_data_def)
qed

lemma push_split_keeps:
  assumes ok: "sender_ok (Suc (Suc n)) s" and w: "wan_dp < fw_wan_count (dp_fwd s)"
    and p: "push_split_to_wan job l1 tail l2 wan_dp s = (b, s')"
    and f: "P (ne_packet_data s (pk_addr job)) l1" "P (ne_packet_data s (pk_addr tail)) l2"
  shows "if b then sender_ok n s' \<and> dp_frames s' = add_mset (pk_addr job) (add_mset (pk_addr tail) (dp_frames s)) \<and> wan_gains P s s'
    else sender_ok (Suc n) s' \<and> dp_frames s' = add_mset (pk_addr tail) (dp_frames s) \<and> rings_kept s s' \<and> ne_packet_data s' = ne_packet_data s"
proof -
  let ?fwd = "dp_fwd s" and ?ri = "dp_out_ring_idx s" and ?i = "nat wan_dp"
  let ?tx = "fw_mid_to_wan ?fwd ?i ?ri"
  let ?tail = "tail\<lparr>pk_len := l2, pk_dir := NE_DIR_WAN, pk_wan_idx := of_int wan_dp\<rparr>"
  let ?job = "job\<lparr>pk_len := l1, pk_dir := NE_DIR_WAN, pk_wan_idx := of_int wan_dp\<rparr>"
  have dp: "dp_ok (Suc (Suc n)) s" using ok by (simp add: sender_ok_def worker_ok_def)
  have rg: "ring_ok ?tx" using dp by (simp add: dp_ok_def fwd_ok_def)
  have freed: ?thesis if "b = False" "s' = free_frame (pk_addr tail) s"
    using that sender_free [OF ok] by simp
  show ?thesis
  proof (cases "wan_dp < 0 \<or> wan_dp \<ge> fw_wan_count ?fwd \<or> ne_ring_count ?tx + 2 > r_cap ?tx \<or> l1 = 0 \<or> l2 = 0
      \<or> l1 > pr_frame_size (fw_pair ?fwd) \<or> l2 > pr_frame_size (fw_pair ?fwd)")
    case True
    then show ?thesis using p freed by (auto simp: push_split_to_wan_def Let_def split: if_splits)
  next
    case False
    then have step: "push_split_to_wan job l1 tail l2 wan_dp s = (case ne_ring_try_push_pair ?tx ?job ?tail of
        None \<Rightarrow> (False, free_frame (pk_addr tail) s) | Some tx \<Rightarrow> (True, with_fwd (set_ring ?i ?ri tx) s))"
      by (simp add: push_split_to_wan_def Let_def split: option.split)
    show ?thesis
    proof (cases "ne_ring_try_push_pair ?tx ?job ?tail")
      case None
      then show ?thesis using p freed by (simp add: step)
    next
      case (Some tx)
      have s': "b = True" "s' = with_fwd (set_ring ?i ?ri tx) s" using p by (simp_all add: step Some)
      have "ne_ring_count ?tx + 2 \<le> r_cap ?tx" using False by (simp add: linorder_not_less)
      moreover have "length (ring_contents ?tx) \<le> unat (r_cap ?tx)" using ring.bounded [OF rg] .
      moreover obtain k where "k < 32" "r_cap ?tx = 2 ^ k" using rg by (auto simp: ring_ok_def)
      then have "unat (r_cap ?tx) \<le> 2 ^ 31" using power_increasing [of k 31 "2 :: nat"] by (simp add: unat_pow2)
      ultimately have two: "2 \<le> unat (r_cap ?tx)"
        unfolding word_le_nat_alt length_ring_contents by (simp add: unat_word_ariths)
      from ne_ring_push_pair_atomic [OF rg two, of ?job ?tail]
      have c: "ring_ok tx" "ring_contents tx = ring_contents ?tx @ [?job, ?tail]" by (simp_all add: Some)
      have i: "?i < MAX_INTERFACES" using ok w False by (auto simp: sender_ok_def)
      have ri: "?ri < NE_CRYPTO_WORKERS" using dp by (simp add: dp_ok_def)
      have "grid_frames ((fw_mid_to_wan ?fwd)(?i := (fw_mid_to_wan ?fwd ?i)(?ri := tx))) + ring_frames ?tx = grid_frames (fw_mid_to_wan ?fwd) + ring_frames tx"
        by (rule grid_update [OF i ri])
      then have "grid_frames ((fw_mid_to_wan ?fwd)(?i := (fw_mid_to_wan ?fwd ?i)(?ri := tx))) = add_mset (pk_addr job) (add_mset (pk_addr tail) (grid_frames (fw_mid_to_wan ?fwd)))"
        by (simp add: ring_frames_def c(2))
      then have fr: "dp_frames s' = add_mset (pk_addr job) (add_mset (pk_addr tail) (dp_frames s))"
        by (simp add: s' dp_frames_def fwd_frames_def)
      have "sender_ok n s'"
        using ok c(1) arg_cong [OF fr, of size]
        by (simp add: s'(2) sender_ok_def worker_ok_def dp_ok_def fwd_ok_def ne_packet_data_def)
      moreover have "wan_gains P s s'" using f c(2) by (auto simp: wan_gains_def s' ne_packet_data_def)
      ultimately show ?thesis using s'(1) fr by simp
    qed
  qed
qed

text \<open>The encryption: with a negative result the frame stays with the worker and no ring has changed; with \<open>0\<close> the frame is
  sealed and no ring has changed; with a positive result the frame and its tail are on their way, both sealed.\<close>

definition encrypted_step :: "'c scrypt_lib \<Rightarrow> packet_crypto_ctx \<Rightarrow> u64 \<Rightarrow> 'c dataplane \<Rightarrow> int \<times> ne_packet \<times> 'c dataplane \<Rightarrow> bool" where
  "encrypted_step lib ctx a s = (\<lambda>(enc, job, s'). pk_addr job = a \<and>
     (if enc > 0 then sender_ok 0 s' \<and> dp_frames s' = add_mset a (dp_frames s) \<and> wan_gains (sealed_under lib ctx) s s'
      else sender_ok 1 s' \<and> dp_frames s' = dp_frames s \<and> rings_kept s s'
        \<and> (enc = 0 \<longrightarrow> sealed_under lib ctx (ne_packet_data s' a) (pk_len job))))"

lemma encrypt_frame_safe:
  assumes lib: "lib_fine (de_lib env)" and ok: "sender_ok 1 s" and a: "pk_addr job \<notin># dp_frames s" and n: "pk_len job + 30 \<le> NE_FRAME"
    and ip: "crypto_pkt_is_ipv4 (ne_packet_data s (pk_addr job)) (pk_len job) = Some True" and pc: "pclass \<noteq> CRYPTO_PROTO_ARP"
    and w: "wan_dp < fw_wan_count (dp_fwd s)" and pkt: "pkt = ne_packet_data s (pk_addr job)"
  shows "mem_ok (encrypted_step (de_lib env) ctx (pk_addr job) s)
    (if crypto_option_need_split (de_lib env) (de_os env) CRYPTO_OPT_L2_PQC pclass (dp_opt s) (of_nat (pk_len job)) then
       (case split_tail_take wi s of
          (None, s) \<Rightarrow> Some (-1, job, s)
        | (Some a, s) \<Rightarrow> do {
            let size = pr_frame_size (fw_pair (dp_fwd s));
            (r, pkt, tail_buf, opt) \<leftarrow> crypto_option_split (de_lib env) (de_os env) CRYPTO_OPT_L2_PQC pclass ctx (dp_opt s)
               pkt (pk_len job) size (ne_packet_data s a) size;
            let s = put_frame a tail_buf (put_frame (pk_addr job) pkt (s\<lparr>dp_opt := opt\<rparr>));
            case r of
              None \<Rightarrow> Some (-1, job, free_frame a s)
            | Some (l1, l2) \<Rightarrow>
                (case push_split_to_wan job l1 (ne_packet_zero\<lparr>pk_addr := a\<rparr>) l2 wan_dp s of
                   (ok, s) \<Rightarrow> Some (if ok then 1 else -1, job, s)) })
     else do {
       (rc, len, pkt, opt) \<leftarrow> crypto_option_encrypt (de_lib env) (de_os env) CRYPTO_OPT_L2_PQC pclass ctx (dp_opt s)
         pkt (pk_len job);
       let s = put_frame (pk_addr job) pkt (s\<lparr>dp_opt := opt\<rparr>);
       if rc \<noteq> 0 then Some (-1, job, s) else Some (0, job\<lparr>pk_len := len\<rparr>, s) })"
    (is "mem_ok ?P (if ?split then ?S else ?E)")
proof -
  note pkt [simp]
  let ?a = "pk_addr job" and ?n = "pk_len job" and ?b = "ne_packet_data s (pk_addr job)" and ?lib = "de_lib env"
  have st: "salt_fine (dp_opt s)" "tables_wf (dp_opt s)" and b: "length ?b = NE_FRAME" "?n \<le> length ?b"
    using ok n sender_data [OF ok, of ?a] by (simp_all add: sender_ok_def worker_ok_def)
  have upd: "sender_ok k (s1\<lparr>dp_opt := opt\<rparr>)" if "sender_ok k s1" "dp_opt s1 = dp_opt s" "opt_only (dp_opt s) opt" for k s1 opt
    using that st opt_only_tables [OF that(3)] by (intro sender_upd(1)) (simp_all add: opt_only_def tables_wf_def)
  have "mem_ok ?P ?E" unfolding pkt
  proof (rule mem_ok_bind [OF option_encrypt_safe [OF lib st(1) b(1) n ip pc]], goal_cases)
    case (1 x)
    obtain rc k pkt opt where x: "x = (rc, k, pkt, opt)" by (metis prod_cases4)
    have s1: "sender_ok 1 (put_frame ?a pkt (s\<lparr>dp_opt := opt\<rparr>))"
      using 1 x upd [OF ok refl] b by (intro sender_put) (simp_all add: sent_rc_def)
    show ?case using 1 x s1 by (simp add: sent_rc_def encrypted_step_def Let_def)
  qed
  moreover have "mem_ok ?P ?S"
  proof (cases "split_tail_take wi s")
    case (Pair r s1)
    note t = split_tail_safe [OF ok Pair]
    show ?thesis
    proof (cases r)
      case None
      then show ?thesis using t(1,4) by (simp add: Pair encrypted_step_def)
    next
      case (Some tl)
      have s1: "sender_ok 2 s1" "dp_frames s = add_mset tl (dp_frames s1)" using t(5) [OF Some] by (simp_all add: numeral_2_eq_2)
      have ne: "tl \<noteq> ?a" using a s1(2) by auto
      have fs: "pr_frame_size (fw_pair (dp_fwd s1)) = NE_FRAME" using s1(1) by (simp add: sender_ok_def)
      have "mem_ok ?P (do {
            (r, pkt, tail_buf, opt) \<leftarrow> crypto_option_split ?lib (de_os env) CRYPTO_OPT_L2_PQC pclass ctx (dp_opt s) ?b ?n NE_FRAME (ne_packet_data s tl) NE_FRAME;
            let s = put_frame tl tail_buf (put_frame ?a pkt (s1\<lparr>dp_opt := opt\<rparr>));
            case r of
              None \<Rightarrow> Some (-1, job, free_frame tl s)
            | Some (l1, l2) \<Rightarrow>
                (case push_split_to_wan job l1 (ne_packet_zero\<lparr>pk_addr := tl\<rparr>) l2 wan_dp s of
                   (ok, s) \<Rightarrow> Some (if ok then 1 else -1, job, s)) })"
      proof (rule mem_ok_bind [OF option_split_safe [OF lib st(1) b(2)]], goal_cases)
        case (3 x)
        obtain r pkt tb opt where x: "x = (r, pkt, tb, opt)" by (metis prod_cases4)
        let ?s = "put_frame tl tb (put_frame ?a pkt (s1\<lparr>dp_opt := opt\<rparr>))"
        have sp: "length pkt = NE_FRAME" "length tb = NE_FRAME" "opt_only (dp_opt s) opt"
          using 3 x b sender_data [OF ok] by (simp_all add: split_sent_def)
        have s2: "sender_ok 2 ?s" using upd [OF s1(1) t(3) sp(3)] sp by (intro sender_put)
        have keep: "rings_kept s ?s" using t(1) by simp
        show ?case
        proof (cases r)
          case None
          have "sender_ok 1 (free_frame tl ?s)" "dp_frames (free_frame tl ?s) = dp_frames s"
            using sender_free [of 1 ?s tl] s2 s1(2) by (simp_all add: numeral_2_eq_2)
          then show ?thesis using x None keep by (simp add: encrypted_step_def Let_def)
        next
          case ls: (Some ls)
          obtain l1 l2 where l: "ls = (l1, l2)" by fastforce
          have seal: "sealed_under ?lib ctx (ne_packet_data ?s ?a) l1" "sealed_under ?lib ctx (ne_packet_data ?s tl) l2"
            using 3 x ls l ne by (simp_all add: split_sent_def)
          obtain ok' s3 where p: "push_split_to_wan job l1 (ne_packet_zero\<lparr>pk_addr := tl\<rparr>) l2 wan_dp ?s = (ok', s3)" by fastforce
          have w': "wan_dp < fw_wan_count (dp_fwd ?s)" using w t(1) by (simp add: rings_kept_def put_frame_def)
          have seal': "sealed_under ?lib ctx (ne_packet_data ?s (pk_addr (ne_packet_zero\<lparr>pk_addr := tl\<rparr>))) l2" using seal(2) by simp
          note g = push_split_keeps [where P = "sealed_under ?lib ctx", OF s2 [unfolded numeral_2_eq_2] w' p seal(1) seal']
          show ?thesis
          proof (cases ok')
            case True
            then show ?thesis using g x ls l p s1(2) wan_gains_before [OF keep] by (simp add: encrypted_step_def Let_def)
          next
            case False
            then have "sender_ok 1 s3" "dp_frames s3 = dp_frames s" "rings_kept ?s s3" using g s1(2) by simp_all
            then show ?thesis using False x ls l p rings_kept_trans [OF keep] by (simp add: encrypted_step_def Let_def)
          qed
        qed
      qed (use b sender_data [OF ok] in simp_all)
      then show ?thesis by (simp add: Pair Some fs t(2,3))
    qed
  qed
  ultimately show ?thesis by simp
qed

lemma encrypt_to_wan_safe:
  assumes lib: "lib_fine (de_lib env)" and ok: "sender_ok 1 s" and a: "pk_addr job \<notin># dp_frames s" and n: "pk_len job + 30 \<le> NE_FRAME"
    and ip: "crypto_pkt_is_ipv4 (ne_packet_data s (pk_addr job)) (pk_len job) = Some True" and pc: "pclass \<noteq> CRYPTO_PROTO_ARP"
    and w: "wan_dp < fw_wan_count (dp_fwd s)"
  shows "mem_ok (encrypted_step (de_lib env) ctx (pk_addr job) s) (encrypt_to_wan env job wan_dp ctx pclass True s)"
proof -
  let ?pkt = "ne_packet_data s (pk_addr job)"
  have ro: "route_ok (dp_route s)" and len: "pk_len job \<le> length ?pkt"
    using ok n sender_data [OF ok, of "pk_addr job"] by (simp_all add: sender_ok_def worker_ok_def)
  define kept where "kept = (\<lambda>(seq_ok :: bool, s1). sender_ok 1 s1 \<and> rings_kept s s1 \<and> dp_frames s1 = dp_frames s \<and> ne_packet_data s1 = ne_packet_data s)"
  have seq: "mem_ok kept (if pclass = CRYPTO_PROTO_UDP then
         if \<not> True then Some (False, s)
         else do {
           (udp_seq, rs) \<leftarrow> dp_udp_next_tx_seq ?pkt (pk_len job) (dp_route s);
           let s = s\<lparr>dp_route := rs\<rparr>;
           Some (case udp_seq of None \<Rightarrow> (False, s) | Some q \<Rightarrow> (True, s\<lparr>dp_opt := crypto_option_udp_set_tx_seq q (dp_opt s)\<rparr>)) }
       else Some (True, s))"
  proof (rule mem_ok_if, simp, rule mem_ok_bind [OF next_tx_seq_safe [OF len ro]], goal_cases)
    case (1 x)
    obtain q rs where x: "x = (q, rs)" by fastforce
    have s1: "sender_ok 1 (s\<lparr>dp_route := rs\<rparr>)" "rings_kept s (s\<lparr>dp_route := rs\<rparr>)"
      using 1 x sender_upd(4) [OF ok] rings_kept_route by auto
    have fine: "salt_fine (crypto_option_udp_set_tx_seq v (dp_opt s))" "tables_wf (crypto_option_udp_set_tx_seq v (dp_opt s))" for v
      using ok by (simp_all add: sender_ok_def worker_ok_def crypto_option_udp_set_tx_seq_def salt_fine_def tables_wf_def)
    show ?case
      using s1 sender_upd(1) [OF s1(1) fine]
      by (cases q) (simp_all add: x kept_def Let_def)
  qed (use ok in \<open>simp add: kept_def\<close>)
  show ?thesis
    unfolding encrypt_to_wan_def Let_def [of "dp_crypto_current_worker_idx s"] Let_def [of ?pkt]
  proof (rule mem_ok_bind [OF seq], goal_cases)
    case (1 x)
    obtain seq_ok s1 where x: "x = (seq_ok, s1)" by fastforce
    have k: "sender_ok 1 s1" "rings_kept s s1" "dp_frames s1 = dp_frames s" "ne_packet_data s1 = ne_packet_data s"
      using 1 by (simp_all add: x kept_def)
    have step: "encrypted_step (de_lib env) ctx (pk_addr job) s1 y \<Longrightarrow> encrypted_step (de_lib env) ctx (pk_addr job) s y" for y
      using k by (auto simp: encrypted_step_def intro: wan_gains_before rings_kept_trans split: if_splits)
    have a1: "pk_addr job \<notin># dp_frames s1" and ip1: "crypto_pkt_is_ipv4 (ne_packet_data s1 (pk_addr job)) (pk_len job) = Some True"
      and w1: "wan_dp < fw_wan_count (dp_fwd s1)" using a ip w k by (simp_all add: rings_kept_def)
    have pk1: "?pkt = ne_packet_data s1 (pk_addr job)" using k(4) by simp
    note e = mem_ok_mono [OF encrypt_frame_safe [OF lib k(1) a1 n ip1 pc w1 pk1] step]
    show ?case
      unfolding x prod.case
      by (rule mem_ok_if, use k in \<open>simp add: encrypted_step_def\<close>, rule e)
  qed
qed

section \<open>The clamp and the handler\<close>

lemma clamp_keeps_ipv4:
  assumes n: "n \<le> length b" and c: "crypto_tcp_clamp_mss b n mtu ov = Some (rc, b')"
  shows "length b' = length b" "crypto_pkt_is_ipv4 b' n = crypto_pkt_is_ipv4 b n"
proof -
  have "length b' = length b \<and> (\<forall>i < 18. b' ! i = b ! i)"
    using clamp_cases [OF n, of mtu ov]
  proof (elim exE conjE disjE, goal_cases)
    case (1 ret pkt')
    then show ?thesis using c by simp
  next
    case (2 ret pkt')
    then show ?thesis using c by simp
  next
    case (3 ret pkt' l3 ihl off)
    let ?cap = "tcp_mss_cap mtu (of_nat ihl) ov"
    have k: "20 \<le> off" "l3 + ihl + off + 4 \<le> length b" "14 \<le> l3" "b' = clamped b (l3 + ihl) off ?cap"
      using 3 c n ipv4_offset_spec [OF n] by (fastforce simp: Let_def)+
    show ?thesis using clamped_frame(1,3) [OF k(1,2), where cap = ?cap] k by auto
  qed
  then show "length b' = length b" "crypto_pkt_is_ipv4 b' n = crypto_pkt_is_ipv4 b n"
    using n by (simp_all add: crypto_pkt_is_ipv4_def crypto_eth_ipv4_offset_def crypto_eth_inner_et_off_def eth_read_et_ok et_at_def)
qed

lemma parsed_flow_is_ipv4: "dp_parse_flow b n = Some (Some f) \<Longrightarrow> crypto_pkt_is_ipv4 b n = Some True"
  by (auto simp: dp_parse_flow_def crypto_pkt_is_ipv4_def split: bind_splits option.splits)

text \<open>The policy of a packet, and which frames may leave because of it: any frame under a policy that bypasses encryption,
  only frames sealed under the current key of the policy otherwise.\<close>

definition local_idx :: "ne_packet \<Rightarrow> 'c dataplane \<Rightarrow> int" where
  "local_idx job s = (if uint (pk_local_idx job) < fw_local_count (dp_fwd s) then uint (pk_local_idx job) else 0)"

definition local_policy :: "ne_packet \<Rightarrow> 'c dataplane \<Rightarrow> nat option" where
  "local_policy job s = (case dp_parse_flow (ne_packet_data s (pk_addr job)) (pk_len job) of
     None \<Rightarrow> None | Some flow \<Rightarrow> pick_profile_policy (dp_fwd s) (local_idx job s) flow)"

definition policy_key_ctx :: "nat \<Rightarrow> 'c dataplane \<Rightarrow> packet_crypto_ctx option" where
  "policy_key_ctx pi s = fst (fwd_crypto_policy_ctx (dp_crypto_current_worker_idx s) (int pi) (dp_rt s) (dp_tls s))"

definition may_leave :: "'c scrypt_lib \<Rightarrow> ne_packet \<Rightarrow> 'c dataplane \<Rightarrow> buf \<Rightarrow> nat \<Rightarrow> bool" where
  "may_leave lib job s b n \<longleftrightarrow> (\<exists>pi. local_policy job s = Some pi \<and>
     (cp_action (ac_policies (fw_cfg (dp_fwd s)) ! pi) = POLICY_ACTION_BYPASS
      \<or> (\<exists>ctx. policy_key_ctx pi s = Some ctx \<and> sealed_under lib ctx b n)))"

definition egressed :: "'c scrypt_lib \<Rightarrow> ne_packet \<Rightarrow> 'c dataplane \<Rightarrow> 'c dataplane \<Rightarrow> bool" where
  "egressed lib job s s' \<longleftrightarrow> sender_ok 0 s' \<and> dp_frames s' = add_mset (pk_addr job) (dp_frames s) \<and> wan_gains (may_leave lib job s) s s'"

lemma egressed_drop:
  assumes "sender_ok 1 s1" "dp_frames s1 = dp_frames s" "rings_kept s s1"
  shows "egressed lib job s (free_frame (pk_addr job) s1)"
  using assms sender_free [of 0 s1 "pk_addr job"] wan_gains_kept [of s "free_frame (pk_addr job) s1"] by (simp add: egressed_def)

lemma egressed_push:
  assumes s1: "sender_ok 1 s1" "dp_frames s1 = dp_frames s" "rings_kept s s1" and w: "0 \<le> wan_dp" "wan_dp < fw_wan_count (dp_fwd s)"
    and a: "pk_addr job' = pk_addr job" and f: "may_leave lib job s (ne_packet_data s1 (pk_addr job)) (pk_len job')"
  shows "egressed lib job s (snd (push_to_wan job' wan_dp s1))"
proof -
  have i: "nat wan_dp < MAX_INTERFACES" using s1(1,3) w by (auto simp: sender_ok_def rings_kept_def)
  obtain ok s' where p: "push_to_wan job' wan_dp s1 = (ok, s')" by fastforce
  have p': "push_wan (nat wan_dp) (job'\<lparr>pk_dir := NE_DIR_WAN, pk_wan_idx := of_int wan_dp\<rparr>) s1 = (ok, s')" using p by (simp add: push_to_wan_def)
  have ok1: "sender_ok (Suc 0) s1" using s1(1) by simp
  from push_wan_keeps [OF ok1 i p', of "may_leave lib job s"] f a s1(2) wan_gains_before [OF s1(3)] show ?thesis
    by (simp add: p egressed_def)
qed

lemma no_arp_class: "crypto_proto_classify p \<noteq> CRYPTO_PROTO_ARP"
  by (simp add: crypto_proto_classify_def)

lemma policy_ctx_upd [simp]: "policy_key_ctx pi (put_frame a b s) = policy_key_ctx pi s" "policy_key_ctx pi (s\<lparr>dp_flow := fl\<rparr>) = policy_key_ctx pi s"
  by (simp_all add: policy_key_ctx_def dp_crypto_current_worker_idx_def) (simp add: put_frame_def)

lemma encrypt_local_safe:
  assumes lib: "lib_fine (de_lib env)" and ok: "sender_ok 1 s1" and s1: "dp_frames s1 = dp_frames s" "rings_kept s s1"
    and a: "pk_addr job \<notin># dp_frames s" and n: "pk_len job + 30 \<le> NE_FRAME"
    and ip: "crypto_pkt_is_ipv4 (ne_packet_data s1 (pk_addr job)) (pk_len job) = Some True"
    and w: "0 \<le> wan_dp" "wan_dp < fw_wan_count (dp_fwd s)"
    and pol: "local_policy job s = Some pi" "policy_key_ctx pi s1 = policy_key_ctx pi s"
  shows "mem_ok (egressed (de_lib env) job s) (encrypt_local env job f pi wan_dp s1)"
proof -
  let ?a = "pk_addr job" and ?b = "ne_packet_data s1 (pk_addr job)"
  have nb: "pk_len job \<le> length ?b" using n sender_data [OF ok] by simp
  obtain rc b' where c: "crypto_tcp_clamp_mss ?b (pk_len job) CRYPTO_OPT_FRAG_MTU_DEFAULT (crypto_option_wire_overhead CRYPTO_OPT_L2_PQC) = Some (rc, b')"
    using clamp_cases [OF nb] by blast
  note ck = clamp_keeps_ipv4 [OF nb c]
  define s2 where "s2 = (if f5_proto f = IPPROTO_TCP then put_frame ?a b' s1 else s1)"
  have cl: "(if f5_proto f = IPPROTO_TCP then do {
             (rc, pkt) \<leftarrow> crypto_tcp_clamp_mss ?b (pk_len job) CRYPTO_OPT_FRAG_MTU_DEFAULT (crypto_option_wire_overhead CRYPTO_OPT_L2_PQC);
             Some (put_frame ?a pkt s1) }
           else Some s1) = Some s2" by (simp add: s2_def c)
  have k2: "sender_ok 1 s2" "dp_frames s2 = dp_frames s" "rings_kept s s2" "crypto_pkt_is_ipv4 (ne_packet_data s2 ?a) (pk_len job) = Some True"
    "policy_key_ctx pi s2 = policy_key_ctx pi s" "dp_rt s2 = dp_rt s1"
    using ok s1 ip ck sender_put [OF ok] sender_data [OF ok] pol(2) by (simp_all add: s2_def)
  show ?thesis
  proof (cases "pi \<ge> MAX_CRYPTO_POLICIES \<or> \<not> fwd_crypto_policy_ready (int pi) (dp_rt s2)")
    case True
    then show ?thesis
      unfolding encrypt_local_def Let_def [of ?b] cl Option.bind.simps using egressed_drop [OF k2(1-3)] by (simp add: drop_local_def)
  next
    case False
    obtain c rt tls where pc: "fwd_crypto_policy_ctx (dp_crypto_current_worker_idx s2) (int pi) (dp_rt s2) (dp_tls s2) = (c, rt, tls)"
      by (metis prod_cases3)
    let ?s3 = "s2\<lparr>dp_rt := rt, dp_tls := tls\<rparr>"
    have k3: "sender_ok 1 ?s3" "dp_frames ?s3 = dp_frames s" "rings_kept s ?s3" "ne_packet_data ?s3 = ne_packet_data s2"
      using sender_upd(2) [OF k2(1)] k2(2,3) by simp_all
    show ?thesis
    proof (cases c)
      case None
      then show ?thesis
        unfolding encrypt_local_def Let_def [of ?b] cl Option.bind.simps using False egressed_drop [OF k3(1-3)] by (simp add: pc drop_local_def)
    next
      case (Some ctx)
      have key: "policy_key_ctx pi s = Some ctx" using k2(5) pc Some by (simp add: policy_key_ctx_def)
      have leave: "may_leave (de_lib env) job s b m" if "sealed_under (de_lib env) ctx b m" for b m
        using that pol(1) key by (auto simp: may_leave_def)
      have a3: "?a \<notin># dp_frames ?s3" and ip3: "crypto_pkt_is_ipv4 (ne_packet_data ?s3 ?a) (pk_len job) = Some True"
        and w3: "wan_dp < fw_wan_count (dp_fwd ?s3)" using a k3 k2(4) w(2) by (simp_all add: rings_kept_def)
      have "mem_ok (egressed (de_lib env) job s) (do {
           (enc, job, s) \<leftarrow> encrypt_to_wan env job wan_dp ctx (crypto_proto_classify (f5_proto f)) True ?s3;
           if enc < 0 then Some (drop_local job s)
           else if enc > 0 then Some s
           else Some (snd (push_to_wan job wan_dp s)) })"
      proof (rule mem_ok_bind [OF encrypt_to_wan_safe [OF lib k3(1) a3 n ip3 no_arp_class w3]], goal_cases)
        case (1 x)
        obtain enc job' s4 where x: "x = (enc, job', s4)" by (metis prod_cases3)
        note st = 1 [unfolded x encrypted_step_def prod.case]
        consider "enc < 0" | "enc > 0" | "enc = 0" by linarith
        then show ?case
        proof cases
          assume "enc < 0"
          then have "sender_ok 1 s4" "dp_frames s4 = dp_frames s" "rings_kept s s4" "pk_addr job' = ?a"
            using st k3(2) rings_kept_trans [OF k3(3)] by simp_all
          from egressed_drop [OF this(1-3), of "de_lib env" job] this(4) \<open>enc < 0\<close> show ?thesis by (simp add: x drop_local_def)
        next
          assume "enc > 0"
          then have "sender_ok 0 s4" "dp_frames s4 = add_mset ?a (dp_frames s)" "wan_gains (sealed_under (de_lib env) ctx) ?s3 s4"
            using st k3(2) by simp_all
          then show ?thesis using \<open>enc > 0\<close> wan_gains_before [OF k3(3)] wan_gains_mono leave by (simp add: x egressed_def) blast
        next
          assume "enc = 0"
          then have e: "sender_ok 1 s4" "dp_frames s4 = dp_frames s" "rings_kept s s4" "pk_addr job' = ?a"
              "sealed_under (de_lib env) ctx (ne_packet_data s4 ?a) (pk_len job')"
            using st k3(2) rings_kept_trans [OF k3(3)] by simp_all
          then show ?thesis using \<open>enc = 0\<close> egressed_push [OF e(1-3) w e(4) leave [OF e(5)]] by (simp add: x)
        qed
      qed
      then show ?thesis
        unfolding encrypt_local_def Let_def [of ?b] cl Option.bind.simps using False by (simp add: pc Some)
    qed
  qed
qed

lemma process_local_safe:
  assumes lib: "lib_fine (de_lib env)" and ok: "sender_ok 1 s" and a: "pk_addr job \<notin># dp_frames s" and n: "pk_len job + 30 \<le> NE_FRAME"
    and arp: "dp_pkt_is_arp (ne_packet_data s (pk_addr job)) (pk_len job) = Some False"
  shows "mem_ok (egressed (de_lib env) job s) (dataplane_process_local env job s)"
proof -
  let ?b = "ne_packet_data s (pk_addr job)"
  have nb: "pk_len job \<le> length ?b" using n sender_data [OF ok] by simp
  obtain flow where fl: "dp_parse_flow ?b (pk_len job) = Some flow" using packet_parsers_total [OF nb] by blast
  have pol: "local_policy job s = pick_profile_policy (dp_fwd s) (local_idx job s) flow" by (simp add: local_policy_def fl)
  have drop: "egressed (de_lib env) job s (drop_local job s)" using egressed_drop [OF ok] by (simp add: drop_local_def)
  show ?thesis
  proof (cases "pick_profile_policy (dp_fwd s) (local_idx job s) flow")
    case None
    then show ?thesis using drop by (simp add: dataplane_process_local_def fl arp local_idx_def)
  next
    case (Some pi)
    then obtain f where f: "flow = Some f" by (cases flow) (auto simp: pick_profile_policy_def Let_def split: if_splits)
    obtain wan_dp t where pk: "fwd_wan_pick_for_local (de_calloc_ok env) (dp_fwd s) (dp_sched s) (dp_route s) (de_now_ms env) (dp_flow s) 0 True
        (f5_src_ip f) (f5_dst_ip f) (f5_src_port f) (f5_dst_port f) (f5_proto f) = (wan_dp, t)" by fastforce
    let ?s = "s\<lparr>dp_flow := t\<rparr>"
    have s1: "sender_ok 1 ?s" "dp_frames ?s = dp_frames s" "rings_kept s ?s" using sender_upd(3) [OF ok] by simp_all
    have drop1: "egressed (de_lib env) job s (drop_local job ?s)" using egressed_drop [OF s1] by (simp add: drop_local_def)
    show ?thesis
    proof (cases "wan_dp < 0 \<or> \<not> fwd_wan_has_tx_room (dp_fwd s) (dp_route s) wan_dp")
      case True
      then show ?thesis
        using drop1 Some by (simp add: dataplane_process_local_def fl arp local_idx_def f pk)
    next
      case False
      then have w: "0 \<le> wan_dp" "wan_dp < fw_wan_count (dp_fwd s)" by (simp_all add: fwd_wan_has_tx_room_def)
      have ip: "crypto_pkt_is_ipv4 (ne_packet_data ?s (pk_addr job)) (pk_len job) = Some True" using parsed_flow_is_ipv4 fl f by simp
      have byp: "egressed (de_lib env) job s (snd (push_to_wan job wan_dp ?s))"
        if "cp_action (ac_policies (fw_cfg (dp_fwd s)) ! pi) = POLICY_ACTION_BYPASS"
        by (rule egressed_push [OF s1 w refl]) (use that pol Some in \<open>simp add: may_leave_def\<close>)
      have enc: "mem_ok (egressed (de_lib env) job s) (encrypt_local env job f pi wan_dp ?s)"
        by (rule encrypt_local_safe [OF lib s1 a n ip w]) (use pol Some in simp_all)
      show ?thesis
        using False drop1 byp enc Some by (simp add: dataplane_process_local_def fl arp local_idx_def f pk Let_def)
    qed
  qed
qed

section \<open>The properties\<close>

text \<open>C11: the handler of LAN packets is safe for what the XDP filter of the LAN hands over. Take a frame that the filter
  redirects and that is not ARP. In a state that satisfies the invariants of its parts, where nobody else owns the frame,
  and for a cipher library that writes no more bytes than it is given and delivers whole tags and random bytes, the
  handler returns: it reads and writes inside its frames and tables only. It keeps the invariants, and the frames in pool,
  rings, tail caches and reorder buffer together gain the frame of the packet and nothing else, also when a datagram is
  split and a second frame is taken from the pool. (The limit of 1514 bytes in the filter is what leaves the encryption
  its room: see \<open>l2_encrypt_without_room\<close>.)\<close>

theorem lan_egress_safe:
  assumes "lib_fine (de_lib env)" and "sender_ok 1 s" and "pk_addr job \<notin># dp_frames s"
    and "xdp_redirect_prog xsks ctx = Some (XDP_REDIRECT fd)" and "et_at (xdp_data ctx) 12 \<noteq> ETH_P_ARP"
    and "take (pk_len job) (ne_packet_data s (pk_addr job)) = xdp_data ctx" and "pk_len job \<le> NE_FRAME"
  shows "\<exists>s'. dataplane_process_local env job s = Some s' \<and> sender_ok 0 s' \<and> dp_frames s' = add_mset (pk_addr job) (dp_frames s)"
proof -
  let ?b = "ne_packet_data s (pk_addr job)"
  note f = lan_redirected [OF assms(4)]
  have len: "length ?b = NE_FRAME" by (rule sender_data [OF assms(2)])
  have n: "pk_len job = length (xdp_data ctx)" using arg_cong [OF assms(6), of length] assms(7) len by simp
  have room: "pk_len job + 30 \<le> NE_FRAME" using f(2) n by (simp add: frame_max_defs NE_FRAME_def)
  have "et_at (take (pk_len job) ?b) 12 = et_at ?b 12" using f(1) n by (simp add: et_at_def)
  then have et: "et_at ?b 12 = ETH_P_IP" using f(4) assms(5) by (simp only: assms(6)) simp
  have "dp_pkt_is_arp ?b (pk_len job) = Some False" using et len f(1) n by (simp add: dp_pkt_is_arp_def eth_read_et_ok ETH_P_IP_def NE_FRAME_def)
  from process_local_safe [OF assms(1-3) room this] show ?thesis by (auto simp: mem_ok_def egressed_def)
qed

definition lan_frame_example :: buf where
  "lan_frame_example = example_pkt (0x45 # replicate 45 17)"

definition sender_example :: "(bool \<times> buf \<times> buf) dataplane" where
  "sender_example = put_frame 2048 lan_frame_example (worker_example fwd_example)"

definition lan_md_example :: xdp_md where
  "lan_md_example = \<lparr>xdp_data = take 60 lan_frame_example, rx_queue_index = 0\<rparr>"

lemma lan_frame_example [simp]: "length lan_frame_example = NE_FRAME" "et_at lan_frame_example 12 = ETH_P_IP"
  by (simp_all add: lan_frame_example_def) (simp add: example_pkt_def et_at_def nth_append ETH_P_IP_def be16_def)

lemma worker_example_frames: "dp_frames (worker_example fwd_example) = {#}"
  by (simp add: dp_frames_def fwd_frames_def grid_frames_def worker_example_def fwd_example_def pair_example_def
      example_pool_def pool_contents_def circ_def)

lemma sender_example [simp]: "ne_packet_data sender_example 2048 = lan_frame_example" "dp_frames sender_example = {#}"
  by (simp_all add: sender_example_def worker_example_frames)

lemma sender_example_ok: "sender_ok 1 sender_example"
proof -
  have "worker_ok 1 sender_example" unfolding sender_example_def by (rule worker_ok_put [OF worker_example_ok]) simp
  then show ?thesis
    by (simp add: sender_ok_def sender_example_def) (simp add: put_frame_def worker_example_def fwd_example_def pair_example_def NE_FRAME_def MAX_INTERFACES_def
        salt_fine_def example_l2_def)
qed

text \<open>The example library pads its tag, so that it has 16 bytes for keys of any length.\<close>

definition pad_lib :: "(bool \<times> buf \<times> buf) scrypt_lib" where
  "pad_lib = xor_lib\<lparr>scrypt_CipherGetTag := (\<lambda>(enc, k, t). (0, take 16 (k @ replicate 16 0), (enc, k, t)))\<rparr>"

definition sender_env :: "(bool \<times> buf \<times> buf) dp_env" where
  "sender_env = env_example\<lparr>de_lib := pad_lib\<rparr>"

lemma pad_lib_fine: "lib_fine (de_lib sender_env)"
proof -
  have "lib_bounded pad_lib" using xor_lib_bounded by (simp add: lib_bounded_def pad_lib_def)
  then show ?thesis by (auto simp: sender_env_def lib_fine_def tag_delivered_def random_delivered_def pad_lib_def xor_lib_def TAG_SIZE_GCM_def)
qed

lemma lan_example_redirected: "xdp_redirect_prog (\<lambda>_. Some 7) lan_md_example = Some (XDP_REDIRECT 7)"
proof -
  have e: "et_at (take 60 lan_frame_example) 12 = ETH_P_IP" using lan_frame_example(2) by (simp add: et_at_def NE_FRAME_def)
  show ?thesis
    by (simp add: xdp_redirect_prog_def lan_md_example_def Let_def eth_read_et_ok NE_FRAME_def e ethertype_defs frame_max_defs bpf_redirect_map_def)
qed

theorem lan_egress_safe_witness:
  "\<exists>s'. dataplane_process_local sender_env (ne_packet_zero\<lparr>pk_addr := 2048, pk_len := 60\<rparr>) sender_example = Some s' \<and> sender_ok 0 s'
    \<and> dp_frames s' = {#2048#}"
proof -
  let ?job = "ne_packet_zero\<lparr>pk_addr := 2048, pk_len := 60\<rparr>"
  have e: "et_at (xdp_data lan_md_example) 12 \<noteq> ETH_P_ARP"
    using lan_frame_example(2) by (simp add: lan_md_example_def et_at_def NE_FRAME_def ETH_P_IP_def ETH_P_ARP_def)
  have t: "take (pk_len ?job) (ne_packet_data sender_example (pk_addr ?job)) = xdp_data lan_md_example" by (simp add: lan_md_example_def)
  from lan_egress_safe [OF pad_lib_fine sender_example_ok _ lan_example_redirected e t] show ?thesis by (simp add: NE_FRAME_def)
qed

text \<open>C10: no plaintext leaves under a policy that encrypts. Whatever a packet of the LAN holds (ARP aside, which the bridge
  treats), all that the handler appends to the rings of the WANs are frames of two kinds: those of a packet whose policy
  says bypass, and frames that the cipher library has sealed, with the nonce in their header, under the current key of
  the packet's policy, which is not zero. In particular nothing is appended for a packet without a policy, for a policy
  that is not ready, and when the encryption fails on any of its error paths.\<close>

theorem lan_egress_sealed:
  assumes "lib_fine (de_lib env)" and "sender_ok 1 s" and "pk_addr job \<notin># dp_frames s" and "pk_len job + 30 \<le> NE_FRAME"
    and "dp_pkt_is_arp (ne_packet_data s (pk_addr job)) (pk_len job) = Some False"
  shows "\<exists>s'. dataplane_process_local env job s = Some s'
    \<and> (\<forall>i w. \<exists>new. ring_contents (fw_mid_to_wan (dp_fwd s') i w) = ring_contents (fw_mid_to_wan (dp_fwd s) i w) @ new
        \<and> (\<forall>p \<in> set new. \<exists>pi. local_policy job s = Some pi
            \<and> (cp_action (ac_policies (fw_cfg (dp_fwd s)) ! pi) = POLICY_ACTION_BYPASS
               \<or> (\<exists>ctx sess. policy_key_ctx pi s = Some ctx \<and> crypto_pqc_sess_load ctx = Some sess
                    \<and> key_nonzero (sess_key sess) PQC_TRAFFIC_KEY_SZ
                    \<and> sealed_frame (de_lib env) (sess_key sess) (ne_packet_data s' (pk_addr p)) (pk_len p)))))"
proof -
  obtain s' where s': "dataplane_process_local env job s = Some s'" "wan_gains (may_leave (de_lib env) job s) s s'"
    using process_local_safe [OF assms] by (auto simp: mem_ok_def egressed_def)
  have key: "crypto_pqc_sess_load ctx = Some sess \<Longrightarrow> key_nonzero (sess_key sess) PQC_TRAFFIC_KEY_SZ" for ctx sess
    by (auto simp: crypto_pqc_sess_load_def key_nonzero_def crypto_pqc_key_is_all_zero_def list_ex_iff list_all_iff split: option.splits if_splits)
  show ?thesis
    using s' key unfolding wan_gains_def may_leave_def sealed_under_def by (intro exI [of _ s'] conjI) (simp, metis)
qed

theorem lan_egress_sealed_witness:
  "\<exists>s'. dataplane_process_local sender_env (ne_packet_zero\<lparr>pk_addr := 2048, pk_len := 60\<rparr>) sender_example = Some s'
    \<and> (\<exists>new. ring_contents (fw_mid_to_wan (dp_fwd s') 0 0) = ring_contents (fw_mid_to_wan (dp_fwd sender_example) 0 0) @ new)"
proof -
  let ?job = "ne_packet_zero\<lparr>pk_addr := 2048, pk_len := 60\<rparr>"
  have "dp_pkt_is_arp lan_frame_example 60 = Some False"
    by (simp add: dp_pkt_is_arp_def eth_read_et_ok NE_FRAME_def) (simp add: ETH_P_IP_def)
  then have a: "dp_pkt_is_arp (ne_packet_data sender_example (pk_addr ?job)) (pk_len ?job) = Some False" by simp
  from lan_egress_sealed [OF pad_lib_fine sender_example_ok _ _ a] show ?thesis by (simp add: NE_FRAME_def) blast
qed

end
