(* ===== verification/Xsk_Rings.thy ===== *)
theory Xsk_Rings
  imports NE_Ring
begin

text \<open>
  The rings that the program shares with the kernel, \<open>include/xdp/xsk.h\<close>: a producer ring (fill ring, transmit ring), of
  which the kernel is the consumer, and a consumer ring (receive ring, completion ring), of which it is the producer.
  Both have the same fields; \<open>producer\<close> and \<open>consumer\<close> are the shared words, the cached copies are private to the
  program. The steps of the kernel follow the documented contract of AF_XDP: it takes the oldest entry of a producer ring
  and appends an entry to a consumer ring that has room. The lemmas show each ring to be a bounded FIFO between the two.
\<close>

section \<open>Operations\<close>

record 'a xsk_ring =
  xr_cached_prod :: u32
  xr_cached_cons :: u32
  xr_mask :: u32
  xr_size :: u32
  xr_producer :: u32
  xr_consumer :: u32
  xr_ring :: "'a list"

record xdp_desc =
  xd_addr :: u64
  xd_len :: u32

definition xsk_slot :: "'a xsk_ring \<Rightarrow> u32 \<Rightarrow> 'a" where
  "xsk_slot r idx = xr_ring r ! unat (idx AND xr_mask r)"

definition xsk_prod_nb_free :: "'a xsk_ring \<Rightarrow> u32 \<Rightarrow> u32 \<times> 'a xsk_ring" where
  "xsk_prod_nb_free r nb =
     (let free_entries = xr_cached_cons r - xr_cached_prod r in
      if free_entries \<ge> nb then (free_entries, r)
      else let r = r\<lparr>xr_cached_cons := xr_consumer r + xr_size r\<rparr>
           in (xr_cached_cons r - xr_cached_prod r, r))"

definition xsk_cons_nb_avail :: "'a xsk_ring \<Rightarrow> u32 \<Rightarrow> u32 \<times> 'a xsk_ring" where
  "xsk_cons_nb_avail r nb =
     (let entries = xr_cached_prod r - xr_cached_cons r;
          r = (if entries = 0 then r\<lparr>xr_cached_prod := xr_producer r\<rparr> else r);
          entries = xr_cached_prod r - xr_cached_cons r
      in (if entries > nb then nb else entries, r))"

definition xsk_ring_prod_reserve :: "'a xsk_ring \<Rightarrow> u32 \<Rightarrow> u32 \<times> u32 \<times> 'a xsk_ring" where
  "xsk_ring_prod_reserve p nb =
     (case xsk_prod_nb_free p nb of (fr, r) \<Rightarrow>
        if fr < nb then (0, 0, r) else (nb, xr_cached_prod r, r\<lparr>xr_cached_prod := xr_cached_prod r + nb\<rparr>))"

definition xsk_ring_prod_submit :: "'a xsk_ring \<Rightarrow> u32 \<Rightarrow> 'a xsk_ring" where
  "xsk_ring_prod_submit p nb = p\<lparr>xr_producer := xr_producer p + nb\<rparr>"

definition xsk_ring_cons_peek :: "'a xsk_ring \<Rightarrow> u32 \<Rightarrow> u32 \<times> u32 \<times> 'a xsk_ring" where
  "xsk_ring_cons_peek cons nb =
     (case xsk_cons_nb_avail cons nb of (entries, r) \<Rightarrow>
        if entries > 0 then (entries, xr_cached_cons r, r\<lparr>xr_cached_cons := xr_cached_cons r + entries\<rparr>)
        else (entries, 0, r))"

definition xsk_ring_cons_cancel :: "'a xsk_ring \<Rightarrow> u32 \<Rightarrow> 'a xsk_ring" where
  "xsk_ring_cons_cancel cons nb = cons\<lparr>xr_cached_cons := xr_cached_cons cons - nb\<rparr>"

definition xsk_ring_cons_release :: "'a xsk_ring \<Rightarrow> u32 \<Rightarrow> 'a xsk_ring" where
  "xsk_ring_cons_release cons nb = cons\<lparr>xr_consumer := xr_consumer cons + nb\<rparr>"

text \<open>The loops that write entries from \<open>idx\<close> on and read \<open>n\<close> entries from \<open>idx\<close> on.\<close>

definition xsk_write :: "'a xsk_ring \<Rightarrow> u32 \<Rightarrow> 'a list \<Rightarrow> 'a xsk_ring" where
  "xsk_write r idx xs = r\<lparr>xr_ring := pool_store (xr_ring r) (xr_mask r) idx xs\<rparr>"

definition xsk_read :: "'a xsk_ring \<Rightarrow> u32 \<Rightarrow> u32 \<Rightarrow> 'a list" where
  "xsk_read r idx n = map (\<lambda>i. xsk_slot r (idx + of_nat i)) [0..<unat n]"

text \<open>The other side: what the kernel does with a producer ring and with a consumer ring.\<close>

definition kernel_consume :: "'a xsk_ring \<Rightarrow> ('a \<times> 'a xsk_ring) option" where
  "kernel_consume r =
     (if xr_producer r = xr_consumer r then None
      else Some (xsk_slot r (xr_consumer r), r\<lparr>xr_consumer := xr_consumer r + 1\<rparr>))"

definition kernel_produce :: "'a xsk_ring \<Rightarrow> 'a \<Rightarrow> 'a xsk_ring option" where
  "kernel_produce r x =
     (if xr_producer r - xr_consumer r \<ge> xr_size r then None
      else Some (r\<lparr>xr_ring := (xr_ring r)[unat (xr_producer r AND xr_mask r) := x], xr_producer := xr_producer r + 1\<rparr>))"

section \<open>Invariants\<close>

definition xring_wf :: "'a xsk_ring \<Rightarrow> bool" where
  "xring_wf r \<longleftrightarrow> (\<exists>k<32. xr_size r = 2 ^ k) \<and> xr_mask r = xr_size r - 1 \<and> length (xr_ring r) = unat (xr_size r)"

text \<open>Producer ring between two calls: nothing is reserved, and the remembered consumer (\<open>cached_cons - size\<close>) is behind
  the consumer.\<close>

definition prod_stale :: "'a xsk_ring \<Rightarrow> u32" where
  "prod_stale r = xr_producer r - (xr_cached_cons r - xr_size r)"

definition prod_ok :: "'a xsk_ring \<Rightarrow> bool" where
  "prod_ok r \<longleftrightarrow> xring_wf r \<and> xr_cached_prod r = xr_producer r
     \<and> xr_producer r - xr_consumer r \<le> prod_stale r \<and> prod_stale r \<le> xr_size r"

definition prod_contents :: "'a xsk_ring \<Rightarrow> 'a list" where
  "prod_contents r = circ (xr_ring r) (unat (xr_consumer r)) (unat (xr_producer r - xr_consumer r))"

text \<open>Consumer ring: released, read, known to be there, there.\<close>

definition cons_ok :: "'a xsk_ring \<Rightarrow> bool" where
  "cons_ok r \<longleftrightarrow> xring_wf r \<and> xr_cached_cons r - xr_consumer r \<le> xr_cached_prod r - xr_consumer r
     \<and> xr_cached_prod r - xr_consumer r \<le> xr_producer r - xr_consumer r \<and> xr_producer r - xr_consumer r \<le> xr_size r"

definition cons_contents :: "'a xsk_ring \<Rightarrow> 'a list" where
  "cons_contents r = circ (xr_ring r) (unat (xr_cached_cons r)) (unat (xr_producer r - xr_cached_cons r))"

definition cons_pending :: "'a xsk_ring \<Rightarrow> u32" where
  "cons_pending r = xr_cached_cons r - xr_consumer r"

text \<open>The entries that were read and not released.\<close>

definition cons_read :: "'a xsk_ring \<Rightarrow> 'a list" where
  "cons_read r = circ (xr_ring r) (unat (xr_consumer r)) (unat (cons_pending r))"

section \<open>The rings are FIFOs\<close>

lemma xring_wfE:
  assumes "xring_wf r"
  obtains k where "k < 32" "xr_size r = 2 ^ k" "xr_mask r = 2 ^ k - 1" "length (xr_ring r) = 2 ^ k" "unat (xr_size r) = 2 ^ k"
  using assms by (auto simp: xring_wf_def unat_pow2)

lemma unat_diff_chain:
  fixes a b c :: u32
  assumes "b - c \<le> a - c"
  shows "unat (a - b) = unat (a - c) - unat (b - c)"
proof -
  have "a - b = (a - c) - (b - c)" by simp
  then show ?thesis using unat_sub [OF assms] by simp
qed

lemma unat_plus_small: "unat x + unat y < 2 ^ 32 \<Longrightarrow> unat (x + y :: u32) = unat x + unat y"
  by (simp add: unat_word_ariths)

lemma unat_count_plus:
  fixes a b n :: u32
  assumes "unat (a - b) + unat n < 2 ^ 32"
  shows "unat (a + n - b) = unat (a - b) + unat n"
proof -
  have "a + n - b = (a - b) + n" by simp
  then show ?thesis by (simp only: unat_plus_small [OF assms])
qed

lemma xsk_slot_circ:
  assumes "k < 32" "length (xr_ring r) = 2 ^ k" "xr_mask r = 2 ^ k - 1"
  shows "xsk_slot r (t + of_nat i) = xr_ring r ! ((unat t + i) mod length (xr_ring r))"
proof -
  have "(unat t + i mod 2 ^ 32) mod 2 ^ k = (unat t + i) mod 2 ^ k"
    using assms(1) by (metis less_imp_le_nat mod_add_right_eq mod_mod_cancel le_imp_power_dvd)
  then show ?thesis by (simp add: xsk_slot_def assms unat_and_mask unat_add_mod [OF assms(1)] unat_of_nat_mod_32)
qed

lemma xsk_read_circ:
  assumes "xring_wf r"
  shows "xsk_read r t n = circ (xr_ring r) (unat t) (unat n)"
  using assms by (auto elim!: xring_wfE simp: xsk_read_def circ_def xsk_slot_circ)

lemma circ_at_sum:
  assumes "xring_wf r"
  shows "circ (xr_ring r) (unat (t + n :: u32)) j = circ (xr_ring r) (unat t + unat n) j"
proof -
  obtain k where "k < 32" "length (xr_ring r) = 2 ^ k" using assms by (rule xring_wfE)
  then show ?thesis by (intro circ_congD) (simp add: unat_add_mod)
qed

subsection \<open>Producer ring\<close>

lemma prod_stale_free:
  assumes "prod_ok r"
  shows "unat (xr_cached_cons r - xr_cached_prod r) = unat (xr_size r) - unat (prod_stale r)"
proof -
  have "xr_cached_cons r - xr_cached_prod r = xr_size r - prod_stale r"
    using assms by (simp add: prod_ok_def prod_stale_def)
  then show ?thesis using assms by (simp add: prod_ok_def unat_sub)
qed

lemma prod_nb_free_spec:
  assumes ok: "prod_ok r" and res: "xsk_prod_nb_free r nb = (n, r')"
  shows "prod_ok r'" "prod_contents r' = prod_contents r" "unat n = unat (xr_size r) - unat (prod_stale r')"
    "xr_ring r' = xr_ring r" "xr_producer r' = xr_producer r" "xr_size r' = xr_size r"
    "n < nb \<Longrightarrow> unat n = unat (xr_size r) - length (prod_contents r)"
proof -
  let ?r = "r\<lparr>xr_cached_cons := xr_consumer r + xr_size r\<rparr>"
  have st: "prod_stale ?r = xr_producer r - xr_consumer r" by (simp add: prod_stale_def)
  have ok': "prod_ok ?r" using ok by (auto simp: prod_ok_def st xring_wf_def)
  have "(n, r') = (xr_cached_cons r - xr_cached_prod r, r) \<and> \<not> n < nb \<or> (n, r') = (xr_cached_cons ?r - xr_cached_prod ?r, ?r)"
    using res by (auto simp: xsk_prod_nb_free_def Let_def split: if_splits)
  then show "prod_ok r'" "prod_contents r' = prod_contents r" "unat n = unat (xr_size r) - unat (prod_stale r')"
    "xr_ring r' = xr_ring r" "xr_producer r' = xr_producer r" "xr_size r' = xr_size r"
    "n < nb \<Longrightarrow> unat n = unat (xr_size r) - length (prod_contents r)"
    using ok ok' prod_stale_free [OF ok] prod_stale_free [OF ok'] by (auto simp: prod_contents_def st)
qed

lemma prod_contents_bounded: "prod_ok r \<Longrightarrow> length (prod_contents r) \<le> unat (prod_stale r)"
  "prod_ok r \<Longrightarrow> unat (prod_stale r) \<le> unat (xr_size r)"
  by (simp_all add: prod_ok_def prod_contents_def word_le_nat_alt)

lemma prod_append:
  assumes ok: "prod_ok r" and room: "unat (prod_stale r) + length xs \<le> unat (xr_size r)"
    and r': "r' = (xsk_write r (xr_producer r) xs)\<lparr>xr_cached_prod := xr_producer r + of_nat (length xs),
        xr_producer := xr_producer r + of_nat (length xs)\<rparr>"
  shows "prod_ok r' \<and> prod_contents r' = prod_contents r @ xs \<and> xr_size r' = xr_size r"
proof -
  from ok obtain k where k: "k < 32" "xr_size r = 2 ^ k" "xr_mask r = 2 ^ k - 1" "length (xr_ring r) = 2 ^ k" "unat (xr_size r) = 2 ^ k"
    by (auto simp: prod_ok_def elim: xring_wfE)
  let ?c = "xr_producer r - xr_consumer r" and ?n = "of_nat (length xs) :: u32"
  have n: "unat ?n = length xs" using room k(5) exp_less_exp_32 [OF k(1)] by (simp add: unat_of_nat_mod_32)
  have c: "unat ?c \<le> unat (prod_stale r)" using ok by (simp add: prod_ok_def word_le_nat_alt)
  have s: "unat (prod_stale r + ?n) = unat (prod_stale r) + length xs"
    using room exp_less_exp_32 [OF k(1)] by (subst unat_plus_small) (simp_all add: n k(5))
  have cnt: "unat (xr_producer r + ?n - xr_consumer r) = unat ?c + length xs"
    using room c exp_less_exp_32 [OF k(1)] by (subst unat_count_plus) (simp_all add: n k(5))
  have "unat (xr_producer r) mod 2 ^ k = (unat (xr_consumer r) + unat ?c) mod 2 ^ k" by (rule unat_head [OF k(1)])
  then have "circ (pool_store (xr_ring r) (2 ^ k - 1) (xr_producer r) xs) (unat (xr_consumer r)) (unat ?c + length xs)
      = prod_contents r @ xs"
    unfolding prod_contents_def using room c k(5) by (intro circ_pool_store [OF k(1,4)]) auto
  moreover have st: "prod_stale r' = prod_stale r + ?n" by (simp add: r' prod_stale_def xsk_write_def)
  ultimately show ?thesis
    using ok room c k s cnt by (auto simp: r' prod_ok_def prod_contents_def xsk_write_def xring_wf_def word_le_nat_alt st [unfolded r' xsk_write_def])
qed

lemma kernel_consume_spec:
  assumes ok: "prod_ok r"
  shows "case kernel_consume r of None \<Rightarrow> prod_contents r = []
     | Some (x, r') \<Rightarrow> prod_ok r' \<and> prod_contents r = x # prod_contents r' \<and> xr_size r' = xr_size r"
proof (cases "xr_producer r = xr_consumer r")
  case True
  then show ?thesis by (simp add: kernel_consume_def prod_contents_def circ_def)
next
  case False
  let ?c = "xr_producer r - xr_consumer r"
  have c: "unat ?c \<noteq> 0" using False by (simp add: unat_eq_zero)
  have e: "xr_producer r - (xr_consumer r + 1) = ?c - 1" by simp
  have cnt: "unat ?c = Suc (unat (xr_producer r - (xr_consumer r + 1)))"
    unfolding e using False c by (simp add: unat_minus_one)
  from ok have wf: "xring_wf r" by (simp add: prod_ok_def)
  then obtain k where k: "k < 32" "length (xr_ring r) = 2 ^ k" "xr_mask r = 2 ^ k - 1" by (auto elim: xring_wfE)
  have x: "xsk_slot r (xr_consumer r) = xr_ring r ! (unat (xr_consumer r) mod length (xr_ring r))"
    using xsk_slot_circ [OF k, of "xr_consumer r" 0] by simp
  have t: "circ (xr_ring r) (Suc (unat (xr_consumer r))) j = circ (xr_ring r) (unat (xr_consumer r + 1)) j" for j
    using circ_at_sum [OF wf, of "xr_consumer r" 1 j] by simp
  have "prod_contents r = xsk_slot r (xr_consumer r) # prod_contents (r\<lparr>xr_consumer := xr_consumer r + 1\<rparr>)"
    by (simp add: prod_contents_def cnt circ_Cons t x)
  moreover have "prod_ok (r\<lparr>xr_consumer := xr_consumer r + 1\<rparr>)"
    using ok cnt by (auto simp: prod_ok_def xring_wf_def prod_stale_def word_le_nat_alt)
  ultimately show ?thesis using False by (simp add: kernel_consume_def)
qed

subsection \<open>Consumer ring\<close>

lemma cons_offsets:
  assumes "cons_ok r"
  shows "unat (xr_producer r - xr_cached_cons r) = unat (xr_producer r - xr_consumer r) - unat (cons_pending r)"
    "unat (cons_pending r) \<le> unat (xr_producer r - xr_consumer r)"
  using assms by (auto simp: cons_ok_def cons_pending_def word_le_nat_alt intro: unat_diff_chain)

lemma cons_nb_avail_spec:
  assumes ok: "cons_ok r" and res: "xsk_cons_nb_avail r nb = (n, r')"
  shows "cons_ok r'" "xr_ring r' = xr_ring r" "xr_consumer r' = xr_consumer r" "xr_cached_cons r' = xr_cached_cons r"
    "xr_producer r' = xr_producer r" "xr_size r' = xr_size r" "n \<le> nb" "n \<le> xr_cached_prod r' - xr_cached_cons r'"
    "n = 0 \<Longrightarrow> 0 < nb \<Longrightarrow> cons_contents r = []"
proof -
  let ?r = "r\<lparr>xr_cached_prod := xr_producer r\<rparr>"
  have ok': "cons_ok ?r" using ok by (auto simp: cons_ok_def xring_wf_def)
  have "r' = (if xr_cached_prod r - xr_cached_cons r = 0 then ?r else r)"
    "n = (if xr_cached_prod r' - xr_cached_cons r' > nb then nb else xr_cached_prod r' - xr_cached_cons r')"
    using res by (auto simp: xsk_cons_nb_avail_def Let_def split: if_splits)
  then show "cons_ok r'" "xr_ring r' = xr_ring r" "xr_consumer r' = xr_consumer r" "xr_cached_cons r' = xr_cached_cons r"
    "xr_producer r' = xr_producer r" "xr_size r' = xr_size r" "n \<le> nb" "n \<le> xr_cached_prod r' - xr_cached_cons r'"
    "n = 0 \<Longrightarrow> 0 < nb \<Longrightarrow> cons_contents r = []"
    using ok ok' by (auto simp: cons_contents_def circ_def split: if_splits)
qed

lemma cons_peek_spec:
  assumes ok: "cons_ok r" and res: "xsk_ring_cons_peek r nb = (n, idx, r')"
  shows "cons_ok r'" "xsk_read r' idx n = take (unat n) (cons_contents r)" "cons_contents r' = drop (unat n) (cons_contents r)"
    "n \<le> nb" "unat (cons_pending r') = unat (cons_pending r) + unat n" "n = 0 \<Longrightarrow> 0 < nb \<Longrightarrow> cons_contents r = []"
    "xr_size r' = xr_size r" "cons_read r' = cons_read r @ take (unat n) (cons_contents r)" "unat n \<le> length (cons_contents r)"
    "xr_consumer r' = xr_consumer r" "xr_ring r' = xr_ring r"
proof -
  obtain m q where m: "xsk_cons_nb_avail r nb = (m, q)" by (cases "xsk_cons_nb_avail r nb")
  note a = cons_nb_avail_spec [OF ok m]
  have n: "n = m" and r': "r' = q\<lparr>xr_cached_cons := xr_cached_cons q + n\<rparr>" and idx: "n \<noteq> 0 \<Longrightarrow> idx = xr_cached_cons q"
    using res by (auto simp: xsk_ring_cons_peek_def m word_gt_0 split: if_splits)
  from a(1) have wf: "xring_wf q" by (simp add: cons_ok_def)
  then obtain k where k: "k < 32" "unat (xr_size q) = 2 ^ k" by (auto elim: xring_wfE)
  let ?p = "unat (cons_pending q)" and ?d = "unat (xr_producer q - xr_consumer q)"
  have e: "xr_cached_prod q - xr_consumer q = (xr_cached_prod q - xr_cached_cons q) + cons_pending q" by (simp add: cons_pending_def)
  have ds: "?d \<le> 2 ^ k" using a(1) k by (simp add: cons_ok_def word_le_nat_alt)
  have "cons_pending q \<le> xr_cached_prod q - xr_consumer q" using a(1) by (simp add: cons_ok_def cons_pending_def)
  then have u: "unat (xr_cached_prod q - xr_consumer q) = unat (xr_cached_prod q - xr_cached_cons q) + ?p"
    using unat_sub [of "cons_pending q" "xr_cached_prod q - xr_consumer q"] by (simp add: e word_le_nat_alt)
  have pd: "unat (xr_cached_prod q - xr_consumer q) \<le> ?d" using a(1) by (simp add: cons_ok_def word_le_nat_alt)
  have le: "?p + unat n \<le> unat (xr_cached_prod q - xr_consumer q)" using a(8) u by (simp add: n word_le_nat_alt)
  have "cons_pending r' = xr_cached_cons q + n - xr_consumer q" by (simp add: r' cons_pending_def)
  then have pn: "unat (cons_pending r') = ?p + unat n"
    using unat_count_plus [of "xr_cached_cons q" "xr_consumer q" n] le pd ds exp_less_exp_32 [OF k(1)] by (simp add: cons_pending_def)
  show "unat (cons_pending r') = unat (cons_pending r) + unat n" using pn a by (simp add: cons_pending_def)
  show ok': "cons_ok r'" using a(1) pn le by (auto simp: cons_ok_def r' xring_wf_def word_le_nat_alt cons_pending_def)
  have wf': "xring_wf r'" using ok' by (simp add: cons_ok_def)
  have cc: "cons_contents q = circ (xr_ring q) (unat (xr_cached_cons q)) (?d - ?p)"
    by (simp add: cons_contents_def cons_offsets [OF a(1)])
  have cc': "cons_contents r' = circ (xr_ring q) (unat (xr_cached_cons q) + unat n) (?d - ?p - unat n)"
    using circ_at_sum [OF wf, of "xr_cached_cons q" n] by (simp add: cons_contents_def cons_offsets [OF ok'] pn) (simp add: r')
  have cr: "cons_contents r = cons_contents q" using a by (simp add: cons_contents_def)
  have len: "unat n \<le> ?d - ?p" using le pd by simp
  note td = circ_take_drop [OF len, of "xr_ring q" "unat (xr_cached_cons q)"]
  have tk: "circ (xr_ring q) (unat (xr_cached_cons q)) (unat n) = take (unat n) (cons_contents r)" using td cc cr by simp
  show "cons_contents r' = drop (unat n) (cons_contents r)" using td cc cc' cr by simp
  show "xsk_read r' idx n = take (unat n) (cons_contents r)"
  proof (cases "n = 0")
    case False
    then show ?thesis using tk idx by (simp add: xsk_read_circ [OF wf']) (simp add: r')
  qed (simp add: xsk_read_def)
  have "circ (xr_ring q) (unat (xr_consumer q)) (?p + unat n)
      = circ (xr_ring q) (unat (xr_consumer q)) ?p @ circ (xr_ring q) (unat (xr_consumer q) + ?p) (unat n)"
    using circ_take_drop [of ?p "?p + unat n" "xr_ring q" "unat (xr_consumer q)"] by (metis add_diff_cancel_left' append_take_drop_id le_add1)
  moreover have "circ (xr_ring q) (unat (xr_consumer q) + ?p) (unat n) = circ (xr_ring q) (unat (xr_cached_cons q)) (unat n)"
    using circ_at_sum [OF wf, of "xr_consumer q" "cons_pending q" "unat n"] by (simp add: cons_pending_def)
  ultimately have "cons_read r' = circ (xr_ring q) (unat (xr_consumer q)) ?p @ take (unat n) (cons_contents r)"
    using tk by (simp add: cons_read_def pn) (simp add: r')
  then show "cons_read r' = cons_read r @ take (unat n) (cons_contents r)" using a by (simp add: cons_read_def cons_pending_def)
  show "unat n \<le> length (cons_contents r)" using len cc cr by simp
  show "n \<le> nb" "n = 0 \<Longrightarrow> 0 < nb \<Longrightarrow> cons_contents r = []" "xr_size r' = xr_size r" "xr_consumer r' = xr_consumer r" "xr_ring r' = xr_ring r"
    using a n by (simp_all add: r')
qed

lemma cons_release_spec:
  assumes ok: "cons_ok r" and n: "n \<le> cons_pending r"
  shows "cons_ok (xsk_ring_cons_release r n)" "cons_contents (xsk_ring_cons_release r n) = cons_contents r"
    "unat (cons_pending (xsk_ring_cons_release r n)) = unat (cons_pending r) - unat n"
    "xr_size (xsk_ring_cons_release r n) = xr_size r"
proof -
  let ?r = "xsk_ring_cons_release r n" and ?C = "xr_consumer r"
  have sub: "unat (x - (?C + n)) = unat (x - ?C) - unat n" if "cons_pending r \<le> x - ?C" for x
  proof -
    have "x - (?C + n) = (x - ?C) - n" by simp
    moreover have "n \<le> x - ?C" using n that by (rule order_trans)
    ultimately show ?thesis by (simp only: unat_sub)
  qed
  have le: "cons_pending r \<le> xr_cached_prod r - ?C" "cons_pending r \<le> xr_producer r - ?C" using ok by (auto simp: cons_ok_def cons_pending_def)
  have p: "unat (xr_cached_cons r - (?C + n)) = unat (cons_pending r) - unat n" using sub [of "xr_cached_cons r"] by (simp add: cons_pending_def)
  then show "unat (cons_pending ?r) = unat (cons_pending r) - unat n" by (simp add: cons_pending_def xsk_ring_cons_release_def)
  show "cons_ok ?r"
    using ok p sub [OF le(1)] sub [OF le(2)] by (auto simp: cons_ok_def xsk_ring_cons_release_def xring_wf_def word_le_nat_alt cons_pending_def)
  show "cons_contents ?r = cons_contents r" "xr_size ?r = xr_size r" by (simp_all add: cons_contents_def xsk_ring_cons_release_def)
qed

lemma kernel_produce_spec:
  assumes ok: "cons_ok r" and res: "kernel_produce r x = Some r'"
  shows "cons_ok r' \<and> cons_contents r' = cons_contents r @ [x] \<and> cons_pending r' = cons_pending r \<and> xr_size r' = xr_size r"
proof -
  from ok have wf: "xring_wf r" by (simp add: cons_ok_def)
  then obtain k where k: "k < 32" "xr_size r = 2 ^ k" "xr_mask r = 2 ^ k - 1" "length (xr_ring r) = 2 ^ k" "unat (xr_size r) = 2 ^ k"
    by (auto elim: xring_wfE)
  let ?P = "xr_producer r" and ?C = "xr_consumer r" and ?CC = "xr_cached_cons r"
  have lt: "?P - ?C < xr_size r" and r': "r' = r\<lparr>xr_ring := (xr_ring r)[unat (?P AND xr_mask r) := x], xr_producer := ?P + 1\<rparr>"
    using res by (auto simp: kernel_produce_def split: if_splits)
  note off = cons_offsets [OF ok]
  have d: "unat (?P + 1 - ?C) = Suc (unat (?P - ?C))" using lt by (rule unat_Suc_count)
  have n: "unat (?P - ?CC) < 2 ^ k" using lt off k by (simp add: word_less_nat_alt)
  then have "?P - ?CC < xr_size r" by (simp only: word_less_nat_alt k(5))
  then have n': "unat (?P + 1 - ?CC) = Suc (unat (?P - ?CC))" by (rule unat_Suc_count)
  have idx: "unat (?P AND xr_mask r) = (unat ?CC + unat (?P - ?CC)) mod length (xr_ring r)"
    using unat_head [OF k(1), of ?P ?CC] by (simp add: k unat_and_mask)
  have "circ ((xr_ring r)[unat (?P AND xr_mask r) := x]) (unat ?CC) (Suc (unat (?P - ?CC))) = cons_contents r @ [x]"
    using circ_push [of "unat (?P - ?CC)" "xr_ring r" "unat ?CC" x, folded idx] n k(4) by (simp add: cons_contents_def)
  then have "cons_contents r' = cons_contents r @ [x]" using n' by (simp add: cons_contents_def r')
  moreover have "cons_ok r'"
    using ok d lt by (auto simp: cons_ok_def r' xring_wf_def word_le_nat_alt word_less_nat_alt)
  ultimately show ?thesis by (simp add: r' cons_pending_def)
qed

end
