(* ===== verification/Xsk_Queue.thy ===== *)
theory Xsk_Queue
  imports Xsk_Rings Dataplane_State
begin

text \<open>
  The queues between the ports and the workers, \<open>core/iface/xdp_interface.c\<close>: each port has queues, each with a fill, a
  receive, a transmit and a completion ring. A receive thread fills the fill rings of its queues from the pool, takes
  packets from their receive rings, hands them on and releases the entries; a transmit thread moves packets from the
  rings of the workers to a transmit ring, and frames from the completion rings back to the pool. Ports are opened when
  the program starts and can be removed and added while it runs. An interface's \<open>queue_count\<close> is the length of its list of
  queues. Wake-ups of the kernel, statistics, and interface settings (promiscuous mode, number of queues) are left out; the
  creation of a socket is a parameter that gives the rings, or fails.
\<close>

section \<open>Queues, interfaces, the pair\<close>

record ne_xsk_queue =
  xq_xsk :: bool
  xq_rx :: "xdp_desc xsk_ring"
  xq_tx :: "xdp_desc xsk_ring"
  xq_fq :: "u64 xsk_ring"
  xq_cq :: "u64 xsk_ring"
  xq_rx_pending :: u32

record ne_iface =
  ni_ifindex :: nat
  ni_ifname :: string
  ni_queues :: "ne_xsk_queue list"

record xsk_pair =
  xp_frame_size :: u32
  xp_n_frames :: u32
  xp_locals :: "ne_iface list"
  xp_wans :: "ne_iface list"
  xp_local_live :: "bool list"
  xp_wan_live :: "bool list"
  xp_local_queue_total :: nat
  xp_wan_queue_total :: nat
  xp_pool :: ne_pool

definition NE_FQ_PREFILL :: u32 where "NE_FQ_PREFILL = 16384"
definition NE_XSK_COPY_TX_BATCH :: u32 where "NE_XSK_COPY_TX_BATCH = 32"
definition NE_RX_LAN_SLOTS :: nat where "NE_RX_LAN_SLOTS = 1"
definition NE_RX_WAN_SLOTS :: nat where "NE_RX_WAN_SLOTS = 1"

definition ne_rx_slots_for_queues :: "int \<Rightarrow> nat \<Rightarrow> nat" where
  "ne_rx_slots_for_queues queue_total slots_max =
     (if queue_total \<le> 0 then 1 else if queue_total < int slots_max then nat queue_total else slots_max)"

definition ne_rx_lan_slots_for :: "int \<Rightarrow> nat" where
  "ne_rx_lan_slots_for local_queue_total = ne_rx_slots_for_queues local_queue_total NE_RX_LAN_SLOTS"

definition ne_rx_wan_slots_for :: "int \<Rightarrow> nat" where
  "ne_rx_wan_slots_for wan_queue_total = ne_rx_slots_for_queues wan_queue_total NE_RX_WAN_SLOTS"

definition xsk_queue_for_rx_slot :: "nat \<Rightarrow> nat \<Rightarrow> nat \<Rightarrow> nat \<Rightarrow> bool" where
  "xsk_queue_for_rx_slot q rx_slot nq rx_slots =
     (let slots = (if nq < rx_slots then (if nq > 0 then nq else 1) else rx_slots)
      in if rx_slot \<ge> slots then False else q mod slots = rx_slot)"

definition xsk_queue_for_tx_slot :: "nat \<Rightarrow> nat \<Rightarrow> nat \<Rightarrow> bool" where
  "xsk_queue_for_tx_slot q tx_slot nq =
     (let slots = (if nq < NE_TX_SLOTS then (if nq > 0 then nq else 1) else NE_TX_SLOTS)
      in if tx_slot \<ge> slots then False else q mod slots = tx_slot)"

section \<open>One queue\<close>

definition pkt_of_desc :: "u8 \<Rightarrow> u8 \<Rightarrow> u8 \<Rightarrow> xdp_desc \<Rightarrow> ne_packet" where
  "pkt_of_desc dir wan_idx local_idx d =
     \<lparr>pk_addr = xd_addr d, pk_len = unat (xd_len d), pk_dir = dir, pk_wan_idx = wan_idx, pk_local_idx = local_idx, pk_tx_slot = 0\<rparr>"

definition recv_queue :: "ne_xsk_queue \<Rightarrow> u32 \<Rightarrow> u8 \<Rightarrow> u8 \<Rightarrow> u8 \<Rightarrow> ne_packet list \<times> ne_xsk_queue" where
  "recv_queue slot maxn dir wan_idx local_idx =
     (case xsk_ring_cons_peek (xq_rx slot) maxn of (n, idx, rx) \<Rightarrow>
        (List.map (pkt_of_desc dir wan_idx local_idx) (xsk_read rx idx n), slot\<lparr>xq_rx := rx, xq_rx_pending := n\<rparr>))"

definition release_queue :: "ne_xsk_queue \<Rightarrow> ne_xsk_queue" where
  "release_queue slot =
     (if xq_rx_pending slot \<noteq> 0
      then slot\<lparr>xq_rx := xsk_ring_cons_release (xq_rx slot) (xq_rx_pending slot), xq_rx_pending := 0\<rparr> else slot)"

text \<open>One turn of the loop of \<open>drain_cq_queue\<close>; the flag says whether the loop goes on.\<close>

definition drain_cq_round :: "u64 xsk_ring \<Rightarrow> ne_pool \<Rightarrow> bool \<times> u64 xsk_ring \<times> ne_pool" where
  "drain_cq_round cq pool =
     (case xsk_ring_cons_peek cq NE_BATCH_SIZE of (n, idx, cq) \<Rightarrow>
        if n = 0 then (False, cq, pool)
        else case pool_push pool (xsk_read cq idx n) of (pushed, pool) \<Rightarrow>
          let cq = (if pushed > 0 then xsk_ring_cons_release cq pushed else cq)
          in (\<not> (pushed < n \<or> n < NE_BATCH_SIZE), cq, pool))"

partial_function (option) drain_cq_loop :: "u64 xsk_ring \<Rightarrow> ne_pool \<Rightarrow> (u64 xsk_ring \<times> ne_pool) option" where
  "drain_cq_loop cq pool =
     (case drain_cq_round cq pool of (again, cq', pool') \<Rightarrow>
        if again then drain_cq_loop cq' pool' else Some (cq', pool'))"

definition drain_cq_queue :: "ne_xsk_queue \<Rightarrow> ne_pool \<Rightarrow> (ne_xsk_queue \<times> ne_pool) option" where
  "drain_cq_queue slot pool =
     (case drain_cq_loop (xq_cq slot) pool of None \<Rightarrow> None | Some (cq, pool) \<Rightarrow> Some (slot\<lparr>xq_cq := cq\<rparr>, pool))"

definition refill_fq_queue :: "ne_xsk_queue \<Rightarrow> ne_pool \<Rightarrow> ne_xsk_queue \<times> ne_pool" where
  "refill_fq_queue slot pool =
     (case xsk_prod_nb_free (xq_fq slot) NE_BATCH_SIZE of (free_slots, fq) \<Rightarrow>
        if free_slots = 0 then (slot\<lparr>xq_fq := fq\<rparr>, pool)
        else let want = (if free_slots > NE_BATCH_SIZE then NE_BATCH_SIZE else free_slots) in
        case pool_pop pool want of (addrs, pool) \<Rightarrow>
        let got = of_nat (length addrs) in
        if got = 0 then (slot\<lparr>xq_fq := fq\<rparr>, pool)
        else case xsk_ring_prod_reserve fq got of (res, idx, fq) \<Rightarrow>
          if res \<noteq> got then (slot\<lparr>xq_fq := fq\<rparr>, snd (pool_push pool addrs))
          else (slot\<lparr>xq_fq := xsk_ring_prod_submit (xsk_write fq idx addrs) got\<rparr>, pool))"

lemma length_pool_pop: "length (fst (pool_pop p n)) \<le> unat n"
  by (auto simp: pool_pop_def Let_def word_less_nat_alt)

lemma prefill_progress:
  assumes "want \<noteq> 0" and "fst (pool_pop p (if want > NE_BATCH_SIZE then NE_BATCH_SIZE else want)) \<noteq> []"
  shows "unat (want - of_nat (length (fst (pool_pop p (if want > NE_BATCH_SIZE then NE_BATCH_SIZE else want))))) < unat want"
proof -
  let ?l = "length (fst (pool_pop p (if want > NE_BATCH_SIZE then NE_BATCH_SIZE else want)))"
  have le: "?l \<le> unat want"
    using length_pool_pop [of p "if want > NE_BATCH_SIZE then NE_BATCH_SIZE else want"] by (auto simp: word_less_nat_alt split: if_splits)
  have "unat want < 2 ^ 32" using unsigned_less [of want, where ?'a = nat] by simp
  then have u: "unat (of_nat ?l :: u32) = ?l" using le by (simp add: unat_of_nat_mod_32)
  have "unat (want - of_nat ?l) = unat want - ?l" using le u by (subst unat_sub) (simp_all add: word_le_nat_alt)
  moreover have "0 < ?l" using assms(2) by simp
  ultimately show ?thesis using le by linarith
qed

function prefill_queue :: "u64 xsk_ring \<Rightarrow> ne_pool \<Rightarrow> u32 \<Rightarrow> u64 xsk_ring \<times> ne_pool" where
  "prefill_queue fq pool want =
     (if want = 0 then (fq, pool)
      else let n = (if want > NE_BATCH_SIZE then NE_BATCH_SIZE else want);
               addrs = fst (pool_pop pool n); pool = snd (pool_pop pool n); got = of_nat (length addrs) in
        if length addrs = 0 then (fq, pool)
        else case xsk_ring_prod_reserve fq got of (res, idx, fq) \<Rightarrow>
          if res \<noteq> got then (fq, snd (pool_push pool addrs))
          else prefill_queue (xsk_ring_prod_submit (xsk_write fq idx addrs) got) pool (want - got))"
  by pat_completeness auto

termination prefill_queue
proof (relation "measure (\<lambda>(fq, pool, want). unat want)", simp, goal_cases)
  case (1 fq pool want)
  then show ?case using prefill_progress [of want pool] by simp
qed

declare prefill_queue.simps [simp del]

primrec pop_jobs :: "nat \<Rightarrow> ne_ring \<Rightarrow> ne_packet list \<times> ne_ring" where
  "pop_jobs 0 src = ([], src)"
| "pop_jobs (Suc n) src =
     (case ne_ring_try_pop src of None \<Rightarrow> ([], src)
      | Some (job, src) \<Rightarrow> (case pop_jobs n src of (jobs, src) \<Rightarrow> (job # jobs, src)))"

definition desc_of_job :: "u32 \<Rightarrow> ne_packet \<Rightarrow> xdp_desc" where
  "desc_of_job max_frame job =
     \<lparr>xd_addr = pk_addr job, xd_len = (if pk_len job > unat max_frame then max_frame else of_nat (pk_len job))\<rparr>"

definition tx_drain_queue :: "ne_xsk_queue \<Rightarrow> ne_ring \<Rightarrow> u32 \<Rightarrow> nat \<times> ne_xsk_queue \<times> ne_ring" where
  "tx_drain_queue slot src max_frame =
     (let queued = ne_ring_count src in
      if queued = 0 then (0, slot, src)
      else let want = (if queued > NE_XSK_COPY_TX_BATCH then NE_XSK_COPY_TX_BATCH else queued) in
      case xsk_prod_nb_free (xq_tx slot) want of (free_slots, tx) \<Rightarrow>
      if free_slots = 0 then (0, slot\<lparr>xq_tx := tx\<rparr>, src)
      else let want = (if want > free_slots then free_slots else want) in
      case xsk_ring_prod_reserve tx want of (reserved, idx, tx) \<Rightarrow>
      if reserved = 0 then (0, slot\<lparr>xq_tx := tx\<rparr>, src)
      else case pop_jobs (unat reserved) src of (jobs, src) \<Rightarrow>
        let popped = of_nat (length jobs);
            tx = (if popped < reserved then tx\<lparr>xr_cached_prod := xr_cached_prod tx - (reserved - popped)\<rparr> else tx) in
        if popped = 0 then (0, slot\<lparr>xq_tx := tx\<rparr>, src)
        else (length jobs,
              slot\<lparr>xq_tx := xsk_ring_prod_submit (xsk_write tx idx (List.map (desc_of_job max_frame) jobs)) popped\<rparr>, src))"

text \<open>\<open>reclaim_rx_queue\<close>: first the entries that were read and not released (in batches), then all that are left.\<close>

function reclaim_pending :: "xdp_desc xsk_ring \<Rightarrow> u32 \<Rightarrow> u32 \<Rightarrow> u32 \<Rightarrow> ne_pool \<Rightarrow> ne_pool" where
  "reclaim_pending rx start off pending pool =
     (if off < pending then
        let batch = (if pending - off > NE_BATCH_SIZE then NE_BATCH_SIZE else pending - off)
        in reclaim_pending rx start (off + batch) pending
             (snd (pool_push pool (List.map xd_addr (xsk_read rx (start + off) batch))))
      else pool)"
  by pat_completeness auto

lemma batch_progress:
  fixes off pending :: u32
  assumes "off < pending" and "batch = (if pending - off > NE_BATCH_SIZE then NE_BATCH_SIZE else pending - off)"
  shows "unat (pending - (off + batch)) + unat batch = unat (pending - off)" "0 < unat batch" "unat batch \<le> 64"
    "off + batch \<le> pending"
proof -
  have d: "unat (pending - off) = unat pending - unat off" using assms(1) by (simp add: unat_sub)
  have p: "0 < unat (pending - off)" using assms(1) d by (simp add: word_less_nat_alt)
  have b: "unat batch \<le> unat (pending - off)" using assms(2) by (auto simp: word_less_nat_alt)
  show "0 < unat batch" "unat batch \<le> 64" using p assms(2) by (auto simp: NE_BATCH_SIZE_def word_less_nat_alt)
  have "pending - (off + batch) = (pending - off) - batch" by simp
  then have "unat (pending - (off + batch)) = unat (pending - off) - unat batch" using b by (simp only: unat_sub word_le_nat_alt)
  then show "unat (pending - (off + batch)) + unat batch = unat (pending - off)" using b by simp
  have "unat off + unat batch < 2 ^ 32" using b d unsigned_less [of pending, where ?'a = nat] assms(1) by (simp add: word_less_nat_alt)
  then have "unat (off + batch) = unat off + unat batch" by (rule unat_plus_small)
  then show "off + batch \<le> pending" using b d assms(1) by (simp add: word_le_nat_alt word_less_nat_alt)
qed

termination reclaim_pending
proof (relation "measure (\<lambda>(rx, start, off, pending, pool). unat (pending - off))", simp, goal_cases)
  case (1 rx start off pending pool batch)
  then show ?case using batch_progress [of off pending batch] by auto
qed

declare reclaim_pending.simps [simp del]

definition reclaim_round :: "xdp_desc xsk_ring \<Rightarrow> ne_pool \<Rightarrow> bool \<times> xdp_desc xsk_ring \<times> ne_pool" where
  "reclaim_round rx pool =
     (case xsk_ring_cons_peek rx NE_BATCH_SIZE of (n, idx, rx) \<Rightarrow>
        if n = 0 then (False, rx, pool)
        else (\<not> n < NE_BATCH_SIZE, xsk_ring_cons_release rx n,
              snd (pool_push pool (List.map xd_addr (xsk_read rx idx n)))))"

partial_function (option) reclaim_loop :: "xdp_desc xsk_ring \<Rightarrow> ne_pool \<Rightarrow> (xdp_desc xsk_ring \<times> ne_pool) option" where
  "reclaim_loop rx pool =
     (case reclaim_round rx pool of (again, rx', pool') \<Rightarrow>
        if again then reclaim_loop rx' pool' else Some (rx', pool'))"

definition reclaim_rx_queue :: "ne_xsk_queue \<Rightarrow> ne_pool \<Rightarrow> (ne_xsk_queue \<times> ne_pool) option" where
  "reclaim_rx_queue slot pool =
     (if xr_ring (xq_rx slot) = [] then Some (slot, pool)
      else
        let rx = xq_rx slot; pending = xq_rx_pending slot;
            (rx, pool) = (if pending \<noteq> 0 then
                (xsk_ring_cons_release rx pending, reclaim_pending rx (xr_cached_cons rx - pending) 0 pending pool)
              else (rx, pool)) in
        case reclaim_loop rx pool of None \<Rightarrow> None
        | Some (rx, pool) \<Rightarrow> Some (slot\<lparr>xq_rx := rx, xq_rx_pending := 0\<rparr>, pool))"

section \<open>What the operations of a queue do\<close>

text \<open>The frames in a queue: to be filled, received and not read, to be sent, sent.\<close>

definition queue_frames :: "ne_xsk_queue \<Rightarrow> u64 multiset" where
  "queue_frames x = mset (prod_contents (xq_fq x)) + mset (List.map xd_addr (cons_contents (xq_rx x)))
     + mset (List.map xd_addr (prod_contents (xq_tx x))) + mset (cons_contents (xq_cq x))"

definition queue_ok :: "ne_xsk_queue \<Rightarrow> bool" where
  "queue_ok x \<longleftrightarrow> prod_ok (xq_fq x) \<and> prod_ok (xq_tx x) \<and> cons_ok (xq_rx x) \<and> cons_ok (xq_cq x)
     \<and> cons_pending (xq_cq x) = 0 \<and> xq_rx_pending x \<le> cons_pending (xq_rx x)"

lemma unat_eq_0D: "unat (x :: u32) = 0 \<Longrightarrow> x = 0"
  by (simp add: unat_eq_zero)

lemma recv_queue_spec:
  assumes ok: "queue_ok x" and r: "recv_queue x m d w l = (out, x')"
  shows "queue_ok x'" "queue_frames x = mset (List.map pk_addr out) + queue_frames x'" "length out \<le> unat m"
    "out = List.map (pkt_of_desc d w l) (take (length out) (cons_contents (xq_rx x)))"
    "cons_pending (xq_rx x) = 0 \<Longrightarrow> xq_rx_pending x' = cons_pending (xq_rx x')"
proof -
  obtain n idx rx where pk: "xsk_ring_cons_peek (xq_rx x) m = (n, idx, rx)" by (cases "xsk_ring_cons_peek (xq_rx x) m") auto
  have rx: "cons_ok (xq_rx x)" using ok by (simp add: queue_ok_def)
  note a = cons_peek_spec [OF rx pk]
  have o: "out = List.map (pkt_of_desc d w l) (take (unat n) (cons_contents (xq_rx x)))" "x' = x\<lparr>xq_rx := rx, xq_rx_pending := n\<rparr>"
    using r by (auto simp: recv_queue_def pk a(2))
  have len: "length out = unat n" using a(9) by (simp add: o)
  show "queue_ok x'" using ok a(1,5) by (simp add: queue_ok_def o word_le_nat_alt)
  have adr: "List.map pk_addr out = List.map xd_addr (take (unat n) (cons_contents (xq_rx x)))" by (simp add: o pkt_of_desc_def)
  have "mset (List.map xd_addr (cons_contents (xq_rx x)))
      = mset (List.map xd_addr (take (unat n) (cons_contents (xq_rx x)))) + mset (List.map xd_addr (cons_contents rx))"
    by (metis a(3) append_take_drop_id map_append mset_append)
  then show "queue_frames x = mset (List.map pk_addr out) + queue_frames x'" unfolding adr by (simp add: queue_frames_def o(2))
  show "length out \<le> unat m" using a(4) len by (simp add: word_le_nat_alt)
  show "out = List.map (pkt_of_desc d w l) (take (length out) (cons_contents (xq_rx x)))" unfolding len by (rule o(1))
  show "xq_rx_pending x' = cons_pending (xq_rx x')" if "cons_pending (xq_rx x) = 0"
    using a(5) that by (simp add: o word_unat_eq_iff)
qed

lemma release_queue_spec:
  assumes "queue_ok x"
  shows "queue_ok (release_queue x)" "queue_frames (release_queue x) = queue_frames x" "xq_rx_pending (release_queue x) = 0"
    "xq_rx_pending x = cons_pending (xq_rx x) \<Longrightarrow> cons_pending (xq_rx (release_queue x)) = 0"
proof -
  have rx: "cons_ok (xq_rx x)" "xq_rx_pending x \<le> cons_pending (xq_rx x)" using assms by (simp_all add: queue_ok_def)
  note a = cons_release_spec [OF rx]
  show "queue_ok (release_queue x)" "queue_frames (release_queue x) = queue_frames x" "xq_rx_pending (release_queue x) = 0"
    using assms a by (simp_all add: release_queue_def queue_ok_def queue_frames_def)
  show "cons_pending (xq_rx (release_queue x)) = 0" if "xq_rx_pending x = cons_pending (xq_rx x)"
    using a(3) that by (auto simp: release_queue_def intro: unat_eq_0D)
qed

lemma pool_push_fits:
  assumes ok: "pool_ok p" and room: "length (pool_contents p) + length xs \<le> unat (q_cap p)"
  shows "\<exists>p'. pool_push p xs = (of_nat (length xs), p') \<and> pool_ok p' \<and> pool_contents p' = pool_contents p @ xs \<and> q_cap p' = q_cap p"
proof -
  obtain put p' where pp: "pool_push p xs = (put, p')" by (cases "pool_push p xs")
  have len: "length xs < 2 ^ 32" using room unsigned_less [of "q_cap p", where ?'a = nat] by simp
  note a = pool_push_spec [OF ok len pp]
  have u: "unat put = length xs" using a room by simp
  have "put = of_nat (unat put)" by simp
  then have "put = of_nat (length xs)" by (simp only: u)
  with a u show ?thesis by (simp add: pp)
qed

lemma drain_cq_round_spec:
  assumes cq: "cons_ok cq" "cons_pending cq = 0" and p: "pool_ok p"
    and room: "length (pool_contents p) + length (cons_contents cq) \<le> unat (q_cap p)"
    and r: "drain_cq_round cq p = (again, cq', p')"
  shows "\<exists>k. cons_ok cq' \<and> cons_pending cq' = 0 \<and> pool_ok p' \<and> q_cap p' = q_cap p \<and> k \<le> length (cons_contents cq)
    \<and> pool_contents p' = pool_contents p @ take k (cons_contents cq) \<and> cons_contents cq' = drop k (cons_contents cq)
    \<and> (again \<longrightarrow> k > 0)"
proof -
  obtain n idx c where pk: "xsk_ring_cons_peek cq NE_BATCH_SIZE = (n, idx, c)" by (cases "xsk_ring_cons_peek cq NE_BATCH_SIZE") auto
  note a = cons_peek_spec [OF cq(1) pk]
  have pn: "cons_pending c = n" using a(5) cq(2) by (simp add: word_unat_eq_iff)
  show ?thesis
  proof (cases "n = 0")
    case True
    then show ?thesis using r a(1,3) p pn by (auto simp: drain_cq_round_def pk)
  next
    case False
    have l: "length (take (unat n) (cons_contents cq)) = unat n" using a(9) by simp
    have "length (pool_contents p) + length (take (unat n) (cons_contents cq)) \<le> unat (q_cap p)" using room a(9) by simp
    from pool_push_fits [OF p this] obtain q where q: "pool_push p (take (unat n) (cons_contents cq)) = (n, q)" "pool_ok q"
      "pool_contents q = pool_contents p @ take (unat n) (cons_contents cq)" "q_cap q = q_cap p" unfolding l by auto
    have "n > 0" using False by (simp add: word_gt_0)
    then have res: "cq' = xsk_ring_cons_release c n" "p' = q" using r False by (auto simp: drain_cq_round_def pk a(2) q(1) Let_def)
    note b = cons_release_spec [OF a(1), of n]
    have "cons_pending (xsk_ring_cons_release c n) = 0" using b(3) by (simp add: pn unat_eq_zero)
    then show ?thesis using b pn q a False by (intro exI [of _ "unat n"]) (simp add: res unat_gt_0)
  qed
qed

lemma drain_cq_loop_spec:
  assumes "cons_ok cq" "cons_pending cq = 0" "pool_ok p"
    and "length (pool_contents p) + length (cons_contents cq) \<le> unat (q_cap p)"
  shows "\<exists>cq' p' k. drain_cq_loop cq p = Some (cq', p') \<and> cons_ok cq' \<and> cons_pending cq' = 0 \<and> pool_ok p' \<and> q_cap p' = q_cap p
    \<and> pool_contents p' = pool_contents p @ take k (cons_contents cq) \<and> cons_contents cq' = drop k (cons_contents cq)"
  using assms
proof (induction "length (cons_contents cq)" arbitrary: cq p rule: less_induct)
  case less
  obtain again c q where r: "drain_cq_round cq p = (again, c, q)" by (cases "drain_cq_round cq p") auto
  from drain_cq_round_spec [OF less.prems r] obtain k where k: "cons_ok c" "cons_pending c = 0" "pool_ok q" "q_cap q = q_cap p"
    "k \<le> length (cons_contents cq)" "pool_contents q = pool_contents p @ take k (cons_contents cq)"
    "cons_contents c = drop k (cons_contents cq)" "again \<longrightarrow> k > 0" by blast
  show ?case
  proof (cases again)
    case False
    then show ?thesis using k by (subst drain_cq_loop.simps) (auto simp: r)
  next
    case True
    have "length (cons_contents c) < length (cons_contents cq)" using k True by simp
    moreover have "length (pool_contents q) + length (cons_contents c) \<le> unat (q_cap q)" using less.prems(4) k by simp
    ultimately obtain c' q' j where "drain_cq_loop c q = Some (c', q')" "cons_ok c'" "cons_pending c' = 0" "pool_ok q'" "q_cap q' = q_cap q"
      "pool_contents q' = pool_contents q @ take j (cons_contents c)" "cons_contents c' = drop j (cons_contents c)"
      using less.hyps [of c q] k by blast
    then show ?thesis using True k
      by (subst drain_cq_loop.simps) (auto simp: r take_add [symmetric] add.commute intro!: exI [of _ "k + j"])
  qed
qed

lemma drain_cq_queue_spec:
  assumes ok: "queue_ok x" and p: "pool_ok p" and room: "length (pool_contents p) + size (queue_frames x) \<le> unat (q_cap p)"
  shows "\<exists>x' p'. drain_cq_queue x p = Some (x', p') \<and> queue_ok x' \<and> pool_ok p' \<and> q_cap p' = q_cap p
    \<and> queue_frames x' + mset (pool_contents p') = queue_frames x + mset (pool_contents p)
    \<and> xq_rx x' = xq_rx x \<and> xq_rx_pending x' = xq_rx_pending x"
proof -
  have "length (pool_contents p) + length (cons_contents (xq_cq x)) \<le> unat (q_cap p)" using room by (simp add: queue_frames_def)
  with drain_cq_loop_spec [of "xq_cq x" p] ok p obtain cq' p' k where d: "drain_cq_loop (xq_cq x) p = Some (cq', p')"
    "cons_ok cq'" "cons_pending cq' = 0" "pool_ok p'" "q_cap p' = q_cap p"
    "pool_contents p' = pool_contents p @ take k (cons_contents (xq_cq x))" "cons_contents cq' = drop k (cons_contents (xq_cq x))"
    by (auto simp: queue_ok_def)
  have [simp]: "mset (cons_contents cq') + mset (pool_contents p') = mset (cons_contents (xq_cq x)) + mset (pool_contents p)"
    unfolding d(6,7) by (metis (no_types) add.assoc add.commute append_take_drop_id mset_append)
  then have "queue_frames (x\<lparr>xq_cq := cq'\<rparr>) + mset (pool_contents p') = queue_frames x + mset (pool_contents p)"
    by (simp add: queue_frames_def add.assoc)
  moreover have "queue_ok (x\<lparr>xq_cq := cq'\<rparr>)" using ok d(2,3) by (simp add: queue_ok_def)
  ultimately show ?thesis using d(1,4,5) by (simp add: drain_cq_queue_def)
qed

text \<open>Reservation, and reservation followed by write and submission.\<close>

lemma prod_reserve_spec:
  assumes ok: "prod_ok r" and res: "xsk_ring_prod_reserve r nb = (n, idx, r')"
  obtains (room) r0 where "n = nb" "idx = xr_producer r" "prod_ok r0" "prod_contents r0 = prod_contents r" "xr_producer r0 = xr_producer r"
      "xr_size r0 = xr_size r" "unat (prod_stale r0) + unat nb \<le> unat (xr_size r0)" "r' = r0\<lparr>xr_cached_prod := xr_producer r + nb\<rparr>"
  | (full) "n = 0" "nb \<noteq> 0" "prod_ok r'" "prod_contents r' = prod_contents r" "xr_size r' = xr_size r"
      "unat (xr_size r) - length (prod_contents r) < unat nb" "unat (xr_size r) < unat (prod_stale r) + unat nb"
proof -
  obtain fr q where f: "xsk_prod_nb_free r nb = (fr, q)" by (cases "xsk_prod_nb_free r nb")
  note a = prod_nb_free_spec [OF ok f]
  have cp: "xr_cached_prod q = xr_producer r" using a(1,5) by (simp add: prod_ok_def)
  show thesis
  proof (cases "fr < nb")
    case True
    have sm: "unat (xr_size r) - length (prod_contents r) < unat nb" using a(7) True by (simp add: word_less_nat_alt)
    have "unat (xr_size r) < unat (prod_stale r) + unat nb" using sm prod_contents_bounded [OF ok] by linarith
    moreover have "nb \<noteq> 0" using True by auto
    ultimately show thesis using res True a sm by (intro full) (auto simp: xsk_ring_prod_reserve_def f)
  next
    case False
    then have "unat nb \<le> unat fr" by (simp add: word_less_nat_alt)
    then have "unat (prod_stale q) + unat nb \<le> unat (xr_size q)" using a(3,6) prod_contents_bounded(2) [OF a(1)] by simp
    then show thesis using res False a cp by (intro room [of q]) (auto simp: xsk_ring_prod_reserve_def f)
  qed
qed

lemma prod_fill:
  assumes ok: "prod_ok r0" and room: "unat (prod_stale r0) + length xs \<le> unat (xr_size r0)" and n: "n = of_nat (length xs)"
    and r': "r' = xsk_ring_prod_submit (xsk_write (r0\<lparr>xr_cached_prod := xr_producer r0 + n\<rparr>) (xr_producer r0) xs) n"
  shows "prod_ok r'" "prod_contents r' = prod_contents r0 @ xs" "xr_size r' = xr_size r0"
proof -
  have "r' = (xsk_write r0 (xr_producer r0) xs)\<lparr>xr_cached_prod := xr_producer r0 + of_nat (length xs),
        xr_producer := xr_producer r0 + of_nat (length xs)\<rparr>"
    by (simp add: r' n xsk_ring_prod_submit_def xsk_write_def)
  from prod_append [OF ok room this] show "prod_ok r'" "prod_contents r' = prod_contents r0 @ xs" "xr_size r' = xr_size r0" by simp_all
qed

lemma refill_fq_queue_spec:
  assumes ok: "queue_ok x" and p: "pool_ok p" and r: "refill_fq_queue x p = (x', p')"
  shows "\<exists>k. queue_ok x' \<and> pool_ok p' \<and> q_cap p' = q_cap p \<and> prod_contents (xq_fq x') = prod_contents (xq_fq x) @ take k (pool_contents p)
    \<and> pool_contents p' = drop k (pool_contents p) \<and> xq_rx x' = xq_rx x \<and> xq_tx x' = xq_tx x \<and> xq_cq x' = xq_cq x
    \<and> xq_rx_pending x' = xq_rx_pending x"
proof -
  have fq: "prod_ok (xq_fq x)" using ok by (simp add: queue_ok_def)
  obtain fr fq where f: "xsk_prod_nb_free (xq_fq x) NE_BATCH_SIZE = (fr, fq)" by (cases "xsk_prod_nb_free (xq_fq x) NE_BATCH_SIZE")
  note a = prod_nb_free_spec [OF fq f]
  define want where "want = (if fr > NE_BATCH_SIZE then NE_BATCH_SIZE else fr)"
  obtain addrs q where pp: "pool_pop p want = (addrs, q)" by (cases "pool_pop p want")
  note b = pool_pop_spec [OF p pp]
  define got :: u32 where "got = of_nat (length addrs)"
  have le: "length addrs \<le> unat want" using length_pool_pop [of p want] by (simp add: pp)
  then have u: "unat got = length addrs" using unsigned_less [of want, where ?'a = nat] by (simp add: got_def unat_of_nat_mod_32)
  have ok_fq: "queue_ok (x\<lparr>xq_fq := fq\<rparr>)" using ok a by (simp add: queue_ok_def)
  have q0: "x' = x\<lparr>xq_fq := fq\<rparr> \<and> p' = p \<or> x' = x\<lparr>xq_fq := fq\<rparr> \<and> p' = q \<and> got = 0 \<or> fr \<noteq> 0 \<and> got \<noteq> 0 \<and>
      (case xsk_ring_prod_reserve fq got of (res, idx, fq) \<Rightarrow>
          if res \<noteq> got then (x\<lparr>xq_fq := fq\<rparr>, snd (pool_push q addrs))
          else (x\<lparr>xq_fq := xsk_ring_prod_submit (xsk_write fq idx addrs) got\<rparr>, q)) = (x', p')"
    using r unfolding got_def by (auto simp: refill_fq_queue_def f Let_def want_def [symmetric] pp split: if_splits)
  then consider (none) "x' = x\<lparr>xq_fq := fq\<rparr>" "p' = p" | (dry) "x' = x\<lparr>xq_fq := fq\<rparr>" "p' = q" "got = 0" |
     (some) "(case xsk_ring_prod_reserve fq got of (res, idx, fq) \<Rightarrow>
          if res \<noteq> got then (x\<lparr>xq_fq := fq\<rparr>, snd (pool_push q addrs))
          else (x\<lparr>xq_fq := xsk_ring_prod_submit (xsk_write fq idx addrs) got\<rparr>, q)) = (x', p')" by blast
  then show ?thesis
  proof cases
    case none
    then show ?thesis using ok_fq p a by (intro exI [of _ 0]) simp
  next
    case dry
    then have "addrs = []" using u by simp
    then show ?thesis using ok_fq b a by (intro exI [of _ "unat want"]) (simp add: dry(1,2))
  next
    case some
    obtain res idx fq' where rv: "xsk_ring_prod_reserve fq got = (res, idx, fq')" by (cases "xsk_ring_prod_reserve fq got") auto
    have "unat want \<le> unat fr" by (auto simp: want_def word_less_nat_alt)
    then have nf: "\<not> unat (xr_size fq) < unat (prod_stale fq) + unat got"
      using le a(3,6) prod_contents_bounded(2) [OF a(1)] by (simp add: u)
    from a(1) rv show ?thesis
    proof (cases rule: prod_reserve_spec)
      case full
      with nf show ?thesis by simp
    next
      case (room r0)
      have n: "got = of_nat (length addrs)" by (simp add: got_def)
      have r0: "unat (prod_stale r0) + length addrs \<le> unat (xr_size r0)" using room(7) u by simp
      note c = prod_fill [OF room(3) r0 n, of "xsk_ring_prod_submit (xsk_write fq' idx addrs) got"]
      have e: "xsk_ring_prod_submit (xsk_write fq' idx addrs) got
          = xsk_ring_prod_submit (xsk_write (r0\<lparr>xr_cached_prod := xr_producer r0 + got\<rparr>) (xr_producer r0) addrs) got"
        by (simp add: room(2,5,8))
      have "x' = x\<lparr>xq_fq := xsk_ring_prod_submit (xsk_write fq' idx addrs) got\<rparr>" "p' = q" using some by (simp_all add: rv room(1))
      then show ?thesis using c [OF e] ok b a(2) room(4) by (intro exI [of _ "unat want"]) (simp add: queue_ok_def)
    qed
  qed
qed

text \<open>The loop that fills a new queue: frames go from the pool to the fill ring, none gets lost when the ring is full.\<close>

lemma prefill_queue_spec:
  assumes "prod_ok fq" "pool_ok p" "prefill_queue fq p want = (fq', p')"
  shows "prod_ok fq' \<and> pool_ok p' \<and> q_cap p' = q_cap p
    \<and> mset (prod_contents fq') + mset (pool_contents p') = mset (prod_contents fq) + mset (pool_contents p)"
  using assms
proof (induction "unat want" arbitrary: fq p want fq' p' rule: less_induct)
  case less
  define n where "n = (if want > NE_BATCH_SIZE then NE_BATCH_SIZE else want)"
  obtain addrs q where pp: "pool_pop p n = (addrs, q)" by (cases "pool_pop p n")
  define got :: u32 where "got = of_nat (length addrs)"
  note b = pool_pop_spec [OF less.prems(2) pp]
  have le: "length addrs \<le> unat n" using length_pool_pop [of p n] by (simp add: pp)
  then have u: "unat got = length addrs" using unsigned_less [of n, where ?'a = nat] by (simp add: got_def unat_of_nat_mod_32)
  have pm: "mset addrs + mset (pool_contents q) = mset (pool_contents p)" using b by (metis append_take_drop_id mset_append)
  show ?case
  proof (cases "want = 0 \<or> addrs = []")
    case True
    then have "fq' = fq \<and> p' = (if want = 0 then p else q)"
      using less.prems(3) by (subst (asm) prefill_queue.simps) (auto simp: n_def [symmetric] pp Let_def)
    then show ?thesis using less.prems(1,2) b pm True by (cases "want = 0") auto
  next
    case False
    obtain res idx fq1 where rv: "xsk_ring_prod_reserve fq got = (res, idx, fq1)" by (cases "xsk_ring_prod_reserve fq got") auto
    have run: "(if res \<noteq> got then (fq1, snd (pool_push q addrs))
        else prefill_queue (xsk_ring_prod_submit (xsk_write fq1 idx addrs) got) q (want - got)) = (fq', p')"
      using less.prems(3) False by (subst (asm) prefill_queue.simps) (simp add: n_def [symmetric] pp Let_def got_def [symmetric] rv cong: if_cong)
    from less.prems(1) rv show ?thesis
    proof (cases rule: prod_reserve_spec)
      case full
      then have e: "fq' = fq1" "p' = snd (pool_push q addrs)" using run by auto
      have "length (pool_contents q) + length addrs = length (pool_contents p)" using pm by (metis add.commute mset_append size_mset length_append)
      also have "\<dots> \<le> unat (q_cap q)" using pool.bounded [OF less.prems(2)] b by simp
      finally have "length (pool_contents q) + length addrs \<le> unat (q_cap q)" .
      with pool_push_fits [of q addrs] b e(2) have "pool_ok p'" "pool_contents p' = pool_contents q @ addrs" "q_cap p' = q_cap p" by auto
      then show ?thesis using full e(1) pm by (simp add: add.commute)
    next
      case (room r0)
      have n: "got = of_nat (length addrs)" by (simp add: got_def)
      have r0: "unat (prod_stale r0) + length addrs \<le> unat (xr_size r0)" using room(7) u by simp
      let ?fq2 = "xsk_ring_prod_submit (xsk_write fq1 idx addrs) got"
      have e: "?fq2 = xsk_ring_prod_submit (xsk_write (r0\<lparr>xr_cached_prod := xr_producer r0 + got\<rparr>) (xr_producer r0) addrs) got"
        by (simp add: room(2,5,8))
      note c = prod_fill [OF room(3) r0 n e]
      have "prefill_queue ?fq2 q (want - got) = (fq', p')" using run room(1) by simp
      moreover have "unat (want - got) < unat want"
        using prefill_progress [of want p] False by (simp add: n_def [symmetric] pp got_def [symmetric])
      ultimately have "prod_ok fq' \<and> pool_ok p' \<and> q_cap p' = q_cap q
          \<and> mset (prod_contents fq') + mset (pool_contents p') = mset (prod_contents ?fq2) + mset (pool_contents q)"
        using less.hyps [OF _ c(1)] b by blast
      then show ?thesis using b c(2) room(4) pm by (simp add: ac_simps)
    qed
  qed
qed

lemma pop_jobs_spec:
  assumes "ring_ok src" "pop_jobs n src = (jobs, src')"
  shows "jobs = take n (ring_contents src) \<and> ring_ok src' \<and> ring_contents src' = drop n (ring_contents src) \<and> r_cap src' = r_cap src"
  using assms
proof (induction n arbitrary: src jobs src')
  case (Suc n)
  show ?case
  proof (cases "ring_contents src")
    case Nil
    then show ?thesis using Suc.prems ring.pop_empty [OF Suc.prems(1)] by auto
  next
    case (Cons x xs)
    from ring_pop_front [OF Suc.prems(1) Cons] obtain s where s: "ne_ring_try_pop src = Some (x, s)" "ring_ok s" "ring_contents s = xs" "r_cap s = r_cap src"
      by blast
    obtain js s2 where j: "pop_jobs n s = (js, s2)" by (cases "pop_jobs n s")
    from Suc.IH [OF s(2) j] show ?thesis using Suc.prems(2) s j Cons by auto
  qed
qed auto

lemma tx_drain_queue_spec:
  assumes ok: "queue_ok x" and src: "ring_ok src" and r: "tx_drain_queue x src mf = (sent, x', src')"
  shows "queue_ok x' \<and> ring_ok src' \<and> r_cap src' = r_cap src \<and> sent \<le> 32 \<and> sent \<le> length (ring_contents src)
    \<and> ring_contents src' = drop sent (ring_contents src)
    \<and> prod_contents (xq_tx x') = prod_contents (xq_tx x) @ List.map (desc_of_job mf) (take sent (ring_contents src))
    \<and> xq_rx x' = xq_rx x \<and> xq_fq x' = xq_fq x \<and> xq_cq x' = xq_cq x \<and> xq_rx_pending x' = xq_rx_pending x
    \<and> (0 < length (ring_contents src) \<longrightarrow> length (prod_contents (xq_tx x)) < unat (xr_size (xq_tx x)) \<longrightarrow> 0 < sent)"
proof -
  have tx: "prod_ok (xq_tx x)" using ok by (simp add: queue_ok_def)
  define want where "want = (if ne_ring_count src > NE_XSK_COPY_TX_BATCH then NE_XSK_COPY_TX_BATCH else ne_ring_count src)"
  have len: "length (ring_contents src) = unat (ne_ring_count src)" by (rule length_ring_contents)
  have w: "unat want = min 32 (length (ring_contents src))" by (auto simp: want_def len NE_XSK_COPY_TX_BATCH_def word_less_nat_alt)
  obtain fr tx1 where f: "xsk_prod_nb_free (xq_tx x) want = (fr, tx1)" by (cases "xsk_prod_nb_free (xq_tx x) want")
  note a = prod_nb_free_spec [OF tx f]
  define want' where "want' = (if want > fr then fr else want)"
  have w': "unat want' = min (unat fr) (unat want)" by (auto simp: want'_def word_less_nat_alt)
  have q1: "queue_ok (x\<lparr>xq_tx := tx1\<rparr>)" using ok a(1) by (simp add: queue_ok_def)
  show ?thesis
  proof (cases "ne_ring_count src = 0 \<or> fr = 0")
    case True
    have wn: "want \<noteq> 0 \<longleftrightarrow> ne_ring_count src \<noteq> 0" by (auto simp: want_def NE_XSK_COPY_TX_BATCH_def)
    from True have "sent = 0 \<and> src' = src \<and> (x' = x \<or> x' = x\<lparr>xq_tx := tx1\<rparr> \<and> fr = 0 \<and> want \<noteq> 0)"
      using r wn by (auto simp: tx_drain_queue_def Let_def want_def [symmetric] f split: if_splits)
    moreover have "fr = 0 \<Longrightarrow> want \<noteq> 0 \<Longrightarrow> length (prod_contents (xq_tx x)) \<ge> unat (xr_size (xq_tx x))" using a(7) by (simp add: word_gt_0)
    moreover have "want \<noteq> 0" if "0 < length (ring_contents src)" using that unfolding wn len by (simp add: unat_gt_0)
    ultimately show ?thesis using ok q1 src a(2) True len by (auto simp: linorder_not_less)
  next
    case False
    have w0: "0 < unat want'" using False w w' len by (simp add: unat_gt_0)
    obtain res idx tx2 where rv: "xsk_ring_prod_reserve tx1 want' = (res, idx, tx2)" by (cases "xsk_ring_prod_reserve tx1 want'") auto
    have nf: "\<not> unat (xr_size tx1) < unat (prod_stale tx1) + unat want'"
      using w' a(3,6) prod_contents_bounded(2) [OF a(1)] by simp
    from a(1) rv show ?thesis
    proof (cases rule: prod_reserve_spec)
      case full
      with nf show ?thesis by simp
    next
      case (room r0)
      obtain jobs s2 where j: "pop_jobs (unat want') src = (jobs, s2)" by (cases "pop_jobs (unat want') src")
      note jj = pop_jobs_spec [OF src j]
      have lj: "length jobs = unat want'" using jj w w' by simp
      then have pop: "of_nat (length jobs) = want'" by simp
      have run: "sent = unat want'" "src' = s2" "x' = x\<lparr>xq_tx := xsk_ring_prod_submit (xsk_write tx2 idx (List.map (desc_of_job mf) jobs)) want'\<rparr>"
        using r False w0 by (simp_all add: tx_drain_queue_def Let_def want_def [symmetric] f want'_def [symmetric] rv room(1) j pop lj unat_gt_0)
      let ?ds = "List.map (desc_of_job mf) jobs"
      have n: "want' = of_nat (length ?ds)" using pop by simp
      have r0: "unat (prod_stale r0) + length ?ds \<le> unat (xr_size r0)" using room(7) lj by simp
      have e: "xsk_ring_prod_submit (xsk_write tx2 idx ?ds) want'
          = xsk_ring_prod_submit (xsk_write (r0\<lparr>xr_cached_prod := xr_producer r0 + want'\<rparr>) (xr_producer r0) ?ds) want'"
        by (simp add: room(2,5,8))
      note c = prod_fill [OF room(3) r0 n e]
      have "unat want' \<le> 32 \<and> unat want' \<le> length (ring_contents src)" using w w' by linarith
      then show ?thesis using c ok jj w0 a(2) room(4) by (simp add: run queue_ok_def)
    qed
  qed
qed

section \<open>Taking frames back from a queue\<close>

lemma xsk_read_split:
  assumes "unat a + unat b < 2 ^ 32"
  shows "xsk_read r t (a + b) = xsk_read r t a @ xsk_read r (t + a) b"
proof -
  have u: "unat (a + b) = unat a + unat b" by (rule unat_plus_small [OF assms])
  have "xsk_read r t (a + b) = xsk_read r t a @ List.map (\<lambda>i. xsk_slot r (t + of_nat i)) [unat a..<unat a + unat b]"
    by (simp add: xsk_read_def u upt_add_eq_append [of 0 "unat a" "unat b", simplified])
  also have "List.map (\<lambda>i. xsk_slot r (t + of_nat i)) [unat a..<unat a + unat b]
      = List.map (\<lambda>i. xsk_slot r (t + of_nat (i + unat a))) [0..<unat b]"
    by (rule nth_equalityI) (simp_all add: ac_simps)
  also have "\<dots> = xsk_read r (t + a) b" by (simp add: xsk_read_def ac_simps)
  finally show ?thesis .
qed

lemma length_xsk_read [simp]: "length (xsk_read r t n) = unat n"
  by (simp add: xsk_read_def)

lemma reclaim_pending_spec:
  assumes "pool_ok p" "off \<le> pending" "length (pool_contents p) + unat (pending - off) \<le> unat (q_cap p)"
  shows "pool_ok (reclaim_pending rx start off pending p) \<and> q_cap (reclaim_pending rx start off pending p) = q_cap p
    \<and> pool_contents (reclaim_pending rx start off pending p)
      = pool_contents p @ List.map xd_addr (xsk_read rx (start + off) (pending - off))"
  using assms
proof (induction rx start off pending p rule: reclaim_pending.induct)
  case (1 rx start off pending p)
  show ?case
  proof (cases "off < pending")
    case False
    with 1(3) have "off = pending" by simp
    then show ?thesis using 1(2) by (subst (1 2 3) reclaim_pending.simps) (simp add: xsk_read_def)
  next
    case True
    define batch where "batch = (if pending - off > NE_BATCH_SIZE then NE_BATCH_SIZE else pending - off)"
    note b = batch_progress [OF True batch_def]
    let ?xs = "List.map xd_addr (xsk_read rx (start + off) batch)" and ?q = "snd (pool_push p (List.map xd_addr (xsk_read rx (start + off) batch)))"
    have "length (pool_contents p) + length ?xs \<le> unat (q_cap p)" using 1(4) b(1) by simp
    from pool_push_fits [OF 1(2) this] have q: "pool_ok ?q" "pool_contents ?q = pool_contents p @ ?xs" "q_cap ?q = q_cap p" by auto
    have r: "length (pool_contents ?q) + unat (pending - (off + batch)) \<le> unat (q_cap ?q)" using 1(4) b(1) q by simp
    note ih = 1(1) [OF True batch_def q(1) b(4) r]
    have e: "reclaim_pending rx start off pending p = reclaim_pending rx start (off + batch) pending ?q"
      using True by (subst reclaim_pending.simps) (simp add: batch_def Let_def)
    have "unat batch + unat (pending - (off + batch)) < 2 ^ 32" using b(1) unsigned_less [of "pending - off", where ?'a = nat] by simp
    from xsk_read_split [OF this, of rx "start + off"]
    have "xsk_read rx (start + off) (pending - off)
        = xsk_read rx (start + off) batch @ xsk_read rx (start + (off + batch)) (pending - (off + batch))" by (simp add: add.assoc)
    then show ?thesis using ih q by (simp add: e)
  qed
qed

lemma reclaim_round_spec:
  assumes rx: "cons_ok rx" "cons_pending rx = 0" and p: "pool_ok p"
    and room: "length (pool_contents p) + length (cons_contents rx) \<le> unat (q_cap p)"
    and r: "reclaim_round rx p = (again, rx', p')"
  shows "\<exists>k. cons_ok rx' \<and> cons_pending rx' = 0 \<and> pool_ok p' \<and> q_cap p' = q_cap p \<and> k \<le> length (cons_contents rx)
    \<and> pool_contents p' = pool_contents p @ List.map xd_addr (take k (cons_contents rx)) \<and> cons_contents rx' = drop k (cons_contents rx)
    \<and> (again \<longrightarrow> k > 0)"
proof -
  obtain n idx c where pk: "xsk_ring_cons_peek rx NE_BATCH_SIZE = (n, idx, c)" by (cases "xsk_ring_cons_peek rx NE_BATCH_SIZE") auto
  note a = cons_peek_spec [OF rx(1) pk]
  have pn: "cons_pending c = n" using a(5) rx(2) by (simp add: word_unat_eq_iff)
  show ?thesis
  proof (cases "n = 0")
    case True
    then show ?thesis using r a(1,3) p pn by (auto simp: reclaim_round_def pk)
  next
    case False
    let ?xs = "List.map xd_addr (take (unat n) (cons_contents rx))"
    have "length (pool_contents p) + length ?xs \<le> unat (q_cap p)" using room by simp
    from pool_push_fits [OF p this] obtain k q where q: "pool_push p ?xs = (k, q)" "pool_ok q" "pool_contents q = pool_contents p @ ?xs" "q_cap q = q_cap p"
      by blast
    have res: "rx' = xsk_ring_cons_release c n" "p' = q" using r False by (auto simp: reclaim_round_def pk a(2) q(1))
    note b = cons_release_spec [OF a(1), of n]
    have "cons_pending (xsk_ring_cons_release c n) = 0" using b(3) by (simp add: pn unat_eq_zero)
    then show ?thesis using b pn q a False by (intro exI [of _ "unat n"]) (simp add: res unat_gt_0)
  qed
qed

lemma reclaim_loop_spec:
  assumes "cons_ok rx" "cons_pending rx = 0" "pool_ok p"
    and "length (pool_contents p) + length (cons_contents rx) \<le> unat (q_cap p)"
  shows "\<exists>rx' p' k. reclaim_loop rx p = Some (rx', p') \<and> cons_ok rx' \<and> cons_pending rx' = 0 \<and> pool_ok p' \<and> q_cap p' = q_cap p
    \<and> pool_contents p' = pool_contents p @ List.map xd_addr (take k (cons_contents rx)) \<and> cons_contents rx' = drop k (cons_contents rx)"
  using assms
proof (induction "length (cons_contents rx)" arbitrary: rx p rule: less_induct)
  case less
  obtain again c q where r: "reclaim_round rx p = (again, c, q)" by (cases "reclaim_round rx p") auto
  from reclaim_round_spec [OF less.prems r] obtain k where k: "cons_ok c" "cons_pending c = 0" "pool_ok q" "q_cap q = q_cap p"
    "k \<le> length (cons_contents rx)" "pool_contents q = pool_contents p @ List.map xd_addr (take k (cons_contents rx))"
    "cons_contents c = drop k (cons_contents rx)" "again \<longrightarrow> k > 0" by blast
  show ?case
  proof (cases again)
    case False
    then show ?thesis using k by (subst reclaim_loop.simps) (auto simp: r)
  next
    case True
    have "length (cons_contents c) < length (cons_contents rx)" using k True by simp
    moreover have "length (pool_contents q) + length (cons_contents c) \<le> unat (q_cap q)" using less.prems(4) k by simp
    ultimately obtain c' q' j where "reclaim_loop c q = Some (c', q')" "cons_ok c'" "cons_pending c' = 0" "pool_ok q'" "q_cap q' = q_cap q"
      "pool_contents q' = pool_contents q @ List.map xd_addr (take j (cons_contents c))" "cons_contents c' = drop j (cons_contents c)"
      using less.hyps [of c q] k by blast
    moreover have "List.map xd_addr (take k (cons_contents rx)) @ List.map xd_addr (take j (drop k (cons_contents rx)))
        = List.map xd_addr (take (k + j) (cons_contents rx))" by (simp add: take_add)
    moreover have "drop j (drop k (cons_contents rx)) = drop (k + j) (cons_contents rx)" by (simp add: add.commute)
    moreover have "reclaim_loop rx p = reclaim_loop c q" using True by (subst reclaim_loop.simps) (simp add: r)
    ultimately show ?thesis using k by (intro exI [of _ c'] exI [of _ q'] exI [of _ "k + j"]) simp
  qed
qed

text \<open>What goes back to the pool: the frames of the packets that were read last and not released (which the reader handed
  on), and some of those that were not read.\<close>

definition handed_out :: "ne_xsk_queue \<Rightarrow> u64 list" where
  "handed_out x = List.map xd_addr (xsk_read (xq_rx x) (xr_cached_cons (xq_rx x) - xq_rx_pending x) (xq_rx_pending x))"

lemma reclaim_rx_queue_spec:
  assumes ok: "queue_ok x" and pd: "xq_rx_pending x = cons_pending (xq_rx x)" and p: "pool_ok p"
    and room: "length (pool_contents p) + unat (xq_rx_pending x) + length (cons_contents (xq_rx x)) \<le> unat (q_cap p)"
  shows "\<exists>x' p' k. reclaim_rx_queue x p = Some (x', p') \<and> queue_ok x' \<and> pool_ok p' \<and> q_cap p' = q_cap p
    \<and> pool_contents p' = pool_contents p @ handed_out x @ List.map xd_addr (take k (cons_contents (xq_rx x)))
    \<and> cons_contents (xq_rx x') = drop k (cons_contents (xq_rx x)) \<and> xq_fq x' = xq_fq x \<and> xq_tx x' = xq_tx x \<and> xq_cq x' = xq_cq x"
proof -
  let ?rx = "xq_rx x" and ?n = "xq_rx_pending x"
  have rx: "cons_ok ?rx" using ok by (simp add: queue_ok_def)
  then have ne: "xr_ring ?rx \<noteq> []" by (auto simp: cons_ok_def elim!: xring_wfE)
  define p1 where "p1 = (if ?n \<noteq> 0 then reclaim_pending ?rx (xr_cached_cons ?rx - ?n) 0 ?n p else p)"
  define rx1 where "rx1 = (if ?n \<noteq> 0 then xsk_ring_cons_release ?rx ?n else ?rx)"
  have p1: "pool_ok p1" "q_cap p1 = q_cap p" "pool_contents p1 = pool_contents p @ handed_out x"
    using reclaim_pending_spec [OF p, of 0 ?n ?rx "xr_cached_cons ?rx - ?n"] room p by (auto simp: p1_def handed_out_def xsk_read_def)
  note b = cons_release_spec [OF rx, of ?n]
  have rx1: "cons_ok rx1" "cons_pending rx1 = 0" "cons_contents rx1 = cons_contents ?rx"
    using b pd rx by (auto simp: rx1_def intro: unat_eq_0D)
  have "length (pool_contents p1) + length (cons_contents rx1) \<le> unat (q_cap p1)" using room p1 rx1 by (simp add: handed_out_def)
  with reclaim_loop_spec [OF rx1(1,2) p1(1)] obtain r2 p2 k where l: "reclaim_loop rx1 p1 = Some (r2, p2)" "cons_ok r2" "cons_pending r2 = 0"
    "pool_ok p2" "q_cap p2 = q_cap p1" "pool_contents p2 = pool_contents p1 @ List.map xd_addr (take k (cons_contents rx1))"
    "cons_contents r2 = drop k (cons_contents rx1)" by blast
  have "reclaim_rx_queue x p = Some (x\<lparr>xq_rx := r2, xq_rx_pending := 0\<rparr>, p2)"
    using ne l(1) by (auto simp: reclaim_rx_queue_def Let_def p1_def rx1_def)
  then show ?thesis using l ok p1 rx1 by (auto simp: queue_ok_def)
qed

end
