(* ===== verification/Xsk_Pair.thy ===== *)
theory Xsk_Pair
  imports Xsk_Queue
begin

text \<open>
  The pair of LAN and WAN ports as the threads of \<open>forwarder.c\<close> use it: the operations of \<open>xdp_interface.c\<close> that run over
  the interfaces and their queues, opening, adding and removing interfaces, and the number of transmit slots. The arrays
  of interfaces are lists of the length of their counts. The fill and completion ring that a removed first interface
  keeps for the shared memory area are not represented.
\<close>

section \<open>Running over interfaces and queues\<close>

fun each_queue :: "(nat \<Rightarrow> bool) \<Rightarrow> (ne_xsk_queue \<Rightarrow> 's \<Rightarrow> (ne_xsk_queue \<times> 's) option) \<Rightarrow> nat \<Rightarrow> ne_xsk_queue list \<Rightarrow> 's
    \<Rightarrow> (ne_xsk_queue list \<times> 's) option" where
  "each_queue sel f q [] s = Some ([], s)"
| "each_queue sel f q (x # xs) s = do {
     (x', s') \<leftarrow> (if sel q then f x s else Some (x, s));
     (xs', s'') \<leftarrow> each_queue sel f (Suc q) xs s';
     Some (x' # xs', s'') }"

fun each_iface :: "(nat \<Rightarrow> bool) \<Rightarrow> (nat \<Rightarrow> ne_xsk_queue list \<Rightarrow> 's \<Rightarrow> (ne_xsk_queue list \<times> 's) option) \<Rightarrow> nat \<Rightarrow> ne_iface list \<Rightarrow> 's
    \<Rightarrow> (ne_iface list \<times> 's) option" where
  "each_iface act f i [] s = Some ([], s)"
| "each_iface act f i (x # xs) s = do {
     (x', s') \<leftarrow> (if act i then map_option (\<lambda>(qs, s). (x\<lparr>ni_queues := qs\<rparr>, s)) (f i (ni_queues x) s) else Some (x, s));
     (xs', s'') \<leftarrow> each_iface act f (Suc i) xs s';
     Some (x' # xs', s'') }"

section \<open>Receive threads\<close>

text \<open>The body of the inner loop of \<open>ne_recv_local_slot\<close> and \<open>ne_recv_wan_slot\<close>, up to \<open>maxn\<close> packets in all.\<close>

definition recv_more :: "u32 \<Rightarrow> u8 \<Rightarrow> u8 \<Rightarrow> u8 \<Rightarrow> ne_xsk_queue \<Rightarrow> ne_packet list \<Rightarrow> (ne_xsk_queue \<times> ne_packet list) option" where
  "recv_more maxn dir wan_idx local_idx x out =
     (if length out < unat maxn
      then case recv_queue (x\<lparr>xq_rx_pending := 0\<rparr>) (maxn - of_nat (length out)) dir wan_idx local_idx of
        (new, x') \<Rightarrow> Some (x', out @ new)
      else Some (x, out))"

definition ne_recv_local_slot :: "xsk_pair \<Rightarrow> nat \<Rightarrow> u32 \<Rightarrow> (ne_packet list \<times> xsk_pair) option" where
  "ne_recv_local_slot p rx_slot maxn =
     (if rx_slot \<ge> NE_RX_LAN_SLOTS then Some ([], p)
      else do {
        (ifs, out) \<leftarrow> each_iface (\<lambda>i. xp_local_live p ! i)
          (\<lambda>i qs. each_queue (\<lambda>q. xsk_queue_for_rx_slot q rx_slot (length qs) NE_RX_LAN_SLOTS) (recv_more maxn NE_DIR_LOCAL 0 (of_nat i)) 0 qs)
          0 (xp_locals p) [];
        Some (out, p\<lparr>xp_locals := ifs\<rparr>) })"

definition ne_recv_wan_slot :: "xsk_pair \<Rightarrow> nat \<Rightarrow> u32 \<Rightarrow> (ne_packet list \<times> xsk_pair) option" where
  "ne_recv_wan_slot p rx_slot maxn =
     (if rx_slot \<ge> NE_RX_WAN_SLOTS then Some ([], p)
      else do {
        (ifs, out) \<leftarrow> each_iface (\<lambda>i. xp_wan_live p ! i)
          (\<lambda>i qs. each_queue (\<lambda>q. xsk_queue_for_rx_slot q rx_slot (length qs) NE_RX_WAN_SLOTS) (recv_more maxn NE_DIR_WAN (of_nat i) 0) 0 qs)
          0 (xp_wans p) [];
        Some (out, p\<lparr>xp_wans := ifs\<rparr>) })"

text \<open>The release runs over all interfaces, also over those that are not live any more.\<close>

definition ne_recv_release_local_slot :: "xsk_pair \<Rightarrow> nat \<Rightarrow> xsk_pair option" where
  "ne_recv_release_local_slot p rx_slot =
     (if rx_slot \<ge> NE_RX_LAN_SLOTS then Some p
      else do {
        (ifs, _) \<leftarrow> each_iface (\<lambda>i. True)
          (\<lambda>i qs. each_queue (\<lambda>q. xsk_queue_for_rx_slot q rx_slot (length qs) NE_RX_LAN_SLOTS) (\<lambda>x u. Some (release_queue x, u)) 0 qs)
          0 (xp_locals p) ();
        Some (p\<lparr>xp_locals := ifs\<rparr>) })"

definition ne_recv_release_wan_slot :: "xsk_pair \<Rightarrow> nat \<Rightarrow> xsk_pair option" where
  "ne_recv_release_wan_slot p rx_slot =
     (if rx_slot \<ge> NE_RX_WAN_SLOTS then Some p
      else do {
        (ifs, _) \<leftarrow> each_iface (\<lambda>i. True)
          (\<lambda>i qs. each_queue (\<lambda>q. xsk_queue_for_rx_slot q rx_slot (length qs) NE_RX_WAN_SLOTS) (\<lambda>x u. Some (release_queue x, u)) 0 qs)
          0 (xp_wans p) ();
        Some (p\<lparr>xp_wans := ifs\<rparr>) })"

definition refill_fq_iface_slot :: "nat \<Rightarrow> nat \<Rightarrow> ne_xsk_queue list \<Rightarrow> ne_pool \<Rightarrow> (ne_xsk_queue list \<times> ne_pool) option" where
  "refill_fq_iface_slot rx_slot rx_slots qs =
     each_queue (\<lambda>q. xsk_queue_for_rx_slot q rx_slot (length qs) rx_slots) (\<lambda>x pool. Some (refill_fq_queue x pool)) 0 qs"

definition ne_refill_fq_local_slot :: "xsk_pair \<Rightarrow> nat \<Rightarrow> xsk_pair option" where
  "ne_refill_fq_local_slot p rx_slot =
     (if rx_slot \<ge> NE_RX_LAN_SLOTS then Some p
      else do {
        (ifs, pool) \<leftarrow> each_iface (\<lambda>i. xp_local_live p ! i) (\<lambda>i. refill_fq_iface_slot rx_slot NE_RX_LAN_SLOTS) 0 (xp_locals p) (xp_pool p);
        Some (p\<lparr>xp_locals := ifs, xp_pool := pool\<rparr>) })"

definition ne_refill_fq_wan_slot :: "xsk_pair \<Rightarrow> nat \<Rightarrow> xsk_pair option" where
  "ne_refill_fq_wan_slot p rx_slot =
     (if rx_slot \<ge> NE_RX_WAN_SLOTS then Some p
      else do {
        (ifs, pool) \<leftarrow> each_iface (\<lambda>i. xp_wan_live p ! i) (\<lambda>i. refill_fq_iface_slot rx_slot NE_RX_WAN_SLOTS) 0 (xp_wans p) (xp_pool p);
        Some (p\<lparr>xp_wans := ifs, xp_pool := pool\<rparr>) })"

section \<open>Transmit threads\<close>

definition drain_cq_iface_slot :: "nat \<Rightarrow> ne_xsk_queue list \<Rightarrow> ne_pool \<Rightarrow> (ne_xsk_queue list \<times> ne_pool) option" where
  "drain_cq_iface_slot tx_slot qs = each_queue (\<lambda>q. xsk_queue_for_tx_slot q tx_slot (length qs)) drain_cq_queue 0 qs"

definition ne_drain_cq_local :: "xsk_pair \<Rightarrow> nat \<Rightarrow> xsk_pair option" where
  "ne_drain_cq_local p tx_slot =
     (if tx_slot \<ge> NE_TX_SLOTS then Some p
      else do {
        (ifs, pool) \<leftarrow> each_iface (\<lambda>i. xp_local_live p ! i) (\<lambda>i. drain_cq_iface_slot tx_slot) 0 (xp_locals p) (xp_pool p);
        Some (p\<lparr>xp_locals := ifs, xp_pool := pool\<rparr>) })"

definition ne_drain_cq_wan :: "xsk_pair \<Rightarrow> nat \<Rightarrow> xsk_pair option" where
  "ne_drain_cq_wan p tx_slot =
     (if tx_slot \<ge> NE_TX_SLOTS then Some p
      else do {
        (ifs, pool) \<leftarrow> each_iface (\<lambda>i. xp_wan_live p ! i) (\<lambda>i. drain_cq_iface_slot tx_slot) 0 (xp_wans p) (xp_pool p);
        Some (p\<lparr>xp_wans := ifs, xp_pool := pool\<rparr>) })"

text \<open>The queue on which a transmit slot sends: the first that belongs to it.\<close>

definition tx_primary :: "nat \<Rightarrow> nat \<Rightarrow> nat option" where
  "tx_primary nq tx_slot = List.find (\<lambda>q. xsk_queue_for_tx_slot q tx_slot nq) [0..<nq]"

definition tx_drain_iface_ring :: "ne_iface \<Rightarrow> ne_ring \<Rightarrow> u32 \<Rightarrow> nat \<Rightarrow> nat \<times> ne_iface \<times> ne_ring" where
  "tx_drain_iface_ring iface src max_frame tx_slot =
     (case tx_primary (length (ni_queues iface)) tx_slot of None \<Rightarrow> (0, iface, src)
      | Some q \<Rightarrow> (case tx_drain_queue (ni_queues iface ! q) src max_frame of
          (sent, x, src) \<Rightarrow> (sent, iface\<lparr>ni_queues := (ni_queues iface)[q := x]\<rparr>, src)))"

text \<open>The rings of \<open>srcs\<close> in turn, from a position that rotates.\<close>

fun tx_drain_from :: "nat list \<Rightarrow> ne_iface \<Rightarrow> ne_ring list \<Rightarrow> u32 \<Rightarrow> nat \<Rightarrow> nat \<times> ne_iface \<times> ne_ring list" where
  "tx_drain_from [] iface srcs max_frame tx_slot = (0, iface, srcs)"
| "tx_drain_from (k # ks) iface srcs max_frame tx_slot =
     (case tx_drain_iface_ring iface (srcs ! k) max_frame tx_slot of (n, iface, r) \<Rightarrow>
      case tx_drain_from ks iface (srcs[k := r]) max_frame tx_slot of (m, iface, srcs) \<Rightarrow> (n + m, iface, srcs))"

definition tx_drain_iface_all_rings :: "u32 \<Rightarrow> ne_iface \<Rightarrow> ne_ring list \<Rightarrow> u32 \<Rightarrow> nat \<Rightarrow> nat \<times> ne_iface \<times> ne_ring list \<times> u32" where
  "tx_drain_iface_all_rings rr iface srcs max_frame tx_slot =
     (let n = length srcs; start = unat (rr mod of_nat n) in
      if n = 0 then (0, iface, srcs, rr)
      else case tx_drain_from (List.map (\<lambda>i. (start + i) mod n) [0..<n]) iface srcs max_frame tx_slot of
        (sent, iface, srcs) \<Rightarrow> (sent, iface, srcs, if sent > 0 then rr + 1 else rr))"

definition ne_tx_drain_local_all :: "u32 \<Rightarrow> xsk_pair \<Rightarrow> ne_ring list \<Rightarrow> nat \<Rightarrow> nat \<Rightarrow> nat \<times> xsk_pair \<times> ne_ring list \<times> u32" where
  "ne_tx_drain_local_all rr p srcs local_idx tx_slot =
     (if local_idx \<ge> length (xp_locals p) \<or> \<not> xp_local_live p ! local_idx \<or> tx_slot \<ge> NE_TX_SLOTS then (0, p, srcs, rr)
      else case tx_drain_iface_all_rings rr (xp_locals p ! local_idx) srcs (xp_frame_size p) tx_slot of
        (sent, iface, srcs, rr) \<Rightarrow> (sent, p\<lparr>xp_locals := (xp_locals p)[local_idx := iface]\<rparr>, srcs, rr))"

definition ne_tx_drain_wan_all :: "u32 \<Rightarrow> xsk_pair \<Rightarrow> ne_ring list \<Rightarrow> nat \<Rightarrow> nat \<Rightarrow> nat \<times> xsk_pair \<times> ne_ring list \<times> u32" where
  "ne_tx_drain_wan_all rr p srcs wan_idx tx_slot =
     (if wan_idx \<ge> length (xp_wans p) \<or> \<not> xp_wan_live p ! wan_idx \<or> tx_slot \<ge> NE_TX_SLOTS then (0, p, srcs, rr)
      else case tx_drain_iface_all_rings rr (xp_wans p ! wan_idx) srcs (xp_frame_size p) tx_slot of
        (sent, iface, srcs, rr) \<Rightarrow> (sent, p\<lparr>xp_wans := (xp_wans p)[wan_idx := iface]\<rparr>, srcs, rr))"

text \<open>How many transmit threads \<open>forwarder_run\<close> starts, and the ring that a slot serves.\<close>

definition forwarder_active_tx_slots :: "xsk_pair \<Rightarrow> nat" where
  "forwarder_active_tx_slots p =
     (let counts = [length (ni_queues (xp_locals p ! i)). i \<leftarrow> [0..<length (xp_locals p)], xp_local_live p ! i]
            @ [length (ni_queues (xp_wans p ! i)). i \<leftarrow> [0..<length (xp_wans p)], xp_wan_live p ! i];
          slots = fold min counts NE_TX_SLOTS
      in if counts \<noteq> [] \<and> slots > 0 then slots else 1)"

definition tx_collect_worker_rings :: "(nat \<Rightarrow> ne_ring) \<Rightarrow> nat \<Rightarrow> nat \<Rightarrow> ne_ring list" where
  "tx_collect_worker_rings per_worker tx_slot nslots =
     (let nslots = (if nslots < 1 then 1 else nslots) in if tx_slot \<ge> nslots then [] else [per_worker tx_slot])"

section \<open>Opening, adding and removing interfaces\<close>

definition pool_reset_full :: "ne_pool \<Rightarrow> u32 \<Rightarrow> u32 \<Rightarrow> ne_pool option" where
  "pool_reset_full pool n_frames frame_size =
     (if q_buf pool = [] \<or> n_frames = 0 then None
      else fold (\<lambda>i st. case st of None \<Rightarrow> None
             | Some q \<Rightarrow> (case pool_push q [of_nat i * ucast frame_size] of (put, q) \<Rightarrow> if put \<noteq> 1 then None else Some q))
           [0..<unat n_frames] (Some (pool\<lparr>q_head := 0, q_tail := 0\<rparr>)))"

text \<open>Sockets are created by a library call; \<open>create q\<close> is what it gives for queue \<open>q\<close>.\<close>

fun open_queues :: "(nat \<Rightarrow> ne_xsk_queue option) \<Rightarrow> nat list \<Rightarrow> ne_xsk_queue list option" where
  "open_queues create [] = Some []"
| "open_queues create (q # qs) = do { x \<leftarrow> create q; xs \<leftarrow> open_queues create qs; Some (x # xs) }"

definition open_iface_queues :: "(nat \<Rightarrow> ne_xsk_queue option) \<Rightarrow> nat \<Rightarrow> ne_iface \<Rightarrow> string \<Rightarrow> nat \<Rightarrow> bool \<times> ne_iface" where
  "open_iface_queues create ifindex iface ifname queue_count =
     (if ifindex = 0 then (False, iface\<lparr>ni_ifindex := 0\<rparr>)
      else case open_queues create [0..<queue_count] of
        None \<Rightarrow> (False, iface\<lparr>ni_ifindex := 0, ni_ifname := [], ni_queues := []\<rparr>)
      | Some xs \<Rightarrow> (True, iface\<lparr>ni_ifindex := ifindex, ni_ifname := ifname, ni_queues := xs\<rparr>))"

text \<open>The start of the program: a second attempt, with the queue count of the interface, after the first has failed.\<close>

definition open_with_retry :: "(nat \<Rightarrow> ne_xsk_queue option) \<Rightarrow> (nat \<Rightarrow> ne_xsk_queue option) \<Rightarrow> nat \<Rightarrow> ne_iface \<Rightarrow> string \<Rightarrow> bool \<times> ne_iface" where
  "open_with_retry create retry ifindex iface ifname =
     (case open_iface_queues create ifindex iface ifname (length (ni_queues iface)) of
        (True, iface) \<Rightarrow> (True, iface)
      | (False, iface) \<Rightarrow> open_iface_queues retry ifindex iface ifname (length (ni_queues iface)))"

definition prefill_iface :: "ne_xsk_queue list \<Rightarrow> u32 \<Rightarrow> ne_pool \<Rightarrow> (ne_xsk_queue list \<times> ne_pool) option" where
  "prefill_iface qs want_per_queue =
     each_queue (\<lambda>q. True) (\<lambda>x pool. case prefill_queue (xq_fq x) pool want_per_queue of (fq, pool) \<Rightarrow> Some (x\<lparr>xq_fq := fq\<rparr>, pool)) 0 qs"

definition put_at :: "'a \<Rightarrow> nat \<Rightarrow> 'a \<Rightarrow> 'a list \<Rightarrow> 'a list" where
  "put_at d i x xs = (if i < length xs then xs[i := x] else xs @ replicate (i - length xs) d @ [x])"

definition ne_iface_zero :: ne_iface where
  "ne_iface_zero = \<lparr>ni_ifindex = 0, ni_ifname = [], ni_queues = []\<rparr>"

record plumb_env =
  pe_checks :: bool
  pe_ifindex :: nat
  pe_ifname :: string
  pe_nq :: nat
  pe_create :: "nat \<Rightarrow> ne_xsk_queue option"

definition ne_pair_plumb_wan_dp :: "plumb_env \<Rightarrow> xsk_pair \<Rightarrow> nat \<Rightarrow> (bool \<times> xsk_pair) option" where
  "ne_pair_plumb_wan_dp env p dp_slot =
     (if \<not> pe_checks env \<or> dp_slot \<ge> MAX_INTERFACES then Some (False, p)
      else case open_iface_queues (pe_create env) (pe_ifindex env) (if dp_slot < length (xp_wans p) then xp_wans p ! dp_slot else ne_iface_zero)
            (pe_ifname env) (pe_nq env) of
        (False, iface) \<Rightarrow>
          Some (False, if dp_slot < length (xp_wans p) then p\<lparr>xp_wans := (xp_wans p)[dp_slot := iface\<lparr>ni_queues := []\<rparr>]\<rparr> else p)
      | (True, iface) \<Rightarrow> do {
          (qs, pool) \<leftarrow> prefill_iface (ni_queues iface) NE_FQ_PREFILL (xp_pool p);
          Some (True, p\<lparr>xp_wans := put_at ne_iface_zero dp_slot (iface\<lparr>ni_queues := qs\<rparr>) (xp_wans p),
            xp_wan_live := put_at False dp_slot True (xp_wan_live p), xp_wan_queue_total := xp_wan_queue_total p + pe_nq env,
            xp_pool := pool\<rparr>) })"

definition reclaim_iface_umem_frames :: "ne_xsk_queue list \<Rightarrow> ne_pool \<Rightarrow> (ne_xsk_queue list \<times> ne_pool) option" where
  "reclaim_iface_umem_frames qs =
     each_queue (\<lambda>q. True) (\<lambda>x pool. do { (x, pool) \<leftarrow> drain_cq_queue x pool; reclaim_rx_queue x pool }) 0 qs"

definition ne_pair_unplumb_wan_dp :: "xsk_pair \<Rightarrow> nat \<Rightarrow> xsk_pair option" where
  "ne_pair_unplumb_wan_dp p dp_slot =
     (if dp_slot \<ge> length (xp_wans p) \<or> \<not> xp_wan_live p ! dp_slot then Some p
      else let nq = length (ni_queues (xp_wans p ! dp_slot)) in do {
        (_, pool) \<leftarrow> reclaim_iface_umem_frames (ni_queues (xp_wans p ! dp_slot)) (xp_pool p);
        Some (p\<lparr>xp_wan_live := (xp_wan_live p)[dp_slot := False],
                xp_wans := (xp_wans p)[dp_slot := ne_iface_zero],
                xp_wan_queue_total := xp_wan_queue_total p - nq,
                xp_pool := pool\<rparr>) })"

text \<open>\<open>holds\<close>: one of the sockets of the interface is the one that carries the memory area.\<close>

definition ne_pair_other_live_count :: "xsk_pair \<Rightarrow> nat" where
  "ne_pair_other_live_count p = length (List.filter id (xp_local_live p)) + length (List.filter id (xp_wan_live p))"

definition ne_pair_unplumb_local :: "bool \<Rightarrow> xsk_pair \<Rightarrow> nat \<Rightarrow> xsk_pair option" where
  "ne_pair_unplumb_local holds p pair_li =
     (if pair_li \<ge> length (xp_locals p) \<or> \<not> xp_local_live p ! pair_li then Some p
      else let nq = length (ni_queues (xp_locals p ! pair_li)) in do {
        (_, pool) \<leftarrow> reclaim_iface_umem_frames (ni_queues (xp_locals p ! pair_li)) (xp_pool p);
        let p = p\<lparr>xp_local_live := (xp_local_live p)[pair_li := False],
                  xp_locals := (xp_locals p)[pair_li := ne_iface_zero],
                  xp_local_queue_total := xp_local_queue_total p - nq,
                  xp_pool := pool\<rparr>;
        Some (if holds \<and> ne_pair_other_live_count p = 0
              then (case pool_reset_full (xp_pool p) (xp_n_frames p) (xp_frame_size p) of
                      None \<Rightarrow> p | Some pool \<Rightarrow> p\<lparr>xp_pool := pool\<rparr>)
              else p) })"

end
