(* ===== verification/Xsk_System.thy ===== *)
theory Xsk_System
  imports Xsk_Pair
begin

text \<open>
  Where the frames are. The receive and transmit threads, the workers and the kernel move frames between the pool, the
  rings of the queues, the rings of the workers and what they hold in their hands; a step relation interleaves the
  operations of all of them, and the frames are the same in every reachable state. Then the division of queues among
  threads, and what is lost when interfaces are removed.
\<close>

section \<open>Frames of the pair\<close>

definition queues_frames :: "ne_xsk_queue list \<Rightarrow> u64 multiset" where
  "queues_frames qs = sum_list (List.map queue_frames qs)"

definition ifaces_frames :: "ne_iface list \<Rightarrow> u64 multiset" where
  "ifaces_frames xs = sum_list (List.map (\<lambda>x. queues_frames (ni_queues x)) xs)"

definition queues_ok :: "ne_xsk_queue list \<Rightarrow> bool" where
  "queues_ok qs \<longleftrightarrow> (\<forall>x\<in>set qs. queue_ok x)"

definition ifaces_ok :: "ne_iface list \<Rightarrow> bool" where
  "ifaces_ok xs \<longleftrightarrow> (\<forall>x\<in>set xs. queues_ok (ni_queues x))"

definition pair_frames :: "xsk_pair \<Rightarrow> u64 multiset" where
  "pair_frames p = mset (pool_contents (xp_pool p)) + ifaces_frames (xp_locals p) + ifaces_frames (xp_wans p)"

definition pair_ok :: "xsk_pair \<Rightarrow> bool" where
  "pair_ok p \<longleftrightarrow> pool_ok (xp_pool p) \<and> ifaces_ok (xp_locals p) \<and> ifaces_ok (xp_wans p)"

lemma queues_simps [simp]: "queues_frames [] = {#}" "queues_frames (x # xs) = queue_frames x + queues_frames xs"
  "queues_ok []" "queues_ok (x # xs) \<longleftrightarrow> queue_ok x \<and> queues_ok xs"
  by (simp_all add: queues_frames_def queues_ok_def)

lemma ifaces_simps [simp]: "ifaces_frames [] = {#}" "ifaces_frames (y # ys) = queues_frames (ni_queues y) + ifaces_frames ys"
  "ifaces_ok []" "ifaces_ok (y # ys) \<longleftrightarrow> queues_ok (ni_queues y) \<and> ifaces_ok ys"
  by (simp_all add: ifaces_frames_def ifaces_ok_def)

text \<open>An operation \<open>f\<close> on one of the parts \<open>x\<close> and a shared state, in room for \<open>c\<close> frames: it returns, keeps the invariants,
  and moves frames between the two only.\<close>

definition moves :: "('x \<Rightarrow> bool) \<Rightarrow> ('x \<Rightarrow> u64 multiset) \<Rightarrow> ('s \<Rightarrow> bool) \<Rightarrow> ('s \<Rightarrow> u64 multiset) \<Rightarrow> nat
    \<Rightarrow> ('x \<Rightarrow> 's \<Rightarrow> ('x \<times> 's) option) \<Rightarrow> bool" where
  "moves ok fr I F c f \<longleftrightarrow> (\<forall>x s. ok x \<longrightarrow> I s \<longrightarrow> size (fr x) + size (F s) \<le> c \<longrightarrow>
     (\<exists>x' s'. f x s = Some (x', s') \<and> ok x' \<and> I s' \<and> fr x' + F s' = fr x + F s))"

lemma movesD:
  assumes "moves ok fr I F c f" "ok x" "I s" "size (fr x) + size (F s) \<le> c"
  obtains x' s' where "f x s = Some (x', s')" "ok x'" "I s'" "fr x' + F s' = fr x + F s"
  using assms unfolding moves_def by metis

lemma moves_if: "moves ok fr I F c f \<Longrightarrow> moves ok fr I F c (\<lambda>x s. if b then f x s else Some (x, s))"
  by (simp add: moves_def)

lemma size_move:
  assumes "A' + B' = A + (B :: 'a multiset)" "size (A + R) + size B \<le> c"
  shows "size R + size B' \<le> c"
proof -
  have "size A' + size B' = size A + size B" using assms(1) by (metis size_union)
  then show ?thesis using assms(2) by simp
qed

lemma each_queue_moves:
  assumes f: "moves queue_ok queue_frames I F c f"
  shows "moves queues_ok queues_frames I F c (each_queue sel f q)"
  unfolding moves_def
proof (intro allI impI)
  fix xs s
  assume "queues_ok xs" "I s" "size (queues_frames xs) + size (F s) \<le> c"
  then show "\<exists>xs' s'. each_queue sel f q xs s = Some (xs', s') \<and> queues_ok xs' \<and> I s' \<and> queues_frames xs' + F s' = queues_frames xs + F s"
  proof (induction xs arbitrary: q s)
    case (Cons x xs)
    have "size (queue_frames x) + size (F s) \<le> c" using Cons.prems(3) by simp
    with movesD [OF moves_if [OF f, of "sel q"], of x s] Cons.prems obtain x' s' where
      1: "(if sel q then f x s else Some (x, s)) = Some (x', s')" "queue_ok x'" "I s'" "queue_frames x' + F s' = queue_frames x + F s" by auto
    have "size (queues_frames xs) + size (F s') \<le> c" using size_move [OF 1(4), of "queues_frames xs" c] Cons.prems(3) by simp
    with Cons.IH [of s' "Suc q"] Cons.prems(1) 1(3) obtain xs' s'' where
      2: "each_queue sel f (Suc q) xs s' = Some (xs', s'')" "queues_ok xs'" "I s''" "queues_frames xs' + F s'' = queues_frames xs + F s'" by auto
    have "queue_frames x' + (queues_frames xs' + F s'') = queue_frames x + (queues_frames xs + F s)"
      unfolding 2(4) by (metis 1(4) add.assoc add.commute)
    then show ?case using 1 2 by (simp add: add.assoc)
  qed simp
qed

text \<open>The choice of queues may depend on their number.\<close>

lemma slot_moves:
  assumes f: "moves queue_ok queue_frames I F c f"
  shows "moves queues_ok queues_frames I F c (\<lambda>qs. each_queue (\<lambda>q. sel q (length qs)) f 0 qs)"
  unfolding moves_def
proof (intro allI impI)
  fix qs s
  assume a: "queues_ok qs" "I s" "size (queues_frames qs) + size (F s) \<le> c"
  obtain qs' s' where "each_queue (\<lambda>q. sel q (length qs)) f 0 qs s = Some (qs', s')" "queues_ok qs'" "I s'"
    "queues_frames qs' + F s' = queues_frames qs + F s" by (rule movesD [OF each_queue_moves [OF f] a])
  then show "\<exists>qs' s'. each_queue (\<lambda>q. sel q (length qs)) f 0 qs s = Some (qs', s') \<and> queues_ok qs' \<and> I s' \<and> queues_frames qs' + F s' = queues_frames qs + F s"
    by blast
qed

lemma each_iface_moves:
  assumes f: "\<And>i. moves queues_ok queues_frames I F c (f i)"
  shows "moves ifaces_ok ifaces_frames I F c (each_iface act f i)"
  unfolding moves_def
proof (intro allI impI)
  fix xs s
  assume "ifaces_ok xs" "I s" "size (ifaces_frames xs) + size (F s) \<le> c"
  then show "\<exists>xs' s'. each_iface act f i xs s = Some (xs', s') \<and> ifaces_ok xs' \<and> I s' \<and> ifaces_frames xs' + F s' = ifaces_frames xs + F s"
  proof (induction xs arbitrary: i s)
    case (Cons x xs)
    have "size (queues_frames (ni_queues x)) + size (F s) \<le> c" using Cons.prems(3) by simp
    with movesD [OF f, of "ni_queues x" s i] Cons.prems obtain qs s1 where
      q: "f i (ni_queues x) s = Some (qs, s1)" "queues_ok qs" "I s1" "queues_frames qs + F s1 = queues_frames (ni_queues x) + F s" by auto
    then obtain x' s' where
      1: "(if act i then map_option (\<lambda>(qs, s). (x\<lparr>ni_queues := qs\<rparr>, s)) (f i (ni_queues x) s) else Some (x, s)) = Some (x', s')"
        "queues_ok (ni_queues x')" "I s'" "queues_frames (ni_queues x') + F s' = queues_frames (ni_queues x) + F s"
      using Cons.prems by (cases "act i") auto
    have "size (ifaces_frames xs) + size (F s') \<le> c" using size_move [OF 1(4), of "ifaces_frames xs" c] Cons.prems(3) by simp
    with Cons.IH [of s' "Suc i"] Cons.prems(1) 1(3) obtain xs' s'' where
      2: "each_iface act f (Suc i) xs s' = Some (xs', s'')" "ifaces_ok xs'" "I s''" "ifaces_frames xs' + F s'' = ifaces_frames xs + F s'" by auto
    have "queues_frames (ni_queues x') + (ifaces_frames xs' + F s'') = queues_frames (ni_queues x) + (ifaces_frames xs + F s)"
      unfolding 2(4) by (metis 1(4) add.assoc add.commute)
    then show ?case using 1 2 by (simp add: add.assoc)
  qed simp
qed

section \<open>The operations on a queue move frames\<close>

text \<open>The pool as shared state, with a fixed capacity.\<close>

definition pool_inv :: "nat \<Rightarrow> ne_pool \<Rightarrow> bool" where
  "pool_inv c p \<longleftrightarrow> pool_ok p \<and> unat (q_cap p) = c"

definition pool_frames :: "ne_pool \<Rightarrow> u64 multiset" where
  "pool_frames p = mset (pool_contents p)"

lemma drain_cq_moves: "moves queue_ok queue_frames (pool_inv c) pool_frames c drain_cq_queue"
  unfolding moves_def
proof (intro allI impI)
  fix x p
  assume a: "queue_ok x" "pool_inv c p" "size (queue_frames x) + size (pool_frames p) \<le> c"
  then have "length (pool_contents p) + size (queue_frames x) \<le> unat (q_cap p)" by (simp add: pool_inv_def pool_frames_def)
  from drain_cq_queue_spec [OF a(1) _ this] a(2)
  show "\<exists>x' p'. drain_cq_queue x p = Some (x', p') \<and> queue_ok x' \<and> pool_inv c p' \<and> queue_frames x' + pool_frames p' = queue_frames x + pool_frames p"
    by (auto simp: pool_inv_def pool_frames_def)
qed

lemma refill_fq_moves: "moves queue_ok queue_frames (pool_inv c) pool_frames c (\<lambda>x pool. Some (refill_fq_queue x pool))"
  unfolding moves_def
proof (intro allI impI)
  fix x p
  assume a: "queue_ok x" "pool_inv c p"
  obtain x' p' where r: "refill_fq_queue x p = (x', p')" by (cases "refill_fq_queue x p")
  from refill_fq_queue_spec [OF a(1) _ r] a(2) obtain k where k: "queue_ok x'" "pool_ok p'" "q_cap p' = q_cap p"
    "prod_contents (xq_fq x') = prod_contents (xq_fq x) @ take k (pool_contents p)" "pool_contents p' = drop k (pool_contents p)"
    "xq_rx x' = xq_rx x" "xq_tx x' = xq_tx x" "xq_cq x' = xq_cq x" by (auto simp: pool_inv_def)
  have "mset (pool_contents p) = mset (take k (pool_contents p)) + mset (drop k (pool_contents p))" by (metis append_take_drop_id mset_append)
  then have "queue_frames x' + pool_frames p' = queue_frames x + pool_frames p" using k by (simp add: queue_frames_def pool_frames_def)
  then show "\<exists>x' p'. Some (refill_fq_queue x p) = Some (x', p') \<and> queue_ok x' \<and> pool_inv c p' \<and> queue_frames x' + pool_frames p' = queue_frames x + pool_frames p"
    using k a(2) r by (auto simp: pool_inv_def)
qed

lemma prefill_moves: "moves queues_ok queues_frames (pool_inv c) pool_frames c (\<lambda>qs. prefill_iface qs want)"
  unfolding prefill_iface_def
proof (rule each_queue_moves, unfold moves_def, intro allI impI)
  fix x p
  assume a: "queue_ok x" "pool_inv c p"
  obtain fq p' where r: "prefill_queue (xq_fq x) p want = (fq, p')" by (cases "prefill_queue (xq_fq x) p want")
  from prefill_queue_spec [OF _ _ r] a have s: "prod_ok fq" "pool_ok p'" "q_cap p' = q_cap p"
    "mset (prod_contents fq) + mset (pool_contents p') = mset (prod_contents (xq_fq x)) + mset (pool_contents p)"
    by (auto simp: queue_ok_def pool_inv_def)
  have "queue_frames (x\<lparr>xq_fq := fq\<rparr>) + pool_frames p' = queue_frames x + pool_frames p"
    using s(4) by (simp add: queue_frames_def pool_frames_def)
  then show "\<exists>x' p'. (case prefill_queue (xq_fq x) p want of (fq, pool) \<Rightarrow> Some (x\<lparr>xq_fq := fq\<rparr>, pool)) = Some (x', p')
      \<and> queue_ok x' \<and> pool_inv c p' \<and> queue_frames x' + pool_frames p' = queue_frames x + pool_frames p"
    using r s a by (auto simp: queue_ok_def pool_inv_def)
qed

lemma release_moves: "moves queue_ok queue_frames (\<lambda>u. True) (\<lambda>u. {#}) c (\<lambda>x u. Some (release_queue x, u))"
  by (simp add: moves_def release_queue_spec)

definition packet_frames :: "ne_packet list \<Rightarrow> u64 multiset" where
  "packet_frames ps = mset (List.map pk_addr ps)"

lemma recv_moves: "moves queue_ok queue_frames (\<lambda>ps. True) packet_frames c (recv_more maxn d w l)"
  unfolding moves_def
proof (intro allI impI)
  fix x and ps :: "ne_packet list"
  assume a: "queue_ok x"
  let ?x = "x\<lparr>xq_rx_pending := 0\<rparr>"
  have ok: "queue_ok ?x" and fr: "queue_frames ?x = queue_frames x" using a by (simp_all add: queue_ok_def queue_frames_def)
  obtain out x' where r: "recv_queue ?x (maxn - of_nat (length ps)) d w l = (out, x')"
    by (cases "recv_queue ?x (maxn - of_nat (length ps)) d w l")
  note s = recv_queue_spec [OF ok r]
  show "\<exists>x' s'. recv_more maxn d w l x ps = Some (x', s') \<and> queue_ok x' \<and> True \<and> queue_frames x' + packet_frames s' = queue_frames x + packet_frames ps"
    using a s(1,2) fr r by (auto simp: recv_more_def packet_frames_def)
qed

section \<open>The operations on the pair keep all frames\<close>

definition pair_inv :: "nat \<Rightarrow> xsk_pair \<Rightarrow> bool" where
  "pair_inv c p \<longleftrightarrow> pair_ok p \<and> unat (q_cap (xp_pool p)) = c \<and> size (pair_frames p) \<le> c"

lemma locals_move:
  assumes p: "pair_inv c p" and f: "\<And>i. moves queues_ok queues_frames (pool_inv c) pool_frames c (f i)"
  shows "\<exists>ifs pool. each_iface act f 0 (xp_locals p) (xp_pool p) = Some (ifs, pool)
    \<and> pair_inv c (p\<lparr>xp_locals := ifs, xp_pool := pool\<rparr>) \<and> pair_frames (p\<lparr>xp_locals := ifs, xp_pool := pool\<rparr>) = pair_frames p"
proof -
  have m: "moves ifaces_ok ifaces_frames (pool_inv c) pool_frames c (each_iface act f 0)" by (rule each_iface_moves) (rule f)
  have sz: "size (ifaces_frames (xp_locals p)) + size (pool_frames (xp_pool p)) \<le> c" using p by (simp add: pair_inv_def pair_frames_def pool_frames_def)
  obtain ifs pool where 1: "each_iface act f 0 (xp_locals p) (xp_pool p) = Some (ifs, pool)" "ifaces_ok ifs" "pool_inv c pool"
    "ifaces_frames ifs + pool_frames pool = ifaces_frames (xp_locals p) + pool_frames (xp_pool p)"
    by (rule movesD [OF m _ _ sz]) (use p in \<open>simp_all add: pair_inv_def pair_ok_def pool_inv_def\<close>)
  have 2: "pair_frames (p\<lparr>xp_locals := ifs, xp_pool := pool\<rparr>) = pair_frames p"
    using 1(4) by (simp add: pair_frames_def pool_frames_def add.commute)
  then show ?thesis using 1 p by (auto simp: pair_inv_def pair_ok_def pool_inv_def)
qed

lemma wans_move:
  assumes p: "pair_inv c p" and f: "\<And>i. moves queues_ok queues_frames (pool_inv c) pool_frames c (f i)"
  shows "\<exists>ifs pool. each_iface act f 0 (xp_wans p) (xp_pool p) = Some (ifs, pool)
    \<and> pair_inv c (p\<lparr>xp_wans := ifs, xp_pool := pool\<rparr>) \<and> pair_frames (p\<lparr>xp_wans := ifs, xp_pool := pool\<rparr>) = pair_frames p"
proof -
  have m: "moves ifaces_ok ifaces_frames (pool_inv c) pool_frames c (each_iface act f 0)" by (rule each_iface_moves) (rule f)
  have sz: "size (ifaces_frames (xp_wans p)) + size (pool_frames (xp_pool p)) \<le> c" using p by (simp add: pair_inv_def pair_frames_def pool_frames_def)
  obtain ifs pool where 1: "each_iface act f 0 (xp_wans p) (xp_pool p) = Some (ifs, pool)" "ifaces_ok ifs" "pool_inv c pool"
    "ifaces_frames ifs + pool_frames pool = ifaces_frames (xp_wans p) + pool_frames (xp_pool p)"
    by (rule movesD [OF m _ _ sz]) (use p in \<open>simp_all add: pair_inv_def pair_ok_def pool_inv_def\<close>)
  have 2: "pair_frames (p\<lparr>xp_wans := ifs, xp_pool := pool\<rparr>) = pair_frames p"
    using 1(4) by (simp add: pair_frames_def pool_frames_def) (metis (no_types, lifting) add.assoc add.commute)
  then show ?thesis using 1 p by (auto simp: pair_inv_def pair_ok_def pool_inv_def)
qed

text \<open>Operations that return the pair: they return, and the pair has the same frames.\<close>

definition keeps :: "nat \<Rightarrow> (xsk_pair \<Rightarrow> xsk_pair option) \<Rightarrow> bool" where
  "keeps c f \<longleftrightarrow> (\<forall>p. pair_inv c p \<longrightarrow> (\<exists>p'. f p = Some p' \<and> pair_inv c p' \<and> pair_frames p' = pair_frames p \<and> xp_frame_size p' = xp_frame_size p))"

lemma keepsI:
  assumes "\<And>p. pair_inv c p \<Longrightarrow> \<exists>p'. f p = Some p' \<and> pair_inv c p' \<and> pair_frames p' = pair_frames p \<and> xp_frame_size p' = xp_frame_size p"
  shows "keeps c f"
  using assms by (simp add: keeps_def)

lemma fill_keeps: "keeps c (\<lambda>p. ne_refill_fq_local_slot p slot)" "keeps c (\<lambda>p. ne_refill_fq_wan_slot p slot)"
proof -
  have f: "moves queues_ok queues_frames (pool_inv c) pool_frames c (refill_fq_iface_slot slot n)" for n
    unfolding refill_fq_iface_slot_def [abs_def] by (rule slot_moves [OF refill_fq_moves])
  show "keeps c (\<lambda>p. ne_refill_fq_local_slot p slot)"
  proof (rule keepsI)
    fix p assume "pair_inv c p"
    with locals_move [of c p "\<lambda>i. refill_fq_iface_slot slot NE_RX_LAN_SLOTS" "\<lambda>i. xp_local_live p ! i", OF _ f]
    show "\<exists>p'. ne_refill_fq_local_slot p slot = Some p' \<and> pair_inv c p' \<and> pair_frames p' = pair_frames p \<and> xp_frame_size p' = xp_frame_size p"
      by (cases "slot \<ge> NE_RX_LAN_SLOTS") (auto simp: ne_refill_fq_local_slot_def)
  qed
  show "keeps c (\<lambda>p. ne_refill_fq_wan_slot p slot)"
  proof (rule keepsI)
    fix p assume "pair_inv c p"
    with wans_move [of c p "\<lambda>i. refill_fq_iface_slot slot NE_RX_WAN_SLOTS" "\<lambda>i. xp_wan_live p ! i", OF _ f]
    show "\<exists>p'. ne_refill_fq_wan_slot p slot = Some p' \<and> pair_inv c p' \<and> pair_frames p' = pair_frames p \<and> xp_frame_size p' = xp_frame_size p"
      by (cases "slot \<ge> NE_RX_WAN_SLOTS") (auto simp: ne_refill_fq_wan_slot_def)
  qed
qed

lemma drain_keeps: "keeps c (\<lambda>p. ne_drain_cq_local p slot)" "keeps c (\<lambda>p. ne_drain_cq_wan p slot)"
proof -
  have f: "moves queues_ok queues_frames (pool_inv c) pool_frames c (drain_cq_iface_slot slot)"
    unfolding drain_cq_iface_slot_def [abs_def] by (rule slot_moves [OF drain_cq_moves])
  show "keeps c (\<lambda>p. ne_drain_cq_local p slot)"
  proof (rule keepsI)
    fix p assume "pair_inv c p"
    with locals_move [of c p "\<lambda>i. drain_cq_iface_slot slot" "\<lambda>i. xp_local_live p ! i", OF _ f]
    show "\<exists>p'. ne_drain_cq_local p slot = Some p' \<and> pair_inv c p' \<and> pair_frames p' = pair_frames p \<and> xp_frame_size p' = xp_frame_size p"
      by (cases "slot \<ge> NE_TX_SLOTS") (auto simp: ne_drain_cq_local_def)
  qed
  show "keeps c (\<lambda>p. ne_drain_cq_wan p slot)"
  proof (rule keepsI)
    fix p assume "pair_inv c p"
    with wans_move [of c p "\<lambda>i. drain_cq_iface_slot slot" "\<lambda>i. xp_wan_live p ! i", OF _ f]
    show "\<exists>p'. ne_drain_cq_wan p slot = Some p' \<and> pair_inv c p' \<and> pair_frames p' = pair_frames p \<and> xp_frame_size p' = xp_frame_size p"
      by (cases "slot \<ge> NE_TX_SLOTS") (auto simp: ne_drain_cq_wan_def)
  qed
qed

lemma release_keeps: "keeps c (\<lambda>p. ne_recv_release_local_slot p slot)" "keeps c (\<lambda>p. ne_recv_release_wan_slot p slot)"
proof -
  let ?f = "\<lambda>slots (i :: nat) qs. each_queue (\<lambda>q. xsk_queue_for_rx_slot q slot (length qs) slots) (\<lambda>x u. Some (release_queue x, u)) 0 qs"
  have f: "moves queues_ok queues_frames (\<lambda>u. True) (\<lambda>u :: unit. {#}) d (?f n i)" for n i d
    by (rule slot_moves [OF release_moves])
  show "keeps c (\<lambda>p. ne_recv_release_local_slot p slot)"
  proof (rule keepsI)
    fix p assume p: "pair_inv c p"
    have m: "moves ifaces_ok ifaces_frames (\<lambda>u. True) (\<lambda>u :: unit. {#}) (size (ifaces_frames (xp_locals p)))
        (each_iface (\<lambda>i. True) (?f NE_RX_LAN_SLOTS) 0)" by (rule each_iface_moves) (rule f)
    obtain ifs u where "each_iface (\<lambda>i. True) (?f NE_RX_LAN_SLOTS) 0 (xp_locals p) () = Some (ifs, u)" "ifaces_ok ifs" "ifaces_frames ifs = ifaces_frames (xp_locals p)"
      by (rule movesD [OF m, of "xp_locals p" "()"]) (use p in \<open>simp_all add: pair_inv_def pair_ok_def\<close>)
    then show "\<exists>p'. ne_recv_release_local_slot p slot = Some p' \<and> pair_inv c p' \<and> pair_frames p' = pair_frames p \<and> xp_frame_size p' = xp_frame_size p"
      using p by (cases "slot \<ge> NE_RX_LAN_SLOTS") (auto simp: ne_recv_release_local_slot_def pair_inv_def pair_ok_def pair_frames_def)
  qed
  show "keeps c (\<lambda>p. ne_recv_release_wan_slot p slot)"
  proof (rule keepsI)
    fix p assume p: "pair_inv c p"
    have m: "moves ifaces_ok ifaces_frames (\<lambda>u. True) (\<lambda>u :: unit. {#}) (size (ifaces_frames (xp_wans p)))
        (each_iface (\<lambda>i. True) (?f NE_RX_WAN_SLOTS) 0)" by (rule each_iface_moves) (rule f)
    obtain ifs u where "each_iface (\<lambda>i. True) (?f NE_RX_WAN_SLOTS) 0 (xp_wans p) () = Some (ifs, u)" "ifaces_ok ifs" "ifaces_frames ifs = ifaces_frames (xp_wans p)"
      by (rule movesD [OF m, of "xp_wans p" "()"]) (use p in \<open>simp_all add: pair_inv_def pair_ok_def\<close>)
    then show "\<exists>p'. ne_recv_release_wan_slot p slot = Some p' \<and> pair_inv c p' \<and> pair_frames p' = pair_frames p \<and> xp_frame_size p' = xp_frame_size p"
      using p by (cases "slot \<ge> NE_RX_WAN_SLOTS") (auto simp: ne_recv_release_wan_slot_def pair_inv_def pair_ok_def pair_frames_def)
  qed
qed

text \<open>Receiving: the frames of the packets leave the queues.\<close>

definition takes :: "nat \<Rightarrow> (xsk_pair \<Rightarrow> (ne_packet list \<times> xsk_pair) option) \<Rightarrow> bool" where
  "takes c f \<longleftrightarrow> (\<forall>p. pair_inv c p \<longrightarrow> (\<exists>out p'. f p = Some (out, p') \<and> pair_inv c p' \<and> packet_frames out + pair_frames p' = pair_frames p
     \<and> xp_frame_size p' = xp_frame_size p))"

lemma recv_takes: "takes c (\<lambda>p. ne_recv_local_slot p slot maxn)" "takes c (\<lambda>p. ne_recv_wan_slot p slot maxn)"
proof -
  let ?f = "\<lambda>slots g (i :: nat) qs. each_queue (\<lambda>q. xsk_queue_for_rx_slot q slot (length qs) slots) (g i) 0 qs"
  show "takes c (\<lambda>p. ne_recv_local_slot p slot maxn)"
    unfolding takes_def
  proof (intro allI impI)
    fix p assume p: "pair_inv c p"
    let ?g = "\<lambda>i :: nat. recv_more maxn NE_DIR_LOCAL 0 (of_nat i)"
    have m: "moves ifaces_ok ifaces_frames (\<lambda>ps. True) packet_frames (size (ifaces_frames (xp_locals p)))
        (each_iface (\<lambda>i. xp_local_live p ! i) (?f NE_RX_LAN_SLOTS ?g) 0)" by (rule each_iface_moves) (rule slot_moves [OF recv_moves])
    obtain ifs out where 1: "each_iface (\<lambda>i. xp_local_live p ! i) (?f NE_RX_LAN_SLOTS ?g) 0 (xp_locals p) [] = Some (ifs, out)" "ifaces_ok ifs"
      and 2: "ifaces_frames ifs + packet_frames out = ifaces_frames (xp_locals p) + packet_frames []"
      by (rule movesD [OF m, of "xp_locals p" "[]"])
        (use p in \<open>simp_all add: pair_inv_def pair_ok_def packet_frames_def\<close>)
    have 3: "packet_frames out + pair_frames (p\<lparr>xp_locals := ifs\<rparr>) = pair_frames p"
      using 2 by (simp add: pair_frames_def packet_frames_def ac_simps)
    then have "size (packet_frames out) + size (pair_frames (p\<lparr>xp_locals := ifs\<rparr>)) = size (pair_frames p)" by (metis size_union)
    then show "\<exists>out p'. ne_recv_local_slot p slot maxn = Some (out, p') \<and> pair_inv c p' \<and> packet_frames out + pair_frames p' = pair_frames p
        \<and> xp_frame_size p' = xp_frame_size p"
      using p 1 3 by (cases "slot \<ge> NE_RX_LAN_SLOTS") (auto simp: ne_recv_local_slot_def pair_inv_def pair_ok_def packet_frames_def)
  qed
  show "takes c (\<lambda>p. ne_recv_wan_slot p slot maxn)"
    unfolding takes_def
  proof (intro allI impI)
    fix p assume p: "pair_inv c p"
    let ?g = "\<lambda>i :: nat. recv_more maxn NE_DIR_WAN (of_nat i) 0"
    have m: "moves ifaces_ok ifaces_frames (\<lambda>ps. True) packet_frames (size (ifaces_frames (xp_wans p)))
        (each_iface (\<lambda>i. xp_wan_live p ! i) (?f NE_RX_WAN_SLOTS ?g) 0)" by (rule each_iface_moves) (rule slot_moves [OF recv_moves])
    obtain ifs out where 1: "each_iface (\<lambda>i. xp_wan_live p ! i) (?f NE_RX_WAN_SLOTS ?g) 0 (xp_wans p) [] = Some (ifs, out)" "ifaces_ok ifs"
      and 2: "ifaces_frames ifs + packet_frames out = ifaces_frames (xp_wans p) + packet_frames []"
      by (rule movesD [OF m, of "xp_wans p" "[]"])
        (use p in \<open>simp_all add: pair_inv_def pair_ok_def packet_frames_def\<close>)
    have 3: "packet_frames out + pair_frames (p\<lparr>xp_wans := ifs\<rparr>) = pair_frames p"
      using 2 by (simp add: pair_frames_def packet_frames_def ac_simps)
    then have "size (packet_frames out) + size (pair_frames (p\<lparr>xp_wans := ifs\<rparr>)) = size (pair_frames p)" by (metis size_union)
    then show "\<exists>out p'. ne_recv_wan_slot p slot maxn = Some (out, p') \<and> pair_inv c p' \<and> packet_frames out + pair_frames p' = pair_frames p
        \<and> xp_frame_size p' = xp_frame_size p"
      using p 1 3 by (cases "slot \<ge> NE_RX_WAN_SLOTS") (auto simp: ne_recv_wan_slot_def pair_inv_def pair_ok_def packet_frames_def)
  qed
qed

subsection \<open>Sending\<close>

lemma sum_list_update_mset:
  fixes f :: "'b \<Rightarrow> 'd multiset"
  assumes "i < length xs"
  shows "sum_list (List.map f (xs[i := x])) + f (xs ! i) = sum_list (List.map f xs) + f x"
  using assms
proof (induction xs arbitrary: i)
  case (Cons y ys)
  show ?case
  proof (cases i)
    case (Suc j)
    then have "sum_list (List.map f (ys[j := x])) + f (ys ! j) = sum_list (List.map f ys) + f x" using Cons by simp
    then show ?thesis by (simp add: Suc add.assoc)
  qed (simp add: ac_simps)
qed simp

lemma queues_frames_update: "q < length qs \<Longrightarrow> queues_frames (qs[q := x]) + queue_frames (qs ! q) = queues_frames qs + queue_frames x"
  unfolding queues_frames_def by (rule sum_list_update_mset)

lemma ifaces_frames_update:
  "i < length xs \<Longrightarrow> ifaces_frames (xs[i := x]) + queues_frames (ni_queues (xs ! i)) = ifaces_frames xs + queues_frames (ni_queues x)"
  unfolding ifaces_frames_def by (rule sum_list_update_mset)

lemma queues_ok_update: "queues_ok qs \<Longrightarrow> queue_ok x \<Longrightarrow> queues_ok (qs[q := x])"
  by (auto simp: queues_ok_def dest!: set_update_subset_insert [THEN subsetD])

lemma ifaces_ok_update: "ifaces_ok xs \<Longrightarrow> queues_ok (ni_queues x) \<Longrightarrow> ifaces_ok (xs[i := x])"
  by (auto simp: ifaces_ok_def dest!: set_update_subset_insert [THEN subsetD])

lemma tx_primary_in: "tx_primary nq t = Some q \<Longrightarrow> q < nq"
  by (auto simp: tx_primary_def find_Some_iff)

lemma tx_queue_frames:
  assumes ok: "queue_ok x" "ring_ok src" and r: "tx_drain_queue x src mf = (sent, x', src')"
  shows "queue_ok x'" "ring_ok src'" "queue_frames x' + ring_frames src' = queue_frames x + ring_frames src"
proof -
  note s = tx_drain_queue_spec [OF ok r]
  have "List.map xd_addr (List.map (desc_of_job mf) ys) = List.map pk_addr ys" for ys by (simp add: desc_of_job_def)
  then have tx: "mset (List.map xd_addr (prod_contents (xq_tx x')))
      = mset (List.map xd_addr (prod_contents (xq_tx x))) + mset (List.map pk_addr (take sent (ring_contents src)))"
    using s by (simp only: map_append mset_append)
  have rg: "mset (List.map pk_addr (take sent (ring_contents src))) + ring_frames src' = ring_frames src"
    using s unfolding ring_frames_def by (metis append_take_drop_id map_append mset_append)
  show "queue_frames x' + ring_frames src' = queue_frames x + ring_frames src"
    using s tx rg [symmetric] by (simp add: queue_frames_def ac_simps del: take_map)
  show "queue_ok x'" "ring_ok src'" using s by simp_all
qed

lemma tx_iface_frames:
  assumes ok: "queues_ok (ni_queues iface)" "ring_ok src" and r: "tx_drain_iface_ring iface src mf t = (sent, iface', src')"
  shows "queues_ok (ni_queues iface')" "ring_ok src'"
    "queues_frames (ni_queues iface') + ring_frames src' = queues_frames (ni_queues iface) + ring_frames src"
proof -
  let ?qs = "ni_queues iface"
  have "queues_ok (ni_queues iface') \<and> ring_ok src' \<and> queues_frames (ni_queues iface') + ring_frames src' = queues_frames ?qs + ring_frames src"
  proof (cases "tx_primary (length ?qs) t")
    case None
    then show ?thesis using r ok by (simp add: tx_drain_iface_ring_def)
  next
    case (Some q)
    then have q: "q < length ?qs" by (rule tx_primary_in)
    then have "queue_ok (?qs ! q)" using ok by (simp add: queues_ok_def)
    obtain n x s where d: "tx_drain_queue (?qs ! q) src mf = (n, x, s)" by (cases "tx_drain_queue (?qs ! q) src mf")
    note f = tx_queue_frames [OF \<open>queue_ok (?qs ! q)\<close> ok(2) d]
    have e: "iface' = iface\<lparr>ni_queues := ?qs[q := x]\<rparr>" "src' = s" using r Some d by (simp_all add: tx_drain_iface_ring_def)
    have "queues_frames (?qs[q := x]) + ring_frames s + queue_frames (?qs ! q) = queues_frames ?qs + ring_frames src + queue_frames (?qs ! q)"
      using queues_frames_update [OF q, of x] f(3) by (metis (no_types, lifting) add.assoc add.commute)
    then show ?thesis using f queues_ok_update [OF ok(1) f(1)] by (simp add: e)
  qed
  then show "queues_ok (ni_queues iface')" "ring_ok src'"
    "queues_frames (ni_queues iface') + ring_frames src' = queues_frames (ni_queues iface) + ring_frames src" by simp_all
qed

section \<open>Threads, workers and kernel together\<close>

text \<open>The pair, the rings from the workers to the transmit threads, what threads and workers hold otherwise (packets at
work, the rings to the workers, the reorder buffers, the caches of tail frames), and what the kernel holds: frames that it
took from a fill ring, and frames that it is sending. \<open>xs_rr\<close> is the rotating position of each transmit thread.\<close>

record xsk_sys =
  xs_pair :: xsk_pair
  xs_to_local :: "nat \<Rightarrow> nat \<Rightarrow> ne_ring"
  xs_to_wan :: "nat \<Rightarrow> nat \<Rightarrow> ne_ring"
  xs_rr :: "nat \<Rightarrow> u32"
  xs_hand :: "u64 multiset"
  xs_krx :: "u64 multiset"
  xs_ktx :: "u64 multiset"

definition dp_tx_wan_once :: "nat \<Rightarrow> nat \<Rightarrow> xsk_sys \<Rightarrow> nat \<times> xsk_sys" where
  "dp_tx_wan_once wan_idx tx_slot s =
     (if wan_idx \<ge> length (xp_wans (xs_pair s)) \<or> \<not> xp_wan_live (xs_pair s) ! wan_idx then (0, s)
      else case tx_collect_worker_rings (xs_to_wan s wan_idx) tx_slot NE_TX_SLOTS of [] \<Rightarrow> (0, s)
      | r # rs \<Rightarrow> (case ne_tx_drain_wan_all (xs_rr s tx_slot) (xs_pair s) (r # rs) wan_idx tx_slot of
          (sent, p, srcs, rr) \<Rightarrow> (sent, s\<lparr>xs_pair := p, xs_rr := (xs_rr s)(tx_slot := rr),
             xs_to_wan := (xs_to_wan s)(wan_idx := (xs_to_wan s wan_idx)(tx_slot := hd srcs))\<rparr>)))"

definition tx_local_once :: "nat \<Rightarrow> nat \<Rightarrow> xsk_sys \<Rightarrow> nat \<times> xsk_sys" where
  "tx_local_once local_idx tx_slot s =
     (if local_idx \<ge> length (xp_locals (xs_pair s)) \<or> \<not> xp_local_live (xs_pair s) ! local_idx then (0, s)
      else case tx_collect_worker_rings (xs_to_local s local_idx) tx_slot NE_TX_SLOTS of [] \<Rightarrow> (0, s)
      | r # rs \<Rightarrow> (case ne_tx_drain_local_all (xs_rr s tx_slot) (xs_pair s) (r # rs) local_idx tx_slot of
          (sent, p, srcs, rr) \<Rightarrow> (sent, s\<lparr>xs_pair := p, xs_rr := (xs_rr s)(tx_slot := rr),
             xs_to_local := (xs_to_local s)(local_idx := (xs_to_local s local_idx)(tx_slot := hd srcs))\<rparr>)))"

definition DP_TX_BURST_MAX :: nat where "DP_TX_BURST_MAX = 8"

primrec tx_local_burst :: "nat \<Rightarrow> nat \<Rightarrow> nat \<Rightarrow> xsk_sys \<Rightarrow> nat \<times> xsk_sys" where
  "tx_local_burst 0 local_idx tx_slot s = (0, s)"
| "tx_local_burst (Suc n) local_idx tx_slot s =
     (case tx_local_once local_idx tx_slot s of (sent, s) \<Rightarrow>
        if sent = 0 then (0, s) else (case tx_local_burst n local_idx tx_slot s of (m, s) \<Rightarrow> (sent + m, s)))"

definition dp_burst_tx_local :: "nat \<Rightarrow> nat \<Rightarrow> xsk_sys \<Rightarrow> nat \<times> xsk_sys" where
  "dp_burst_tx_local = tx_local_burst DP_TX_BURST_MAX"

definition the_queue :: "bool \<Rightarrow> nat \<Rightarrow> nat \<Rightarrow> xsk_pair \<Rightarrow> ne_xsk_queue" where
  "the_queue wan i q p = ni_queues ((if wan then xp_wans p else xp_locals p) ! i) ! q"

definition set_queue :: "bool \<Rightarrow> nat \<Rightarrow> nat \<Rightarrow> ne_xsk_queue \<Rightarrow> xsk_pair \<Rightarrow> xsk_pair" where
  "set_queue wan i q x p =
     (let upd = (\<lambda>ifs :: ne_iface list. ifs[i := (ifs ! i)\<lparr>ni_queues := (ni_queues (ifs ! i))[q := x]\<rparr>])
      in if wan then p\<lparr>xp_wans := upd (xp_wans p)\<rparr> else p\<lparr>xp_locals := upd (xp_locals p)\<rparr>)"

definition is_queue :: "bool \<Rightarrow> nat \<Rightarrow> nat \<Rightarrow> xsk_pair \<Rightarrow> bool" where
  "is_queue wan i q p \<longleftrightarrow> (let ifs = (if wan then xp_wans p else xp_locals p) in i < length ifs \<and> q < length (ni_queues (ifs ! i)))"

text \<open>The frame of an address: the kernel delivers a packet at some offset in the frame it was given.\<close>

definition frame_no :: "xsk_sys \<Rightarrow> u64 \<Rightarrow> nat" where
  "frame_no s a = unat a div unat (xp_frame_size (xs_pair s))"

text \<open>What a worker does changes the pool, a ring to a transmit thread and what it holds.\<close>

definition set_work :: "ne_pool \<Rightarrow> (nat \<Rightarrow> nat \<Rightarrow> ne_ring) \<Rightarrow> (nat \<Rightarrow> nat \<Rightarrow> ne_ring) \<Rightarrow> u64 multiset \<Rightarrow> xsk_sys \<Rightarrow> xsk_sys" where
  "set_work pool gl gw h s =
     s\<lparr>xs_pair := (xs_pair s)\<lparr>xp_pool := pool\<rparr>, xs_to_local := gl, xs_to_wan := gw, xs_hand := h\<rparr>"

definition put_ring :: "nat \<Rightarrow> nat \<Rightarrow> ne_ring \<Rightarrow> (nat \<Rightarrow> nat \<Rightarrow> ne_ring) \<Rightarrow> nat \<Rightarrow> nat \<Rightarrow> ne_ring" where
  "put_ring i w r g = g(i := (g i)(w := r))"

text \<open>New sockets come with empty rings.\<close>

definition fresh_queue :: "ne_xsk_queue \<Rightarrow> bool" where
  "fresh_queue x \<longleftrightarrow> queue_ok x \<and> queue_frames x = {#} \<and> cons_pending (xq_rx x) = 0 \<and> prod_stale (xq_fq x) = 0
     \<and> xr_size (xq_fq x) = NE_FQ_PREFILL"

inductive xsk_step :: "xsk_sys \<Rightarrow> xsk_sys \<Rightarrow> bool" where
  recv_local: "ne_recv_local_slot (xs_pair s) rx_slot NE_BATCH_SIZE = Some (out, p) \<Longrightarrow>
    xsk_step s (s\<lparr>xs_pair := p, xs_hand := xs_hand s + packet_frames out\<rparr>)"
| recv_wan: "ne_recv_wan_slot (xs_pair s) rx_slot NE_BATCH_SIZE = Some (out, p) \<Longrightarrow>
    xsk_step s (s\<lparr>xs_pair := p, xs_hand := xs_hand s + packet_frames out\<rparr>)"
| release: "ne_recv_release_local_slot (xs_pair s) rx_slot = Some p \<or> ne_recv_release_wan_slot (xs_pair s) rx_slot = Some p \<Longrightarrow>
    xsk_step s (s\<lparr>xs_pair := p\<rparr>)"
| refill: "ne_refill_fq_local_slot (xs_pair s) rx_slot = Some p \<or> ne_refill_fq_wan_slot (xs_pair s) rx_slot = Some p \<Longrightarrow>
    xsk_step s (s\<lparr>xs_pair := p\<rparr>)"
| complete: "ne_drain_cq_local (xs_pair s) tx_slot = Some p \<or> ne_drain_cq_wan (xs_pair s) tx_slot = Some p \<Longrightarrow>
    xsk_step s (s\<lparr>xs_pair := p\<rparr>)"
| send_local: "local_idx < MAX_INTERFACES \<Longrightarrow> xsk_step s (snd (dp_burst_tx_local local_idx tx_slot s))"
| send_wan: "wan_idx < MAX_INTERFACES \<Longrightarrow> xsk_step s (snd (dp_tx_wan_once wan_idx tx_slot s))"
| work_alloc: "ne_frame_alloc (xp_pool (xs_pair s)) = Some (a, pool) \<Longrightarrow>
    xsk_step s (set_work pool (xs_to_local s) (xs_to_wan s) (add_mset a (xs_hand s)) s)"
| work_alloc_batch: "ne_frame_alloc_batch (xp_pool (xs_pair s)) n = (as, pool) \<Longrightarrow>
    xsk_step s (set_work pool (xs_to_local s) (xs_to_wan s) (xs_hand s + mset as) s)"
| work_free: "a \<in># xs_hand s \<Longrightarrow>
    xsk_step s (set_work (ne_frame_free (xp_pool (xs_pair s)) a) (xs_to_local s) (xs_to_wan s) (xs_hand s - {#a#}) s)"
| work_push_local: "pk_addr job \<in># xs_hand s \<Longrightarrow> i < MAX_INTERFACES \<Longrightarrow> w < NE_CRYPTO_WORKERS \<Longrightarrow>
    dp_ring_push (unat (xp_frame_size (xs_pair s))) (xs_to_local s i w) (xp_pool (xs_pair s)) job = (ok, r, pool, drops) \<Longrightarrow>
    xsk_step s (set_work pool (put_ring i w r (xs_to_local s)) (xs_to_wan s) (xs_hand s - {#pk_addr job#}) s)"
| work_push_wan: "pk_addr job \<in># xs_hand s \<Longrightarrow> i < MAX_INTERFACES \<Longrightarrow> w < NE_CRYPTO_WORKERS \<Longrightarrow>
    dp_ring_push (unat (xp_frame_size (xs_pair s))) (xs_to_wan s i w) (xp_pool (xs_pair s)) job = (ok, r, pool, drops) \<Longrightarrow>
    xsk_step s (set_work pool (xs_to_local s) (put_ring i w r (xs_to_wan s)) (xs_hand s - {#pk_addr job#}) s)"
| work_push_split: "{#pk_addr job, pk_addr tail#} \<subseteq># xs_hand s \<Longrightarrow> i < MAX_INTERFACES \<Longrightarrow> w < NE_CRYPTO_WORKERS \<Longrightarrow>
    \<not> ne_ring_count (xs_to_wan s i w) + 2 > r_cap (xs_to_wan s i w) \<Longrightarrow>
    ne_ring_try_push_pair (xs_to_wan s i w) job tail = Some r \<Longrightarrow>
    xsk_step s (set_work (xp_pool (xs_pair s)) (xs_to_local s) (put_ring i w r (xs_to_wan s)) (xs_hand s - {#pk_addr job, pk_addr tail#}) s)"
| plumb: "\<forall>q x. pe_create env q = Some x \<longrightarrow> fresh_queue x \<Longrightarrow> \<not> (dp_slot < length (xp_wans (xs_pair s)) \<and> ni_queues (xp_wans (xs_pair s) ! dp_slot) \<noteq> []) \<Longrightarrow>
    ne_pair_plumb_wan_dp env (xs_pair s) dp_slot = Some (ok, p) \<Longrightarrow> xsk_step s (s\<lparr>xs_pair := p\<rparr>)"
| kernel_fill: "is_queue wan i q (xs_pair s) \<Longrightarrow> x = the_queue wan i q (xs_pair s) \<Longrightarrow> kernel_consume (xq_fq x) = Some (a, fq) \<Longrightarrow>
    xsk_step s (s\<lparr>xs_pair := set_queue wan i q (x\<lparr>xq_fq := fq\<rparr>) (xs_pair s), xs_krx := add_mset a (xs_krx s)\<rparr>)"
| kernel_recv: "is_queue wan i q (xs_pair s) \<Longrightarrow> x = the_queue wan i q (xs_pair s) \<Longrightarrow> a \<in># xs_krx s \<Longrightarrow> frame_no s (xd_addr d) = frame_no s a \<Longrightarrow>
    kernel_produce (xq_rx x) d = Some rx \<Longrightarrow>
    xsk_step s (s\<lparr>xs_pair := set_queue wan i q (x\<lparr>xq_rx := rx\<rparr>) (xs_pair s), xs_krx := xs_krx s - {#a#}\<rparr>)"
| kernel_send: "is_queue wan i q (xs_pair s) \<Longrightarrow> x = the_queue wan i q (xs_pair s) \<Longrightarrow> kernel_consume (xq_tx x) = Some (d, tx) \<Longrightarrow>
    xsk_step s (s\<lparr>xs_pair := set_queue wan i q (x\<lparr>xq_tx := tx\<rparr>) (xs_pair s), xs_ktx := add_mset (xd_addr d) (xs_ktx s)\<rparr>)"
| kernel_sent: "is_queue wan i q (xs_pair s) \<Longrightarrow> x = the_queue wan i q (xs_pair s) \<Longrightarrow> a \<in># xs_ktx s \<Longrightarrow>
    kernel_produce (xq_cq x) a = Some cq \<Longrightarrow>
    xsk_step s (s\<lparr>xs_pair := set_queue wan i q (x\<lparr>xq_cq := cq\<rparr>) (xs_pair s), xs_ktx := xs_ktx s - {#a#}\<rparr>)"

definition sys_addrs :: "xsk_sys \<Rightarrow> u64 multiset" where
  "sys_addrs s = pair_frames (xs_pair s) + grid_frames (xs_to_local s) + grid_frames (xs_to_wan s) + xs_hand s + xs_krx s + xs_ktx s"

definition sys_frames :: "xsk_sys \<Rightarrow> nat multiset" where
  "sys_frames s = image_mset (frame_no s) (sys_addrs s)"

definition sys_ok :: "nat \<Rightarrow> xsk_sys \<Rightarrow> bool" where
  "sys_ok c s \<longleftrightarrow> pair_ok (xs_pair s) \<and> unat (q_cap (xp_pool (xs_pair s))) = c \<and> size (sys_addrs s) \<le> c
     \<and> (\<forall>i w. ring_ok (xs_to_local s i w) \<and> ring_ok (xs_to_wan s i w))"

section \<open>Every step keeps the frames\<close>

text \<open>A step from \<open>s\<close> to \<open>s'\<close> that keeps the invariants and the frames, and their size.\<close>

definition conserves :: "nat \<Rightarrow> xsk_sys \<Rightarrow> xsk_sys \<Rightarrow> bool" where
  "conserves c s s' \<longleftrightarrow> sys_ok c s' \<and> sys_frames s' = sys_frames s \<and> xp_frame_size (xs_pair s') = xp_frame_size (xs_pair s)"

lemma conserves_addrs:
  assumes "sys_ok c s" "pair_ok (xs_pair s')" "q_cap (xp_pool (xs_pair s')) = q_cap (xp_pool (xs_pair s))"
    "\<forall>i w. ring_ok (xs_to_local s' i w) \<and> ring_ok (xs_to_wan s' i w)" "sys_addrs s' = sys_addrs s"
    "xp_frame_size (xs_pair s') = xp_frame_size (xs_pair s)"
  shows "conserves c s s'"
  using assms by (simp add: conserves_def sys_ok_def sys_frames_def frame_no_def [abs_def])

lemma sys_pair_inv: "sys_ok c s \<Longrightarrow> pair_inv c (xs_pair s)"
  by (simp add: sys_ok_def pair_inv_def sys_addrs_def)

lemma conserves_keeps:
  assumes "keeps c f" "sys_ok c s" "f (xs_pair s) = Some p"
  shows "conserves c s (s\<lparr>xs_pair := p\<rparr>)"
proof -
  obtain p' where "f (xs_pair s) = Some p'" "pair_inv c p'" "pair_frames p' = pair_frames (xs_pair s)" "xp_frame_size p' = xp_frame_size (xs_pair s)"
    using assms(1) sys_pair_inv [OF assms(2)] unfolding keeps_def by blast
  then show ?thesis using assms(2,3)
    by (simp add: conserves_def sys_ok_def pair_inv_def sys_addrs_def sys_frames_def frame_no_def [abs_def])
qed

lemma conserves_takes:
  assumes "takes c f" "sys_ok c s" "f (xs_pair s) = Some (out, p)"
  shows "conserves c s (s\<lparr>xs_pair := p, xs_hand := xs_hand s + packet_frames out\<rparr>)"
proof -
  have p: "pair_inv c p" "packet_frames out + pair_frames p = pair_frames (xs_pair s)" "xp_frame_size p = xp_frame_size (xs_pair s)"
    using assms(1,3) sys_pair_inv [OF assms(2)] unfolding takes_def by fastforce+
  then show ?thesis using assms(2)
    by (intro conserves_addrs) (simp_all add: sys_ok_def pair_inv_def sys_addrs_def p(2) [symmetric] word_unat_eq_iff)
qed

lemma exchange:
  fixes A B :: "'a multiset"
  assumes "A' + x = A + y" "B' + r = B + z" "y + z = x + r"
  shows "A' + B' = A + B"
proof -
  have "A' + B' + (x + r) = (A' + x) + (B' + r)" by (simp add: ac_simps)
  also have "\<dots> = A + B + (y + z)" unfolding assms(1,2) by (simp add: ac_simps)
  finally show ?thesis by (simp only: assms(3) add_right_cancel)
qed

lemma tx_single:
  assumes ok: "queues_ok (ni_queues iface)" "ring_ok src" and r: "tx_drain_iface_all_rings rr iface [src] mf t = (sent, iface', srcs, rr')"
  shows "queues_ok (ni_queues iface')" "ring_ok (hd srcs)"
    "queues_frames (ni_queues iface') + ring_frames (hd srcs) = queues_frames (ni_queues iface) + ring_frames src"
proof -
  obtain n i s where d: "tx_drain_iface_ring iface src mf t = (n, i, s)" by (cases "tx_drain_iface_ring iface src mf t")
  have "iface' = i" "hd srcs = s" using r d by (auto simp: tx_drain_iface_all_rings_def Let_def)
  then show "queues_ok (ni_queues iface')" "ring_ok (hd srcs)"
    "queues_frames (ni_queues iface') + ring_frames (hd srcs) = queues_frames (ni_queues iface) + ring_frames src"
    using tx_iface_frames [OF ok d] by simp_all
qed

lemma tx_wan_conserves:
  assumes ok: "sys_ok c s" and i: "wan_idx < MAX_INTERFACES"
  shows "conserves c s (snd (dp_tx_wan_once wan_idx tx_slot s))"
proof (cases "wan_idx < length (xp_wans (xs_pair s)) \<and> xp_wan_live (xs_pair s) ! wan_idx \<and> tx_slot < NE_TX_SLOTS")
  case False
  then have "snd (dp_tx_wan_once wan_idx tx_slot s) = s"
    by (auto simp: dp_tx_wan_once_def tx_collect_worker_rings_def NE_TX_SLOTS_def)
  then show ?thesis using ok by (simp add: conserves_def)
next
  case True
  let ?p = "xs_pair s" and ?r = "xs_to_wan s wan_idx tx_slot" and ?f = "xp_wans (xs_pair s) ! wan_idx"
  have w: "tx_slot < NE_CRYPTO_WORKERS" using True by (simp add: NE_CRYPTO_WORKERS_def NE_TX_SLOTS_def)
  have io: "queues_ok (ni_queues ?f)" and ro: "ring_ok ?r" using ok True by (auto simp: sys_ok_def pair_ok_def ifaces_ok_def)
  obtain sent f srcs rr where d: "tx_drain_iface_all_rings (xs_rr s tx_slot) ?f [?r] (xp_frame_size ?p) tx_slot = (sent, f, srcs, rr)"
    by (cases "tx_drain_iface_all_rings (xs_rr s tx_slot) ?f [?r] (xp_frame_size ?p) tx_slot") auto
  note t = tx_single [OF io ro d]
  have e: "snd (dp_tx_wan_once wan_idx tx_slot s) = s\<lparr>xs_pair := ?p\<lparr>xp_wans := (xp_wans ?p)[wan_idx := f]\<rparr>, xs_rr := (xs_rr s)(tx_slot := rr),
      xs_to_wan := (xs_to_wan s)(wan_idx := (xs_to_wan s wan_idx)(tx_slot := hd srcs))\<rparr>"
    using True d by (simp add: dp_tx_wan_once_def tx_collect_worker_rings_def NE_TX_SLOTS_def ne_tx_drain_wan_all_def)
  let ?g = "(xs_to_wan s)(wan_idx := (xs_to_wan s wan_idx)(tx_slot := hd srcs))" and ?ifs = "(xp_wans ?p)[wan_idx := f]"
  have g: "grid_frames ?g + ring_frames ?r = grid_frames (xs_to_wan s) + ring_frames (hd srcs)" by (rule grid_update [OF i w])
  have q: "ifaces_frames ?ifs + queues_frames (ni_queues ?f) = ifaces_frames (xp_wans ?p) + queues_frames (ni_queues f)"
    using True by (intro ifaces_frames_update) simp
  have b: "ifaces_frames ?ifs + grid_frames ?g = ifaces_frames (xp_wans ?p) + grid_frames (xs_to_wan s)" by (rule exchange [OF q g t(3)])
  have "sys_addrs (snd (dp_tx_wan_once wan_idx tx_slot s)) = mset (pool_contents (xp_pool ?p)) + ifaces_frames (xp_locals ?p)
      + grid_frames (xs_to_local s) + xs_hand s + xs_krx s + xs_ktx s + (ifaces_frames ?ifs + grid_frames ?g)"
    by (simp add: e sys_addrs_def pair_frames_def ac_simps)
  also have "\<dots> = sys_addrs s" unfolding b by (simp add: sys_addrs_def pair_frames_def ac_simps)
  finally show ?thesis using ok t ifaces_ok_update [OF _ t(1)]
    by (intro conserves_addrs) (simp_all add: e sys_ok_def pair_ok_def)
qed

lemma tx_local_conserves:
  assumes ok: "sys_ok c s" and i: "local_idx < MAX_INTERFACES"
  shows "conserves c s (snd (tx_local_once local_idx tx_slot s))"
proof (cases "local_idx < length (xp_locals (xs_pair s)) \<and> xp_local_live (xs_pair s) ! local_idx \<and> tx_slot < NE_TX_SLOTS")
  case False
  then have "snd (tx_local_once local_idx tx_slot s) = s"
    by (auto simp: tx_local_once_def tx_collect_worker_rings_def NE_TX_SLOTS_def)
  then show ?thesis using ok by (simp add: conserves_def)
next
  case True
  let ?p = "xs_pair s" and ?r = "xs_to_local s local_idx tx_slot" and ?f = "xp_locals (xs_pair s) ! local_idx"
  have w: "tx_slot < NE_CRYPTO_WORKERS" using True by (simp add: NE_CRYPTO_WORKERS_def NE_TX_SLOTS_def)
  have io: "queues_ok (ni_queues ?f)" and ro: "ring_ok ?r" using ok True by (auto simp: sys_ok_def pair_ok_def ifaces_ok_def)
  obtain sent f srcs rr where d: "tx_drain_iface_all_rings (xs_rr s tx_slot) ?f [?r] (xp_frame_size ?p) tx_slot = (sent, f, srcs, rr)"
    by (cases "tx_drain_iface_all_rings (xs_rr s tx_slot) ?f [?r] (xp_frame_size ?p) tx_slot") auto
  note t = tx_single [OF io ro d]
  have e: "snd (tx_local_once local_idx tx_slot s) = s\<lparr>xs_pair := ?p\<lparr>xp_locals := (xp_locals ?p)[local_idx := f]\<rparr>, xs_rr := (xs_rr s)(tx_slot := rr),
      xs_to_local := (xs_to_local s)(local_idx := (xs_to_local s local_idx)(tx_slot := hd srcs))\<rparr>"
    using True d by (simp add: tx_local_once_def tx_collect_worker_rings_def NE_TX_SLOTS_def ne_tx_drain_local_all_def)
  let ?g = "(xs_to_local s)(local_idx := (xs_to_local s local_idx)(tx_slot := hd srcs))" and ?ifs = "(xp_locals ?p)[local_idx := f]"
  have g: "grid_frames ?g + ring_frames ?r = grid_frames (xs_to_local s) + ring_frames (hd srcs)" by (rule grid_update [OF i w])
  have q: "ifaces_frames ?ifs + queues_frames (ni_queues ?f) = ifaces_frames (xp_locals ?p) + queues_frames (ni_queues f)"
    using True by (intro ifaces_frames_update) simp
  have b: "ifaces_frames ?ifs + grid_frames ?g = ifaces_frames (xp_locals ?p) + grid_frames (xs_to_local s)" by (rule exchange [OF q g t(3)])
  have "sys_addrs (snd (tx_local_once local_idx tx_slot s)) = mset (pool_contents (xp_pool ?p)) + ifaces_frames (xp_wans ?p)
      + grid_frames (xs_to_wan s) + xs_hand s + xs_krx s + xs_ktx s + (ifaces_frames ?ifs + grid_frames ?g)"
    by (simp add: e sys_addrs_def pair_frames_def ac_simps)
  also have "\<dots> = sys_addrs s" unfolding b by (simp add: sys_addrs_def pair_frames_def ac_simps)
  finally show ?thesis using ok t ifaces_ok_update [OF _ t(1)]
    by (intro conserves_addrs) (simp_all add: e sys_ok_def pair_ok_def)
qed

lemma conserves_trans: "conserves c s s' \<Longrightarrow> conserves c s' s'' \<Longrightarrow> conserves c s s''"
  by (simp add: conserves_def)

lemma tx_burst_conserves:
  assumes "sys_ok c s" "local_idx < MAX_INTERFACES"
  shows "conserves c s (snd (tx_local_burst n local_idx tx_slot s))"
  using assms
proof (induction n arbitrary: s)
  case (Suc n)
  obtain sent s' where o: "tx_local_once local_idx tx_slot s = (sent, s')" by (cases "tx_local_once local_idx tx_slot s")
  have "conserves c s s'" using tx_local_conserves [OF Suc.prems, of tx_slot] o by simp
  moreover from this have "conserves c s' (snd (tx_local_burst n local_idx tx_slot s'))"
    using Suc.IH Suc.prems(2) by (simp add: conserves_def)
  ultimately show ?case using o by (auto simp: split_beta intro: conserves_trans)
qed (simp add: conserves_def)

lemma open_queues_fresh:
  assumes "open_queues create qs = Some xs" "\<forall>q x. create q = Some x \<longrightarrow> fresh_queue x"
  shows "length xs = length qs \<and> (\<forall>x\<in>set xs. fresh_queue x)"
  using assms by (induction qs arbitrary: xs) (auto split: Option.bind_splits)

lemma fresh_queues: "\<forall>x\<in>set xs. fresh_queue x \<Longrightarrow> queues_ok xs \<and> queues_frames xs = {#}"
  by (induction xs) (auto simp: fresh_queue_def)

lemma ifaces_replicate: "ifaces_frames (xs @ replicate n ne_iface_zero @ [y]) = ifaces_frames xs + queues_frames (ni_queues y)"
  "ifaces_ok (xs @ replicate n ne_iface_zero @ [y]) \<longleftrightarrow> ifaces_ok xs \<and> queues_ok (ni_queues y)"
proof -
  have "sum_list (replicate n {#}) = ({#} :: u64 multiset)" by (induction n) simp_all
  then show "ifaces_frames (xs @ replicate n ne_iface_zero @ [y]) = ifaces_frames xs + queues_frames (ni_queues y)"
    by (simp add: ifaces_frames_def ne_iface_zero_def)
  show "ifaces_ok (xs @ replicate n ne_iface_zero @ [y]) \<longleftrightarrow> ifaces_ok xs \<and> queues_ok (ni_queues y)"
    by (auto simp: ifaces_ok_def ne_iface_zero_def)
qed

lemma put_at_frames:
  assumes "\<not> (i < length xs \<and> ni_queues (xs ! i) \<noteq> [])" "ifaces_ok xs" "queues_ok (ni_queues y)"
  shows "ifaces_frames (put_at ne_iface_zero i y xs) = ifaces_frames xs + queues_frames (ni_queues y) \<and> ifaces_ok (put_at ne_iface_zero i y xs)"
proof (cases "i < length xs")
  case True
  then show ?thesis using assms ifaces_frames_update [OF True, of y] ifaces_ok_update [OF assms(2,3), of i] by (simp add: put_at_def)
next
  case False
  then show ?thesis using assms by (simp add: put_at_def ifaces_replicate)
qed

lemma plumb_conserves:
  assumes ok: "sys_ok c s" and fresh: "\<forall>q x. pe_create env q = Some x \<longrightarrow> fresh_queue x"
    and slot: "\<not> (dp_slot < length (xp_wans (xs_pair s)) \<and> ni_queues (xp_wans (xs_pair s) ! dp_slot) \<noteq> [])"
    and r: "ne_pair_plumb_wan_dp env (xs_pair s) dp_slot = Some (done_ok, p)"
  shows "conserves c s (s\<lparr>xs_pair := p\<rparr>)"
proof -
  let ?p = "xs_pair s" and ?old = "if dp_slot < length (xp_wans (xs_pair s)) then xp_wans (xs_pair s) ! dp_slot else ne_iface_zero"
  have po: "pair_ok ?p" using ok by (simp add: sys_ok_def)
  obtain b f where o: "open_iface_queues (pe_create env) (pe_ifindex env) ?old (pe_ifname env) (pe_nq env) = (b, f)"
    by (cases "open_iface_queues (pe_create env) (pe_ifindex env) ?old (pe_ifname env) (pe_nq env)")
  have empty: "queues_ok (ni_queues (f\<lparr>ni_queues := []\<rparr>))" by simp
  consider (same) "p = ?p" | (fail) "dp_slot < length (xp_wans ?p)" "p = ?p\<lparr>xp_wans := (xp_wans ?p)[dp_slot := f\<lparr>ni_queues := []\<rparr>]\<rparr>"
    | (opened) qs pool where b "prefill_iface (ni_queues f) NE_FQ_PREFILL (xp_pool ?p) = Some (qs, pool)"
        "p = ?p\<lparr>xp_wans := put_at ne_iface_zero dp_slot (f\<lparr>ni_queues := qs\<rparr>) (xp_wans ?p), xp_wan_live := put_at False dp_slot True (xp_wan_live ?p),
           xp_wan_queue_total := xp_wan_queue_total ?p + pe_nq env, xp_pool := pool\<rparr>"
  proof (cases "\<not> pe_checks env \<or> dp_slot \<ge> MAX_INTERFACES")
    case True
    then have "p = ?p" using r by (auto simp: ne_pair_plumb_wan_dp_def)
    then show thesis by (rule same)
  next
    case no_guard: False
    show thesis
    proof (cases b)
      case False
      then have "p = (if dp_slot < length (xp_wans ?p) then ?p\<lparr>xp_wans := (xp_wans ?p)[dp_slot := f\<lparr>ni_queues := []\<rparr>]\<rparr> else ?p)"
        using r no_guard by (simp add: ne_pair_plumb_wan_dp_def o)
      then show thesis using same fail by (simp split: if_splits)
    next
      case True
      then obtain qs pool where "prefill_iface (ni_queues f) NE_FQ_PREFILL (xp_pool ?p) = Some (qs, pool)"
        "p = ?p\<lparr>xp_wans := put_at ne_iface_zero dp_slot (f\<lparr>ni_queues := qs\<rparr>) (xp_wans ?p), xp_wan_live := put_at False dp_slot True (xp_wan_live ?p),
           xp_wan_queue_total := xp_wan_queue_total ?p + pe_nq env, xp_pool := pool\<rparr>"
        using r no_guard by (auto simp: ne_pair_plumb_wan_dp_def o split: Option.bind_splits)
      with True show thesis by (rule opened)
    qed
  qed
  then show ?thesis
  proof cases
    case same
    then show ?thesis using ok by (simp add: conserves_def)
  next
    case fail
    have "queues_frames (ni_queues (xp_wans ?p ! dp_slot)) = {#}" using slot fail(1) by simp
    then have "ifaces_frames (xp_wans p) = ifaces_frames (xp_wans ?p)"
      using ifaces_frames_update [OF fail(1), of "f\<lparr>ni_queues := []\<rparr>"] by (simp add: fail(2))
    moreover have "ifaces_ok (xp_wans p)" using po by (simp add: fail(2) pair_ok_def ifaces_ok_update)
    ultimately show ?thesis using ok po
      by (intro conserves_addrs) (simp_all add: sys_ok_def pair_ok_def sys_addrs_def pair_frames_def fail(2))
  next
    case opened
    obtain xs where x: "ni_queues f = xs" "open_queues (pe_create env) [0..<pe_nq env] = Some xs"
      using o opened(1) by (auto simp: open_iface_queues_def split: if_splits option.splits)
    have fr: "queues_ok xs" "queues_frames xs = {#}" using open_queues_fresh [OF x(2) fresh] fresh_queues [of xs] by auto
    have sz: "size (queues_frames xs) + size (pool_frames (xp_pool ?p)) \<le> c"
      using ok by (simp add: fr(2) sys_ok_def sys_addrs_def pair_frames_def pool_frames_def)
    have pl: "pool_inv c (xp_pool ?p)" using ok by (simp add: sys_ok_def pair_ok_def pool_inv_def)
    have q: "queues_ok qs" "pool_inv c pool" "queues_frames qs + pool_frames pool = pool_frames (xp_pool ?p)"
      using movesD [OF prefill_moves fr(1) pl sz, of NE_FQ_PREFILL] opened(2) x(1) fr(2) by auto
    have w: "ifaces_frames (xp_wans p) = ifaces_frames (xp_wans ?p) + queues_frames qs" "ifaces_ok (xp_wans p)"
      using put_at_frames [OF slot, of "f\<lparr>ni_queues := qs\<rparr>"] po q(1) by (simp_all add: opened(3) pair_ok_def)
    have "pair_frames p = pair_frames ?p"
      using q(3) [symmetric] w(1) by (simp add: pair_frames_def pool_frames_def) (simp add: opened(3) ac_simps)
    then show ?thesis using ok po q(2) w
      by (intro conserves_addrs) (simp_all add: sys_ok_def pair_ok_def sys_addrs_def opened(3) pool_inv_def word_unat_eq_iff)
  qed
qed

text \<open>A step of the kernel on one queue.\<close>

lemma set_queue_frames:
  assumes "is_queue wan i q p" "pair_ok p" "queue_ok x'"
  shows "pair_ok (set_queue wan i q x' p)" "xp_pool (set_queue wan i q x' p) = xp_pool p" "xp_frame_size (set_queue wan i q x' p) = xp_frame_size p"
    "pair_frames (set_queue wan i q x' p) + queue_frames (the_queue wan i q p) = pair_frames p + queue_frames x'"
proof -
  have main: "pair_ok (set_queue wan i q x' p)
    \<and> pair_frames (set_queue wan i q x' p) + queue_frames (the_queue wan i q p) = pair_frames p + queue_frames x'"
    if w: "ifs = (if wan then xp_wans p else xp_locals p)" for ifs
  proof -
    have i: "i < length ifs" "q < length (ni_queues (ifs ! i))" using assms(1) w by (simp_all add: is_queue_def Let_def)
    let ?f = "(ifs ! i)\<lparr>ni_queues := (ni_queues (ifs ! i))[q := x']\<rparr>"
    have io: "ifaces_ok ifs" using assms(2) w by (simp add: pair_ok_def)
    then have "queues_ok (ni_queues ?f)" using i assms(3) by (simp add: ifaces_ok_def queues_ok_update)
    from ifaces_ok_update [OF io this] have o: "ifaces_ok (ifs[i := ?f])" .
    have "ifaces_frames (ifs[i := ?f]) + (queues_frames (ni_queues (ifs ! i)) + queue_frames (ni_queues (ifs ! i) ! q))
        = ifaces_frames ifs + (queues_frames (ni_queues ?f) + queue_frames (ni_queues (ifs ! i) ! q))"
      using ifaces_frames_update [OF i(1), of ?f] by (simp only: add.assoc [symmetric])
    also have "queues_frames (ni_queues ?f) + queue_frames (ni_queues (ifs ! i) ! q) = queue_frames x' + queues_frames (ni_queues (ifs ! i))"
      using queues_frames_update [OF i(2), of x'] by (simp add: add.commute)
    finally have "ifaces_frames (ifs[i := ?f]) + queue_frames (ni_queues (ifs ! i) ! q) = ifaces_frames ifs + queue_frames x'"
      by (simp add: ac_simps)
    then show ?thesis using o assms(2) w
      by (cases wan) (simp_all add: set_queue_def the_queue_def pair_ok_def pair_frames_def Let_def ac_simps)
  qed
  then show "pair_ok (set_queue wan i q x' p)"
    "pair_frames (set_queue wan i q x' p) + queue_frames (the_queue wan i q p) = pair_frames p + queue_frames x'" by auto
  show "xp_pool (set_queue wan i q x' p) = xp_pool p" "xp_frame_size (set_queue wan i q x' p) = xp_frame_size p" by (simp_all add: set_queue_def Let_def)
qed

lemma the_queue_ok: "is_queue wan i q p \<Longrightarrow> pair_ok p \<Longrightarrow> queue_ok (the_queue wan i q p)"
  by (cases wan) (simp_all add: is_queue_def the_queue_def pair_ok_def ifaces_ok_def queues_ok_def Let_def, (metis nth_mem)+)

lemma kernel_conserves:
  assumes ok: "sys_ok c s" and q: "is_queue wan i q (xs_pair s)" "queue_ok x'"
    and s': "s' = s\<lparr>xs_pair := set_queue wan i q x' (xs_pair s), xs_krx := krx, xs_ktx := ktx\<rparr>"
    and fr: "image_mset (frame_no s) (queue_frames x' + krx + ktx)
      = image_mset (frame_no s) (queue_frames (the_queue wan i q (xs_pair s)) + xs_krx s + xs_ktx s)"
  shows "conserves c s s'"
proof -
  have po: "pair_ok (xs_pair s)" using ok by (simp add: sys_ok_def)
  note t = set_queue_frames [OF q(1) po q(2)]
  let ?im = "image_mset (frame_no s)" and ?x = "the_queue wan i q (xs_pair s)"
  let ?rest = "grid_frames (xs_to_local s) + grid_frames (xs_to_wan s) + xs_hand s"
  have "?im (sys_addrs s') + ?im (queue_frames ?x)
      = ?im (pair_frames (set_queue wan i q x' (xs_pair s)) + queue_frames ?x) + ?im ?rest + ?im krx + ?im ktx"
    by (simp add: s' sys_addrs_def ac_simps)
  also have "\<dots> = ?im (pair_frames (xs_pair s)) + ?im ?rest + ?im (queue_frames x' + krx + ktx)" unfolding t(4) by (simp add: ac_simps)
  also have "\<dots> = ?im (sys_addrs s) + ?im (queue_frames ?x)" unfolding fr by (simp add: sys_addrs_def ac_simps)
  finally have e: "?im (sys_addrs s') = ?im (sys_addrs s)" by simp
  have f: "frame_no s' = frame_no s" by (simp add: frame_no_def [abs_def] s' t(3))
  have "size (sys_addrs s') = size (sys_addrs s)" using e by (metis size_image_mset)
  then show ?thesis using ok t e by (simp add: conserves_def sys_ok_def sys_frames_def f) (simp add: s' t)
qed

lemma kernel_consume_queue:
  assumes "prod_ok r" "kernel_consume r = Some (a, r')"
  shows "prod_ok r'" "mset (prod_contents r) = add_mset a (mset (prod_contents r'))"
  using kernel_consume_spec [OF assms(1)] assms(2) by simp_all

text \<open>A step of a worker.\<close>

lemma work_conserves:
  assumes ok: "sys_ok c s" and p: "pool_ok pool" "q_cap pool = q_cap (xp_pool (xs_pair s))"
    and r: "\<And>i w. ring_ok (gl i w)" "\<And>i w. ring_ok (gw i w)"
    and fr: "mset (pool_contents pool) + grid_frames gl + grid_frames gw + h
      = mset (pool_contents (xp_pool (xs_pair s))) + grid_frames (xs_to_local s) + grid_frames (xs_to_wan s) + xs_hand s"
  shows "conserves c s (set_work pool gl gw h s)"
proof -
  let ?r = "ifaces_frames (xp_locals (xs_pair s)) + ifaces_frames (xp_wans (xs_pair s)) + xs_krx s + xs_ktx s"
  have "sys_addrs (set_work pool gl gw h s) = (mset (pool_contents pool) + grid_frames gl + grid_frames gw + h) + ?r"
    by (simp add: set_work_def sys_addrs_def pair_frames_def ac_simps)
  also have "\<dots> = sys_addrs s" unfolding fr by (simp add: sys_addrs_def pair_frames_def ac_simps)
  finally show ?thesis using ok p r by (intro conserves_addrs) (simp_all add: set_work_def sys_ok_def pair_ok_def)
qed

lemma hand_room:
  assumes "sys_ok c s" "a \<in># xs_hand s"
  shows "length (pool_contents (xp_pool (xs_pair s))) < unat (q_cap (xp_pool (xs_pair s)))"
proof -
  have "0 < size (xs_hand s)" using assms(2) by (simp add: nonempty_has_size [symmetric]) auto
  moreover have "length (pool_contents (xp_pool (xs_pair s))) + size (xs_hand s) \<le> size (sys_addrs s)" by (simp add: sys_addrs_def pair_frames_def)
  ultimately show ?thesis using assms(1) by (simp add: sys_ok_def)
qed

lemma put_ring_frames:
  assumes "i < MAX_INTERFACES" "w < NE_CRYPTO_WORKERS"
  shows "grid_frames (put_ring i w r g) + ring_frames (g i w) = grid_frames g + ring_frames r"
  unfolding put_ring_def by (rule grid_update [OF assms])

lemma put_ring_ok: "\<lbrakk>\<And>i w. ring_ok (g i w); ring_ok r\<rbrakk> \<Longrightarrow> ring_ok (put_ring i w r g j v)"
  by (simp add: put_ring_def)

text \<open>A packet from the worker's hands to the ring or, when the ring refuses it, to the pool.\<close>

lemma pushed_frames:
  assumes "grid_frames g' + rf = grid_frames g + rf'" "rf' + (pool' :: u64 multiset) = add_mset a (rf + pool)" "a \<in># h"
  shows "pool' + grid_frames g' + (h - {#a#}) = pool + grid_frames g + h"
proof -
  obtain h0 where h: "h = add_mset a h0" using assms(3) by (metis insert_DiffM)
  have "pool' + grid_frames g' + rf = pool' + (grid_frames g + rf')" unfolding assms(1) [symmetric] by (simp add: ac_simps)
  also have "\<dots> = grid_frames g + add_mset a (rf + pool)" unfolding assms(2) [symmetric] by (simp add: ac_simps)
  finally have "pool' + grid_frames g' = add_mset a (pool + grid_frames g)" by (simp add: ac_simps)
  then show ?thesis by (simp add: h)
qed

lemma split_frames:
  assumes ok: "ring_ok r" and room: "\<not> ne_ring_count r + 2 > r_cap r" and p: "ne_ring_try_push_pair r job tail = Some r'"
  shows "ring_ok r'" "ring_frames r' = ring_frames r + {#pk_addr job, pk_addr tail#}"
proof -
  have le: "length (ring_contents r) \<le> unat (r_cap r)" using ring.bounded [OF ok] .
  obtain k where "k < 32" "r_cap r = 2 ^ k" using ok by (auto simp: ring_ok_def)
  then have "unat (r_cap r) \<le> 2 ^ 31" using power_increasing [of k 31 "2 :: nat"] by (simp add: unat_pow2)
  with le room have "2 \<le> unat (r_cap r)"
    unfolding word_less_nat_alt length_ring_contents by (simp add: unat_word_ariths linorder_not_less)
  from ne_ring_push_pair_atomic [OF ok this, of job tail] p
  show "ring_ok r'" "ring_frames r' = ring_frames r + {#pk_addr job, pk_addr tail#}"
    by (simp_all add: ring_frames_def)
qed

lemma alloc_batch_frames:
  assumes "pool_ok p" "ne_frame_alloc_batch p n = (as, p')"
  shows "pool_ok p'" "q_cap p' = q_cap p" "mset (pool_contents p') + mset as = mset (pool_contents p)"
proof -
  have "pool_ok p' \<and> q_cap p' = q_cap p \<and> mset (pool_contents p') + mset as = mset (pool_contents p)"
  proof (cases "n = 0")
    case False
    then have s: "as = take (unat n) (pool_contents p)" "pool_ok p'" "pool_contents p' = drop (unat n) (pool_contents p)" "q_cap p' = q_cap p"
      using pool_pop_spec [OF assms(1), of n as p'] assms(2) by (simp_all add: ne_frame_alloc_batch_def)
    then show ?thesis by (metis add.commute append_take_drop_id mset_append)
  qed (use assms in \<open>simp add: ne_frame_alloc_batch_def\<close>)
  then show "pool_ok p'" "q_cap p' = q_cap p" "mset (pool_contents p') + mset as = mset (pool_contents p)" by simp_all
qed

lemma alloc_frames:
  assumes "ne_frame_alloc p = Some (a, p')"
  shows "ne_frame_alloc_batch p 1 = ([a], p')"
  using assms by (auto simp: ne_frame_alloc_def ne_frame_alloc_batch_def split: prod.splits list.splits)

lemma xsk_step_conserves:
  assumes "xsk_step s s'" "sys_ok c s"
  shows "conserves c s s'"
  using assms
proof (induction rule: xsk_step.induct)
  case (recv_local s rx_slot out p)
  show ?case by (rule conserves_takes [OF recv_takes(1) recv_local(2,1)])
next
  case (recv_wan s rx_slot out p)
  show ?case by (rule conserves_takes [OF recv_takes(2) recv_wan(2,1)])
next
  case (release s rx_slot p)
  then show ?case using conserves_keeps [OF release_keeps(1)] conserves_keeps [OF release_keeps(2)] by metis
next
  case (refill s rx_slot p)
  then show ?case using conserves_keeps [OF fill_keeps(1)] conserves_keeps [OF fill_keeps(2)] by metis
next
  case (complete s tx_slot p)
  then show ?case using conserves_keeps [OF drain_keeps(1)] conserves_keeps [OF drain_keeps(2)] by metis
next
  case (send_local local_idx s tx_slot)
  then show ?case by (simp add: dp_burst_tx_local_def tx_burst_conserves)
next
  case (send_wan wan_idx s tx_slot)
  then show ?case by (simp add: tx_wan_conserves)
next
  case (work_alloc s a pool)
  have rg: "\<And>i w. ring_ok (xs_to_local s i w)" "\<And>i w. ring_ok (xs_to_wan s i w)" "pool_ok (xp_pool (xs_pair s))"
    using work_alloc(2) by (simp_all add: sys_ok_def pair_ok_def)
  note f = alloc_batch_frames [OF rg(3) alloc_frames [OF work_alloc(1)]]
  show ?case by (rule work_conserves [OF work_alloc(2) f(1,2) rg(1,2)]) (simp add: f(3) [symmetric] ac_simps)
next
  case (work_alloc_batch s n as pool)
  have rg: "\<And>i w. ring_ok (xs_to_local s i w)" "\<And>i w. ring_ok (xs_to_wan s i w)" "pool_ok (xp_pool (xs_pair s))"
    using work_alloc_batch(2) by (simp_all add: sys_ok_def pair_ok_def)
  note f = alloc_batch_frames [OF rg(3) work_alloc_batch(1)]
  show ?case by (rule work_conserves [OF work_alloc_batch(2) f(1,2) rg(1,2)]) (simp add: f(3) [symmetric] ac_simps)
next
  case (work_free a s)
  have rg: "\<And>i w. ring_ok (xs_to_local s i w)" "\<And>i w. ring_ok (xs_to_wan s i w)" "pool_ok (xp_pool (xs_pair s))"
    using work_free(2) by (simp_all add: sys_ok_def pair_ok_def)
  note f = pool_free_frames [OF rg(3) hand_room [OF work_free(2,1)], of a]
  obtain h where h: "xs_hand s = add_mset a h" using work_free(1) by (metis insert_DiffM)
  show ?case by (rule work_conserves [OF work_free(2) f(1,3) rg(1,2)]) (simp add: f(2) h)
next
  case (work_push_local job s i w ok r pool drops)
  have rg: "\<And>i w. ring_ok (xs_to_local s i w)" "\<And>i w. ring_ok (xs_to_wan s i w)" "pool_ok (xp_pool (xs_pair s))"
    using work_push_local(5) by (simp_all add: sys_ok_def pair_ok_def)
  have p: "ring_ok r" "pool_ok pool" "q_cap pool = q_cap (xp_pool (xs_pair s))"
    "ring_frames r + mset (pool_contents pool) = add_mset (pk_addr job) (ring_frames (xs_to_local s i w) + mset (pool_contents (xp_pool (xs_pair s))))"
    using dp_ring_push_frames [OF rg(1,3) hand_room [OF work_push_local(5,1)] work_push_local(4)] by simp_all
  have fr: "mset (pool_contents pool) + grid_frames (put_ring i w r (xs_to_local s)) + (xs_hand s - {#pk_addr job#})
      = mset (pool_contents (xp_pool (xs_pair s))) + grid_frames (xs_to_local s) + xs_hand s"
    by (rule pushed_frames [OF put_ring_frames [OF work_push_local(2,3), where g = "xs_to_local s" and r = r] p(4) work_push_local(1)])
  show ?case
    by (rule work_conserves [OF work_push_local(5) p(2,3) put_ring_ok [OF rg(1) p(1)] rg(2)]) (use arg_cong [OF fr, of "\<lambda>x. x + grid_frames (xs_to_wan s)"] in \<open>simp add: ac_simps\<close>)
next
  case (work_push_wan job s i w ok r pool drops)
  have rg: "\<And>i w. ring_ok (xs_to_local s i w)" "\<And>i w. ring_ok (xs_to_wan s i w)" "pool_ok (xp_pool (xs_pair s))"
    using work_push_wan(5) by (simp_all add: sys_ok_def pair_ok_def)
  have p: "ring_ok r" "pool_ok pool" "q_cap pool = q_cap (xp_pool (xs_pair s))"
    "ring_frames r + mset (pool_contents pool) = add_mset (pk_addr job) (ring_frames (xs_to_wan s i w) + mset (pool_contents (xp_pool (xs_pair s))))"
    using dp_ring_push_frames [OF rg(2,3) hand_room [OF work_push_wan(5,1)] work_push_wan(4)] by simp_all
  have fr: "mset (pool_contents pool) + grid_frames (put_ring i w r (xs_to_wan s)) + (xs_hand s - {#pk_addr job#})
      = mset (pool_contents (xp_pool (xs_pair s))) + grid_frames (xs_to_wan s) + xs_hand s"
    by (rule pushed_frames [OF put_ring_frames [OF work_push_wan(2,3), where g = "xs_to_wan s" and r = r] p(4) work_push_wan(1)])
  show ?case
    by (rule work_conserves [OF work_push_wan(5) p(2,3) rg(1) put_ring_ok [OF rg(2) p(1)]]) (use arg_cong [OF fr, of "\<lambda>x. x + grid_frames (xs_to_local s)"] in \<open>simp add: ac_simps\<close>)
next
  case (work_push_split job tail s i w r)
  have rg: "\<And>i w. ring_ok (xs_to_local s i w)" "\<And>i w. ring_ok (xs_to_wan s i w)" "pool_ok (xp_pool (xs_pair s))"
    using work_push_split(6) by (simp_all add: sys_ok_def pair_ok_def)
  note p = split_frames [OF rg(2) work_push_split(4,5)]
  obtain h where h: "xs_hand s = h + {#pk_addr job, pk_addr tail#}" using work_push_split(1) by (metis subset_mset.diff_add)
  have "grid_frames (put_ring i w r (xs_to_wan s)) + ring_frames (xs_to_wan s i w)
      = grid_frames (xs_to_wan s) + {#pk_addr job, pk_addr tail#} + ring_frames (xs_to_wan s i w)"
    unfolding put_ring_frames [OF work_push_split(2,3)] p(2) by (simp add: ac_simps)
  then have "grid_frames (put_ring i w r (xs_to_wan s)) = grid_frames (xs_to_wan s) + {#pk_addr job, pk_addr tail#}" by simp
  then show ?case
    by (intro work_conserves [OF work_push_split(6) rg(3) refl rg(1) put_ring_ok [OF rg(2) p(1)]]) (simp add: h ac_simps)
next
  case (plumb env s dp_slot ok p)
  then show ?case by (rule plumb_conserves [rotated 1])
next
  case (kernel_fill wan i q s x a fq)
  have ok: "queue_ok x" unfolding kernel_fill(2) by (rule the_queue_ok) (use kernel_fill in \<open>simp_all add: sys_ok_def\<close>)
  note k = kernel_consume_queue [OF _ kernel_fill(3)]
  have "queue_frames x = add_mset a (queue_frames (x\<lparr>xq_fq := fq\<rparr>))" using k(2) ok by (simp add: queue_frames_def queue_ok_def)
  moreover have "queue_ok (x\<lparr>xq_fq := fq\<rparr>)" using k(1) ok by (simp add: queue_ok_def)
  ultimately show ?case
    by (intro kernel_conserves [OF kernel_fill(4,1), of "x\<lparr>xq_fq := fq\<rparr>" _ "xs_ktx s" "add_mset a (xs_krx s)"]) (simp_all add: kernel_fill(2) [symmetric])
next
  case (kernel_recv wan i q s x a d rx)
  have ok: "queue_ok x" unfolding kernel_recv(2) by (rule the_queue_ok) (use kernel_recv in \<open>simp_all add: sys_ok_def\<close>)
  have k: "cons_ok rx \<and> cons_contents rx = cons_contents (xq_rx x) @ [d] \<and> cons_pending rx = cons_pending (xq_rx x)"
    using kernel_produce_spec [OF _ kernel_recv(5)] ok by (simp add: queue_ok_def)
  have fr: "queue_frames (x\<lparr>xq_rx := rx\<rparr>) = add_mset (xd_addr d) (queue_frames x)" using k by (simp add: queue_frames_def)
  have "image_mset (frame_no s) (xs_krx s) = add_mset (frame_no s a) (image_mset (frame_no s) (xs_krx s - {#a#}))"
    using kernel_recv(3) by (metis image_mset_add_mset insert_DiffM)
  then have "image_mset (frame_no s) (queue_frames (x\<lparr>xq_rx := rx\<rparr>) + (xs_krx s - {#a#}) + xs_ktx s)
      = image_mset (frame_no s) (queue_frames (the_queue wan i q (xs_pair s)) + xs_krx s + xs_ktx s)"
    using kernel_recv(4) by (simp add: fr kernel_recv(2) [symmetric])
  moreover have "queue_ok (x\<lparr>xq_rx := rx\<rparr>)" using k ok by (simp add: queue_ok_def)
  ultimately show ?case
    by (intro kernel_conserves [OF kernel_recv(6,1), of "x\<lparr>xq_rx := rx\<rparr>" _ "xs_ktx s" "xs_krx s - {#a#}"]) simp_all
next
  case (kernel_send wan i q s x d tx)
  have ok: "queue_ok x" unfolding kernel_send(2) by (rule the_queue_ok) (use kernel_send in \<open>simp_all add: sys_ok_def\<close>)
  have k: "prod_ok tx" "mset (List.map xd_addr (prod_contents (xq_tx x))) = add_mset (xd_addr d) (mset (List.map xd_addr (prod_contents tx)))"
    using kernel_consume_spec [of "xq_tx x"] kernel_send(3) ok by (auto simp: queue_ok_def)
  have "queue_frames x = add_mset (xd_addr d) (queue_frames (x\<lparr>xq_tx := tx\<rparr>))" using k(2) by (simp add: queue_frames_def)
  moreover have "queue_ok (x\<lparr>xq_tx := tx\<rparr>)" using k(1) ok by (simp add: queue_ok_def)
  ultimately show ?case
    by (intro kernel_conserves [OF kernel_send(4,1), of "x\<lparr>xq_tx := tx\<rparr>" _ "add_mset (xd_addr d) (xs_ktx s)" "xs_krx s"]) (simp_all add: kernel_send(2) [symmetric])
next
  case (kernel_sent wan i q s x a cq)
  have ok: "queue_ok x" unfolding kernel_sent(2) by (rule the_queue_ok) (use kernel_sent in \<open>simp_all add: sys_ok_def\<close>)
  have k: "cons_ok cq \<and> cons_contents cq = cons_contents (xq_cq x) @ [a] \<and> cons_pending cq = cons_pending (xq_cq x)"
    using kernel_produce_spec [OF _ kernel_sent(4)] ok by (simp add: queue_ok_def)
  have fr: "queue_frames (x\<lparr>xq_cq := cq\<rparr>) = add_mset a (queue_frames x)" using k by (simp add: queue_frames_def)
  have "xs_ktx s = add_mset a (xs_ktx s - {#a#})" using kernel_sent(3) by simp
  then have "queue_frames (x\<lparr>xq_cq := cq\<rparr>) + xs_krx s + (xs_ktx s - {#a#}) = queue_frames x + xs_krx s + xs_ktx s"
    unfolding fr by (metis (no_types, lifting) union_mset_add_mset_left union_mset_add_mset_right)
  then have "image_mset (frame_no s) (queue_frames (x\<lparr>xq_cq := cq\<rparr>) + xs_krx s + (xs_ktx s - {#a#}))
      = image_mset (frame_no s) (queue_frames x + xs_krx s + xs_ktx s)" by (rule arg_cong)
  moreover have "queue_ok (x\<lparr>xq_cq := cq\<rparr>)" using k ok by (simp add: queue_ok_def)
  ultimately show ?case
    by (intro kernel_conserves [OF kernel_sent(5,1), of "x\<lparr>xq_cq := cq\<rparr>" _ "xs_ktx s - {#a#}" "xs_krx s"]) (simp_all add: kernel_sent(2) [symmetric])
qed

text \<open>The state after \<open>ne_pair_open\<close> before the fill rings are filled: all frames are in the pool.\<close>

definition xsk_start :: "nat \<Rightarrow> xsk_sys \<Rightarrow> bool" where
  "xsk_start n s \<longleftrightarrow> sys_ok (unat (q_cap (xp_pool (xs_pair s)))) s
     \<and> sys_addrs s = mset (pool_contents (xp_pool (xs_pair s)))
     \<and> List.map (frame_no s) (pool_contents (xp_pool (xs_pair s))) = [0..<n]"


text \<open>An example: a pool of two frames, and a WAN with one queue with rings of two entries.\<close>

definition xring_example :: "'a \<Rightarrow> bool \<Rightarrow> 'a xsk_ring" where
  "xring_example x prod_side = \<lparr>xr_cached_prod = 0, xr_cached_cons = (if prod_side then 2 else 0), xr_mask = 1, xr_size = 2, xr_producer = 0,
     xr_consumer = 0, xr_ring = [x, x]\<rparr>"

definition xqueue_example :: ne_xsk_queue where
  "xqueue_example = \<lparr>xq_xsk = True, xq_rx = xring_example \<lparr>xd_addr = 0, xd_len = 0\<rparr> False, xq_tx = xring_example \<lparr>xd_addr = 0, xd_len = 0\<rparr> True,
     xq_fq = xring_example 0 True, xq_cq = xring_example 0 False, xq_rx_pending = 0\<rparr>"

definition xsys_example :: xsk_sys where
  "xsys_example = \<lparr>xs_pair = \<lparr>xp_frame_size = 2048, xp_n_frames = 2, xp_locals = [],
       xp_wans = [\<lparr>ni_ifindex = 3, ni_ifname = ''wan0'', ni_queues = [xqueue_example]\<rparr>], xp_local_live = [], xp_wan_live = [True],
       xp_local_queue_total = 0, xp_wan_queue_total = 1,
       xp_pool = \<lparr>q_buf = [0, 2048], q_cap = 2, q_mask = 1, q_head = 2, q_tail = 0\<rparr>\<rparr>,
     xs_to_local = (\<lambda>_ _. example_ring), xs_to_wan = (\<lambda>_ _. example_ring), xs_rr = (\<lambda>_. 0), xs_hand = {#}, xs_krx = {#}, xs_ktx = {#}\<rparr>"

lemma xring_example_ok: "prod_ok (xring_example x True)" "cons_ok (xring_example x False)" "prod_contents (xring_example x b) = []"
  "cons_contents (xring_example x False) = []" "cons_pending (xring_example x False) = 0"
  by (auto simp: prod_ok_def cons_ok_def xring_wf_def prod_stale_def prod_contents_def cons_contents_def cons_pending_def xring_example_def circ_def
      intro!: exI [of _ 1])

lemma xqueue_example_ok: "queue_ok xqueue_example" "queue_frames xqueue_example = {#}"
  by (simp_all add: queue_ok_def queue_frames_def xqueue_example_def xring_example_ok)

lemma grid_example: "grid_frames (\<lambda>_ _. example_ring) = {#}"
  by (simp add: grid_frames_def ring_frames_def example_ring_ok)

lemma xsys_example_start: "xsk_start 2 xsys_example"
proof -
  have p: "pool_contents (xp_pool (xs_pair xsys_example)) = [0, 2048]"
    by code_simp
  have po: "pool_ok (xp_pool (xs_pair xsys_example))" by (auto simp: pool_ok_def xsys_example_def intro!: exI [of _ 1])
  have fr: "pair_frames (xs_pair xsys_example) = {#0, 2048#}"
    by (simp add: pair_frames_def p) (simp add: xsys_example_def xqueue_example_ok)
  have "sys_addrs xsys_example = {#0, 2048#}" by (simp add: sys_addrs_def fr) (simp add: xsys_example_def grid_example)
  moreover have "pair_ok (xs_pair xsys_example)" using po by (simp add: pair_ok_def) (simp add: xsys_example_def xqueue_example_ok)
  moreover have "[0..<2] = [0, 1 :: nat]" by (simp add: upt_rec)
  ultimately show ?thesis
    by (simp add: xsk_start_def sys_ok_def p) (simp add: xsys_example_def example_ring_ok frame_no_def)
qed


end
