(* ===== verification/Xsk_Faults.thy ===== *)
theory Xsk_Faults
  imports Xsk_System
begin

text \<open>
  How queues are divided among threads, and where the interfaces of \<open>xdp_interface.c\<close> and \<open>forwarder.c\<close> do not do what they
  mean to: transmit slots that an interface has no queue for, the second attempt to open an interface, and the frames of
  an interface that is removed while the program runs.
\<close>

section \<open>Queues and threads\<close>

definition slots_of :: "nat \<Rightarrow> nat \<Rightarrow> nat" where
  "slots_of nq slots = (if nq < slots then (if nq > 0 then nq else 1) else slots)"

lemma rx_slot_iff: "xsk_queue_for_rx_slot q r nq slots \<longleftrightarrow> r < slots_of nq slots \<and> q mod slots_of nq slots = r"
  by (auto simp: xsk_queue_for_rx_slot_def slots_of_def Let_def)

lemma tx_slot_iff: "xsk_queue_for_tx_slot q t nq \<longleftrightarrow> t < slots_of nq NE_TX_SLOTS \<and> q mod slots_of nq NE_TX_SLOTS = t"
  by (auto simp: xsk_queue_for_tx_slot_def slots_of_def Let_def)

lemma tx_primary_iff: "tx_primary nq t = Some q \<longleftrightarrow> q = t \<and> t < min nq NE_TX_SLOTS"
proof (cases "nq = 0")
  case True
  then show ?thesis by (simp add: tx_primary_def)
next
  case False
  then have m: "slots_of nq NE_TX_SLOTS = min nq NE_TX_SLOTS" by (simp add: slots_of_def)
  have own: "xsk_queue_for_tx_slot t t nq \<longleftrightarrow> t < min nq NE_TX_SLOTS" by (auto simp: tx_slot_iff m)
  have le: "t \<le> k" if "xsk_queue_for_tx_slot k t nq" for k
    using that by (auto simp: tx_slot_iff m intro: mod_less_eq_dividend)
  show ?thesis
  proof (cases "t < min nq NE_TX_SLOTS")
    case True
    then have "tx_primary nq t = Some t"
      unfolding tx_primary_def find_Some_iff using own le by (intro exI [of _ t]) (fastforce simp: not_less)
    then show ?thesis using True by auto
  next
    case False
    then have "\<not> xsk_queue_for_tx_slot k t nq" for k by (auto simp: tx_slot_iff m)
    then have "tx_primary nq t = None" by (simp add: tx_primary_def find_None_iff)
    then show ?thesis using False by auto
  qed
qed

lemma fold_min_le: "fold min xs (m :: nat) \<le> m" "x \<in> set xs \<Longrightarrow> fold min xs m \<le> x"
proof -
  show le: "fold min xs m \<le> m" for xs and m :: nat by (induction xs arbitrary: m) (simp, metis fold_simps(2) min.bounded_iff)
  show "x \<in> set xs \<Longrightarrow> fold min xs m \<le> x" using le by (induction xs arbitrary: m) (auto, meson le min.boundedE)
qed

lemma fold_min_greatest: "k \<le> (m :: nat) \<Longrightarrow> \<forall>x\<in>set xs. k \<le> x \<Longrightarrow> k \<le> fold min xs m"
  by (induction xs arbitrary: m) auto

lemma active_slots_bounds:
  assumes "t < forwarder_active_tx_slots p"
  shows "t < NE_TX_SLOTS"
    and "\<lbrakk>i < length (xp_wans p); xp_wan_live p ! i; ni_queues (xp_wans p ! i) \<noteq> []\<rbrakk> \<Longrightarrow> t < length (ni_queues (xp_wans p ! i))"
    and "\<lbrakk>i < length (xp_locals p); xp_local_live p ! i; ni_queues (xp_locals p ! i) \<noteq> []\<rbrakk> \<Longrightarrow> t < length (ni_queues (xp_locals p ! i))"
proof -
  define counts where "counts = [length (ni_queues (xp_locals p ! i)). i \<leftarrow> [0..<length (xp_locals p)], xp_local_live p ! i]
            @ [length (ni_queues (xp_wans p ! i)). i \<leftarrow> [0..<length (xp_wans p)], xp_wan_live p ! i]"
  have a: "forwarder_active_tx_slots p = (if counts \<noteq> [] \<and> fold min counts NE_TX_SLOTS > 0 then fold min counts NE_TX_SLOTS else 1)"
    unfolding forwarder_active_tx_slots_def counts_def Let_def by (rule refl)
  have below: "t < n" if "n \<in> set counts" "n \<noteq> 0" for n
    using assms that fold_min_le(2) [OF that(1), of NE_TX_SLOTS] unfolding a by (auto split: if_splits)
  show "t < NE_TX_SLOTS" using assms fold_min_le(1) [of counts NE_TX_SLOTS] by (auto simp: a NE_TX_SLOTS_def split: if_splits)
  show "t < length (ni_queues (xp_wans p ! i))" if "i < length (xp_wans p)" "xp_wan_live p ! i" "ni_queues (xp_wans p ! i) \<noteq> []"
    by (rule below) (use that in \<open>auto simp: counts_def intro!: bexI [of _ i]\<close>)
  show "t < length (ni_queues (xp_locals p ! i))" if "i < length (xp_locals p)" "xp_local_live p ! i" "ni_queues (xp_locals p ! i) \<noteq> []"
    by (rule below) (use that in \<open>auto simp: counts_def intro!: bexI [of _ i]\<close>)
qed

lemma primary_drained:
  assumes "tx_primary nq t = Some q"
  shows "xsk_queue_for_tx_slot q t' nq \<longleftrightarrow> t' = t"
proof -
  have "q = t" "t < min nq NE_TX_SLOTS" using assms tx_primary_iff by simp_all
  moreover from this have "slots_of nq NE_TX_SLOTS = min nq NE_TX_SLOTS" by (simp add: slots_of_def)
  ultimately show ?thesis by (auto simp: tx_slot_iff)
qed

text \<open>A WAN with two queues.\<close>

definition xpair_two_queues :: xsk_pair where
  "xpair_two_queues = (xs_pair xsys_example)\<lparr>xp_wans := [\<lparr>ni_ifindex = 3, ni_ifname = ''wan0'', ni_queues = [xqueue_example, xqueue_example]\<rparr>]\<rparr>"

text \<open>C13: which threads use the rings of a queue. The program starts the transmit threads \<open>0\<close> to
  \<open>forwarder_active_tx_slots - 1\<close> for the ports that are open when it starts (\<open>p0\<close>). For an interface with \<open>nq\<close> queues,
  whenever it is added: every queue belongs to exactly one receive slot, whose thread is started when the queue has been
  counted. No two of the started transmit threads send on the same queue, and the completion ring of a queue on which one
  of them sends is drained by this thread and by no other slot. The queues on which a started thread sends are those with a number below
  the number of threads; nothing is ever sent on the others. A started thread has no queue to send on exactly on the
  interfaces with too few queues, and on an interface that was live at the start with at least one queue, LAN or
  WAN, each of them has one.\<close>

theorem queues_have_one_thread:
  assumes "0 < nq" and "0 < slots"
  shows "(\<forall>q<nq. (\<exists>!r. xsk_queue_for_rx_slot q r nq slots)
       \<and> (\<forall>r total. xsk_queue_for_rx_slot q r nq slots \<longrightarrow> int nq \<le> total \<longrightarrow> r < ne_rx_slots_for_queues total slots))
    \<and> (\<forall>t q. t < forwarder_active_tx_slots p0 \<longrightarrow> tx_primary nq t = Some q \<longrightarrow>
         (\<forall>t'. xsk_queue_for_tx_slot q t' nq \<longleftrightarrow> t' = t) \<and> (\<forall>t'. tx_primary nq t' = Some q \<longrightarrow> t' = t))
    \<and> (\<forall>q<nq. (\<exists>t<forwarder_active_tx_slots p0. tx_primary nq t = Some q) \<longleftrightarrow> q < forwarder_active_tx_slots p0)
    \<and> (\<forall>t<forwarder_active_tx_slots p0. tx_primary nq t = None \<longleftrightarrow> nq \<le> t)
    \<and> (\<forall>t i. t < forwarder_active_tx_slots p0 \<longrightarrow>
         (i < length (xp_wans p0) \<longrightarrow> xp_wan_live p0 ! i \<longrightarrow> ni_queues (xp_wans p0 ! i) \<noteq> [] \<longrightarrow>
            tx_primary (length (ni_queues (xp_wans p0 ! i))) t = Some t)
       \<and> (i < length (xp_locals p0) \<longrightarrow> xp_local_live p0 ! i \<longrightarrow> ni_queues (xp_locals p0 ! i) \<noteq> [] \<longrightarrow>
            tx_primary (length (ni_queues (xp_locals p0 ! i))) t = Some t))"
proof -
  have s: "0 < slots_of nq slots" using assms by (simp add: slots_of_def)
  have 1: "\<exists>!r. xsk_queue_for_rx_slot q r nq slots" for q using s by (auto simp: rx_slot_iff)
  have 2: "r < ne_rx_slots_for_queues total slots" if "xsk_queue_for_rx_slot q r nq slots" "int nq \<le> total" for q r total
    using that assms by (auto simp: rx_slot_iff slots_of_def ne_rx_slots_for_queues_def split: if_splits)
  have 3: "(\<exists>t<forwarder_active_tx_slots p0. tx_primary nq t = Some q) \<longleftrightarrow> q < forwarder_active_tx_slots p0" if "q < nq" for q
    using that active_slots_bounds(1) [of q p0] by (auto simp: tx_primary_iff)
  have 4: "tx_primary nq t = None \<longleftrightarrow> nq \<le> t" if "t < forwarder_active_tx_slots p0" for t
  proof -
    have "tx_primary nq t = Some t \<longleftrightarrow> t < nq" using active_slots_bounds(1) [OF that] by (simp add: tx_primary_iff)
    moreover have "q = t" if "tx_primary nq t = Some q" for q using that by (simp add: tx_primary_iff)
    ultimately show ?thesis by (cases "tx_primary nq t") auto
  qed
  have 5: "tx_primary (length (ni_queues (xp_wans p0 ! i))) t = Some t"
    if "t < forwarder_active_tx_slots p0" "i < length (xp_wans p0)" "xp_wan_live p0 ! i" "ni_queues (xp_wans p0 ! i) \<noteq> []" for i t
    using active_slots_bounds(1,2) [OF that(1)] that(2-4) by (simp add: tx_primary_iff)
  have 6: "tx_primary (length (ni_queues (xp_locals p0 ! i))) t = Some t"
    if "t < forwarder_active_tx_slots p0" "i < length (xp_locals p0)" "xp_local_live p0 ! i" "ni_queues (xp_locals p0 ! i) \<noteq> []" for i t
    using active_slots_bounds(1,3) [OF that(1)] that(2-4) by (simp add: tx_primary_iff)
  show ?thesis using 1 2 3 4 5 6 primary_drained by (simp add: tx_primary_iff)
qed

theorem queues_have_one_thread_witness:
  "(\<exists>!r. xsk_queue_for_rx_slot 2 r 3 2) \<and> forwarder_active_tx_slots xpair_two_queues = 2
    \<and> tx_primary 3 0 = Some 0 \<and> tx_primary 3 1 = Some 1 \<and> \<not> (\<exists>t<forwarder_active_tx_slots xpair_two_queues. tx_primary 3 t = Some 2)"
proof -
  have n: "forwarder_active_tx_slots xpair_two_queues = 2" by code_simp
  note f = queues_have_one_thread [of 3 2 xpair_two_queues, unfolded n]
  have "tx_primary 3 t = Some t" if "t < 2" for t using that by (simp add: tx_primary_iff NE_TX_SLOTS_def)
  then show ?thesis using f n by simp
qed

text \<open>A WAN that is added later can lose packets for good. The transmit slots that are used for routing are those that were
  counted when the program started. When a WAN is added that has a queue count of at most the number of such a slot, no
  transmit thread ever takes a packet out of this WAN's ring for the slot: the packets that are routed there are never sent
  and their frames never come back.\<close>

lemma late_wan_starves:
  assumes "t < forwarder_active_tx_slots p0" and "length (ni_queues (xp_wans (xs_pair s) ! i)) \<le> t"
  shows "fst (dp_tx_wan_once i t s) = 0 \<and> (\<forall>t'. xs_to_wan (snd (dp_tx_wan_once i t' s)) i t = xs_to_wan s i t)"
proof -
  let ?f = "xp_wans (xs_pair s) ! i"
  have "tx_primary (length (ni_queues ?f)) t = None" using tx_primary_iff [of _ t] assms(2) by (cases "tx_primary (length (ni_queues ?f)) t") auto
  then have "tx_drain_iface_ring ?f r mf t = (0, ?f, r)" for r mf by (simp add: tx_drain_iface_ring_def)
  then have d: "tx_drain_iface_all_rings rr ?f [r] mf t = (0, ?f, [r], rr)" for rr r mf by (simp add: tx_drain_iface_all_rings_def Let_def)
  have own: "fst (dp_tx_wan_once i t s) = 0 \<and> xs_to_wan (snd (dp_tx_wan_once i t s)) i t = xs_to_wan s i t"
    by (auto simp: dp_tx_wan_once_def tx_collect_worker_rings_def ne_tx_drain_wan_all_def d split: list.splits)
  have "xs_to_wan (snd (dp_tx_wan_once i t' s)) i t = xs_to_wan s i t" if "t' \<noteq> t" for t'
    using that by (auto simp: dp_tx_wan_once_def split: list.splits prod.splits)
  then show ?thesis using own by metis
qed

section \<open>Opening an interface\<close>

text \<open>The second attempt asks for as many queues as the interface has, and the failed first attempt has set this to zero: it
  opens none, and reports success.\<close>

lemma open_retry_opens_nothing:
  assumes "ifindex \<noteq> 0" and "\<not> fst (open_iface_queues create ifindex iface ifname (length (ni_queues iface)))"
  shows "\<exists>f. open_with_retry create retry ifindex iface ifname = (True, f) \<and> ni_queues f = []"
  using assms by (auto simp: open_with_retry_def open_iface_queues_def split: option.splits)

section \<open>Removing an interface\<close>

lemma prefill_exact:
  assumes "prod_ok fq" "pool_ok p" "length (prod_contents fq) + unat want \<le> unat (xr_size fq)" "unat want \<le> length (pool_contents p)"
    "prefill_queue fq p want = (fq', p')"
  shows "prod_ok fq' \<and> pool_ok p' \<and> q_cap p' = q_cap p \<and> prod_contents fq' = prod_contents fq @ take (unat want) (pool_contents p)
    \<and> pool_contents p' = drop (unat want) (pool_contents p)"
  using assms
proof (induction "unat want" arbitrary: fq p want fq' p' rule: less_induct)
  case less
  show ?case
  proof (cases "want = 0")
    case True
    then show ?thesis using less.prems by (simp add: prefill_queue.simps)
  next
    case False
    define n where "n = (if want > NE_BATCH_SIZE then NE_BATCH_SIZE else want)"
    have n: "n \<le> want" "n \<noteq> 0" using False by (auto simp: n_def NE_BATCH_SIZE_def)
    obtain addrs q where pp: "pool_pop p n = (addrs, q)" by (cases "pool_pop p n")
    note b = pool_pop_spec [OF less.prems(2) pp]
    have nw: "unat n \<le> unat want" using n by (simp add: word_le_nat_alt)
    have l: "length addrs = unat n" using b nw less.prems(4) by simp
    then have got: "of_nat (length addrs) = n" and ne: "addrs \<noteq> []" using n by (auto dest: unat_eq_0D)
    obtain res idx fq1 where rv: "xsk_ring_prod_reserve fq n = (res, idx, fq1)" by (cases "xsk_ring_prod_reserve fq n") auto
    from less.prems(1) rv show ?thesis
    proof (cases rule: prod_reserve_spec)
      case full
      then show ?thesis using less.prems(3) nw by linarith
    next
      case (room r0)
      let ?fq2 = "xsk_ring_prod_submit (xsk_write fq1 idx addrs) n"
      have r0: "unat (prod_stale r0) + length addrs \<le> unat (xr_size r0)" using room(7) l by simp
      have e: "?fq2 = xsk_ring_prod_submit (xsk_write (r0\<lparr>xr_cached_prod := xr_producer r0 + n\<rparr>) (xr_producer r0) addrs) n"
        by (simp add: room(2,5,8))
      note c = prod_fill [OF room(3) r0 got [symmetric] e]
      have run: "prefill_queue ?fq2 q (want - n) = (fq', p')"
        using less.prems(5) False ne rv room(1)
        by (subst (asm) prefill_queue.simps) (simp add: n_def [symmetric] pp Let_def got cong: if_cong)
      have d: "unat (want - n) = unat want - unat n" using n(1) by (rule unat_sub)
      have lt: "unat (want - n) < unat want" using d nw n(2) by (simp add: unat_gt_0 [symmetric] del: unat_gt_0)
      have "length (prod_contents ?fq2) + unat (want - n) \<le> unat (xr_size ?fq2)"
        using less.prems(3) nw c(2,3) room(4,6) l d by simp
      moreover have "unat (want - n) \<le> length (pool_contents q)" using b d less.prems(4) by simp
      ultimately have "prod_ok fq' \<and> pool_ok p' \<and> q_cap p' = q_cap q \<and> prod_contents fq' = prod_contents ?fq2 @ take (unat (want - n)) (pool_contents q)
          \<and> pool_contents p' = drop (unat (want - n)) (pool_contents q)"
        using less.hyps [OF lt c(1) _ _ _ run] b by blast
      moreover have "take (unat n) ps @ take (unat want - unat n) (drop (unat n) ps) = take (unat want) ps" for ps :: "u64 list"
        using nw by (simp flip: take_add)
      ultimately show ?thesis using b c(2) room(4) d nw by simp
    qed
  qed
qed

text \<open>A queue that has only been filled.\<close>

definition filled_queue :: "ne_xsk_queue \<Rightarrow> bool" where
  "filled_queue x \<longleftrightarrow> queue_ok x \<and> cons_contents (xq_rx x) = [] \<and> cons_contents (xq_cq x) = [] \<and> cons_pending (xq_rx x) = 0"

lemma fresh_parts:
  assumes "fresh_queue x"
  shows "queue_ok x" "prod_contents (xq_fq x) = []" "cons_contents (xq_rx x) = []" "cons_contents (xq_cq x) = []" "cons_pending (xq_rx x) = 0"
    "xr_size (xq_fq x) = NE_FQ_PREFILL"
  using assms by (auto simp: fresh_queue_def queue_frames_def)

lemma prefill_iface_exact:
  assumes "\<forall>x\<in>set xs. fresh_queue x" "pool_ok p" "length xs * 16384 \<le> length (pool_contents p)"
  shows "\<exists>qs p'. each_queue (\<lambda>q. True) (\<lambda>x pool. case prefill_queue (xq_fq x) pool NE_FQ_PREFILL of (fq, pool) \<Rightarrow> Some (x\<lparr>xq_fq := fq\<rparr>, pool)) k xs p
      = Some (qs, p') \<and> (\<forall>x\<in>set qs. filled_queue x) \<and> length qs = length xs \<and> pool_ok p' \<and> q_cap p' = q_cap p
      \<and> pool_contents p' = drop (length xs * 16384) (pool_contents p)"
  using assms
proof (induction xs arbitrary: k p)
  case (Cons x xs)
  obtain fq p1 where f: "prefill_queue (xq_fq x) p NE_FQ_PREFILL = (fq, p1)" by (cases "prefill_queue (xq_fq x) p NE_FQ_PREFILL")
  have x: "fresh_queue x" using Cons.prems(1) by simp
  note y = fresh_parts [OF x]
  have "prod_ok (xq_fq x)" using y(1) by (simp add: queue_ok_def)
  from prefill_exact [OF this Cons.prems(2) _ _ f] Cons.prems(3)
  have e: "prod_ok fq" "pool_ok p1" "q_cap p1 = q_cap p" "pool_contents p1 = drop 16384 (pool_contents p)"
    by (simp_all add: y(2,6) NE_FQ_PREFILL_def)
  have "length xs * 16384 \<le> length (pool_contents p1)" using Cons.prems(3) e(4) by simp
  from Cons.IH [OF _ e(2) this, of "Suc k"] Cons.prems(1) obtain qs p' where
    r: "each_queue (\<lambda>q. True) (\<lambda>x pool. case prefill_queue (xq_fq x) pool NE_FQ_PREFILL of (fq, pool) \<Rightarrow> Some (x\<lparr>xq_fq := fq\<rparr>, pool)) (Suc k) xs p1
      = Some (qs, p')" "\<forall>x\<in>set qs. filled_queue x" "length qs = length xs" "pool_ok p'" "q_cap p' = q_cap p1"
      "pool_contents p' = drop (length xs * 16384) (pool_contents p1)" by auto
  have "filled_queue (x\<lparr>xq_fq := fq\<rparr>)" using y e(1) by (simp add: filled_queue_def queue_ok_def)
  then show ?case using r f e by (simp add: add.commute)
qed simp

lemma reclaim_nothing:
  assumes "filled_queue x" "pool_ok p"
  shows "\<exists>x' p'. (do { (x, pool) \<leftarrow> drain_cq_queue x p; reclaim_rx_queue x pool }) = Some (x', p') \<and> pool_ok p' \<and> q_cap p' = q_cap p
    \<and> pool_contents p' = pool_contents p"
proof -
  have q: "queue_ok x" "cons_contents (xq_rx x) = []" "cons_contents (xq_cq x) = []" "cons_pending (xq_rx x) = 0"
    using assms(1) by (simp_all add: filled_queue_def)
  have pd: "xq_rx_pending x = 0" using q(1,4) by (simp add: queue_ok_def)
  have bd: "length (pool_contents p) \<le> unat (q_cap p)" by (rule pool.bounded [OF assms(2)])
  from drain_cq_loop_spec [of "xq_cq x" p] q assms(2) bd obtain cq p1 where
    d: "drain_cq_loop (xq_cq x) p = Some (cq, p1)" "cons_ok cq" "cons_pending cq = 0" "pool_ok p1" "q_cap p1 = q_cap p"
      "pool_contents p1 = pool_contents p" by (auto simp: queue_ok_def)
  let ?x = "x\<lparr>xq_cq := cq\<rparr>"
  have "queue_ok ?x" "xq_rx_pending ?x = cons_pending (xq_rx ?x)" using q d pd by (simp_all add: queue_ok_def)
  moreover have "length (pool_contents p1) + unat (xq_rx_pending ?x) + length (cons_contents (xq_rx ?x)) \<le> unat (q_cap p1)"
    using d bd pd q by simp
  ultimately obtain x' p' where "reclaim_rx_queue ?x p1 = Some (x', p')" "pool_ok p'" "q_cap p' = q_cap p1"
      "pool_contents p' = pool_contents p1 @ handed_out ?x"
    using reclaim_rx_queue_spec [of ?x p1] d(4) q by auto
  moreover have "handed_out ?x = []" by (simp add: handed_out_def pd xsk_read_def)
  ultimately show ?thesis using d by (simp add: drain_cq_queue_def)
qed

lemma reclaim_iface_nothing:
  assumes "\<forall>x\<in>set xs. filled_queue x" "pool_ok p"
  shows "\<exists>qs p'. each_queue (\<lambda>q. True) (\<lambda>x pool. do { (x, pool) \<leftarrow> drain_cq_queue x pool; reclaim_rx_queue x pool }) k xs p = Some (qs, p')
    \<and> pool_ok p' \<and> pool_contents p' = pool_contents p"
  using assms
proof (induction xs arbitrary: k p)
  case (Cons x xs)
  from reclaim_nothing [of x p] Cons.prems obtain x' p1 where
    1: "(do { (x, pool) \<leftarrow> drain_cq_queue x p; reclaim_rx_queue x pool }) = Some (x', p1)" "pool_ok p1" "pool_contents p1 = pool_contents p" by auto
  from Cons.IH [of p1 "Suc k"] Cons.prems 1(2,3) show ?case by (auto simp: 1(1))
qed simp

text \<open>C36: an interface that is added and removed again takes its frames with it. Adding a WAN fills the fill ring of each of
  its queues with 16384 frames of the pool; removing it takes frames back from the completion and the receive rings, but
  not from the fill rings, which are cleared. A configuration change that adds a WAN and then fails (the filter cannot be
  attached, or another WAN of the profile cannot be added) is rolled back in this way: it costs the pool of 1048576 frames
  16384 frames for each queue, for good.\<close>

theorem attach_rollback_leaks:
  assumes "pool_ok (xp_pool p)" and "pe_checks env" and "pe_ifindex env \<noteq> 0" and "dp_slot = length (xp_wans p)" and "dp_slot < MAX_INTERFACES"
    and "length (xp_wan_live p) = length (xp_wans p)" and "\<forall>q<pe_nq env. \<exists>x. pe_create env q = Some x \<and> fresh_queue x"
    and "pe_nq env * 16384 \<le> length (pool_contents (xp_pool p))"
  shows "\<exists>p1 p2. ne_pair_plumb_wan_dp env p dp_slot = Some (True, p1) \<and> ne_pair_unplumb_wan_dp p1 dp_slot = Some p2
    \<and> pool_contents (xp_pool p2) = drop (pe_nq env * 16384) (pool_contents (xp_pool p)) \<and> ifaces_frames (xp_wans p2) = ifaces_frames (xp_wans p)"
proof -
  have "\<forall>q\<in>set qs. \<exists>x. pe_create env q = Some x \<and> fresh_queue x \<Longrightarrow> \<exists>xs. open_queues (pe_create env) qs = Some xs" for qs
    by (induction qs) auto
  from this [of "[0..<pe_nq env]"] assms(7) obtain xs where xs: "open_queues (pe_create env) [0..<pe_nq env] = Some xs" by auto
  have "open_queues create qs = Some ys \<Longrightarrow> \<forall>q\<in>set qs. \<exists>x. create q = Some x \<and> fresh_queue x \<Longrightarrow> length ys = length qs \<and> (\<forall>y\<in>set ys. fresh_queue y)"
    for create qs ys by (induction qs arbitrary: ys) (auto split: Option.bind_splits)
  from this [OF xs] assms(7) have fr: "length xs = pe_nq env" "\<forall>x\<in>set xs. fresh_queue x" by auto
  from prefill_iface_exact [OF fr(2) assms(1), of 0] assms(8) fr(1) obtain qs pool where
    f: "prefill_iface xs NE_FQ_PREFILL (xp_pool p) = Some (qs, pool)" "\<forall>x\<in>set qs. filled_queue x" "pool_ok pool"
      "pool_contents pool = drop (pe_nq env * 16384) (pool_contents (xp_pool p))" by (auto simp: prefill_iface_def)
  let ?f = "\<lparr>ni_ifindex = pe_ifindex env, ni_ifname = pe_ifname env, ni_queues = qs\<rparr>"
  let ?p1 = "p\<lparr>xp_wans := xp_wans p @ [?f], xp_wan_live := xp_wan_live p @ [True], xp_wan_queue_total := xp_wan_queue_total p + pe_nq env, xp_pool := pool\<rparr>"
  have 1: "ne_pair_plumb_wan_dp env p dp_slot = Some (True, ?p1)"
    using assms(2-6) f(1) xs by (simp add: ne_pair_plumb_wan_dp_def open_iface_queues_def put_at_def ne_iface_zero_def)
  from reclaim_iface_nothing [OF f(2,3), of 0] obtain qs' pool' where
    r: "reclaim_iface_umem_frames qs pool = Some (qs', pool')" "pool_contents pool' = pool_contents pool" by (auto simp: reclaim_iface_umem_frames_def)
  let ?p2 = "?p1\<lparr>xp_wan_live := xp_wan_live p @ [False], xp_wans := xp_wans p @ [ne_iface_zero],
      xp_wan_queue_total := xp_wan_queue_total p + pe_nq env - length qs, xp_pool := pool'\<rparr>"
  have "(xp_wan_live p @ [True]) ! length (xp_wans p)" using assms(6) by (metis nth_append_length)
  then have 2: "ne_pair_unplumb_wan_dp ?p1 dp_slot = Some ?p2"
    using assms(4,6) r(1) by (simp add: ne_pair_unplumb_wan_dp_def list_update_append)
  have "ifaces_frames (xp_wans p @ [ne_iface_zero]) = ifaces_frames (xp_wans p)" by (simp add: ifaces_frames_def ne_iface_zero_def)
  then show ?thesis using 1 2 f(4) r(2) by (intro exI [of _ ?p1] exI [of _ ?p2]) simp
qed

text \<open>The example: sixteen thousand entries in the fill ring, twice as many frames in the pool.\<close>

definition big_ring :: "'a \<Rightarrow> bool \<Rightarrow> 'a xsk_ring" where
  "big_ring x prod_side = \<lparr>xr_cached_prod = 0, xr_cached_cons = (if prod_side then 16384 else 0), xr_mask = 16383, xr_size = 16384, xr_producer = 0,
     xr_consumer = 0, xr_ring = replicate 16384 x\<rparr>"

definition big_queue :: ne_xsk_queue where
  "big_queue = \<lparr>xq_xsk = True, xq_rx = big_ring \<lparr>xd_addr = 0, xd_len = 0\<rparr> False, xq_tx = big_ring \<lparr>xd_addr = 0, xd_len = 0\<rparr> True,
     xq_fq = big_ring 0 True, xq_cq = big_ring 0 False, xq_rx_pending = 0\<rparr>"

lemma big_ring_ok: "prod_ok (big_ring x True)" "cons_ok (big_ring x False)" "prod_contents (big_ring x True) = []"
  "cons_contents (big_ring x False) = []" "cons_pending (big_ring x False) = 0" "prod_stale (big_ring x True) = 0"
  by (auto simp: prod_ok_def cons_ok_def xring_wf_def prod_stale_def prod_contents_def cons_contents_def cons_pending_def big_ring_def circ_def
      intro!: exI [of _ 14])

lemma big_queue_fresh: "fresh_queue big_queue"
  by (simp add: fresh_queue_def queue_ok_def queue_frames_def big_queue_def big_ring_ok) (simp add: big_ring_def NE_FQ_PREFILL_def)

definition big_pair :: xsk_pair where
  "big_pair = (xs_pair xsys_example)\<lparr>xp_pool := \<lparr>q_buf = List.map of_nat [0..<32768], q_cap = 32768, q_mask = 32767, q_head = 32768, q_tail = 0\<rparr>\<rparr>"

theorem attach_rollback_leaks_witness:
  "\<exists>p1 p2. ne_pair_plumb_wan_dp \<lparr>pe_checks = True, pe_ifindex = 4, pe_ifname = ''wan1'', pe_nq = 1, pe_create = (\<lambda>q. Some big_queue)\<rparr> big_pair 1
      = Some (True, p1) \<and> ne_pair_unplumb_wan_dp p1 1 = Some p2
    \<and> length (pool_contents (xp_pool big_pair)) = 32768 \<and> length (pool_contents (xp_pool p2)) = 16384"
proof -
  let ?env = "\<lparr>pe_checks = True, pe_ifindex = 4, pe_ifname = ''wan1'', pe_nq = 1, pe_create = (\<lambda>q. Some big_queue)\<rparr>"
  have 1: "pool_ok (xp_pool big_pair)" by (auto simp: pool_ok_def big_pair_def intro!: exI [of _ 15])
  have 2: "length (pool_contents (xp_pool big_pair)) = 32768" by (simp add: pool_contents_def big_pair_def)
  have 3: "\<forall>q<pe_nq ?env. \<exists>x. pe_create ?env q = Some x \<and> fresh_queue x" using big_queue_fresh by simp
  have 4: "pe_nq ?env * 16384 \<le> length (pool_contents (xp_pool big_pair))" by (simp add: 2)
  have 5: "pe_ifindex ?env \<noteq> 0" "1 = length (xp_wans big_pair)" "1 < MAX_INTERFACES" "length (xp_wan_live big_pair) = length (xp_wans big_pair)" "pe_checks ?env"
    by (simp_all add: big_pair_def xsys_example_def MAX_INTERFACES_def)
  from attach_rollback_leaks [OF 1 5(5,1-4) 3 4] show ?thesis using 2 by auto
qed

lemma peek_idx: "xsk_ring_cons_peek r m = (n, idx, r') \<Longrightarrow> n \<noteq> 0 \<Longrightarrow> xr_cached_cons r' - n = idx"
  by (auto simp: xsk_ring_cons_peek_def word_gt_0 split: prod.splits if_splits)

lemma recv_handed_out:
  assumes ok: "queue_ok x" and r: "recv_queue x m d w l = (out, x1)"
  shows "handed_out x1 = List.map pk_addr out"
proof -
  obtain n idx rx where pk: "xsk_ring_cons_peek (xq_rx x) m = (n, idx, rx)" by (cases "xsk_ring_cons_peek (xq_rx x) m") auto
  have o: "out = List.map (pkt_of_desc d w l) (xsk_read rx idx n)" "x1 = x\<lparr>xq_rx := rx, xq_rx_pending := n\<rparr>"
    using r by (auto simp: recv_queue_def pk)
  have "List.map pk_addr out = List.map xd_addr (xsk_read rx idx n)" by (simp add: o pkt_of_desc_def)
  moreover have "handed_out x1 = List.map xd_addr (xsk_read rx (xr_cached_cons rx - n) n)" by (simp add: handed_out_def o(2))
  ultimately show ?thesis using peek_idx [OF pk] by (cases "n = 0") (simp_all add: xsk_read_def)
qed

text \<open>C35: removing an interface while its receive thread is at work frees frames that are in use. Between a receive and the
  release the packets of the batch belong to whoever got them; \<open>reclaim_rx_queue\<close>, which runs in the thread of transmit slot
  0, puts the frames of all packets that were received and not released into the pool. The next allocation gives a frame to
  a second owner while the worker still has it.\<close>

theorem reclaim_frees_in_flight:
  assumes "queue_ok x" and "cons_pending (xq_rx x) = 0" and "recv_queue x maxn dir wan_idx local_idx = (out, x1)" and "pool_ok p"
    and "length (pool_contents p) + length (cons_contents (xq_rx x)) \<le> unat (q_cap p)"
  shows "\<exists>x2 p' others. reclaim_rx_queue x1 p = Some (x2, p') \<and> pool_contents p' = pool_contents p @ List.map pk_addr out @ others"
proof -
  note s = recv_queue_spec [OF assms(1,3)]
  obtain n idx rx where pk: "xsk_ring_cons_peek (xq_rx x) maxn = (n, idx, rx)" by (cases "xsk_ring_cons_peek (xq_rx x) maxn") auto
  have "cons_ok (xq_rx x)" using assms(1) by (simp add: queue_ok_def)
  note a = cons_peek_spec [OF this pk]
  have x1: "x1 = x\<lparr>xq_rx := rx, xq_rx_pending := n\<rparr>" using assms(3) by (auto simp: recv_queue_def pk)
  have "unat (xq_rx_pending x1) + length (cons_contents (xq_rx x1)) = length (cons_contents (xq_rx x))" using a(3,9) by (simp add: x1)
  then have "length (pool_contents p) + unat (xq_rx_pending x1) + length (cons_contents (xq_rx x1)) \<le> unat (q_cap p)" using assms(5) by simp
  from reclaim_rx_queue_spec [OF s(1) s(5) [OF assms(2)] assms(4) this] show ?thesis
    by (auto simp: recv_handed_out [OF assms(1,3)])
qed

definition rx_example :: ne_xsk_queue where
  "rx_example = xqueue_example\<lparr>xq_rx := (xring_example \<lparr>xd_addr = 2304, xd_len = 60\<rparr> False)\<lparr>xr_producer := 1\<rparr>\<rparr>"

theorem reclaim_frees_in_flight_witness:
  "\<exists>x1 x2 p' others. recv_queue rx_example 64 NE_DIR_WAN 0 0 = ([\<lparr>pk_addr = 2304, pk_len = 60, pk_dir = NE_DIR_WAN, pk_wan_idx = 0, pk_local_idx = 0, pk_tx_slot = 0\<rparr>], x1)
     \<and> reclaim_rx_queue x1 example_pool = Some (x2, p') \<and> pool_contents p' = 2304 # others"
proof -
  have rx: "cons_ok (xq_rx rx_example)" "cons_pending (xq_rx rx_example) = 0"
    by (auto simp: rx_example_def cons_ok_def xring_wf_def xring_example_def cons_pending_def intro!: exI [of _ 1])
  have ok: "queue_ok rx_example" using xqueue_example_ok(1) rx by (simp add: queue_ok_def rx_example_def) (simp add: xqueue_example_def)
  obtain out x1 where r: "recv_queue rx_example 64 NE_DIR_WAN 0 0 = (out, x1)" by (cases "recv_queue rx_example 64 NE_DIR_WAN 0 0")
  have "fst (recv_queue rx_example 64 NE_DIR_WAN 0 0) = [\<lparr>pk_addr = 2304, pk_len = 60, pk_dir = NE_DIR_WAN, pk_wan_idx = 0, pk_local_idx = 0, pk_tx_slot = 0\<rparr>]"
    by code_simp
  then have out: "out = [\<lparr>pk_addr = 2304, pk_len = 60, pk_dir = NE_DIR_WAN, pk_wan_idx = 0, pk_local_idx = 0, pk_tx_slot = 0\<rparr>]" by (simp add: r)
  have p: "pool_ok example_pool" "pool_contents example_pool = []" "q_cap example_pool = 2"
    by (auto simp: example_pool_def pool_ok_def pool_contents_def circ_def intro!: exI [of _ 1])
  have "length (cons_contents (xq_rx rx_example)) = 1" by (simp add: cons_contents_def rx_example_def xring_example_def)
  with reclaim_frees_in_flight [OF ok rx(2) r p(1)] show ?thesis using r out p(2,3) by auto
qed

end
