(* ===== verification/Db_Config.thy ===== *)
theory Db_Config
  imports Wan_Scheduler Mac_Table
begin

text \<open>
  Loading a profile from the database, \<open>src/db/db_config.c\<close>: the texts of the columns (ports, protocols, actions, address
  lists) and the construction of the configuration from the rows of the queries. The answer of a query is a value: \<open>None\<close>
  when the status is not \<open>PGRES_TUPLES_OK\<close>, otherwise its rows with the columns that the query names; an SQL null is
  \<open>None\<close> and reads as the empty string (\<open>PQgetvalue\<close>). Strings hold no zero byte. The connection and the queries
  themselves are input and output; the binding of keys (\<open>sig_pqc_load_and_bind_policy\<close>) does not touch the configuration
  and is left out here.
\<close>

section \<open>Texts of the columns\<close>

subsection \<open>Functions of the C library\<close>

definition c_lower :: "char \<Rightarrow> char" where
  "c_lower c = (if (65 :: nat) \<le> of_char c \<and> of_char c \<le> (90 :: nat) then char_of ((of_char c :: nat) + 32) else c)"

definition strcaseeq :: "string \<Rightarrow> string \<Rightarrow> bool" where
  "strcaseeq a b \<longleftrightarrow> map c_lower a = map c_lower b"

text \<open>\<open>strtol\<close> stops at the limits of \<open>long\<close>; \<open>atoi\<close> and \<open>%d\<close> of \<open>sscanf\<close> cut its result to an \<open>int\<close>.\<close>

definition clamp_long :: "int \<Rightarrow> int" where
  "clamp_long v = max (- (2 ^ 63)) (min (2 ^ 63 - 1) v)"

definition long_to_int :: "int \<Rightarrow> int" where
  "long_to_int v = sint (of_int v :: 32 word)"

definition atoi :: "string \<Rightarrow> int" where
  "atoi s = long_to_int (clamp_long (fst (strtol10 s)))"

text \<open>One conversion \<open>%d\<close>: the value and the rest of the input, nothing when there is no digit.\<close>

definition scan_d :: "string \<Rightarrow> (int \<times> string) option" where
  "scan_d s =
     (let t = dropWhile is_c_space s;
          t' = (if t \<noteq> [] \<and> (hd t = CHR ''-'' \<or> hd t = CHR ''+'') then tl t else t)
      in if takeWhile is_digit t' = [] then None
         else Some (long_to_int (clamp_long (fst (strtol10 s))), dropWhile is_digit t'))"

text \<open>\<open>sscanf (v, "%d-%d", \<dots>)\<close> when both conversions succeed.\<close>

definition scan_d_d :: "string \<Rightarrow> (int \<times> int) option" where
  "scan_d_d v =
     (case scan_d v of
        Some (a, CHR ''-'' # rest) \<Rightarrow> map_option (\<lambda>(b, _). (a, b)) (scan_d rest)
      | _ \<Rightarrow> None)"

text \<open>The tokens of \<open>strtok_r\<close> with one separator: empty ones are skipped.\<close>

function strtok :: "char \<Rightarrow> string \<Rightarrow> string list" where
  "strtok d s =
     (let t = dropWhile (\<lambda>c. c = d) s in
      if t = [] then [] else takeWhile (\<lambda>c. c \<noteq> d) t # strtok d (dropWhile (\<lambda>c. c \<noteq> d) t))"
  by pat_completeness auto
termination
proof (relation "measure (length \<circ> snd)", goal_cases)
  case 1 then show ?case by simp
next
  case (2 d s t)
  then have "t \<noteq> []" and "hd t \<noteq> d" using hd_dropWhile [of "\<lambda>c. c = d" s] by auto
  then obtain c t' where t: "t = c # t'" "c \<noteq> d" by (cases t) auto
  have "length (dropWhile (\<lambda>c. c \<noteq> d) t) \<le> length t'" using t by (simp add: length_dropWhile_le)
  moreover have "length t \<le> length s" using 2 by (simp add: length_dropWhile_le)
  ultimately show ?case using t by simp
qed

subsection \<open>Parsers\<close>

definition str_is_any :: "string option \<Rightarrow> bool" where
  "str_is_any v =
     (case v of
        None \<Rightarrow> True
      | Some s \<Rightarrow> let v = dropWhile is_blank s in v = [] \<or> strcaseeq v ''any'' \<or> v = ''*'')"

definition parse_port_range :: "string \<Rightarrow> (int \<times> int) option" where
  "parse_port_range v =
     (if str_is_any (Some v) then Some (-1, -1)
      else
        case scan_d_d v of
          Some (a, b) \<Rightarrow>
            if a \<ge> 0 \<and> b \<ge> a \<and> b \<le> 65535 then Some (a, b)
            else (case scan_d v of
                Some (a, _) \<Rightarrow> if a \<ge> 0 \<and> a \<le> 65535 then Some (a, a) else None
              | None \<Rightarrow> None)
        | None \<Rightarrow>
            (case scan_d v of
                Some (a, _) \<Rightarrow> if a \<ge> 0 \<and> a \<le> 65535 then Some (a, a) else None
              | None \<Rightarrow> None))"

definition parse_ipv4_addr :: "string \<Rightarrow> u32 option" where
  "parse_ipv4_addr v =
     (if v = [] then None else inet_pton4 (takeWhile (\<lambda>c. c \<noteq> CHR ''/'') (take 63 v)))"

definition parse_protocol_name :: "string option \<Rightarrow> u8" where
  "parse_protocol_name v =
     (if str_is_any v then POLICY_PROTO_ANY
      else let v = the v in
        if strcaseeq v ''tcp/udp'' then POLICY_PROTO_TCP_UDP
        else if strcaseeq v ''tcp_udp'' then POLICY_PROTO_TCP_UDP
        else if strcaseeq v ''tcp-udp'' then POLICY_PROTO_TCP_UDP
        else if strcaseeq v ''tcp'' then 6
        else if strcaseeq v ''udp'' then 17
        else if strcaseeq v ''icmp'' then 1
        else if strcaseeq v ''ospf'' then 89
        else of_int (atoi v))"

definition parse_action_name :: "string option \<Rightarrow> int" where
  "parse_action_name v =
     (case v of
        None \<Rightarrow> -1
      | Some v \<Rightarrow>
          if strcaseeq v ''bypass'' then POLICY_ACTION_BYPASS
          else if strcaseeq v ''L2'' \<or> strcaseeq v ''encrypt_l2'' \<or> strcaseeq v ''encrypt l2'' then POLICY_ACTION_ENCRYPT_L2
          else -1)"

text \<open>The outputs are the flag "any", the negation, the network and the mask.\<close>

definition parse_cidr_any_or_negated :: "string option \<Rightarrow> (bool \<times> bool \<times> u32 \<times> u32) option" where
  "parse_cidr_any_or_negated v_in =
     (if str_is_any v_in then Some (True, False, 0, 0)
      else
        let v = dropWhile is_blank (the v_in);
            neg = (v \<noteq> [] \<and> hd v = CHR ''!'');
            v = (if neg then dropWhile is_blank (tl v) else v)
        in case parse_ip_cidr v of
            None \<Rightarrow> None
          | Some (ip, msk, net) \<Rightarrow> Some (False, neg, net, msk))"

definition trim_spaces_inplace :: "string \<Rightarrow> string" where
  "trim_spaces_inplace s = rev (dropWhile is_blank (rev (dropWhile is_blank s)))"

definition MAX_CIDR_LIST_ITEMS :: nat where "MAX_CIDR_LIST_ITEMS = 32"
definition MAX_CIDR_ITEM_LEN :: nat where "MAX_CIDR_ITEM_LEN = 96"

fun store_items :: "nat \<Rightarrow> string list \<Rightarrow> string list \<Rightarrow> string list option" where
  "store_items max_out [] out = (if length out > 0 then Some out else None)"
| "store_items max_out (tok # toks) out =
     (if length out \<ge> max_out then None
      else
        let tok = trim_spaces_inplace tok in
        if tok = [] then None
        else store_items max_out toks (out @ [take (MAX_CIDR_ITEM_LEN - 1) tok]))"

definition split_cidr_list :: "string \<Rightarrow> nat \<Rightarrow> string list option" where
  "split_cidr_list input max_out =
     (if max_out = 0 then None
      else
        let buf = trim_spaces_inplace (take 1023 input) in
        if buf = [] then None else store_items max_out (strtok CHR '','' buf) [])"

definition ne_fill_nullable_list :: "string option \<Rightarrow> nat \<Rightarrow> string list option" where
  "ne_fill_nullable_list joined max_out =
     (if max_out = 0 then None
      else case joined of
          None \<Rightarrow> Some [[]]
        | Some s \<Rightarrow> if s = [] then Some [[]] else split_cidr_list s max_out)"

definition ne_cidr_buf_with_invert :: "nat \<Rightarrow> string \<Rightarrow> bool \<Rightarrow> string" where
  "ne_cidr_buf_with_invert bufsz tok invert_db =
     (if invert_db \<and> \<not> (tok \<noteq> [] \<and> hd tok = CHR ''!'')
      then take (bufsz - 1) (CHR ''!'' # take (if bufsz > 2 then bufsz - 2 else 0) tok)
      else take (bufsz - 1) tok)"

subsection \<open>Wire ids\<close>

text \<open>\<open>used\<close> is the array of 256 flags.\<close>

definition alloc_wire_policy_id :: "int \<Rightarrow> bool list \<Rightarrow> (int \<times> bool list) option" where
  "alloc_wire_policy_id db_row_id used =
     (if db_row_id \<ge> 1 \<and> db_row_id \<le> 255 \<and> \<not> used ! nat db_row_id
      then Some (db_row_id, used[nat db_row_id := True])
      else case find (\<lambda>j. \<not> used ! j) [1..<256] of
          Some j \<Rightarrow> Some (int j, used[j := True])
        | None \<Rightarrow> None)"

section \<open>Rows of the queries\<close>

record lan_row =
  lr_ifname :: "string option"

record wan_row =
  wr_ifname :: "string option"
  wr_dst_ip :: "string option"

record wan_weight_row =
  ww_ifname :: "string option"
  ww_weight :: "string option"

record profile_row =
  pr_id :: "string option"
  pr_name :: "string option"
  pr_enabled :: "string option"
  pr_bridge_enable :: "string option"

record bridge_row =
  br_bridge_name :: "string option"
  br_lan_if :: "string option"
  br_wan_if :: "string option"

record policy_row =
  po_id :: "string option"
  po_priority :: "string option"
  po_action :: "string option"
  po_proto :: "string option"
  po_src_ip :: "string option"
  po_invert_src_ip :: "string option"
  po_dst_ip :: "string option"
  po_invert_dst_ip :: "string option"
  po_src_port :: "string option"
  po_dst_port :: "string option"

definition pq_value :: "string option \<Rightarrow> string" where
  "pq_value v = (case v of None \<Rightarrow> [] | Some s \<Rightarrow> s)"

text \<open>The answers of the queries for one profile, in the order in which the code asks.\<close>

record db_answers =
  q_exists :: "unit list option"
  q_lan :: "lan_row list option"
  q_wan :: "wan_row list option"
  q_profile :: "profile_row list option"
  q_wan_weight :: "wan_weight_row list option"
  q_profile_lan :: "lan_row list option"
  q_bridges :: "bridge_row list option"
  q_policies :: "policy_row list option"

section \<open>Interfaces\<close>

definition MAX_BRIDGES_PER_PROFILE :: nat where "MAX_BRIDGES_PER_PROFILE = MAX_PROFILE_INTERFACES"

text \<open>The first position with the property, -1 when there is none.\<close>

definition index_of :: "('a \<Rightarrow> bool) \<Rightarrow> 'a list \<Rightarrow> int" where
  "index_of P xs = (case find (\<lambda>i. P (xs ! i)) [0..<length xs] of Some i \<Rightarrow> int i | None \<Rightarrow> -1)"

definition find_local_index_by_ifname :: "app_config \<Rightarrow> string \<Rightarrow> int" where
  "find_local_index_by_ifname cfg ifname = index_of (\<lambda>l. l = ifname) (ac_locals cfg)"

definition find_wan_index_by_ifname :: "app_config \<Rightarrow> string \<Rightarrow> int" where
  "find_wan_index_by_ifname cfg ifname = index_of (\<lambda>w. wc_ifname w = ifname) (ac_wans cfg)"

section \<open>Building the configuration\<close>

definition load_local_rows :: "app_config \<Rightarrow> lan_row list \<Rightarrow> app_config option" where
  "load_local_rows cfg res =
     (if length res = 0 then None
      else if length res > MAX_INTERFACES then None
      else if \<exists>r \<in> set res. pq_value (lr_ifname r) = [] then None
      else Some (cfg\<lparr>ac_locals := ac_locals cfg @ map (\<lambda>r. take (IF_NAMESIZE - 1) (pq_value (lr_ifname r))) res\<rparr>))"

text \<open>A target address that does not parse leaves the zero that \<open>memset\<close> wrote.\<close>

definition wan_of_row :: "wan_row \<Rightarrow> wan_config" where
  "wan_of_row r =
     (let v = pq_value (wr_dst_ip r);
          dst_ip = (if wr_dst_ip r = None then 0
                    else if v \<noteq> [] then (case parse_ipv4_addr v of Some a \<Rightarrow> a | None \<Rightarrow> 0) else 0)
      in \<lparr>wc_ifname = take (IF_NAMESIZE - 1) (pq_value (wr_ifname r)), wc_dst_ip = dst_ip,
          wc_src_mac = replicate 6 0, wc_dst_mac = replicate 6 0, wc_dataplane = (dst_ip = 0)\<rparr>)"

definition load_wan_rows :: "app_config \<Rightarrow> wan_row list \<Rightarrow> app_config option" where
  "load_wan_rows cfg res =
     (if length res = 0 then None
      else if length res > MAX_INTERFACES then None
      else if \<exists>r \<in> set res. pq_value (wr_ifname r) = [] then None
      else Some (cfg\<lparr>ac_wans := ac_wans cfg @ map wan_of_row res\<rparr>))"

definition append_local :: "app_config \<Rightarrow> lan_row \<Rightarrow> profile_config \<Rightarrow> profile_config" where
  "append_local cfg r p =
     (if length (pf_local_indices p) \<ge> MAX_PROFILE_INTERFACES then p
      else
        let li = find_local_index_by_ifname cfg (pq_value (lr_ifname r)) in
        if li \<ge> 0 then p\<lparr>pf_local_indices := pf_local_indices p @ [li]\<rparr> else p)"

definition profile_append_locals_from_rows :: "app_config \<Rightarrow> lan_row list option \<Rightarrow> profile_config \<Rightarrow> profile_config" where
  "profile_append_locals_from_rows cfg res p = (case res of None \<Rightarrow> p | Some rows \<Rightarrow> fold (append_local cfg) rows p)"

definition row_weight :: "wan_weight_row \<Rightarrow> int" where
  "row_weight r =
     (case ww_weight r of
        None \<Rightarrow> 0
      | Some w \<Rightarrow> if w = [] then 0 else let parsed = atoi w in if parsed < 0 then 0 else parsed)"

definition append_wan :: "app_config \<Rightarrow> wan_weight_row \<Rightarrow> profile_config \<Rightarrow> profile_config" where
  "append_wan cfg r p =
     (if length (pf_wan_indices p) \<ge> MAX_PROFILE_INTERFACES then p
      else
        let wi = find_wan_index_by_ifname cfg (pq_value (ww_ifname r)) in
        if wi \<ge> 0
        then p\<lparr>pf_wan_indices := pf_wan_indices p @ [wi],
               pf_wan_bandwidth_weight := pf_wan_bandwidth_weight p @ [row_weight r]\<rparr>
        else p)"

definition profile_append_wans_from_rows :: "app_config \<Rightarrow> wan_weight_row list option \<Rightarrow> profile_config \<Rightarrow> profile_config" where
  "profile_append_wans_from_rows cfg res p = (case res of None \<Rightarrow> p | Some rows \<Rightarrow> fold (append_wan cfg) rows p)"

definition profile_commit_bridge_pair :: "app_config \<Rightarrow> int \<Rightarrow> int \<Rightarrow> string \<Rightarrow> profile_config \<Rightarrow> profile_config" where
  "profile_commit_bridge_pair cfg local_idx wan_cfg_idx bridge_name p =
     (if local_idx < 0 \<or> wan_cfg_idx < 0 then p
      else if length (pf_bridges p) \<ge> MAX_BRIDGES_PER_PROFILE then p
      else
        let wan_dp = config_wan_cfg_to_dp cfg wan_cfg_idx in
        if wan_dp < 0 then p
        else if \<exists>b \<in> set (pf_bridges p). bp_local_idx b = local_idx \<and> bp_wan_dp b = wan_dp then p
        else p\<lparr>pf_bridges := pf_bridges p @ [\<lparr>bp_local_idx = local_idx, bp_wan_dp = wan_dp,
                 bp_ifname = take (IF_NAMESIZE - 1) bridge_name\<rparr>]\<rparr>)"

definition load_bridge_pair :: "app_config \<Rightarrow> bridge_row \<Rightarrow> profile_config \<Rightarrow> profile_config" where
  "load_bridge_pair cfg r p =
     (let li = find_local_index_by_ifname cfg (pq_value (br_lan_if r));
          wi = find_wan_index_by_ifname cfg (pq_value (br_wan_if r))
      in if li < 0 \<or> wi < 0 then p
         else
           let owned_lan = (\<exists>i \<in> set (pf_local_indices p). i = li);
               owned_wan = (\<exists>i \<in> set (pf_wan_indices p). i = wi)
           in if \<not> owned_lan \<or> \<not> owned_wan then p
              else profile_commit_bridge_pair cfg li wi (pq_value (br_bridge_name r)) p)"

definition profile_load_bridge_pairs_from_db :: "app_config \<Rightarrow> bridge_row list option \<Rightarrow> profile_config \<Rightarrow> profile_config" where
  "profile_load_bridge_pairs_from_db cfg res p =
     (let p = p\<lparr>pf_bridges := []\<rparr> in case res of None \<Rightarrow> p | Some rows \<Rightarrow> fold (load_bridge_pair cfg) rows p)"

definition profile_of_row :: "profile_row \<Rightarrow> profile_config" where
  "profile_of_row r =
     \<lparr>pf_id = atoi (pq_value (pr_id r)), pf_name = take 63 (pq_value (pr_name r)),
      pf_enabled = (atoi (pq_value (pr_enabled r)) \<noteq> 0),
      pf_bridge_enable = (case pr_bridge_enable r of
          None \<Rightarrow> False
        | Some v \<Rightarrow> v \<noteq> [] \<and> (hd v = CHR ''t'' \<or> hd v = CHR ''T'') \<or> atoi v \<noteq> 0),
      pf_bridges = [], pf_local_indices = [], pf_wan_indices = [], pf_wan_bandwidth_weight = [], pf_policy_indices = [],
      pf_policy_in_any = False, pf_local_identity_fingerprint = [], pf_peer_fingerprint = [],
      pf_pqc_is_initiator = False, pf_has_pqc_identity = False, pf_pqc_peer_pub = []\<rparr>"

subsection \<open>Policies\<close>

text \<open>The part of a policy that all combinations of its lists share, with the wire id flags after it.\<close>

definition policy_base :: "policy_row \<Rightarrow> bool list \<Rightarrow> (crypto_policy \<times> bool list) option" where
  "policy_base r used =
     (let db_policy_id = atoi (pq_value (po_id r));
          action = parse_action_name (Some (pq_value (po_action r)));
          cp = \<lparr>cp_id = 0, cp_db_id = db_policy_id, cp_priority = atoi (pq_value (po_priority r)), cp_action = action,
                cp_protocol = parse_protocol_name (po_proto r), cp_src_port_from = 0, cp_src_port_to = 0,
                cp_dst_port_from = 0, cp_dst_port_to = 0, cp_src_any = False, cp_dst_any = False,
                cp_src_negate = False, cp_dst_negate = False, cp_src_net = 0, cp_src_mask = 0, cp_dst_net = 0,
                cp_dst_mask = 0\<rparr>
      in if action < 0 then None
         else if action = POLICY_ACTION_BYPASS then Some (cp\<lparr>cp_id := 0\<rparr>, used)
         else
           let cp = cp\<lparr>cp_action := POLICY_ACTION_ENCRYPT_L2\<rparr> in
           case alloc_wire_policy_id db_policy_id used of
             None \<Rightarrow> None
           | Some (wire_id, used) \<Rightarrow> Some (cp\<lparr>cp_id := wire_id\<rparr>, used))"

definition ports_or_any :: "string \<Rightarrow> int \<times> int" where
  "ports_or_any v = (case parse_port_range v of Some r \<Rightarrow> r | None \<Rightarrow> (-1, -1))"

definition cidr_or_any :: "string \<Rightarrow> bool \<Rightarrow> bool \<times> bool \<times> u32 \<times> u32" where
  "cidr_or_any item invert =
     (case parse_cidr_any_or_negated (Some (ne_cidr_buf_with_invert (MAX_CIDR_ITEM_LEN + 2) item invert)) of
        Some r \<Rightarrow> r
      | None \<Rightarrow> (True, False, 0, 0))"

text \<open>One combination of a source, a destination and their ports.\<close>

definition policy_of_items ::
    "crypto_policy \<Rightarrow> bool \<Rightarrow> bool \<Rightarrow> string \<times> string \<times> string \<times> string \<Rightarrow> crypto_policy" where
  "policy_of_items base invert_src invert_dst items =
     (case items of (src, dst, sp, dp) \<Rightarrow>
      case ports_or_any sp of (sf, st) \<Rightarrow>
      case ports_or_any dp of (df, dt) \<Rightarrow>
      case cidr_or_any src invert_src of (src_any, src_negate, src_net, src_mask) \<Rightarrow>
      case cidr_or_any dst invert_dst of (dst_any, dst_negate, dst_net, dst_mask) \<Rightarrow>
        base\<lparr>cp_src_port_from := sf, cp_src_port_to := st, cp_dst_port_from := df, cp_dst_port_to := dt,
             cp_src_any := src_any, cp_src_negate := src_negate, cp_src_net := src_net, cp_src_mask := src_mask,
             cp_dst_any := dst_any, cp_dst_negate := dst_negate, cp_dst_net := dst_net, cp_dst_mask := dst_mask\<rparr>)"

definition combinations :: "'a list \<Rightarrow> 'b list \<Rightarrow> 'c list \<Rightarrow> 'd list \<Rightarrow> ('a \<times> 'b \<times> 'c \<times> 'd) list" where
  "combinations as bs cs ds = concat (map (\<lambda>a. concat (map (\<lambda>b. concat (map (\<lambda>c. map (\<lambda>d. (a, b, c, d)) ds) cs)) bs)) as)"

text \<open>The profile that is being loaded stands last in \<open>profiles\<close>; here it is passed beside the configuration.\<close>

definition add_policy :: "crypto_policy \<Rightarrow> app_config \<times> profile_config \<Rightarrow> (app_config \<times> profile_config) option" where
  "add_policy cp st =
     (case st of (cfg, p) \<Rightarrow>
        if length (ac_policies cfg) \<ge> MAX_CRYPTO_POLICIES \<or> length (pf_policy_indices p) \<ge> MAX_CRYPTO_POLICIES then None
        else Some (cfg\<lparr>ac_policies := ac_policies cfg @ [cp]\<rparr>,
                   p\<lparr>pf_policy_indices := pf_policy_indices p @ [int (length (ac_policies cfg))]\<rparr>))"

fun add_policies :: "crypto_policy list \<Rightarrow> app_config \<times> profile_config \<Rightarrow> (app_config \<times> profile_config) option" where
  "add_policies [] st = Some st"
| "add_policies (cp # cps) st = (case add_policy cp st of None \<Rightarrow> None | Some st \<Rightarrow> add_policies cps st)"

definition load_policy_row ::
    "policy_row \<Rightarrow> app_config \<times> profile_config \<times> bool list \<Rightarrow> (app_config \<times> profile_config \<times> bool list) option" where
  "load_policy_row r st =
     (case st of (cfg, p, used) \<Rightarrow>
      case policy_base r used of
        None \<Rightarrow> None
      | Some (base, used) \<Rightarrow>
          if config_policy_db_id_taken cfg (cp_db_id base) then None
          else
            (case (ne_fill_nullable_list (po_src_ip r) MAX_CIDR_LIST_ITEMS, ne_fill_nullable_list (po_dst_ip r) MAX_CIDR_LIST_ITEMS,
                   ne_fill_nullable_list (po_src_port r) MAX_CIDR_LIST_ITEMS, ne_fill_nullable_list (po_dst_port r) MAX_CIDR_LIST_ITEMS) of
               (Some srcs, Some dsts, Some sps, Some dps) \<Rightarrow>
                 map_option (\<lambda>(cfg, p). (cfg, p, used))
                   (add_policies
                      (map (policy_of_items base (pq_value (po_invert_src_ip r) = ''t'') (pq_value (po_invert_dst_ip r) = ''t''))
                        (combinations srcs dsts sps dps))
                      (cfg, p))
             | _ \<Rightarrow> None))"

fun load_policy_rows ::
    "policy_row list \<Rightarrow> app_config \<times> profile_config \<times> bool list \<Rightarrow> (app_config \<times> profile_config \<times> bool list) option" where
  "load_policy_rows [] st = Some st"
| "load_policy_rows (r # rs) st = (case load_policy_row r st of None \<Rightarrow> None | Some st \<Rightarrow> load_policy_rows rs st)"

definition wire_ids_init :: "bool list" where
  "wire_ids_init = (replicate 256 False)[0 := True]"

definition load_profiles_and_policies :: "app_config \<Rightarrow> db_answers \<Rightarrow> app_config option" where
  "load_profiles_and_policies cfg q =
     (case q_profile q of
        None \<Rightarrow> None
      | Some [] \<Rightarrow> None
      | Some (r # _) \<Rightarrow>
          let p = profile_of_row r;
              p = profile_append_wans_from_rows cfg (q_wan_weight q) p;
              p = profile_append_locals_from_rows cfg (q_profile_lan q) p;
              p = profile_load_bridge_pairs_from_db cfg (q_bridges q) p
          in case q_policies q of
              None \<Rightarrow> None
            | Some rows \<Rightarrow>
                (case load_policy_rows rows (cfg, p, wire_ids_init) of
                   None \<Rightarrow> None
                 | Some (cfg, p, used) \<Rightarrow> Some (cfg\<lparr>ac_profiles := ac_profiles cfg @ [p]\<rparr>)))"

definition config_apply_crypto_from_policies :: "app_config \<Rightarrow> app_config" where
  "config_apply_crypto_from_policies cfg =
     (let cfg = cfg\<lparr>ac_crypto_enabled := False, ac_fake_ethertype_ipv4 := 0\<rparr> in
      if ac_policies cfg = [] then cfg
      else
        let has_encrypt = (\<exists>cp \<in> set (take MAX_CRYPTO_POLICIES (ac_policies cfg)). cp_action cp \<noteq> POLICY_ACTION_BYPASS);
            cfg = cfg\<lparr>ac_crypto_enabled := has_encrypt\<rparr>
        in if has_encrypt then cfg\<lparr>ac_fake_ethertype_ipv4 := NE_L2_FAKE_ETHERTYPE\<rparr> else cfg)"

definition db_verify_profile_id :: "db_answers \<Rightarrow> bool" where
  "db_verify_profile_id q = (case q_exists q of None \<Rightarrow> False | Some rows \<Rightarrow> rows \<noteq> [])"

definition db_load_lan_for_profile :: "app_config \<Rightarrow> db_answers \<Rightarrow> app_config option" where
  "db_load_lan_for_profile cfg q = (case q_lan q of None \<Rightarrow> None | Some rows \<Rightarrow> load_local_rows cfg rows)"

definition db_load_wan_for_profile :: "app_config \<Rightarrow> db_answers \<Rightarrow> app_config option" where
  "db_load_wan_for_profile cfg q = (case q_wan q of None \<Rightarrow> None | Some rows \<Rightarrow> load_wan_rows cfg rows)"

definition fetch_config_from_db :: "app_config \<Rightarrow> db_answers \<Rightarrow> app_config option" where
  "fetch_config_from_db cfg q =
     (if \<not> db_verify_profile_id q then None
      else case db_load_lan_for_profile cfg q of
          None \<Rightarrow> None
        | Some cfg \<Rightarrow> (case db_load_wan_for_profile cfg q of
              None \<Rightarrow> None
            | Some cfg \<Rightarrow> load_profiles_and_policies cfg q))"

definition empty_config :: app_config where
  "empty_config = \<lparr>ac_locals = [], ac_wans = [], ac_bpf_file = ''lib/lan.o'', ac_bpf_wan_file = ''lib/wan.o'',
     ac_crypto_enabled = False, ac_fake_ethertype_ipv4 = 0, ac_profiles = [], ac_policies = []\<rparr>"

text \<open>\<open>None\<close> for the connection stands for missing parameters or a connection that fails.\<close>

definition config_load_from_db :: "db_answers option \<Rightarrow> app_config option" where
  "config_load_from_db q =
     (case q of
        None \<Rightarrow> None
      | Some q \<Rightarrow>
          (case fetch_config_from_db empty_config q of
             None \<Rightarrow> None
           | Some cfg \<Rightarrow>
               let cfg = config_apply_crypto_from_policies cfg in
               if config_validate cfg then Some cfg else None))"

section \<open>Parsers\<close>

lemmas action_defs = Policy_Config.POLICY_ACTION_BYPASS_def Policy_Config.POLICY_ACTION_ENCRYPT_L2_def

text \<open>A range of ports is "any" or a proper range of 16-bit ports.\<close>

definition port_range_ok :: "int \<Rightarrow> int \<Rightarrow> bool" where
  "port_range_ok f t \<longleftrightarrow> f = -1 \<and> t = -1 \<or> 0 \<le> f \<and> f \<le> t \<and> t \<le> 65535"

lemma parse_port_range_ok: "parse_port_range v = Some (f, t) \<Longrightarrow> port_range_ok f t"
  by (auto simp: parse_port_range_def port_range_ok_def split: if_splits option.splits)

lemma ports_or_any_ok: "ports_or_any v = (f, t) \<Longrightarrow> port_range_ok f t"
  by (auto simp: ports_or_any_def port_range_ok_def dest: parse_port_range_ok split: option.splits)

lemma port_range_ok_wf: "port_range_ok f t \<Longrightarrow> ports_wf f t"
  by (auto simp: port_range_ok_def ports_wf_def)

lemma parse_action_cases: "parse_action_name v \<in> {-1, POLICY_ACTION_BYPASS, POLICY_ACTION_ENCRYPT_L2}"
  by (auto simp: parse_action_name_def split: option.splits)

lemma alloc_wire_policy_id_SomeD:
  assumes "alloc_wire_policy_id i used = Some (w, used')" "length used = 256" "used ! 0"
  shows "1 \<le> w" "w \<le> 255" "\<not> used ! nat w" "used' = used[nat w := True]"
proof -
  have "1 \<le> w \<and> w \<le> 255 \<and> \<not> used ! nat w \<and> used' = used[nat w := True]"
  proof (cases "i \<ge> 1 \<and> i \<le> 255 \<and> \<not> used ! nat i")
    case True then show ?thesis using assms(1) by (auto simp: alloc_wire_policy_id_def)
  next
    case False
    then obtain j where j: "find (\<lambda>j. \<not> used ! j) [1..<256] = Some j" "w = int j" "used' = used[j := True]"
      using assms(1) by (auto simp: alloc_wire_policy_id_def split: if_splits option.splits)
    then have "1 \<le> j" "j < 256" "\<not> used ! j" by (auto simp: find_Some_iff)
    then show ?thesis using j by simp
  qed
  then show "1 \<le> w" "w \<le> 255" "\<not> used ! nat w" "used' = used[nat w := True]" by auto
qed

text \<open>The allocation fails only when all 255 ids are taken.\<close>

lemma alloc_wire_policy_id_None: "alloc_wire_policy_id i used = None \<Longrightarrow> \<forall>j \<in> {1..255}. used ! j"
  by (auto simp: alloc_wire_policy_id_def find_None_iff split: if_splits option.splits)

section \<open>What a loaded configuration satisfies\<close>

text \<open>The policies that are loaded so far, with the flags of the wire ids: the ids of encrypting policies are taken, and a
  wire id stands for one row of the table.\<close>

definition policies_inv :: "crypto_policy list \<Rightarrow> bool list \<Rightarrow> bool" where
  "policies_inv ps used \<longleftrightarrow>
     length used = 256 \<and> used ! 0
     \<and> (\<forall>cp \<in> set ps. port_range_ok (cp_src_port_from cp) (cp_src_port_to cp)
          \<and> port_range_ok (cp_dst_port_from cp) (cp_dst_port_to cp))
     \<and> (\<forall>cp \<in> set ps. cp_action cp = POLICY_ACTION_BYPASS \<and> cp_id cp = 0
          \<or> cp_action cp = POLICY_ACTION_ENCRYPT_L2 \<and> 1 \<le> cp_id cp \<and> cp_id cp \<le> 255 \<and> used ! nat (cp_id cp))
     \<and> (\<forall>a \<in> set ps. \<forall>b \<in> set ps. cp_id a = cp_id b \<longrightarrow> cp_id a \<noteq> 0 \<longrightarrow> cp_db_id a = cp_db_id b)
     \<and> (\<forall>a \<in> set ps. \<forall>b \<in> set ps. cp_db_id a = cp_db_id b \<longrightarrow> cp_db_id a > 0
          \<longrightarrow> cp_id a = cp_id b \<and> cp_action a = cp_action b \<and> cp_priority a = cp_priority b)"

lemma policies_inv_Nil: "policies_inv [] wire_ids_init"
  by (simp add: policies_inv_def wire_ids_init_def)

text \<open>All policies of a row share these fields.\<close>

definition same_row :: "crypto_policy \<Rightarrow> crypto_policy \<Rightarrow> bool" where
  "same_row base cp \<longleftrightarrow> cp_id cp = cp_id base \<and> cp_db_id cp = cp_db_id base \<and> cp_action cp = cp_action base
     \<and> cp_priority cp = cp_priority base \<and> cp_protocol cp = cp_protocol base"

lemma policy_of_items_row:
  "same_row base (policy_of_items base is ds items)"
  "port_range_ok (cp_src_port_from (policy_of_items base is ds items)) (cp_src_port_to (policy_of_items base is ds items))"
  "port_range_ok (cp_dst_port_from (policy_of_items base is ds items)) (cp_dst_port_to (policy_of_items base is ds items))"
  by (auto simp: policy_of_items_def same_row_def dest: ports_or_any_ok split: prod.splits)

lemma policy_base_SomeD:
  assumes "policy_base r used = Some (base, used')" "length used = 256" "used ! 0"
  shows "length used' = 256" "used' ! 0" "\<And>j. used ! j \<Longrightarrow> used' ! j"
    "cp_action base = POLICY_ACTION_BYPASS \<and> cp_id base = 0
     \<or> cp_action base = POLICY_ACTION_ENCRYPT_L2 \<and> 1 \<le> cp_id base \<and> cp_id base \<le> 255 \<and> used' ! nat (cp_id base) \<and> \<not> used ! nat (cp_id base)"
proof -
  have "length used' = 256 \<and> used' ! 0 \<and> (\<forall>j. used ! j \<longrightarrow> used' ! j)
     \<and> (cp_action base = POLICY_ACTION_BYPASS \<and> cp_id base = 0
     \<or> cp_action base = POLICY_ACTION_ENCRYPT_L2 \<and> 1 \<le> cp_id base \<and> cp_id base \<le> 255 \<and> used' ! nat (cp_id base) \<and> \<not> used ! nat (cp_id base))"
  proof (cases "alloc_wire_policy_id (atoi (pq_value (po_id r))) used")
    case None
    then show ?thesis using assms by (auto simp: policy_base_def Let_def split: if_splits)
  next
    case (Some wu)
    then obtain w used'' where wu: "alloc_wire_policy_id (atoi (pq_value (po_id r))) used = Some (w, used'')" by (cases wu) auto
    note w = alloc_wire_policy_id_SomeD [OF wu assms(2,3)]
    have "nat w < length used" "nat w \<noteq> 0" using w assms(2) by auto
    then show ?thesis using assms wu w by (auto simp: policy_base_def Let_def nth_list_update split: if_splits)
  qed
  then show "length used' = 256" "used' ! 0" "\<And>j. used ! j \<Longrightarrow> used' ! j"
    "cp_action base = POLICY_ACTION_BYPASS \<and> cp_id base = 0
     \<or> cp_action base = POLICY_ACTION_ENCRYPT_L2 \<and> 1 \<le> cp_id base \<and> cp_id base \<le> 255 \<and> used' ! nat (cp_id base) \<and> \<not> used ! nat (cp_id base)"
    by blast+
qed

text \<open>Configuration and profile agree on the policies of the profile.\<close>

definition indices_ok :: "app_config \<Rightarrow> profile_config \<Rightarrow> bool" where
  "indices_ok cfg p \<longleftrightarrow> pf_policy_indices p = map int [0..<length (ac_policies cfg)] \<and> length (ac_policies cfg) \<le> MAX_CRYPTO_POLICIES"

text \<open>Loading policies touches nothing but the policies and their indices.\<close>

definition same_but_policies :: "app_config \<times> profile_config \<Rightarrow> app_config \<times> profile_config \<Rightarrow> bool" where
  "same_but_policies st st' \<longleftrightarrow>
     (\<exists>ps is. st' = (fst st\<lparr>ac_policies := ps\<rparr>, snd st\<lparr>pf_policy_indices := is\<rparr>))"

lemma same_but_policies_refl: "same_but_policies st st"
  unfolding same_but_policies_def
  by (rule exI [of _ "ac_policies (fst st)"], rule exI [of _ "pf_policy_indices (snd st)"]) (cases st, simp)

lemma same_but_policies_trans: "same_but_policies a b \<Longrightarrow> same_but_policies b c \<Longrightarrow> same_but_policies a c"
  by (auto simp: same_but_policies_def)

lemma add_policies_SomeD:
  "add_policies cps (cfg, p) = Some (cfg', p') \<Longrightarrow> indices_ok cfg p \<Longrightarrow>
     ac_policies cfg' = ac_policies cfg @ cps \<and> indices_ok cfg' p' \<and> same_but_policies (cfg, p) (cfg', p')"
proof (induction cps arbitrary: cfg p)
  case Nil then show ?case by (simp add: same_but_policies_refl)
next
  case (Cons cp cps)
  obtain c1 p1 where st: "add_policy cp (cfg, p) = Some (c1, p1)" and rest: "add_policies cps (c1, p1) = Some (cfg', p')"
    using Cons.prems(1) by (auto split: option.splits)
  have c1: "c1 = cfg\<lparr>ac_policies := ac_policies cfg @ [cp]\<rparr>"
    "p1 = p\<lparr>pf_policy_indices := pf_policy_indices p @ [int (length (ac_policies cfg))]\<rparr>" "length (ac_policies cfg) < MAX_CRYPTO_POLICIES"
    using st by (auto simp: add_policy_def split: if_splits)
  then have "indices_ok c1 p1" using Cons.prems(2) by (simp add: indices_ok_def)
  with Cons.IH [OF rest] c1 show ?case
    by (auto simp: same_but_policies_def)
qed

lemma add_policies_overflow:
  "indices_ok cfg p \<Longrightarrow> length (ac_policies cfg) + length cps > MAX_CRYPTO_POLICIES \<Longrightarrow> add_policies cps (cfg, p) = None"
proof (rule ccontr)
  assume a: "indices_ok cfg p" "length (ac_policies cfg) + length cps > MAX_CRYPTO_POLICIES" "add_policies cps (cfg, p) \<noteq> None"
  then obtain cfg' p' where "add_policies cps (cfg, p) = Some (cfg', p')" by fastforce
  from add_policies_SomeD [OF this a(1)]
  have "ac_policies cfg' = ac_policies cfg @ cps" "length (ac_policies cfg') \<le> MAX_CRYPTO_POLICIES" by (auto simp: indices_ok_def)
  then show False using a(2) by simp
qed

lemma ball_pairs_append:
  assumes "\<forall>a \<in> set xs. \<forall>b \<in> set xs. R a b" "\<And>a b. a \<in> set xs \<Longrightarrow> b \<in> set ys \<Longrightarrow> R a b \<and> R b a"
    and "\<And>a b. a \<in> set ys \<Longrightarrow> b \<in> set ys \<Longrightarrow> R a b"
  shows "\<forall>a \<in> set (xs @ ys). \<forall>b \<in> set (xs @ ys). R a b"
  using assms by auto

lemma policies_inv_append:
  assumes inv: "policies_inv ps used" and base: "policy_base r used = Some (base, used')"
    and new: "\<not> (cp_db_id base > 0 \<and> (\<exists>cp \<in> set ps. cp_db_id cp = cp_db_id base))"
    and cps: "cps = map (policy_of_items base is ds) items"
  shows "policies_inv (ps @ cps) used'"
proof -
  have u: "length used = 256" "used ! 0" using inv by (simp_all add: policies_inv_def)
  note b = policy_base_SomeD [OF base u]
  have rows: "same_row base cp \<and> port_range_ok (cp_src_port_from cp) (cp_src_port_to cp)
      \<and> port_range_ok (cp_dst_port_from cp) (cp_dst_port_to cp)" if "cp \<in> set cps" for cp
    using that by (auto simp: cps policy_of_items_row)
  have fresh: "cp_id cp \<noteq> cp_id base \<or> cp_id base = 0" if "cp \<in> set ps" for cp
    using inv that b(4) unfolding policies_inv_def by metis
  have old: "used' ! nat (cp_id cp)" if "used ! nat (cp_id cp)" for cp :: crypto_policy using b(3) that .
  let ?ids = "\<lambda>a b. cp_id a = cp_id b \<longrightarrow> cp_id a \<noteq> 0 \<longrightarrow> cp_db_id a = cp_db_id b"
  let ?dbs = "\<lambda>a b. cp_db_id a = cp_db_id b \<longrightarrow> cp_db_id a > 0
     \<longrightarrow> cp_id a = cp_id b \<and> cp_action a = cp_action b \<and> cp_priority a = cp_priority b"
  have ids: "\<forall>a \<in> set ps. \<forall>b \<in> set ps. ?ids a b" and dbs: "\<forall>a \<in> set ps. \<forall>b \<in> set ps. ?dbs a b"
    using inv unfolding policies_inv_def by blast+
  have "\<forall>a \<in> set (ps @ cps). \<forall>b \<in> set (ps @ cps). ?ids a b"
    by (rule ball_pairs_append [OF ids]) (use rows fresh in \<open>force simp: same_row_def\<close>)+
  moreover have "\<forall>a \<in> set (ps @ cps). \<forall>b \<in> set (ps @ cps). ?dbs a b"
    by (rule ball_pairs_append [OF dbs]) (use rows new in \<open>force simp: same_row_def\<close>)+
  moreover have "\<forall>cp \<in> set (ps @ cps). port_range_ok (cp_src_port_from cp) (cp_src_port_to cp)
          \<and> port_range_ok (cp_dst_port_from cp) (cp_dst_port_to cp)"
    using inv rows unfolding policies_inv_def set_append ball_Un by blast
  moreover have "\<forall>cp \<in> set (ps @ cps). cp_action cp = POLICY_ACTION_BYPASS \<and> cp_id cp = 0
      \<or> cp_action cp = POLICY_ACTION_ENCRYPT_L2 \<and> 1 \<le> cp_id cp \<and> cp_id cp \<le> 255 \<and> used' ! nat (cp_id cp)"
    using inv rows b(4) old unfolding policies_inv_def same_row_def set_append ball_Un by metis
  ultimately show ?thesis using b(1,2) unfolding policies_inv_def by blast
qed

lemma load_policy_row_SomeD:
  assumes "load_policy_row r (cfg, p, used) = Some (cfg', p', used')" "policies_inv (ac_policies cfg) used" "indices_ok cfg p"
  shows "policies_inv (ac_policies cfg') used' \<and> indices_ok cfg' p' \<and> same_but_policies (cfg, p) (cfg', p')"
proof -
  obtain base u1 where base: "policy_base r used = Some (base, u1)"
    using assms(1) by (auto simp: load_policy_row_def split: option.splits)
  then have fresh: "\<not> config_policy_db_id_taken cfg (cp_db_id base)"
    using assms(1) by (auto simp: load_policy_row_def split: if_splits)
  then obtain srcs dsts sps dps where
    add: "add_policies (map (policy_of_items base (pq_value (po_invert_src_ip r) = ''t'') (pq_value (po_invert_dst_ip r) = ''t''))
            (combinations srcs dsts sps dps)) (cfg, p) = Some (cfg', p')" and u: "used' = u1"
    using assms(1) base by (auto simp: load_policy_row_def split: option.splits)
  note a = add_policies_SomeD [OF add assms(3)]
  have new: "\<not> (cp_db_id base > 0 \<and> (\<exists>cp \<in> set (ac_policies cfg). cp_db_id cp = cp_db_id base))"
    using fresh by (auto simp: config_policy_db_id_taken_def)
  have "policies_inv (ac_policies cfg') u1"
    using policies_inv_append [OF assms(2) base new refl] a by simp
  then show ?thesis using a u by simp
qed

lemma load_policy_rows_SomeD:
  "load_policy_rows rs (cfg, p, used) = Some (cfg', p', used') \<Longrightarrow> policies_inv (ac_policies cfg) used \<Longrightarrow> indices_ok cfg p \<Longrightarrow>
     policies_inv (ac_policies cfg') used' \<and> indices_ok cfg' p' \<and> same_but_policies (cfg, p) (cfg', p')"
proof (induction rs arbitrary: cfg p used)
  case Nil then show ?case by (simp add: same_but_policies_refl)
next
  case (Cons r rs)
  obtain c1 p1 u1 where st: "load_policy_row r (cfg, p, used) = Some (c1, p1, u1)" and rest: "load_policy_rows rs (c1, p1, u1) = Some (cfg', p', used')"
    using Cons.prems(1) by (auto split: option.splits)
  note one = load_policy_row_SomeD [OF st Cons.prems(2,3)]
  then show ?case using Cons.IH [OF rest] same_but_policies_trans [of "(cfg, p)" "(c1, p1)" "(cfg', p')"] by simp
qed

text \<open>The ports of the profile are ports of the configuration, and its bridges join ports of the profile.\<close>

definition bridges_ok :: "app_config \<Rightarrow> profile_config \<Rightarrow> bool" where
  "bridges_ok cfg p \<longleftrightarrow>
     length (pf_bridges p) \<le> MAX_BRIDGES_PER_PROFILE
     \<and> distinct (map (\<lambda>b. (bp_local_idx b, bp_wan_dp b)) (pf_bridges p))
     \<and> (\<forall>b \<in> set (pf_bridges p). bp_local_idx b \<in> set (pf_local_indices p)
          \<and> (\<exists>wi \<in> set (pf_wan_indices p). config_wan_live cfg wi \<and> config_wan_cfg_to_dp cfg wi = bp_wan_dp b))"

definition profile_ports_ok :: "app_config \<Rightarrow> profile_config \<Rightarrow> bool" where
  "profile_ports_ok cfg p \<longleftrightarrow>
     length (pf_local_indices p) \<le> MAX_PROFILE_INTERFACES \<and> set (pf_local_indices p) \<subseteq> {0..<int (length (ac_locals cfg))}
     \<and> length (pf_wan_indices p) \<le> MAX_PROFILE_INTERFACES \<and> set (pf_wan_indices p) \<subseteq> {0..<wan_count cfg}
     \<and> length (pf_wan_bandwidth_weight p) = length (pf_wan_indices p) \<and> (\<forall>w \<in> set (pf_wan_bandwidth_weight p). w \<ge> 0)
     \<and> bridges_ok cfg p"

lemma index_of_range: "index_of P xs \<ge> 0 \<Longrightarrow> index_of P xs < int (length xs) \<and> P (xs ! nat (index_of P xs))"
  by (cases "find (\<lambda>i. P (xs ! i)) [0..<length xs]") (auto simp: index_of_def dest: find_Some_iff [THEN iffD1])

text \<open>A step of a loop that keeps an invariant keeps it over all rows.\<close>

lemma rows_keep: "(\<And>r p. I p \<Longrightarrow> I (f r p)) \<Longrightarrow> I p \<Longrightarrow> I (fold f rs p)"
  by (induction rs arbitrary: p) auto

lemma append_wan_keeps:
  "profile_ports_ok cfg p \<and> pf_bridges p = [] \<Longrightarrow> profile_ports_ok cfg (append_wan cfg r p) \<and> pf_bridges (append_wan cfg r p) = []"
  using index_of_range [of "\<lambda>w. wc_ifname w = pq_value (ww_ifname r)" "ac_wans cfg"]
  by (auto simp: append_wan_def profile_ports_ok_def bridges_ok_def Let_def find_wan_index_by_ifname_def wan_count_def row_weight_def
      split: option.splits)

lemma append_local_keeps:
  "profile_ports_ok cfg p \<and> pf_bridges p = [] \<Longrightarrow> profile_ports_ok cfg (append_local cfg r p) \<and> pf_bridges (append_local cfg r p) = []"
  using index_of_range [of "\<lambda>l. l = pq_value (lr_ifname r)" "ac_locals cfg"]
  by (auto simp: append_local_def profile_ports_ok_def bridges_ok_def Let_def find_local_index_by_ifname_def)

lemma load_bridge_pair_keeps: "profile_ports_ok cfg p \<Longrightarrow> profile_ports_ok cfg (load_bridge_pair cfg r p)"
  by (auto simp: load_bridge_pair_def profile_commit_bridge_pair_def profile_ports_ok_def bridges_ok_def Let_def
      config_wan_cfg_to_dp_def split: if_splits)

lemma profile_ports_ok_start: "profile_ports_ok cfg (profile_of_row r) \<and> pf_bridges (profile_of_row r) = []"
  by (simp add: profile_of_row_def profile_ports_ok_def bridges_ok_def)

lemma profile_rows_keep:
  "profile_ports_ok cfg p \<and> pf_bridges p = [] \<Longrightarrow>
     profile_ports_ok cfg (profile_append_wans_from_rows cfg ws p) \<and> pf_bridges (profile_append_wans_from_rows cfg ws p) = []"
  "profile_ports_ok cfg p \<and> pf_bridges p = [] \<Longrightarrow>
     profile_ports_ok cfg (profile_append_locals_from_rows cfg ls p) \<and> pf_bridges (profile_append_locals_from_rows cfg ls p) = []"
  "profile_ports_ok cfg p \<and> pf_bridges p = [] \<Longrightarrow> profile_ports_ok cfg (profile_load_bridge_pairs_from_db cfg bs p)"
proof -
  assume p: "profile_ports_ok cfg p \<and> pf_bridges p = []"
  show "profile_ports_ok cfg (profile_append_wans_from_rows cfg ws p) \<and> pf_bridges (profile_append_wans_from_rows cfg ws p) = []"
    using rows_keep [where I = "\<lambda>p. profile_ports_ok cfg p \<and> pf_bridges p = []" and f = "append_wan cfg", OF append_wan_keeps p] p
    by (auto simp: profile_append_wans_from_rows_def split: option.splits)
  show "profile_ports_ok cfg (profile_append_locals_from_rows cfg ls p) \<and> pf_bridges (profile_append_locals_from_rows cfg ls p) = []"
    using rows_keep [where I = "\<lambda>p. profile_ports_ok cfg p \<and> pf_bridges p = []" and f = "append_local cfg", OF append_local_keeps p] p
    by (auto simp: profile_append_locals_from_rows_def split: option.splits)
  have "profile_ports_ok cfg (p\<lparr>pf_bridges := []\<rparr>)" using p by (simp add: profile_ports_ok_def bridges_ok_def)
  from rows_keep [where I = "profile_ports_ok cfg" and f = "load_bridge_pair cfg", OF load_bridge_pair_keeps this] this
  show "profile_ports_ok cfg (profile_load_bridge_pairs_from_db cfg bs p)"
    by (auto simp: profile_load_bridge_pairs_from_db_def Let_def split: option.splits)
qed

lemma profile_rows_no_policies:
  "pf_policy_indices p = [] \<Longrightarrow> pf_policy_indices (profile_append_wans_from_rows cfg ws p) = []"
  "pf_policy_indices p = [] \<Longrightarrow> pf_policy_indices (profile_append_locals_from_rows cfg ls p) = []"
  "pf_policy_indices p = [] \<Longrightarrow> pf_policy_indices (profile_load_bridge_pairs_from_db cfg bs p) = []"
  by (auto simp: profile_append_wans_from_rows_def profile_append_locals_from_rows_def profile_load_bridge_pairs_from_db_def Let_def
      append_wan_def append_local_def load_bridge_pair_def profile_commit_bridge_pair_def split: option.splits
      intro!: rows_keep [where I = "\<lambda>p. pf_policy_indices p = []"])

text \<open>What \<open>config_load_from_db\<close> promises: one profile, whose policies are those of the configuration, in order; ports in
  range, actions and wire ids that fit; a wire id that names one row of the policy table, whose lists may stand for
  several policies; encryption switched on exactly when a policy encrypts.\<close>

definition loaded_ok :: "app_config \<Rightarrow> bool" where
  "loaded_ok cfg \<longleftrightarrow>
     (\<exists>p. ac_profiles cfg = [p] \<and> indices_ok cfg p \<and> profile_ports_ok cfg p)
     \<and> (\<exists>used. policies_inv (ac_policies cfg) used)
     \<and> ac_locals cfg \<noteq> [] \<and> length (ac_locals cfg) \<le> MAX_INTERFACES
     \<and> ac_wans cfg \<noteq> [] \<and> length (ac_wans cfg) \<le> MAX_INTERFACES
     \<and> (\<forall>l \<in> set (ac_locals cfg). l \<noteq> [] \<and> length l < IF_NAMESIZE)
     \<and> (\<forall>w \<in> set (ac_wans cfg). wc_ifname w \<noteq> [] \<and> length (wc_ifname w) < IF_NAMESIZE \<and> (wc_dataplane w \<longleftrightarrow> wc_dst_ip w = 0))
     \<and> (ac_crypto_enabled cfg \<longleftrightarrow> (\<exists>cp \<in> set (ac_policies cfg). cp_action cp = POLICY_ACTION_ENCRYPT_L2))
     \<and> ac_fake_ethertype_ipv4 cfg = (if ac_crypto_enabled cfg then NE_L2_FAKE_ETHERTYPE else 0)"

text \<open>The lists of policies and ports do not depend on the two fields that are set afterwards.\<close>

lemma apply_crypto_fields [simp]:
  "ac_locals (config_apply_crypto_from_policies cfg) = ac_locals cfg"
  "ac_wans (config_apply_crypto_from_policies cfg) = ac_wans cfg"
  "ac_profiles (config_apply_crypto_from_policies cfg) = ac_profiles cfg"
  "ac_policies (config_apply_crypto_from_policies cfg) = ac_policies cfg"
  by (simp_all add: config_apply_crypto_from_policies_def Let_def)

lemma ports_ok_cong:
  assumes "ac_locals c = ac_locals cfg" "ac_wans c = ac_wans cfg"
    and "pf_local_indices q = pf_local_indices p" "pf_wan_indices q = pf_wan_indices p"
    and "pf_wan_bandwidth_weight q = pf_wan_bandwidth_weight p" "pf_bridges q = pf_bridges p"
  shows "profile_ports_ok c q = profile_ports_ok cfg p"
proof -
  have live: "config_wan_live c = config_wan_live cfg" using assms by (simp add: fun_eq_iff config_wan_live_def wan_count_def)
  have "config_wan_cfg_to_dp c = config_wan_cfg_to_dp cfg" by (simp add: fun_eq_iff config_wan_cfg_to_dp_def live)
  then show ?thesis using assms live by (simp add: profile_ports_ok_def bridges_ok_def wan_count_def)
qed

lemma apply_crypto_enabled:
  assumes "policies_inv (ac_policies cfg) used" "length (ac_policies cfg) \<le> MAX_CRYPTO_POLICIES"
  shows "ac_crypto_enabled (config_apply_crypto_from_policies cfg) \<longleftrightarrow> (\<exists>cp \<in> set (ac_policies cfg). cp_action cp = POLICY_ACTION_ENCRYPT_L2)"
    and "ac_fake_ethertype_ipv4 (config_apply_crypto_from_policies cfg)
           = (if ac_crypto_enabled (config_apply_crypto_from_policies cfg) then NE_L2_FAKE_ETHERTYPE else 0)"
proof -
  have "\<forall>cp \<in> set (ac_policies cfg). cp_action cp = POLICY_ACTION_BYPASS \<or> cp_action cp = POLICY_ACTION_ENCRYPT_L2"
    using assms(1) unfolding policies_inv_def by blast
  moreover have "POLICY_ACTION_BYPASS \<noteq> POLICY_ACTION_ENCRYPT_L2" by (simp add: action_defs)
  ultimately have "(\<exists>cp \<in> set (ac_policies cfg). cp_action cp \<noteq> POLICY_ACTION_BYPASS) \<longleftrightarrow> (\<exists>cp \<in> set (ac_policies cfg). cp_action cp = POLICY_ACTION_ENCRYPT_L2)"
    by metis
  then show "ac_crypto_enabled (config_apply_crypto_from_policies cfg) \<longleftrightarrow> (\<exists>cp \<in> set (ac_policies cfg). cp_action cp = POLICY_ACTION_ENCRYPT_L2)"
    using assms(2) by (simp add: config_apply_crypto_from_policies_def Let_def)
  show "ac_fake_ethertype_ipv4 (config_apply_crypto_from_policies cfg)
      = (if ac_crypto_enabled (config_apply_crypto_from_policies cfg) then NE_L2_FAKE_ETHERTYPE else 0)"
    by (simp add: config_apply_crypto_from_policies_def Let_def)
qed

lemma load_profiles_and_policies_steps:
  assumes "load_profiles_and_policies c q = Some cfg" "ac_policies c = []"
  obtains rows p c' p' used where "q_policies q = Some rows" "load_policy_rows rows (c, p, wire_ids_init) = Some (c', p', used)"
    "cfg = c'\<lparr>ac_profiles := ac_profiles c' @ [p']\<rparr>" "profile_ports_ok c p" "policies_inv (ac_policies c) wire_ids_init" "indices_ok c p"
proof -
  obtain r rs rows where r: "q_profile q = Some (r # rs)" and rows: "q_policies q = Some rows"
    using assms(1) by (auto simp: load_profiles_and_policies_def Let_def split: option.splits list.splits)
  define p where "p = profile_load_bridge_pairs_from_db c (q_bridges q)
      (profile_append_locals_from_rows c (q_profile_lan q) (profile_append_wans_from_rows c (q_wan_weight q) (profile_of_row r)))"
  obtain c' p' used where load: "load_policy_rows rows (c, p, wire_ids_init) = Some (c', p', used)" "cfg = c'\<lparr>ac_profiles := ac_profiles c' @ [p']\<rparr>"
    using assms(1) r rows by (auto simp: load_profiles_and_policies_def Let_def p_def split: option.splits)
  have "profile_ports_ok c p" unfolding p_def by (intro profile_rows_keep profile_ports_ok_start)
  moreover have "pf_policy_indices p = []" unfolding p_def by (intro profile_rows_no_policies) (simp add: profile_of_row_def)
  then have "indices_ok c p" using assms(2) by (simp add: indices_ok_def)
  moreover have "policies_inv (ac_policies c) wire_ids_init" using assms(2) by (simp add: policies_inv_Nil)
  ultimately show ?thesis using that rows load by blast
qed

lemma load_profiles_and_policies_SomeD:
  assumes "load_profiles_and_policies c q = Some cfg" "ac_profiles c = []" "ac_policies c = []"
  shows "ac_locals cfg = ac_locals c \<and> ac_wans cfg = ac_wans c
     \<and> (\<exists>p used. ac_profiles cfg = [p] \<and> indices_ok cfg p \<and> profile_ports_ok cfg p \<and> policies_inv (ac_policies cfg) used)"
proof -
  from assms(1,3) obtain rows p c' p' used where s: "q_policies q = Some rows" "load_policy_rows rows (c, p, wire_ids_init) = Some (c', p', used)"
    "cfg = c'\<lparr>ac_profiles := ac_profiles c' @ [p']\<rparr>" "profile_ports_ok c p" "policies_inv (ac_policies c) wire_ids_init" "indices_ok c p"
    by (rule load_profiles_and_policies_steps)
  note l = load_policy_rows_SomeD [OF s(2,5,6)]
  then have same: "ac_locals c' = ac_locals c" "ac_wans c' = ac_wans c" "ac_profiles c' = []"
    "pf_local_indices p' = pf_local_indices p" "pf_wan_indices p' = pf_wan_indices p"
    "pf_wan_bandwidth_weight p' = pf_wan_bandwidth_weight p" "pf_bridges p' = pf_bridges p"
    using assms(2) by (auto simp: same_but_policies_def)
  have "profile_ports_ok cfg p' = profile_ports_ok c p" using same s(3) by (intro ports_ok_cong) simp_all
  then show ?thesis using same l s(3,4) by (auto simp: indices_ok_def)
qed

lemma load_rows_SomeD:
  "load_local_rows c rows = Some c' \<Longrightarrow> ac_locals c = [] \<Longrightarrow>
     ac_locals c' \<noteq> [] \<and> length (ac_locals c') \<le> MAX_INTERFACES \<and> (\<forall>l \<in> set (ac_locals c'). l \<noteq> [] \<and> length l < IF_NAMESIZE)
     \<and> c' = c\<lparr>ac_locals := ac_locals c'\<rparr>"
  "load_wan_rows c wrows = Some c' \<Longrightarrow> ac_wans c = [] \<Longrightarrow>
     ac_wans c' \<noteq> [] \<and> length (ac_wans c') \<le> MAX_INTERFACES
     \<and> (\<forall>w \<in> set (ac_wans c'). wc_ifname w \<noteq> [] \<and> length (wc_ifname w) < IF_NAMESIZE \<and> (wc_dataplane w \<longleftrightarrow> wc_dst_ip w = 0))
     \<and> c' = c\<lparr>ac_wans := ac_wans c'\<rparr>"
  by (auto simp: load_local_rows_def load_wan_rows_def wan_of_row_def Let_def IF_NAMESIZE_def split: if_splits option.splits)

text \<open>The stages of a load that succeeds.\<close>

lemma config_load_from_db_stages:
  assumes "config_load_from_db q = Some cfg"
  obtains a c c2 where "q = Some a" "cfg = config_apply_crypto_from_policies c" "load_profiles_and_policies c2 a = Some c"
    "ac_profiles c2 = []" "ac_policies c2 = []"
    "ac_locals c2 \<noteq> []" "length (ac_locals c2) \<le> MAX_INTERFACES" "\<forall>l \<in> set (ac_locals c2). l \<noteq> [] \<and> length l < IF_NAMESIZE"
    "ac_wans c2 \<noteq> []" "length (ac_wans c2) \<le> MAX_INTERFACES"
    "\<forall>w \<in> set (ac_wans c2). wc_ifname w \<noteq> [] \<and> length (wc_ifname w) < IF_NAMESIZE \<and> (wc_dataplane w \<longleftrightarrow> wc_dst_ip w = 0)"
proof -
  obtain a c where q: "q = Some a" and fetch: "fetch_config_from_db empty_config a = Some c" and cfg: "cfg = config_apply_crypto_from_policies c"
    using assms by (auto simp: config_load_from_db_def Let_def split: option.splits if_splits)
  obtain lans c1 where l: "load_local_rows empty_config lans = Some c1"
      "fetch_config_from_db empty_config a = (case db_load_wan_for_profile c1 a of None \<Rightarrow> None | Some cfg \<Rightarrow> load_profiles_and_policies cfg a)"
    using fetch by (auto simp: fetch_config_from_db_def db_load_lan_for_profile_def split: option.splits if_splits)
  then obtain wans c2 where w: "load_wan_rows c1 wans = Some c2" and p: "load_profiles_and_policies c2 a = Some c"
    using fetch by (auto simp: db_load_wan_for_profile_def split: option.splits)
  have e: "ac_locals empty_config = []" "ac_wans empty_config = []" "ac_profiles empty_config = []" "ac_policies empty_config = []"
    by (simp_all add: empty_config_def)
  note l = load_rows_SomeD(1) [OF l(1) e(1)]
  then have c1: "ac_wans c1 = []" "ac_profiles c1 = []" "ac_policies c1 = []" by (metis app_config.select_convs app_config.surjective app_config.update_convs(1) e)+
  note w = load_rows_SomeD(2) [OF w c1(1)]
  then have c2: "ac_profiles c2 = []" "ac_policies c2 = []" "ac_locals c2 = ac_locals c1"
    by (metis app_config.select_convs app_config.surjective app_config.update_convs(2) c1)+
  show ?thesis by (rule that [OF q cfg p c2(1,2)]) (use l w c2(3) in simp_all)
qed

lemma loaded_config_ok_aux:
  assumes "config_load_from_db q = Some cfg"
  shows "loaded_ok cfg"
proof -
  from assms obtain a c c2 where st: "cfg = config_apply_crypto_from_policies c" "load_profiles_and_policies c2 a = Some c"
    "ac_profiles c2 = []" "ac_policies c2 = []"
    "ac_locals c2 \<noteq> []" "length (ac_locals c2) \<le> MAX_INTERFACES" "\<forall>l \<in> set (ac_locals c2). l \<noteq> [] \<and> length l < IF_NAMESIZE"
    "ac_wans c2 \<noteq> []" "length (ac_wans c2) \<le> MAX_INTERFACES"
    "\<forall>w \<in> set (ac_wans c2). wc_ifname w \<noteq> [] \<and> length (wc_ifname w) < IF_NAMESIZE \<and> (wc_dataplane w \<longleftrightarrow> wc_dst_ip w = 0)"
    by (rule config_load_from_db_stages)
  note cfg = st(1)
  from load_profiles_and_policies_SomeD [OF st(2-4)]
  obtain pf used where f: "ac_locals c = ac_locals c2" "ac_wans c = ac_wans c2" "ac_profiles c = [pf]" "indices_ok c pf"
      "profile_ports_ok c pf" "policies_inv (ac_policies c) used" by blast
  have "profile_ports_ok cfg pf = profile_ports_ok c pf" unfolding cfg by (rule ports_ok_cong) simp_all
  moreover note apply_crypto_enabled [OF f(6)]
  moreover have "indices_ok cfg pf" using f(4) by (simp add: indices_ok_def cfg)
  ultimately show ?thesis unfolding loaded_ok_def
    using f st(5-) by (auto simp: cfg indices_ok_def)
qed

subsection \<open>Property: a loaded configuration is well formed\<close>

text \<open>C16: Whatever the database answers, a configuration that \<open>config_load_from_db\<close> accepts is well formed: one profile that
  owns all policies, at most 128 of them; every port range is "any" or a proper range of 16-bit ports; a policy either
  bypasses with wire id 0 or encrypts with a wire id of 1 to 255, and policies with one wire id come from one row of the
  policy table and share its priority; ports, weights and bridge pairs of the profile refer to ports that were loaded, no
  bridge pair twice; a WAN belongs to the data path exactly when it has no target address; and encryption is on, with its
  ethertype, exactly when some policy encrypts.\<close>

theorem loaded_config_ok:
  assumes "config_load_from_db q = Some cfg"
  shows "loaded_ok cfg"
  by (rule loaded_config_ok_aux [OF assms])

text \<open>A profile with one LAN and one WAN port, a bridge between them, and two policies: one with lists, one that bypasses.\<close>

definition demo_policy_row :: policy_row where
  "demo_policy_row = \<lparr>po_id = Some ''300'', po_priority = Some ''10'', po_action = Some ''L2'', po_proto = Some ''tcp'',
     po_src_ip = Some ''10.1.0.0/16, 10.2.0.0/16'', po_invert_src_ip = Some ''f'', po_dst_ip = None, po_invert_dst_ip = Some ''f'',
     po_src_port = None, po_dst_port = Some ''443,8000-8100''\<rparr>"

definition demo_answers :: db_answers where
  "demo_answers = \<lparr>q_exists = Some [()], q_lan = Some [\<lparr>lr_ifname = Some ''lan0''\<rparr>],
     q_wan = Some [\<lparr>wr_ifname = Some ''wan0'', wr_dst_ip = None\<rparr>],
     q_profile = Some [\<lparr>pr_id = Some ''7'', pr_name = Some ''site'', pr_enabled = Some ''1'', pr_bridge_enable = Some ''t''\<rparr>],
     q_wan_weight = Some [\<lparr>ww_ifname = Some ''wan0'', ww_weight = Some ''50''\<rparr>],
     q_profile_lan = Some [\<lparr>lr_ifname = Some ''lan0''\<rparr>],
     q_bridges = Some [\<lparr>br_bridge_name = Some ''br0'', br_lan_if = Some ''lan0'', br_wan_if = Some ''wan0''\<rparr>],
     q_policies = Some [demo_policy_row, demo_policy_row\<lparr>po_id := Some ''8'', po_priority := Some ''20'', po_action := Some ''BYPASS'', po_src_ip := None\<rparr>]\<rparr>"

theorem loaded_config_ok_witness:
  "\<exists>cfg. config_load_from_db (Some demo_answers) = Some cfg \<and> loaded_ok cfg \<and> map cp_id (ac_policies cfg) = [1, 1, 1, 1, 0, 0]"
proof -
  have "map_option (\<lambda>cfg. map cp_id (ac_policies cfg)) (config_load_from_db (Some demo_answers)) = Some [1, 1, 1, 1, 0, 0]"
    by code_simp
  then show ?thesis using loaded_config_ok by fastforce
qed

section \<open>What a row of the policy table means\<close>

text \<open>An item of an address list, and an item of a port list, as the loaded policies take them. An item that does not
  parse counts as "any".\<close>

definition address_item :: "bool \<Rightarrow> u32 \<Rightarrow> string \<Rightarrow> bool" where
  "address_item invert ip item =
     (case cidr_or_any item invert of (any, neg, net, msk) \<Rightarrow> any \<or> (if neg then ip AND msk \<noteq> net AND msk else ip AND msk = net AND msk))"

definition port_item :: "u16 \<Rightarrow> string \<Rightarrow> bool" where
  "port_item port item = (case ports_or_any item of (f, t) \<Rightarrow> f = -1 \<or> f \<le> uint port \<and> uint port \<le> t)"

definition list_items :: "string option \<Rightarrow> string list" where
  "list_items v = (case ne_fill_nullable_list v MAX_CIDR_LIST_ITEMS of Some items \<Rightarrow> items | None \<Rightarrow> [])"

lemma port_range_test: "port_range_ok f t \<Longrightarrow> (f \<ge> 0 \<and> t \<ge> 0 \<and> (x < f \<or> x > t)) \<longleftrightarrow> \<not> (f = -1 \<or> f \<le> x \<and> x \<le> t)"
  by (auto simp: port_range_ok_def)

lemma match_packet_conj:
  "crypto_policy_match_packet cp src_ip dst_ip src_port dst_port protocol
     \<longleftrightarrow> proto_ok (cp_protocol cp) protocol
       \<and> cidr_match_with_negate (cp_src_any cp) (cp_src_negate cp) src_ip (cp_src_net cp) (cp_src_mask cp)
       \<and> cidr_match_with_negate (cp_dst_any cp) (cp_dst_negate cp) dst_ip (cp_dst_net cp) (cp_dst_mask cp)
       \<and> \<not> (cp_src_port_from cp \<ge> 0 \<and> cp_src_port_to cp \<ge> 0 \<and> (uint src_port < cp_src_port_from cp \<or> uint src_port > cp_src_port_to cp))
       \<and> \<not> (cp_dst_port_from cp \<ge> 0 \<and> cp_dst_port_to cp \<ge> 0 \<and> (uint dst_port < cp_dst_port_from cp \<or> uint dst_port > cp_dst_port_to cp))"
proof -
  let ?p = "cp_protocol cp"
  have ifs: "(if a then False else if b then False else if c then False else if d then False else if e then False else if f then False else True)
      \<longleftrightarrow> (\<not> a \<and> \<not> b) \<and> \<not> c \<and> \<not> d \<and> \<not> e \<and> \<not> f" for a b c d e f by simp
  have proto: "\<not> (?p = POLICY_PROTO_TCP_UDP \<and> protocol \<noteq> 6 \<and> protocol \<noteq> 17)
      \<and> \<not> (?p \<noteq> POLICY_PROTO_TCP_UDP \<and> ?p \<noteq> POLICY_PROTO_ANY \<and> ?p \<noteq> protocol) \<longleftrightarrow> proto_ok ?p protocol"
    by (auto simp: proto_ok_def)
  show ?thesis unfolding crypto_policy_match_packet_def ifs proto not_not ..
qed

lemma address_item_cidr:
  "cidr_or_any item invert = (any, neg, net, msk) \<Longrightarrow> address_item invert ip item = cidr_match_with_negate any neg ip net msk"
  by (simp add: address_item_def cidr_match_with_negate_def Let_def)

lemma policy_of_items_match:
  "crypto_policy_match_packet (policy_of_items base is ds (s, d, sp, dp)) src_ip dst_ip src_port dst_port protocol
     \<longleftrightarrow> proto_ok (cp_protocol base) protocol \<and> address_item is src_ip s \<and> address_item ds dst_ip d \<and> port_item src_port sp \<and> port_item dst_port dp"
proof -
  obtain sf st df dt where p: "ports_or_any sp = (sf, st)" "ports_or_any dp = (df, dt)" by (metis prod.exhaust)
  obtain sa sn sN sM da dn dN dM where c: "cidr_or_any s is = (sa, sn, sN, sM)" "cidr_or_any d ds = (da, dn, dN, dM)" by (metis prod.exhaust)
  note r = port_range_test [OF ports_or_any_ok [OF p(1)]] port_range_test [OF ports_or_any_ok [OF p(2)]]
  let ?cp = "policy_of_items base is ds (s, d, sp, dp)"
  have f: "cp_protocol ?cp = cp_protocol base" "cp_src_port_from ?cp = sf" "cp_src_port_to ?cp = st" "cp_dst_port_from ?cp = df"
    "cp_dst_port_to ?cp = dt" "cp_src_any ?cp = sa" "cp_src_negate ?cp = sn" "cp_src_net ?cp = sN" "cp_src_mask ?cp = sM"
    "cp_dst_any ?cp = da" "cp_dst_negate ?cp = dn" "cp_dst_net ?cp = dN" "cp_dst_mask ?cp = dM"
    by (simp_all add: policy_of_items_def p c)
  show ?thesis
    unfolding match_packet_conj address_item_cidr [OF c(1)] address_item_cidr [OF c(2)] port_item_def p prod.case f r not_not ..
qed

lemma set_combinations: "set (combinations as bs cs ds) = {(a, b, c, d). a \<in> set as \<and> b \<in> set bs \<and> c \<in> set cs \<and> d \<in> set ds}"
  by (auto simp: combinations_def)

text \<open>A packet against a row: an alternative of each of the four lists must fit.\<close>

definition row_matches :: "policy_row \<Rightarrow> u32 \<Rightarrow> u32 \<Rightarrow> u16 \<Rightarrow> u16 \<Rightarrow> u8 \<Rightarrow> bool" where
  "row_matches r src_ip dst_ip src_port dst_port protocol \<longleftrightarrow>
     proto_ok (parse_protocol_name (po_proto r)) protocol
     \<and> (\<exists>s \<in> set (list_items (po_src_ip r)). address_item (pq_value (po_invert_src_ip r) = ''t'') src_ip s)
     \<and> (\<exists>d \<in> set (list_items (po_dst_ip r)). address_item (pq_value (po_invert_dst_ip r) = ''t'') dst_ip d)
     \<and> (\<exists>sp \<in> set (list_items (po_src_port r)). port_item src_port sp)
     \<and> (\<exists>dp \<in> set (list_items (po_dst_port r)). port_item dst_port dp)"

definition row_key :: "policy_row \<Rightarrow> int \<times> int \<times> int" where
  "row_key r = (atoi (pq_value (po_id r)), atoi (pq_value (po_priority r)), parse_action_name (Some (pq_value (po_action r))))"

definition policy_key :: "crypto_policy \<Rightarrow> int \<times> int \<times> int" where
  "policy_key cp = (cp_db_id cp, cp_priority cp, cp_action cp)"

lemma policy_base_key:
  "policy_base r used = Some (base, used') \<Longrightarrow> policy_key base = row_key r \<and> cp_protocol base = parse_protocol_name (po_proto r)"
  using parse_action_cases [of "Some (pq_value (po_action r))"]
  by (auto simp: policy_base_def policy_key_def row_key_def Let_def split: if_splits option.splits)

text \<open>The policies of the list that match a packet, seen by row, priority and action.\<close>

abbreviation matching_keys :: "crypto_policy list \<Rightarrow> u32 \<Rightarrow> u32 \<Rightarrow> u16 \<Rightarrow> u16 \<Rightarrow> u8 \<Rightarrow> (int \<times> int \<times> int) set" where
  "matching_keys cps src_ip dst_ip src_port dst_port protocol \<equiv>
     policy_key ` {cp \<in> set cps. crypto_policy_match_packet cp src_ip dst_ip src_port dst_port protocol}"

abbreviation matching_row_keys :: "policy_row list \<Rightarrow> u32 \<Rightarrow> u32 \<Rightarrow> u16 \<Rightarrow> u16 \<Rightarrow> u8 \<Rightarrow> (int \<times> int \<times> int) set" where
  "matching_row_keys rows src_ip dst_ip src_port dst_port protocol \<equiv>
     row_key ` {r \<in> set rows. row_matches r src_ip dst_ip src_port dst_port protocol}"

lemma load_policy_row_meaning:
  assumes "load_policy_row r (cfg, p, used) = Some (cfg', p', used')" "indices_ok cfg p"
  shows "matching_keys (ac_policies cfg') src_ip dst_ip src_port dst_port protocol
    = matching_keys (ac_policies cfg) src_ip dst_ip src_port dst_port protocol \<union> matching_row_keys [r] src_ip dst_ip src_port dst_port protocol"
proof -
  let ?is = "pq_value (po_invert_src_ip r) = ''t''" and ?ds = "pq_value (po_invert_dst_ip r) = ''t''"
  obtain base u1 where base: "policy_base r used = Some (base, u1)" "\<not> config_policy_db_id_taken cfg (cp_db_id base)"
    using assms(1) by (auto simp: load_policy_row_def split: option.splits if_splits)
  obtain srcs dsts sps dps where
    lists: "list_items (po_src_ip r) = srcs" "list_items (po_dst_ip r) = dsts" "list_items (po_src_port r) = sps" "list_items (po_dst_port r) = dps"
    and add: "add_policies (map (policy_of_items base ?is ?ds) (combinations srcs dsts sps dps)) (cfg, p) = Some (cfg', p')"
    using assms(1) base by (auto simp: load_policy_row_def list_items_def split: option.splits)
  let ?cps = "map (policy_of_items base ?is ?ds) (combinations srcs dsts sps dps)"
  have "policy_key cp = row_key r" if "cp \<in> set ?cps" for cp
    using that policy_of_items_row(1) [of base ?is ?ds] policy_base_key [OF base(1)] by (auto simp: policy_key_def same_row_def)
  moreover have "(\<exists>cp \<in> set ?cps. crypto_policy_match_packet cp src_ip dst_ip src_port dst_port protocol)
      \<longleftrightarrow> row_matches r src_ip dst_ip src_port dst_port protocol"
    using policy_base_key [OF base(1)] by (simp add: row_matches_def lists set_combinations Bex_def policy_of_items_match) blast
  ultimately have "matching_keys ?cps src_ip dst_ip src_port dst_port protocol = matching_row_keys [r] src_ip dst_ip src_port dst_port protocol"
    by (auto simp: image_iff)
  moreover have "ac_policies cfg' = ac_policies cfg @ ?cps" using add_policies_SomeD [OF add assms(2)] by simp
  ultimately show ?thesis by (simp only: set_append Un_iff Collect_disj_eq image_Un conj_disj_distribR)
qed

lemma load_policy_rows_meaning:
  "load_policy_rows rs (cfg, p, used) = Some (cfg', p', used') \<Longrightarrow> policies_inv (ac_policies cfg) used \<Longrightarrow> indices_ok cfg p \<Longrightarrow>
     matching_keys (ac_policies cfg') src_ip dst_ip src_port dst_port protocol
    = matching_keys (ac_policies cfg) src_ip dst_ip src_port dst_port protocol \<union> matching_row_keys rs src_ip dst_ip src_port dst_port protocol"
proof (induction rs arbitrary: cfg p used)
  case Nil then show ?case by simp
next
  case (Cons r rs)
  obtain c1 p1 u1 where st: "load_policy_row r (cfg, p, used) = Some (c1, p1, u1)" and rest: "load_policy_rows rs (c1, p1, u1) = Some (cfg', p', used')"
    using Cons.prems(1) by (auto split: option.splits)
  have "policies_inv (ac_policies c1) u1" "indices_ok c1 p1" using load_policy_row_SomeD [OF st Cons.prems(2,3)] by simp_all
  from Cons.IH [OF rest this] load_policy_row_meaning [OF st Cons.prems(3)] show ?case by auto
qed

lemma loaded_policies_keys:
  assumes "config_load_from_db (Some q) = Some cfg" "q_policies q = Some rows"
  shows "matching_keys (ac_policies cfg) src_ip dst_ip src_port dst_port protocol = matching_row_keys rows src_ip dst_ip src_port dst_port protocol"
proof -
  from assms(1) obtain c c2 where c: "cfg = config_apply_crypto_from_policies c" "load_profiles_and_policies c2 q = Some c" "ac_policies c2 = []"
    by (rule config_load_from_db_stages) auto
  from c(2,3) obtain rows' p c' p' used where s: "q_policies q = Some rows'" "load_policy_rows rows' (c2, p, wire_ids_init) = Some (c', p', used)"
    "c = c'\<lparr>ac_profiles := ac_profiles c' @ [p']\<rparr>" "policies_inv (ac_policies c2) wire_ids_init" "indices_ok c2 p"
    by (rule load_profiles_and_policies_steps)
  from load_policy_rows_meaning [OF s(2,4,5)] show ?thesis using s(1,3) assms(2) c(1,3) by simp
qed

lemma loaded_profile_policies:
  assumes "loaded_ok cfg"
  shows "profile_policies cfg (hd (ac_profiles cfg)) = ac_policies cfg" "length (ac_profiles cfg) = 1"
proof -
  obtain p where p: "ac_profiles cfg = [p]" "indices_ok cfg p" using assms unfolding loaded_ok_def by blast
  have "map (\<lambda>i. ac_policies cfg ! nat i) (map int [0..<length (ac_policies cfg)]) = ac_policies cfg"
    by (rule nth_equalityI) simp_all
  moreover have "filter (\<lambda>i. \<not> (i < 0 \<or> i \<ge> int (length (ac_policies cfg)))) (map int [0..<length (ac_policies cfg)])
      = map int [0..<length (ac_policies cfg)]" by (rule filter_True) auto
  ultimately show "profile_policies cfg (hd (ac_profiles cfg)) = ac_policies cfg"
    using p by (simp add: profile_policies_def indices_ok_def)
  show "length (ac_profiles cfg) = 1" using p by simp
qed

text \<open>Of a row only the text of its id, its priority and its action are looked at afterwards.\<close>

abbreviation "key_priority k \<equiv> fst (snd k)"

subsection \<open>Property: from the rows of the table to the policy of a packet\<close>

text \<open>C14: The policy that is selected for a packet is the one that the table asks for: after a load there is a policy for
  the packet exactly when a row of the policy table matches it, where a row matches when its protocol fits and one item of
  each of its four lists does; the selected policy carries the id, the priority and the action of a matching row, and no
  matching row has a smaller priority number.\<close>

theorem selected_policy_is_best_row:
  assumes "config_load_from_db (Some q) = Some cfg" "q_policies q = Some rows"
  shows "case config_select_crypto_policy cfg 0 src_ip dst_ip src_port dst_port protocol of
      None \<Rightarrow> (\<forall>r \<in> set rows. \<not> row_matches r src_ip dst_ip src_port dst_port protocol)
    | Some cp \<Rightarrow> (\<exists>r \<in> set rows. row_matches r src_ip dst_ip src_port dst_port protocol \<and> policy_key cp = row_key r)
        \<and> (\<forall>r \<in> set rows. row_matches r src_ip dst_ip src_port dst_port protocol \<longrightarrow> cp_priority cp \<le> key_priority (row_key r))"
proof -
  let ?M = "\<lambda>cp. crypto_policy_match_packet cp src_ip dst_ip src_port dst_port protocol"
  let ?R = "\<lambda>r. row_matches r src_ip dst_ip src_port dst_port protocol"
  note ok = loaded_profile_policies [OF loaded_config_ok_aux [OF assms(1)]]
  have keys: "policy_key ` {cp \<in> set (ac_policies cfg). ?M cp} = row_key ` {r \<in> set rows. ?R r}"
    by (rule loaded_policies_keys [OF assms])
  have "ac_profiles cfg ! 0 = hd (ac_profiles cfg)" using ok(2) by (cases "ac_profiles cfg") auto
  then have sel: "(config_select_crypto_policy cfg 0 src_ip dst_ip src_port dst_port protocol = None \<longleftrightarrow> (\<forall>cp \<in> set (ac_policies cfg). \<not> ?M cp))
      \<and> (\<forall>cp. config_select_crypto_policy cfg 0 src_ip dst_ip src_port dst_port protocol = Some cp
           \<longrightarrow> cp \<in> set (ac_policies cfg) \<and> ?M cp \<and> (\<forall>cp' \<in> set (ac_policies cfg). ?M cp' \<longrightarrow> policy_le cp cp'))"
    using config_select_crypto_policy_correct [of 0 cfg src_ip dst_ip src_port dst_port protocol] ok by (simp add: Let_def)
  show ?thesis
  proof (cases "config_select_crypto_policy cfg 0 src_ip dst_ip src_port dst_port protocol")
    case None
    then have "{cp \<in> set (ac_policies cfg). ?M cp} = {}" using sel by blast
    then show ?thesis using None keys by auto
  next
    case (Some cp)
    then have cp: "cp \<in> set (ac_policies cfg)" "?M cp" "\<forall>cp' \<in> set (ac_policies cfg). ?M cp' \<longrightarrow> policy_le cp cp'" using sel by blast+
    have "policy_key cp \<in> row_key ` {r \<in> set rows. ?R r}" using cp keys by blast
    moreover have "cp_priority cp \<le> key_priority (row_key r)" if "r \<in> set rows" "?R r" for r
    proof -
      have "row_key r \<in> policy_key ` {cp \<in> set (ac_policies cfg). ?M cp}" unfolding keys using that by blast
      then obtain cp' where cp': "cp' \<in> set (ac_policies cfg)" "?M cp'" "row_key r = policy_key cp'" by blast
      then have "policy_le cp cp'" using cp(3) by blast
      then show ?thesis unfolding cp'(3) by (auto simp: policy_le_def policy_key_def)
    qed
    ultimately show ?thesis using Some by auto
  qed
qed

text \<open>A column that is null restricts nothing, inverted or not.\<close>

lemma null_list_any:
  "list_items None = [[]]" "address_item invert ip []" "port_item port []" "proto_ok (parse_protocol_name None) protocol"
proof -
  show "list_items None = [[]]" by code_simp
  have "cidr_or_any [] False = (True, False, 0, 0)" "cidr_or_any [] True = (True, False, 0, 0)" by code_simp+
  then show "address_item invert ip []" by (cases invert) (simp_all add: address_item_def)
  have "ports_or_any [] = (-1, -1)" by code_simp
  then show "port_item port []" by (simp add: port_item_def)
  show "proto_ok (parse_protocol_name None) protocol"
    by (simp add: proto_ok_def parse_protocol_name_def str_is_any_def POLICY_PROTO_ANY_def POLICY_PROTO_TCP_UDP_def)
qed

text \<open>An item that does not parse restricts nothing either.\<close>

lemma unparsable_item_any:
  "parse_cidr_any_or_negated (Some (ne_cidr_buf_with_invert (MAX_CIDR_ITEM_LEN + 2) item invert)) = None \<Longrightarrow> address_item invert ip item"
  "parse_port_range item = None \<Longrightarrow> port_item port item"
  by (simp_all add: address_item_def cidr_or_any_def port_item_def ports_or_any_def)

lemma unparsable_examples:
  "address_item False ip ''10.1.0.0/33''" "address_item True ip ''any''" "port_item port ''http''" "parse_protocol_name (Some ''gre'') = POLICY_PROTO_ANY"
proof -
  have "cidr_or_any ''10.1.0.0/33'' False = (True, False, 0, 0)" "cidr_or_any ''any'' True = (True, False, 0, 0)" "ports_or_any ''http'' = (-1, -1)"
    by code_simp+
  then show "address_item False ip ''10.1.0.0/33''" "address_item True ip ''any''" "port_item port ''http''"
    by (simp_all add: address_item_def port_item_def)
  show "parse_protocol_name (Some ''gre'') = POLICY_PROTO_ANY" by code_simp
qed

subsection \<open>Property: an inverted list of several networks matches every address\<close>

text \<open>C32: "Not A and not B" cannot be said: a row whose source list is inverted becomes one policy for each network of the
  list, each matching the addresses outside its own network. When two of the networks have no address in common, one of the
  two policies matches whatever the source is, the addresses of the excluded networks among them.\<close>

theorem inverted_list_matches_all:
  assumes "config_load_from_db (Some q) = Some cfg" "q_policies q = Some rows" "r \<in> set rows"
    and "po_invert_src_ip r = Some ''t''" "a \<in> set (list_items (po_src_ip r))" "b \<in> set (list_items (po_src_ip r))"
    and "cidr_or_any a True = (False, True, na, ma)" "cidr_or_any b True = (False, True, nb, mb)"
    and "\<And>ip. ip AND ma \<noteq> na AND ma \<or> ip AND mb \<noteq> nb AND mb"
    and "po_proto r = None" "po_dst_ip r = None" "po_src_port r = None" "po_dst_port r = None"
  shows "\<exists>cp \<in> set (ac_policies cfg). policy_key cp = row_key r \<and> crypto_policy_match_packet cp src_ip dst_ip src_port dst_port protocol"
proof -
  have "\<exists>s \<in> {a, b}. address_item True src_ip s" using assms(7-9) by (auto simp: address_item_def)
  then have "row_matches r src_ip dst_ip src_port dst_port protocol"
    unfolding row_matches_def assms(10-13) null_list_any Ball_def using assms(4-6) by (auto simp: null_list_any pq_value_def)
  then have "row_key r \<in> matching_row_keys rows src_ip dst_ip src_port dst_port protocol" using assms(3) by blast
  then show ?thesis unfolding loaded_policies_keys [OF assms(1,2), symmetric] by auto
qed

theorem selected_policy_is_best_row_witness:
  "\<exists>cfg. config_load_from_db (Some demo_answers) = Some cfg
     \<and> (case config_select_crypto_policy cfg 0 0x0100010A 0x01010101 5 443 6 of
          None \<Rightarrow> False
        | Some cp \<Rightarrow> policy_key cp = (300, 10, 2) \<and> (\<exists>r \<in> {demo_policy_row}. row_matches r 0x0100010A 0x01010101 5 443 6))"
proof -
  let ?rows = "[demo_policy_row, demo_policy_row\<lparr>po_id := Some ''8'', po_priority := Some ''20'', po_action := Some ''BYPASS'', po_src_ip := None\<rparr>]"
  have c: "map_option (\<lambda>cfg. map_option policy_key (config_select_crypto_policy cfg 0 0x0100010A 0x01010101 5 443 6)) (config_load_from_db (Some demo_answers))
      = Some (Some (300, 10, 2))" by code_simp
  then obtain cfg cp where cfg: "config_load_from_db (Some demo_answers) = Some cfg"
    "config_select_crypto_policy cfg 0 0x0100010A 0x01010101 5 443 6 = Some cp" "policy_key cp = (300, 10, 2)" by auto
  have "q_policies demo_answers = Some ?rows" by (simp add: demo_answers_def)
  from selected_policy_is_best_row [OF cfg(1) this, of "0x0100010A" "0x01010101" 5 443 6] cfg
  obtain r where r: "r \<in> set ?rows" "row_matches r 0x0100010A 0x01010101 5 443 6" "policy_key cp = row_key r" by auto
  have "row_key (demo_policy_row\<lparr>po_id := Some ''8'', po_priority := Some ''20'', po_action := Some ''BYPASS'', po_src_ip := None\<rparr>) = (8, 20, 0)" by code_simp
  then have "r = demo_policy_row" using r cfg(3) by auto
  then show ?thesis using cfg r by auto
qed

definition inverted_row :: policy_row where
  "inverted_row = demo_policy_row\<lparr>po_invert_src_ip := Some ''t'', po_proto := None, po_dst_port := None\<rparr>"

theorem inverted_list_matches_all_witness:
  "\<exists>cfg. config_load_from_db (Some (demo_answers\<lparr>q_policies := Some [inverted_row]\<rparr>)) = Some cfg
     \<and> (\<exists>cp \<in> set (ac_policies cfg). policy_key cp = row_key inverted_row \<and> crypto_policy_match_packet cp 0x0100010A 2 3 4 5)"
proof -
  let ?q = "demo_answers\<lparr>q_policies := Some [inverted_row]\<rparr>"
  have "config_load_from_db (Some ?q) \<noteq> None" by code_simp
  then obtain cfg where cfg: "config_load_from_db (Some ?q) = Some cfg" by blast
  have items: "list_items (po_src_ip inverted_row) = [''10.1.0.0/16'', ''10.2.0.0/16'']" by code_simp
  have nets: "cidr_or_any ''10.1.0.0/16'' True = (False, True, 0x010A, 0xFFFF)" "cidr_or_any ''10.2.0.0/16'' True = (False, True, 0x020A, 0xFFFF)"
    by code_simp+
  have "\<exists>cp \<in> set (ac_policies cfg). policy_key cp = row_key inverted_row \<and> crypto_policy_match_packet cp 0x0100010A 2 3 4 5"
  proof (rule inverted_list_matches_all [OF cfg _ _ _ _ _ nets])
    show "ip AND 0xFFFF \<noteq> 0x010A AND 0xFFFF \<or> ip AND 0xFFFF \<noteq> (0x020A :: u32) AND 0xFFFF" for ip by auto
  qed (simp_all add: items, simp_all add: inverted_row_def demo_policy_row_def)
  then show ?thesis using cfg by blast
qed

end
