(* ===== verification/Daemon.thy ===== *)
theory Daemon
  imports Db_Config
begin

text \<open>
  The daemon, \<open>main.c\<close>: the commands of its notification channels, the comparison of a configuration that was read again
  with the running one, the choice between nothing, a hot reload and a restart of the dataplane, and the state of the
  process between notifications; with it \<open>load_profile_config\<close> (\<open>src/db/db_runtime.c\<close>) and the topology test and the
  application of a reload (\<open>src/core/forwarder/config_reload.c\<close>). The results of system calls, of the database and of the
  parts that are modelled elsewhere arrive as the inputs of an event; logs are left out.
\<close>

section \<open>Commands\<close>

text \<open>\<open>strtol\<close> of the whole text; out of range values stop at the limits of \<open>long\<close> and fail the test like here.\<close>

definition INT_MAX :: int where "INT_MAX = 2147483647"

definition parse_notify_profile_id :: "string \<Rightarrow> int" where
  "parse_notify_profile_id payload =
     (if payload = [] then -1
      else case strtol10 payload of (v, rest) \<Rightarrow>
        if rest \<noteq> [] \<or> v \<le> 0 \<or> v > INT_MAX then -1 else v)"

text \<open>The id, or nothing.\<close>

definition parse_notify_profile_cmd :: "string \<Rightarrow> int option" where
  "parse_notify_profile_cmd payload =
     (if payload = [] then None
      else
        let p = (if take 4 payload = ''del:'' then drop 4 payload
                 else if take 5 payload = ''load:'' then drop 5 payload
                 else payload);
            out_id = parse_notify_profile_id p
        in if out_id > 0 then Some out_id else None)"

definition parse_profile_id_token :: "string \<Rightarrow> int option" where
  "parse_profile_id_token token =
     (if token = [] then None
      else case strtol10 token of (v, rest) \<Rightarrow>
        if rest \<noteq> [] \<or> v \<le> 0 \<or> v > INT_MAX then None else Some v)"

text \<open>The arguments after the name of the program; the result is the id, -1 without one, \<open>None\<close> for a usage error.\<close>

fun parse_startup_args :: "string list \<Rightarrow> int \<Rightarrow> int option" where
  "parse_startup_args [] out_id = Some out_id"
| "parse_startup_args (arg # args) out_id =
     (if arg = ''-id'' then
        (if out_id \<ge> 0 then None
         else case args of
             [] \<Rightarrow> None
           | tok # args' \<Rightarrow> (case parse_profile_id_token tok of None \<Rightarrow> None | Some v \<Rightarrow> parse_startup_args args' v))
      else if take 4 arg = ''-id='' then
        (if out_id \<ge> 0 then None
         else case parse_profile_id_token (drop 4 arg) of None \<Rightarrow> None | Some v \<Rightarrow> parse_startup_args args v)
      else None)"

definition parse_startup_profile_id :: "string list \<Rightarrow> int option" where
  "parse_startup_profile_id args = parse_startup_args args (-1)"

datatype wan_admin_cmd = WAN_KICK string | WAN_RESTORE string

definition handle_wan_admin_notify :: "bool \<Rightarrow> string \<Rightarrow> wan_admin_cmd option" where
  "handle_wan_admin_notify dataplane_runs payload =
     (if payload = [] then None
      else if \<not> dataplane_runs then None
      else if take 3 payload = ''di:'' then Some (WAN_KICK (drop 3 payload))
      else if take 3 payload = ''ai:'' then Some (WAN_RESTORE (drop 3 payload))
      else None)"

section \<open>What has changed\<close>

definition policy_fields_equal :: "crypto_policy \<Rightarrow> crypto_policy \<Rightarrow> bool" where
  "policy_fields_equal a b \<longleftrightarrow>
     cp_id a = cp_id b \<and> cp_db_id a = cp_db_id b \<and> cp_priority a = cp_priority b \<and> cp_action a = cp_action b
     \<and> cp_protocol a = cp_protocol b \<and> cp_src_port_from a = cp_src_port_from b \<and> cp_src_port_to a = cp_src_port_to b
     \<and> cp_dst_port_from a = cp_dst_port_from b \<and> cp_dst_port_to a = cp_dst_port_to b \<and> cp_src_any a = cp_src_any b
     \<and> cp_dst_any a = cp_dst_any b \<and> cp_src_negate a = cp_src_negate b \<and> cp_dst_negate a = cp_dst_negate b
     \<and> cp_src_net a = cp_src_net b \<and> cp_src_mask a = cp_src_mask b \<and> cp_dst_net a = cp_dst_net b
     \<and> cp_dst_mask a = cp_dst_mask b"

definition policy_by_db_id :: "app_config \<Rightarrow> int \<Rightarrow> crypto_policy option" where
  "policy_by_db_id cfg db_id = find (\<lambda>cp. cp_db_id cp = db_id) (ac_policies cfg)"

definition policies_db_unchanged :: "app_config \<Rightarrow> app_config \<Rightarrow> bool" where
  "policies_db_unchanged old new =
     (if length (ac_policies old) \<noteq> length (ac_policies new) then False
      else
        (\<forall>op \<in> set (ac_policies old).
           case policy_by_db_id new (cp_db_id op) of None \<Rightarrow> False | Some np \<Rightarrow> policy_fields_equal op np)
        \<and> (\<forall>np \<in> set (ac_policies new).
           case policy_by_db_id old (cp_db_id np) of None \<Rightarrow> False | Some op \<Rightarrow> policy_fields_equal op np))"

definition local_by_ifname :: "app_config \<Rightarrow> string \<Rightarrow> string option" where
  "local_by_ifname cfg ifname = find (\<lambda>l. l = ifname) (ac_locals cfg)"

definition local_db_equal :: "string \<Rightarrow> string \<Rightarrow> bool" where
  "local_db_equal a b \<longleftrightarrow> a = b"

definition wan_by_ifname :: "app_config \<Rightarrow> string \<Rightarrow> wan_config option" where
  "wan_by_ifname cfg ifname = find (\<lambda>w. wc_ifname w = ifname) (ac_wans cfg)"

definition wan_db_equal :: "wan_config \<Rightarrow> wan_config \<Rightarrow> bool" where
  "wan_db_equal a b \<longleftrightarrow> wc_ifname a = wc_ifname b \<and> wc_dst_ip a = wc_dst_ip b \<and> wc_dataplane a = wc_dataplane b"

definition db_id_at :: "app_config \<Rightarrow> int \<Rightarrow> int" where
  "db_id_at cfg i = cp_db_id (ac_policies cfg ! nat i)"

definition profile_db_unchanged :: "profile_config \<Rightarrow> profile_config \<Rightarrow> app_config \<Rightarrow> app_config \<Rightarrow> bool" where
  "profile_db_unchanged old new ocfg ncfg =
     (if pf_id old \<noteq> pf_id new \<or> pf_enabled old \<noteq> pf_enabled new \<or> pf_bridge_enable old \<noteq> pf_bridge_enable new
         \<or> length (pf_bridges old) \<noteq> length (pf_bridges new)
         \<or> length (pf_policy_indices old) \<noteq> length (pf_policy_indices new)
         \<or> length (pf_local_indices old) \<noteq> length (pf_local_indices new)
         \<or> length (pf_wan_indices old) \<noteq> length (pf_wan_indices new)
         \<or> pf_name old \<noteq> pf_name new
         \<or> pf_local_identity_fingerprint old \<noteq> pf_local_identity_fingerprint new
         \<or> pf_peer_fingerprint old \<noteq> pf_peer_fingerprint new
         \<or> pf_pqc_is_initiator old \<noteq> pf_pqc_is_initiator new
         \<or> pf_has_pqc_identity old \<noteq> pf_has_pqc_identity new
         \<or> pf_pqc_peer_pub old \<noteq> pf_pqc_peer_pub new
      then False
      else
        (\<forall>i \<in> set (pf_policy_indices old). \<exists>j \<in> set (pf_policy_indices new). db_id_at ocfg i = db_id_at ncfg j)
        \<and> (\<forall>j \<in> set (pf_policy_indices new). \<exists>i \<in> set (pf_policy_indices old). db_id_at ocfg i = db_id_at ncfg j)
        \<and> pf_local_indices old = pf_local_indices new
        \<and> pf_wan_indices old = pf_wan_indices new \<and> pf_wan_bandwidth_weight old = pf_wan_bandwidth_weight new
        \<and> pf_bridges old = pf_bridges new)"

definition ports_db_unchanged :: "app_config \<Rightarrow> app_config \<Rightarrow> bool" where
  "ports_db_unchanged old new \<longleftrightarrow>
     (\<forall>l \<in> set (ac_locals old). case local_by_ifname new l of None \<Rightarrow> False | Some nl \<Rightarrow> local_db_equal l nl)
     \<and> (\<forall>w \<in> set (ac_wans old). case wan_by_ifname new (wc_ifname w) of None \<Rightarrow> False | Some nw \<Rightarrow> wan_db_equal w nw)"

definition profiles_fully_unchanged :: "app_config \<Rightarrow> app_config \<Rightarrow> bool" where
  "profiles_fully_unchanged old new =
     (if length (ac_profiles old) < 1 \<or> length (ac_profiles new) < 1 then False
      else profile_db_unchanged (ac_profiles old ! 0) (ac_profiles new ! 0) old new)"

definition config_db_unchanged :: "app_config \<Rightarrow> app_config \<Rightarrow> bool" where
  "config_db_unchanged old new =
     (if length (ac_locals old) \<noteq> length (ac_locals new) \<or> length (ac_wans old) \<noteq> length (ac_wans new)
         \<or> length (ac_policies old) \<noteq> length (ac_policies new) \<or> length (ac_profiles old) \<noteq> length (ac_profiles new)
         \<or> ac_crypto_enabled old \<noteq> ac_crypto_enabled new \<or> ac_fake_ethertype_ipv4 old \<noteq> ac_fake_ethertype_ipv4 new
         \<or> ac_bpf_file old \<noteq> ac_bpf_file new \<or> ac_bpf_wan_file old \<noteq> ac_bpf_wan_file new
      then False
      else if \<not> ports_db_unchanged old new then False
      else if \<not> policies_db_unchanged old new then False
      else profiles_fully_unchanged old new)"

definition lan_wan_db_unchanged :: "app_config \<Rightarrow> app_config \<Rightarrow> bool" where
  "lan_wan_db_unchanged old new =
     (if length (ac_locals old) \<noteq> length (ac_locals new) \<or> length (ac_wans old) \<noteq> length (ac_wans new) then False
      else ports_db_unchanged old new)"

definition forwarder_same_topology :: "app_config \<Rightarrow> app_config \<Rightarrow> bool" where
  "forwarder_same_topology a b =
     (if length (ac_locals a) \<noteq> length (ac_locals b) \<or> length (ac_wans a) \<noteq> length (ac_wans b) then False
      else if ac_locals a = [] \<or> ac_wans a = [] then False
      else (\<forall>l \<in> set (ac_locals a). \<exists>l' \<in> set (ac_locals b). l = l')
        \<and> (\<forall>w \<in> set (ac_wans a). \<exists>w' \<in> set (ac_wans b). wc_ifname w = wc_ifname w'))"

definition runtime_tuning_only_change :: "app_config \<Rightarrow> app_config \<Rightarrow> bool" where
  "runtime_tuning_only_change old new =
     (if lan_wan_db_unchanged old new then False
      else if \<not> forwarder_same_topology old new then False
      else if \<not> policies_db_unchanged old new then False
      else profiles_fully_unchanged old new)"

section \<open>State of the process\<close>

text \<open>\<open>rs_fwd_cfg\<close> is the field \<open>cfg\<close> of the forwarder: which of the two slots it points to.\<close>

record runtime_state =
  rs_has_thread :: bool
  rs_running :: bool
  rs_fwd_cfg :: "nat option"
  rs_cfg_slots :: "app_config list"
  rs_active_slot :: nat

record daemon =
  dm_rt :: runtime_state
  dm_active_profile_id :: int

definition zero_config :: app_config where
  "zero_config = \<lparr>ac_locals = [], ac_wans = [], ac_bpf_file = [], ac_bpf_wan_file = [], ac_crypto_enabled = False,
     ac_fake_ethertype_ipv4 = 0, ac_profiles = [], ac_policies = []\<rparr>"

definition runtime_zero :: runtime_state where
  "runtime_zero = \<lparr>rs_has_thread = False, rs_running = False, rs_fwd_cfg = None,
     rs_cfg_slots = [zero_config, zero_config], rs_active_slot = 0\<rparr>"

text \<open>What the surroundings answer while a reload is requested and applied: stop requests, the workers being ready in time,
  the maintenance thread finishing in time, the filters being attached, the result of \<open>fwd_crypto_rebuild\<close>.\<close>

record reload_env =
  re_stop :: bool
  re_workers_ready :: bool
  re_busy :: bool
  re_finished :: bool
  re_apply_stop :: bool
  re_sync_ok :: bool
  re_stop_before_rebuild :: bool
  re_rebuild_rc :: int
  re_stop_after_rebuild :: bool
  re_stop_at_end :: bool

record notify_env =
  nv_stop_requested :: bool
  nv_profile_exists :: "int \<Rightarrow> bool"
  nv_first_read :: "int \<Rightarrow> db_answers option"
  nv_second_read :: "int \<Rightarrow> db_answers option"
  nv_stop_after_restart :: bool
  nv_thread_created :: bool
  nv_reload :: reload_env

section \<open>Reloading\<close>

text \<open>The result and whether the forwarder took over the new configuration.\<close>

definition forwarder_reload_config_impl :: "reload_env \<Rightarrow> bool \<times> int" where
  "forwarder_reload_config_impl e =
     (if re_apply_stop e then (False, -1)
      else if \<not> re_sync_ok e then (False, -1)
      else if re_stop_before_rebuild e then (True, -1)
      else if re_stop_after_rebuild e then (True, -1)
      else (True, if re_stop_at_end e then -1 else re_rebuild_rc e))"

text \<open>A request that times out may still be applied, or not; then \<open>forwarder_reload_config_impl\<close> tells which.\<close>

definition forwarder_queue_reload :: "reload_env \<Rightarrow> bool \<times> int" where
  "forwarder_queue_reload e =
     (if re_stop e then (False, -1)
      else if \<not> re_workers_ready e then (False, -1)
      else if re_busy e then (False, -1)
      else case forwarder_reload_config_impl e of (switched, rc) \<Rightarrow>
        if \<not> re_finished e then (switched, -1) else (switched, rc))"

definition forwarder_reload_config :: "reload_env \<Rightarrow> app_config option \<Rightarrow> app_config \<Rightarrow> bool \<times> int" where
  "forwarder_reload_config e fwd_cfg cfg =
     (if re_stop e then (False, -1)
      else case fwd_cfg of
          None \<Rightarrow> (False, -1)
        | Some running_cfg \<Rightarrow>
            if \<not> forwarder_same_topology running_cfg cfg then (False, -1) else forwarder_queue_reload e)"

definition load_profile_config :: "db_answers option \<Rightarrow> int \<Rightarrow> app_config option" where
  "load_profile_config q profile_id = (if profile_id \<le> 0 then None else config_load_from_db q)"

section \<open>Start and stop\<close>

definition runtime_start :: "bool \<Rightarrow> app_config \<Rightarrow> runtime_state \<Rightarrow> runtime_state \<times> int" where
  "runtime_start created cfg rt =
     (let rt = rt\<lparr>rs_active_slot := 0, rs_cfg_slots := (rs_cfg_slots rt)[0 := cfg], rs_running := False\<rparr> in
      if \<not> created then (rt, -1) else (rt\<lparr>rs_has_thread := True\<rparr>, 0))"

definition runtime_stop_forwarder :: "runtime_state \<Rightarrow> runtime_state" where
  "runtime_stop_forwarder rt = (if \<not> rs_has_thread rt then rt else rt\<lparr>rs_has_thread := False, rs_running := False\<rparr>)"

text \<open>The start of the dataplane thread: \<open>None\<close> when \<open>forwarder_init\<close> gives up before it clears the forwarder; otherwise
  whether it succeeds. \<open>thread_exit\<close> is the return of \<open>forwarder_run\<close>.\<close>

definition forwarder_thread_main :: "bool option \<Rightarrow> runtime_state \<Rightarrow> runtime_state" where
  "forwarder_thread_main init_result rt =
     (if \<not> rs_has_thread rt then rt
      else case init_result of
          None \<Rightarrow> rt\<lparr>rs_running := False\<rparr>
        | Some ok \<Rightarrow> rt\<lparr>rs_fwd_cfg := Some (rs_active_slot rt), rs_running := ok\<rparr>)"

definition thread_exit :: "runtime_state \<Rightarrow> runtime_state" where
  "thread_exit rt = rt\<lparr>rs_running := False\<rparr>"

section \<open>Notifications\<close>

text \<open>The slot that a failing read leaves half filled is not looked at again: the caller clears the whole state.\<close>

definition apply_active_configs :: "notify_env \<Rightarrow> int \<Rightarrow> runtime_state \<Rightarrow> runtime_state \<times> int" where
  "apply_active_configs e profile_id rt =
     (case load_profile_config (nv_first_read e profile_id) profile_id of
        None \<Rightarrow> (rt, -1)
      | Some new_cfg \<Rightarrow>
          if \<not> rs_has_thread rt then runtime_start (nv_thread_created e) new_cfg rt
          else
            let next_slot = 1 - rs_active_slot rt;
                prev_cfg = rs_cfg_slots rt ! rs_active_slot rt;
                reread = (if config_db_unchanged prev_cfg new_cfg
                          then load_profile_config (nv_second_read e profile_id) profile_id else Some new_cfg)
            in case reread of
                None \<Rightarrow> (rt, -1)
              | Some cfg \<Rightarrow>
                  let rt = rt\<lparr>rs_cfg_slots := (rs_cfg_slots rt)[next_slot := cfg]\<rparr> in
                  if config_db_unchanged prev_cfg cfg then (rt, 0)
                  else if \<not> forwarder_same_topology prev_cfg cfg then
                    (let rt = runtime_stop_forwarder rt in
                     if nv_stop_after_restart e then (rt, -1)
                     else runtime_start (nv_thread_created e) cfg (rt\<lparr>rs_active_slot := next_slot\<rparr>))
                  else
                    (case forwarder_reload_config (nv_reload e) (map_option (\<lambda>s. rs_cfg_slots rt ! s) (rs_fwd_cfg rt)) cfg of
                       (switched, rc) \<Rightarrow>
                         let rt = (if switched then rt\<lparr>rs_fwd_cfg := Some next_slot\<rparr> else rt) in
                         if rc = 0 then (rt\<lparr>rs_active_slot := next_slot\<rparr>, 0) else (rt, -1)))"

definition load_profile_and_run :: "notify_env \<Rightarrow> int \<Rightarrow> daemon \<Rightarrow> daemon \<times> int" where
  "load_profile_and_run e profile_id d =
     (case apply_active_configs e profile_id (dm_rt d) of (rt, rc) \<Rightarrow>
        if rc \<noteq> 0 then (d\<lparr>dm_rt := rt\<rparr>, -1)
        else (d\<lparr>dm_rt := rt, dm_active_profile_id := profile_id\<rparr>, 0))"

definition return_to_blank_daemon :: "daemon \<Rightarrow> daemon" where
  "return_to_blank_daemon d = d\<lparr>dm_active_profile_id := 0, dm_rt := runtime_zero\<rparr>"

definition handle_profile_notify :: "notify_env \<Rightarrow> int \<Rightarrow> daemon \<Rightarrow> daemon \<times> int" where
  "handle_profile_notify e profile_id d =
     (if nv_stop_requested e then (d, 0)
      else if \<not> nv_profile_exists e profile_id then (return_to_blank_daemon d, 0)
      else
        let d = (if rs_has_thread (dm_rt d) \<and> dm_active_profile_id d \<le> 0 then return_to_blank_daemon d
                 else if rs_has_thread (dm_rt d) \<and> \<not> rs_running (dm_rt d) then return_to_blank_daemon d
                 else if dm_active_profile_id d > 0 \<and> dm_active_profile_id d \<noteq> profile_id then return_to_blank_daemon d
                 else d)
        in case load_profile_and_run e profile_id d of (d, rc) \<Rightarrow>
          if rc \<noteq> 0 then (return_to_blank_daemon d, -1) else (d, 0))"

text \<open>One turn of the loop of \<open>main\<close> for a notification, and what the dataplane thread does in between.\<close>

datatype daemon_event =
    Profile_Notify string notify_env
  | Wan_Notify string
  | Thread_Started "bool option"
  | Thread_Returned

definition daemon_step :: "daemon_event \<Rightarrow> daemon \<Rightarrow> daemon" where
  "daemon_step ev d =
     (case ev of
        Profile_Notify payload e \<Rightarrow>
          (case parse_notify_profile_cmd payload of None \<Rightarrow> d | Some profile_id \<Rightarrow> fst (handle_profile_notify e profile_id d))
      | Wan_Notify payload \<Rightarrow> d
      | Thread_Started r \<Rightarrow> d\<lparr>dm_rt := forwarder_thread_main r (dm_rt d)\<rparr>
      | Thread_Returned \<Rightarrow> d\<lparr>dm_rt := thread_exit (dm_rt d)\<rparr>)"

definition daemon_init :: daemon where
  "daemon_init = \<lparr>dm_rt = runtime_zero, dm_active_profile_id = 0\<rparr>"

section \<open>Comparing configurations\<close>

lemma policy_fields_equal_iff: "policy_fields_equal a b \<longleftrightarrow> a = b"
  by (auto simp: policy_fields_equal_def)

text \<open>Policies are looked up by the id of their row, and the first one found counts.\<close>

definition same_row_same_policy :: "crypto_policy list \<Rightarrow> bool" where
  "same_row_same_policy cps \<longleftrightarrow> (\<forall>a \<in> set cps. \<forall>b \<in> set cps. cp_db_id a = cp_db_id b \<longrightarrow> a = b)"

lemma find_row_Some:
  assumes "same_row_same_policy cps" "cp \<in> set cps"
  shows "find (\<lambda>c. cp_db_id c = cp_db_id cp) cps = Some cp"
proof (cases "find (\<lambda>c. cp_db_id c = cp_db_id cp) cps")
  case None then show ?thesis using assms(2) by (auto simp: find_None_iff)
next
  case (Some c)
  then have "c \<in> set cps" "cp_db_id c = cp_db_id cp" by (auto simp: find_Some_iff)
  then show ?thesis using Some assms by (auto simp: same_row_same_policy_def)
qed

lemma find_row_only:
  assumes "find (\<lambda>c. cp_db_id c = i) cps = Some cp"
  shows "cp \<in> set cps" "cp_db_id cp = i"
  using assms by (auto simp: find_Some_iff)

lemma row_lookup_iff:
  "(\<forall>a \<in> set xs. case find (\<lambda>c. cp_db_id c = cp_db_id a) ys of None \<Rightarrow> False | Some b \<Rightarrow> a = b)
     \<longleftrightarrow> (\<forall>a \<in> set xs. find (\<lambda>c. cp_db_id c = cp_db_id a) ys = Some a)"
  "(\<forall>a \<in> set xs. case find (\<lambda>c. cp_db_id c = cp_db_id a) ys of None \<Rightarrow> False | Some b \<Rightarrow> b = a)
     \<longleftrightarrow> (\<forall>a \<in> set xs. find (\<lambda>c. cp_db_id c = cp_db_id a) ys = Some a)"
  by (intro ball_cong refl, auto split: option.splits)+

lemma policies_db_unchanged_sets:
  "policies_db_unchanged old new \<longleftrightarrow>
     length (ac_policies old) = length (ac_policies new)
     \<and> set (ac_policies old) = set (ac_policies new) \<and> same_row_same_policy (ac_policies old)"
proof -
  let ?o = "ac_policies old" and ?n = "ac_policies new"
  have "(\<forall>a \<in> set ?o. find (\<lambda>c. cp_db_id c = cp_db_id a) ?n = Some a) \<and> (\<forall>a \<in> set ?n. find (\<lambda>c. cp_db_id c = cp_db_id a) ?o = Some a)
      \<longleftrightarrow> set ?o = set ?n \<and> same_row_same_policy ?o"
  proof (intro iffI conjI)
    assume h: "(\<forall>a \<in> set ?o. find (\<lambda>c. cp_db_id c = cp_db_id a) ?n = Some a) \<and> (\<forall>a \<in> set ?n. find (\<lambda>c. cp_db_id c = cp_db_id a) ?o = Some a)"
    then show eq: "set ?o = set ?n" using find_row_only(1) by blast
    show "same_row_same_policy ?o" unfolding same_row_same_policy_def using h by (metis option.inject)
  next
    assume h: "set ?o = set ?n \<and> same_row_same_policy ?o"
    then have "same_row_same_policy ?n" by (simp add: same_row_same_policy_def)
    then show "\<forall>a \<in> set ?o. find (\<lambda>c. cp_db_id c = cp_db_id a) ?n = Some a" "\<forall>a \<in> set ?n. find (\<lambda>c. cp_db_id c = cp_db_id a) ?o = Some a"
      using h find_row_Some by simp_all
  qed
  moreover have "policies_db_unchanged old new \<longleftrightarrow> length ?o = length ?n \<and>
      (\<forall>a \<in> set ?o. find (\<lambda>c. cp_db_id c = cp_db_id a) ?n = Some a) \<and> (\<forall>a \<in> set ?n. find (\<lambda>c. cp_db_id c = cp_db_id a) ?o = Some a)"
    unfolding policies_db_unchanged_def policy_by_db_id_def policy_fields_equal_iff row_lookup_iff by simp
  ultimately show ?thesis by blast
qed

definition wan_key :: "wan_config \<Rightarrow> string \<times> u32 \<times> bool" where
  "wan_key w = (wc_ifname w, wc_dst_ip w, wc_dataplane w)"

text \<open>Lookup by a name that occurs once.\<close>

lemma lookup_all_iff:
  assumes "distinct (map key ys)" "\<And>a b. same a b \<Longrightarrow> key a = key b"
  shows "(\<forall>a \<in> set xs. case find (\<lambda>b. key b = key a) ys of None \<Rightarrow> False | Some b \<Rightarrow> same a b) \<longleftrightarrow> (\<forall>a \<in> set xs. \<exists>b \<in> set ys. same a b)"
proof (intro ball_cong refl)
  fix a
  show "(case find (\<lambda>b. key b = key a) ys of None \<Rightarrow> False | Some b \<Rightarrow> same a b) \<longleftrightarrow> (\<exists>b \<in> set ys. same a b)"
  proof (cases "find (\<lambda>b. key b = key a) ys")
    case None
    then have "key b \<noteq> key a" if "b \<in> set ys" for b using that by (auto simp: find_None_iff)
    then have "\<not> (\<exists>b \<in> set ys. same a b)" using assms(2) [of a] by metis
    then show ?thesis by (simp add: None)
  next
    case (Some b)
    then have b: "b \<in> set ys" "key b = key a" by (auto simp: find_Some_iff)
    have "c = b" if "c \<in> set ys" "same a c" for c
      using assms(1) b that(1) assms(2) [OF that(2)] by (auto simp: distinct_map inj_on_def)
    then show ?thesis using Some b(1) by auto
  qed
qed

lemma ports_db_unchanged_iff:
  assumes "distinct (ac_locals new)" "distinct (map wc_ifname (ac_wans new))"
    and "distinct (ac_locals old)" "distinct (map wc_ifname (ac_wans old))"
    and "length (ac_locals old) = length (ac_locals new)" "length (ac_wans old) = length (ac_wans new)"
  shows "ports_db_unchanged old new \<longleftrightarrow> set (ac_locals old) = set (ac_locals new) \<and> wan_key ` set (ac_wans old) = wan_key ` set (ac_wans new)"
proof -
  have l: "(\<forall>l \<in> set (ac_locals old). case local_by_ifname new l of None \<Rightarrow> False | Some nl \<Rightarrow> local_db_equal l nl)
      \<longleftrightarrow> set (ac_locals old) \<subseteq> set (ac_locals new)"
    using lookup_all_iff [of "\<lambda>l. l" "ac_locals new" "(=)" "ac_locals old"] assms(1)
    unfolding local_by_ifname_def local_db_equal_def by (simp add: subset_eq)
  have "set (ac_locals old) \<subseteq> set (ac_locals new) \<longleftrightarrow> set (ac_locals old) = set (ac_locals new)"
    using card_subset_eq [of "set (ac_locals new)" "set (ac_locals old)"] assms(1,3,5) by (auto simp: distinct_card)
  moreover have "(\<forall>w \<in> set (ac_wans old). case wan_by_ifname new (wc_ifname w) of None \<Rightarrow> False | Some nw \<Rightarrow> wan_db_equal w nw)
      \<longleftrightarrow> wan_key ` set (ac_wans old) \<subseteq> wan_key ` set (ac_wans new)"
    using lookup_all_iff [of wc_ifname "ac_wans new" wan_db_equal "ac_wans old"] assms(2)
    by (simp add: wan_by_ifname_def wan_db_equal_def wan_key_def image_subset_iff image_iff)
  moreover have "card (wan_key ` set (ac_wans c)) = length (ac_wans c)" if "distinct (map wc_ifname (ac_wans c))" for c
  proof -
    have "inj_on wan_key (set (ac_wans c))" using that by (auto simp: distinct_map inj_on_def wan_key_def)
    then show ?thesis using that by (simp add: card_image distinct_map distinct_card)
  qed
  from this [OF assms(2)] this [OF assms(4)] assms(6)
  have "card (wan_key ` set (ac_wans old)) = card (wan_key ` set (ac_wans new))" by simp
  then have "wan_key ` set (ac_wans old) \<subseteq> wan_key ` set (ac_wans new) \<longleftrightarrow> wan_key ` set (ac_wans old) = wan_key ` set (ac_wans new)"
    using card_subset_eq [of "wan_key ` set (ac_wans new)" "wan_key ` set (ac_wans old)"] by (metis List.finite_set finite_imageI order_refl)
  ultimately show ?thesis using l by (simp add: ports_db_unchanged_def)
qed

text \<open>The flag "any" of the incoming table is not read from the database; it is set while the profile runs.\<close>

abbreviation db_fields :: "profile_config \<Rightarrow> profile_config" where
  "db_fields p \<equiv> p\<lparr>pf_policy_in_any := False\<rparr>"

lemma db_fields_eq_iff:
  "db_fields p = db_fields p' \<longleftrightarrow>
     pf_id p = pf_id p' \<and> pf_name p = pf_name p' \<and> pf_enabled p = pf_enabled p' \<and> pf_bridge_enable p = pf_bridge_enable p'
     \<and> pf_bridges p = pf_bridges p' \<and> pf_local_indices p = pf_local_indices p' \<and> pf_wan_indices p = pf_wan_indices p'
     \<and> pf_wan_bandwidth_weight p = pf_wan_bandwidth_weight p' \<and> pf_policy_indices p = pf_policy_indices p'
     \<and> pf_local_identity_fingerprint p = pf_local_identity_fingerprint p' \<and> pf_peer_fingerprint p = pf_peer_fingerprint p'
     \<and> pf_pqc_is_initiator p = pf_pqc_is_initiator p' \<and> pf_has_pqc_identity p = pf_has_pqc_identity p' \<and> pf_pqc_peer_pub p = pf_pqc_peer_pub p'"
  by (cases p; cases p') auto

lemma loaded_profile:
  assumes "loaded_ok cfg"
  obtains p where "ac_profiles cfg = [p]" "pf_policy_indices p = map int [0..<length (ac_policies cfg)]"
    "length (pf_wan_bandwidth_weight p) = length (pf_wan_indices p)"
  using assms unfolding loaded_ok_def indices_ok_def profile_ports_ok_def by blast

lemma db_ids_found:
  assumes "set ps = set qs"
  shows "\<forall>i \<in> set (map int [0..<length ps]). \<exists>j \<in> set (map int [0..<length qs]). cp_db_id (ps ! nat i) = cp_db_id (qs ! nat j)"
proof
  fix i assume "i \<in> set (map int [0..<length ps])"
  then have "nat i < length ps" by auto
  then have "ps ! nat i \<in> set qs" unfolding assms [symmetric] by (rule nth_mem)
  then obtain k where "k < length qs" "qs ! k = ps ! nat i" by (auto simp: in_set_conv_nth)
  then show "\<exists>j \<in> set (map int [0..<length qs]). cp_db_id (ps ! nat i) = cp_db_id (qs ! nat j)"
    by (intro bexI [of _ "int k"]) auto
qed

text \<open>Encryption is on for the same sets of policies.\<close>

lemma loaded_crypto_determined:
  "loaded_ok old \<Longrightarrow> loaded_ok new \<Longrightarrow> set (ac_policies old) = set (ac_policies new) \<Longrightarrow>
     ac_crypto_enabled old = ac_crypto_enabled new \<and> ac_fake_ethertype_ipv4 old = ac_fake_ethertype_ipv4 new"
  by (auto simp: loaded_ok_def)

text \<open>The same settings in another order, except that the profile refers to ports and policies by position. The loader orders
  the rows of ports by interface name, so that for loaded configurations equal sets of ports have equal positions.\<close>

definition same_settings :: "app_config \<Rightarrow> app_config \<Rightarrow> bool" where
  "same_settings old new \<longleftrightarrow>
     set (ac_locals old) = set (ac_locals new) \<and> wan_key ` set (ac_wans old) = wan_key ` set (ac_wans new)
     \<and> set (ac_policies old) = set (ac_policies new) \<and> length (ac_policies old) = length (ac_policies new)
     \<and> map db_fields (ac_profiles old) = map db_fields (ac_profiles new)
     \<and> ac_bpf_file old = ac_bpf_file new \<and> ac_bpf_wan_file old = ac_bpf_wan_file new"

definition distinct_ports :: "app_config \<Rightarrow> bool" where
  "distinct_ports cfg \<longleftrightarrow> distinct (ac_locals cfg) \<and> distinct (map wc_ifname (ac_wans cfg))"

lemma config_db_unchanged_settings:
  assumes "loaded_ok old" "loaded_ok new" "distinct_ports old" "distinct_ports new"
  shows "config_db_unchanged old new \<longleftrightarrow> same_settings old new \<and> same_row_same_policy (ac_policies old)"
proof -
  obtain p where p: "ac_profiles old = [p]" "pf_policy_indices p = map int [0..<length (ac_policies old)]"
      "length (pf_wan_bandwidth_weight p) = length (pf_wan_indices p)" using assms(1) by (rule loaded_profile)
  obtain p' where p': "ac_profiles new = [p']" "pf_policy_indices p' = map int [0..<length (ac_policies new)]"
      "length (pf_wan_bandwidth_weight p') = length (pf_wan_indices p')" using assms(2) by (rule loaded_profile)
  have profile: "profiles_fully_unchanged old new \<longleftrightarrow> db_fields p = db_fields p'"
    if "set (ac_policies old) = set (ac_policies new)" "length (ac_policies old) = length (ac_policies new)"
  proof -
    have "\<forall>i \<in> set (pf_policy_indices p). \<exists>j \<in> set (pf_policy_indices p'). db_id_at old i = db_id_at new j"
      using db_ids_found [OF that(1)] unfolding p(2) p'(2) db_id_at_def .
    moreover have "\<forall>j \<in> set (pf_policy_indices p'). \<exists>i \<in> set (pf_policy_indices p). db_id_at old i = db_id_at new j"
      using db_ids_found [OF that(1) [symmetric]] unfolding p(2) p'(2) db_id_at_def by metis
    moreover have "pf_policy_indices p = pf_policy_indices p'" using that(2) p(2) p'(2) by simp
    ultimately show ?thesis unfolding profiles_fully_unchanged_def profile_db_unchanged_def db_fields_eq_iff
      by (simp add: p(1) p'(1)) blast
  qed
  have lens: "length (ac_locals old) = length (ac_locals new) \<and> length (ac_wans old) = length (ac_wans new)" if "same_settings old new"
  proof -
    have "card (wan_key ` set (ac_wans c)) = length (ac_wans c)" if "distinct_ports c" for c
    proof -
      have "inj_on wan_key (set (ac_wans c))" using that by (auto simp: distinct_ports_def distinct_map inj_on_def wan_key_def)
      then show ?thesis using that by (simp add: distinct_ports_def card_image distinct_map distinct_card)
    qed
    from this [OF assms(3)] this [OF assms(4)] that have "length (ac_wans old) = length (ac_wans new)" by (simp add: same_settings_def)
    moreover have "length (ac_locals c) = card (set (ac_locals c))" if "distinct_ports c" for c
      using that by (simp add: distinct_ports_def distinct_card)
    from this [OF assms(3)] this [OF assms(4)] that have "length (ac_locals old) = length (ac_locals new)" by (simp add: same_settings_def)
    ultimately show ?thesis by blast
  qed
  show ?thesis
  proof
    assume u: "config_db_unchanged old new"
    then have len: "length (ac_locals old) = length (ac_locals new)" "length (ac_wans old) = length (ac_wans new)"
      by (auto simp: config_db_unchanged_def split: if_splits)
    from u have parts: "ports_db_unchanged old new" "policies_db_unchanged old new" "profiles_fully_unchanged old new"
        "ac_bpf_file old = ac_bpf_file new" "ac_bpf_wan_file old = ac_bpf_wan_file new"
      by (auto simp: config_db_unchanged_def split: if_splits)
    then show "same_settings old new \<and> same_row_same_policy (ac_policies old)"
      using ports_db_unchanged_iff [OF _ _ _ _ len] assms(3,4) profile p(1) p'(1)
      by (simp add: same_settings_def policies_db_unchanged_sets distinct_ports_def)
  next
    assume s: "same_settings old new \<and> same_row_same_policy (ac_policies old)"
    then have len: "length (ac_locals old) = length (ac_locals new)" "length (ac_wans old) = length (ac_wans new)" using lens by auto
    have pols: "set (ac_policies old) = set (ac_policies new)" "length (ac_policies old) = length (ac_policies new)" "db_fields p = db_fields p'"
        "ac_bpf_file old = ac_bpf_file new" "ac_bpf_wan_file old = ac_bpf_wan_file new"
      using s p(1) p'(1) by (auto simp: same_settings_def)
    have "ports_db_unchanged old new"
      using s assms(3,4) ports_db_unchanged_iff [OF _ _ _ _ len] by (simp add: same_settings_def distinct_ports_def)
    then show "config_db_unchanged old new"
      using s len pols profile p(1) p'(1) loaded_crypto_determined [OF assms(1,2) pols(1)]
      by (simp add: config_db_unchanged_def policies_db_unchanged_sets)
  qed
qed

section \<open>Invariant of the process\<close>

text \<open>\<open>fits\<close> is what a read of a profile guarantees about its configuration.\<close>

definition rt_shape :: "runtime_state \<Rightarrow> bool" where
  "rt_shape rt \<longleftrightarrow> length (rs_cfg_slots rt) = 2 \<and> rs_active_slot rt < 2 \<and> (rs_running rt \<longrightarrow> rs_has_thread rt \<and> rs_fwd_cfg rt = Some (rs_active_slot rt))"

definition daemon_inv :: "(int \<Rightarrow> app_config \<Rightarrow> bool) \<Rightarrow> daemon \<Rightarrow> bool" where
  "daemon_inv fits d \<longleftrightarrow>
     rt_shape (dm_rt d) \<and> (rs_has_thread (dm_rt d) \<longleftrightarrow> dm_active_profile_id d > 0)
     \<and> (rs_has_thread (dm_rt d) \<longrightarrow> fits (dm_active_profile_id d) (rs_cfg_slots (dm_rt d) ! rs_active_slot (dm_rt d)))"

definition reads_fit :: "(int \<Rightarrow> app_config \<Rightarrow> bool) \<Rightarrow> notify_env \<Rightarrow> bool" where
  "reads_fit fits e \<longleftrightarrow>
     (\<forall>i cfg. config_load_from_db (nv_first_read e i) = Some cfg \<longrightarrow> fits i cfg)
     \<and> (\<forall>i cfg. config_load_from_db (nv_second_read e i) = Some cfg \<longrightarrow> fits i cfg)"

lemma return_to_blank [simp]: "return_to_blank_daemon d = daemon_init"
  by (cases d) (simp add: return_to_blank_daemon_def daemon_init_def)

lemma blank_inv: "daemon_inv fits daemon_init"
  by (simp add: daemon_inv_def rt_shape_def daemon_init_def runtime_zero_def)

lemma runtime_start_shape:
  assumes "runtime_start created cfg rt = (rt', rc)" "length (rs_cfg_slots rt) = 2"
  shows "rt_shape rt'" "rc = 0 \<Longrightarrow> rs_has_thread rt'" "rs_cfg_slots rt' ! rs_active_slot rt' = cfg"
  using assms by (auto simp: runtime_start_def rt_shape_def Let_def split: if_splits)

text \<open>A reload that reports success has switched the configuration.\<close>

lemma reload_success_switched:
  assumes "forwarder_reload_config e c cfg = (switched, 0)"
  shows "switched" "\<exists>c'. c = Some c' \<and> forwarder_same_topology c' cfg"
  using assms by (auto simp: forwarder_reload_config_def forwarder_queue_reload_def forwarder_reload_config_impl_def split: if_splits option.splits prod.splits)

lemma load_profile_config_SomeD:
  "load_profile_config q i = Some cfg \<Longrightarrow> i > 0 \<and> config_load_from_db q = Some cfg"
  by (auto simp: load_profile_config_def split: if_splits)

text \<open>What a successful application leaves behind: the thread, and in the active slot the configuration that was read, or the
  old one when it equals what was read.\<close>

lemma apply_active_configs_success:
  assumes "apply_active_configs e i rt = (rt', 0)" "rt_shape rt" "rs_has_thread rt \<longrightarrow> rs_running rt"
  shows "i > 0 \<and> rt_shape rt' \<and> rs_has_thread rt'
    \<and> (\<exists>cfg. (config_load_from_db (nv_first_read e i) = Some cfg \<or> config_load_from_db (nv_second_read e i) = Some cfg)
       \<and> (rs_cfg_slots rt' ! rs_active_slot rt' = cfg
          \<or> rs_has_thread rt \<and> rs_active_slot rt' = rs_active_slot rt
             \<and> rs_cfg_slots rt' ! rs_active_slot rt' = rs_cfg_slots rt ! rs_active_slot rt
             \<and> config_db_unchanged (rs_cfg_slots rt ! rs_active_slot rt) cfg))"
proof -
  obtain first where first: "load_profile_config (nv_first_read e i) i = Some first"
    using assms(1) by (auto simp: apply_active_configs_def split: option.splits)
  note f = load_profile_config_SomeD [OF first]
  show ?thesis
  proof (cases "rs_has_thread rt")
    case False
    then have "runtime_start (nv_thread_created e) first rt = (rt', 0)" using assms(1) first by (simp add: apply_active_configs_def)
    from runtime_start_shape [OF this] assms(2) f show ?thesis by (auto simp: rt_shape_def)
  next
    case True
    then have run: "rs_running rt" "rs_fwd_cfg rt = Some (rs_active_slot rt)" using assms(2,3) by (auto simp: rt_shape_def)
    let ?next = "1 - rs_active_slot rt" and ?prev = "rs_cfg_slots rt ! rs_active_slot rt"
    obtain cfg where cfg: "(if config_db_unchanged ?prev first then load_profile_config (nv_second_read e i) i else Some first) = Some cfg"
      using assms(1) first True by (auto simp: apply_active_configs_def Let_def split: option.splits)
    then have read: "config_load_from_db (nv_first_read e i) = Some cfg \<or> config_load_from_db (nv_second_read e i) = Some cfg"
      using f load_profile_config_SomeD by (auto split: if_splits)
    define rt1 where "rt1 = rt\<lparr>rs_cfg_slots := (rs_cfg_slots rt)[?next := cfg]\<rparr>"
    have len: "length (rs_cfg_slots rt) = 2" "rs_active_slot rt < 2" using assms(2) by (auto simp: rt_shape_def)
    then have slots: "?next < 2" "?next \<noteq> rs_active_slot rt" by arith+
    have rest: "(if config_db_unchanged ?prev cfg then (rt1, 0)
        else if \<not> forwarder_same_topology ?prev cfg then
          (let rt = runtime_stop_forwarder rt1 in
           if nv_stop_after_restart e then (rt, -1) else runtime_start (nv_thread_created e) cfg (rt\<lparr>rs_active_slot := ?next\<rparr>))
        else (case forwarder_reload_config (nv_reload e) (map_option (\<lambda>s. rs_cfg_slots rt1 ! s) (rs_fwd_cfg rt1)) cfg of
           (switched, rc) \<Rightarrow>
             let rt = (if switched then rt1\<lparr>rs_fwd_cfg := Some ?next\<rparr> else rt1) in
             if rc = 0 then (rt\<lparr>rs_active_slot := ?next\<rparr>, 0) else (rt, -1))) = (rt', 0)"
      using assms(1) first cfg True by (simp add: apply_active_configs_def rt1_def Let_def cong: if_cong)
    consider (same) "config_db_unchanged ?prev cfg" | (restart) "\<not> config_db_unchanged ?prev cfg" "\<not> forwarder_same_topology ?prev cfg"
      | (hot) "\<not> config_db_unchanged ?prev cfg" "forwarder_same_topology ?prev cfg" by blast
    then show ?thesis
    proof cases
      case same
      then have "rt' = rt1" using rest by simp
      then show ?thesis using same True run len slots read f by (auto simp: rt1_def rt_shape_def)
    next
      case restart
      then have "runtime_start (nv_thread_created e) cfg ((runtime_stop_forwarder rt1)\<lparr>rs_active_slot := ?next\<rparr>) = (rt', 0)"
        using rest by (simp add: Let_def split: if_splits)
      from runtime_start_shape [OF this] have "rt_shape rt'" "rs_has_thread rt'" "rs_cfg_slots rt' ! rs_active_slot rt' = cfg"
        using len by (auto simp: runtime_stop_forwarder_def rt1_def)
      then show ?thesis using read f by blast
    next
      case hot
      obtain switched rc where r: "forwarder_reload_config (nv_reload e) (map_option (\<lambda>s. rs_cfg_slots rt1 ! s) (rs_fwd_cfg rt1)) cfg = (switched, rc)"
        by (metis prod.exhaust)
      with rest hot have rc: "rc = 0" and rt': "rt' = (if switched then rt1\<lparr>rs_fwd_cfg := Some ?next\<rparr> else rt1)\<lparr>rs_active_slot := ?next\<rparr>"
        by (auto simp: Let_def split: if_splits)
      have switched using reload_success_switched(1) r rc by blast
      then have "rt' = rt1\<lparr>rs_fwd_cfg := Some ?next, rs_active_slot := ?next\<rparr>" using rt' by simp
      then show ?thesis using True run len slots read f by (auto simp: rt1_def rt_shape_def)
    qed
  qed
qed

lemma profile_cmd_positive: "parse_notify_profile_cmd p = Some i \<Longrightarrow> i > 0"
  by (auto simp: parse_notify_profile_cmd_def Let_def split: if_splits)

text \<open>What a notification for a profile leaves behind, on every branch: the blank state, or the dataplane of this profile.\<close>

lemma handle_profile_notify_cases:
  assumes "handle_profile_notify e i d = (d', rc)" "\<not> nv_stop_requested e" "daemon_inv fits d"
  shows "d' = daemon_init \<and> (rc = -1 \<or> \<not> nv_profile_exists e i)
    \<or> rc = 0 \<and> nv_profile_exists e i \<and> i > 0 \<and> dm_active_profile_id d' = i \<and> rt_shape (dm_rt d') \<and> rs_has_thread (dm_rt d')
      \<and> (\<exists>cfg. (config_load_from_db (nv_first_read e i) = Some cfg \<or> config_load_from_db (nv_second_read e i) = Some cfg)
         \<and> (rs_cfg_slots (dm_rt d') ! rs_active_slot (dm_rt d') = cfg
            \<or> dm_active_profile_id d = i \<and> rs_active_slot (dm_rt d') = rs_active_slot (dm_rt d)
               \<and> rs_cfg_slots (dm_rt d') ! rs_active_slot (dm_rt d') = rs_cfg_slots (dm_rt d) ! rs_active_slot (dm_rt d)
               \<and> config_db_unchanged (rs_cfg_slots (dm_rt d) ! rs_active_slot (dm_rt d)) cfg))"
proof (cases "nv_profile_exists e i")
  case False
  then show ?thesis using assms(1,2) by (auto simp: handle_profile_notify_def)
next
  case True
  let ?rt = "dm_rt d"
  define d1 where "d1 = (if rs_has_thread ?rt \<and> dm_active_profile_id d \<le> 0 then return_to_blank_daemon d
                 else if rs_has_thread ?rt \<and> \<not> rs_running ?rt then return_to_blank_daemon d
                 else if dm_active_profile_id d > 0 \<and> dm_active_profile_id d \<noteq> i then return_to_blank_daemon d
                 else d)"
  obtain d2 rc2 where l: "load_profile_and_run e i d1 = (d2, rc2)" by (metis prod.exhaust)
  have res: "(if rc2 \<noteq> 0 then (return_to_blank_daemon d2, -1) else (d2, 0)) = (d', rc)"
    using assms(1,2) True l by (simp add: handle_profile_notify_def d1_def Let_def)
  obtain rt' rc1 where a: "apply_active_configs e i (dm_rt d1) = (rt', rc1)" by (metis prod.exhaust)
  have shape: "rt_shape (dm_rt d1)" "rs_has_thread (dm_rt d1) \<longrightarrow> rs_running (dm_rt d1)"
    using assms(3) by (auto simp: d1_def daemon_inv_def daemon_init_def runtime_zero_def rt_shape_def)
  show ?thesis
  proof (cases "rc1 = 0")
    case False
    then show ?thesis using l a res by (auto simp: load_profile_and_run_def split: if_splits)
  next
    case ok: True
    note s = apply_active_configs_success [OF a [unfolded ok] shape]
    have d': "d' = d1\<lparr>dm_rt := rt', dm_active_profile_id := i\<rparr>" "rc = 0" using l a res ok by (auto simp: load_profile_and_run_def)
    have "d1 = d \<and> dm_active_profile_id d = i" if "rs_has_thread (dm_rt d1)"
      using that assms(3) by (auto simp: d1_def daemon_init_def runtime_zero_def daemon_inv_def split: if_splits)
    then show ?thesis using s d' True by auto
  qed
qed

lemma handle_profile_notify_inv:
  assumes "daemon_inv fits d" "reads_fit fits e"
  shows "daemon_inv fits (fst (handle_profile_notify e i d))"
proof -
  obtain d' rc where h: "handle_profile_notify e i d = (d', rc)" by (metis prod.exhaust)
  show ?thesis
  proof (cases "nv_stop_requested e")
    case True then show ?thesis using assms(1) by (simp add: handle_profile_notify_def)
  next
    case False
    note c = handle_profile_notify_cases [OF h False assms(1)]
    then show ?thesis using blank_inv [of fits] assms(1,2) h by (auto simp: daemon_inv_def reads_fit_def)
  qed
qed

definition event_fits :: "(int \<Rightarrow> app_config \<Rightarrow> bool) \<Rightarrow> daemon_event \<Rightarrow> bool" where
  "event_fits fits ev = (case ev of Profile_Notify p e \<Rightarrow> reads_fit fits e | _ \<Rightarrow> True)"

lemma daemon_step_inv:
  assumes "daemon_inv fits d" "event_fits fits ev"
  shows "daemon_inv fits (daemon_step ev d)"
proof (cases ev)
  case (Profile_Notify p e)
  then show ?thesis using assms handle_profile_notify_inv [of fits d e] by (auto simp: daemon_step_def event_fits_def split: option.splits)
next
  case (Wan_Notify p) then show ?thesis using assms(1) by (simp add: daemon_step_def)
next
  case (Thread_Started x)
  then show ?thesis using assms(1) by (auto simp: daemon_step_def forwarder_thread_main_def daemon_inv_def rt_shape_def split: option.splits)
next
  case Thread_Returned
  then show ?thesis using assms(1) by (auto simp: daemon_step_def thread_exit_def daemon_inv_def rt_shape_def)
qed

text \<open>Whatever the database holds, the dataplane only ever runs well formed configurations.\<close>

interpretation daemon: event_system daemon_init daemon_step "daemon_inv (\<lambda>_. loaded_ok)"
proof
  show "daemon_inv (\<lambda>_. loaded_ok) daemon_init" by (rule blank_inv)
  show "daemon_inv (\<lambda>_. loaded_ok) s \<Longrightarrow> daemon_inv (\<lambda>_. loaded_ok) (daemon_step e s)" for s e
    by (rule daemon_step_inv) (auto simp: event_fits_def reads_fit_def intro: loaded_config_ok_aux split: daemon_event.splits)
qed

section \<open>Properties\<close>


text \<open>C15: After any sequence of notifications, starts and ends of the dataplane thread, a profile is active exactly when the
  dataplane has a thread; the active slot then holds a well formed configuration of this profile, when the database
  returns for an id the profile with this id; and a dataplane that runs reads the active slot, never the slot into which
  the next configuration is read.\<close>

theorem daemon_runs_asked_profile:
  assumes "\<forall>ev \<in> set es. event_fits (\<lambda>i cfg. pf_id (hd (ac_profiles cfg)) = i) ev"
  shows "let d = fold daemon_step es daemon_init; rt = dm_rt d; cfg = rs_cfg_slots rt ! rs_active_slot rt in
      (rs_has_thread rt \<longleftrightarrow> dm_active_profile_id d > 0)
      \<and> (rs_has_thread rt \<longrightarrow> loaded_ok cfg \<and> pf_id (hd (ac_profiles cfg)) = dm_active_profile_id d)
      \<and> (rs_running rt \<longrightarrow> rs_has_thread rt \<and> rs_fwd_cfg rt = Some (rs_active_slot rt) \<and> rs_fwd_cfg rt \<noteq> Some (1 - rs_active_slot rt))"
proof -
  let ?d = "fold daemon_step es daemon_init" and ?fits = "\<lambda>i cfg. pf_id (hd (ac_profiles cfg)) = i"
  have step: "daemon_inv ?fits d \<Longrightarrow> \<forall>ev \<in> set es. event_fits ?fits ev \<Longrightarrow> daemon_inv ?fits (fold daemon_step es d)" for d es
    by (induction es arbitrary: d) (auto intro: daemon_step_inv)
  have "daemon_inv ?fits ?d" by (rule step [OF blank_inv assms])
  moreover have "daemon_inv (\<lambda>_. loaded_ok) ?d" by (rule daemon.reachable_inv)
  moreover have "Some (a :: nat) \<noteq> Some (1 - a)" for a by (cases a) auto
  ultimately show ?thesis by (auto simp: Let_def daemon_inv_def rt_shape_def)
qed

text \<open>C18: A notification for a profile ends in one of two states. Either the daemon is blank, because the profile does not
  exist, the database cannot be asked, or a step of the load failed; whatever ran before is stopped then. Or this profile
  is active with what was read for it: the active slot holds the configuration of one of the two reads, or it is left
  alone because the profile was active before and what was read counts as unchanged.\<close>

theorem notify_installs_profile:
  assumes "\<not> nv_stop_requested e" "handle_profile_notify e i (fold daemon_step es daemon_init) = (d', rc)"
  shows "d' = daemon_init \<and> (rc = -1 \<or> \<not> nv_profile_exists e i)
    \<or> rc = 0 \<and> nv_profile_exists e i \<and> dm_active_profile_id d' = i \<and> rs_has_thread (dm_rt d')
      \<and> (let d = fold daemon_step es daemon_init in
         \<exists>cfg. (config_load_from_db (nv_first_read e i) = Some cfg \<or> config_load_from_db (nv_second_read e i) = Some cfg)
         \<and> (rs_cfg_slots (dm_rt d') ! rs_active_slot (dm_rt d') = cfg
            \<or> dm_active_profile_id d = i \<and> rs_active_slot (dm_rt d') = rs_active_slot (dm_rt d)
               \<and> rs_cfg_slots (dm_rt d') ! rs_active_slot (dm_rt d') = rs_cfg_slots (dm_rt d) ! rs_active_slot (dm_rt d)
               \<and> config_db_unchanged (rs_cfg_slots (dm_rt d) ! rs_active_slot (dm_rt d)) cfg))"
  using handle_profile_notify_cases [OF assms(2,1) daemon.reachable_inv] by (auto simp: Let_def)

text \<open>C33: A profile in which a row of the policy table has a list is never unchanged: a notification after which both reads
  return exactly the configuration that is running still leads to a hot reload, with new copies of all keys; and when the
  reload is refused or does not finish in time, the dataplane is stopped, although nothing was to be done.\<close>

theorem unchanged_lists_reload:
  assumes "daemon_inv (\<lambda>_. loaded_ok) d" "rs_running (dm_rt d)" "dm_active_profile_id d = i"
    and "cfg = rs_cfg_slots (dm_rt d) ! rs_active_slot (dm_rt d)"
    and "config_load_from_db (nv_first_read e i) = Some cfg" "config_load_from_db (nv_second_read e i) = Some cfg"
    and "\<not> nv_stop_requested e" "nv_profile_exists e i"
    and "a \<in> set (ac_policies cfg)" "b \<in> set (ac_policies cfg)" "cp_db_id a = cp_db_id b" "a \<noteq> b"
  shows "handle_profile_notify e i d =
     (if snd (forwarder_queue_reload (nv_reload e)) = 0
      then (let n = 1 - rs_active_slot (dm_rt d) in
            d\<lparr>dm_rt := (dm_rt d)\<lparr>rs_cfg_slots := (rs_cfg_slots (dm_rt d))[n := cfg], rs_fwd_cfg := Some n, rs_active_slot := n\<rparr>\<rparr>, 0)
      else (daemon_init, -1))"
proof -
  let ?rt = "dm_rt d" and ?n = "1 - rs_active_slot (dm_rt d)"
  have rt: "rs_has_thread ?rt" "rs_fwd_cfg ?rt = Some (rs_active_slot ?rt)" "i > 0" "loaded_ok cfg" "length (rs_cfg_slots ?rt) = 2" "rs_active_slot ?rt < 2"
    using assms(1-4) by (auto simp: daemon_inv_def rt_shape_def)
  then have n: "?n \<noteq> rs_active_slot ?rt" by arith
  have changed: "\<not> config_db_unchanged cfg cfg"
    using assms(9-12) by (auto simp: config_db_unchanged_def policies_db_unchanged_sets same_row_same_policy_def)
  have topo: "forwarder_same_topology cfg cfg" using rt(4) by (auto simp: forwarder_same_topology_def loaded_ok_def)
  have reload: "forwarder_reload_config (nv_reload e) (Some cfg) cfg = forwarder_queue_reload (nv_reload e)"
    by (simp add: forwarder_reload_config_def topo forwarder_queue_reload_def)
  have switched: "fst (forwarder_queue_reload (nv_reload e))" if "snd (forwarder_queue_reload (nv_reload e)) = 0"
    using that reload_success_switched(1) [of "nv_reload e" "Some cfg" cfg] reload by (metis prod.collapse)
  have "apply_active_configs e i ?rt = (let (sw, rc) = forwarder_queue_reload (nv_reload e);
      rt = ?rt\<lparr>rs_cfg_slots := (rs_cfg_slots ?rt)[?n := cfg]\<rparr>; rt = (if sw then rt\<lparr>rs_fwd_cfg := Some ?n\<rparr> else rt) in
      if rc = 0 then (rt\<lparr>rs_active_slot := ?n\<rparr>, 0) else (rt, -1))"
    using rt(1-3) n assms(5) changed topo reload
    by (simp add: apply_active_configs_def load_profile_config_def Let_def assms(4) [symmetric] del: One_nat_def)
  then show ?thesis using assms(2,3,7,8) rt switched
    by (auto simp: handle_profile_notify_def load_profile_and_run_def Let_def split: prod.splits)
qed

section \<open>Examples\<close>

definition demo_reload :: "int \<Rightarrow> reload_env" where
  "demo_reload rc = \<lparr>re_stop = False, re_workers_ready = True, re_busy = False, re_finished = True, re_apply_stop = False,
     re_sync_ok = True, re_stop_before_rebuild = False, re_rebuild_rc = rc, re_stop_after_rebuild = False, re_stop_at_end = False\<rparr>"

text \<open>The database knows profile 7 only, with the rows of \<open>demo_answers\<close>.\<close>

definition demo_env :: "int \<Rightarrow> notify_env" where
  "demo_env rc = \<lparr>nv_stop_requested = False, nv_profile_exists = (\<lambda>i. i = 7),
     nv_first_read = (\<lambda>i. if i = 7 then Some demo_answers else None),
     nv_second_read = (\<lambda>i. if i = 7 then Some demo_answers else None),
     nv_stop_after_restart = False, nv_thread_created = True, nv_reload = demo_reload rc\<rparr>"

definition demo_config :: app_config where
  "demo_config = the (config_load_from_db (Some demo_answers))"

lemma demo_config_read: "config_load_from_db (Some demo_answers) = Some demo_config"
proof -
  have "config_load_from_db (Some demo_answers) \<noteq> None" by code_simp
  then show ?thesis by (simp add: demo_config_def)
qed

lemma demo_config_ok: "loaded_ok demo_config"
  by (rule loaded_config_ok_aux [OF demo_config_read])

text \<open>Profile 7 runs after it was asked for and its thread has started.\<close>

definition demo_daemon :: daemon where
  "demo_daemon = \<lparr>dm_rt = \<lparr>rs_has_thread = True, rs_running = True, rs_fwd_cfg = Some 0,
     rs_cfg_slots = [demo_config, zero_config], rs_active_slot = 0\<rparr>, dm_active_profile_id = 7\<rparr>"

lemma demo_cmd: "parse_notify_profile_cmd ''load:7'' = Some 7" by code_simp

lemma demo_run: "fold daemon_step [Profile_Notify ''load:7'' (demo_env 0), Thread_Started (Some True)] daemon_init = demo_daemon"
  by (simp add: daemon_step_def demo_cmd handle_profile_notify_def load_profile_and_run_def apply_active_configs_def load_profile_config_def
      demo_env_def demo_config_read runtime_start_def forwarder_thread_main_def demo_daemon_def Let_def)
    (simp add: daemon_init_def runtime_zero_def demo_config_read runtime_start_def)

theorem daemon_runs_asked_profile_witness:
  "let d = fold daemon_step [Profile_Notify ''load:7'' (demo_env 0), Thread_Started (Some True)] daemon_init; rt = dm_rt d; cfg = rs_cfg_slots rt ! rs_active_slot rt in
      (rs_has_thread rt \<longleftrightarrow> dm_active_profile_id d > 0)
      \<and> (rs_has_thread rt \<longrightarrow> loaded_ok cfg \<and> pf_id (hd (ac_profiles cfg)) = dm_active_profile_id d)
      \<and> (rs_running rt \<longrightarrow> rs_has_thread rt \<and> rs_fwd_cfg rt = Some (rs_active_slot rt) \<and> rs_fwd_cfg rt \<noteq> Some (1 - rs_active_slot rt))"
proof (rule daemon_runs_asked_profile)
  have "map_option (\<lambda>cfg. pf_id (hd (ac_profiles cfg))) (config_load_from_db (Some demo_answers)) = Some 7" by code_simp
  moreover have "config_load_from_db None = None" by (simp add: config_load_from_db_def)
  ultimately show "\<forall>ev \<in> set [Profile_Notify ''load:7'' (demo_env 0), Thread_Started (Some True)]. event_fits (\<lambda>i cfg. pf_id (hd (ac_profiles cfg)) = i) ev"
    by (auto simp: event_fits_def reads_fit_def demo_env_def split: if_splits)
qed

text \<open>A notification about profile 9, which the database does not hold, while profile 7 runs.\<close>

theorem notify_installs_profile_witness:
  "fst (handle_profile_notify (demo_env 0) 9 demo_daemon) = daemon_init"
proof -
  obtain d' rc where h: "handle_profile_notify (demo_env 0) 9 (fold daemon_step [Profile_Notify ''load:7'' (demo_env 0), Thread_Started (Some True)] daemon_init) = (d', rc)"
    by (metis prod.exhaust)
  have "\<not> nv_stop_requested (demo_env 0)" "\<not> nv_profile_exists (demo_env 0) 9" by (simp_all add: demo_env_def)
  with notify_installs_profile [OF this(1) h] have "d' = daemon_init" by blast
  then show ?thesis using h unfolding demo_run by simp
qed

lemma demo_inv: "daemon_inv (\<lambda>_. loaded_ok) demo_daemon"
  by (simp add: daemon_inv_def rt_shape_def demo_daemon_def demo_config_ok)

lemma demo_expanded: "\<exists>a \<in> set (ac_policies demo_config). \<exists>b \<in> set (ac_policies demo_config). cp_db_id a = cp_db_id b \<and> a \<noteq> b"
proof -
  let ?P = "\<lambda>cps. 1 < length cps \<and> cp_db_id (cps ! 0) = cp_db_id (cps ! 1) \<and> cp_dst_port_to (cps ! 0) \<noteq> cp_dst_port_to (cps ! 1)"
  have "map_option (\<lambda>c. ?P (ac_policies c)) (config_load_from_db (Some demo_answers)) = Some True" by code_simp
  then have p: "?P (ac_policies demo_config)" by (simp add: demo_config_read)
  then have "ac_policies demo_config ! 0 \<in> set (ac_policies demo_config)" "ac_policies demo_config ! 1 \<in> set (ac_policies demo_config)"
    by (intro nth_mem, linarith)+
  then show ?thesis using p by metis
qed

theorem unchanged_lists_reload_witness:
  "handle_profile_notify (demo_env (-1)) 7 demo_daemon = (daemon_init, -1)
   \<and> rs_active_slot (dm_rt (fst (handle_profile_notify (demo_env 0) 7 demo_daemon))) = 1"
proof -
  obtain a b where ab: "a \<in> set (ac_policies demo_config)" "b \<in> set (ac_policies demo_config)" "cp_db_id a = cp_db_id b" "a \<noteq> b"
    using demo_expanded by blast
  have slot: "demo_config = rs_cfg_slots (dm_rt demo_daemon) ! rs_active_slot (dm_rt demo_daemon)" by (simp add: demo_daemon_def)
  have d: "rs_running (dm_rt demo_daemon)" "dm_active_profile_id demo_daemon = 7" by (simp_all add: demo_daemon_def)
  have q: "snd (forwarder_queue_reload (nv_reload (demo_env rc))) = rc" for rc
    by (simp add: demo_env_def forwarder_queue_reload_def forwarder_reload_config_impl_def demo_reload_def)
  have e: "config_load_from_db (nv_first_read (demo_env rc) 7) = Some demo_config" "config_load_from_db (nv_second_read (demo_env rc) 7) = Some demo_config"
    "\<not> nv_stop_requested (demo_env rc)" "nv_profile_exists (demo_env rc) 7" for rc by (simp_all add: demo_env_def demo_config_read)
  note u = unchanged_lists_reload [OF demo_inv d slot e ab, unfolded q]
  show ?thesis using u [of "-1"] u [of 0] by (simp add: Let_def demo_daemon_def)
qed


end
