(* ===== verification/Spec2Isabelle.thy ===== *)
theory Spec2Isabelle
  imports NE_Ring Flow_Table Eth_Parse Policy_Config Packet_Util Crypto_Route Udp_Reorder
    Reorder_Cap Packet_Crypto Base64 Crypto_Option Frag_Table L2_Option L2_Split L2_Safety Wan_Scheduler Cfm_Link
    Pqc_Handshake Key_Cutover Cutover_Hitless Dataplane_Rotation
    Mac_Table Mac_Learn Dataplane_State Arp_Bridge Local_Egress Wan_Ingress Ingress_Safety Dataplane_Faults
    Bpf_Filter Egress_Crypto Egress_Safety Xsk_Faults Db_Config Daemon
begin

text \<open>
  Network encryptor: verification development of the repository's C program.

  The program. An appliance sits between the LAN ports of a site and its WAN links. Two such appliances encrypt the
  traffic of their sites: a packet of the LAN is matched with a crypto policy, its payload is sealed with AES-GCM under
  a key of the post-quantum key exchange, and it leaves on one of the WANs with a marker in front of the IP header; the
  peer finds the policy by the wire id in the marker, opens the payload, and puts the packet out on the LAN port of the
  station. Receive threads fill rings of frame descriptors, crypto workers (one handler call per packet) take packets
  from them and push the results to the rings of the transmit threads. Around this data path stand: the policies and
  their lookup tables; the choice of a WAN by weight, load, operator command and link state; the link monitor; the key
  exchange with its rotation of session keys; the runtime that publishes keys to the workers and survives a reload of
  the configuration; the table of LAN stations learnt from ARP; the ARP bridge between the two sites; and the buffer
  that puts the UDP datagrams of a flow back into order.

  Theories and sources (paths below \<open>src/\<close> of the repository; every definition that models code has its name).

  \<^item> \<open>NE_Prelude\<close>: C integers as words, buffers with checked access (\<open>None\<close> is an access outside the object),
    big-endian fields, bounded searches; the locales \<open>event_system\<close> (invariants of runs) and \<open>bounded_fifo\<close>.
  \<^item> \<open>NE_Ring\<close> (\<open>core/iface/xdp_interface.c\<close>): packet rings and the frame pool; both interpret \<open>bounded_fifo\<close>.
  \<^item> \<open>Xsk_Rings\<close> (\<open>include/xdp/xsk.h\<close>): the rings that a queue shares with the kernel, and the kernel's side of them.
    \<open>Xsk_Queue\<close>: one queue of a port (receive, release, fill, complete, send, reclaim); \<open>Xsk_Pair\<close>: all queues of the
    ports, their division among transmit slots, opening, adding and removing ports (\<open>xdp_interface.c\<close>, parts of
    \<open>forwarder.c\<close>). \<open>Xsk_System\<close> is the step relation of receive threads, transmit threads, workers and kernel while
    no port is removed; a worker takes the primitive steps of its handler (take a frame from the pool, free a frame,
    push one or both halves of a split to a ring), each only with frames it holds. \<open>Xsk_Faults\<close> says which thread owns a queue,
    and where frames are lost or owned twice.
  \<^item> \<open>Bpf_Filter\<close> (\<open>bpf/lan.c\<close>, \<open>bpf/wan.c\<close>): which packets of a port are redirected to the program.
  \<^item> \<open>Eth_Parse\<close> (\<open>crypto/common/eth_parse.c\<close>), \<open>Packet_Util\<close> (\<open>core/dataplane/packet_util.c\<close>): parsing of frames, the
    clamp of the TCP segment size, five-tuples, ARP fields, the push to an output ring.
  \<^item> \<open>Policy_Config\<close> (\<open>db/config.c\<close>, \<open>inc/core/util/config.h\<close>): profiles, policies and their matching in both directions.
  \<^item> \<open>Flow_Table\<close> (\<open>core/flow/flow_table.c\<close>): smooth weighted round robin; \<open>Crypto_Route\<close> (\<open>core/dataplane/crypto_route.c\<close>):
    the worker and the transmit slot of a flow, its UDP sequence numbers; the locale \<open>event_system\<close> for other threads.
  \<^item> \<open>Udp_Reorder\<close> (\<open>core/dataplane/udp_reorder.c\<close>): the reorder buffer of one worker, below the cap of
    packets that a worker may hold; \<open>Reorder_Cap\<close>: what happens at the cap.
  \<^item> \<open>Packet_Crypto\<close> (\<open>crypto/common/packet_crypto.c\<close>, \<open>crypto/pqc/traffic_crypto.c\<close>, \<open>crypto_pqc_layer.h\<close>): key slots,
    nonces, sealing and opening with the fallback from the current to the next and the previous key; \<open>Base64\<close>.
  \<^item> \<open>Crypto_Option\<close>, \<open>Option_Router\<close> (\<open>crypto/common/crypto_option_router.c\<close>, \<open>crypto_option_registry.c\<close>,
    \<open>crypto/options/common/opt_no_frag_ops.c\<close>): state and dispatch of the wire formats.
  \<^item> \<open>Frag_Table\<close>, \<open>L2_Option\<close> (\<open>crypto/pqc/pqc_l2_option.c\<close>): the wire format itself, with the split of a datagram into two
    frames and the table that joins them. \<open>L2_Correct\<close>, \<open>L2_Udp\<close>, \<open>L2_Reassembly\<close>, \<open>L2_Properties\<close> and \<open>L2_Split\<close> hold its
    round trips, \<open>L2_Safety\<close> its memory safety for whatever arrives.
  \<^item> \<open>Cfm_Link\<close> (\<open>core/failover/cfm_diag.c\<close>): the monitor of a link; \<open>Wan_Scheduler\<close> (\<open>core/forwarder/wan_scheduler.c\<close>,
    \<open>core/failover/wan_admin.c\<close>, \<open>wan_failover.c\<close>): the choice of WANs and the operator's commands.
  \<^item> \<open>Pqc_Handshake\<close> (\<open>crypto/pqc/pqc_handshake.c\<close>): messages and handlers of the key exchange; \<open>Key_Cutover\<close> and
    \<open>Cutover_Hitless\<close>: the two peers and the network as a step relation, which also records the sessions the responder has
    started, and what holds in every state of a run in which it starts none twice (it does when an old \<open>HELLO\<close> comes
    again after four later sessions).
  \<^item> \<open>Crypto_Runtime\<close> (\<open>core/forwarder/crypto_runtime.c\<close>): contexts, copies of the workers, wire id tables, the grace after
    a reload, the lifetime of keys; \<open>Dataplane_Rotation\<close>: the key exchange, the runtime and the encryption together, for senders
    that have the keys of the present state and for packets under way since before the last promotion.
  \<^item> \<open>Mac_Table\<close>, \<open>Mac_Learn\<close> (\<open>core/flow/mac_learn.c\<close>): the table of stations (locale \<open>forwarding_db\<close>, interpreted by the
    table), the rules of learning, and the file in which the table survives a restart.
  \<^item> \<open>Dataplane_State\<close>: the record on which the handlers work, and the multiset of frames it owns; \<open>Arp_Bridge\<close>
    (\<open>core/dataplane/arp_bridge.c\<close>), \<open>Local_Egress\<close> (\<open>local_egress.c\<close>), \<open>Wan_Ingress\<close> (\<open>wan_ingress.c\<close>): the handlers.
    \<open>Ingress_Safety\<close>: the handler of WAN packets is safe and conserves frames; \<open>Egress_Crypto\<close>, \<open>Egress_Safety\<close>: the
    handler of LAN packets is safe, conserves frames and lets no packet of an encrypting policy out in the clear;
    \<open>Dataplane_Faults\<close>: where handlers do not.
  \<^item> \<open>Db_Config\<close> (\<open>db/db_config.c\<close>): what the rows of the database become: network items, port and protocol fields, local
    ports, WANs, policies with their wire ids and their expansion, and the load of a whole profile.
  \<^item> \<open>Daemon\<close> (\<open>main.c\<close>, \<open>core/forwarder/config_reload.c\<close>, \<open>db/db_runtime.c\<close>): commands of the channel, the comparison of the
    running with the loaded configuration, application and hot reload of a profile, fall back to the blank state; it
    interprets \<open>event_system\<close>.
\<close>

text \<open>
  What the lemmas show. A statement \<open>f x = Some y\<close> about a definition in the memory monad says that the code returns and that
  each of its accesses stays inside its object; loops are functions with a termination proof, or partial functions whose
  value \<open>None\<close> is also "does not return", so that such a statement includes termination. Functional lemmas follow each
  operation through its branches; invariants (\<open>ring_ok\<close>, \<open>pool_ok\<close>, \<open>prod_ok\<close>, \<open>cons_ok\<close>, \<open>queue_ok\<close>, \<open>sys_ok\<close>,
  \<open>reorder_inv\<close>, \<open>table_ok\<close>, \<open>runtime_wf\<close>, \<open>route_ok\<close>, \<open>worker_ok\<close>, \<open>sender_ok\<close>, the invariants of \<open>cutover\<close>) come with a lemma for each operation; the numbered properties (C1, ...) are
  built from these. Faults that the models show are stated as theorems too.

  Parameters and hypotheses. The cipher library behind \<open>scrypt.h\<close> is a binary: it is the record \<open>scrypt_lib\<close> (and \<open>hs_lib\<close> for
  digest, signature and key encapsulation), and what is assumed of it is named: \<open>scrypt_gcm\<close> (opening with the same
  key, nonce and additional data restores what was sealed), \<open>lib_bounded\<close> (no call writes more bytes than it is given), \<open>lib_fine\<close> (also: a call that
  succeeds delivers a tag of the length asked for, and the random generator the bytes asked for),
  \<open>keys_told_apart\<close> (another key does not open a payload), \<open>encap_ok\<close> (both sides of an encapsulation get the same
  secret). XOR with the key is the instance that shows the hypotheses can hold. Clocks, random numbers, failing
  allocations and system calls are the records \<open>os_env\<close>, \<open>hs_env\<close>, \<open>mac_io\<close> and \<open>dp_env\<close>, the answers of the database and of
  the dataplane to the daemon the records \<open>db_answers\<close>, \<open>notify_env\<close> and \<open>reload_env\<close>; the theorems quantify over all of them.

  Concurrency. What the code does under a lock is one step; the lock-free parts (the UDP epoch, the routes, the
  publication of keys by a generation counter) are sequences of the atomic steps of all threads. The frames of the program
  are followed through the operations of all threads and of the kernel, in any order, by the step relation \<open>xsk_step\<close>;
  its kernel does what the documentation of AF_XDP sockets says. The handlers of a worker work on the state of this
  worker; the rings and the pool are part of it, and the operations of the other ends are not interleaved with a handler
  call. Two places of the code are less atomic than their models: lookups in the crypto runtime read its tables without the lock
  that a rebuild holds, and learning a station gives the lock of the table up while it prints, before it saves the
  file; the model takes each of them as one step. A handler takes the frame of its packet to have \<open>NE_FRAME\<close> bytes from the packet's address on, as the code does.

  Bounds and fuel. Recursion is structural, by a measure, or partial; there is no fuel, except that searches run over the
  size of the array they search (4096 fragment entries in windows of eight, 8192 sets of 8 routes, 512 flows with a
  window of 256 packets, 256 stations), which is the bound of the code's own loops. Machine words keep their width
  where the code can wrap (ring counters, sequence numbers, nonces, checksums, lengths); where naturals or integers
  stand for them a lemma or an invariant keeps them in range.

  Not modelled. Third-party code (\<open>include/\<close> but for the ring functions of \<open>xsk.h\<close>, \<open>lib/\<close>) and everything whose work is
  input and output: the creation of the frame memory and of sockets, the \<open>ioctl\<close> and shell settings of ports and the
  descriptors waited for (rest of \<open>xdp_interface.c\<close>), the attaching of the filters (\<open>profile_xdp.c\<close>), the loops of
  the threads and their start and stop (rest of \<open>forwarder.c\<close>, \<open>profile_lifecycle.c\<close>, \<open>idle.c\<close>), the connection to the
  database and its queries (their answers are inputs of the model) and the vault (\<open>db_env.c\<close>, \<open>vault.c\<close>), the key files,
  the inter-process channel and the log of the key exchange, its registry of identities and its worker loop, the
  options of the command line and its diagnostic output (parts of \<open>main.c\<close>, \<open>main_diag.c\<close>), statistics, and the
  placement of threads on processors. Log output is left out everywhere.
\<close>

end
